(* ===== verification/Rust_Str.thy ===== *)
theory Rust_Str
  imports Soso_Prelude
begin

text \<open>
  The operations of \<open>core::str\<close> that the sources use.  A Rust string is its UTF-8
  byte sequence, so \<open>string\<close> (a list of 8-bit characters) is the exact data type;
  \<open>utf8_valid\<close> is the test of \<open>core::str::from_utf8\<close>, and \<open>trim\<close> removes
  every Unicode \<open>White_Space\<close> character, recognised by its UTF-8 encoding.
\<close>

abbreviation (input) NL :: char where "NL \<equiv> CHR 0x0A"
abbreviation (input) CR :: char where "CR \<equiv> CHR 0x0D"
abbreviation (input) NUL :: char where "NUL \<equiv> CHR 0x00"

section \<open>Prefixes\<close>

definition starts_with :: "string \<Rightarrow> string \<Rightarrow> bool" where
  "starts_with p s = (take (length p) s = p)"

definition ends_with :: "string \<Rightarrow> string \<Rightarrow> bool" where
  "ends_with p s = starts_with (rev p) (rev s)"

definition strip_prefix :: "string \<Rightarrow> string \<Rightarrow> string option" where
  "strip_prefix p s = (if starts_with p s then Some (drop (length p) s) else None)"

lemma starts_with_append [simp]: "starts_with p (p @ s)"
  by (simp add: starts_with_def)

lemma starts_with_prefix: "starts_with p s \<longleftrightarrow> prefix p s"
  by (metis append_take_drop_id prefixI prefix_def starts_with_append starts_with_def)

lemma starts_with_Nil [simp]: "starts_with [] s" "starts_with (c # p) [] = False"
  by (simp_all add: starts_with_def)

lemma starts_with_Cons [simp]: "starts_with (c # p) (d # s) \<longleftrightarrow> c = d \<and> starts_with p s"
  by (auto simp: starts_with_def)

lemma strip_prefix_append [simp]: "strip_prefix p (p @ s) = Some s"
  by (simp add: strip_prefix_def)

lemma strip_prefix_simps [simp]:
  "strip_prefix [] s = Some s"
  "strip_prefix (c # p) [] = None"
  "strip_prefix (c # p) (d # s) = (if c = d then strip_prefix p s else None)"
  by (simp_all add: strip_prefix_def)

lemma strip_prefix_Some: "strip_prefix p s = Some r \<longleftrightarrow> s = p @ r"
proof (induction p arbitrary: s)
  case (Cons a p)
  then show ?case by (cases s) auto
qed auto

section \<open>White space\<close>

definition ws_seqs :: "string list" where
  "ws_seqs =
     [[CHR 0x09], [CHR 0x0A], [CHR 0x0B], [CHR 0x0C], [CHR 0x0D], [CHR 0x20],
      [CHR 0xC2, CHR 0x85], [CHR 0xC2, CHR 0xA0], [CHR 0xE1, CHR 0x9A, CHR 0x80],
      [CHR 0xE2, CHR 0x80, CHR 0x80], [CHR 0xE2, CHR 0x80, CHR 0x81],
      [CHR 0xE2, CHR 0x80, CHR 0x82], [CHR 0xE2, CHR 0x80, CHR 0x83],
      [CHR 0xE2, CHR 0x80, CHR 0x84], [CHR 0xE2, CHR 0x80, CHR 0x85],
      [CHR 0xE2, CHR 0x80, CHR 0x86], [CHR 0xE2, CHR 0x80, CHR 0x87],
      [CHR 0xE2, CHR 0x80, CHR 0x88], [CHR 0xE2, CHR 0x80, CHR 0x89],
      [CHR 0xE2, CHR 0x80, CHR 0x8A], [CHR 0xE2, CHR 0x80, CHR 0xA8],
      [CHR 0xE2, CHR 0x80, CHR 0xA9], [CHR 0xE2, CHR 0x80, CHR 0xAF],
      [CHR 0xE2, CHR 0x81, CHR 0x9F], [CHR 0xE3, CHR 0x80, CHR 0x80]]"

definition pref_len :: "string list \<Rightarrow> string \<Rightarrow> nat" where
  "pref_len ws s = (case find (\<lambda>w. starts_with w s) ws of None \<Rightarrow> 0 | Some w \<Rightarrow> length w)"

lemma pref_len_le: "pref_len ws s \<le> length s"
  by (auto simp: pref_len_def starts_with_prefix find_Some_iff dest: prefix_length_le
      split: option.splits)

function strip_seqs :: "string list \<Rightarrow> string \<Rightarrow> string" where
  "strip_seqs ws s =
     (if pref_len ws s = 0 then s else strip_seqs ws (drop (pref_len ws s) s))"
  by pat_completeness auto
termination
proof (relation "measure (\<lambda>(ws, s). length s)", goal_cases)
  case (2 ws s)
  then have "0 < pref_len ws s" "pref_len ws s \<le> length s"
    using pref_len_le [of ws s] by auto
  then show ?case by auto
qed simp

declare strip_seqs.simps [simp del]

definition trim_start :: "string \<Rightarrow> string" where
  "trim_start s = strip_seqs ws_seqs s"

definition trim_end :: "string \<Rightarrow> string" where
  "trim_end s = rev (strip_seqs (map rev ws_seqs) (rev s))"

definition trim :: "string \<Rightarrow> string" where
  "trim s = trim_end (trim_start s)"

definition ws_head :: "char set" where "ws_head = set (map hd ws_seqs)"
definition ws_last :: "char set" where "ws_last = set (map last ws_seqs)"
definition ws_byte :: "char set" where "ws_byte = \<Union> (set ` set ws_seqs)"

lemma ws_seqs_ne: "w \<in> set ws_seqs \<Longrightarrow> w \<noteq> []"
  by (auto simp: ws_seqs_def)

lemma pref_len_0I: "(\<And>w. w \<in> set ws \<Longrightarrow> \<not> starts_with w s) \<Longrightarrow> pref_len ws s = 0"
  by (auto simp: pref_len_def find_Some_iff split: option.splits)

lemma strip_seqs_id: "pref_len ws s = 0 \<Longrightarrow> strip_seqs ws s = s"
  by (subst strip_seqs.simps) simp

lemma pref_len_no_head:
  assumes "\<And>w. w \<in> set ws \<Longrightarrow> w \<noteq> [] \<and> hd w \<noteq> c"
  shows "pref_len ws (c # s) = 0"
proof (rule pref_len_0I)
  fix w assume "w \<in> set ws"
  from assms [OF this] show "\<not> starts_with w (c # s)" by (cases w) auto
qed

lemma strip_seqs_Nil:
  assumes "\<And>w. w \<in> set ws \<Longrightarrow> w \<noteq> []"
  shows "strip_seqs ws [] = []"
proof (rule strip_seqs_id, rule pref_len_0I)
  fix w assume "w \<in> set ws"
  from assms [OF this] show "\<not> starts_with w []" by (cases w) auto
qed

lemma trim_start_Cons: "c \<notin> ws_head \<Longrightarrow> trim_start (c # s) = c # s"
  unfolding trim_start_def
  by (rule strip_seqs_id, rule pref_len_no_head) (auto simp: ws_head_def dest: ws_seqs_ne)

lemma trim_start_Nil [simp]: "trim_start [] = []"
  unfolding trim_start_def by (rule strip_seqs_Nil) (rule ws_seqs_ne)

lemma trim_end_Nil [simp]: "trim_end [] = []"
proof -
  have "strip_seqs (map rev ws_seqs) [] = []"
    by (rule strip_seqs_Nil) (auto dest: ws_seqs_ne)
  then show ?thesis by (simp add: trim_end_def)
qed

lemma trim_Nil [simp]: "trim [] = []"
  by (simp add: trim_def)

lemma trim_end_snoc: "c \<notin> ws_last \<Longrightarrow> trim_end (s @ [c]) = s @ [c]"
proof -
  assume c: "c \<notin> ws_last"
  have "pref_len (map rev ws_seqs) (c # rev s) = 0"
    using c by (intro pref_len_no_head) (auto simp: ws_last_def hd_rev dest: ws_seqs_ne)
  then show ?thesis by (simp add: trim_end_def strip_seqs_id)
qed

lemma ws_last_byte: "ws_last \<subseteq> ws_byte"
  by (auto simp: ws_last_def ws_byte_def dest: ws_seqs_ne intro!: bexI last_in_set)

lemma ws_head_byte: "ws_head \<subseteq> ws_byte"
  by (auto simp: ws_head_def ws_byte_def dest: ws_seqs_ne intro!: bexI hd_in_set)

text \<open>A byte that occurs in no white space encoding stops the trimming from the right:
  what stands before it is kept as it is.\<close>

lemma starts_with_barrier:
  assumes "c \<notin> set w"
  shows "starts_with w (s @ c # t) \<longleftrightarrow> starts_with w s"
proof -
  have "prefix w (s @ c # t) \<Longrightarrow> prefix w s"
  proof -
    assume "prefix w (s @ c # t)"
    then consider "prefix w s" | u where "w = s @ u" "prefix u (c # t)"
      by (auto simp: prefix_append)
    then show ?thesis using assms by cases (auto simp: prefix_Cons)
  qed
  then show ?thesis by (auto simp: starts_with_prefix prefix_append)
qed

lemma strip_seqs_barrier:
  assumes "\<And>w. w \<in> set ws \<Longrightarrow> w \<noteq> [] \<and> c \<notin> set w"
  shows "strip_seqs ws (s @ c # t) = strip_seqs ws s @ c # t"
proof (induction "length s" arbitrary: s rule: less_induct)
  case less
  have eq: "pref_len ws (s @ c # t) = pref_len ws s"
  proof -
    have "find (\<lambda>w. starts_with w (s @ c # t)) ws = find (\<lambda>w. starts_with w s) ws"
      using assms by (intro find_cong) (auto simp: starts_with_barrier)
    then show ?thesis by (simp add: pref_len_def)
  qed
  show ?case
  proof (cases "pref_len ws s = 0")
    case True
    with eq show ?thesis by (simp add: strip_seqs_id)
  next
    case False
    let ?n = "pref_len ws s"
    have n: "?n \<le> length s" by (rule pref_len_le)
    with False have lt: "length (drop ?n s) < length s" by auto
    have "strip_seqs ws (s @ c # t) = strip_seqs ws (drop ?n s @ c # t)"
      using False eq n by (subst strip_seqs.simps) simp
    also have "\<dots> = strip_seqs ws (drop ?n s) @ c # t" by (rule less [OF lt])
    also have "strip_seqs ws (drop ?n s) = strip_seqs ws s"
      using False by (subst (2) strip_seqs.simps) simp
    finally show ?thesis .
  qed
qed

lemma trim_end_barrier: "c \<notin> ws_byte \<Longrightarrow> trim_end (a @ c # v) = a @ c # trim_end v"
proof -
  assume "c \<notin> ws_byte"
  then have "w \<noteq> [] \<and> c \<notin> set w" if "w \<in> set (map rev ws_seqs)" for w
    using that by (auto simp: ws_byte_def dest: ws_seqs_ne)
  from strip_seqs_barrier [of "map rev ws_seqs", OF this] show ?thesis
    by (simp add: trim_end_def)
qed

lemma trim_barrier:
  "a \<noteq> [] \<Longrightarrow> hd a \<notin> ws_head \<Longrightarrow> c \<notin> ws_byte \<Longrightarrow> trim (a @ c # v) = a @ c # trim_end v"
  by (cases a) (auto simp: trim_def trim_start_Cons trim_end_barrier [of c "_ # _", simplified])

lemma ws_byte_code: "c \<in> ws_byte \<longleftrightarrow> c \<in> set (concat ws_seqs)"
  by (auto simp: ws_byte_def)

lemma ws_byte_ascii: "33 \<le> (of_char c :: nat) \<Longrightarrow> (of_char c :: nat) < 127 \<Longrightarrow> c \<notin> ws_byte"
  by (auto simp: ws_byte_def ws_seqs_def)

section \<open>Lines\<close>

fun split_inclusive :: "char \<Rightarrow> string \<Rightarrow> string list" where
  "split_inclusive d [] = []"
| "split_inclusive d (c # cs) =
     (if c = d then [c] # split_inclusive d cs
      else case split_inclusive d cs of [] \<Rightarrow> [[c]] | l # ls \<Rightarrow> (c # l) # ls)"

text \<open>\<open>str::lines\<close>: the line terminator and a carriage return before it are removed.\<close>

definition chomp_cr :: "string \<Rightarrow> string" where
  "chomp_cr l = (if l \<noteq> [] \<and> last l = CR then butlast l else l)"

definition chomp :: "string \<Rightarrow> string" where
  "chomp l = (if l \<noteq> [] \<and> last l = NL then chomp_cr (butlast l) else l)"

definition lines :: "string \<Rightarrow> string list" where
  "lines s = map chomp (split_inclusive NL s)"

definition tlines :: "string \<Rightarrow> string list" where
  "tlines s = map trim (lines s)"

lemma split_inclusive_line:
  "d \<notin> set l \<Longrightarrow> split_inclusive d (l @ d # s) = (l @ [d]) # split_inclusive d s"
  by (induction l) auto

lemma split_inclusive_last:
  "d \<notin> set l \<Longrightarrow> l \<noteq> [] \<Longrightarrow> split_inclusive d l = [l]"
proof (induction l)
  case (Cons c l)
  then show ?case by (cases "l = []") auto
qed simp

lemma lines_Nil [simp]: "lines [] = []"
  by (simp add: lines_def)

lemma lines_line: "NL \<notin> set l \<Longrightarrow> lines (l @ NL # s) = chomp_cr l # lines s"
  by (simp add: lines_def split_inclusive_line chomp_def)

lemma tlines_Nil [simp]: "tlines [] = []"
  by (simp add: tlines_def)

text \<open>A trailing ASCII white space byte never matters to \<open>trim\<close>.\<close>

definition ws1 :: "char \<Rightarrow> bool" where
  "ws1 c = (c = NL \<or> c = CR \<or> c = CHR 0x20 \<or> c = CHR 0x09)"

lemma ws1_seqs: "ws1 c \<Longrightarrow> [c] \<in> set ws_seqs"
  by (auto simp: ws1_def ws_seqs_def)

lemma ws1_only: "ws1 c \<Longrightarrow> w \<in> set ws_seqs \<Longrightarrow> w \<noteq> [c] \<Longrightarrow> c \<notin> set w"
  by (auto simp: ws1_def ws_seqs_def)

lemma pref_len_single:
  assumes "ws1 c" "ws = ws_seqs \<or> ws = map rev ws_seqs"
  shows "pref_len ws (c # s) = 1"
proof -
  have "starts_with w (c # s) \<longleftrightarrow> w = [c]" if "w \<in> set ws_seqs \<or> rev w \<in> set ws_seqs" for w
    using that assms(1) by (cases w) (auto simp: ws1_def ws_seqs_def)
  then have "find (\<lambda>w. starts_with w (c # s)) ws = Some w \<Longrightarrow> w = [c]" for w
    using assms(2) by (auto simp: find_Some_iff)
  moreover have "find (\<lambda>w. starts_with w (c # s)) ws \<noteq> None"
    using ws1_seqs [OF assms(1)] assms(2) by (auto simp: find_None_iff image_iff intro!: exI [of _ "[c]"])
  ultimately show ?thesis by (auto simp: pref_len_def split: option.splits)
qed

lemma trim_end_ws1: "ws1 c \<Longrightarrow> trim_end (l @ [c]) = trim_end l"
proof -
  assume "ws1 c"
  then have "pref_len (map rev ws_seqs) (c # s) = 1" for s by (rule pref_len_single) simp
  then have "strip_seqs (map rev ws_seqs) (c # s) = strip_seqs (map rev ws_seqs) s" for s
    by (subst strip_seqs.simps) simp
  then show ?thesis by (simp add: trim_end_def)
qed

lemma trim_start_snoc_ws1:
  assumes c: "ws1 c"
  shows "trim_start (l @ [c]) = (if trim_start l = [] then [] else trim_start l @ [c])"
  unfolding trim_start_def
proof (induction "length l" arbitrary: l rule: less_induct)
  case less
  show ?case
  proof (cases l)
    case Nil
    have "pref_len ws_seqs [c] = 1" using c by (rule pref_len_single) simp
    then have "strip_seqs ws_seqs [c] = []"
      by (subst strip_seqs.simps) (simp add: strip_seqs_Nil ws_seqs_ne)
    then show ?thesis using Nil by (simp add: strip_seqs_Nil ws_seqs_ne)
  next
    case (Cons d l')
    have sw: "starts_with w (l @ [c]) \<longleftrightarrow> starts_with w l" if "w \<in> set ws_seqs" for w
    proof (cases "w = [c]")
      case True
      then show ?thesis using Cons by auto
    next
      case False
      then show ?thesis using starts_with_barrier [of c w l "[]"] ws1_only [OF c that] by simp
    qed
    have eq: "pref_len ws_seqs (l @ [c]) = pref_len ws_seqs l"
    proof -
      have "find (\<lambda>w. starts_with w (l @ [c])) ws_seqs = find (\<lambda>w. starts_with w l) ws_seqs"
        using sw by (intro find_cong) auto
      then show ?thesis by (simp add: pref_len_def)
    qed
    show ?thesis
    proof (cases "pref_len ws_seqs l = 0")
      case True
      then show ?thesis using eq Cons by (simp add: strip_seqs_id)
    next
      case False
      let ?n = "pref_len ws_seqs l"
      have n: "?n \<le> length l" by (rule pref_len_le)
      with False have "length (drop ?n l) < length l" by auto
      from less [OF this] show ?thesis
        using False eq n by (subst (1 2 3) strip_seqs.simps) simp
    qed
  qed
qed

lemma trim_ws1: "ws1 c \<Longrightarrow> trim (l @ [c]) = trim l"
  by (auto simp: trim_def trim_start_snoc_ws1 trim_end_ws1)

lemma trim_cr: "trim (l @ [CR]) = trim l" and trim_nl: "trim (l @ [NL]) = trim l"
  by (simp_all add: trim_ws1 ws1_def)

lemma trim_chomp_cr: "trim (chomp_cr l) = trim l"
proof (cases "l \<noteq> [] \<and> last l = CR")
  case True
  then have "l = butlast l @ [CR]" by (metis append_butlast_last_id)
  then have "trim l = trim (butlast l)" by (metis trim_cr)
  with True show ?thesis by (simp add: chomp_cr_def)
next
  case False
  then show ?thesis by (auto simp: chomp_cr_def)
qed

lemma tlines_line: "NL \<notin> set l \<Longrightarrow> tlines (l @ NL # s) = trim l # tlines s"
  by (simp add: tlines_def lines_line trim_chomp_cr)

section \<open>Splitting\<close>

fun split_on :: "char \<Rightarrow> string \<Rightarrow> string list" where
  "split_on d [] = [[]]"
| "split_on d (c # cs) =
     (if c = d then [] # split_on d cs
      else case split_on d cs of [] \<Rightarrow> [[c]] | l # ls \<Rightarrow> (c # l) # ls)"

fun split_once :: "char \<Rightarrow> string \<Rightarrow> (string \<times> string) option" where
  "split_once d [] = None"
| "split_once d (c # cs) =
     (if c = d then Some ([], cs) else map_option (\<lambda>(a, b). (c # a, b)) (split_once d cs))"

fun splitn :: "nat \<Rightarrow> char \<Rightarrow> string \<Rightarrow> string list" where
  "splitn 0 d s = []"
| "splitn (Suc 0) d s = [s]"
| "splitn (Suc (Suc n)) d s =
     (case split_once d s of None \<Rightarrow> [s] | Some (a, b) \<Rightarrow> a # splitn (Suc n) d b)"

lemma split_once_append [simp]: "d \<notin> set a \<Longrightarrow> split_once d (a @ d # b) = Some (a, b)"
  by (induction a) auto

lemma split_once_None [simp]: "split_once d s = None \<longleftrightarrow> d \<notin> set s"
  by (induction s) auto

lemma split_once_Some: "split_once d s = Some (a, b) \<longleftrightarrow> s = a @ d # b \<and> d \<notin> set a"
proof
  show "split_once d s = Some (a, b) \<Longrightarrow> s = a @ d # b \<and> d \<notin> set a"
    by (induction s arbitrary: a) (auto split: if_splits)
qed auto

lemma split_on_ne [simp]: "split_on d s \<noteq> []"
  by (cases s) (auto split: list.splits)

lemma split_on_nosep: "d \<notin> set s \<Longrightarrow> split_on d s = [s]"
  by (induction s) (auto split: list.splits)

lemma split_on_append: "d \<notin> set a \<Longrightarrow> split_on d (a @ d # b) = a # split_on d b"
  by (induction a) (auto split: list.splits)

lemma splitn_Suc_append [simp]:
  "d \<notin> set a \<Longrightarrow> splitn (Suc (Suc n)) d (a @ d # b) = a # splitn (Suc n) d b"
  by simp

text \<open>\<open>split_whitespace\<close>: the maximal runs without white space.\<close>

function skip_word :: "string \<Rightarrow> string \<times> string" where
  "skip_word s =
     (case s of [] \<Rightarrow> ([], [])
      | c # cs \<Rightarrow> if pref_len ws_seqs s = 0
          then let (w, r) = skip_word cs in (c # w, r) else ([], s))"
  by pat_completeness auto
termination by (relation "measure length") auto

declare skip_word.simps [simp del]

lemma skip_word_length: "length (snd (skip_word s)) \<le> length s"
  by (induction s rule: skip_word.induct)
    (subst skip_word.simps, auto split: list.splits prod.splits)

lemma strip_seqs_length: "length (strip_seqs ws s) \<le> length s"
  by (induction ws s rule: strip_seqs.induct) (subst strip_seqs.simps, auto)

lemma strip_seqs_done: "pref_len ws (strip_seqs ws s) = 0"
  by (induction ws s rule: strip_seqs.induct) (subst strip_seqs.simps, auto)

function split_whitespace :: "string \<Rightarrow> string list" where
  "split_whitespace s =
     (case trim_start s of [] \<Rightarrow> []
      | c # cs \<Rightarrow> (let (w, r) = skip_word (c # cs) in w # split_whitespace r))"
  by pat_completeness auto
termination
proof (relation "measure length", goal_cases)
  case (2 s c cs p w r)
  have "pref_len ws_seqs (c # cs) = 0"
    using strip_seqs_done [of ws_seqs s] 2(1) by (simp add: trim_start_def)
  then have "length r < length (c # cs)"
    using 2(2,3) skip_word_length [of cs]
    by (subst (asm) skip_word.simps) (auto split: prod.splits)
  moreover have "length (c # cs) \<le> length s"
    using strip_seqs_length [of ws_seqs s] 2(1) by (simp add: trim_start_def)
  ultimately show ?case by simp
qed simp

declare split_whitespace.simps [simp del]

section \<open>Numbers\<close>

definition is_ascii_digit :: "char \<Rightarrow> bool" where
  "is_ascii_digit c = (48 \<le> (of_char c :: nat) \<and> (of_char c :: nat) \<le> 57)"

definition digit_char :: "nat \<Rightarrow> char" where
  "digit_char n = char_of (48 + n)"

fun show_nat :: "nat \<Rightarrow> string" where
  "show_nat n = (if n < 10 then [digit_char n] else show_nat (n div 10) @ [digit_char (n mod 10)])"

declare show_nat.simps [simp del]

definition dec_val :: "string \<Rightarrow> nat" where
  "dec_val s = foldl (\<lambda>a c. 10 * a + (of_char c - 48)) 0 s"

text \<open>\<open>str::parse\<close> for an unsigned integer of \<open>w\<close> bits: an optional plus sign, at least one
  digit, nothing else, and no overflow.\<close>

definition parse_uint :: "nat \<Rightarrow> string \<Rightarrow> nat option" where
  "parse_uint w s =
     (let t = (if s \<noteq> [] \<and> hd s = CHR ''+'' then tl s else s)
      in if t \<noteq> [] \<and> list_all is_ascii_digit t \<and> dec_val t < 2 ^ w then Some (dec_val t) else None)"

definition parse_word :: "string \<Rightarrow> 'a::len word option" where
  "parse_word s = map_option of_nat (parse_uint LENGTH('a) s)"

definition show_word :: "'a::len word \<Rightarrow> string" where
  "show_word w = show_nat (unat w)"

lemma of_char_digit: "n < 10 \<Longrightarrow> (of_char (digit_char n) :: nat) = 48 + n"
  by (simp add: digit_char_def of_char_of)

lemma show_nat_digits: "list_all is_ascii_digit (show_nat n)"
proof (induction n rule: show_nat.induct)
  case (1 n)
  show ?case
  proof (cases "n < 10")
    case True
    then show ?thesis by (subst show_nat.simps) (simp add: is_ascii_digit_def of_char_digit)
  next
    case False
    have "is_ascii_digit (digit_char (n mod 10))"
      by (simp add: is_ascii_digit_def of_char_digit)
    with 1 False show ?thesis by (subst show_nat.simps) simp
  qed
qed

lemma show_nat_ne [simp]: "show_nat n \<noteq> []"
  by (subst show_nat.simps) simp

lemma dec_val_snoc: "dec_val (s @ [c]) = 10 * dec_val s + (of_char c - 48)"
  by (simp add: dec_val_def)

lemma dec_val_show [simp]: "dec_val (show_nat n) = n"
proof (induction n rule: show_nat.induct)
  case (1 n)
  show ?case
  proof (cases "n < 10")
    case True
    then show ?thesis by (subst show_nat.simps) (simp add: dec_val_def of_char_digit)
  next
    case False
    with 1 show ?thesis
      by (subst show_nat.simps) (simp add: dec_val_snoc of_char_digit)
  qed
qed

lemma is_ascii_digit_ws: "is_ascii_digit c \<Longrightarrow> c \<notin> ws_byte"
  by (rule ws_byte_ascii) (auto simp: is_ascii_digit_def)

lemma show_nat_hd: "is_ascii_digit (hd (show_nat n))" and show_nat_last: "is_ascii_digit (last (show_nat n))"
  using show_nat_digits [of n] by (auto simp: list_all_iff)

lemma parse_show_nat: "n < 2 ^ w \<Longrightarrow> parse_uint w (show_nat n) = Some n"
proof -
  assume "n < 2 ^ w"
  moreover have "hd (show_nat n) \<noteq> CHR ''+''"
    using show_nat_hd [of n] by (auto simp: is_ascii_digit_def)
  ultimately show ?thesis by (simp add: parse_uint_def show_nat_digits Let_def)
qed

lemma parse_show_word [simp]: "parse_word (show_word w) = Some w"
  by (simp add: parse_word_def show_word_def parse_show_nat unsigned_less)

lemma parse_uint_bound: "parse_uint w s = Some n \<Longrightarrow> n < 2 ^ w"
  by (auto simp: parse_uint_def Let_def split: if_splits)

lemma show_word_digits: "list_all is_ascii_digit (show_word w)"
  by (simp add: show_word_def show_nat_digits)

lemma show_word_ne [simp]: "show_word w \<noteq> []"
  by (simp add: show_word_def)

section \<open>UTF-8\<close>

definition byte_in :: "nat \<Rightarrow> nat \<Rightarrow> char \<Rightarrow> bool" where
  "byte_in lo hi c = (lo \<le> (of_char c :: nat) \<and> (of_char c :: nat) \<le> hi)"

abbreviation (input) utf8_cont :: "char \<Rightarrow> bool" where
  "utf8_cont \<equiv> byte_in 0x80 0xBF"

text \<open>The well-formed byte sequences of the Unicode standard, as \<open>core::str::from_utf8\<close>
  accepts them.\<close>

definition utf8_len :: "char \<Rightarrow> nat" where
  "utf8_len a =
     (if byte_in 0 0x7F a then 1 else if byte_in 0xC2 0xDF a then 2
      else if byte_in 0xE0 0xEF a then 3 else if byte_in 0xF0 0xF4 a then 4 else 0)"

definition utf8_second :: "char \<Rightarrow> char \<Rightarrow> bool" where
  "utf8_second a b =
     (if byte_in 0xE0 0xE0 a then byte_in 0xA0 0xBF b
      else if byte_in 0xED 0xED a then byte_in 0x80 0x9F b
      else if byte_in 0xF0 0xF0 a then byte_in 0x90 0xBF b
      else if byte_in 0xF4 0xF4 a then byte_in 0x80 0x8F b else utf8_cont b)"

definition utf8_char_ok :: "char \<Rightarrow> string \<Rightarrow> bool" where
  "utf8_char_ok a r =
     (utf8_len a \<noteq> 0 \<and> Suc (length r) = utf8_len a
      \<and> (case r of [] \<Rightarrow> True | b # t \<Rightarrow> utf8_second a b \<and> list_all utf8_cont t))"

function utf8_valid :: "string \<Rightarrow> bool" where
  "utf8_valid [] = True"
| "utf8_valid (a # s) =
     (utf8_char_ok a (take (utf8_len a - 1) s) \<and> utf8_valid (drop (utf8_len a - 1) s))"
  by pat_completeness auto
termination by (relation "measure length") auto

lemma utf8_valid_append: "utf8_valid s \<Longrightarrow> utf8_valid (s @ t) = utf8_valid t"
proof (induction s rule: utf8_valid.induct)
  case (2 a s)
  have "utf8_len a - 1 \<le> length s"
    using 2(2) by (auto simp: utf8_char_ok_def)
  with 2 show ?case by simp
qed simp

declare utf8_valid.simps(2) [simp del]

lemma utf8_valid_ascii_Cons: "byte_in 0 0x7F a \<Longrightarrow> utf8_valid (a # s) = utf8_valid s"
  by (simp add: utf8_valid.simps(2) utf8_len_def utf8_char_ok_def)

lemma utf8_valid_ascii: "list_all (byte_in 0 0x7F) s \<Longrightarrow> utf8_valid s"
  by (induction s) (auto simp: utf8_valid_ascii_Cons)

definition to_ascii_lower :: "char \<Rightarrow> char" where
  "to_ascii_lower c = (if byte_in 65 90 c then char_of ((of_char c :: nat) + 32) else c)"

definition eq_ignore_ascii_case :: "string \<Rightarrow> string \<Rightarrow> bool" where
  "eq_ignore_ascii_case a b = (map to_ascii_lower a = map to_ascii_lower b)"

lemma eq_ignore_ascii_case_refl [simp]: "eq_ignore_ascii_case a a"
  by (simp add: eq_ignore_ascii_case_def)

end
