(* ===== verification/Hash.thy ===== *)
theory Hash
  imports Rust_Str
begin

text \<open>
  \<open>crates/soso-update-core/src/hash.rs\<close>: hexadecimal encoding of SHA-256 digests.  The
  digest itself is computed by the \<open>sha2\<close> crate, which is not part of the repository: it
  is the parameter \<open>sha\<close> of every definition that hashes.
\<close>

type_synonym hash256 = "u8 list"

definition HEX :: string where
  "HEX = ''0123456789abcdef''"

definition hex_encode :: "hash256 \<Rightarrow> string" where
  "hex_encode bs = concat (map (\<lambda>b. [HEX ! unat (drop_bit 4 b), HEX ! unat (b AND 0xf)]) bs)"

definition nibble :: "char \<Rightarrow> u8 option" where
  "nibble c =
     (if byte_in 48 57 c then Some (of_char c - of_char CHR ''0'')
      else if byte_in 97 102 c then Some (of_char c - of_char CHR ''a'' + 10)
      else if byte_in 65 70 c then Some (of_char c - of_char CHR ''A'' + 10)
      else None)"

definition hex_byte :: "string \<Rightarrow> nat \<Rightarrow> u8 option" where
  "hex_byte s i =
     (case nibble (s ! (i * 2)) of None \<Rightarrow> None
      | Some hi \<Rightarrow> (case nibble (s ! (i * 2 + 1)) of None \<Rightarrow> None
          | Some lo \<Rightarrow> Some (push_bit 4 hi OR lo)))"

definition decode_hex_sha256 :: "string \<Rightarrow> hash256 option" where
  "decode_hex_sha256 s = (if length s \<noteq> 64 then None else those (map (hex_byte s) [0..<32]))"

definition hex_sha256 :: "(bytes \<Rightarrow> hash256) \<Rightarrow> bytes \<Rightarrow> string" where
  "hex_sha256 sha data = hex_encode (sha data)"

text \<open>Operation identifiers (\<open>TxnId\<close> of \<open>txn/mod.rs\<close>): the hash of the manifest.\<close>

type_synonym txn_id = hash256

definition from_manifest :: "(bytes \<Rightarrow> hash256) \<Rightarrow> bytes \<Rightarrow> txn_id" where
  "from_manifest sha manifest = sha manifest"

definition from_hex :: "string \<Rightarrow> txn_id option" where
  "from_hex hex = decode_hex_sha256 hex"

definition to_hex :: "txn_id \<Rightarrow> string" where
  "to_hex i = hex_encode i"

definition txn_dir :: "txn_id \<Rightarrow> string" where
  "txn_dir i = take 16 (to_hex i)"

section \<open>Nibbles\<close>

definition is_hex_lower :: "char \<Rightarrow> bool" where
  "is_hex_lower c = (byte_in 48 57 c \<or> byte_in 97 102 c)"

definition is_ascii_hexdigit :: "char \<Rightarrow> bool" where
  "is_ascii_hexdigit c = (byte_in 48 57 c \<or> byte_in 97 102 c \<or> byte_in 65 70 c)"

lemma HEX_all:
  "list_all (\<lambda>n. nibble (HEX ! n) = Some (of_nat n) \<and> is_hex_lower (HEX ! n)) [0..<16]"
  by (simp add: upt_rec HEX_def nibble_def byte_in_def is_hex_lower_def)

lemma HEX_nibble: "n < 16 \<Longrightarrow> nibble (HEX ! n) = Some (of_nat n) \<and> is_hex_lower (HEX ! n)"
  using HEX_all by (auto simp: list_all_iff)

lemma unat_hi: "unat (drop_bit 4 (b :: u8)) < 16"
proof -
  have "unat b < 256" using unsigned_less [of b, where 'a = nat] by simp
  then show ?thesis by (simp add: drop_bit_eq_div unat_div)
qed

lemma unat_lo: "unat ((b :: u8) AND 0xf) < 16"
proof -
  have "b AND 0xf \<le> 0xf" by (rule word_and_le1)
  then show ?thesis by (simp add: word_le_nat_alt)
qed

lemma hi_lo: "push_bit 4 (drop_bit 4 (b :: u8)) OR (b AND 0xf) = b"
proof -
  have m: "(15 :: u8) = mask 4" by (simp add: mask_eq_exp_minus_1)
  show ?thesis unfolding m
    by (intro bit_word_eqI)
      (auto simp: bit_or_iff bit_push_bit_iff bit_drop_bit_eq bit_and_iff bit_mask_iff)
qed

lemma hex_encode_Cons:
  "hex_encode (b # bs) = HEX ! unat (drop_bit 4 b) # HEX ! unat (b AND 0xf) # hex_encode bs"
  by (simp add: hex_encode_def)

lemma hex_encode_Nil [simp]: "hex_encode [] = []"
  by (simp add: hex_encode_def)

lemma length_hex_encode [simp]: "length (hex_encode bs) = 2 * length bs"
  by (induction bs) (simp_all add: hex_encode_Cons)

lemma hex_encode_nth:
  "i < length bs \<Longrightarrow> hex_encode bs ! (i * 2) = HEX ! unat (drop_bit 4 (bs ! i))
     \<and> hex_encode bs ! Suc (i * 2) = HEX ! unat (bs ! i AND 0xf)"
proof (induction bs arbitrary: i)
  case (Cons b bs)
  then show ?case by (cases i) (auto simp: hex_encode_Cons)
qed simp

lemma hex_encode_lower: "list_all is_hex_lower (hex_encode bs)"
  by (induction bs) (simp_all add: hex_encode_Cons HEX_nibble unat_hi unat_lo)

lemma hex_byte_encode: "i < length bs \<Longrightarrow> hex_byte (hex_encode bs) i = Some (bs ! i)"
  by (simp add: hex_byte_def hex_encode_nth HEX_nibble unat_hi unat_lo hi_lo)

lemma those_map_Some: "(\<And>x. x \<in> set xs \<Longrightarrow> f x = Some (g x)) \<Longrightarrow> those (map f xs) = Some (map g xs)"
  by (induction xs) auto

lemma decode_encode: "length h = 32 \<Longrightarrow> decode_hex_sha256 (hex_encode h) = Some h"
proof -
  assume h: "length h = 32"
  then have "those (map (hex_byte (hex_encode h)) [0..<32]) = Some (map ((!) h) [0..<32])"
    by (intro those_map_Some) (auto intro: hex_byte_encode)
  with h show ?thesis
    using map_nth [of h] by (simp add: decode_hex_sha256_def)
qed

lemma from_to_hex [simp]: "length i = 32 \<Longrightarrow> from_hex (to_hex i) = Some i"
  by (simp add: from_hex_def to_hex_def decode_encode)

lemma length_to_hex [simp]: "length (to_hex i) = 2 * length i"
  by (simp add: to_hex_def)

lemma to_hex_inj: "length i = 32 \<Longrightarrow> length k = 32 \<Longrightarrow> to_hex i = to_hex k \<Longrightarrow> i = k"
  by (metis from_to_hex option.inject)

lemma length_those: "those xs = Some ys \<Longrightarrow> length ys = length xs"
  by (induction xs arbitrary: ys) (auto split: option.splits)

lemma from_hex_length: "from_hex s = Some i \<Longrightarrow> length i = 32"
  by (auto simp: from_hex_def decode_hex_sha256_def dest: length_those split: if_splits)

lemma is_hex_lower_ws: "is_hex_lower c \<Longrightarrow> c \<notin> ws_byte"
  by (rule ws_byte_ascii) (auto simp: is_hex_lower_def byte_in_def)

lemma is_hex_lower_hexdigit: "is_hex_lower c \<Longrightarrow> is_ascii_hexdigit c"
  by (auto simp: is_hex_lower_def is_ascii_hexdigit_def)

lemma to_hex_lower: "list_all is_hex_lower (to_hex i)"
  by (simp add: to_hex_def hex_encode_lower)

end
