(* ===== verification/Registro.thy ===== *)
theory Registro
  imports Hash
begin

text \<open>
  \<open>crates/soso-update-core/src/record.rs\<close>: the envelope of every durable record (magic,
  format, sequence, body, CRC) and the choice of the valid slot of highest sequence.  The
  CRC-32C of the \<open>crc\<close> crate is the parameter \<open>crc\<close>.  The lemmas show that a framed record
  is read back as it was written, also with slot padding, what \<open>pick\<close> chooses, and, in the
  locale \<open>registro_durable\<close>, that a write to the slot in turn never loses the last valid
  record, whatever a cut leaves in that slot.
\<close>

definition SLOT_SIZE :: nat where "SLOT_SIZE = 1024"
definition SLOTS :: nat where "SLOTS = 4"
definition COPIAS :: nat where "COPIAS = 2"
definition SUM_LEN :: nat where "SUM_LEN = 8"

datatype record_error =
    Vacia | NoTexto | BadMagic | FormatoDesconocido u16 | CampoAusente string
  | CampoInvalido string | SinSuma | SumaIncorrecta | Desbordado

record framed =
  fr_formato :: u16
  fr_seq :: u64
  fr_body :: string

fun campo_en :: "string list \<Rightarrow> string \<Rightarrow> string option" where
  "campo_en [] clave = None"
| "campo_en (l # ls) clave =
     (case strip_prefix clave l of
        None \<Rightarrow> campo_en ls clave
      | Some v \<Rightarrow> (case strip_prefix ''='' v of None \<Rightarrow> campo_en ls clave | Some w \<Rightarrow> Some w))"

definition campo :: "framed \<Rightarrow> string \<Rightarrow> string option" where
  "campo f clave = campo_en (tlines (fr_body f)) clave"

definition requerido :: "framed \<Rightarrow> string \<Rightarrow> record_error + string" where
  "requerido f clave = ok_or (campo f clave) (CampoAusente clave)"

definition lineas :: "framed \<Rightarrow> string \<Rightarrow> string list" where
  "lineas f prefijo = filter (starts_with prefijo) (tlines (fr_body f))"

definition suma :: "(bytes \<Rightarrow> u32) \<Rightarrow> bytes \<Rightarrow> string" where
  "suma crc data = map (\<lambda>i. HEX ! unat (drop_bit (i * 4) (crc data) AND 0xf)) (rev [0..<8])"

definition frame_text :: "string \<Rightarrow> u16 \<Rightarrow> u64 \<Rightarrow> string \<Rightarrow> string" where
  "frame_text magic formato seq body =
     magic @ NL # ''formato='' @ show_word formato @ NL # ''seq='' @ show_word seq @ NL #
     (if body = [] then [] else body @ (if last body = NL then [] else [NL]))"

definition frame :: "(bytes \<Rightarrow> u32) \<Rightarrow> string \<Rightarrow> u16 \<Rightarrow> u64 \<Rightarrow> string \<Rightarrow> bytes" where
  "frame crc magic formato seq body =
     (let text = frame_text magic formato seq body
      in text @ ''sum='' @ suma crc text @ [NL])"

definition frame_slot ::
  "(bytes \<Rightarrow> u32) \<Rightarrow> string \<Rightarrow> u16 \<Rightarrow> u64 \<Rightarrow> string \<Rightarrow> nat \<Rightarrow> record_error + bytes" where
  "frame_slot crc magic formato seq body slot =
     (let out = frame crc magic formato seq body
      in if length out > slot then Inl Desbordado
         else Inr (out @ replicate (slot - length out) NL))"

text \<open>The scan for the \<open>sum=\<close> line, with the byte offset where it starts.\<close>

fun busca_suma :: "nat \<Rightarrow> string list \<Rightarrow> (nat \<times> string) option" where
  "busca_suma off [] = None"
| "busca_suma off (l # ls) =
     (case strip_prefix ''sum='' (trim l) of
        Some v \<Rightarrow> Some (off, v)
      | None \<Rightarrow> busca_suma (off + length l) ls)"

fun cabecera_loop ::
  "string list \<Rightarrow> u16 option \<Rightarrow> u64 option \<Rightarrow> string
     \<Rightarrow> record_error + (u16 option \<times> u64 option \<times> string)" where
  "cabecera_loop [] formato seq body = Inr (formato, seq, body)"
| "cabecera_loop (linea # ls) formato seq body =
     (let l = trim linea in
      if l = [] then cabecera_loop ls formato seq body
      else case strip_prefix ''formato='' l of
        Some v \<Rightarrow> (case parse_word v of
            None \<Rightarrow> Inl (CampoInvalido ''formato'')
          | Some w \<Rightarrow> cabecera_loop ls (Some w) seq body)
      | None \<Rightarrow> (case strip_prefix ''seq='' l of
            Some v \<Rightarrow> (case parse_word v of
                None \<Rightarrow> Inl (CampoInvalido ''seq'')
              | Some w \<Rightarrow> cabecera_loop ls formato (Some w) body)
          | None \<Rightarrow> cabecera_loop ls formato seq (body @ l @ [NL])))"

definition cerrar_cabecera :: "u16 \<Rightarrow> u16 option \<times> u64 option \<times> string \<Rightarrow> record_error + framed" where
  "cerrar_cabecera formato_max = (\<lambda>(formato, seq, body).
     res_bind (ok_or formato (CampoAusente ''formato'')) (\<lambda>formato.
       if formato = 0 \<or> formato > formato_max then Inl (FormatoDesconocido formato)
       else res_bind (ok_or seq (CampoAusente ''seq'')) (\<lambda>seq.
         Inr \<lparr>fr_formato = formato, fr_seq = seq, fr_body = body\<rparr>)))"

definition record_parse :: "(bytes \<Rightarrow> u32) \<Rightarrow> string \<Rightarrow> u16 \<Rightarrow> bytes \<Rightarrow> record_error + framed" where
  "record_parse crc magic formato_max raw =
     (if list_all (\<lambda>b. b = NUL \<or> b = NL \<or> b = CHR 0xFF) raw then Inl Vacia
      else let text = takeWhile (\<lambda>b. b \<noteq> NUL) raw in
      if \<not> utf8_valid text then Inl NoTexto
      else case busca_suma 0 (split_inclusive NL text) of
        None \<Rightarrow> Inl SinSuma
      | Some (prefijo, valor) \<Rightarrow>
          if length valor \<noteq> SUM_LEN \<or> suma crc (take prefijo raw) \<noteq> valor then Inl SumaIncorrecta
          else (case lines (take prefijo text) of
                  [] \<Rightarrow> Inl BadMagic
                | l # ls \<Rightarrow>
                    if trim l \<noteq> magic then Inl BadMagic
                    else res_bind (cabecera_loop ls None None []) (cerrar_cabecera formato_max)))"

definition ranura :: "u64 \<Rightarrow> nat \<Rightarrow> nat" where
  "ranura seq ranuras = unat (seq mod of_nat ranuras)"

fun pick_loop ::
  "(bytes \<Rightarrow> record_error + framed) \<Rightarrow> bytes list \<Rightarrow> nat \<Rightarrow> (nat \<times> framed) option \<Rightarrow> record_error
     \<Rightarrow> record_error + (nat \<times> framed)" where
  "pick_loop p [] i mejor error = ok_or mejor error"
| "pick_loop p (raw # slots) i mejor error =
     (case p raw of
        Inr f \<Rightarrow>
          pick_loop p slots (Suc i)
            (case mejor of None \<Rightarrow> Some (i, f)
             | Some (k, m) \<Rightarrow> if fr_seq f > fr_seq m then Some (i, f) else mejor) error
      | Inl e \<Rightarrow>
          pick_loop p slots (Suc i) mejor
            (if e = Vacia then error else if error = Vacia then e else error))"

definition pick_con :: "(bytes \<Rightarrow> record_error + framed) \<Rightarrow> bytes list \<Rightarrow> record_error + (nat \<times> framed)" where
  "pick_con p slots = pick_loop p slots 0 None Vacia"

definition record_pick ::
  "(bytes \<Rightarrow> u32) \<Rightarrow> string \<Rightarrow> u16 \<Rightarrow> bytes list \<Rightarrow> record_error + (nat \<times> framed)" where
  "record_pick crc magic formato_max slots = pick_con (record_parse crc magic formato_max) slots"

text \<open>\<open>slice::chunks\<close>, used by the readers of the pre-created ESP files.\<close>

fun chunks :: "nat \<Rightarrow> 'a list \<Rightarrow> 'a list list" where
  "chunks n xs = (if n = 0 \<or> xs = [] then [] else take n xs # chunks n (drop n xs))"

declare chunks.simps [simp del]

section \<open>Framing and reading back\<close>

definition unlines :: "string list \<Rightarrow> string" where
  "unlines ls = concat (map (\<lambda>l. l @ [NL]) ls)"

text \<open>A line that survives the trip: one line of valid text, with nothing to trim and no
  reserved prefix.\<close>

definition texto_ok :: "string \<Rightarrow> bool" where
  "texto_ok l = (NL \<notin> set l \<and> NUL \<notin> set l \<and> utf8_valid l)"

definition linea_ok :: "string \<Rightarrow> bool" where
  "linea_ok l =
     (l \<noteq> [] \<and> texto_ok l \<and> trim l = l \<and> \<not> starts_with ''sum='' l
      \<and> \<not> starts_with ''formato='' l \<and> \<not> starts_with ''seq='' l)"

lemma unlines_simps [simp]: "unlines [] = []" "unlines (l # ls) = l @ NL # unlines ls"
  by (simp_all add: unlines_def)

lemma unlines_append [simp]: "unlines (a @ b) = unlines a @ unlines b"
  by (simp add: unlines_def)

lemma unlines_last: "ls \<noteq> [] \<Longrightarrow> unlines ls \<noteq> [] \<and> last (unlines ls) = NL"
proof (induction ls)
  case (Cons l ls)
  then show ?case by (cases "ls = []") auto
qed simp

lemma frame_text_unlines:
  "frame_text magic formato seq (unlines ls) =
     unlines (magic # (''formato='' @ show_word formato) # (''seq='' @ show_word seq) # ls)"
  using unlines_last [of ls] by (cases "ls = []") (simp_all add: frame_text_def)

lemma busca_suma_skip:
  assumes "\<And>l. l \<in> set ls \<Longrightarrow> NL \<notin> set l \<and> \<not> starts_with ''sum='' (trim l)"
  shows "busca_suma off (split_inclusive NL (unlines ls @ t)) =
         busca_suma (off + length (unlines ls)) (split_inclusive NL t)"
  using assms
proof (induction ls arbitrary: off)
  case (Cons l ls)
  have "strip_prefix ''sum='' (trim (l @ [NL])) = None"
    using Cons.prems [of l] by (simp add: trim_nl strip_prefix_def)
  moreover have "split_inclusive NL (l @ NL # (unlines ls @ t)) =
      (l @ [NL]) # split_inclusive NL (unlines ls @ t)"
    using Cons.prems [of l] by (intro split_inclusive_line) auto
  ultimately show ?case
    using Cons.IH [of "off + length l + 1"] Cons.prems by (simp add: add_ac)
qed simp

lemma tlines_unlines:
  "(\<And>l. l \<in> set ls \<Longrightarrow> NL \<notin> set l) \<Longrightarrow> tlines (unlines ls) = map trim ls"
  by (induction ls) (auto simp: tlines_line)

lemma lines_unlines:
  assumes "\<And>l. l \<in> set ls \<Longrightarrow> NL \<notin> set l"
  shows "lines (unlines ls) = map chomp_cr ls"
  using assms by (induction ls) (auto simp: lines_line)

lemma cabecera_loop_body:
  assumes "list_all linea_ok ls"
  shows "cabecera_loop (map chomp_cr ls) f s b = Inr (f, s, b @ unlines ls)"
  using assms
proof (induction ls arbitrary: b)
  case (Cons l ls)
  then have l: "linea_ok l" and ls: "list_all linea_ok ls" by auto
  show ?case
    using l Cons.IH [OF ls, of "b @ l @ [NL]"]
    by (simp add: linea_ok_def trim_chomp_cr strip_prefix_def Let_def)
qed simp

lemma kv_trim:
  "k \<noteq> [] \<Longrightarrow> hd k \<notin> ws_byte \<Longrightarrow> trim (k @ CHR ''='' # v) = k @ CHR ''='' # trim_end v"
proof (rule trim_barrier)
  show "CHR ''='' \<notin> ws_byte" by (rule ws_byte_ascii) simp_all
qed (use ws_head_byte in auto)

lemma trim_end_last: "v \<noteq> [] \<Longrightarrow> last v \<notin> ws_byte \<Longrightarrow> trim_end v = v"
  using ws_last_byte trim_end_snoc [of "last v" "butlast v"] by auto

lemma trim_end_digits: "list_all is_ascii_digit v \<Longrightarrow> v \<noteq> [] \<Longrightarrow> trim_end v = v"
  by (metis is_ascii_digit_ws last_in_set list_all_iff trim_end_last)

lemma trim_end_hex: "list_all is_hex_lower v \<Longrightarrow> trim_end v = v"
  by (metis is_hex_lower_ws last_in_set list_all_iff trim_end_Nil trim_end_last)

lemma suma_hex: "list_all is_hex_lower (suma crc d)"
proof -
  have "unat (drop_bit n (w :: u32) AND 0xf) < 16" for n w
  proof -
    have "drop_bit n w AND 0xf \<le> 0xf" by (rule word_and_le1)
    then show ?thesis by (simp add: word_le_nat_alt)
  qed
  then show ?thesis by (auto simp: suma_def list_all_iff HEX_nibble)
qed

lemma length_suma [simp]: "length (suma crc d) = 8"
  by (simp add: suma_def)

lemma ascii_texto:
  assumes "list_all P v" and P: "\<And>c. P c \<Longrightarrow> byte_in 0 0x7F c \<and> c \<noteq> NL \<and> c \<noteq> NUL"
  shows "texto_ok v"
proof -
  have "list_all (byte_in 0 0x7F) v"
    using assms(1) by (rule list.pred_mono_strong) (simp add: P)
  moreover have "NL \<notin> set v" "NUL \<notin> set v"
    using assms by (metis list_all_iff)+
  ultimately show ?thesis by (simp add: texto_ok_def utf8_valid_ascii)
qed

lemma digits_texto: "list_all is_ascii_digit v \<Longrightarrow> texto_ok v"
  by (erule ascii_texto) (auto simp: is_ascii_digit_def byte_in_def)

lemma hex_texto: "list_all is_hex_lower v \<Longrightarrow> texto_ok v"
  by (erule ascii_texto) (auto simp: is_hex_lower_def byte_in_def)

lemma texto_ok_append: "texto_ok a \<Longrightarrow> texto_ok b \<Longrightarrow> texto_ok (a @ b)"
  by (auto simp: texto_ok_def utf8_valid_append)

lemma texto_ok_Cons:
  "byte_in 0 0x7F c \<Longrightarrow> texto_ok (c # s) \<longleftrightarrow> c \<noteq> NL \<and> c \<noteq> NUL \<and> texto_ok s"
  by (auto simp: texto_ok_def utf8_valid_ascii_Cons)

lemma texto_ok_Nil [simp]: "texto_ok []"
  by (simp add: texto_ok_def)

lemma utf8_unlines: "list_all texto_ok ls \<Longrightarrow> utf8_valid (unlines ls @ t) = utf8_valid t"
proof (induction ls)
  case (Cons l ls)
  then show ?case
    by (simp add: texto_ok_def utf8_valid_append utf8_valid_ascii_Cons byte_in_def)
qed simp

lemma texto_ok_code:
  "texto_ok l \<Longrightarrow> NL \<notin> set l" "texto_ok l \<Longrightarrow> NUL \<notin> set l"
  by (simp_all add: texto_ok_def)

lemma takeWhile_nul: "NUL \<notin> set s \<Longrightarrow> takeWhile (\<lambda>b. b \<noteq> NUL) s = s"
  by (auto simp: takeWhile_eq_all_conv)

lemma split_inclusive_sum:
  assumes "NL \<notin> set v"
  shows "busca_suma off (split_inclusive NL (''sum='' @ v @ NL # t)) =
         Some (off, trim_end v)"
proof -
  have "split_inclusive NL ((''sum='' @ v) @ NL # t) = ((''sum='' @ v) @ [NL]) # split_inclusive NL t"
    using assms by (intro split_inclusive_line) auto
  moreover have "trim ((''sum='' @ v) @ [NL]) = ''sum='' @ trim_end v"
    using kv_trim [of "''sum''" v] by (simp only: trim_nl) (simp add: ws_byte_ascii)
  ultimately show ?thesis by simp
qed

lemma split_inclusive_sum_fin:
  assumes "NL \<notin> set v"
  shows "busca_suma off (split_inclusive NL (''sum='' @ v)) = Some (off, trim_end v)"
proof -
  have "split_inclusive NL (''sum='' @ v) = [''sum='' @ v]"
    using assms by (intro split_inclusive_last) auto
  moreover have "trim (''sum='' @ v) = ''sum='' @ trim_end v"
    using kv_trim [of "''sum''" v] by (simp add: ws_byte_ascii)
  ultimately show ?thesis by simp
qed

text \<open>The bytes of a record as the reader sees them: lines, then the sum line, then padding or whatever text
  a longer file had there before.\<close>

definition cola_ok :: "bytes \<Rightarrow> bool" where
  "cola_ok cola = (cola = [] \<or> (\<exists>t. cola = NL # t \<and> NUL \<notin> set t \<and> utf8_valid t))"

lemma cola_ok_relleno [simp]: "cola_ok (NL # replicate n NL)" "cola_ok (replicate n NL)" "cola_ok [NL]"
proof -
  have u: "utf8_valid (replicate m NL)" for m by (intro utf8_valid_ascii) (simp add: byte_in_def list_all_iff)
  then have c: "cola_ok (NL # replicate m NL)" for m by (auto simp: cola_ok_def)
  show "cola_ok (NL # replicate n NL)" by (rule c)
  show "cola_ok (replicate n NL)" using c by (cases n) (simp_all add: cola_ok_def)
  show "cola_ok [NL]" using c [of 0] by simp
qed

lemma registro_leido:
  assumes tx: "list_all texto_ok todas"
    and sum: "\<And>l. l \<in> set todas \<Longrightarrow> \<not> starts_with ''sum='' (trim l)"
    and raw: "raw = unlines todas @ ''sum='' @ suma crc (unlines todas) @ cola" and cola: "cola_ok cola"
  shows "\<not> list_all (\<lambda>b. b = NUL \<or> b = NL \<or> b = CHR 0xFF) raw"
    and "takeWhile (\<lambda>b. b \<noteq> NUL) raw = raw"
    and "utf8_valid raw"
    and "busca_suma 0 (split_inclusive NL raw) =
         Some (length (unlines todas), suma crc (unlines todas))"
    and "take (length (unlines todas)) raw = unlines todas"
    and "lines (unlines todas) = map chomp_cr todas"
proof -
  define cuerpo where "cuerpo = unlines todas"
  have sm: "texto_ok (suma crc cuerpo)" by (rule hex_texto [OF suma_hex])
  have nonl: "NL \<notin> set l" if "l \<in> set todas" for l
    using that tx by (auto simp: list_all_iff dest: texto_ok_code)
  have nt: "NUL \<notin> set cuerpo"
    using tx by (auto simp: cuerpo_def list_all_iff unlines_def dest: texto_ok_code)
  show "\<not> list_all (\<lambda>b. b = NUL \<or> b = NL \<or> b = CHR 0xFF) raw" by (simp add: raw)
  have "NUL \<notin> set raw"
    using nt sm cola by (auto simp: raw cola_ok_def cuerpo_def [symmetric] dest: texto_ok_code)
  then show "takeWhile (\<lambda>b. b \<noteq> NUL) raw = raw" by (rule takeWhile_nul)
  have "utf8_valid cola"
    using cola by (auto simp: cola_ok_def utf8_valid_ascii_Cons byte_in_def)
  then show "utf8_valid raw"
    using tx sm unfolding raw cuerpo_def
    by (simp add: utf8_unlines texto_ok_def utf8_valid_append utf8_valid_ascii_Cons byte_in_def)
  show "busca_suma 0 (split_inclusive NL raw) = Some (length (unlines todas), suma crc (unlines todas))"
  proof -
    have "busca_suma 0 (split_inclusive NL raw) =
        busca_suma (length cuerpo) (split_inclusive NL (''sum='' @ suma crc cuerpo @ cola))"
      unfolding raw cuerpo_def using nonl sum by (subst busca_suma_skip) auto
    also have "\<dots> = Some (length cuerpo, suma crc cuerpo)"
      using sm cola split_inclusive_sum [of "suma crc cuerpo"] split_inclusive_sum_fin [of "suma crc cuerpo"]
      by (auto simp: cola_ok_def texto_ok_code trim_end_hex suma_hex)
    finally show ?thesis by (simp add: cuerpo_def)
  qed
  show "take (length (unlines todas)) raw = unlines todas" by (simp add: raw)
  show "lines (unlines todas) = map chomp_cr todas" using nonl by (rule lines_unlines)
qed

definition registro_lineas :: "string \<Rightarrow> u16 \<Rightarrow> u64 \<Rightarrow> string list \<Rightarrow> string list" where
  "registro_lineas magic formato seq ls =
     magic # (''formato='' @ show_word formato) # (''seq='' @ show_word seq) # ls"

definition magic_ok :: "string \<Rightarrow> bool" where
  "magic_ok magic = (texto_ok magic \<and> trim magic = magic \<and> \<not> starts_with ''sum='' magic)"

lemma registro_lineas_ok:
  assumes "magic_ok magic" "list_all linea_ok ls" "l \<in> set (registro_lineas magic formato seq ls)"
  shows "texto_ok l" "trim l = l" "\<not> starts_with ''sum='' l"
proof -
  define ff sq where "ff = ''formato='' @ show_word formato" and "sq = ''seq='' @ show_word seq"
  have "trim ff = ff" "trim sq = sq"
    using kv_trim [of "''formato''" "show_word formato"] kv_trim [of "''seq''" "show_word seq"]
    by (simp_all add: ff_def sq_def ws_byte_ascii trim_end_digits show_word_digits)
  moreover have "texto_ok ff" "texto_ok sq" "\<not> starts_with ''sum='' ff" "\<not> starts_with ''sum='' sq"
    by (simp_all add: ff_def sq_def texto_ok_Cons byte_in_def digits_texto show_word_digits)
  ultimately show "texto_ok l" "trim l = l" "\<not> starts_with ''sum='' l"
    using assms unfolding registro_lineas_def ff_def [symmetric] sq_def [symmetric]
    by (auto simp: magic_ok_def list_all_iff linea_ok_def)
qed

text \<open>What \<open>frame\<close> writes, \<open>parse\<close> reads back, with any amount of newline padding behind it,
  or without its last newline.\<close>

lemma record_parse_cola:
  assumes magic: "magic_ok magic" and ls: "list_all linea_ok ls"
    and formato: "formato \<noteq> 0" "formato \<le> fmax" and cola: "cola_ok cola"
    and todas_def: "todas = registro_lineas magic formato seq ls"
  shows "record_parse crc magic fmax (unlines todas @ ''sum='' @ suma crc (unlines todas) @ cola) =
         Inr \<lparr>fr_formato = formato, fr_seq = seq, fr_body = unlines ls\<rparr>"
proof -
  define raw where "raw = unlines todas @ ''sum='' @ suma crc (unlines todas) @ cola"
  note lin = registro_lineas_ok [OF magic ls, of _ formato seq, folded todas_def]
  have tx: "list_all texto_ok todas" using lin(1) by (auto simp: list_all_iff)
  have sum: "\<not> starts_with ''sum='' (trim l)" if "l \<in> set todas" for l using lin(2,3) that by simp
  note leido = registro_leido [OF tx sum raw_def cola]
  have loop: "cabecera_loop (map chomp_cr (tl todas)) None None [] =
      Inr (Some formato, Some seq, unlines ls)"
    using lin(2) [of "''formato='' @ show_word formato"] lin(2) [of "''seq='' @ show_word seq"]
      cabecera_loop_body [OF ls, of "Some formato" "Some seq" "[]"]
    by (simp add: todas_def registro_lineas_def trim_chomp_cr Let_def)
  have "record_parse crc magic fmax raw =
      (case map chomp_cr todas of [] \<Rightarrow> Inl BadMagic
       | l # ls \<Rightarrow> if trim l \<noteq> magic then Inl BadMagic
           else res_bind (cabecera_loop ls None None []) (cerrar_cabecera fmax))"
    unfolding record_parse_def Let_def leido(2)
    by (simp only: leido if_False not_True_eq_False option.case prod.case length_suma SUM_LEN_def simp_thms)
  moreover have "map chomp_cr todas = chomp_cr magic # map chomp_cr (tl todas)"
    by (simp add: todas_def registro_lineas_def)
  moreover have "trim (chomp_cr magic) = magic" using magic by (simp add: trim_chomp_cr magic_ok_def)
  ultimately have "record_parse crc magic fmax raw =
      res_bind (cabecera_loop (map chomp_cr (tl todas)) None None []) (cerrar_cabecera fmax)"
    by simp
  then show ?thesis
    using loop formato by (simp add: raw_def cerrar_cabecera_def not_less)
qed

lemma frame_lineas:
  "frame crc magic formato seq (unlines ls) =
     unlines (registro_lineas magic formato seq ls) @ ''sum='' @
     suma crc (unlines (registro_lineas magic formato seq ls)) @ [NL]"
  by (simp add: frame_def frame_text_unlines Let_def registro_lineas_def)

lemma record_parse_frame:
  assumes "magic_ok magic" "list_all linea_ok ls" "formato \<noteq> 0" "formato \<le> fmax"
  shows "record_parse crc magic fmax (frame crc magic formato seq (unlines ls) @ replicate n NL) =
         Inr \<lparr>fr_formato = formato, fr_seq = seq, fr_body = unlines ls\<rparr>"
  using record_parse_cola [where cola = "NL # replicate n NL" and crc = crc and seq = seq, OF assms _ refl]
  by (simp add: frame_lineas)

text \<open>The reader stops at the sum: text that a longer file left behind the record changes nothing, and what is not
  text makes it unreadable.\<close>

lemma record_parse_resto:
  assumes "magic_ok magic" "list_all linea_ok ls" "formato \<noteq> 0" "formato \<le> fmax" "NUL \<notin> set t"
  shows "record_parse crc magic fmax (frame crc magic formato seq (unlines ls) @ t) =
    (if utf8_valid t then Inr \<lparr>fr_formato = formato, fr_seq = seq, fr_body = unlines ls\<rparr> else Inl NoTexto)"
proof -
  define todas where "todas = registro_lineas magic formato seq ls"
  define raw where "raw = unlines todas @ ''sum='' @ suma crc (unlines todas) @ [NL]"
  have f: "frame crc magic formato seq (unlines ls) = raw" by (simp add: frame_lineas todas_def raw_def)
  note lin = registro_lineas_ok [OF assms(1,2), of _ formato seq, folded todas_def]
  have tx: "list_all texto_ok todas" using lin(1) by (auto simp: list_all_iff)
  have sum: "\<not> starts_with ''sum='' (trim l)" if "l \<in> set todas" for l using lin(2,3) that by simp
  note leido = registro_leido [OF tx sum raw_def cola_ok_relleno(3)]
  have "NUL \<notin> set raw" using leido(2) by (metis set_takeWhileD)
  then have tw: "takeWhile (\<lambda>b. b \<noteq> NUL) (raw @ t) = raw @ t" using assms(5) by (intro takeWhile_nul) simp
  have lv: "\<not> list_all (\<lambda>b. b = NUL \<or> b = NL \<or> b = CHR 0xFF) (raw @ t)" using leido(1) by simp
  have "utf8_valid (raw @ t) = utf8_valid t" using leido(3) by (rule utf8_valid_append)
  then have no: "\<not> utf8_valid t \<Longrightarrow> record_parse crc magic fmax (raw @ t) = Inl NoTexto"
    unfolding record_parse_def Let_def tw by (simp only: lv if_False if_True not_False_eq_True)
  have "record_parse crc magic fmax (raw @ t) = Inr \<lparr>fr_formato = formato, fr_seq = seq, fr_body = unlines ls\<rparr>" if "utf8_valid t"
    using record_parse_cola [where cola = "NL # t" and crc = crc, OF assms(1-4) _ todas_def] assms(5) that
    by (auto simp: raw_def cola_ok_def)
  with no show ?thesis by (simp add: f)
qed

text \<open>The lines \<open>key=value\<close> the records of the contract are made of.\<close>

definition version_ok :: "string \<Rightarrow> bool" where
  "version_ok v = (texto_ok v \<and> trim_end v = v)"

lemma kv_linea:
  assumes "c \<noteq> CHR ''s''" "c \<noteq> CHR ''f''" "33 \<le> (of_char c :: nat)" "(of_char c :: nat) < 127"
    and "texto_ok (c # k)" "texto_ok v" "trim_end v = v"
  shows "linea_ok (c # k @ CHR ''='' # v)"
proof -
  have "c \<notin> ws_byte" using assms(3,4) by (rule ws_byte_ascii)
  then have "trim (c # k @ CHR ''='' # v) = c # k @ CHR ''='' # v"
    using kv_trim [of "c # k" v] assms(7) by simp
  moreover have "texto_ok ((c # k) @ CHR ''='' # v)"
    using assms by (intro texto_ok_append) (simp_all add: texto_ok_Cons byte_in_def)
  ultimately show ?thesis using assms by (simp add: linea_ok_def)
qed

section \<open>A write that is cut short\<close>

text \<open>A truncated record is rejected, unless only its last newline is missing, and then it reads
  as the whole record.\<close>

lemma starts_with_prefix_mono: "starts_with w p \<Longrightarrow> prefix p l \<Longrightarrow> starts_with w l"
  by (metis prefix_order.trans starts_with_prefix)

lemma strip_seqs_suffix: "\<exists>a. s = a @ strip_seqs ws s"
proof (induction ws s rule: strip_seqs.induct)
  case (1 ws s)
  show ?case
  proof (cases "pref_len ws s = 0")
    case False
    with 1 obtain a where "drop (pref_len ws s) s = a @ strip_seqs ws (drop (pref_len ws s) s)" by blast
    then have "s = (take (pref_len ws s) s @ a) @ strip_seqs ws s"
      using False by (subst strip_seqs.simps) (metis append.assoc append_take_drop_id)
    then show ?thesis by blast
  qed (simp add: strip_seqs_id)
qed

lemma trim_end_prefix: "prefix (trim_end s) s"
proof -
  obtain a where "rev s = a @ strip_seqs (map rev ws_seqs) (rev s)" using strip_seqs_suffix by blast
  then have "s = trim_end s @ rev a" unfolding trim_end_def by (metis rev_append rev_rev_ident)
  then show ?thesis by (metis prefixI)
qed

lemma trim_fija_inicio:
  assumes "trim l = l"
  shows "pref_len ws_seqs l = 0"
proof -
  have "length (trim_end (trim_start l)) \<le> length (trim_start l)"
    using trim_end_prefix prefix_length_le by blast
  then have "length l \<le> length (trim_start l)" using assms by (simp add: trim_def)
  moreover obtain a where "l = a @ trim_start l"
    using strip_seqs_suffix unfolding trim_start_def by blast
  ultimately have "trim_start l = l" by (metis append_eq_append_conv append_self_conv2 le_antisym length_append le_add2)
  then show ?thesis using strip_seqs_done [of ws_seqs l] by (simp add: trim_start_def)
qed

lemma trim_prefijo:
  assumes "trim l = l" "prefix p l"
  shows "prefix (trim p) l"
proof -
  have "pref_len ws_seqs p = 0"
  proof (rule pref_len_0I)
    fix w assume w: "w \<in> set ws_seqs"
    show "\<not> starts_with w p"
    proof
      assume "starts_with w p"
      then have "starts_with w l" using assms(2) by (rule starts_with_prefix_mono)
      then have "find (\<lambda>w. starts_with w l) ws_seqs \<noteq> None" using w by (auto simp: find_None_iff)
      then obtain v where v: "find (\<lambda>w. starts_with w l) ws_seqs = Some v" by auto
      then have "v \<noteq> []" using ws_seqs_ne by (auto simp: find_Some_iff)
      then show False using trim_fija_inicio [OF assms(1)] v by (simp add: pref_len_def)
    qed
  qed
  then have "trim p = trim_end p" by (simp add: trim_def trim_start_def strip_seqs_id)
  then show ?thesis using trim_end_prefix assms(2) by (metis prefix_order.trans)
qed

lemma busca_suma_relleno: "busca_suma off (split_inclusive NL (replicate n NL)) = None"
proof (induction n arbitrary: off)
  case (Suc n)
  have "split_inclusive NL (replicate (Suc n) NL) = [NL] # split_inclusive NL (replicate n NL)"
    using split_inclusive_line [of NL "[]" "replicate n NL"] by simp
  moreover have "trim [NL] = []" using trim_nl [of "[]"] by simp
  ultimately show ?case using Suc.IH by simp
qed simp

lemma busca_suma_resto:
  assumes "NL \<notin> set p" "strip_prefix ''sum='' (trim p) = None"
  shows "busca_suma off (split_inclusive NL (p @ replicate n NL)) = None"
proof (cases n)
  case 0
  show ?thesis
  proof (cases "p = []")
    case False
    then have "split_inclusive NL p = [p]" using assms(1) by (intro split_inclusive_last) auto
    then show ?thesis using assms(2) by (simp add: 0)
  qed (simp add: 0)
next
  case (Suc k)
  have "split_inclusive NL (p @ NL # replicate k NL) = (p @ [NL]) # split_inclusive NL (replicate k NL)"
    using assms(1) by (intro split_inclusive_line) auto
  then show ?thesis using assms(2) by (simp add: Suc trim_nl busca_suma_relleno)
qed

lemma busca_suma_trunca:
  assumes "\<And>l. l \<in> set ls \<Longrightarrow> NL \<notin> set l \<and> trim l = l \<and> \<not> starts_with ''sum='' l"
    and "c \<le> length (unlines ls)"
  shows "busca_suma off (split_inclusive NL (take c (unlines ls) @ replicate n NL)) = None"
  using assms
proof (induction ls arbitrary: c off)
  case (Cons l ls)
  have l: "NL \<notin> set l" "trim l = l" "\<not> starts_with ''sum='' l" using Cons.prems(1) by auto
  have ns: "strip_prefix ''sum='' (trim p) = None" if "prefix p l" for p
    using l(3) starts_with_prefix_mono trim_prefijo [OF l(2) that] by (auto simp: strip_prefix_def)
  show ?case
  proof (cases "c \<le> length l")
    case True
    then have t: "take c (unlines (l # ls)) = take c l" by simp
    have "NL \<notin> set (take c l)" using l(1) by (meson in_set_takeD)
    then show ?thesis unfolding t using ns [OF take_is_prefix] by (rule busca_suma_resto)
  next
    case False
    then obtain k where c: "c = length l + Suc k" by (metis less_iff_Suc_add not_le add_Suc_right)
    have "split_inclusive NL (take c (unlines (l # ls)) @ replicate n NL) =
        (l @ [NL]) # split_inclusive NL (take k (unlines ls) @ replicate n NL)"
      using l(1) by (simp add: c split_inclusive_line)
    moreover have "strip_prefix ''sum='' (trim (l @ [NL])) = None" using ns [of l] by (simp add: trim_nl)
    moreover have "k \<le> length (unlines ls)" using Cons.prems(2) c by simp
    ultimately show ?thesis using Cons.IH [of k] Cons.prems(1) by simp
  qed
qed (simp add: busca_suma_relleno)

lemma busca_suma_parcial:
  assumes "NL \<notin> set v" "list_all is_hex_lower v"
  shows "busca_suma off (split_inclusive NL ((''sum='' @ v) @ replicate n NL)) = Some (off, v)"
proof (cases n)
  case 0
  then show ?thesis using assms split_inclusive_sum_fin [of v] by (simp add: trim_end_hex)
next
  case (Suc k)
  then show ?thesis
    using assms split_inclusive_sum [of v off "replicate k NL"] by (simp add: trim_end_hex)
qed

lemma record_parse_trunca:
  assumes magic: "magic_ok magic" and ls: "list_all linea_ok ls" and formato: "formato \<noteq> 0" "formato \<le> fmax"
    and todo_def: "todo = frame crc magic formato seq (unlines ls)"
  shows "record_parse crc magic fmax (take c todo @ replicate n NL) = record_parse crc magic fmax todo
    \<or> (\<exists>e. record_parse crc magic fmax (take c todo @ replicate n NL) = Inl e)"
proof -
  define todas where "todas = registro_lineas magic formato seq ls"
  define s where "s = suma crc (unlines todas)"
  define raw where "raw = take c todo @ replicate n NL"
  note lin = registro_lineas_ok [OF magic ls, of _ formato seq, folded todas_def]
  have todo: "todo = unlines todas @ ''sum='' @ s @ [NL]"
    by (simp add: todo_def frame_lineas todas_def s_def)
  have nonul: "NUL \<notin> set todo"
    using lin(1) hex_texto [OF suma_hex, of crc "unlines todas"]
    by (auto simp: todo s_def unlines_def dest: texto_ok_code)
  then have "NUL \<notin> set raw" by (auto simp: raw_def dest: in_set_takeD)
  then have tw: "takeWhile (\<lambda>b. b \<noteq> NUL) raw = raw" by (rule takeWhile_nul)
  have none: "\<exists>e. record_parse crc magic fmax raw = Inl e" if "busca_suma 0 (split_inclusive NL raw) = None"
    using that by (simp add: record_parse_def Let_def tw)
  have sl: "\<And>l. l \<in> set todas \<Longrightarrow> NL \<notin> set l \<and> trim l = l \<and> \<not> starts_with ''sum='' l"
    using lin by (auto dest: texto_ok_code)
  have snl: "NL \<notin> set s" and sh: "list_all is_hex_lower s" and sn: "length s = 8"
    using hex_texto [OF suma_hex] suma_hex by (auto simp: s_def dest: texto_ok_code)
  show ?thesis
  proof (cases "c \<le> length (unlines todas)")
    case True
    then have "raw = take c (unlines todas) @ replicate n NL" by (simp add: raw_def todo)
    with busca_suma_trunca [OF sl True, of 0 n] none show ?thesis by (simp add: raw_def)
  next
    case False
    then obtain k where c: "c = length (unlines todas) + k" "0 < k" by (metis less_imp_add_positive not_le)
    define p where "p = take k (''sum='' @ s @ [NL])"
    have raw: "raw = unlines todas @ p @ replicate n NL" by (simp add: raw_def todo c p_def)
    have bs: "busca_suma 0 (split_inclusive NL raw) =
        busca_suma (length (unlines todas)) (split_inclusive NL (p @ replicate n NL))"
      unfolding raw using sl by (subst busca_suma_skip) auto
    consider "k \<le> 3" | i where "k = Suc (Suc (Suc (Suc i)))" "i < 8" | "12 \<le> k"
    proof -
      consider "k \<le> 3" | "3 < k" "k < 12" | "12 \<le> k" by linarith
      then show ?thesis
      proof cases
        case 2
        then have "k = Suc (Suc (Suc (Suc (k - 4))))" "k - 4 < 8" by simp_all
        then show ?thesis by (rule that(2))
      qed (use that in auto)
    qed
    then show ?thesis
    proof cases
      case 1
      with c(2) have p: "p \<in> {''s'', ''su'', ''sum''}"
        by (auto simp: p_def numeral_eq_Suc le_Suc_eq)
      moreover have "trim ''s'' = ''s''" "trim ''su'' = ''su''" "trim ''sum'' = ''sum''" by code_simp+
      ultimately have "NL \<notin> set p" "strip_prefix ''sum='' (trim p) = None" by auto
      then have "busca_suma 0 (split_inclusive NL raw) = None" unfolding bs by (rule busca_suma_resto)
      then show ?thesis using none by (simp add: raw_def)
    next
      case (2 i)
      define v where "v = take i s"
      have v: "NL \<notin> set v" "list_all is_hex_lower v" "length v < 8"
        using 2 snl sh sn by (auto simp: v_def list_all_iff dest: in_set_takeD)
      have "p = ''sum='' @ v" using 2 sn by (simp add: v_def p_def)
      then have "busca_suma 0 (split_inclusive NL raw) = Some (length (unlines todas), v)"
        using bs busca_suma_parcial [OF v(1,2)] by simp
      then have "\<exists>e. record_parse crc magic fmax raw = Inl e"
        using v(3) by (simp add: record_parse_def Let_def tw SUM_LEN_def)
      then show ?thesis by (simp add: raw_def)
    next
      case 3
      have "\<exists>cola. p @ replicate n NL = ''sum='' @ s @ cola \<and> cola_ok cola"
      proof (cases "k = 12")
        case True
        then have "p @ replicate n NL = ''sum='' @ s @ replicate n NL" using sn by (simp add: p_def)
        moreover have "cola_ok (replicate n NL)" by simp
        ultimately show ?thesis by blast
      next
        case False
        then have "p @ replicate n NL = ''sum='' @ s @ NL # replicate n NL" using 3 sn by (simp add: p_def)
        moreover have "cola_ok (NL # replicate n NL)" by simp
        ultimately show ?thesis by blast
      qed
      then obtain cola where cola: "raw = unlines todas @ ''sum='' @ s @ cola" "cola_ok cola"
        by (auto simp: raw)
      show ?thesis
        using record_parse_cola [where cola = cola and crc = crc, OF magic ls formato _ todas_def]
          record_parse_cola [where cola = "[NL]" and crc = crc, OF magic ls formato _ todas_def] cola
        by (simp add: raw_def todo s_def)
    qed
  qed
qed

section \<open>Choosing the slot\<close>

definition mejor_ok ::
  "(bytes \<Rightarrow> record_error + framed) \<Rightarrow> bytes list \<Rightarrow> nat \<times> framed \<Rightarrow> bool" where
  "mejor_ok p slots = (\<lambda>(i, f). i < length slots \<and> p (slots ! i) = Inr f
     \<and> (\<forall>j g. j < length slots \<longrightarrow> p (slots ! j) = Inr g
          \<longrightarrow> fr_seq g \<le> fr_seq f \<and> (j < i \<longrightarrow> fr_seq g < fr_seq f)))"

lemma mejor_ok_snoc_err:
  "p raw = Inl e \<Longrightarrow> mejor_ok p xs b \<Longrightarrow> mejor_ok p (xs @ [raw]) b"
  by (auto simp: mejor_ok_def nth_append less_Suc_eq split: if_splits)

lemma mejor_ok_snoc_new:
  "p raw = Inr f \<Longrightarrow> mejor_ok p xs (k, m) \<Longrightarrow> fr_seq m < fr_seq f \<Longrightarrow>
   mejor_ok p (xs @ [raw]) (length xs, f)"
  by (fastforce simp: mejor_ok_def nth_append less_Suc_eq)

lemma mejor_ok_snoc_old:
  "p raw = Inr f \<Longrightarrow> mejor_ok p xs (k, m) \<Longrightarrow> \<not> fr_seq m < fr_seq f \<Longrightarrow>
   mejor_ok p (xs @ [raw]) (k, m)"
  by (auto simp: mejor_ok_def nth_append less_Suc_eq)

definition ninguna :: "(bytes \<Rightarrow> record_error + framed) \<Rightarrow> bytes list \<Rightarrow> bool" where
  "ninguna p slots = (\<forall>s \<in> set slots. \<not> is_ok (p s))"

lemma pick_loop_spec:
  assumes "case mejor of None \<Rightarrow> ninguna p xs | Some b \<Rightarrow> mejor_ok p xs b"
  shows "case pick_loop p ys (length xs) mejor error of
           Inl e \<Rightarrow> ninguna p (xs @ ys) | Inr b \<Rightarrow> mejor_ok p (xs @ ys) b"
  using assms
proof (induction ys arbitrary: xs mejor error)
  case Nil
  then show ?case by (auto split: option.splits)
next
  case (Cons raw ys)
  show ?case
  proof (cases "p raw")
    case (Inl e)
    have "case mejor of None \<Rightarrow> ninguna p (xs @ [raw]) | Some b \<Rightarrow> mejor_ok p (xs @ [raw]) b"
      using Cons.prems Inl by (auto simp: ninguna_def mejor_ok_snoc_err split: option.splits)
    from Cons.IH [OF this, of "if e = Vacia then error else if error = Vacia then e else error"] Inl
    show ?thesis by (auto split: if_splits sum.splits)
  next
    case (Inr f)
    let ?m = "case mejor of None \<Rightarrow> Some (length xs, f)
       | Some (k, m) \<Rightarrow> if fr_seq f > fr_seq m then Some (length xs, f) else mejor"
    have "case ?m of None \<Rightarrow> ninguna p (xs @ [raw]) | Some b \<Rightarrow> mejor_ok p (xs @ [raw]) b"
    proof (cases mejor)
      case None
      with Cons.prems have "ninguna p xs" by simp
      then have "\<not> is_ok (p (xs ! j))" if "j < length xs" for j
        using that by (simp add: ninguna_def)
      then have "p (xs ! j) \<noteq> Inr g" if "j < length xs" for j g
        using that by (metis is_ok_simps(2))
      with None Inr show ?thesis
        by (auto simp: mejor_ok_def nth_append less_Suc_eq)
    next
      case (Some b)
      with Cons.prems Inr show ?thesis
        by (cases b) (auto intro: mejor_ok_snoc_new mejor_ok_snoc_old)
    qed
    from Cons.IH [OF this, of error] Inr show ?thesis by (auto split: sum.splits)
  qed
qed

lemma pick_con_Inr: "pick_con p slots = Inr b \<Longrightarrow> mejor_ok p slots b"
  using pick_loop_spec [where mejor = None and xs = "[]" and ys = slots and error = Vacia and p = p] by (simp add: pick_con_def ninguna_def)

lemma pick_con_Inl: "pick_con p slots = Inl e \<Longrightarrow> ninguna p slots"
  using pick_loop_spec [where mejor = None and xs = "[]" and ys = slots and error = Vacia and p = p] by (simp add: pick_con_def ninguna_def)

lemma mejor_ok_unique: "mejor_ok p slots a \<Longrightarrow> mejor_ok p slots b \<Longrightarrow> a = b"
proof -
  assume a: "mejor_ok p slots a" and b: "mejor_ok p slots b"
  obtain i f k g where ab: "a = (i, f)" "b = (k, g)" by (cases a; cases b)
  have "fr_seq f \<le> fr_seq g" "fr_seq g \<le> fr_seq f"
    using a b by (auto simp: ab mejor_ok_def)
  then have "fr_seq f = fr_seq g" by simp
  moreover have "k < i \<longrightarrow> fr_seq g < fr_seq f" "i < k \<longrightarrow> fr_seq f < fr_seq g"
    using a b by (auto simp: ab mejor_ok_def)
  ultimately have "i = k" by (metis linorder_neqE_nat less_irrefl)
  with a b show ?thesis by (simp add: ab mejor_ok_def)
qed

lemma pick_con_iff: "pick_con p slots = Inr b \<longleftrightarrow> mejor_ok p slots b"
proof
  assume b: "mejor_ok p slots b"
  show "pick_con p slots = Inr b"
  proof (cases "pick_con p slots")
    case (Inl e)
    then have "\<not> is_ok (p s)" if "s \<in> set slots" for s
      using that pick_con_Inl by (auto simp: ninguna_def)
    moreover have "slots ! fst b \<in> set slots" "p (slots ! fst b) = Inr (snd b)"
      using b by (auto simp: mejor_ok_def split: prod.splits)
    ultimately show ?thesis by (metis is_ok_simps(2))
  next
    case (Inr c)
    with b show ?thesis by (metis mejor_ok_unique pick_con_Inr)
  qed
qed (rule pick_con_Inr)

text \<open>When no slot is valid the error is the first one that is not an empty slot.\<close>

lemma pick_loop_error:
  assumes "ninguna p ys"
  shows "pick_loop p ys i None error =
    (if error \<noteq> Vacia then Inl error
     else case find (\<lambda>e. e \<noteq> Vacia) (map (\<lambda>s. projl (p s)) ys) of None \<Rightarrow> Inl Vacia | Some e \<Rightarrow> Inl e)"
  using assms
proof (induction ys arbitrary: i error)
  case (Cons raw ys)
  then obtain e where e: "p raw = Inl e" and "ninguna p ys"
    by (cases "p raw") (auto simp: ninguna_def)
  with Cons.IH show ?case by simp
qed simp

lemma pick_con_error:
  "ninguna p slots \<Longrightarrow> pick_con p slots =
     (case find (\<lambda>e. e \<noteq> Vacia) (map (\<lambda>s. projl (p s)) slots) of None \<Rightarrow> Inl Vacia | Some e \<Rightarrow> Inl e)"
  by (simp add: pick_con_def pick_loop_error)

section \<open>Writing by turns\<close>

lemma ranura_less: "0 < n \<Longrightarrow> n < 2 ^ 64 \<Longrightarrow> ranura s n < n"
proof -
  assume n: "0 < n" "n < 2 ^ 64"
  then have u: "unat (of_nat n :: u64) = n" by (simp add: unat_of_nat)
  then have "unat (s mod of_nat n) = unat s mod n" by (simp add: unat_mod)
  with n show ?thesis by (simp add: ranura_def)
qed

lemma ranura_unat: "n < 2 ^ 64 \<Longrightarrow> ranura s n = unat s mod n"
  by (simp add: ranura_def unat_mod unat_of_nat)

lemma ranura_next:
  assumes "1 < n" "n < 2 ^ 64" "s \<noteq> - 1"
  shows "ranura (s + 1) n \<noteq> ranura s n"
proof -
  have "unat (s + 1) = Suc (unat s)"
    using assms(3) by (metis add.commute unatSuc add_eq_0_iff2)
  moreover have "Suc (unat s) mod n \<noteq> unat s mod n"
    using assms(1) by (simp add: mod_Suc)
  ultimately show ?thesis using assms by (simp add: ranura_unat)
qed

text \<open>The slot that holds the record in force: the best one, in the slot its sequence
  number gives it.\<close>

definition vigente ::
  "(bytes \<Rightarrow> record_error + framed) \<Rightarrow> nat \<Rightarrow> bytes list \<Rightarrow> nat \<Rightarrow> framed \<Rightarrow> bool" where
  "vigente lee n slots i f \<longleftrightarrow>
     length slots = n \<and> mejor_ok lee slots (i, f) \<and> i = ranura (fr_seq f) n"

lemma word_less_Suc: "(s :: 'a::len word) \<noteq> - 1 \<Longrightarrow> s < s + 1"
  by (metis add.commute add_eq_0_iff2 lessI unatSuc word_less_nat_alt)

text \<open>
  The contract between a durable record (boot record, journal, boot mode) and its slots:
  \<open>lee\<close> interprets one slot, \<open>de\<close> turns a frame into the record, \<open>fmt\<close> writes it, and
  \<open>pick\<close> reads the set of slots.  Provider laws: a written record is read back, and the
  reader decides by the frame that \<open>pick_con\<close> chooses.
\<close>

locale registro_durable =
  fixes lee :: "bytes \<Rightarrow> record_error + framed"
    and de :: "framed \<Rightarrow> 'e + 'r"
    and fmt :: "'r \<Rightarrow> bytes"
    and valido :: "'r \<Rightarrow> bool"
    and secuencia :: "'r \<Rightarrow> u64"
    and pick :: "bytes list \<Rightarrow> 'e + 'r"
    and n :: nat
  assumes ida_y_vuelta: "valido r \<Longrightarrow> \<exists>f. lee (fmt r) = Inr f \<and> de f = Inr r \<and> fr_seq f = secuencia r"
    and pick_mejor: "length slots = n \<Longrightarrow> pick_con lee slots = Inr (i, f) \<Longrightarrow> pick slots = de f"
    and varias: "1 < n" "n < 2 ^ 64"
begin

lemma turno_libre:
  assumes "vigente lee n slots i f" "fr_seq f \<noteq> - 1"
  shows "ranura (fr_seq f + 1) n < n" "ranura (fr_seq f + 1) n \<noteq> i"
  using assms varias ranura_next [of n "fr_seq f"] ranura_less [of n]
  by (auto simp: vigente_def)

lemma corte_conserva:
  assumes v: "vigente lee n slots i f" and s: "fr_seq f \<noteq> - 1"
    and roto: "lee basura = Inl e"
  shows "vigente lee n (slots[ranura (fr_seq f + 1) n := basura]) i f"
    and "pick (slots[ranura (fr_seq f + 1) n := basura]) = de f"
proof -
  let ?r = "ranura (fr_seq f + 1) n"
  have "mejor_ok lee (slots[?r := basura]) (i, f)"
    using v turno_libre [OF v s] roto by (auto simp: vigente_def mejor_ok_def nth_list_update)
  then show "vigente lee n (slots[?r := basura]) i f"
    using v by (simp add: vigente_def)
  then show "pick (slots[?r := basura]) = de f"
    by (auto simp: vigente_def pick_con_iff intro: pick_mejor)
qed

lemma publicado_se_lee:
  assumes v: "vigente lee n slots i f" and s: "fr_seq f \<noteq> - 1"
    and r: "valido r" "secuencia r = fr_seq f + 1"
  shows "pick (slots[ranura (secuencia r) n := fmt r]) = Inr r"
proof -
  let ?k = "ranura (secuencia r) n"
  obtain g where g: "lee (fmt r) = Inr g" "de g = Inr r" "fr_seq g = secuencia r"
    using ida_y_vuelta [OF r(1)] by blast
  have lt: "fr_seq f < fr_seq f + 1"
    using s by (rule word_less_Suc)
  have "mejor_ok lee (slots[?k := fmt r]) (?k, g)"
    using v turno_libre [OF v s] r g lt
    by (fastforce simp: vigente_def mejor_ok_def nth_list_update)
  then have "pick_con lee (slots[?k := fmt r]) = Inr (?k, g)" by (simp add: pick_con_iff)
  then show ?thesis using pick_mejor v g by (simp add: vigente_def)
qed

lemma publicado_vigente:
  assumes "length slots = n" "valido r"
    and menor: "\<And>j g. j < n \<Longrightarrow> j \<noteq> ranura (secuencia r) n \<Longrightarrow> lee (slots ! j) = Inr g \<Longrightarrow>
      fr_seq g < secuencia r"
  shows "\<exists>g. vigente lee n (slots[ranura (secuencia r) n := fmt r]) (ranura (secuencia r) n) g \<and> de g = Inr r
    \<and> fr_seq g = secuencia r"
proof -
  let ?k = "ranura (secuencia r) n"
  have k: "?k < n" using varias by (intro ranura_less) auto
  obtain g where g: "lee (fmt r) = Inr g" "de g = Inr r" "fr_seq g = secuencia r"
    using ida_y_vuelta [OF assms(2)] by blast
  have "mejor_ok lee (slots[?k := fmt r]) (?k, g)"
    using assms k g by (auto simp: mejor_ok_def nth_list_update intro: order.strict_implies_order)
  then show ?thesis using g assms(1) by (auto simp: vigente_def)
qed

end

lemma chunks_Nil [simp]: "chunks n [] = []"
  by (subst chunks.simps) simp

lemma chunks_concat:
  "0 < n \<Longrightarrow> \<forall>x \<in> set xs. length x = n \<Longrightarrow> chunks n (concat xs) = xs"
proof (induction xs)
  case (Cons x xs)
  then have "x \<noteq> []" by auto
  with Cons show ?case by (subst chunks.simps) simp
qed simp

section \<open>Properties\<close>

lemma pick_loop_map: "map p xs = map p ys \<Longrightarrow> pick_loop p xs i m e = pick_loop p ys i m e"
proof (induction xs arbitrary: ys i m e)
  case (Cons x xs)
  then obtain y zs where "ys = y # zs" "p x = p y" "map p xs = map p zs" by (cases ys) auto
  then show ?case using Cons.IH by (cases "p y") simp_all
qed simp

lemma pick_con_map: "map p xs = map p ys \<Longrightarrow> pick_con p xs = pick_con p ys"
  unfolding pick_con_def by (rule pick_loop_map)

text \<open>C28 (\<open>frame\<close> and \<open>parse\<close>, torn writes): a framed record reads back whole; and whatever prefix of it
  reaches a medium of blank lines, the reader either rejects it or reads the whole record, never a
  part of it.\<close>

theorem registro_sin_medias:
  assumes "magic_ok magic" "list_all linea_ok ls" "formato \<noteq> 0" "formato \<le> fmax"
  shows "record_parse crc magic fmax (frame crc magic formato seq (unlines ls) @ replicate n NL) =
      Inr \<lparr>fr_formato = formato, fr_seq = seq, fr_body = unlines ls\<rparr> \<and>
    (record_parse crc magic fmax (take c (frame crc magic formato seq (unlines ls)) @ replicate n NL) =
        Inr \<lparr>fr_formato = formato, fr_seq = seq, fr_body = unlines ls\<rparr> \<or>
     (\<exists>e. record_parse crc magic fmax (take c (frame crc magic formato seq (unlines ls)) @ replicate n NL) = Inl e))"
  using record_parse_frame [where crc = crc and seq = seq and n = n, OF assms] record_parse_frame [where crc = crc and seq = seq and n = 0, OF assms] record_parse_trunca [where crc = crc and seq = seq and c = c and n = n, OF assms refl]
  by auto

theorem registro_sin_medias_witness:
  "record_parse (\<lambda>_. 7) ''M'' 1 (frame (\<lambda>_. 7) ''M'' 1 3 (unlines [''a=b'']) @ replicate 2 NL) =
     Inr \<lparr>fr_formato = 1, fr_seq = 3, fr_body = unlines [''a=b'']\<rparr>"
proof -
  have "magic_ok ''M''" "linea_ok ''a=b''" by code_simp+
  then show ?thesis using registro_sin_medias [of "''M''" "[''a=b'']" 1 1 "\<lambda>_. 7" 3 2 5] by auto
qed

text \<open>(\<open>pick\<close> and \<open>ranura\<close>): the slot chosen is the first one with the largest sequence number among
  those that read, and with two slots or more the next record goes to another slot, so a write never
  lands on the record in force.\<close>

theorem pick_mas_reciente:
  assumes "1 < length slots" "length slots < 2 ^ 64"
  shows "(record_pick crc magic fmax slots = Inr (i, f) \<longleftrightarrow>
      i < length slots \<and> record_parse crc magic fmax (slots ! i) = Inr f \<and>
      (\<forall>j g. j < length slots \<longrightarrow> record_parse crc magic fmax (slots ! j) = Inr g \<longrightarrow>
         fr_seq g \<le> fr_seq f \<and> (j < i \<longrightarrow> fr_seq g < fr_seq f))) \<and>
    (fr_seq f \<noteq> - 1 \<longrightarrow> ranura (fr_seq f + 1) (length slots) \<noteq> ranura (fr_seq f) (length slots))"
  using pick_con_iff [of "record_parse crc magic fmax" slots "(i, f)"] ranura_next [of "length slots" "fr_seq f"] assms
  by (auto simp: record_pick_def mejor_ok_def)

theorem pick_mas_reciente_witness:
  "record_pick (\<lambda>_. 0) ''M'' 1 [[], []] \<noteq> Inr (0, \<lparr>fr_formato = 1, fr_seq = 3, fr_body = []\<rparr>)"
proof -
  have "record_parse (\<lambda>_. 0) ''M'' 1 [] = Inl Vacia" by (simp add: record_parse_def)
  then show ?thesis
    using pick_mas_reciente [of "[[], []]" "\<lambda>_. 0" "''M''" 1 0 "\<lparr>fr_formato = 1, fr_seq = 3, fr_body = []\<rparr>"] by simp
qed

end
