(* ===== verification/Txn.thy ===== *)
theory Txn
  imports Registro
begin

text \<open>
  \<open>crates/soso-update-core/src/txn/mod.rs\<close>: the states of an update transaction, its events
  and the transition function, the order in which the contract writes to the two media, and the
  capacity check that precedes everything.
\<close>

datatype txn_state =
    Descargando | Preparado | Armado | Aplicando | Probando | Confirmado | Revirtiendo
  | Revertido | Descartado

datatype txn_event =
    DescargaVerificada | RespaldoDurable | RegistroArranquePublicado | AplicacionIniciada
  | AplicacionCompleta | PruebaSuperada | PruebaFallida | ReversionSolicitada
  | ReversionCompleta | Abortada

record transicion_invalida =
  desde :: txn_state
  evento :: txn_event

definition txn_next :: "txn_state \<Rightarrow> txn_event \<Rightarrow> transicion_invalida + txn_state" where
  "txn_next s ev =
     (case (s, ev) of
        (Descargando, DescargaVerificada) \<Rightarrow> Inr Preparado
      | (Descargando, Abortada) \<Rightarrow> Inr Descartado
      | (Preparado, Abortada) \<Rightarrow> Inr Descartado
      | (Preparado, RespaldoDurable) \<Rightarrow> Inr Preparado
      | (Preparado, RegistroArranquePublicado) \<Rightarrow> Inr Armado
      | (Armado, AplicacionIniciada) \<Rightarrow> Inr Aplicando
      | (Aplicando, AplicacionIniciada) \<Rightarrow> Inr Aplicando
      | (Aplicando, AplicacionCompleta) \<Rightarrow> Inr Probando
      | (Probando, PruebaSuperada) \<Rightarrow> Inr Confirmado
      | (Probando, PruebaFallida) \<Rightarrow> Inr Revirtiendo
      | (Probando, ReversionSolicitada) \<Rightarrow> Inr Revirtiendo
      | (Confirmado, ReversionSolicitada) \<Rightarrow> Inr Revirtiendo
      | (Armado, ReversionSolicitada) \<Rightarrow> Inr Revertido
      | (Aplicando, PruebaFallida) \<Rightarrow> Inr Revirtiendo
      | (Aplicando, ReversionSolicitada) \<Rightarrow> Inr Revirtiendo
      | (Revirtiendo, ReversionSolicitada) \<Rightarrow> Inr Revirtiendo
      | (Revirtiendo, ReversionCompleta) \<Rightarrow> Inr Revertido
      | _ \<Rightarrow> Inl \<lparr>desde = s, evento = ev\<rparr>)"

definition sistema_intacto :: "txn_state \<Rightarrow> bool" where
  "sistema_intacto s = (s \<in> {Descargando, Preparado, Armado, Descartado})"

definition exige_respaldos :: "txn_state \<Rightarrow> bool" where
  "exige_respaldos s = (s \<in> {Armado, Aplicando, Probando, Confirmado, Revirtiendo, Revertido})"

definition mezcla_posible :: "txn_state \<Rightarrow> bool" where
  "mezcla_posible s = (s \<in> {Aplicando, Revirtiendo})"

definition estado_recogible :: "txn_state \<Rightarrow> bool" where
  "estado_recogible s = (s \<in> {Confirmado, Revertido, Descartado})"

primrec estado_str :: "txn_state \<Rightarrow> string" where
  "estado_str Descargando = ''descargando''"
| "estado_str Preparado = ''preparado''"
| "estado_str Armado = ''armado''"
| "estado_str Aplicando = ''aplicando''"
| "estado_str Probando = ''probando''"
| "estado_str Confirmado = ''confirmado''"
| "estado_str Revirtiendo = ''revirtiendo''"
| "estado_str Revertido = ''revertido''"
| "estado_str Descartado = ''descartado''"

definition estado_parse :: "string \<Rightarrow> txn_state option" where
  "estado_parse s =
     (if s = ''descargando'' then Some Descargando
      else if s = ''preparado'' then Some Preparado
      else if s = ''armado'' then Some Armado
      else if s = ''aplicando'' then Some Aplicando
      else if s = ''probando'' then Some Probando
      else if s = ''confirmado'' then Some Confirmado
      else if s = ''revirtiendo'' then Some Revirtiendo
      else if s = ''revertido'' then Some Revertido
      else if s = ''descartado'' then Some Descartado
      else None)"

text \<open>The media of the durable steps, in the order the contract writes them (the textual
  descriptions of the steps are left out).\<close>

datatype medio = Sosofs | Esp | Sistema

definition orden_armado :: "medio list" where
  "orden_armado = [Sosofs, Sosofs, Sosofs, Esp, Esp, Sosofs]"

definition orden_aplicacion :: "medio list" where
  "orden_aplicacion = [Sosofs, Sistema, Sosofs, Esp]"

definition orden_confirmacion :: "medio list" where
  "orden_confirmacion = [Sosofs, Esp, Sosofs]"

definition orden_reversion :: "medio list" where
  "orden_reversion = [Esp, Sosofs, Sistema, Esp, Sosofs, Esp]"

section \<open>Capacity\<close>

record necesidad =
  preparacion :: u64
  nec_respaldo :: u64
  crecimiento :: u64
  nec_kernel :: u64

record capacidad =
  sosofs_libre :: u64
  hueco_kernel :: u64
  registro_arranque :: nat
  meta_kernel :: nat

definition RESERVA_LOGS :: u64 where "RESERVA_LOGS = 12 * 1024 * 1024"
definition RESERVA_RECUPERACION :: u64 where "RESERVA_RECUPERACION = 8 * 1024 * 1024"
definition META_KERNEL_MIN :: nat where "META_KERNEL_MIN = 512"

datatype preflight_error =
    SinEspacio (necesita: u64) (libre: u64)
  | KernelNoCabe u64 u64
  | RegistroNoCabe nat

definition total_sosofs :: "necesidad \<Rightarrow> u64" where
  "total_sosofs n =
     sat_add (sat_add (sat_add (sat_add (preparacion n) (nec_respaldo n)) (crecimiento n))
       RESERVA_LOGS) RESERVA_RECUPERACION"

definition preflight :: "necesidad \<Rightarrow> capacidad \<Rightarrow> preflight_error + unit" where
  "preflight n c =
     (let necesita = total_sosofs n in
      if necesita > sosofs_libre c then Inl (SinEspacio necesita (sosofs_libre c))
      else if nec_kernel n = 0 \<or> nec_kernel n > hueco_kernel c
        then Inl (KernelNoCabe (nec_kernel n) (hueco_kernel c))
      else if registro_arranque c < SLOT_SIZE * SLOTS
        then Inl (RegistroNoCabe (registro_arranque c))
      else if meta_kernel c < META_KERNEL_MIN then Inl (RegistroNoCabe (meta_kernel c))
      else Inr ())"

section \<open>The machine\<close>

fun txn_run :: "txn_state \<Rightarrow> txn_event list \<Rightarrow> transicion_invalida + txn_state" where
  "txn_run s [] = Inr s"
| "txn_run s (ev # evs) = res_bind (txn_next s ev) (\<lambda>t. txn_run t evs)"

inductive txn_paso :: "txn_state \<Rightarrow> txn_state \<Rightarrow> bool" where
  txn_pasoI: "txn_next s ev = Inr t \<Longrightarrow> txn_paso s t"

lemmas txn_state_splits = txn_state.splits txn_event.splits

lemma txn_run_append: "txn_run s (a @ b) = res_bind (txn_run s a) (\<lambda>t. txn_run t b)"
  by (induction a arbitrary: s) (auto simp: res_bind_def split: sum.splits)

lemma estado_parse_str [simp]: "estado_parse (estado_str s) = Some s"
  by (cases s) (simp_all add: estado_parse_def)

lemma estado_parse_Some: "estado_parse t = Some s \<Longrightarrow> t = estado_str s"
  by (auto simp: estado_parse_def split: if_splits)

lemma txn_next_Inr_cases:
  assumes "txn_next s ev = Inr t"
  shows "(s, ev, t) \<in>
    {(Descargando, DescargaVerificada, Preparado), (Descargando, Abortada, Descartado),
     (Preparado, Abortada, Descartado), (Preparado, RespaldoDurable, Preparado),
     (Preparado, RegistroArranquePublicado, Armado), (Armado, AplicacionIniciada, Aplicando),
     (Aplicando, AplicacionIniciada, Aplicando), (Aplicando, AplicacionCompleta, Probando),
     (Probando, PruebaSuperada, Confirmado), (Probando, PruebaFallida, Revirtiendo),
     (Probando, ReversionSolicitada, Revirtiendo), (Confirmado, ReversionSolicitada, Revirtiendo),
     (Armado, ReversionSolicitada, Revertido), (Aplicando, PruebaFallida, Revirtiendo),
     (Aplicando, ReversionSolicitada, Revirtiendo), (Revirtiendo, ReversionSolicitada, Revirtiendo),
     (Revirtiendo, ReversionCompleta, Revertido)}"
  using assms by (cases s; cases ev) (simp_all add: txn_next_def)

text \<open>The events every run to a state must contain, in order.\<close>

primrec hitos :: "txn_state \<Rightarrow> txn_event list" where
  "hitos Descargando = []"
| "hitos Preparado = [DescargaVerificada]"
| "hitos Armado = [DescargaVerificada, RegistroArranquePublicado]"
| "hitos Aplicando = [DescargaVerificada, RegistroArranquePublicado, AplicacionIniciada]"
| "hitos Probando =
     [DescargaVerificada, RegistroArranquePublicado, AplicacionIniciada, AplicacionCompleta]"
| "hitos Confirmado =
     [DescargaVerificada, RegistroArranquePublicado, AplicacionIniciada, AplicacionCompleta, PruebaSuperada]"
| "hitos Revirtiendo = [DescargaVerificada, RegistroArranquePublicado, AplicacionIniciada]"
| "hitos Revertido = [DescargaVerificada, RegistroArranquePublicado]"
| "hitos Descartado = [Abortada]"

lemma hitos_next:
  assumes "txn_next s ev = Inr t"
  shows "subseq (hitos t) (hitos s @ [ev])"
  using txn_next_Inr_cases [OF assms] by auto

lemma hitos_run:
  "txn_run Descargando evs = Inr s \<Longrightarrow> subseq (hitos s) evs"
proof (induction evs arbitrary: s rule: rev_induct)
  case (snoc ev evs)
  then obtain r where r: "txn_run Descargando evs = Inr r" "txn_next r ev = Inr s"
    by (auto simp: txn_run_append)
  have "subseq (hitos s) (hitos r @ [ev])" using r(2) by (rule hitos_next)
  also have "subseq (hitos r @ [ev]) (evs @ [ev])"
    using snoc.IH [OF r(1)] by (simp add: list_emb_append_mono)
  finally show ?case .
qed simp

lemma hitos_armado: "exige_respaldos s \<Longrightarrow> RegistroArranquePublicado \<in> set (hitos s)"
  by (cases s) (auto simp: exige_respaldos_def)

lemma txn_finales:
  "txn_next Revertido ev = Inl \<lparr>desde = Revertido, evento = ev\<rparr>"
  "txn_next Descartado ev = Inl \<lparr>desde = Descartado, evento = ev\<rparr>"
  by (cases ev; simp add: txn_next_def)+

lemma unat_total_sosofs:
  "unat (total_sosofs n) =
     min (unat (preparacion n) + unat (nec_respaldo n) + unat (crecimiento n) + 20 * 1024 * 1024)
       (2 ^ 64 - 1)"
  by (simp add: total_sosofs_def unat_sat_add RESERVA_LOGS_def RESERVA_RECUPERACION_def)

section \<open>Properties\<close>

text \<open>(\<open>TxnState::next\<close>, order): whatever the events, an operation that starts downloading and reaches a
  state has gone through the milestones of that state, in order.  In particular it is confirmed only
  after the download was verified, the boot record published, the application started and finished
  and the trial passed; and it needs backups only after the boot record was published.\<close>

theorem txn_hitos_en_orden:
  assumes "txn_run Descargando evs = Inr s"
  shows "subseq (hitos s) evs \<and> (exige_respaldos s \<longrightarrow> RegistroArranquePublicado \<in> set evs) \<and>
    (s = Confirmado \<longrightarrow>
       subseq [DescargaVerificada, RegistroArranquePublicado, AplicacionIniciada, AplicacionCompleta, PruebaSuperada] evs)"
proof -
  have h: "subseq (hitos s) evs" using assms by (rule hitos_run)
  moreover have "RegistroArranquePublicado \<in> set evs" if "exige_respaldos s"
    using list_emb_set [OF h hitos_armado [OF that]] by blast
  ultimately show ?thesis by auto
qed

theorem txn_hitos_en_orden_witness:
  "subseq (hitos Confirmado)
     [DescargaVerificada, RespaldoDurable, RegistroArranquePublicado, AplicacionIniciada, AplicacionIniciada, AplicacionCompleta,
      PruebaSuperada]"
  using txn_hitos_en_orden [of "[DescargaVerificada, RespaldoDurable, RegistroArranquePublicado, AplicacionIniciada,
      AplicacionIniciada, AplicacionCompleta, PruebaSuperada]" Confirmado]
  by (simp add: txn_next_def)

text \<open>(\<open>TxnState::next\<close>, no dead end): from every state some sequence of at most four events closes the
  operation, and a reverted or discarded operation accepts no event any more.\<close>

theorem txn_siempre_cierra:
  "(\<exists>evs t. length evs \<le> 4 \<and> txn_run s evs = Inr t \<and> estado_recogible t) \<and>
   (s \<in> {Revertido, Descartado} \<longleftrightarrow> (\<forall>ev. \<exists>e. txn_next s ev = Inl e))"
proof
  show "\<exists>evs t. length evs \<le> 4 \<and> txn_run s evs = Inr t \<and> estado_recogible t"
  proof (cases s)
    case Revirtiendo
    then show ?thesis by (intro exI [of _ "[ReversionCompleta]"] exI [of _ Revertido]) (simp add: txn_next_def estado_recogible_def)
  next
    case Aplicando
    then show ?thesis
      by (intro exI [of _ "[AplicacionCompleta, PruebaSuperada]"] exI [of _ Confirmado]) (simp add: txn_next_def estado_recogible_def)
  next
    case Probando
    then show ?thesis by (intro exI [of _ "[PruebaSuperada]"] exI [of _ Confirmado]) (simp add: txn_next_def estado_recogible_def)
  next
    case Armado
    then show ?thesis by (intro exI [of _ "[ReversionSolicitada]"] exI [of _ Revertido]) (simp add: txn_next_def estado_recogible_def)
  qed (auto simp: txn_next_def estado_recogible_def intro: exI [of _ "[]"] exI [of _ "[Abortada]"])
  show "s \<in> {Revertido, Descartado} \<longleftrightarrow> (\<forall>ev. \<exists>e. txn_next s ev = Inl e)"
  proof
    assume "s \<in> {Revertido, Descartado}"
    then show "\<forall>ev. \<exists>e. txn_next s ev = Inl e" using txn_finales by auto
  next
    assume "\<forall>ev. \<exists>e. txn_next s ev = Inl e"
    then have "\<exists>e. txn_next s Abortada = Inl e" "\<exists>e. txn_next s AplicacionIniciada = Inl e" "\<exists>e. txn_next s ReversionSolicitada = Inl e"
      by auto
    then show "s \<in> {Revertido, Descartado}" by (cases s) (auto simp: txn_next_def)
  qed
qed

end
