(* ===== verification/Diario.thy ===== *)
theory Diario
  imports Txn
begin

text \<open>
  \<open>crates/soso-update-core/src/txn/journal.rs\<close>: the journal of an operation, its two copies in
  sosofs, and its internal coherence.  The theory shows that a journal with clean fields is read
  back as it was written and what a validated journal guarantees, and provides the journal as an
  instance of \<open>registro_durable\<close>.
\<close>

definition JOURNAL_MAGIC :: string where "JOURNAL_MAGIC = ''SOSOTXN diario''"
definition JOURNAL_FORMATO :: u16 where "JOURNAL_FORMATO = 1"

datatype accion = Crear | Reemplazar | Borrar

primrec accion_str :: "accion \<Rightarrow> string" where
  "accion_str Crear = ''crear''"
| "accion_str Reemplazar = ''reemplazar''"
| "accion_str Borrar = ''borrar''"

definition accion_parse :: "string \<Rightarrow> accion option" where
  "accion_parse s =
     (if s = ''crear'' then Some Crear
      else if s = ''reemplazar'' then Some Reemplazar
      else if s = ''borrar'' then Some Borrar
      else None)"

definition exige_respaldo :: "accion \<Rightarrow> bool" where
  "exige_respaldo a = (a \<noteq> Crear)"

datatype progreso = Pendiente | Respaldado | Aplicado | Restaurado

primrec progreso_str :: "progreso \<Rightarrow> string" where
  "progreso_str Pendiente = ''pendiente''"
| "progreso_str Respaldado = ''respaldado''"
| "progreso_str Aplicado = ''aplicado''"
| "progreso_str Restaurado = ''restaurado''"

definition progreso_parse :: "string \<Rightarrow> progreso option" where
  "progreso_parse s =
     (if s = ''pendiente'' then Some Pendiente
      else if s = ''respaldado'' then Some Respaldado
      else if s = ''aplicado'' then Some Aplicado
      else if s = ''restaurado'' then Some Restaurado
      else None)"

record contenido =
  c_size :: u64
  c_hash :: string

record entrada =
  e_accion :: accion
  e_progreso :: progreso
  e_path :: string
  e_nuevo :: "contenido option"
  e_respaldo :: "contenido option"

record journal =
  j_id :: txn_id
  j_estado :: txn_state
  j_seq :: u64
  j_version_nueva :: string
  j_version_anterior :: string
  j_kernel_nuevo :: "contenido option"
  j_kernel_anterior :: "contenido option"
  j_entradas :: "entrada list"

datatype journal_error =
    JRegistro record_error | JIdInvalido | EstadoInvalido | JEntrada string
  | RutaInvalida string | RutaDuplicada string | SinRespaldo string
  | ProgresoInconsistente string | SinKernel

definition contenido_fmt :: "contenido option \<Rightarrow> string" where
  "contenido_fmt c =
     (case c of Some c \<Rightarrow> show_word (c_size c) @ '' '' @ c_hash c | None \<Rightarrow> ''- -'')"

definition contenido_parse :: "string \<Rightarrow> string \<Rightarrow> journal_error + contenido option" where
  "contenido_parse tam hash =
     (if tam = ''-'' \<and> hash = ''-'' then Inr None
      else case parse_word tam of
        None \<Rightarrow> Inl (JEntrada ''size'')
      | Some n \<Rightarrow>
          if length hash \<noteq> 64 \<or> \<not> list_all is_ascii_hexdigit hash then Inl (JEntrada ''hash'')
          else Inr (Some \<lparr>c_size = n, c_hash = hash\<rparr>))"

definition ruta_valida :: "string \<Rightarrow> bool" where
  "ruta_valida p =
     (p \<noteq> [] \<and> \<not> starts_with ''/'' p \<and> CHR 0x5C \<notin> set p
      \<and> \<not> list_ex (\<lambda>seg. seg = ''..'' \<or> seg = []) (split_on CHR ''/'' p))"

definition journal_nuevo :: "txn_id \<Rightarrow> string \<Rightarrow> string \<Rightarrow> journal" where
  "journal_nuevo i nueva anterior =
     \<lparr>j_id = i, j_estado = Descargando, j_seq = 0, j_version_nueva = nueva,
      j_version_anterior = anterior, j_kernel_nuevo = None, j_kernel_anterior = None,
      j_entradas = []\<rparr>"

definition entrada_fmt :: "entrada \<Rightarrow> string" where
  "entrada_fmt e =
     ''a '' @ accion_str (e_accion e) @ '' '' @ progreso_str (e_progreso e) @ '' '' @
     contenido_fmt (e_nuevo e) @ '' '' @ contenido_fmt (e_respaldo e) @ '' '' @ e_path e"

definition journal_body :: "journal \<Rightarrow> string" where
  "journal_body j =
     ''id='' @ to_hex (j_id j) @ [NL] @
     ''estado='' @ estado_str (j_estado j) @ [NL] @
     ''version_nueva='' @ j_version_nueva j @ [NL] @
     ''version_anterior='' @ j_version_anterior j @ [NL] @
     ''kernel_nuevo='' @ contenido_fmt (j_kernel_nuevo j) @ [NL] @
     ''kernel_anterior='' @ contenido_fmt (j_kernel_anterior j) @ [NL] @
     concat (map (\<lambda>e. entrada_fmt e @ [NL]) (j_entradas j))"

definition journal_format :: "(bytes \<Rightarrow> u32) \<Rightarrow> journal \<Rightarrow> bytes" where
  "journal_format crc j = frame crc JOURNAL_MAGIC JOURNAL_FORMATO (j_seq j) (journal_body j)"

definition entrada_parse :: "string \<Rightarrow> journal_error + entrada" where
  "entrada_parse linea =
     (case splitn 8 CHR '' '' linea of
        [_, a, p, ns, nh, rs, rh, ruta] \<Rightarrow>
          res_bind (ok_or (accion_parse a) (JEntrada ''accion'')) (\<lambda>a.
          res_bind (ok_or (progreso_parse p) (JEntrada ''progreso'')) (\<lambda>p.
          res_bind (contenido_parse ns nh) (\<lambda>n.
          res_bind (contenido_parse rs rh) (\<lambda>r.
          Inr \<lparr>e_accion = a, e_progreso = p, e_path = ruta, e_nuevo = n, e_respaldo = r\<rparr>))))
      | _ \<Rightarrow> Inl (JEntrada ''campos''))"

fun entradas_parse :: "string list \<Rightarrow> journal_error + entrada list" where
  "entradas_parse [] = Inr []"
| "entradas_parse (l # ls) =
     res_bind (entrada_parse l) (\<lambda>e. res_bind (entradas_parse ls) (\<lambda>es. Inr (e # es)))"

definition kernel_campo :: "framed \<Rightarrow> string \<Rightarrow> journal_error + contenido option" where
  "kernel_campo f clave =
     res_bind (map_err JRegistro (requerido f clave)) (\<lambda>v.
     res_bind (ok_or (split_once CHR '' '' v) (JEntrada ''kernel'')) (\<lambda>(s, h).
     contenido_parse s h))"

definition journal_from_framed :: "framed \<Rightarrow> journal_error + journal" where
  "journal_from_framed f =
     res_bind (map_err JRegistro (requerido f ''id'')) (\<lambda>hex.
     res_bind (ok_or (from_hex hex) JIdInvalido) (\<lambda>i.
     res_bind (map_err JRegistro (requerido f ''estado'')) (\<lambda>s.
     res_bind (ok_or (estado_parse s) EstadoInvalido) (\<lambda>estado.
     res_bind (entradas_parse (lineas f ''a '')) (\<lambda>entradas.
     res_bind (map_err JRegistro (requerido f ''version_nueva'')) (\<lambda>nueva.
     res_bind (map_err JRegistro (requerido f ''version_anterior'')) (\<lambda>anterior.
     res_bind (kernel_campo f ''kernel_nuevo'') (\<lambda>kn.
     res_bind (kernel_campo f ''kernel_anterior'') (\<lambda>ka.
     Inr \<lparr>j_id = i, j_estado = estado, j_seq = fr_seq f, j_version_nueva = nueva,
          j_version_anterior = anterior, j_kernel_nuevo = kn, j_kernel_anterior = ka,
          j_entradas = entradas\<rparr>)))))))))"

definition journal_parse :: "(bytes \<Rightarrow> u32) \<Rightarrow> bytes \<Rightarrow> journal_error + journal" where
  "journal_parse crc raw =
     res_bind (map_err JRegistro (record_parse crc JOURNAL_MAGIC JOURNAL_FORMATO raw))
       journal_from_framed"

definition journal_pick :: "(bytes \<Rightarrow> u32) \<Rightarrow> bytes list \<Rightarrow> journal_error + journal" where
  "journal_pick crc copias =
     res_bind (map_err JRegistro (record_pick crc JOURNAL_MAGIC JOURNAL_FORMATO copias))
       (\<lambda>(_, f). journal_from_framed f)"

definition validate_entrada :: "txn_state \<Rightarrow> entrada \<Rightarrow> journal_error + unit" where
  "validate_entrada estado e =
     (let sin = exige_respaldo (e_accion e) \<and> e_respaldo e = None in
      if e_accion e = Crear \<and> (e_respaldo e \<noteq> None \<or> e_nuevo e = None) then Inl (JEntrada ''crear'')
      else if e_accion e = Reemplazar \<and> e_nuevo e = None then Inl (JEntrada ''reemplazar'')
      else if e_accion e = Borrar \<and> e_nuevo e \<noteq> None then Inl (JEntrada ''borrar'')
      else if exige_respaldos estado \<and> sin then Inl (SinRespaldo (e_path e))
      else if e_progreso e = Restaurado \<and> sin then Inl (ProgresoInconsistente (e_path e))
      else if e_progreso e = Aplicado \<and> sin then Inl (ProgresoInconsistente (e_path e))
      else Inr ())"

fun validate_entradas :: "txn_state \<Rightarrow> string set \<Rightarrow> entrada list \<Rightarrow> journal_error + unit" where
  "validate_entradas estado vistas [] = Inr ()"
| "validate_entradas estado vistas (e # es) =
     (if \<not> ruta_valida (e_path e) then Inl (RutaInvalida (e_path e))
      else if e_path e \<in> vistas then Inl (RutaDuplicada (e_path e))
      else res_bind (validate_entrada estado e) (\<lambda>_.
        validate_entradas estado (insert (e_path e) vistas) es))"

definition contenido_bien :: "contenido \<Rightarrow> bool" where
  "contenido_bien c = (length (c_hash c) = 64 \<and> list_all is_ascii_hexdigit (c_hash c))"

definition journal_validate :: "journal \<Rightarrow> journal_error + unit" where
  "journal_validate j =
     res_bind (validate_entradas (j_estado j) {} (j_entradas j)) (\<lambda>_.
       if exige_respaldos (j_estado j)
       then if \<not> (case j_kernel_nuevo j of None \<Rightarrow> False | Some c \<Rightarrow> contenido_bien c) then Inl SinKernel
            else if (case j_kernel_anterior j of None \<Rightarrow> False | Some c \<Rightarrow> \<not> contenido_bien c)
              then Inl SinKernel
            else Inr ()
       else Inr ())"

definition pendientes_aplicar :: "journal \<Rightarrow> entrada list" where
  "pendientes_aplicar j = filter (\<lambda>e. e_progreso e \<noteq> Aplicado) (j_entradas j)"

definition pendientes_restaurar :: "journal \<Rightarrow> entrada list" where
  "pendientes_restaurar j = filter (\<lambda>e. e_progreso e = Aplicado) (j_entradas j)"

text \<open>\<open>avanzar\<close> returns the new state and changes the journal in place: here, the journal.\<close>

definition avanzar :: "journal \<Rightarrow> txn_event \<Rightarrow> transicion_invalida + journal" where
  "avanzar j ev =
     res_bind (txn_next (j_estado j) ev) (\<lambda>siguiente.
       Inr (j\<lparr>j_estado := siguiente, j_seq := j_seq j + 1\<rparr>))"

section \<open>Round trip\<close>

lemma accion_parse_str [simp]: "accion_parse (accion_str a) = Some a"
  by (cases a) (simp_all add: accion_parse_def)

lemma progreso_parse_str [simp]: "progreso_parse (progreso_str p) = Some p"
  by (cases p) (simp_all add: progreso_parse_def)

definition contenido_ok :: "contenido option \<Rightarrow> bool" where
  "contenido_ok c = (case c of None \<Rightarrow> True | Some c \<Rightarrow> contenido_bien c)"

definition path_ok :: "string \<Rightarrow> bool" where
  "path_ok p = (texto_ok p \<and> trim_end ('' '' @ p) = '' '' @ p)"

definition entrada_ok :: "entrada \<Rightarrow> bool" where
  "entrada_ok e = (contenido_ok (e_nuevo e) \<and> contenido_ok (e_respaldo e) \<and> path_ok (e_path e))"

text \<open>A journal whose fields survive a line oriented format: this is what the writer has to
  guarantee, and \<open>journal_validate\<close> alone does not.\<close>

definition journal_ok :: "journal \<Rightarrow> bool" where
  "journal_ok j =
     (length (j_id j) = 32 \<and> version_ok (j_version_nueva j) \<and> version_ok (j_version_anterior j)
      \<and> contenido_ok (j_kernel_nuevo j) \<and> contenido_ok (j_kernel_anterior j)
      \<and> list_all entrada_ok (j_entradas j))"

lemma is_ascii_hexdigit_ascii:
  "is_ascii_hexdigit c \<Longrightarrow> byte_in 0 0x7F c \<and> c \<noteq> NL \<and> c \<noteq> NUL"
  by (auto simp: is_ascii_hexdigit_def byte_in_def)

lemma is_ascii_hexdigit_ws: "is_ascii_hexdigit c \<Longrightarrow> c \<notin> ws_byte"
  by (rule ws_byte_ascii) (auto simp: is_ascii_hexdigit_def byte_in_def)

lemma contenido_partes:
  assumes "contenido_ok c"
  obtains s h x where "contenido_fmt c = s @ CHR '' '' # h @ [x]" "CHR '' '' \<notin> set s"
    "CHR '' '' \<notin> set (h @ [x])" "contenido_parse s (h @ [x]) = Inr c" "texto_ok s"
    "texto_ok (h @ [x])" "x \<notin> ws_byte"
proof (cases c)
  case None
  show ?thesis
  proof (rule that [of "''-''" "[]" "CHR ''-''"])
    show "CHR ''-'' \<notin> ws_byte" by (rule ws_byte_ascii) simp_all
  qed (simp_all add: None contenido_fmt_def contenido_parse_def texto_ok_Cons byte_in_def)
next
  case (Some k)
  with assms have k: "length (c_hash k) = 64" "list_all is_ascii_hexdigit (c_hash k)"
    by (auto simp: contenido_ok_def contenido_bien_def)
  define h x where "h = butlast (c_hash k)" and "x = last (c_hash k)"
  have hx: "c_hash k = h @ [x]"
    using k(1) by (simp add: h_def x_def append_butlast_last_id [symmetric] del: append_butlast_last_id)
      (metis append_butlast_last_id list.size(3) zero_neq_numeral)
  have sp: "CHR '' '' \<notin> set v" if "list_all P v" "\<not> P CHR '' ''" for v :: string and P
    using that by (auto simp: list_all_iff)
  have num: "CHR '' '' \<notin> set (show_word (c_size k))"
    by (rule sp [OF show_word_digits]) (simp add: is_ascii_digit_def)
  have hsp: "CHR '' '' \<notin> set (c_hash k)"
    by (rule sp [OF k(2)]) (simp add: is_ascii_hexdigit_def byte_in_def)
  show ?thesis
  proof (rule that [of "show_word (c_size k)" h x])
    show "contenido_parse (show_word (c_size k)) (h @ [x]) = Inr c"
      using k hx by (auto simp: contenido_parse_def Some)
    show "texto_ok (h @ [x])"
      using ascii_texto [OF k(2) is_ascii_hexdigit_ascii] hx by simp
    show "x \<notin> ws_byte"
      using k(2) hx is_ascii_hexdigit_ws by simp
  qed (use num hsp hx in \<open>simp_all add: Some contenido_fmt_def digits_texto show_word_digits\<close>)
qed

lemma texto_str: "texto_ok (accion_str a)" "texto_ok (progreso_str p)" "texto_ok (estado_str s)"
  subgoal by (cases a; simp add: texto_ok_Cons byte_in_def)
  subgoal by (cases p; simp add: texto_ok_Cons byte_in_def)
  subgoal by (cases s; simp add: texto_ok_Cons byte_in_def)
  done

lemma sin_espacios: "CHR '' '' \<notin> set (accion_str a)" "CHR '' '' \<notin> set (progreso_str p)"
  subgoal by (cases a; simp)
  subgoal by (cases p; simp)
  done

lemma contenido_fmt_texto: "contenido_ok c \<Longrightarrow> texto_ok (contenido_fmt c)"
  by (erule contenido_partes) (simp add: texto_ok_append texto_ok_Cons byte_in_def)

lemma entrada_fmt_linea:
  assumes "entrada_ok e"
  shows "linea_ok (entrada_fmt e)"
proof -
  obtain s h x where r: "contenido_fmt (e_respaldo e) = s @ CHR '' '' # h @ [x]" "x \<notin> ws_byte"
    using assms contenido_partes by (metis entrada_ok_def)
  define a where "a = ''a '' @ accion_str (e_accion e) @ '' '' @ progreso_str (e_progreso e) @ '' '' @
     contenido_fmt (e_nuevo e) @ '' '' @ s @ CHR '' '' # h"
  have fmt: "entrada_fmt e = a @ x # CHR '' '' # e_path e"
    by (simp add: entrada_fmt_def a_def r)
  have "trim (entrada_fmt e) = entrada_fmt e"
    unfolding fmt
  proof (subst trim_barrier)
    have "CHR ''a'' \<notin> ws_byte" by (rule ws_byte_ascii) simp_all
    then show "hd a \<notin> ws_head" using ws_head_byte by (auto simp: a_def)
  qed (use r assms in \<open>simp_all add: a_def entrada_ok_def path_ok_def\<close>)
  moreover have "texto_ok (entrada_fmt e)"
    using assms unfolding entrada_fmt_def
    by (simp add: texto_ok_append texto_ok_Cons byte_in_def texto_str contenido_fmt_texto
        entrada_ok_def path_ok_def)
  ultimately show ?thesis by (simp add: linea_ok_def entrada_fmt_def)
qed

lemma entrada_parse_fmt:
  assumes "entrada_ok e"
  shows "entrada_parse (entrada_fmt e) = Inr e"
proof -
  have ok: "contenido_ok (e_nuevo e)" "contenido_ok (e_respaldo e)"
    using assms by (simp_all add: entrada_ok_def)
  obtain ns nh nx where n: "contenido_fmt (e_nuevo e) = ns @ CHR '' '' # nh @ [nx]"
      "CHR '' '' \<notin> set ns" "CHR '' '' \<notin> set (nh @ [nx])"
      "contenido_parse ns (nh @ [nx]) = Inr (e_nuevo e)"
    using ok(1) by (rule contenido_partes)
  obtain rs rh rx where r: "contenido_fmt (e_respaldo e) = rs @ CHR '' '' # rh @ [rx]"
      "CHR '' '' \<notin> set rs" "CHR '' '' \<notin> set (rh @ [rx])"
      "contenido_parse rs (rh @ [rx]) = Inr (e_respaldo e)"
    using ok(2) by (rule contenido_partes)
  have "entrada_fmt e = ''a'' @ CHR '' '' # accion_str (e_accion e) @ CHR '' '' #
      progreso_str (e_progreso e) @ CHR '' '' # ns @ CHR '' '' # (nh @ [nx]) @ CHR '' '' #
      rs @ CHR '' '' # (rh @ [rx]) @ CHR '' '' # e_path e"
    by (simp add: entrada_fmt_def n r)
  moreover have "(8 :: nat) = Suc (Suc (Suc (Suc (Suc (Suc (Suc (Suc 0)))))))" by simp
  moreover have "CHR '' '' \<notin> set ''a''" by simp
  ultimately have "splitn 8 CHR '' '' (entrada_fmt e) =
      [''a'', accion_str (e_accion e), progreso_str (e_progreso e), ns, nh @ [nx], rs, rh @ [rx],
       e_path e]"
    using n(2,3) r(2,3) sin_espacios
    by (simp only: splitn_Suc_append splitn.simps(2) simp_thms)
  then show ?thesis using n(4) r(4) by (simp add: entrada_parse_def)
qed

lemma entradas_parse_fmt:
  "list_all entrada_ok es \<Longrightarrow> entradas_parse (map entrada_fmt es) = Inr es"
  by (induction es) (simp_all add: entrada_parse_fmt)

text \<open>The journal as a list of lines.\<close>

definition journal_lineas :: "journal \<Rightarrow> string list" where
  "journal_lineas j =
     [''id='' @ to_hex (j_id j), ''estado='' @ estado_str (j_estado j),
      ''version_nueva='' @ j_version_nueva j, ''version_anterior='' @ j_version_anterior j,
      ''kernel_nuevo='' @ contenido_fmt (j_kernel_nuevo j),
      ''kernel_anterior='' @ contenido_fmt (j_kernel_anterior j)] @ map entrada_fmt (j_entradas j)"

lemma journal_body_lineas: "journal_body j = unlines (journal_lineas j)"
  by (simp add: journal_body_def journal_lineas_def unlines_def comp_def)

lemma trim_end_str: "trim_end (estado_str s) = estado_str s"
proof (rule trim_end_last)
  show "last (estado_str s) \<notin> ws_byte" by (rule ws_byte_ascii; cases s; simp)
qed (cases s; simp)

lemma trim_end_contenido: "contenido_ok c \<Longrightarrow> trim_end (contenido_fmt c) = contenido_fmt c"
  by (erule contenido_partes) (auto intro: trim_end_last)

lemma journal_lineas_ok:
  assumes "journal_ok j"
  shows "list_all linea_ok (journal_lineas j)"
proof -
  note kv = kv_linea [where k = "''d''"] kv_linea [where k = "''stado''"]
    kv_linea [where k = "''ersion_nueva''"] kv_linea [where k = "''ersion_anterior''"]
    kv_linea [where k = "''ernel_nuevo''"] kv_linea [where k = "''ernel_anterior''"]
  have "list_all linea_ok (map entrada_fmt (j_entradas j))"
    using assms by (auto simp: journal_ok_def list_all_iff entrada_fmt_linea)
  then show ?thesis
    using assms unfolding journal_lineas_def journal_ok_def version_ok_def
    by (simp add: kv [simplified] texto_ok_Cons byte_in_def hex_texto to_hex_lower trim_end_hex texto_str trim_end_str
        contenido_fmt_texto trim_end_contenido)
qed

lemma journal_campos:
  assumes "journal_ok j" and f: "fr_body f = journal_body j"
  shows "requerido f ''id'' = Inr (to_hex (j_id j))"
    and "requerido f ''estado'' = Inr (estado_str (j_estado j))"
    and "requerido f ''version_nueva'' = Inr (j_version_nueva j)"
    and "requerido f ''version_anterior'' = Inr (j_version_anterior j)"
    and "requerido f ''kernel_nuevo'' = Inr (contenido_fmt (j_kernel_nuevo j))"
    and "requerido f ''kernel_anterior'' = Inr (contenido_fmt (j_kernel_anterior j))"
    and "lineas f ''a '' = map entrada_fmt (j_entradas j)"
proof -
  have ls: "list_all linea_ok (journal_lineas j)" using assms(1) by (rule journal_lineas_ok)
  then have "tlines (fr_body f) = map trim (journal_lineas j)"
    by (simp add: f journal_body_lineas tlines_unlines list_all_iff linea_ok_def texto_ok_def)
  then have t: "tlines (fr_body f) = journal_lineas j"
    using ls by (simp add: list_all_iff linea_ok_def map_idI)
  show "requerido f ''id'' = Inr (to_hex (j_id j))"
    "requerido f ''estado'' = Inr (estado_str (j_estado j))"
    "requerido f ''version_nueva'' = Inr (j_version_nueva j)"
    "requerido f ''version_anterior'' = Inr (j_version_anterior j)"
    "requerido f ''kernel_nuevo'' = Inr (contenido_fmt (j_kernel_nuevo j))"
    "requerido f ''kernel_anterior'' = Inr (contenido_fmt (j_kernel_anterior j))"
    by (simp_all add: requerido_def campo_def t journal_lineas_def)
  show "lineas f ''a '' = map entrada_fmt (j_entradas j)"
    by (simp add: lineas_def t journal_lineas_def filter_map comp_def entrada_fmt_def)
qed

lemma kernel_campo_fmt:
  assumes "contenido_ok c" "requerido f k = Inr (contenido_fmt c)"
  shows "kernel_campo f k = Inr c"
  using assms(1)
proof (rule contenido_partes)
  fix s h x
  assume "contenido_fmt c = s @ CHR '' '' # h @ [x]" "CHR '' '' \<notin> set s"
    "contenido_parse s (h @ [x]) = Inr c"
  then show ?thesis by (simp add: kernel_campo_def assms(2))
qed

lemma journal_from_framed_body:
  assumes "journal_ok j"
  shows "journal_from_framed \<lparr>fr_formato = n, fr_seq = j_seq j, fr_body = journal_body j\<rparr> = Inr j"
proof -
  define f where "f = \<lparr>fr_formato = n, fr_seq = j_seq j, fr_body = journal_body j\<rparr>"
  have "fr_body f = journal_body j" by (simp add: f_def)
  note campos = journal_campos [OF assms this]
  have "kernel_campo f ''kernel_nuevo'' = Inr (j_kernel_nuevo j)"
    "kernel_campo f ''kernel_anterior'' = Inr (j_kernel_anterior j)"
    using assms campos by (auto intro: kernel_campo_fmt simp: journal_ok_def)
  moreover have "fr_seq f = j_seq j" by (simp add: f_def)
  ultimately have "journal_from_framed f = Inr j"
    using assms campos by (simp add: journal_from_framed_def entradas_parse_fmt journal_ok_def)
  then show ?thesis by (simp add: f_def)
qed

lemma magic_diario: "magic_ok JOURNAL_MAGIC"
proof -
  have "trim JOURNAL_MAGIC = JOURNAL_MAGIC" unfolding JOURNAL_MAGIC_def by code_simp
  then show ?thesis by (simp add: magic_ok_def JOURNAL_MAGIC_def texto_ok_Cons byte_in_def)
qed

lemma journal_parse_framed:
  assumes "journal_ok j"
  shows "record_parse crc JOURNAL_MAGIC JOURNAL_FORMATO (journal_format crc j) =
    Inr \<lparr>fr_formato = JOURNAL_FORMATO, fr_seq = j_seq j, fr_body = journal_body j\<rparr>"
proof -
  show ?thesis
    using magic_diario record_parse_frame [OF _ journal_lineas_ok [OF assms], where n = 0 and magic = JOURNAL_MAGIC]
    by (simp add: journal_format_def journal_body_lineas JOURNAL_FORMATO_def)
qed

lemma journal_parse_format: "journal_ok j \<Longrightarrow> journal_parse crc (journal_format crc j) = Inr j"
  by (simp add: journal_parse_def journal_parse_framed journal_from_framed_body)

interpretation diario: registro_durable
  "record_parse crc JOURNAL_MAGIC JOURNAL_FORMATO" journal_from_framed "journal_format crc"
  journal_ok j_seq "journal_pick crc" COPIAS for crc
proof unfold_locales
  fix j assume "journal_ok j"
  then show "\<exists>f. record_parse crc JOURNAL_MAGIC JOURNAL_FORMATO (journal_format crc j) = Inr f \<and>
      journal_from_framed f = Inr j \<and> fr_seq f = j_seq j"
    by (simp add: journal_parse_framed journal_from_framed_body)
qed (simp_all add: journal_pick_def record_pick_def COPIAS_def)

section \<open>Coherence\<close>

definition entrada_coherente :: "txn_state \<Rightarrow> entrada \<Rightarrow> bool" where
  "entrada_coherente estado e \<longleftrightarrow>
     (case e_accion e of
        Crear \<Rightarrow> e_respaldo e = None \<and> e_nuevo e \<noteq> None
      | Reemplazar \<Rightarrow> e_nuevo e \<noteq> None
      | Borrar \<Rightarrow> e_nuevo e = None)
     \<and> (e_accion e \<noteq> Crear \<and> (exige_respaldos estado \<or> e_progreso e \<in> {Aplicado, Restaurado})
          \<longrightarrow> e_respaldo e \<noteq> None)"

lemma validate_entrada_iff: "validate_entrada estado e = Inr () \<longleftrightarrow> entrada_coherente estado e"
  by (cases "e_accion e"; cases "e_progreso e")
    (auto simp: validate_entrada_def entrada_coherente_def exige_respaldo_def Let_def)

lemma validate_entradas_iff:
  "validate_entradas estado vistas es = Inr () \<longleftrightarrow>
     (\<forall>e \<in> set es. ruta_valida (e_path e) \<and> entrada_coherente estado e)
     \<and> distinct (map e_path es) \<and> vistas \<inter> e_path ` set es = {}"
  by (induction es arbitrary: vistas) (auto simp: validate_entrada_iff)

lemma journal_validate_iff:
  "journal_validate j = Inr () \<longleftrightarrow>
     (\<forall>e \<in> set (j_entradas j). ruta_valida (e_path e) \<and> entrada_coherente (j_estado j) e)
     \<and> distinct (map e_path (j_entradas j))
     \<and> (exige_respaldos (j_estado j) \<longrightarrow>
          (\<exists>c. j_kernel_nuevo j = Some c \<and> contenido_bien c) \<and> contenido_ok (j_kernel_anterior j))"
  by (auto simp: journal_validate_def validate_entradas_iff contenido_ok_def split: option.splits)

lemma avanzar_Inr: "avanzar j ev = Inr k \<longleftrightarrow>
    (\<exists>s. txn_next (j_estado j) ev = Inr s \<and> k = j\<lparr>j_estado := s, j_seq := j_seq j + 1\<rparr>)"
  by (auto simp: avanzar_def)

lemma split_on_no_sep: "seg \<in> set (split_on d s) \<Longrightarrow> d \<notin> set seg"
proof (induction s arbitrary: seg)
  case (Cons c s)
  then show ?case by (cases "split_on d s") (auto split: if_splits)
qed simp

section \<open>Properties\<close>

text \<open>C12 (two copies of the journal): over a valid pair of copies, a successor written in its turn and cut
  after any number of bytes leaves a pair that reads as the journal before or as its successor, and
  as the successor when the write is whole.\<close>

theorem diario_atomico:
  assumes "vigente (record_parse crc JOURNAL_MAGIC JOURNAL_FORMATO) COPIAS cs i f" "journal_from_framed f = Inr j"
    and "fr_seq f \<noteq> - 1" "journal_ok k" "j_seq k = fr_seq f + 1"
  shows "journal_pick crc (cs[ranura (j_seq k) COPIAS := take c (journal_format crc k)]) \<in> {Inr j, Inr k} \<and>
    journal_pick crc (cs[ranura (j_seq k) COPIAS := journal_format crc k]) = Inr k"
proof -
  define lee where "lee = record_parse crc JOURNAL_MAGIC JOURNAL_FORMATO"
  have todo: "journal_pick crc (cs[ranura (j_seq k) COPIAS := journal_format crc k]) = Inr k"
    using diario.publicado_se_lee [OF assms(1,3,4,5)] by simp
  define b where "b = take c (journal_format crc k)"
  have "lee b = lee (journal_format crc k) \<or> (\<exists>e. lee b = Inl e)"
    using record_parse_trunca [where crc = crc and seq = "j_seq k" and c = c and n = 0 and formato = JOURNAL_FORMATO,
        OF magic_diario journal_lineas_ok [OF assms(4)] _ order_refl refl]
    by (simp add: b_def lee_def journal_format_def journal_body_lineas JOURNAL_FORMATO_def)
  then show ?thesis
  proof
    assume l: "lee b = lee (journal_format crc k)"
    then have "pick_con lee (cs[r := b]) = pick_con lee (cs[r := journal_format crc k])" for r
      by (intro pick_con_map) (simp add: map_update)
    then show ?thesis using todo by (simp add: journal_pick_def record_pick_def lee_def b_def)
  next
    assume "\<exists>e. lee b = Inl e"
    then obtain e where "lee b = Inl e" by blast
    then have "journal_pick crc (cs[ranura (j_seq k) COPIAS := b]) = Inr j"
      using diario.corte_conserva(2) [OF assms(1,3), of b e] assms(2,5) by (simp add: lee_def)
    then show ?thesis using todo by (simp add: b_def)
  qed
qed

theorem diario_atomico_witness:
  "\<exists>cs. journal_pick (\<lambda>_. 0) (cs[0 := journal_format (\<lambda>_. 0) ((journal_nuevo (replicate 32 0) ''1.1'' ''1.0'')\<lparr>j_seq := 2\<rparr>)]) =
     Inr ((journal_nuevo (replicate 32 0) ''1.1'' ''1.0'')\<lparr>j_seq := 2\<rparr>)"
proof -
  define j where "j = (journal_nuevo (replicate 32 0) ''1.1'' ''1.0'')\<lparr>j_seq := 1\<rparr>"
  define k where "k = (journal_nuevo (replicate 32 0) ''1.1'' ''1.0'')\<lparr>j_seq := 2\<rparr>"
  have "version_ok ''1.1''" "version_ok ''1.0''" by code_simp+
  then have ok: "journal_ok j" "journal_ok k" by (simp_all add: journal_ok_def j_def k_def journal_nuevo_def contenido_ok_def)
  have vacio: "record_parse crc m n [] = Inl Vacia" for crc m n by (simp add: record_parse_def)
  obtain f where f: "vigente (record_parse (\<lambda>_. 0) JOURNAL_MAGIC JOURNAL_FORMATO) COPIAS
      ((replicate COPIAS [])[ranura (j_seq j) COPIAS := journal_format (\<lambda>_. 0) j]) (ranura (j_seq j) COPIAS) f"
      "journal_from_framed f = Inr j" "fr_seq f = j_seq j"
    using diario.publicado_vigente [of "replicate COPIAS []" j "\<lambda>_. 0"] ok(1) vacio by (auto simp del: replicate_Suc)
  have "ranura (j_seq k) COPIAS = 0" by (simp add: k_def ranura_def COPIAS_def)
  then show ?thesis using diario_atomico [OF f(1,2) _ ok(2)] f(3) by (auto simp: j_def k_def)
qed

text \<open>\<open>Journal::validate\<close>: a journal is accepted exactly when its paths are safe and distinct, each entry
  carries the contents its action needs, every replaced or removed file has a backup as soon as the
  state requires one or the entry was touched, and an armed operation knows both kernels.\<close>

theorem journal_validate_exacta:
  "journal_validate j = Inr () \<longleftrightarrow>
     (\<forall>e \<in> set (j_entradas j). ruta_valida (e_path e) \<and>
        (case e_accion e of
           Crear \<Rightarrow> e_respaldo e = None \<and> e_nuevo e \<noteq> None
         | Reemplazar \<Rightarrow> e_nuevo e \<noteq> None
         | Borrar \<Rightarrow> e_nuevo e = None) \<and>
        (e_accion e \<noteq> Crear \<and> (exige_respaldos (j_estado j) \<or> e_progreso e \<in> {Aplicado, Restaurado}) \<longrightarrow> e_respaldo e \<noteq> None))
     \<and> distinct (map e_path (j_entradas j))
     \<and> (exige_respaldos (j_estado j) \<longrightarrow>
          (\<exists>c. j_kernel_nuevo j = Some c \<and> contenido_bien c) \<and> contenido_ok (j_kernel_anterior j))"
  unfolding journal_validate_iff entrada_coherente_def by simp

theorem journal_validate_exacta_witness:
  "journal_validate (journal_nuevo (replicate 32 0) ''1.1'' ''1.0'') = Inr ()"
  using journal_validate_exacta [of "journal_nuevo (replicate 32 0) ''1.1'' ''1.0''"]
  by (simp add: journal_nuevo_def exige_respaldos_def)

end
