(* ===== verification/Bootrec.thy ===== *)
theory Bootrec
  imports Txn
begin

text \<open>
  \<open>crates/soso-update-core/src/txn/bootrec.rs\<close>: the boot record of the ESP, four slots of one
  kilobyte written by turns.  The constructors of \<open>Decision\<close> carry the prefix \<open>D\<close>, since the
  states of the transaction use the same words.
\<close>

definition BOOTREC_MAGIC :: string where "BOOTREC_MAGIC = ''SOSOTXN arranque''"
definition BOOTREC_FORMATO :: u16 where "BOOTREC_FORMATO = 2"
definition BOOTREC_SIZE :: nat where "BOOTREC_SIZE = SLOT_SIZE * SLOTS"

datatype decision =
    DIdle | DArmado | DProbando | DConfirmado | DRevertir | DRevertido | DRestauradoAPrueba
  | DRescatar

primrec decision_str :: "decision \<Rightarrow> string" where
  "decision_str DIdle = ''idle''"
| "decision_str DArmado = ''armado''"
| "decision_str DProbando = ''probando''"
| "decision_str DConfirmado = ''confirmado''"
| "decision_str DRevertir = ''revertir''"
| "decision_str DRevertido = ''revertido''"
| "decision_str DRescatar = ''rescatar''"
| "decision_str DRestauradoAPrueba = ''restaurado-a-prueba''"

definition decision_parse :: "string \<Rightarrow> decision option" where
  "decision_parse s =
     (if s = ''idle'' then Some DIdle
      else if s = ''armado'' then Some DArmado
      else if s = ''probando'' then Some DProbando
      else if s = ''confirmado'' then Some DConfirmado
      else if s = ''revertir'' then Some DRevertir
      else if s = ''revertido'' then Some DRevertido
      else if s = ''rescatar'' then Some DRescatar
      else if s = ''restaurado-a-prueba'' then Some DRestauradoAPrueba
      else None)"

record boot_record =
  b_decision :: decision
  b_id :: txn_id
  b_seq :: u64
  b_version_nueva :: string
  b_version_anterior :: string
  b_dir :: string
  b_punto :: "txn_id option"
  b_formato :: u16

datatype bootrec_error = BRegistro record_error | BIdInvalido | DecisionInvalida

definition bootrec_nuevo ::
  "decision \<Rightarrow> txn_id \<Rightarrow> string \<Rightarrow> string \<Rightarrow> u64 \<Rightarrow> boot_record" where
  "bootrec_nuevo d i nueva anterior seq =
     \<lparr>b_decision = d, b_id = i, b_seq = seq, b_version_nueva = nueva, b_version_anterior = anterior,
      b_dir = txn_dir i, b_punto = None, b_formato = BOOTREC_FORMATO\<rparr>"

definition con_punto :: "boot_record \<Rightarrow> txn_id \<Rightarrow> boot_record" where
  "con_punto r p = r\<lparr>b_punto := Some p\<rparr>"

definition bootrec_body :: "boot_record \<Rightarrow> string" where
  "bootrec_body r =
     ''decision='' @ decision_str (b_decision r) @ [NL] @
     ''id='' @ to_hex (b_id r) @ [NL] @
     ''version_nueva='' @ b_version_nueva r @ [NL] @
     ''version_anterior='' @ b_version_anterior r @ [NL] @
     ''dir='' @ b_dir r @ [NL] @
     (case b_punto r of None \<Rightarrow> [] | Some p \<Rightarrow> ''punto='' @ to_hex p @ [NL])"

definition bootrec_format :: "(bytes \<Rightarrow> u32) \<Rightarrow> boot_record \<Rightarrow> bootrec_error + bytes" where
  "bootrec_format crc r =
     map_err BRegistro
       (frame_slot crc BOOTREC_MAGIC BOOTREC_FORMATO (b_seq r) (bootrec_body r) SLOT_SIZE)"

definition bootrec_ranura :: "boot_record \<Rightarrow> nat" where
  "bootrec_ranura r = ranura (b_seq r) SLOTS"

definition bootrec_from_framed :: "framed \<Rightarrow> bootrec_error + boot_record" where
  "bootrec_from_framed f =
     res_bind (map_err BRegistro (requerido f ''id'')) (\<lambda>hex.
     res_bind (ok_or (from_hex hex) BIdInvalido) (\<lambda>i.
     res_bind (map_err BRegistro (requerido f ''decision'')) (\<lambda>ds.
     res_bind (ok_or (decision_parse ds) DecisionInvalida) (\<lambda>d.
     res_bind (map_err BRegistro (requerido f ''version_nueva'')) (\<lambda>nueva.
     res_bind (map_err BRegistro (requerido f ''version_anterior'')) (\<lambda>anterior.
     Inr \<lparr>b_decision = d, b_id = i, b_seq = fr_seq f, b_version_nueva = nueva,
          b_version_anterior = anterior,
          b_dir = (case campo f ''dir'' of None \<Rightarrow> txn_dir i | Some s \<Rightarrow> s),
          b_punto = Option.bind (campo f ''punto'') from_hex,
          b_formato = fr_formato f\<rparr>))))))"

definition bootrec_parse :: "(bytes \<Rightarrow> u32) \<Rightarrow> bytes \<Rightarrow> bootrec_error + boot_record" where
  "bootrec_parse crc raw =
     res_bind (map_err BRegistro (record_parse crc BOOTREC_MAGIC BOOTREC_FORMATO raw))
       bootrec_from_framed"

definition bootrec_pick_slots :: "(bytes \<Rightarrow> u32) \<Rightarrow> bytes list \<Rightarrow> bootrec_error + boot_record" where
  "bootrec_pick_slots crc slots =
     res_bind (map_err BRegistro (record_pick crc BOOTREC_MAGIC BOOTREC_FORMATO slots))
       (\<lambda>(_, f). bootrec_from_framed f)"

definition bootrec_pick :: "(bytes \<Rightarrow> u32) \<Rightarrow> bytes \<Rightarrow> bootrec_error + boot_record" where
  "bootrec_pick crc fichero = bootrec_pick_slots crc (take SLOTS (chunks SLOT_SIZE fichero))"

definition version_efectiva :: "boot_record \<Rightarrow> string" where
  "version_efectiva r =
     (if b_decision r \<in> {DConfirmado, DProbando} then b_version_nueva r
      else if b_decision r = DRestauradoAPrueba then b_version_anterior r
      else b_version_anterior r)"

definition conoce_puntos :: "boot_record \<Rightarrow> bool" where
  "conoce_puntos r = (b_formato r \<ge> 2)"

section \<open>Round trip\<close>

lemma decision_parse_str [simp]: "decision_parse (decision_str d) = Some d"
  by (cases d) (simp_all add: decision_parse_def)

definition bootrec_ok :: "boot_record \<Rightarrow> bool" where
  "bootrec_ok r =
     (length (b_id r) = 32 \<and> version_ok (b_version_nueva r) \<and> version_ok (b_version_anterior r)
      \<and> version_ok (b_dir r) \<and> b_formato r = BOOTREC_FORMATO
      \<and> (case b_punto r of None \<Rightarrow> True | Some p \<Rightarrow> length p = 32))"

definition bootrec_lineas :: "boot_record \<Rightarrow> string list" where
  "bootrec_lineas r =
     [''decision='' @ decision_str (b_decision r), ''id='' @ to_hex (b_id r),
      ''version_nueva='' @ b_version_nueva r, ''version_anterior='' @ b_version_anterior r,
      ''dir='' @ b_dir r] @
     (case b_punto r of None \<Rightarrow> [] | Some p \<Rightarrow> [''punto='' @ to_hex p])"

lemma bootrec_body_lineas: "bootrec_body r = unlines (bootrec_lineas r)"
  by (simp add: bootrec_body_def bootrec_lineas_def split: option.splits)

lemma decision_texto: "texto_ok (decision_str d)" "trim_end (decision_str d) = decision_str d"
proof -
  show "texto_ok (decision_str d)" by (cases d; simp add: texto_ok_Cons byte_in_def)
  have "last (decision_str d) \<notin> ws_byte" by (rule ws_byte_ascii; cases d; simp)
  then show "trim_end (decision_str d) = decision_str d"
    by (rule trim_end_last [rotated]) (cases d; simp)
qed

lemma bootrec_lineas_ok:
  assumes "bootrec_ok r"
  shows "list_all linea_ok (bootrec_lineas r)"
proof -
  note kv = kv_linea [where k = "''ecision''"] kv_linea [where k = "''d''"]
    kv_linea [where k = "''ersion_nueva''"] kv_linea [where k = "''ersion_anterior''"]
    kv_linea [where k = "''ir''"] kv_linea [where k = "''unto''"]
  show ?thesis
    using assms unfolding bootrec_lineas_def bootrec_ok_def version_ok_def
    by (simp add: kv [simplified] texto_ok_Cons byte_in_def hex_texto to_hex_lower trim_end_hex
        decision_texto split: option.splits)
qed

lemma bootrec_from_framed_body:
  assumes ok: "bootrec_ok r"
  shows "bootrec_from_framed \<lparr>fr_formato = b_formato r, fr_seq = b_seq r, fr_body = bootrec_body r\<rparr> = Inr r"
proof -
  define f where "f = \<lparr>fr_formato = b_formato r, fr_seq = b_seq r, fr_body = bootrec_body r\<rparr>"
  have f: "fr_formato f = b_formato r" "fr_seq f = b_seq r" by (simp_all add: f_def)
  have ls: "list_all linea_ok (bootrec_lineas r)" using ok by (rule bootrec_lineas_ok)
  then have "tlines (fr_body f) = map trim (bootrec_lineas r)"
    by (simp add: f_def bootrec_body_lineas tlines_unlines list_all_iff linea_ok_def texto_ok_def)
  then have t: "tlines (fr_body f) = bootrec_lineas r"
    using ls by (simp add: list_all_iff linea_ok_def map_idI)
  have "requerido f ''id'' = Inr (to_hex (b_id r))"
    "requerido f ''decision'' = Inr (decision_str (b_decision r))"
    "requerido f ''version_nueva'' = Inr (b_version_nueva r)"
    "requerido f ''version_anterior'' = Inr (b_version_anterior r)"
    "campo f ''dir'' = Some (b_dir r)"
    by (simp_all add: requerido_def campo_def t bootrec_lineas_def)
  moreover have "campo f ''punto'' = map_option to_hex (b_punto r)"
    by (cases "b_punto r") (simp_all add: campo_def t bootrec_lineas_def)
  moreover have "Option.bind (map_option to_hex (b_punto r)) from_hex = b_punto r"
    using ok by (cases "b_punto r") (simp_all add: bootrec_ok_def)
  ultimately have "bootrec_from_framed f = Inr r"
    using ok by (simp add: bootrec_from_framed_def bootrec_ok_def f)
  then show ?thesis by (simp add: f_def)
qed

lemma magic_arranque: "magic_ok BOOTREC_MAGIC"
proof -
  have "trim BOOTREC_MAGIC = BOOTREC_MAGIC" unfolding BOOTREC_MAGIC_def by code_simp
  then show ?thesis by (simp add: magic_ok_def BOOTREC_MAGIC_def texto_ok_Cons byte_in_def)
qed

lemma bootrec_format_Inr:
  "bootrec_format crc r = Inr s \<Longrightarrow> length s = SLOT_SIZE \<and>
     (\<exists>n. s = frame crc BOOTREC_MAGIC BOOTREC_FORMATO (b_seq r) (bootrec_body r) @ replicate n NL)"
  by (auto simp: bootrec_format_def frame_slot_def Let_def split: if_splits)

lemma bootrec_parse_framed:
  assumes "bootrec_ok r" "bootrec_format crc r = Inr s"
  shows "record_parse crc BOOTREC_MAGIC BOOTREC_FORMATO s =
    Inr \<lparr>fr_formato = b_formato r, fr_seq = b_seq r, fr_body = bootrec_body r\<rparr>"
proof -
  obtain n where s: "s = frame crc BOOTREC_MAGIC BOOTREC_FORMATO (b_seq r) (bootrec_body r) @ replicate n NL"
    using bootrec_format_Inr [OF assms(2)] by blast
  show ?thesis
    using assms(1) magic_arranque
      record_parse_frame [OF _ bootrec_lineas_ok [OF assms(1)], where n = n and magic = BOOTREC_MAGIC]
    by (simp add: s bootrec_body_lineas BOOTREC_FORMATO_def bootrec_ok_def)
qed

lemma bootrec_parse_format:
  "bootrec_ok r \<Longrightarrow> bootrec_format crc r = Inr s \<Longrightarrow> bootrec_parse crc s = Inr r"
  by (simp add: bootrec_parse_def bootrec_parse_framed bootrec_from_framed_body)

text \<open>The bytes of a record that fits in a slot.\<close>

definition bootrec_bytes :: "(bytes \<Rightarrow> u32) \<Rightarrow> boot_record \<Rightarrow> bytes" where
  "bootrec_bytes crc r = (case bootrec_format crc r of Inl _ \<Rightarrow> [] | Inr s \<Rightarrow> s)"

definition bootrec_cabe :: "(bytes \<Rightarrow> u32) \<Rightarrow> boot_record \<Rightarrow> bool" where
  "bootrec_cabe crc r = (bootrec_ok r \<and> is_ok (bootrec_format crc r))"

interpretation arranque: registro_durable
  "record_parse crc BOOTREC_MAGIC BOOTREC_FORMATO" bootrec_from_framed "bootrec_bytes crc"
  "bootrec_cabe crc" b_seq "bootrec_pick_slots crc" SLOTS for crc
proof unfold_locales
  fix r assume "bootrec_cabe crc r"
  then obtain s where s: "bootrec_ok r" "bootrec_format crc r = Inr s"
    by (cases "bootrec_format crc r") (auto simp: bootrec_cabe_def)
  then show "\<exists>f. record_parse crc BOOTREC_MAGIC BOOTREC_FORMATO (bootrec_bytes crc r) = Inr f \<and>
      bootrec_from_framed f = Inr r \<and> fr_seq f = b_seq r"
    by (simp add: bootrec_bytes_def bootrec_parse_framed bootrec_from_framed_body)
qed (simp_all add: bootrec_pick_slots_def record_pick_def SLOTS_def)

lemma bootrec_pick_concat:
  assumes "length slots = SLOTS" "\<forall>s \<in> set slots. length s = SLOT_SIZE"
  shows "bootrec_pick crc (concat slots) = bootrec_pick_slots crc slots"
  using assms by (simp add: bootrec_pick_def chunks_concat SLOT_SIZE_def)

section \<open>Properties\<close>

text \<open>C13 (\<open>BootRecord\<close>): a record that fits in its slot occupies it exactly and reads back as it was, the
  retained point included; and published in its turn over a valid set of slots it becomes the record
  in force, while a write that the reader rejects leaves the previous one.\<close>

theorem bootrec_publicacion:
  assumes "bootrec_ok r" "bootrec_format crc r = Inr bs"
    and "vigente (record_parse crc BOOTREC_MAGIC BOOTREC_FORMATO) SLOTS slots i f" "bootrec_from_framed f = Inr q"
    and "fr_seq f \<noteq> - 1" "b_seq r = fr_seq f + 1" "record_parse crc BOOTREC_MAGIC BOOTREC_FORMATO basura = Inl e"
  shows "length bs = SLOT_SIZE \<and> bootrec_parse crc bs = Inr r \<and>
    bootrec_pick_slots crc (slots[bootrec_ranura r := bs]) = Inr r \<and>
    bootrec_pick_slots crc (slots[bootrec_ranura r := basura]) = Inr q"
proof -
  have c: "bootrec_cabe crc r" "bootrec_bytes crc r = bs" using assms(1,2) by (simp_all add: bootrec_cabe_def bootrec_bytes_def)
  show ?thesis
    using bootrec_format_Inr [OF assms(2)] bootrec_parse_format [OF assms(1,2)] c(2)
      arranque.publicado_se_lee [OF assms(3,5) c(1) assms(6)] arranque.corte_conserva(2) [OF assms(3,5,7)] assms(4,6)
    by (simp add: bootrec_ranura_def)
qed

definition bootrec_muestra :: "u64 \<Rightarrow> boot_record" where
  "bootrec_muestra n = bootrec_nuevo DArmado (replicate 32 0) ''2'' ''1'' n"

lemma muestra_cabe: "n < 10 \<Longrightarrow> bootrec_cabe (\<lambda>_. 0) (bootrec_muestra (of_nat n))"
proof -
  assume n: "n < 10"
  have hex: "to_hex (replicate 32 0) = replicate 64 CHR ''0''" "txn_dir (replicate 32 0) = replicate 16 CHR ''0''" by code_simp+
  have "show_word (of_nat n :: u64) = show_nat n" using n by (simp add: show_word_def unat_of_nat)
  then have l: "length (show_word (of_nat n :: u64)) = 1" using n by (subst (asm) show_nat.simps) simp
  have "show_word (2 :: u16) = ''2''" by code_simp
  then have "is_ok (bootrec_format (\<lambda>_. 0) (bootrec_muestra (of_nat n)))"
    using l by (simp add: bootrec_format_def bootrec_muestra_def bootrec_nuevo_def bootrec_body_def frame_slot_def frame_def
        frame_text_def Let_def BOOTREC_MAGIC_def BOOTREC_FORMATO_def SLOT_SIZE_def suma_def hex)
  moreover have "version_ok ''2''" "version_ok ''1''" "version_ok (replicate 16 CHR ''0'')" by code_simp+
  ultimately show ?thesis by (simp add: bootrec_cabe_def bootrec_ok_def) (simp add: bootrec_muestra_def bootrec_nuevo_def hex)
qed

theorem bootrec_publicacion_witness:
  "\<exists>slots bs. bootrec_format (\<lambda>_. 0) (bootrec_muestra 2) = Inr bs \<and>
     bootrec_pick_slots (\<lambda>_. 0) (slots[2 := bs]) = Inr (bootrec_muestra 2) \<and>
     bootrec_pick_slots (\<lambda>_. 0) (slots[2 := []]) = Inr (bootrec_muestra 1)"
proof -
  define a where "a = bootrec_muestra 1"
  define b where "b = bootrec_muestra 2"
  have cabe: "bootrec_cabe (\<lambda>_. 0) a" "bootrec_cabe (\<lambda>_. 0) b"
    using muestra_cabe [of 1] muestra_cabe [of 2] by (simp_all add: a_def b_def)
  then obtain bs where bs: "bootrec_format (\<lambda>_. 0) b = Inr bs" "bootrec_ok b"
    by (cases "bootrec_format (\<lambda>_. 0) b") (auto simp: bootrec_cabe_def)
  have seqs: "b_seq a = 1" "b_seq b = 2" by (simp_all add: a_def b_def bootrec_muestra_def bootrec_nuevo_def)
  have vacio: "record_parse crc m n [] = Inl Vacia" for crc m n by (simp add: record_parse_def)
  define slots where "slots = (replicate SLOTS [])[ranura (b_seq a) SLOTS := bootrec_bytes (\<lambda>_. 0) a]"
  obtain g where g: "vigente (record_parse (\<lambda>_. 0) BOOTREC_MAGIC BOOTREC_FORMATO) SLOTS slots (ranura (b_seq a) SLOTS) g"
      "bootrec_from_framed g = Inr a" "fr_seq g = b_seq a"
    using arranque.publicado_vigente [of "replicate SLOTS []" "\<lambda>_. 0" a] cabe(1) vacio by (auto simp: slots_def)
  have "bootrec_ranura b = 2" by (simp add: bootrec_ranura_def seqs ranura_def SLOTS_def)
  then show ?thesis
    using bootrec_publicacion [OF bs(2,1) g(1,2) _ _ vacio] g(3) seqs bs(1) by (auto simp: a_def b_def)
qed

end
