(* ===== verification/Reconcilia.thy ===== *)
theory Reconcilia
  imports Diario Bootrec
begin

text \<open>
  \<open>crates/soso-update-core/src/txn/reconcile.rs\<close> and \<open>rescate.rs\<close>: what to do at boot with
  what the two media say, and what a rescue entry does with the boot record.  Constructors of
  \<open>Recuperacion\<close> and \<open>Motivo\<close> keep their names, with the prefix \<open>R\<close> where a state of
  the transaction has the same one.
\<close>

datatype estado_esp = EspAusente | EspRoto | EspRegistro boot_record

datatype estado_journal = JAusente | JRoto | JDiario journal

datatype motivo =
    ArmadoSinDiario | MedioSinDecision | IdDiscordante | ParejaImposible | RegistrosRotos
  | RestauradoNoArranca | RescateSinPunto

datatype recuperacion =
    RNormal | RDescartar txn_id | RRetrocederAPreparado txn_id | RAplicar txn_id
  | RPublicarProbando txn_id | RRevertir txn_id | RCompletarConfirmacion txn_id
  | RCompletarReversion txn_id | RRescatar txn_id | RDiagnostico motivo

definition arranca_directo :: "recuperacion \<Rightarrow> bool" where
  "arranca_directo r = (case r of RNormal \<Rightarrow> True | RDescartar _ \<Rightarrow> True | _ \<Rightarrow> False)"

definition recuperacion_id :: "recuperacion \<Rightarrow> txn_id option" where
  "recuperacion_id r =
     (case r of RNormal \<Rightarrow> None | RDiagnostico _ \<Rightarrow> None
      | RDescartar i \<Rightarrow> Some i | RRetrocederAPreparado i \<Rightarrow> Some i | RAplicar i \<Rightarrow> Some i
      | RPublicarProbando i \<Rightarrow> Some i | RRevertir i \<Rightarrow> Some i | RCompletarConfirmacion i \<Rightarrow> Some i
      | RCompletarReversion i \<Rightarrow> Some i | RRescatar i \<Rightarrow> Some i)"

definition reconcile_registro :: "boot_record \<Rightarrow> journal option \<Rightarrow> recuperacion" where
  "reconcile_registro r diario =
     (case (b_decision r, diario) of
        (DIdle, None) \<Rightarrow> RNormal
      | (DIdle, Some j) \<Rightarrow>
          if sistema_intacto (j_estado j) then RDescartar (j_id j)
          else if j_estado j = Confirmado then RCompletarConfirmacion (j_id j)
          else if j_estado j = Revertido then RNormal
          else RRevertir (j_id j)
      | (DArmado, None) \<Rightarrow> RDiagnostico ArmadoSinDiario
      | (DArmado, Some j) \<Rightarrow>
          if j_estado j \<in> {Preparado, Armado, Aplicando} then RAplicar (j_id j)
          else if j_estado j = Probando then RPublicarProbando (j_id j)
          else if j_estado j = Revirtiendo then RRevertir (j_id j)
          else if j_estado j = Revertido then RCompletarReversion (j_id j)
          else RDiagnostico ParejaImposible
      | (DProbando, None) \<Rightarrow> RDiagnostico ArmadoSinDiario
      | (DProbando, Some j) \<Rightarrow>
          if j_estado j = Confirmado then RCompletarConfirmacion (j_id j)
          else if j_estado j \<in> {Aplicando, Probando, Revirtiendo} then RRevertir (j_id j)
          else if j_estado j = Revertido then RCompletarReversion (j_id j)
          else RDiagnostico ParejaImposible
      | (DConfirmado, None) \<Rightarrow> RNormal
      | (DConfirmado, Some j) \<Rightarrow>
          if j_estado j = Confirmado then RNormal
          else if j_estado j = Probando then RCompletarConfirmacion (j_id j)
          else if j_estado j = Revirtiendo then RRevertir (j_id j)
          else if j_estado j = Revertido then RCompletarReversion (j_id j)
          else RDiagnostico ParejaImposible
      | (DRevertir, None) \<Rightarrow> RDiagnostico ArmadoSinDiario
      | (DRevertir, Some j) \<Rightarrow>
          if j_estado j \<in> {Armado, Aplicando, Probando, Confirmado, Revirtiendo} then RRevertir (j_id j)
          else if j_estado j = Revertido then RCompletarReversion (j_id j)
          else RDescartar (j_id j)
      | (DRestauradoAPrueba, _) \<Rightarrow> RDiagnostico RestauradoNoArranca
      | (DRescatar, _) \<Rightarrow>
          (case b_punto r of Some p \<Rightarrow> RRescatar p | None \<Rightarrow> RDiagnostico RescateSinPunto)
      | (DRevertido, None) \<Rightarrow> RNormal
      | (DRevertido, Some j) \<Rightarrow>
          if j_estado j \<in> {Revertido, Descartado} then RNormal
          else if j_estado j = Revirtiendo then RRevertir (j_id j)
          else RDiagnostico ParejaImposible)"

definition reconcile :: "estado_esp \<Rightarrow> estado_journal \<Rightarrow> recuperacion" where
  "reconcile esp journal =
     (case esp of
        EspAusente \<Rightarrow>
          (case journal of JAusente \<Rightarrow> RNormal | JRoto \<Rightarrow> RNormal
           | JDiario j \<Rightarrow>
               (case j_estado j of
                  Descargando \<Rightarrow> RDescartar (j_id j) | Preparado \<Rightarrow> RDescartar (j_id j)
                | Descartado \<Rightarrow> RDescartar (j_id j)
                | Armado \<Rightarrow> RRetrocederAPreparado (j_id j)
                | Aplicando \<Rightarrow> RRevertir (j_id j) | Probando \<Rightarrow> RRevertir (j_id j)
                | Revirtiendo \<Rightarrow> RRevertir (j_id j)
                | Confirmado \<Rightarrow> RCompletarConfirmacion (j_id j)
                | Revertido \<Rightarrow> RNormal))
      | EspRoto \<Rightarrow>
          (case journal of JAusente \<Rightarrow> RNormal | JRoto \<Rightarrow> RDiagnostico RegistrosRotos
           | JDiario j \<Rightarrow>
               if sistema_intacto (j_estado j) then RDescartar (j_id j)
               else if j_estado j = Revertido then RCompletarReversion (j_id j)
               else RDiagnostico MedioSinDecision)
      | EspRegistro r \<Rightarrow>
          (case journal of
             JDiario j \<Rightarrow> if j_id j \<noteq> b_id r then RDiagnostico IdDiscordante
                          else reconcile_registro r (Some j)
           | _ \<Rightarrow> reconcile_registro r None))"

definition release_tras :: "estado_esp \<Rightarrow> recuperacion \<Rightarrow> string option" where
  "release_tras esp accion =
     (case esp of
        EspRegistro r \<Rightarrow>
          (case accion of
             RNormal \<Rightarrow> Some (version_efectiva r)
           | RCompletarConfirmacion _ \<Rightarrow> Some (version_efectiva r)
           | RRevertir _ \<Rightarrow> Some (b_version_anterior r)
           | RCompletarReversion _ \<Rightarrow> Some (b_version_anterior r)
           | _ \<Rightarrow> None)
      | _ \<Rightarrow> None)"

section \<open>Rescue\<close>

definition SENAL :: string where "SENAL = ''rescatar''"

definition es_senal :: "string \<Rightarrow> bool" where
  "es_senal texto =
     list_ex (\<lambda>parte. list_ex (\<lambda>t. eq_ignore_ascii_case t SENAL) (split_whitespace parte))
       (split_on NUL texto)"

datatype sin = FormatoAntiguo | SinPunto | YaRestaurado string

datatype plan_rescate = Pedir boot_record string string | YaPedido string | PlanNo sin

definition planear :: "boot_record \<Rightarrow> plan_rescate" where
  "planear rec =
     (if \<not> conoce_puntos rec then PlanNo FormatoAntiguo
      else case b_punto rec of
        None \<Rightarrow> PlanNo SinPunto
      | Some punto \<Rightarrow>
          if b_decision rec = DRescatar then YaPedido (b_version_anterior rec)
          else if b_decision rec \<in> {DRevertido, DRestauradoAPrueba}
            then PlanNo (YaRestaurado (version_efectiva rec))
          else
            let desde = version_efectiva rec;
                registro = con_punto (bootrec_nuevo DRescatar (b_id rec) desde
                  (b_version_anterior rec) (b_seq rec + 1)) punto
            in Pedir registro desde (b_version_anterior rec))"

text \<open>\<open>avanzar\<close> on a mutable journal: whether it succeeded, and the journal it leaves.\<close>

definition avanzar_mut :: "journal \<Rightarrow> txn_event \<Rightarrow> bool \<times> journal" where
  "avanzar_mut j ev = (case avanzar j ev of Inl _ \<Rightarrow> (False, j) | Inr k \<Rightarrow> (True, k))"

definition cerrar_diario :: "journal \<Rightarrow> bool \<times> journal" where
  "cerrar_diario j =
     (if j_estado j \<in> {Revertido, Descartado} then (False, j)
      else if j_estado j \<in> {Descargando, Preparado} then avanzar_mut j Abortada
      else
        (case avanzar_mut j ReversionSolicitada of (cambio, j1) \<Rightarrow>
           if j_estado j1 = Revirtiendo
           then (case avanzar_mut j1 ReversionCompleta of (c2, j2) \<Rightarrow> (cambio \<or> c2, j2))
           else (cambio, j1)))"

section \<open>Facts about the table\<close>

lemmas reconcile_defs = reconcile_def reconcile_registro_def

lemma reconcile_id:
  assumes "recuperacion_id (reconcile esp (JDiario j)) = Some i"
  shows "i = j_id j \<or> (\<exists>r. esp = EspRegistro r \<and> b_decision r = DRescatar \<and> b_punto r = Some i)"
proof (cases esp)
  case (EspRegistro r)
  then show ?thesis
    using assms
    by (cases "b_decision r")
      (auto simp: reconcile_defs recuperacion_id_def split: if_splits option.splits)
qed (use assms in \<open>auto simp: reconcile_defs recuperacion_id_def split: if_splits txn_state.splits\<close>)

lemma reconcile_directo:
  assumes "arranca_directo (reconcile esp (JDiario j))"
  shows "\<not> mezcla_posible (j_estado j)"
proof (cases esp)
  case (EspRegistro r)
  then show ?thesis
    using assms
    by (cases "b_decision r"; cases "j_estado j")
      (auto simp: reconcile_defs arranca_directo_def sistema_intacto_def mezcla_posible_def
        split: if_splits option.splits)
next
  case EspAusente
  then show ?thesis using assms
    by (cases "j_estado j") (auto simp: reconcile_defs arranca_directo_def mezcla_posible_def)
next
  case EspRoto
  then show ?thesis using assms
    by (cases "j_estado j")
      (auto simp: reconcile_defs arranca_directo_def mezcla_posible_def sistema_intacto_def)
qed

lemma cerrar_diario_cierra:
  "cerrar_diario j = (c, k) \<Longrightarrow> j_estado k \<in> {Revertido, Descartado} \<and>
     (c \<longleftrightarrow> j_estado j \<notin> {Revertido, Descartado}) \<and> (\<not> c \<longrightarrow> k = j) \<and>
     (\<exists>n. k = j\<lparr>j_estado := j_estado k, j_seq := j_seq j + n\<rparr>)"
  by (cases "j_estado j")
    (auto simp: cerrar_diario_def avanzar_mut_def avanzar_def txn_next_def add.assoc
      intro: exI [of _ 0] exI [of _ 1] exI [of _ 2])

section \<open>Properties\<close>

text \<open>C15 (\<open>reconcile\<close>, no mixed boot): with a readable journal, the table never lets the system boot as it is
  while the journal admits that old and new files may be mixed.\<close>

theorem reconcile_sin_mezcla:
  assumes "arranca_directo (reconcile esp (JDiario j))"
  shows "j_estado j \<notin> {Aplicando, Revirtiendo}"
  using reconcile_directo [OF assms] by (simp add: mezcla_posible_def)

theorem reconcile_sin_mezcla_witness:
  "j_estado ((journal_nuevo (replicate 32 0) ''1.1'' ''1.0'')\<lparr>j_estado := Preparado\<rparr>) \<notin> {Aplicando, Revirtiendo}"
  by (rule reconcile_sin_mezcla [of EspAusente]) (simp add: reconcile_def arranca_directo_def)

text \<open>(\<open>reconcile\<close>, identity): every action the table orders on a readable journal is about that journal's
  operation, or about the retained point that the boot record names for a rescue; and a record and a
  journal of different operations are never acted upon.\<close>

theorem reconcile_misma_operacion:
  "(recuperacion_id (reconcile esp (JDiario j)) = Some i \<longrightarrow>
      i = j_id j \<or> (\<exists>r. esp = EspRegistro r \<and> b_decision r = DRescatar \<and> b_punto r = Some i)) \<and>
   (j_id j \<noteq> b_id r \<longrightarrow> reconcile (EspRegistro r) (JDiario j) = RDiagnostico IdDiscordante)"
  using reconcile_id [of esp j i] by (auto simp: reconcile_def)

theorem reconcile_misma_operacion_witness:
  "recuperacion_id (reconcile EspAusente (JDiario (journal_nuevo (replicate 32 0) ''1.1'' ''1.0''))) = Some (replicate 32 0)"
  using reconcile_misma_operacion [of EspAusente "journal_nuevo (replicate 32 0) ''1.1'' ''1.0''" "replicate 32 0"
      "bootrec_nuevo DIdle [] [] [] 0"]
  by (simp add: reconcile_def recuperacion_id_def journal_nuevo_def)

lemma planear_Pedir:
  assumes "planear r = Pedir r' v1 v0"
  shows "\<exists>p. b_punto r = Some p \<and> r' = con_punto (bootrec_nuevo DRescatar (b_id r) (version_efectiva r)
      (b_version_anterior r) (b_seq r + 1)) p \<and> v1 = version_efectiva r \<and> v0 = b_version_anterior r"
proof (cases "b_punto r")
  case None
  then show ?thesis using assms by (simp add: planear_def split: if_split_asm)
next
  case (Some p)
  have "conoce_puntos r" "b_decision r \<noteq> DRescatar" "b_decision r \<notin> {DRevertido, DRestauradoAPrueba}"
    using assms Some by (auto simp: planear_def simp del: version_efectiva_def split: if_split_asm)
  then show ?thesis using assms Some by (simp add: planear_def Let_def eq_commute)
qed

lemma cerrar_diario_id: "j_id (snd (cerrar_diario j)) = j_id j"
  by (cases "j_estado j") (auto simp: cerrar_diario_def avanzar_mut_def avanzar_def txn_next_def)

text \<open>(\<open>planear\<close>, \<open>cerrar_diario\<close> and \<open>reconcile\<close>): a rescue that is planned is the one the recoverer
  performs: whatever is left of the journal of the same operation, the table orders to rescue the
  point that the record held.  The journal closed by the rescue is final, so after the restored
  version is accepted as reverted the next boot is normal.\<close>

theorem rescate_planeado:
  assumes "planear r = Pedir r' v1 v0" "j_id j = b_id r"
  shows "(\<exists>p. b_punto r = Some p \<and> reconcile (EspRegistro r') (JDiario j) = RRescatar p \<and>
      reconcile (EspRegistro r') JAusente = RRescatar p \<and> reconcile (EspRegistro r') JRoto = RRescatar p) \<and>
    b_seq r' = b_seq r + 1 \<and> v1 = version_efectiva r \<and> v0 = b_version_anterior r \<and>
    reconcile (EspRegistro (r'\<lparr>b_decision := DRevertido\<rparr>)) (JDiario (snd (cerrar_diario j))) = RNormal"
proof -
  obtain p where p: "b_punto r = Some p" "r' = con_punto (bootrec_nuevo DRescatar (b_id r) (version_efectiva r)
      (b_version_anterior r) (b_seq r + 1)) p" "v1 = version_efectiva r" "v0 = b_version_anterior r"
    using planear_Pedir [OF assms(1)] by blast
  obtain c k where k: "cerrar_diario j = (c, k)" by (metis surj_pair)
  have kc: "j_estado k \<in> {Revertido, Descartado}" using cerrar_diario_cierra [OF k] by (rule conjunct1)
  have "j_id k = j_id j" using cerrar_diario_id [of j] k by simp
  show ?thesis using p assms(2) kc k \<open>j_id k = j_id j\<close> by (auto simp: reconcile_defs con_punto_def bootrec_nuevo_def)
qed

theorem rescate_planeado_witness:
  "reconcile (EspRegistro (con_punto (bootrec_nuevo DRescatar [1] ''2'' ''1'' 8) [9])) (JDiario (journal_nuevo [1] ''2'' ''1'')) = RRescatar [9]"
  using rescate_planeado [of "con_punto (bootrec_nuevo DProbando [1] ''2'' ''1'' 7) [9]"
      "con_punto (bootrec_nuevo DRescatar [1] ''2'' ''1'' 8) [9]" "''2''" "''1''" "journal_nuevo [1] ''2'' ''1''"]
  by (simp add: planear_def conoce_puntos_def con_punto_def bootrec_nuevo_def BOOTREC_FORMATO_def version_efectiva_def
      journal_nuevo_def Let_def)

end
