(* ===== verification/Aplicador.thy ===== *)
theory Aplicador
  imports Diario
begin

text \<open>
  \<open>crates/soso-update-core/src/txn/aplicador.rs\<close>: applying and undoing an operation.  The trait
  \<open>Sistema\<close> is the record \<open>sistema_ops\<close> of its four methods over a state \<open>'s\<close>; a result
  \<open>Result<(), ()>\<close> is a \<open>bool\<close> (\<open>True\<close> is \<open>Ok\<close>).  Every function
  returns its result together with the journal and the system it leaves, also when it fails.
  The locale \<open>sistema_durable\<close> is the contract of a system whose durable changes may fail or
  be cut; its lemmas show that a cut at any point leaves a journal from which the operation can
  be finished or undone.
\<close>

datatype de = DePreparado | DeRespaldo

record 's sistema_ops =
  s_leer :: "'s \<Rightarrow> de \<Rightarrow> string \<Rightarrow> bytes option"
  s_escribir :: "'s \<Rightarrow> string \<Rightarrow> bytes \<Rightarrow> bool \<times> 's"
  s_borrar :: "'s \<Rightarrow> string \<Rightarrow> bool \<times> 's"
  s_guardar_diario :: "'s \<Rightarrow> journal \<Rightarrow> bool \<times> 's"

datatype fallo =
    FaltaPreparado string | FaltaRespaldo string | HashDistinto string | Escritura string
  | Borrado string | FDiario

text \<open>A result with the journal and the system behind it, and the question mark on it.\<close>

type_synonym 's salida = "(fallo + unit) \<times> journal \<times> 's"

definition luego :: "'s salida \<Rightarrow> (journal \<Rightarrow> 's \<Rightarrow> 's salida) \<Rightarrow> 's salida" where
  "luego m f = (case m of (Inl e, j, s) \<Rightarrow> (Inl e, j, s) | (Inr _, j, s) \<Rightarrow> f j s)"

definition guardar :: "'s sistema_ops \<Rightarrow> journal \<Rightarrow> 's \<Rightarrow> 's salida" where
  "guardar ops j s =
     (case s_guardar_diario ops s j of (ok, s') \<Rightarrow> (if ok then Inr () else Inl FDiario, j, s'))"

definition contenido_cuadra :: "(bytes \<Rightarrow> hash256) \<Rightarrow> bytes \<Rightarrow> contenido \<Rightarrow> bool" where
  "contenido_cuadra sha datos c =
     (\<not> (of_nat (length datos) \<noteq> c_size c \<or> hex_sha256 sha datos \<noteq> c_hash c))"

definition con_progreso :: "journal \<Rightarrow> nat \<Rightarrow> progreso \<Rightarrow> journal" where
  "con_progreso j i p = j\<lparr>j_entradas := (j_entradas j)[i := (j_entradas j ! i)\<lparr>e_progreso := p\<rparr>]\<rparr>"

definition paso_aplicar ::
  "(bytes \<Rightarrow> hash256) \<Rightarrow> 's sistema_ops \<Rightarrow> journal \<Rightarrow> nat \<Rightarrow> 's \<Rightarrow> 's salida" where
  "paso_aplicar sha ops j i s =
     (let e = j_entradas j ! i in
      if e_accion e \<in> {Crear, Reemplazar}
      then case e_nuevo e of
          None \<Rightarrow> (Inl (FaltaPreparado (e_path e)), j, s)
        | Some nuevo \<Rightarrow> (case s_leer ops s DePreparado (e_path e) of
              None \<Rightarrow> (Inl (FaltaPreparado (e_path e)), j, s)
            | Some datos \<Rightarrow>
                if \<not> contenido_cuadra sha datos nuevo then (Inl (HashDistinto (e_path e)), j, s)
                else (case s_escribir ops s (e_path e) datos of (ok, s') \<Rightarrow>
                  if ok then (Inr (), con_progreso j i Aplicado, s')
                  else (Inl (Escritura (e_path e)), j, s')))
      else (case s_borrar ops s (e_path e) of (ok, s') \<Rightarrow>
              if ok then (Inr (), con_progreso j i Aplicado, s')
              else (Inl (Borrado (e_path e)), j, s')))"

fun aplicar_loop ::
  "(bytes \<Rightarrow> hash256) \<Rightarrow> 's sistema_ops \<Rightarrow> nat list \<Rightarrow> journal \<Rightarrow> 's \<Rightarrow> 's salida" where
  "aplicar_loop sha ops [] j s = (Inr (), j, s)"
| "aplicar_loop sha ops (i # is) j s =
     (if e_progreso (j_entradas j ! i) = Aplicado then aplicar_loop sha ops is j s
      else luego (paso_aplicar sha ops j i s) (\<lambda>j s.
        luego (guardar ops (j\<lparr>j_seq := j_seq j + 1\<rparr>) s) (aplicar_loop sha ops is)))"

definition aplicar :: "(bytes \<Rightarrow> hash256) \<Rightarrow> 's sistema_ops \<Rightarrow> journal \<Rightarrow> 's \<Rightarrow> 's salida" where
  "aplicar sha ops j s =
     (if j_estado j \<in> {Probando, Confirmado} then (Inr (), j, s)
      else luego
        (if j_estado j \<noteq> Aplicando
         then guardar ops (case avanzar j AplicacionIniciada of Inl _ \<Rightarrow> j | Inr k \<Rightarrow> k) s
         else (Inr (), j, s))
        (\<lambda>j s. luego (aplicar_loop sha ops [0..<length (j_entradas j)] j s)
          (\<lambda>j s. if j_estado j \<noteq> Probando
             then (case avanzar j AplicacionCompleta of
                     Inl _ \<Rightarrow> (Inl FDiario, j, s) | Inr k \<Rightarrow> guardar ops k s)
             else (Inr (), j, s))))"

definition restaurar_una ::
  "(bytes \<Rightarrow> hash256) \<Rightarrow> 's sistema_ops \<Rightarrow> entrada \<Rightarrow> 's \<Rightarrow> (fallo + unit) \<times> 's" where
  "restaurar_una sha ops e s =
     (if e_accion e = Crear
      then (case s_borrar ops s (e_path e) of (ok, s') \<Rightarrow>
              (if ok then Inr () else Inl (Borrado (e_path e)), s'))
      else case e_respaldo e of
          None \<Rightarrow> (Inl (FaltaRespaldo (e_path e)), s)
        | Some resp \<Rightarrow> (case s_leer ops s DeRespaldo (e_path e) of
              None \<Rightarrow> (Inl (FaltaRespaldo (e_path e)), s)
            | Some datos \<Rightarrow>
                if \<not> contenido_cuadra sha datos resp then (Inl (HashDistinto (e_path e)), s)
                else (case s_escribir ops s (e_path e) datos of (ok, s') \<Rightarrow>
                  (if ok then Inr () else Inl (Escritura (e_path e)), s'))))"

fun restaurar ::
  "(bytes \<Rightarrow> hash256) \<Rightarrow> 's sistema_ops \<Rightarrow> entrada list \<Rightarrow> 's \<Rightarrow> (fallo + unit) \<times> 's" where
  "restaurar sha ops [] s = (Inr (), s)"
| "restaurar sha ops (e # es) s =
     (case restaurar_una sha ops e s of
        (Inl f, s') \<Rightarrow> (Inl f, s') | (Inr _, s') \<Rightarrow> restaurar sha ops es s')"

definition paso_revertir ::
  "(bytes \<Rightarrow> hash256) \<Rightarrow> 's sistema_ops \<Rightarrow> journal \<Rightarrow> nat \<Rightarrow> 's \<Rightarrow> 's salida" where
  "paso_revertir sha ops j i s =
     (case restaurar_una sha ops (j_entradas j ! i) s of
        (Inl f, s') \<Rightarrow> (Inl f, j, s') | (Inr _, s') \<Rightarrow> (Inr (), con_progreso j i Restaurado, s'))"

fun revertir_loop ::
  "(bytes \<Rightarrow> hash256) \<Rightarrow> 's sistema_ops \<Rightarrow> nat list \<Rightarrow> journal \<Rightarrow> 's \<Rightarrow> 's salida" where
  "revertir_loop sha ops [] j s = (Inr (), j, s)"
| "revertir_loop sha ops (i # is) j s =
     (if e_progreso (j_entradas j ! i) = Restaurado then revertir_loop sha ops is j s
      else luego (paso_revertir sha ops j i s) (\<lambda>j s.
        luego (guardar ops (j\<lparr>j_seq := j_seq j + 1\<rparr>) s) (revertir_loop sha ops is)))"

definition revertir :: "(bytes \<Rightarrow> hash256) \<Rightarrow> 's sistema_ops \<Rightarrow> journal \<Rightarrow> 's \<Rightarrow> 's salida" where
  "revertir sha ops j s =
     (if j_estado j = Revertido then (Inr (), j, s)
      else luego
        (if j_estado j \<noteq> Revirtiendo
         then guardar ops (case avanzar j ReversionSolicitada of Inl _ \<Rightarrow> j | Inr k \<Rightarrow> k) s
         else (Inr (), j, s))
        (\<lambda>j s. luego (revertir_loop sha ops [0..<length (j_entradas j)] j s)
          (\<lambda>j s. if j_estado j \<noteq> Revertido
             then (case avanzar j ReversionCompleta of
                     Inl _ \<Rightarrow> (Inl FDiario, j, s) | Inr k \<Rightarrow> guardar ops k s)
             else (Inr (), j, s))))"

definition puede_deshacer_una ::
  "(bytes \<Rightarrow> hash256) \<Rightarrow> 's sistema_ops \<Rightarrow> 's \<Rightarrow> entrada \<Rightarrow> fallo + unit" where
  "puede_deshacer_una sha ops s e =
     (if \<not> exige_respaldo (e_accion e) then Inr ()
      else res_bind (ok_or (e_respaldo e) (FaltaRespaldo (e_path e))) (\<lambda>resp.
        res_bind (ok_or (s_leer ops s DeRespaldo (e_path e)) (FaltaRespaldo (e_path e))) (\<lambda>datos.
          if \<not> contenido_cuadra sha datos resp then Inl (HashDistinto (e_path e)) else Inr ())))"

fun se_puede_deshacer ::
  "(bytes \<Rightarrow> hash256) \<Rightarrow> 's sistema_ops \<Rightarrow> entrada list \<Rightarrow> 's \<Rightarrow> fallo + unit" where
  "se_puede_deshacer sha ops [] s = Inr ()"
| "se_puede_deshacer sha ops (e # es) s =
     res_bind (puede_deshacer_una sha ops s e) (\<lambda>_. se_puede_deshacer sha ops es s)"

section \<open>What the two versions are\<close>

definition antes :: "(string \<Rightarrow> bytes option) \<Rightarrow> entrada \<Rightarrow> bytes option" where
  "antes respaldo e = (if e_accion e = Crear then None else respaldo (e_path e))"

definition despues :: "(string \<Rightarrow> bytes option) \<Rightarrow> entrada \<Rightarrow> bytes option" where
  "despues etapa e = (if e_accion e = Borrar then None else etapa (e_path e))"

text \<open>The preparation area and the backups hold what the journal declares.\<close>

definition material_nuevo :: "(bytes \<Rightarrow> hash256) \<Rightarrow> (string \<Rightarrow> bytes option) \<Rightarrow> entrada \<Rightarrow> bool" where
  "material_nuevo sha etapa e =
     (e_accion e = Borrar \<or>
      (case (e_nuevo e, etapa (e_path e)) of
         (Some c, Some d) \<Rightarrow> contenido_cuadra sha d c | _ \<Rightarrow> False))"

definition material_viejo :: "(bytes \<Rightarrow> hash256) \<Rightarrow> (string \<Rightarrow> bytes option) \<Rightarrow> entrada \<Rightarrow> bool" where
  "material_viejo sha respaldo e =
     (e_accion e = Crear \<or>
      (case (e_respaldo e, respaldo (e_path e)) of
         (Some c, Some d) \<Rightarrow> contenido_cuadra sha d c | _ \<Rightarrow> False))"

text \<open>What the journal in force promises of the active system.\<close>

definition coherente ::
  "(string \<Rightarrow> bytes option) \<Rightarrow> (string \<Rightarrow> bytes option) \<Rightarrow> (string \<Rightarrow> bytes option) \<Rightarrow> journal \<Rightarrow> bool" where
  "coherente activo etapa respaldo j =
     (let es = j_entradas j in
      case j_estado j of
        Aplicando \<Rightarrow> list_all (\<lambda>e. e_progreso e \<noteq> Restaurado
          \<and> (e_progreso e = Aplicado \<longrightarrow> activo (e_path e) = despues etapa e)) es
      | Probando \<Rightarrow> list_all (\<lambda>e. e_progreso e \<noteq> Restaurado \<and> activo (e_path e) = despues etapa e) es
      | Confirmado \<Rightarrow> list_all (\<lambda>e. e_progreso e \<noteq> Restaurado \<and> activo (e_path e) = despues etapa e) es
      | Revirtiendo \<Rightarrow> list_all (\<lambda>e. e_progreso e = Restaurado \<longrightarrow> activo (e_path e) = antes respaldo e) es
      | Revertido \<Rightarrow> list_all (\<lambda>e. activo (e_path e) = antes respaldo e) es
      | _ \<Rightarrow> list_all (\<lambda>e. e_progreso e \<in> {Pendiente, Respaldado} \<and> activo (e_path e) = antes respaldo e) es)"

text \<open>Two journals of the same operation: all but state, sequence and progress agree.\<close>

definition sin_progreso :: "journal \<Rightarrow> journal" where
  "sin_progreso j = j\<lparr>j_estado := Descargando, j_seq := 0,
     j_entradas := map (\<lambda>e. e\<lparr>e_progreso := Pendiente\<rparr>) (j_entradas j)\<rparr>"

definition misma :: "journal \<Rightarrow> journal \<Rightarrow> bool" where
  "misma j k = (sin_progreso j = sin_progreso k)"

lemma luego_simps [simp]:
  "luego (Inl e, j, s) f = (Inl e, j, s)" "luego (Inr u, j, s) f = f j s"
  by (simp_all add: luego_def)

lemma misma_refl [simp]: "misma j j"
  by (simp add: misma_def)

lemma misma_trans: "misma i j \<Longrightarrow> misma j k \<Longrightarrow> misma i k"
  by (simp add: misma_def)

lemma misma_estado [simp]:
  "misma j (k\<lparr>j_estado := x\<rparr>) = misma j k" "misma j (k\<lparr>j_seq := y\<rparr>) = misma j k"
  by (simp_all add: misma_def sin_progreso_def)

lemma misma_progreso [simp]: "misma j (con_progreso k i p) = misma j k"
proof (cases "i < length (j_entradas k)")
  case True
  then have "map (\<lambda>e. e\<lparr>e_progreso := Pendiente\<rparr>) (j_entradas (con_progreso k i p)) =
      map (\<lambda>e. e\<lparr>e_progreso := Pendiente\<rparr>) (j_entradas k)"
    by (auto simp: con_progreso_def map_update list_eq_iff_nth_eq nth_list_update)
  then show ?thesis by (simp add: misma_def sin_progreso_def con_progreso_def)
qed (simp add: con_progreso_def misma_def sin_progreso_def not_less list_update_beyond)

lemma misma_entradas:
  assumes "misma j k"
  shows "length (j_entradas k) = length (j_entradas j)"
    and "map e_path (j_entradas k) = map e_path (j_entradas j)"
    and "map (antes r) (j_entradas k) = map (antes r) (j_entradas j)"
    and "map (despues t) (j_entradas k) = map (despues t) (j_entradas j)"
    and "map (material_nuevo sha t) (j_entradas k) = map (material_nuevo sha t) (j_entradas j)"
    and "map (material_viejo sha r) (j_entradas k) = map (material_viejo sha r) (j_entradas j)"
    and "journal_ok k = journal_ok j"
    and "j_id k = j_id j"
proof -
  let ?f = "\<lambda>e :: entrada. e\<lparr>e_progreso := Pendiente\<rparr>"
  have m: "map ?f (j_entradas k) = map ?f (j_entradas j)"
    using assms by (metis (no_types, lifting) journal.select_convs(8) journal.surjective
        journal.update_convs(2,3,8) misma_def sin_progreso_def)
  have tr: "map g (j_entradas k) = map g (j_entradas j)" if "\<And>e. g (?f e) = g e" for g :: "entrada \<Rightarrow> 'x"
  proof -
    have "map g (map ?f (j_entradas k)) = map g (map ?f (j_entradas j))" using m by simp
    then show ?thesis by (simp add: comp_def that)
  qed
  show "length (j_entradas k) = length (j_entradas j)" using m by (metis length_map)
  show "map e_path (j_entradas k) = map e_path (j_entradas j)" by (rule tr) simp
  show "map (antes r) (j_entradas k) = map (antes r) (j_entradas j)"
    by (rule tr) (simp add: antes_def)
  show "map (despues t) (j_entradas k) = map (despues t) (j_entradas j)"
    by (rule tr) (simp add: despues_def)
  show "map (material_nuevo sha t) (j_entradas k) = map (material_nuevo sha t) (j_entradas j)"
    by (rule tr) (simp add: material_nuevo_def)
  show "map (material_viejo sha r) (j_entradas k) = map (material_viejo sha r) (j_entradas j)"
    by (rule tr) (simp add: material_viejo_def)
  have "map entrada_ok (j_entradas k) = map entrada_ok (j_entradas j)"
    by (rule tr) (simp add: entrada_ok_def)
  then have "list_all id (map entrada_ok (j_entradas k)) = list_all id (map entrada_ok (j_entradas j))"
    by simp
  then have "list_all entrada_ok (j_entradas k) = list_all entrada_ok (j_entradas j)"
    by (simp add: list.pred_map)
  moreover have "j_id k = j_id j" "j_version_nueva k = j_version_nueva j"
    "j_version_anterior k = j_version_anterior j" "j_kernel_nuevo k = j_kernel_nuevo j"
    "j_kernel_anterior k = j_kernel_anterior j"
    using assms unfolding misma_def sin_progreso_def by (metis journal.ext_inject journal.surjective journal.update_convs(2,3,8))+
  ultimately show "journal_ok k = journal_ok j" "j_id k = j_id j" by (simp_all add: journal_ok_def)
qed

lemma coherente_estado:
  "j_estado j = Aplicando \<Longrightarrow> coherente a t r j \<longleftrightarrow>
     (\<forall>n < length (j_entradas j). e_progreso (j_entradas j ! n) \<noteq> Restaurado \<and>
        (e_progreso (j_entradas j ! n) = Aplicado \<longrightarrow>
           a (e_path (j_entradas j ! n)) = despues t (j_entradas j ! n)))"
  "j_estado j = Revirtiendo \<Longrightarrow> coherente a t r j \<longleftrightarrow>
     (\<forall>n < length (j_entradas j). e_progreso (j_entradas j ! n) = Restaurado \<longrightarrow>
           a (e_path (j_entradas j ! n)) = antes r (j_entradas j ! n))"
  "j_estado j \<in> {Probando, Confirmado} \<Longrightarrow> coherente a t r j \<longleftrightarrow>
     (\<forall>n < length (j_entradas j). e_progreso (j_entradas j ! n) \<noteq> Restaurado \<and>
           a (e_path (j_entradas j ! n)) = despues t (j_entradas j ! n))"
  "j_estado j = Revertido \<Longrightarrow> coherente a t r j \<longleftrightarrow>
     (\<forall>n < length (j_entradas j). a (e_path (j_entradas j ! n)) = antes r (j_entradas j ! n))"
  "j_estado j \<in> {Descargando, Preparado, Armado, Descartado} \<Longrightarrow> coherente a t r j \<longleftrightarrow>
     (\<forall>n < length (j_entradas j). e_progreso (j_entradas j ! n) \<in> {Pendiente, Respaldado} \<and>
           a (e_path (j_entradas j ! n)) = antes r (j_entradas j ! n))"
  by (auto simp: coherente_def Let_def list_all_length)

lemma coherente_cong:
  assumes "\<And>e. e \<in> set (j_entradas j) \<Longrightarrow> a (e_path e) = a' (e_path e)
      \<and> t (e_path e) = t' (e_path e) \<and> r (e_path e) = r' (e_path e)"
  shows "coherente a t r j = coherente a' t' r' j"
proof -
  have "a (e_path (j_entradas j ! n)) = a' (e_path (j_entradas j ! n))"
    "despues t (j_entradas j ! n) = despues t' (j_entradas j ! n)"
    "antes r (j_entradas j ! n) = antes r' (j_entradas j ! n)"
    if "n < length (j_entradas j)" for n
    using assms [OF nth_mem [OF that]] by (simp_all add: despues_def antes_def)
  then show ?thesis by (cases "j_estado j") (simp_all add: coherente_estado)
qed

lemma con_progreso_simps [simp]:
  "j_estado (con_progreso j i p) = j_estado j" "j_seq (con_progreso j i p) = j_seq j"
  "length (j_entradas (con_progreso j i p)) = length (j_entradas j)"
  by (simp_all add: con_progreso_def)

lemma con_progreso_nth:
  "n < length (j_entradas j) \<Longrightarrow> j_entradas (con_progreso j i p) ! n =
     (if n = i then (j_entradas j ! i)\<lparr>e_progreso := p\<rparr> else j_entradas j ! n)"
  by (simp add: con_progreso_def nth_list_update)

lemma antes_progreso [simp]: "antes r (e\<lparr>e_progreso := p\<rparr>) = antes r e"
  by (simp add: antes_def)

lemma despues_progreso [simp]: "despues t (e\<lparr>e_progreso := p\<rparr>) = despues t e"
  by (simp add: despues_def)

text \<open>Touching the path of one entry that is not marked yet keeps the journal coherent; once the
  path holds the right content the entry can be marked.\<close>

lemma tocar_entrada:
  assumes dist: "distinct (map e_path (j_entradas j))" and i: "i < length (j_entradas j)"
    and marco: "\<And>n. n < length (j_entradas j) \<Longrightarrow> n \<noteq> i \<Longrightarrow>
      a' (e_path (j_entradas j ! n)) = a (e_path (j_entradas j ! n))"
    and coh: "coherente a t r j"
    and caso: "j_estado j = Aplicando \<and> pr = Aplicado \<and> x = despues t (j_entradas j ! i)
      \<or> j_estado j = Revirtiendo \<and> pr = Restaurado \<and> x = antes r (j_entradas j ! i)"
    and sin: "e_progreso (j_entradas j ! i) \<noteq> pr"
  shows "coherente a' t r j"
    and "a' (e_path (j_entradas j ! i)) = x \<Longrightarrow> coherente a' t r ((con_progreso j i pr)\<lparr>j_seq := y\<rparr>)"
proof -
  show "coherente a' t r j"
    using caso coh sin marco by (auto simp: coherente_estado) metis+
  assume "a' (e_path (j_entradas j ! i)) = x"
  then show "coherente a' t r ((con_progreso j i pr)\<lparr>j_seq := y\<rparr>)"
    using caso coh sin marco i by (auto simp: coherente_estado con_progreso_nth)
qed

lemma luego_assoc: "luego (luego m f) g = luego m (\<lambda>j s. luego (f j s) g)"
  by (simp add: luego_def split: prod.splits sum.splits)

lemma unat_seq_Suc:
  "unat (q :: u64) + n < 2 ^ 64 - 1 \<Longrightarrow> q \<noteq> - 1 \<and> unat (q + 1) = Suc (unat q)"
proof -
  assume "unat q + n < 2 ^ 64 - 1"
  then have "q \<noteq> - 1" using unat_max_word [where 'a = 64] by auto
  then show ?thesis by (metis add.commute unatSuc add_eq_0_iff2)
qed

text \<open>The common shape of the two loops.\<close>

fun bucle ::
  "(journal \<Rightarrow> nat \<Rightarrow> 's \<Rightarrow> 's salida) \<Rightarrow> progreso \<Rightarrow> 's sistema_ops \<Rightarrow> nat list \<Rightarrow> journal \<Rightarrow> 's
     \<Rightarrow> 's salida" where
  "bucle paso pr ops [] j s = (Inr (), j, s)"
| "bucle paso pr ops (i # is) j s =
     (if e_progreso (j_entradas j ! i) = pr then bucle paso pr ops is j s
      else luego (luego (paso j i s) (\<lambda>j s. guardar ops (j\<lparr>j_seq := j_seq j + 1\<rparr>) s))
        (bucle paso pr ops is))"

lemma aplicar_loop_bucle: "aplicar_loop sha ops is = bucle (paso_aplicar sha ops) Aplicado ops is"
proof (induction "is")
  case (Cons i "is")
  show ?case by (intro ext) (simp add: luego_assoc Cons.IH)
qed (intro ext, simp)

lemma revertir_loop_bucle: "revertir_loop sha ops is = bucle (paso_revertir sha ops) Restaurado ops is"
proof (induction "is")
  case (Cons i "is")
  show ?case by (intro ext) (simp add: luego_assoc Cons.IH)
qed (intro ext, simp)

lemma se_puede_deshacer_iff:
  "se_puede_deshacer sha ops es s = Inr () \<longleftrightarrow>
     (\<forall>e \<in> set es. material_viejo sha (s_leer ops s DeRespaldo) e)"
proof (induction es)
  case (Cons e es)
  have "puede_deshacer_una sha ops s e = Inr () \<longleftrightarrow> material_viejo sha (s_leer ops s DeRespaldo) e"
    by (auto simp: puede_deshacer_una_def material_viejo_def exige_respaldo_def split: option.splits)
  with Cons show ?case by auto
qed simp

section \<open>What the system's operations keep, the applier keeps\<close>

definition ops_conservan :: "('s \<Rightarrow> bool) \<Rightarrow> 's sistema_ops \<Rightarrow> bool" where
  "ops_conservan P ops \<longleftrightarrow> (\<forall>s. P s \<longrightarrow>
     (\<forall>p d. P (snd (s_escribir ops s p d))) \<and> (\<forall>p. P (snd (s_borrar ops s p))) \<and>
     (\<forall>j. P (snd (s_guardar_diario ops s j))))"

lemma luego_conserva:
  "P (snd (snd m)) \<Longrightarrow> (\<And>j s. P s \<Longrightarrow> P (snd (snd (f j s)))) \<Longrightarrow> P (snd (snd (luego m f)))"
  by (auto simp: luego_def split: prod.splits sum.splits)

lemma guardar_conserva: "ops_conservan P ops \<Longrightarrow> P s \<Longrightarrow> P (snd (snd (guardar ops j s)))"
  unfolding ops_conservan_def guardar_def by (metis (no_types, lifting) prod.case_eq_if snd_conv)

lemma paso_aplicar_conserva: "ops_conservan P ops \<Longrightarrow> P s \<Longrightarrow> P (snd (snd (paso_aplicar sha ops j i s)))"
  unfolding ops_conservan_def paso_aplicar_def Let_def
  by (auto split: option.splits prod.splits if_splits) (metis snd_conv)+

lemma restaurar_una_conserva: "ops_conservan P ops \<Longrightarrow> P s \<Longrightarrow> P (snd (restaurar_una sha ops e s))"
  unfolding ops_conservan_def restaurar_una_def
  by (auto split: option.splits prod.splits if_splits) (metis snd_conv)+

lemma paso_revertir_conserva: "ops_conservan P ops \<Longrightarrow> P s \<Longrightarrow> P (snd (snd (paso_revertir sha ops j i s)))"
  using restaurar_una_conserva [of P ops s sha "j_entradas j ! i"]
  by (auto simp: paso_revertir_def split: prod.splits sum.splits)

lemma bucle_conserva:
  assumes "ops_conservan P ops" "\<And>j i s. P s \<Longrightarrow> P (snd (snd (paso j i s)))" "P s"
  shows "P (snd (snd (bucle paso pr ops is j s)))"
  using assms(3)
proof (induction "is" arbitrary: j s)
  case (Cons i "is")
  have "P (snd (snd (luego (paso j i s) (\<lambda>j s. guardar ops (j\<lparr>j_seq := j_seq j + 1\<rparr>) s))))"
    by (rule luego_conserva) (simp_all add: Cons.prems assms(2) guardar_conserva [OF assms(1)])
  then have "P (snd (snd (luego (luego (paso j i s) (\<lambda>j s. guardar ops (j\<lparr>j_seq := j_seq j + 1\<rparr>) s))
      (bucle paso pr ops is))))"
    by (rule luego_conserva) (rule Cons.IH)
  then show ?case using Cons by simp
qed simp

lemma aplicar_conserva:
  assumes "ops_conservan P ops" "P s"
  shows "P (snd (snd (aplicar sha ops j s)))"
proof -
  note g = guardar_conserva [OF assms(1)]
  have l: "P (snd (snd (aplicar_loop sha ops is j s)))" if "P s" for "is" j s
    unfolding aplicar_loop_bucle using assms(1) paso_aplicar_conserva [OF assms(1)] that by (rule bucle_conserva)
  have f: "P (snd (snd (if j_estado j \<noteq> Probando
       then (case avanzar j AplicacionCompleta of Inl _ \<Rightarrow> (Inl FDiario, j, s) | Inr k \<Rightarrow> guardar ops k s)
       else (Inr (), j, s))))" if "P s" for j s
    using that g by (auto split: sum.splits)
  show ?thesis
    unfolding aplicar_def using assms(2) g
    by (simp split: if_split) (auto intro!: luego_conserva [where P = P] l f g split: sum.splits)
qed

lemma revertir_conserva:
  assumes "ops_conservan P ops" "P s"
  shows "P (snd (snd (revertir sha ops j s)))"
proof -
  note g = guardar_conserva [OF assms(1)]
  have l: "P (snd (snd (revertir_loop sha ops is j s)))" if "P s" for "is" j s
    unfolding revertir_loop_bucle using assms(1) paso_revertir_conserva [OF assms(1)] that by (rule bucle_conserva)
  have f: "P (snd (snd (if j_estado j \<noteq> Revertido
       then (case avanzar j ReversionCompleta of Inl _ \<Rightarrow> (Inl FDiario, j, s) | Inr k \<Rightarrow> guardar ops k s)
       else (Inr (), j, s))))" if "P s" for j s
    using that g by (auto split: sum.splits)
  show ?thesis
    unfolding revertir_def using assms(2) g
    by (simp split: if_split) (auto intro!: luego_conserva [where P = P] l f g split: sum.splits)
qed

lemma restaurar_conserva: "ops_conservan P ops \<Longrightarrow> P s \<Longrightarrow> P (snd (restaurar sha ops es s))"
proof (induction es arbitrary: s)
  case (Cons e es)
  obtain r t where "restaurar_una sha ops e s = (r, t)" by (metis surj_pair)
  then show ?case using Cons restaurar_una_conserva [of P ops s sha e] by (cases r) auto
qed simp

section \<open>The contract of a system that can be cut\<close>

text \<open>
  \<open>activo\<close>, \<open>etapa\<close> and \<open>respaldo\<close> are the active files, the preparation area and the
  backups; \<open>diario\<close> is the journal a reader would find, when it lies in the copy of its turn.
  \<open>vivo\<close> says that the machine has power: a dead one changes nothing.  \<open>aguanta n\<close> says that
  \<open>n\<close> more operations will complete.  An operation that fails or is cut touches nothing but
  its own target, and a journal write that is cut leaves the old journal or the new one.
\<close>

definition sucesor :: "journal \<Rightarrow> journal \<Rightarrow> bool" where
  "sucesor j k = (journal_ok k \<and> j_seq j \<noteq> - 1 \<and> j_seq k = j_seq j + 1)"

locale sistema_durable =
  fixes ops :: "'s sistema_ops"
    and activo etapa respaldo :: "'s \<Rightarrow> string \<Rightarrow> bytes option"
    and diario :: "'s \<Rightarrow> journal option"
    and ruta_ok :: "string \<Rightarrow> bool"
    and vivo :: "'s \<Rightarrow> bool"
    and aguanta :: "'s \<Rightarrow> nat \<Rightarrow> bool"
  assumes leer_etapa: "ruta_ok p \<Longrightarrow> s_leer ops s DePreparado p = etapa s p"
    and leer_respaldo: "ruta_ok p \<Longrightarrow> s_leer ops s DeRespaldo p = respaldo s p"
    and escribir_marco: "ruta_ok p \<Longrightarrow> s_escribir ops s p d = (r, t) \<Longrightarrow>
      (\<forall>q. ruta_ok q \<longrightarrow> q \<noteq> p \<longrightarrow> activo t q = activo s q) \<and>
      (\<forall>q. ruta_ok q \<longrightarrow> etapa t q = etapa s q \<and> respaldo t q = respaldo s q) \<and> diario t = diario s"
    and escribir_hecho: "ruta_ok p \<Longrightarrow> s_escribir ops s p d = (True, t) \<Longrightarrow> vivo t \<Longrightarrow> activo t p = Some d"
    and borrar_marco: "ruta_ok p \<Longrightarrow> s_borrar ops s p = (r, t) \<Longrightarrow>
      (\<forall>q. ruta_ok q \<longrightarrow> q \<noteq> p \<longrightarrow> activo t q = activo s q) \<and>
      (\<forall>q. ruta_ok q \<longrightarrow> etapa t q = etapa s q \<and> respaldo t q = respaldo s q) \<and> diario t = diario s"
    and borrar_hecho: "ruta_ok p \<Longrightarrow> s_borrar ops s p = (True, t) \<Longrightarrow> vivo t \<Longrightarrow> activo t p = None"
    and guardar_marco: "diario s = Some j \<Longrightarrow> sucesor j k \<Longrightarrow> s_guardar_diario ops s k = (r, t) \<Longrightarrow>
      (\<forall>q. ruta_ok q \<longrightarrow> activo t q = activo s q \<and> etapa t q = etapa s q \<and> respaldo t q = respaldo s q) \<and>
      (diario t = Some j \<or> diario t = Some k) \<and> (r \<longrightarrow> vivo t \<and> diario t = Some k)"
    and muerto: "\<not> vivo s \<Longrightarrow> snd (s_escribir ops s p d) = s \<and> snd (s_borrar ops s p) = s \<and>
      snd (s_guardar_diario ops s k) = s"
    and escribir_vive: "ruta_ok p \<Longrightarrow> aguanta s (Suc n) \<Longrightarrow>
      \<exists>t. s_escribir ops s p d = (True, t) \<and> aguanta t n"
    and borrar_vive: "ruta_ok p \<Longrightarrow> aguanta s (Suc n) \<Longrightarrow> \<exists>t. s_borrar ops s p = (True, t) \<and> aguanta t n"
    and guardar_vive: "aguanta s (Suc n) \<Longrightarrow> \<exists>t. s_guardar_diario ops s k = (True, t) \<and> aguanta t n"
    and aguanta_vivo: "aguanta s n \<Longrightarrow> vivo s"
    and aguanta_mono: "aguanta s n \<Longrightarrow> m \<le> n \<Longrightarrow> aguanta s m"
begin

text \<open>The state every cut leaves: a journal of the same operation, coherent with the files, and
  no file outside the operation touched.\<close>

definition estable :: "journal \<Rightarrow> 's \<Rightarrow> 's \<Rightarrow> journal \<Rightarrow> bool" where
  "estable j s t k \<longleftrightarrow> diario t = Some k \<and> misma j k \<and>
     coherente (activo t) (etapa t) (respaldo t) k \<and>
     (\<forall>q. ruta_ok q \<longrightarrow> etapa t q = etapa s q \<and> respaldo t q = respaldo s q) \<and>
     (\<forall>q. ruta_ok q \<longrightarrow> q \<notin> e_path ` set (j_entradas j) \<longrightarrow> activo t q = activo s q)"

lemma estable_inicio:
  "diario s = Some j \<Longrightarrow> coherente (activo s) (etapa s) (respaldo s) j \<Longrightarrow> estable j s s j"
  by (simp add: estable_def)

lemma paso_aplicar_casos:
  assumes "paso_aplicar sha ops j i s = (r, k, t)" "ruta_ok (e_path (j_entradas j ! i))"
  obtains
    (rechazo) e where "r = Inl e" "k = j" "t = s"
  | (escribe) d ok where "s_escribir ops s (e_path (j_entradas j ! i)) d = (ok, t)"
      "despues (etapa s) (j_entradas j ! i) = Some d"
      "if ok then r = Inr () \<and> k = con_progreso j i Aplicado else k = j \<and> r \<noteq> Inr ()"
  | (borra) ok where "s_borrar ops s (e_path (j_entradas j ! i)) = (ok, t)"
      "despues (etapa s) (j_entradas j ! i) = None"
      "if ok then r = Inr () \<and> k = con_progreso j i Aplicado else k = j \<and> r \<noteq> Inr ()"
proof (cases "e_accion (j_entradas j ! i) = Borrar")
  case True
  then show ?thesis
    using assms(1) borra by (auto simp: paso_aplicar_def Let_def despues_def split: prod.splits if_splits)
next
  case False
  then have a: "e_accion (j_entradas j ! i) \<in> {Crear, Reemplazar}"
    by (cases "e_accion (j_entradas j ! i)") auto
  show ?thesis
  proof (cases "etapa s (e_path (j_entradas j ! i))")
    case None
    then show ?thesis
      using assms a rechazo
      by (auto simp: paso_aplicar_def Let_def leer_etapa split: option.splits)
  next
    case (Some d)
    then show ?thesis
      using assms a False rechazo escribe [of d]
      by (auto simp: paso_aplicar_def Let_def leer_etapa despues_def split: option.splits prod.splits if_splits)
  qed
qed

lemma despues_cong:
  "etapa t (e_path e) = etapa s (e_path e) \<Longrightarrow> despues (etapa t) e = despues (etapa s) e"
  by (simp add: despues_def)

text \<open>One step over entry \<open>i\<close>: it touches only that path, and when it reports success on a
  live machine the path holds \<open>x\<close>.\<close>

definition paso_bien :: "journal \<Rightarrow> nat \<Rightarrow> progreso \<Rightarrow> bytes option \<Rightarrow> 's \<Rightarrow> 's salida \<Rightarrow> bool" where
  "paso_bien j i pr x s = (\<lambda>(r, k, t).
     (\<forall>q. ruta_ok q \<longrightarrow> q \<noteq> e_path (j_entradas j ! i) \<longrightarrow> activo t q = activo s q) \<and>
     (\<forall>q. ruta_ok q \<longrightarrow> etapa t q = etapa s q \<and> respaldo t q = respaldo s q) \<and> diario t = diario s \<and>
     (r = Inr () \<longrightarrow> k = con_progreso j i pr \<and> (vivo t \<longrightarrow> activo t (e_path (j_entradas j ! i)) = x)))"

lemma paso_aplicar_bien:
  assumes p: "ruta_ok (e_path (j_entradas j ! i))"
  shows "paso_bien j i Aplicado (despues (etapa s) (j_entradas j ! i)) s (paso_aplicar sha ops j i s)"
proof -
  obtain r k t where paso: "paso_aplicar sha ops j i s = (r, k, t)" by (metis prod_cases3)
  show ?thesis
    using paso p
  proof (cases rule: paso_aplicar_casos)
    case (escribe d ok)
    then show ?thesis
      using p escribir_marco [OF p escribe(1)] escribir_hecho [OF p, of s d t]
      by (cases ok) (auto simp: paso_bien_def paso)
  next
    case (borra ok)
    then show ?thesis
      using p borrar_marco [OF p borra(1)] borrar_hecho [OF p, of s t]
      by (cases ok) (auto simp: paso_bien_def paso)
  qed (auto simp: paso_bien_def paso)
qed

lemma restaurar_una_bien:
  assumes p: "ruta_ok (e_path e)" and paso: "restaurar_una sha ops e s = (r, t)"
  shows "(\<forall>q. ruta_ok q \<longrightarrow> q \<noteq> e_path e \<longrightarrow> activo t q = activo s q) \<and>
    (\<forall>q. ruta_ok q \<longrightarrow> etapa t q = etapa s q \<and> respaldo t q = respaldo s q) \<and> diario t = diario s \<and>
    (r = Inr () \<longrightarrow> vivo t \<longrightarrow> activo t (e_path e) = antes (respaldo s) e)"
proof (cases "e_accion e = Crear")
  case True
  obtain ok where b: "s_borrar ops s (e_path e) = (ok, t)" "r = (if ok then Inr () else Inl (Borrado (e_path e)))"
    using paso True by (auto simp: restaurar_una_def split: prod.splits)
  then show ?thesis
    using borrar_marco [OF p b(1)] borrar_hecho [OF p, of s t] True
    by (cases ok) (auto simp: antes_def)
next
  case False
  then consider "t = s" "r \<noteq> Inr ()"
    | d ok where "respaldo s (e_path e) = Some d" "s_escribir ops s (e_path e) d = (ok, t)"
        "r = (if ok then Inr () else Inl (Escritura (e_path e)))"
    using paso by (auto simp: restaurar_una_def leer_respaldo [OF p] split: option.splits prod.splits if_splits)
  then show ?thesis
  proof cases
    case (2 d ok)
    then show ?thesis
      using escribir_marco [OF p 2(2)] escribir_hecho [OF p, of s d t] False
      by (cases ok) (auto simp: antes_def)
  qed simp
qed

lemma paso_revertir_bien:
  assumes p: "ruta_ok (e_path (j_entradas j ! i))"
  shows "paso_bien j i Restaurado (antes (respaldo s) (j_entradas j ! i)) s (paso_revertir sha ops j i s)"
proof -
  obtain r t where u: "restaurar_una sha ops (j_entradas j ! i) s = (r, t)" by (metis surj_pair)
  show ?thesis
    using restaurar_una_bien [OF p u] by (cases r) (auto simp: paso_bien_def paso_revertir_def u)
qed

lemma estable_guardar:
  assumes est: "estable j0 s0 s j" and suc: "sucesor j k" and m: "misma j0 k"
    and rutas: "\<forall>p \<in> e_path ` set (j_entradas j0). ruta_ok p"
    and coh: "coherente (activo s) (etapa s) (respaldo s) k"
    and g: "guardar ops k s = (r, k', t)"
  shows "(estable j0 s0 t j \<or> estable j0 s0 t k) \<and> k' = k \<and> (r = Inr () \<longrightarrow> vivo t \<and> estable j0 s0 t k)"
proof -
  from g obtain ok where ok: "s_guardar_diario ops s k = (ok, t)" "k' = k" "r = Inr () \<longleftrightarrow> ok"
    by (auto simp: guardar_def split: prod.splits if_splits)
  have "diario s = Some j" using est by (simp add: estable_def)
  note gm = guardar_marco [OF this suc ok(1)]
  have pj: "ruta_ok (e_path e)" if "e \<in> set (j_entradas h)" "misma j0 h" for e h
    using that rutas misma_entradas(2) [OF that(2)] by (metis imageI image_set)
  have c: "coherente (activo t) (etapa t) (respaldo t) h = coherente (activo s) (etapa s) (respaldo s) h"
    if "misma j0 h" for h
    by (rule coherente_cong) (use gm pj that in auto)
  show ?thesis
    using gm est m coh c ok unfolding estable_def by (metis (no_types, lifting))
qed

lemma paso_y_guardar:
  assumes est: "estable j0 s0 s j" and ok: "journal_ok j0"
    and dist: "distinct (map e_path (j_entradas j0))"
    and rutas: "\<forall>p \<in> e_path ` set (j_entradas j0). ruta_ok p"
    and i: "i < length (j_entradas j0)" and seq: "j_seq j \<noteq> - 1"
    and caso: "j_estado j = Aplicando \<and> pr = Aplicado \<and> x = despues (etapa s) (j_entradas j ! i)
      \<or> j_estado j = Revirtiendo \<and> pr = Restaurado \<and> x = antes (respaldo s) (j_entradas j ! i)"
    and sin: "e_progreso (j_entradas j ! i) \<noteq> pr"
    and bien: "paso_bien j i pr x s m"
    and fin: "luego m (\<lambda>j s. guardar ops (j\<lparr>j_seq := j_seq j + 1\<rparr>) s) = (r, k, t)"
  defines "sig \<equiv> (con_progreso j i pr)\<lparr>j_seq := j_seq j + 1\<rparr>"
  shows "(estable j0 s0 t j \<or> estable j0 s0 t sig) \<and> (r = Inr () \<longrightarrow> k = sig \<and> vivo t \<and> estable j0 s0 t sig)"
proof -
  obtain r1 k1 t1 where m: "m = (r1, k1, t1)" by (metis prod_cases3)
  note b = bien [unfolded paso_bien_def m prod.case]
  have mj: "misma j0 j" using est by (simp add: estable_def)
  note me = misma_entradas [OF mj]
  have rj: "ruta_ok (e_path (j_entradas j ! n))" if "n < length (j_entradas j)" for n
    using that rutas me(1,2) by (metis imageI image_set nth_mem)
  have dj: "distinct (map e_path (j_entradas j))" using dist me(2) by simp
  have ij: "i < length (j_entradas j)" using i me(1) by simp
  have pi: "e_path (j_entradas j ! i) \<in> e_path ` set (j_entradas j0)"
    using ij me(2) by (metis imageI image_set nth_mem)
  have marco: "activo t1 (e_path (j_entradas j ! n)) = activo s (e_path (j_entradas j ! n))"
    if "n < length (j_entradas j)" "n \<noteq> i" for n
    using that b rj [OF that(1)] dj ij by (auto simp: distinct_conv_nth)
  have et: "coherente (activo t1) (etapa t1) (respaldo t1) h = coherente (activo t1) (etapa s) (respaldo s) h"
    if "misma j0 h" for h
    by (rule coherente_cong) (use b rutas misma_entradas(2) [OF that] in \<open>metis imageI image_set\<close>)
  have cs: "coherente (activo s) (etapa s) (respaldo s) j" using est by (simp add: estable_def)
  note toca = tocar_entrada [OF dj ij marco cs caso sin]
  have e1: "estable j0 s0 t1 j"
    using est b et [OF mj] toca(1) pi unfolding estable_def by metis
  have msig: "misma j0 sig" using mj by (simp add: sig_def)
  show ?thesis
  proof (cases "r1 = Inr ()")
    case False
    then show ?thesis using fin e1 by (cases r1) (auto simp: m)
  next
    case True
    then have k1: "k1 = con_progreso j i pr" using b by simp
    then have g: "guardar ops sig t1 = (r, k, t)" using fin True by (simp add: m sig_def)
    show ?thesis
    proof (cases "vivo t1")
      case True
      have "coherente (activo t1) (etapa t1) (respaldo t1) sig"
        using toca(2) [of "j_seq j + 1"] b \<open>r1 = Inr ()\<close> True et [OF msig] by (simp add: sig_def)
      moreover have "sucesor j sig"
        using seq ok misma_entradas(7) [OF msig] by (simp add: sucesor_def) (simp add: sig_def)
      ultimately show ?thesis
        using estable_guardar [OF e1 _ msig rutas _ g] by blast
    next
      case False
      have t: "t = t1" and r: "r \<noteq> Inr ()"
      proof -
        obtain q where q: "s_guardar_diario ops t1 sig = (q, t)" "r = Inr () \<longleftrightarrow> q"
          using g by (auto simp: guardar_def split: prod.splits if_splits)
        show "t = t1" using muerto [OF False] q(1) by (metis snd_conv)
        moreover have "sucesor j sig"
          using seq ok misma_entradas(7) [OF msig] by (simp add: sucesor_def) (simp add: sig_def)
        ultimately show "r \<noteq> Inr ()"
          using guardar_marco [of t1 j sig q t] e1 q False by (auto simp: estable_def)
      qed
      then show ?thesis using e1 by simp
    qed
  qed
qed

text \<open>The hypotheses on an operation that the clients of the contract share.\<close>

definition admisible :: "journal \<Rightarrow> bool" where
  "admisible j \<longleftrightarrow> journal_ok j \<and> distinct (map e_path (j_entradas j)) \<and>
     (\<forall>p \<in> e_path ` set (j_entradas j). ruta_ok p)"

text \<open>What a pass over the entries marks, and what it leaves in each path.\<close>

definition pasada :: "txn_state \<Rightarrow> progreso \<Rightarrow> ('s \<Rightarrow> entrada \<Rightarrow> bytes option) \<Rightarrow> bool" where
  "pasada est pr obj \<longleftrightarrow> est = Aplicando \<and> pr = Aplicado \<and> obj = (\<lambda>s. despues (etapa s))
     \<or> est = Revirtiendo \<and> pr = Restaurado \<and> obj = (\<lambda>s. antes (respaldo s))"

lemma ruta_entrada:
  assumes "estable j0 s0 s j" "admisible j0" "i < length (j_entradas j0)"
  shows "ruta_ok (e_path (j_entradas j ! i))"
  using assms misma_entradas(1,2) [of j0 j] unfolding estable_def admisible_def
  by (metis imageI image_set nth_mem)

lemma bucle_corte:
  assumes paso: "\<And>j i s. ruta_ok (e_path (j_entradas j ! i)) \<Longrightarrow>
      paso_bien j i pr (obj s (j_entradas j ! i)) s (paso j i s)"
    and caso: "pasada est pr obj"
    and "estable j0 s0 s j" "admisible j0" "j_estado j = est"
    and "set is \<subseteq> {..<length (j_entradas j0)}" "unat (j_seq j) + length is < 2 ^ 64 - 1"
    and "bucle paso pr ops is j s = (r, k, t)"
  shows "\<exists>h. estable j0 s0 t h \<and> j_estado h = est \<and> (r = Inr () \<longrightarrow> h = k \<and>
     unat (j_seq k) \<le> unat (j_seq j) + length is \<and>
     (\<forall>n < length (j_entradas j0). n \<in> set is \<or> e_progreso (j_entradas j ! n) = pr \<longrightarrow>
        e_progreso (j_entradas k ! n) = pr))"
  using assms(3-)
proof (induction "is" arbitrary: j s)
  case Nil
  then show ?case by auto
next
  case (Cons i "is")
  note adm = Cons.prems(2) [unfolded admisible_def]
  have len: "length (j_entradas j) = length (j_entradas j0)"
    using Cons.prems(1) misma_entradas(1) by (auto simp: estable_def)
  have i: "i < length (j_entradas j0)" using Cons.prems(4) by simp
  show ?case
  proof (cases "e_progreso (j_entradas j ! i) = pr")
    case True
    with Cons.prems Cons.IH [of s j] show ?thesis by fastforce
  next
    case False
    define sig where "sig = (con_progreso j i pr)\<lparr>j_seq := j_seq j + 1\<rparr>"
    define m where "m = luego (paso j i s) (\<lambda>j s. guardar ops (j\<lparr>j_seq := j_seq j + 1\<rparr>) s)"
    obtain r1 k1 t1 where m1: "m = (r1, k1, t1)" by (metis prod_cases3)
    have q: "j_seq j \<noteq> - 1" "unat (j_seq j + 1) = Suc (unat (j_seq j))"
      using unat_seq_Suc [OF Cons.prems(5)] by simp_all
    have p: "ruta_ok (e_path (j_entradas j ! i))" using Cons.prems(1,2) i by (rule ruta_entrada)
    have pg: "(estable j0 s0 t1 j \<or> estable j0 s0 t1 sig) \<and>
        (r1 = Inr () \<longrightarrow> k1 = sig \<and> vivo t1 \<and> estable j0 s0 t1 sig)"
      unfolding sig_def
      by (rule paso_y_guardar [OF Cons.prems(1) _ _ _ i q(1) _ False paso [OF p] m1 [unfolded m_def]])
        (use adm Cons.prems(3) caso in \<open>auto simp: pasada_def\<close>)
    have l: "luego m (bucle paso pr ops is) = (r, k, t)"
      using Cons.prems(6) False by (simp add: m_def)
    show ?thesis
    proof (cases r1)
      case (Inl e)
      then show ?thesis using l pg Cons.prems(3) by (auto simp: m1 sig_def)
    next
      case (Inr u)
      then have u: "r1 = Inr ()" by simp
      then have run: "bucle paso pr ops is sig t1 = (r, k, t)" using l pg by (simp add: m1)
      have "e_progreso (j_entradas sig ! n) = pr"
        if "n < length (j_entradas j0)" "n = i \<or> e_progreso (j_entradas j ! n) = pr" for n
        using that len by (auto simp: sig_def con_progreso_nth)
      moreover have "j_estado sig = est" "unat (j_seq sig) = Suc (unat (j_seq j))"
        using Cons.prems(3) q by (simp_all add: sig_def)
      ultimately show ?thesis
        using Cons.IH [of t1 sig, OF _ Cons.prems(2) _ _ _ run] pg u Cons.prems(4,5) by fastforce
    qed
  qed
qed

text \<open>With power and material enough, the pass completes.\<close>

lemma bucle_vive:
  assumes paso: "\<And>j i s. ruta_ok (e_path (j_entradas j ! i)) \<Longrightarrow>
      paso_bien j i pr (obj s (j_entradas j ! i)) s (paso j i s)"
    and vive: "\<And>j i s n. estable j0 s0 s j \<Longrightarrow> i < length (j_entradas j0) \<Longrightarrow> aguanta s (Suc n) \<Longrightarrow>
      \<exists>k t. paso j i s = (Inr (), k, t) \<and> aguanta t n"
    and caso: "pasada est pr obj"
    and "estable j0 s0 s j" "admisible j0" "j_estado j = est"
    and "set is \<subseteq> {..<length (j_entradas j0)}" "unat (j_seq j) + length is < 2 ^ 64 - 1"
    and "aguanta s (2 * length is + n)"
  shows "\<exists>k t n'. bucle paso pr ops is j s = (Inr (), k, t) \<and> n \<le> n' \<and> aguanta t n'"
  using assms(4-)
proof (induction "is" arbitrary: j s n)
  case Nil
  then show ?case by auto
next
  case (Cons i "is")
  have i: "i < length (j_entradas j0)" using Cons.prems(4) by simp
  show ?case
  proof (cases "e_progreso (j_entradas j ! i) = pr")
    case True
    have "aguanta s (2 * length is + (n + 2))" using Cons.prems(6) by (simp add: add_ac)
    moreover have "set is \<subseteq> {..<length (j_entradas j0)}" "unat (j_seq j) + length is < 2 ^ 64 - 1"
      using Cons.prems(4,5) by simp_all
    ultimately obtain k t n' where "bucle paso pr ops is j s = (Inr (), k, t)" "n + 2 \<le> n'" "aguanta t n'"
      using Cons.IH [OF Cons.prems(1-3)] by blast
    then show ?thesis using True by (auto intro!: exI [of _ n'])
  next
    case False
    have "aguanta s (Suc (Suc (2 * length is + n)))" using Cons.prems(6) by simp
    then obtain k1 t1 where p1: "paso j i s = (Inr (), k1, t1)" "aguanta t1 (Suc (2 * length is + n))"
      using vive [OF Cons.prems(1) i] by blast
    obtain t2 where g: "s_guardar_diario ops t1 (k1\<lparr>j_seq := j_seq k1 + 1\<rparr>) = (True, t2)"
        "aguanta t2 (2 * length is + n)"
      using guardar_vive [OF p1(2)] by blast
    define sig where "sig = (con_progreso j i pr)\<lparr>j_seq := j_seq j + 1\<rparr>"
    have m: "luego (paso j i s) (\<lambda>j s. guardar ops (j\<lparr>j_seq := j_seq j + 1\<rparr>) s) =
        (Inr (), k1\<lparr>j_seq := j_seq k1 + 1\<rparr>, t2)"
      by (simp add: p1 guardar_def g)
    have q: "j_seq j \<noteq> - 1" "unat (j_seq j + 1) = Suc (unat (j_seq j))"
      using unat_seq_Suc [OF Cons.prems(5)] by simp_all
    have p: "ruta_ok (e_path (j_entradas j ! i))" using Cons.prems(1,2) i by (rule ruta_entrada)
    have pg: "k1\<lparr>j_seq := j_seq k1 + 1\<rparr> = sig" "estable j0 s0 t2 sig"
      using paso_y_guardar [OF Cons.prems(1) _ _ _ i q(1) _ False paso [OF p] m] Cons.prems(2,3) caso
      by (auto simp: sig_def admisible_def pasada_def)
    have "j_estado sig = est" "unat (j_seq sig) + length is < 2 ^ 64 - 1"
      using Cons.prems(3,5) q by (simp_all add: sig_def)
    moreover have "set is \<subseteq> {..<length (j_entradas j0)}" using Cons.prems(4) by simp
    ultimately obtain k t n' where "bucle paso pr ops is sig t2 = (Inr (), k, t)" "n \<le> n'" "aguanta t n'"
      using Cons.IH [OF pg(2) Cons.prems(2) _ _ _ g(2)] by blast
    then show ?thesis using False m pg by auto
  qed
qed

lemmas aplicar_bucle_corte =
  bucle_corte [where paso = "paso_aplicar sha ops" and pr = Aplicado and est = Aplicando
    and obj = "\<lambda>s. despues (etapa s)" for sha, OF paso_aplicar_bien]
lemmas revertir_bucle_corte =
  bucle_corte [where paso = "paso_revertir sha ops" and pr = Restaurado and est = Revirtiendo
    and obj = "\<lambda>s. antes (respaldo s)" for sha, OF paso_revertir_bien]

text \<open>A change of state is one journal write.\<close>

lemma estable_avanzar:
  assumes "estable j0 s0 s j" "admisible j0" "avanzar j ev = Inr k"
    and "unat (j_seq j) + n < 2 ^ 64 - 1"
    and "coherente (activo s) (etapa s) (respaldo s) k"
    and "guardar ops k s = (r, k', t)"
  shows "(estable j0 s0 t j \<or> estable j0 s0 t k) \<and> k' = k \<and> (r = Inr () \<longrightarrow> vivo t \<and> estable j0 s0 t k)"
proof -
  have k: "k = j\<lparr>j_estado := j_estado k, j_seq := j_seq j + 1\<rparr>"
    using assms(3) by (auto simp: avanzar_Inr)
  have m: "misma j0 k"
    using assms(1) by (subst k) (simp add: estable_def)
  have "sucesor j k"
    using unat_seq_Suc [OF assms(4)] assms(2) misma_entradas(7) [OF m]
    by (simp add: sucesor_def admisible_def) (subst k, simp)
  then show ?thesis
    using estable_guardar [OF assms(1) _ m _ assms(5,6)] assms(2) by (auto simp: admisible_def)
qed

lemma aplicar_final_corte:
  assumes est: "estable j0 s0 s j" and adm: "admisible j0" and e: "j_estado j = Aplicando"
    and seq: "unat (j_seq j) + length (j_entradas j0) < 2 ^ 64 - 2"
    and run: "luego (aplicar_loop sha ops [0..<length (j_entradas j)] j s)
          (\<lambda>j s. if j_estado j \<noteq> Probando
             then (case avanzar j AplicacionCompleta of
                     Inl _ \<Rightarrow> (Inl FDiario, j, s) | Inr k \<Rightarrow> guardar ops k s)
             else (Inr (), j, s)) = (r, k, t)"
  shows "\<exists>h. estable j0 s0 t h \<and> j_estado h \<in> {Aplicando, Probando} \<and>
    (r = Inr () \<longrightarrow> h = k \<and> j_estado k = Probando \<and> vivo t)"
proof -
  obtain r1 k1 t1 where l: "aplicar_loop sha ops [0..<length (j_entradas j)] j s = (r1, k1, t1)"
    by (metis prod_cases3)
  have len: "length (j_entradas j) = length (j_entradas j0)"
    using est misma_entradas(1) by (auto simp: estable_def)
  obtain h where h: "estable j0 s0 t1 h" "j_estado h = Aplicando"
    "r1 = Inr () \<longrightarrow> h = k1 \<and> unat (j_seq k1) \<le> unat (j_seq j) + length (j_entradas j0) \<and>
     (\<forall>n < length (j_entradas j0). e_progreso (j_entradas k1 ! n) = Aplicado)"
    using aplicar_bucle_corte [OF _ _ est adm e _ _ l [unfolded aplicar_loop_bucle]] seq len
    by (auto simp: pasada_def lessThan_atLeast0)
  show ?thesis
  proof (cases r1)
    case (Inl x)
    then show ?thesis using run h by (auto simp: l)
  next
    case (Inr u)
    with h have k1: "h = k1" "j_estado k1 = Aplicando" and todas:
      "\<forall>n < length (j_entradas j0). e_progreso (j_entradas k1 ! n) = Aplicado"
      and q: "unat (j_seq k1) \<le> unat (j_seq j) + length (j_entradas j0)"
      by auto
    define k2 where "k2 = k1\<lparr>j_estado := Probando, j_seq := j_seq k1 + 1\<rparr>"
    have av: "avanzar k1 AplicacionCompleta = Inr k2"
      using k1 by (simp add: avanzar_Inr txn_next_def k2_def)
    have g: "guardar ops k2 t1 = (r, k, t)" using run Inr k1(2) av by (simp add: l)
    have "length (j_entradas k1) = length (j_entradas j0)"
      using h(1) k1 misma_entradas(1) by (auto simp: estable_def)
    then have "coherente (activo t1) (etapa t1) (respaldo t1) k2"
      using h(1) k1 todas by (simp add: estable_def coherente_estado k2_def)
    then show ?thesis
      using estable_avanzar [OF h(1) [unfolded k1(1)] adm av, of 0] g q seq k1
      by (auto simp: k2_def)
  qed
qed

theorem aplicar_corte:
  assumes d: "diario s = Some j" and coh: "coherente (activo s) (etapa s) (respaldo s) j"
    and adm: "admisible j" and e: "j_estado j \<in> {Armado, Aplicando, Probando, Confirmado}"
    and seq: "unat (j_seq j) + length (j_entradas j) < 2 ^ 64 - 3"
    and run: "aplicar sha ops j s = (r, k, t)"
  shows "\<exists>h. estable j s t h \<and> j_estado h \<in> {j_estado j, Aplicando, Probando} \<and>
    (r = Inr () \<longrightarrow> h = k \<and> j_estado k \<in> {Probando, Confirmado})"
proof -
  note ini = estable_inicio [OF d coh]
  consider (hecho) "j_estado j \<in> {Probando, Confirmado}" | (sigue) "j_estado j = Aplicando"
    | (arma) "j_estado j = Armado" using e by auto
  then show ?thesis
  proof cases
    case hecho
    then show ?thesis using run ini by (auto simp: aplicar_def)
  next
    case sigue
    then show ?thesis
      using aplicar_final_corte [OF ini adm sigue, of sha r k t] run seq by (auto simp: aplicar_def)
  next
    case arma
    define k1 where "k1 = j\<lparr>j_estado := Aplicando, j_seq := j_seq j + 1\<rparr>"
    have av: "avanzar j AplicacionIniciada = Inr k1"
      using arma by (simp add: avanzar_Inr txn_next_def k1_def)
    obtain r1 k2 t1 where g: "guardar ops k1 s = (r1, k2, t1)" by (metis prod_cases3)
    have q: "unat (j_seq k1) = Suc (unat (j_seq j))"
      using unat_seq_Suc [of "j_seq j" 0] seq by (simp add: k1_def)
    have "coherente (activo s) (etapa s) (respaldo s) k1"
      using coh arma by (auto simp: coherente_estado k1_def)
    note ea = estable_avanzar [OF ini adm av _ this g, of 0]
    show ?thesis
    proof (cases r1)
      case (Inl x)
      then have "t = t1" "r = Inl x" using run arma av g by (auto simp: aplicar_def)
      moreover have "j_estado k1 = Aplicando" by (simp add: k1_def)
      moreover have "estable j s t1 j \<or> estable j s t1 k1" using ea seq by auto
      ultimately show ?thesis by (metis insertCI sum.distinct(1))
    next
      case (Inr u)
      then have e1: "estable j s t1 k1" and k2: "k2 = k1" using ea seq by auto
      show ?thesis
        using aplicar_final_corte [OF e1 adm, of sha r k t] run Inr k2 arma av g q seq
        by (auto simp: aplicar_def k1_def)
    qed
  qed
qed

lemma revertir_final_corte:
  assumes est: "estable j0 s0 s j" and adm: "admisible j0" and e: "j_estado j = Revirtiendo"
    and seq: "unat (j_seq j) + length (j_entradas j0) < 2 ^ 64 - 2"
    and run: "luego (revertir_loop sha ops [0..<length (j_entradas j)] j s)
          (\<lambda>j s. if j_estado j \<noteq> Revertido
             then (case avanzar j ReversionCompleta of
                     Inl _ \<Rightarrow> (Inl FDiario, j, s) | Inr k \<Rightarrow> guardar ops k s)
             else (Inr (), j, s)) = (r, k, t)"
  shows "\<exists>h. estable j0 s0 t h \<and> j_estado h \<in> {Revirtiendo, Revertido} \<and>
    (r = Inr () \<longrightarrow> h = k \<and> j_estado k = Revertido \<and> vivo t)"
proof -
  obtain r1 k1 t1 where l: "revertir_loop sha ops [0..<length (j_entradas j)] j s = (r1, k1, t1)"
    by (metis prod_cases3)
  have len: "length (j_entradas j) = length (j_entradas j0)"
    using est misma_entradas(1) by (auto simp: estable_def)
  obtain h where h: "estable j0 s0 t1 h" "j_estado h = Revirtiendo"
    "r1 = Inr () \<longrightarrow> h = k1 \<and> unat (j_seq k1) \<le> unat (j_seq j) + length (j_entradas j0) \<and>
     (\<forall>n < length (j_entradas j0). e_progreso (j_entradas k1 ! n) = Restaurado)"
    using revertir_bucle_corte [OF _ _ est adm e _ _ l [unfolded revertir_loop_bucle]] seq len
    by (auto simp: pasada_def lessThan_atLeast0)
  show ?thesis
  proof (cases r1)
    case (Inl x)
    then show ?thesis using run h by (auto simp: l)
  next
    case (Inr u)
    with h have k1: "h = k1" "j_estado k1 = Revirtiendo" and todas:
      "\<forall>n < length (j_entradas j0). e_progreso (j_entradas k1 ! n) = Restaurado"
      and q: "unat (j_seq k1) \<le> unat (j_seq j) + length (j_entradas j0)"
      by auto
    define k2 where "k2 = k1\<lparr>j_estado := Revertido, j_seq := j_seq k1 + 1\<rparr>"
    have av: "avanzar k1 ReversionCompleta = Inr k2"
      using k1 by (simp add: avanzar_Inr txn_next_def k2_def)
    have g: "guardar ops k2 t1 = (r, k, t)" using run Inr k1(2) av by (simp add: l)
    have "length (j_entradas k1) = length (j_entradas j0)"
      using h(1) k1 misma_entradas(1) by (auto simp: estable_def)
    then have "coherente (activo t1) (etapa t1) (respaldo t1) k2"
      using h(1) k1 todas by (simp add: estable_def coherente_estado k2_def)
    then show ?thesis
      using estable_avanzar [OF h(1) [unfolded k1(1)] adm av, of 0] g q seq k1
      by (auto simp: k2_def)
  qed
qed

theorem revertir_corte:
  assumes d: "diario s = Some j" and coh: "coherente (activo s) (etapa s) (respaldo s) j"
    and adm: "admisible j"
    and e: "j_estado j \<in> {Aplicando, Probando, Confirmado, Revirtiendo, Revertido}"
    and seq: "unat (j_seq j) + length (j_entradas j) < 2 ^ 64 - 3"
    and run: "revertir sha ops j s = (r, k, t)"
  shows "\<exists>h. estable j s t h \<and> j_estado h \<in> {j_estado j, Revirtiendo, Revertido} \<and>
    (r = Inr () \<longrightarrow> h = k \<and> j_estado k = Revertido)"
proof -
  note ini = estable_inicio [OF d coh]
  consider (hecho) "j_estado j = Revertido" | (sigue) "j_estado j = Revirtiendo"
    | (pide) "j_estado j \<in> {Aplicando, Probando, Confirmado}" using e by auto
  then show ?thesis
  proof cases
    case hecho
    then show ?thesis using run ini by (auto simp: revertir_def)
  next
    case sigue
    then show ?thesis
      using revertir_final_corte [OF ini adm sigue, of sha r k t] run seq by (auto simp: revertir_def)
  next
    case pide
    define k1 where "k1 = j\<lparr>j_estado := Revirtiendo, j_seq := j_seq j + 1\<rparr>"
    have av: "avanzar j ReversionSolicitada = Inr k1"
      using pide by (auto simp: avanzar_Inr txn_next_def k1_def)
    obtain r1 k2 t1 where g: "guardar ops k1 s = (r1, k2, t1)" by (metis prod_cases3)
    have q: "unat (j_seq k1) = Suc (unat (j_seq j))"
      using unat_seq_Suc [of "j_seq j" 0] seq by (simp add: k1_def)
    have "\<forall>n < length (j_entradas j). e_progreso (j_entradas j ! n) \<noteq> Restaurado"
      using coh pide by (auto simp: coherente_estado)
    then have "coherente (activo s) (etapa s) (respaldo s) k1"
      by (simp add: coherente_estado k1_def)
    note ea = estable_avanzar [OF ini adm av _ this g, of 0]
    show ?thesis
    proof (cases r1)
      case (Inl x)
      then have "t = t1" "r = Inl x" using run pide av g by (auto simp: revertir_def)
      moreover have "j_estado k1 = Revirtiendo" by (simp add: k1_def)
      moreover have "estable j s t1 j \<or> estable j s t1 k1" using ea seq by auto
      ultimately show ?thesis by (metis insertCI sum.distinct(1))
    next
      case (Inr u)
      then have e1: "estable j s t1 k1" and k2: "k2 = k1" using ea seq by auto
      show ?thesis
        using revertir_final_corte [OF e1 adm, of sha r k t] run Inr k2 pide av g q seq
        by (auto simp: revertir_def k1_def)
    qed
  qed
qed

text \<open>Completion: with \<open>2 n + 2\<close> operations of power left and the material in place.\<close>

lemma paso_aplicar_vive:
  assumes est: "estable j0 s0 s j" and adm: "admisible j0" and i: "i < length (j_entradas j0)"
    and mat: "\<forall>e \<in> set (j_entradas j0). material_nuevo sha (etapa s0) e"
    and ag: "aguanta s (Suc n)"
  shows "\<exists>k t. paso_aplicar sha ops j i s = (Inr (), k, t) \<and> aguanta t n"
proof -
  let ?e = "j_entradas j ! i"
  have p: "ruta_ok (e_path ?e)" using est adm i by (rule ruta_entrada)
  have mj: "misma j0 j" using est by (simp add: estable_def)
  have "material_nuevo sha (etapa s0) ?e"
    using mat i misma_entradas(1,5) [OF mj] by (metis nth_map nth_mem)
  moreover have "etapa s (e_path ?e) = etapa s0 (e_path ?e)" using est p by (simp add: estable_def)
  ultimately have mat1: "material_nuevo sha (etapa s) ?e" by (simp add: material_nuevo_def)
  show ?thesis
  proof (cases "e_accion ?e = Borrar")
    case True
    then show ?thesis
      using borrar_vive [OF p ag] by (auto simp: paso_aplicar_def Let_def)
  next
    case False
    then obtain c d where "e_nuevo ?e = Some c" "etapa s (e_path ?e) = Some d" "contenido_cuadra sha d c"
      using mat1 by (auto simp: material_nuevo_def split: option.splits)
    moreover have "e_accion ?e \<in> {Crear, Reemplazar}" using False by (cases "e_accion ?e") auto
    ultimately show ?thesis
      using escribir_vive [OF p ag, of d] leer_etapa [OF p, of s] by (auto simp: paso_aplicar_def Let_def)
  qed
qed

lemma restaurar_una_vive:
  assumes p: "ruta_ok (e_path e)" and mat: "material_viejo sha (respaldo s) e" and ag: "aguanta s (Suc n)"
  shows "\<exists>t. restaurar_una sha ops e s = (Inr (), t) \<and> aguanta t n"
proof (cases "e_accion e = Crear")
  case True
  then show ?thesis using borrar_vive [OF p ag] by (auto simp: restaurar_una_def)
next
  case False
  then obtain c d where "e_respaldo e = Some c" "respaldo s (e_path e) = Some d" "contenido_cuadra sha d c"
    using mat by (auto simp: material_viejo_def split: option.splits)
  then show ?thesis
    using False escribir_vive [OF p ag, of d] leer_respaldo [OF p, of s] by (auto simp: restaurar_una_def)
qed

lemma paso_revertir_vive:
  assumes est: "estable j0 s0 s j" and adm: "admisible j0" and i: "i < length (j_entradas j0)"
    and mat: "\<forall>e \<in> set (j_entradas j0). material_viejo sha (respaldo s0) e"
    and ag: "aguanta s (Suc n)"
  shows "\<exists>k t. paso_revertir sha ops j i s = (Inr (), k, t) \<and> aguanta t n"
proof -
  let ?e = "j_entradas j ! i"
  have p: "ruta_ok (e_path ?e)" using est adm i by (rule ruta_entrada)
  have mj: "misma j0 j" using est by (simp add: estable_def)
  have "material_viejo sha (respaldo s0) ?e"
    using mat i misma_entradas(1,6) [OF mj] by (metis nth_map nth_mem)
  moreover have "respaldo s (e_path ?e) = respaldo s0 (e_path ?e)" using est p by (simp add: estable_def)
  ultimately have "material_viejo sha (respaldo s) ?e" by (simp add: material_viejo_def)
  from restaurar_una_vive [OF p this ag] show ?thesis by (auto simp: paso_revertir_def)
qed

lemma aplicar_final_vive:
  assumes est: "estable j0 s0 s j" and adm: "admisible j0" and e: "j_estado j = Aplicando"
    and seq: "unat (j_seq j) + length (j_entradas j0) < 2 ^ 64 - 2"
    and mat: "\<forall>e \<in> set (j_entradas j0). material_nuevo sha (etapa s0) e"
    and ag: "aguanta s (2 * length (j_entradas j0) + Suc n)"
  shows "\<exists>k t. luego (aplicar_loop sha ops [0..<length (j_entradas j)] j s)
          (\<lambda>j s. if j_estado j \<noteq> Probando
             then (case avanzar j AplicacionCompleta of
                     Inl _ \<Rightarrow> (Inl FDiario, j, s) | Inr k \<Rightarrow> guardar ops k s)
             else (Inr (), j, s)) = (Inr (), k, t) \<and> aguanta t n"
proof -
  have len: "length (j_entradas j) = length (j_entradas j0)"
    using est misma_entradas(1) by (auto simp: estable_def)
  have pas: "pasada Aplicando Aplicado (\<lambda>s. despues (etapa s))" by (simp add: pasada_def)
  have idx: "set [0..<length (j_entradas j)] \<subseteq> {..<length (j_entradas j0)}" by (auto simp: len)
  have sq: "unat (j_seq j) + length [0..<length (j_entradas j)] < 2 ^ 64 - 1" using seq len by simp
  have "aguanta s (2 * length [0..<length (j_entradas j)] + Suc n)" using ag len by simp
  from bucle_vive [OF paso_aplicar_bien [where sha = sha] paso_aplicar_vive [OF _ adm _ mat] pas est adm e idx sq this]
  obtain k1 t1 n' where l: "aplicar_loop sha ops [0..<length (j_entradas j)] j s = (Inr (), k1, t1)"
      "Suc n \<le> n'" "aguanta t1 n'"
    by (auto simp: aplicar_loop_bucle)
  have e1: "j_estado k1 = Aplicando"
    using aplicar_bucle_corte [OF _ pas est adm e idx sq l(1) [unfolded aplicar_loop_bucle]] by auto
  obtain k2 where k2: "avanzar k1 AplicacionCompleta = Inr k2"
    using e1 by (simp add: avanzar_def txn_next_def)
  have "aguanta t1 (Suc n)" using aguanta_mono l(2,3) by blast
  then obtain t2 where "s_guardar_diario ops t1 k2 = (True, t2)" "aguanta t2 n"
    using guardar_vive by blast
  then show ?thesis using l e1 k2 by (simp add: guardar_def)
qed

theorem aplicar_completa:
  assumes d: "diario s = Some j" and coh: "coherente (activo s) (etapa s) (respaldo s) j"
    and adm: "admisible j" and e: "j_estado j \<in> {Armado, Aplicando}"
    and seq: "unat (j_seq j) + length (j_entradas j) < 2 ^ 64 - 3"
    and mat: "\<forall>e \<in> set (j_entradas j). material_nuevo sha (etapa s) e"
    and ag: "aguanta s (2 * length (j_entradas j) + 2 + n)"
  shows "\<exists>k t. aplicar sha ops j s = (Inr (), k, t) \<and> aguanta t n"
proof (cases "j_estado j = Aplicando")
  case True
  have "aguanta s (2 * length (j_entradas j) + Suc n)" using aguanta_mono [OF ag] by auto
  with True show ?thesis
    using aplicar_final_vive [OF estable_inicio [OF d coh] adm True _ mat] seq
    by (auto simp: aplicar_def)
next
  case False
  then have arma: "j_estado j = Armado" using e by simp
  define k1 where "k1 = j\<lparr>j_estado := Aplicando, j_seq := j_seq j + 1\<rparr>"
  have av: "avanzar j AplicacionIniciada = Inr k1"
    using arma by (simp add: avanzar_Inr txn_next_def k1_def)
  have "aguanta s (Suc (2 * length (j_entradas j) + Suc n))" using ag by simp
  then obtain t1 where t1: "s_guardar_diario ops s k1 = (True, t1)" "aguanta t1 (2 * length (j_entradas j) + Suc n)"
    using guardar_vive by blast
  then have g: "guardar ops k1 s = (Inr (), k1, t1)" by (simp add: guardar_def)
  have "coherente (activo s) (etapa s) (respaldo s) k1"
    using coh arma by (auto simp: coherente_estado k1_def)
  then have e1: "estable j s t1 k1"
    using estable_avanzar [OF estable_inicio [OF d coh] adm av _ _ g, of 0] seq by simp
  have "unat (j_seq k1) = Suc (unat (j_seq j))" "j_estado k1 = Aplicando"
    using unat_seq_Suc [of "j_seq j" 0] seq by (simp_all add: k1_def)
  then show ?thesis
    using aplicar_final_vive [OF e1 adm _ _ mat t1(2)] seq arma av g by (auto simp: aplicar_def)
qed

lemma revertir_final_vive:
  assumes est: "estable j0 s0 s j" and adm: "admisible j0" and e: "j_estado j = Revirtiendo"
    and seq: "unat (j_seq j) + length (j_entradas j0) < 2 ^ 64 - 2"
    and mat: "\<forall>e \<in> set (j_entradas j0). material_viejo sha (respaldo s0) e"
    and ag: "aguanta s (2 * length (j_entradas j0) + Suc n)"
  shows "\<exists>k t. luego (revertir_loop sha ops [0..<length (j_entradas j)] j s)
          (\<lambda>j s. if j_estado j \<noteq> Revertido
             then (case avanzar j ReversionCompleta of
                     Inl _ \<Rightarrow> (Inl FDiario, j, s) | Inr k \<Rightarrow> guardar ops k s)
             else (Inr (), j, s)) = (Inr (), k, t) \<and> aguanta t n"
proof -
  have len: "length (j_entradas j) = length (j_entradas j0)"
    using est misma_entradas(1) by (auto simp: estable_def)
  have pas: "pasada Revirtiendo Restaurado (\<lambda>s. antes (respaldo s))" by (simp add: pasada_def)
  have idx: "set [0..<length (j_entradas j)] \<subseteq> {..<length (j_entradas j0)}" by (auto simp: len)
  have sq: "unat (j_seq j) + length [0..<length (j_entradas j)] < 2 ^ 64 - 1" using seq len by simp
  have "aguanta s (2 * length [0..<length (j_entradas j)] + Suc n)" using ag len by simp
  from bucle_vive [OF paso_revertir_bien [where sha = sha] paso_revertir_vive [OF _ adm _ mat] pas est adm e idx sq this]
  obtain k1 t1 n' where l: "revertir_loop sha ops [0..<length (j_entradas j)] j s = (Inr (), k1, t1)"
      "Suc n \<le> n'" "aguanta t1 n'"
    by (auto simp: revertir_loop_bucle)
  have e1: "j_estado k1 = Revirtiendo"
    using revertir_bucle_corte [OF _ pas est adm e idx sq l(1) [unfolded revertir_loop_bucle]] by auto
  obtain k2 where k2: "avanzar k1 ReversionCompleta = Inr k2"
    using e1 by (simp add: avanzar_def txn_next_def)
  have "aguanta t1 (Suc n)" using aguanta_mono l(2,3) by blast
  then obtain t2 where "s_guardar_diario ops t1 k2 = (True, t2)" "aguanta t2 n"
    using guardar_vive by blast
  then show ?thesis using l e1 k2 by (simp add: guardar_def)
qed

theorem revertir_completa:
  assumes d: "diario s = Some j" and coh: "coherente (activo s) (etapa s) (respaldo s) j"
    and adm: "admisible j" and e: "j_estado j \<in> {Aplicando, Probando, Confirmado, Revirtiendo}"
    and seq: "unat (j_seq j) + length (j_entradas j) < 2 ^ 64 - 3"
    and mat: "\<forall>e \<in> set (j_entradas j). material_viejo sha (respaldo s) e"
    and ag: "aguanta s (2 * length (j_entradas j) + 2 + n)"
  shows "\<exists>k t. revertir sha ops j s = (Inr (), k, t) \<and> aguanta t n"
proof (cases "j_estado j = Revirtiendo")
  case True
  have "aguanta s (2 * length (j_entradas j) + Suc n)" using aguanta_mono [OF ag] by auto
  with True show ?thesis
    using revertir_final_vive [OF estable_inicio [OF d coh] adm True _ mat] seq
    by (auto simp: revertir_def)
next
  case False
  then have arma: "j_estado j \<in> {Aplicando, Probando, Confirmado}" using e by simp
  define k1 where "k1 = j\<lparr>j_estado := Revirtiendo, j_seq := j_seq j + 1\<rparr>"
  have av: "avanzar j ReversionSolicitada = Inr k1"
    using arma by (auto simp: avanzar_Inr txn_next_def k1_def)
  have "aguanta s (Suc (2 * length (j_entradas j) + Suc n))" using ag by simp
  then obtain t1 where t1: "s_guardar_diario ops s k1 = (True, t1)" "aguanta t1 (2 * length (j_entradas j) + Suc n)"
    using guardar_vive by blast
  then have g: "guardar ops k1 s = (Inr (), k1, t1)" by (simp add: guardar_def)
  have "\<forall>n < length (j_entradas j). e_progreso (j_entradas j ! n) \<noteq> Restaurado"
    using coh arma by (auto simp: coherente_estado)
  then have "coherente (activo s) (etapa s) (respaldo s) k1"
    by (simp add: coherente_estado k1_def)
  then have e1: "estable j s t1 k1"
    using estable_avanzar [OF estable_inicio [OF d coh] adm av _ _ g, of 0] seq by simp
  have "unat (j_seq k1) = Suc (unat (j_seq j))" "j_estado k1 = Revirtiendo"
    using unat_seq_Suc [of "j_seq j" 0] seq by (simp_all add: k1_def)
  then show ?thesis
    using revertir_final_vive [OF e1 adm _ _ mat t1(2)] seq arma av g by (auto simp: revertir_def)
qed

text \<open>Restoring without a journal: the same conclusions for a retained point.\<close>

lemma restaurar_una_muere:
  assumes "ruta_ok (e_path e)" "restaurar_una sha ops e s = (r, t)" "\<not> vivo s"
  shows "t = s"
  using assms(2) muerto [OF assms(3)]
  by (auto simp: restaurar_una_def split: if_splits option.splits prod.splits) (metis snd_conv)+

lemma restaurar_muere:
  "\<forall>e \<in> set es. ruta_ok (e_path e) \<Longrightarrow> restaurar sha ops es s = (r, t) \<Longrightarrow> \<not> vivo s \<Longrightarrow> t = s"
proof (induction es arbitrary: s)
  case (Cons e es)
  obtain r1 s1 where u: "restaurar_una sha ops e s = (r1, s1)" by (metis surj_pair)
  then have "s1 = s" using Cons.prems by (auto intro: restaurar_una_muere)
  then show ?case using Cons u by (cases r1) auto
qed simp

lemma restaurar_marco:
  assumes "\<forall>e \<in> set es. ruta_ok (e_path e)" "restaurar sha ops es s = (r, t)"
  shows "(\<forall>q. ruta_ok q \<longrightarrow> q \<notin> e_path ` set es \<longrightarrow> activo t q = activo s q) \<and>
    (\<forall>q. ruta_ok q \<longrightarrow> etapa t q = etapa s q \<and> respaldo t q = respaldo s q) \<and> diario t = diario s"
  using assms
proof (induction es arbitrary: s)
  case (Cons e es)
  obtain r1 s1 where u: "restaurar_una sha ops e s = (r1, s1)" by (metis surj_pair)
  have p: "ruta_ok (e_path e)" using Cons.prems(1) by simp
  note b = restaurar_una_bien [OF p u]
  show ?case
  proof (cases r1)
    case (Inl f)
    then show ?thesis using Cons.prems(2) b by (auto simp: u)
  next
    case (Inr x)
    then have "restaurar sha ops es s1 = (r, t)" using Cons.prems(2) by (simp add: u)
    from Cons.IH [OF _ this] Cons.prems(1) b show ?thesis by auto
  qed
qed simp

lemma restaurar_hecho:
  assumes "\<forall>e \<in> set es. ruta_ok (e_path e)" "distinct (map e_path es)"
    and "restaurar sha ops es s = (Inr (), t)" "vivo t" "e \<in> set es"
  shows "activo t (e_path e) = antes (respaldo s) e"
  using assms
proof (induction es arbitrary: s)
  case (Cons e' es)
  have p: "ruta_ok (e_path e')" and ps: "\<forall>e \<in> set es. ruta_ok (e_path e)" using Cons.prems(1) by auto
  obtain r1 s1 where u: "restaurar_una sha ops e' s = (r1, s1)" by (metis surj_pair)
  have r1: "r1 = Inr ()" and run: "restaurar sha ops es s1 = (Inr (), t)"
    using Cons.prems(3) u by (cases r1; simp)+
  have "vivo s1" using restaurar_muere [OF ps run] Cons.prems(4) by blast
  note b = restaurar_una_bien [OF p u, THEN conjunct2, THEN conjunct1]
    restaurar_una_bien [OF p u, THEN conjunct2, THEN conjunct2, THEN conjunct2, rule_format, OF r1 this]
  show ?case
  proof (cases "e = e'")
    case True
    have "e_path e' \<notin> e_path ` set es" using Cons.prems(2) by auto
    then show ?thesis using restaurar_marco [OF ps run] b(2) p True by simp
  next
    case False
    then have e: "e \<in> set es" using Cons.prems(5) by simp
    then have "activo t (e_path e) = antes (respaldo s1) e" using Cons.IH [OF ps _ run Cons.prems(4)] Cons.prems(2) by simp
    then show ?thesis using b(1) ps e by (simp add: antes_def)
  qed
qed simp

lemma restaurar_vive:
  assumes "\<forall>e \<in> set es. ruta_ok (e_path e) \<and> material_viejo sha (respaldo s) e"
    and "aguanta s (length es + n)"
  shows "\<exists>t. restaurar sha ops es s = (Inr (), t) \<and> aguanta t n"
  using assms
proof (induction es arbitrary: s)
  case (Cons e es)
  have p: "ruta_ok (e_path e)" "material_viejo sha (respaldo s) e" using Cons.prems(1) by auto
  obtain s1 where u: "restaurar_una sha ops e s = (Inr (), s1)" "aguanta s1 (length es + n)"
    using restaurar_una_vive [OF p, of "length es + n"] Cons.prems(2) by auto
  have "respaldo s1 q = respaldo s q" if "ruta_ok q" for q
    using restaurar_una_bien [OF p(1) u(1)] that by simp
  then have "\<forall>e \<in> set es. ruta_ok (e_path e) \<and> material_viejo sha (respaldo s1) e"
    using Cons.prems(1) by (auto simp: material_viejo_def)
  from Cons.IH [OF this u(2)] show ?case by (simp add: u(1))
qed simp

end

end
