(* ===== verification/Punto.thy ===== *)
theory Punto
  imports Aplicador Bootrec
begin

text \<open>
  \<open>crates/soso-update-core/src/txn/punto.rs\<close>: the retained recovery point, its record, its
  verification, its creation and the retention rules.  The trait \<open>Almacen\<close> is the record
  \<open>almacen_ops\<close>.  Sums of \<open>u64\<close> wrap as in a release build; \<open>bytes_a_restaurar\<close> adds
  without saturation.
\<close>

definition PUNTO_MAGIC :: string where "PUNTO_MAGIC = ''SOSOPUNTO''"
definition PUNTO_FORMATO :: u16 where "PUNTO_FORMATO = 1"

record punto =
  p_id :: txn_id
  p_version :: string
  p_build :: string
  p_guid_destino :: string
  p_kernel :: contenido
  p_entradas :: "entrada list"
  p_seq :: u64
  p_formato :: u16

datatype punto_error =
    PRegistro record_error | PIdInvalido | PCampo string | OtroDestino string string

definition punto_contenido_fmt :: "contenido \<Rightarrow> string" where
  "punto_contenido_fmt c = (if c_hash c = [] then ''- -'' else show_word (c_size c) @ '' '' @ c_hash c)"

definition punto_contenido_parse :: "string \<Rightarrow> punto_error + contenido" where
  "punto_contenido_parse s0 =
     (let s = trim s0 in
      if s = ''- -'' \<or> s = ''-'' then Inr \<lparr>c_size = 0, c_hash = []\<rparr>
      else res_bind (ok_or (split_once CHR '' '' s) (PCampo ''contenido'')) (\<lambda>(tam, hash).
        res_bind (ok_or (parse_word tam) (PCampo ''size'')) (\<lambda>n.
          Inr \<lparr>c_size = n, c_hash = trim hash\<rparr>)))"

definition punto_nuevo ::
  "txn_id \<Rightarrow> string \<Rightarrow> string \<Rightarrow> string \<Rightarrow> contenido \<Rightarrow> entrada list \<Rightarrow> punto" where
  "punto_nuevo i version build guid krn entradas =
     \<lparr>p_id = i, p_version = version, p_build = build, p_guid_destino = guid, p_kernel = krn,
      p_entradas = entradas, p_seq = 1, p_formato = PUNTO_FORMATO\<rparr>"

primrec punto_accion_str :: "accion \<Rightarrow> string" where
  "punto_accion_str Crear = ''quitar''"
| "punto_accion_str Reemplazar = ''restaurar''"
| "punto_accion_str Borrar = ''reponer''"

definition punto_accion_parse :: "string \<Rightarrow> accion option" where
  "punto_accion_parse s =
     (if s = ''quitar'' then Some Crear
      else if s = ''restaurar'' then Some Reemplazar
      else if s = ''reponer'' then Some Borrar
      else None)"

definition punto_entrada_fmt :: "entrada \<Rightarrow> string" where
  "punto_entrada_fmt e =
     ''p '' @ punto_accion_str (e_accion e) @ '' '' @
     (case e_respaldo e of None \<Rightarrow> ''- -'' | Some c \<Rightarrow> punto_contenido_fmt c) @ '' '' @ e_path e"

definition punto_body :: "punto \<Rightarrow> string" where
  "punto_body p =
     ''id='' @ to_hex (p_id p) @ [NL] @
     ''version='' @ p_version p @ [NL] @
     ''build='' @ p_build p @ [NL] @
     ''guid='' @ p_guid_destino p @ [NL] @
     ''kernel='' @ punto_contenido_fmt (p_kernel p) @ [NL] @
     concat (map (\<lambda>e. punto_entrada_fmt e @ [NL]) (p_entradas p))"

definition punto_format :: "(bytes \<Rightarrow> u32) \<Rightarrow> punto \<Rightarrow> bytes" where
  "punto_format crc p = frame crc PUNTO_MAGIC PUNTO_FORMATO (p_seq p) (punto_body p)"

definition punto_entrada_parse :: "string \<Rightarrow> punto_error + entrada" where
  "punto_entrada_parse linea =
     (case splitn 5 CHR '' '' linea of
        [_, a, tam, hash, ruta] \<Rightarrow>
          res_bind (ok_or (punto_accion_parse a) (PCampo ''accion'')) (\<lambda>a.
          res_bind
            (if tam = ''-'' then Inr None
             else res_bind (punto_contenido_parse (tam @ '' '' @ hash)) (\<lambda>c. Inr (Some c))) (\<lambda>resp.
          Inr \<lparr>e_accion = a, e_progreso = Respaldado, e_path = ruta, e_nuevo = None, e_respaldo = resp\<rparr>))
      | _ \<Rightarrow> Inl (PCampo ''entrada''))"

fun punto_entradas_parse :: "string list \<Rightarrow> punto_error + entrada list" where
  "punto_entradas_parse [] = Inr []"
| "punto_entradas_parse (l # ls) =
     res_bind (punto_entrada_parse l) (\<lambda>e. res_bind (punto_entradas_parse ls) (\<lambda>es. Inr (e # es)))"

definition punto_de_framed :: "framed \<Rightarrow> punto_error + punto" where
  "punto_de_framed f =
     res_bind (punto_entradas_parse (lineas f ''p '')) (\<lambda>entradas.
     res_bind (map_err PRegistro (requerido f ''id'')) (\<lambda>hex.
     res_bind (ok_or (from_hex hex) PIdInvalido) (\<lambda>i.
     res_bind (map_err PRegistro (requerido f ''version'')) (\<lambda>version.
     res_bind (map_err PRegistro (requerido f ''build'')) (\<lambda>build.
     res_bind (map_err PRegistro (requerido f ''guid'')) (\<lambda>guid.
     res_bind (map_err PRegistro (requerido f ''kernel'')) (\<lambda>ks.
     res_bind (punto_contenido_parse ks) (\<lambda>kernel.
     Inr \<lparr>p_id = i, p_version = version, p_build = build, p_guid_destino = guid, p_kernel = kernel,
          p_entradas = entradas, p_seq = fr_seq f, p_formato = fr_formato f\<rparr>))))))))"

definition punto_parse :: "(bytes \<Rightarrow> u32) \<Rightarrow> bytes \<Rightarrow> punto_error + punto" where
  "punto_parse crc raw =
     res_bind (map_err PRegistro (record_parse crc PUNTO_MAGIC PUNTO_FORMATO raw)) punto_de_framed"

definition comprobar_destino :: "punto \<Rightarrow> string \<Rightarrow> punto_error + unit" where
  "comprobar_destino p guid =
     (if eq_ignore_ascii_case (p_guid_destino p) guid then Inr ()
      else Inl (OtroDestino (p_guid_destino p) guid))"

fun verificar_entradas ::
  "(bytes \<Rightarrow> hash256) \<Rightarrow> 's sistema_ops \<Rightarrow> entrada list \<Rightarrow> 's \<Rightarrow> fallo + unit" where
  "verificar_entradas sha ops [] s = Inr ()"
| "verificar_entradas sha ops (e # es) s =
     (case e_respaldo e of
        None \<Rightarrow> verificar_entradas sha ops es s
      | Some resp \<Rightarrow>
          (case s_leer ops s DeRespaldo (e_path e) of
             None \<Rightarrow> Inl (FaltaRespaldo (e_path e))
           | Some datos \<Rightarrow>
               if \<not> contenido_cuadra sha datos resp then Inl (HashDistinto (e_path e))
               else verificar_entradas sha ops es s))"

definition verificar ::
  "(bytes \<Rightarrow> hash256) \<Rightarrow> 's sistema_ops \<Rightarrow> punto \<Rightarrow> 's \<Rightarrow> fallo + unit" where
  "verificar sha ops p s = verificar_entradas sha ops (p_entradas p) s"

definition bytes_a_restaurar :: "punto \<Rightarrow> u64" where
  "bytes_a_restaurar p =
     sum_list (map c_size (List.map_filter e_respaldo (p_entradas p))) + c_size (p_kernel p)"

definition reserva_efectiva :: "punto \<Rightarrow> u64" where
  "reserva_efectiva p =
     (let datos = bytes_a_restaurar p; cow = datos
      in sat_add (sat_add (sat_add datos cow) RESERVA_LOGS) RESERVA_RECUPERACION)"

definition recogible :: "punto \<Rightarrow> txn_id list \<Rightarrow> bool" where
  "recogible p referencias = (\<not> list_ex (\<lambda>r. r = p_id p) referencias)"

section \<open>Creation\<close>

record 'a almacen_ops =
  leer_sistema :: "'a \<Rightarrow> string \<Rightarrow> bytes option"
  guardar_copia :: "'a \<Rightarrow> txn_id \<Rightarrow> string \<Rightarrow> bytes \<Rightarrow> bool \<times> 'a"
  releer_copia :: "'a \<Rightarrow> txn_id \<Rightarrow> string \<Rightarrow> bytes option"
  guardar_punto :: "'a \<Rightarrow> punto \<Rightarrow> bool \<times> 'a"
  borrar_punto :: "'a \<Rightarrow> txn_id \<Rightarrow> bool \<times> 'a"
  espacio_libre :: "'a \<Rightarrow> u64"

datatype crear_error = CSinEspacio u64 u64 | Copia string | Incompleto string | CRegistro

datatype cambio = Trae string | Retira string

definition cambio_entrada ::
  "(bytes \<Rightarrow> hash256) \<Rightarrow> 'a almacen_ops \<Rightarrow> 'a \<Rightarrow> cambio \<Rightarrow> entrada \<times> (string \<times> bytes) list" where
  "cambio_entrada sha ops a c =
     (let (ruta, retira) = (case c of Trae r \<Rightarrow> (r, False) | Retira r \<Rightarrow> (r, True)) in
      case leer_sistema ops a ruta of
        Some datos \<Rightarrow>
          (\<lparr>e_accion = (if retira then Borrar else Reemplazar), e_progreso = Respaldado, e_path = ruta,
            e_nuevo = None,
            e_respaldo = Some \<lparr>c_size = of_nat (length datos), c_hash = hex_sha256 sha datos\<rparr>\<rparr>,
           [(ruta, datos)])
      | None \<Rightarrow>
          (\<lparr>e_accion = Crear, e_progreso = Respaldado, e_path = ruta, e_nuevo = None,
            e_respaldo = None\<rparr>, []))"

fun guardar_copias ::
  "'a almacen_ops \<Rightarrow> txn_id \<Rightarrow> (string \<times> bytes) list \<Rightarrow> 'a \<Rightarrow> (crear_error + unit) \<times> 'a" where
  "guardar_copias ops i [] a = (Inr (), a)"
| "guardar_copias ops i ((ruta, datos) # cs) a =
     (case guardar_copia ops a i ruta datos of (ok, a') \<Rightarrow>
        if ok then guardar_copias ops i cs a' else (Inl (Copia ruta), a'))"

fun releer_copias ::
  "(bytes \<Rightarrow> hash256) \<Rightarrow> 'a almacen_ops \<Rightarrow> txn_id \<Rightarrow> entrada list \<Rightarrow> 'a \<Rightarrow> crear_error + unit" where
  "releer_copias sha ops i [] a = Inr ()"
| "releer_copias sha ops i (e # es) a =
     (case e_respaldo e of
        None \<Rightarrow> releer_copias sha ops i es a
      | Some resp \<Rightarrow>
          (case releer_copia ops a i (e_path e) of
             None \<Rightarrow> Inl (Incompleto (e_path e))
           | Some leido \<Rightarrow>
               if \<not> contenido_cuadra sha leido resp then Inl (Incompleto (e_path e))
               else releer_copias sha ops i es a))"

definition crear_punto ::
  "(bytes \<Rightarrow> hash256) \<Rightarrow> 'a almacen_ops \<Rightarrow> txn_id \<Rightarrow> string \<Rightarrow> string \<Rightarrow> string \<Rightarrow> contenido \<Rightarrow> cambio list
     \<Rightarrow> 'a \<Rightarrow> (crear_error + punto) \<times> 'a" where
  "crear_punto sha ops i version build guid krn cambios a =
     (let pares = map (cambio_entrada sha ops a) cambios;
          entradas = map fst pares;
          copias = concat (map snd pares);
          p = punto_nuevo i version build guid krn entradas;
          necesita = sum_list (map (\<lambda>(_, d). of_nat (length d)) copias) + reserva_efectiva p;
          libre = espacio_libre ops a in
      if necesita > libre then (Inl (CSinEspacio necesita libre), a)
      else (case guardar_copias ops i copias a of
          (Inl e, a1) \<Rightarrow> (Inl e, a1)
        | (Inr _, a1) \<Rightarrow>
            (case releer_copias sha ops i (p_entradas p) a1 of
               Inl e \<Rightarrow> (Inl e, a1)
             | Inr _ \<Rightarrow> (case guardar_punto ops a1 p of (ok, a2) \<Rightarrow>
                 (if ok then Inr p else Inl CRegistro, a2)))))"

section \<open>Retention\<close>

record retencion =
  ret_activo :: "txn_id option"
  ret_armado :: "txn_id option"

definition referencias :: "retencion \<Rightarrow> txn_id list" where
  "referencias r =
     (let v = (case ret_activo r of None \<Rightarrow> [] | Some a \<Rightarrow> [a])
      in case ret_armado r of None \<Rightarrow> v | Some b \<Rightarrow> if b \<in> set v then v else v @ [b])"

definition al_confirmar :: "retencion \<Rightarrow> bool \<Rightarrow> txn_id list \<times> retencion" where
  "al_confirmar r armado_verificado =
     (case ret_armado r of
        None \<Rightarrow> ([], r)
      | Some nuevo \<Rightarrow>
          if \<not> armado_verificado then ([], r)
          else
            let anterior = ret_activo r; r' = r\<lparr>ret_armado := None, ret_activo := Some nuevo\<rparr>
            in (case anterior of Some a \<Rightarrow> if a \<noteq> nuevo then ([a], r') else ([], r') | None \<Rightarrow> ([], r')))"

definition al_revertir :: "retencion \<Rightarrow> txn_id list \<times> retencion" where
  "al_revertir r =
     (case ret_armado r of
        Some b \<Rightarrow> (if Some b \<noteq> ret_activo r then [b] else [], r\<lparr>ret_armado := None\<rparr>)
      | None \<Rightarrow> ([], r))"

definition a_recoger :: "txn_id list \<Rightarrow> txn_id list \<Rightarrow> txn_id list" where
  "a_recoger todos refs = (if refs = [] then [] else filter (\<lambda>p. p \<notin> set refs) todos)"

definition candidata_fallida :: "decision \<Rightarrow> string \<Rightarrow> string \<Rightarrow> bool" where
  "candidata_fallida d version_registro version =
     (d \<in> {DRevertido, DRescatar, DRestauradoAPrueba} \<and> version \<noteq> [] \<and> version_registro = version)"

section \<open>Verification and restoration\<close>

lemma verificar_entradas_iff:
  "verificar_entradas sha ops es s = Inr () \<longleftrightarrow>
     (\<forall>e \<in> set es. \<forall>c. e_respaldo e = Some c \<longrightarrow>
        (\<exists>d. s_leer ops s DeRespaldo (e_path e) = Some d \<and> contenido_cuadra sha d c))"
  by (induction es) (auto split: option.splits)

text \<open>A point in which only what the new version added lacks a copy.\<close>

definition punto_completo :: "entrada list \<Rightarrow> bool" where
  "punto_completo es = list_all (\<lambda>e. e_respaldo e = None \<longrightarrow> e_accion e = Crear) es"

lemma verificar_material:
  assumes "verificar_entradas sha ops es s = Inr ()" "punto_completo es"
  shows "\<forall>e \<in> set es. material_viejo sha (s_leer ops s DeRespaldo) e"
  using assms by (fastforce simp: verificar_entradas_iff punto_completo_def list_all_iff material_viejo_def
      split: option.splits)

lemma releer_copias_iff:
  "releer_copias sha ops i es a = Inr () \<longleftrightarrow>
     (\<forall>e \<in> set es. \<forall>c. e_respaldo e = Some c \<longrightarrow>
        (\<exists>d. releer_copia ops a i (e_path e) = Some d \<and> contenido_cuadra sha d c))"
  by (induction es) (auto split: option.splits)

lemma cambio_entrada_completa:
  "e = fst (cambio_entrada sha ops a c) \<Longrightarrow>
     e_path e = (case c of Trae r \<Rightarrow> r | Retira r \<Rightarrow> r) \<and>
     (e_accion e = Crear \<longleftrightarrow> leer_sistema ops a (e_path e) = None) \<and>
     e_respaldo e = map_option (\<lambda>d. \<lparr>c_size = of_nat (length d), c_hash = hex_sha256 sha d\<rparr>)
       (leer_sistema ops a (e_path e))"
  by (auto simp: cambio_entrada_def Let_def split: cambio.splits option.splits)

section \<open>Round trip of the record\<close>

lemma punto_accion_parse_str [simp]: "punto_accion_parse (punto_accion_str a) = Some a"
  by (cases a) (simp_all add: punto_accion_parse_def)

lemma punto_accion_texto: "texto_ok (punto_accion_str a)" "CHR '' '' \<notin> set (punto_accion_str a)"
  by (cases a; simp add: texto_ok_Cons byte_in_def)+

definition punto_contenido_ok :: "contenido \<Rightarrow> bool" where
  "punto_contenido_ok c = (contenido_bien c \<or> c_hash c = [] \<and> c_size c = 0)"

definition punto_entrada_ok :: "entrada \<Rightarrow> bool" where
  "punto_entrada_ok e =
     (e_progreso e = Respaldado \<and> e_nuevo e = None \<and> contenido_ok (e_respaldo e) \<and> path_ok (e_path e))"

definition punto_ok :: "punto \<Rightarrow> bool" where
  "punto_ok p =
     (length (p_id p) = 32 \<and> version_ok (p_version p) \<and> version_ok (p_build p)
      \<and> version_ok (p_guid_destino p) \<and> punto_contenido_ok (p_kernel p)
      \<and> list_all punto_entrada_ok (p_entradas p) \<and> p_formato p = PUNTO_FORMATO)"

lemma punto_contenido_fmt_bien:
  "contenido_bien c \<Longrightarrow> punto_contenido_fmt c = contenido_fmt (Some c)"
  by (auto simp: contenido_bien_def punto_contenido_fmt_def contenido_fmt_def)

lemma trim_id: "s \<noteq> [] \<Longrightarrow> hd s \<notin> ws_byte \<Longrightarrow> last s \<notin> ws_byte \<Longrightarrow> trim s = s"
proof -
  assume s: "s \<noteq> []" "hd s \<notin> ws_byte" "last s \<notin> ws_byte"
  then have "hd s \<notin> ws_head" using ws_head_byte by blast
  then have "trim_start s = s" using s(1) trim_start_Cons [of "hd s" "tl s"] by simp
  then show ?thesis using s by (simp add: trim_def trim_end_last)
qed

lemma punto_contenido_parse_bien:
  assumes "contenido_bien c"
  shows "punto_contenido_parse (show_word (c_size c) @ CHR '' '' # c_hash c) = Inr c"
proof -
  define s where "s = show_word (c_size c) @ CHR '' '' # c_hash c"
  have h: "length (c_hash c) = 64" "list_all is_ascii_hexdigit (c_hash c)"
    using assms by (auto simp: contenido_bien_def)
  then have ne: "c_hash c \<noteq> []" by auto
  have "last (c_hash c) \<notin> ws_byte" "hd (c_hash c) \<notin> ws_byte"
    using h(2) ne is_ascii_hexdigit_ws by (auto simp: list_all_iff)
  moreover have d: "is_ascii_digit (hd (show_word (c_size c)))"
    using show_word_digits [of "c_size c"] by (simp add: list_all_iff)
  ultimately have t: "trim s = s" "trim (c_hash c) = c_hash c"
    using ne is_ascii_digit_ws by (auto intro!: trim_id simp: s_def)
  have "hd s \<noteq> CHR ''-''" using d by (auto simp: s_def is_ascii_digit_def)
  then have nd: "s \<noteq> ''- -''" "s \<noteq> ''-''" by auto
  have "CHR '' '' \<notin> set (show_word (c_size c))"
    using show_word_digits [of "c_size c"] by (auto simp: list_all_iff is_ascii_digit_def)
  then have "split_once CHR '' '' s = Some (show_word (c_size c), c_hash c)"
    unfolding s_def by (rule split_once_append)
  then show ?thesis using t nd by (simp add: punto_contenido_parse_def Let_def s_def [symmetric])
qed

lemma punto_contenido_parse_fmt:
  assumes "punto_contenido_ok c"
  shows "punto_contenido_parse (punto_contenido_fmt c) = Inr c"
  using assms unfolding punto_contenido_ok_def
proof (elim disjE)
  assume "contenido_bien c"
  then show ?thesis
    using punto_contenido_parse_bien [of c] by (simp add: punto_contenido_fmt_bien contenido_fmt_def)
next
  assume "c_hash c = [] \<and> c_size c = 0"
  moreover have "trim ''- -'' = ''- -''" by code_simp
  ultimately show ?thesis
    by (simp add: punto_contenido_fmt_def punto_contenido_parse_def Let_def)
qed

lemma punto_entrada_fmt_ok:
  "contenido_ok (e_respaldo e) \<Longrightarrow> punto_entrada_fmt e =
     ''p '' @ punto_accion_str (e_accion e) @ '' '' @ contenido_fmt (e_respaldo e) @ '' '' @ e_path e"
  by (cases "e_respaldo e")
    (simp_all add: punto_entrada_fmt_def contenido_ok_def punto_contenido_fmt_bien, simp add: contenido_fmt_def)

lemma contenido_parse_guion: "contenido_parse s h = Inr c \<Longrightarrow> s = ''-'' \<longleftrightarrow> c = None"
  by (auto simp: contenido_parse_def parse_word_def parse_uint_def is_ascii_digit_def split: if_splits option.splits)

lemma punto_entrada_linea:
  assumes "punto_entrada_ok e"
  shows "linea_ok (punto_entrada_fmt e)"
proof -
  have co: "contenido_ok (e_respaldo e)" using assms by (simp add: punto_entrada_ok_def)
  then obtain s h x where r: "contenido_fmt (e_respaldo e) = s @ CHR '' '' # h @ [x]" "x \<notin> ws_byte"
    using contenido_partes by metis
  define a where "a = ''p '' @ punto_accion_str (e_accion e) @ '' '' @ s @ CHR '' '' # h"
  have fmt: "punto_entrada_fmt e = a @ x # CHR '' '' # e_path e"
    by (simp add: punto_entrada_fmt_ok co a_def r)
  have "trim (punto_entrada_fmt e) = punto_entrada_fmt e"
    unfolding fmt
  proof (subst trim_barrier)
    have "CHR ''p'' \<notin> ws_byte" by (rule ws_byte_ascii) simp_all
    then show "hd a \<notin> ws_head" using ws_head_byte by (auto simp: a_def)
  qed (use r assms in \<open>simp_all add: a_def punto_entrada_ok_def path_ok_def\<close>)
  moreover have "texto_ok (punto_entrada_fmt e)"
    using assms co unfolding punto_entrada_fmt_ok [OF co]
    by (simp add: texto_ok_append texto_ok_Cons byte_in_def punto_accion_texto contenido_fmt_texto
        punto_entrada_ok_def path_ok_def)
  ultimately show ?thesis by (simp add: linea_ok_def punto_entrada_fmt_def)
qed

lemma punto_entrada_parse_fmt:
  assumes "punto_entrada_ok e"
  shows "punto_entrada_parse (punto_entrada_fmt e) = Inr e"
proof -
  have co: "contenido_ok (e_respaldo e)" using assms by (simp add: punto_entrada_ok_def)
  obtain rs rh rx where r: "contenido_fmt (e_respaldo e) = rs @ CHR '' '' # rh @ [rx]"
      "CHR '' '' \<notin> set rs" "CHR '' '' \<notin> set (rh @ [rx])"
      "contenido_parse rs (rh @ [rx]) = Inr (e_respaldo e)"
    using co by (rule contenido_partes)
  have "punto_entrada_fmt e = ''p'' @ CHR '' '' # punto_accion_str (e_accion e) @ CHR '' '' #
      rs @ CHR '' '' # (rh @ [rx]) @ CHR '' '' # e_path e"
    by (simp add: punto_entrada_fmt_ok co r)
  moreover have "(5 :: nat) = Suc (Suc (Suc (Suc (Suc 0))))" by simp
  moreover have "CHR '' '' \<notin> set ''p''" by simp
  ultimately have sp: "splitn 5 CHR '' '' (punto_entrada_fmt e) =
      [''p'', punto_accion_str (e_accion e), rs, rh @ [rx], e_path e]"
    using r(2,3) punto_accion_texto(2)
    by (simp only: splitn_Suc_append splitn.simps(2) simp_thms)
  note g = contenido_parse_guion [OF r(4)]
  show ?thesis
  proof (cases "e_respaldo e")
    case None
    then show ?thesis using assms g sp by (auto simp: punto_entrada_parse_def punto_entrada_ok_def)
  next
    case (Some c)
    then have "punto_contenido_parse (rs @ CHR '' '' # rh @ [rx]) = Inr c"
      using punto_contenido_parse_bien [of c] co r(1) by (simp add: contenido_ok_def contenido_fmt_def)
    then show ?thesis using assms g sp Some by (simp add: punto_entrada_parse_def punto_entrada_ok_def)
  qed
qed

definition punto_lineas :: "punto \<Rightarrow> string list" where
  "punto_lineas p =
     [''id='' @ to_hex (p_id p), ''version='' @ p_version p, ''build='' @ p_build p,
      ''guid='' @ p_guid_destino p, ''kernel='' @ punto_contenido_fmt (p_kernel p)] @
     map punto_entrada_fmt (p_entradas p)"

lemma punto_body_lineas: "punto_body p = unlines (punto_lineas p)"
  by (simp add: punto_body_def punto_lineas_def unlines_def comp_def)

lemma punto_contenido_texto:
  assumes "punto_contenido_ok c"
  shows "texto_ok (punto_contenido_fmt c)" "trim_end (punto_contenido_fmt c) = punto_contenido_fmt c"
proof -
  have "contenido_fmt (if c_hash c = [] then None else Some c) = punto_contenido_fmt c"
    and "contenido_ok (if c_hash c = [] then None else Some c)"
    using assms by (auto simp: punto_contenido_ok_def punto_contenido_fmt_def contenido_fmt_def
        contenido_ok_def contenido_bien_def)
  then show "texto_ok (punto_contenido_fmt c)" "trim_end (punto_contenido_fmt c) = punto_contenido_fmt c"
    using contenido_fmt_texto trim_end_contenido by metis+
qed

lemma punto_lineas_ok:
  assumes "punto_ok p"
  shows "list_all linea_ok (punto_lineas p)"
proof -
  note kv = kv_linea [where k = "''d''"] kv_linea [where k = "''ersion''"]
    kv_linea [where k = "''uild''"] kv_linea [where k = "''uid''"] kv_linea [where k = "''ernel''"]
  have "list_all linea_ok (map punto_entrada_fmt (p_entradas p))"
    using assms by (auto simp: punto_ok_def list_all_iff punto_entrada_linea)
  then show ?thesis
    using assms unfolding punto_lineas_def punto_ok_def version_ok_def
    by (simp add: kv [simplified] texto_ok_Cons byte_in_def hex_texto to_hex_lower trim_end_hex
        punto_contenido_texto)
qed

lemma punto_entradas_parse_fmt:
  "list_all punto_entrada_ok es \<Longrightarrow> punto_entradas_parse (map punto_entrada_fmt es) = Inr es"
  by (induction es) (simp_all add: punto_entrada_parse_fmt)

lemma magic_punto: "magic_ok PUNTO_MAGIC"
proof -
  have "trim PUNTO_MAGIC = PUNTO_MAGIC" unfolding PUNTO_MAGIC_def by code_simp
  then show ?thesis by (simp add: magic_ok_def PUNTO_MAGIC_def texto_ok_Cons byte_in_def)
qed

lemma punto_parse_format:
  assumes ok: "punto_ok p"
  shows "punto_parse crc (punto_format crc p) = Inr p"
proof -
  define f where "f = \<lparr>fr_formato = PUNTO_FORMATO, fr_seq = p_seq p, fr_body = punto_body p\<rparr>"
  have ls: "list_all linea_ok (punto_lineas p)" using ok by (rule punto_lineas_ok)
  have rp: "record_parse crc PUNTO_MAGIC PUNTO_FORMATO (punto_format crc p) = Inr f"
    using magic_punto record_parse_frame [OF _ ls, where n = 0 and magic = PUNTO_MAGIC]
    by (simp add: punto_format_def punto_body_lineas PUNTO_FORMATO_def f_def)
  have "tlines (fr_body f) = map trim (punto_lineas p)"
    using ls by (simp add: f_def punto_body_lineas tlines_unlines list_all_iff linea_ok_def texto_ok_def)
  then have t: "tlines (fr_body f) = punto_lineas p"
    using ls by (simp add: list_all_iff linea_ok_def map_idI)
  have "requerido f ''id'' = Inr (to_hex (p_id p))" "requerido f ''version'' = Inr (p_version p)"
    "requerido f ''build'' = Inr (p_build p)" "requerido f ''guid'' = Inr (p_guid_destino p)"
    "requerido f ''kernel'' = Inr (punto_contenido_fmt (p_kernel p))"
    by (simp_all add: requerido_def campo_def t punto_lineas_def)
  moreover have "lineas f ''p '' = map punto_entrada_fmt (p_entradas p)"
    by (simp add: lineas_def t punto_lineas_def filter_map comp_def punto_entrada_fmt_def)
  moreover have "fr_seq f = p_seq p" "fr_formato f = p_formato p" using ok by (simp_all add: f_def punto_ok_def)
  ultimately have "punto_de_framed f = Inr p"
    using ok by (simp add: punto_de_framed_def punto_entradas_parse_fmt punto_contenido_parse_fmt punto_ok_def)
  then show ?thesis by (simp add: punto_parse_def rp)
qed

section \<open>Creation and retention\<close>

lemma crear_punto_Inr:
  assumes "crear_punto sha ops i version build guid krn cambios a = (Inr p, a')"
  obtains a1 where
    "guardar_punto ops a1 p = (True, a')"
    "p = punto_nuevo i version build guid krn (map (\<lambda>c. fst (cambio_entrada sha ops a c)) cambios)"
    "\<forall>e \<in> set (p_entradas p). \<forall>c. e_respaldo e = Some c \<longrightarrow>
        (\<exists>d. releer_copia ops a1 i (e_path e) = Some d \<and> contenido_cuadra sha d c)"
proof -
  define pares where "pares = map (cambio_entrada sha ops a) cambios"
  define q where "q = punto_nuevo i version build guid krn (map fst pares)"
  obtain a1 where g: "guardar_copias ops i (concat (map snd pares)) a = (Inr (), a1)"
    and r: "releer_copias sha ops i (p_entradas q) a1 = Inr ()" and f: "guardar_punto ops a1 q = (True, a')" "q = p"
    using assms unfolding crear_punto_def Let_def pares_def [symmetric] q_def [symmetric]
    by (auto split: if_splits prod.splits sum.splits)
  have "p = punto_nuevo i version build guid krn (map (\<lambda>c. fst (cambio_entrada sha ops a c)) cambios)"
    using f(2) by (simp add: q_def pares_def comp_def)
  then show ?thesis using that f r by (auto simp: releer_copias_iff)
qed

lemma referencias_set:
  "set (referencias r) = set_option (ret_activo r) \<union> set_option (ret_armado r)"
  by (auto simp: referencias_def Let_def split: option.splits)

lemma al_confirmar_reparto:
  assumes "al_confirmar r v = (libres, r')"
  shows "set libres \<inter> set (referencias r') = {}"
    and "set libres \<union> set (referencias r') = set (referencias r)"
    and "referencias r \<noteq> [] \<Longrightarrow> referencias r' \<noteq> []"
    and "libres \<noteq> [] \<Longrightarrow> v \<and> ret_activo r' = ret_armado r"
proof -
  note d = assms [unfolded al_confirmar_def Let_def] 
  show "set libres \<inter> set (referencias r') = {}" "libres \<noteq> [] \<Longrightarrow> v \<and> ret_activo r' = ret_armado r"
    using d by (auto simp: referencias_set split: option.splits if_splits)
  show u: "set libres \<union> set (referencias r') = set (referencias r)"
    using d by (auto simp: referencias_set split: option.splits if_splits)
  show "referencias r \<noteq> [] \<Longrightarrow> referencias r' \<noteq> []"
    using d by (auto simp: referencias_def Let_def split: option.splits if_splits)
qed

lemma al_revertir_reparto:
  assumes "al_revertir r = (libres, r')"
  shows "set libres \<inter> set (referencias r') = {}"
    and "set libres \<union> set (referencias r') = set (referencias r)"
    and "ret_activo r' = ret_activo r"
  using assms by (auto simp: al_revertir_def referencias_set split: option.splits if_splits)

section \<open>Properties\<close>

text \<open>\<open>Punto::format\<close> and \<open>Punto::parse\<close>: a restore point reads back as it was written.\<close>

theorem punto_ida_y_vuelta:
  assumes "punto_ok p"
  shows "punto_parse crc (punto_format crc p) = Inr p"
  using assms by (rule punto_parse_format)

theorem punto_ida_y_vuelta_witness:
  "punto_parse (\<lambda>_. 0) (punto_format (\<lambda>_. 0) (punto_nuevo (replicate 32 0) ''1.0'' ''1.0'' ''1.0'' \<lparr>c_size = 0, c_hash = []\<rparr> [])) =
     Inr (punto_nuevo (replicate 32 0) ''1.0'' ''1.0'' ''1.0'' \<lparr>c_size = 0, c_hash = []\<rparr> [])"
proof (rule punto_ida_y_vuelta)
  have "version_ok ''1.0''" by code_simp
  then show "punto_ok (punto_nuevo (replicate 32 0) ''1.0'' ''1.0'' ''1.0'' \<lparr>c_size = 0, c_hash = []\<rparr> [])"
    by (simp add: punto_ok_def punto_nuevo_def punto_contenido_ok_def)
qed

text \<open>\<open>crear_punto\<close>: a point is returned only after it was stored; it has one entry per change, in order;
  what existed carries the size and hash of what the system held and a copy that was read back and
  matches; and only what did not exist lacks a copy, so the point can be restored entirely.\<close>

theorem crear_punto_completo:
  assumes "crear_punto sha ops i version build guid krn cambios a = (Inr p, a')"
  shows "\<exists>a1. guardar_punto ops a1 p = (True, a') \<and>
    map e_path (p_entradas p) = map (\<lambda>c. case c of Trae r \<Rightarrow> r | Retira r \<Rightarrow> r) cambios \<and>
    punto_completo (p_entradas p) \<and>
    (\<forall>e \<in> set (p_entradas p). e_respaldo e =
       map_option (\<lambda>d. \<lparr>c_size = of_nat (length d), c_hash = hex_sha256 sha d\<rparr>) (leer_sistema ops a (e_path e))) \<and>
    (\<forall>e \<in> set (p_entradas p). \<forall>c. e_respaldo e = Some c \<longrightarrow>
       (\<exists>d. releer_copia ops a1 i (e_path e) = Some d \<and> contenido_cuadra sha d c))"
proof -
  obtain a1 where a1: "guardar_punto ops a1 p = (True, a')"
    "p = punto_nuevo i version build guid krn (map (\<lambda>c. fst (cambio_entrada sha ops a c)) cambios)"
    "\<forall>e \<in> set (p_entradas p). \<forall>c. e_respaldo e = Some c \<longrightarrow>
       (\<exists>d. releer_copia ops a1 i (e_path e) = Some d \<and> contenido_cuadra sha d c)"
    using assms by (rule crear_punto_Inr)
  have es: "p_entradas p = map (\<lambda>c. fst (cambio_entrada sha ops a c)) cambios" by (simp add: a1(2) punto_nuevo_def)
  have "map e_path (p_entradas p) = map (\<lambda>c. case c of Trae r \<Rightarrow> r | Retira r \<Rightarrow> r) cambios"
    unfolding es using cambio_entrada_completa [OF refl, of sha ops a] by simp
  moreover have "punto_completo (p_entradas p)"
    unfolding es punto_completo_def using cambio_entrada_completa [OF refl, of sha ops a] by (auto simp: list_all_iff)
  moreover have "\<forall>e \<in> set (p_entradas p). e_respaldo e =
       map_option (\<lambda>d. \<lparr>c_size = of_nat (length d), c_hash = hex_sha256 sha d\<rparr>) (leer_sistema ops a (e_path e))"
    unfolding es using cambio_entrada_completa [OF refl, of sha ops a] by auto
  ultimately show ?thesis using a1(1,3) by blast
qed

definition almacen_muestra :: "(string \<times> bytes) list almacen_ops" where
  "almacen_muestra =
     \<lparr>leer_sistema = (\<lambda>a r. if r = ''bin/a'' then Some ''x'' else None),
      guardar_copia = (\<lambda>a i r d. (True, (r, d) # a)), releer_copia = (\<lambda>a i r. map_of a r),
      guardar_punto = (\<lambda>a p. (True, a)), borrar_punto = (\<lambda>a i. (True, a)), espacio_libre = (\<lambda>a. 2 ^ 40)\<rparr>"

theorem crear_punto_completo_witness:
  "\<exists>p a. crear_punto (\<lambda>_. replicate 32 0) almacen_muestra [] ''1'' ''b'' ''g'' \<lparr>c_size = 9, c_hash = []\<rparr>
       [Trae ''bin/a'', Retira ''bin/b''] [] = (Inr p, a) \<and> map e_path (p_entradas p) = [''bin/a'', ''bin/b''] \<and>
     punto_completo (p_entradas p)"
proof -
  obtain x a where r: "crear_punto (\<lambda>_. replicate 32 0) almacen_muestra [] ''1'' ''b'' ''g'' \<lparr>c_size = 9, c_hash = []\<rparr>
      [Trae ''bin/a'', Retira ''bin/b''] [] = (x, a)" by (metis surj_pair)
  moreover from r obtain p where "x = Inr p"
    by (auto simp: crear_punto_def almacen_muestra_def cambio_entrada_def Let_def punto_nuevo_def contenido_cuadra_def
        reserva_efectiva_def bytes_a_restaurar_def List.map_filter_def sat_add_def RESERVA_LOGS_def RESERVA_RECUPERACION_def)
  ultimately show ?thesis
    using crear_punto_completo [of "\<lambda>_. replicate 32 0" almacen_muestra "[]" "''1''" "''b''" "''g''" "\<lparr>c_size = 9, c_hash = []\<rparr>"
        "[Trae ''bin/a'', Retira ''bin/b'']" "[]" p a]
    by auto
qed

text \<open>C29 (retention): confirming or reverting an operation frees no point that is still referenced and loses
  none; confirming frees the previous point only when the new one was verified and takes its place;
  reverting keeps the active one; and the collector takes nothing that is referenced, and nothing at
  all when no reference is known.\<close>

theorem retencion_segura:
  assumes "al_confirmar r v = (libres, r')" "al_revertir r = (sueltos, r2)"
  shows "set libres \<inter> set (referencias r') = {} \<and> set libres \<union> set (referencias r') = set (referencias r) \<and>
    (referencias r \<noteq> [] \<longrightarrow> referencias r' \<noteq> []) \<and> (libres \<noteq> [] \<longrightarrow> v \<and> ret_activo r' = ret_armado r) \<and>
    set sueltos \<inter> set (referencias r2) = {} \<and> set sueltos \<union> set (referencias r2) = set (referencias r) \<and>
    ret_activo r2 = ret_activo r \<and>
    set (a_recoger todos (referencias r)) \<inter> set (referencias r) = {} \<and>
    (referencias r = [] \<longrightarrow> a_recoger todos (referencias r) = [])"
  using al_confirmar_reparto [OF assms(1)] al_revertir_reparto [OF assms(2)] by (auto simp: a_recoger_def)

theorem retencion_segura_witness:
  "set (a_recoger [[1], [2], [3]] (referencias \<lparr>ret_activo = Some [1], ret_armado = Some [2]\<rparr>)) \<inter>
     set (referencias \<lparr>ret_activo = Some [1], ret_armado = Some [2]\<rparr>) = {}"
  using retencion_segura [OF surjective_pairing [of "al_confirmar \<lparr>ret_activo = Some [1], ret_armado = Some [2]\<rparr> True"]
      surjective_pairing [of "al_revertir \<lparr>ret_activo = Some [1], ret_armado = Some [2]\<rparr>"], of "[[1], [2], [3]]"]
  by simp

end
