(* ===== verification/Recuperador.thy ===== *)
theory Recuperador
  imports Reconcilia Aplicador Punto
begin

text \<open>
  \<open>kernel/src/drivers/txnaplica.rs\<close>: the early recoverer, which composes the decision of
  \<open>reconcile\<close> with the applier over the kernel's file system and the ESP.

  What lies below is represented by the state \<open>maquina\<close>: the regular files of sosofs by absolute
  path (directories are implicit, so the creation of missing parents has no counterpart), the
  bytes of \<open>SOSOTXN.BIN\<close>, and the power left.  Every durable change spends one unit of
  \<open>m_energia\<close>; the change that spends the last one is cut: a file write reaches the medium only up
  to \<open>m_corte\<close> bytes, and so does a sector of the ESP.  A machine without power changes nothing.  An
  operation of the file system fails only for lack of power: neither a full disk nor an error of the medium is
  represented.  \<open>m_base\<close> is the listing of the update area and \<open>m_arbol\<close> the paths below it in the order in which a
  walk that removes directories from the inside out finds them.
\<close>

definition DIR_BASE :: string where "DIR_BASE = ''/var/lib/soso-update''"
definition SECTOR :: nat where "SECTOR = 512"

record maquina =
  m_montado :: bool
  m_ficheros :: "string \<Rightarrow> bytes option"
  m_base :: "string list option"
  m_esp :: "bytes option"
  m_esp_legible :: bool
  m_cerrojo :: bool
  m_energia :: nat
  m_corte :: nat
  m_arbol :: "string list"

definition vfs_unlink :: "maquina \<Rightarrow> string \<Rightarrow> maquina" where
  "vfs_unlink m ruta =
     (if m_energia m = 0 then m
      else m\<lparr>m_ficheros := (m_ficheros m)(ruta := None), m_energia := m_energia m - 1\<rparr>)"

definition vfs_create_file :: "maquina \<Rightarrow> string \<Rightarrow> bytes \<Rightarrow> bool \<times> maquina" where
  "vfs_create_file m ruta datos =
     (if m_energia m = 0 then (False, m)
      else if m_energia m = 1
        then (False, m\<lparr>m_ficheros := (m_ficheros m)(ruta := Some (take (m_corte m) datos)), m_energia := 0\<rparr>)
      else (True, m\<lparr>m_ficheros := (m_ficheros m)(ruta := Some datos), m_energia := m_energia m - 1\<rparr>))"

definition esp_escribir :: "maquina \<Rightarrow> nat \<Rightarrow> bytes \<Rightarrow> maquina" where
  "esp_escribir m off trozo =
     (case m_esp m of
        None \<Rightarrow> m
      | Some buf \<Rightarrow>
          if m_energia m = 0 then m
          else
            let llega = (if m_energia m = 1 then take (m_corte m) trozo else trozo)
            in m\<lparr>m_esp := Some (take off buf @ llega @ drop (off + length llega) buf),
                 m_energia := m_energia m - 1\<rparr>)"

section \<open>The recoverer\<close>

definition split_padre :: "string \<Rightarrow> (string \<times> string) option" where
  "split_padre path =
     (if CHR ''/'' \<notin> set path then None
      else
        let nombre = rev (takeWhile (\<lambda>c. c \<noteq> CHR ''/'') (rev path));
            i = length path - length nombre - 1
        in if nombre = [] then None
           else Some (if i = 0 then ''/'' else take i path, nombre))"

definition unir :: "string \<Rightarrow> string \<Rightarrow> string" where
  "unir dir nombre = (if dir = ''/'' then ''/'' @ nombre else dir @ ''/'' @ nombre)"

definition vfs_ruta :: "string \<Rightarrow> de \<Rightarrow> string \<Rightarrow> string" where
  "vfs_ruta dir d rel =
     (case d of
        DePreparado \<Rightarrow> DIR_BASE @ ''/'' @ dir @ ''/etapa/'' @ rel
      | DeRespaldo \<Rightarrow> DIR_BASE @ ''/'' @ dir @ ''/respaldo/'' @ rel)"

definition vfs_escribir :: "maquina \<Rightarrow> string \<Rightarrow> bytes \<Rightarrow> bool \<times> maquina" where
  "vfs_escribir m rel datos =
     (case split_padre (''/'' @ rel) of
        None \<Rightarrow> (False, m)
      | Some (padre, nombre) \<Rightarrow>
          vfs_create_file (vfs_unlink m (unir padre nombre)) (unir padre nombre) datos)"

definition vfs_borrar :: "maquina \<Rightarrow> string \<Rightarrow> bool \<times> maquina" where
  "vfs_borrar m rel =
     (case split_padre (''/'' @ rel) of
        None \<Rightarrow> (True, m)
      | Some (padre, nombre) \<Rightarrow> (True, vfs_unlink m (unir padre nombre)))"

definition copias :: "string \<Rightarrow> string \<times> string" where
  "copias dir = (DIR_BASE @ ''/'' @ dir @ ''/diario.0'', DIR_BASE @ ''/'' @ dir @ ''/diario.1'')"

definition leer_copia :: "maquina \<Rightarrow> string \<Rightarrow> bytes" where
  "leer_copia m p = (case m_ficheros m p of None \<Rightarrow> [] | Some d \<Rightarrow> d)"

definition leer_diario :: "(bytes \<Rightarrow> u32) \<Rightarrow> string \<Rightarrow> maquina \<Rightarrow> estado_journal" where
  "leer_diario crc dir m =
     (let (a, b) = copias dir; da = leer_copia m a; db = leer_copia m b in
      if da = [] \<and> db = [] then JAusente
      else case journal_pick crc [da, db] of Inr j \<Rightarrow> JDiario j | Inl _ \<Rightarrow> JRoto)"

definition escribir_diario :: "(bytes \<Rightarrow> u32) \<Rightarrow> string \<Rightarrow> maquina \<Rightarrow> journal \<Rightarrow> bool \<times> maquina" where
  "escribir_diario crc dir m j =
     (let (a, b) = copias dir; destino = (if j_seq j mod 2 = 0 then a else b) in
      case split_padre destino of
        None \<Rightarrow> (False, m)
      | Some (padre, nombre) \<Rightarrow>
          vfs_create_file (vfs_unlink m (unir padre nombre)) (unir padre nombre) (journal_format crc j))"

definition vfs_sistema :: "(bytes \<Rightarrow> u32) \<Rightarrow> string \<Rightarrow> maquina sistema_ops" where
  "vfs_sistema crc dir =
     \<lparr>s_leer = (\<lambda>m d rel. m_ficheros m (vfs_ruta dir d rel)),
      s_escribir = vfs_escribir,
      s_borrar = vfs_borrar,
      s_guardar_diario = escribir_diario crc dir\<rparr>"

definition leer_bootrec :: "(bytes \<Rightarrow> u32) \<Rightarrow> maquina \<Rightarrow> estado_esp" where
  "leer_bootrec crc m =
     (case m_esp m of
        None \<Rightarrow> EspAusente
      | Some buf \<Rightarrow>
          if \<not> m_esp_legible m then EspRoto
          else case bootrec_pick crc buf of
              Inr r \<Rightarrow> EspRegistro r
            | Inl e \<Rightarrow> if e = BRegistro Vacia then EspAusente else EspRoto)"

fun escribir_sectores :: "maquina \<Rightarrow> nat \<Rightarrow> bytes list \<Rightarrow> maquina" where
  "escribir_sectores m off [] = m"
| "escribir_sectores m off (t # ts) = escribir_sectores (esp_escribir m off t) (off + SECTOR) ts"

definition publicar :: "(bytes \<Rightarrow> u32) \<Rightarrow> estado_esp \<Rightarrow> decision \<Rightarrow> txn_id \<Rightarrow> maquina \<Rightarrow> maquina" where
  "publicar crc esp d i m =
     (case esp of
        EspRegistro actual \<Rightarrow>
          let nuevo = actual\<lparr>b_decision := d, b_id := i, b_seq := b_seq actual + 1\<rparr>
          in (case bootrec_format crc nuevo of
                Inl _ \<Rightarrow> m
              | Inr bs \<Rightarrow> escribir_sectores m (bootrec_ranura nuevo * SLOT_SIZE) (chunks SECTOR bs))
      | _ \<Rightarrow> m)"

definition buscar_dir_unico :: "maquina \<Rightarrow> string option" where
  "buscar_dir_unico m =
     (case m_base m of
        None \<Rightarrow> None
      | Some nombres \<Rightarrow>
          (case filter (\<lambda>n. n \<noteq> ''.'' \<and> n \<noteq> ''..'') nombres of [n] \<Rightarrow> Some n | _ \<Rightarrow> None))"

definition ejecutar ::
  "(bytes \<Rightarrow> u32) \<Rightarrow> (bytes \<Rightarrow> hash256) \<Rightarrow> string \<Rightarrow> estado_journal \<Rightarrow> bool \<Rightarrow> maquina \<Rightarrow> bool \<times> maquina" where
  "ejecutar crc sha dir diario apl m =
     (case diario of
        JDiario j \<Rightarrow>
          (case (if apl then aplicar sha (vfs_sistema crc dir) j m
                 else revertir sha (vfs_sistema crc dir) j m) of
             (r, _, m') \<Rightarrow> (is_ok r, m'))
      | _ \<Rightarrow> (False, m))"

definition tomar_por_el_kernel :: "maquina \<Rightarrow> maquina" where
  "tomar_por_el_kernel m = m\<lparr>m_cerrojo := True\<rparr>"

definition liberar_del_kernel :: "maquina \<Rightarrow> maquina" where
  "liberar_del_kernel m = m\<lparr>m_cerrojo := False\<rparr>"

definition cerrar_tras_rescate ::
  "(bytes \<Rightarrow> u32) \<Rightarrow> estado_journal \<Rightarrow> string \<Rightarrow> maquina \<Rightarrow> bool \<times> maquina" where
  "cerrar_tras_rescate crc diario dir_op m =
     (case diario of
        JDiario j \<Rightarrow>
          (case cerrar_diario j of (cambio, k) \<Rightarrow>
             if cambio then escribir_diario crc dir_op m k else (True, m))
      | _ \<Rightarrow> (True, m))"

definition rescatar ::
  "(bytes \<Rightarrow> u32) \<Rightarrow> (bytes \<Rightarrow> hash256) \<Rightarrow> estado_esp \<Rightarrow> txn_id \<Rightarrow> estado_journal \<Rightarrow> string \<Rightarrow> maquina
     \<Rightarrow> bool \<times> maquina" where
  "rescatar crc sha esp punto diario dir_op m =
     (let dir = txn_dir punto; sis = vfs_sistema crc dir in
      case m_ficheros m (DIR_BASE @ ''/'' @ dir @ ''/punto.rec'') of
        None \<Rightarrow> (False, m)
      | Some datos \<Rightarrow>
          (case punto_parse crc datos of
             Inl _ \<Rightarrow> (False, m)
           | Inr p \<Rightarrow>
               (case verificar sha sis p m of
                  Inl _ \<Rightarrow> (False, m)
                | Inr _ \<Rightarrow>
                    (case restaurar sha sis (p_entradas p) m of
                       (Inl _, m1) \<Rightarrow> (False, m1)
                     | (Inr _, m1) \<Rightarrow>
                         (case cerrar_tras_rescate crc diario dir_op m1 of (ok, m2) \<Rightarrow>
                            if \<not> ok then (False, m2)
                            else (True, tomar_por_el_kernel (publicar crc esp DRestauradoAPrueba punto m2)))))))"

definition recuperar :: "(bytes \<Rightarrow> u32) \<Rightarrow> (bytes \<Rightarrow> hash256) \<Rightarrow> maquina \<Rightarrow> bool \<times> maquina" where
  "recuperar crc sha m =
     (if \<not> m_montado m then (True, m)
      else
        let esp = leer_bootrec crc m in
        case (case esp of EspRegistro r \<Rightarrow> Some (b_dir r) | _ \<Rightarrow> buscar_dir_unico m) of
          None \<Rightarrow> (True, m)
        | Some dir \<Rightarrow>
            let diario = leer_diario crc dir m in
            if esp = EspAusente \<and> diario = JAusente then (True, m)
            else (case reconcile esp diario of
                RNormal \<Rightarrow> (True, m)
              | RDescartar _ \<Rightarrow> (True, m)
              | RRetrocederAPreparado _ \<Rightarrow> (True, m)
              | RAplicar i \<Rightarrow>
                  (case ejecutar crc sha dir diario True m of (ok, m1) \<Rightarrow>
                     (ok, if ok then tomar_por_el_kernel (publicar crc esp DProbando i m1) else m1))
              | RRevertir i \<Rightarrow>
                  (case ejecutar crc sha dir diario False m of (ok, m1) \<Rightarrow>
                     (ok, if ok then publicar crc esp DRevertido i m1 else m1))
              | RPublicarProbando i \<Rightarrow> (True, tomar_por_el_kernel (publicar crc esp DProbando i m))
              | RCompletarConfirmacion i \<Rightarrow> (True, publicar crc esp DConfirmado i m)
              | RCompletarReversion i \<Rightarrow> (True, publicar crc esp DRevertido i m)
              | RRescatar punto \<Rightarrow> rescatar crc sha esp punto diario dir m
              | RDiagnostico _ \<Rightarrow> (False, m)))"

definition confirmar :: "(bytes \<Rightarrow> u32) \<Rightarrow> maquina \<Rightarrow> bool \<times> maquina" where
  "confirmar crc m =
     (let esp = leer_bootrec crc m in
      case esp of
        EspRegistro rec \<Rightarrow>
          if b_decision rec = DProbando
          then
            let m1 = (case leer_diario crc (b_dir rec) m of
                        JDiario j \<Rightarrow> (case avanzar j PruebaSuperada of
                            Inr k \<Rightarrow> snd (escribir_diario crc (b_dir rec) m k) | Inl _ \<Rightarrow> m)
                      | _ \<Rightarrow> m)
            in (True, liberar_del_kernel (publicar crc esp DConfirmado (b_id rec) m1))
          else if b_decision rec = DRestauradoAPrueba
          then (True, liberar_del_kernel (publicar crc esp DRevertido (b_id rec) m))
          else (True, m)
      | _ \<Rightarrow> (True, m))"

section \<open>The kernel's system keeps the contract\<close>

definition vivo :: "maquina \<Rightarrow> bool" where
  "vivo m = (0 < m_energia m)"

definition aguanta :: "maquina \<Rightarrow> nat \<Rightarrow> bool" where
  "aguanta m n = (2 * n < m_energia m)"

definition fichero_activo :: "maquina \<Rightarrow> string \<Rightarrow> bytes option" where
  "fichero_activo m p = m_ficheros m (''/'' @ p)"

definition en_etapa :: "string \<Rightarrow> maquina \<Rightarrow> string \<Rightarrow> bytes option" where
  "en_etapa dir m p = m_ficheros m (vfs_ruta dir DePreparado p)"

definition en_respaldo :: "string \<Rightarrow> maquina \<Rightarrow> string \<Rightarrow> bytes option" where
  "en_respaldo dir m p = m_ficheros m (vfs_ruta dir DeRespaldo p)"

text \<open>A path of the system: relative, naming a file, and outside the update area.\<close>

definition ruta_sistema :: "string \<Rightarrow> bool" where
  "ruta_sistema p = (p \<noteq> [] \<and> hd p \<noteq> CHR ''/'' \<and> last p \<noteq> CHR ''/''
     \<and> \<not> starts_with ''var/lib/soso-update/'' p)"

text \<open>The journal in force, in the copy of its turn.\<close>

abbreviation lee_diario :: "(bytes \<Rightarrow> u32) \<Rightarrow> bytes \<Rightarrow> record_error + framed" where
  "lee_diario crc \<equiv> record_parse crc JOURNAL_MAGIC JOURNAL_FORMATO"

definition copias_leidas :: "string \<Rightarrow> maquina \<Rightarrow> bytes list" where
  "copias_leidas dir m = [leer_copia m (fst (copias dir)), leer_copia m (snd (copias dir))]"

definition diario_vigente :: "(bytes \<Rightarrow> u32) \<Rightarrow> string \<Rightarrow> maquina \<Rightarrow> journal option" where
  "diario_vigente crc dir m =
     (case pick_con (lee_diario crc) (copias_leidas dir m) of
        Inl _ \<Rightarrow> None
      | Inr (i, f) \<Rightarrow>
          if i = ranura (fr_seq f) COPIAS
          then (case journal_from_framed f of Inl _ \<Rightarrow> None | Inr j \<Rightarrow> Some j) else None)"

lemma split_padre_unir:
  assumes "p \<noteq> []" "hd p \<noteq> CHR ''/''" "last p \<noteq> CHR ''/''"
  shows "\<exists>d n. split_padre (''/'' @ p) = Some (d, n) \<and> unir d n = ''/'' @ p"
proof -
  define path where "path = ''/'' @ p"
  define nombre where "nombre = rev (takeWhile (\<lambda>c. c \<noteq> CHR ''/'') (rev path))"
  define resto where "resto = dropWhile (\<lambda>c. c \<noteq> CHR ''/'') (rev path)"
  define pre where "pre = rev (tl resto)"
  have r: "resto \<noteq> []" by (simp add: resto_def path_def dropWhile_eq_Nil_conv)
  then have "hd resto = CHR ''/''"
    using hd_dropWhile [of "\<lambda>c. c \<noteq> CHR ''/''" "rev path"] by (simp add: resto_def)
  with r have "resto = CHR ''/'' # rev pre" by (cases resto) (simp_all add: pre_def)
  then have "rev path = rev nombre @ CHR ''/'' # rev pre"
    using takeWhile_dropWhile_id [of "\<lambda>c. c \<noteq> CHR ''/''" "rev path"] by (simp add: nombre_def resto_def)
  then have "rev (rev path) = rev (rev nombre @ CHR ''/'' # rev pre)" by (rule arg_cong)
  then have path: "path = pre @ CHR ''/'' # nombre" by simp
  have ne: "nombre \<noteq> []"
  proof
    assume "nombre = []"
    then have "last path = CHR ''/''" by (simp add: path)
    then show False using assms by (simp add: path_def)
  qed
  have "pre \<noteq> ''/''"
  proof
    assume "pre = ''/''"
    then have "p = CHR ''/'' # nombre" using path by (simp add: path_def)
    then show False using assms(2) by simp
  qed
  moreover have "split_padre path = Some (if length pre = 0 then ''/'' else pre, nombre)"
    using ne unfolding split_padre_def Let_def nombre_def [symmetric] by (simp add: path)
  ultimately show ?thesis unfolding path_def [symmetric] by (auto simp: unir_def path)
qed

lemma split_padre_diario:
  assumes "x = ''diario.0'' \<or> x = ''diario.1''"
  shows "\<exists>d n. split_padre (DIR_BASE @ ''/'' @ dir @ ''/'' @ x) = Some (d, n) \<and>
    unir d n = DIR_BASE @ ''/'' @ dir @ ''/'' @ x"
  using split_padre_unir [of "tl DIR_BASE @ ''/'' @ dir @ ''/'' @ x"] assms
  by (auto simp: DIR_BASE_def)

lemma vfs_escribir_eq:
  "ruta_sistema p \<Longrightarrow> vfs_escribir m p d = vfs_create_file (vfs_unlink m (''/'' @ p)) (''/'' @ p) d"
  using split_padre_unir [of p] by (auto simp: ruta_sistema_def vfs_escribir_def)

lemma vfs_borrar_eq: "ruta_sistema p \<Longrightarrow> vfs_borrar m p = (True, vfs_unlink m (''/'' @ p))"
  using split_padre_unir [of p] by (auto simp: ruta_sistema_def vfs_borrar_def)

definition copia_de :: "string \<Rightarrow> journal \<Rightarrow> string" where
  "copia_de dir j = (if j_seq j mod 2 = 0 then fst (copias dir) else snd (copias dir))"

lemma escribir_diario_eq:
  "escribir_diario crc dir m j =
     vfs_create_file (vfs_unlink m (copia_de dir j)) (copia_de dir j) (journal_format crc j)"
  using split_padre_diario [of "''diario.0''" dir] split_padre_diario [of "''diario.1''" dir]
  by (auto simp: escribir_diario_def copias_def copia_de_def)

lemma rutas_disjuntas:
  assumes "ruta_sistema p"
  shows "vfs_ruta dir d q \<noteq> ''/'' @ p" "fst (copias dir) \<noteq> ''/'' @ p" "snd (copias dir) \<noteq> ''/'' @ p"
    "copia_de dir j \<noteq> ''/'' @ p" "''/'' @ p \<noteq> copia_de dir j"
    "vfs_ruta dir d q \<noteq> copia_de dir j" "fst (copias dir) \<noteq> snd (copias dir)"
proof -
  have "vfs_ruta dir d q \<noteq> ''/'' @ p" for d q
    using assms by (cases d) (auto simp: vfs_ruta_def ruta_sistema_def DIR_BASE_def starts_with_prefix)
  moreover have c: "fst (copias dir) \<noteq> ''/'' @ p" "snd (copias dir) \<noteq> ''/'' @ p"
    using assms by (auto simp: copias_def ruta_sistema_def DIR_BASE_def starts_with_prefix)
  ultimately show "vfs_ruta dir d q \<noteq> ''/'' @ p" "fst (copias dir) \<noteq> ''/'' @ p" "snd (copias dir) \<noteq> ''/'' @ p"
    by auto
  show "copia_de dir j \<noteq> ''/'' @ p" using c by (simp add: copia_de_def)
  then show "''/'' @ p \<noteq> copia_de dir j" by metis
  show "vfs_ruta dir d q \<noteq> copia_de dir j"
    by (cases d) (auto simp: vfs_ruta_def copia_de_def copias_def)
  show "fst (copias dir) \<noteq> snd (copias dir)" by (simp add: copias_def)
qed

lemma vfs_unlink_simps:
  "q \<noteq> r \<Longrightarrow> m_ficheros (vfs_unlink m r) q = m_ficheros m q"
  "0 < m_energia m \<Longrightarrow> m_ficheros (vfs_unlink m r) r = None"
  "m_energia (vfs_unlink m r) = m_energia m - 1"
  "m_energia m = 0 \<Longrightarrow> vfs_unlink m r = m"
  by (auto simp: vfs_unlink_def)

lemma vfs_create_simps:
  "q \<noteq> r \<Longrightarrow> m_ficheros (snd (vfs_create_file m r d)) q = m_ficheros m q"
  "fst (vfs_create_file m r d) \<longleftrightarrow> 1 < m_energia m"
  "fst (vfs_create_file m r d) \<Longrightarrow> m_ficheros (snd (vfs_create_file m r d)) r = Some d"
  "m_energia (snd (vfs_create_file m r d)) = m_energia m - 1"
  "m_energia m = 0 \<Longrightarrow> snd (vfs_create_file m r d) = m"
  "m_energia m = 1 \<Longrightarrow> m_ficheros (snd (vfs_create_file m r d)) r = Some (take (m_corte m) d)"
  by (auto simp: vfs_create_file_def)

lemma diario_vigente_cong:
  "m_ficheros m (fst (copias dir)) = m_ficheros n (fst (copias dir)) \<Longrightarrow>
   m_ficheros m (snd (copias dir)) = m_ficheros n (snd (copias dir)) \<Longrightarrow>
   diario_vigente crc dir m = diario_vigente crc dir n"
  by (simp add: diario_vigente_def copias_leidas_def leer_copia_def)

text \<open>A cut journal write: the copy of the turn is empty, truncated or complete, and in every
  case the journal found is the old one or the new one.\<close>

lemma lee_diario_vacio: "lee_diario crc [] = Inl Vacia"
  by (simp add: record_parse_def)

lemma journal_trunca:
  assumes "journal_ok j"
  shows "lee_diario crc (take c (journal_format crc j)) = lee_diario crc (journal_format crc j)
    \<or> (\<exists>e. lee_diario crc (take c (journal_format crc j)) = Inl e)"
  using record_parse_trunca [OF magic_diario journal_lineas_ok [OF assms], where n = 0 and formato = JOURNAL_FORMATO
      and fmax = JOURNAL_FORMATO]
  by (simp add: journal_format_def journal_body_lineas JOURNAL_FORMATO_def)

lemma journal_resto:
  assumes "journal_ok j" "NUL \<notin> set t"
  shows "lee_diario crc (journal_format crc j @ t) = (if utf8_valid t then lee_diario crc (journal_format crc j) else Inl NoTexto)"
proof -
  have f: "JOURNAL_FORMATO \<noteq> 0" by (simp add: JOURNAL_FORMATO_def)
  note rr = record_parse_resto [OF magic_diario journal_lineas_ok [OF assms(1)] f order_refl, where crc = crc and seq = "j_seq j"]
  show ?thesis
    using rr [OF assms(2)] rr [of "[]"] by (simp add: journal_format_def journal_body_lineas)
qed

lemma journal_trunca_resto:
  assumes "journal_ok j" "NUL \<notin> set t"
  shows "lee_diario crc (take c (journal_format crc j @ t)) = lee_diario crc (journal_format crc j)
    \<or> (\<exists>e. lee_diario crc (take c (journal_format crc j @ t)) = Inl e)"
proof (cases "c \<le> length (journal_format crc j)")
  case True
  then show ?thesis using journal_trunca [OF assms(1), of crc c] by simp
next
  case False
  have "NUL \<notin> set (take (c - length (journal_format crc j)) t)" using assms(2) by (auto dest: in_set_takeD)
  from journal_resto [OF assms(1) this, of crc] False show ?thesis by auto
qed

lemma diario_vigente_Some:
  assumes "diario_vigente crc dir m = Some j"
  obtains i f where "vigente (lee_diario crc) COPIAS (copias_leidas dir m) i f" "journal_from_framed f = Inr j"
proof -
  obtain i f where "pick_con (lee_diario crc) (copias_leidas dir m) = Inr (i, f)"
      "i = ranura (fr_seq f) COPIAS" "journal_from_framed f = Inr j"
    using assms by (auto simp: diario_vigente_def split: sum.splits if_splits)
  then show ?thesis
    using that by (auto simp: vigente_def pick_con_iff copias_leidas_def COPIAS_def)
qed

lemma journal_from_framed_seq: "journal_from_framed f = Inr j \<Longrightarrow> j_seq j = fr_seq f"
  by (auto simp: journal_from_framed_def split: prod.splits)

lemma vigente_diario:
  assumes "vigente (lee_diario crc) COPIAS (copias_leidas dir m) i f" "journal_from_framed f = Inr j"
  shows "diario_vigente crc dir m = Some j"
proof -
  have "pick_con (lee_diario crc) (copias_leidas dir m) = Inr (i, f)"
    using assms(1) unfolding vigente_def pick_con_iff by blast
  then show ?thesis using assms by (simp add: vigente_def diario_vigente_def)
qed

lemma ranura_copia: "ranura (j_seq j) COPIAS = (if j_seq j mod 2 = 0 then 0 else 1)"
proof -
  have "unat (j_seq j mod 2) < 2" by (simp add: unat_mod)
  then have "unat (j_seq j mod 2) = 0 \<or> unat (j_seq j mod 2) = 1" by linarith
  then show ?thesis by (auto simp: ranura_def COPIAS_def unat_eq_0)
qed

lemma copias_escritas:
  assumes "m_ficheros m' (copia_de dir k) = x"
    and "\<And>q. q \<noteq> copia_de dir k \<Longrightarrow> m_ficheros m' q = m_ficheros m q"
  shows "copias_leidas dir m' =
    (copias_leidas dir m)[ranura (j_seq k) COPIAS := (case x of None \<Rightarrow> [] | Some d \<Rightarrow> d)]"
proof -
  consider "copia_de dir k = fst (copias dir)" "ranura (j_seq k) COPIAS = 0"
    | "copia_de dir k = snd (copias dir)" "ranura (j_seq k) COPIAS = 1"
    by (cases "j_seq k mod 2 = 0") (simp_all add: copia_de_def ranura_copia)
  moreover have "fst (copias dir) \<noteq> snd (copias dir)" by (simp add: copias_def)
  ultimately show ?thesis
    using assms by cases (auto simp: copias_leidas_def leer_copia_def)
qed

lemma escritura_encima:
  assumes d: "diario_vigente crc dir m = Some j" and suc: "sucesor j k"
    and x: "m_ficheros m' (copia_de dir k) = x"
    and fr: "\<And>q. q \<noteq> copia_de dir k \<Longrightarrow> m_ficheros m' q = m_ficheros m q"
    and caso: "x = None \<or> (\<exists>c t. x = Some (take c (journal_format crc k @ t)) \<and> NUL \<notin> set t)"
  shows "diario_vigente crc dir m' = Some j \<or> diario_vigente crc dir m' = Some k"
    and "x = Some (journal_format crc k @ t) \<Longrightarrow> NUL \<notin> set t \<Longrightarrow> utf8_valid t \<Longrightarrow> diario_vigente crc dir m' = Some k"
proof -
  define bs where "bs = (case x of None \<Rightarrow> [] | Some b \<Rightarrow> b)"
  obtain i f where v: "vigente (lee_diario crc) COPIAS (copias_leidas dir m) i f" and jf: "journal_from_framed f = Inr j"
    using d by (rule diario_vigente_Some)
  have fs: "fr_seq f = j_seq j" using journal_from_framed_seq [OF jf] by simp
  have sq: "fr_seq f \<noteq> - 1" "j_seq k = fr_seq f + 1" "journal_ok k" using suc fs by (auto simp: sucesor_def)
  note ce = copias_escritas [OF x fr, folded bs_def]
  have nuevo: "diario_vigente crc dir m' = Some k" if "lee_diario crc bs = lee_diario crc (journal_format crc k)"
  proof -
    define g where "g = \<lparr>fr_formato = JOURNAL_FORMATO, fr_seq = j_seq k, fr_body = journal_body k\<rparr>"
    have g: "lee_diario crc bs = Inr g" "journal_from_framed g = Inr k"
      using that sq(3) journal_parse_framed journal_from_framed_body by (simp_all add: g_def)
    define r where "r = ranura (j_seq k) COPIAS"
    have len: "length (copias_leidas dir m) = COPIAS" using v by (simp add: vigente_def)
    have r: "r < COPIAS" using diario.turno_libre [OF v sq(1)] sq(2) by (simp add: r_def)
    have gs: "fr_seq g = fr_seq f + 1" using sq(2) by (simp add: g_def)
    have menor: "fr_seq h < fr_seq g" if "n < COPIAS" "lee_diario crc (copias_leidas dir m ! n) = Inr h" for n h
    proof -
      have "fr_seq h \<le> fr_seq f" using v that len by (auto simp: vigente_def mejor_ok_def)
      then show ?thesis using word_less_Suc [OF sq(1)] by (simp add: gs)
    qed
    have "mejor_ok (lee_diario crc) ((copias_leidas dir m)[r := bs]) (r, g)"
      using menor r g(1) len by (fastforce simp: mejor_ok_def nth_list_update)
    then have "vigente (lee_diario crc) COPIAS (copias_leidas dir m') r g"
      using len by (simp add: vigente_def ce r_def g_def)
    then show ?thesis using g(2) by (rule vigente_diario)
  qed
  have "diario_vigente crc dir m' = Some j" if "lee_diario crc bs = Inl e" for e
    using diario.corte_conserva(1) [OF v sq(1) that] sq(2) jf ce by (auto intro: vigente_diario)
  then show "diario_vigente crc dir m' = Some j \<or> diario_vigente crc dir m' = Some k"
    using caso nuevo journal_trunca_resto [OF sq(3), of _ crc] lee_diario_vacio by (fastforce simp: bs_def)
  show "x = Some (journal_format crc k @ t) \<Longrightarrow> NUL \<notin> set t \<Longrightarrow> utf8_valid t \<Longrightarrow> diario_vigente crc dir m' = Some k"
    using nuevo journal_resto [OF sq(3), of t crc] by (simp add: bs_def)
qed

lemma escritura_de_diario:
  assumes "diario_vigente crc dir m = Some j" "sucesor j k" "m_ficheros m' (copia_de dir k) = x"
    and "\<And>q. q \<noteq> copia_de dir k \<Longrightarrow> m_ficheros m' q = m_ficheros m q"
    and "x = None \<or> (\<exists>c. x = Some (take c (journal_format crc k)))"
  shows "diario_vigente crc dir m' = Some j \<or> diario_vigente crc dir m' = Some k"
    and "x = Some (journal_format crc k) \<Longrightarrow> diario_vigente crc dir m' = Some k"
proof -
  have c: "x = None \<or> (\<exists>c t. x = Some (take c (journal_format crc k @ t)) \<and> NUL \<notin> set t)"
    using assms(5) by (metis append.right_neutral empty_iff empty_set)
  note e = escritura_encima [OF assms(1-4) c]
  show "diario_vigente crc dir m' = Some j \<or> diario_vigente crc dir m' = Some k" by (rule e(1))
  show "x = Some (journal_format crc k) \<Longrightarrow> diario_vigente crc dir m' = Some k" using e(2) [of "[]"] by simp
qed


interpretation vfs: sistema_durable
  "vfs_sistema crc dir" fichero_activo "en_etapa dir" "en_respaldo dir" "diario_vigente crc dir"
  ruta_sistema vivo aguanta for crc dir
proof unfold_locales
  fix p m d r t
  assume p: "ruta_sistema p" and e: "s_escribir (vfs_sistema crc dir) m p d = (r, t)"
  define u where "u = vfs_unlink m (''/'' @ p)"
  have t: "t = snd (vfs_create_file u (''/'' @ p) d)" and r: "r = fst (vfs_create_file u (''/'' @ p) d)"
    using e p by (simp_all add: vfs_sistema_def vfs_escribir_eq u_def)
  have fr: "m_ficheros t q = m_ficheros m q" if "q \<noteq> ''/'' @ p" for q
    using that by (simp add: t u_def vfs_create_simps vfs_unlink_simps)
  note dis = rutas_disjuntas [OF p]
  show "(\<forall>q. ruta_sistema q \<longrightarrow> q \<noteq> p \<longrightarrow> fichero_activo t q = fichero_activo m q) \<and>
      (\<forall>q. ruta_sistema q \<longrightarrow> en_etapa dir t q = en_etapa dir m q \<and> en_respaldo dir t q = en_respaldo dir m q) \<and>
      diario_vigente crc dir t = diario_vigente crc dir m"
    using fr dis by (auto simp: fichero_activo_def en_etapa_def en_respaldo_def intro: diario_vigente_cong)
next
  fix p m d t
  assume p: "ruta_sistema p" and e: "s_escribir (vfs_sistema crc dir) m p d = (True, t)"
  then show "fichero_activo t p = Some d"
    using vfs_create_simps(3) [of "vfs_unlink m (''/'' @ p)" "''/'' @ p" d]
    by (simp add: vfs_sistema_def vfs_escribir_eq fichero_activo_def)
next
  fix p m r t
  assume p: "ruta_sistema p" and e: "s_borrar (vfs_sistema crc dir) m p = (r, t)"
  then have t: "t = vfs_unlink m (''/'' @ p)" by (simp add: vfs_sistema_def vfs_borrar_eq)
  note dis = rutas_disjuntas [OF p]
  show "(\<forall>q. ruta_sistema q \<longrightarrow> q \<noteq> p \<longrightarrow> fichero_activo t q = fichero_activo m q) \<and>
      (\<forall>q. ruta_sistema q \<longrightarrow> en_etapa dir t q = en_etapa dir m q \<and> en_respaldo dir t q = en_respaldo dir m q) \<and>
      diario_vigente crc dir t = diario_vigente crc dir m"
    using dis by (auto simp: t fichero_activo_def en_etapa_def en_respaldo_def vfs_unlink_simps intro: diario_vigente_cong)
next
  fix p m t
  assume p: "ruta_sistema p" and e: "s_borrar (vfs_sistema crc dir) m p = (True, t)" and v: "vivo t"
  then show "fichero_activo t p = None"
    by (auto simp: vfs_sistema_def vfs_borrar_eq fichero_activo_def vivo_def vfs_unlink_def split: if_splits)
next
  fix m j k r t
  assume d: "diario_vigente crc dir m = Some j" and suc: "sucesor j k"
    and g: "s_guardar_diario (vfs_sistema crc dir) m k = (r, t)"
  define u where "u = vfs_unlink m (copia_de dir k)"
  have t: "t = snd (vfs_create_file u (copia_de dir k) (journal_format crc k))"
    and r: "r = fst (vfs_create_file u (copia_de dir k) (journal_format crc k))"
    using g by (simp_all add: vfs_sistema_def escribir_diario_eq u_def)
  have fr: "m_ficheros t q = m_ficheros m q" if "q \<noteq> copia_de dir k" for q
    using that by (simp add: t u_def vfs_create_simps vfs_unlink_simps)
  have "(\<forall>q. ruta_sistema q \<longrightarrow> fichero_activo t q = fichero_activo m q \<and> en_etapa dir t q = en_etapa dir m q \<and>
      en_respaldo dir t q = en_respaldo dir m q)"
    using fr rutas_disjuntas by (auto simp: fichero_activo_def en_etapa_def en_respaldo_def)
  moreover have "diario_vigente crc dir t = Some j \<or> diario_vigente crc dir t = Some k"
  proof (cases "m_energia m = 0")
    case True
    then have "t = m" by (simp add: t u_def vfs_create_simps vfs_unlink_simps)
    then show ?thesis using d by simp
  next
    case False
    then have "m_ficheros t (copia_de dir k) = None \<or>
        (\<exists>c. m_ficheros t (copia_de dir k) = Some (take c (journal_format crc k)))"
      using vfs_create_simps(5,6) [of u "copia_de dir k" "journal_format crc k"]
      by (auto simp: t u_def vfs_create_file_def vfs_unlink_simps intro: exI [of _ "length (journal_format crc k)"])
    then show ?thesis using escritura_de_diario(1) [OF d suc refl fr] by blast
  qed
  moreover have "vivo t \<and> diario_vigente crc dir t = Some k" if r
  proof -
    have "m_ficheros t (copia_de dir k) = Some (journal_format crc k)" "1 < m_energia u"
      using that r vfs_create_simps(2,3) by (auto simp: t)
    moreover have "m_energia t = m_energia u - 1" by (simp add: t vfs_create_simps)
    moreover have "\<exists>c. journal_format crc k = take c (journal_format crc k)" by (metis order_refl take_all)
    ultimately show ?thesis
      using escritura_de_diario(2) [OF d suc refl fr] by (auto simp: vivo_def)
  qed
  ultimately show "(\<forall>q. ruta_sistema q \<longrightarrow> fichero_activo t q = fichero_activo m q \<and> en_etapa dir t q = en_etapa dir m q \<and>
      en_respaldo dir t q = en_respaldo dir m q) \<and>
      (diario_vigente crc dir t = Some j \<or> diario_vigente crc dir t = Some k) \<and>
      (r \<longrightarrow> vivo t \<and> diario_vigente crc dir t = Some k)" by blast
next
  fix m p d k
  assume "\<not> vivo m"
  then show "snd (s_escribir (vfs_sistema crc dir) m p d) = m \<and> snd (s_borrar (vfs_sistema crc dir) m p) = m \<and>
      snd (s_guardar_diario (vfs_sistema crc dir) m k) = m"
    by (auto simp: vivo_def vfs_sistema_def vfs_escribir_def vfs_borrar_def escribir_diario_eq vfs_unlink_simps
        vfs_create_simps split: option.splits)
next
  fix p m n d
  assume "ruta_sistema p" "aguanta m (Suc n)"
  then show "\<exists>t. s_escribir (vfs_sistema crc dir) m p d = (True, t) \<and> aguanta t n"
    by (simp add: vfs_sistema_def vfs_escribir_eq aguanta_def vfs_create_file_def vfs_unlink_simps) linarith
next
  fix p m n
  assume "ruta_sistema p" "aguanta m (Suc n)"
  then show "\<exists>t. s_borrar (vfs_sistema crc dir) m p = (True, t) \<and> aguanta t n"
    by (simp add: vfs_sistema_def vfs_borrar_eq aguanta_def vfs_unlink_simps)
next
  fix m n k
  assume "aguanta m (Suc n)"
  then show "\<exists>t. s_guardar_diario (vfs_sistema crc dir) m k = (True, t) \<and> aguanta t n"
    by (simp add: vfs_sistema_def escribir_diario_eq aguanta_def vfs_create_file_def vfs_unlink_simps) linarith
qed (auto simp: vfs_sistema_def en_etapa_def en_respaldo_def aguanta_def vivo_def)

end
