(* ===== verification/Transaccion.thy ===== *)
theory Transaccion
  imports Recuperador
begin

text \<open>
  The transaction as a whole: what a boot of the recoverer makes of a machine whose boot record
  and journal form a pair the protocol writes, whatever the moment at which power fails.
\<close>

section \<open>Publishing in the ESP\<close>

abbreviation lee_arranque :: "(bytes \<Rightarrow> u32) \<Rightarrow> bytes \<Rightarrow> record_error + framed" where
  "lee_arranque crc \<equiv> record_parse crc BOOTREC_MAGIC BOOTREC_FORMATO"

definition ranuras_ok :: "bytes list \<Rightarrow> bool" where
  "ranuras_ok slots = (length slots = SLOTS \<and> (\<forall>s \<in> set slots. length s = SLOT_SIZE))"

definition esp_vigente :: "(bytes \<Rightarrow> u32) \<Rightarrow> maquina \<Rightarrow> boot_record \<Rightarrow> bool" where
  "esp_vigente crc m r \<longleftrightarrow> m_esp_legible m \<and> bootrec_cabe crc r \<and>
     (\<exists>slots f i. m_esp m = Some (concat slots) \<and> ranuras_ok slots \<and>
        vigente (lee_arranque crc) SLOTS slots i f \<and> bootrec_from_framed f = Inr r)"

text \<open>The record a publication writes, and the slot it goes to.\<close>

definition publicado :: "boot_record \<Rightarrow> decision \<Rightarrow> boot_record" where
  "publicado r d = r\<lparr>b_decision := d, b_seq := b_seq r + 1\<rparr>"

definition ranura_esp :: "maquina \<Rightarrow> nat \<Rightarrow> bytes" where
  "ranura_esp m k = (case m_esp m of None \<Rightarrow> [] | Some buf \<Rightarrow> take SLOT_SIZE (drop (k * SLOT_SIZE) buf))"

text \<open>What the checksum is trusted for: a slot that mixes the first bytes of the new record with
  the old content is either recognised as broken or reads as one of the two.\<close>

definition mezcla_detectada :: "(bytes \<Rightarrow> u32) \<Rightarrow> bytes \<Rightarrow> bytes \<Rightarrow> bool" where
  "mezcla_detectada crc viejo nuevo \<longleftrightarrow>
     (\<forall>n. let leido = lee_arranque crc (take n nuevo @ drop n viejo)
          in \<not> is_ok leido \<or> leido = lee_arranque crc viejo \<or> leido = lee_arranque crc nuevo)"

lemma bootrec_from_framed_seq: "bootrec_from_framed f = Inr r \<Longrightarrow> b_seq r = fr_seq f"
  by (auto simp: bootrec_from_framed_def)

lemma leer_bootrec_vigente:
  assumes "esp_vigente crc m r"
  shows "leer_bootrec crc m = EspRegistro r"
proof -
  obtain slots f i where "m_esp m = Some (concat slots)" "ranuras_ok slots"
      "vigente (lee_arranque crc) SLOTS slots i f" "bootrec_from_framed f = Inr r" "m_esp_legible m"
    using assms by (auto simp: esp_vigente_def)
  moreover from this have "pick_con (lee_arranque crc) slots = Inr (i, f)"
    unfolding vigente_def pick_con_iff by blast
  ultimately show ?thesis
    by (simp add: leer_bootrec_def bootrec_pick_concat ranuras_ok_def bootrec_pick_slots_def record_pick_def)
qed

lemma concat_ranura:
  assumes "\<forall>s \<in> set slots. length s = L" "k < length slots"
  shows "take (k * L) (concat slots) = concat (take k slots)"
    and "drop (k * L) (concat slots) = slots ! k @ concat (drop (Suc k) slots)"
proof -
  have len: "length (concat (take k slots)) = k * L"
  proof -
    have "map length (take k slots) = replicate k L"
      using assms by (auto simp: list_eq_iff_nth_eq)
    then show ?thesis by (simp add: length_concat sum_list_replicate)
  qed
  have "concat slots = concat (take k slots) @ concat (drop k slots)" by (metis append_take_drop_id concat_append)
  then show "take (k * L) (concat slots) = concat (take k slots)"
    "drop (k * L) (concat slots) = slots ! k @ concat (drop (Suc k) slots)"
    using len assms(2) by (auto simp: Cons_nth_drop_Suc [symmetric])
qed

lemma concat_escrita:
  assumes "\<forall>s \<in> set slots. length s = L" "k < length slots" "length x \<le> L"
  shows "take (k * L) (concat slots) @ x @ drop (k * L + length x) (concat slots) =
    concat (slots[k := x @ drop (length x) (slots ! k)])"
proof -
  have "drop (k * L + length x) (concat slots) = drop (length x) (drop (k * L) (concat slots))"
    by (simp add: add.commute)
  also have "\<dots> = drop (length x) (slots ! k) @ concat (drop (Suc k) slots)"
    using assms by (simp add: concat_ranura)
  finally show ?thesis
    using assms by (simp add: concat_ranura upd_conv_take_nth_drop)
qed

lemma chunks_dos: "length bs = 2 * SECTOR \<Longrightarrow> chunks SECTOR bs = [take SECTOR bs, drop SECTOR bs]"
proof -
  assume l: "length bs = 2 * SECTOR"
  have "chunks SECTOR bs = chunks SECTOR (concat [take SECTOR bs, drop SECTOR bs])" by simp
  also have "\<dots> = [take SECTOR bs, drop SECTOR bs]"
    using l by (intro chunks_concat) (auto simp: SECTOR_def)
  finally show ?thesis .
qed

lemma escribir_sectores_corte:
  assumes esp: "m_esp m = Some (concat slots)" and ok: "ranuras_ok slots" and k: "k < SLOTS"
    and bs: "length bs = SLOT_SIZE" and m': "m' = escribir_sectores m (k * SLOT_SIZE) (chunks SECTOR bs)"
  shows "\<exists>n. m_esp m' = Some (concat (slots[k := take n bs @ drop n (slots ! k)])) \<and> n \<le> SLOT_SIZE \<and>
    (vivo m' \<longrightarrow> n = SLOT_SIZE)"
    and "m' = m\<lparr>m_esp := m_esp m', m_energia := m_energia m - 2\<rparr>"
proof -
  define off where "off = k * SLOT_SIZE"
  have ch: "chunks SECTOR bs = [take SECTOR bs, drop SECTOR bs]"
    using bs by (intro chunks_dos) (simp add: SLOT_SIZE_def SECTOR_def)
  define buf where "buf = concat slots"
  have lb: "off + SLOT_SIZE \<le> length buf"
  proof -
    have "length buf = SLOTS * SLOT_SIZE"
    proof -
      have "map length slots = replicate SLOTS SLOT_SIZE"
        using ok by (auto simp: ranuras_ok_def list_eq_iff_nth_eq)
      then show ?thesis by (simp add: buf_def length_concat sum_list_replicate)
    qed
    then show ?thesis using k by (simp add: off_def SLOTS_def SLOT_SIZE_def)
  qed
  define n where "n = (if m_energia m = 0 then 0 else if m_energia m = 1 then min (m_corte m) SECTOR
     else if m_energia m = 2 then SECTOR + min (m_corte m) SECTOR else SLOT_SIZE)"
  have n: "n \<le> SLOT_SIZE" by (simp add: n_def SLOT_SIZE_def SECTOR_def min_def)
  have td: "take 512 bs @ drop 512 bs @ ys = bs @ ys" for ys
    by (metis append.assoc append_take_drop_id)
  have e: "m_esp m' = Some (take off buf @ take n bs @ drop (off + n) buf)"
    using lb bs esp unfolding m' ch buf_def [symmetric] off_def [symmetric]
    by (auto simp: esp_escribir_def Let_def n_def SLOT_SIZE_def SECTOR_def min_def take_add td add_ac)
  have "take off buf @ take n bs @ drop (off + n) buf = concat (slots[k := take n bs @ drop n (slots ! k)])"
    using concat_escrita [of slots SLOT_SIZE k "take n bs"] ok k n bs
    by (simp add: ranuras_ok_def buf_def off_def)
  moreover have "vivo m' \<longrightarrow> n = SLOT_SIZE"
    by (auto simp: m' ch vivo_def esp_escribir_def Let_def n_def esp split: option.splits)
  ultimately show "\<exists>n. m_esp m' = Some (concat (slots[k := take n bs @ drop n (slots ! k)])) \<and> n \<le> SLOT_SIZE \<and>
      (vivo m' \<longrightarrow> n = SLOT_SIZE)"
    using e n by auto
  show "m' = m\<lparr>m_esp := m_esp m', m_energia := m_energia m - 2\<rparr>"
    by (auto simp: m' ch esp_escribir_def Let_def esp split: option.splits)
qed

lemma publicar_corte:
  assumes v: "esp_vigente crc m r" and seq: "b_seq r \<noteq> - 1"
    and cabe: "bootrec_cabe crc (publicado r d)"
    and mez: "mezcla_detectada crc (ranura_esp m (bootrec_ranura (publicado r d)))
      (bootrec_bytes crc (publicado r d))"
    and m': "m' = publicar crc (EspRegistro r) d (b_id r) m"
  shows "esp_vigente crc m' r \<or> esp_vigente crc m' (publicado r d)"
    and "vivo m' \<Longrightarrow> esp_vigente crc m' (publicado r d)"
    and "m' = m\<lparr>m_esp := m_esp m', m_energia := m_energia m - 2\<rparr>"
proof -
  define p where "p = publicado r d"
  define k where "k = ranura (b_seq p) SLOTS"
  define bs where "bs = bootrec_bytes crc p"
  obtain slots f i where e: "m_esp m = Some (concat slots)" "ranuras_ok slots"
      "vigente (lee_arranque crc) SLOTS slots i f" "bootrec_from_framed f = Inr r" "m_esp_legible m"
    using v by (auto simp: esp_vigente_def)
  have fs: "fr_seq f = b_seq r" using bootrec_from_framed_seq [OF e(4)] by simp
  have bs: "bootrec_format crc p = Inr bs" "length bs = SLOT_SIZE"
    using cabe bootrec_format_Inr [of crc p]
    by (auto simp: bootrec_cabe_def bs_def bootrec_bytes_def p_def is_ok_def split: sum.splits)
  have k: "k < SLOTS" using arranque.turno_libre [OF e(3)] seq by (simp add: k_def p_def publicado_def fs)
  have m2: "m' = escribir_sectores m (k * SLOT_SIZE) (chunks SECTOR bs)"
  proof -
    have "r\<lparr>b_decision := d, b_id := b_id r, b_seq := b_seq r + 1\<rparr> = p" by (simp add: p_def publicado_def)
    then show ?thesis using bs by (simp add: m' publicar_def Let_def bootrec_ranura_def k_def)
  qed
  note ec = escribir_sectores_corte [OF e(1,2) k bs(2) m2]
  show "m' = m\<lparr>m_esp := m_esp m', m_energia := m_energia m - 2\<rparr>" by (rule ec(2))
  then have leg: "m_esp_legible m'" using e(5) by (metis maquina.select_convs(5) maquina.surjective maquina.update_convs(4,7))
  obtain n where n: "m_esp m' = Some (concat (slots[k := take n bs @ drop n (slots ! k)]))" "n \<le> SLOT_SIZE"
      "vivo m' \<longrightarrow> n = SLOT_SIZE"
    using ec(1) by blast
  define x where "x = take n bs @ drop n (slots ! k)"
  have sk: "length (slots ! k) = SLOT_SIZE" using e(2) k by (simp add: ranuras_ok_def)
  have rok: "ranuras_ok (slots[k := x])"
    using e(2) bs(2) n(2) sk set_update_subset_insert [of slots k x] by (auto simp: ranuras_ok_def x_def)
  have cr: "bootrec_cabe crc r" using v by (simp add: esp_vigente_def)
  have nuevo: "esp_vigente crc m' p" if "lee_arranque crc x = lee_arranque crc bs"
  proof -
    define g where "g = \<lparr>fr_formato = b_formato p, fr_seq = b_seq p, fr_body = bootrec_body p\<rparr>"
    have g: "lee_arranque crc x = Inr g" "bootrec_from_framed g = Inr p"
      using that cabe bs(1) bootrec_parse_framed bootrec_from_framed_body
      by (simp_all add: g_def bootrec_cabe_def p_def)
    have "fr_seq h < fr_seq g" if "j < SLOTS" "lee_arranque crc (slots ! j) = Inr h" for j h
    proof -
      have "fr_seq h \<le> fr_seq f" using e(3) that by (auto simp: vigente_def mejor_ok_def)
      then show ?thesis using word_less_Suc [OF seq] by (simp add: g_def fs p_def publicado_def)
    qed
    then have "mejor_ok (lee_arranque crc) (slots[k := x]) (k, g)"
      using g(1) k e(2) by (fastforce simp: mejor_ok_def nth_list_update ranuras_ok_def)
    then have "vigente (lee_arranque crc) SLOTS (slots[k := x]) k g"
      using e(2) by (simp add: vigente_def ranuras_ok_def k_def g_def)
    then show ?thesis using n(1) rok g(2) leg cabe by (auto simp: esp_vigente_def x_def p_def)
  qed
  have viejo: "esp_vigente crc m' r" if "\<not> is_ok (lee_arranque crc x) \<or> lee_arranque crc x = lee_arranque crc (slots ! k)"
  proof -
    have ki: "k \<noteq> i" using arranque.turno_libre [OF e(3)] seq by (simp add: k_def p_def publicado_def fs)
    have "mejor_ok (lee_arranque crc) (slots[k := x]) (i, f)"
      using e(2,3) that ki k by (auto simp: vigente_def mejor_ok_def nth_list_update ranuras_ok_def is_ok_def)
    then have "vigente (lee_arranque crc) SLOTS (slots[k := x]) i f"
      using e(3) by (simp add: vigente_def)
    then show ?thesis using n(1) rok e(4) leg cr by (auto simp: esp_vigente_def x_def)
  qed
  have "ranura_esp m k = slots ! k"
    using e(1,2) k sk by (simp add: ranura_esp_def concat_ranura ranuras_ok_def)
  then have "\<not> is_ok (lee_arranque crc x) \<or> lee_arranque crc x = lee_arranque crc (slots ! k)
      \<or> lee_arranque crc x = lee_arranque crc bs"
    using mez by (auto simp: mezcla_detectada_def Let_def x_def bootrec_ranura_def k_def p_def bs_def)
  then show "esp_vigente crc m' r \<or> esp_vigente crc m' (publicado r d)"
    using nuevo viejo unfolding p_def [symmetric] by blast
  show "vivo m' \<Longrightarrow> esp_vigente crc m' (publicado r d)"
    using nuevo n(3) bs(2) sk unfolding p_def [symmetric] by (simp add: x_def)
qed

section \<open>The pair of records\<close>

definition operacion_ok :: "journal \<Rightarrow> bool" where
  "operacion_ok j \<longleftrightarrow> journal_ok j \<and> distinct (map e_path (j_entradas j)) \<and>
     list_all (\<lambda>e. ruta_sistema (e_path e)) (j_entradas j)"

text \<open>The pairs of decision and state that the writing order of the contract produces and from which the
  recoverer goes on; and the pair that arming writes between the boot record and the journal ARMADO, from
  which it does not.\<close>

definition parejas :: "(decision \<times> txn_state) set" where
  "parejas =
     {(DArmado, Armado), (DArmado, Aplicando), (DArmado, Probando), (DProbando, Probando),
      (DProbando, Confirmado), (DConfirmado, Confirmado), (DProbando, Revirtiendo),
      (DProbando, Revertido), (DRevertido, Revertido)}"

definition pareja_ok :: "(bytes \<Rightarrow> u32) \<Rightarrow> maquina \<Rightarrow> boot_record \<Rightarrow> journal \<Rightarrow> bool" where
  "pareja_ok crc m r j \<longleftrightarrow> m_montado m \<and> esp_vigente crc m r \<and>
     diario_vigente crc (b_dir r) m = Some j \<and> b_id r = j_id j \<and> operacion_ok j \<and>
     coherente (fichero_activo m) (en_etapa (b_dir r) m) (en_respaldo (b_dir r) m) j \<and>
     (b_decision r, j_estado j) \<in> parejas"

definition parejas_escritas :: "(decision \<times> txn_state) set" where
  "parejas_escritas = insert (DArmado, Preparado) parejas"

definition pareja_escrita :: "(bytes \<Rightarrow> u32) \<Rightarrow> maquina \<Rightarrow> boot_record \<Rightarrow> journal \<Rightarrow> bool" where
  "pareja_escrita crc m r j \<longleftrightarrow> m_montado m \<and> esp_vigente crc m r \<and>
     diario_vigente crc (b_dir r) m = Some j \<and> b_id r = j_id j \<and> operacion_ok j \<and>
     coherente (fichero_activo m) (en_etapa (b_dir r) m) (en_respaldo (b_dir r) m) j \<and>
     (b_decision r, j_estado j) \<in> parejas_escritas"

lemma pareja_escrita_casos:
  "pareja_escrita crc m r j \<Longrightarrow> j_estado j \<noteq> Preparado \<Longrightarrow> pareja_ok crc m r j"
  "pareja_escrita crc m r j \<Longrightarrow> j_estado j = Preparado \<Longrightarrow> b_decision r = DArmado"
  by (auto simp: pareja_escrita_def pareja_ok_def parejas_escritas_def parejas_def)

lemma pareja_ok_escrita: "pareja_ok crc m r j \<Longrightarrow> pareja_escrita crc m r j \<and> j_estado j \<noteq> Preparado"
  by (auto simp: pareja_escrita_def pareja_ok_def parejas_escritas_def parejas_def)

text \<open>The publications a boot may make are within the space of a slot, and a torn one is
  recognised.\<close>

definition publicable :: "(bytes \<Rightarrow> u32) \<Rightarrow> maquina \<Rightarrow> boot_record \<Rightarrow> bool" where
  "publicable crc m r \<longleftrightarrow> b_seq r \<noteq> - 1 \<and>
     list_all (\<lambda>d. bootrec_cabe crc (publicado r d) \<and>
       mezcla_detectada crc (ranura_esp m (bootrec_ranura (publicado r d)))
         (bootrec_bytes crc (publicado r d))) [DProbando, DConfirmado, DRevertido]"

lemma operacion_admisible: "operacion_ok j \<Longrightarrow> vfs.admisible j"
  by (auto simp: operacion_ok_def vfs.admisible_def list_all_iff)

lemma misma_operacion: "misma j k \<Longrightarrow> operacion_ok k = operacion_ok j"
proof -
  assume m: "misma j k"
  have "list_all ruta_sistema (map e_path (j_entradas k)) = list_all ruta_sistema (map e_path (j_entradas j))"
    using misma_entradas(2) [OF m] by simp
  then have "list_all (\<lambda>e. ruta_sistema (e_path e)) (j_entradas k) =
      list_all (\<lambda>e. ruta_sistema (e_path e)) (j_entradas j)"
    by (simp only: list.pred_map comp_def)
  then show ?thesis using misma_entradas(2,7) [OF m] by (simp add: operacion_ok_def)
qed

lemma leer_diario_vigente:
  assumes "diario_vigente crc dir m = Some j"
  shows "leer_diario crc dir m = JDiario j"
proof -
  obtain i f where v: "vigente (lee_diario crc) COPIAS (copias_leidas dir m) i f" and f: "journal_from_framed f = Inr j"
    using assms by (rule diario_vigente_Some)
  have p: "pick_con (lee_diario crc) (copias_leidas dir m) = Inr (i, f)"
    using v unfolding vigente_def pick_con_iff by blast
  then have jp: "journal_pick crc (copias_leidas dir m) = Inr j"
    using f by (simp add: journal_pick_def record_pick_def)
  have "\<not> (leer_copia m (fst (copias dir)) = [] \<and> leer_copia m (snd (copias dir)) = [])"
    using v by (auto simp: vigente_def mejor_ok_def copias_leidas_def less_Suc_eq lee_diario_vacio)
  then show ?thesis
    using jp by (simp add: leer_diario_def copias_leidas_def prod.case_eq_if Let_def)
qed

text \<open>Only files and power change while the applier runs.\<close>

definition mismo_resto :: "maquina \<Rightarrow> maquina \<Rightarrow> bool" where
  "mismo_resto m n = (m_montado n = m_montado m \<and> m_base n = m_base m \<and> m_esp n = m_esp m \<and>
     m_esp_legible n = m_esp_legible m)"

lemma vfs_conserva: "ops_conservan (mismo_resto m) (vfs_sistema crc dir)"
  by (auto simp: ops_conservan_def mismo_resto_def vfs_sistema_def vfs_escribir_def vfs_borrar_def
      escribir_diario_eq vfs_create_file_def vfs_unlink_def split: option.splits)

lemma mismo_resto_refl [simp]: "mismo_resto m m"
  by (simp add: mismo_resto_def)

lemma mismo_resto_esp:
  "mismo_resto m n \<Longrightarrow> esp_vigente crc n r = esp_vigente crc m r"
  "mismo_resto m n \<Longrightarrow> ranura_esp n k = ranura_esp m k"
  "mismo_resto m n \<Longrightarrow> publicable crc n r = publicable crc m r"
  by (simp_all add: mismo_resto_def esp_vigente_def ranura_esp_def publicable_def)

lemma mismos_ficheros:
  assumes "m_ficheros n = m_ficheros m"
  shows "fichero_activo n = fichero_activo m" "en_etapa dir n = en_etapa dir m"
    "en_respaldo dir n = en_respaldo dir m" "diario_vigente crc dir n = diario_vigente crc dir m"
  using assms
  by (auto simp: fichero_activo_def en_etapa_def en_respaldo_def fun_eq_iff intro: diario_vigente_cong)

lemma publicar_pareja:
  assumes p: "pareja_ok crc m r j" and pub: "publicable crc m r"
    and d: "d \<in> {DProbando, DConfirmado, DRevertido}" "(d, j_estado j) \<in> parejas"
    and m': "m' = publicar crc (EspRegistro r) d (j_id j) m"
  shows "(pareja_ok crc m' r j \<or> pareja_ok crc m' (publicado r d) j) \<and> m_ficheros m' = m_ficheros m \<and>
    (vivo m' \<longrightarrow> pareja_ok crc m' (publicado r d) j)"
proof -
  have v: "esp_vigente crc m r" and i: "b_id r = j_id j" using p by (simp_all add: pareja_ok_def)
  have pb: "b_seq r \<noteq> - 1" "bootrec_cabe crc (publicado r d)"
    "mezcla_detectada crc (ranura_esp m (bootrec_ranura (publicado r d))) (bootrec_bytes crc (publicado r d))"
    using pub d(1) by (auto simp: publicable_def)
  note c = publicar_corte [OF v pb m' [folded i]]
  have f: "m_ficheros m' = m_ficheros m" "m_montado m' = m_montado m"
    using c(3) by (metis maquina.select_convs(1,2) maquina.surjective maquina.update_convs(4,7))+
  note mf = mismos_ficheros [OF f(1)]
  have "b_dir (publicado r d) = b_dir r" "b_id (publicado r d) = b_id r" "b_decision (publicado r d) = d"
    by (simp_all add: publicado_def)
  then show ?thesis using p c(1,2) d(2) f mf by (auto simp: pareja_ok_def)
qed

section \<open>One boot\<close>

text \<open>What a boot leaves: the same operation in a pair of the protocol, and nothing outside it
  touched.\<close>

definition tras_arranque :: "(bytes \<Rightarrow> u32) \<Rightarrow> maquina \<Rightarrow> boot_record \<Rightarrow> journal \<Rightarrow> maquina \<Rightarrow> boot_record
    \<Rightarrow> journal \<Rightarrow> bool" where
  "tras_arranque crc m r j m' r' j' \<longleftrightarrow> pareja_ok crc m' r' j' \<and> misma j j' \<and> b_dir r' = b_dir r \<and>
     (\<forall>q. ruta_sistema q \<longrightarrow> en_etapa (b_dir r) m' q = en_etapa (b_dir r) m q
        \<and> en_respaldo (b_dir r) m' q = en_respaldo (b_dir r) m q) \<and>
     (\<forall>q. ruta_sistema q \<longrightarrow> q \<notin> e_path ` set (j_entradas j) \<longrightarrow> fichero_activo m' q = fichero_activo m q)"

lemma ejecutar_corte:
  assumes p: "pareja_ok crc m r j" and seq: "unat (j_seq j) + length (j_entradas j) < 2 ^ 64 - 3"
    and e: "if apl then j_estado j \<in> {Armado, Aplicando} else b_decision r = DProbando \<and> j_estado j \<in> {Probando, Revirtiendo}"
    and run: "ejecutar crc sha (b_dir r) (JDiario j) apl m = (ok, m1)"
  shows "\<exists>h. tras_arranque crc m r j m1 r h \<and> mismo_resto m m1 \<and>
    (ok \<longrightarrow> j_estado h = (if apl then Probando else Revertido))"
proof -
  define ops where "ops = vfs_sistema crc (b_dir r)"
  have d: "diario_vigente crc (b_dir r) m = Some j"
    and coh: "coherente (fichero_activo m) (en_etapa (b_dir r) m) (en_respaldo (b_dir r) m) j"
    and adm: "vfs.admisible j" and par: "(b_decision r, j_estado j) \<in> parejas"
    using p operacion_admisible by (auto simp: pareja_ok_def)
  obtain x k m0 where x0: "(if apl then aplicar sha ops j m else revertir sha ops j m) = (x, k, m0)"
    by (metis prod_cases3)
  then have x: "(if apl then aplicar sha ops j m else revertir sha ops j m) = (x, k, m1)" "ok = is_ok x"
    using run by (cases apl; simp add: ejecutar_def ops_def)+
  have "snd (snd (if apl then aplicar sha ops j m else revertir sha ops j m)) = m1" using x by simp
  then have mr: "mismo_resto m m1"
    using aplicar_conserva [OF vfs_conserva [of m crc "b_dir r"], of m sha j]
      revertir_conserva [OF vfs_conserva [of m crc "b_dir r"], of m sha j]
    by (auto simp: ops_def split: if_splits)
  have "\<exists>h. vfs.estable (b_dir r) crc j m m1 h \<and> (b_decision r, j_estado h) \<in> parejas \<and>
      (x = Inr () \<longrightarrow> j_estado h = (if apl then Probando else Revertido))"
  proof (cases apl)
    case True
    then obtain h where h: "vfs.estable (b_dir r) crc j m m1 h" "j_estado h \<in> {j_estado j, Aplicando, Probando}"
        "x = Inr () \<longrightarrow> j_estado h \<in> {Probando, Confirmado}"
      using vfs.aplicar_corte [OF d coh adm _ seq, of sha x k m1] x e by (auto simp: ops_def)
    moreover have "b_decision r = DArmado" using par e True by (auto simp: parejas_def)
    ultimately show ?thesis using e True by (auto simp: parejas_def)
  next
    case False
    then obtain h where h: "vfs.estable (b_dir r) crc j m m1 h" "j_estado h \<in> {j_estado j, Revirtiendo, Revertido}"
        "x = Inr () \<longrightarrow> j_estado h = Revertido"
      using vfs.revertir_corte [OF d coh adm _ seq, of sha x k m1] x e by (auto simp: ops_def)
    then show ?thesis using e False par by (auto simp: parejas_def)
  qed
  then obtain h where h: "vfs.estable (b_dir r) crc j m m1 h" "(b_decision r, j_estado h) \<in> parejas"
      "x = Inr () \<longrightarrow> j_estado h = (if apl then Probando else Revertido)" by blast
  have "misma j h" using h(1) by (simp add: vfs.estable_def)
  then have "operacion_ok h" "j_id h = j_id j"
    using p misma_operacion misma_entradas(8) by (auto simp: pareja_ok_def)
  then have "tras_arranque crc m r j m1 r h"
    using h(1,2) p mr mismo_resto_esp(1) [OF mr, of crc r]
    by (simp add: tras_arranque_def vfs.estable_def pareja_ok_def mismo_resto_def)
  then show ?thesis using mr h(3) x(2) by (cases x) auto
qed

lemma tras_publicar:
  assumes t: "tras_arranque crc m r j m1 r h" and pub: "publicable crc m1 r"
    and d: "d \<in> {DProbando, DConfirmado, DRevertido}" "(d, j_estado h) \<in> parejas"
    and m2: "m2 = publicar crc (EspRegistro r) d (j_id j) m1"
  shows "\<exists>r'. tras_arranque crc m r j m2 r' h"
proof -
  have p: "pareja_ok crc m1 r h" and "j_id h = j_id j"
    using t misma_entradas(8) by (auto simp: tras_arranque_def)
  then have pp: "(pareja_ok crc m2 r h \<or> pareja_ok crc m2 (publicado r d) h) \<and> m_ficheros m2 = m_ficheros m1"
    using publicar_pareja [OF p pub d] m2 by simp
  have "b_dir (publicado r d) = b_dir r" by (simp add: publicado_def)
  then show ?thesis
    using t pp mismos_ficheros [of m2 m1] unfolding tras_arranque_def by metis
qed

lemma tomar_cerrojo:
  "tras_arranque crc m r j (tomar_por_el_kernel m1) r' h = tras_arranque crc m r j m1 r' h"
  "vivo (tomar_por_el_kernel m1) = vivo m1"
  by (simp_all add: tras_arranque_def pareja_ok_def tomar_por_el_kernel_def esp_vigente_def vivo_def
      fichero_activo_def [abs_def] en_etapa_def [abs_def] en_respaldo_def [abs_def] diario_vigente_def
      copias_leidas_def leer_copia_def)

lemma recuperar_pareja:
  assumes "pareja_ok crc m r j"
  shows "recuperar crc sha m =
    (let esp = EspRegistro r; dir = b_dir r; diario = JDiario j; i = j_id j in
     case (b_decision r, j_estado j) of
       (DArmado, Probando) \<Rightarrow> (True, tomar_por_el_kernel (publicar crc esp DProbando i m))
     | (DArmado, _) \<Rightarrow>
         (case ejecutar crc sha dir diario True m of (ok, m1) \<Rightarrow>
            (ok, if ok then tomar_por_el_kernel (publicar crc esp DProbando i m1) else m1))
     | (DProbando, Confirmado) \<Rightarrow> (True, publicar crc esp DConfirmado i m)
     | (DProbando, Revertido) \<Rightarrow> (True, publicar crc esp DRevertido i m)
     | (DProbando, _) \<Rightarrow>
         (case ejecutar crc sha dir diario False m of (ok, m1) \<Rightarrow>
            (ok, if ok then publicar crc esp DRevertido i m1 else m1))
     | _ \<Rightarrow> (True, m))"
proof -
  have "leer_bootrec crc m = EspRegistro r" "leer_diario crc (b_dir r) m = JDiario j" "m_montado m"
    "b_id r = j_id j" "(b_decision r, j_estado j) \<in> parejas"
    using assms leer_bootrec_vigente leer_diario_vigente by (auto simp: pareja_ok_def)
  then show ?thesis
    by (auto simp: recuperar_def Let_def parejas_def reconcile_defs)
qed

lemma recuperar_corte:
  assumes p: "pareja_ok crc m r j" and seq: "unat (j_seq j) + length (j_entradas j) < 2 ^ 64 - 3"
    and pub: "publicable crc m r" and run: "recuperar crc sha m = (ok, m')"
  shows "\<exists>r' j'. tras_arranque crc m r j m' r' j' \<and> (ok \<longrightarrow> j_estado j' \<in> {Probando, Confirmado, Revertido})"
proof -
  note rp = recuperar_pareja [OF p, of sha, unfolded run Let_def]
  have ini: "tras_arranque crc m r j m r j" using p by (simp add: tras_arranque_def)
  have par: "(b_decision r, j_estado j) \<in> parejas" using p by (simp add: pareja_ok_def)
  have publica: "\<exists>r' j'. tras_arranque crc m r j m2 r' j' \<and> j_estado j' \<in> {Probando, Confirmado, Revertido}"
    if "tras_arranque crc m r j m1 r h" "mismo_resto m m1" "(d, j_estado h) \<in> {(DProbando, Probando), (DConfirmado, Confirmado), (DRevertido, Revertido)}"
      "m2 = publicar crc (EspRegistro r) d (j_id j) m1" for m1 m2 h d
  proof -
    have "publicable crc m1 r" using pub mismo_resto_esp(3) [OF that(2)] by simp
    then show ?thesis using tras_publicar [OF that(1) _ _ _ that(4)] that(3) by (auto simp: parejas_def)
  qed
  have ejecuta: "\<exists>r' j'. tras_arranque crc m r j m' r' j' \<and> (ok \<longrightarrow> j_estado j' \<in> {Probando, Confirmado, Revertido})"
    if e: "if apl then j_estado j \<in> {Armado, Aplicando} else b_decision r = DProbando \<and> j_estado j \<in> {Probando, Revirtiendo}"
      and r: "ejecutar crc sha (b_dir r) (JDiario j) apl m = (o1, m1)" and d: "d = (if apl then DProbando else DRevertido)"
      and f: "ok = o1" "m' = (if o1 then publicar crc (EspRegistro r) d (j_id j) m1 else m1)
        \<or> m' = (if o1 then tomar_por_el_kernel (publicar crc (EspRegistro r) d (j_id j) m1) else m1)"
    for apl o1 m1 d
  proof -
    obtain h where h: "tras_arranque crc m r j m1 r h" "mismo_resto m m1" "o1 \<longrightarrow> j_estado h = (if apl then Probando else Revertido)"
      using ejecutar_corte [OF p seq e r] by blast
    show ?thesis
    proof (cases o1)
      case True
      then have "(d, j_estado h) \<in> {(DProbando, Probando), (DConfirmado, Confirmado), (DRevertido, Revertido)}"
        using h(3) d by auto
      from publica [OF h(1,2) this refl] obtain r' j' where
        q: "tras_arranque crc m r j (publicar crc (EspRegistro r) d (j_id j) m1) r' j'"
          "j_estado j' \<in> {Probando, Confirmado, Revertido}" by blast
      then have "tras_arranque crc m r j m' r' j'" using f True tomar_cerrojo(1) by auto
      then show ?thesis using q by blast
    next
      case False
      then show ?thesis using h f by auto
    qed
  qed
  obtain oa ma ob mb where ej: "ejecutar crc sha (b_dir r) (JDiario j) True m = (oa, ma)"
      "ejecutar crc sha (b_dir r) (JDiario j) False m = (ob, mb)" by (metis surj_pair)
  from par consider "b_decision r = DArmado" "j_estado j \<in> {Armado, Aplicando}"
    | "b_decision r = DArmado" "j_estado j = Probando"
    | "b_decision r = DProbando" "j_estado j \<in> {Probando, Revirtiendo}"
    | "b_decision r = DProbando" "j_estado j = Confirmado"
    | "b_decision r = DProbando" "j_estado j = Revertido"
    | "(b_decision r, j_estado j) \<in> {(DConfirmado, Confirmado), (DRevertido, Revertido)}"
    by (auto simp: parejas_def)
  then show ?thesis
  proof cases
    case 1
    then show ?thesis using rp ejecuta [of True oa ma DProbando] ej by auto
  next
    case 2
    then show ?thesis using rp publica [OF ini mismo_resto_refl _ refl, of DProbando] tomar_cerrojo(1) by auto
  next
    case 3
    then show ?thesis using rp ejecuta [of False ob mb DRevertido] ej by auto
  next
    case 4
    then show ?thesis using rp publica [OF ini mismo_resto_refl _ refl, of DConfirmado] by auto
  next
    case 5
    then show ?thesis using rp publica [OF ini mismo_resto_refl _ refl, of DRevertido] by auto
  next
    case 6
    then have "m' = m" "j_estado j \<in> {Probando, Confirmado, Revertido}" using rp by auto
    then show ?thesis using ini by blast
  qed
qed

text \<open>With power for the whole inventory, one boot closes the pair.\<close>

lemma aguanta_vivo_m: "aguanta m n \<Longrightarrow> vivo m"
  by (simp add: aguanta_def vivo_def)

lemma publicar_vive:
  assumes p: "pareja_ok crc m r j" and pub: "publicable crc m r"
    and d: "d \<in> {DProbando, DConfirmado, DRevertido}" "(d, j_estado j) \<in> parejas" and ag: "aguanta m (Suc n)"
  shows "pareja_ok crc (publicar crc (EspRegistro r) d (j_id j) m) (publicado r d) j"
    and "aguanta (publicar crc (EspRegistro r) d (j_id j) m) n"
proof -
  define m' where "m' = publicar crc (EspRegistro r) d (j_id j) m"
  have v: "esp_vigente crc m r" and i: "b_id r = j_id j" using p by (simp_all add: pareja_ok_def)
  have "m' = m\<lparr>m_esp := m_esp m', m_energia := m_energia m - 2\<rparr>"
    using publicar_corte(3) [OF v _ _ _ m'_def [folded i]] pub d(1) by (auto simp: publicable_def)
  then have "m_energia m' = m_energia m - 2" by (metis maquina.select_convs(7) maquina.surjective maquina.update_convs(4,7))
  then show a: "aguanta (publicar crc (EspRegistro r) d (j_id j) m) n"
    using ag by (simp add: aguanta_def m'_def)
  show "pareja_ok crc (publicar crc (EspRegistro r) d (j_id j) m) (publicado r d) j"
    using publicar_pareja [OF p pub d refl] aguanta_vivo_m [OF a] by blast
qed

definition material_completo :: "(bytes \<Rightarrow> hash256) \<Rightarrow> maquina \<Rightarrow> string \<Rightarrow> journal \<Rightarrow> bool" where
  "material_completo sha m dir j =
     list_all (\<lambda>e. material_nuevo sha (en_etapa dir m) e \<and> material_viejo sha (en_respaldo dir m) e) (j_entradas j)"

lemma ejecutar_vive:
  assumes p: "pareja_ok crc m r j" and seq: "unat (j_seq j) + length (j_entradas j) < 2 ^ 64 - 3"
    and mat: "material_completo sha m (b_dir r) j"
    and e: "if apl then j_estado j \<in> {Armado, Aplicando} else b_decision r = DProbando \<and> j_estado j \<in> {Probando, Revirtiendo}"
    and ag: "aguanta m (2 * length (j_entradas j) + 2 + n)"
  shows "\<exists>m1 h. ejecutar crc sha (b_dir r) (JDiario j) apl m = (True, m1) \<and> aguanta m1 n \<and>
    tras_arranque crc m r j m1 r h \<and> mismo_resto m m1 \<and> j_estado h = (if apl then Probando else Revertido)"
proof -
  define ops where "ops = vfs_sistema crc (b_dir r)"
  have d: "diario_vigente crc (b_dir r) m = Some j"
    and coh: "coherente (fichero_activo m) (en_etapa (b_dir r) m) (en_respaldo (b_dir r) m) j"
    and adm: "vfs.admisible j" using p operacion_admisible by (auto simp: pareja_ok_def)
  have "\<exists>k t. (if apl then aplicar sha ops j m else revertir sha ops j m) = (Inr (), k, t) \<and> aguanta t n"
  proof (cases apl)
    case True
    then show ?thesis
      using vfs.aplicar_completa [OF d coh adm _ seq _ ag, of sha] e mat
      by (auto simp: ops_def material_completo_def list_all_iff)
  next
    case False
    then show ?thesis
      using vfs.revertir_completa [OF d coh adm _ seq _ ag, of sha] e mat
      by (auto simp: ops_def material_completo_def list_all_iff)
  qed
  then obtain k t where t: "(if apl then aplicar sha ops j m else revertir sha ops j m) = (Inr (), k, t)" "aguanta t n"
    by blast
  then have "ejecutar crc sha (b_dir r) (JDiario j) apl m = (True, t)"
    by (cases apl; simp add: ejecutar_def ops_def)
  then show ?thesis using ejecutar_corte [OF p seq e] t(2) by blast
qed

definition parejas_finales :: "(decision \<times> txn_state) set" where
  "parejas_finales = {(DProbando, Probando), (DConfirmado, Confirmado), (DRevertido, Revertido)}"

lemma recuperar_completa:
  assumes p: "pareja_ok crc m r j" and seq: "unat (j_seq j) + length (j_entradas j) < 2 ^ 64 - 3"
    and pub: "publicable crc m r" and mat: "material_completo sha m (b_dir r) j"
    and ag: "aguanta m (2 * length (j_entradas j) + 3)"
  shows "\<exists>m' r' j'. recuperar crc sha m = (True, m') \<and> tras_arranque crc m r j m' r' j' \<and>
    (b_decision r', j_estado j') \<in> parejas_finales"
proof -
  have ini: "tras_arranque crc m r j m r j" using p by (simp add: tras_arranque_def)
  have par: "(b_decision r, j_estado j) \<in> parejas" using p by (simp add: pareja_ok_def)
  have publica: "\<exists>r' j'. tras_arranque crc m r j m2 r' j' \<and> (b_decision r', j_estado j') \<in> parejas_finales"
    if t: "tras_arranque crc m r j m1 r h" "mismo_resto m m1" "(d, j_estado h) \<in> parejas_finales" "aguanta m1 (Suc 0)"
      and m2: "m2 = publicar crc (EspRegistro r) d (j_id j) m1
        \<or> m2 = tomar_por_el_kernel (publicar crc (EspRegistro r) d (j_id j) m1)" for m1 m2 h d
  proof -
    define mp where "mp = publicar crc (EspRegistro r) d (j_id j) m1"
    have h: "pareja_ok crc m1 r h" "j_id h = j_id j" using t(1) misma_entradas(8) by (auto simp: tras_arranque_def)
    have pb: "publicable crc m1 r" using pub mismo_resto_esp(3) [OF t(2)] by simp
    have d: "d \<in> {DProbando, DConfirmado, DRevertido}" "(d, j_estado h) \<in> parejas"
      using t(3) by (auto simp: parejas_finales_def parejas_def)
    have q: "pareja_ok crc mp (publicado r d) h"
      using publicar_vive(1) [OF h(1) pb d t(4)] h(2) by (simp add: mp_def)
    have f: "m_ficheros mp = m_ficheros m1"
      using publicar_pareja [OF h(1) pb d refl] h(2) by (simp add: mp_def)
    have "tras_arranque crc m r j mp (publicado r d) h"
      using t(1) q mismos_ficheros [OF f] by (simp add: tras_arranque_def publicado_def)
    then have "tras_arranque crc m r j m2 (publicado r d) h" using m2 tomar_cerrojo(1) by (auto simp: mp_def)
    moreover have "(b_decision (publicado r d), j_estado h) \<in> parejas_finales" using t(3) by (simp add: publicado_def)
    ultimately show ?thesis by blast
  qed
  have ag1: "aguanta m (Suc 0)" and ag2: "aguanta m (2 * length (j_entradas j) + 2 + Suc 0)"
    using ag by (simp_all add: aguanta_def)
  note rp = recuperar_pareja [OF p, of sha, unfolded Let_def]
  have directo: ?thesis if "recuperar crc sha m = (True, m2)" "(d, j_estado j) \<in> parejas_finales"
      "m2 = publicar crc (EspRegistro r) d (j_id j) m
        \<or> m2 = tomar_por_el_kernel (publicar crc (EspRegistro r) d (j_id j) m)" for m2 d
    using publica [OF ini mismo_resto_refl that(2) ag1 that(3)] that(1) by blast
  have ejecuta: ?thesis
    if e: "if apl then j_estado j \<in> {Armado, Aplicando} else b_decision r = DProbando \<and> j_estado j \<in> {Probando, Revirtiendo}"
      and d: "d = (if apl then DProbando else DRevertido)"
      and rec: "\<And>m1. ejecutar crc sha (b_dir r) (JDiario j) apl m = (True, m1) \<Longrightarrow>
        recuperar crc sha m = (True, publicar crc (EspRegistro r) d (j_id j) m1) \<or>
        recuperar crc sha m = (True, tomar_por_el_kernel (publicar crc (EspRegistro r) d (j_id j) m1))"
    for apl d
  proof -
    obtain m1 h where x: "ejecutar crc sha (b_dir r) (JDiario j) apl m = (True, m1)" "aguanta m1 (Suc 0)"
        "tras_arranque crc m r j m1 r h" "mismo_resto m m1" "j_estado h = (if apl then Probando else Revertido)"
      using ejecutar_vive [OF p seq mat e ag2] by blast
    have "(d, j_estado h) \<in> parejas_finales" using x(5) d by (simp add: parejas_finales_def)
    note pu = publica [OF x(3,4) this x(2)]
    show ?thesis using rec [OF x(1)] pu by blast
  qed
  from par consider "b_decision r = DArmado" "j_estado j \<in> {Armado, Aplicando}"
    | "b_decision r = DArmado" "j_estado j = Probando"
    | "b_decision r = DProbando" "j_estado j \<in> {Probando, Revirtiendo}"
    | "b_decision r = DProbando" "j_estado j = Confirmado"
    | "b_decision r = DProbando" "j_estado j = Revertido"
    | "(b_decision r, j_estado j) \<in> {(DConfirmado, Confirmado), (DRevertido, Revertido)}"
    by (auto simp: parejas_def)
  then show ?thesis
  proof cases
    case 1
    then show ?thesis by (intro ejecuta [of True DProbando]) (auto simp: rp)
  next
    case 2
    then show ?thesis by (intro directo [of _ DProbando]) (auto simp: rp parejas_finales_def)
  next
    case 3
    then show ?thesis by (intro ejecuta [of False DRevertido]) (auto simp: rp)
  next
    case 4
    then show ?thesis by (intro directo [of _ DConfirmado]) (auto simp: rp parejas_finales_def)
  next
    case 5
    then show ?thesis by (intro directo [of _ DRevertido]) (auto simp: rp parejas_finales_def)
  next
    case 6
    then have "recuperar crc sha m = (True, m)" "(b_decision r, j_estado j) \<in> parejas_finales"
      by (auto simp: rp parejas_finales_def)
    then show ?thesis using ini by blast
  qed
qed

section \<open>Confirmation\<close>

lemma escribir_diario_corte:
  assumes p: "pareja_ok crc m r j" and av: "avanzar j PruebaSuperada = Inr k" and seq: "j_seq j \<noteq> - 1"
    and e: "b_decision r = DProbando" and m1: "m1 = snd (escribir_diario crc (b_dir r) m k)"
  shows "(pareja_ok crc m1 r j \<or> pareja_ok crc m1 r k) \<and> (vivo m1 \<longrightarrow> pareja_ok crc m1 r k) \<and>
    mismo_resto m m1 \<and> misma j k \<and> j_estado k = Confirmado"
proof -
  have d: "diario_vigente crc (b_dir r) m = Some j" using p by (simp add: pareja_ok_def)
  have k: "j_estado j = Probando" "k = j\<lparr>j_estado := Confirmado, j_seq := j_seq j + 1\<rparr>"
    using av txn_next_Inr_cases by (auto simp: avanzar_Inr)
  then have mk: "misma j k" by simp
  have ok: "operacion_ok k" using p misma_operacion [OF mk] by (simp add: pareja_ok_def)
  have suc: "sucesor j k" using ok seq k(2) by (simp add: sucesor_def operacion_ok_def)
  obtain b where g: "s_guardar_diario (vfs_sistema crc (b_dir r)) m k = (b, m1)"
    using m1 by (simp add: vfs_sistema_def) (metis prod.collapse)
  note gm = vfs.guardar_marco [OF d suc g]
  have mr: "mismo_resto m m1"
    using vfs_conserva [of m crc "b_dir r"] g unfolding ops_conservan_def by (metis mismo_resto_refl snd_conv)
  have rutas: "ruta_sistema (e_path e)" if "e \<in> set (j_entradas h)" "operacion_ok h" for e h
    using that by (auto simp: operacion_ok_def list_all_iff)
  have cj: "coherente (fichero_activo m1) (en_etapa (b_dir r) m1) (en_respaldo (b_dir r) m1) h =
      coherente (fichero_activo m) (en_etapa (b_dir r) m) (en_respaldo (b_dir r) m) h" if "operacion_ok h" for h
    by (rule coherente_cong) (use gm rutas [OF _ that] in auto)
  have "coherente (fichero_activo m) (en_etapa (b_dir r) m) (en_respaldo (b_dir r) m) k"
    using p k by (simp add: pareja_ok_def coherente_estado)
  moreover have "vivo m1 \<longrightarrow> b"
    using g by (auto simp: vfs_sistema_def escribir_diario_eq vfs_create_file_def vfs_unlink_def vivo_def split: if_splits)
  ultimately show ?thesis
    using gm p ok cj mr mismo_resto_esp(1) [OF mr, of crc r] k e mk misma_entradas(8) [OF mk]
    by (auto simp: pareja_ok_def mismo_resto_def parejas_def)
qed

lemma liberar_pareja: "pareja_ok crc (liberar_del_kernel m) r j = pareja_ok crc m r j"
  by (simp add: pareja_ok_def liberar_del_kernel_def esp_vigente_def
      fichero_activo_def [abs_def] en_etapa_def [abs_def] en_respaldo_def [abs_def] diario_vigente_def
      copias_leidas_def leer_copia_def)

lemma publicar_muerto:
  assumes "\<not> vivo m"
  shows "publicar crc esp d i m = m"
proof -
  have "esp_escribir m off t = m" for off t
    using assms by (auto simp: esp_escribir_def vivo_def split: option.splits)
  then have "escribir_sectores m off ts = m" for off ts by (induction ts arbitrary: off) simp_all
  then show ?thesis by (simp add: publicar_def Let_def split: sum.splits estado_esp.splits)
qed

lemma confirmar_corte:
  assumes p: "pareja_ok crc m r j" and e: "b_decision r = DProbando" "j_estado j \<in> {Probando, Confirmado}"
    and seq: "j_seq j \<noteq> - 1" and pub: "publicable crc m r" and run: "confirmar crc m = (ok, m')"
  shows "ok" and "\<exists>r' j'. pareja_ok crc m' r' j' \<and> misma j j' \<and> j_estado j' \<in> {Probando, Confirmado} \<and>
    (b_decision r' = DConfirmado \<longrightarrow> j_estado j' = Confirmado) \<and> (vivo m' \<longrightarrow> b_decision r' = DConfirmado)"
proof -
  have lb: "leer_bootrec crc m = EspRegistro r" "leer_diario crc (b_dir r) m = JDiario j" "b_id r = j_id j"
    using p leer_bootrec_vigente leer_diario_vigente by (auto simp: pareja_ok_def)
  define m1 where "m1 = (case avanzar j PruebaSuperada of
      Inr k \<Rightarrow> snd (escribir_diario crc (b_dir r) m k) | Inl _ \<Rightarrow> m)"
  define m2 where "m2 = publicar crc (EspRegistro r) DConfirmado (j_id j) m1"
  have run2: "ok = True" "m' = liberar_del_kernel m2"
    using run lb e(1) by (simp_all add: confirmar_def Let_def m1_def m2_def split: sum.splits)
  then show ok by simp
  obtain h where h: "pareja_ok crc m1 r h" "misma j h" "j_estado h \<in> {Probando, Confirmado}"
      "vivo m1 \<longrightarrow> j_estado h = Confirmado" "mismo_resto m m1"
  proof (cases "j_estado j = Probando")
    case True
    then obtain k where av: "avanzar j PruebaSuperada = Inr k" by (simp add: avanzar_def txn_next_def)
    then show ?thesis
      using escribir_diario_corte [OF p av seq e(1), of m1] that True by (auto simp: m1_def)
  next
    case False
    then have "j_estado j = Confirmado" using e(2) by simp
    moreover from this have "m1 = m" by (simp add: m1_def avanzar_def txn_next_def)
    ultimately show ?thesis using that [of j] p by simp
  qed
  have hid: "j_id h = j_id j" using misma_entradas(8) [OF h(2)] .
  have pb: "publicable crc m1 r" using pub mismo_resto_esp(3) [OF h(5)] by simp
  show "\<exists>r' j'. pareja_ok crc m' r' j' \<and> misma j j' \<and> j_estado j' \<in> {Probando, Confirmado} \<and>
    (b_decision r' = DConfirmado \<longrightarrow> j_estado j' = Confirmado) \<and> (vivo m' \<longrightarrow> b_decision r' = DConfirmado)"
  proof (cases "vivo m1")
    case True
    then have hc: "j_estado h = Confirmado" using h(4) by simp
    have par: "(DConfirmado, j_estado h) \<in> parejas" using hc by (simp add: parejas_def)
    have pp: "(pareja_ok crc m2 r h \<or> pareja_ok crc m2 (publicado r DConfirmado) h) \<and>
        (vivo m2 \<longrightarrow> pareja_ok crc m2 (publicado r DConfirmado) h)"
      using publicar_pareja [OF h(1) pb _ par] hid by (simp add: m2_def)
    have "b_decision (publicado r DConfirmado) = DConfirmado" by (simp add: publicado_def)
    moreover have "vivo m' = vivo m2" by (simp add: run2 vivo_def liberar_del_kernel_def)
    ultimately show ?thesis using pp hc h(2) liberar_pareja unfolding run2 by (metis insertCI)
  next
    case False
    have "m2 = m1" unfolding m2_def using False by (rule publicar_muerto)
    then have "pareja_ok crc m' r h" "\<not> vivo m'"
      using h(1) False liberar_pareja run2 by (simp_all add: vivo_def liberar_del_kernel_def)
    then show ?thesis using h(2,3) e(1) by (intro exI [of _ r] exI [of _ h]) auto
  qed
qed

section \<open>Two ways the protocol goes wrong\<close>

lemma bucle_estado: "j_estado (fst (snd (aplicar_loop sha ops is j s))) = j_estado j"
proof (induction "is" arbitrary: j s)
  case (Cons i "is")
  have p: "j_estado (fst (snd (paso_aplicar sha ops j i s))) = j_estado j"
    by (auto simp: paso_aplicar_def Let_def split: option.splits prod.splits)
  obtain r k t where q: "paso_aplicar sha ops j i s = (r, k, t)" by (metis prod_cases3)
  show ?case
  proof (cases r)
    case (Inr u)
    obtain x h v where g: "guardar ops (k\<lparr>j_seq := j_seq k + 1\<rparr>) t = (x, h, v)" by (metis prod_cases3)
    then have "h = k\<lparr>j_seq := j_seq k + 1\<rparr>" by (auto simp: guardar_def split: prod.splits)
    then show ?thesis using Cons.IH [of j s] Cons.IH [of h v] p q Inr g by (cases x) auto
  qed (use Cons.IH [of j s] p q in auto)
qed simp

lemma aplicar_preparado:
  assumes "j_estado j = Preparado"
  shows "\<exists>f. fst (aplicar sha ops j s) = Inl f"
proof -
  have av: "avanzar j AplicacionIniciada = Inl \<lparr>desde = Preparado, evento = AplicacionIniciada\<rparr>"
    using assms by (simp add: avanzar_def txn_next_def)
  obtain r1 k1 t1 where g: "guardar ops j s = (r1, k1, t1)" by (metis prod_cases3)
  then have k1: "k1 = j" by (auto simp: guardar_def split: prod.splits)
  obtain r2 k2 t2 where l: "aplicar_loop sha ops [0..<length (j_entradas j)] j t1 = (r2, k2, t2)" by (metis prod_cases3)
  then have "j_estado k2 = Preparado" using bucle_estado [of sha ops "[0..<length (j_entradas j)]" j t1] assms by simp
  then have "avanzar k2 AplicacionCompleta = Inl \<lparr>desde = Preparado, evento = AplicacionCompleta\<rparr>"
    by (simp add: avanzar_def txn_next_def)
  then show ?thesis
    using assms av g k1 l \<open>j_estado k2 = Preparado\<close> by (cases r1; cases r2) (auto simp: aplicar_def)
qed

text \<open>What the applier touches when it does not find the state it expects: the paths of the inventory and the
  copies of the journal.\<close>

definition solo_operacion :: "string \<Rightarrow> string set \<Rightarrow> maquina \<Rightarrow> maquina \<Rightarrow> bool" where
  "solo_operacion dir ps m n \<longleftrightarrow> (\<forall>q. q \<notin> (@) ''/'' ` ps \<longrightarrow> q \<noteq> fst (copias dir) \<longrightarrow> q \<noteq> snd (copias dir) \<longrightarrow>
     m_ficheros n q = m_ficheros m q)"

lemma solo_operacion_trans [trans]:
  "solo_operacion dir ps a b \<Longrightarrow> solo_operacion dir ps b c \<Longrightarrow> solo_operacion dir ps a c"
  by (simp add: solo_operacion_def)

lemma guardar_solo:
  assumes "guardar (vfs_sistema crc dir) k m = (x, h, n)"
  shows "solo_operacion dir ps m n" "h = k"
  using assms
  by (auto simp: guardar_def vfs_sistema_def escribir_diario_eq solo_operacion_def vfs_create_file_def vfs_unlink_def copia_de_def
      split: prod.splits if_splits)

lemma paso_aplicar_solo:
  assumes p: "e_path (j_entradas k ! i) \<in> ps" "ruta_sistema (e_path (j_entradas k ! i))"
    and run: "paso_aplicar sha (vfs_sistema crc dir) k i m = (x, h, n)"
  shows "solo_operacion dir ps m n" "map e_path (j_entradas h) = map e_path (j_entradas k)"
proof -
  show "solo_operacion dir ps m n"
    using run p(2)
  proof (cases rule: vfs.paso_aplicar_casos)
    case (escribe d ok)
    then show ?thesis
      using p by (auto simp: vfs_sistema_def vfs_escribir_eq solo_operacion_def vfs_create_file_def vfs_unlink_def split: if_splits)
  next
    case (borra ok)
    then show ?thesis using p by (auto simp: vfs_sistema_def vfs_borrar_eq solo_operacion_def vfs_unlink_def)
  qed (simp add: solo_operacion_def)
  have "h = k \<or> h = con_progreso k i Aplicado"
    using run by (auto simp: paso_aplicar_def Let_def split: option.splits prod.splits if_splits accion.splits)
  then show "map e_path (j_entradas h) = map e_path (j_entradas k)"
    using misma_entradas(2) [of k "con_progreso k i Aplicado"] by auto
qed

lemma aplicar_loop_solo:
  "aplicar_loop sha (vfs_sistema crc dir) is k m = (x, h, n) \<Longrightarrow> set is \<subseteq> {..<length (j_entradas k)} \<Longrightarrow>
   \<forall>p \<in> set (map e_path (j_entradas k)). p \<in> ps \<and> ruta_sistema p \<Longrightarrow> solo_operacion dir ps m n"
proof (induction "is" arbitrary: k m)
  case (Cons i "is")
  show ?case
  proof (cases "e_progreso (j_entradas k ! i) = Aplicado")
    case True
    then show ?thesis using Cons by simp
  next
    case False
    obtain r1 k1 m1 where p: "paso_aplicar sha (vfs_sistema crc dir) k i m = (r1, k1, m1)" by (metis prod_cases3)
    have "e_path (j_entradas k ! i) \<in> ps \<and> ruta_sistema (e_path (j_entradas k ! i))" using Cons.prems(2,3) by simp
    then have s1: "solo_operacion dir ps m m1" "map e_path (j_entradas k1) = map e_path (j_entradas k)"
      using paso_aplicar_solo [OF _ _ p] by blast+
    obtain r2 k2 m2 where g: "guardar (vfs_sistema crc dir) (k1\<lparr>j_seq := j_seq k1 + 1\<rparr>) m1 = (r2, k2, m2)" by (metis prod_cases3)
    note s2 = guardar_solo(1) [OF g, of ps] guardar_solo(2) [OF g]
    have k2: "map e_path (j_entradas k2) = map e_path (j_entradas k)" using s1(2) s2(2) by simp
    then have "length (j_entradas k2) = length (j_entradas k)" by (metis length_map)
    then have "solo_operacion dir ps m2 n" if "aplicar_loop sha (vfs_sistema crc dir) is k2 m2 = (x, h, n)"
      using Cons.IH [OF that] Cons.prems(2,3) unfolding k2 by simp
    then show ?thesis
      using Cons.prems(1) False p g s1(1) s2(1) by (cases r1; cases r2) (auto intro: solo_operacion_trans)
  qed
qed (simp add: solo_operacion_def)

lemma aplicar_preparado_solo:
  assumes e: "j_estado j = Preparado" and ok: "operacion_ok j"
    and run: "aplicar sha (vfs_sistema crc dir) j m = (x, h, n)"
  shows "solo_operacion dir (e_path ` set (j_entradas j)) m n"
proof -
  define ps where "ps = e_path ` set (j_entradas j)"
  have av: "avanzar j AplicacionIniciada = Inl \<lparr>desde = Preparado, evento = AplicacionIniciada\<rparr>"
    using e by (simp add: avanzar_def txn_next_def)
  obtain r1 k1 m1 where g: "guardar (vfs_sistema crc dir) j m = (r1, k1, m1)" by (metis prod_cases3)
  note s1 = guardar_solo(1) [OF g, of ps] guardar_solo(2) [OF g]
  obtain r2 k2 m2 where l: "aplicar_loop sha (vfs_sistema crc dir) [0..<length (j_entradas j)] j m1 = (r2, k2, m2)"
    by (metis prod_cases3)
  have "solo_operacion dir ps m1 m2"
    using ok by (intro aplicar_loop_solo [OF l]) (auto simp: ps_def operacion_ok_def list_all_iff)
  then have s2: "solo_operacion dir ps m m2" using s1(1) by (rule solo_operacion_trans [rotated])
  have "j_estado k2 = Preparado" using bucle_estado [of sha "vfs_sistema crc dir" "[0..<length (j_entradas j)]" j m1] e l by simp
  then have "n = m1 \<or> n = m2"
    using run e av g s1(2) l by (cases r1; cases r2) (auto simp: aplicar_def avanzar_def txn_next_def)
  then show ?thesis using s1(1) s2 by (auto simp: ps_def)
qed

text \<open>A boot over ARMADO and PREPARADO: it stops, with the boot record in force and nothing outside the operation
  touched.\<close>

lemma recuperar_preparado:
  assumes p: "pareja_escrita crc m r j" and e: "j_estado j = Preparado" and run: "recuperar crc sha m = (ok, m')"
  shows "\<not> ok" "esp_vigente crc m' r" "solo_operacion (b_dir r) (e_path ` set (j_entradas j)) m m'"
proof -
  have lb: "leer_bootrec crc m = EspRegistro r" "leer_diario crc (b_dir r) m = JDiario j" "m_montado m" "b_id r = j_id j"
    and ok: "operacion_ok j" and v: "esp_vigente crc m r" and d: "b_decision r = DArmado"
    using p leer_bootrec_vigente leer_diario_vigente pareja_escrita_casos(2) [OF p e] by (auto simp: pareja_escrita_def)
  obtain x k n where ap: "aplicar sha (vfs_sistema crc (b_dir r)) j m = (x, k, n)" by (metis prod_cases3)
  have "\<not> is_ok x" using aplicar_preparado [OF e, of sha "vfs_sistema crc (b_dir r)" m] ap by auto
  then have "ejecutar crc sha (b_dir r) (JDiario j) True m = (False, n)" by (simp add: ejecutar_def ap)
  then have r: "ok = False" "m' = n" using run lb d e by (simp_all add: recuperar_def Let_def reconcile_defs)
  then show "\<not> ok" by simp
  have "mismo_resto m n" using aplicar_conserva [OF vfs_conserva [of m crc "b_dir r"], of m sha j] ap by simp
  then show "esp_vigente crc m' r" using v mismo_resto_esp(1) r(2) by blast
  show "solo_operacion (b_dir r) (e_path ` set (j_entradas j)) m m'" using aplicar_preparado_solo [OF e ok ap] r(2) by simp
qed

lemma solo_operacion_rutas:
  assumes "solo_operacion dir ps m n" "\<forall>p \<in> ps. ruta_sistema p" "ruta_sistema q"
  shows "en_etapa dir n q = en_etapa dir m q" "en_respaldo dir n q = en_respaldo dir m q"
    "q \<notin> ps \<Longrightarrow> fichero_activo n q = fichero_activo m q"
proof -
  have v: "vfs_ruta dir d q \<notin> (@) ''/'' ` ps" "vfs_ruta dir d q \<noteq> fst (copias dir)" "vfs_ruta dir d q \<noteq> snd (copias dir)" for d
    using assms(2) rutas_disjuntas(1) by (auto, (cases d; simp add: vfs_ruta_def copias_def)+)
  then show "en_etapa dir n q = en_etapa dir m q" "en_respaldo dir n q = en_respaldo dir m q"
    using assms(1) by (simp_all add: solo_operacion_def en_etapa_def en_respaldo_def)
  show "q \<notin> ps \<Longrightarrow> fichero_activo n q = fichero_activo m q"
    using assms(1) rutas_disjuntas(2,3) [OF assms(3), of dir] by (force simp: solo_operacion_def fichero_activo_def)
qed

lemma revertir_armado:
  assumes d: "diario_vigente crc dir m = Some j" and e: "j_estado j = Armado" and ok: "journal_ok j"
    and seq: "j_seq j \<noteq> - 1" and es: "j_entradas j = x # xs" and x: "e_accion x = Reemplazar" "ruta_sistema (e_path x)"
      "material_viejo sha (en_respaldo dir m) x" "e_progreso x \<noteq> Restaurado"
    and en: "m_energia m = 3" and run: "revertir sha (vfs_sistema crc dir) j m = (r, k, m')"
  shows "r \<noteq> Inr () \<and> diario_vigente crc dir m' = Some (j\<lparr>j_estado := Revertido, j_seq := j_seq j + 1\<rparr>) \<and>
    fichero_activo m' (e_path x) = None"
proof -
  define ops where "ops = vfs_sistema crc dir"
  define h where "h = j\<lparr>j_estado := Revertido, j_seq := j_seq j + 1\<rparr>"
  have av: "avanzar j ReversionSolicitada = Inr h" using e by (simp add: avanzar_Inr txn_next_def h_def)
  have "journal_ok h" using ok misma_entradas(7) [of j h] by (simp add: h_def)
  then have suc: "sucesor j h" using seq by (simp add: sucesor_def h_def)
  obtain m1 where g: "s_guardar_diario ops m h = (True, m1)" and e1: "m_energia m1 = 1"
    using en by (simp add: ops_def vfs_sistema_def escribir_diario_eq vfs_create_file_def vfs_unlink_simps)
  note gm = vfs.guardar_marco [OF d suc g [unfolded ops_def]]
  obtain c dd where dd: "e_respaldo x = Some c" "en_respaldo dir m1 (e_path x) = Some dd" "contenido_cuadra sha dd c"
    using x gm by (auto simp: material_viejo_def split: option.splits)
  obtain m2 where w: "s_escribir ops m1 (e_path x) dd = (False, m2)" "m_ficheros m2 (''/'' @ e_path x) = None"
    using e1 x(2) by (simp add: ops_def vfs_sistema_def vfs_escribir_eq vfs_create_file_def vfs_unlink_simps)
  have "restaurar_una sha ops x m1 = (Inl (Escritura (e_path x)), m2)"
    using x(1) dd w vfs.leer_respaldo [OF x(2), of crc dir m1] by (simp add: restaurar_una_def ops_def)
  then have "paso_revertir sha ops h 0 m1 = (Inl (Escritura (e_path x)), h, m2)"
    by (simp add: paso_revertir_def h_def es)
  moreover have "[0..<length (j_entradas h)] = 0 # [1..<length (j_entradas h)]"
    by (subst upt_conv_Cons) (simp_all add: h_def es)
  moreover have "e_progreso (j_entradas h ! 0) \<noteq> Restaurado" using x(4) by (simp add: h_def es)
  ultimately have "revertir_loop sha ops [0..<length (j_entradas h)] h m1 = (Inl (Escritura (e_path x)), h, m2)"
    by simp
  then have "r = Inl (Escritura (e_path x))" "m' = m2"
    using run e av g by (simp_all add: revertir_def ops_def guardar_def)
  moreover have "diario_vigente crc dir m2 = diario_vigente crc dir m1"
    using vfs.escribir_marco [OF x(2) w(1) [unfolded ops_def]] by simp
  ultimately show ?thesis using w(2) gm by (simp add: fichero_activo_def h_def)
qed

section \<open>A machine to evaluate on\<close>

definition blanco :: bytes where "blanco = replicate SLOT_SIZE NL"

definition esp_con :: "(bytes \<Rightarrow> u32) \<Rightarrow> boot_record \<Rightarrow> bytes" where
  "esp_con crc r = concat ((replicate SLOTS blanco)[bootrec_ranura r := bootrec_bytes crc r])"

definition maquina_con ::
  "(bytes \<Rightarrow> u32) \<Rightarrow> boot_record \<Rightarrow> journal \<Rightarrow> (string \<times> bytes) list \<Rightarrow> nat \<Rightarrow> nat \<Rightarrow> maquina" where
  "maquina_con crc r j fs e c =
     \<lparr>m_montado = True,
      m_ficheros = (map_of fs)(copia_de (b_dir r) j \<mapsto> journal_format crc j),
      m_base = None, m_esp = Some (esp_con crc r), m_esp_legible = True, m_cerrojo = False,
      m_energia = e, m_corte = c, m_arbol = []\<rparr>"

lemma lee_blanco: "lee_arranque crc blanco = Inl Vacia"
  by (simp add: record_parse_def blanco_def list_all_iff)

lemma esp_con_vigente:
  assumes cabe: "bootrec_cabe crc r" and m: "m_esp m = Some (esp_con crc r)" "m_esp_legible m"
  shows "esp_vigente crc m r"
proof -
  define k where "k = bootrec_ranura r"
  define slots where "slots = (replicate SLOTS blanco)[k := bootrec_bytes crc r]"
  have k: "k < SLOTS" using ranura_less [of SLOTS] by (simp add: k_def bootrec_ranura_def SLOTS_def)
  obtain bs where bs: "bootrec_format crc r = Inr bs" "bootrec_ok r" "bootrec_bytes crc r = bs"
    using cabe by (auto simp: bootrec_cabe_def bootrec_bytes_def is_ok_def split: sum.splits)
  have ok: "ranuras_ok slots"
    using bootrec_format_Inr [OF bs(1)] bs(3) set_update_subset_insert [of "replicate SLOTS blanco" k bs]
    by (auto simp: ranuras_ok_def slots_def blanco_def)
  define g where "g = \<lparr>fr_formato = b_formato r, fr_seq = b_seq r, fr_body = bootrec_body r\<rparr>"
  have g: "lee_arranque crc bs = Inr g" "bootrec_from_framed g = Inr r"
    using bootrec_parse_framed [OF bs(2,1)] bootrec_from_framed_body [OF bs(2)] by (simp_all add: g_def)
  have "mejor_ok (lee_arranque crc) slots (k, g)"
    using k g(1) bs(3) by (auto simp: mejor_ok_def slots_def nth_list_update lee_blanco split: if_splits)
  then have "vigente (lee_arranque crc) SLOTS slots k g"
    by (simp add: vigente_def slots_def k_def bootrec_ranura_def g_def)
  then show ?thesis
    using m ok g(2) cabe by (auto simp: esp_vigente_def esp_con_def slots_def k_def)
qed

lemma mezcla_blanca:
  assumes "bootrec_cabe crc p"
  shows "mezcla_detectada crc blanco (bootrec_bytes crc p)"
proof -
  define todo where "todo = frame crc BOOTREC_MAGIC BOOTREC_FORMATO (b_seq p) (bootrec_body p)"
  obtain bs where bs: "bootrec_format crc p = Inr bs" "bootrec_ok p" "bootrec_bytes crc p = bs"
    using assms by (auto simp: bootrec_cabe_def bootrec_bytes_def is_ok_def split: sum.splits)
  then have le: "length todo \<le> SLOT_SIZE" "bs = todo @ replicate (SLOT_SIZE - length todo) NL"
    by (auto simp: bootrec_format_def frame_slot_def Let_def todo_def not_less split: if_splits)
  have f0: "BOOTREC_FORMATO \<noteq> 0" by (simp add: BOOTREC_FORMATO_def)
  note ls = bootrec_lineas_ok [OF bs(2)]
  have mix: "take n bs @ drop n blanco = take n todo @ replicate (SLOT_SIZE - min n (length todo)) NL" for n
  proof (cases "n \<le> length todo")
    case True
    then show ?thesis using le by (simp add: blanco_def)
  next
    case False
    then have "replicate (min (n - length todo) (SLOT_SIZE - length todo)) NL @ replicate (SLOT_SIZE - n) NL
        = replicate (SLOT_SIZE - length todo) NL"
      using le(1) by (simp add: replicate_add [symmetric] min_def)
    then show ?thesis using le False by (simp add: blanco_def min_def)
  qed
  have "lee_arranque crc bs = lee_arranque crc todo"
    using record_parse_frame [where crc = crc and seq = "b_seq p" and n = "SLOT_SIZE - length todo", OF magic_arranque ls f0 order_refl]
      record_parse_frame [where crc = crc and seq = "b_seq p" and n = 0, OF magic_arranque ls f0 order_refl] le(2)
    by (simp add: todo_def bootrec_body_lineas)
  then show ?thesis
    using record_parse_trunca [where crc = crc and seq = "b_seq p", OF magic_arranque ls f0 order_refl refl]
    unfolding mezcla_detectada_def Let_def bs(3) mix todo_def bootrec_body_lineas
    by (metis is_ok_simps(1))
qed

lemma ranura_con_blanco:
  assumes m: "m_esp m = Some (esp_con crc r)" and cr: "bootrec_cabe crc r" and k: "k < SLOTS" "k \<noteq> bootrec_ranura r"
  shows "ranura_esp m k = blanco"
proof -
  define slots where "slots = (replicate SLOTS blanco)[bootrec_ranura r := bootrec_bytes crc r]"
  obtain bs where "bootrec_format crc r = Inr bs" "bootrec_bytes crc r = bs"
    using cr by (auto simp: bootrec_cabe_def bootrec_bytes_def is_ok_def split: sum.splits)
  then have "\<forall>s \<in> set slots. length s = SLOT_SIZE"
    using bootrec_format_Inr [of crc r bs] set_update_subset_insert [of "replicate SLOTS blanco" "bootrec_ranura r" bs]
    by (auto simp: slots_def blanco_def)
  then have "drop (k * SLOT_SIZE) (concat slots) = slots ! k @ concat (drop (Suc k) slots)"
    using concat_ranura(2) [of slots SLOT_SIZE k] k by (simp add: slots_def)
  moreover have "slots ! k = blanco" using k by (simp add: slots_def)
  ultimately show ?thesis
    using m by (simp add: ranura_esp_def esp_con_def slots_def [symmetric]) (simp add: blanco_def)
qed

lemma publicable_con:
  assumes m: "m_esp m = Some (esp_con crc r)" and seq: "b_seq r \<noteq> - 1"
    and cabe: "list_all (\<lambda>d. bootrec_cabe crc (publicado r d)) [DProbando, DConfirmado, DRevertido]"
    and cr: "bootrec_cabe crc r"
  shows "publicable crc m r"
proof -
  have "ranura_esp m (bootrec_ranura (publicado r d)) = blanco" for d
    using ranura_less [of SLOTS] ranura_next [of SLOTS "b_seq r"] seq
    by (intro ranura_con_blanco [OF m cr]) (auto simp: bootrec_ranura_def publicado_def SLOTS_def)
  then show ?thesis using cabe seq by (simp add: publicable_def mezcla_blanca)
qed

lemma diario_con_vigente:
  assumes ok: "journal_ok j" and m: "m_ficheros m (copia_de dir j) = Some (journal_format crc j)"
    and otra: "\<And>p. p \<in> {fst (copias dir), snd (copias dir)} \<Longrightarrow> p \<noteq> copia_de dir j \<Longrightarrow> m_ficheros m p = None"
  shows "diario_vigente crc dir m = Some j"
proof -
  define g where "g = \<lparr>fr_formato = JOURNAL_FORMATO, fr_seq = j_seq j, fr_body = journal_body j\<rparr>"
  have g: "lee_diario crc (journal_format crc j) = Inr g" "journal_from_framed g = Inr j"
    using ok journal_parse_framed journal_from_framed_body by (simp_all add: g_def)
  define k where "k = ranura (j_seq j) COPIAS"
  have dist: "fst (copias dir) \<noteq> snd (copias dir)" by (simp add: copias_def)
  have kr: "k = ranura (fr_seq g) COPIAS" by (simp add: k_def g_def)
  consider "copias_leidas dir m = [journal_format crc j, []]" "k = 0"
    | "copias_leidas dir m = [[], journal_format crc j]" "k = 1"
    using m otra dist by (cases "j_seq j mod 2 = 0")
      (auto simp: k_def ranura_copia copia_de_def copias_leidas_def leer_copia_def)
  then have "mejor_ok (lee_diario crc) (copias_leidas dir m) (k, g) \<and> length (copias_leidas dir m) = COPIAS"
    using g(1) lee_diario_vacio by cases (auto simp: mejor_ok_def less_Suc_eq COPIAS_def)
  then have "vigente (lee_diario crc) COPIAS (copias_leidas dir m) k g"
    using kr by (simp add: vigente_def)
  then show ?thesis using g(2) by (rule vigente_diario)
qed

text \<open>An operation over one file, and the machine that holds it.\<close>

definition crc_ej :: "bytes \<Rightarrow> u32" where "crc_ej b = 0"
definition sha_ej :: "bytes \<Rightarrow> hash256" where "sha_ej b = replicate 32 0"

definition entrada_ej :: "progreso \<Rightarrow> entrada" where
  "entrada_ej p =
     \<lparr>e_accion = Reemplazar, e_progreso = p, e_path = ''bin/init'',
      e_nuevo = Some \<lparr>c_size = 2, c_hash = replicate 64 CHR ''0''\<rparr>,
      e_respaldo = Some \<lparr>c_size = 1, c_hash = replicate 64 CHR ''0''\<rparr>\<rparr>"

definition diario_ej :: "txn_state \<Rightarrow> progreso \<Rightarrow> journal" where
  "diario_ej est p =
     \<lparr>j_id = replicate 32 0, j_estado = est, j_seq = 4, j_version_nueva = ''1.1'',
      j_version_anterior = ''1.0'',
      j_kernel_nuevo = Some \<lparr>c_size = 9, c_hash = replicate 64 CHR ''0''\<rparr>, j_kernel_anterior = None,
      j_entradas = [entrada_ej p]\<rparr>"

definition bootrec_ej :: "decision \<Rightarrow> boot_record" where
  "bootrec_ej d = con_punto (bootrec_nuevo d (replicate 32 0) ''1.1'' ''1.0'' 7) (replicate 32 0)"

definition ficheros_ej :: "bytes \<Rightarrow> (string \<times> bytes) list" where
  "ficheros_ej act =
     [(''/bin/init'', act), (vfs_ruta (replicate 16 CHR ''0'') DePreparado ''bin/init'', ''ab''),
      (vfs_ruta (replicate 16 CHR ''0'') DeRespaldo ''bin/init'', ''x'')]"

definition maquina_ej :: "decision \<Rightarrow> txn_state \<Rightarrow> progreso \<Rightarrow> bytes \<Rightarrow> nat \<Rightarrow> nat \<Rightarrow> maquina" where
  "maquina_ej d est p act e c = maquina_con crc_ej (bootrec_ej d) (diario_ej est p) (ficheros_ej act) e c"

lemma ej_hex: "to_hex (replicate 32 0) = replicate 64 CHR ''0''" "txn_dir (replicate 32 0) = replicate 16 CHR ''0''"
  by code_simp+

lemma ej_version: "version_ok ''1.1''" "version_ok ''1.0''" "version_ok (replicate 16 CHR ''0'')" "path_ok ''bin/init''"
  by code_simp+

lemma ej_journal_ok: "journal_ok (diario_ej est p)"
  by (simp add: journal_ok_def diario_ej_def ej_version contenido_ok_def contenido_bien_def entrada_ok_def
      entrada_ej_def is_ascii_hexdigit_def byte_in_def list_all_iff)

lemma ej_operacion: "operacion_ok (diario_ej est p)"
  using ej_journal_ok by (simp add: operacion_ok_def) (simp add: diario_ej_def entrada_ej_def ruta_sistema_def)

lemma ej_bootrec_ok: "bootrec_ok (bootrec_ej d)" "bootrec_ok (publicado (bootrec_ej d) d')"
  by (simp_all add: bootrec_ok_def bootrec_ej_def con_punto_def bootrec_nuevo_def publicado_def ej_version ej_hex)

lemma ej_cabe: "bootrec_cabe crc_ej (bootrec_ej d)" "bootrec_cabe crc_ej (publicado (bootrec_ej d) d')"
proof -
  have sw: "show_word (2 :: u16) = ''2''" "show_word (7 :: u64) = ''7''" "show_word (8 :: u64) = ''8''" by code_simp+
  have ld: "length (decision_str d) \<le> 19" for d by (cases d) simp_all
  have "is_ok (bootrec_format crc_ej (bootrec_ej d))"
    using ld [of d] by (simp add: bootrec_format_def frame_slot_def frame_def frame_text_def Let_def bootrec_body_def
        bootrec_ej_def con_punto_def bootrec_nuevo_def BOOTREC_MAGIC_def BOOTREC_FORMATO_def SLOT_SIZE_def ej_hex sw)
  moreover have "is_ok (bootrec_format crc_ej (publicado (bootrec_ej d) d'))"
    using ld [of d'] by (simp add: bootrec_format_def frame_slot_def frame_def frame_text_def Let_def bootrec_body_def
        bootrec_ej_def con_punto_def bootrec_nuevo_def publicado_def BOOTREC_MAGIC_def BOOTREC_FORMATO_def SLOT_SIZE_def ej_hex sw)
  ultimately show "bootrec_cabe crc_ej (bootrec_ej d)" "bootrec_cabe crc_ej (publicado (bootrec_ej d) d')"
    using ej_bootrec_ok by (simp_all add: bootrec_cabe_def)
qed

lemma ej_campos [simp]:
  "b_dir (bootrec_ej d) = replicate 16 CHR ''0''" "b_id (bootrec_ej d) = replicate 32 0"
  "b_seq (bootrec_ej d) = 7" "b_decision (bootrec_ej d) = d"
  "j_id (diario_ej est p) = replicate 32 0" "j_estado (diario_ej est p) = est" "j_seq (diario_ej est p) = 4"
  "j_entradas (diario_ej est p) = [entrada_ej p]" "e_path (entrada_ej p) = ''bin/init''"
  "e_progreso (entrada_ej p) = p" "e_accion (entrada_ej p) = Reemplazar"
  by (simp_all add: bootrec_ej_def con_punto_def bootrec_nuevo_def ej_hex diario_ej_def entrada_ej_def)

lemma ej_ficheros:
  "fichero_activo (maquina_ej d est p act e c) ''bin/init'' = Some act"
  "en_etapa (replicate 16 CHR ''0'') (maquina_ej d est p act e c) ''bin/init'' = Some ''ab''"
  "en_respaldo (replicate 16 CHR ''0'') (maquina_ej d est p act e c) ''bin/init'' = Some ''x''"
proof -
  have c: "copia_de (replicate 16 CHR ''0'') (diario_ej est p) = DIR_BASE @ ''/'' @ replicate 16 CHR ''0'' @ ''/diario.0''"
    by (simp add: copia_de_def copias_def)
  show "fichero_activo (maquina_ej d est p act e c) ''bin/init'' = Some act"
    by (simp add: fichero_activo_def maquina_ej_def maquina_con_def ficheros_ej_def c DIR_BASE_def)
  show "en_etapa (replicate 16 CHR ''0'') (maquina_ej d est p act e c) ''bin/init'' = Some ''ab''"
    "en_respaldo (replicate 16 CHR ''0'') (maquina_ej d est p act e c) ''bin/init'' = Some ''x''"
    by (simp_all add: en_etapa_def en_respaldo_def vfs_ruta_def maquina_ej_def maquina_con_def ficheros_ej_def c DIR_BASE_def)
qed

lemma ej_diario: "diario_vigente crc_ej (replicate 16 CHR ''0'') (maquina_ej d est p act e c) = Some (diario_ej est p)"
proof (rule diario_con_vigente [OF ej_journal_ok])
  show "m_ficheros (maquina_ej d est p act e c) (copia_de (replicate 16 CHR ''0'') (diario_ej est p)) =
      Some (journal_format crc_ej (diario_ej est p))"
    by (simp add: maquina_ej_def maquina_con_def)
  fix q assume "q \<in> {fst (copias (replicate 16 CHR ''0'')), snd (copias (replicate 16 CHR ''0''))}"
    "q \<noteq> copia_de (replicate 16 CHR ''0'') (diario_ej est p)"
  then have "q = DIR_BASE @ ''/'' @ replicate 16 CHR ''0'' @ ''/diario.1''" by (auto simp: copia_de_def copias_def)
  then show "m_ficheros (maquina_ej d est p act e c) q = None"
    by (simp add: maquina_ej_def maquina_con_def ficheros_ej_def copia_de_def copias_def DIR_BASE_def vfs_ruta_def)
qed

lemma ej_esp: "esp_vigente crc_ej (maquina_ej d est p act e c) (bootrec_ej d)"
  by (rule esp_con_vigente [OF ej_cabe(1)]) (simp_all add: maquina_ej_def maquina_con_def)

lemma ej_publicable: "publicable crc_ej (maquina_ej d est p act e c) (bootrec_ej d)"
  by (rule publicable_con) (simp_all add: maquina_ej_def maquina_con_def ej_cabe)

lemma ej_material: "material_completo sha_ej (maquina_ej d est p act e c) (replicate 16 CHR ''0'') (diario_ej est p)"
proof -
  have h: "hex_sha256 sha_ej x = replicate 64 CHR ''0''" for x
    using ej_hex(1) by (simp add: hex_sha256_def sha_ej_def to_hex_def)
  show ?thesis
    by (simp add: material_completo_def material_nuevo_def material_viejo_def ej_ficheros entrada_ej_def
        contenido_cuadra_def h)
qed

lemma ej_maquina [simp]:
  "m_montado (maquina_ej d est p act e c)" "m_energia (maquina_ej d est p act e c) = e"
  by (simp_all add: maquina_ej_def maquina_con_def)

lemma ej_pareja:
  assumes "(d, est, p, act) \<in> {(DArmado, Armado, Respaldado, ''x''), (DProbando, Probando, Aplicado, ''ab''),
    (DProbando, Revirtiendo, Aplicado, ''ab'')}"
  shows "pareja_ok crc_ej (maquina_ej d est p act e c) (bootrec_ej d) (diario_ej est p)"
  using assms ej_esp ej_diario ej_operacion
  by (auto simp: pareja_ok_def coherente_estado ej_ficheros antes_def despues_def parejas_def)

lemma ej_escrita:
  assumes "(d, est, p, act) \<in> {(DArmado, Preparado, Respaldado, ''x''), (DArmado, Armado, Respaldado, ''x''),
    (DProbando, Revirtiendo, Aplicado, ''ab'')}"
  shows "pareja_escrita crc_ej (maquina_ej d est p act e c) (bootrec_ej d) (diario_ej est p)"
  using assms ej_esp ej_diario ej_operacion
  by (auto simp: pareja_escrita_def coherente_def ej_ficheros antes_def despues_def parejas_escritas_def parejas_def)

section \<open>Properties\<close>

lemma coherente_completa:
  assumes "coherente a t r j" "j_estado j \<in> {Probando, Confirmado, Revertido}"
  shows "(\<forall>e \<in> set (j_entradas j). a (e_path e) = despues t e) \<or> (\<forall>e \<in> set (j_entradas j). a (e_path e) = antes r e)"
  using assms by (auto simp: coherente_def list_all_iff)

text \<open>C1 (\<open>recuperar\<close>, all or nothing): take a machine whose files agree with the journal and whose boot record and
  journal form one of the ten pairs that arming, applying, confirming and reverting write: ARMADO over PREPARADO,
  ARMADO, APLICANDO or PROBANDO; PROBANDO over PROBANDO, CONFIRMADO, REVIRTIENDO or REVERTIDO; CONFIRMADO over CONFIRMADO;
  REVERTIDO over REVERTIDO.  Whatever the power left and wherever the cut falls, one boot of the early recoverer
  leaves the preparation area, the backups and every path outside the inventory untouched.  From ARMADO over PREPARADO the boot never
  goes on and the boot record stays in force.  From each of the other nine it ends in one of those nine again, of the
  same operation; and when the recoverer lets the boot go on, the inventory is entirely the new version or entirely the old one.\<close>

theorem recuperar_todo_o_nada:
  assumes "pareja_escrita crc m r j" "publicable crc m r"
    and "unat (j_seq j) + length (j_entradas j) < 2 ^ 64 - 3"
    and "recuperar crc sha m = (ok, m')"
  shows "(\<forall>q. ruta_sistema q \<longrightarrow> en_etapa (b_dir r) m' q = en_etapa (b_dir r) m q
       \<and> en_respaldo (b_dir r) m' q = en_respaldo (b_dir r) m q) \<and>
    (\<forall>q. ruta_sistema q \<longrightarrow> q \<notin> e_path ` set (j_entradas j) \<longrightarrow> fichero_activo m' q = fichero_activo m q) \<and>
    (if j_estado j = Preparado then \<not> ok \<and> esp_vigente crc m' r
     else \<exists>r' j'. pareja_ok crc m' r' j' \<and> misma j j' \<and> b_dir r' = b_dir r \<and>
       (ok \<longrightarrow>
         (\<forall>e \<in> set (j_entradas j'). fichero_activo m' (e_path e) = despues (en_etapa (b_dir r) m') e) \<or>
         (\<forall>e \<in> set (j_entradas j'). fichero_activo m' (e_path e) = antes (en_respaldo (b_dir r) m') e)))"
proof (cases "j_estado j = Preparado")
  case True
  have ps: "\<forall>p \<in> e_path ` set (j_entradas j). ruta_sistema p"
    using assms(1) by (auto simp: pareja_escrita_def operacion_ok_def list_all_iff)
  note rp = recuperar_preparado [OF assms(1) True assms(4)]
  show ?thesis using solo_operacion_rutas [OF rp(3) ps] rp(1,2) True by simp
next
  case False
  note p = pareja_escrita_casos(1) [OF assms(1) False]
  obtain r' j' where t: "tras_arranque crc m r j m' r' j'" "ok \<longrightarrow> j_estado j' \<in> {Probando, Confirmado, Revertido}"
    using recuperar_corte [OF p assms(3,2,4)] by blast
  have "coherente (fichero_activo m') (en_etapa (b_dir r) m') (en_respaldo (b_dir r) m') j'"
    using t(1) by (auto simp: tras_arranque_def pareja_ok_def)
  from coherente_completa [OF this] t False show ?thesis unfolding tras_arranque_def by auto
qed

theorem recuperar_todo_o_nada_witness:
  "(\<exists>r' j'. pareja_ok crc_ej (snd (recuperar crc_ej sha_ej (maquina_ej DArmado Armado Respaldado ''x'' 4 1))) r' j' \<and>
      misma (diario_ej Armado Respaldado) j') \<and>
   \<not> fst (recuperar crc_ej sha_ej (maquina_ej DArmado Preparado Respaldado ''x'' 4 1))"
  using recuperar_todo_o_nada [OF ej_escrita [of DArmado Armado Respaldado "''x''" 4 1] ej_publicable _
      surjective_pairing, where sha = sha_ej]
    recuperar_todo_o_nada [OF ej_escrita [of DArmado Preparado Respaldado "''x''" 4 1] ej_publicable _
      surjective_pairing, where sha = sha_ej]
  by auto

text \<open>C2 (\<open>recuperar\<close>, completion): with the material in place and power for more than \<open>4 n + 6\<close> operations, \<open>n\<close>
  being the size of the inventory, one boot returns and leaves a closed pair (on trial, confirmed, or reverted) from nine of
  the ten pairs that arming, applying, confirming and reverting write; from the tenth, ARMADO over PREPARADO, it
  never does: the boot stops.\<close>

theorem recuperar_cierra:
  assumes "pareja_escrita crc m r j" "publicable crc m r" "material_completo sha m (b_dir r) j"
    and "unat (j_seq j) + length (j_entradas j) < 2 ^ 64 - 3" "4 * length (j_entradas j) + 6 < m_energia m"
  shows "if j_estado j = Preparado then fst (recuperar crc sha m) = False
    else \<exists>m' r' j'. recuperar crc sha m = (True, m') \<and> pareja_ok crc m' r' j' \<and> misma j j' \<and>
      (b_decision r', j_estado j') \<in> {(DProbando, Probando), (DConfirmado, Confirmado), (DRevertido, Revertido)}"
proof (cases "j_estado j = Preparado")
  case True
  then show ?thesis using recuperar_preparado(1) [OF assms(1) True surjective_pairing] by auto
next
  case False
  have "aguanta m (2 * length (j_entradas j) + 3)" using assms(5) by (simp add: aguanta_def)
  from recuperar_completa [OF pareja_escrita_casos(1) [OF assms(1) False] assms(4,2,3) this] False show ?thesis
    unfolding tras_arranque_def parejas_finales_def by auto
qed

theorem recuperar_cierra_witness:
  "\<exists>m' r' j'. recuperar crc_ej sha_ej (maquina_ej DProbando Revirtiendo Aplicado ''ab'' 20 0) = (True, m') \<and>
     pareja_ok crc_ej m' r' j' \<and> (b_decision r', j_estado j') \<in>
       {(DProbando, Probando), (DConfirmado, Confirmado), (DRevertido, Revertido)}"
  using recuperar_cierra [OF ej_escrita [of DProbando Revirtiendo Aplicado "''ab''" 20 0] ej_publicable,
      where sha = sha_ej] ej_material by auto

text \<open>C14 (\<open>confirmar\<close>): confirming a pair on trial writes the evidence in the journal first and the
  decision in the ESP after it, so that a cut never leaves a confirmed decision over a journal that
  lacks the evidence; and when power lasts the decision is durable.\<close>

theorem confirmar_ordenada:
  assumes "pareja_ok crc m r j" "publicable crc m r" "b_decision r = DProbando"
    and "j_estado j \<in> {Probando, Confirmado}" "j_seq j \<noteq> - 1"
  shows "\<exists>m' r' j'. confirmar crc m = (True, m') \<and> pareja_ok crc m' r' j' \<and> misma j j' \<and>
    j_estado j' \<in> {Probando, Confirmado} \<and> (b_decision r' = DConfirmado \<longrightarrow> j_estado j' = Confirmado) \<and>
    (0 < m_energia m' \<longrightarrow> b_decision r' = DConfirmado)"
proof -
  obtain ok m' where run: "confirmar crc m = (ok, m')" by (metis surj_pair)
  note c = confirmar_corte [OF assms(1,3,4,5,2) run]
  show ?thesis using run c by (auto simp: vivo_def)
qed

theorem confirmar_ordenada_witness:
  "\<exists>m' r' j'. confirmar crc_ej (maquina_ej DProbando Probando Aplicado ''ab'' 3 5) = (True, m') \<and>
     pareja_ok crc_ej m' r' j' \<and> (b_decision r' = DConfirmado \<longrightarrow> j_estado j' = Confirmado)"
  using confirmar_ordenada [OF ej_pareja [of DProbando Probando Aplicado "''ab''" 3 5] ej_publicable]
  by auto

text \<open>C34 (flaw): the client publishes the boot record ARMADO before it writes the journal ARMADO, so a
  cut between the two leaves ARMADO in the ESP over a journal that still says PREPARADO.  The table
  orders to apply in that case, but the applier ignores the transition that the state refuses and
  cannot close the operation afterwards: the recoverer stops the boot, with any power, any medium
  and at every attempt.\<close>

theorem recuperar_preparado_atascado:
  assumes "m_montado m" "leer_bootrec crc m = EspRegistro r" "b_decision r = DArmado"
    and "leer_diario crc (b_dir r) m = JDiario j" "j_id j = b_id r" "j_estado j = Preparado"
  shows "reconcile (leer_bootrec crc m) (leer_diario crc (b_dir r) m) = RAplicar (j_id j) \<and>
    fst (recuperar crc sha m) = False"
proof -
  have a: "reconcile (leer_bootrec crc m) (leer_diario crc (b_dir r) m) = RAplicar (j_id j)"
    using assms by (simp add: reconcile_defs)
  obtain x k m1 where "aplicar sha (vfs_sistema crc (b_dir r)) j m = (x, k, m1)" by (metis prod_cases3)
  moreover from this obtain f where "x = Inl f"
    using aplicar_preparado [OF assms(6), of sha "vfs_sistema crc (b_dir r)" m] by auto
  ultimately have "fst (ejecutar crc sha (b_dir r) (JDiario j) True m) = False" by (simp add: ejecutar_def)
  then have "fst (recuperar crc sha m) = False"
    using a assms by (simp add: recuperar_def Let_def prod.case_eq_if)
  with a show ?thesis by blast
qed

theorem recuperar_preparado_atascado_witness:
  "reconcile (leer_bootrec crc_ej (maquina_ej DArmado Preparado Respaldado ''x'' 50 0))
      (leer_diario crc_ej (replicate 16 CHR ''0'') (maquina_ej DArmado Preparado Respaldado ''x'' 50 0)) =
     RAplicar (replicate 32 0) \<and>
   fst (recuperar crc_ej sha_ej (maquina_ej DArmado Preparado Respaldado ''x'' 50 0)) = False"
  using recuperar_preparado_atascado [OF _ leer_bootrec_vigente [OF ej_esp] _ leer_diario_vigente, where sha = sha_ej]
    ej_diario [of DArmado Preparado Respaldado "''x''" 50 0]
  by auto

text \<open>C35 (flaw): a manual reversion asked while the operation is still ARMADO first makes the journal say
  REVERTIDO and only then rewrites each file from its backup, by unlinking and creating it.  A cut
  after the unlink leaves an intact system without that file, and the next boot, with any power,
  takes the reversion for finished and lets the boot go on.  (The decision REVERTIR is a row of the contract's
  table; the client of today asks for RESCATAR instead.)\<close>

theorem revertir_armado_pierde:
  assumes "m_montado m" "esp_vigente crc m r" "b_decision r = DRevertir"
    and "diario_vigente crc (b_dir r) m = Some j" "j_id j = b_id r" "j_estado j = Armado"
    and "journal_ok j" "j_seq j \<noteq> - 1" "j_entradas j = x # xs" "e_accion x = Reemplazar"
    and "ruta_sistema (e_path x)" "material_viejo sha (en_respaldo (b_dir r) m) x" "e_progreso x \<noteq> Restaurado"
    and "fichero_activo m (e_path x) = antes (en_respaldo (b_dir r) m) x" "m_energia m = 3"
  shows "\<exists>m1. recuperar crc sha m = (False, m1) \<and>
    (\<forall>e c. \<exists>m2. recuperar crc sha (m1\<lparr>m_energia := e, m_corte := c\<rparr>) = (True, m2) \<and>
       fichero_activo m2 (e_path x) = None \<and> antes (en_respaldo (b_dir r) m) x \<noteq> None)"
proof -
  have lb: "leer_bootrec crc m = EspRegistro r" "leer_diario crc (b_dir r) m = JDiario j"
    using assms(2,4) leer_bootrec_vigente leer_diario_vigente by auto
  obtain y k m1 where run: "revertir sha (vfs_sistema crc (b_dir r)) j m = (y, k, m1)" by (metis prod_cases3)
  define h where "h = j\<lparr>j_estado := Revertido, j_seq := j_seq j + 1\<rparr>"
  have ra: "y \<noteq> Inr ()" "diario_vigente crc (b_dir r) m1 = Some h" "fichero_activo m1 (e_path x) = None"
    using revertir_armado [OF assms(4,6-13,15) run] by (simp_all add: h_def)
  have ej: "ejecutar crc sha (b_dir r) (JDiario j) False m = (False, m1)"
    using ra(1) run by (cases y) (simp_all add: ejecutar_def)
  have r1: "recuperar crc sha m = (False, m1)"
    using assms(1,3,5,6) lb ej by (simp add: recuperar_def Let_def reconcile_defs)
  have mr: "mismo_resto m m1"
    using revertir_conserva [OF vfs_conserva [of m crc "b_dir r"], of m sha j] run by simp
  have "\<exists>m2. recuperar crc sha (m1\<lparr>m_energia := e, m_corte := c\<rparr>) = (True, m2) \<and> fichero_activo m2 (e_path x) = None" for e c
  proof -
    define n where "n = m1\<lparr>m_energia := e, m_corte := c\<rparr>"
    have "mismo_resto m n" using mr by (simp add: mismo_resto_def n_def)
    then have "esp_vigente crc n r = esp_vigente crc m r" by (rule mismo_resto_esp(1))
    then have en: "esp_vigente crc n r" "m_montado n"
      using assms(1,2) mr by (simp_all add: mismo_resto_def n_def)
    have fn: "m_ficheros n = m_ficheros m1" by (simp add: n_def)
    have ln: "leer_bootrec crc n = EspRegistro r" "leer_diario crc (b_dir r) n = JDiario h"
      using en(1) ra(2) leer_bootrec_vigente leer_diario_vigente mismos_ficheros(4) [OF fn] by auto
    have "recuperar crc sha n = (True, publicar crc (EspRegistro r) DRevertido (j_id j) n)"
      using en(2) assms(3,5) ln by (simp add: recuperar_def Let_def reconcile_defs h_def)
    moreover have "m_ficheros (publicar crc (EspRegistro r) DRevertido (j_id j) n) = m_ficheros n"
    proof -
      have "m_ficheros (escribir_sectores w off ts) = m_ficheros w" for w off ts
        by (induction ts arbitrary: w off) (simp_all add: esp_escribir_def Let_def split: option.splits)
      then show ?thesis by (simp add: publicar_def Let_def split: sum.splits)
    qed
    ultimately show ?thesis using ra(3) fn by (simp add: n_def [symmetric] fichero_activo_def)
  qed
  moreover have "antes (en_respaldo (b_dir r) m) x \<noteq> None"
    using assms(10,12) by (auto simp: antes_def material_viejo_def split: option.splits)
  ultimately show ?thesis using r1 by blast
qed

theorem revertir_armado_pierde_witness:
  "\<exists>m1. recuperar crc_ej sha_ej (maquina_ej DRevertir Armado Respaldado ''x'' 3 0) = (False, m1) \<and>
    (\<forall>e c. \<exists>m2. recuperar crc_ej sha_ej (m1\<lparr>m_energia := e, m_corte := c\<rparr>) = (True, m2) \<and>
       fichero_activo m2 ''bin/init'' = None)"
proof -
  have "material_viejo sha_ej (en_respaldo (replicate 16 CHR ''0'') (maquina_ej DRevertir Armado Respaldado ''x'' 3 0)) (entrada_ej Respaldado)"
    using ej_material [of DRevertir Armado Respaldado "''x''" 3 0] by (simp add: material_completo_def)
  then show ?thesis
    using revertir_armado_pierde [OF _ ej_esp [of DRevertir Armado Respaldado "''x''" 3 0], where sha = sha_ej
        and j = "diario_ej Armado Respaldado" and x = "entrada_ej Respaldado" and xs = "[]"]
      ej_diario [of DRevertir Armado Respaldado "''x''" 3 0] ej_journal_ok ej_ficheros(1,3)
    by (auto simp: antes_def ruta_sistema_def)
qed

end
