(* ===== verification/Rescate.thy ===== *)
theory Rescate
  imports Transaccion
begin

text \<open>
  The rescue of an earlier version: \<open>rescatar\<close> of \<open>kernel/src/drivers/txnaplica.rs\<close> over the restore
  points of \<open>soso-update-core/src/txn/punto.rs\<close>.  The lemmas split a run by its outcome and show
  what it leaves alone; the properties state that a rescue writes nothing from a broken point, that
  it can be repeated after a cut, and that the repetition restores the whole point.
\<close>

section \<open>A run of the rescue\<close>

definition ruta_punto :: "string \<Rightarrow> string" where
  "ruta_punto dir = DIR_BASE @ ''/'' @ dir @ ''/punto.rec''"

definition punto_aplicable :: "punto \<Rightarrow> bool" where
  "punto_aplicable p \<longleftrightarrow> distinct (map e_path (p_entradas p)) \<and>
     list_all (\<lambda>e. ruta_sistema (e_path e)) (p_entradas p) \<and> punto_completo (p_entradas p)"

lemma publicar_ficheros: "m_ficheros (publicar crc esp d i m) = m_ficheros m"
proof -
  have "m_ficheros (escribir_sectores w off ts) = m_ficheros w" for w off ts
    by (induction ts arbitrary: w off) (simp_all add: esp_escribir_def Let_def split: option.splits)
  then show ?thesis by (simp add: publicar_def Let_def split: sum.splits estado_esp.splits)
qed

lemma publicar_energia: "m_energia (publicar crc esp d i m) \<le> m_energia m"
proof -
  have "m_energia (escribir_sectores w off ts) \<le> m_energia w" for w off ts
  proof (induction ts arbitrary: w off)
    case (Cons t ts)
    have "m_energia (esp_escribir w off t) \<le> m_energia w" by (simp add: esp_escribir_def Let_def split: option.splits)
    with Cons.IH [of "esp_escribir w off t"] show ?case by (auto intro: le_trans)
  qed simp
  then show ?thesis by (simp add: publicar_def Let_def split: sum.splits estado_esp.splits)
qed

lemma cerrar_tras_rescate_marco:
  assumes "cerrar_tras_rescate crc diario dir m = (ok, m')"
  shows "\<forall>q. q \<noteq> fst (copias dir) \<and> q \<noteq> snd (copias dir) \<longrightarrow> m_ficheros m' q = m_ficheros m q"
    and "m_energia m' \<le> m_energia m"
  using assms
  by (auto simp: cerrar_tras_rescate_def escribir_diario_eq vfs_create_file_def vfs_unlink_def copia_de_def
      split: estado_journal.splits prod.splits if_splits)

lemma dir_unico:
  "c \<notin> set a \<Longrightarrow> c \<notin> set b \<Longrightarrow> a @ c # x = b @ c # y \<Longrightarrow> a = b \<and> x = y"
proof (induction a arbitrary: b)
  case Nil
  then show ?case by (cases b) auto
next
  case (Cons h a)
  then show ?case by (cases b) auto
qed

text \<open>The paths of a rescue: what is read and what is written never meet.\<close>

lemma punto_no_sistema: "ruta_sistema q \<Longrightarrow> ruta_punto d \<noteq> ''/'' @ q"
  by (auto simp: ruta_punto_def ruta_sistema_def DIR_BASE_def starts_with_prefix)

lemma sistema_no_copia:
  "ruta_sistema q \<Longrightarrow> ''/'' @ q \<noteq> fst (copias dir)" "ruta_sistema q \<Longrightarrow> ''/'' @ q \<noteq> snd (copias dir)"
  using rutas_disjuntas(2,3) [of q dir] by auto

lemma transaccion_no_copia:
  assumes "CHR ''/'' \<notin> set d" "CHR ''/'' \<notin> set dir"
  shows "vfs_ruta d DeRespaldo r \<noteq> fst (copias dir)" "vfs_ruta d DeRespaldo r \<noteq> snd (copias dir)"
    "ruta_punto d \<noteq> fst (copias dir)" "ruta_punto d \<noteq> snd (copias dir)"
proof -
  have e: "d @ CHR ''/'' # y = dir @ CHR ''/'' # z \<Longrightarrow> y = z" for y z
    using dir_unico [OF assms] by blast
  show "vfs_ruta d DeRespaldo r \<noteq> fst (copias dir)" "vfs_ruta d DeRespaldo r \<noteq> snd (copias dir)"
    "ruta_punto d \<noteq> fst (copias dir)" "ruta_punto d \<noteq> snd (copias dir)"
    using e [of "''respaldo/'' @ r"] e [of "''punto.rec''"]
    by (auto simp: vfs_ruta_def ruta_punto_def copias_def)
qed

lemma txn_dir_sin_barra: "CHR ''/'' \<notin> set (txn_dir i)"
  using to_hex_lower [of i]
  by (auto simp: txn_dir_def list_all_iff is_hex_lower_def byte_in_def dest!: in_set_takeD)

lemma rescatar_casos:
  assumes rec: "m_ficheros m (ruta_punto (txn_dir i)) = Some datos" "punto_parse crc datos = Inr p"
    and run: "rescatar crc sha esp i diario dir m = (ok, m')"
  obtains (nada) "verificar sha (vfs_sistema crc (txn_dir i)) p m \<noteq> Inr ()" "m' = m" "\<not> ok"
  | (hecho) y m1 where "verificar sha (vfs_sistema crc (txn_dir i)) p m = Inr ()"
      "restaurar sha (vfs_sistema crc (txn_dir i)) (p_entradas p) m = (y, m1)" "ok \<Longrightarrow> y = Inr ()"
      "\<forall>q. q \<noteq> fst (copias dir) \<and> q \<noteq> snd (copias dir) \<longrightarrow> m_ficheros m' q = m_ficheros m1 q"
      "m_energia m' \<le> m_energia m1"
proof (cases "verificar sha (vfs_sistema crc (txn_dir i)) p m")
  case (Inl f)
  then show ?thesis using run rec nada by (simp add: rescatar_def Let_def ruta_punto_def)
next
  case (Inr u)
  obtain y m1 where r: "restaurar sha (vfs_sistema crc (txn_dir i)) (p_entradas p) m = (y, m1)" by (metis surj_pair)
  obtain o2 m2 where c: "cerrar_tras_rescate crc diario dir m1 = (o2, m2)" by (metis surj_pair)
  note cm = cerrar_tras_rescate_marco [OF c]
  show ?thesis
  proof (cases y)
    case (Inl f)
    then have "m' = m1" "\<not> ok" using run rec Inr r by (simp_all add: rescatar_def Let_def ruta_punto_def)
    then show ?thesis using hecho [of y m1] Inr r by simp
  next
    case (Inr v)
    have fin: "m' = (if o2 then tomar_por_el_kernel (publicar crc esp DRestauradoAPrueba i m2) else m2)" "ok = o2"
      using run rec \<open>verificar _ _ p m = Inr u\<close> r Inr c by (auto simp: rescatar_def Let_def ruta_punto_def split: if_splits)
    have "m_ficheros m' = m_ficheros m2" "m_energia m' \<le> m_energia m2"
      using publicar_ficheros publicar_energia by (simp_all add: fin tomar_por_el_kernel_def)
    then show ?thesis
      using hecho [of y m1] \<open>verificar _ _ p m = Inr u\<close> r Inr cm by (simp add: order_trans)
  qed
qed

lemma restaurar_otro_fichero:
  assumes "\<forall>e \<in> set es. ruta_sistema (e_path e) \<and> x \<noteq> ''/'' @ e_path e"
    "restaurar sha (vfs_sistema crc dir) es m = (y, m1)"
  shows "m_ficheros m1 x = m_ficheros m x"
  using assms
proof (induction es arbitrary: m)
  case (Cons e es)
  obtain r t where u: "restaurar_una sha (vfs_sistema crc dir) e m = (r, t)" by (metis surj_pair)
  have p: "ruta_sistema (e_path e)" "x \<noteq> ''/'' @ e_path e" using Cons.prems(1) by auto
  have "m_ficheros t x = m_ficheros m x"
    using u p
    by (auto simp: restaurar_una_def vfs_sistema_def vfs_escribir_eq vfs_borrar_eq vfs_create_simps vfs_unlink_simps
        split: if_splits option.splits prod.splits) (metis snd_conv vfs_create_simps(1) vfs_unlink_simps(1))+
  then show ?case using Cons u by (cases r) auto
qed simp

lemma rescatar_marco:
  assumes p: "punto_aplicable p" and d: "CHR ''/'' \<notin> set dir"
    and r: "restaurar sha (vfs_sistema crc (txn_dir i)) (p_entradas p) m = (y, m1)"
    and f: "\<forall>q. q \<noteq> fst (copias dir) \<and> q \<noteq> snd (copias dir) \<longrightarrow> m_ficheros m' q = m_ficheros m1 q"
  shows "ruta_sistema q \<Longrightarrow> en_respaldo (txn_dir i) m' q = en_respaldo (txn_dir i) m q"
    and "ruta_sistema q \<Longrightarrow> fichero_activo m' q = fichero_activo m1 q"
    and "ruta_sistema q \<Longrightarrow> q \<notin> e_path ` set (p_entradas p) \<Longrightarrow> fichero_activo m' q = fichero_activo m q"
    and "m_ficheros m' (ruta_punto (txn_dir i)) = m_ficheros m (ruta_punto (txn_dir i))"
proof -
  have rutas: "\<forall>e \<in> set (p_entradas p). ruta_sistema (e_path e)" using p by (auto simp: punto_aplicable_def list_all_iff)
  note rm = vfs.restaurar_marco [OF rutas r]
  show "ruta_sistema q \<Longrightarrow> en_respaldo (txn_dir i) m' q = en_respaldo (txn_dir i) m q"
    using rm f transaccion_no_copia(1,2) [OF txn_dir_sin_barra d] by (simp add: en_respaldo_def)
  show a: "ruta_sistema q \<Longrightarrow> fichero_activo m' q = fichero_activo m1 q" for q
    using f sistema_no_copia by (simp add: fichero_activo_def)
  then show "ruta_sistema q \<Longrightarrow> q \<notin> e_path ` set (p_entradas p) \<Longrightarrow> fichero_activo m' q = fichero_activo m q"
    using rm by simp
  have "m_ficheros m1 (ruta_punto (txn_dir i)) = m_ficheros m (ruta_punto (txn_dir i))"
    using restaurar_otro_fichero [OF _ r] rutas punto_no_sistema by blast
  then show "m_ficheros m' (ruta_punto (txn_dir i)) = m_ficheros m (ruta_punto (txn_dir i))"
    using f transaccion_no_copia(3,4) [OF txn_dir_sin_barra d] by simp
qed

lemma verificar_mismo:
  assumes "list_all (\<lambda>e. ruta_sistema (e_path e)) es"
    and "\<And>q. ruta_sistema q \<Longrightarrow> en_respaldo dir m' q = en_respaldo dir m q"
  shows "verificar_entradas sha (vfs_sistema crc dir) es m' = verificar_entradas sha (vfs_sistema crc dir) es m"
  using assms(1) by (induction es) (simp_all add: vfs.leer_respaldo assms(2) split: option.splits)

lemma cerrar_tras_rescate_vive:
  assumes "aguanta m 1"
  shows "\<exists>m'. cerrar_tras_rescate crc diario dir m = (True, m') \<and> vivo m'"
  using assms
  by (auto simp: cerrar_tras_rescate_def escribir_diario_eq vfs_create_file_def vfs_unlink_simps aguanta_def vivo_def
      split: estado_journal.splits prod.splits)

lemma rescatar_vive:
  assumes rec: "m_ficheros m (ruta_punto (txn_dir i)) = Some datos" "punto_parse crc datos = Inr p"
    and p: "punto_aplicable p" and v: "verificar sha (vfs_sistema crc (txn_dir i)) p m = Inr ()"
    and ag: "aguanta m (length (p_entradas p) + 1)"
  obtains m1 m2 m' where "restaurar sha (vfs_sistema crc (txn_dir i)) (p_entradas p) m = (Inr (), m1)" "vivo m1"
    "cerrar_tras_rescate crc diario dir m1 = (True, m2)" "rescatar crc sha esp i diario dir m = (True, m')"
    "m' = tomar_por_el_kernel (publicar crc esp DRestauradoAPrueba i m2)"
proof -
  have c: "punto_completo (p_entradas p)" "\<forall>e \<in> set (p_entradas p). ruta_sistema (e_path e)"
    using p by (auto simp: punto_aplicable_def list_all_iff)
  have mv: "\<forall>e \<in> set (p_entradas p). material_viejo sha (s_leer (vfs_sistema crc (txn_dir i)) m DeRespaldo) e"
    using v c(1) unfolding verificar_def by (rule verificar_material)
  have "\<forall>e \<in> set (p_entradas p). ruta_sistema (e_path e) \<and> material_viejo sha (en_respaldo (txn_dir i) m) e"
    using mv c(2) by (auto simp: material_viejo_def vfs.leer_respaldo)
  from vfs.restaurar_vive [OF this ag]
  obtain m1 where m1: "restaurar sha (vfs_sistema crc (txn_dir i)) (p_entradas p) m = (Inr (), m1)" "aguanta m1 1"
    by blast
  obtain m2 where m2: "cerrar_tras_rescate crc diario dir m1 = (True, m2)"
    using cerrar_tras_rescate_vive [OF m1(2)] by blast
  have "rescatar crc sha esp i diario dir m = (True, tomar_por_el_kernel (publicar crc esp DRestauradoAPrueba i m2))"
    using rec v m1(1) m2 by (simp add: rescatar_def Let_def ruta_punto_def)
  then show ?thesis using that m1 m2 by (auto simp: vivo_def aguanta_def)
qed

section \<open>A point to evaluate on\<close>

definition punto_ej :: punto where
  "punto_ej =
     \<lparr>p_id = replicate 32 0, p_version = ''1.0'', p_build = ''1.0'', p_guid_destino = ''1.0'',
      p_kernel = \<lparr>c_size = 9, c_hash = replicate 64 CHR ''0''\<rparr>,
      p_entradas = [(entrada_ej Respaldado)\<lparr>e_nuevo := None\<rparr>], p_seq = 1, p_formato = PUNTO_FORMATO\<rparr>"

definition maquina_punto_ej :: "nat \<Rightarrow> nat \<Rightarrow> maquina" where
  "maquina_punto_ej e c =
     (let m = maquina_ej DProbando Probando Aplicado ''ab'' e c
      in m\<lparr>m_ficheros := (m_ficheros m)(ruta_punto (replicate 16 CHR ''0'') \<mapsto> punto_format crc_ej punto_ej)\<rparr>)"

lemma ej_punto:
  "m_ficheros (maquina_punto_ej e c) (ruta_punto (txn_dir (replicate 32 0))) = Some (punto_format crc_ej punto_ej)"
  "punto_parse crc_ej (punto_format crc_ej punto_ej) = Inr punto_ej"
  "punto_aplicable punto_ej"
  "en_respaldo (replicate 16 CHR ''0'') (maquina_punto_ej e c) ''bin/init'' = Some ''x''"
proof -
  show "m_ficheros (maquina_punto_ej e c) (ruta_punto (txn_dir (replicate 32 0))) = Some (punto_format crc_ej punto_ej)"
    unfolding ej_hex(2) by (simp add: maquina_punto_ej_def Let_def)
  show "punto_parse crc_ej (punto_format crc_ej punto_ej) = Inr punto_ej"
    by (rule punto_parse_format) (simp add: punto_ok_def punto_ej_def ej_version punto_contenido_ok_def contenido_bien_def
        punto_entrada_ok_def contenido_ok_def entrada_ej_def is_ascii_hexdigit_def byte_in_def list_all_iff)
  show "punto_aplicable punto_ej"
    by (simp add: punto_aplicable_def punto_ej_def entrada_ej_def ruta_sistema_def punto_completo_def)
  show "en_respaldo (replicate 16 CHR ''0'') (maquina_punto_ej e c) ''bin/init'' = Some ''x''"
    using ej_ficheros(3) [of DProbando Probando Aplicado "''ab''" e c]
    by (simp add: maquina_punto_ej_def Let_def en_respaldo_def vfs_ruta_def ruta_punto_def)
qed

lemma ej_verifica: "verificar sha_ej (vfs_sistema crc_ej (txn_dir (replicate 32 0))) punto_ej (maquina_punto_ej e c) = Inr ()"
proof -
  have h: "hex_sha256 sha_ej x = replicate 64 CHR ''0''" for x
    using ej_hex(1) by (simp add: hex_sha256_def sha_ej_def to_hex_def)
  have "s_leer (vfs_sistema crc_ej (replicate 16 CHR ''0'')) (maquina_punto_ej e c) DeRespaldo ''bin/init'' = Some ''x''"
    using ej_punto(4) by (simp add: vfs.leer_respaldo ruta_sistema_def)
  then show ?thesis
    unfolding ej_hex(2) by (simp add: verificar_def punto_ej_def entrada_ej_def contenido_cuadra_def h)
qed

section \<open>Properties\<close>

text \<open>C11 (\<open>rescatar\<close>, frame): whatever the power, a rescue leaves its point, every backup and every path
  outside the inventory as they were; a point that does not verify is refused with nothing written;
  and when the rescue reports success with power left, each path of the inventory holds what the
  point kept for it.\<close>

theorem rescatar_seguro:
  assumes "m_ficheros m (ruta_punto (txn_dir i)) = Some datos" "punto_parse crc datos = Inr p"
    and "punto_aplicable p" "CHR ''/'' \<notin> set dir"
    and "rescatar crc sha esp i diario dir m = (ok, m')"
  shows "m_ficheros m' (ruta_punto (txn_dir i)) = Some datos \<and>
    (\<forall>q. ruta_sistema q \<longrightarrow> en_respaldo (txn_dir i) m' q = en_respaldo (txn_dir i) m q) \<and>
    (\<forall>q. ruta_sistema q \<longrightarrow> q \<notin> e_path ` set (p_entradas p) \<longrightarrow> fichero_activo m' q = fichero_activo m q) \<and>
    (verificar sha (vfs_sistema crc (txn_dir i)) p m \<noteq> Inr () \<longrightarrow> m' = m \<and> \<not> ok) \<and>
    (ok \<longrightarrow> 0 < m_energia m' \<longrightarrow>
      (\<forall>e \<in> set (p_entradas p). fichero_activo m' (e_path e) = antes (en_respaldo (txn_dir i) m) e))"
  using assms(1,2,5)
proof (cases rule: rescatar_casos)
  case nada
  then show ?thesis using assms(1) by simp
next
  case (hecho y m1)
  note fr = rescatar_marco [OF assms(3,4) hecho(2,4)]
  have c: "\<forall>e \<in> set (p_entradas p). ruta_sistema (e_path e)" "distinct (map e_path (p_entradas p))"
    using assms(3) by (auto simp: punto_aplicable_def list_all_iff)
  have "fichero_activo m' (e_path e) = antes (en_respaldo (txn_dir i) m) e"
    if "ok" "0 < m_energia m'" "e \<in> set (p_entradas p)" for e
  proof -
    have "restaurar sha (vfs_sistema crc (txn_dir i)) (p_entradas p) m = (Inr (), m1)" "vivo m1"
      using hecho(2,3,5) that by (auto simp: vivo_def)
    from vfs.restaurar_hecho [OF c this that(3)] show ?thesis using fr(2) c(1) that(3) by simp
  qed
  then show ?thesis using fr hecho(1) assms(1) by simp
qed

theorem rescatar_seguro_witness:
  "en_respaldo (txn_dir (replicate 32 0))
       (snd (rescatar crc_ej sha_ej EspAusente (replicate 32 0) JAusente ''op'' (maquina_punto_ej 2 1))) ''bin/init'' =
     en_respaldo (txn_dir (replicate 32 0)) (maquina_punto_ej 2 1) ''bin/init''"
proof -
  have "ruta_sistema ''bin/init''" by (simp add: ruta_sistema_def)
  then show ?thesis
    using rescatar_seguro [of "maquina_punto_ej 2 1" "replicate 32 0" _ crc_ej punto_ej "''op''" sha_ej EspAusente JAusente,
        OF ej_punto(1-3) _ surjective_pairing]
    by simp
qed

text \<open>C10 (\<open>rescatar\<close>, repetition): when the point verifies, a first rescue may be cut anywhere: a second one
  with power for the inventory and the journal succeeds, and each path of the inventory then holds
  what the point kept for it, as if the first attempt had not happened.\<close>

theorem rescatar_repetible:
  assumes "m_ficheros m (ruta_punto (txn_dir i)) = Some datos" "punto_parse crc datos = Inr p"
    and "punto_aplicable p" "CHR ''/'' \<notin> set dir" "CHR ''/'' \<notin> set dir'"
    and "verificar sha (vfs_sistema crc (txn_dir i)) p m = Inr ()"
    and "rescatar crc sha esp i diario dir m = (ok, m1)"
    and "2 * length (p_entradas p) + 2 < e"
  shows "\<exists>m2. rescatar crc sha esp' i diario' dir' (m1\<lparr>m_energia := e, m_corte := c\<rparr>) = (True, m2) \<and>
    (\<forall>x \<in> set (p_entradas p). fichero_activo m2 (e_path x) = antes (en_respaldo (txn_dir i) m) x)"
proof -
  define n where "n = m1\<lparr>m_energia := e, m_corte := c\<rparr>"
  have rs: "list_all (\<lambda>e. ruta_sistema (e_path e)) (p_entradas p)" "distinct (map e_path (p_entradas p))"
    using assms(3) by (auto simp: punto_aplicable_def)
  have m1: "m_ficheros m1 (ruta_punto (txn_dir i)) = Some datos"
    "ruta_sistema q \<Longrightarrow> en_respaldo (txn_dir i) m1 q = en_respaldo (txn_dir i) m q" for q
    using assms(1,2,7) rescatar_marco(1,4) [OF assms(3,4)]
    by (cases rule: rescatar_casos; simp add: assms(1))+
  then have n: "m_ficheros n (ruta_punto (txn_dir i)) = Some datos"
    "ruta_sistema q \<Longrightarrow> en_respaldo (txn_dir i) n q = en_respaldo (txn_dir i) m q" for q
    by (simp_all add: n_def en_respaldo_def)
  have v: "verificar sha (vfs_sistema crc (txn_dir i)) p n = Inr ()"
    using verificar_mismo [OF rs(1) n(2)] assms(6) by (simp add: verificar_def)
  have ag: "aguanta n (length (p_entradas p) + 1)" using assms(8) by (simp add: aguanta_def n_def)
  obtain k1 k2 m2 where r: "restaurar sha (vfs_sistema crc (txn_dir i)) (p_entradas p) n = (Inr (), k1)" "vivo k1"
    "cerrar_tras_rescate crc diario' dir' k1 = (True, k2)" "rescatar crc sha esp' i diario' dir' n = (True, m2)"
    "m2 = tomar_por_el_kernel (publicar crc esp' DRestauradoAPrueba i k2)"
    using n(1) assms(2,3) v ag by (rule rescatar_vive)
  have "fichero_activo m2 (e_path x) = antes (en_respaldo (txn_dir i) m) x" if x: "x \<in> set (p_entradas p)" for x
  proof -
    have q: "ruta_sistema (e_path x)" using rs(1) x by (simp add: list_all_iff)
    have "fichero_activo k1 (e_path x) = antes (en_respaldo (txn_dir i) n) x"
      using vfs.restaurar_hecho [OF _ rs(2) r(1,2) x] rs(1) by (simp add: list_all_iff)
    moreover have "fichero_activo m2 (e_path x) = fichero_activo k1 (e_path x)"
      using cerrar_tras_rescate_marco(1) [OF r(3)] sistema_no_copia [OF q, of dir'] publicar_ficheros
      by (simp add: r(5) fichero_activo_def tomar_por_el_kernel_def)
    ultimately show ?thesis using n(2) [OF q] by (simp add: antes_def)
  qed
  then show ?thesis using r(4) by (auto simp: n_def)
qed

theorem rescatar_repetible_witness:
  "\<exists>m2. rescatar crc_ej sha_ej EspAusente (replicate 32 0) JAusente ''op''
       (snd (rescatar crc_ej sha_ej EspAusente (replicate 32 0) JAusente ''op'' (maquina_punto_ej 1 0))\<lparr>m_energia := 9, m_corte := 0\<rparr>) =
       (True, m2) \<and> fichero_activo m2 ''bin/init'' = Some ''x''"
  using rescatar_repetible [of "maquina_punto_ej 1 0" "replicate 32 0" _ crc_ej punto_ej "''op''" "''op''" sha_ej EspAusente
      JAusente _ _ 9 EspAusente JAusente 0, OF ej_punto(1-3) _ _ ej_verifica surjective_pairing]
    ej_punto(4) [of 1 0]
  by (simp add: punto_ej_def antes_def ej_hex(2))

end
