(* ===== verification/Manifiesto.thy ===== *)
theory Manifiesto
  imports Hash Registro
begin

text \<open>
  The description of a release: \<open>semver.rs\<close>, \<open>compat.rs\<close>, \<open>oferta.rs\<close> and
  \<open>manifest.rs\<close> of \<open>crates/soso-update-core/src\<close>.  The parsers read the trimmed
  lines of the text; \<open>tlines\<close> stands for \<open>text.lines()\<close> followed by \<open>trim\<close>
  on each line.  The lemmas give the round trip of a manifest with its compatibility lines, what
  \<open>validate\<close> guarantees about the ranges of the pack, and the decisions of \<open>check\<close> and
  \<open>decidir\<close>.
\<close>

section \<open>Versions (semver.rs)\<close>

record sem_ver =
  sv_major :: u32
  sv_minor :: u32
  sv_patch :: u32

datatype ordering = Less | Equal | Greater

definition word_cmp :: "'a::len word \<Rightarrow> 'a word \<Rightarrow> ordering" where
  "word_cmp a b = (if a < b then Less else if a = b then Equal else Greater)"

definition then_with :: "ordering \<Rightarrow> ordering \<Rightarrow> ordering" where
  "then_with a b = (if a = Equal then b else a)"

definition semver_parse :: "string \<Rightarrow> sem_ver option" where
  "semver_parse s =
     (let base = trim (takeWhile (\<lambda>c. c \<noteq> CHR ''-'' \<and> c \<noteq> CHR ''+'') s)
      in case split_on CHR ''.'' base of
           a # b # c # _ \<Rightarrow>
             (case (parse_word a, parse_word b, parse_word c) of
                (Some x, Some y, Some z) \<Rightarrow> Some \<lparr>sv_major = x, sv_minor = y, sv_patch = z\<rparr>
              | _ \<Rightarrow> None)
         | _ \<Rightarrow> None)"

definition semver_cmp :: "sem_ver \<Rightarrow> sem_ver \<Rightarrow> ordering" where
  "semver_cmp a b =
     then_with (then_with (word_cmp (sv_major a) (sv_major b)) (word_cmp (sv_minor a) (sv_minor b)))
       (word_cmp (sv_patch a) (sv_patch b))"

section \<open>Compatibility (compat.rs)\<close>

definition RECUPERADOR_VERSION :: u32 where "RECUPERADOR_VERSION = 1"
definition SHIM_VERSION :: u32 where "SHIM_VERSION = 1"
definition FS_FORMATO :: string where "FS_FORMATO = ''sosofs1''"

record compat =
  k_arch :: string
  k_perfil :: string
  k_drivers :: "string list"
  k_abi :: u32
  k_fs :: string
  k_min_shim :: u32
  k_min_recuperador :: u32

record equipo =
  q_arch :: string
  q_abi :: u32
  q_fs :: string
  q_shim :: u32
  q_recuperador :: u32
  q_drivers :: "string list"

datatype compat_error =
    NoDeclarada
  | ErrArch string string
  | ErrAbi u32 u32
  | ErrFs string string
  | ShimAntiguo u32 u32
  | RecuperadorAntiguo u32 u32
  | DriverAusente string
  | CampoInvalido string

definition compat_default :: compat where
  "compat_default =
     \<lparr>k_arch = [], k_perfil = [], k_drivers = [], k_abi = 0, k_fs = [], k_min_shim = 0, k_min_recuperador = 0\<rparr>"

fun join :: "string \<Rightarrow> string list \<Rightarrow> string" where
  "join sep [] = []"
| "join sep [w] = w"
| "join sep (w # v # ws) = w @ sep @ join sep (v # ws)"

definition compat_format :: "compat \<Rightarrow> string" where
  "compat_format c =
     ''arch='' @ k_arch c @ [NL] @ ''perfil='' @ k_perfil c @ [NL] @
     (if k_drivers c = [] then [] else ''drivers='' @ join '','' (k_drivers c) @ [NL]) @
     ''abi='' @ show_word (k_abi c) @ [NL] @ ''fs='' @ k_fs c @ [NL] @
     ''min_shim='' @ show_word (k_min_shim c) @ [NL] @
     ''min_recuperador='' @ show_word (k_min_recuperador c) @ [NL]"

definition compat_num :: "string \<Rightarrow> string \<Rightarrow> compat_error + u32" where
  "compat_num c v = ok_or (parse_word v) (CampoInvalido c)"

text \<open>One line of the loop: the updated contract and whether the line counts as a declaration.\<close>

definition compat_linea :: "string \<Rightarrow> compat \<times> bool \<Rightarrow> compat_error + compat \<times> bool" where
  "compat_linea l cv =
     (case split_once CHR ''='' l of
        None \<Rightarrow> Inr cv
      | Some (clave, valor) \<Rightarrow>
          let (c, visto) = cv in
          if clave = ''arch'' then Inr (c\<lparr>k_arch := valor\<rparr>, True)
          else if clave = ''perfil'' then Inr (c\<lparr>k_perfil := valor\<rparr>, True)
          else if clave = ''drivers''
            then Inr (c\<lparr>k_drivers := filter (\<lambda>d. d \<noteq> []) (map trim (split_on CHR '','' valor))\<rparr>, True)
          else if clave = ''abi''
            then res_bind (compat_num ''abi'' valor) (\<lambda>v. Inr (c\<lparr>k_abi := v\<rparr>, True))
          else if clave = ''fs'' then Inr (c\<lparr>k_fs := valor\<rparr>, True)
          else if clave = ''min_shim''
            then res_bind (compat_num ''min_shim'' valor) (\<lambda>v. Inr (c\<lparr>k_min_shim := v\<rparr>, True))
          else if clave = ''min_recuperador''
            then res_bind (compat_num ''min_recuperador'' valor) (\<lambda>v. Inr (c\<lparr>k_min_recuperador := v\<rparr>, True))
          else Inr (c, visto))"

fun compat_loop :: "string list \<Rightarrow> compat \<times> bool \<Rightarrow> compat_error + compat \<times> bool" where
  "compat_loop [] cv = Inr cv"
| "compat_loop (l # ls) cv = res_bind (compat_linea l cv) (compat_loop ls)"

definition compat_parse :: "string \<Rightarrow> (compat_error + compat) option" where
  "compat_parse texto =
     (case compat_loop (tlines texto) (compat_default, False) of
        Inl e \<Rightarrow> Some (Inl e)
      | Inr (c, visto) \<Rightarrow> if visto then Some (Inr c) else None)"

definition compat_check :: "compat \<Rightarrow> equipo \<Rightarrow> compat_error + unit" where
  "compat_check c eq =
     (if k_arch c \<noteq> [] \<and> k_arch c \<noteq> q_arch eq then Inl (ErrArch (k_arch c) (q_arch eq))
      else if k_abi c \<noteq> q_abi eq then Inl (ErrAbi (k_abi c) (q_abi eq))
      else if k_fs c \<noteq> [] \<and> k_fs c \<noteq> q_fs eq then Inl (ErrFs (k_fs c) (q_fs eq))
      else if k_min_shim c > q_shim eq then Inl (ShimAntiguo (k_min_shim c) (q_shim eq))
      else if k_min_recuperador c > q_recuperador eq
        then Inl (RecuperadorAntiguo (k_min_recuperador c) (q_recuperador eq))
      else case find (\<lambda>n. \<not> list_ex (\<lambda>d. d = n) (k_drivers c)) (q_drivers eq) of
          Some n \<Rightarrow> Inl (DriverAusente n)
        | None \<Rightarrow> Inr ())"

definition exigir :: "compat option \<Rightarrow> equipo \<Rightarrow> compat_error + unit" where
  "exigir c eq = (case c of None \<Rightarrow> Inl NoDeclarada | Some c \<Rightarrow> compat_check c eq)"

section \<open>What to do with a release (oferta.rs)\<close>

datatype oferta = Nueva | Reparar | Republicada | AlDia | BuildDistinto | Antigua

definition se_aplica_sola :: "oferta \<Rightarrow> bool" where
  "se_aplica_sola x \<longleftrightarrow> x = Nueva \<or> x = Reparar \<or> x = Republicada"

record lado =
  l_version :: sem_ver
  l_build :: string
  l_fecha :: string

definition fecha_valida :: "string \<Rightarrow> bool" where
  "fecha_valida f \<longleftrightarrow> length f = 10 \<and> f ! 4 = CHR ''-'' \<and> f ! 7 = CHR ''-'' \<and>
     list_all (\<lambda>(i, c). i = 4 \<or> i = 7 \<or> is_ascii_digit c) (enumerate 0 f)"

text \<open>The order of \<open>str\<close>: the bytes, lexicographically.\<close>

fun str_less :: "string \<Rightarrow> string \<Rightarrow> bool" where
  "str_less _ [] = False"
| "str_less [] (_ # _) = True"
| "str_less (a # s) (b # t) =
     ((of_char a :: nat) < of_char b \<or> a = b \<and> str_less s t)"

definition decidir :: "lado \<Rightarrow> lado \<Rightarrow> bool \<Rightarrow> oferta" where
  "decidir remota local hay_trabajo =
     (case semver_cmp (l_version remota) (l_version local) of
        Greater \<Rightarrow> Nueva
      | Less \<Rightarrow> Antigua
      | Equal \<Rightarrow>
          if \<not> hay_trabajo then AlDia
          else if l_build local \<noteq> [] \<and> l_build remota = l_build local then Reparar
          else if fecha_valida (l_fecha remota) \<and> fecha_valida (l_fecha local)
              \<and> str_less (l_fecha local) (l_fecha remota) then Republicada
          else BuildDistinto)"

section \<open>The manifest (manifest.rs)\<close>

definition MANIFEST_MAGIC :: string where "MANIFEST_MAGIC = ''SOSOREL v1''"

record file_entry =
  f_path :: string
  f_offset :: u64
  f_size :: u64
  f_hash_hex :: string

record manifest =
  mn_version :: sem_ver
  mn_version_raw :: string
  mn_build :: string
  mn_fecha :: string
  mn_kernel_hash :: string
  mn_kernel_size :: u64
  mn_pack_hash :: string
  mn_pack_size :: u64
  mn_compat :: "compat option"
  mn_files :: "file_entry list"

datatype parse_error =
    PBadMagic
  | MissingField string
  | BadLine nat string string
  | BadVersion string
  | Compatibility compat_error

datatype validate_error =
    BadHash string
  | BadPath string
  | DuplicatePath string
  | FileOutOfPack string
  | EmptyFile string
  | FileTooLarge string u64
  | PackSizeMismatch
  | OverlappingFiles

definition MAX_FILE_SIZE :: u64 where "MAX_FILE_SIZE = 512 * 1024 * 1024"

text \<open>The local variables of \<open>Manifest::parse\<close>.\<close>

record parse_st =
  ps_version_raw :: string
  ps_build :: string
  ps_fecha :: string
  ps_kernel_hash :: string
  ps_kernel_size :: u64
  ps_pack_hash :: string
  ps_pack_size :: u64
  ps_files :: "file_entry list"
  ps_saw_magic :: bool

definition tamano :: string where
  "tamano = ''tama'' @ [CHR 0xC3, CHR 0xB1] @ ''o''"

definition ENTERO_64 :: string where "ENTERO_64 = ''un entero sin signo de 64 bits''"

definition kernel_linea :: "nat \<Rightarrow> string \<Rightarrow> parse_st \<Rightarrow> parse_error + parse_st" where
  "kernel_linea i l st =
     (case split_whitespace l of
        [_, h, n] \<Rightarrow>
          res_bind (ok_or (parse_word n) (BadLine i (tamano @ '' de kernel'') ENTERO_64))
            (\<lambda>v. Inr (st\<lparr>ps_kernel_hash := h, ps_kernel_size := v\<rparr>))
      | _ \<Rightarrow> Inl (BadLine i ''kernel'' (''kernel <sha256> <'' @ tamano @ ''>'')))"

definition pack_linea :: "nat \<Rightarrow> string \<Rightarrow> parse_st \<Rightarrow> parse_error + parse_st" where
  "pack_linea i l st =
     (case split_whitespace l of
        [_, h, n] \<Rightarrow>
          res_bind (ok_or (parse_word n) (BadLine i (tamano @ '' de pack'') ENTERO_64))
            (\<lambda>v. Inr (st\<lparr>ps_pack_hash := h, ps_pack_size := v\<rparr>))
      | _ \<Rightarrow> Inl (BadLine i ''pack'' (''pack <sha256> <'' @ tamano @ ''>'')))"

definition fichero_linea :: "nat \<Rightarrow> string \<Rightarrow> parse_st \<Rightarrow> parse_error + parse_st" where
  "fichero_linea i l st =
     (case split_whitespace l of
        _ # h # off # n # p # ps \<Rightarrow>
          res_bind (ok_or (parse_word off) (BadLine i ''offset de fichero'' ENTERO_64)) (\<lambda>off.
          res_bind (ok_or (parse_word n) (BadLine i (tamano @ '' de fichero'') ENTERO_64)) (\<lambda>n.
          Inr (st\<lparr>ps_files := ps_files st @
            [\<lparr>f_path = join '' '' (p # ps), f_offset = off, f_size = n, f_hash_hex = h\<rparr>]\<rparr>)))
      | _ \<Rightarrow> Inl (BadLine i ''fichero''
          (''f <sha256> <offset> <'' @ tamano @ ''> <ruta> (posible manifiesto truncado)'')))"

definition manifest_linea :: "nat \<Rightarrow> string \<Rightarrow> parse_st \<Rightarrow> parse_error + parse_st" where
  "manifest_linea i l st =
     (if l = [] then Inr st
      else if l = MANIFEST_MAGIC then Inr (st\<lparr>ps_saw_magic := True\<rparr>)
      else if \<not> ps_saw_magic st then Inl PBadMagic
      else case strip_prefix ''version='' l of Some v \<Rightarrow> Inr (st\<lparr>ps_version_raw := v\<rparr>) | None \<Rightarrow>
      case strip_prefix ''build='' l of Some v \<Rightarrow> Inr (st\<lparr>ps_build := v\<rparr>) | None \<Rightarrow>
      case strip_prefix ''fecha='' l of Some v \<Rightarrow> Inr (st\<lparr>ps_fecha := v\<rparr>) | None \<Rightarrow>
      if starts_with ''kernel '' l then kernel_linea i l st
      else if starts_with ''pack '' l then pack_linea i l st
      else if starts_with ''f '' l then fichero_linea i l st
      else Inr st)"

fun manifest_loop :: "nat \<Rightarrow> string list \<Rightarrow> parse_st \<Rightarrow> parse_error + parse_st" where
  "manifest_loop i [] st = Inr st"
| "manifest_loop i (l # ls) st = res_bind (manifest_linea i l st) (manifest_loop (i + 1) ls)"

definition parse_ini :: parse_st where
  "parse_ini =
     \<lparr>ps_version_raw = [], ps_build = [], ps_fecha = [], ps_kernel_hash = [], ps_kernel_size = 0,
      ps_pack_hash = [], ps_pack_size = 0, ps_files = [], ps_saw_magic = False\<rparr>"

definition manifest_parse :: "string \<Rightarrow> parse_error + manifest" where
  "manifest_parse texto =
     res_bind (manifest_loop 1 (tlines texto) parse_ini) (\<lambda>st.
     if \<not> ps_saw_magic st then Inl PBadMagic
     else if ps_version_raw st = [] then Inl (MissingField ''version'')
     else res_bind (ok_or (semver_parse (ps_version_raw st)) (BadVersion (ps_version_raw st))) (\<lambda>v.
     res_bind (case compat_parse texto of
         Some (Inr c) \<Rightarrow> Inr (Some c) | Some (Inl e) \<Rightarrow> Inl (Compatibility e) | None \<Rightarrow> Inr None) (\<lambda>c.
     Inr \<lparr>mn_version = v, mn_version_raw = ps_version_raw st, mn_build = ps_build st, mn_fecha = ps_fecha st,
          mn_kernel_hash = ps_kernel_hash st, mn_kernel_size = ps_kernel_size st,
          mn_pack_hash = ps_pack_hash st, mn_pack_size = ps_pack_size st, mn_compat = c,
          mn_files = ps_files st\<rparr>)))"

definition fichero_fmt :: "file_entry \<Rightarrow> string" where
  "fichero_fmt f = ''f '' @ f_hash_hex f @ '' '' @ show_word (f_offset f) @ '' '' @ show_word (f_size f) @ '' '' @ f_path f"

definition manifest_format :: "manifest \<Rightarrow> string" where
  "manifest_format m =
     MANIFEST_MAGIC @ [NL] @ ''version='' @ mn_version_raw m @ [NL] @ ''build='' @ mn_build m @ [NL] @
     ''fecha='' @ mn_fecha m @ [NL] @
     (case mn_compat m of None \<Rightarrow> [] | Some c \<Rightarrow> compat_format c) @
     ''kernel '' @ mn_kernel_hash m @ '' '' @ show_word (mn_kernel_size m) @ [NL] @
     ''pack '' @ mn_pack_hash m @ '' '' @ show_word (mn_pack_size m) @ [NL] @
     concat (map (\<lambda>f. fichero_fmt f @ [NL]) (mn_files m))"

definition find_file :: "manifest \<Rightarrow> string \<Rightarrow> file_entry option" where
  "find_file m p = find (\<lambda>f. f_path f = p) (mn_files m)"

definition ok_hash :: "string \<Rightarrow> string \<Rightarrow> validate_error + unit" where
  "ok_hash field h = (if length h = 64 \<and> list_all is_ascii_hexdigit h then Inr () else Inl (BadHash field))"

definition bad_path :: "string \<Rightarrow> bool" where
  "bad_path p \<longleftrightarrow> p = [] \<or> starts_with ''/'' p \<or> CHR 0x5C \<in> set p \<or> list_ex (\<lambda>s. s = ''..'') (split_on CHR ''/'' p)"

fun validate_files :: "u64 \<Rightarrow> file_entry list \<Rightarrow> string list \<Rightarrow> u64 \<Rightarrow> validate_error + u64" where
  "validate_files pack_size [] seen max_end = Inr max_end"
| "validate_files pack_size (f # fs) seen max_end =
     (if bad_path (f_path f) then Inl (BadPath (f_path f))
      else if f_path f \<in> set seen then Inl (DuplicatePath (f_path f))
      else res_bind (ok_hash ''file'' (f_hash_hex f)) (\<lambda>_.
        if f_size f = 0 then Inl (EmptyFile (f_path f))
        else if f_size f > MAX_FILE_SIZE then Inl (FileTooLarge (f_path f) (f_size f))
        else let end = sat_add (f_offset f) (f_size f) in
          if end > pack_size then Inl (FileOutOfPack (f_path f))
          else validate_files pack_size fs (f_path f # seen) (max max_end end)))"

fun solapan :: "file_entry list \<Rightarrow> bool" where
  "solapan (a # b # fs) \<longleftrightarrow> f_offset a + f_size a > f_offset b \<or> solapan (b # fs)"
| "solapan _ = False"

definition manifest_validate :: "manifest \<Rightarrow> validate_error + unit" where
  "manifest_validate m =
     res_bind (ok_hash ''kernel'' (mn_kernel_hash m)) (\<lambda>_.
     res_bind (ok_hash ''pack'' (mn_pack_hash m)) (\<lambda>_.
     res_bind (validate_files (mn_pack_size m) (mn_files m) [] 0) (\<lambda>max_end.
     if mn_files m \<noteq> [] \<and> max_end > mn_pack_size m then Inl PackSizeMismatch
     else if length (mn_files m) > 1 \<and> solapan (sort_key f_offset (mn_files m)) then Inl OverlappingFiles
     else Inr ())))"

definition hash_matches_hex :: "(bytes \<Rightarrow> hash256) \<Rightarrow> bytes \<Rightarrow> string \<Rightarrow> bool" where
  "hash_matches_hex sha datos hex \<longleftrightarrow> hex_sha256 sha datos = hex"

section \<open>Validation\<close>

definition hash_valido :: "string \<Rightarrow> bool" where
  "hash_valido h \<longleftrightarrow> length h = 64 \<and> list_all is_ascii_hexdigit h"

text \<open>An entry on its own: a safe relative path, a hash and a range inside the pack.\<close>

definition archivo_valido :: "u64 \<Rightarrow> file_entry \<Rightarrow> bool" where
  "archivo_valido n f \<longleftrightarrow> \<not> bad_path (f_path f) \<and> hash_valido (f_hash_hex f) \<and>
     0 < f_size f \<and> f_size f \<le> MAX_FILE_SIZE \<and> unat (f_offset f) + unat (f_size f) \<le> unat n"

definition tramo :: "file_entry \<Rightarrow> nat set" where
  "tramo f = {unat (f_offset f) ..< unat (f_offset f) + unat (f_size f)}"

lemma ok_hash_Inr [simp]: "ok_hash c h = Inr u \<longleftrightarrow> hash_valido h"
  by (simp add: ok_hash_def hash_valido_def)

lemma validate_files_Inr:
  "validate_files n fs seen e = Inr r \<longleftrightarrow>
     (\<forall>f \<in> set fs. \<not> bad_path (f_path f) \<and> hash_valido (f_hash_hex f) \<and> f_size f \<noteq> 0 \<and>
        f_size f \<le> MAX_FILE_SIZE \<and> sat_add (f_offset f) (f_size f) \<le> n) \<and>
     distinct (map f_path fs) \<and> f_path ` set fs \<inter> set seen = {} \<and>
     r = fold (\<lambda>f. max (sat_add (f_offset f) (f_size f))) fs e"
  by (induction fs arbitrary: seen e) (auto simp: Let_def max.commute not_less)

lemma fold_max_le:
  "(\<forall>f \<in> set fs. g f \<le> (n :: 'a :: linorder)) \<Longrightarrow> e \<le> n \<Longrightarrow> fold (\<lambda>f. max (g f)) fs e \<le> n"
  by (induction fs arbitrary: e) auto

lemma sat_add_rango:
  fixes a b n :: "'a::len word"
  assumes "n \<noteq> - 1"
  shows "sat_add a b \<le> n \<longleftrightarrow> unat a + unat b \<le> unat n"
proof -
  have "unat n < 2 ^ LENGTH('a) - 1"
    using assms unsigned_less [of n, where 'a = nat] unat_max_word [where 'a = 'a]
    by (metis Suc_diff_1 less_antisym unsigned_word_eqI zero_less_numeral zero_less_power)
  then show ?thesis by (auto simp: word_le_nat_alt unat_sat_add)
qed

lemma unat_fin:
  "unat (f_offset f) + unat (f_size f) \<le> unat (n :: u64) \<Longrightarrow>
     unat (f_offset f + f_size f) = unat (f_offset f) + unat (f_size f)"
  using unsigned_less [of n, where 'a = nat] by (simp add: unat_word_ariths)

lemma no_solapan_separa:
  assumes "\<forall>f \<in> set fs. 0 < f_size f \<and> unat (f_offset f) + unat (f_size f) \<le> unat (n :: u64)"
    and "\<not> solapan (a # fs)" "unat (f_offset a) + unat (f_size a) \<le> unat n"
  shows "\<forall>f \<in> set fs. unat (f_offset a) + unat (f_size a) \<le> unat (f_offset f)"
  using assms
proof (induction fs arbitrary: a)
  case (Cons b fs)
  have ab: "unat (f_offset a) + unat (f_size a) \<le> unat (f_offset b)"
    using Cons.prems(2) unat_fin [OF Cons.prems(3)] by (simp add: word_le_nat_alt not_less)
  have "\<forall>f \<in> set fs. unat (f_offset b) + unat (f_size b) \<le> unat (f_offset f)"
    using Cons.prems by (intro Cons.IH) auto
  then show ?case using ab by fastforce
qed simp

lemma no_solapan_disjuntos:
  assumes "\<forall>f \<in> set fs. 0 < f_size f \<and> unat (f_offset f) + unat (f_size f) \<le> unat (n :: u64)" "\<not> solapan fs"
  shows "\<forall>f \<in> set fs. \<forall>g \<in> set fs. f \<noteq> g \<longrightarrow> tramo f \<inter> tramo g = {}"
  using assms
proof (induction fs)
  case (Cons a fs)
  have "\<not> solapan fs" using Cons.prems(2) by (cases fs) auto
  then have "\<forall>f \<in> set fs. \<forall>g \<in> set fs. f \<noteq> g \<longrightarrow> tramo f \<inter> tramo g = {}" using Cons by simp
  moreover have "\<forall>f \<in> set fs. tramo a \<inter> tramo f = {}"
    using no_solapan_separa [of fs n a] Cons.prems by (fastforce simp: tramo_def)
  ultimately show ?case by (auto simp: Int_commute)
qed simp

lemma disjuntos_no_solapan:
  assumes "\<forall>f \<in> set fs. 0 < f_size f \<and> unat (f_offset f) + unat (f_size f) \<le> unat (n :: u64)"
    and "\<forall>f \<in> set fs. \<forall>g \<in> set fs. f \<noteq> g \<longrightarrow> tramo f \<inter> tramo g = {}"
    and "distinct fs" "sorted (map f_offset fs)"
  shows "\<not> solapan fs"
  using assms
proof (induction fs rule: solapan.induct)
  case (1 a b fs)
  have "a \<noteq> b" "f_offset a \<le> f_offset b" using 1(4,5) by auto
  then have "unat (f_offset b) \<notin> tramo a" using 1(2,3) by (force simp: tramo_def word_less_nat_alt)
  then have "unat (f_offset a) + unat (f_size a) \<le> unat (f_offset b)"
    using \<open>f_offset a \<le> f_offset b\<close> by (simp add: tramo_def word_le_nat_alt)
  then have "\<not> f_offset a + f_size a > f_offset b"
    using unat_fin [of a n] 1(2) by (simp add: word_less_nat_alt)
  moreover have "\<not> solapan (b # fs)" using 1 by auto
  ultimately show ?case by simp
qed simp_all

lemma validate_caracteriza:
  assumes n: "mn_pack_size m \<noteq> - 1"
  shows "manifest_validate m = Inr () \<longleftrightarrow>
     hash_valido (mn_kernel_hash m) \<and> hash_valido (mn_pack_hash m) \<and>
     list_all (archivo_valido (mn_pack_size m)) (mn_files m) \<and> distinct (map f_path (mn_files m)) \<and>
     (\<forall>f \<in> set (mn_files m). \<forall>g \<in> set (mn_files m). f \<noteq> g \<longrightarrow> tramo f \<inter> tramo g = {})"
proof -
  define fs where "fs = mn_files m"
  define q where "q = mn_pack_size m"
  have corto: "length fs > 1 \<and> solapan (sort_key f_offset fs) \<longleftrightarrow> solapan (sort_key f_offset fs)"
    by (cases fs; cases "tl fs"; auto)
  have fin: "fold (\<lambda>f. max (sat_add (f_offset f) (f_size f))) fs 0 \<le> q"
    if "\<forall>f \<in> set fs. sat_add (f_offset f) (f_size f) \<le> q"
    using fold_max_le [OF that, of 0] by simp
  have av: "list_all (archivo_valido q) fs \<longleftrightarrow>
      (\<forall>f \<in> set fs. \<not> bad_path (f_path f) \<and> hash_valido (f_hash_hex f) \<and> f_size f \<noteq> 0 \<and>
        f_size f \<le> MAX_FILE_SIZE \<and> sat_add (f_offset f) (f_size f) \<le> q)"
    by (auto simp: list_all_iff archivo_valido_def sat_add_rango [OF n [folded q_def]] word_gt_0)
  have ss: "solapan (sort_key f_offset fs) \<longleftrightarrow> \<not> (\<forall>f \<in> set fs. \<forall>g \<in> set fs. f \<noteq> g \<longrightarrow> tramo f \<inter> tramo g = {})"
    if "list_all (archivo_valido q) fs" "distinct (map f_path fs)"
  proof -
    have "\<forall>f \<in> set (sort_key f_offset fs). 0 < f_size f \<and> unat (f_offset f) + unat (f_size f) \<le> unat q"
      using that(1) by (simp add: list_all_iff archivo_valido_def)
    note d = no_solapan_disjuntos [OF this] disjuntos_no_solapan [OF this]
    show ?thesis using d that(2) by (auto simp: distinct_map)
  qed
  have "manifest_validate m = Inr () \<longleftrightarrow> hash_valido (mn_kernel_hash m) \<and> hash_valido (mn_pack_hash m) \<and>
      list_all (archivo_valido q) fs \<and> distinct (map f_path fs) \<and> \<not> solapan (sort_key f_offset fs)"
    unfolding av using fin corto
    by (auto simp: manifest_validate_def validate_files_Inr fs_def [symmetric] q_def [symmetric] not_less)
  then show ?thesis using ss unfolding fs_def [symmetric] q_def [symmetric] by blast
qed

text \<open>C27 (\<open>Manifest::validate\<close>): for a pack below the largest 64-bit size, \<open>validate\<close> accepts
  exactly the manifests with well-formed hashes, safe and distinct paths, files of at most
  \<open>MAX_FILE_SIZE\<close> bytes, and non-empty ranges that lie inside the pack and do not overlap one another.\<close>

theorem manifest_validate_iff:
  assumes n: "mn_pack_size m \<noteq> - 1"
  shows "manifest_validate m = Inr () \<longleftrightarrow>
     hash_valido (mn_kernel_hash m) \<and> hash_valido (mn_pack_hash m) \<and>
     list_all (archivo_valido (mn_pack_size m)) (mn_files m) \<and> distinct (map f_path (mn_files m)) \<and>
     (\<forall>f \<in> set (mn_files m). \<forall>g \<in> set (mn_files m). f \<noteq> g \<longrightarrow> tramo f \<inter> tramo g = {})"
  using n by (rule validate_caracteriza)

section \<open>Words\<close>

definition palabra_ok :: "string \<Rightarrow> bool" where
  "palabra_ok w \<longleftrightarrow> w \<noteq> [] \<and> list_all (\<lambda>c. c \<notin> set (concat ws_seqs)) w"

lemma palabra_ws: "palabra_ok w \<longleftrightarrow> w \<noteq> [] \<and> (\<forall>c \<in> set w. c \<notin> ws_byte)"
  by (auto simp: palabra_ok_def list_all_iff ws_byte_code)

lemma pref_len_sin_ws: "c \<notin> ws_byte \<Longrightarrow> pref_len ws_seqs (c # s) = 0"
  by (rule pref_len_no_head) (use ws_seqs_ne in \<open>force simp: ws_byte_def\<close>)

lemma pref_len_espacio: "pref_len ws_seqs (CHR '' '' # s) = 1"
  by (rule pref_len_single) (simp_all add: ws1_def)

lemma split_whitespace_espacio: "split_whitespace (CHR '' '' # s) = split_whitespace s"
proof -
  have "trim_start (CHR '' '' # s) = trim_start s"
    unfolding trim_start_def by (subst strip_seqs.simps) (simp add: pref_len_espacio)
  then show ?thesis by (subst (1 2) split_whitespace.simps) simp
qed

lemma skip_word_Cons: "c \<notin> ws_byte \<Longrightarrow> skip_word (c # s) = (c # fst (skip_word s), snd (skip_word s))"
  by (subst skip_word.simps) (simp add: pref_len_sin_ws case_prod_beta Let_def)

lemma skip_word_fin: "skip_word [] = ([], [])" "skip_word (CHR '' '' # s) = ([], CHR '' '' # s)"
  by (subst skip_word.simps; simp add: pref_len_espacio)+

lemma skip_word_palabra:
  "(\<forall>c \<in> set w. c \<notin> ws_byte) \<Longrightarrow> skip_word (w @ CHR '' '' # s) = (w, CHR '' '' # s)"
  "(\<forall>c \<in> set w. c \<notin> ws_byte) \<Longrightarrow> skip_word w = (w, [])"
  by (induction w) (simp_all add: skip_word_Cons skip_word_fin)

lemma trim_start_palabra: "palabra_ok w \<Longrightarrow> trim_start (w @ s) = w @ s"
  unfolding trim_start_def palabra_ws by (cases w) (simp_all add: strip_seqs_id pref_len_sin_ws)

lemma split_whitespace_Nil [simp]: "split_whitespace [] = []"
  by (subst split_whitespace.simps) simp

lemma split_whitespace_palabra:
  assumes "palabra_ok w"
  shows "split_whitespace (w @ CHR '' '' # s) = w # split_whitespace s" "split_whitespace w = [w]"
proof -
  obtain c v where w: "w = c # v" using assms by (auto simp: palabra_ok_def neq_Nil_conv)
  have ws: "\<forall>c \<in> set w. c \<notin> ws_byte" using assms by (simp add: palabra_ws)
  show "split_whitespace w = [w]"
    using trim_start_palabra [OF assms, of "[]"] skip_word_palabra(2) [OF ws] w
    by (subst split_whitespace.simps) simp
  show "split_whitespace (w @ CHR '' '' # s) = w # split_whitespace s"
    using trim_start_palabra [OF assms, of "CHR '' '' # s"] skip_word_palabra(1) [OF ws, of s] w
    by (subst split_whitespace.simps) (simp add: split_whitespace_espacio)
qed

lemma split_whitespace_join: "list_all palabra_ok ws \<Longrightarrow> split_whitespace (join '' '' ws) = ws"
  by (induction "'' ''" ws rule: join.induct) (simp_all add: split_whitespace_palabra)

lemma join_split: "join [d] (split_on d s) = s"
proof (induction s)
  case (Cons c s)
  then show ?case by (cases "split_on d s"; cases "tl (split_on d s)") auto
qed simp

lemma split_join: "list_all (\<lambda>w. d \<notin> set w) ws \<Longrightarrow> ws \<noteq> [] \<Longrightarrow> split_on d (join [d] ws) = ws"
  by (induction "[d]" ws rule: join.induct) (simp_all add: split_on_nosep split_on_append)

lemma palabra_show [simp]: "palabra_ok (show_word w)"
  using show_word_digits [of w] by (auto simp: palabra_ws list_all_iff is_ascii_digit_ws)

lemma palabra_trim: "palabra_ok w \<Longrightarrow> trim_end (a @ w) = a @ w"
  by (cases w rule: rev_cases)
    (use trim_end_snoc ws_last_byte in \<open>auto simp: palabra_ws simp flip: append_assoc\<close>)

lemma palabra_NL: "palabra_ok w \<Longrightarrow> NL \<notin> set w"
  by (auto simp: palabra_ok_def list_all_iff ws_seqs_def)

section \<open>Round trip\<close>

definition valor_ok :: "string \<Rightarrow> bool" where
  "valor_ok v \<longleftrightarrow> NL \<notin> set v \<and> trim_end v = v"

definition driver_ok :: "string \<Rightarrow> bool" where
  "driver_ok d \<longleftrightarrow> palabra_ok d \<and> CHR '','' \<notin> set d"

definition compat_ok :: "compat \<Rightarrow> bool" where
  "compat_ok c \<longleftrightarrow> valor_ok (k_arch c) \<and> valor_ok (k_perfil c) \<and> valor_ok (k_fs c) \<and> list_all driver_ok (k_drivers c)"

definition archivo_ok :: "file_entry \<Rightarrow> bool" where
  "archivo_ok f \<longleftrightarrow> palabra_ok (f_hash_hex f) \<and> list_all palabra_ok (split_on CHR '' '' (f_path f))"

definition manifest_ok :: "manifest \<Rightarrow> bool" where
  "manifest_ok m \<longleftrightarrow> mn_version_raw m \<noteq> [] \<and> semver_parse (mn_version_raw m) = Some (mn_version m) \<and>
     valor_ok (mn_version_raw m) \<and> valor_ok (mn_build m) \<and> valor_ok (mn_fecha m) \<and>
     palabra_ok (mn_kernel_hash m) \<and> palabra_ok (mn_pack_hash m) \<and>
     (case mn_compat m of None \<Rightarrow> True | Some c \<Rightarrow> compat_ok c) \<and> list_all archivo_ok (mn_files m)"

definition compat_lineas :: "compat \<Rightarrow> string list" where
  "compat_lineas c =
     [''arch='' @ k_arch c, ''perfil='' @ k_perfil c] @
     (if k_drivers c = [] then [] else [''drivers='' @ join '','' (k_drivers c)]) @
     [''abi='' @ show_word (k_abi c), ''fs='' @ k_fs c, ''min_shim='' @ show_word (k_min_shim c),
      ''min_recuperador='' @ show_word (k_min_recuperador c)]"

definition manifest_lineas :: "manifest \<Rightarrow> string list" where
  "manifest_lineas m =
     [MANIFEST_MAGIC, ''version='' @ mn_version_raw m, ''build='' @ mn_build m, ''fecha='' @ mn_fecha m] @
     (case mn_compat m of None \<Rightarrow> [] | Some c \<Rightarrow> compat_lineas c) @
     [join '' '' [''kernel'', mn_kernel_hash m, show_word (mn_kernel_size m)],
      join '' '' [''pack'', mn_pack_hash m, show_word (mn_pack_size m)]] @
     map fichero_fmt (mn_files m)"

lemma fichero_fmt_join:
  "fichero_fmt f = join '' '' ([''f'', f_hash_hex f, show_word (f_offset f), show_word (f_size f)] @ split_on CHR '' '' (f_path f))"
  using join_split [of "CHR '' ''" "f_path f"] by (cases "split_on CHR '' '' (f_path f)") (simp_all add: fichero_fmt_def)

lemma manifest_format_lineas: "manifest_format m = unlines (manifest_lineas m)"
  by (simp add: manifest_format_def manifest_lineas_def compat_format_def compat_lineas_def unlines_def comp_def
      split: option.splits)

text \<open>Every line of the text reads back as itself.\<close>

definition fija :: "string \<Rightarrow> bool" where
  "fija l \<longleftrightarrow> NL \<notin> set l \<and> trim l = l"

lemma fija_kv: "k \<noteq> [] \<Longrightarrow> list_all (\<lambda>c. c \<notin> ws_byte) k \<Longrightarrow> valor_ok v \<Longrightarrow> fija (k @ CHR ''='' # v)"
  using kv_trim [of k v] by (cases k) (auto simp: fija_def valor_ok_def ws_byte_code ws_seqs_def list_all_iff)

lemma palabras_fija:
  assumes "list_all palabra_ok ws" "ws \<noteq> []"
  shows "fija (join '' '' ws)"
proof -
  have e: "NL \<notin> set (join '' '' ws) \<and> (\<forall>a. trim_end (a @ join '' '' ws) = a @ join '' '' ws)"
    using assms
  proof (induction "'' ''" ws rule: join.induct)
    case (2 w)
    then show ?case by (simp add: palabra_trim palabra_NL)
  next
    case (3 w v ws)
    then show ?case by (auto simp: palabra_NL simp flip: append_assoc append_Cons)
  qed simp
  have "trim_start (join '' '' ws) = join '' '' ws"
    using assms trim_start_palabra [of "hd ws" "[]"] trim_start_palabra [of "hd ws"]
    by (cases ws; cases "tl ws") auto
  then show ?thesis using e [THEN conjunct2, rule_format, of "[]"] e by (simp add: fija_def trim_def)
qed

lemma valor_show: "valor_ok (show_word w)"
  using palabra_trim [of "show_word w" "[]"] palabra_NL [of "show_word w"] by (simp add: valor_ok_def)

lemma valor_drivers: "list_all driver_ok ds \<Longrightarrow> valor_ok (join '','' ds)"
proof (induction "'',''" ds rule: join.induct)
  case (2 d)
  then show ?case using palabra_trim [of d "[]"] by (simp add: driver_ok_def valor_ok_def palabra_NL)
next
  case (3 d v ds)
  have "CHR '','' \<notin> ws_byte" by (rule ws_byte_ascii) simp_all
  then show ?case using 3 by (simp add: valor_ok_def driver_ok_def palabra_NL trim_end_barrier)
qed (simp add: valor_ok_def)

lemma claves_ascii: "list_all (\<lambda>c. c \<notin> ws_byte) k" if "list_all (\<lambda>c. 33 \<le> (of_char c :: nat) \<and> (of_char c :: nat) < 127) k"
  using that ws_byte_ascii by (auto simp: list_all_iff)

lemma fija_clave: "k \<noteq> [] \<Longrightarrow> list_all (\<lambda>c. 33 \<le> (of_char c :: nat) \<and> (of_char c :: nat) < 127) k \<Longrightarrow> valor_ok v \<Longrightarrow>
    fija (k @ CHR ''='' # v)"
  using fija_kv claves_ascii by blast

lemma palabra_literal: "palabra_ok ''kernel''" "palabra_ok ''pack''" "palabra_ok ''f''" "fija MANIFEST_MAGIC"
  by code_simp+

lemma compat_lineas_fijas: "compat_ok c \<Longrightarrow> list_all fija (compat_lineas c)"
  using fija_clave [of "''arch''"] fija_clave [of "''perfil''"] fija_clave [of "''drivers''"] fija_clave [of "''abi''"]
    fija_clave [of "''fs''"] fija_clave [of "''min_shim''"] fija_clave [of "''min_recuperador''"] valor_drivers
  by (simp add: compat_lineas_def compat_ok_def valor_show)

lemma manifest_lineas_fijas:
  assumes "manifest_ok m"
  shows "list_all fija (manifest_lineas m)"
proof -
  have "fija (fichero_fmt f)" if "archivo_ok f" for f
    unfolding fichero_fmt_join using that by (intro palabras_fija) (simp_all add: archivo_ok_def palabra_literal)
  then have "list_all fija (map fichero_fmt (mn_files m))" using assms by (auto simp: manifest_ok_def list_all_iff)
  moreover have pl: "fija (join '' '' [w, h, show_word n])" if "palabra_ok w" "palabra_ok h" for w h and n :: u64
    using that by (intro palabras_fija) simp_all
  ultimately show ?thesis
    using assms fija_clave [of "''version''"] fija_clave [of "''build''"] fija_clave [of "''fecha''"]
      compat_lineas_fijas palabra_literal pl [OF palabra_literal(1)] pl [OF palabra_literal(2)]
    by (simp add: manifest_lineas_def manifest_ok_def split: option.splits)
qed

lemma tlines_manifest: "manifest_ok m \<Longrightarrow> tlines (manifest_format m) = manifest_lineas m"
  using manifest_lineas_fijas [of m] unfolding manifest_format_lineas
  by (subst tlines_unlines) (auto simp: list_all_iff fija_def intro: map_idI)

text \<open>The loop over the lines.\<close>

lemma manifest_loop_append:
  "manifest_loop i (a @ b) st = res_bind (manifest_loop i a st) (manifest_loop (i + length a) b)"
proof (induction a arbitrary: i st)
  case (Cons l a)
  then show ?case by (cases "manifest_linea i l st") simp_all
qed simp

lemma compat_loop_append: "compat_loop (a @ b) cv = res_bind (compat_loop a cv) (compat_loop b)"
proof (induction a arbitrary: cv)
  case (Cons l a)
  then show ?case by (cases "compat_linea l cv") simp_all
qed simp

lemma manifest_loop_compat: "ps_saw_magic st \<Longrightarrow> manifest_loop i (compat_lineas c) st = Inr st"
  by (simp add: compat_lineas_def manifest_linea_def MANIFEST_MAGIC_def)

lemma manifest_linea_palabras:
  assumes "ps_saw_magic st"
  shows "manifest_linea i (join '' '' (''kernel'' # w # ws)) st = kernel_linea i (join '' '' (''kernel'' # w # ws)) st"
    and "manifest_linea i (join '' '' (''pack'' # w # ws)) st = pack_linea i (join '' '' (''pack'' # w # ws)) st"
    and "manifest_linea i (join '' '' (''f'' # w # ws)) st = fichero_linea i (join '' '' (''f'' # w # ws)) st"
  using assms by (simp_all add: manifest_linea_def MANIFEST_MAGIC_def)

lemma fichero_linea_fmt:
  assumes "archivo_ok f" "ps_saw_magic st"
  shows "manifest_linea i (fichero_fmt f) st = Inr (st\<lparr>ps_files := ps_files st @ [f]\<rparr>)"
proof -
  obtain p ps where p: "split_on CHR '' '' (f_path f) = p # ps" by (meson list.exhaust split_on_ne)
  have j: "join '' '' (p # ps) = f_path f" using join_split [of "CHR '' ''" "f_path f"] p by simp
  have ws: "split_whitespace (fichero_fmt f) = [''f'', f_hash_hex f, show_word (f_offset f), show_word (f_size f)] @ p # ps"
    unfolding fichero_fmt_join p using assms(1) p
    by (intro split_whitespace_join) (simp add: archivo_ok_def palabra_literal)
  show ?thesis
    using assms(2) manifest_linea_palabras(3) [OF assms(2), of i "f_hash_hex f"] ws j
    unfolding fichero_fmt_join p append_Cons append_Nil
    by (simp only: fichero_linea_def) simp
qed

lemma manifest_loop_ficheros:
  "list_all archivo_ok fs \<Longrightarrow> ps_saw_magic st \<Longrightarrow>
     manifest_loop i (map fichero_fmt fs) st = Inr (st\<lparr>ps_files := ps_files st @ fs\<rparr>)"
  by (induction fs arbitrary: i st) (simp_all add: fichero_linea_fmt)

lemma kernel_pack_linea:
  assumes "palabra_ok h" "ps_saw_magic st"
  shows "manifest_linea i (join '' '' [''kernel'', h, show_word n]) st = Inr (st\<lparr>ps_kernel_hash := h, ps_kernel_size := n\<rparr>)"
    "manifest_linea i (join '' '' [''pack'', h, show_word n]) st = Inr (st\<lparr>ps_pack_hash := h, ps_pack_size := n\<rparr>)"
proof -
  have "split_whitespace (join '' '' [w, h, show_word n]) = [w, h, show_word n]" if "palabra_ok w" for w
    using assms(1) that by (intro split_whitespace_join) simp
  note sw = this [OF palabra_literal(1)] this [OF palabra_literal(2)]
  show "manifest_linea i (join '' '' [''kernel'', h, show_word n]) st = Inr (st\<lparr>ps_kernel_hash := h, ps_kernel_size := n\<rparr>)"
    "manifest_linea i (join '' '' [''pack'', h, show_word n]) st = Inr (st\<lparr>ps_pack_hash := h, ps_pack_size := n\<rparr>)"
    using manifest_linea_palabras(1,2) [OF assms(2), of i h "[show_word n]"] sw
    by (simp_all only: kernel_linea_def pack_linea_def) simp_all
qed

text \<open>The compatibility lines, and the lines that are none.\<close>

lemma starts_with_corta: "starts_with p (k @ c # v) \<Longrightarrow> c \<notin> set p \<Longrightarrow> starts_with p k"
proof (induction p arbitrary: k)
  case (Cons a p)
  then show ?case by (cases k) auto
qed simp

lemma compat_linea_ajena:
  assumes "starts_with p l" "CHR ''='' \<notin> set p"
    and "list_all (\<lambda>k. \<not> starts_with p k) [''arch'', ''perfil'', ''drivers'', ''abi'', ''fs'', ''min_shim'', ''min_recuperador'']"
  shows "compat_linea l cv = Inr cv"
proof (cases "split_once CHR ''='' l")
  case (Some kv)
  obtain k v where kv: "kv = (k, v)" by (cases kv)
  have l: "l = k @ CHR ''='' # v" using Some kv by (simp add: split_once_Some)
  have "starts_with p k" using starts_with_corta [of p k] assms(1,2) l by simp
  then have "k \<notin> set [''arch'', ''perfil'', ''drivers'', ''abi'', ''fs'', ''min_shim'', ''min_recuperador'']"
    using assms(3) unfolding list_all_iff by blast
  then show ?thesis using Some kv by (simp add: compat_linea_def split_beta)
next
  case None
  then show ?thesis unfolding compat_linea_def by (simp only: option.simps)
qed

lemma compat_loop_ajenas:
  "list_all (\<lambda>l. \<forall>cv. compat_linea l cv = Inr cv) ls \<Longrightarrow> compat_loop ls cv = Inr cv"
  by (cases cv, induction ls) auto

lemma compat_linea_ficheros: "compat_linea (fichero_fmt f) cv = Inr cv"
  by (rule compat_linea_ajena [of "''f ''"]) (simp_all add: fichero_fmt_def)

lemma drivers_leidos: "list_all driver_ok ds \<Longrightarrow> ds \<noteq> [] \<Longrightarrow>
    filter (\<lambda>d. d \<noteq> []) (map trim (split_on CHR '','' (join '','' ds))) = ds"
proof -
  assume ds: "list_all driver_ok ds" "ds \<noteq> []"
  have "trim d = d \<and> d \<noteq> []" if "d \<in> set ds" for d
    using ds that palabras_fija [of "[d]"] by (auto simp: list_all_iff driver_ok_def fija_def palabra_ok_def)
  moreover have "split_on CHR '','' (join '','' ds) = ds"
    using ds by (intro split_join) (auto simp: list_all_iff driver_ok_def)
  ultimately show ?thesis by (simp add: filter_id_conv map_idI)
qed

lemma compat_loop_lineas:
  assumes "compat_ok c"
  shows "compat_loop (compat_lineas c) (compat_default, False) = Inr (c, True)"
  using assms drivers_leidos [of "k_drivers c"]
  by (auto simp: compat_lineas_def compat_linea_def compat_num_def compat_ok_def compat_default_def)

lemma compat_parse_format:
  assumes "manifest_ok m"
  shows "compat_parse (manifest_format m) = map_option Inr (mn_compat m)"
proof -
  have ini: "compat_loop [MANIFEST_MAGIC, ''version='' @ v, ''build='' @ b, ''fecha='' @ d] cv = Inr cv" for v b d cv
    by (simp add: compat_linea_def MANIFEST_MAGIC_def split_beta)
  have kp: "compat_linea (join '' '' [''kernel'', h, n]) cv = Inr cv" "compat_linea (join '' '' [''pack'', h, n]) cv = Inr cv"
    for h n cv
    by (rule compat_linea_ajena [of "''kernel ''"]; simp) (rule compat_linea_ajena [of "''pack ''"]; simp)
  have fin: "compat_loop [join '' '' [''kernel'', h, n], join '' '' [''pack'', h', n']] cv = Inr cv" for h n h' n' cv
    unfolding compat_loop.simps kp res_bind_simps ..
  have fs: "compat_loop (map fichero_fmt fs) cv = Inr cv" for fs cv
    by (rule compat_loop_ajenas) (simp add: list_all_iff compat_linea_ficheros)
  have c: "compat_loop (case mn_compat m of None \<Rightarrow> [] | Some c \<Rightarrow> compat_lineas c) (compat_default, False) =
      Inr (case mn_compat m of None \<Rightarrow> (compat_default, False) | Some c \<Rightarrow> (c, True))"
    using compat_loop_lineas assms by (simp add: manifest_ok_def split: option.splits)
  show ?thesis
    unfolding compat_parse_def tlines_manifest [OF assms] manifest_lineas_def compat_loop_append ini c fin fs res_bind_simps
    by (simp split: option.splits)
qed

text \<open>C30 (\<open>Manifest::parse\<close> and \<open>Manifest::format\<close>): a manifest whose fields fit on their lines
  reads back exactly as it was written, the compatibility contract and the paths with spaces included.\<close>

theorem manifest_parse_format:
  assumes ok: "manifest_ok m"
  shows "manifest_parse (manifest_format m) = Inr m"
proof -
  define st1 where "st1 = parse_ini\<lparr>ps_saw_magic := True, ps_version_raw := mn_version_raw m, ps_build := mn_build m,
    ps_fecha := mn_fecha m\<rparr>"
  define st2 where "st2 = st1\<lparr>ps_kernel_hash := mn_kernel_hash m, ps_kernel_size := mn_kernel_size m,
    ps_pack_hash := mn_pack_hash m, ps_pack_size := mn_pack_size m\<rparr>"
  have sm: "ps_saw_magic st1" "ps_saw_magic st2" by (simp_all add: st1_def st2_def)
  have a: "manifest_loop i [MANIFEST_MAGIC, ''version='' @ mn_version_raw m, ''build='' @ mn_build m, ''fecha='' @ mn_fecha m]
      parse_ini = Inr st1" for i
    by (simp add: manifest_linea_def MANIFEST_MAGIC_def st1_def)
  have b: "manifest_loop i (case mn_compat m of None \<Rightarrow> [] | Some c \<Rightarrow> compat_lineas c) st1 = Inr st1" for i
    using manifest_loop_compat [OF sm(1)] by (simp split: option.splits)
  have c: "manifest_loop i [join '' '' [''kernel'', mn_kernel_hash m, show_word (mn_kernel_size m)],
      join '' '' [''pack'', mn_pack_hash m, show_word (mn_pack_size m)]] st1 = Inr st2" for i
    using ok sm(1) unfolding manifest_ok_def manifest_loop.simps
    by (simp only: kernel_pack_linea res_bind_simps) (simp add: kernel_pack_linea st2_def del: join.simps)
  have d: "manifest_loop i (map fichero_fmt (mn_files m)) st2 = Inr (st2\<lparr>ps_files := mn_files m\<rparr>)" for i
    using ok sm(2) manifest_loop_ficheros [of "mn_files m" st2 i] by (simp add: manifest_ok_def st2_def st1_def parse_ini_def)
  have "manifest_loop 1 (tlines (manifest_format m)) parse_ini = Inr (st2\<lparr>ps_files := mn_files m\<rparr>)"
    unfolding tlines_manifest [OF ok] manifest_lineas_def manifest_loop_append a b c d res_bind_simps ..
  moreover have "compat_parse (manifest_format m) = map_option Inr (mn_compat m)" using ok by (rule compat_parse_format)
  ultimately show ?thesis
    using ok by (cases "mn_compat m") (simp_all add: manifest_parse_def manifest_ok_def st2_def st1_def parse_ini_def)
qed

section \<open>Decisions\<close>

lemma word_cmp_simps [simp]:
  "word_cmp a b = Less \<longleftrightarrow> a < b" "word_cmp a b = Equal \<longleftrightarrow> a = b" "word_cmp a b = Greater \<longleftrightarrow> b < a"
  by (auto simp: word_cmp_def)

lemma semver_cmp_refl [simp]: "semver_cmp a a = Equal"
  by (simp add: semver_cmp_def then_with_def word_cmp_def)

lemma semver_cmp_Equal: "semver_cmp a b = Equal \<longleftrightarrow> a = b"
  by (auto simp: semver_cmp_def then_with_def intro: sem_ver.equality)

lemma semver_cmp_Greater:
  "semver_cmp a b = Greater \<longleftrightarrow>
     sv_major b < sv_major a \<or> sv_major a = sv_major b \<and>
       (sv_minor b < sv_minor a \<or> sv_minor a = sv_minor b \<and> sv_patch b < sv_patch a)"
  by (simp add: semver_cmp_def then_with_def)

lemma semver_cmp_asim: "semver_cmp a b = Greater \<Longrightarrow> semver_cmp b a \<noteq> Greater"
  unfolding semver_cmp_Greater using less_asym by metis

lemma str_less_asim: "str_less a b \<Longrightarrow> \<not> str_less b a"
  by (induction a b rule: str_less.induct) auto

lemma se_aplica_iff:
  "se_aplica_sola (decidir r l t) \<longleftrightarrow>
     semver_cmp (l_version r) (l_version l) = Greater \<or>
     l_version r = l_version l \<and> t \<and>
       (l_build l \<noteq> [] \<and> l_build r = l_build l \<or>
        fecha_valida (l_fecha r) \<and> fecha_valida (l_fecha l) \<and> str_less (l_fecha l) (l_fecha r))"
  by (cases "semver_cmp (l_version r) (l_version l)")
    (auto simp: decidir_def se_aplica_sola_def semver_cmp_Equal)

text \<open>(\<open>oferta::decidir\<close>): no machine goes back and forth between two releases by itself.  If the
  first is installed over the second without being forced, then the second is not installed over
  the first, unless both are the same build of the same version, whose files are being repaired.\<close>

theorem oferta_sin_vaiven:
  assumes "se_aplica_sola (decidir a b t)" "se_aplica_sola (decidir b a u)"
  shows "l_version a = l_version b \<and> l_build a = l_build b \<and> decidir a b t = Reparar \<and> decidir b a u = Reparar"
proof -
  have v: "l_version a = l_version b"
    using assms semver_cmp_asim [of "l_version a" "l_version b"] unfolding se_aplica_iff by metis
  then have "t" "u" "l_build a = l_build b \<and> l_build b \<noteq> []"
    using assms str_less_asim [of "l_fecha a" "l_fecha b"] by (auto simp: se_aplica_iff)
  then show ?thesis using v by (simp add: decidir_def)
qed

theorem oferta_sin_vaiven_witness:
  "decidir \<lparr>l_version = \<lparr>sv_major = 0, sv_minor = 3, sv_patch = 8\<rparr>, l_build = ''abc'', l_fecha = ''2026-01-01''\<rparr>
     \<lparr>l_version = \<lparr>sv_major = 0, sv_minor = 3, sv_patch = 8\<rparr>, l_build = ''abc'', l_fecha = ''x''\<rparr> True = Reparar"
  using oferta_sin_vaiven [of
    "\<lparr>l_version = \<lparr>sv_major = 0, sv_minor = 3, sv_patch = 8\<rparr>, l_build = ''abc'', l_fecha = ''2026-01-01''\<rparr>"
    "\<lparr>l_version = \<lparr>sv_major = 0, sv_minor = 3, sv_patch = 8\<rparr>, l_build = ''abc'', l_fecha = ''x''\<rparr>" True True]
  by (simp add: se_aplica_iff)

text \<open>\<open>compat::exigir\<close>: a release is accepted exactly when it declares its contract, agrees with the
  machine on architecture, ABI and file system, asks for no newer shim or recoverer than installed,
  and brings every driver the machine needs.\<close>

theorem exigir_iff:
  "exigir c eq = Inr () \<longleftrightarrow>
     (\<exists>k. c = Some k \<and> k_arch k \<in> {[], q_arch eq} \<and> k_abi k = q_abi eq \<and> k_fs k \<in> {[], q_fs eq} \<and>
        k_min_shim k \<le> q_shim eq \<and> k_min_recuperador k \<le> q_recuperador eq \<and>
        set (q_drivers eq) \<subseteq> set (k_drivers k))"
proof -
  have "(case find P ns of Some n \<Rightarrow> Inl (f n) | None \<Rightarrow> Inr ()) = Inr () \<longleftrightarrow> (\<forall>n \<in> set ns. \<not> P n)"
    for P :: "string \<Rightarrow> bool" and ns and f :: "string \<Rightarrow> compat_error"
    by (induction ns) auto
  then show ?thesis by (cases c) (auto simp: exigir_def compat_check_def list_ex_iff not_less subset_iff)
qed

section \<open>Examples\<close>

definition manifest_ej :: manifest where
  "manifest_ej =
     \<lparr>mn_version = \<lparr>sv_major = 0, sv_minor = 3, sv_patch = 9\<rparr>, mn_version_raw = ''0.3.9'', mn_build = ''b1'',
      mn_fecha = ''2026-10-10'', mn_kernel_hash = replicate 64 CHR ''a'', mn_kernel_size = 7,
      mn_pack_hash = replicate 64 CHR ''b'', mn_pack_size = 5,
      mn_compat = Some \<lparr>k_arch = ''x86_64'', k_perfil = [], k_drivers = [''nvme'', ''e1000''], k_abi = 3, k_fs = ''sosofs1'',
        k_min_shim = 1, k_min_recuperador = 1\<rparr>,
      mn_files = [\<lparr>f_path = ''bin/a b'', f_offset = 2, f_size = 3, f_hash_hex = replicate 64 CHR ''0''\<rparr>,
        \<lparr>f_path = ''bin/init'', f_offset = 0, f_size = 2, f_hash_hex = replicate 64 CHR ''1''\<rparr>]\<rparr>"

lemma palabra_ascii: "w \<noteq> [] \<Longrightarrow> list_all (\<lambda>c. 33 \<le> (of_char c :: nat) \<and> (of_char c :: nat) < 127) w \<Longrightarrow> palabra_ok w"
  using claves_ascii [of w] by (simp add: palabra_ws list_all_iff)

lemma valor_palabra: "palabra_ok w \<Longrightarrow> valor_ok w"
  using palabra_trim [of w "[]"] by (simp add: valor_ok_def palabra_NL)

lemma ej_manifest_ok: "manifest_ok manifest_ej"
proof -
  have "show_word (0 :: u32) = ''0''" "show_word (3 :: u32) = ''3''" "show_word (9 :: u32) = ''9''" by code_simp+
  then have "parse_word ''0'' = Some (0 :: u32)" "parse_word ''3'' = Some (3 :: u32)" "parse_word ''9'' = Some (9 :: u32)"
    by (metis parse_show_word)+
  moreover have "trim ''0.3.9'' = ''0.3.9''"
    using palabras_fija [of "[''0.3.9'']"] by (simp add: palabra_ascii fija_def)
  ultimately have "semver_parse ''0.3.9'' = Some \<lparr>sv_major = 0, sv_minor = 3, sv_patch = 9\<rparr>"
    by (simp add: semver_parse_def)
  then show ?thesis
    by (simp add: manifest_ok_def manifest_ej_def archivo_ok_def compat_ok_def driver_ok_def palabra_ascii valor_palabra
        list_all_iff) (simp add: valor_ok_def)
qed

theorem manifest_parse_format_witness: "manifest_parse (manifest_format manifest_ej) = Inr manifest_ej"
  using ej_manifest_ok by (rule manifest_parse_format)

lemma hash_repetido: "is_ascii_hexdigit c \<Longrightarrow> hash_valido (replicate 64 c)"
  by (simp add: hash_valido_def list_all_iff)

lemma ej_hexdigit: "is_ascii_hexdigit CHR ''0''" "is_ascii_hexdigit CHR ''1''" "is_ascii_hexdigit CHR ''a''" "is_ascii_hexdigit CHR ''b''"
  by code_simp+

lemma ej_rutas: "\<not> bad_path ''bin/a b''" "\<not> bad_path ''bin/init''"
  by (simp_all add: bad_path_def)

lemma ej_validate: "manifest_validate manifest_ej = Inr ()"
proof -
  have "sat_add (2 :: u64) 3 = 5" "sat_add (0 :: u64) 2 = 2" by (simp_all add: sat_add_def)
  then have "validate_files 5 (mn_files manifest_ej) [] 0 = Inr 5"
    by (simp add: manifest_ej_def hash_repetido ej_hexdigit ej_rutas MAX_FILE_SIZE_def Let_def)
  moreover have "\<not> solapan (sort_key f_offset (mn_files manifest_ej))" by (simp add: manifest_ej_def)
  moreover have "hash_valido (mn_kernel_hash manifest_ej)" "hash_valido (mn_pack_hash manifest_ej)" "mn_pack_size manifest_ej = 5"
    by (simp_all add: manifest_ej_def hash_repetido ej_hexdigit)
  ultimately show ?thesis unfolding manifest_validate_def by simp
qed

theorem manifest_validate_iff_witness: "tramo (mn_files manifest_ej ! 0) \<inter> tramo (mn_files manifest_ej ! 1) = {}"
proof -
  have "mn_pack_size manifest_ej \<noteq> - 1" by (simp add: manifest_ej_def)
  then show ?thesis using manifest_validate_iff [of manifest_ej] ej_validate by (simp add: manifest_ej_def)
qed

text \<open>C37 (flaw): with a declared pack size of \<open>u64::MAX\<close> the saturated end of an entry is never past the
  pack, so \<open>validate\<close> accepts an entry whose range leaves the 64-bit space.\<close>

theorem validate_desborda:
  "\<exists>m. manifest_validate m = Inr () \<and>
     (\<exists>f \<in> set (mn_files m). unat (mn_pack_size m) < unat (f_offset f) + unat (f_size f))"
proof -
  define m where "m = manifest_ej\<lparr>mn_pack_size := - 1, mn_files := [\<lparr>f_path = ''bin/init'', f_offset = - 1, f_size = 2,
    f_hash_hex = replicate 64 CHR ''1''\<rparr>]\<rparr>"
  have "sat_add (- 1 :: u64) 2 = - 1" by (simp add: sat_add_def unat_max_word)
  then have "manifest_validate m = Inr ()"
    by (simp add: m_def manifest_validate_def manifest_ej_def hash_repetido ej_hexdigit ej_rutas MAX_FILE_SIZE_def Let_def)
  moreover have "\<exists>f \<in> set (mn_files m). unat (mn_pack_size m) < unat (f_offset f) + unat (f_size f)"
    by (simp add: m_def unat_max_word)
  ultimately show ?thesis by blast
qed

end
