(* ===== verification/Paquete.thy ===== *)
theory Paquete
  imports Manifiesto "HOL-Library.Char_ord" "HOL-Library.List_Lexorder" "HOL-Library.Product_Lexorder"
begin

text \<open>
  The pack of a release and the plan to download it: \<open>lib.rs\<close> (which paths travel),
  \<open>pack.rs\<close> and \<open>plan.rs\<close> of \<open>crates/soso-update-core/src\<close>.  The walk over the
  host's directories is not modelled: \<open>pack_rootfs_con\<close> takes the list of relative paths and
  contents that the walk finds.  The lemmas show that a pack built from a tree can be read back
  entry by entry and passes \<open>validate\<close>, and that a download plan covers every pending file once
  and within its span.
\<close>

section \<open>What travels (lib.rs)\<close>

datatype excluido = Log | EstadoOta | Cache | Temporal | ConfigLocal | Volumen | Fuente

definition PACK_SKIP_DIRS :: "(string \<times> excluido) list" where
  "PACK_SKIP_DIRS =
     [(''var/log/'', Log), (''var/lib/soso-update/'', EstadoOta), (''var/actualiza-'', EstadoOta),
      (''var/forja-cache/'', Cache), (''var/forja-out/'', Cache), (''var/cache/'', Cache),
      (''var/paquetes/'', ConfigLocal), (''var/self-improvement/'', Cache), (''var/t41/'', Cache),
      (''var/t42/'', Cache), (''var/t80/'', Cache), (''tmp/'', Temporal), (''src/soso/'', Fuente),
      (''models/'', Volumen)]"

definition PACK_SKIP :: "(string \<times> excluido) list" where
  "PACK_SKIP =
     [(''etc/ssh_host_key'', ConfigLocal), (''etc/ssh_host_mldsa'', ConfigLocal),
      (''etc/authorized_key'', ConfigLocal), (''etc/authorized_mldsa'', ConfigLocal),
      (''etc/wifi.conf'', ConfigLocal), (''etc/llm.conf'', ConfigLocal), (''etc/voz.conf'', ConfigLocal),
      (''etc/actualiza.conf'', ConfigLocal), (''etc/paquetes.conf'', ConfigLocal),
      (''etc/notifybug.conf'', ConfigLocal), (''etc/soso-live.bytes'', ConfigLocal),
      (''etc/grub-linux.txt'', ConfigLocal), (''etc/soso-release'', ConfigLocal),
      (''etc/actualiza.estado'', EstadoOta), (''etc/soso-hw'', ConfigLocal)]"

definition PACK_SKIP_SUFIJOS :: "(string \<times> excluido) list" where
  "PACK_SKIP_SUFIJOS = [(''.log'', Log), (''_key'', ConfigLocal), (''.key'', ConfigLocal)]"

definition RAICES_ADMINISTRADAS :: "string list" where
  "RAICES_ADMINISTRADAS = [''bin/'', ''lib/'', ''etc/'']"

definition sin_barras :: "string \<Rightarrow> string" where
  "sin_barras r = dropWhile (\<lambda>c. c = CHR ''/'') r"

definition por_que_se_excluye :: "string \<Rightarrow> excluido option" where
  "por_que_se_excluye ruta =
     (let rel = sin_barras ruta in
      case find (\<lambda>(p, _). p = rel) PACK_SKIP of Some (_, m) \<Rightarrow> Some m | None \<Rightarrow>
      case find (\<lambda>(d, _). starts_with d rel) PACK_SKIP_DIRS of Some (_, m) \<Rightarrow> Some m | None \<Rightarrow>
      case find (\<lambda>(s, _). ends_with s rel) PACK_SKIP_SUFIJOS of Some (_, m) \<Rightarrow> Some m | None \<Rightarrow> None)"

definition es_administrada :: "string \<Rightarrow> bool" where
  "es_administrada ruta \<longleftrightarrow>
     (let rel = sin_barras ruta
      in list_ex (\<lambda>r. starts_with r rel) RAICES_ADMINISTRADAS \<and> por_que_se_excluye rel = None)"

section \<open>The pack (pack.rs)\<close>

record pack_entry =
  pe_path :: string
  pe_data :: bytes

definition read_entry :: "bytes \<Rightarrow> file_entry \<Rightarrow> bytes option" where
  "read_entry datos f =
     (let start = unat (f_offset f); end = start + unat (f_size f)
      in if end \<ge> 2 ^ 64 then None
         else if end \<le> length datos then Some (take (end - start) (drop start datos)) else None)"

definition verify_entry :: "(bytes \<Rightarrow> hash256) \<Rightarrow> bytes \<Rightarrow> file_entry \<Rightarrow> bool" where
  "verify_entry sha datos f \<longleftrightarrow>
     (case read_entry datos f of Some d \<Rightarrow> hex_sha256 sha d = f_hash_hex f | None \<Rightarrow> False)"

definition should_pack :: "string \<Rightarrow> bool" where
  "should_pack rel \<longleftrightarrow> por_que_se_excluye rel = None"

definition pack_push :: "pack_entry list \<Rightarrow> string \<Rightarrow> bytes \<Rightarrow> pack_entry list" where
  "pack_push es p d = es @ [\<lparr>pe_path = p, pe_data = d\<rparr>]"

definition sort_entries :: "pack_entry list \<Rightarrow> pack_entry list" where
  "sort_entries es = sort_key pe_path es"

fun build_loop :: "(bytes \<Rightarrow> hash256) \<Rightarrow> pack_entry list \<Rightarrow> bytes \<Rightarrow> file_entry list \<Rightarrow> bytes \<times> file_entry list" where
  "build_loop sha [] blob files = (blob, files)"
| "build_loop sha (e # es) blob files =
     build_loop sha es (blob @ pe_data e)
       (files @ [\<lparr>f_path = pe_path e, f_offset = of_nat (length blob), f_size = of_nat (length (pe_data e)),
          f_hash_hex = hex_sha256 sha (pe_data e)\<rparr>])"

definition pack_build :: "(bytes \<Rightarrow> hash256) \<Rightarrow> pack_entry list \<Rightarrow> bytes \<times> file_entry list" where
  "pack_build sha es = build_loop sha es [] []"

fun recoger_loop :: "(string \<Rightarrow> bool) \<Rightarrow> (string \<times> bytes) list \<Rightarrow> pack_entry list \<Rightarrow> pack_entry list" where
  "recoger_loop incluir [] w = w"
| "recoger_loop incluir ((rel, datos) # fs) w =
     (if \<not> should_pack rel \<or> \<not> incluir rel then recoger_loop incluir fs w
      else if datos = [] then recoger_loop incluir fs w
      else recoger_loop incluir fs (pack_push w rel datos))"

definition pack_rootfs_con ::
  "(bytes \<Rightarrow> hash256) \<Rightarrow> (string \<Rightarrow> bool) \<Rightarrow> (string \<times> bytes) list \<Rightarrow> bytes \<times> file_entry list" where
  "pack_rootfs_con sha incluir fs = pack_build sha (sort_entries (recoger_loop incluir fs []))"

definition pack_rootfs :: "(bytes \<Rightarrow> hash256) \<Rightarrow> (string \<times> bytes) list \<Rightarrow> bytes \<times> file_entry list" where
  "pack_rootfs sha fs = pack_rootfs_con sha (\<lambda>_. True) fs"

section \<open>The plan (plan.rs)\<close>

definition GAP_MAX :: u64 where "GAP_MAX = 256 * 1024"
definition SPAN_MAX :: u64 where "SPAN_MAX = 8 * 1024 * 1024"

record span =
  sp_start :: u64
  sp_end :: u64
  sp_files :: "nat list"

definition span_len :: "span \<Rightarrow> u64" where
  "span_len s = sp_end s - sp_start s"

definition span_is_empty :: "span \<Rightarrow> bool" where
  "span_is_empty s \<longleftrightarrow> sp_end s = sp_start s"

definition oversized :: "span \<Rightarrow> u64 \<Rightarrow> bool" where
  "oversized s span_max \<longleftrightarrow> span_len s > span_max"

definition plan_paso :: "file_entry list \<Rightarrow> u64 \<Rightarrow> u64 \<Rightarrow> nat \<Rightarrow> span list \<Rightarrow> span list" where
  "plan_paso pending gap_max span_max i spans =
     (let e = pending ! i; start = f_offset e; end = f_offset e + f_size e;
          nuevo = \<lparr>sp_start = start, sp_end = end, sp_files = [i]\<rparr>
      in if spans = [] then [nuevo]
         else let last = last spans in
           if start \<ge> sp_end last \<and> start - sp_end last \<le> gap_max \<and> sat_sub end (sp_start last) \<le> span_max
           then butlast spans @ [last\<lparr>sp_end := max end (sp_end last), sp_files := sp_files last @ [i]\<rparr>]
           else if start < sp_end last \<and> end \<le> sp_end last
           then butlast spans @ [last\<lparr>sp_files := sp_files last @ [i]\<rparr>]
           else spans @ [nuevo])"

definition plan_spans :: "file_entry list \<Rightarrow> u64 \<Rightarrow> u64 \<Rightarrow> span list" where
  "plan_spans pending gap_max span_max =
     fold (plan_paso pending gap_max span_max)
       (sort_key (\<lambda>i. (f_offset (pending ! i), f_size (pending ! i))) [0 ..< length pending]) []"

definition plan_bytes :: "span list \<Rightarrow> u64" where
  "plan_bytes spans = sum_list (map span_len spans)"

section \<open>Reading a pack back\<close>

definition antes_de :: "pack_entry list \<Rightarrow> nat \<Rightarrow> nat" where
  "antes_de es i = length (concat (map pe_data (take i es)))"

definition entrada_en :: "(bytes \<Rightarrow> hash256) \<Rightarrow> nat \<Rightarrow> pack_entry \<Rightarrow> file_entry" where
  "entrada_en sha n e =
     \<lparr>f_path = pe_path e, f_offset = of_nat n, f_size = of_nat (length (pe_data e)),
      f_hash_hex = hex_sha256 sha (pe_data e)\<rparr>"

lemma unat_of_nat_menor: "n < 2 ^ LENGTH('a) \<Longrightarrow> unat (of_nat n :: 'a::len word) = n"
  by (simp add: unat_of_nat)

lemma build_loop_eq:
  "build_loop sha es blob files =
     (blob @ concat (map pe_data es), files @ map (\<lambda>i. entrada_en sha (length blob + antes_de es i) (es ! i)) [0 ..< length es])"
proof (induction es arbitrary: blob files)
  case (Cons e es)
  have "map (\<lambda>i. entrada_en sha (length blob + antes_de (e # es) i) ((e # es) ! i)) [0 ..< length (e # es)] =
      entrada_en sha (length blob) e # map (\<lambda>i. entrada_en sha (length (blob @ pe_data e) + antes_de es i) (es ! i)) [0 ..< length es]"
    by (rule nth_equalityI) (auto simp: nth_Cons' antes_de_def take_Cons' add.assoc simp del: upt_Suc)
  then show ?case using Cons.IH by (simp add: entrada_en_def)
qed simp

lemma pack_build_eq:
  "pack_build sha es =
     (concat (map pe_data es), map (\<lambda>i. entrada_en sha (antes_de es i) (es ! i)) [0 ..< length es])"
  by (simp add: pack_build_def build_loop_eq)

lemma antes_de_Suc: "i < length es \<Longrightarrow> antes_de es (Suc i) = antes_de es i + length (pe_data (es ! i))"
  by (simp add: antes_de_def take_Suc_conv_app_nth)

lemma antes_de_mono: "i \<le> k \<Longrightarrow> antes_de es i \<le> antes_de es k"
proof -
  assume "i \<le> k"
  then have "take k es = take i es @ take (k - i) (drop i es)" by (metis le_add_diff_inverse take_add)
  then show ?thesis by (simp add: antes_de_def)
qed

lemma antes_de_total: "antes_de es i \<le> length (concat (map pe_data es))"
  using antes_de_mono [of i "max i (length es)" es] by (simp add: antes_de_def)

lemma entrada_rango:
  assumes "i < length es" "length (concat (map pe_data es)) < 2 ^ 64"
  shows "unat (f_offset (entrada_en sha (antes_de es i) (es ! i))) = antes_de es i"
    and "unat (f_size (entrada_en sha (antes_de es i) (es ! i))) = length (pe_data (es ! i))"
    and "antes_de es i + length (pe_data (es ! i)) \<le> length (concat (map pe_data es))"
proof -
  show le: "antes_de es i + length (pe_data (es ! i)) \<le> length (concat (map pe_data es))"
    using antes_de_total [of es "Suc i"] antes_de_Suc [OF assms(1)] by simp
  show "unat (f_offset (entrada_en sha (antes_de es i) (es ! i))) = antes_de es i"
    "unat (f_size (entrada_en sha (antes_de es i) (es ! i))) = length (pe_data (es ! i))"
    using le assms(2) by (simp_all add: entrada_en_def unat_of_nat_menor)
qed

lemma read_entry_build:
  assumes "i < length es" "length (concat (map pe_data es)) < 2 ^ 64"
  shows "read_entry (concat (map pe_data es)) (entrada_en sha (antes_de es i) (es ! i)) = Some (pe_data (es ! i))"
proof -
  have "es = take i es @ es ! i # drop (Suc i) es" using assms(1) by (rule id_take_nth_drop)
  then have "concat (map pe_data es) = concat (map pe_data (take i es)) @ pe_data (es ! i) @ concat (map pe_data (drop (Suc i) es))"
    by (metis concat.simps(2) concat_append list.simps(9) map_append)
  then have "take (length (pe_data (es ! i))) (drop (antes_de es i) (concat (map pe_data es))) = pe_data (es ! i)"
    by (simp add: antes_de_def)
  then show ?thesis using entrada_rango [OF assms] assms(2) by (simp add: read_entry_def Let_def)
qed

text \<open>C33 (\<open>PackWriter::build\<close>, \<open>PackReader\<close>): in a pack below 64-bit sizes, every entry that was pushed
  reads back from the blob through its manifest entry, under its own path, and verifies.\<close>

theorem pack_ida_y_vuelta:
  assumes "pack_build sha es = (blob, files)" "length blob < 2 ^ 64" "i < length es"
  shows "length files = length es \<and> f_path (files ! i) = pe_path (es ! i) \<and>
    read_entry blob (files ! i) = Some (pe_data (es ! i)) \<and> verify_entry sha blob (files ! i)"
proof -
  have b: "blob = concat (map pe_data es)" "files = map (\<lambda>i. entrada_en sha (antes_de es i) (es ! i)) [0 ..< length es]"
    using assms(1) by (simp_all add: pack_build_eq)
  then have "read_entry blob (files ! i) = Some (pe_data (es ! i))" using read_entry_build [of i es sha] assms(2,3) by simp
  then show ?thesis using b assms(3) by (simp add: verify_entry_def) (simp add: entrada_en_def)
qed

theorem pack_ida_y_vuelta_witness:
  "read_entry ''abc'' (snd (pack_build (\<lambda>_. replicate 32 0) [\<lparr>pe_path = ''bin/a'', pe_data = ''ab''\<rparr>, \<lparr>pe_path = ''b'', pe_data = ''c''\<rparr>]) ! 1) =
     Some ''c''"
proof -
  have "pack_build (\<lambda>_. replicate 32 0) [\<lparr>pe_path = ''bin/a'', pe_data = ''ab''\<rparr>, \<lparr>pe_path = ''b'', pe_data = ''c''\<rparr>] =
      (''abc'', snd (pack_build (\<lambda>_. replicate 32 0) [\<lparr>pe_path = ''bin/a'', pe_data = ''ab''\<rparr>, \<lparr>pe_path = ''b'', pe_data = ''c''\<rparr>]))"
    by (simp add: pack_build_def)
  from pack_ida_y_vuelta [OF this, of 1] show ?thesis by simp
qed

section \<open>A built pack is valid\<close>

lemma recoger_loop_eq:
  "recoger_loop incluir fs w =
     w @ map (\<lambda>(p, d). \<lparr>pe_path = p, pe_data = d\<rparr>) (filter (\<lambda>(p, d). should_pack p \<and> incluir p \<and> d \<noteq> []) fs)"
  by (induction incluir fs w rule: recoger_loop.induct) (simp_all add: pack_push_def)

lemma tramos_build:
  assumes "length (concat (map pe_data es)) < 2 ^ 64" "i < length es" "k < length es" "i < k"
  shows "tramo (entrada_en sha (antes_de es i) (es ! i)) \<inter> tramo (entrada_en sha (antes_de es k) (es ! k)) = {}"
proof -
  have "antes_de es i + length (pe_data (es ! i)) \<le> antes_de es k"
    using antes_de_Suc [OF assms(2)] antes_de_mono [of "Suc i" k es] assms(4) by simp
  then show ?thesis
    using entrada_rango(1,2) [OF assms(2,1), of sha] entrada_rango(1,2) [OF assms(3,1), of sha] by (auto simp: tramo_def)
qed

lemma hex_sha_valido: "length (sha d) = 32 \<Longrightarrow> hash_valido (hex_sha256 sha d)"
  using hex_encode_lower [of "sha d"] by (auto simp: hash_valido_def hex_sha256_def list_all_iff is_hex_lower_hexdigit)

lemma build_valida:
  assumes sha: "\<And>d. length (sha d) = 32" and n: "length (concat (map pe_data es)) < 2 ^ 64 - 1"
    and es: "distinct (map pe_path es)" "\<forall>e \<in> set es. \<not> bad_path (pe_path e) \<and> pe_data e \<noteq> [] \<and> length (pe_data e) \<le> unat MAX_FILE_SIZE"
    and m: "pack_build sha es = (blob, mn_files m)" "mn_pack_size m = of_nat (length blob)"
      "mn_pack_hash m = hex_sha256 sha blob" "hash_valido (mn_kernel_hash m)"
  shows "manifest_validate m = Inr ()"
proof -
  define ent where "ent = (\<lambda>i. entrada_en sha (antes_de es i) (es ! i))"
  have b: "blob = concat (map pe_data es)" "mn_files m = map ent [0 ..< length es]"
    using m(1) by (simp_all add: pack_build_eq ent_def)
  have n': "length (concat (map pe_data es)) < 2 ^ 64" using n by simp
  have sz: "unat (mn_pack_size m) = length blob" using n' m(2) b by (simp add: unat_of_nat_menor)
  have ps: "mn_pack_size m \<noteq> - 1" using sz n b unat_max_word [where 'a = 64] by auto
  have "archivo_valido (mn_pack_size m) (ent i)" if i: "i < length es" for i
  proof -
    have e: "\<not> bad_path (pe_path (es ! i))" "pe_data (es ! i) \<noteq> []" "length (pe_data (es ! i)) \<le> unat MAX_FILE_SIZE"
      using es(2) i by auto
    show ?thesis
      using entrada_rango(1,2) [OF i n', of sha] entrada_rango(3) [OF i n'] e sz b hex_sha_valido [of sha "pe_data (es ! i)", OF sha]
      by (simp add: archivo_valido_def ent_def word_le_nat_alt word_less_nat_alt) (simp add: entrada_en_def)
  qed
  then have "list_all (archivo_valido (mn_pack_size m)) (mn_files m)" by (simp add: b list_all_iff)
  moreover have "map f_path (mn_files m) = map pe_path es"
    by (rule nth_equalityI) (simp_all add: b ent_def entrada_en_def)
  moreover have "tramo (ent i) \<inter> tramo (ent k) = {}" if "i < length es" "k < length es" "ent i \<noteq> ent k" for i k
    using tramos_build [OF n', of i k sha] tramos_build [OF n', of k i sha] that
    by (cases i k rule: linorder_cases) (auto simp: ent_def)
  then have "\<forall>f \<in> set (mn_files m). \<forall>g \<in> set (mn_files m). f \<noteq> g \<longrightarrow> tramo f \<inter> tramo g = {}" by (auto simp: b)
  ultimately show ?thesis
    using validate_caracteriza [OF ps] es(1) m(3,4) hex_sha_valido [OF sha] by simp
qed

text \<open>(\<open>pack_rootfs_con\<close> and \<open>validate\<close>): the pack of a tree whose files have distinct safe paths and
  acceptable sizes passes the client's validation, carries only paths that the exclusion lists let
  travel, and carries every such non-empty file that the filter admits.\<close>

theorem pack_rootfs_valida:
  assumes "\<And>d. length (sha d) = 32" "pack_rootfs_con sha incluir fs = (blob, mn_files m)"
    and "distinct (map fst fs)" "\<forall>(p, d) \<in> set fs. \<not> bad_path p \<and> length d \<le> unat MAX_FILE_SIZE"
    and "length blob < 2 ^ 64 - 1" "mn_pack_size m = of_nat (length blob)" "mn_pack_hash m = hex_sha256 sha blob"
    and "hash_valido (mn_kernel_hash m)"
  shows "manifest_validate m = Inr () \<and>
    f_path ` set (mn_files m) = {p. \<exists>d. (p, d) \<in> set fs \<and> por_que_se_excluye p = None \<and> incluir p \<and> d \<noteq> []}"
proof -
  define q where "q = filter (\<lambda>(p, d). should_pack p \<and> incluir p \<and> d \<noteq> []) fs"
  define ps where "ps = map (\<lambda>(p, d). \<lparr>pe_path = p, pe_data = d\<rparr>) q"
  define es where "es = sort_key pe_path ps"
  have pb: "pack_build sha es = (blob, mn_files m)"
    using assms(2) by (simp add: pack_rootfs_con_def sort_entries_def recoger_loop_eq es_def ps_def q_def)
  have blob: "blob = concat (map pe_data es)"
    and fl: "mn_files m = map (\<lambda>i. entrada_en sha (antes_de es i) (es ! i)) [0 ..< length es]"
    using pb by (simp_all add: pack_build_eq)
  have fl: "map f_path (mn_files m) = map pe_path es"
    by (rule nth_equalityI) (simp_all add: fl entrada_en_def)
  have pp: "map pe_path ps = map fst q" by (simp add: ps_def comp_def case_prod_beta)
  have "distinct (map fst q)" using assms(3) by (simp add: q_def distinct_map_filter)
  then have "distinct (map pe_path ps)" by (simp only: pp)
  then have dist: "distinct (map pe_path es)" by (simp add: es_def distinct_map)
  have each: "\<forall>e \<in> set es. \<not> bad_path (pe_path e) \<and> pe_data e \<noteq> [] \<and> length (pe_data e) \<le> unat MAX_FILE_SIZE"
    using assms(4) by (auto simp: es_def ps_def q_def)
  have "manifest_validate m = Inr ()"
    using build_valida [OF assms(1) _ dist each pb assms(6,7,8)] assms(5) blob by simp
  moreover have "f_path ` set (mn_files m) = pe_path ` set es" using arg_cong [OF fl, of set] by simp
  moreover have "pe_path ` set es = fst ` set q" using arg_cong [OF pp, of set] by (simp add: es_def)
  moreover have "fst ` set q = {p. \<exists>d. (p, d) \<in> set fs \<and> por_que_se_excluye p = None \<and> incluir p \<and> d \<noteq> []}"
    by (auto simp: q_def should_pack_def image_iff)
  ultimately show ?thesis by simp
qed

theorem pack_rootfs_valida_witness:
  "manifest_validate (manifest_ej\<lparr>mn_pack_size := 1, mn_pack_hash := hex_sha256 (\<lambda>_. replicate 32 0) ''c'',
     mn_files := snd (pack_rootfs_con (\<lambda>_. replicate 32 0) (\<lambda>_. True) [(''bin/a'', ''c''), (''var/log/x'', ''z'')])\<rparr>) = Inr ()"
proof -
  have "should_pack ''bin/a''" "\<not> should_pack ''var/log/x''"
    by (simp_all add: should_pack_def por_que_se_excluye_def sin_barras_def PACK_SKIP_def PACK_SKIP_DIRS_def
        PACK_SKIP_SUFIJOS_def ends_with_def)
  then have p: "pack_rootfs_con (\<lambda>_. replicate 32 0) (\<lambda>_. True) [(''bin/a'', ''c''), (''var/log/x'', ''z'')] =
      (''c'', snd (pack_rootfs_con (\<lambda>_. replicate 32 0) (\<lambda>_. True) [(''bin/a'', ''c''), (''var/log/x'', ''z'')]))"
    by (simp add: pack_rootfs_con_def pack_build_def sort_entries_def pack_push_def)
  show ?thesis
    using pack_rootfs_valida [of "\<lambda>_. replicate 32 0" "\<lambda>_. True" "[(''bin/a'', ''c''), (''var/log/x'', ''z'')]" "''c''"
        "manifest_ej\<lparr>mn_pack_size := 1, mn_pack_hash := hex_sha256 (\<lambda>_. replicate 32 0) ''c'',
         mn_files := snd (pack_rootfs_con (\<lambda>_. replicate 32 0) (\<lambda>_. True) [(''bin/a'', ''c''), (''var/log/x'', ''z'')])\<rparr>"] p
    by (simp add: bad_path_def MAX_FILE_SIZE_def manifest_ej_def hash_repetido ej_hexdigit)
qed

section \<open>The plan covers what is pending\<close>

definition fin_de :: "file_entry \<Rightarrow> u64" where
  "fin_de f = f_offset f + f_size f"

text \<open>The state of the loop after the files \<open>ds\<close>: the spans list them in order, each span starts at its
  first file, ends with one of them and contains them all, and is longer than the limit only when
  it is as long as its first file.\<close>

definition span_ok :: "file_entry list \<Rightarrow> u64 \<Rightarrow> span \<Rightarrow> bool" where
  "span_ok p m s \<longleftrightarrow> sp_files s \<noteq> [] \<and> sp_start s = f_offset (p ! hd (sp_files s)) \<and>
     (\<forall>i \<in> set (sp_files s). sp_start s \<le> f_offset (p ! i) \<and> fin_de (p ! i) \<le> sp_end s) \<and>
     (\<exists>i \<in> set (sp_files s). sp_end s = fin_de (p ! i)) \<and>
     (span_len s \<le> m \<or> span_len s = f_size (p ! hd (sp_files s)))"

definition plan_inv :: "file_entry list \<Rightarrow> u64 \<Rightarrow> nat list \<Rightarrow> span list \<Rightarrow> bool" where
  "plan_inv p m ds spans \<longleftrightarrow> concat (map sp_files spans) = ds \<and> list_all (span_ok p m) spans"

lemma plan_inv_snoc: "plan_inv p m ds (ss @ [s]) \<longleftrightarrow> (\<exists>es. ds = es @ sp_files s \<and> plan_inv p m es ss) \<and> span_ok p m s"
  by (auto simp: plan_inv_def)

lemma span_ok_start: "span_ok p m s \<Longrightarrow> \<forall>f \<in> set (map ((!) p) (sp_files s)). f_offset f \<le> fin_de f \<Longrightarrow> sp_start s \<le> sp_end s"
  by (fastforce simp: span_ok_def)

lemma plan_paso_casos:
  obtains (vacio) "ss = []" "plan_paso p g m i ss = [\<lparr>sp_start = f_offset (p ! i), sp_end = fin_de (p ! i), sp_files = [i]\<rparr>]"
  | (extiende) rs s where "ss = rs @ [s]" "sp_end s \<le> f_offset (p ! i)" "sat_sub (fin_de (p ! i)) (sp_start s) \<le> m"
      "plan_paso p g m i ss = rs @ [s\<lparr>sp_end := max (fin_de (p ! i)) (sp_end s), sp_files := sp_files s @ [i]\<rparr>]"
  | (contenido) rs s where "ss = rs @ [s]" "f_offset (p ! i) < sp_end s" "fin_de (p ! i) \<le> sp_end s"
      "plan_paso p g m i ss = rs @ [s\<lparr>sp_files := sp_files s @ [i]\<rparr>]"
  | (nuevo) rs s where "ss = rs @ [s]"
      "plan_paso p g m i ss = ss @ [\<lparr>sp_start = f_offset (p ! i), sp_end = fin_de (p ! i), sp_files = [i]\<rparr>]"
proof (cases ss rule: rev_cases)
  case Nil
  then show thesis using vacio by (simp add: plan_paso_def Let_def fin_de_def)
next
  case (snoc rs s)
  let ?ext = "f_offset (p ! i) \<ge> sp_end s \<and> f_offset (p ! i) - sp_end s \<le> g \<and> sat_sub (fin_de (p ! i)) (sp_start s) \<le> m"
  let ?con = "f_offset (p ! i) < sp_end s \<and> fin_de (p ! i) \<le> sp_end s"
  have pp: "plan_paso p g m i ss =
      (if ?ext then rs @ [s\<lparr>sp_end := max (fin_de (p ! i)) (sp_end s), sp_files := sp_files s @ [i]\<rparr>]
       else if ?con then rs @ [s\<lparr>sp_files := sp_files s @ [i]\<rparr>]
       else ss @ [\<lparr>sp_start = f_offset (p ! i), sp_end = fin_de (p ! i), sp_files = [i]\<rparr>])"
    by (simp add: plan_paso_def Let_def fin_de_def snoc)
  consider ?ext | "\<not> ?ext" ?con | "\<not> ?ext" "\<not> ?con" by blast
  then show thesis
  proof cases
    case 1
    then show thesis using extiende [OF snoc] pp by simp
  next
    case 2
    then show thesis using contenido [OF snoc] pp by (simp only: if_False if_True simp_thms)
  next
    case 3
    then show thesis using nuevo [OF snoc] pp by (simp only: if_False)
  qed
qed

lemma span_ok_nuevo: "f_offset (p ! i) \<le> fin_de (p ! i) \<Longrightarrow>
    span_ok p m \<lparr>sp_start = f_offset (p ! i), sp_end = fin_de (p ! i), sp_files = [i]\<rparr>"
  by (simp add: span_ok_def span_len_def fin_de_def)

lemma span_ok_extiende:
  assumes "span_ok p m s" "sp_start s \<le> sp_end s" "sp_end s \<le> f_offset (p ! i)" "f_offset (p ! i) \<le> fin_de (p ! i)"
    and "sat_sub (fin_de (p ! i)) (sp_start s) \<le> m"
  shows "span_ok p m (s\<lparr>sp_end := max (fin_de (p ! i)) (sp_end s), sp_files := sp_files s @ [i]\<rparr>)"
proof -
  have "max (fin_de (p ! i)) (sp_end s) = fin_de (p ! i)" using order_trans [OF assms(3,4)] by (simp add: max_absorb1)
  moreover have "sat_sub (fin_de (p ! i)) (sp_start s) = fin_de (p ! i) - sp_start s"
    using order_trans [OF assms(2) order_trans [OF assms(3,4)]] by (simp add: sat_sub_def not_less [symmetric])
  moreover have "fin_de (p ! k) \<le> fin_de (p ! i)" if "k \<in> set (sp_files s)" for k
    using assms(1,3,4) that unfolding span_ok_def by (meson order_trans)
  moreover have "sp_start s \<le> f_offset (p ! i)" using assms(2,3) by simp
  ultimately show ?thesis using assms(1,5) unfolding span_ok_def span_len_def by auto
qed

lemma span_ok_contenido:
  "span_ok p m s \<Longrightarrow> sp_start s \<le> f_offset (p ! i) \<Longrightarrow> fin_de (p ! i) \<le> sp_end s \<Longrightarrow>
     span_ok p m (s\<lparr>sp_files := sp_files s @ [i]\<rparr>)"
  unfolding span_ok_def span_len_def by auto

lemma plan_paso_inv:
  assumes inv: "plan_inv p m ds ss" and ov: "\<forall>k \<in> set (ds @ [i]). f_offset (p ! k) \<le> fin_de (p ! k)"
    and ord: "\<forall>k \<in> set ds. f_offset (p ! k) \<le> f_offset (p ! i)"
  shows "plan_inv p m (ds @ [i]) (plan_paso p g m i ss)"
proof (cases rule: plan_paso_casos [of ss p g m i])
  case vacio
  then show ?thesis using inv span_ok_nuevo [of p i m] ov by (simp add: plan_inv_def)
next
  case (extiende rs s)
  have s: "span_ok p m s" "set (sp_files s) \<subseteq> set ds" using inv extiende(1) by (auto simp: plan_inv_snoc)
  then have "sp_start s \<le> sp_end s" using ov by (intro span_ok_start [of p m]) auto
  then have "span_ok p m (s\<lparr>sp_end := max (fin_de (p ! i)) (sp_end s), sp_files := sp_files s @ [i]\<rparr>)"
    using s(1) extiende(2,3) ov by (intro span_ok_extiende) auto
  then show ?thesis using inv unfolding extiende(4) unfolding extiende(1) plan_inv_snoc by auto
next
  case (contenido rs s)
  have s: "span_ok p m s" "set (sp_files s) \<subseteq> set ds" using inv contenido(1) by (auto simp: plan_inv_snoc)
  then have "sp_start s \<le> f_offset (p ! i)" using ord unfolding span_ok_def by (metis hd_in_set subsetD)
  then show ?thesis
    using inv span_ok_contenido [OF s(1)] contenido(3) unfolding contenido(4) unfolding contenido(1) plan_inv_snoc by auto
next
  case (nuevo rs s)
  then show ?thesis using inv span_ok_nuevo [of p i m] ov by (auto simp: plan_inv_def)
qed

lemma plan_fold_inv:
  assumes "plan_inv p m ds ss" "\<forall>k \<in> set (ds @ is). f_offset (p ! k) \<le> fin_de (p ! k)"
    and "sorted (map (\<lambda>k. f_offset (p ! k)) (ds @ is))"
  shows "plan_inv p m (ds @ is) (fold (plan_paso p g m) is ss)"
  using assms
proof (induction "is" arbitrary: ds ss)
  case (Cons i "is")
  have "plan_inv p m (ds @ [i]) (plan_paso p g m i ss)"
    using Cons.prems by (intro plan_paso_inv) (auto simp: sorted_append)
  from Cons.IH [OF this] Cons.prems(2,3) show ?case by simp
qed simp

lemma plan_orden:
  fixes p :: "file_entry list"
  defines "q \<equiv> sort_key (\<lambda>i. (f_offset (p ! i), f_size (p ! i))) [0 ..< length p]"
  shows "sorted (map (\<lambda>i. f_offset (p ! i)) q)" "distinct q" "set q = {0 ..< length p}"
proof -
  have "sorted (map (\<lambda>i. (f_offset (p ! i), f_size (p ! i))) q)" by (simp add: q_def)
  then show "sorted (map (\<lambda>i. f_offset (p ! i)) q)"
    unfolding sorted_map by (rule sorted_wrt_mono_rel [rotated]) (auto simp: less_eq_prod_def)
qed (simp_all add: q_def)

lemma plan_spans_inv:
  assumes "\<forall>f \<in> set p. f_offset f \<le> fin_de f"
  shows "\<exists>q. plan_inv p m q (plan_spans p g m) \<and> distinct q \<and> set q = {0 ..< length p} \<and> sorted (map (\<lambda>i. f_offset (p ! i)) q)"
proof -
  have "plan_inv p m [] []" by (simp add: plan_inv_def)
  from plan_fold_inv [OF this, of _ g] plan_orden [of p] assms show ?thesis
    unfolding plan_spans_def by (metis (no_types, lifting) append_Nil atLeastLessThan_iff nth_mem)
qed

text \<open>C32 (\<open>plan_spans\<close>): when no entry overflows, the plan names every pending file exactly once, the span
  that names a file contains its range, and a span exceeds the limit only when it is exactly as
  long as its first file.\<close>

theorem plan_spans_cubre:
  assumes "\<forall>f \<in> set p. unat (f_offset f) + unat (f_size f) < 2 ^ 64"
  shows "distinct (concat (map sp_files (plan_spans p g m))) \<and>
    set (concat (map sp_files (plan_spans p g m))) = {0 ..< length p} \<and>
    (\<forall>s \<in> set (plan_spans p g m).
      (\<forall>i \<in> set (sp_files s). sp_start s \<le> f_offset (p ! i) \<and> f_offset (p ! i) + f_size (p ! i) \<le> sp_end s) \<and>
      (oversized s m \<longrightarrow> span_len s = f_size (p ! hd (sp_files s))))"
proof -
  have "\<forall>f \<in> set p. f_offset f \<le> fin_de f" using assms by (auto simp: fin_de_def word_le_nat_alt unat_word_ariths)
  from plan_spans_inv [OF this, of m g] show ?thesis
    by (auto simp: plan_inv_def list_all_iff span_ok_def fin_de_def oversized_def)
qed

theorem plan_spans_cubre_witness:
  "set (concat (map sp_files (plan_spans (mn_files manifest_ej) GAP_MAX SPAN_MAX))) = {0 ..< Suc 1}"
  using plan_spans_cubre [of "mn_files manifest_ej" GAP_MAX SPAN_MAX] by (simp add: manifest_ej_def)

lemma plan_paso_separa:
  assumes "plan_inv p m ds ss" "sorted_wrt (\<lambda>s t. sp_end s \<le> sp_start t) ss"
    and "\<forall>k \<in> set (ds @ [i]). f_offset (p ! k) \<le> fin_de (p ! k)" "\<forall>k \<in> set ds. fin_de (p ! k) \<le> f_offset (p ! i)"
  shows "sorted_wrt (\<lambda>s t. sp_end s \<le> sp_start t) (plan_paso p g m i ss)"
proof (cases rule: plan_paso_casos [of ss p g m i])
  case (extiende rs s)
  then show ?thesis using assms(2) by (simp add: sorted_wrt_append)
next
  case (contenido rs s)
  then show ?thesis using assms(2) by (simp add: sorted_wrt_append)
next
  case (nuevo rs s)
  have "sp_end t \<le> f_offset (p ! i)" if "t \<in> set ss" for t
  proof -
    have "span_ok p m t" "set (sp_files t) \<subseteq> set ds" using assms(1) that by (auto simp: plan_inv_def list_all_iff)
    then show ?thesis using assms(4) unfolding span_ok_def by (metis subsetD)
  qed
  then show ?thesis unfolding nuevo(2) using assms(2) by (simp add: sorted_wrt_append)
qed simp

lemma plan_fold_separa:
  assumes "plan_inv p m ds ss" "sorted_wrt (\<lambda>s t. sp_end s \<le> sp_start t) ss"
    and "\<forall>k \<in> set (ds @ is). f_offset (p ! k) \<le> fin_de (p ! k)"
    and "sorted (map (\<lambda>k. f_offset (p ! k)) (ds @ is))" "sorted_wrt (\<lambda>i k. fin_de (p ! i) \<le> f_offset (p ! k)) (ds @ is)"
  shows "sorted_wrt (\<lambda>s t. sp_end s \<le> sp_start t) (fold (plan_paso p g m) is ss)"
  using assms
proof (induction "is" arbitrary: ds ss)
  case (Cons i "is")
  have a: "plan_inv p m (ds @ [i]) (plan_paso p g m i ss)"
    using Cons.prems by (intro plan_paso_inv) (auto simp: sorted_append)
  have b: "sorted_wrt (\<lambda>s t. sp_end s \<le> sp_start t) (plan_paso p g m i ss)"
    using Cons.prems by (intro plan_paso_separa [of p m ds]) (auto simp: sorted_wrt_append)
  from Cons.IH [OF a b] Cons.prems(3-) show ?case by simp
qed simp

lemma tramos_ordenados:
  assumes "tramo f \<inter> tramo g = {}" "f_offset f \<le> f_offset g" "0 < f_size g" "f_offset f \<le> fin_de f"
  shows "fin_de f \<le> f_offset g"
proof -
  have fin: "unat (fin_de f) \<le> unat (f_offset f) + unat (f_size f)" by (simp add: fin_de_def unat_word_ariths)
  have "unat (f_offset g) \<in> tramo g" using assms(3) by (simp add: tramo_def word_less_nat_alt)
  then have "unat (f_offset g) \<notin> tramo f" using assms(1) by blast
  then have "unat (f_offset f) + unat (f_size f) \<le> unat (f_offset g)"
    using assms(2) by (simp add: tramo_def word_le_nat_alt)
  then show ?thesis using fin by (simp add: word_le_nat_alt)
qed

lemma indices_ordenados:
  assumes ov: "\<forall>f \<in> set p. f_offset f \<le> fin_de f" and pos: "\<forall>f \<in> set p. 0 < f_size f"
    and dis: "\<forall>i < length p. \<forall>k < length p. i \<noteq> k \<longrightarrow> tramo (p ! i) \<inter> tramo (p ! k) = {}"
    and q: "sorted (map (\<lambda>i. f_offset (p ! i)) q)" "distinct q" "set q = {0 ..< length p}"
  shows "sorted_wrt (\<lambda>i k. fin_de (p ! i) \<le> f_offset (p ! k)) q"
proof -
  have "fin_de (p ! (q ! a)) \<le> f_offset (p ! (q ! b))" if "a < b" "b < length q" for a b
  proof (rule tramos_ordenados)
    have n: "q ! a < length p" "q ! b < length p" "q ! a \<noteq> q ! b"
      using q(2,3) that nth_mem [of a q] nth_mem [of b q] nth_eq_iff_index_eq [of q a b] by auto
    then show "tramo (p ! (q ! a)) \<inter> tramo (p ! (q ! b)) = {}" "0 < f_size (p ! (q ! b))"
      "f_offset (p ! (q ! a)) \<le> fin_de (p ! (q ! a))" using dis pos ov by auto
    show "f_offset (p ! (q ! a)) \<le> f_offset (p ! (q ! b))"
      using sorted_nth_mono [OF q(1), of a b] that by simp
  qed
  then show ?thesis by (simp add: sorted_wrt_iff_nth_less)
qed

lemma plan_separa:
  assumes ov: "\<forall>f \<in> set p. f_offset f \<le> fin_de f" and pos: "\<forall>f \<in> set p. 0 < f_size f"
    and dis: "\<forall>i < length p. \<forall>k < length p. i \<noteq> k \<longrightarrow> tramo (p ! i) \<inter> tramo (p ! k) = {}"
  shows "sorted_wrt (\<lambda>s t. sp_end s \<le> sp_start t) (plan_spans p g m)"
proof -
  define q where "q = sort_key (\<lambda>i. (f_offset (p ! i), f_size (p ! i))) [0 ..< length p]"
  note q = plan_orden [of p, folded q_def]
  have "sorted_wrt (\<lambda>i k. fin_de (p ! i) \<le> f_offset (p ! k)) ([] @ q)"
    using indices_ordenados [OF ov pos dis q] by simp
  moreover have "\<forall>k \<in> set ([] @ q). f_offset (p ! k) \<le> fin_de (p ! k)" using ov q(3) by simp
  moreover have "plan_inv p m [] []" by (simp add: plan_inv_def)
  ultimately show ?thesis
    using plan_fold_separa [of p m "[]" "[]" q g] q(1) unfolding plan_spans_def q_def [symmetric] by simp
qed

text \<open>What a validated manifest says of the pending files taken from it.\<close>

lemma pendientes_validos:
  assumes "manifest_validate m = Inr ()" "mn_pack_size m \<noteq> - 1" "set p \<subseteq> set (mn_files m)" "distinct p"
  shows "\<forall>f \<in> set p. f_offset f \<le> fin_de f" "\<forall>f \<in> set p. 0 < f_size f"
    "\<forall>i < length p. \<forall>k < length p. i \<noteq> k \<longrightarrow> tramo (p ! i) \<inter> tramo (p ! k) = {}"
    "\<forall>f \<in> set p. unat (f_offset f) + unat (f_size f) \<le> unat (mn_pack_size m)" "distinct (map f_path p)"
proof -
  note v = validate_caracteriza [OF assms(2), THEN iffD1, OF assms(1)]
  have av: "archivo_valido (mn_pack_size m) f" if "f \<in> set p" for f using v assms(3) that by (auto simp: list_all_iff)
  then show "\<forall>f \<in> set p. 0 < f_size f" and r: "\<forall>f \<in> set p. unat (f_offset f) + unat (f_size f) \<le> unat (mn_pack_size m)"
    by (auto simp: archivo_valido_def)
  show "\<forall>f \<in> set p. f_offset f \<le> fin_de f"
  proof
    fix f assume "f \<in> set p"
    then show "f_offset f \<le> fin_de f" using r unat_fin [of f "mn_pack_size m"] by (simp add: fin_de_def word_le_nat_alt)
  qed
  show "\<forall>i < length p. \<forall>k < length p. i \<noteq> k \<longrightarrow> tramo (p ! i) \<inter> tramo (p ! k) = {}"
  proof (intro allI impI)
    fix i k assume ik: "i < length p" "k < length p" "i \<noteq> k"
    then have "p ! i \<noteq> p ! k" "p ! i \<in> set (mn_files m)" "p ! k \<in> set (mn_files m)"
      using assms(3,4) by (auto simp: nth_eq_iff_index_eq)
    then show "tramo (p ! i) \<inter> tramo (p ! k) = {}" using v by blast
  qed
  have "inj_on f_path (set p)" using v assms(3) by (auto simp: distinct_map intro: inj_on_subset)
  then show "distinct (map f_path p)" using assms(4) by (simp add: distinct_map)
qed

text \<open>(\<open>plan_spans\<close> over a validated manifest): when the pending files come from a manifest that
  \<open>validate\<close> accepts, the spans follow one another in the pack without sharing a byte, so the download
  asks for no byte twice.\<close>

theorem plan_spans_sin_repetir:
  assumes "manifest_validate m = Inr ()" "mn_pack_size m \<noteq> - 1" "set p \<subseteq> set (mn_files m)" "distinct p"
  shows "sorted_wrt (\<lambda>s t. sp_end s \<le> sp_start t) (plan_spans p g n)"
  using pendientes_validos [OF assms] by (intro plan_separa)

theorem plan_spans_sin_repetir_witness:
  "sorted_wrt (\<lambda>s t. sp_end s \<le> sp_start t) (plan_spans (mn_files manifest_ej) 0 0)"
  by (rule plan_spans_sin_repetir [OF ej_validate]) (simp_all add: manifest_ej_def)

end
