(* ===== verification/Descarga.thy ===== *)
theory Descarga
  imports Paquete Txn
begin

text \<open>
  \<open>crates/soso-update-core/src/descarga.rs\<close>: the durable record of the preparation area, what is
  pending, the space an operation needs, the chunks of a download and the judgement of a range
  response.  The lemmas give the round trip of the record, the exact partition of a range into
  chunks, that an admitted operation fits in the free space, and the bounds of an accepted response.
\<close>

definition TROZO_MAX :: u64 where "TROZO_MAX = 1024 * 1024"
definition ETAPA_MAGIC :: string where "ETAPA_MAGIC = ''SOSOETAPA''"
definition ETAPA_FORMATO :: u16 where "ETAPA_FORMATO = 1"

record etapa =
  et_id :: txn_id
  et_version :: string
  et_pack_size :: u64
  et_seq :: u64

datatype etapa_error = EtRegistro record_error | EtIdInvalido | EtCampoInvalido

definition etapa_nueva :: "txn_id \<Rightarrow> string \<Rightarrow> u64 \<Rightarrow> etapa" where
  "etapa_nueva i version n = \<lparr>et_id = i, et_version = version, et_pack_size = n, et_seq = 1\<rparr>"

definition etapa_format :: "(bytes \<Rightarrow> u32) \<Rightarrow> etapa \<Rightarrow> bytes" where
  "etapa_format crc e =
     frame crc ETAPA_MAGIC ETAPA_FORMATO (et_seq e)
       (''id='' @ to_hex (et_id e) @ [NL] @ ''version='' @ et_version e @ [NL] @
        ''pack_size='' @ show_word (et_pack_size e) @ [NL])"

definition etapa_de_framed :: "framed \<Rightarrow> etapa_error + etapa" where
  "etapa_de_framed f =
     res_bind (map_err EtRegistro (requerido f ''id'')) (\<lambda>hex.
     res_bind (ok_or (from_hex hex) EtIdInvalido) (\<lambda>i.
     res_bind (map_err EtRegistro (requerido f ''version'')) (\<lambda>v.
     res_bind (map_err EtRegistro (requerido f ''pack_size'')) (\<lambda>s.
     res_bind (ok_or (parse_word s) EtCampoInvalido) (\<lambda>n.
     Inr \<lparr>et_id = i, et_version = v, et_pack_size = n, et_seq = fr_seq f\<rparr>)))))"

definition etapa_parse :: "(bytes \<Rightarrow> u32) \<Rightarrow> bytes \<Rightarrow> etapa_error + etapa" where
  "etapa_parse crc raw =
     res_bind (map_err EtRegistro (record_parse crc ETAPA_MAGIC ETAPA_FORMATO raw)) etapa_de_framed"

definition sirve_para :: "(bytes \<Rightarrow> hash256) \<Rightarrow> etapa \<Rightarrow> bytes \<Rightarrow> bool" where
  "sirve_para sha e man \<longleftrightarrow> et_id e = from_manifest sha man"

definition pendientes_de :: "file_entry list \<Rightarrow> (file_entry \<Rightarrow> bool) \<Rightarrow> file_entry list" where
  "pendientes_de files ya_listo = filter (\<lambda>f. \<not> ya_listo f) files"

definition pendientes :: "manifest \<Rightarrow> (file_entry \<Rightarrow> bool) \<Rightarrow> file_entry list" where
  "pendientes man ya_listo = pendientes_de (mn_files man) ya_listo"

fun necesidad_loop :: "(string \<Rightarrow> u64 option) \<Rightarrow> file_entry list \<Rightarrow> u64 \<Rightarrow> u64 \<Rightarrow> u64 \<times> u64" where
  "necesidad_loop tam [] respaldo crece = (respaldo, crece)"
| "necesidad_loop tam (f # fs) respaldo crece =
     (case tam (f_path f) of
        Some actual \<Rightarrow> necesidad_loop tam fs (sat_add respaldo actual) (sat_add crece (sat_sub (f_size f) actual))
      | None \<Rightarrow> necesidad_loop tam fs respaldo (sat_add crece (f_size f)))"

definition necesidad_de ::
  "manifest \<Rightarrow> file_entry list \<Rightarrow> file_entry list \<Rightarrow> (string \<Rightarrow> u64 option) \<Rightarrow> necesidad" where
  "necesidad_de man cambian pend tam =
     (let prep = sum_list (map f_size pend) + mn_kernel_size man;
          (respaldo, crece) = necesidad_loop tam cambian 0 0
      in \<lparr>preparacion = prep, nec_respaldo = respaldo, crecimiento = crece, nec_kernel = mn_kernel_size man\<rparr>)"

lemma trozo_avanza:
  fixes off :: u64
  assumes "off < fin" "maximo \<noteq> 0" "n = min maximo (fin - off)"
  shows "unat (off + n) = unat off + unat n" "unat n \<le> unat fin - unat off" "0 < unat n"
proof -
  have d: "unat (fin - off) = unat fin - unat off" using assms(1) by (simp add: unat_sub word_less_nat_alt word_le_nat_alt)
  show le: "unat n \<le> unat fin - unat off" using assms(3) d by (simp add: min_def word_le_nat_alt)
  show "0 < unat n" using assms d by (auto simp: min_def word_less_nat_alt unat_gt_0)
  show "unat (off + n) = unat off + unat n"
    using le assms(1) unsigned_less [of fin, where 'a = nat]
    by (simp add: unat_word_ariths word_less_nat_alt)
qed

function trozos_loop :: "u64 \<Rightarrow> u64 \<Rightarrow> u64 \<Rightarrow> (u64 \<times> u64) list" where
  "trozos_loop off fin maximo =
     (if off < fin \<and> maximo \<noteq> 0
      then let n = min maximo (fin - off) in (off, n) # trozos_loop (off + n) fin maximo
      else [])"
  by pat_completeness auto

termination
proof (relation "measure (\<lambda>(off, fin, _). unat fin - unat off)", goal_cases)
  case (2 off fin maximo n)
  then show ?case using trozo_avanza [of off fin maximo n] by (auto simp: word_less_nat_alt)
qed simp

declare trozos_loop.simps [simp del]

definition trozos :: "u64 \<Rightarrow> u64 \<Rightarrow> u64 \<Rightarrow> (u64 \<times> u64) list" where
  "trozos start len maximo = (if len = 0 \<or> maximo = 0 then [] else trozos_loop start (start + len) maximo)"

definition bytes_pendientes :: "file_entry list \<Rightarrow> u64" where
  "bytes_pendientes pend = sum_list (map f_size pend)"

section \<open>Responses to a range\<close>

record peticion =
  pt_desde :: u64
  pt_hasta :: u64
  pt_restante :: u64
  pt_desde_el_principio :: bool

datatype fallo_rango = RgEstado u16 | RgVacia | RangoAjeno u64 u64

record aceptado =
  ac_usar :: nat
  ac_completo :: bool

definition parse_content_range :: "string \<Rightarrow> u64 option" where
  "parse_content_range v =
     (case strip_prefix ''bytes'' (trim v) of
        None \<Rightarrow> None
      | Some resto \<Rightarrow>
          parse_word (trim (takeWhile (\<lambda>c. c \<noteq> CHR ''-'' \<and> c \<noteq> CHR ''/'') (trim_start resto))))"

definition juzgar_rango :: "peticion \<Rightarrow> u16 \<Rightarrow> string option \<Rightarrow> nat \<Rightarrow> fallo_rango + aceptado" where
  "juzgar_rango p status content_range cuerpo =
     (if status = 206 then
        if cuerpo = 0 then Inl RgVacia
        else case Option.bind content_range parse_content_range of
            Some inicio \<Rightarrow>
              if inicio \<noteq> pt_desde p then Inl (RangoAjeno (pt_desde p) inicio)
              else Inr \<lparr>ac_usar = unat (min (of_nat cuerpo) (pt_restante p)), ac_completo = False\<rparr>
          | None \<Rightarrow> Inr \<lparr>ac_usar = unat (min (of_nat cuerpo) (pt_restante p)), ac_completo = False\<rparr>
      else if status = 200 \<and> pt_desde_el_principio p \<and> pt_desde p = 0 \<and> of_nat cuerpo \<ge> pt_restante p
      then Inr \<lparr>ac_usar = unat (pt_restante p), ac_completo = True\<rparr>
      else Inl (RgEstado status))"

section \<open>The record of the stage\<close>

definition etapa_ok :: "etapa \<Rightarrow> bool" where
  "etapa_ok e \<longleftrightarrow> length (et_id e) = 32 \<and> version_ok (et_version e)"

definition etapa_lineas :: "etapa \<Rightarrow> string list" where
  "etapa_lineas e = [''id='' @ to_hex (et_id e), ''version='' @ et_version e, ''pack_size='' @ show_word (et_pack_size e)]"

lemma magic_etapa: "magic_ok ETAPA_MAGIC"
proof -
  have "trim ETAPA_MAGIC = ETAPA_MAGIC" unfolding ETAPA_MAGIC_def by code_simp
  then show ?thesis by (simp add: magic_ok_def ETAPA_MAGIC_def texto_ok_Cons byte_in_def)
qed

lemma palabra_digitos: "texto_ok (show_word w)" "trim_end (show_word w) = show_word w"
proof -
  have "list_all (byte_in 0 0x7F) (show_word w)"
    using show_word_digits [of w] by (auto simp: list_all_iff is_ascii_digit_def byte_in_def)
  then show "texto_ok (show_word w)"
    using show_word_digits [of w] by (auto simp: texto_ok_def utf8_valid_ascii list_all_iff is_ascii_digit_def)
  show "trim_end (show_word w) = show_word w" using palabra_trim [of "show_word w" "[]"] by simp
qed

lemma etapa_lineas_ok: "etapa_ok e \<Longrightarrow> list_all linea_ok (etapa_lineas e)"
  using kv_linea [where k = "''d''"] kv_linea [where k = "''ersion''"] kv_linea [where k = "''ack_size''"]
  by (simp add: etapa_lineas_def etapa_ok_def version_ok_def texto_ok_Cons byte_in_def hex_texto to_hex_lower trim_end_hex
      palabra_digitos)

text \<open>\<open>Etapa::format\<close> and \<open>Etapa::parse\<close>: the record of the preparation area reads back as written,
  and it serves a manifest exactly when the manifest's hash is its identifier, so two releases that
  share a version never share a stage unless their manifests have the same hash.\<close>

theorem etapa_parse_format:
  assumes "etapa_ok e"
  shows "etapa_parse crc (etapa_format crc e) = Inr e \<and> (sirve_para sha e man \<longleftrightarrow> sha man = et_id e)"
proof -
  define f where "f = \<lparr>fr_formato = ETAPA_FORMATO, fr_seq = et_seq e, fr_body = unlines (etapa_lineas e)\<rparr>"
  note ls = etapa_lineas_ok [OF assms]
  have "etapa_format crc e = frame crc ETAPA_MAGIC ETAPA_FORMATO (et_seq e) (unlines (etapa_lineas e)) @ replicate 0 NL"
    by (simp add: etapa_format_def etapa_lineas_def)
  then have p: "record_parse crc ETAPA_MAGIC ETAPA_FORMATO (etapa_format crc e) = Inr f"
    using record_parse_frame [OF magic_etapa ls, of ETAPA_FORMATO ETAPA_FORMATO crc "et_seq e" 0]
    by (simp add: f_def ETAPA_FORMATO_def)
  have "tlines (fr_body f) = map trim (etapa_lineas e)"
    unfolding f_def framed.simps using ls by (intro tlines_unlines) (auto simp: list_all_iff linea_ok_def texto_ok_def)
  then have t: "tlines (fr_body f) = etapa_lineas e" using ls by (simp add: list_all_iff linea_ok_def map_idI)
  have "requerido f ''id'' = Inr (to_hex (et_id e))" "requerido f ''version'' = Inr (et_version e)"
    "requerido f ''pack_size'' = Inr (show_word (et_pack_size e))"
    by (simp_all add: requerido_def campo_def t etapa_lineas_def)
  then have "etapa_de_framed f = Inr e" using assms by (simp add: etapa_de_framed_def etapa_ok_def f_def)
  then show ?thesis using p by (auto simp: etapa_parse_def sirve_para_def from_manifest_def)
qed

theorem etapa_parse_format_witness:
  "etapa_parse (\<lambda>_. 0) (etapa_format (\<lambda>_. 0) (etapa_nueva (replicate 32 7) ''1.0'' 5)) = Inr (etapa_nueva (replicate 32 7) ''1.0'' 5)"
proof -
  have "version_ok ''1.0''" by code_simp
  then show ?thesis
    using etapa_parse_format [of "etapa_nueva (replicate 32 7) ''1.0'' 5" "\<lambda>_. 0"] by (simp add: etapa_ok_def etapa_nueva_def)
qed

section \<open>Chunks\<close>

lemma trozos_loop_cubre:
  assumes "maximo \<noteq> 0" "off \<le> fin"
  shows "concat (map (\<lambda>(o1, n). [unat o1 ..< unat o1 + unat n]) (trozos_loop off fin maximo)) = [unat off ..< unat fin] \<and>
    (\<forall>(o1, n) \<in> set (trozos_loop off fin maximo). 0 < n \<and> n \<le> maximo)"
  using assms
proof (induction off fin maximo rule: trozos_loop.induct)
  case (1 off fin maximo)
  show ?case
  proof (cases "off < fin")
    case True
    define n where "n = min maximo (fin - off)"
    note av = trozo_avanza [OF True 1(2) n_def]
    have le: "off + n \<le> fin" using av True by (simp add: word_le_nat_alt word_less_nat_alt)
    note ih = 1(1) [OF conjI [OF True 1(2)] n_def 1(2) le]
    have "[unat off ..< unat off + unat n] @ [unat off + unat n ..< unat fin] = [unat off ..< unat fin]"
      using av(2) True upt_add_eq_append [of "unat off" "unat off + unat n" "unat fin - (unat off + unat n)"]
      by (simp add: word_less_nat_alt)
    moreover have "0 < n" "n \<le> maximo" using av(3) by (auto simp: word_less_nat_alt n_def)
    ultimately show ?thesis
      using ih av(1) True 1(2) by (subst (1 2) trozos_loop.simps) (simp add: Let_def n_def [symmetric])
  next
    case False
    then show ?thesis using 1(3) by (subst (1 2) trozos_loop.simps) (simp add: not_less)
  qed
qed

text \<open>\<open>trozos\<close>: the loop ends, and the chunks are non-empty, no longer than the maximum, and cover
  the bytes of the range in order, each exactly once.\<close>

theorem trozos_particion:
  assumes "maximo \<noteq> 0" "unat start + unat len < 2 ^ 64"
  shows "concat (map (\<lambda>(o1, n). [unat o1 ..< unat o1 + unat n]) (trozos start len maximo)) =
      [unat start ..< unat start + unat len] \<and>
    (\<forall>(o1, n) \<in> set (trozos start len maximo). 0 < n \<and> n \<le> maximo)"
proof -
  have fin: "unat (start + len) = unat start + unat len" using assms(2) by (simp add: unat_word_ariths)
  then have "start \<le> start + len" by (simp add: word_le_nat_alt)
  from trozos_loop_cubre [OF assms(1) this] show ?thesis using assms(1) fin by (simp add: trozos_def)
qed

theorem trozos_particion_witness:
  "concat (map (\<lambda>(o1, n). [unat o1 ..< unat o1 + unat n]) (trozos 10 5 2)) = [10 ..< 15]"
  using trozos_particion [of 2 10 5] by simp

section \<open>Space\<close>

definition techo :: nat where "techo = 2 ^ 64 - 1"

lemma unat_sat: "unat (sat_add a b :: u64) = min (unat a + unat b) techo"
  by (simp add: unat_sat_add techo_def)

lemma necesidad_loop_suma:
  "necesidad_loop tam fs r c = (r', c') \<Longrightarrow>
     unat r' = min (unat r + (\<Sum>f\<leftarrow>fs. case tam (f_path f) of Some a \<Rightarrow> unat a | None \<Rightarrow> 0)) techo \<and>
     unat c' = min (unat c + (\<Sum>f\<leftarrow>fs. case tam (f_path f) of Some a \<Rightarrow> unat (f_size f) - unat a | None \<Rightarrow> unat (f_size f))) techo"
proof (induction fs arbitrary: r c)
  case Nil
  have "unat (w :: u64) \<le> techo" for w using unsigned_less [of w, where 'a = nat] by (simp add: techo_def)
  then show ?case using Nil by (auto simp: min_def)
next
  case (Cons f fs)
  then show ?case by (cases "tam (f_path f)") (auto simp: unat_sat unat_sat_sub)
qed

lemma unat_suma_exacta:
  "sum_list (map (\<lambda>f. unat (g f :: u64)) fs) < 2 ^ 64 \<Longrightarrow> unat (sum_list (map g fs)) = sum_list (map (\<lambda>f. unat (g f)) fs)"
  by (induction fs) (simp_all add: unat_word_ariths)

lemma min_anidado:
  "min (min (min (min (a + min b t) t + min c t) t + d) t + e) t \<le> l \<Longrightarrow> l < t \<Longrightarrow> a + b + c + d + e \<le> (l :: nat)"
  by (simp add: min_def split: if_splits)

text \<open>(\<open>necesidad\<close> and \<open>preflight\<close>): when the operation is admitted and the sizes of what is pending add
  up within 64 bits, the free space holds the pending files, the new kernel, a backup of every file
  that will be replaced, the net growth of the system and both reserves, all at once.\<close>

theorem preflight_suficiente:
  assumes "preflight (necesidad_de man cambian pend tam) c = Inr ()" "sosofs_libre c \<noteq> - 1"
    and "(\<Sum>f\<leftarrow>pend. unat (f_size f)) + unat (mn_kernel_size man) < 2 ^ 64"
  shows "(\<Sum>f\<leftarrow>pend. unat (f_size f)) + unat (mn_kernel_size man) +
      (\<Sum>f\<leftarrow>cambian. case tam (f_path f) of Some a \<Rightarrow> unat a | None \<Rightarrow> 0) +
      (\<Sum>f\<leftarrow>cambian. case tam (f_path f) of Some a \<Rightarrow> unat (f_size f) - unat a | None \<Rightarrow> unat (f_size f)) +
      unat RESERVA_LOGS + unat RESERVA_RECUPERACION \<le> unat (sosofs_libre c) \<and>
    0 < mn_kernel_size man \<and> mn_kernel_size man \<le> hueco_kernel c"
proof -
  obtain r g where l: "necesidad_loop tam cambian 0 0 = (r, g)" by (metis surj_pair)
  note s = necesidad_loop_suma [OF l]
  define n where "n = necesidad_de man cambian pend tam"
  have n: "nec_respaldo n = r" "crecimiento n = g" "nec_kernel n = mn_kernel_size man"
    "preparacion n = sum_list (map f_size pend) + mn_kernel_size man"
    by (simp_all add: n_def necesidad_de_def l)
  have p: "unat (preparacion n) = (\<Sum>f\<leftarrow>pend. unat (f_size f)) + unat (mn_kernel_size man)"
    using assms(3) unat_suma_exacta [of f_size pend] by (simp add: n unat_word_ariths)
  have pf: "total_sosofs n \<le> sosofs_libre c" "nec_kernel n \<noteq> 0" "nec_kernel n \<le> hueco_kernel c"
    using assms(1) by (auto simp: preflight_def Let_def n_def [symmetric] not_less split: if_splits)
  have "unat (sosofs_libre c) < techo"
    using assms(2) unsigned_less [of "sosofs_libre c", where 'a = nat] unat_max_word [where 'a = 64]
    by (intro le_neq_implies_less) (auto simp: techo_def word_unat_eq_iff)
  moreover define R where "R = (\<Sum>f\<leftarrow>cambian. case tam (f_path f) of Some a \<Rightarrow> unat a | None \<Rightarrow> 0)"
  moreover define G where "G = (\<Sum>f\<leftarrow>cambian. case tam (f_path f) of Some a \<Rightarrow> unat (f_size f) - unat a | None \<Rightarrow> unat (f_size f))"
  moreover have rg: "unat r = min R techo" "unat g = min G techo" using s by (simp_all add: R_def G_def)
  moreover have "unat (total_sosofs n) \<le> unat (sosofs_libre c)" using pf(1) by (simp add: word_le_nat_alt)
  ultimately have "unat (preparacion n) + R + G + unat RESERVA_LOGS + unat RESERVA_RECUPERACION \<le> unat (sosofs_libre c)"
    unfolding total_sosofs_def unat_sat n(1,2) rg by (intro min_anidado)
  then show ?thesis using pf(2,3) unfolding p R_def G_def by (simp only: n(3) word_gt_0 simp_thms)
qed

theorem preflight_suficiente_witness:
  "unat RESERVA_LOGS + unat RESERVA_RECUPERACION + 10 \<le> 2 ^ 30"
proof -
  have "preflight (necesidad_de manifest_ej [] [hd (mn_files manifest_ej)] (\<lambda>_. None))
      \<lparr>sosofs_libre = 2 ^ 30, hueco_kernel = 100, registro_arranque = 4096, meta_kernel = 512\<rparr> = Inr ()"
    by (simp add: preflight_def necesidad_de_def manifest_ej_def total_sosofs_def sat_add_def RESERVA_LOGS_def
        RESERVA_RECUPERACION_def SLOT_SIZE_def SLOTS_def META_KERNEL_MIN_def Let_def)
  from preflight_suficiente [OF this] show ?thesis by (simp add: manifest_ej_def)
qed

section \<open>Accepted responses\<close>

text \<open>\<open>juzgar_rango\<close>: what is used of an accepted response never exceeds the body received nor what is
  left of the span, so the client cannot overrun its plan; it is not empty while something is left,
  so the download advances; a partial response is never used when it declares another start; and a
  whole response is used only when the request began at byte zero and it completes the span.\<close>

theorem juzgar_rango_acotado:
  assumes "juzgar_rango p status cr cuerpo = Inr a" "cuerpo < 2 ^ 64"
  shows "ac_usar a \<le> cuerpo \<and> ac_usar a \<le> unat (pt_restante p) \<and>
    (status = 206 \<and> 0 < pt_restante p \<longrightarrow> 0 < ac_usar a) \<and>
    (\<not> ac_completo a \<longrightarrow> (\<forall>v k. cr = Some v \<and> parse_content_range v = Some k \<longrightarrow> k = pt_desde p)) \<and>
    (ac_completo a \<longrightarrow> pt_desde p = 0 \<and> ac_usar a = unat (pt_restante p))"
proof -
  have c: "unat (of_nat cuerpo :: u64) = cuerpo" using assms(2) by (simp add: unat_of_nat)
  consider (parte) "status = 206" "cuerpo \<noteq> 0" "a = \<lparr>ac_usar = unat (min (of_nat cuerpo) (pt_restante p)), ac_completo = False\<rparr>"
      "\<forall>v k. cr = Some v \<and> parse_content_range v = Some k \<longrightarrow> k = pt_desde p"
    | (todo) "status \<noteq> 206" "pt_desde p = 0" "pt_restante p \<le> of_nat cuerpo" "a = \<lparr>ac_usar = unat (pt_restante p), ac_completo = True\<rparr>"
    using assms(1) by (auto simp: juzgar_rango_def split: if_splits option.splits Option.bind_splits)
  then show ?thesis
  proof cases
    case parte
    then show ?thesis using c by (auto simp: min_def word_le_nat_alt word_less_nat_alt)
  next
    case todo
    then show ?thesis using c by (simp add: word_le_nat_alt)
  qed
qed

theorem juzgar_rango_acotado_witness:
  "ac_usar \<lparr>ac_usar = 3, ac_completo = False\<rparr> \<le> 3 \<and>
   juzgar_rango \<lparr>pt_desde = 4, pt_hasta = 9, pt_restante = 6, pt_desde_el_principio = False\<rparr> 206 None 3 =
     Inr \<lparr>ac_usar = 3, ac_completo = False\<rparr>"
proof -
  have j: "juzgar_rango \<lparr>pt_desde = 4, pt_hasta = 9, pt_restante = 6, pt_desde_el_principio = False\<rparr> 206 None 3 =
      Inr \<lparr>ac_usar = 3, ac_completo = False\<rparr>"
    by (simp add: juzgar_rango_def)
  from juzgar_rango_acotado [OF this] j show ?thesis by simp
qed

end
