(* ===== verification/Canal.thy ===== *)
theory Canal
  imports Manifiesto
begin

text \<open>
  \<open>crates/soso-update-core/src/canal.rs\<close>: where a release is served from.  The property ties the
  reason shown to the user to the source that decided.
\<close>

definition REPO_BASE :: string where "REPO_BASE = ''https://github.com/demonodojo/soso/releases''"
definition CANAL_DEV :: string where "CANAL_DEV = ''dev''"
definition CANAL_STABLE :: string where "CANAL_STABLE = ''stable''"

record conf =
  cf_url :: "string option"
  cf_canal :: "string option"

definition conf_linea :: "string \<Rightarrow> conf \<Rightarrow> conf" where
  "conf_linea l c =
     (if l = [] \<or> starts_with ''#'' l then c
      else case split_once CHR ''='' l of
          None \<Rightarrow> c
        | Some (clave, valor) \<Rightarrow>
            let valor = trim valor; clave = trim clave in
            if valor = [] then c
            else if clave = ''url'' then c\<lparr>cf_url := Some valor\<rparr>
            else if clave = ''channel'' \<or> clave = ''canal'' then c\<lparr>cf_canal := Some valor\<rparr>
            else c)"

definition conf_parse :: "string \<Rightarrow> conf" where
  "conf_parse texto = fold conf_linea (tlines texto) \<lparr>cf_url = None, cf_canal = None\<rparr>"

datatype origen = Local string | Remoto string

definition sin_barra_final :: "string \<Rightarrow> string" where
  "sin_barra_final s = rev (dropWhile (\<lambda>c. c = CHR ''/'') (rev s))"

definition artefacto :: "origen \<Rightarrow> string \<Rightarrow> string" where
  "artefacto x nombre =
     (case x of Local dir \<Rightarrow> sin_barra_final dir @ ''/'' @ nombre | Remoto base \<Rightarrow> sin_barra_final base @ ''/'' @ nombre)"

definition es_local :: "origen \<Rightarrow> bool" where
  "es_local x \<longleftrightarrow> (case x of Local _ \<Rightarrow> True | Remoto _ \<Rightarrow> False)"

definition url_de_canal :: "string \<Rightarrow> string" where
  "url_de_canal canal =
     (if canal = CANAL_DEV then REPO_BASE @ ''/download/'' @ CANAL_DEV
      else if canal = CANAL_STABLE then REPO_BASE @ ''/latest/download''
      else REPO_BASE @ ''/download/'' @ canal)"

definition origen_resolver :: "string option \<Rightarrow> string option \<Rightarrow> conf \<Rightarrow> origen" where
  "origen_resolver loc canal_cli c =
     (case loc of Some dir \<Rightarrow> Local dir | None \<Rightarrow>
      case canal_cli of Some ch \<Rightarrow> Remoto (url_de_canal (trim ch)) | None \<Rightarrow>
      case cf_url c of Some u \<Rightarrow> Remoto u | None \<Rightarrow>
        Remoto (url_de_canal (trim (case cf_canal c of None \<Rightarrow> CANAL_STABLE | Some ch \<Rightarrow> ch))))"

definition origen_motivo :: "string option \<Rightarrow> string option \<Rightarrow> conf \<Rightarrow> string" where
  "origen_motivo loc canal_cli c =
     (if loc \<noteq> None then ''--local''
      else if canal_cli \<noteq> None then ''--channel''
      else if cf_url c \<noteq> None then ''url= de /etc/actualiza.conf''
      else if cf_canal c \<noteq> None then ''channel= de /etc/actualiza.conf''
      else ''canal stable por defecto'')"

section \<open>Properties\<close>

text \<open>\<open>resolver\<close> and \<open>motivo\<close>: the reason announced names the source that decided: with a given
  reason the origin depends on nothing but that source, and the network is used exactly when
  \<open>--local\<close> was not given.\<close>

theorem origen_por_su_motivo:
  "(origen_motivo l ch c = ''--local'' \<longleftrightarrow> es_local (origen_resolver l ch c)) \<and>
   (origen_motivo l ch c = ''--channel'' \<longrightarrow> (\<exists>k. ch = Some k \<and> origen_resolver l ch c = Remoto (url_de_canal (trim k)))) \<and>
   (origen_motivo l ch c = ''url= de /etc/actualiza.conf'' \<longrightarrow> (\<exists>u. cf_url c = Some u \<and> origen_resolver l ch c = Remoto u)) \<and>
   (origen_motivo l ch c = ''channel= de /etc/actualiza.conf'' \<longrightarrow>
      (\<exists>k. cf_canal c = Some k \<and> origen_resolver l ch c = Remoto (url_de_canal (trim k)))) \<and>
   (origen_motivo l ch c = ''canal stable por defecto'' \<longrightarrow>
      origen_resolver l ch c = Remoto (REPO_BASE @ ''/latest/download''))"
proof -
  have "trim ''stable'' = ''stable''" by code_simp
  then show ?thesis
    by (auto simp: origen_motivo_def origen_resolver_def es_local_def url_de_canal_def CANAL_STABLE_def CANAL_DEV_def
        split: option.splits if_splits)
qed

theorem origen_por_su_motivo_witness:
  "origen_resolver None None \<lparr>cf_url = None, cf_canal = None\<rparr> = Remoto (REPO_BASE @ ''/latest/download'')"
  using origen_por_su_motivo [of None None "\<lparr>cf_url = None, cf_canal = None\<rparr>"] by (simp add: origen_motivo_def)

end
