(* ===== verification/Cliente.thy ===== *)
theory Cliente
  imports Rescate Descarga Canal
begin

text \<open>
  The update client, user/soso-update/src/main.rs, over the machine of the recoverer: how it reads and
  writes files, what it knows of the installed release, which files it has to fetch, and how the
  bytes of a span of the pack become verified files of the preparation area.  Messages for the user
  and the creation of directories are left out; the transport delivers the chunks of a span as a list
  of byte strings.
\<close>

section \<open>Files\<close>

definition REPLACEMENT :: string where "REPLACEMENT = [CHR 0xEF, CHR 0xBF, CHR 0xBD]"

text \<open>\<open>String::from_utf8_lossy\<close>: each maximal malformed prefix becomes one replacement character.\<close>

definition utf8_malos :: "char \<Rightarrow> string \<Rightarrow> nat" where
  "utf8_malos a s =
     (if utf8_len a < 2 then 0
      else case s of
          [] \<Rightarrow> 0
        | b # t \<Rightarrow> if \<not> utf8_second a b then 0
            else Suc (length (takeWhile (byte_in 0x80 0xBF) (take (utf8_len a - 3) t))))"

function utf8_lossy :: "string \<Rightarrow> string" where
  "utf8_lossy [] = []"
| "utf8_lossy (a # s) =
     (let r = take (utf8_len a - 1) s in
      if utf8_char_ok a r then a # r @ utf8_lossy (drop (utf8_len a - 1) s)
      else REPLACEMENT @ utf8_lossy (drop (utf8_malos a s) s))"
  by pat_completeness auto
termination by (relation "measure length") auto

lemma utf8_lossy_valid: "utf8_valid s \<Longrightarrow> utf8_lossy s = s"
  by (induction s rule: utf8_lossy.induct) (simp_all add: utf8_valid.simps Let_def)

fun read_loop :: "bytes \<Rightarrow> nat \<Rightarrow> bytes \<Rightarrow> bytes" where
  "read_loop fichero maximo salida =
     (if fichero = [] then salida
      else let salida' = salida @ take 4096 fichero in
        if length salida' \<ge> maximo then salida' else read_loop (drop 4096 fichero) maximo salida')"

declare read_loop.simps [simp del]

definition read_file_bytes :: "maquina \<Rightarrow> string \<Rightarrow> nat \<Rightarrow> bytes option" where
  "read_file_bytes m ruta maximo = map_option (\<lambda>d. read_loop d maximo []) (m_ficheros m ruta)"

definition read_file :: "maquina \<Rightarrow> string \<Rightarrow> nat \<Rightarrow> string option" where
  "read_file m ruta maximo = map_option utf8_lossy (read_file_bytes m ruta maximo)"

text \<open>Opening a file to write and closing it.  A file of at most \<open>CARGA_MAX\<close> bytes is loaded when it is
  opened and what is written falls on top of it, so a longer old tail survives; a larger one is
  replaced.  The content reaches the disk when the file is closed, in one piece, or cut short when the
  power goes.\<close>

definition CARGA_MAX :: nat where "CARGA_MAX = 1024 * 1024"

definition encima :: "bytes option \<Rightarrow> bytes \<Rightarrow> bytes" where
  "encima viejo datos =
     (case viejo of
        Some v \<Rightarrow> if length v \<le> CARGA_MAX then datos @ drop (length datos) v else datos
      | None \<Rightarrow> datos)"

definition escribir :: "maquina \<Rightarrow> string \<Rightarrow> bytes \<Rightarrow> bool \<times> maquina" where
  "escribir m ruta datos = vfs_create_file m ruta (encima (m_ficheros m ruta) datos)"

section \<open>The installed release and what has to be fetched\<close>

record release_info =
  ri_kernel :: string
  ri_version :: string
  ri_build :: string
  ri_fecha :: string

definition version_cero :: sem_ver where
  "version_cero = \<lparr>sv_major = 0, sv_minor = 0, sv_patch = 0\<rparr>"

definition version_parsed :: "release_info \<Rightarrow> sem_ver" where
  "version_parsed r = (case semver_parse (ri_version r) of Some v \<Rightarrow> v | None \<Rightarrow> version_cero)"

definition release_linea :: "string \<Rightarrow> release_info \<Rightarrow> release_info" where
  "release_linea l r =
     (case strip_prefix ''version='' l of Some v \<Rightarrow> r\<lparr>ri_version := v\<rparr>
      | None \<Rightarrow> (case strip_prefix ''build='' l of Some v \<Rightarrow> r\<lparr>ri_build := v\<rparr>
      | None \<Rightarrow> (case strip_prefix ''fecha='' l of Some v \<Rightarrow> r\<lparr>ri_fecha := v\<rparr>
      | None \<Rightarrow> (case strip_prefix ''kernel='' l of Some v \<Rightarrow> r\<lparr>ri_kernel := v\<rparr>
      | None \<Rightarrow> r))))"

definition read_release :: "maquina \<Rightarrow> release_info option" where
  "read_release m =
     (case read_file m ''/etc/soso-release'' 512 of
        None \<Rightarrow> None
      | Some text \<Rightarrow>
          let r = fold release_linea (lines text) \<lparr>ri_kernel = [], ri_version = [], ri_build = [], ri_fecha = []\<rparr>
          in if ri_version r = [] then None else Some r)"

definition texto_release :: "manifest \<Rightarrow> bool \<Rightarrow> release_info option \<Rightarrow> string" where
  "texto_release man sin_kernel actual =
     (let kernel_hash = (if sin_kernel
            then (case actual of
                Some r \<Rightarrow> if ri_kernel r \<noteq> [] then ri_kernel r else mn_kernel_hash man
              | None \<Rightarrow> mn_kernel_hash man)
            else mn_kernel_hash man)
      in ''version='' @ mn_version_raw man @ [NL] @ ''build='' @ mn_build man @ [NL] @
         ''fecha='' @ mn_fecha man @ [NL] @ ''kernel='' @ kernel_hash @ [NL])"

definition oferta_de :: "manifest \<Rightarrow> release_info option \<Rightarrow> bool \<Rightarrow> oferta" where
  "oferta_de man release hay_trabajo =
     (let aqui = (case release of
            Some r \<Rightarrow> \<lparr>l_version = version_parsed r, l_build = ri_build r, l_fecha = ri_fecha r\<rparr>
          | None \<Rightarrow> \<lparr>l_version = version_cero, l_build = [], l_fecha = []\<rparr>)
      in decidir \<lparr>l_version = mn_version man, l_build = mn_build man, l_fecha = mn_fecha man\<rparr> aqui hay_trabajo)"

definition file_size :: "maquina \<Rightarrow> string \<Rightarrow> u64 option" where
  "file_size m ruta = map_option (\<lambda>d. of_nat (length d)) (m_ficheros m ruta)"

definition hash_file :: "(bytes \<Rightarrow> hash256) \<Rightarrow> maquina \<Rightarrow> string \<Rightarrow> string option" where
  "hash_file sha m ruta = map_option (hex_sha256 sha) (m_ficheros m ruta)"

definition file_needs_update :: "(bytes \<Rightarrow> hash256) \<Rightarrow> maquina \<Rightarrow> file_entry \<Rightarrow> bool" where
  "file_needs_update sha m entry =
     (let path = ''/'' @ f_path entry in
      case file_size m path of
        None \<Rightarrow> True
      | Some n \<Rightarrow> if n \<noteq> f_size entry then True
          else (case hash_file sha m path of Some h \<Rightarrow> h \<noteq> f_hash_hex entry | None \<Rightarrow> True))"

definition kernel_necesita_actualizar :: "maquina \<Rightarrow> manifest \<Rightarrow> bool" where
  "kernel_necesita_actualizar m man =
     (if mn_kernel_size man = 0 \<or> mn_kernel_hash man = [] then False
      else map_option ri_kernel (read_release m) \<noteq> Some (mn_kernel_hash man))"

definition manifiesto_tiene_trabajo :: "(bytes \<Rightarrow> hash256) \<Rightarrow> maquina \<Rightarrow> manifest \<Rightarrow> bool" where
  "manifiesto_tiene_trabajo sha m man \<longleftrightarrow>
     list_ex (file_needs_update sha m) (mn_files man) \<or> kernel_necesita_actualizar m man"

datatype manifiesto_error =
  ManUtf8 | ManInvalido parse_error | ManNoValido validate_error | ManIncompatible compat_error

definition load_manifest_con_bytes :: "equipo \<Rightarrow> bytes \<Rightarrow> manifiesto_error + manifest \<times> string" where
  "load_manifest_con_bytes eq datos =
     (if \<not> utf8_valid datos then Inl ManUtf8
      else res_bind (map_err ManInvalido (manifest_parse datos)) (\<lambda>man.
        res_bind (map_err ManNoValido (manifest_validate man)) (\<lambda>_.
        res_bind (map_err ManIncompatible (exigir (mn_compat man) eq)) (\<lambda>_.
        Inr (man, datos)))))"

section \<open>The preparation area and the download\<close>

definition ruta_etapa :: "string \<Rightarrow> file_entry \<Rightarrow> string" where
  "ruta_etapa etapa f = etapa @ ''/'' @ f_path f"

definition dir_punto :: "txn_id \<Rightarrow> string" where
  "dir_punto i = DIR_BASE @ ''/'' @ txn_dir i"

definition preparar_etapa ::
  "(bytes \<Rightarrow> u32) \<Rightarrow> (bytes \<Rightarrow> hash256) \<Rightarrow> manifest \<Rightarrow> string \<Rightarrow> maquina \<Rightarrow> string option \<times> maquina" where
  "preparar_etapa crc sha man man_bytes m =
     (let i = from_manifest sha man_bytes;
          base = dir_punto i;
          rec = base @ ''/etapa.rec'';
          vale = (case read_file_bytes m rec 4096 of
              None \<Rightarrow> False
            | Some b \<Rightarrow> (case etapa_parse crc b of Inl _ \<Rightarrow> False | Inr e \<Rightarrow> sirve_para sha e man_bytes))
      in if vale then (Some (base @ ''/etapa''), m)
         else case escribir (vfs_unlink m rec) rec (etapa_format crc (etapa_nueva i (mn_version_raw man) (mn_pack_size man))) of
            (ok, m') \<Rightarrow> (if ok then Some (base @ ''/etapa'') else None, m'))"

definition etapa_lista :: "(bytes \<Rightarrow> hash256) \<Rightarrow> maquina \<Rightarrow> string \<Rightarrow> file_entry \<Rightarrow> bool" where
  "etapa_lista sha m etapa f =
     (case read_file_bytes m (ruta_etapa etapa f) (unat (f_size f) + 1) of
        Some d \<Rightarrow> of_nat (length d) = f_size f \<and> hex_sha256 sha d = f_hash_hex f
      | None \<Rightarrow> False)"

datatype bajar_error = HashCorrupto | NoEscribe

text \<open>The state of the reception of a span: the file in course, the position in the pack, the bytes of
  that file received so far, and the machine.\<close>

record recepcion =
  rx_idx :: nat
  rx_pos :: u64
  rx_buf :: bytes
  rx_m :: maquina

definition volcar :: "(bytes \<Rightarrow> hash256) \<Rightarrow> string \<Rightarrow> file_entry \<Rightarrow> recepcion \<Rightarrow> (bajar_error + unit) \<times> recepcion" where
  "volcar sha etapa f x =
     (if hex_sha256 sha (rx_buf x) \<noteq> f_hash_hex f then (Inl HashCorrupto, x)
      else case escribir (rx_m x) (ruta_etapa etapa f) (rx_buf x) of (ok, m') \<Rightarrow>
        if ok then (Inr (), x\<lparr>rx_buf := [], rx_m := m'\<rparr>) else (Inl NoEscribe, x\<lparr>rx_m := m'\<rparr>))"

lemma volcar_resto: "volcar sha etapa f x = (r, y) \<Longrightarrow> rx_idx y = rx_idx x \<and> rx_pos y = rx_pos x"
  by (auto simp: volcar_def split: if_splits prod.splits)

text \<open>One turn of the loop over what is left of a chunk: the bytes it consumes.\<close>

definition recibir_paso ::
  "(bytes \<Rightarrow> hash256) \<Rightarrow> string \<Rightarrow> file_entry \<Rightarrow> bytes \<Rightarrow> recepcion \<Rightarrow> (bajar_error + nat) \<times> recepcion" where
  "recibir_paso sha etapa f resto x =
     (let fin = f_offset f + f_size f in
      if rx_pos x < f_offset f
      then let salto = min (unat (f_offset f - rx_pos x)) (length resto)
           in (Inr salto, x\<lparr>rx_pos := rx_pos x + of_nat salto\<rparr>)
      else let cabe = min (unat (fin - rx_pos x)) (length resto);
               y = x\<lparr>rx_buf := rx_buf x @ take cabe resto, rx_pos := rx_pos x + of_nat cabe\<rparr>
           in if rx_pos y = fin
              then (case volcar sha etapa f y of
                      (Inl e, z) \<Rightarrow> (Inl e, z)
                    | (Inr _, z) \<Rightarrow> (Inr cabe, z\<lparr>rx_idx := rx_idx z + 1\<rparr>))
              else (Inr cabe, y))"

lemma recibir_paso_avanza:
  assumes "recibir_paso sha etapa f resto x = (Inr n, y)" "resto \<noteq> []"
  shows "0 < n \<and> n \<le> length resto \<or> n = 0 \<and> rx_idx y = Suc (rx_idx x)"
  using assms
  by (auto simp: recibir_paso_def Let_def min_def unat_gt_0 unat_eq_0
      split: if_splits prod.splits sum.splits dest!: volcar_resto)

function recibir ::
  "(bytes \<Rightarrow> hash256) \<Rightarrow> string \<Rightarrow> file_entry list \<Rightarrow> nat list \<Rightarrow> bytes \<Rightarrow> recepcion
     \<Rightarrow> (bajar_error + unit) \<times> recepcion" where
  "recibir sha etapa pend files resto x =
     (if resto = [] \<or> rx_idx x \<ge> length files then (Inr (), x)
      else case recibir_paso sha etapa (pend ! (files ! rx_idx x)) resto x of
          (Inl e, y) \<Rightarrow> (Inl e, y)
        | (Inr n, y) \<Rightarrow> recibir sha etapa pend files (drop n resto) y)"
  by pat_completeness auto
termination
  by (relation "measures [\<lambda>(_, _, _, _, resto, _). length resto, \<lambda>(_, _, _, files, _, x). length files - rx_idx x]")
    (auto dest: recibir_paso_avanza [OF sym])

declare recibir.simps [simp del]

fun recibir_trozos ::
  "(bytes \<Rightarrow> hash256) \<Rightarrow> string \<Rightarrow> file_entry list \<Rightarrow> nat list \<Rightarrow> bytes list \<Rightarrow> recepcion
     \<Rightarrow> (bajar_error + unit) \<times> recepcion" where
  "recibir_trozos sha etapa pend files [] x = (Inr (), x)"
| "recibir_trozos sha etapa pend files (t # ts) x =
     (case recibir sha etapa pend files t x of
        (Inl e, y) \<Rightarrow> (Inl e, y)
      | (Inr _, y) \<Rightarrow> recibir_trozos sha etapa pend files ts y)"

definition bajar_span ::
  "(bytes \<Rightarrow> hash256) \<Rightarrow> string \<Rightarrow> file_entry list \<Rightarrow> span \<Rightarrow> bytes list \<Rightarrow> maquina
     \<Rightarrow> (bajar_error + unit) \<times> maquina" where
  "bajar_span sha etapa pend s ts m =
     (case recibir_trozos sha etapa pend (sp_files s) ts
         \<lparr>rx_idx = 0, rx_pos = sp_start s, rx_buf = [], rx_m = m\<rparr> of
        (r, x) \<Rightarrow> (r, rx_m x))"

fun bajar_spans ::
  "(bytes \<Rightarrow> hash256) \<Rightarrow> string \<Rightarrow> file_entry list \<Rightarrow> (span \<Rightarrow> bytes list) \<Rightarrow> span list \<Rightarrow> maquina
     \<Rightarrow> (bajar_error + unit) \<times> maquina" where
  "bajar_spans sha etapa pend red [] m = (Inr (), m)"
| "bajar_spans sha etapa pend red (s # ss) m =
     (case bajar_span sha etapa pend s (red s) m of
        (Inl e, m') \<Rightarrow> (Inl e, m')
      | (Inr _, m') \<Rightarrow> bajar_spans sha etapa pend red ss m')"

section \<open>Reception of a span\<close>

lemma volcar_ok:
  assumes "hex_sha256 sha (rx_buf x) = f_hash_hex f" "1 < m_energia (rx_m x)"
    and "\<forall>v. m_ficheros (rx_m x) (ruta_etapa etapa f) = Some v \<longrightarrow> length v \<le> length (rx_buf x)"
  shows "volcar sha etapa f x =
    (Inr (), x\<lparr>rx_buf := [], rx_m := (rx_m x)\<lparr>m_ficheros := (m_ficheros (rx_m x))(ruta_etapa etapa f := Some (rx_buf x)),
       m_energia := m_energia (rx_m x) - 1\<rparr>\<rparr>)"
proof -
  have "encima (m_ficheros (rx_m x) (ruta_etapa etapa f)) (rx_buf x) = rx_buf x"
    using assms(3) by (auto simp: encima_def split: option.splits)
  then show ?thesis using assms(1,2) by (simp add: volcar_def escribir_def vfs_create_file_def)
qed

text \<open>The files \<open>F\<close> of a span, in order and without overlaps; the state after receiving the pack up to
  the position: the files before the current one are stored, the rest of the machine is as it was,
  and the buffer holds what has come of the current file.\<close>

definition en_orden :: "file_entry list \<Rightarrow> bool" where
  "en_orden F \<longleftrightarrow> sorted_wrt (\<lambda>a b. unat (f_offset a) + unat (f_size a) \<le> unat (f_offset b)) F \<and>
     (\<forall>f \<in> set F. f_size f \<noteq> 0) \<and> distinct (map f_path F)"

definition rx_inv :: "(bytes \<Rightarrow> hash256) \<Rightarrow> bytes \<Rightarrow> file_entry list \<Rightarrow> string \<Rightarrow> maquina \<Rightarrow> recepcion \<Rightarrow> bool" where
  "rx_inv sha pack F etapa m0 x \<longleftrightarrow> rx_idx x \<le> length F \<and> m_energia (rx_m x) + rx_idx x = m_energia m0 \<and>
     (\<forall>f \<in> set (take (rx_idx x) F). verify_entry sha pack f \<and> m_ficheros (rx_m x) (ruta_etapa etapa f) = read_entry pack f) \<and>
     (\<forall>q. q \<notin> ruta_etapa etapa ` set (take (rx_idx x) F) \<longrightarrow> m_ficheros (rx_m x) q = m_ficheros m0 q) \<and>
     rx_m x = m0\<lparr>m_ficheros := m_ficheros (rx_m x), m_energia := m_energia (rx_m x)\<rparr> \<and>
     (rx_idx x < length F \<longrightarrow>
        unat (rx_pos x) < unat (f_offset (F ! rx_idx x)) + unat (f_size (F ! rx_idx x)) \<and>
        rx_buf x = take (unat (rx_pos x) - unat (f_offset (F ! rx_idx x))) (drop (unat (f_offset (F ! rx_idx x))) pack))"

lemma take_prolonga:
  assumes "off \<le> p" "p + c \<le> length xs"
  shows "take (p - off) (drop off xs) @ take c (drop p xs) = take (p + c - off) (drop off xs)"
proof -
  have "take (p - off + c) (drop off xs) = take (p - off) (drop off xs) @ take c (drop (p - off) (drop off xs))"
    by (rule take_add)
  moreover have "drop (p - off) (drop off xs) = drop p xs" "p - off + c = p + c - off"
    using assms(1) by simp_all
  ultimately show ?thesis by simp
qed

definition tramo_servido :: "bytes \<Rightarrow> file_entry list \<Rightarrow> string \<Rightarrow> maquina \<Rightarrow> bool" where
  "tramo_servido pack F etapa m0 \<longleftrightarrow> en_orden F \<and> length pack < 2 ^ 64 \<and> list_all (\<lambda>f. read_entry pack f \<noteq> None) F \<and>
     list_all (\<lambda>f. \<forall>v. m_ficheros m0 (ruta_etapa etapa f) = Some v \<longrightarrow> length v \<le> unat (f_size f)) F \<and>
     length F < m_energia m0"

lemma servido_entrada:
  assumes "tramo_servido pack F etapa m0" "f \<in> set F"
  shows "read_entry pack f = Some (take (unat (f_size f)) (drop (unat (f_offset f)) pack))"
    "verify_entry sha pack f \<longleftrightarrow> hex_sha256 sha (take (unat (f_size f)) (drop (unat (f_offset f)) pack)) = f_hash_hex f"
    "unat (f_offset f) + unat (f_size f) \<le> length pack"
    "unat (f_offset f + f_size f) = unat (f_offset f) + unat (f_size f)" "0 < unat (f_size f)"
proof -
  obtain d where d: "read_entry pack f = Some d" and l: "length pack < 2 ^ 64"
    using assms by (auto simp: tramo_servido_def list_all_iff)
  have r: "unat (f_offset f) + unat (f_size f) \<le> length pack" "d = take (unat (f_size f)) (drop (unat (f_offset f)) pack)"
    using d by (auto simp: read_entry_def Let_def split: if_splits)
  then show "read_entry pack f = Some (take (unat (f_size f)) (drop (unat (f_offset f)) pack))"
    "verify_entry sha pack f \<longleftrightarrow> hex_sha256 sha (take (unat (f_size f)) (drop (unat (f_offset f)) pack)) = f_hash_hex f"
    "unat (f_offset f) + unat (f_size f) \<le> length pack" using d by (simp_all add: verify_entry_def)
  show "unat (f_offset f + f_size f) = unat (f_offset f) + unat (f_size f)"
    using r(1) l by (simp add: unat_word_ariths)
  show "0 < unat (f_size f)" using assms by (simp add: tramo_servido_def en_orden_def unat_gt_0)
qed

lemma rx_inv_pos:
  assumes "rx_inv sha pack F etapa m0 x" "rx_idx x < length F" "rx_m y = rx_m x" "rx_idx y = rx_idx x"
    and "unat (rx_pos y) < unat (f_offset (F ! rx_idx x)) + unat (f_size (F ! rx_idx x))"
    and "rx_buf y = take (unat (rx_pos y) - unat (f_offset (F ! rx_idx x))) (drop (unat (f_offset (F ! rx_idx x))) pack)"
  shows "rx_inv sha pack F etapa m0 y"
  using assms by (simp add: rx_inv_def)

lemma ruta_etapa_nueva:
  assumes "en_orden F" "k < length F"
  shows "ruta_etapa etapa (F ! k) \<notin> ruta_etapa etapa ` set (take k F)"
proof
  assume "ruta_etapa etapa (F ! k) \<in> ruta_etapa etapa ` set (take k F)"
  then obtain i where "i < k" "f_path (F ! k) = f_path (F ! i)"
    using assms(2) by (auto simp: ruta_etapa_def in_set_conv_nth)
  then show False
    using assms nth_eq_iff_index_eq [of "map f_path F" k i] by (simp add: en_orden_def)
qed

lemma rx_cierra:
  assumes t: "tramo_servido pack F etapa m0" and inv: "rx_inv sha pack F etapa m0 x" and idx: "rx_idx x < length F"
    and y: "rx_m y = rx_m x" "rx_idx y = rx_idx x"
    and pos: "unat (rx_pos y) = unat (f_offset (F ! rx_idx x)) + unat (f_size (F ! rx_idx x))"
    and buf: "rx_buf y = take (unat (f_size (F ! rx_idx x))) (drop (unat (f_offset (F ! rx_idx x))) pack)"
    and ver: "verify_entry sha pack (F ! rx_idx x)"
  shows "\<exists>z. volcar sha etapa (F ! rx_idx x) y = (Inr (), z) \<and> rx_pos z = rx_pos y \<and> rx_idx z = rx_idx x \<and>
    rx_inv sha pack F etapa m0 (z\<lparr>rx_idx := Suc (rx_idx x)\<rparr>)"
proof -
  let ?f = "F ! rx_idx x"
  note e = servido_entrada [OF t, of ?f]
  have f: "?f \<in> set F" and ord: "en_orden F" using idx t by (simp_all add: tramo_servido_def)
  have nuevo: "ruta_etapa etapa ?f \<notin> ruta_etapa etapa ` set (take (rx_idx x) F)"
    using ord idx by (rule ruta_etapa_nueva)
  have en: "1 < m_energia (rx_m y)" using inv idx t by (simp add: rx_inv_def tramo_servido_def y)
  have "m_ficheros (rx_m x) (ruta_etapa etapa ?f) = m_ficheros m0 (ruta_etapa etapa ?f)"
    using inv nuevo by (simp add: rx_inv_def)
  then have "\<forall>v. m_ficheros (rx_m y) (ruta_etapa etapa ?f) = Some v \<longrightarrow> length v \<le> length (rx_buf y)"
    using t f e(3) by (auto simp: tramo_servido_def list_all_iff y buf)
  note v = volcar_ok [OF _ en this, of sha]
  have tk: "set (take (Suc (rx_idx x)) F) = insert ?f (set (take (rx_idx x) F))"
    using idx by (simp add: take_Suc_conv_app_nth)
  have sig: "unat (f_offset ?f) + unat (f_size ?f) \<le> unat (f_offset (F ! Suc (rx_idx x)))"
    "0 < unat (f_size (F ! Suc (rx_idx x)))" if "Suc (rx_idx x) < length F"
    using ord that by (auto simp: en_orden_def sorted_wrt_iff_nth_less unat_gt_0)
  have m0: "m_energia (rx_m x) + rx_idx x = m_energia m0" "rx_m x = m0\<lparr>m_ficheros := m_ficheros (rx_m x), m_energia := m_energia (rx_m x)\<rparr>"
    "\<And>g. g \<in> set (take (rx_idx x) F) \<Longrightarrow> verify_entry sha pack g \<and> m_ficheros (rx_m x) (ruta_etapa etapa g) = read_entry pack g"
    "\<And>q. q \<notin> ruta_etapa etapa ` set (take (rx_idx x) F) \<Longrightarrow> m_ficheros (rx_m x) q = m_ficheros m0 q"
    using inv by (simp_all add: rx_inv_def)
  define z where "z = y\<lparr>rx_buf := [], rx_m := (rx_m y)\<lparr>m_ficheros := (m_ficheros (rx_m y))(ruta_etapa etapa ?f := Some (rx_buf y)),
      m_energia := m_energia (rx_m y) - 1\<rparr>\<rparr>"
  have dif: "ruta_etapa etapa g \<noteq> ruta_etapa etapa ?f" if "g \<in> set (take (rx_idx x) F)" for g
    using nuevo that by (metis imageI)
  have rx: "(\<forall>g \<in> set (take (Suc (rx_idx x)) F). verify_entry sha pack g \<and> m_ficheros (rx_m z) (ruta_etapa etapa g) = read_entry pack g) \<and>
      (\<forall>q. q \<notin> ruta_etapa etapa ` set (take (Suc (rx_idx x)) F) \<longrightarrow> m_ficheros (rx_m z) q = m_ficheros m0 q)"
    using m0(3,4) e(1) f dif ver by (auto simp: tk z_def y buf)
  have rm: "m_energia (rx_m z) + Suc (rx_idx x) = m_energia m0 \<and> rx_m z = m0\<lparr>m_ficheros := m_ficheros (rx_m z), m_energia := m_energia (rx_m z)\<rparr>"
    using m0(1) en by (subst (3) z_def) (simp add: z_def y, subst m0(2), simp)
  have "rx_inv sha pack F etapa m0 (z\<lparr>rx_idx := Suc (rx_idx x)\<rparr>)"
    using idx sig pos rx rm by (auto simp: rx_inv_def z_def)
  then show ?thesis
    using v e(2) f buf ver by (intro exI [of _ z]) (simp add: z_def y)
qed

lemma recibir_paso_inv:
  assumes t: "tramo_servido pack F etapa m0" and inv: "rx_inv sha pack F etapa m0 x" and idx: "rx_idx x < length F"
    and resto: "resto = take n (drop (unat (rx_pos x)) pack)" "unat (rx_pos x) + n \<le> length pack"
  shows "(\<exists>c y. recibir_paso sha etapa (F ! rx_idx x) resto x = (Inr c, y) \<and> rx_inv sha pack F etapa m0 y \<and>
      c \<le> n \<and> unat (rx_pos y) = unat (rx_pos x) + c) \<or>
    (\<exists>y. recibir_paso sha etapa (F ! rx_idx x) resto x = (Inl HashCorrupto, y) \<and> \<not> verify_entry sha pack (F ! rx_idx x))"
proof -
  let ?f = "F ! rx_idx x"
  define off where "off = unat (f_offset ?f)"
  define sz where "sz = unat (f_size ?f)"
  define p where "p = unat (rx_pos x)"
  have "?f \<in> set F" using idx by simp
  note e = servido_entrada [OF t this, folded off_def sz_def]
  have n: "length resto = n" "p + n < 2 ^ 64" using resto t by (simp_all add: p_def tramo_servido_def)
  have st: "p < off + sz" "rx_buf x = take (p - off) (drop off pack)"
    using inv idx by (simp_all add: rx_inv_def off_def sz_def p_def)
  have pos: "unat (rx_pos x + of_nat c) = p + c" if "c \<le> n" for c
    using n(2) that by (simp add: p_def unat_word_ariths unat_of_nat)
  show ?thesis
  proof (cases "rx_pos x < f_offset ?f")
    case True
    define c where "c = min (off - p) n"
    have lt: "p < off" "unat (f_offset ?f - rx_pos x) = off - p" "c \<le> n" "p + c \<le> off"
      using True by (auto simp: c_def off_def p_def unat_sub word_less_nat_alt word_le_nat_alt)
    have "rx_inv sha pack F etapa m0 (x\<lparr>rx_pos := rx_pos x + of_nat c\<rparr>)"
      using st lt e(5) by (intro rx_inv_pos [OF inv idx]) (simp_all add: pos off_def [symmetric] sz_def [symmetric])
    moreover have "recibir_paso sha etapa ?f resto x = (Inr c, x\<lparr>rx_pos := rx_pos x + of_nat c\<rparr>)"
      using True n(1) lt(2) by (simp add: recibir_paso_def Let_def c_def)
    ultimately show ?thesis using lt(3) pos p_def by auto
  next
    case False
    define c where "c = min (off + sz - p) n"
    define y where "y = x\<lparr>rx_buf := rx_buf x @ take c resto, rx_pos := rx_pos x + of_nat c\<rparr>"
    have ge: "off \<le> p" "unat (f_offset ?f + f_size ?f - rx_pos x) = off + sz - p" "c \<le> n" "p + c \<le> off + sz"
      using False st(1) e(4) by (auto simp: word_less_nat_alt word_le_nat_alt off_def p_def c_def unat_sub)
    have y: "unat (rx_pos y) = p + c" "rx_m y = rx_m x" "rx_idx y = rx_idx x" by (simp_all add: y_def pos ge(3))
    have "take c resto = take c (drop p pack)" using ge(3) by (simp add: resto(1) p_def min_def)
    then have buf: "rx_buf y = take (p + c - off) (drop off pack)"
      using take_prolonga [OF ge(1), of c pack] ge e(3) st(2) by (simp add: y_def)
    have eq: "(rx_pos y = f_offset ?f + f_size ?f) = (p + c = off + sz)"
      using y(1) e(4) by (metis word_unat_eq_iff)
    have paso: "recibir_paso sha etapa ?f resto x = (if p + c = off + sz
        then case volcar sha etapa ?f y of (Inl e, z) \<Rightarrow> (Inl e, z) | (Inr _, z) \<Rightarrow> (Inr c, z\<lparr>rx_idx := rx_idx z + 1\<rparr>)
        else (Inr c, y))"
    proof -
      have "min (unat (f_offset ?f + f_size ?f - rx_pos x)) (length resto) = c" by (simp add: ge(2) n(1) c_def)
      then show ?thesis
        using False unfolding recibir_paso_def Let_def eq [symmetric] by (simp only: y_def [symmetric] if_False)
    qed
    show ?thesis
    proof (cases "p + c = off + sz")
      case fin: True
      show ?thesis
      proof (cases "verify_entry sha pack ?f")
        case True
        with fin rx_cierra [OF t inv idx y(2,3)] y(1) buf show ?thesis
          using ge(3) by (fastforce simp: paso off_def sz_def p_def)
      next
        case False
        then have "volcar sha etapa ?f y = (Inl HashCorrupto, y)"
          using e(2) fin buf by (simp add: volcar_def)
        then show ?thesis using fin False by (simp add: paso)
      qed
    next
      case ne: False
      have "rx_inv sha pack F etapa m0 y"
        using ge(4) ne by (intro rx_inv_pos [OF inv idx y(2,3)]) (simp_all add: y(1) buf off_def sz_def)
      then show ?thesis using ne ge(3) y(1) by (auto simp: paso p_def)
    qed
  qed
qed

lemma recibir_inv:
  assumes "tramo_servido pack (map ((!) pend) files) etapa m0" "rx_inv sha pack (map ((!) pend) files) etapa m0 x"
    and "unat (rx_pos x) + n \<le> length pack" "resto = take n (drop (unat (rx_pos x)) pack)"
  shows "(\<exists>y. recibir sha etapa pend files resto x = (Inr (), y) \<and> rx_inv sha pack (map ((!) pend) files) etapa m0 y \<and>
      (rx_idx y = length files \<or> unat (rx_pos y) = unat (rx_pos x) + n)) \<or>
    (\<exists>y. recibir sha etapa pend files resto x = (Inl HashCorrupto, y) \<and>
      \<not> list_all (verify_entry sha pack) (map ((!) pend) files))"
  using assms
proof (induction sha etapa pend files resto x arbitrary: n rule: recibir.induct [case_names sigue])
  case (sigue sha etapa pend files resto x)
  let ?F = "map ((!) pend) files"
  show ?case
  proof (cases "resto = [] \<or> rx_idx x \<ge> length files")
    case True
    then show ?thesis using sigue(3-) by (auto simp: recibir.simps rx_inv_def)
  next
    case False
    then have idx: "rx_idx x < length ?F" and ne: "resto \<noteq> []" by auto
    from recibir_paso_inv [OF sigue(2,3) idx sigue(5,4)] show ?thesis
    proof (elim disjE exE conjE)
      fix c y
      assume paso: "recibir_paso sha etapa (?F ! rx_idx x) resto x = (Inr c, y)"
        and y: "rx_inv sha pack ?F etapa m0 y" "c \<le> n" "unat (rx_pos y) = unat (rx_pos x) + c"
      have r: "recibir sha etapa pend files resto x = recibir sha etapa pend files (drop c resto) y"
        using False paso idx by (subst recibir.simps) simp
      have "drop c resto = take (n - c) (drop (unat (rx_pos y)) pack)"
        using sigue(5) y(3) by (simp add: drop_take add.commute)
      then show ?thesis
        using sigue(1) [OF False _ _ sigue(2) y(1), of "Inr c" c "n - c"] paso idx y sigue(4) r by auto
    next
      fix y
      assume "recibir_paso sha etapa (?F ! rx_idx x) resto x = (Inl HashCorrupto, y)" "\<not> verify_entry sha pack (?F ! rx_idx x)"
      then show ?thesis using False idx by (subst (2) recibir.simps) (force simp: list_all_iff)
    qed
  qed
qed

lemma recibir_completo: "length files \<le> rx_idx x \<Longrightarrow> recibir_trozos sha etapa pend files ts x = (Inr (), x)"
  by (induction ts) (simp_all add: recibir.simps)

lemma recibir_trozos_inv:
  assumes "tramo_servido pack (map ((!) pend) files) etapa m0" "rx_inv sha pack (map ((!) pend) files) etapa m0 x"
    and "unat (rx_pos x) + n \<le> length pack" "concat ts = take n (drop (unat (rx_pos x)) pack)"
  shows "(\<exists>y. recibir_trozos sha etapa pend files ts x = (Inr (), y) \<and> rx_inv sha pack (map ((!) pend) files) etapa m0 y \<and>
      (rx_idx y = length files \<or> unat (rx_pos y) = unat (rx_pos x) + n)) \<or>
    (\<exists>y. recibir_trozos sha etapa pend files ts x = (Inl HashCorrupto, y) \<and>
      \<not> list_all (verify_entry sha pack) (map ((!) pend) files))"
  using assms(2-)
proof (induction ts arbitrary: x n)
  case Nil
  then have "n = 0" by auto
  then show ?case using Nil by simp
next
  case (Cons t ts)
  have "length (concat (t # ts)) = n" using Cons(3,4) by (simp only: length_take length_drop)
  then have n: "length t \<le> n" by simp
  have t: "t = take (length t) (drop (unat (rx_pos x)) pack)" "unat (rx_pos x) + length t \<le> length pack"
  proof -
    have "t = take (length t) (concat (t # ts))" by simp
    also have "\<dots> = take (length t) (drop (unat (rx_pos x)) pack)" unfolding Cons(4) using n by (simp add: min_def)
    finally show "t = take (length t) (drop (unat (rx_pos x)) pack)" .
    show "unat (rx_pos x) + length t \<le> length pack" using Cons(3) n by simp
  qed
  from recibir_inv [OF assms(1) Cons(2) t(2,1)] show ?case
  proof (elim disjE exE conjE)
    fix y
    assume y: "recibir sha etapa pend files t x = (Inr (), y)" "rx_inv sha pack (map ((!) pend) files) etapa m0 y"
      "unat (rx_pos y) = unat (rx_pos x) + length t"
    have "concat ts = drop (length t) (concat (t # ts))" by simp
    also have "\<dots> = take (n - length t) (drop (unat (rx_pos y)) pack)"
      unfolding Cons(4) using y(3) by (simp add: drop_take add.commute)
    finally have "concat ts = take (n - length t) (drop (unat (rx_pos y)) pack)" .
    with Cons(1) [OF y(2), of "n - length t"] y n Cons(3) show ?thesis by auto
  qed (auto simp: recibir_completo)
qed

lemma bajar_span_tramo:
  fixes s :: span
  defines "F \<equiv> \<lambda>pend. map ((!) pend) (sp_files s)"
  assumes t: "tramo_servido pack (F pend) etapa m"
    and s: "\<forall>f \<in> set (F pend). unat (sp_start s) \<le> unat (f_offset f) \<and> unat (f_offset f) + unat (f_size f) \<le> unat (sp_start s) + n"
    and red: "unat (sp_start s) + n \<le> length pack" "concat ts = take n (drop (unat (sp_start s)) pack)"
  shows "(\<exists>m'. bajar_span sha etapa pend s ts m = (Inr (), m') \<and> list_all (verify_entry sha pack) (F pend) \<and>
      m_energia m' + length (F pend) = m_energia m \<and>
      (\<forall>f \<in> set (F pend). m_ficheros m' (ruta_etapa etapa f) = read_entry pack f) \<and>
      (\<forall>q. q \<notin> ruta_etapa etapa ` set (F pend) \<longrightarrow> m_ficheros m' q = m_ficheros m q) \<and>
      m' = m\<lparr>m_ficheros := m_ficheros m', m_energia := m_energia m'\<rparr>) \<or>
    (\<exists>m'. bajar_span sha etapa pend s ts m = (Inl HashCorrupto, m') \<and> \<not> list_all (verify_entry sha pack) (F pend))"
proof -
  let ?x = "\<lparr>rx_idx = 0, rx_pos = sp_start s, rx_buf = [], rx_m = m\<rparr>"
  have ini: "rx_inv sha pack (F pend) etapa m ?x"
  proof -
    have "unat (sp_start s) \<le> unat (f_offset (F pend ! 0)) \<and> 0 < unat (f_size (F pend ! 0))" if "F pend \<noteq> []"
      using that s servido_entrada(5) [OF t, of "F pend ! 0"] by simp
    then show ?thesis by (auto simp: rx_inv_def)
  qed
  have "unat (rx_pos ?x) + n \<le> length pack" "concat ts = take n (drop (unat (rx_pos ?x)) pack)"
    using red by simp_all
  note r = recibir_trozos_inv [OF t [unfolded F_def] ini [unfolded F_def] this]
  consider (bien) y where "recibir_trozos sha etapa pend (sp_files s) ts ?x = (Inr (), y)"
      "rx_inv sha pack (F pend) etapa m y" "rx_idx y = length (F pend) \<or> unat (rx_pos y) = unat (rx_pos ?x) + n"
    | (mal) y where "recibir_trozos sha etapa pend (sp_files s) ts ?x = (Inl HashCorrupto, y)"
      "\<not> list_all (verify_entry sha pack) (F pend)"
    using r unfolding F_def length_map by blast
  then show ?thesis
  proof cases
    case bien
    have "rx_idx y = length (F pend)"
    proof (rule ccontr)
      assume ne: "rx_idx y \<noteq> length (F pend)"
      then have i: "rx_idx y < length (F pend)" using bien(2) by (simp add: rx_inv_def)
      then have "unat (rx_pos y) < unat (f_offset (F pend ! rx_idx y)) + unat (f_size (F pend ! rx_idx y))"
        using bien(2) by (simp add: rx_inv_def)
      moreover have "unat (f_offset (F pend ! rx_idx y)) + unat (f_size (F pend ! rx_idx y)) \<le> unat (sp_start s) + n"
        using s i by simp
      ultimately show False using bien(3) ne by simp
    qed
    then show ?thesis using bien by (auto simp: bajar_span_def rx_inv_def list_all_iff)
  next
    case mal
    then show ?thesis by (simp add: bajar_span_def)
  qed
qed

section \<open>The whole download\<close>

lemma read_loop_entero: "length fichero \<le> maximo - length salida \<Longrightarrow> read_loop fichero maximo salida = salida @ fichero"
proof (induction fichero maximo salida rule: read_loop.induct)
  case (1 fichero maximo salida)
  show ?case
  proof (cases "fichero = []")
    case True
    then show ?thesis by (simp add: read_loop.simps)
  next
    case False
    with 1 show ?thesis
      by (subst read_loop.simps) (auto simp: Let_def min_def split: if_splits)
  qed
qed

definition servido :: "bytes \<Rightarrow> file_entry list \<Rightarrow> (span \<Rightarrow> bytes list) \<Rightarrow> span \<Rightarrow> bool" where
  "servido pack pend red s \<longleftrightarrow> en_orden (map ((!) pend) (sp_files s)) \<and>
     unat (sp_start s) + unat (span_len s) \<le> length pack \<and>
     concat (red s) = take (unat (span_len s)) (drop (unat (sp_start s)) pack) \<and>
     (\<forall>i \<in> set (sp_files s). unat (sp_start s) \<le> unat (f_offset (pend ! i)) \<and>
        unat (f_offset (pend ! i)) + unat (f_size (pend ! i)) \<le> unat (sp_start s) + unat (span_len s))"

definition etapa_limpia :: "string \<Rightarrow> maquina \<Rightarrow> file_entry \<Rightarrow> bool" where
  "etapa_limpia etapa m f \<longleftrightarrow> (\<forall>v. m_ficheros m (ruta_etapa etapa f) = Some v \<longrightarrow> length v \<le> unat (f_size f))"

lemma ruta_etapa_iff [simp]: "ruta_etapa etapa f = ruta_etapa etapa g \<longleftrightarrow> f_path f = f_path g"
  by (simp add: ruta_etapa_def)

lemma bajar_spans_tramos:
  fixes m :: maquina
  defines "I \<equiv> \<lambda>ss. set (concat (map sp_files ss))"
  assumes "length pack < 2 ^ 64" "distinct (map f_path pend)" "\<forall>f \<in> set pend. read_entry pack f \<noteq> None"
    and "\<forall>s \<in> set ss. servido pack pend red s"
    and "distinct (concat (map sp_files ss))" "I ss \<subseteq> {..<length pend}"
    and "\<forall>i \<in> I ss. etapa_limpia etapa m (pend ! i)" "length (concat (map sp_files ss)) < m_energia m"
  shows "(\<exists>m'. bajar_spans sha etapa pend red ss m = (Inr (), m') \<and> (\<forall>i \<in> I ss. verify_entry sha pack (pend ! i)) \<and>
      m_energia m' + length (concat (map sp_files ss)) = m_energia m \<and>
      (\<forall>i \<in> I ss. m_ficheros m' (ruta_etapa etapa (pend ! i)) = read_entry pack (pend ! i)) \<and>
      (\<forall>q. q \<notin> (\<lambda>i. ruta_etapa etapa (pend ! i)) ` I ss \<longrightarrow> m_ficheros m' q = m_ficheros m q) \<and>
      m' = m\<lparr>m_ficheros := m_ficheros m', m_energia := m_energia m'\<rparr>) \<or>
    (\<exists>m'. bajar_spans sha etapa pend red ss m = (Inl HashCorrupto, m') \<and> \<not> (\<forall>i \<in> I ss. verify_entry sha pack (pend ! i)))"
  using assms(5-)
proof (induction ss arbitrary: m)
  case Nil
  then show ?case by (simp add: I_def)
next
  case (Cons s ss)
  define F where "F = map ((!) pend) (sp_files s)"
  have sv: "servido pack pend red s" and IC: "I (s # ss) = set (sp_files s) \<union> I ss"
    and disj: "set (sp_files s) \<inter> I ss = {}" using Cons.prems(1,2) by (auto simp: I_def)
  have t: "tramo_servido pack F etapa m"
    using sv Cons.prems(3-) assms(2,4) IC by (auto simp: tramo_servido_def servido_def F_def list_all_iff etapa_limpia_def)
  have rng: "\<forall>f \<in> set F. unat (sp_start s) \<le> unat (f_offset f) \<and>
      unat (f_offset f) + unat (f_size f) \<le> unat (sp_start s) + unat (span_len s)"
    "unat (sp_start s) + unat (span_len s) \<le> length pack"
    "concat (red s) = take (unat (span_len s)) (drop (unat (sp_start s)) pack)"
    using sv by (auto simp: servido_def F_def)
  consider (bien) m1 where "bajar_span sha etapa pend s (red s) m = (Inr (), m1)" "list_all (verify_entry sha pack) F"
      "m_energia m1 + length F = m_energia m" "\<forall>f \<in> set F. m_ficheros m1 (ruta_etapa etapa f) = read_entry pack f"
      "\<forall>q. q \<notin> ruta_etapa etapa ` set F \<longrightarrow> m_ficheros m1 q = m_ficheros m q"
      "m1 = m\<lparr>m_ficheros := m_ficheros m1, m_energia := m_energia m1\<rparr>"
    | (mal) m1 where "bajar_span sha etapa pend s (red s) m = (Inl HashCorrupto, m1)" "\<not> list_all (verify_entry sha pack) F"
    using bajar_span_tramo [OF t [unfolded F_def] rng(1) [unfolded F_def] rng(2,3), of sha] unfolding F_def by blast
  then show ?case
  proof cases
    case mal
    then show ?thesis by (auto simp: IC F_def list_all_iff)
  next
    case bien
    have fuera: "ruta_etapa etapa (pend ! i) \<notin> ruta_etapa etapa ` set F" if "i \<in> I ss" for i
    proof
      assume "ruta_etapa etapa (pend ! i) \<in> ruta_etapa etapa ` set F"
      then obtain k where k: "k \<in> set (sp_files s)" "f_path (pend ! k) = f_path (pend ! i)" by (auto simp: F_def)
      then have "k = i"
        using assms(3) Cons.prems(3) that nth_eq_iff_index_eq [of "map f_path pend" k i] by (auto simp: IC)
      then show False using k(1) that disj by blast
    qed
    have c1: "\<forall>i \<in> I ss. etapa_limpia etapa m1 (pend ! i)"
      using Cons.prems(4) bien(5) fuera by (auto simp: etapa_limpia_def IC)
    have c2: "length (concat (map sp_files ss)) < m_energia m1" using Cons.prems(5) bien(3) by (simp add: F_def)
    have c3: "\<forall>s \<in> set ss. servido pack pend red s" "distinct (concat (map sp_files ss))" "I ss \<subseteq> {..<length pend}"
      using Cons.prems by (auto simp: IC)
    have paso: "bajar_spans sha etapa pend red (s # ss) m = bajar_spans sha etapa pend red ss m1" by (simp add: bien(1))
    from Cons.IH [OF c3 c1 c2] show ?thesis
    proof (elim disjE exE conjE)
      fix m'
      assume m': "bajar_spans sha etapa pend red ss m1 = (Inr (), m')" "\<forall>i \<in> I ss. verify_entry sha pack (pend ! i)"
        "m_energia m' + length (concat (map sp_files ss)) = m_energia m1"
        "\<forall>i \<in> I ss. m_ficheros m' (ruta_etapa etapa (pend ! i)) = read_entry pack (pend ! i)"
        "\<forall>q. q \<notin> (\<lambda>i. ruta_etapa etapa (pend ! i)) ` I ss \<longrightarrow> m_ficheros m' q = m_ficheros m1 q"
        "m' = m1\<lparr>m_ficheros := m_ficheros m', m_energia := m_energia m'\<rparr>"
      have "m_ficheros m' (ruta_etapa etapa (pend ! i)) = read_entry pack (pend ! i)" if "i \<in> set (sp_files s)" for i
      proof -
        have f: "pend ! i \<in> set F" using that by (simp add: F_def)
        then have "ruta_etapa etapa (pend ! i) \<notin> (\<lambda>i. ruta_etapa etapa (pend ! i)) ` I ss" using fuera by (metis (no_types, lifting) imageE imageI)
        then show ?thesis using m'(5) bien(4) f by simp
      qed
      moreover have "m' = m\<lparr>m_ficheros := m_ficheros m', m_energia := m_energia m'\<rparr>"
        by (subst m'(6), subst bien(6)) simp
      moreover have "\<forall>i \<in> set (sp_files s). verify_entry sha pack (pend ! i)"
        using bien(2) by (simp add: F_def list_all_iff)
      moreover have "m_ficheros m' q = m_ficheros m q" if "q \<notin> (\<lambda>i. ruta_etapa etapa (pend ! i)) ` (set (sp_files s) \<union> I ss)" for q
        using that m'(5) bien(5) by (simp add: F_def image_Un image_image)
      ultimately show ?thesis
        using m' bien(3) unfolding paso IC by (intro disjI1 exI [of _ m']) (auto simp: F_def)
    next
      fix m'
      assume "bajar_spans sha etapa pend red ss m1 = (Inl HashCorrupto, m')" "\<not> (\<forall>i \<in> I ss. verify_entry sha pack (pend ! i))"
      then show ?thesis unfolding paso IC by blast
    qed
  qed
qed

lemma plan_servido:
  assumes v: "manifest_validate man = Inr ()" "mn_pack_size man \<noteq> - 1" "set pend \<subseteq> set (mn_files man)" "distinct pend"
    and pk: "mn_pack_size man = of_nat (length pack)" "length pack < 2 ^ 64"
    and s: "s \<in> set (plan_spans pend g n)"
    and red: "concat (red s) = take (unat (span_len s)) (drop (unat (sp_start s)) pack)"
  shows "servido pack pend red s"
proof -
  note pv = pendientes_validos [OF v]
  have len: "unat (mn_pack_size man) = length pack" using pk by (simp add: unat_of_nat)
  obtain q where q: "plan_inv pend n q (plan_spans pend g n)" "distinct q" "set q = {0 ..< length pend}"
      "sorted (map (\<lambda>i. f_offset (pend ! i)) q)"
    using plan_spans_inv [OF pv(1), of n g] by blast
  have ind: "i < length pend" if "i \<in> set (sp_files s)" for i
    using q(1,3) s that by (fastforce simp: plan_inv_def)
  have fin: "unat (fin_de (pend ! i)) = unat (f_offset (pend ! i)) + unat (f_size (pend ! i))"
    "unat (f_offset (pend ! i)) + unat (f_size (pend ! i)) \<le> length pack" if "i < length pend" for i
    using that pv(4) len unat_fin [of "pend ! i" "mn_pack_size man"] by (simp_all add: fin_de_def)
  have ok: "span_ok pend n s" using q(1) s by (simp add: plan_inv_def list_all_iff)
  then obtain k where k: "k \<in> set (sp_files s)" "sp_end s = fin_de (pend ! k)" by (auto simp: span_ok_def)
  have le: "sp_start s \<le> sp_end s" using ok pv(1) ind by (intro span_ok_start [OF ok]) simp
  then have sl: "unat (sp_start s) + unat (span_len s) = unat (sp_end s)"
    by (simp add: span_len_def unat_sub word_le_nat_alt)
  have "sorted_wrt (\<lambda>i k. fin_de (pend ! i) \<le> f_offset (pend ! k)) (concat (map sp_files (plan_spans pend g n)))"
    using indices_ordenados [OF pv(1,2,3) q(4,2,3)] q(1) by (simp add: plan_inv_def)
  moreover obtain as bs where "plan_spans pend g n = as @ s # bs" using s by (meson split_list)
  ultimately have "sorted_wrt (\<lambda>i k. fin_de (pend ! i) \<le> f_offset (pend ! k)) (sp_files s)"
    by (simp add: sorted_wrt_append)
  then have "sorted_wrt (\<lambda>a b. unat (f_offset a) + unat (f_size a) \<le> unat (f_offset b)) (map ((!) pend) (sp_files s))"
    using ind fin(1) by (auto simp: sorted_wrt_map word_le_nat_alt elim!: sorted_wrt_mono_rel [rotated])
  moreover have "distinct (map f_path (map ((!) pend) (sp_files s)))"
  proof -
    have "distinct (sp_files s)" using q(1,2) s by (auto simp: plan_inv_def distinct_concat_iff)
    moreover have "inj_on (\<lambda>i. f_path (pend ! i)) (set (sp_files s))"
      using ind pv(5) nth_eq_iff_index_eq [of "map f_path pend"] by (auto simp: inj_on_def)
    ultimately show ?thesis by (simp add: distinct_map comp_def)
  qed
  moreover have "\<forall>f \<in> set (map ((!) pend) (sp_files s)). f_size f \<noteq> 0"
    using pv(2) nth_mem [OF ind] by (auto simp: word_greater_zero_iff)
  ultimately have "en_orden (map ((!) pend) (sp_files s))" by (simp add: en_orden_def)
  moreover have "unat (sp_end s) \<le> length pack" using k fin [OF ind [OF k(1)]] by simp
  moreover have "unat (sp_start s) \<le> unat (f_offset (pend ! i)) \<and> unat (f_offset (pend ! i)) + unat (f_size (pend ! i)) \<le> unat (sp_end s)"
    if "i \<in> set (sp_files s)" for i
    using ok that fin(1) [OF ind [OF that]] by (auto simp: span_ok_def word_le_nat_alt)
  ultimately show ?thesis using sl red by (simp add: servido_def)
qed

section \<open>Properties\<close>

text \<open>C16 (\<open>bajar_span\<close> over \<open>plan_spans\<close>): when the pending files come from a validated manifest and the server
  delivers the bytes of each span of the pack, cut into chunks in any way, the download ends; it
  ends well exactly when every pending file has the hash that the manifest declares, and then the
  preparation area holds each of them, byte for byte, with no other file touched; otherwise it stops
  with the error of a corrupt file.\<close>

theorem descarga_completa:
  assumes v: "manifest_validate man = Inr ()" "mn_pack_size man \<noteq> - 1" "set pend \<subseteq> set (mn_files man)" "distinct pend"
    and pk: "mn_pack_size man = of_nat (length pack)" "length pack < 2 ^ 64"
    and red: "\<forall>s. concat (red s) = take (unat (span_len s)) (drop (unat (sp_start s)) pack)"
    and m: "list_all (etapa_limpia etapa m) pend" "length pend < m_energia m"
  shows "\<exists>r m'. bajar_spans sha etapa pend red (plan_spans pend g n) m = (r, m') \<and>
    (r = Inr () \<longleftrightarrow> list_all (verify_entry sha pack) pend) \<and>
    (r \<noteq> Inr () \<longrightarrow> r = Inl HashCorrupto) \<and>
    (r = Inr () \<longrightarrow> list_all (etapa_lista sha m' etapa) pend \<and>
       (\<forall>f \<in> set pend. m_ficheros m' (ruta_etapa etapa f) = read_entry pack f) \<and>
       (\<forall>q. q \<notin> ruta_etapa etapa ` set pend \<longrightarrow> m_ficheros m' q = m_ficheros m q))"
proof -
  let ?ss = "plan_spans pend g n"
  define I where "I = set (concat (map sp_files ?ss))"
  note pv = pendientes_validos [OF v]
  have len: "unat (mn_pack_size man) = length pack" using pk by (simp add: unat_of_nat)
  obtain q where q: "plan_inv pend n q ?ss" "distinct q" "set q = {0 ..< length pend}"
    using plan_spans_inv [OF pv(1), of n g] by blast
  have dq: "distinct (concat (map sp_files ?ss))" and I: "I = {..<length pend}"
    using q by (auto simp: plan_inv_def I_def lessThan_atLeast0)
  then have lq: "length (concat (map sp_files ?ss)) = length pend"
    using distinct_card [OF dq] by (simp add: I_def)
  have entra: "read_entry pack f = Some (take (unat (f_size f)) (drop (unat (f_offset f)) pack))" if "f \<in> set pend" for f
    using that pv(4) len pk(2) by (fastforce simp: read_entry_def Let_def)
  have sv: "\<forall>s \<in> set ?ss. servido pack pend red s" using plan_servido [OF v pk] red by blast
  have todos: "(\<forall>i \<in> I. P (pend ! i)) \<longleftrightarrow> (\<forall>f \<in> set pend. P f)" for P by (auto simp: I all_set_conv_all_nth)
  have img: "(\<lambda>i. ruta_etapa etapa (pend ! i)) ` I = ruta_etapa etapa ` set pend"
    by (auto simp: I set_conv_nth image_iff)
  have lista: "etapa_lista sha m' etapa f" if "f \<in> set pend" "verify_entry sha pack f"
      "m_ficheros m' (ruta_etapa etapa f) = read_entry pack f" for f m'
  proof -
    have "length (take (unat (f_size f)) (drop (unat (f_offset f)) pack)) = unat (f_size f)"
      using that(1) pv(4) len by fastforce
    then show ?thesis
      using that entra [OF that(1)] by (simp add: etapa_lista_def read_file_bytes_def read_loop_entero verify_entry_def)
  qed
  have e: "\<forall>f \<in> set pend. read_entry pack f \<noteq> None" and li: "\<forall>i \<in> I. etapa_limpia etapa m (pend ! i)"
    and en: "length (concat (map sp_files ?ss)) < m_energia m" and sub: "I \<subseteq> {..<length pend}"
    using entra m by (auto simp: todos list_all_iff lq I)
  have fich: "(\<forall>i \<in> I. m_ficheros m' (ruta_etapa etapa (pend ! i)) = read_entry pack (pend ! i)) \<longleftrightarrow>
      (\<forall>f \<in> set pend. m_ficheros m' (ruta_etapa etapa f) = read_entry pack f)" for m' by (rule todos)
  note r = bajar_spans_tramos [OF pk(2) pv(5) e sv dq, folded I_def, OF sub li en, of sha, unfolded fich todos img]
  then consider (bien) m' where "bajar_spans sha etapa pend red ?ss m = (Inr (), m')" "\<forall>f \<in> set pend. verify_entry sha pack f"
      "\<forall>f \<in> set pend. m_ficheros m' (ruta_etapa etapa f) = read_entry pack f"
      "\<forall>q. q \<notin> ruta_etapa etapa ` set pend \<longrightarrow> m_ficheros m' q = m_ficheros m q"
    | (mal) m' where "bajar_spans sha etapa pend red ?ss m = (Inl HashCorrupto, m')" "\<not> (\<forall>f \<in> set pend. verify_entry sha pack f)"
    by blast
  then show ?thesis
  proof cases
    case bien
    then show ?thesis using lista by (intro exI [of _ "Inr ()"] exI [of _ m']) (simp add: list_all_iff)
  next
    case mal
    then show ?thesis by (intro exI [of _ "Inl HashCorrupto"] exI [of _ m']) (simp add: list_all_iff)
  qed
qed

definition sha_largo :: "bytes \<Rightarrow> hash256" where
  "sha_largo d = replicate 32 (if length d = 3 then 0 else 0x11)"

definition maquina_vacia :: "nat \<Rightarrow> maquina" where
  "maquina_vacia e = \<lparr>m_montado = True, m_ficheros = (\<lambda>_. None), m_base = None, m_esp = None, m_esp_legible = True,
     m_cerrojo = False, m_energia = e, m_corte = 0, m_arbol = []\<rparr>"

theorem descarga_completa_witness:
  "\<exists>m'. bajar_spans sha_largo ''/e'' (mn_files manifest_ej)
      (\<lambda>s. [take (unat (span_len s)) (drop (unat (sp_start s)) ''hola!'')]) (plan_spans (mn_files manifest_ej) GAP_MAX SPAN_MAX)
      (maquina_vacia 5) = (Inr (), m') \<and> m_ficheros m' ''/e/bin/init'' = Some ''ho''"
proof -
  have f: "mn_files manifest_ej = [\<lparr>f_path = ''bin/a b'', f_offset = 2, f_size = 3, f_hash_hex = replicate 64 CHR ''0''\<rparr>,
        \<lparr>f_path = ''bin/init'', f_offset = 0, f_size = 2, f_hash_hex = replicate 64 CHR ''1''\<rparr>]"
    by (simp add: manifest_ej_def)
  have "hex_sha256 sha_largo ''la!'' = replicate 64 CHR ''0''" "hex_sha256 sha_largo ''ho'' = replicate 64 CHR ''1''"
    by code_simp+
  then have ok: "list_all (verify_entry sha_largo ''hola!'') (mn_files manifest_ej)"
    by (simp add: f verify_entry_def read_entry_def)
  have r: "read_entry ''hola!'' (mn_files manifest_ej ! 1) = Some ''ho''" by (simp add: f read_entry_def)
  have "mn_pack_size manifest_ej \<noteq> - 1" "mn_pack_size manifest_ej = of_nat (length ''hola!'')" "distinct (mn_files manifest_ej)"
    "list_all (etapa_limpia ''/e'' (maquina_vacia 5)) (mn_files manifest_ej)" "length (mn_files manifest_ej) < m_energia (maquina_vacia 5)"
    "length ''hola!'' < (2 :: nat) ^ 64"
    by (simp_all add: manifest_ej_def etapa_limpia_def maquina_vacia_def)
  note h = this
  have red: "\<forall>s. concat [take (unat (span_len s)) (drop (unat (sp_start s)) ''hola!'')] =
      take (unat (span_len s)) (drop (unat (sp_start s)) ''hola!'')" by simp
  from descarga_completa [OF ej_validate h(1) subset_refl h(3,2,6) red h(4,5), of sha_largo GAP_MAX SPAN_MAX]
  obtain m' where m': "bajar_spans sha_largo ''/e'' (mn_files manifest_ej)
      (\<lambda>s. [take (unat (span_len s)) (drop (unat (sp_start s)) ''hola!'')]) (plan_spans (mn_files manifest_ej) GAP_MAX SPAN_MAX)
      (maquina_vacia 5) = (Inr (), m')" "\<forall>f \<in> set (mn_files manifest_ej). m_ficheros m' (ruta_etapa ''/e'' f) = read_entry ''hola!'' f"
    using ok by blast
  have "mn_files manifest_ej ! 1 \<in> set (mn_files manifest_ej)" "ruta_etapa ''/e'' (mn_files manifest_ej ! 1) = ''/e/bin/init''"
    by (simp_all add: f ruta_etapa_def)
  then show ?thesis using m' r by (metis (no_types, lifting))
qed

end
