(* ===== verification/Identidad.thy ===== *)
theory Identidad
  imports Registro
begin

text \<open>
  \<open>crates/soso-update-core/src/identity.rs\<close>: whether the machine booted as a live medium or as an
  installation, read from the slots of \<open>SOSOMODE.TXT\<close> before the file system is mounted.  The
  record is one more client of the durable slots of \<open>record.rs\<close>; the lemmas show that a published
  identity is the one resolved, that a torn write leaves the previous one, and that only an own
  explicit record can retire the FAT log.
\<close>

definition MODE_MAGIC :: string where "MODE_MAGIC = ''SOSOMODE''"
definition MODE_FORMATO :: u16 where "MODE_FORMATO = 1"
definition MODE_SIZE :: nat where "MODE_SIZE = SLOT_SIZE * SLOTS"

datatype boot_mode = Live | Installed

primrec mode_str :: "boot_mode \<Rightarrow> string" where
  "mode_str Live = ''live''"
| "mode_str Installed = ''installed''"

definition mode_parse :: "string \<Rightarrow> boot_mode option" where
  "mode_parse s = (if s = ''live'' then Some Live else if s = ''installed'' then Some Installed else None)"

definition usa_fatlog :: "boot_mode \<Rightarrow> bool" where
  "usa_fatlog m \<longleftrightarrow> m = Live"

record mode_record =
  mo_modo :: boot_mode
  mo_seq :: u64
  mo_fecha :: string
  mo_esp_guid :: string

datatype mode_error = ModRegistro record_error | ModoInvalido

datatype identidad = Explicita mode_record | Heredada | Rota mode_error | Ajena mode_record

definition identidad_modo :: "identidad \<Rightarrow> boot_mode" where
  "identidad_modo x = (case x of Explicita r \<Rightarrow> mo_modo r | Ajena _ \<Rightarrow> Live | Heredada \<Rightarrow> Live | Rota _ \<Rightarrow> Live)"

definition puede_retirar_fatlog :: "identidad \<Rightarrow> bool" where
  "puede_retirar_fatlog x \<longleftrightarrow> (case x of Explicita r \<Rightarrow> mo_modo r = Installed | _ \<Rightarrow> False)"

definition mode_nuevo :: "boot_mode \<Rightarrow> string \<Rightarrow> string \<Rightarrow> u64 \<Rightarrow> mode_record" where
  "mode_nuevo m fecha guid seq = \<lparr>mo_modo = m, mo_seq = seq, mo_fecha = fecha, mo_esp_guid = guid\<rparr>"

definition mode_format :: "(bytes \<Rightarrow> u32) \<Rightarrow> mode_record \<Rightarrow> mode_error + bytes" where
  "mode_format crc r =
     map_err ModRegistro
       (frame_slot crc MODE_MAGIC MODE_FORMATO (mo_seq r)
         (''modo='' @ mode_str (mo_modo r) @ [NL] @ ''fecha='' @ mo_fecha r @ [NL] @
          ''esp_guid='' @ mo_esp_guid r @ [NL]) SLOT_SIZE)"

definition mode_ranura :: "mode_record \<Rightarrow> nat" where
  "mode_ranura r = ranura (mo_seq r) SLOTS"

definition mode_de_framed :: "framed \<Rightarrow> mode_error + mode_record" where
  "mode_de_framed f =
     (case Option.bind (campo f ''modo'') mode_parse of
        None \<Rightarrow> Inl ModoInvalido
      | Some m \<Rightarrow>
          Inr \<lparr>mo_modo = m, mo_seq = fr_seq f,
               mo_fecha = (case campo f ''fecha'' of None \<Rightarrow> [] | Some v \<Rightarrow> v),
               mo_esp_guid = (case campo f ''esp_guid'' of None \<Rightarrow> [] | Some v \<Rightarrow> v)\<rparr>)"

definition identidad_resolver :: "(bytes \<Rightarrow> u32) \<Rightarrow> bytes option \<Rightarrow> string \<Rightarrow> identidad" where
  "identidad_resolver crc fichero esp_guid =
     (case fichero of
        None \<Rightarrow> Heredada
      | Some bs \<Rightarrow>
          (case record_pick crc MODE_MAGIC MODE_FORMATO (take SLOTS (chunks SLOT_SIZE bs)) of
             Inl e \<Rightarrow> if e = Vacia then Heredada else Rota (ModRegistro e)
           | Inr (_, f) \<Rightarrow>
               (case mode_de_framed f of
                  Inl e \<Rightarrow> Rota e
                | Inr rec \<Rightarrow>
                    if mo_esp_guid rec \<noteq> [] \<and> \<not> eq_ignore_ascii_case (mo_esp_guid rec) esp_guid
                    then Ajena rec else Explicita rec)))"

section \<open>Round trip\<close>

definition mode_ok :: "mode_record \<Rightarrow> bool" where
  "mode_ok r \<longleftrightarrow> version_ok (mo_fecha r) \<and> version_ok (mo_esp_guid r)"

definition mode_lineas :: "mode_record \<Rightarrow> string list" where
  "mode_lineas r = [''modo='' @ mode_str (mo_modo r), ''fecha='' @ mo_fecha r, ''esp_guid='' @ mo_esp_guid r]"

lemma magic_modo: "magic_ok MODE_MAGIC"
proof -
  have "trim MODE_MAGIC = MODE_MAGIC" unfolding MODE_MAGIC_def by code_simp
  then show ?thesis by (simp add: magic_ok_def MODE_MAGIC_def texto_ok_Cons byte_in_def)
qed

lemma mode_texto: "texto_ok (mode_str m)" "trim_end (mode_str m) = mode_str m"
proof -
  show "texto_ok (mode_str m)" by (cases m; simp add: texto_ok_Cons byte_in_def)
  have "last (mode_str m) \<notin> ws_byte" by (rule ws_byte_ascii; cases m; simp)
  then show "trim_end (mode_str m) = mode_str m" by (rule trim_end_last [rotated]) (cases m; simp)
qed

lemma fecha_linea:
  assumes "version_ok v"
  shows "linea_ok (''fecha='' @ v)"
proof -
  have "trim (''fecha'' @ CHR ''='' # v) = ''fecha'' @ CHR ''='' # v"
    using assms kv_trim [of "''fecha''" v] ws_byte_ascii [of "CHR ''f''"] by (simp add: version_ok_def)
  moreover have "texto_ok (''fecha='' @ v)"
    using assms by (intro texto_ok_append) (simp_all add: version_ok_def texto_ok_Cons byte_in_def)
  ultimately show ?thesis by (simp add: linea_ok_def)
qed

lemma mode_lineas_ok: "mode_ok r \<Longrightarrow> list_all linea_ok (mode_lineas r)"
  using kv_linea [where k = "''odo''"] kv_linea [where k = "''sp_guid''"] fecha_linea [of "mo_fecha r"]
  by (simp add: mode_lineas_def mode_ok_def version_ok_def texto_ok_Cons byte_in_def mode_texto)

definition mode_bytes :: "(bytes \<Rightarrow> u32) \<Rightarrow> mode_record \<Rightarrow> bytes" where
  "mode_bytes crc r = (case mode_format crc r of Inl _ \<Rightarrow> [] | Inr s \<Rightarrow> s)"

definition mode_cabe :: "(bytes \<Rightarrow> u32) \<Rightarrow> mode_record \<Rightarrow> bool" where
  "mode_cabe crc r \<longleftrightarrow> mode_ok r \<and> is_ok (mode_format crc r)"

abbreviation lee_modo :: "(bytes \<Rightarrow> u32) \<Rightarrow> bytes \<Rightarrow> record_error + framed" where
  "lee_modo crc \<equiv> record_parse crc MODE_MAGIC MODE_FORMATO"

definition mode_pick :: "(bytes \<Rightarrow> u32) \<Rightarrow> bytes list \<Rightarrow> mode_error + mode_record" where
  "mode_pick crc slots =
     res_bind (map_err ModRegistro (record_pick crc MODE_MAGIC MODE_FORMATO slots)) (\<lambda>(_, f). mode_de_framed f)"

lemma mode_format_Inr:
  "mode_format crc r = Inr s \<Longrightarrow> length s = SLOT_SIZE \<and>
     (\<exists>n. s = frame crc MODE_MAGIC MODE_FORMATO (mo_seq r) (unlines (mode_lineas r)) @ replicate n NL)"
  by (auto simp: mode_format_def frame_slot_def Let_def mode_lineas_def split: if_splits)

lemma mode_lee:
  assumes "mode_ok r" "mode_format crc r = Inr s"
  shows "\<exists>f. lee_modo crc s = Inr f \<and> mode_de_framed f = Inr r \<and> fr_seq f = mo_seq r"
proof -
  obtain n where s: "s = frame crc MODE_MAGIC MODE_FORMATO (mo_seq r) (unlines (mode_lineas r)) @ replicate n NL"
    using mode_format_Inr [OF assms(2)] by blast
  define f where "f = \<lparr>fr_formato = MODE_FORMATO, fr_seq = mo_seq r, fr_body = unlines (mode_lineas r)\<rparr>"
  note ls = mode_lineas_ok [OF assms(1)]
  have p: "lee_modo crc s = Inr f"
    using record_parse_frame [OF magic_modo ls, of MODE_FORMATO MODE_FORMATO crc "mo_seq r" n] by (simp add: s f_def MODE_FORMATO_def)
  have "tlines (fr_body f) = map trim (mode_lineas r)"
    unfolding f_def framed.simps using ls by (intro tlines_unlines) (auto simp: list_all_iff linea_ok_def texto_ok_def)
  then have t: "tlines (fr_body f) = mode_lineas r" using ls by (simp add: list_all_iff linea_ok_def map_idI)
  have "campo f ''modo'' = Some (mode_str (mo_modo r))" "campo f ''fecha'' = Some (mo_fecha r)"
    "campo f ''esp_guid'' = Some (mo_esp_guid r)"
    by (simp_all add: campo_def t mode_lineas_def)
  moreover have "mode_parse (mode_str m) = Some m" for m by (cases m) (simp_all add: mode_parse_def)
  ultimately have "mode_de_framed f = Inr r" by (simp add: mode_de_framed_def f_def)
  then show ?thesis using p by (auto simp: f_def)
qed

interpretation modo: registro_durable
  "lee_modo crc" mode_de_framed "mode_bytes crc" "mode_cabe crc" mo_seq "mode_pick crc" SLOTS for crc
proof unfold_locales
  fix r assume "mode_cabe crc r"
  then obtain s where "mode_ok r" "mode_format crc r = Inr s" by (cases "mode_format crc r") (auto simp: mode_cabe_def)
  then show "\<exists>f. lee_modo crc (mode_bytes crc r) = Inr f \<and> mode_de_framed f = Inr r \<and> fr_seq f = mo_seq r"
    using mode_lee by (simp add: mode_bytes_def)
qed (simp_all add: mode_pick_def record_pick_def SLOTS_def)

lemma resolver_pick:
  assumes "length slots = SLOTS" "\<forall>s \<in> set slots. length s = SLOT_SIZE" "mode_pick crc slots = Inr r"
  shows "identidad_resolver crc (Some (concat slots)) guid =
    (if mo_esp_guid r \<noteq> [] \<and> \<not> eq_ignore_ascii_case (mo_esp_guid r) guid then Ajena r else Explicita r)"
  using assms by (auto simp: identidad_resolver_def mode_pick_def chunks_concat SLOT_SIZE_def)

section \<open>Properties\<close>

text \<open>(\<open>resolver\<close> after a publication): when the next record is written in its turn over a valid set of
  slots, the identity resolved is that record, explicit on its own ESP and foreign on another; and
  when that write is torn into something the reader rejects, the previous record still decides.\<close>

theorem identidad_publicada:
  assumes "vigente (lee_modo crc) SLOTS slots i f" "\<forall>s \<in> set slots. length s = SLOT_SIZE" "mode_de_framed f = Inr q"
    and "fr_seq f \<noteq> - 1" "mode_cabe crc r" "mo_seq r = fr_seq f + 1"
    and "length basura = SLOT_SIZE" "lee_modo crc basura = Inl e"
  shows "identidad_resolver crc (Some (concat (slots[mode_ranura r := mode_bytes crc r]))) guid =
      (if mo_esp_guid r \<noteq> [] \<and> \<not> eq_ignore_ascii_case (mo_esp_guid r) guid then Ajena r else Explicita r) \<and>
    identidad_resolver crc (Some (concat (slots[mode_ranura r := basura]))) guid =
      (if mo_esp_guid q \<noteq> [] \<and> \<not> eq_ignore_ascii_case (mo_esp_guid q) guid then Ajena q else Explicita q)"
proof -
  have l: "length slots = SLOTS" using assms(1) by (simp add: vigente_def)
  obtain s where s: "mode_format crc r = Inr s" using assms(5) by (cases "mode_format crc r") (auto simp: mode_cabe_def)
  have "length (mode_bytes crc r) = SLOT_SIZE" using mode_format_Inr [OF s] by (simp add: mode_bytes_def s)
  then have t: "\<forall>x \<in> set (slots[k := mode_bytes crc r]). length x = SLOT_SIZE"
    "\<forall>x \<in> set (slots[k := basura]). length x = SLOT_SIZE" for k
    using assms(2,7) set_update_subset_insert by (metis insert_iff subset_iff)+
  have "mode_pick crc (slots[mode_ranura r := mode_bytes crc r]) = Inr r"
    using modo.publicado_se_lee [OF assms(1,4,5,6)] by (simp add: mode_ranura_def)
  moreover have "mode_pick crc (slots[mode_ranura r := basura]) = Inr q"
    using modo.corte_conserva(2) [OF assms(1,4,8)] assms(3,6) by (simp add: mode_ranura_def)
  ultimately show ?thesis using resolver_pick t l by simp
qed

definition ranura_blanca :: bytes where "ranura_blanca = replicate SLOT_SIZE NL"

lemma lee_ranura_blanca: "lee_modo crc ranura_blanca = Inl Vacia"
  by (simp add: record_parse_def ranura_blanca_def list_all_iff)

definition crc_cero :: "bytes \<Rightarrow> u32" where "crc_cero b = 0"

lemma ej_modo_cabe: "n < 10 \<Longrightarrow> mode_cabe crc_cero (mode_nuevo m [] ''ab'' (of_nat n))"
proof -
  assume n: "n < 10"
  then have "show_word (of_nat n :: u64) = show_nat n" by (simp add: show_word_def unat_of_nat)
  then have l: "length (show_word (of_nat n :: u64)) = 1" using n by (subst (asm) show_nat.simps) simp
  have "show_word (1 :: u16) = ''1''" by code_simp
  then have "is_ok (mode_format crc_cero (mode_nuevo m [] ''ab'' (of_nat n)))"
    using l by (cases m) (simp_all add: mode_format_def mode_nuevo_def frame_slot_def frame_def frame_text_def Let_def
        MODE_MAGIC_def MODE_FORMATO_def SLOT_SIZE_def suma_def crc_cero_def)
  moreover have "version_ok []" "version_ok ''ab''" by code_simp+
  ultimately show ?thesis by (simp add: mode_cabe_def mode_ok_def) (simp add: mode_nuevo_def)
qed

theorem identidad_publicada_witness:
  "\<exists>slots. identidad_resolver crc_cero (Some (concat (slots[2 := mode_bytes crc_cero (mode_nuevo Installed [] ''ab'' 2)]))) ''AB'' =
     Explicita (mode_nuevo Installed [] ''ab'' 2)"
proof -
  define a where "a = mode_nuevo Live [] ''ab'' 1"
  define b where "b = mode_nuevo Installed [] ''ab'' 2"
  have cabe: "mode_cabe crc_cero a" "mode_cabe crc_cero b" using ej_modo_cabe [of 1] ej_modo_cabe [of 2] by (simp_all add: a_def b_def)
  define slots where "slots = (replicate SLOTS ranura_blanca)[ranura (mo_seq a) SLOTS := mode_bytes crc_cero a]"
  obtain g where g: "vigente (lee_modo crc_cero) SLOTS slots (ranura (mo_seq a) SLOTS) g" "mode_de_framed g = Inr a" "fr_seq g = mo_seq a"
    using modo.publicado_vigente [of "replicate SLOTS ranura_blanca" crc_cero a] cabe(1) lee_ranura_blanca by (auto simp: slots_def)
  obtain s where "mode_format crc_cero a = Inr s" using cabe(1) by (cases "mode_format crc_cero a") (auto simp: mode_cabe_def)
  then have "length (mode_bytes crc_cero a) = SLOT_SIZE" using mode_format_Inr by (simp add: mode_bytes_def)
  then have "\<forall>x \<in> set slots. length x = SLOT_SIZE"
    using set_update_subset_insert [of "replicate SLOTS ranura_blanca"] by (force simp: slots_def ranura_blanca_def)
  from identidad_publicada [OF g(1) this g(2) _ cabe(2) _ _ lee_ranura_blanca, of "''AB''"]
  have "identidad_resolver crc_cero (Some (concat (slots[mode_ranura b := mode_bytes crc_cero b]))) ''AB'' =
      (if mo_esp_guid b \<noteq> [] \<and> \<not> eq_ignore_ascii_case (mo_esp_guid b) ''AB'' then Ajena b else Explicita b)"
    using g(3) by (simp add: a_def b_def mode_nuevo_def ranura_blanca_def)
  moreover have "mode_ranura b = 2" "mo_esp_guid b = ''ab''"
    by (simp_all add: b_def mode_ranura_def mode_nuevo_def ranura_def SLOTS_def)
  moreover have "eq_ignore_ascii_case ''ab'' ''AB''" by code_simp
  ultimately show ?thesis by (auto simp: b_def)
qed

text \<open>(\<open>puede_retirar_fatlog\<close>): the FAT log can be retired only when some slot of this ESP's own record
  reads as an installation whose partition is empty or this one; a machine without the file, with an
  unreadable one or with a cloned one keeps it and counts as live.\<close>

theorem fatlog_solo_instalado:
  "(puede_retirar_fatlog (identidad_resolver crc fichero guid) \<longleftrightarrow>
     (\<exists>bs k f r. fichero = Some bs \<and> record_pick crc MODE_MAGIC MODE_FORMATO (take SLOTS (chunks SLOT_SIZE bs)) = Inr (k, f) \<and>
        mode_de_framed f = Inr r \<and> mo_modo r = Installed \<and>
        (mo_esp_guid r = [] \<or> eq_ignore_ascii_case (mo_esp_guid r) guid))) \<and>
   (usa_fatlog (identidad_modo (identidad_resolver crc fichero guid)) \<longleftrightarrow>
     \<not> puede_retirar_fatlog (identidad_resolver crc fichero guid))"
proof -
  have "usa_fatlog (identidad_modo x) \<longleftrightarrow> \<not> puede_retirar_fatlog x" for x
    by (cases x) (auto simp: puede_retirar_fatlog_def usa_fatlog_def identidad_modo_def intro: boot_mode.exhaust)
  then show ?thesis
    by (auto simp: puede_retirar_fatlog_def identidad_resolver_def split: option.splits sum.splits if_splits)
qed

end
