(* ===== verification/Kernel_Esp.thy ===== *)
theory Kernel_Esp
  imports Manifiesto Bootrec Identidad
begin

text \<open>
  What the ESP keeps about the kernel: \<open>mailbox.rs\<close>, \<open>kernel_meta.rs\<close>, \<open>kernel_apply.rs\<close>
  and \<open>migracion.rs\<close> of \<open>crates/soso-update-core/src\<close>.  The lemmas give the round trips of the
  mailbox and of the metadata, and show that the metadata written after the backup is enough to
  restore exactly the previous kernel.  The texts shown to the user are not modelled.
\<close>

section \<open>The mailbox (mailbox.rs)\<close>

definition MAILBOX_MAGIC :: string where "MAILBOX_MAGIC = ''SOSOUPD v1''"
definition UPD_MAILBOX_SIZE :: nat where "UPD_MAILBOX_SIZE = 4096"
definition UPD_KERNEL_SLOT_SIZE :: nat where "UPD_KERNEL_SLOT_SIZE = 64 * 1024 * 1024"

datatype mailbox_cmd =
    MIdle
  | MKernel u64 string string
  | MProbando string
  | MOk string
  | MRevertir
  | MRevertido string

definition mailbox_linea :: "string \<Rightarrow> mailbox_cmd \<Rightarrow> mailbox_cmd" where
  "mailbox_linea l cmd =
     (if l = [] \<or> l = MAILBOX_MAGIC then cmd
      else case strip_prefix ''KERNEL '' l of
        Some rest \<Rightarrow>
          (case split_once CHR '' '' rest of
             None \<Rightarrow> cmd
           | Some (n, rest) \<Rightarrow>
               (case split_once CHR '' '' rest of
                  None \<Rightarrow> cmd
                | Some (hash, ver) \<Rightarrow>
                    MKernel (case parse_word n of None \<Rightarrow> 0 | Some v \<Rightarrow> v) hash ver))
      | None \<Rightarrow>
      case strip_prefix ''PROBANDO '' l of Some ver \<Rightarrow> MProbando (trim ver) | None \<Rightarrow>
      case strip_prefix ''OK '' l of Some ver \<Rightarrow> MOk (trim ver) | None \<Rightarrow>
      if l = ''REVERTIR'' then MRevertir
      else case strip_prefix ''REVERTIDO '' l of Some ver \<Rightarrow> MRevertido (trim ver) | None \<Rightarrow> cmd)"

definition mailbox_parse :: "string \<Rightarrow> mailbox_cmd" where
  "mailbox_parse texto = fold mailbox_linea (tlines texto) MIdle"

definition format_payload :: "string \<Rightarrow> bytes" where
  "format_payload body =
     (let out = MAILBOX_MAGIC @ [NL] @ (if body = [] then [] else body @ [NL])
      in take UPD_MAILBOX_SIZE (out @ replicate (UPD_MAILBOX_SIZE - length out) NL))"

definition format_kernel :: "u64 \<Rightarrow> string \<Rightarrow> string \<Rightarrow> bytes" where
  "format_kernel n hash version = format_payload (''KERNEL '' @ show_word n @ '' '' @ hash @ '' '' @ version)"

definition format_probando :: "string \<Rightarrow> bytes" where
  "format_probando version = format_payload (''PROBANDO '' @ version)"

definition format_ok :: "string \<Rightarrow> bytes" where
  "format_ok version = format_payload (''OK '' @ version)"

definition format_revertir :: bytes where
  "format_revertir = format_payload ''REVERTIR''"

definition format_revertido :: "string \<Rightarrow> bytes" where
  "format_revertido version = format_payload (''REVERTIDO '' @ version)"

definition format_idle :: bytes where
  "format_idle = format_payload []"

section \<open>The metadata of the slot (kernel\_meta.rs)\<close>

definition KERNEL_META_MAGIC :: string where "KERNEL_META_MAGIC = ''SOSOKRN v1''"
definition KERNEL_META_SIZE :: nat where "KERNEL_META_SIZE = 512"

datatype kernel_phase = FIdle | FStaged | FBackupReady | FApplying | FProbando

primrec phase_str :: "kernel_phase \<Rightarrow> string" where
  "phase_str FIdle = ''idle''"
| "phase_str FStaged = ''staged''"
| "phase_str FBackupReady = ''backup''"
| "phase_str FApplying = ''applying''"
| "phase_str FProbando = ''probando''"

definition phase_parse :: "string \<Rightarrow> kernel_phase option" where
  "phase_parse s =
     (if s = ''idle'' then Some FIdle else if s = ''staged'' then Some FStaged
      else if s = ''backup'' then Some FBackupReady else if s = ''applying'' then Some FApplying
      else if s = ''probando'' then Some FProbando else None)"

record kernel_meta =
  km_phase :: kernel_phase
  km_version :: string
  km_new_size :: u64
  km_new_hash :: string
  km_backup_size :: u64
  km_backup_hash :: string

datatype meta_error =
    MeBadMagic | MeBadPhase | MeMissingField | MeBadHash | BackupTooShort | BackupHashMismatch | BackupEmpty

definition meta_idle :: kernel_meta where
  "meta_idle =
     \<lparr>km_phase = FIdle, km_version = [], km_new_size = 0, km_new_hash = [], km_backup_size = 0, km_backup_hash = []\<rparr>"

definition meta_staged :: "string \<Rightarrow> u64 \<Rightarrow> string \<Rightarrow> kernel_meta" where
  "meta_staged version n h = meta_idle\<lparr>km_phase := FStaged, km_version := version, km_new_size := n, km_new_hash := h\<rparr>"

definition needs_recovery :: "kernel_meta \<Rightarrow> bool" where
  "needs_recovery m \<longleftrightarrow>
     (km_phase m = FApplying \<or> km_phase m = FBackupReady) \<and> km_backup_size m > 0 \<and> length (km_backup_hash m) = 64"

definition meta_linea :: "string \<Rightarrow> bool \<times> kernel_meta \<Rightarrow> meta_error + bool \<times> kernel_meta" where
  "meta_linea l sm =
     (let (saw, m) = sm in
      if l = [] then Inr (saw, m)
      else if l = KERNEL_META_MAGIC then Inr (True, m)
      else if \<not> saw then Inl MeBadMagic
      else case strip_prefix ''phase='' l of
        Some v \<Rightarrow> res_bind (ok_or (phase_parse v) MeBadPhase) (\<lambda>p. Inr (saw, m\<lparr>km_phase := p\<rparr>)) | None \<Rightarrow>
      case strip_prefix ''version='' l of Some v \<Rightarrow> Inr (saw, m\<lparr>km_version := v\<rparr>) | None \<Rightarrow>
      case strip_prefix ''new_size='' l of
        Some v \<Rightarrow> res_bind (ok_or (parse_word v) MeMissingField) (\<lambda>n. Inr (saw, m\<lparr>km_new_size := n\<rparr>)) | None \<Rightarrow>
      case strip_prefix ''new_hash='' l of Some v \<Rightarrow> Inr (saw, m\<lparr>km_new_hash := v\<rparr>) | None \<Rightarrow>
      case strip_prefix ''backup_size='' l of
        Some v \<Rightarrow> res_bind (ok_or (parse_word v) MeMissingField) (\<lambda>n. Inr (saw, m\<lparr>km_backup_size := n\<rparr>)) | None \<Rightarrow>
      case strip_prefix ''backup_hash='' l of Some v \<Rightarrow> Inr (saw, m\<lparr>km_backup_hash := v\<rparr>) | None \<Rightarrow>
      Inr (saw, m))"

fun meta_loop :: "string list \<Rightarrow> bool \<times> kernel_meta \<Rightarrow> meta_error + bool \<times> kernel_meta" where
  "meta_loop [] sm = Inr sm"
| "meta_loop (l # ls) sm = res_bind (meta_linea l sm) (meta_loop ls)"

definition meta_parse :: "string \<Rightarrow> meta_error + kernel_meta" where
  "meta_parse texto =
     res_bind (meta_loop (tlines texto) (False, meta_idle)) (\<lambda>(saw, m). if saw then Inr m else Inl MeBadMagic)"

definition meta_body :: "kernel_meta \<Rightarrow> string" where
  "meta_body m =
     KERNEL_META_MAGIC @ [NL] @ ''phase='' @ phase_str (km_phase m) @ [NL] @
     (if km_version m = [] then [] else ''version='' @ km_version m @ [NL]) @
     (if km_new_size m > 0 then ''new_size='' @ show_word (km_new_size m) @ [NL] else []) @
     (if km_new_hash m = [] then [] else ''new_hash='' @ km_new_hash m @ [NL]) @
     (if km_backup_size m > 0 then ''backup_size='' @ show_word (km_backup_size m) @ [NL] else []) @
     (if km_backup_hash m = [] then [] else ''backup_hash='' @ km_backup_hash m @ [NL])"

definition meta_format :: "kernel_meta \<Rightarrow> bytes" where
  "meta_format m =
     (let out = meta_body m
      in if length out > KERNEL_META_SIZE then take KERNEL_META_SIZE out
         else out @ replicate (KERNEL_META_SIZE - length out) NL)"

definition verify_new_kernel :: "(bytes \<Rightarrow> hash256) \<Rightarrow> kernel_meta \<Rightarrow> bytes \<Rightarrow> meta_error + unit" where
  "verify_new_kernel sha m datos =
     (if km_new_size m = 0 \<or> length datos < unat (km_new_size m) then Inl MeMissingField
      else if decode_hex_sha256 (km_new_hash m) = None then Inl MeBadHash
      else if hex_sha256 sha (take (unat (km_new_size m)) datos) \<noteq> km_new_hash m then Inl MeBadHash
      else Inr ())"

definition verify_backup :: "(bytes \<Rightarrow> hash256) \<Rightarrow> kernel_meta \<Rightarrow> bytes \<Rightarrow> meta_error + bytes" where
  "verify_backup sha m hueco =
     (if km_backup_size m = 0 then Inl BackupEmpty
      else if length hueco < unat (km_backup_size m) then Inl BackupTooShort
      else if decode_hex_sha256 (km_backup_hash m) = None then Inl MeBadHash
      else if hex_sha256 sha (take (unat (km_backup_size m)) hueco) \<noteq> km_backup_hash m then Inl BackupHashMismatch
      else Inr (take (unat (km_backup_size m)) hueco))"

definition backup_digest :: "(bytes \<Rightarrow> hash256) \<Rightarrow> bytes \<Rightarrow> u64 \<times> string" where
  "backup_digest sha datos = (of_nat (length datos), hex_sha256 sha datos)"

section \<open>Applying a kernel (kernel\_apply.rs)\<close>

datatype after_interrupt = RecoverBackup | CompleteProbandoMailbox string | ContinueMailbox

definition tras_interrupcion :: "kernel_meta \<Rightarrow> mailbox_cmd \<Rightarrow> after_interrupt" where
  "tras_interrupcion m cmd =
     (if needs_recovery m then RecoverBackup
      else if km_phase m = FProbando
        then (case cmd of
            MKernel _ _ _ \<Rightarrow> CompleteProbandoMailbox (km_version m)
          | MIdle \<Rightarrow> CompleteProbandoMailbox (km_version m)
          | _ \<Rightarrow> ContinueMailbox)
      else ContinueMailbox)"

datatype apply_error = InvalidSize | HashMismatch | ApMeta meta_error

definition sha256_eq :: "(bytes \<Rightarrow> hash256) \<Rightarrow> bytes \<Rightarrow> u64 \<Rightarrow> hash256 \<Rightarrow> bool" where
  "sha256_eq sha datos n expect \<longleftrightarrow> sha (take (unat n) datos) = expect"

definition verify_staged_kernel :: "(bytes \<Rightarrow> hash256) \<Rightarrow> bytes \<Rightarrow> u64 \<Rightarrow> string \<Rightarrow> apply_error + unit" where
  "verify_staged_kernel sha datos n hash_hex =
     (if n = 0 \<or> length datos < unat n then Inl InvalidSize
      else res_bind (ok_or (decode_hex_sha256 hash_hex) HashMismatch)
        (\<lambda>expect. if sha256_eq sha datos n expect then Inr () else Inl HashMismatch))"

record apply_plan =
  ap_backup :: bytes
  ap_backup_size :: u64
  ap_backup_hash :: string
  ap_new_kernel :: bytes
  ap_meta_after_backup :: kernel_meta
  ap_meta_probando :: kernel_meta

definition plan_apply ::
  "(bytes \<Rightarrow> hash256) \<Rightarrow> bytes \<Rightarrow> bytes \<Rightarrow> u64 \<Rightarrow> string \<Rightarrow> string \<Rightarrow> apply_error + apply_plan" where
  "plan_apply sha old staged n hash_hex version =
     res_bind (verify_staged_kernel sha staged n hash_hex) (\<lambda>_.
       let (backup_size, backup_hash) = backup_digest sha old;
           meta = (meta_staged version n hash_hex)\<lparr>km_phase := FBackupReady, km_backup_size := backup_size,
             km_backup_hash := backup_hash\<rparr>
       in Inr \<lparr>ap_backup = old, ap_backup_size = backup_size, ap_backup_hash = backup_hash,
            ap_new_kernel = take (unat n) staged, ap_meta_after_backup = meta,
            ap_meta_probando = meta\<lparr>km_phase := FProbando\<rparr>\<rparr>)"

definition restore_from_slot :: "(bytes \<Rightarrow> hash256) \<Rightarrow> bytes \<Rightarrow> kernel_meta \<Rightarrow> apply_error + bytes" where
  "restore_from_slot sha hueco m = map_err ApMeta (verify_backup sha m hueco)"

section \<open>What an installation lacks (migracion.rs)\<close>

record hueco =
  hu_nombre :: string
  hu_tamano :: nat
  hu_imprescindible :: bool
  hu_para :: string

definition HUECOS :: "hueco list" where
  "HUECOS =
     [\<lparr>hu_nombre = ''SOSOTXN.BIN'', hu_tamano = BOOTREC_SIZE, hu_imprescindible = True,
       hu_para = ''la decisi'' @ [CHR 0xC3, CHR 0xB3] @ ''n durable de la pareja kernel+rootfs''\<rparr>,
      \<lparr>hu_nombre = ''SOSOKRN.BIN'', hu_tamano = UPD_KERNEL_SLOT_SIZE, hu_imprescindible = True,
       hu_para = ''el kernel nuevo y, despu'' @ [CHR 0xC3, CHR 0xA9] @ ''s, la copia del anterior''\<rparr>,
      \<lparr>hu_nombre = ''SOSOKRN.MET'', hu_tamano = KERNEL_META_SIZE, hu_imprescindible = True,
       hu_para = ''en qu'' @ [CHR 0xC3, CHR 0xA9] @ '' fase se qued'' @ [CHR 0xC3, CHR 0xB3] @
         '' una actualizaci'' @ [CHR 0xC3, CHR 0xB3] @ ''n de kernel cortada''\<rparr>,
      \<lparr>hu_nombre = ''SOSOUPD.TXT'', hu_tamano = 4096, hu_imprescindible = True,
       hu_para = ''el buz'' @ [CHR 0xC3, CHR 0xB3] @ ''n entre el cliente, el shim y init''\<rparr>,
      \<lparr>hu_nombre = ''SOSOMODE.TXT'', hu_tamano = MODE_SIZE, hu_imprescindible = False,
       hu_para = ''la identidad live/instalado que el kernel lee al arrancar''\<rparr>]"

datatype estado_hueco = Listo | HuAusente | Inservible

record inventario =
  in_huecos :: "estado_hueco list"
  in_formato_registro :: "u16 option"
  in_entrada_rescate :: bool
  in_log_fat :: bool
  in_es_live :: bool

datatype falta = FaltaHueco string estado_hueco string | RegistroSinPuntos u16 | EntradaRescate | LogEnFat

definition bloquea :: "falta \<Rightarrow> bool" where
  "bloquea f \<longleftrightarrow> (case f of FaltaHueco _ _ _ \<Rightarrow> True | _ \<Rightarrow> False)"

definition estado_de :: "inventario \<Rightarrow> nat \<Rightarrow> estado_hueco" where
  "estado_de iv i = (if i < length (in_huecos iv) then in_huecos iv ! i else HuAusente)"

definition diagnosticar :: "inventario \<Rightarrow> falta list" where
  "diagnosticar iv =
     concat (map (\<lambda>(i, h).
         if estado_de iv i \<noteq> Listo \<and> hu_imprescindible h
         then [FaltaHueco (hu_nombre h) (estado_de iv i) (hu_para h)] else []) (enumerate 0 HUECOS)) @
     (case in_formato_registro iv of
        None \<Rightarrow> [] | Some f \<Rightarrow> if f < BOOTREC_FORMATO then [RegistroSinPuntos f] else []) @
     (if \<not> in_entrada_rescate iv \<and> \<not> in_es_live iv then [EntradaRescate] else []) @
     (if in_log_fat iv \<and> \<not> in_es_live iv then [LogEnFat] else [])"

definition admite_recuperable :: "falta list \<Rightarrow> bool" where
  "admite_recuperable fs \<longleftrightarrow> \<not> list_ex bloquea fs"

section \<open>Round trip of the mailbox\<close>

primrec buzon_cuerpo :: "mailbox_cmd \<Rightarrow> string" where
  "buzon_cuerpo MIdle = []"
| "buzon_cuerpo (MKernel n h v) = ''KERNEL '' @ show_word n @ '' '' @ h @ '' '' @ v"
| "buzon_cuerpo (MProbando v) = ''PROBANDO '' @ v"
| "buzon_cuerpo (MOk v) = ''OK '' @ v"
| "buzon_cuerpo MRevertir = ''REVERTIR''"
| "buzon_cuerpo (MRevertido v) = ''REVERTIDO '' @ v"

text \<open>What each writer of the mailbox produces.\<close>

primrec buzon_format :: "mailbox_cmd \<Rightarrow> bytes" where
  "buzon_format MIdle = format_idle"
| "buzon_format (MKernel n h v) = format_kernel n h v"
| "buzon_format (MProbando v) = format_probando v"
| "buzon_format (MOk v) = format_ok v"
| "buzon_format MRevertir = format_revertir"
| "buzon_format (MRevertido v) = format_revertido v"

primrec buzon_ok :: "mailbox_cmd \<Rightarrow> bool" where
  "buzon_ok MIdle = True"
| "buzon_ok (MKernel n h v) = (palabra_ok h \<and> palabra_ok v)"
| "buzon_ok (MProbando v) = palabra_ok v"
| "buzon_ok (MOk v) = palabra_ok v"
| "buzon_ok MRevertir = True"
| "buzon_ok (MRevertido v) = palabra_ok v"

lemma buzon_format_cuerpo: "buzon_format c = format_payload (buzon_cuerpo c)"
  by (cases c) (simp_all add: format_idle_def format_kernel_def format_probando_def format_ok_def format_revertir_def
      format_revertido_def)

lemma palabras_buzon: "palabra_ok ''KERNEL''" "palabra_ok ''PROBANDO''" "palabra_ok ''OK''" "palabra_ok ''REVERTIR''" "palabra_ok ''REVERTIDO''"
  by (simp_all add: palabra_ascii)

lemma trim_palabra: "palabra_ok w \<Longrightarrow> trim w = w"
  using palabras_fija [of "[w]"] by (simp add: fija_def)

lemma palabra_sin_espacio: "palabra_ok w \<Longrightarrow> CHR '' '' \<notin> set w"
  by (auto simp: palabra_ok_def list_all_iff ws_seqs_def)

lemma buzon_fija: "buzon_ok c \<Longrightarrow> fija (buzon_cuerpo c)"
proof -
  assume ok: "buzon_ok c"
  have "\<exists>ws. list_all palabra_ok ws \<and> ws \<noteq> [] \<and> buzon_cuerpo c = join '' '' ws" if "c \<noteq> MIdle"
  proof (cases c)
    case (MKernel n h v)
    then show ?thesis using ok palabras_buzon by (intro exI [of _ "[''KERNEL'', show_word n, h, v]"]) simp
  next
    case (MProbando v)
    then show ?thesis using ok palabras_buzon by (intro exI [of _ "[''PROBANDO'', v]"]) simp
  next
    case (MOk v)
    then show ?thesis using ok palabras_buzon by (intro exI [of _ "[''OK'', v]"]) simp
  next
    case MRevertir
    then show ?thesis using palabras_buzon by (intro exI [of _ "[''REVERTIR'']"]) simp
  next
    case (MRevertido v)
    then show ?thesis using ok palabras_buzon by (intro exI [of _ "[''REVERTIDO'', v]"]) simp
  qed (use that in simp)
  then show ?thesis using palabras_fija by (cases "c = MIdle") (auto simp: fija_def)
qed

lemma mailbox_linea_cuerpo: "buzon_ok c \<Longrightarrow> mailbox_linea (buzon_cuerpo c) MIdle = c"
proof (cases c)
  case (MKernel n h v)
  assume "buzon_ok c"
  then have "palabra_ok h" using MKernel by simp
  then have "CHR '' '' \<notin> set h" "CHR '' '' \<notin> set (show_word n)" using palabra_sin_espacio palabra_show by auto
  then show ?thesis by (simp add: MKernel mailbox_linea_def MAILBOX_MAGIC_def)
qed (auto simp: mailbox_linea_def MAILBOX_MAGIC_def trim_palabra)

text \<open>(\<open>Mailbox\<close>): every command written by the client, the shim or init that fits in the mailbox reads
  back as itself from the padded 4096 bytes.\<close>

theorem buzon_ida_y_vuelta:
  assumes "buzon_ok c" "length (buzon_cuerpo c) + 12 \<le> UPD_MAILBOX_SIZE"
  shows "mailbox_parse (buzon_format c) = c \<and> length (buzon_format c) = UPD_MAILBOX_SIZE"
proof -
  define ls where "ls = (if buzon_cuerpo c = [] then [] else [buzon_cuerpo c])"
  obtain n where f: "buzon_format c = unlines ([MAILBOX_MAGIC] @ ls @ replicate n [])"
  proof -
    have "\<exists>n. buzon_format c = unlines ([MAILBOX_MAGIC] @ ls) @ replicate n NL"
      using assms(2) by (auto simp: buzon_format_cuerpo format_payload_def Let_def ls_def MAILBOX_MAGIC_def)
    moreover have "replicate n NL = unlines (replicate n [])" for n by (induction n) simp_all
    ultimately show thesis using that by auto
  qed
  have m: "fija MAILBOX_MAGIC" by code_simp
  have "tlines (buzon_format c) = map trim ([MAILBOX_MAGIC] @ ls @ replicate n [])"
    unfolding f using m buzon_fija [OF assms(1)] by (intro tlines_unlines) (auto simp: fija_def ls_def split: if_splits)
  then have t: "tlines (buzon_format c) = [MAILBOX_MAGIC] @ ls @ replicate n []"
    using m buzon_fija [OF assms(1)] by (simp add: fija_def ls_def)
  have r: "fold mailbox_linea (replicate n []) x = x" for x by (induction n) (simp_all add: mailbox_linea_def)
  have "mailbox_linea [] x = x" "mailbox_linea MAILBOX_MAGIC x = x" for x by (simp_all add: mailbox_linea_def)
  moreover from this have "fold mailbox_linea ls MIdle = c"
    using mailbox_linea_cuerpo [OF assms(1)] by (cases "buzon_cuerpo c = []") (simp_all add: ls_def)
  ultimately have "mailbox_parse (buzon_format c) = c" by (simp only: mailbox_parse_def t fold_append comp_apply fold_simps r)
  then show ?thesis by (simp add: buzon_format_cuerpo format_payload_def Let_def)
qed

theorem buzon_ida_y_vuelta_witness: "mailbox_parse (buzon_format (MKernel 77 ''ab'' ''1.2.3'')) = MKernel 77 ''ab'' ''1.2.3''"
proof -
  have "show_word (77 :: u64) = ''77''" by code_simp
  then show ?thesis
    using buzon_ida_y_vuelta [of "MKernel 77 ''ab'' ''1.2.3''"] by (simp add: palabra_ascii UPD_MAILBOX_SIZE_def)
qed

section \<open>Round trip of the metadata\<close>

definition meta_ok :: "kernel_meta \<Rightarrow> bool" where
  "meta_ok m \<longleftrightarrow> valor_ok (km_version m) \<and> valor_ok (km_new_hash m) \<and> valor_ok (km_backup_hash m) \<and>
     length (meta_body m) \<le> KERNEL_META_SIZE"

definition meta_lineas :: "kernel_meta \<Rightarrow> string list" where
  "meta_lineas m =
     [KERNEL_META_MAGIC, ''phase='' @ phase_str (km_phase m)] @
     (if km_version m = [] then [] else [''version='' @ km_version m]) @
     (if km_new_size m > 0 then [''new_size='' @ show_word (km_new_size m)] else []) @
     (if km_new_hash m = [] then [] else [''new_hash='' @ km_new_hash m]) @
     (if km_backup_size m > 0 then [''backup_size='' @ show_word (km_backup_size m)] else []) @
     (if km_backup_hash m = [] then [] else [''backup_hash='' @ km_backup_hash m])"

lemma meta_body_lineas: "meta_body m = unlines (meta_lineas m)"
  by (simp add: meta_body_def meta_lineas_def)

lemma phase_valor: "valor_ok (phase_str p)" "phase_parse (phase_str p) = Some p"
proof -
  have "palabra_ok (phase_str p)" by (cases p) (simp_all add: palabra_ascii)
  then show "valor_ok (phase_str p)" by (rule valor_palabra)
  show "phase_parse (phase_str p) = Some p" by (cases p) (simp_all add: phase_parse_def)
qed

lemma meta_lineas_fijas: "meta_ok m \<Longrightarrow> list_all fija (meta_lineas m)"
proof -
  assume "meta_ok m"
  moreover have "fija KERNEL_META_MAGIC" by code_simp
  ultimately show ?thesis
    using fija_clave [of "''phase''"] fija_clave [of "''version''"] fija_clave [of "''new_size''"] fija_clave [of "''new_hash''"]
      fija_clave [of "''backup_size''"] fija_clave [of "''backup_hash''"]
    by (simp add: meta_lineas_def meta_ok_def phase_valor valor_show)
qed

lemma meta_loop_append: "meta_loop (a @ b) sm = res_bind (meta_loop a sm) (meta_loop b)"
proof (induction a arbitrary: sm)
  case (Cons l a)
  then show ?case by (cases "meta_linea l sm") simp_all
qed simp

lemma meta_loop_lineas: "meta_loop (meta_lineas m) (False, meta_idle) = Inr (True, m)"
  by (cases m) (auto simp: meta_lineas_def meta_linea_def KERNEL_META_MAGIC_def phase_valor meta_idle_def word_gt_0)

lemma meta_loop_vacias: "meta_loop (replicate n []) sm = Inr sm"
  by (induction n) (simp_all add: meta_linea_def split_beta)

lemma meta_parse_format:
  assumes ok: "meta_ok m"
  shows "meta_parse (meta_format m) = Inr m"
proof -
  obtain n where f: "meta_format m = unlines (meta_lineas m @ replicate n [])"
  proof -
    have "replicate n NL = unlines (replicate n [])" for n by (induction n) simp_all
    then show thesis using that ok by (auto simp: meta_format_def meta_ok_def meta_body_lineas Let_def)
  qed
  have "tlines (meta_format m) = map trim (meta_lineas m @ replicate n [])"
    unfolding f using meta_lineas_fijas [OF ok] by (intro tlines_unlines) (auto simp: list_all_iff fija_def)
  then have "tlines (meta_format m) = meta_lineas m @ replicate n []"
    using meta_lineas_fijas [OF ok] by (simp add: list_all_iff fija_def map_idI)
  then show ?thesis by (simp add: meta_parse_def meta_loop_append meta_loop_lineas meta_loop_vacias)
qed

section \<open>Recovering the kernel\<close>

text \<open>C31 (\<open>plan_apply\<close>, \<open>SOSOKRN.MET\<close> and \<open>restore_from_slot\<close>): once the backup and its metadata are
  written, the metadata read back asks for a recovery, and the recovery returns the previous kernel
  byte for byte, whatever the rest of the slot holds.  The new kernel is the verified prefix of what
  was staged.\<close>

theorem respaldo_recuperable:
  assumes "plan_apply sha old staged n h v = Inr p" "\<And>d. length (sha d) = 32"
    and "old \<noteq> []" "length old < 2 ^ 64" "meta_ok (ap_meta_after_backup p)"
  shows "\<exists>m. meta_parse (meta_format (ap_meta_after_backup p)) = Inr m \<and> needs_recovery m \<and>
    (\<forall>cola. restore_from_slot sha (ap_backup p @ cola) m = Inr old) \<and>
    (\<exists>e. decode_hex_sha256 h = Some e \<and> sha (ap_new_kernel p) = e \<and> length (ap_new_kernel p) = unat n)"
proof -
  define m where "m = ap_meta_after_backup p"
  have st: "verify_staged_kernel sha staged n h = Inr ()" using assms(1) by (simp add: plan_apply_def)
  then have p: "ap_backup p = old" "ap_new_kernel p = take (unat n) staged" "km_phase m = FBackupReady"
    "km_backup_size m = of_nat (length old)" "km_backup_hash m = hex_sha256 sha old"
    using assms(1) by (auto simp: plan_apply_def backup_digest_def m_def Let_def meta_staged_def)
  have sz: "unat (km_backup_size m) = length old" using p(4) assms(4) by (simp add: unat_of_nat)
  then have "km_backup_size m > 0" using assms(3) by (simp add: word_less_nat_alt)
  moreover have "length (hex_sha256 sha old) = 64" using assms(2) by (simp add: hex_sha256_def)
  moreover have "decode_hex_sha256 (hex_sha256 sha old) = Some (sha old)" using decode_encode assms(2) by (simp add: hex_sha256_def)
  ultimately have "needs_recovery m" "restore_from_slot sha (ap_backup p @ cola) m = Inr old" for cola
    using p sz by (simp_all add: needs_recovery_def restore_from_slot_def verify_backup_def)
  moreover have "meta_parse (meta_format m) = Inr m" using assms(5) meta_parse_format by (simp add: m_def)
  moreover have "\<exists>e. decode_hex_sha256 h = Some e \<and> sha (ap_new_kernel p) = e \<and> length (ap_new_kernel p) = unat n"
    using st p(2) by (auto simp: verify_staged_kernel_def sha256_eq_def not_less min_def split: if_splits)
  ultimately show ?thesis unfolding m_def by blast
qed

theorem respaldo_recuperable_witness:
  "\<exists>p m. plan_apply (\<lambda>_. replicate 32 0) ''old'' ''nuevo'' 5 (hex_encode (replicate 32 0)) ''1.0'' = Inr p \<and>
     meta_parse (meta_format (ap_meta_after_backup p)) = Inr m \<and>
     restore_from_slot (\<lambda>_. replicate 32 0) (''old'' @ ''nuevo'') m = Inr ''old''"
proof -
  have hx: "hex_encode (replicate 32 0) = replicate 64 CHR ''0''" by code_simp
  have sw: "show_word (5 :: u64) = ''5''" "show_word (3 :: u64) = ''3''" by code_simp+
  define p where "p = projr (plan_apply (\<lambda>_. replicate 32 0) ''old'' ''nuevo'' 5 (hex_encode (replicate 32 0)) ''1.0'')"
  have r: "plan_apply (\<lambda>_. replicate 32 0) ''old'' ''nuevo'' 5 (hex_encode (replicate 32 0)) ''1.0'' = Inr p"
    using decode_encode [of "replicate 32 0"]
    by (simp add: p_def plan_apply_def verify_staged_kernel_def sha256_eq_def Let_def split_beta)
  have m: "ap_backup p = ''old''" "ap_meta_after_backup p = \<lparr>km_phase = FBackupReady, km_version = ''1.0'', km_new_size = 5,
      km_new_hash = replicate 64 CHR ''0'', km_backup_size = 3, km_backup_hash = replicate 64 CHR ''0''\<rparr>"
    using r decode_encode [of "replicate 32 0"]
    by (auto simp: plan_apply_def backup_digest_def meta_staged_def meta_idle_def hex_sha256_def hx Let_def)
  have "palabra_ok (replicate 64 CHR ''0'')" by (simp add: palabra_ascii list_all_iff)
  then have "meta_ok (ap_meta_after_backup p)"
    unfolding m(2) meta_ok_def by (simp add: valor_palabra palabra_ascii meta_body_def KERNEL_META_SIZE_def KERNEL_META_MAGIC_def sw)
  from respaldo_recuperable [OF r _ _ _ this] show ?thesis unfolding m(1) using r by auto
qed

text \<open>\<open>after_interrupt\<close>: after a cut, the backup is restored exactly while the kernel file may be half
  written; once the metadata says that the new kernel is on trial, a mailbox that still asks for it
  is completed and never applied again; in every other case the mailbox decides.\<close>

theorem tras_interrupcion_iff:
  "(tras_interrupcion m c = RecoverBackup \<longleftrightarrow> needs_recovery m) \<and>
   (tras_interrupcion m c = CompleteProbandoMailbox v \<longleftrightarrow>
      km_phase m = FProbando \<and> v = km_version m \<and> (c = MIdle \<or> (\<exists>n h w. c = MKernel n h w)))"
  by (cases c) (auto simp: tras_interrupcion_def needs_recovery_def)

text \<open>\<open>diagnosticar\<close> and \<open>admite_recuperable\<close>: a recoverable update is promised exactly when the four
  indispensable slots of the ESP are ready; neither the format of the boot record, nor the rescue
  entry, nor the log in FAT blocks it.\<close>

theorem admite_recuperable_iff:
  "admite_recuperable (diagnosticar iv) \<longleftrightarrow>
     estado_de iv 0 = Listo \<and> estado_de iv 1 = Listo \<and> estado_de iv 2 = Listo \<and> estado_de iv 3 = Listo"
  by (auto simp: admite_recuperable_def diagnosticar_def HUECOS_def bloquea_def eval_nat_numeral split: option.splits)

end
