(* ===== verification/Cerrojo.thy ===== *)
theory Cerrojo
  imports Paquete
begin

text \<open>
  The exclusion of writers while an update exists (kernel/src/drivers/txnlock.rs) and the system call
  that reaches it (\<open>sys_txn_lock\<close> of kernel/src/task/syscall.rs).  The static \<open>EXCL\<close> behind its mutex is
  the record \<open>exclusion\<close>, read and returned by every operation; \<open>task::exists\<close> is the predicate
  \<open>existe\<close>, and the free blocks of the file system (\<open>libres\<close>) are an argument.  Error numbers are the
  negative integers that the kernel returns.  The second half runs any sequence of calls of any
  processes, with births and deaths in between, and shows what the exclusion guarantees.
\<close>

section \<open>The exclusion\<close>

definition EINVAL :: int where "EINVAL = 22"
definition ENOSPC :: int where "ENOSPC = 28"
definition EBUSY :: int where "EBUSY = 16"
definition EROFS :: int where "EROFS = 30"

definition TXN_LOCK_TOMAR :: u64 where "TXN_LOCK_TOMAR = 1"
definition TXN_LOCK_ARMADO :: u64 where "TXN_LOCK_ARMADO = 2"
definition TXN_LOCK_SOLTAR :: u64 where "TXN_LOCK_SOLTAR = 3"
definition TXN_LOCK_ESTADO :: u64 where "TXN_LOCK_ESTADO = 4"
definition TXN_LOCK_LIBRE :: u64 where "TXN_LOCK_LIBRE = 0"
definition TXN_LOCK_MIA :: u64 where "TXN_LOCK_MIA = 1"
definition TXN_LOCK_AJENA :: u64 where "TXN_LOCK_AJENA = 2"
definition TXN_LOCK_ARMADA :: u64 where "TXN_LOCK_ARMADA = 3"

datatype estado_excl = Libre | Dueno u64 | Armada

record exclusion =
  ex_estado :: estado_excl
  ex_reserva :: u64

definition excl_inicial :: exclusion where
  "excl_inicial = \<lparr>ex_estado = Libre, ex_reserva = 0\<rparr>"

definition excl_vigente :: "(u64 \<Rightarrow> bool) \<Rightarrow> exclusion \<Rightarrow> exclusion" where
  "excl_vigente existe e =
     (case ex_estado e of
        Dueno pid \<Rightarrow> if \<not> existe pid then e\<lparr>ex_estado := Libre, ex_reserva := 0\<rparr> else e
      | _ \<Rightarrow> e)"

definition cerrojo_tomar :: "(u64 \<Rightarrow> bool) \<Rightarrow> u64 \<Rightarrow> u64 \<Rightarrow> exclusion \<Rightarrow> (int + unit) \<times> exclusion" where
  "cerrojo_tomar existe pid reserva e0 =
     (let e = excl_vigente existe e0 in
      case ex_estado e of
        Libre \<Rightarrow> (Inr (), e\<lparr>ex_estado := Dueno pid, ex_reserva := reserva\<rparr>)
      | Dueno d \<Rightarrow> if d = pid then (Inr (), e\<lparr>ex_reserva := reserva\<rparr>) else (Inl (- EBUSY), e)
      | Armada \<Rightarrow> (Inl (- EBUSY), e))"

definition cerrojo_armado :: "(u64 \<Rightarrow> bool) \<Rightarrow> u64 \<Rightarrow> exclusion \<Rightarrow> (int + unit) \<times> exclusion" where
  "cerrojo_armado existe pid e0 =
     (let e = excl_vigente existe e0 in
      case ex_estado e of
        Dueno d \<Rightarrow> if d = pid then (Inr (), e\<lparr>ex_estado := Armada\<rparr>) else (Inl (- EBUSY), e)
      | Armada \<Rightarrow> (Inr (), e)
      | Libre \<Rightarrow> (Inl (- EBUSY), e))"

definition cerrojo_soltar :: "(u64 \<Rightarrow> bool) \<Rightarrow> u64 \<Rightarrow> exclusion \<Rightarrow> (int + unit) \<times> exclusion" where
  "cerrojo_soltar existe pid e0 =
     (let e = excl_vigente existe e0 in
      case ex_estado e of
        Dueno d \<Rightarrow> if d = pid then (Inr (), e\<lparr>ex_estado := Libre, ex_reserva := 0\<rparr>) else (Inl (- EBUSY), e)
      | Libre \<Rightarrow> (Inr (), e)
      | Armada \<Rightarrow> (Inl (- EBUSY), e))"

definition cerrojo_kernel_toma :: "exclusion \<Rightarrow> exclusion" where
  "cerrojo_kernel_toma e = e\<lparr>ex_estado := Armada, ex_reserva := 0\<rparr>"

definition cerrojo_kernel_libera :: "exclusion \<Rightarrow> exclusion" where
  "cerrojo_kernel_libera e = e\<lparr>ex_estado := Libre, ex_reserva := 0\<rparr>"

definition cerrojo_estado :: "(u64 \<Rightarrow> bool) \<Rightarrow> u64 \<Rightarrow> exclusion \<Rightarrow> u64 \<times> exclusion" where
  "cerrojo_estado existe pid e0 =
     (let e = excl_vigente existe e0 in
      (case ex_estado e of
         Libre \<Rightarrow> TXN_LOCK_LIBRE
       | Dueno d \<Rightarrow> if d = pid then TXN_LOCK_MIA else TXN_LOCK_AJENA
       | Armada \<Rightarrow> TXN_LOCK_ARMADA, e))"

definition comprobar_escritura ::
  "(u64 \<Rightarrow> bool) \<Rightarrow> u64 \<Rightarrow> u64 \<Rightarrow> string \<Rightarrow> exclusion \<Rightarrow> (int + unit) \<times> exclusion" where
  "comprobar_escritura existe libres pid ruta e0 =
     (let e = excl_vigente existe e0 in
      if ex_estado e = Libre \<or> ex_estado e = Dueno pid then (Inr (), e)
      else if es_administrada ruta then (Inl (- EROFS), e)
      else if ex_reserva e > 0 \<and> libres < ex_reserva e then (Inl (- ENOSPC), e)
      else (Inr (), e))"

definition comprobar_ruta_administrada :: "(u64 \<Rightarrow> bool) \<Rightarrow> u64 \<Rightarrow> exclusion \<Rightarrow> (int + unit) \<times> exclusion" where
  "comprobar_ruta_administrada existe pid e0 =
     (let e = excl_vigente existe e0 in
      case ex_estado e of
        Libre \<Rightarrow> (Inr (), e)
      | Dueno d \<Rightarrow> if d = pid then (Inr (), e) else (Inl (- EROFS), e)
      | Armada \<Rightarrow> (Inl (- EROFS), e))"

definition sys_txn_lock :: "(u64 \<Rightarrow> bool) \<Rightarrow> u64 \<Rightarrow> u64 \<Rightarrow> u64 \<Rightarrow> exclusion \<Rightarrow> (int + u64) \<times> exclusion" where
  "sys_txn_lock existe pid op reserva e =
     (if op = TXN_LOCK_TOMAR then apfst (map_sum id (\<lambda>_. 0)) (cerrojo_tomar existe pid reserva e)
      else if op = TXN_LOCK_ARMADO then apfst (map_sum id (\<lambda>_. 0)) (cerrojo_armado existe pid e)
      else if op = TXN_LOCK_SOLTAR then apfst (map_sum id (\<lambda>_. 0)) (cerrojo_soltar existe pid e)
      else if op = TXN_LOCK_ESTADO then apfst Inr (cerrojo_estado existe pid e)
      else (Inl (- EINVAL), e))"

definition sigue_pudiendo_publicar :: "(u64 \<Rightarrow> bool) \<Rightarrow> u64 \<Rightarrow> bool \<Rightarrow> exclusion \<Rightarrow> (int + unit) \<times> exclusion" where
  "sigue_pudiendo_publicar existe pid protegida e =
     (if \<not> protegida then (Inr (), e) else comprobar_ruta_administrada existe pid e)"

section \<open>Runs\<close>

text \<open>The processes that exist, the free blocks and the exclusion; and what may happen: a live
  process calls the kernel or asks to write, processes are born and die, the free space changes, and
  the kernel itself takes or frees the exclusion around the trial of a new version.\<close>

record nucleo =
  nu_vivos :: "u64 list"
  nu_libres :: u64
  nu_excl :: exclusion

abbreviation existe_en :: "nucleo \<Rightarrow> u64 \<Rightarrow> bool" where
  "existe_en s p \<equiv> p \<in> set (nu_vivos s)"

datatype suceso =
  Llama u64 u64 u64
  | Escribe u64 string
  | Nace u64
  | Muere u64
  | Espacio u64
  | KernelToma
  | KernelLibera

inductive cerrojo_paso :: "nucleo \<Rightarrow> suceso \<Rightarrow> nucleo \<Rightarrow> bool" where
  llama: "existe_en s p \<Longrightarrow> sys_txn_lock (existe_en s) p op n (nu_excl s) = (r, e) \<Longrightarrow>
    cerrojo_paso s (Llama p op n) (s\<lparr>nu_excl := e\<rparr>)"
| escribe: "existe_en s p \<Longrightarrow> comprobar_escritura (existe_en s) (nu_libres s) p ruta (nu_excl s) = (r, e) \<Longrightarrow>
    cerrojo_paso s (Escribe p ruta) (s\<lparr>nu_excl := e\<rparr>)"
| nace: "cerrojo_paso s (Nace p) (s\<lparr>nu_vivos := p # nu_vivos s\<rparr>)"
| muere: "cerrojo_paso s (Muere p) (s\<lparr>nu_vivos := removeAll p (nu_vivos s)\<rparr>)"
| espacio: "cerrojo_paso s (Espacio n) (s\<lparr>nu_libres := n\<rparr>)"
| toma: "cerrojo_paso s KernelToma (s\<lparr>nu_excl := cerrojo_kernel_toma (nu_excl s)\<rparr>)"
| libera: "cerrojo_paso s KernelLibera (s\<lparr>nu_excl := cerrojo_kernel_libera (nu_excl s)\<rparr>)"

inductive_cases llama_cases: "cerrojo_paso s (Llama p op n) t"
inductive_cases escribe_cases: "cerrojo_paso s (Escribe p ruta) t"

inductive cerrojo_run :: "nucleo \<Rightarrow> suceso list \<Rightarrow> nucleo \<Rightarrow> bool" where
  fin: "cerrojo_run s [] s"
| sigue: "cerrojo_paso s ev t \<Longrightarrow> cerrojo_run t evs u \<Longrightarrow> cerrojo_run s (ev # evs) u"

lemmas cerrojo_defs = excl_vigente_def cerrojo_tomar_def cerrojo_armado_def cerrojo_soltar_def
  cerrojo_estado_def comprobar_escritura_def sys_txn_lock_def Let_def

text \<open>The events that cannot take the exclusion away from its holder: for an armed one, everything
  but the kernel; for the one of a process, its own calls and its death too.\<close>

definition no_la_quita :: "estado_excl \<Rightarrow> suceso \<Rightarrow> bool" where
  "no_la_quita st ev \<longleftrightarrow>
     (case ev of
        KernelLibera \<Rightarrow> False
      | KernelToma \<Rightarrow> st = Armada
      | Muere p \<Rightarrow> st \<noteq> Dueno p
      | Llama p op _ \<Rightarrow> st \<noteq> Dueno p \<or> op \<notin> {TXN_LOCK_ARMADO, TXN_LOCK_SOLTAR}
      | _ \<Rightarrow> True)"

definition la_tiene :: "estado_excl \<Rightarrow> nucleo \<Rightarrow> bool" where
  "la_tiene st s \<longleftrightarrow> ex_estado (nu_excl s) = st \<and> st \<noteq> Libre \<and> (\<forall>p. st = Dueno p \<longrightarrow> existe_en s p)"

lemma paso_la_conserva:
  assumes "cerrojo_paso s ev t" "la_tiene st s" "no_la_quita st ev"
  shows "la_tiene st t"
  using assms
proof (cases rule: cerrojo_paso.cases)
  case (llama p op n r e)
  have "ex_estado e = st"
    using llama assms(2,3)
    by (auto simp: cerrojo_defs la_tiene_def no_la_quita_def split: if_splits estado_excl.splits)
  then show ?thesis using llama assms(2) by (simp add: la_tiene_def)
next
  case (escribe p ruta r e)
  then have "ex_estado e = st"
    using assms(2) by (auto simp: cerrojo_defs la_tiene_def split: if_splits estado_excl.splits)
  then show ?thesis using escribe assms(2) by (simp add: la_tiene_def)
qed (auto simp: la_tiene_def no_la_quita_def cerrojo_kernel_toma_def)

lemma run_la_conserva:
  "cerrojo_run s evs t \<Longrightarrow> la_tiene st s \<Longrightarrow> list_all (no_la_quita st) evs \<Longrightarrow> la_tiene st t"
  by (induction rule: cerrojo_run.induct) (auto intro: paso_la_conserva)

lemma vigente_la_tiene: "la_tiene st s \<Longrightarrow> excl_vigente (existe_en s) (nu_excl s) = nu_excl s"
  by (auto simp: la_tiene_def excl_vigente_def split: estado_excl.splits)

section \<open>Properties\<close>

text \<open>C17 (\<open>txnlock\<close>, armed): once an operation is armed, no sequence of calls, births, deaths and writes
  of any processes takes the exclusion away; only the kernel frees it.  Meanwhile every process is
  refused every managed path, both when it opens it and when it publishes a file that it had opened
  before, and nobody can start another operation.\<close>

theorem cerrojo_armada_protege:
  assumes "cerrojo_run s evs t" "ex_estado (nu_excl s) = Armada" "KernelLibera \<notin> set evs"
  shows "ex_estado (nu_excl t) = Armada \<and>
    (es_administrada ruta \<longrightarrow>
       fst (comprobar_escritura (existe_en t) (nu_libres t) p ruta (nu_excl t)) = Inl (- EROFS) \<and>
       fst (sigue_pudiendo_publicar (existe_en t) p (es_administrada ruta) (nu_excl t)) = Inl (- EROFS)) \<and>
    fst (sys_txn_lock (existe_en t) p TXN_LOCK_TOMAR n (nu_excl t)) = Inl (- EBUSY) \<and>
    fst (sys_txn_lock (existe_en t) p TXN_LOCK_SOLTAR n (nu_excl t)) = Inl (- EBUSY)"
proof -
  have "la_tiene Armada t"
  proof (rule run_la_conserva [OF assms(1)])
    show "la_tiene Armada s" using assms(2) by (simp add: la_tiene_def)
    show "list_all (no_la_quita Armada) evs"
      using assms(3) by (auto simp: list_all_iff no_la_quita_def split: suceso.splits)
  qed
  then show ?thesis
    by (auto simp: la_tiene_def sigue_pudiendo_publicar_def comprobar_ruta_administrada_def cerrojo_defs
        TXN_LOCK_TOMAR_def TXN_LOCK_SOLTAR_def TXN_LOCK_ARMADO_def)
qed

theorem cerrojo_armada_protege_witness:
  "\<exists>t. cerrojo_run \<lparr>nu_vivos = [7], nu_libres = 10, nu_excl = \<lparr>ex_estado = Armada, ex_reserva = 4\<rparr>\<rparr>
      [Muere 7, Nace 8] t \<and> fst (comprobar_escritura (existe_en t) (nu_libres t) 8 ''/bin/sosh'' (nu_excl t)) = Inl (- EROFS)"
proof -
  let ?s = "\<lparr>nu_vivos = [7], nu_libres = 10, nu_excl = \<lparr>ex_estado = Armada, ex_reserva = 4\<rparr>\<rparr>"
  let ?t = "\<lparr>nu_vivos = [8], nu_libres = 10, nu_excl = \<lparr>ex_estado = Armada, ex_reserva = 4\<rparr>\<rparr>"
  have "cerrojo_run ?s [Muere 7, Nace 8] ?t"
    using cerrojo_paso.muere [of ?s 7] cerrojo_paso.nace [of "?s\<lparr>nu_vivos := []\<rparr>" 8]
    by (auto intro: cerrojo_run.intros)
  moreover have "es_administrada ''/bin/sosh''" by code_simp
  ultimately show ?thesis
    using cerrojo_armada_protege [of ?s "[Muere 7, Nace 8]" ?t "''/bin/sosh''" 8 0] by auto
qed

text \<open>C18 (\<open>txnlock\<close>, owner): while the process that took the exclusion lives and does not give it up, no
  other process takes it, and on the managed paths only the owner writes.  If the owner dies without
  arming, the exclusion does not outlive it: every process can write again and take it.\<close>

theorem cerrojo_exclusivo:
  assumes "cerrojo_run s evs t" "ex_estado (nu_excl s) = Dueno p" "existe_en s p"
    and "list_all (no_la_quita (Dueno p)) evs" "q \<noteq> p"
  shows "ex_estado (nu_excl t) = Dueno p \<and>
    fst (comprobar_escritura (existe_en t) (nu_libres t) p ruta (nu_excl t)) = Inr () \<and>
    (es_administrada ruta \<longrightarrow> fst (comprobar_escritura (existe_en t) (nu_libres t) q ruta (nu_excl t)) = Inl (- EROFS)) \<and>
    fst (sys_txn_lock (existe_en t) q TXN_LOCK_TOMAR n (nu_excl t)) = Inl (- EBUSY) \<and>
    (cerrojo_paso t (Muere p) u \<longrightarrow>
       fst (comprobar_escritura (existe_en u) (nu_libres u) q ruta (nu_excl u)) = Inr () \<and>
       fst (sys_txn_lock (existe_en u) q TXN_LOCK_TOMAR n (nu_excl u)) = Inr 0)"
proof -
  have "la_tiene (Dueno p) t"
    using assms by (intro run_la_conserva [OF assms(1)]) (simp_all add: la_tiene_def)
  then show ?thesis
    using assms(5) by (auto simp: la_tiene_def cerrojo_defs TXN_LOCK_TOMAR_def elim: cerrojo_paso.cases)
qed

theorem cerrojo_exclusivo_witness:
  "\<exists>t. cerrojo_run \<lparr>nu_vivos = [7, 8], nu_libres = 10, nu_excl = \<lparr>ex_estado = Dueno 7, ex_reserva = 4\<rparr>\<rparr>
      [Llama 8 TXN_LOCK_SOLTAR 0] t \<and>
    fst (comprobar_escritura (existe_en t) (nu_libres t) 8 ''/bin/sosh'' (nu_excl t)) = Inl (- EROFS)"
proof -
  let ?s = "\<lparr>nu_vivos = [7, 8], nu_libres = 10, nu_excl = \<lparr>ex_estado = Dueno 7, ex_reserva = 4\<rparr>\<rparr>"
  have "sys_txn_lock (existe_en ?s) 8 TXN_LOCK_SOLTAR 0 (nu_excl ?s) = (Inl (- EBUSY), nu_excl ?s)"
    by (simp add: cerrojo_defs TXN_LOCK_TOMAR_def TXN_LOCK_SOLTAR_def TXN_LOCK_ARMADO_def)
  then have "cerrojo_run ?s [Llama 8 TXN_LOCK_SOLTAR 0] ?s"
    using cerrojo_paso.llama [of 8 ?s TXN_LOCK_SOLTAR 0 "Inl (- EBUSY)" "nu_excl ?s"]
    by (auto intro: cerrojo_run.intros)
  moreover have "es_administrada ''/bin/sosh''" by code_simp
  moreover have "no_la_quita (Dueno 7) (Llama 8 TXN_LOCK_SOLTAR 0)" by (simp add: no_la_quita_def)
  ultimately show ?thesis
    using cerrojo_exclusivo [of ?s "[Llama 8 TXN_LOCK_SOLTAR 0]" ?s 7 8 "''/bin/sosh''" 0] by auto
qed

end
