(* ===== verification/Armado.thy ===== *)
theory Armado
  imports Cliente Kernel_Esp Cerrojo
begin

text \<open>
  The commit of the update client (user/soso-update/src/main.rs): the restore point of the installed
  version, the journal of the operation, the new kernel in its slot of the ESP and the boot record
  that arms the operation (\<open>preparar_punto\<close>, \<open>apply_kernel\<close>, \<open>armar\<close>), and the request to go back
  (\<open>cmd_revertir\<close>).  The slots of the ESP are written through kernel/src/drivers/updslot.rs, sector by
  sector, with the power of the machine.  The last part puts the client before the recoverer: what
  \<open>armar\<close> leaves is a pair that the recoverer completes.
\<close>

section \<open>Slots of the ESP\<close>

definition ENOENT :: int where "ENOENT = 2"
definition EIO :: int where "EIO = 5"
definition ENOTSUP :: int where "ENOTSUP = 95"

definition UPD_WHICH_MAILBOX :: u64 where "UPD_WHICH_MAILBOX = 0"
definition UPD_WHICH_KERNEL :: u64 where "UPD_WHICH_KERNEL = 1"
definition UPD_WHICH_META :: u64 where "UPD_WHICH_META = 2"
definition UPD_WHICH_TXN :: u64 where "UPD_WHICH_TXN = 3"
definition UPD_WHICH_MODE :: u64 where "UPD_WHICH_MODE = 4"

text \<open>The machine with the other slots that the client writes, each absent or with its bytes, and
  whether an absent one exists as an unusable file (\<open>falta\<close>).\<close>

record puesto =
  pu_m :: maquina
  pu_buzon :: "bytes option"
  pu_kernel :: "bytes option"
  pu_meta :: "bytes option"
  pu_modo :: "bytes option"
  pu_existe :: "u64 \<Rightarrow> bool"

definition slot_for :: "u64 \<Rightarrow> puesto \<Rightarrow> int + bytes" where
  "slot_for which q =
     (let encontrado = (if which = UPD_WHICH_MAILBOX then pu_buzon q
            else if which = UPD_WHICH_KERNEL then pu_kernel q
            else if which = UPD_WHICH_TXN then m_esp (pu_m q)
            else if which = UPD_WHICH_MODE then pu_modo q
            else pu_meta q)
      in if which \<notin> {UPD_WHICH_MAILBOX, UPD_WHICH_KERNEL, UPD_WHICH_TXN, UPD_WHICH_MODE, UPD_WHICH_META} then Inl (- EINVAL)
         else ok_or encontrado (if pu_existe q which then - ENOTSUP else - ENOENT))"

definition max_size :: "u64 \<Rightarrow> nat" where
  "max_size which =
     (if which = UPD_WHICH_MAILBOX then UPD_MAILBOX_SIZE
      else if which = UPD_WHICH_KERNEL then UPD_KERNEL_SLOT_SIZE
      else if which = UPD_WHICH_META then KERNEL_META_SIZE
      else if which = UPD_WHICH_TXN then BOOTREC_SIZE else MODE_SIZE)"

definition poner :: "u64 \<Rightarrow> bytes option \<Rightarrow> puesto \<Rightarrow> puesto" where
  "poner which b q =
     (if which = UPD_WHICH_MAILBOX then q\<lparr>pu_buzon := b\<rparr>
      else if which = UPD_WHICH_KERNEL then q\<lparr>pu_kernel := b\<rparr>
      else if which = UPD_WHICH_TXN then q\<lparr>pu_m := (pu_m q)\<lparr>m_esp := b\<rparr>\<rparr>
      else if which = UPD_WHICH_MODE then q\<lparr>pu_modo := b\<rparr>
      else q\<lparr>pu_meta := b\<rparr>)"

definition upd_write :: "u64 \<Rightarrow> nat \<Rightarrow> bytes \<Rightarrow> puesto \<Rightarrow> (int + unit) \<times> puesto" where
  "upd_write which off datos q =
     (if datos = [] then (Inr (), q)
      else if off mod SECTOR \<noteq> 0 \<or> length datos mod SECTOR \<noteq> 0 then (Inl (- EINVAL), q)
      else case slot_for which q of
          Inl e \<Rightarrow> (Inl e, q)
        | Inr buf \<Rightarrow>
            if off + length datos > max_size which then (Inl (- EINVAL), q)
            else let m = pu_m q;
                     m' = escribir_sectores (m\<lparr>m_esp := Some buf\<rparr>) off (chunks SECTOR datos)
                 in (if 0 < m_energia m' then Inr () else Inl (- EIO),
                     poner which (m_esp m') (q\<lparr>pu_m := m'\<lparr>m_esp := m_esp m\<rparr>\<rparr>)))"

section \<open>The restore point\<close>

definition PUNTO_MAX :: nat where "PUNTO_MAX = 256 * 1024"

text \<open>\<open>AlmacenSoso\<close>: the store of restore points on the root file system, with the free space that the
  client read when it started.\<close>

definition almacen_soso :: "(bytes \<Rightarrow> u32) \<Rightarrow> u64 \<Rightarrow> maquina almacen_ops" where
  "almacen_soso crc espacio =
     \<lparr>leer_sistema = (\<lambda>m ruta. case m_ficheros m (''/'' @ ruta) of
          None \<Rightarrow> None | Some d \<Rightarrow> read_file_bytes m (''/'' @ ruta) (length d + 1)),
      guardar_copia = (\<lambda>m i ruta datos. escribir m (dir_punto i @ ''/respaldo/'' @ ruta) datos),
      releer_copia = (\<lambda>m i ruta. case m_ficheros m (dir_punto i @ ''/respaldo/'' @ ruta) of
          None \<Rightarrow> None | Some d \<Rightarrow> read_file_bytes m (dir_punto i @ ''/respaldo/'' @ ruta) (length d + 1)),
      guardar_punto = (\<lambda>m p. escribir (vfs_unlink m (dir_punto (p_id p) @ ''/punto.rec'')) (dir_punto (p_id p) @ ''/punto.rec'')
          (punto_format crc p)),
      borrar_punto = (\<lambda>m i. (True, vfs_unlink m (dir_punto i @ ''/punto.rec''))),
      espacio_libre = (\<lambda>_. espacio)\<rparr>"

definition verificar_punto :: "(bytes \<Rightarrow> u32) \<Rightarrow> (bytes \<Rightarrow> hash256) \<Rightarrow> punto \<Rightarrow> maquina \<Rightarrow> fallo + unit" where
  "verificar_punto crc sha p m =
     verificar sha \<lparr>s_leer = (\<lambda>m d ruta. case d of
           DeRespaldo \<Rightarrow> releer_copia (almacen_soso crc 0) m (p_id p) ruta | DePreparado \<Rightarrow> None),
         s_escribir = (\<lambda>m _ _. (True, m)), s_borrar = (\<lambda>m _. (True, m)), s_guardar_diario = (\<lambda>m _. (True, m))\<rparr> p m"

definition puntos_guardados :: "(bytes \<Rightarrow> u32) \<Rightarrow> maquina \<Rightarrow> punto list" where
  "puntos_guardados crc m =
     (case m_base m of
        None \<Rightarrow> []
      | Some nombres \<Rightarrow>
          List.map_filter (\<lambda>n.
            if n = ''.'' \<or> n = ''..'' \<or> n = [] then None
            else case read_file_bytes m (DIR_BASE @ ''/'' @ n @ ''/punto.rec'') PUNTO_MAX of
                None \<Rightarrow> None
              | Some d \<Rightarrow> (case punto_parse crc d of Inl _ \<Rightarrow> None | Inr p \<Rightarrow> Some p)) nombres)"

definition preparar_punto ::
  "(bytes \<Rightarrow> u32) \<Rightarrow> (bytes \<Rightarrow> hash256) \<Rightarrow> u64 \<Rightarrow> string \<Rightarrow> manifest \<Rightarrow> file_entry list \<Rightarrow> maquina
     \<Rightarrow> (crear_error + punto) \<times> maquina" where
  "preparar_punto crc sha espacio guid_esp man cambian m =
     (let actual = read_release m;
          version = (case actual of Some r \<Rightarrow> ri_version r | None \<Rightarrow> ''desconocida'');
          build = (case actual of Some r \<Rightarrow> ri_build r | None \<Rightarrow> []);
          kernel_hash = (case actual of Some r \<Rightarrow> ri_kernel r | None \<Rightarrow> []);
          cambios = map (\<lambda>f. Trae (f_path f)) cambian @ [Trae ''etc/soso-release''];
          i = from_manifest sha (manifest_format man)
      in crear_punto sha (almacen_soso crc espacio) i version build guid_esp \<lparr>c_size = 0, c_hash = kernel_hash\<rparr> cambios m)"

section \<open>The new kernel\<close>

definition CHUNK :: nat where "CHUNK = 64 * 1024"

definition pad_sector :: "bytes \<Rightarrow> bytes" where
  "pad_sector chunk =
     (let rem = length chunk mod SECTOR
      in if rem \<noteq> 0 then chunk @ replicate (SECTOR - rem) (CHR 0x00) else chunk)"

datatype kernel_error = KLectura | KCorrupto | KHueco | KEscritura | KMeta | KBuzon

function kernel_loop :: "bytes \<Rightarrow> nat \<Rightarrow> puesto \<Rightarrow> (kernel_error + unit) \<times> puesto" where
  "kernel_loop datos off q =
     (if off < length datos
      then let fin = min (off + CHUNK) (length datos) in
        case upd_write UPD_WHICH_KERNEL off (pad_sector (take (fin - off) (drop off datos))) q of
          (Inl e, q') \<Rightarrow> (Inl (if e = - ENOTSUP then KHueco else KEscritura), q')
        | (Inr _, q') \<Rightarrow> kernel_loop datos fin q'
      else (Inr (), q))"
  by pat_completeness auto
termination by (relation "measure (\<lambda>(datos, off, _). length datos - off)") (auto simp: CHUNK_def)

declare kernel_loop.simps [simp del]

definition apply_kernel ::
  "(bytes \<Rightarrow> hash256) \<Rightarrow> bytes option \<Rightarrow> manifest \<Rightarrow> puesto \<Rightarrow> (kernel_error + unit) \<times> puesto" where
  "apply_kernel sha descarga man q =
     (if mn_kernel_hash man \<noteq> [] \<and> map_option ri_kernel (read_release (pu_m q)) = Some (mn_kernel_hash man)
      then (Inr (), q)
      else case descarga of
          None \<Rightarrow> (Inl KLectura, q)
        | Some datos \<Rightarrow>
            if of_nat (length datos) \<noteq> mn_kernel_size man \<or> hex_sha256 sha datos \<noteq> mn_kernel_hash man
            then (Inl KCorrupto, q)
            else case kernel_loop datos 0 q of
                (Inl e, q1) \<Rightarrow> (Inl e, q1)
              | (Inr _, q1) \<Rightarrow>
                  (case upd_write UPD_WHICH_META 0
                      (meta_format (meta_staged (mn_version_raw man) (mn_kernel_size man) (mn_kernel_hash man))) q1 of
                     (r, q2) \<Rightarrow>
                       if (case r of Inl e \<Rightarrow> e \<noteq> - ENOTSUP | Inr _ \<Rightarrow> False) then (Inl KMeta, q2)
                       else (case upd_write UPD_WHICH_MAILBOX 0
                           (format_kernel (mn_kernel_size man) (hex_sha256 sha datos) (mn_version_raw man)) q2 of
                          (Inl _, q3) \<Rightarrow> (Inl KBuzon, q3)
                        | (Inr _, q3) \<Rightarrow> (Inr (), q3))))"

section \<open>Arming the operation\<close>

definition seq_diario_existente :: "(bytes \<Rightarrow> u32) \<Rightarrow> txn_id \<Rightarrow> maquina \<Rightarrow> u64" where
  "seq_diario_existente crc i m =
     fold (\<lambda>n mayor.
       case read_file_bytes m (dir_punto i @ ''/diario.'' @ show_nat n) PUNTO_MAX of
         None \<Rightarrow> mayor
       | Some d \<Rightarrow> (case journal_parse crc d of Inl _ \<Rightarrow> mayor | Inr j \<Rightarrow> max mayor (j_seq j))) [0, 1] 0"

definition guardar_diario :: "(bytes \<Rightarrow> u32) \<Rightarrow> journal \<Rightarrow> maquina \<Rightarrow> bool \<times> maquina" where
  "guardar_diario crc j m = escribir m (dir_punto (j_id j) @ ''/diario.'' @ show_word (j_seq j mod 2)) (journal_format crc j)"

definition leer_bootrec_actual :: "(bytes \<Rightarrow> u32) \<Rightarrow> maquina \<Rightarrow> boot_record option" where
  "leer_bootrec_actual crc m =
     (case m_esp m of
        None \<Rightarrow> None
      | Some buf \<Rightarrow> if \<not> m_esp_legible m then None
          else (case bootrec_pick crc buf of Inl _ \<Rightarrow> None | Inr r \<Rightarrow> Some r))"

definition siguiente_seq_bootrec :: "(bytes \<Rightarrow> u32) \<Rightarrow> maquina \<Rightarrow> u64" where
  "siguiente_seq_bootrec crc m = (case leer_bootrec_actual crc m of Some r \<Rightarrow> b_seq r + 1 | None \<Rightarrow> 1)"

definition publicar_bootrec :: "(bytes \<Rightarrow> u32) \<Rightarrow> boot_record \<Rightarrow> puesto \<Rightarrow> bool \<times> puesto" where
  "publicar_bootrec crc rec q =
     (case bootrec_format crc rec of
        Inl _ \<Rightarrow> (False, q)
      | Inr bs \<Rightarrow> apfst is_ok (upd_write UPD_WHICH_TXN (bootrec_ranura rec * SLOT_SIZE) bs q))"

text \<open>\<open>borrar_arbol\<close>: what is below a directory goes entry by entry, from the inside out, and the directory last; the
  results are ignored.\<close>

definition borrar_arbol :: "string \<Rightarrow> maquina \<Rightarrow> maquina" where
  "borrar_arbol ruta m =
     fold (\<lambda>p m. vfs_unlink m p) (filter (starts_with (ruta @ ''/'')) (m_arbol m) @ [ruta]) m"

definition recoger_puntos :: "(bytes \<Rightarrow> u32) \<Rightarrow> txn_id list \<Rightarrow> maquina \<Rightarrow> maquina" where
  "recoger_puntos crc refs m =
     fold (\<lambda>i. borrar_arbol (dir_punto i)) (a_recoger (map p_id (puntos_guardados crc m)) refs) m"

definition respaldo_de :: "punto \<Rightarrow> string \<Rightarrow> contenido option" where
  "respaldo_de p ruta = Option.bind (find (\<lambda>e. e_path e = ruta) (p_entradas p)) e_respaldo"

definition entrada_de :: "punto \<Rightarrow> string \<Rightarrow> contenido \<Rightarrow> entrada" where
  "entrada_de p ruta nuevo =
     \<lparr>e_accion = (if respaldo_de p ruta \<noteq> None then Reemplazar else Crear), e_progreso = Respaldado,
      e_path = ruta, e_nuevo = Some nuevo, e_respaldo = respaldo_de p ruta\<rparr>"

definition version_instalada :: "maquina \<Rightarrow> string" where
  "version_instalada m = (case read_release m of Some r \<Rightarrow> ri_version r | None \<Rightarrow> ''desconocida'')"

definition diario_de ::
  "(bytes \<Rightarrow> hash256) \<Rightarrow> manifest \<Rightarrow> file_entry list \<Rightarrow> punto \<Rightarrow> string \<Rightarrow> string \<Rightarrow> u64 \<Rightarrow> journal" where
  "diario_de sha man cambian p anterior release seq =
     (journal_nuevo (p_id p) (mn_version_raw man) anterior)
       \<lparr>j_kernel_nuevo := Some \<lparr>c_size = mn_kernel_size man, c_hash = mn_kernel_hash man\<rparr>,
        j_kernel_anterior := (if length (c_hash (p_kernel p)) = 64 then Some (p_kernel p) else None),
        j_entradas := map (\<lambda>f. entrada_de p (f_path f) \<lparr>c_size = f_size f, c_hash = f_hash_hex f\<rparr>) cambian @
          [entrada_de p ''etc/soso-release'' \<lparr>c_size = of_nat (length release), c_hash = hex_sha256 sha release\<rparr>],
        j_seq := seq, j_estado := Preparado\<rparr>"

datatype armar_error = ArVersion | ArIncoherente journal_error | ArDiario | ArKernel | ArRegistro

text \<open>The three parts of \<open>armar\<close>: everything that completing or undoing needs, durable in the root file
  system; the kernel; and the point of commitment in the ESP.\<close>

definition armar_diario ::
  "(bytes \<Rightarrow> u32) \<Rightarrow> (bytes \<Rightarrow> hash256) \<Rightarrow> bool \<Rightarrow> manifest \<Rightarrow> string \<Rightarrow> file_entry list \<Rightarrow> punto \<Rightarrow> maquina
     \<Rightarrow> (armar_error + journal) \<times> maquina" where
  "armar_diario crc sha sin_kernel man etapa cambian p m =
     (let release = texto_release man sin_kernel (read_release m) in
      case escribir m (etapa @ ''/etc/soso-release'') release of (ok1, m1) \<Rightarrow>
      if \<not> ok1 then (Inl ArVersion, m1)
      else
        let j = diario_de sha man cambian p (version_instalada m) release (seq_diario_existente crc (p_id p) m1 + 1) in
        case journal_validate j of
          Inl e \<Rightarrow> (Inl (ArIncoherente e), m1)
        | Inr _ \<Rightarrow> (case guardar_diario crc j m1 of (ok2, m2) \<Rightarrow> (if ok2 then Inr j else Inl ArDiario, m2)))"

definition armar_registro :: "(bytes \<Rightarrow> u32) \<Rightarrow> journal \<Rightarrow> puesto \<Rightarrow> (armar_error + unit) \<times> puesto" where
  "armar_registro crc j q =
     (let i = j_id j;
          previo = leer_bootrec_actual crc (pu_m q);
          rec = con_punto (bootrec_nuevo DArmado i (j_version_nueva j) (j_version_anterior j)
                  (siguiente_seq_bootrec crc (pu_m q))) i in
      case publicar_bootrec crc rec q of (ok1, q1) \<Rightarrow>
      if \<not> ok1 then (Inl ArRegistro, q1)
      else
        (case guardar_diario crc (j\<lparr>j_seq := j_seq j + 1, j_estado := Armado\<rparr>) (pu_m q1) of (ok2, m2) \<Rightarrow>
         if \<not> ok2 then (Inl ArDiario, q1\<lparr>pu_m := m2\<rparr>)
         else
           let refs = (case Option.bind previo b_punto of
                 Some x \<Rightarrow> if x \<in> set [i] then [i] else [i, x] | None \<Rightarrow> [i])
           in (Inr (), q1\<lparr>pu_m := recoger_puntos crc refs m2\<rparr>)))"

definition armar ::
  "(bytes \<Rightarrow> u32) \<Rightarrow> (bytes \<Rightarrow> hash256) \<Rightarrow> bool \<Rightarrow> bytes option \<Rightarrow> manifest \<Rightarrow> string \<Rightarrow> file_entry list \<Rightarrow> punto \<Rightarrow> puesto
     \<Rightarrow> (armar_error + unit) \<times> puesto" where
  "armar crc sha sin_kernel descarga man etapa cambian p q =
     (case armar_diario crc sha sin_kernel man etapa cambian p (pu_m q) of
        (Inl e, m1) \<Rightarrow> (Inl e, q\<lparr>pu_m := m1\<rparr>)
      | (Inr j, m1) \<Rightarrow>
          (case (if sin_kernel then (Inr (), q\<lparr>pu_m := m1\<rparr>) else apply_kernel sha descarga man (q\<lparr>pu_m := m1\<rparr>)) of
             (Inl _, q2) \<Rightarrow> (Inl ArKernel, q2)
           | (Inr _, q2) \<Rightarrow> armar_registro crc j q2))"

section \<open>The request to go back\<close>

definition elegir_punto :: "(bytes \<Rightarrow> u32) \<Rightarrow> maquina \<Rightarrow> punto list \<Rightarrow> punto option" where
  "elegir_punto crc m puntos =
     (if puntos = [] then None
      else case Option.bind (leer_bootrec_actual crc m) b_punto of
          Some x \<Rightarrow> (case find (\<lambda>p. p_id p = x) puntos of
              Some p \<Rightarrow> Some p
            | None \<Rightarrow> if length puntos = 1 then Some (hd puntos) else None)
        | None \<Rightarrow> if length puntos = 1 then Some (hd puntos) else None)"

definition cmd_revertir :: "(bytes \<Rightarrow> u32) \<Rightarrow> (bytes \<Rightarrow> hash256) \<Rightarrow> bool \<Rightarrow> puesto \<Rightarrow> nat \<times> puesto" where
  "cmd_revertir crc sha confirma q =
     (case elegir_punto crc (pu_m q) (puntos_guardados crc (pu_m q)) of
        None \<Rightarrow> (1, q)
      | Some p \<Rightarrow>
          (case verificar_punto crc sha p (pu_m q) of
             Inl _ \<Rightarrow> (1, q)
           | Inr _ \<Rightarrow>
               if \<not> confirma then (0, q)
               else
                 let rec = con_punto (bootrec_nuevo DRescatar (p_id p) (version_instalada (pu_m q)) (p_version p)
                       (siguiente_seq_bootrec crc (pu_m q))) (p_id p)
                 in (case publicar_bootrec crc rec q of (ok, q1) \<Rightarrow>
                       if \<not> ok then (1, q1)
                       else (0, snd (upd_write UPD_WHICH_MAILBOX 0 format_revertir q1)))))"

section \<open>Slots\<close>

definition solo_esp :: "maquina \<Rightarrow> maquina \<Rightarrow> bool" where
  "solo_esp m m' \<longleftrightarrow> m' = m\<lparr>m_esp := m_esp m', m_energia := m_energia m'\<rparr> \<and> m_energia m' \<le> m_energia m"

lemma solo_esp_trans: "solo_esp a b \<Longrightarrow> solo_esp b c \<Longrightarrow> solo_esp a c"
  by (cases a, cases b, cases c) (auto simp: solo_esp_def)

lemma escribir_sectores_marco: "solo_esp m (escribir_sectores m off ts)"
proof (induction ts arbitrary: m off)
  case (Cons t ts)
  have "solo_esp m (esp_escribir m off t)"
    by (auto simp: solo_esp_def esp_escribir_def Let_def split: option.splits)
  moreover have "solo_esp (esp_escribir m off t) (escribir_sectores (esp_escribir m off t) (off + SECTOR) ts)"
    by (rule Cons)
  ultimately show ?case by (simp add: solo_esp_trans)
qed (simp add: solo_esp_def)

definition misma_maquina :: "maquina \<Rightarrow> maquina \<Rightarrow> bool" where
  "misma_maquina m m' \<longleftrightarrow> m' = m\<lparr>m_energia := m_energia m'\<rparr> \<and> m_energia m' \<le> m_energia m"

lemma misma_maquina_refl [simp]: "misma_maquina m m"
  by (simp add: misma_maquina_def)

lemma misma_maquina_trans: "misma_maquina a b \<Longrightarrow> misma_maquina b c \<Longrightarrow> misma_maquina a c"
  unfolding misma_maquina_def by (metis (no_types, lifting) le_trans maquina.update_convs(7) maquina.surjective maquina.select_convs(7))

lemma solo_esp_repone: "solo_esp (m\<lparr>m_esp := x\<rparr>) m' \<Longrightarrow> misma_maquina m (m'\<lparr>m_esp := m_esp m\<rparr>)"
  by (cases m, cases m') (auto simp: solo_esp_def misma_maquina_def)

lemma upd_write_marco:
  assumes "upd_write which off datos q = (r, q')" "which \<noteq> UPD_WHICH_TXN"
  shows "misma_maquina (pu_m q) (pu_m q')"
  using assms solo_esp_repone [OF escribir_sectores_marco]
  by (auto simp: upd_write_def poner_def Let_def split: if_splits sum.splits)

lemma kernel_loop_marco:
  "kernel_loop datos off q = (r, q') \<Longrightarrow> misma_maquina (pu_m q) (pu_m q')"
proof (induction datos off q rule: kernel_loop.induct)
  case (1 datos off q)
  show ?case
  proof (cases "off < length datos")
    case False
    then show ?thesis using 1(2) by (simp add: kernel_loop.simps)
  next
    case True
    define fin where "fin = min (off + CHUNK) (length datos)"
    obtain s q1 where u: "upd_write UPD_WHICH_KERNEL off (pad_sector (take (fin - off) (drop off datos))) q = (s, q1)"
      by fastforce
    have m1: "misma_maquina (pu_m q) (pu_m q1)"
      using upd_write_marco [OF u] by (simp add: UPD_WHICH_KERNEL_def UPD_WHICH_TXN_def)
    have r: "kernel_loop datos off q = (case s of
        Inl e \<Rightarrow> (Inl (if e = - ENOTSUP then KHueco else KEscritura), q1) | Inr _ \<Rightarrow> kernel_loop datos fin q1)"
      using True u by (subst kernel_loop.simps) (cases s; simp add: fin_def)
    show ?thesis
    proof (cases s)
      case (Inl e)
      then show ?thesis using r 1(2) m1 by simp
    next
      case (Inr u)
      then have "misma_maquina (pu_m q1) (pu_m q')"
        using 1(1) [OF True refl _ _] 1(2) u r by (simp add: fin_def)
      then show ?thesis using m1 by (blast intro: misma_maquina_trans)
    qed
  qed
qed

lemma apply_kernel_marco:
  assumes "apply_kernel sha descarga man q = (r, q')"
  shows "misma_maquina (pu_m q) (pu_m q')"
proof -
  have w: "UPD_WHICH_META \<noteq> UPD_WHICH_TXN" "UPD_WHICH_MAILBOX \<noteq> UPD_WHICH_TXN"
    by (simp_all add: UPD_WHICH_META_def UPD_WHICH_TXN_def UPD_WHICH_MAILBOX_def)
  show ?thesis
    using assms
    by (auto simp: apply_kernel_def split: if_splits option.splits sum.splits prod.splits
        dest!: upd_write_marco [OF _ w(1)] upd_write_marco [OF _ w(2)] kernel_loop_marco
        intro: misma_maquina_trans)
qed

section \<open>The boot record is published\<close>

text \<open>The ESP before the operation: readable slots with a record in force, or none that reads.\<close>

definition esp_lista :: "(bytes \<Rightarrow> u32) \<Rightarrow> maquina \<Rightarrow> boot_record option \<Rightarrow> bool" where
  "esp_lista crc m previo \<longleftrightarrow> m_esp_legible m \<and> (\<exists>slots. m_esp m = Some (concat slots) \<and> ranuras_ok slots \<and>
     (case previo of
        None \<Rightarrow> list_all (\<lambda>s. \<not> is_ok (lee_arranque crc s)) slots
      | Some r \<Rightarrow> b_seq r \<noteq> - 1 \<and> (\<exists>i f. vigente (lee_arranque crc) SLOTS slots i f \<and> bootrec_from_framed f = Inr r)))"

lemma pick_slots_nada:
  assumes "length slots = SLOTS" "list_all (\<lambda>s. \<not> is_ok (lee_arranque crc s)) slots"
  shows "\<exists>e. bootrec_pick_slots crc slots = Inl e"
proof -
  have "pick_con (lee_arranque crc) slots \<noteq> Inr (i, f)" for i f
    using assms by (auto simp: pick_con_iff mejor_ok_def list_all_length is_ok_def)
  then obtain e where "pick_con (lee_arranque crc) slots = Inl e" by (metis old.sum.exhaust surj_pair)
  then show ?thesis by (simp add: bootrec_pick_slots_def record_pick_def)
qed

lemma esp_lista_lee:
  assumes "esp_lista crc m previo"
  shows "leer_bootrec_actual crc m = previo"
proof -
  obtain slots where s: "m_esp m = Some (concat slots)" "ranuras_ok slots" "m_esp_legible m"
    and p: "case previo of None \<Rightarrow> list_all (\<lambda>s. \<not> is_ok (lee_arranque crc s)) slots
      | Some r \<Rightarrow> b_seq r \<noteq> - 1 \<and> (\<exists>i f. vigente (lee_arranque crc) SLOTS slots i f \<and> bootrec_from_framed f = Inr r)"
    using assms by (auto simp: esp_lista_def)
  have pk: "bootrec_pick crc (concat slots) = bootrec_pick_slots crc slots"
    using s(2) by (intro bootrec_pick_concat) (auto simp: ranuras_ok_def)
  show ?thesis
  proof (cases previo)
    case None
    then show ?thesis
      using pick_slots_nada [of slots crc] s p pk by (auto simp: leer_bootrec_actual_def ranuras_ok_def)
  next
    case (Some r)
    then obtain i f where "vigente (lee_arranque crc) SLOTS slots i f" "bootrec_from_framed f = Inr r" using p by auto
    then have "bootrec_pick_slots crc slots = Inr r"
      using arranque.pick_mejor [of slots crc i f] by (auto simp: vigente_def pick_con_iff)
    then show ?thesis using s pk Some by (simp add: leer_bootrec_actual_def)
  qed
qed

lemma concat_ranuras_inj:
  assumes "ranuras_ok a" "ranuras_ok b" "concat a = concat b"
  shows "a = b"
proof -
  have "0 < SLOT_SIZE" by (simp add: SLOT_SIZE_def)
  then have "chunks SLOT_SIZE (concat a) = a" "chunks SLOT_SIZE (concat b) = b"
    using assms(1,2) by (auto simp: ranuras_ok_def intro!: chunks_concat)
  then show ?thesis using assms(3) by metis
qed

definition publicado_en :: "(bytes \<Rightarrow> u32) \<Rightarrow> boot_record \<Rightarrow> maquina \<Rightarrow> maquina" where
  "publicado_en crc r m = escribir_sectores m (bootrec_ranura r * SLOT_SIZE) (chunks SECTOR (bootrec_bytes crc r))"

lemma publicar_bootrec_eq:
  assumes "bootrec_cabe crc r" "m_esp (pu_m q) = Some buf"
  shows "publicar_bootrec crc r q = (0 < m_energia (publicado_en crc r (pu_m q)), q\<lparr>pu_m := publicado_en crc r (pu_m q)\<rparr>)"
proof -
  obtain bs where bs: "bootrec_format crc r = Inr bs" "bootrec_bytes crc r = bs" "length bs = SLOT_SIZE"
    using assms(1) bootrec_format_Inr [of crc r]
    by (auto simp: bootrec_cabe_def bootrec_bytes_def is_ok_def split: sum.splits)
  have "bootrec_ranura r < SLOTS" using ranura_less [of SLOTS] by (simp add: bootrec_ranura_def SLOTS_def)
  then have "bootrec_ranura r * SLOT_SIZE + length bs \<le> max_size UPD_WHICH_TXN" "bs \<noteq> []"
      "length bs mod SECTOR = 0" "bootrec_ranura r * SLOT_SIZE mod SECTOR = 0"
    using bs(3) by (auto simp: max_size_def UPD_WHICH_TXN_def UPD_WHICH_MAILBOX_def UPD_WHICH_KERNEL_def UPD_WHICH_META_def
        BOOTREC_SIZE_def SLOTS_def SLOT_SIZE_def SECTOR_def)
  moreover have nb: "(pu_m q)\<lparr>m_esp := Some buf\<rparr> = pu_m q" by (simp add: assms(2) [symmetric])
  ultimately show ?thesis
    using bs assms(2)
    by (simp add: nb publicar_bootrec_def upd_write_def slot_for_def poner_def Let_def publicado_en_def apfst_def is_ok_def
        UPD_WHICH_TXN_def UPD_WHICH_MAILBOX_def UPD_WHICH_KERNEL_def UPD_WHICH_META_def)
qed

lemma esp_lista_seq:
  assumes "esp_lista crc m previo" "m_esp m = Some (concat slots)" "ranuras_ok slots"
    and "k < SLOTS" "lee_arranque crc (slots ! k) = Inr f"
  shows "fr_seq f < siguiente_seq_bootrec crc m"
proof -
  obtain slots' where s: "m_esp m = Some (concat slots')" "ranuras_ok slots'"
    and p: "case previo of None \<Rightarrow> list_all (\<lambda>s. \<not> is_ok (lee_arranque crc s)) slots'
      | Some r \<Rightarrow> b_seq r \<noteq> - 1 \<and> (\<exists>i f. vigente (lee_arranque crc) SLOTS slots' i f \<and> bootrec_from_framed f = Inr r)"
    using assms(1) by (auto simp: esp_lista_def)
  have eq: "slots' = slots" using s assms(2,3) by (intro concat_ranuras_inj) simp_all
  show ?thesis
  proof (cases previo)
    case None
    then show ?thesis using p assms(3,4,5) by (auto simp: eq list_all_length ranuras_ok_def is_ok_def)
  next
    case (Some r)
    then obtain i g where g: "vigente (lee_arranque crc) SLOTS slots i g" "bootrec_from_framed g = Inr r" "b_seq r \<noteq> - 1"
      using p eq by auto
    then have "fr_seq f \<le> b_seq r" "siguiente_seq_bootrec crc m = b_seq r + 1"
      using assms(4,5) bootrec_from_framed_seq [OF g(2)] esp_lista_lee [OF assms(1)] Some
      by (auto simp: vigente_def mejor_ok_def siguiente_seq_bootrec_def)
    then show ?thesis using word_less_Suc [OF g(3)] by simp
  qed
qed

lemma esp_lista_cambia:
  assumes "esp_lista crc m previo" "m_esp m = Some (concat slots)" "ranuras_ok slots" "k < SLOTS" "length x = SLOT_SIZE"
    and "k = ranura (siguiente_seq_bootrec crc m) SLOTS"
    and "\<not> is_ok (lee_arranque crc x) \<or> lee_arranque crc x = lee_arranque crc (slots ! k)"
    and m': "m_esp m' = Some (concat (slots[k := x]))" "m_esp_legible m' = m_esp_legible m"
  shows "esp_lista crc m' previo"
proof -
  obtain slots' where s: "m_esp m = Some (concat slots')" "ranuras_ok slots'" "m_esp_legible m"
    and p: "case previo of None \<Rightarrow> list_all (\<lambda>s. \<not> is_ok (lee_arranque crc s)) slots'
      | Some r \<Rightarrow> b_seq r \<noteq> - 1 \<and> (\<exists>i f. vigente (lee_arranque crc) SLOTS slots' i f \<and> bootrec_from_framed f = Inr r)"
    using assms(1) by (auto simp: esp_lista_def)
  have eq: "slots' = slots" using s assms(2,3) by (intro concat_ranuras_inj) simp_all
  have ok: "ranuras_ok (slots[k := x])"
    using assms(3,5) set_update_subset_insert [of slots k x] by (auto simp: ranuras_ok_def)
  have "case previo of None \<Rightarrow> list_all (\<lambda>s. \<not> is_ok (lee_arranque crc s)) (slots[k := x])
      | Some r \<Rightarrow> b_seq r \<noteq> - 1 \<and> (\<exists>i f. vigente (lee_arranque crc) SLOTS (slots[k := x]) i f \<and> bootrec_from_framed f = Inr r)"
  proof (cases previo)
    case None
    then show ?thesis
      using p assms(3,4,7) by (auto simp: eq list_all_length nth_list_update ranuras_ok_def is_ok_def)
  next
    case (Some r)
    then obtain i f where f: "vigente (lee_arranque crc) SLOTS slots i f" "bootrec_from_framed f = Inr r" "b_seq r \<noteq> - 1"
      using p eq by auto
    have "k \<noteq> i"
      using arranque.turno_libre [OF f(1)] f(3) bootrec_from_framed_seq [OF f(2)] esp_lista_lee [OF assms(1)] Some assms(6)
      by (simp add: siguiente_seq_bootrec_def)
    then have "mejor_ok (lee_arranque crc) (slots[k := x]) (i, f)"
      using f(1) assms(3,4,7) by (auto simp: vigente_def mejor_ok_def nth_list_update ranuras_ok_def is_ok_def)
    then show ?thesis using f Some by (auto simp: vigente_def)
  qed
  then show ?thesis using m' ok s(3) by (auto simp: esp_lista_def)
qed

lemma publicado_corte:
  assumes e: "esp_lista crc m previo" and cabe: "bootrec_cabe crc r" and seq: "b_seq r = siguiente_seq_bootrec crc m"
    and mez: "mezcla_detectada crc (ranura_esp m (bootrec_ranura r)) (bootrec_bytes crc r)"
    and m': "m' = publicado_en crc r m"
  shows "esp_lista crc m' previo \<or> esp_vigente crc m' r"
    and "vivo m' \<Longrightarrow> esp_vigente crc m' r"
    and "m' = m\<lparr>m_esp := m_esp m', m_energia := m_energia m - 2\<rparr>"
proof -
  define k where "k = bootrec_ranura r"
  define bs where "bs = bootrec_bytes crc r"
  obtain slots where s: "m_esp m = Some (concat slots)" "ranuras_ok slots" "m_esp_legible m"
    using e by (auto simp: esp_lista_def)
  have bs: "bootrec_format crc r = Inr bs" "length bs = SLOT_SIZE" and rok: "bootrec_ok r"
    using cabe bootrec_format_Inr [of crc r]
    by (auto simp: bootrec_cabe_def bs_def bootrec_bytes_def is_ok_def split: sum.splits)
  have k: "k < SLOTS" using ranura_less [of SLOTS] by (simp add: k_def bootrec_ranura_def SLOTS_def)
  note ec = escribir_sectores_corte [OF s(1,2) k bs(2), of m', unfolded k_def bs_def, folded publicado_en_def, OF m', folded k_def bs_def]
  show "m' = m\<lparr>m_esp := m_esp m', m_energia := m_energia m - 2\<rparr>" by (rule ec(2))
  then have leg: "m_esp_legible m' = m_esp_legible m" by (metis maquina.select_convs(5) maquina.surjective maquina.update_convs(4,7))
  obtain n where n: "m_esp m' = Some (concat (slots[k := take n bs @ drop n (slots ! k)]))" "n \<le> SLOT_SIZE"
      "vivo m' \<longrightarrow> n = SLOT_SIZE"
    using ec(1) by blast
  define x where "x = take n bs @ drop n (slots ! k)"
  have sk: "length (slots ! k) = SLOT_SIZE" using s(2) k by (simp add: ranuras_ok_def)
  have lx: "length x = SLOT_SIZE" using sk bs(2) n(2) by (simp add: x_def)
  have nuevo: "esp_vigente crc m' r" if "lee_arranque crc x = lee_arranque crc bs"
  proof -
    define g where "g = \<lparr>fr_formato = b_formato r, fr_seq = b_seq r, fr_body = bootrec_body r\<rparr>"
    have g: "lee_arranque crc x = Inr g" "bootrec_from_framed g = Inr r"
      using that rok bs(1) bootrec_parse_framed bootrec_from_framed_body by (simp_all add: g_def)
    have "fr_seq h < fr_seq g" if "j < SLOTS" "lee_arranque crc (slots ! j) = Inr h" for j h
      using esp_lista_seq [OF e s(1,2) that] seq by (simp add: g_def)
    then have "mejor_ok (lee_arranque crc) (slots[k := x]) (k, g)"
      using g(1) k s(2) by (fastforce simp: mejor_ok_def nth_list_update ranuras_ok_def)
    then have "vigente (lee_arranque crc) SLOTS (slots[k := x]) k g"
      using s(2) by (simp add: vigente_def ranuras_ok_def k_def bootrec_ranura_def g_def)
    moreover have "ranuras_ok (slots[k := x])"
      using s(2) lx set_update_subset_insert [of slots k x] by (auto simp: ranuras_ok_def)
    ultimately show ?thesis using n(1) g(2) leg s(3) cabe by (auto simp: esp_vigente_def x_def)
  qed
  have "ranura_esp m k = slots ! k"
    using s(1,2) k sk by (simp add: ranura_esp_def concat_ranura ranuras_ok_def)
  then have "\<not> is_ok (lee_arranque crc x) \<or> lee_arranque crc x = lee_arranque crc (slots ! k)
      \<or> lee_arranque crc x = lee_arranque crc bs"
    using mez by (auto simp: mezcla_detectada_def Let_def x_def k_def bs_def)
  then show "esp_lista crc m' previo \<or> esp_vigente crc m' r"
    using nuevo esp_lista_cambia [OF e s(1,2) k lx _ _ n(1) [folded x_def] leg] seq
    by (auto simp: k_def bootrec_ranura_def)
  show "vivo m' \<Longrightarrow> esp_vigente crc m' r"
    using nuevo n(3) bs(2) sk by (simp add: x_def)
qed

end
