(* ===== verification/Compromiso.thy ===== *)
theory Compromiso
  imports Armado Rescate
begin

text \<open>
  What \<open>armar\<close> leaves behind, whatever the moment at which power fails: the system files are the
  installed ones and the operation is either not committed or committed with its journal; when it
  returns without an error, the pair of records and the material are those that the recoverer
  completes.
\<close>

section \<open>Writes of the client\<close>

lemma misma_maquina_resto: "misma_maquina m m' \<Longrightarrow> mismo_resto m m'" "misma_maquina m m' \<Longrightarrow> m_ficheros m' = m_ficheros m"
  by (cases m, cases m', auto simp: misma_maquina_def mismo_resto_def)+

lemma mismo_resto_trans: "mismo_resto a b \<Longrightarrow> mismo_resto b c \<Longrightarrow> mismo_resto a c"
  by (simp add: mismo_resto_def)

lemma mismo_resto_lista: "mismo_resto m n \<Longrightarrow> esp_lista crc n previo = esp_lista crc m previo"
  by (simp add: mismo_resto_def esp_lista_def)

lemma mismo_resto_registro: "mismo_resto m n \<Longrightarrow> leer_bootrec_actual crc n = leer_bootrec_actual crc m"
  by (auto simp: mismo_resto_def leer_bootrec_actual_def split: option.splits)

lemma escribir_marco:
  assumes "escribir m ruta d = (ok, m')"
  shows "mismo_resto m m'" "q \<noteq> ruta \<Longrightarrow> m_ficheros m' q = m_ficheros m q" "ok \<longleftrightarrow> 1 < m_energia m"
    and "m_energia m' = m_energia m - 1"
    and "ok \<Longrightarrow> m_ficheros m' ruta = Some (encima (m_ficheros m ruta) d)"
    and "m_ficheros m' ruta = m_ficheros m ruta \<or> (\<exists>c. m_ficheros m' ruta = Some (take c (encima (m_ficheros m ruta) d)))"
  using assms by (auto simp: escribir_def vfs_create_file_def mismo_resto_def split: if_splits)
    (metis order_refl take_all_iff)+

text \<open>What an older and longer file leaves behind what is written on it.\<close>

definition resto_viejo :: "bytes option \<Rightarrow> bytes \<Rightarrow> bytes" where
  "resto_viejo viejo d = drop (length d) (encima viejo d)"

lemma encima_resto: "encima viejo d = d @ resto_viejo viejo d"
  by (simp add: resto_viejo_def encima_def split: option.split)

lemma resto_viejo_None [simp]: "resto_viejo None d = []"
  by (simp add: resto_viejo_def encima_def)

lemma resto_viejo_Some: "resto_viejo (Some v) d \<in> {[], drop (length d) v}"
  by (simp add: resto_viejo_def encima_def)

lemma encima_corta: "(\<And>v. viejo = Some v \<Longrightarrow> length v \<le> length d) \<Longrightarrow> encima viejo d = d"
  by (auto simp: encima_def split: option.split)

lemma guardar_diario_eq: "guardar_diario crc j m = escribir m (copia_de (txn_dir (j_id j)) j) (journal_format crc j)"
proof -
  have d: "show_word (0 :: u64) = ''0''" "show_word (1 :: u64) = ''1''" by code_simp+
  consider "j_seq j mod 2 = 0" | "j_seq j mod 2 = 1" by (metis mod2_eq_if)
  then show ?thesis
    by cases (simp_all add: guardar_diario_def copia_de_def copias_def dir_punto_def d)
qed

text \<open>A journal whose sequence is above those of the copies is the one in force as soon as it is written, also on top of a longer
  copy that leaves text behind it.\<close>

lemma diario_posterior:
  fixes m m' :: maquina
  assumes ok: "journal_ok j"
    and menor: "\<And>n g. n < COPIAS \<Longrightarrow> lee_diario crc (copias_leidas dir m ! n) = Inr g \<Longrightarrow> fr_seq g < j_seq j"
    and t: "NUL \<notin> set t" "utf8_valid t" and m': "m_ficheros m' (copia_de dir j) = Some (journal_format crc j @ t)"
    and fr: "\<And>q. q \<noteq> copia_de dir j \<Longrightarrow> m_ficheros m' q = m_ficheros m q"
  shows "diario_vigente crc dir m' = Some j"
proof -
  define k cs where "k = ranura (j_seq j) COPIAS" and "cs = copias_leidas dir m"
  have len: "length cs = COPIAS" by (simp add: cs_def copias_leidas_def COPIAS_def)
  obtain g where g: "vigente (lee_diario crc) COPIAS (cs[k := journal_format crc j]) k g" "journal_from_framed g = Inr j"
    using diario.publicado_vigente [of cs j crc] len ok menor by (auto simp: k_def cs_def)
  have "map (lee_diario crc) (cs[k := journal_format crc j @ t]) = map (lee_diario crc) (cs[k := journal_format crc j])"
    using journal_resto [OF ok t(1), of crc] t(2) by (simp add: map_update)
  from pick_con_map [OF this] have "vigente (lee_diario crc) COPIAS (cs[k := journal_format crc j @ t]) k g"
    using g(1) unfolding vigente_def pick_con_iff [symmetric] by (metis length_list_update)
  then show ?thesis
    using copias_escritas [OF m' fr] g(2) by (auto simp: k_def cs_def intro: vigente_diario)
qed

section \<open>Collecting old points\<close>

lemma borrar_arbol_marco:
  "mismo_resto m (borrar_arbol ruta m)"
  "q \<noteq> ruta \<Longrightarrow> \<not> starts_with (ruta @ ''/'') q \<Longrightarrow> m_ficheros (borrar_arbol ruta m) q = m_ficheros m q"
proof -
  have *: "mismo_resto m (fold (\<lambda>p m. vfs_unlink m p) ps m)"
    "q \<notin> set ps \<Longrightarrow> m_ficheros (fold (\<lambda>p m. vfs_unlink m p) ps m) q = m_ficheros m q" for ps and m :: maquina
    by (induction ps arbitrary: m) (auto simp: mismo_resto_def vfs_unlink_def)
  show "mismo_resto m (borrar_arbol ruta m)" unfolding borrar_arbol_def by (rule *(1))
  show "q \<noteq> ruta \<Longrightarrow> \<not> starts_with (ruta @ ''/'') q \<Longrightarrow> m_ficheros (borrar_arbol ruta m) q = m_ficheros m q"
    unfolding borrar_arbol_def by (rule *(2)) auto
qed

lemma borrar_arboles_marco:
  "mismo_resto m (fold (\<lambda>i. borrar_arbol (dir_punto i)) is m)"
  "(\<And>i. i \<in> set is \<Longrightarrow> q \<noteq> dir_punto i \<and> \<not> starts_with (dir_punto i @ ''/'') q) \<Longrightarrow>
   m_ficheros (fold (\<lambda>i. borrar_arbol (dir_punto i)) is m) q = m_ficheros m q"
proof (induction "is" arbitrary: m)
  case (Cons i "is")
  {
    case 1
    show ?case using Cons.IH(1) [of "borrar_arbol (dir_punto i) m"] borrar_arbol_marco(1) mismo_resto_trans by fastforce
  next
    case 2
    then show ?case using Cons.IH(2) [of "borrar_arbol (dir_punto i) m"] borrar_arbol_marco(2) by simp
  }
qed simp_all

text \<open>A point is collected with its whole directory, and the directory is named by the first sixteen
  digits of the identifier: two points that share them would be collected together.\<close>

definition sin_choque :: "(bytes \<Rightarrow> u32) \<Rightarrow> txn_id \<Rightarrow> maquina \<Rightarrow> bool" where
  "sin_choque crc i m = list_all (\<lambda>p. txn_dir (p_id p) = txn_dir i \<longrightarrow> p_id p = i) (puntos_guardados crc m)"

lemma sin_barra_primero:
  assumes "CHR ''/'' \<notin> set a" "CHR ''/'' \<notin> set b" "a @ ''/'' @ x = b @ ''/'' @ y"
  shows "a = b"
proof -
  have "takeWhile (\<lambda>c. c \<noteq> CHR ''/'') (a @ ''/'' @ x) = a" "takeWhile (\<lambda>c. c \<noteq> CHR ''/'') (b @ ''/'' @ y) = b"
    using assms(1,2) by (simp_all add: takeWhile_append)
  then show ?thesis using assms(3) by metis
qed

lemma dir_punto_ajeno:
  assumes "txn_dir x \<noteq> txn_dir i"
  shows "dir_punto i @ ''/'' @ resto \<noteq> dir_punto x" "\<not> starts_with (dir_punto x @ ''/'') (dir_punto i @ ''/'' @ resto)"
proof
  assume "dir_punto i @ ''/'' @ resto = dir_punto x"
  then have e: "txn_dir i @ ''/'' @ resto = txn_dir x" by (simp add: dir_punto_def)
  show False using txn_dir_sin_barra [of x] by (simp add: e [symmetric])
next
  show "\<not> starts_with (dir_punto x @ ''/'') (dir_punto i @ ''/'' @ resto)"
  proof
    assume "starts_with (dir_punto x @ ''/'') (dir_punto i @ ''/'' @ resto)"
    then obtain y where "txn_dir i @ ''/'' @ resto = txn_dir x @ ''/'' @ y"
      by (auto simp: dir_punto_def starts_with_prefix prefix_def)
    then show False using sin_barra_primero [OF txn_dir_sin_barra txn_dir_sin_barra] assms by metis
  qed
qed

lemma recoger_puntos_marco:
  assumes "i \<in> set refs" "sin_choque crc i m"
  shows "mismo_resto m (recoger_puntos crc refs m)"
    and "m_ficheros (recoger_puntos crc refs m) (dir_punto i @ ''/'' @ resto) = m_ficheros m (dir_punto i @ ''/'' @ resto)"
    and "ruta_sistema p \<Longrightarrow> fichero_activo (recoger_puntos crc refs m) p = fichero_activo m p"
proof -
  show "mismo_resto m (recoger_puntos crc refs m)" by (simp add: recoger_puntos_def borrar_arboles_marco(1))
  have "txn_dir x \<noteq> txn_dir i" if "x \<in> set (a_recoger (map p_id (puntos_guardados crc m)) refs)" for x
    using that assms by (auto simp: a_recoger_def sin_choque_def list_all_iff split: if_splits)
  then show "m_ficheros (recoger_puntos crc refs m) (dir_punto i @ ''/'' @ resto) = m_ficheros m (dir_punto i @ ''/'' @ resto)"
    unfolding recoger_puntos_def using dir_punto_ajeno by (intro borrar_arboles_marco(2)) blast
  show "ruta_sistema p \<Longrightarrow> fichero_activo (recoger_puntos crc refs m) p = fichero_activo m p"
    unfolding recoger_puntos_def fichero_activo_def
    by (intro borrar_arboles_marco(2)) (auto simp: dir_punto_def ruta_sistema_def DIR_BASE_def starts_with_prefix prefix_def)
qed

section \<open>The commitment\<close>

definition diario_nuevo ::
  "(bytes \<Rightarrow> u32) \<Rightarrow> (bytes \<Rightarrow> hash256) \<Rightarrow> bool \<Rightarrow> manifest \<Rightarrow> file_entry list \<Rightarrow> punto \<Rightarrow> maquina \<Rightarrow> journal" where
  "diario_nuevo crc sha sin_kernel man cambian p m =
     diario_de sha man cambian p (version_instalada m) (texto_release man sin_kernel (read_release m))
       (seq_diario_existente crc (p_id p) m + 1)"

definition diario_armado :: "journal \<Rightarrow> journal" where
  "diario_armado j = j\<lparr>j_seq := j_seq j + 1, j_estado := Armado\<rparr>"

definition registro_armado :: "(bytes \<Rightarrow> u32) \<Rightarrow> journal \<Rightarrow> maquina \<Rightarrow> boot_record" where
  "registro_armado crc j m =
     con_punto (bootrec_nuevo DArmado (j_id j) (j_version_nueva j) (j_version_anterior j) (siguiente_seq_bootrec crc m)) (j_id j)"

text \<open>The copies of a journal that an earlier attempt may have left: text, of a size that the client reads whole, and
  each that reads as a record reads as a journal.\<close>

definition copias_sanas :: "(bytes \<Rightarrow> u32) \<Rightarrow> string \<Rightarrow> maquina \<Rightarrow> bool" where
  "copias_sanas crc dir m \<longleftrightarrow> (\<forall>q \<in> {fst (copias dir), snd (copias dir)}. case m_ficheros m q of None \<Rightarrow> True
     | Some d \<Rightarrow> NUL \<notin> set d \<and> length d \<le> PUNTO_MAX \<and> (\<forall>f. lee_diario crc d = Inr f \<longrightarrow> is_ok (journal_from_framed f)))"

text \<open>The machine before the commitment: a record in force or none in the ESP, no journal of this operation or those
  of an earlier attempt, whose longer copies leave text behind the new ones, and a boot record that fits in its slot and
  whose torn write is recognised.\<close>

definition resto_texto :: "(bytes \<Rightarrow> u32) \<Rightarrow> journal \<Rightarrow> maquina \<Rightarrow> bool" where
  "resto_texto crc j m = utf8_valid (resto_viejo (m_ficheros m (copia_de (txn_dir (j_id j)) j)) (journal_format crc j))"

definition armable :: "(bytes \<Rightarrow> u32) \<Rightarrow> boot_record option \<Rightarrow> journal \<Rightarrow> maquina \<Rightarrow> bool" where
  "armable crc previo j m \<longleftrightarrow> esp_lista crc m previo \<and> operacion_ok j \<and> sin_choque crc (j_id j) m \<and>
     copias_sanas crc (txn_dir (j_id j)) m \<and> j_seq j \<noteq> 0 \<and> j_seq j \<noteq> - 1 \<and>
     resto_texto crc j m \<and> resto_texto crc (diario_armado j) m \<and>
     bootrec_cabe crc (registro_armado crc j m) \<and>
     mezcla_detectada crc (ranura_esp m (bootrec_ranura (registro_armado crc j m))) (bootrec_bytes crc (registro_armado crc j m))"

lemma diario_nuevo_campos [simp]:
  "j_id (diario_nuevo crc sha sk man cambian p m) = p_id p"
  "j_seq (diario_nuevo crc sha sk man cambian p m) = seq_diario_existente crc (p_id p) m + 1"
  "j_estado (diario_nuevo crc sha sk man cambian p m) = Preparado"
  by (simp_all add: diario_nuevo_def diario_de_def journal_nuevo_def)

lemma copia_alterna: "j_seq j \<noteq> - 1 \<Longrightarrow> copia_de dir (diario_armado j) \<noteq> copia_de dir j"
  using ranura_next [of COPIAS "j_seq j"] ranura_copia [of j] ranura_copia [of "diario_armado j"] rutas_disjuntas(7)
  by (auto simp: copia_de_def diario_armado_def COPIAS_def copias_def split: if_splits)

lemma resto_sin_nul:
  assumes "copias_sanas crc dir m" "q \<in> {fst (copias dir), snd (copias dir)}"
  shows "NUL \<notin> set (resto_viejo (m_ficheros m q) d)"
proof (cases "m_ficheros m q")
  case (Some v)
  then have "NUL \<notin> set v" using assms by (auto simp: copias_sanas_def)
  then show ?thesis using resto_viejo_Some [of v d] Some by (auto dest: in_set_dropD)
qed simp

lemma diario_armado_campos [simp]:
  "j_id (diario_armado j) = j_id j" "j_estado (diario_armado j) = Armado" "j_entradas (diario_armado j) = j_entradas j"
  "j_seq (diario_armado j) = j_seq j + 1"
  by (simp_all add: diario_armado_def)

lemma registro_armado_campos [simp]:
  "b_dir (registro_armado crc j m) = txn_dir (j_id j)" "b_id (registro_armado crc j m) = j_id j"
  "b_decision (registro_armado crc j m) = DArmado" "b_seq (registro_armado crc j m) = siguiente_seq_bootrec crc m"
  by (simp_all add: registro_armado_def con_punto_def bootrec_nuevo_def)

lemma registro_armado_cong: "mismo_resto m n \<Longrightarrow> registro_armado crc j n = registro_armado crc j m"
  by (simp add: registro_armado_def siguiente_seq_bootrec_def mismo_resto_registro)

lemma copias_dir_punto:
  "fst (copias (txn_dir i)) = dir_punto i @ ''/'' @ ''diario.0''" "snd (copias (txn_dir i)) = dir_punto i @ ''/'' @ ''diario.1''"
  "vfs_ruta (txn_dir i) DePreparado p = dir_punto i @ ''/'' @ ''etapa/'' @ p"
  "vfs_ruta (txn_dir i) DeRespaldo p = dir_punto i @ ''/'' @ ''respaldo/'' @ p"
  by (simp_all add: copias_def dir_punto_def vfs_ruta_def)

text \<open>Writing elsewhere in the area of the operation leaves the stored points as they are.\<close>

lemma puntos_guardados_cong:
  assumes "m_base n = m_base m"
    and "\<And>q. q \<noteq> dir_punto i @ ''/etapa/etc/soso-release'' \<Longrightarrow> q \<noteq> fst (copias (txn_dir i)) \<Longrightarrow> q \<noteq> snd (copias (txn_dir i)) \<Longrightarrow>
      m_ficheros n q = m_ficheros m q"
  shows "puntos_guardados crc n = puntos_guardados crc m"
proof -
  have "m_ficheros n (DIR_BASE @ ''/'' @ x @ ''/punto.rec'') = m_ficheros m (DIR_BASE @ ''/'' @ x @ ''/punto.rec'')" for x
  proof (rule assms(2))
    have "last (a @ ''/punto.rec'') = CHR ''c''" "last (a @ ''/etapa/etc/soso-release'') = CHR ''e''"
      "last (a @ ''/diario.0'') = CHR ''0''" "last (a @ ''/diario.1'') = CHR ''1''" for a :: string by simp_all
    note l = this
    show "DIR_BASE @ ''/'' @ x @ ''/punto.rec'' \<noteq> dir_punto i @ ''/etapa/etc/soso-release''"
      using l(1) [of "DIR_BASE @ ''/'' @ x"] l(2) [of "dir_punto i"] by force
    show "DIR_BASE @ ''/'' @ x @ ''/punto.rec'' \<noteq> fst (copias (txn_dir i))" "DIR_BASE @ ''/'' @ x @ ''/punto.rec'' \<noteq> snd (copias (txn_dir i))"
      using l(1) [of "DIR_BASE @ ''/'' @ x"] l(3,4) [of "dir_punto i"] by (force simp: copias_dir_punto)+
  qed
  then have r: "read_file_bytes n (DIR_BASE @ ''/'' @ x @ ''/punto.rec'') k = read_file_bytes m (DIR_BASE @ ''/'' @ x @ ''/punto.rec'') k"
    for x k by (simp add: read_file_bytes_def)
  show ?thesis using assms(1) unfolding puntos_guardados_def r by simp
qed

text \<open>The files that \<open>armar\<close> may write.\<close>

definition solo_area :: "txn_id \<Rightarrow> maquina \<Rightarrow> maquina \<Rightarrow> bool" where
  "solo_area i m n \<longleftrightarrow> (\<forall>q. q \<noteq> dir_punto i @ ''/etapa/etc/soso-release'' \<longrightarrow> q \<noteq> fst (copias (txn_dir i)) \<longrightarrow> q \<noteq> snd (copias (txn_dir i)) \<longrightarrow>
     m_ficheros n q = m_ficheros m q)"

lemma solo_area_trans: "solo_area i a b \<Longrightarrow> solo_area i b c \<Longrightarrow> solo_area i a c"
  by (simp add: solo_area_def)

lemma copia_de_area: "copia_de (txn_dir i) j \<in> {fst (copias (txn_dir i)), snd (copias (txn_dir i))}"
  by (simp add: copia_de_def)

lemma seq_existente:
  assumes "copias_sanas crc (txn_dir i) m" "n < COPIAS" "lee_diario crc (copias_leidas (txn_dir i) m ! n) = Inr g"
  shows "fr_seq g \<le> seq_diario_existente crc i m"
proof -
  define c where "c k = (if k = 0 then fst (copias (txn_dir i)) else snd (copias (txn_dir i)))" for k :: nat
  have d: "show_nat 0 = ''0''" "show_nat (Suc 0) = ''1''" by code_simp+
  define mira where "mira q mayor = (case read_file_bytes m q PUNTO_MAX of None \<Rightarrow> mayor
     | Some d \<Rightarrow> (case journal_parse crc d of Inl _ \<Rightarrow> mayor | Inr j \<Rightarrow> max mayor (j_seq j)))" for q mayor
  have sq: "seq_diario_existente crc i m = mira (c 1) (mira (c 0) 0)"
    by (simp add: seq_diario_existente_def mira_def c_def copias_dir_punto d)
  have sube: "mayor \<le> mira q mayor" for q mayor by (simp add: mira_def split: option.split sum.split)
  have n: "n \<in> {0, 1}" using assms(2) by (auto simp: COPIAS_def)
  have "\<exists>v k. m_ficheros m (c n) = Some v \<and> journal_parse crc (read_loop v PUNTO_MAX []) = Inr k \<and> j_seq k = fr_seq g"
  proof (cases "m_ficheros m (c n)")
    case None
    then show ?thesis using assms(3) n by (auto simp: copias_leidas_def leer_copia_def c_def lee_diario_vacio)
  next
    case (Some v)
    then have v: "lee_diario crc v = Inr g" using assms(3) n by (auto simp: copias_leidas_def leer_copia_def c_def)
    have "length v \<le> PUNTO_MAX" "is_ok (journal_from_framed g)"
      using assms(1) Some v n by (auto simp: copias_sanas_def c_def)
    then obtain k where "journal_from_framed g = Inr k" "read_loop v PUNTO_MAX [] = v"
      using read_loop_entero [of v PUNTO_MAX "[]"] by (cases "journal_from_framed g") auto
    then show ?thesis using Some v journal_from_framed_seq by (simp add: journal_parse_def)
  qed
  then obtain v k where vk: "m_ficheros m (c n) = Some v" "journal_parse crc (read_loop v PUNTO_MAX []) = Inr k" "j_seq k = fr_seq g"
    by blast
  then have "fr_seq g \<le> mira (c n) mayor" for mayor by (simp add: mira_def read_file_bytes_def)
  then show ?thesis using n sube [of "mira (c 0) 0" "c 1"] unfolding sq by (auto intro: order_trans)
qed

lemma seq_existente_cong:
  assumes "\<And>q. q \<in> {fst (copias (txn_dir i)), snd (copias (txn_dir i))} \<Longrightarrow> m_ficheros n q = m_ficheros m q"
  shows "seq_diario_existente crc i n = seq_diario_existente crc i m"
proof -
  have d: "show_nat 0 = ''0''" "show_nat (Suc 0) = ''1''" by code_simp+
  show ?thesis using assms by (simp add: seq_diario_existente_def read_file_bytes_def copias_dir_punto d)
qed

lemma armar_diario_corte:
  assumes j: "j = diario_nuevo crc sha sk man cambian p m" and a: "armable crc previo j m"
    and run: "armar_diario crc sha sk man (dir_punto (p_id p) @ ''/etapa'') cambian p m = (r, m1)"
  shows "mismo_resto m m1" "solo_area (p_id p) m m1" "m_energia m1 \<le> m_energia m"
    and "r = Inr k \<Longrightarrow> k = j \<and> diario_vigente crc (txn_dir (p_id p)) m1 = Some j \<and>
      m_ficheros m1 (copia_de (txn_dir (p_id p)) (diario_armado j)) = m_ficheros m (copia_de (txn_dir (p_id p)) (diario_armado j)) \<and>
      m_energia m1 = m_energia m - 2 \<and>
      en_etapa (txn_dir (p_id p)) m1 ''etc/soso-release'' =
        Some (encima (en_etapa (txn_dir (p_id p)) m ''etc/soso-release'') (texto_release man sk (read_release m)))"
    and "journal_validate j = Inr () \<Longrightarrow> 2 < m_energia m \<Longrightarrow> r = Inr j"
proof -
  define i rel ruta where "i = p_id p" and "rel = texto_release man sk (read_release m)"
    and "ruta = dir_punto i @ ''/etapa/etc/soso-release''"
  define dir cj where "dir = txn_dir i" and "cj = copia_de dir j"
  obtain ok1 ma where w1: "escribir m ruta rel = (ok1, ma)" by fastforce
  obtain ok2 mb where w2: "guardar_diario crc j ma = (ok2, mb)" by fastforce
  have ji: "j_id j = i" "operacion_ok j" "j_seq j \<noteq> 0" "j_seq j \<noteq> - 1" "copias_sanas crc dir m"
    using j a by (simp_all add: i_def dir_def armable_def)
  note e1 = escribir_marco [OF w1]
  note e2 = escribir_marco [OF w2 [unfolded guardar_diario_eq ji(1), folded dir_def, folded cj_def]]
  have cc: "cj \<in> {fst (copias dir), snd (copias dir)}" by (simp add: cj_def copia_de_def)
  have ne: "ruta \<notin> {fst (copias dir), snd (copias dir)}"
    by (simp add: copias_dir_punto ruta_def dir_def)
  have igual: "m_ficheros ma q = m_ficheros m q" if "q \<in> {fst (copias dir), snd (copias dir)}" for q
    using e1(2) that ne by metis
  have sq: "seq_diario_existente crc i ma = seq_diario_existente crc i m"
    using igual by (intro seq_existente_cong) (simp add: dir_def)
  have ra: "armar_diario crc sha sk man (dir_punto i @ ''/etapa'') cambian p m =
     (if \<not> ok1 then (Inl ArVersion, ma) else case journal_validate j of Inl e \<Rightarrow> (Inl (ArIncoherente e), ma)
        | Inr _ \<Rightarrow> (if ok2 then Inr j else Inl ArDiario, mb))"
  proof -
    have d: "diario_de sha man cambian p (version_instalada m) rel (seq_diario_existente crc i m + 1) = j"
      by (simp add: j diario_nuevo_def rel_def i_def)
    have w1': "escribir m (dir_punto i @ ''/etapa/etc/soso-release'') rel = (ok1, ma)" using w1 by (simp add: ruta_def)
    show ?thesis
      by (simp add: armar_diario_def Let_def rel_def [symmetric] i_def [symmetric] w1' sq d w2 split: sum.split)
  qed
  have area: "solo_area i m ma" "solo_area i m mb"
    using e1(2) e2(2) cc by (auto simp: solo_area_def ruta_def dir_def)
  have r: "(r, m1) = (if \<not> ok1 then (Inl ArVersion, ma) else case journal_validate j of Inl e \<Rightarrow> (Inl (ArIncoherente e), ma)
        | Inr _ \<Rightarrow> (if ok2 then Inr j else Inl ArDiario, mb))"
    using run ra by (simp add: i_def)
  then have m1: "m1 = ma \<or> m1 = mb" by (auto split: if_splits sum.splits)
  show "mismo_resto m m1" using m1 e1(1) e2(1) mismo_resto_trans by blast
  show "solo_area (p_id p) m m1" using m1 area by (auto simp: i_def)
  show "m_energia m1 \<le> m_energia m" using m1 e1(4) e2(4) by auto
  show "journal_validate j = Inr () \<Longrightarrow> 2 < m_energia m \<Longrightarrow> r = Inr j"
    using r e1(3,4) e2(3) by (auto split: if_splits)
  assume "r = Inr k"
  then have k: "k = j" "m1 = mb" "ok1" "ok2" using r by (auto split: if_splits sum.splits)
  have "m_ficheros mb cj = Some (journal_format crc j @ resto_viejo (m_ficheros m cj) (journal_format crc j))"
    using e2(5) [OF k(4)] igual [OF cc] by (simp add: encima_resto)
  moreover have "fr_seq g < j_seq j" if "n < COPIAS" "lee_diario crc (copias_leidas dir ma ! n) = Inr g" for n g
  proof -
    have "copias_leidas dir ma = copias_leidas dir m" using igual by (simp add: copias_leidas_def leer_copia_def)
    then have "fr_seq g \<le> seq_diario_existente crc i m"
      using seq_existente [of crc i m n g] ji(5) that by (simp add: dir_def)
    moreover have "seq_diario_existente crc i m \<noteq> - 1" using ji(3) j by (auto simp: i_def)
    ultimately show ?thesis using word_less_Suc [of "seq_diario_existente crc i m"] j by (auto simp: i_def)
  qed
  moreover have "utf8_valid (resto_viejo (m_ficheros m cj) (journal_format crc j))"
    using a by (simp add: armable_def resto_texto_def ji(1) dir_def cj_def)
  ultimately have "diario_vigente crc dir mb = Some j"
    using diario_posterior [where m = ma and m' = mb and dir = dir and t = "resto_viejo (m_ficheros m cj) (journal_format crc j)"]
      resto_sin_nul [OF ji(5) cc] e2(2) ji(2) by (auto simp: operacion_ok_def cj_def)
  moreover have "m_ficheros mb (copia_de dir (diario_armado j)) = m_ficheros m (copia_de dir (diario_armado j))"
    using e2(2) igual copia_alterna [OF ji(4), of dir] by (simp add: cj_def copia_de_def)
  moreover have "m_ficheros mb ruta = Some (encima (m_ficheros m ruta) rel)" using e2(2) e1(5) k(3) ne cc by metis
  ultimately show "k = j \<and> diario_vigente crc (txn_dir (p_id p)) m1 = Some j \<and>
      m_ficheros m1 (copia_de (txn_dir (p_id p)) (diario_armado j)) = m_ficheros m (copia_de (txn_dir (p_id p)) (diario_armado j)) \<and>
      m_energia m1 = m_energia m - 2 \<and>
      en_etapa (txn_dir (p_id p)) m1 ''etc/soso-release'' =
        Some (encima (en_etapa (txn_dir (p_id p)) m ''etc/soso-release'') (texto_release man sk (read_release m)))"
    using k e1(4) e2(4)
    by (simp add: i_def [symmetric] rel_def [symmetric] dir_def [symmetric])
      (simp add: en_etapa_def copias_dir_punto ruta_def dir_def)
qed

lemma publicado_en_marco:
  assumes "esp_lista crc m previo" "bootrec_cabe crc r" "b_seq r = siguiente_seq_bootrec crc m"
    and "mezcla_detectada crc (ranura_esp m (bootrec_ranura r)) (bootrec_bytes crc r)"
  shows "m_ficheros (publicado_en crc r m) = m_ficheros m" "m_montado (publicado_en crc r m) = m_montado m"
    "m_base (publicado_en crc r m) = m_base m" "m_energia (publicado_en crc r m) = m_energia m - 2"
proof -
  define m' where "m' = publicado_en crc r m"
  have "m' = m\<lparr>m_esp := m_esp m', m_energia := m_energia m - 2\<rparr>" by (rule publicado_corte(3) [OF assms m'_def])
  then show "m_ficheros (publicado_en crc r m) = m_ficheros m" "m_montado (publicado_en crc r m) = m_montado m"
    "m_base (publicado_en crc r m) = m_base m" "m_energia (publicado_en crc r m) = m_energia m - 2"
    unfolding m'_def [symmetric] by (cases m, cases m', simp)+
qed

lemma publicado_otras:
  assumes "esp_lista crc m previo" "bootrec_cabe crc r" "k < SLOTS" "k \<noteq> bootrec_ranura r"
  shows "ranura_esp (publicado_en crc r m) k = ranura_esp m k"
proof -
  define h bs m' where "h = bootrec_ranura r" and "bs = bootrec_bytes crc r" and "m' = publicado_en crc r m"
  obtain slots where s: "m_esp m = Some (concat slots)" "ranuras_ok slots" using assms(1) by (auto simp: esp_lista_def)
  have bs: "length bs = SLOT_SIZE"
    using assms(2) bootrec_format_Inr [of crc r] by (auto simp: bootrec_cabe_def bs_def bootrec_bytes_def is_ok_def split: sum.splits)
  have h: "h < SLOTS" using ranura_less [of SLOTS] by (simp add: h_def bootrec_ranura_def SLOTS_def)
  obtain n where n: "m_esp m' = Some (concat (slots[h := take n bs @ drop n (slots ! h)]))" "n \<le> SLOT_SIZE"
    using escribir_sectores_corte(1) [OF s h bs, of m'] by (auto simp: m'_def publicado_en_def h_def bs_def)
  have lh: "length (slots ! h) = SLOT_SIZE" using s(2) h by (simp add: ranuras_ok_def)
  have ok: "ranuras_ok (slots[h := take n bs @ drop n (slots ! h)])"
    using s(2) bs n(2) lh set_update_subset_insert [of slots h "take n bs @ drop n (slots ! h)"] by (auto simp: ranuras_ok_def)
  have "ranura_esp x k = xs ! k" if "m_esp x = Some (concat xs)" "ranuras_ok xs" for x xs
    using that assms(3) concat_ranura(2) [of xs SLOT_SIZE k] by (simp add: ranura_esp_def ranuras_ok_def)
  then show ?thesis using s n(1) ok assms(4) by (simp add: m'_def [symmetric] h_def)
qed

lemma sin_choque_area: "mismo_resto m n \<Longrightarrow> solo_area i m n \<Longrightarrow> sin_choque crc i n = sin_choque crc i m"
  using puntos_guardados_cong [of n m i crc] by (simp add: sin_choque_def solo_area_def mismo_resto_def)

text \<open>The state after \<open>armar\<close>: not committed, or committed with the journal of the operation.\<close>

definition tras_armar ::
  "(bytes \<Rightarrow> u32) \<Rightarrow> boot_record option \<Rightarrow> boot_record \<Rightarrow> journal \<Rightarrow> maquina \<Rightarrow> maquina \<Rightarrow> bool" where
  "tras_armar crc previo rec j m m' \<longleftrightarrow>
     m_montado m' = m_montado m \<and> (\<forall>q. ruta_sistema q \<longrightarrow> fichero_activo m' q = fichero_activo m q) \<and>
     (esp_lista crc m' previo \<and> solo_area (j_id j) m m' \<or>
      esp_vigente crc m' rec \<and> diario_vigente crc (b_dir rec) m' \<in> {Some j, Some (diario_armado j)})"

lemma armar_registro_corte:
  assumes j: "operacion_ok j" "j_seq j \<noteq> - 1" and d: "diario_vigente crc (txn_dir (j_id j)) (pu_m q) = Some j"
    and lib: "resto_texto crc (diario_armado j) (pu_m q)"
      "NUL \<notin> set (resto_viejo (m_ficheros (pu_m q) (copia_de (txn_dir (j_id j)) (diario_armado j))) (journal_format crc (diario_armado j)))"
    and e: "esp_lista crc (pu_m q) previo" and sc: "sin_choque crc (j_id j) (pu_m q)"
    and rec: "rec = registro_armado crc j (pu_m q)" "bootrec_cabe crc rec"
      "mezcla_detectada crc (ranura_esp (pu_m q) (bootrec_ranura rec)) (bootrec_bytes crc rec)"
    and run: "armar_registro crc j q = (r, q')"
  shows "tras_armar crc previo rec j (pu_m q) (pu_m q')"
    and "r = Inr () \<Longrightarrow> esp_vigente crc (pu_m q') rec \<and> diario_vigente crc (b_dir rec) (pu_m q') = Some (diario_armado j) \<and>
      (\<forall>p. en_etapa (b_dir rec) (pu_m q') p = en_etapa (b_dir rec) (pu_m q) p \<and>
        en_respaldo (b_dir rec) (pu_m q') p = en_respaldo (b_dir rec) (pu_m q) p) \<and>
      (\<forall>k < SLOTS. k \<noteq> bootrec_ranura rec \<longrightarrow> ranura_esp (pu_m q') k = ranura_esp (pu_m q) k)"
    and "3 < m_energia (pu_m q) \<Longrightarrow> r = Inr ()"
proof -
  define i m dir ja where "i = j_id j" and "m = pu_m q" and "dir = txn_dir i" and "ja = diario_armado j"
  define m1 where "m1 = publicado_en crc rec m"
  obtain ok2 m2 where w: "guardar_diario crc ja m1 = (ok2, m2)" by fastforce
  define refs where "refs = (case Option.bind (leer_bootrec_actual crc m) b_punto of
      Some x \<Rightarrow> if x \<in> set [i] then [i] else [i, x] | None \<Rightarrow> [i])"
  define m3 where "m3 = recoger_puntos crc refs m2"
  have seq: "b_seq rec = siguiente_seq_bootrec crc m" and bd: "b_dir rec = dir"
    using rec(1) by (simp_all add: m_def dir_def i_def)
  note e' = e [folded m_def]
  note pc = publicado_corte [OF e' rec(2) seq rec(3) [folded m_def] m1_def]
  note pm = publicado_en_marco [OF e' rec(2) seq rec(3) [folded m_def], folded m1_def]
  obtain buf where buf: "m_esp m = Some buf" using e' by (auto simp: esp_lista_def)
  note pb = publicar_bootrec_eq [OF rec(2) buf [unfolded m_def], folded m_def, folded m1_def]
  have rq: "(r, q') = (if \<not> 0 < m_energia m1 then (Inl ArRegistro, q\<lparr>pu_m := m1\<rparr>)
      else if \<not> ok2 then (Inl ArDiario, q\<lparr>pu_m := m2\<rparr>) else (Inr (), q\<lparr>pu_m := m3\<rparr>))"
  proof -
    have rr: "con_punto (bootrec_nuevo DArmado i (j_version_nueva j) (j_version_anterior j) (siguiente_seq_bootrec crc m)) i = rec"
      by (simp add: rec(1) registro_armado_def i_def m_def)
    have jj: "j\<lparr>j_seq := j_seq j + 1, j_estado := Armado\<rparr> = ja" by (simp add: ja_def diario_armado_def)
    show ?thesis
      unfolding run [symmetric] armar_registro_def Let_def m_def [symmetric] i_def [symmetric] rr jj pb refs_def m3_def
      by (simp add: w)
  qed
  define cd where "cd = copia_de dir ja"
  have cc: "cd \<in> {fst (copias dir), snd (copias dir)}" by (simp add: cd_def copia_de_def)
  note ew = escribir_marco [OF w [unfolded guardar_diario_eq ja_def diario_armado_campos, folded ja_def i_def dir_def, folded cd_def]]
  have d1: "diario_vigente crc dir m1 = Some j" using d mismos_ficheros(4) [OF pm(1)] by (simp add: dir_def i_def m_def)
  have suc: "sucesor j ja" using j by (auto simp: sucesor_def ja_def diario_armado_def operacion_ok_def journal_ok_def)
  define t where "t = resto_viejo (m_ficheros m1 cd) (journal_format crc ja)"
  have t: "NUL \<notin> set t" "utf8_valid t"
    using lib pm(1) by (simp_all add: t_def cd_def resto_texto_def dir_def i_def m_def ja_def)
  have fr: "q \<noteq> copia_de dir ja \<Longrightarrow> m_ficheros m2 q = m_ficheros m1 q" for q using ew(2) by (simp add: cd_def)
  have d2: "diario_vigente crc dir m2 = Some j \<or> diario_vigente crc dir m2 = Some ja"
  proof (cases "m_ficheros m2 cd = m_ficheros m1 cd")
    case True
    then have "m_ficheros m2 q = m_ficheros m1 q" for q using fr by (cases "q = cd") (simp_all add: cd_def)
    then show ?thesis using d1 diario_vigente_cong by metis
  next
    case False
    then obtain c where "m_ficheros m2 cd = Some (take c (journal_format crc ja @ t))"
      using ew(6) by (auto simp: encima_resto t_def)
    then show ?thesis using escritura_encima(1) [OF d1 suc _ fr] t(1) by (auto simp: cd_def)
  qed
  have d2': "ok2 \<Longrightarrow> diario_vigente crc dir m2 = Some ja"
  proof -
    assume ok2
    then have x: "m_ficheros m2 (copia_de dir ja) = Some (journal_format crc ja @ t)" using ew(5) by (simp add: encima_resto t_def cd_def)
    have "\<exists>c t'. Some (journal_format crc ja @ t) = Some (take c (journal_format crc ja @ t')) \<and> NUL \<notin> set t'"
      using t(1) by (intro exI [of _ "length (journal_format crc ja @ t)"] exI [of _ t]) simp
    then show ?thesis using escritura_encima(2) [OF d1 suc x fr _ refl t] by blast
  qed
  have nb: "dir_punto i = DIR_BASE @ ''/'' @ dir" by (simp add: dir_punto_def dir_def)
  have sis: "fichero_activo m2 x = fichero_activo m x" if "ruta_sistema x" for x
    using fr rutas_disjuntas(5) [OF that] pm(1) by (simp add: fichero_activo_def)
  have area1: "solo_area i m m1" using pm(1) by (simp add: solo_area_def)
  have sc2: "sin_choque crc i m2"
  proof -
    have "solo_area i m1 m2" using ew(2) cc by (auto simp: solo_area_def dir_def)
    then have "sin_choque crc i m2 = sin_choque crc i m1" using ew(1) sin_choque_area by blast
    then show ?thesis using sc puntos_guardados_cong [OF pm(3)] pm(1) by (simp add: sin_choque_def m_def i_def)
  qed
  have ir: "i \<in> set refs" by (simp add: refs_def split: option.split)
  note rm = recoger_puntos_marco [OF ir sc2, folded m3_def]
  have vig: "esp_vigente crc m2 rec" "esp_vigente crc m3 rec" if "0 < m_energia m1"
    using pc(2) that mismo_resto_esp(1) [OF ew(1)] mismo_resto_esp(1) [OF rm(1)] by (simp_all add: vivo_def)
  have d3: "diario_vigente crc dir m3 = diario_vigente crc dir m2"
    using rm(2) by (intro diario_vigente_cong) (simp_all add: copias_dir_punto dir_def)
  have mont: "m_montado m1 = m_montado m" "m_montado m2 = m_montado m" "m_montado m3 = m_montado m"
    using pm(2) ew(1) rm(1) by (simp_all add: mismo_resto_def)
  have "pu_m q' = m1 \<and> \<not> 0 < m_energia m1 \<or> 0 < m_energia m1 \<and> (pu_m q' = m2 \<or> pu_m q' = m3)"
    using rq by (auto split: if_splits)
  then consider "pu_m q' = m1" | "0 < m_energia m1" "pu_m q' = m2" | "0 < m_energia m1" "pu_m q' = m3" by fastforce
  then show "tras_armar crc previo rec j (pu_m q) (pu_m q')"
  proof cases
    case 1
    then show ?thesis using pc(1) d1 pm(1) mont area1
      by (auto simp: tras_armar_def bd m_def [symmetric] i_def [symmetric] fichero_activo_def)
  next
    case 2
    then show ?thesis using vig d2 sis mont by (auto simp: tras_armar_def bd m_def [symmetric] ja_def)
  next
    case 3
    then show ?thesis using vig d2 d3 sis rm(3) mont by (auto simp: tras_armar_def bd m_def [symmetric] ja_def)
  qed
  show "3 < m_energia (pu_m q) \<Longrightarrow> r = Inr ()"
    using rq ew(3) pm(4) by (auto simp: m_def split: if_splits)
  assume "r = Inr ()"
  then have o: "0 < m_energia m1" "ok2" "pu_m q' = m3" using rq by (auto split: if_splits)
  have f3: "m_ficheros m3 (vfs_ruta dir x p) = m_ficheros m (vfs_ruta dir x p)" for x p
  proof -
    have "m_ficheros m3 (vfs_ruta dir x p) = m_ficheros m2 (vfs_ruta dir x p)"
      by (cases x; simp only: dir_def copias_dir_punto rm(2))
    also have "vfs_ruta dir x p \<noteq> copia_de dir ja"
      by (cases x) (auto simp: vfs_ruta_def copia_de_def copias_def)
    then have "m_ficheros m2 (vfs_ruta dir x p) = m_ficheros m (vfs_ruta dir x p)" using fr pm(1) by simp
    finally show ?thesis .
  qed
  have otras: "ranura_esp m3 k = ranura_esp m k" if "k < SLOTS" "k \<noteq> bootrec_ranura rec" for k
    using publicado_otras [OF e' rec(2) that] mismo_resto_esp(2) [OF ew(1)] mismo_resto_esp(2) [OF rm(1)] by (simp add: m1_def)
  show "esp_vigente crc (pu_m q') rec \<and> diario_vigente crc (b_dir rec) (pu_m q') = Some (diario_armado j) \<and>
      (\<forall>p. en_etapa (b_dir rec) (pu_m q') p = en_etapa (b_dir rec) (pu_m q) p \<and>
        en_respaldo (b_dir rec) (pu_m q') p = en_respaldo (b_dir rec) (pu_m q) p) \<and>
      (\<forall>k < SLOTS. k \<noteq> bootrec_ranura rec \<longrightarrow> ranura_esp (pu_m q') k = ranura_esp (pu_m q) k)"
    using vig(2) o d2' d3 f3 otras by (simp add: bd ja_def en_etapa_def en_respaldo_def m_def [symmetric])
qed

lemma armable_cong:
  assumes "armable crc previo j m" "mismo_resto m n" "solo_area (j_id j) m n"
  shows "esp_lista crc n previo" "sin_choque crc (j_id j) n" "bootrec_cabe crc (registro_armado crc j n)"
    "mezcla_detectada crc (ranura_esp n (bootrec_ranura (registro_armado crc j n))) (bootrec_bytes crc (registro_armado crc j n))"
  using assms mismo_resto_lista [OF assms(2)] sin_choque_area [OF assms(2,3)]
  by (simp_all add: armable_def registro_armado_cong [OF assms(2)] mismo_resto_esp(2) [OF assms(2)])

lemma solo_area_activo: "solo_area i m n \<Longrightarrow> ruta_sistema p \<Longrightarrow> fichero_activo n p = fichero_activo m p"
  using rutas_disjuntas(1) [of p "txn_dir i" DePreparado "''etc/soso-release''"] rutas_disjuntas(2,3) [of p "txn_dir i"]
  by (simp add: solo_area_def fichero_activo_def copias_dir_punto)

lemma armar_corte:
  assumes j: "j = diario_nuevo crc sha sk man cambian p (pu_m q)" and a: "armable crc previo j (pu_m q)"
    and rec: "rec = registro_armado crc j (pu_m q)"
    and run: "armar crc sha sk descarga man (dir_punto (p_id p) @ ''/etapa'') cambian p q = (r, q')"
  shows "tras_armar crc previo rec j (pu_m q) (pu_m q')"
    and "r = Inr () \<Longrightarrow> esp_vigente crc (pu_m q') rec \<and> diario_vigente crc (b_dir rec) (pu_m q') = Some (diario_armado j) \<and>
      en_etapa (b_dir rec) (pu_m q') ''etc/soso-release'' =
        Some (encima (en_etapa (b_dir rec) (pu_m q) ''etc/soso-release'') (texto_release man sk (read_release (pu_m q)))) \<and>
      (\<forall>x. x \<noteq> ''etc/soso-release'' \<longrightarrow> en_etapa (b_dir rec) (pu_m q') x = en_etapa (b_dir rec) (pu_m q) x) \<and>
      (\<forall>x. en_respaldo (b_dir rec) (pu_m q') x = en_respaldo (b_dir rec) (pu_m q) x) \<and>
      (\<forall>k < SLOTS. k \<noteq> bootrec_ranura rec \<longrightarrow> ranura_esp (pu_m q') k = ranura_esp (pu_m q) k)"
    and "sk \<Longrightarrow> journal_validate j = Inr () \<Longrightarrow> 5 < m_energia (pu_m q) \<Longrightarrow> r = Inr ()"
proof -
  define m i where "m = pu_m q" and "i = p_id p"
  have ji: "j_id j = i" "j_seq j \<noteq> - 1" "operacion_ok j" "copias_sanas crc (txn_dir i) m" "resto_texto crc (diario_armado j) m"
    using j a by (simp_all add: i_def m_def armable_def)
  have bd: "b_dir rec = txn_dir i" by (simp add: rec ji)
  obtain s m1 where ad: "armar_diario crc sha sk man (dir_punto (p_id p) @ ''/etapa'') cambian p (pu_m q) = (s, m1)" by fastforce
  note c1 = armar_diario_corte [OF j a ad, folded m_def i_def]
  have sis1: "fichero_activo m1 x = fichero_activo m x" if "ruta_sistema x" for x
    using solo_area_activo [OF c1(2) that] .
  have noc: "tras_armar crc previo rec j m n" if "mismo_resto m1 n" "m_ficheros n = m_ficheros m1" for n
  proof -
    have "mismo_resto m n" using mismo_resto_trans [OF c1(1) that(1)] .
    then show ?thesis
      using a mismo_resto_lista [of m n crc previo] mismos_ficheros(1) [OF that(2)] sis1
        c1(2) that(2) by (simp add: tras_armar_def armable_def m_def mismo_resto_def ji(1) solo_area_def)
  qed
  obtain u q2 where k: "(if sk then (Inr (), q\<lparr>pu_m := m1\<rparr>) else apply_kernel sha descarga man (q\<lparr>pu_m := m1\<rparr>)) = (u, q2)"
    by fastforce
  have mm: "misma_maquina m1 (pu_m q2)" using k apply_kernel_marco [of sha descarga man "q\<lparr>pu_m := m1\<rparr>"] by (auto split: if_splits)
  note km = misma_maquina_resto [OF mm]
  have rq: "(r, q') = (case s of Inl e \<Rightarrow> (Inl e, q\<lparr>pu_m := m1\<rparr>) | Inr j \<Rightarrow>
      (case u of Inl _ \<Rightarrow> (Inl ArKernel, q2) | Inr _ \<Rightarrow> armar_registro crc j q2))"
    using run by (simp add: armar_def ad k split: sum.splits)
  have reg: "tras_armar crc previo rec j m (pu_m q') \<and> (r = Inr () \<longrightarrow> esp_vigente crc (pu_m q') rec \<and>
      diario_vigente crc (b_dir rec) (pu_m q') = Some (diario_armado j) \<and>
      (\<forall>x. en_etapa (b_dir rec) (pu_m q') x = en_etapa (b_dir rec) m1 x \<and> en_respaldo (b_dir rec) (pu_m q') x = en_respaldo (b_dir rec) m1 x) \<and>
      (\<forall>k < SLOTS. k \<noteq> bootrec_ranura rec \<longrightarrow> ranura_esp (pu_m q') k = ranura_esp m k)) \<and>
      (3 < m_energia (pu_m q2) \<longrightarrow> r = Inr ())"
    if "s = Inr h" "armar_registro crc h q2 = (r, q')" for h
  proof -
    define cd where "cd = copia_de (txn_dir i) (diario_armado j)"
    have h: "h = j" "diario_vigente crc (txn_dir i) m1 = Some j" "m_ficheros m1 cd = m_ficheros m cd"
      using c1(4) [OF that(1)] by (simp_all add: cd_def)
    have mr: "mismo_resto m (pu_m q2)" using c1(1) km(1) mismo_resto_trans by blast
    have ar: "solo_area (j_id j) m (pu_m q2)" using c1(2) km(2) by (simp add: solo_area_def ji)
    note ac = armable_cong [OF a [folded m_def] mr ar]
    have rec2: "rec = registro_armado crc j (pu_m q2)" using rec registro_armado_cong [OF mr] by (simp add: m_def)
    note mf = mismos_ficheros [OF km(2)]
    have d2: "diario_vigente crc (txn_dir (j_id j)) (pu_m q2) = Some j" using h(2) mf(4) by (simp add: ji)
    have l2: "resto_texto crc (diario_armado j) (pu_m q2)"
        "NUL \<notin> set (resto_viejo (m_ficheros (pu_m q2) (copia_de (txn_dir (j_id j)) (diario_armado j))) (journal_format crc (diario_armado j)))"
      using ji(5) h(3) km(2) resto_sin_nul [OF ji(4) copia_de_area] by (simp_all add: resto_texto_def ji(1) cd_def)
    note rc = armar_registro_corte [OF ji(3,2) d2 l2 ac(1,2) rec2 ac(3,4) [folded rec2] that(2) [unfolded h(1)]]
    have "tras_armar crc previo rec j m (pu_m q')"
      using rc(1) sis1 mf(1) mr solo_area_trans [OF ar] by (auto simp: tras_armar_def mismo_resto_def)
    then show ?thesis using rc(2,3) mf(2,3) mismo_resto_esp(2) [OF mr] by simp
  qed
  show "tras_armar crc previo rec j (pu_m q) (pu_m q')"
    unfolding m_def [symmetric]
  proof (cases s)
    case (Inl e)
    then show "tras_armar crc previo rec j m (pu_m q')" using rq noc [of m1] by simp
  next
    case (Inr h)
    then show "tras_armar crc previo rec j m (pu_m q')" using rq noc [OF km] reg by (cases u) auto
  qed
  show "sk \<Longrightarrow> journal_validate j = Inr () \<Longrightarrow> 5 < m_energia (pu_m q) \<Longrightarrow> r = Inr ()"
  proof -
    assume x: "sk" "journal_validate j = Inr ()" "5 < m_energia (pu_m q)"
    then have "s = Inr j" using c1(5) by (simp add: m_def)
    moreover from this have "m_energia m1 = m_energia m - 2" using c1(4) by simp
    ultimately have "s = Inr j" "3 < m_energia (pu_m q2)" "u = Inr ()" using k x(1,3) by (auto simp: m_def)
    then show "r = Inr ()" using reg [of j] rq by simp
  qed
  assume "r = Inr ()"
  then obtain h where h: "s = Inr h" "armar_registro crc h q2 = (r, q')" using rq by (auto split: sum.splits)
  have et: "en_etapa (b_dir rec) m1 x = en_etapa (b_dir rec) m x" if "x \<noteq> ''etc/soso-release''" for x
    using c1(2) that by (simp add: solo_area_def en_etapa_def bd copias_dir_punto)
  have re: "en_respaldo (b_dir rec) m1 x = en_respaldo (b_dir rec) m x" for x
    using c1(2) by (simp add: solo_area_def en_respaldo_def bd copias_dir_punto)
  show "esp_vigente crc (pu_m q') rec \<and> diario_vigente crc (b_dir rec) (pu_m q') = Some (diario_armado j) \<and>
      en_etapa (b_dir rec) (pu_m q') ''etc/soso-release'' =
        Some (encima (en_etapa (b_dir rec) (pu_m q) ''etc/soso-release'') (texto_release man sk (read_release (pu_m q)))) \<and>
      (\<forall>x. x \<noteq> ''etc/soso-release'' \<longrightarrow> en_etapa (b_dir rec) (pu_m q') x = en_etapa (b_dir rec) (pu_m q) x) \<and>
      (\<forall>x. en_respaldo (b_dir rec) (pu_m q') x = en_respaldo (b_dir rec) (pu_m q) x) \<and>
      (\<forall>k < SLOTS. k \<noteq> bootrec_ranura rec \<longrightarrow> ranura_esp (pu_m q') k = ranura_esp (pu_m q) k)"
    using reg [OF h] \<open>r = Inr ()\<close> c1(4) [OF h(1)] et re by (simp add: bd m_def [symmetric])
qed

section \<open>From the commitment to the new version\<close>

lemma recuperar_aplica:
  assumes p: "pareja_ok crc m r j" and e: "b_decision r = DArmado" "j_estado j = Armado"
    and seq: "unat (j_seq j) + length (j_entradas j) < 2 ^ 64 - 3"
    and pub: "publicable crc m r" and mat: "material_completo sha m (b_dir r) j"
    and ag: "aguanta m (2 * length (j_entradas j) + 3)"
  shows "\<exists>m' j'. recuperar crc sha m = (True, m') \<and> tras_arranque crc m r j m' (publicado r DProbando) j' \<and> j_estado j' = Probando"
proof -
  have ag2: "aguanta m (2 * length (j_entradas j) + 2 + Suc 0)" using ag by (simp add: aguanta_def)
  obtain m1 h where x: "ejecutar crc sha (b_dir r) (JDiario j) True m = (True, m1)" "aguanta m1 (Suc 0)"
      "tras_arranque crc m r j m1 r h" "mismo_resto m m1" "j_estado h = Probando"
    using ejecutar_vive [OF p seq mat _ ag2, of True] e by auto
  have h: "pareja_ok crc m1 r h" "j_id h = j_id j" using x(3) misma_entradas(8) by (auto simp: tras_arranque_def)
  have pb: "publicable crc m1 r" using pub mismo_resto_esp(3) [OF x(4)] by simp
  have d: "DProbando \<in> {DProbando, DConfirmado, DRevertido}" "(DProbando, j_estado h) \<in> parejas"
    by (simp_all add: x(5) parejas_def)
  define mp where "mp = publicar crc (EspRegistro r) DProbando (j_id j) m1"
  have q: "pareja_ok crc mp (publicado r DProbando) h"
    using publicar_vive(1) [OF h(1) pb d x(2)] h(2) by (simp add: mp_def)
  have f: "m_ficheros mp = m_ficheros m1"
    using publicar_pareja [OF h(1) pb d refl] h(2) by (simp add: mp_def)
  have "tras_arranque crc m r j mp (publicado r DProbando) h"
    using x(3) q mismos_ficheros [OF f] by (simp add: tras_arranque_def publicado_def)
  then have "tras_arranque crc m r j (tomar_por_el_kernel mp) (publicado r DProbando) h" using tomar_cerrojo(1) by simp
  moreover have "recuperar crc sha m = (True, tomar_por_el_kernel mp)"
    using recuperar_pareja [OF p, of sha] e x(1) by (simp add: mp_def Let_def)
  ultimately show ?thesis using x(5) by blast
qed

lemma probando_etapa:
  assumes t: "tras_arranque crc m r j m' r' j'" and e: "j_estado j' = Probando"
    and x: "x \<in> set (j_entradas j)" "e_accion x \<noteq> Borrar" "ruta_sistema (e_path x)"
  shows "fichero_activo m' (e_path x) = en_etapa (b_dir r) m (e_path x)"
proof -
  define a where "a = en_etapa (b_dir r) m'"
  have coh: "coherente (fichero_activo m') a (en_respaldo (b_dir r) m') j'" and mi: "misma j j'"
    and eta: "en_etapa (b_dir r) m' (e_path x) = en_etapa (b_dir r) m (e_path x)"
    using t x(3) by (auto simp: tras_arranque_def pareja_ok_def a_def)
  obtain k where k: "k < length (j_entradas j)" "x = j_entradas j ! k" using x(1) by (auto simp: in_set_conv_nth)
  note ms = misma_entradas(1,2) [OF mi] misma_entradas(4) [OF mi, of a]
  have "e_path (j_entradas j' ! k) = e_path x" "despues a (j_entradas j' ! k) = despues a x"
    using ms k by (metis nth_map)+
  moreover have "fichero_activo m' (e_path (j_entradas j' ! k)) = despues a (j_entradas j' ! k)"
    using coh e k ms(1) by (simp add: coherente_estado(3))
  ultimately show ?thesis using x(2) eta by (simp add: despues_def a_def)
qed

text \<open>A point that holds what the active system has, and a preparation area that holds what the
  manifest declares.\<close>

definition contenido_de :: "(bytes \<Rightarrow> hash256) \<Rightarrow> bytes \<Rightarrow> contenido" where
  "contenido_de sha d = \<lparr>c_size = of_nat (length d), c_hash = hex_sha256 sha d\<rparr>"

definition punto_fiel :: "(bytes \<Rightarrow> hash256) \<Rightarrow> punto \<Rightarrow> maquina \<Rightarrow> bool" where
  "punto_fiel sha p m = list_all (\<lambda>e.
     e_respaldo e = map_option (contenido_de sha) (fichero_activo m (e_path e)) \<and>
     (fichero_activo m (e_path e) \<noteq> None \<longrightarrow> en_respaldo (txn_dir (p_id p)) m (e_path e) = fichero_activo m (e_path e)))
     (p_entradas p)"

definition etapa_completa :: "(bytes \<Rightarrow> hash256) \<Rightarrow> string \<Rightarrow> file_entry list \<Rightarrow> maquina \<Rightarrow> bool" where
  "etapa_completa sha dir cambian m = list_all (\<lambda>f. case en_etapa dir m (f_path f) of
       None \<Rightarrow> False | Some d \<Rightarrow> contenido_cuadra sha d \<lparr>c_size = f_size f, c_hash = f_hash_hex f\<rparr>) cambian"

lemma respaldo_fiel:
  assumes "punto_fiel sha p m" "ruta \<in> e_path ` set (p_entradas p)"
  shows "respaldo_de p ruta = map_option (contenido_de sha) (fichero_activo m ruta)"
    and "fichero_activo m ruta \<noteq> None \<Longrightarrow> en_respaldo (txn_dir (p_id p)) m ruta = fichero_activo m ruta"
proof -
  obtain e where e: "find (\<lambda>e. e_path e = ruta) (p_entradas p) = Some e"
    using assms(2) by (cases "find (\<lambda>e. e_path e = ruta) (p_entradas p)") (auto simp: find_None_iff)
  then have "e \<in> set (p_entradas p)" "e_path e = ruta" by (auto simp: find_Some_iff)
  then show "respaldo_de p ruta = map_option (contenido_de sha) (fichero_activo m ruta)"
    "fichero_activo m ruta \<noteq> None \<Longrightarrow> en_respaldo (txn_dir (p_id p)) m ruta = fichero_activo m ruta"
    using assms(1) e by (auto simp: punto_fiel_def list_all_iff respaldo_de_def)
qed

lemma entrada_de_fiel:
  assumes "punto_fiel sha p m" "ruta \<in> e_path ` set (p_entradas p)"
    and n: "fichero_activo n ruta = fichero_activo m ruta" "en_respaldo (txn_dir (p_id p)) n ruta = en_respaldo (txn_dir (p_id p)) m ruta"
    and e: "e = entrada_de p ruta nuevo"
  shows "fichero_activo n (e_path e) = antes (en_respaldo (txn_dir (p_id p)) n) e"
    "material_viejo sha (en_respaldo (txn_dir (p_id p)) n) e"
    "e_path e = ruta" "e_progreso e = Respaldado" "e_accion e \<noteq> Borrar" "e_nuevo e = Some nuevo"
  using respaldo_fiel [OF assms(1,2)] n
  by (cases "fichero_activo m ruta"; simp add: e entrada_de_def antes_def material_viejo_def contenido_cuadra_def contenido_de_def)+

lemma diario_nuevo_entradas:
  "j_entradas (diario_nuevo crc sha sk man cambian p m) =
     map (\<lambda>f. entrada_de p (f_path f) \<lparr>c_size = f_size f, c_hash = f_hash_hex f\<rparr>) cambian @
     [entrada_de p ''etc/soso-release'' (contenido_de sha (texto_release man sk (read_release m)))]"
  by (simp add: diario_nuevo_def diario_de_def contenido_de_def)

lemma release_aparte:
  assumes "operacion_ok (diario_nuevo crc sha sk man cambian p m)" "f \<in> set cambian"
  shows "f_path f \<noteq> ''etc/soso-release''"
proof -
  have "distinct (map e_path (j_entradas (diario_nuevo crc sha sk man cambian p m)))" using assms(1) by (simp add: operacion_ok_def)
  then have "''etc/soso-release'' \<notin> f_path ` set cambian" by (auto simp: diario_nuevo_entradas entrada_de_def comp_def)
  then show ?thesis using assms(2) by (metis imageI)
qed

lemma pareja_armada:
  assumes j: "j = diario_nuevo crc sha sk man cambian p (pu_m q)" and a: "armable crc previo j (pu_m q)" "m_montado (pu_m q)"
    and rec: "rec = registro_armado crc j (pu_m q)"
    and p: "punto_fiel sha p (pu_m q)" "map e_path (p_entradas p) = map f_path cambian @ [''etc/soso-release'']"
    and et: "etapa_completa sha (txn_dir (p_id p)) cambian (pu_m q)"
    and rel: "encima (en_etapa (txn_dir (p_id p)) (pu_m q) ''etc/soso-release'') (texto_release man sk (read_release (pu_m q)))
      = texto_release man sk (read_release (pu_m q))"
    and run: "armar crc sha sk descarga man (dir_punto (p_id p) @ ''/etapa'') cambian p q = (Inr (), q')"
  shows "pareja_ok crc (pu_m q') rec (diario_armado j)" "material_completo sha (pu_m q') (b_dir rec) (diario_armado j)"
proof -
  define m n dir where "m = pu_m q" and "n = pu_m q'" and "dir = txn_dir (p_id p)"
  note c = armar_corte [OF j a(1) rec run]
  have ta: "m_montado n" "\<And>x. ruta_sistema x \<Longrightarrow> fichero_activo n x = fichero_activo m x"
    using c(1) a(2) by (simp_all add: tras_armar_def m_def n_def)
  have bd: "b_dir rec = dir" by (simp add: rec j dir_def)
  have v: "esp_vigente crc n rec" "diario_vigente crc dir n = Some (diario_armado j)"
      "en_etapa dir n ''etc/soso-release'' = Some (texto_release man sk (read_release m))"
      "\<And>x. x \<noteq> ''etc/soso-release'' \<Longrightarrow> en_etapa dir n x = en_etapa dir m x"
      "\<And>x. en_respaldo dir n x = en_respaldo dir m x"
    using c(2) [OF refl] rel by (simp_all add: bd m_def n_def dir_def)
  have op: "operacion_ok j" using a(1) by (simp add: armable_def)
  have rutas: "map e_path (j_entradas j) = map f_path cambian @ [''etc/soso-release'']"
    by (simp add: j diario_nuevo_entradas entrada_de_def)
  note dist = release_aparte [OF op [unfolded j]]
  have "\<forall>x \<in> set (map e_path (j_entradas j)). ruta_sistema x" using op by (simp add: operacion_ok_def list_all_iff)
  then have sis: "\<And>f. f \<in> set cambian \<Longrightarrow> ruta_sistema (f_path f)" "ruta_sistema ''etc/soso-release''"
    unfolding rutas by simp_all
  have img: "e_path ` set (p_entradas p) = insert ''etc/soso-release'' (f_path ` set cambian)"
    using arg_cong [OF p(2), of set] by simp
  have e: "fichero_activo n (e_path e) = antes (en_respaldo dir n) e \<and> material_viejo sha (en_respaldo dir n) e \<and>
      material_nuevo sha (en_etapa dir n) e \<and> e_progreso e = Respaldado" if en: "e \<in> set (j_entradas j)" for e
  proof -
    consider f where "f \<in> set cambian" "e = entrada_de p (f_path f) \<lparr>c_size = f_size f, c_hash = f_hash_hex f\<rparr>"
      | "e = entrada_de p ''etc/soso-release'' (contenido_de sha (texto_release man sk (read_release m)))"
      using en by (auto simp: j diario_nuevo_entradas m_def)
    then show ?thesis
    proof cases
      case 1
      have fp: "f_path f \<in> e_path ` set (p_entradas p)" "ruta_sistema (f_path f)"
        using 1(1) sis(1) img by simp_all
      note ef = entrada_de_fiel [OF p(1) [folded m_def] fp(1) ta(2) [OF fp(2)] v(5) [unfolded dir_def] 1(2), folded dir_def]
      have "material_nuevo sha (en_etapa dir n) e"
        using ef(3,6) v(4) [OF dist [OF 1(1)]] et 1(1)
        by (auto simp: material_nuevo_def etapa_completa_def list_all_iff m_def dir_def split: option.splits)
      then show ?thesis using ef by simp
    next
      case 2
      have fp: "''etc/soso-release'' \<in> e_path ` set (p_entradas p)" "ruta_sistema ''etc/soso-release''"
        using sis(2) img by simp_all
      note ef = entrada_de_fiel [OF p(1) [folded m_def] fp(1) ta(2) [OF fp(2)] v(5) [unfolded dir_def] 2, folded dir_def]
      then show ?thesis using v(3) by (simp add: material_nuevo_def contenido_cuadra_def contenido_de_def)
    qed
  qed
  have "coherente (fichero_activo n) (en_etapa dir n) (en_respaldo dir n) (diario_armado j)"
    using e by (simp add: coherente_def list_all_iff)
  moreover have "operacion_ok (diario_armado j)"
    using op by (simp add: operacion_ok_def diario_armado_def journal_ok_def)
  moreover have "b_id rec = j_id j" "b_decision rec = DArmado" by (simp_all add: rec)
  ultimately show "pareja_ok crc (pu_m q') rec (diario_armado j)"
    using v(1,2) ta(1) unfolding n_def [symmetric] by (simp add: pareja_ok_def bd parejas_def)
  show "material_completo sha (pu_m q') (b_dir rec) (diario_armado j)"
    using e unfolding n_def [symmetric] by (simp add: material_completo_def bd list_all_iff)
qed

lemma publicable_armada:
  assumes "j = diario_nuevo crc sha sk man cambian p (pu_m q)" "armable crc previo j (pu_m q)" "rec = registro_armado crc j (pu_m q)"
    and "armar crc sha sk descarga man (dir_punto (p_id p) @ ''/etapa'') cambian p q = (Inr (), q')" "publicable crc (pu_m q) rec"
  shows "publicable crc (pu_m q') rec"
proof -
  have "bootrec_ranura (publicado rec d) < SLOTS" "bootrec_ranura (publicado rec d) \<noteq> bootrec_ranura rec" for d
    using ranura_less [of SLOTS] ranura_next [of SLOTS "b_seq rec"] assms(5)
    by (auto simp: bootrec_ranura_def publicado_def publicable_def SLOTS_def)
  then have "ranura_esp (pu_m q') (bootrec_ranura (publicado rec d)) = ranura_esp (pu_m q) (bootrec_ranura (publicado rec d))" for d
    using armar_corte(2) [OF assms(1-4)] by simp
  then show ?thesis using assms(5) by (simp add: publicable_def)
qed

text \<open>While the record of before is in force and belongs to another operation, the recoverer reads what it read before the
  attempt.\<close>

lemma solo_area_diario:
  assumes "solo_area i m n" "dir \<noteq> txn_dir i"
  shows "leer_diario crc dir n = leer_diario crc dir m"
proof -
  have "last (a @ ''/etapa/etc/soso-release'') = CHR ''e''" "last (a @ ''/diario.0'') = CHR ''0''" "last (a @ ''/diario.1'') = CHR ''1''"
    for a :: string by simp_all
  note l = this(1) [of "dir_punto i"] this(2,3) [of "DIR_BASE @ ''/'' @ dir"] this(2,3) [of "dir_punto i"]
  have c: "fst (copias dir) = (DIR_BASE @ ''/'' @ dir) @ ''/diario.0''" "snd (copias dir) = (DIR_BASE @ ''/'' @ dir) @ ''/diario.1''"
      "fst (copias (txn_dir i)) = dir_punto i @ ''/diario.0''" "snd (copias (txn_dir i)) = dir_punto i @ ''/diario.1''"
    by (simp_all add: copias_def dir_punto_def)
  have ne: "DIR_BASE @ ''/'' @ dir \<noteq> dir_punto i" using assms(2) by (simp add: dir_punto_def)
  have "m_ficheros n q = m_ficheros m q" if "q \<in> {fst (copias dir), snd (copias dir)}" for q
  proof -
    have "last q \<in> {CHR ''0'', CHR ''1''}" using that c(1,2) l by auto
    then have "q \<noteq> dir_punto i @ ''/etapa/etc/soso-release''" using l(1) by auto
    moreover have "q \<noteq> fst (copias (txn_dir i))" "q \<noteq> snd (copias (txn_dir i))"
      using that ne l unfolding c by auto
    ultimately show ?thesis using assms(1) by (simp add: solo_area_def)
  qed
  then show ?thesis by (simp add: leer_diario_def leer_copia_def case_prod_beta)
qed

lemma registro_en_vigor: "leer_bootrec_actual crc m = Some r \<Longrightarrow> leer_bootrec crc m = EspRegistro r"
  by (auto simp: leer_bootrec_actual_def leer_bootrec_def split: option.splits if_splits sum.splits)

text \<open>C4 (\<open>armar\<close>, the point of commitment): whatever the power left and wherever the cut falls, arming an
  operation, for the first time or again over the journals of an earlier attempt, leaves every system file as it was, and either the boot record of before
  is still the one in force, or the new record is published and the journal of this attempt, with a sequence
  above those of any earlier one, is in its place.  In the first case, when that record belongs to another operation, the recoverer
  reads the same record and the same journal as before the attempt; of a record of this same operation nothing is claimed here.  When
  \<open>armar\<close> reports success, the journal says ARMADO; and with power for six operations and no kernel to write it does.  The
  copies of the journal that an earlier attempt left are text of at most 256 KiB that parses, and what the new ones leave of them
  behind is text; no other stored point shares the directory of this one.\<close>

theorem armar_compromiso:
  assumes "j = diario_nuevo crc sha sin_kernel man cambian p (pu_m q)" "armable crc previo j (pu_m q)"
    and "rec = registro_armado crc j (pu_m q)"
    and "armar crc sha sin_kernel descarga man (dir_punto (p_id p) @ ''/etapa'') cambian p q = (r, q')"
  shows "(\<forall>x. ruta_sistema x \<longrightarrow> fichero_activo (pu_m q') x = fichero_activo (pu_m q) x) \<and>
    (leer_bootrec_actual crc (pu_m q') = previo \<and>
      (\<forall>r0. previo = Some r0 \<longrightarrow> b_dir r0 \<noteq> txn_dir (p_id p) \<longrightarrow> leer_bootrec crc (pu_m q') = leer_bootrec crc (pu_m q) \<and>
        leer_diario crc (b_dir r0) (pu_m q') = leer_diario crc (b_dir r0) (pu_m q)) \<or>
     esp_vigente crc (pu_m q') rec \<and> diario_vigente crc (b_dir rec) (pu_m q') \<in> {Some j, Some (diario_armado j)}) \<and>
    (r = Inr () \<longrightarrow> esp_vigente crc (pu_m q') rec \<and> diario_vigente crc (b_dir rec) (pu_m q') = Some (diario_armado j)) \<and>
    (sin_kernel \<longrightarrow> journal_validate j = Inr () \<longrightarrow> 5 < m_energia (pu_m q) \<longrightarrow> r = Inr ())"
proof -
  note c = armar_corte [OF assms]
  have i: "j_id j = p_id p" by (simp add: assms(1))
  have l: "leer_bootrec_actual crc (pu_m q) = previo" using assms(2) esp_lista_lee by (auto simp: armable_def)
  have "leer_bootrec_actual crc (pu_m q') = previo \<and>
      (\<forall>r0. previo = Some r0 \<longrightarrow> b_dir r0 \<noteq> txn_dir (p_id p) \<longrightarrow> leer_bootrec crc (pu_m q') = leer_bootrec crc (pu_m q) \<and>
        leer_diario crc (b_dir r0) (pu_m q') = leer_diario crc (b_dir r0) (pu_m q))"
    if "esp_lista crc (pu_m q') previo" "solo_area (p_id p) (pu_m q) (pu_m q')"
    using esp_lista_lee [OF that(1)] l registro_en_vigor solo_area_diario [OF that(2)] by auto
  then show ?thesis using c unfolding tras_armar_def i by blast
qed

text \<open>C3 (from \<open>armar\<close> to \<open>recuperar\<close>): when the preparation area holds what the manifest declares and the
  point holds what the active system has, an operation that \<open>armar\<close> reports as armed, for the first time or again over the journals
  of an earlier attempt, is installed by the
  next boot that has power for it: the pair is on trial, every changed path has a content of the size
  and hash of the manifest, the release file is the new one, and no other system file changes.  A release file that an
  earlier attempt left in the preparation area must not be longer than the new one, since the client
  does not truncate what it overwrites; its journals are text that parses, and no other stored point shares the directory of this one.\<close>

theorem armar_instala:
  assumes j: "j = diario_nuevo crc sha sin_kernel man cambian p (pu_m q)" "armable crc previo j (pu_m q)" "m_montado (pu_m q)"
    and rec: "rec = registro_armado crc j (pu_m q)"
    and p: "punto_fiel sha p (pu_m q)" "map e_path (p_entradas p) = map f_path cambian @ [''etc/soso-release'']"
    and et: "etapa_completa sha (txn_dir (p_id p)) cambian (pu_m q)"
      "unat (seq_diario_existente crc (p_id p) (pu_m q)) + length cambian < 2 ^ 63"
    and rel: "\<And>v. en_etapa (txn_dir (p_id p)) (pu_m q) ''etc/soso-release'' = Some v \<Longrightarrow>
      length v \<le> length (texto_release man sin_kernel (read_release (pu_m q)))"
    and run: "armar crc sha sin_kernel descarga man (dir_punto (p_id p) @ ''/etapa'') cambian p q = (Inr (), q')"
    and m: "m = (pu_m q')\<lparr>m_energia := e, m_corte := c\<rparr>" "publicable crc (pu_m q) rec" "4 * length cambian + 10 < e"
  shows "\<exists>m' j'. recuperar crc sha m = (True, m') \<and> pareja_ok crc m' (publicado rec DProbando) j' \<and> j_estado j' = Probando \<and>
    (\<forall>f \<in> set cambian. \<exists>d. fichero_activo m' (f_path f) = Some d \<and> of_nat (length d) = f_size f \<and> hex_sha256 sha d = f_hash_hex f) \<and>
    fichero_activo m' ''etc/soso-release'' = Some (texto_release man sin_kernel (read_release (pu_m q))) \<and>
    (\<forall>x. ruta_sistema x \<longrightarrow> x \<notin> f_path ` set cambian \<union> {''etc/soso-release''} \<longrightarrow> fichero_activo m' x = fichero_activo (pu_m q) x)"
proof -
  note en = encima_corta [OF rel]
  note pa = pareja_armada [OF j rec p et(1) en run]
  note c = armar_corte [OF j(1,2) rec run]
  have f: "m_ficheros m = m_ficheros (pu_m q')" by (simp add: m(1))
  note mf = mismos_ficheros [OF f]
  have pm: "pareja_ok crc m rec (diario_armado j)" using pa(1) mf by (simp add: pareja_ok_def esp_vigente_def m(1))
  have pub: "publicable crc m rec" using publicable_armada [OF j(1,2) rec run m(2)] by (simp add: publicable_def ranura_esp_def m(1))
  have mat: "material_completo sha m (b_dir rec) (diario_armado j)" using pa(2) mf by (simp add: material_completo_def)
  have len: "length (j_entradas j) = Suc (length cambian)" by (simp add: j(1) diario_nuevo_entradas)
  have bd: "b_dir rec = txn_dir (p_id p)" by (simp add: rec j(1))
  define s where "s = seq_diario_existente crc (p_id p) (pu_m q)"
  have "j_seq (diario_armado j) = s + 2" by (simp add: j(1) s_def)
  moreover have "unat (s + 2) = unat s + 2" using et(2) by (subst unat_add_lem [THEN iffD1]) (simp_all add: s_def)
  ultimately have "unat (j_seq (diario_armado j)) = unat s + 2" by (simp only:)
  then have "unat (j_seq (diario_armado j)) + length (j_entradas (diario_armado j)) < 2 ^ 64 - 3"
    using et(2) len by (simp only: diario_armado_campos s_def) simp
  moreover have "aguanta m (2 * length (j_entradas (diario_armado j)) + 3)" using m(1,3) by (simp add: aguanta_def len)
  ultimately obtain m' j' where r: "recuperar crc sha m = (True, m')"
      "tras_arranque crc m rec (diario_armado j) m' (publicado rec DProbando) j'" "j_estado j' = Probando"
    using recuperar_aplica [OF pm _ _ _ pub mat] by (auto simp: rec)
  have par: "pareja_ok crc m' (publicado rec DProbando) j'"
    and res: "\<And>x. ruta_sistema x \<Longrightarrow> x \<notin> e_path ` set (j_entradas j) \<Longrightarrow> fichero_activo m' x = fichero_activo m x"
    using r(2) by (simp_all add: tras_arranque_def)
  have op: "operacion_ok j" using j(2) by (simp add: armable_def)
  have nuevo: "x \<in> set (j_entradas j) \<Longrightarrow> e_accion x \<noteq> Borrar \<Longrightarrow> fichero_activo m' (e_path x) = en_etapa (b_dir rec) m (e_path x)" for x
    using probando_etapa [OF r(2,3), of x] op by (simp add: operacion_ok_def list_all_iff)
  have ac: "e_accion (entrada_de p x y) \<noteq> Borrar" "e_path (entrada_de p x y) = x" for x y by (simp_all add: entrada_de_def)
  have es: "j_entradas j = map (\<lambda>f. entrada_de p (f_path f) \<lparr>c_size = f_size f, c_hash = f_hash_hex f\<rparr>) cambian @
     [entrada_de p ''etc/soso-release'' (contenido_de sha (texto_release man sin_kernel (read_release (pu_m q))))]"
    by (simp add: j(1) diario_nuevo_entradas)
  have rutas: "e_path ` set (j_entradas j) = f_path ` set cambian \<union> {''etc/soso-release''}" by (auto simp: es ac image_iff)
  note dist = release_aparte [OF op [unfolded j(1)]]
  have "fichero_activo m' ''etc/soso-release'' = Some (texto_release man sin_kernel (read_release (pu_m q)))"
    using nuevo [of "last (j_entradas j)"] ac c(2) mf(2) en bd by (simp add: es)
  moreover have "\<exists>d. fichero_activo m' (f_path f) = Some d \<and> of_nat (length d) = f_size f \<and> hex_sha256 sha d = f_hash_hex f"
    if "f \<in> set cambian" for f
  proof -
    have "fichero_activo m' (f_path f) = en_etapa (b_dir rec) (pu_m q) (f_path f)"
      using nuevo [of "entrada_de p (f_path f) \<lparr>c_size = f_size f, c_hash = f_hash_hex f\<rparr>"] that ac c(2) mf(2) dist [OF that]
      by (simp add: es)
    then show ?thesis
      using et(1) that by (auto simp: etapa_completa_def list_all_iff bd contenido_cuadra_def split: option.splits)
  qed
  moreover have "fichero_activo m' x = fichero_activo (pu_m q) x" if "ruta_sistema x" "x \<notin> f_path ` set cambian \<union> {''etc/soso-release''}" for x
    using res [OF that(1)] that mf(1) c(1) by (simp add: rutas tras_armar_def)
  ultimately show ?thesis using r(1,3) par by blast
qed

section \<open>An attempt that is repeated\<close>

text \<open>A sector write with no power left for it: nothing reaches the medium.\<close>

lemma escribir_sectores_nada:
  assumes "m_energia m = 1" "m_corte m = 0" "ts \<noteq> []" "m_esp m \<noteq> None"
  shows "escribir_sectores m off ts = m\<lparr>m_energia := 0\<rparr>"
proof -
  have muerto: "escribir_sectores n off us = n" if "m_energia n = 0" for n :: maquina and off us
    using that by (induction us arbitrary: off) (auto simp: esp_escribir_def split: option.splits)
  obtain t us where ts: "ts = t # us" using assms(3) by (cases ts) auto
  have "esp_escribir m off t = m\<lparr>m_energia := 0\<rparr>" using assms(1,2,4) by (auto simp: esp_escribir_def Let_def)
  then show ?thesis by (simp add: ts muerto)
qed

text \<open>C36 (flaw): an update that was confirmed or reverted can be armed again with the same manifest (a repair, or \<open>--forzar\<close>), and then the
  boot record in force is that of the same operation.  A cut after the journal PREPARADO and before the new boot record
  leaves CONFIRMADO or REVERTIDO over PREPARADO, a pair that the table takes for impossible: the system is
  intact, but no boot goes on, whatever its power, and none changes anything.\<close>

theorem reintento_cortado_atasca:
  assumes j: "j = diario_nuevo crc sha True man cambian p (pu_m q)" "armable crc (Some previo) j (pu_m q)" "m_montado (pu_m q)"
    and pr: "b_id previo = p_id p" "b_dir previo = txn_dir (p_id p)" "b_decision previo \<in> {DConfirmado, DRevertido}"
    and v: "journal_validate j = Inr ()" and en: "m_energia (pu_m q) = 3" "m_corte (pu_m q) = 0"
    and run: "armar crc sha True descarga man (dir_punto (p_id p) @ ''/etapa'') cambian p q = (r, q')"
  shows "r \<noteq> Inr () \<and> (\<forall>x. ruta_sistema x \<longrightarrow> fichero_activo (pu_m q') x = fichero_activo (pu_m q) x) \<and>
    (\<forall>e c. recuperar crc sha ((pu_m q')\<lparr>m_energia := e, m_corte := c\<rparr>) = (False, (pu_m q')\<lparr>m_energia := e, m_corte := c\<rparr>))"
proof -
  define m dir where "m = pu_m q" and "dir = txn_dir (p_id p)"
  obtain s m1 where ad: "armar_diario crc sha True man (dir_punto (p_id p) @ ''/etapa'') cambian p m = (s, m1)" by fastforce
  note c1 = armar_diario_corte [OF j(1,2) ad [unfolded m_def], folded m_def dir_def]
  have s: "s = Inr j" using c1(5) v en by (simp add: m_def)
  have d1: "diario_vigente crc dir m1 = Some j" and e1: "m_energia m1 = 1" using c1(4) [OF s] en by (simp_all add: m_def)
  have "m_corte m1 = m_corte m"
    using ad by (auto simp: armar_diario_def Let_def guardar_diario_def escribir_def vfs_create_file_def split: if_splits sum.splits)
  note e1 = e1 this [unfolded m_def en(2)]
  have el: "esp_lista crc m1 (Some previo)" using j(2) mismo_resto_lista [OF c1(1)] by (simp add: armable_def m_def)
  have ja: "j_id j = p_id p" by (simp add: j(1))
  define rec where "rec = registro_armado crc j m1"
  have cabe: "bootrec_cabe crc rec" using armable_cong(3) [OF j(2), of m1] c1(1,2) ja by (simp add: rec_def m_def)
  obtain buf where buf: "m_esp m1 = Some buf" using el by (auto simp: esp_lista_def)
  have "chunks SECTOR (bootrec_bytes crc rec) \<noteq> []"
    using cabe bootrec_format_Inr [of crc rec] chunks_dos [of "bootrec_bytes crc rec"]
    by (auto simp: bootrec_cabe_def bootrec_bytes_def is_ok_def SLOT_SIZE_def SECTOR_def split: sum.splits)
  then have pe: "publicado_en crc rec m1 = m1\<lparr>m_energia := 0\<rparr>"
    unfolding publicado_en_def using escribir_sectores_nada [OF e1] buf by blast
  have "publicar_bootrec crc rec (q\<lparr>pu_m := m1\<rparr>) = (False, q\<lparr>pu_m := m1\<lparr>m_energia := 0\<rparr>\<rparr>)"
    using publicar_bootrec_eq [OF cabe, of "q\<lparr>pu_m := m1\<rparr>" buf] buf by (simp add: pe)
  then have "armar_registro crc j (q\<lparr>pu_m := m1\<rparr>) = (Inl ArRegistro, q\<lparr>pu_m := m1\<lparr>m_energia := 0\<rparr>\<rparr>)"
    by (simp add: armar_registro_def Let_def rec_def registro_armado_def)
  then have rq: "r = Inl ArRegistro" "pu_m q' = m1\<lparr>m_energia := 0\<rparr>" using run ad s by (auto simp: armar_def m_def)
  have "fichero_activo (pu_m q') x = fichero_activo m x" if "ruta_sistema x" for x
    using solo_area_activo [OF c1(2) that] by (simp add: rq(2) fichero_activo_def)
  moreover have "recuperar crc sha n = (False, n)" if "n = (pu_m q')\<lparr>m_energia := e, m_corte := c\<rparr>" for n e c
  proof -
    have f: "m_ficheros n = m_ficheros m1" "m_esp n = m_esp m1" "m_esp_legible n = m_esp_legible m1" "m_montado n = m_montado m1"
      by (simp_all add: that rq(2))
    have "leer_bootrec crc m1 = EspRegistro previo" using registro_en_vigor esp_lista_lee [OF el] by blast
    then have "leer_bootrec crc n = EspRegistro previo" unfolding leer_bootrec_def f .
    moreover have "leer_diario crc dir n = JDiario j"
      using leer_diario_vigente d1 mismos_ficheros(4) [OF f(1)] by metis
    moreover have "m_montado n" using c1(1) j(3) f(4) by (simp add: mismo_resto_def m_def)
    ultimately show ?thesis
      using pr ja j(1) by (auto simp: recuperar_def Let_def reconcile_defs dir_def)
  qed
  ultimately show ?thesis using rq(1) by (simp add: m_def)
qed

section \<open>A machine to arm on\<close>

text \<open>A machine on which the operation was armed, applied and reverted before: its journal REVERTIDO is still there.\<close>

definition bytes_previos :: bytes where
  "bytes_previos = journal_format crc_ej (diario_ej Revertido Restaurado)"

definition maquina_libre :: "nat \<Rightarrow> nat \<Rightarrow> maquina" where
  "maquina_libre e c =
     \<lparr>m_montado = True, m_ficheros = [dir_punto (replicate 32 0) @ ''/etapa/bin/init'' \<mapsto> ''ab'', fst (copias (txn_dir (replicate 32 0))) \<mapsto> bytes_previos], m_base = None,
      m_esp = Some (concat (replicate SLOTS blanco)), m_esp_legible = True, m_cerrojo = False, m_energia = e, m_corte = c, m_arbol = []\<rparr>"

definition puesto_libre :: "nat \<Rightarrow> nat \<Rightarrow> puesto" where
  "puesto_libre e c =
     \<lparr>pu_m = maquina_libre e c, pu_buzon = None, pu_kernel = None, pu_meta = None, pu_modo = None, pu_existe = (\<lambda>_. False)\<rparr>"

definition cambian_ej :: "file_entry list" where
  "cambian_ej = [\<lparr>f_path = ''bin/init'', f_offset = 0, f_size = 2, f_hash_hex = replicate 64 CHR ''0''\<rparr>]"

definition punto_libre :: punto where
  "punto_libre = punto_nuevo (replicate 32 0) ''desconocida'' [] ''g'' \<lparr>c_size = 0, c_hash = []\<rparr>
     (map (\<lambda>r. \<lparr>e_accion = Crear, e_progreso = Respaldado, e_path = r, e_nuevo = None, e_respaldo = None\<rparr>)
       [''bin/init'', ''etc/soso-release''])"

definition diario_libre :: "nat \<Rightarrow> nat \<Rightarrow> journal" where
  "diario_libre e c = diario_nuevo crc_ej sha_ej True manifest_ej cambian_ej punto_libre (maquina_libre e c)"

lemma previos_texto: "NUL \<notin> set bytes_previos" "list_all (byte_in 0 0x7F) bytes_previos" "length bytes_previos \<le> 1000"
  unfolding bytes_previos_def by code_simp+

lemma libre_ficheros:
  "m_ficheros (maquina_libre e c) (fst (copias (txn_dir (replicate 32 0)))) = Some bytes_previos"
  "m_ficheros (maquina_libre e c) (snd (copias (txn_dir (replicate 32 0)))) = None"
  by (simp_all add: maquina_libre_def copias_dir_punto)

lemma libre_seq: "seq_diario_existente crc_ej (replicate 32 0) (maquina_libre e c) = 4"
proof -
  have d: "show_nat 0 = ''0''" "show_nat (Suc 0) = ''1''" by code_simp+
  have "read_loop bytes_previos PUNTO_MAX [] = bytes_previos"
    using read_loop_entero [of bytes_previos PUNTO_MAX "[]"] previos_texto(3) by (simp add: PUNTO_MAX_def)
  moreover have "journal_parse crc_ej bytes_previos = Inr (diario_ej Revertido Restaurado)"
    unfolding bytes_previos_def by (rule journal_parse_format [OF ej_journal_ok])
  ultimately show ?thesis
    using libre_ficheros [of e c] by (simp add: seq_diario_existente_def read_file_bytes_def copias_dir_punto d)
qed

lemma libre_sanas: "copias_sanas crc_ej (txn_dir (replicate 32 0)) (maquina_libre e c)"
proof -
  have "is_ok (journal_from_framed f)" if "lee_diario crc_ej bytes_previos = Inr f" for f
    using that journal_parse_framed [OF ej_journal_ok] journal_from_framed_body [OF ej_journal_ok]
    by (auto simp: bytes_previos_def)
  then show ?thesis using previos_texto libre_ficheros [of e c] by (auto simp: copias_sanas_def PUNTO_MAX_def)
qed

lemma previos_resto: "utf8_valid (resto_viejo (Some bytes_previos) d)" "utf8_valid []"
proof -
  show n: "utf8_valid []" by simp
  have "list_all (byte_in 0 0x7F) (drop (length d) bytes_previos)"
    using previos_texto(2) by (auto simp: list_all_iff dest: in_set_dropD)
  then have "utf8_valid (drop (length d) bytes_previos)" by (rule utf8_valid_ascii)
  then show "utf8_valid (resto_viejo (Some bytes_previos) d)" using n resto_viejo_Some [of bytes_previos d] by auto
qed

lemma hex_sha_ej: "hex_sha256 sha_ej x = replicate 64 CHR ''0''"
  using ej_hex(1) by (simp add: hex_sha256_def sha_ej_def to_hex_def)

lemma libre_release: "read_release (maquina_libre e c) = None"
  by (simp add: read_release_def read_file_def read_file_bytes_def maquina_libre_def dir_punto_def copias_def DIR_BASE_def)

lemma libre_diario:
  "diario_libre e c = \<lparr>j_id = replicate 32 0, j_estado = Preparado, j_seq = 5, j_version_nueva = ''0.3.9'',
     j_version_anterior = ''desconocida'', j_kernel_nuevo = Some \<lparr>c_size = 7, c_hash = replicate 64 CHR ''a''\<rparr>,
     j_kernel_anterior = None,
     j_entradas = [entrada_de punto_libre ''bin/init'' \<lparr>c_size = 2, c_hash = replicate 64 CHR ''0''\<rparr>,
       entrada_de punto_libre ''etc/soso-release'' (contenido_de sha_ej (texto_release manifest_ej True None))]\<rparr>"
  using libre_seq by (simp add: diario_libre_def diario_nuevo_def diario_de_def journal_nuevo_def libre_release version_instalada_def
      manifest_ej_def cambian_ej_def contenido_de_def punto_libre_def punto_nuevo_def)

lemma libre_versiones: "version_ok ''0.3.9''" "version_ok ''desconocida''" "path_ok ''etc/soso-release''"
  by code_simp+

lemma libre_operacion: "operacion_ok (diario_libre e c)"
  by (simp add: libre_diario operacion_ok_def journal_ok_def libre_versiones ej_version contenido_ok_def contenido_bien_def
      entrada_ok_def entrada_de_def respaldo_de_def punto_libre_def punto_nuevo_def contenido_de_def hex_sha_ej
      is_ascii_hexdigit_def byte_in_def list_all_iff ruta_sistema_def)

lemma libre_esp: "esp_lista crc_ej (maquina_libre e c) None"
  unfolding esp_lista_def
  by (intro conjI exI [of _ "replicate SLOTS blanco"]) (simp_all add: maquina_libre_def ranuras_ok_def blanco_def list_all_iff
      lee_blanco [unfolded blanco_def] is_ok_def)

definition registro_libre :: "u64 \<Rightarrow> boot_record" where
  "registro_libre n = con_punto (bootrec_nuevo DArmado (replicate 32 0) ''0.3.9'' ''desconocida'' n) (replicate 32 0)"

lemma libre_registro: "registro_armado crc_ej (diario_libre e c) (maquina_libre e c) = registro_libre 1"
  using esp_lista_lee [OF libre_esp, of e c]
  by (simp add: registro_armado_def registro_libre_def siguiente_seq_bootrec_def) (simp add: libre_diario)

lemma libre_cabe:
  assumes "n \<in> {1, 8}"
  shows "bootrec_cabe crc_ej (registro_libre n)" "bootrec_cabe crc_ej (publicado (registro_libre n) d)"
proof -
  have sw: "show_word (2 :: u16) = ''2''" "show_word (1 :: u64) = ''1''" "show_word (2 :: u64) = ''2''"
    "show_word (8 :: u64) = ''8''" "show_word (9 :: u64) = ''9''" by code_simp+
  have ld: "length (decision_str d) \<le> 19" for d by (cases d) simp_all
  have "bootrec_ok (registro_libre n)" "bootrec_ok (publicado (registro_libre n) d)"
    using assms by (auto simp: bootrec_ok_def registro_libre_def con_punto_def bootrec_nuevo_def publicado_def libre_versiones ej_version ej_hex)
  moreover have "is_ok (bootrec_format crc_ej (registro_libre n))"
    using assms by (auto simp: bootrec_format_def frame_slot_def frame_def frame_text_def Let_def bootrec_body_def
        registro_libre_def con_punto_def bootrec_nuevo_def BOOTREC_MAGIC_def BOOTREC_FORMATO_def SLOT_SIZE_def ej_hex sw)
  moreover have "is_ok (bootrec_format crc_ej (publicado (registro_libre n) d))"
    using ld [of d] assms by (auto simp: bootrec_format_def frame_slot_def frame_def frame_text_def Let_def bootrec_body_def
        registro_libre_def con_punto_def bootrec_nuevo_def publicado_def BOOTREC_MAGIC_def BOOTREC_FORMATO_def SLOT_SIZE_def ej_hex sw)
  ultimately show "bootrec_cabe crc_ej (registro_libre n)" "bootrec_cabe crc_ej (publicado (registro_libre n) d)"
    by (simp_all add: bootrec_cabe_def)
qed

lemma libre_ranura: "k < SLOTS \<Longrightarrow> ranura_esp (maquina_libre e c) k = blanco"
  using concat_ranura(2) [of "replicate SLOTS blanco" SLOT_SIZE k]
  by (simp add: ranura_esp_def maquina_libre_def) (simp add: blanco_def)

lemma libre_resto: "j_id k = replicate 32 0 \<Longrightarrow> resto_texto crc_ej k (maquina_libre e c)"
  using libre_ficheros [of e c] previos_resto by (simp add: resto_texto_def copia_de_def)

lemma libre_armable: "armable crc_ej None (diario_libre e c) (maquina_libre e c)"
proof -
  have k: "bootrec_ranura (registro_libre 1) < SLOTS" using ranura_less [of SLOTS] by (simp add: bootrec_ranura_def SLOTS_def)
  have i: "j_id (diario_libre e c) = replicate 32 0" by (simp add: libre_diario)
  have "sin_choque crc_ej (replicate 32 0) (maquina_libre e c)"
    by (simp add: sin_choque_def puntos_guardados_def maquina_libre_def)
  moreover have "resto_texto crc_ej (diario_libre e c) (maquina_libre e c)" "resto_texto crc_ej (diario_armado (diario_libre e c)) (maquina_libre e c)"
    using i by (auto intro: libre_resto)
  moreover have "j_seq (diario_libre e c) = 5" by (simp add: libre_diario)
  ultimately show ?thesis
    using libre_esp libre_sanas libre_operacion libre_cabe(1) [of 1] mezcla_blanca [OF libre_cabe(1) [of 1]] libre_ranura [OF k]
    by (simp add: armable_def libre_registro i)
qed

lemma libre_publicable: "publicable crc_ej (maquina_libre e c) (registro_libre 1)"
proof -
  have "bootrec_ranura (publicado (registro_libre 1) d) < SLOTS" for d
    using ranura_less [of SLOTS] by (simp add: bootrec_ranura_def SLOTS_def)
  then show ?thesis
    using libre_cabe [of 1] mezcla_blanca [OF libre_cabe(2) [of 1]]
    by (simp add: publicable_def libre_ranura) (simp add: registro_libre_def con_punto_def bootrec_nuevo_def)
qed

lemma libre_valida: "journal_validate (diario_libre e c) = Inr ()"
proof -
  have "ruta_valida ''bin/init''" "ruta_valida ''etc/soso-release''" by code_simp+
  then show ?thesis by (simp add: journal_validate_def libre_diario entrada_de_def respaldo_de_def punto_libre_def punto_nuevo_def contenido_de_def
      hex_sha_ej validate_entrada_def exige_respaldo_def Let_def contenido_bien_def is_ascii_hexdigit_def byte_in_def list_all_iff)
qed

lemma libre_material:
  "punto_fiel sha_ej punto_libre (maquina_libre e c)" "etapa_completa sha_ej (txn_dir (p_id punto_libre)) cambian_ej (maquina_libre e c)"
  "map e_path (p_entradas punto_libre) = map f_path cambian_ej @ [''etc/soso-release'']"
  by (simp_all add: punto_fiel_def punto_libre_def punto_nuevo_def fichero_activo_def maquina_libre_def dir_punto_def copias_def DIR_BASE_def
      etapa_completa_def cambian_ej_def en_etapa_def vfs_ruta_def contenido_cuadra_def hex_sha_ej)

theorem armar_compromiso_witness:
  "\<exists>r q'. armar crc_ej sha_ej True None manifest_ej (dir_punto (p_id punto_libre) @ ''/etapa'') cambian_ej punto_libre (puesto_libre 3 4) = (r, q') \<and>
     (leer_bootrec_actual crc_ej (pu_m q') = None \<or> esp_vigente crc_ej (pu_m q') (registro_libre 1))"
proof -
  obtain r q' where run: "armar crc_ej sha_ej True None manifest_ej (dir_punto (p_id punto_libre) @ ''/etapa'') cambian_ej punto_libre (puesto_libre 3 4) = (r, q')"
    by fastforce
  have m: "pu_m (puesto_libre 3 4) = maquina_libre 3 4" by (simp add: puesto_libre_def)
  show ?thesis
    using armar_compromiso [OF refl _ refl run, of None] libre_armable [of 3 4] run
    by (auto simp: m libre_registro diario_libre_def [symmetric])
qed

theorem armar_instala_witness:
  "\<exists>q' m'. armar crc_ej sha_ej True None manifest_ej (dir_punto (p_id punto_libre) @ ''/etapa'') cambian_ej punto_libre (puesto_libre 6 0) = (Inr (), q') \<and>
     recuperar crc_ej sha_ej ((pu_m q')\<lparr>m_energia := 20, m_corte := 0\<rparr>) = (True, m') \<and>
     fichero_activo m' ''etc/soso-release'' = Some (texto_release manifest_ej True None)"
proof -
  let ?q = "puesto_libre 6 0"
  have m: "pu_m ?q = maquina_libre 6 0" by (simp add: puesto_libre_def)
  obtain r q' where run: "armar crc_ej sha_ej True None manifest_ej (dir_punto (p_id punto_libre) @ ''/etapa'') cambian_ej punto_libre ?q = (r, q')"
    by fastforce
  have ja: "diario_nuevo crc_ej sha_ej True manifest_ej cambian_ej punto_libre (maquina_libre 6 0) = diario_libre 6 0" by (simp add: diario_libre_def)
  have ar: "armable crc_ej None (diario_nuevo crc_ej sha_ej True manifest_ej cambian_ej punto_libre (pu_m ?q)) (pu_m ?q)"
    using libre_armable by (simp add: ja m)
  have en: "m_energia (maquina_libre 6 0) = 6" by (simp add: maquina_libre_def)
  have "r = Inr ()" using armar_corte(3) [OF refl ar refl run] libre_valida en by (simp add: ja m)
  with run have run: "armar crc_ej sha_ej True None manifest_ej (dir_punto (p_id punto_libre) @ ''/etapa'') cambian_ej punto_libre ?q = (Inr (), q')"
    by simp
  have h: "m_montado (pu_m ?q)" "4 * length cambian_ej + 10 < 20"
    by (simp_all add: m maquina_libre_def cambian_ej_def)
  have sq: "unat (seq_diario_existente crc_ej (p_id punto_libre) (pu_m ?q)) + length cambian_ej < 2 ^ 63"
    using libre_seq [of 6 0] by (simp add: m cambian_ej_def punto_libre_def punto_nuevo_def)
  have nr: "en_etapa (txn_dir (p_id punto_libre)) (pu_m ?q) ''etc/soso-release'' = None"
    by (simp add: m maquina_libre_def en_etapa_def vfs_ruta_def dir_punto_def copias_def DIR_BASE_def)
  have lm: "punto_fiel sha_ej punto_libre (pu_m ?q)" "etapa_completa sha_ej (txn_dir (p_id punto_libre)) cambian_ej (pu_m ?q)"
    using libre_material by (simp_all add: m)
  have pub: "publicable crc_ej (pu_m ?q) (registro_armado crc_ej (diario_nuevo crc_ej sha_ej True manifest_ej cambian_ej punto_libre (pu_m ?q)) (pu_m ?q))"
    using libre_publicable by (simp add: ja m libre_registro)
  from armar_instala [OF refl ar h(1) refl lm(1) libre_material(3) lm(2) sq _ run refl pub h(2), of 0] nr
  obtain m' where "recuperar crc_ej sha_ej ((pu_m q')\<lparr>m_energia := 20, m_corte := 0\<rparr>) = (True, m')"
      "fichero_activo m' ''etc/soso-release'' = Some (texto_release manifest_ej True (read_release (pu_m ?q)))"
    by auto
  then show ?thesis using run libre_release by (auto simp: m)
qed

text \<open>The same machine with the boot record of the operation that was reverted.\<close>

definition maquina_revertida :: "nat \<Rightarrow> nat \<Rightarrow> maquina" where
  "maquina_revertida e c = (maquina_libre e c)\<lparr>m_esp := Some (esp_con crc_ej (bootrec_ej DRevertido))\<rparr>"

lemma diario_nuevo_cong:
  "m_ficheros n = m_ficheros m \<Longrightarrow> diario_nuevo crc sha sk man cambian p n = diario_nuevo crc sha sk man cambian p m"
  by (simp add: diario_nuevo_def version_instalada_def read_release_def read_file_def read_file_bytes_def seq_diario_existente_def)

lemma revertida_armable:
  "armable crc_ej (Some (bootrec_ej DRevertido)) (diario_libre e c) (maquina_revertida e c)"
proof -
  define m where "m = maquina_revertida e c"
  have f: "m_ficheros m = m_ficheros (maquina_libre e c)" "m_base m = None" "m_esp m = Some (esp_con crc_ej (bootrec_ej DRevertido))"
    by (simp_all add: m_def maquina_revertida_def maquina_libre_def)
  have i: "j_id (diario_libre e c) = replicate 32 0" by (simp add: libre_diario)
  have "esp_vigente crc_ej m (bootrec_ej DRevertido)"
    using f(3) by (intro esp_con_vigente [OF ej_cabe(1)]) (simp_all add: m_def maquina_revertida_def maquina_libre_def)
  then have el: "esp_lista crc_ej m (Some (bootrec_ej DRevertido))" by (auto simp: esp_vigente_def esp_lista_def)
  have rg: "registro_armado crc_ej (diario_libre e c) m = registro_libre 8"
    using esp_lista_lee [OF el] by (simp add: registro_armado_def registro_libre_def siguiente_seq_bootrec_def) (simp add: libre_diario)
  have k: "bootrec_ranura (registro_libre 8) < SLOTS" "bootrec_ranura (registro_libre 8) \<noteq> bootrec_ranura (bootrec_ej DRevertido)"
    using ranura_less [of SLOTS] ranura_next [of SLOTS 7]
    by (simp_all add: bootrec_ranura_def SLOTS_def registro_libre_def con_punto_def bootrec_nuevo_def)
  have "ranura_esp m (bootrec_ranura (registro_libre 8)) = blanco" by (rule ranura_con_blanco [OF f(3) ej_cabe(1) k])
  then have mz: "mezcla_detectada crc_ej (ranura_esp m (bootrec_ranura (registro_libre 8))) (bootrec_bytes crc_ej (registro_libre 8))"
    using mezcla_blanca [OF libre_cabe(1) [of 8]] by simp
  have "copias_sanas crc_ej (txn_dir (replicate 32 0)) m" "resto_texto crc_ej (diario_libre e c) m"
      "resto_texto crc_ej (diario_armado (diario_libre e c)) m"
    using libre_sanas [of e c] libre_resto [of _ e c] i by (simp_all add: copias_sanas_def resto_texto_def f)
  moreover have "sin_choque crc_ej (replicate 32 0) m" by (simp add: sin_choque_def puntos_guardados_def f)
  moreover have "j_seq (diario_libre e c) = 5" by (simp add: libre_diario)
  ultimately show ?thesis
    using el libre_operacion libre_cabe(1) [of 8] mz unfolding m_def [symmetric] by (simp add: armable_def rg i)
qed

theorem reintento_cortado_atasca_witness:
  "\<exists>r q'. armar crc_ej sha_ej True None manifest_ej (dir_punto (p_id punto_libre) @ ''/etapa'') cambian_ej punto_libre
      ((puesto_libre 3 0)\<lparr>pu_m := maquina_revertida 3 0\<rparr>) = (r, q') \<and>
     (\<forall>e c. fst (recuperar crc_ej sha_ej ((pu_m q')\<lparr>m_energia := e, m_corte := c\<rparr>)) = False)"
proof -
  let ?q = "(puesto_libre 3 0)\<lparr>pu_m := maquina_revertida 3 0\<rparr>"
  obtain r q' where run: "armar crc_ej sha_ej True None manifest_ej (dir_punto (p_id punto_libre) @ ''/etapa'') cambian_ej punto_libre ?q = (r, q')"
    by fastforce
  have "m_ficheros (pu_m ?q) = m_ficheros (maquina_libre 3 0)" by (simp add: maquina_revertida_def)
  then have dj: "diario_nuevo crc_ej sha_ej True manifest_ej cambian_ej punto_libre (pu_m ?q) = diario_libre 3 0"
    unfolding diario_libre_def by (rule diario_nuevo_cong)
  have ar: "armable crc_ej (Some (bootrec_ej DRevertido)) (diario_nuevo crc_ej sha_ej True manifest_ej cambian_ej punto_libre (pu_m ?q)) (pu_m ?q)"
    using revertida_armable [of 3 0] unfolding dj by simp
  have v: "journal_validate (diario_nuevo crc_ej sha_ej True manifest_ej cambian_ej punto_libre (pu_m ?q)) = Inr ()"
    unfolding dj by (rule libre_valida)
  have h: "m_montado (pu_m ?q)" "m_energia (pu_m ?q) = 3" "m_corte (pu_m ?q) = 0"
    by (simp_all add: maquina_revertida_def maquina_libre_def)
  have b: "b_id (bootrec_ej DRevertido) = p_id punto_libre" "b_dir (bootrec_ej DRevertido) = txn_dir (p_id punto_libre)"
      "b_decision (bootrec_ej DRevertido) \<in> {DConfirmado, DRevertido}"
    by (simp_all add: punto_libre_def punto_nuevo_def ej_hex)
  have "fst (recuperar crc_ej sha_ej ((pu_m q')\<lparr>m_energia := e, m_corte := c\<rparr>)) = False" for e c
    using reintento_cortado_atasca [OF refl ar h(1) b v h(2,3) run] by (metis fst_conv)
  then show ?thesis using run by blast
qed

end
