(* ===== verification/Anillo.thy ===== *)
theory Anillo
  imports Soso_Prelude
begin

text \<open>
  \<open>crates/soso-log-core/src/ring.rs\<close>: the ring of bytes that keeps the last messages of the kernel, with
  a cursor that never saturates.  The capacity is the length of the array.  The ring refines the
  history of everything that was ever appended: what it holds is the end of that history, and a reader
  that advances its own cursor gets each byte once, in order, or is told how many it missed.
\<close>

section \<open>The ring\<close>

record ring =
  rg_data :: bytes
  rg_pos :: nat
  rg_len :: nat
  rg_escritos :: u64

record lectura =
  le_copiados :: nat
  le_perdidos :: u64
  le_cursor :: u64
  le_pendientes :: u64

definition ring_new :: "nat \<Rightarrow> ring" where
  "ring_new cap = \<lparr>rg_data = replicate cap (CHR 0x00), rg_pos = 0, rg_len = 0, rg_escritos = 0\<rparr>"

abbreviation ring_cap :: "ring \<Rightarrow> nat" where
  "ring_cap r \<equiv> length (rg_data r)"

definition ring_paso :: "char \<Rightarrow> ring \<Rightarrow> ring" where
  "ring_paso b r =
     r\<lparr>rg_data := (rg_data r)[rg_pos r := b], rg_pos := (rg_pos r + 1) mod ring_cap r,
       rg_len := (if rg_len r < ring_cap r then rg_len r + 1 else rg_len r)\<rparr>"

definition ring_append :: "bytes \<Rightarrow> ring \<Rightarrow> ring" where
  "ring_append bs r =
     (let r' = fold ring_paso bs r in r'\<lparr>rg_escritos := sat_add (rg_escritos r') (of_nat (length bs))\<rparr>)"

definition ring_start :: "ring \<Rightarrow> nat" where
  "ring_start r = (rg_pos r + ring_cap r - rg_len r) mod ring_cap r"

definition cursor_minimo :: "ring \<Rightarrow> u64" where
  "cursor_minimo r = rg_escritos r - of_nat (rg_len r)"

primrec copy_loop :: "ring \<Rightarrow> nat \<Rightarrow> nat \<Rightarrow> bytes" where
  "copy_loop r 0 idx = []"
| "copy_loop r (Suc n) idx = rg_data r ! idx # copy_loop r n ((idx + 1) mod ring_cap r)"

definition copy_from :: "nat \<Rightarrow> nat \<Rightarrow> ring \<Rightarrow> bytes" where
  "copy_from offset salida r =
     (if offset \<ge> rg_len r \<or> salida = 0 then []
      else copy_loop r (min salida (rg_len r - offset)) ((ring_start r + offset) mod ring_cap r))"

text \<open>\<open>leer_desde\<close> with an output buffer of \<open>salida\<close> bytes: what it copies there and what it returns.\<close>

definition leer_desde :: "u64 \<Rightarrow> nat \<Rightarrow> ring \<Rightarrow> bytes \<times> lectura" where
  "leer_desde cursor salida r =
     (let minimo = cursor_minimo r;
          (c, perdidos) = (if cursor < minimo then (minimo, minimo - cursor) else (min cursor (rg_escritos r), 0));
          copia = copy_from (unat (c - minimo)) salida r;
          c' = c + of_nat (length copia)
      in (copia, \<lparr>le_copiados = length copia, le_perdidos = perdidos, le_cursor = c',
                  le_pendientes = rg_escritos r - c'\<rparr>))"

section \<open>Striking out a secret\<close>

definition coincide :: "string \<Rightarrow> nat \<Rightarrow> ring \<Rightarrow> bool" where
  "coincide secreto i r =
     list_all (\<lambda>j. rg_data r ! ((ring_start r + i + j) mod ring_cap r) = secreto ! j) [0..<length secreto]"

definition tapar :: "nat \<Rightarrow> nat \<Rightarrow> ring \<Rightarrow> ring" where
  "tapar n i r =
     fold (\<lambda>j r. r\<lparr>rg_data := (rg_data r)[(ring_start r + i + j) mod ring_cap r := CHR ''*'']\<rparr>) [0..<n] r"

function tachar_loop :: "string \<Rightarrow> nat \<Rightarrow> nat \<Rightarrow> ring \<Rightarrow> ring" where
  "tachar_loop secreto n i r =
     (if secreto \<noteq> [] \<and> i + length secreto \<le> n
      then if coincide secreto i r then tachar_loop secreto n (i + length secreto) (tapar (length secreto) i r)
           else tachar_loop secreto n (i + 1) r
      else r)"
  by pat_completeness auto
termination
  by (relation "measure (\<lambda>(secreto, n, i, r). n - i)") (auto intro!: diff_less_mono2 simp flip: length_greater_0_conv)

declare tachar_loop.simps [simp del]

definition tachar :: "string \<Rightarrow> ring \<Rightarrow> ring" where
  "tachar secreto r = (if secreto = [] \<or> rg_len r = 0 then r else tachar_loop secreto (rg_len r) 0 r)"

section \<open>What the ring holds\<close>

definition ring_ok :: "ring \<Rightarrow> bool" where
  "ring_ok r \<longleftrightarrow> 0 < ring_cap r \<and> rg_pos r < ring_cap r \<and> rg_len r \<le> ring_cap r \<and>
     (rg_len r < ring_cap r \<longrightarrow> rg_pos r = rg_len r)"

definition contenido_ring :: "ring \<Rightarrow> bytes" where
  "contenido_ring r = map (\<lambda>k. rg_data r ! ((ring_start r + k) mod ring_cap r)) [0..<rg_len r]"

definition ring_refina :: "ring \<Rightarrow> bytes \<Rightarrow> bool" where
  "ring_refina r h \<longleftrightarrow> ring_ok r \<and> rg_len r = min (ring_cap r) (length h) \<and>
     contenido_ring r = drop (length h - rg_len r) h \<and> length h < 2 ^ 64 \<and> rg_escritos r = of_nat (length h)"

lemma ring_start_casos:
  assumes "ring_ok r"
  shows "ring_start r = (if rg_len r < ring_cap r then 0 else rg_pos r)"
  using assms by (auto simp: ring_ok_def ring_start_def)

lemma length_contenido [simp]: "length (contenido_ring r) = rg_len r"
  by (simp add: contenido_ring_def)

lemma contenido_nth: "k < rg_len r \<Longrightarrow> contenido_ring r ! k = rg_data r ! ((ring_start r + k) mod ring_cap r)"
  by (simp add: contenido_ring_def)

lemma mod_suc_salta:
  fixes p k n :: nat
  assumes "p < n" "k < n - 1"
  shows "(p + Suc k) mod n \<noteq> p" "((p + 1) mod n + k) mod n = (p + Suc k) mod n"
proof -
  show "((p + 1) mod n + k) mod n = (p + Suc k) mod n" by (simp add: mod_add_left_eq)
  show "(p + Suc k) mod n \<noteq> p"
    using assms by (cases "p + Suc k < n") (auto simp: mod_if not_less le_mod_geq)
qed

lemma paso_ok: "ring_ok r \<Longrightarrow> ring_ok (ring_paso b r)"
  by (auto simp: ring_ok_def ring_paso_def mod_Suc)

lemma paso_contenido:
  assumes "ring_ok r"
  shows "contenido_ring (ring_paso b r) = drop (if rg_len r < ring_cap r then 0 else 1) (contenido_ring r) @ [b]"
proof (rule nth_equalityI)
  let ?r = "ring_paso b r"
  have r: "rg_data ?r = (rg_data r)[rg_pos r := b]" "rg_pos ?r = (rg_pos r + 1) mod ring_cap r"
    "rg_len ?r = (if rg_len r < ring_cap r then rg_len r + 1 else rg_len r)" by (simp_all add: ring_paso_def)
  note ok = assms [unfolded ring_ok_def] and ok' = paso_ok [OF assms, of b]
  note st = ring_start_casos [OF assms] ring_start_casos [OF ok']
  show "length (contenido_ring ?r) = length (drop (if rg_len r < ring_cap r then 0 else 1) (contenido_ring r) @ [b])"
    using ok by (auto simp: r)
  fix k assume k: "k < length (contenido_ring ?r)"
  show "contenido_ring ?r ! k = (drop (if rg_len r < ring_cap r then 0 else 1) (contenido_ring r) @ [b]) ! k"
  proof (cases "rg_len r < ring_cap r")
    case True
    then have "ring_start ?r = 0 \<or> ring_start ?r = 0 mod ring_cap r"
      using ok st(2) by (auto simp: r mod_Suc)
    then have s: "ring_start ?r = 0" by auto
    show ?thesis using True ok k st(1) s by (auto simp: r contenido_nth nth_append nth_list_update)
  next
    case False
    then have s: "ring_start r = rg_pos r" "ring_start ?r = (rg_pos r + 1) mod ring_cap r" "rg_len r = ring_cap r"
      using ok st by (auto simp: r)
    show ?thesis
    proof (cases "k < ring_cap r - 1")
      case True
      then show ?thesis
        using False ok k s mod_suc_salta [of "rg_pos r" "ring_cap r" k]
        by (simp add: r contenido_nth nth_append nth_list_update)
    next
      case f: False
      then have "k = ring_cap r - 1" using k s(3) by (simp add: r)
      moreover have "((rg_pos r + 1) mod ring_cap r + (ring_cap r - 1)) mod ring_cap r = rg_pos r"
        using ok by (cases "rg_pos r + 1 = ring_cap r") simp_all
      ultimately show ?thesis using False ok k s by (simp add: r contenido_nth nth_append)
    qed
  qed
qed

lemma pasos_refina:
  assumes "ring_ok r" "contenido_ring r = drop (length h - rg_len r) h" "rg_len r = min (ring_cap r) (length h)"
  shows "ring_ok (fold ring_paso bs r) \<and> ring_cap (fold ring_paso bs r) = ring_cap r \<and>
    rg_escritos (fold ring_paso bs r) = rg_escritos r \<and>
    rg_len (fold ring_paso bs r) = min (ring_cap r) (length (h @ bs)) \<and>
    contenido_ring (fold ring_paso bs r) = drop (length (h @ bs) - rg_len (fold ring_paso bs r)) (h @ bs)"
  using assms
proof (induction bs arbitrary: r h)
  case (Cons b bs)
  let ?r = "ring_paso b r"
  have l: "rg_len ?r = min (ring_cap ?r) (length (h @ [b]))" and c: "ring_cap ?r = ring_cap r" "rg_escritos ?r = rg_escritos r"
    using Cons.prems(3) by (auto simp: ring_paso_def)
  have "contenido_ring ?r = drop (length (h @ [b]) - rg_len ?r) (h @ [b])"
    using paso_contenido [OF Cons.prems(1), of b] Cons.prems(2,3) l c Cons.prems(1) [unfolded ring_ok_def]
    by (auto simp: min_def diff_is_0_eq Suc_diff_le split: if_splits)
  from Cons.IH [OF paso_ok [OF Cons.prems(1)] this l] show ?case by (simp add: c)
qed simp

lemma escritos_indiferente [simp]:
  "ring_ok (r\<lparr>rg_escritos := x\<rparr>) = ring_ok r" "contenido_ring (r\<lparr>rg_escritos := x\<rparr>) = contenido_ring r"
  by (simp_all add: ring_ok_def contenido_ring_def ring_start_def)

lemma append_refina:
  assumes "ring_refina r h" "length h + length bs < 2 ^ 64"
  shows "ring_refina (ring_append bs r) (h @ bs)" "ring_cap (ring_append bs r) = ring_cap r"
proof -
  define r' where "r' = fold ring_paso bs r"
  have r: "ring_ok r" "contenido_ring r = drop (length h - rg_len r) h" "rg_len r = min (ring_cap r) (length h)"
    "rg_escritos r = of_nat (length h)" using assms(1) by (simp_all add: ring_refina_def)
  note p = pasos_refina [OF r(1-3), of bs, folded r'_def]
  have "sat_add (of_nat (length h) :: u64) (of_nat (length bs)) = of_nat (length h + length bs)"
    using assms(2) by (simp add: sat_add_def unat_of_nat)
  then have "ring_append bs r = r'\<lparr>rg_escritos := of_nat (length (h @ bs))\<rparr>"
    using p r(4) by (simp add: ring_append_def Let_def r'_def [symmetric])
  then show "ring_refina (ring_append bs r) (h @ bs)" "ring_cap (ring_append bs r) = ring_cap r"
    using p assms(2) by (simp_all add: ring_refina_def)
qed

lemma nuevo_refina: "0 < cap \<Longrightarrow> ring_refina (ring_new cap) []"
  by (simp add: ring_refina_def ring_new_def ring_ok_def contenido_ring_def)

lemma copy_loop_eq:
  "idx < ring_cap r \<Longrightarrow> copy_loop r n idx = map (\<lambda>k. rg_data r ! ((idx + k) mod ring_cap r)) [0..<n]"
proof (induction n arbitrary: idx)
  case (Suc n)
  have "(idx + 1) mod ring_cap r < ring_cap r" using Suc.prems by (intro mod_less_divisor) linarith
  from Suc.IH [OF this] Suc.prems show ?case
    by (simp add: upt_conv_Cons map_Suc_upt [symmetric] mod_add_left_eq del: upt_Suc)
qed simp

lemma copy_from_eq:
  assumes "ring_ok r"
  shows "copy_from offset salida r = take salida (drop offset (contenido_ring r))"
proof (cases "offset < rg_len r")
  case True
  have "(ring_start r + offset) mod ring_cap r < ring_cap r" using assms by (simp add: ring_ok_def)
  then have "copy_loop r n ((ring_start r + offset) mod ring_cap r) =
      map (\<lambda>k. rg_data r ! ((ring_start r + (offset + k)) mod ring_cap r)) [0..<n]" for n
    by (simp add: copy_loop_eq mod_add_left_eq add.assoc)
  then show ?thesis
    using True by (auto simp: copy_from_def contenido_ring_def intro!: nth_equalityI)
qed (simp add: copy_from_def)

text \<open>A read, in terms of the history: the cursor is brought inside what is still kept, the bytes from
  there on are copied, and what lies between is counted as lost.\<close>

lemma leer_refina:
  assumes "ring_refina r h"
  defines "m \<equiv> length h - rg_len r" and "n \<equiv> length h"
  shows "leer_desde cursor salida r =
    (let c = max m (min (unat cursor) n); copia = take salida (drop c h) in
     (copia, \<lparr>le_copiados = length copia, le_perdidos = of_nat (m - unat cursor), le_cursor = of_nat (c + length copia),
       le_pendientes = of_nat (n - (c + length copia))\<rparr>))"
proof -
  have ok: "ring_ok r" and len: "rg_len r \<le> n" and hn: "n < 2 ^ 64" and es: "rg_escritos r = of_nat n"
    and ct: "contenido_ring r = drop m h"
    using assms by (auto simp: ring_refina_def)
  have mi: "cursor_minimo r = of_nat m" using len es by (simp add: cursor_minimo_def m_def n_def of_nat_diff)
  have um: "unat (of_nat k :: u64) = k" if "k \<le> n" for k using that hn by (simp add: unat_of_nat)
  define c where "c = max m (min (unat cursor) n)"
  have cn: "m \<le> c" "c \<le> n" by (auto simp: c_def m_def n_def)
  have par: "(if cursor < of_nat m then (of_nat m, of_nat m - cursor) else (min cursor (of_nat n), 0)) =
      (of_nat c :: u64, of_nat (m - unat cursor))"
  proof (cases "cursor < of_nat m")
    case True
    then have "unat cursor < m" using um [of m] by (simp add: word_less_nat_alt m_def n_def)
    then show ?thesis using True by (simp add: c_def of_nat_diff m_def n_def)
  next
    case False
    then have g: "m \<le> unat cursor" using um [of m] by (simp add: word_less_nat_alt m_def n_def)
    have "min cursor (of_nat n) = of_nat (min (unat cursor) n)"
      using um [of n] by (auto simp: min_def word_le_nat_alt)
    moreover have "m \<le> n" by (simp add: m_def n_def)
    ultimately show ?thesis using False g by (simp add: c_def max_def)
  qed
  have off: "unat (of_nat c - of_nat m :: u64) = c - m"
  proof -
    have "(of_nat c - of_nat m :: u64) = of_nat (c - m)" using cn(1) by (simp add: of_nat_diff)
    then show ?thesis using um [of "c - m"] cn(2) by simp
  qed
  have cop: "copy_from (c - m) salida r = take salida (drop c h)" using cn by (simp add: copy_from_eq [OF ok] ct)
  have "length (take salida (drop c h)) \<le> n - c" by (simp add: n_def)
  then have pe: "(of_nat n :: u64) - (of_nat c + of_nat (length (take salida (drop c h)))) =
      of_nat (n - (c + length (take salida (drop c h))))"
    using cn by (simp only: of_nat_add [symmetric]) (simp add: of_nat_diff)
  show ?thesis
    unfolding leer_desde_def Let_def mi es par prod.case off cop c_def [symmetric] pe by simp
qed

section \<open>Striking out, in terms of the content\<close>

text \<open>The reference: occurrences from the left, without overlap, become stars.\<close>

function tachado :: "string \<Rightarrow> string \<Rightarrow> string" where
  "tachado s xs =
     (if s \<noteq> [] \<and> length s \<le> length xs
      then if take (length s) xs = s then replicate (length s) CHR ''*'' @ tachado s (drop (length s) xs)
           else hd xs # tachado s (tl xs)
      else xs)"
  by pat_completeness auto
termination by (relation "measure (\<lambda>(s, xs). length xs)") (auto simp flip: length_greater_0_conv)

declare tachado.simps [simp del]

lemma mod_desplaza_inj:
  fixes a i j n :: nat
  assumes "(a + i) mod n = (a + j) mod n" "i < n" "j < n"
  shows "i = j"
proof -
  have "i mod n = j mod n" using assms(1) by (simp add: nat_mod_eq_iff mod_add_cong)
  then show ?thesis using assms(2,3) by simp
qed

lemma contenido_update:
  assumes "ring_ok r" "k < rg_len r"
  shows "contenido_ring (r\<lparr>rg_data := (rg_data r)[(ring_start r + k) mod ring_cap r := x]\<rparr>) = (contenido_ring r)[k := x]"
proof (rule nth_equalityI)
  let ?r = "r\<lparr>rg_data := (rg_data r)[(ring_start r + k) mod ring_cap r := x]\<rparr>"
  show "length (contenido_ring ?r) = length ((contenido_ring r)[k := x])" by simp
  fix i assume i: "i < length (contenido_ring ?r)"
  have st: "ring_start ?r = ring_start r" by (simp add: ring_start_def)
  have cap: "rg_len r \<le> ring_cap r" "0 < ring_cap r" using assms(1) by (simp_all add: ring_ok_def)
  have lt: "(ring_start r + k) mod ring_cap r < ring_cap r" using cap(2) by (rule mod_less_divisor)
  have "(ring_start r + k) mod ring_cap r = (ring_start r + i) mod ring_cap r \<longleftrightarrow> k = i"
    using mod_desplaza_inj [of "ring_start r" k "ring_cap r" i] assms(2) i cap by auto
  then show "contenido_ring ?r ! i = (contenido_ring r)[k := x] ! i"
    using i assms(2) lt by (auto simp: contenido_nth st nth_list_update)
qed

lemma tapar_contenido:
  assumes "ring_ok r" "i + n \<le> rg_len r"
  shows "contenido_ring (tapar n i r) = take i (contenido_ring r) @ replicate n CHR ''*'' @ drop (i + n) (contenido_ring r)
    \<and> ring_ok (tapar n i r) \<and> rg_len (tapar n i r) = rg_len r \<and> ring_start (tapar n i r) = ring_start r
    \<and> ring_cap (tapar n i r) = ring_cap r \<and> rg_escritos (tapar n i r) = rg_escritos r"
  using assms(2)
proof (induction n)
  case 0
  then show ?case using assms(1) by (simp add: tapar_def)
next
  case (Suc n)
  define t where "t = tapar n i r"
  have IH: "contenido_ring t = take i (contenido_ring r) @ replicate n CHR ''*'' @ drop (i + n) (contenido_ring r)"
    "ring_ok t" "rg_len t = rg_len r" "ring_start t = ring_start r" "ring_cap t = ring_cap r" "rg_escritos t = rg_escritos r"
    using Suc by (simp_all add: t_def)
  have tn: "tapar (Suc n) i r = t\<lparr>rg_data := (rg_data t)[(ring_start t + (i + n)) mod ring_cap t := CHR ''*'']\<rparr>"
    by (simp add: tapar_def t_def add.assoc)
  have k: "i + n < rg_len t" using Suc.prems IH(3) by simp
  have "drop (i + n) (contenido_ring r) = contenido_ring r ! (i + n) # drop (Suc (i + n)) (contenido_ring r)"
    using k IH(3) by (simp add: Cons_nth_drop_Suc)
  then have "(contenido_ring t)[i + n := CHR ''*''] =
      take i (contenido_ring r) @ replicate (Suc n) CHR ''*'' @ drop (i + Suc n) (contenido_ring r)"
    using k IH(3) by (simp add: IH(1) list_update_append replicate_append_same [symmetric])
  moreover have "ring_ok (tapar (Suc n) i r)" using IH(2) unfolding tn by (simp add: ring_ok_def)
  ultimately show ?case
    using contenido_update [OF IH(2) k, of "CHR ''*''"] IH unfolding tn by (simp add: ring_start_def)
qed

lemma coincide_iff:
  "i + length s \<le> rg_len r \<Longrightarrow> coincide s i r \<longleftrightarrow> take (length s) (drop i (contenido_ring r)) = s"
proof -
  assume i: "i + length s \<le> rg_len r"
  have "take (length s) (drop i (contenido_ring r)) ! j = contenido_ring r ! (i + j)" if "j < length s" for j
    using that i by simp
  then have "take (length s) (drop i (contenido_ring r)) = s \<longleftrightarrow> (\<forall>j < length s. contenido_ring r ! (i + j) = s ! j)"
    using i by (subst list_eq_iff_nth_eq) simp
  then show ?thesis using i by (auto simp: coincide_def list_all_iff contenido_nth add.assoc)
qed

lemma tachar_loop_refina:
  assumes "ring_ok r" "rg_len r = n" "i \<le> n"
  shows "contenido_ring (tachar_loop s n i r) = take i (contenido_ring r) @ tachado s (drop i (contenido_ring r)) \<and>
    ring_ok (tachar_loop s n i r) \<and> rg_len (tachar_loop s n i r) = rg_len r \<and> ring_cap (tachar_loop s n i r) = ring_cap r \<and>
    rg_escritos (tachar_loop s n i r) = rg_escritos r"
  using assms
proof (induction s n i r rule: tachar_loop.induct)
  case (1 s n i r)
  define c where "c = contenido_ring r"
  have lc: "length c = n" using 1(4) by (simp add: c_def)
  show ?case
  proof (cases "s \<noteq> [] \<and> i + length s \<le> n")
    case False
    then have "tachado s (drop i c) = drop i c" using 1(5) lc by (subst tachado.simps) auto
    moreover have "tachar_loop s n i r = r" using False by (subst tachar_loop.simps) auto
    ultimately show ?thesis using 1(3) by (simp add: c_def)
  next
    case True
    show ?thesis
    proof (cases "coincide s i r")
      case co: True
      note tp = tapar_contenido [OF 1(3), of i "length s"]
      have e: "tachar_loop s n i r = tachar_loop s n (i + length s) (tapar (length s) i r)"
        using True co by (subst tachar_loop.simps) simp
      have "take (length s) (drop i c) = s" using coincide_iff [of i s r] True co 1(4) by (simp add: c_def)
      then have t: "tachado s (drop i c) = replicate (length s) CHR ''*'' @ tachado s (drop (i + length s) c)"
        using True lc by (subst tachado.simps) (auto simp: add.commute)
      show ?thesis
        using 1(1) [OF True co] tp True 1(4) lc by (simp add: e t c_def [symmetric])
    next
      case co: False
      have e: "tachar_loop s n i r = tachar_loop s n (i + 1) r" using True co by (subst tachar_loop.simps) simp
      have i: "i < n" using True by (cases s) auto
      then have d: "drop i c = c ! i # drop (Suc i) c" using lc by (simp add: Cons_nth_drop_Suc)
      have "take (length s) (drop i c) \<noteq> s" using coincide_iff [of i s r] True co 1(4) by (simp add: c_def)
      then have t: "tachado s (drop i c) = c ! i # tachado s (drop (Suc i) c)"
        using True lc by (subst tachado.simps) (auto simp: d)
      show ?thesis
        using 1(2) [OF True co] 1(3,4) i lc by (simp add: e t c_def [symmetric] take_Suc_conv_app_nth)
    qed
  qed
qed

lemma tachar_refina:
  assumes "ring_ok r"
  shows "contenido_ring (tachar s r) = tachado s (contenido_ring r)" "ring_ok (tachar s r)" "rg_len (tachar s r) = rg_len r"
    "ring_cap (tachar s r) = ring_cap r" "rg_escritos (tachar s r) = rg_escritos r"
proof -
  have "tachado s (contenido_ring r) = contenido_ring r" if "s = [] \<or> rg_len r = 0"
    using that by (subst tachado.simps) auto
  then show "contenido_ring (tachar s r) = tachado s (contenido_ring r)" "ring_ok (tachar s r)" "rg_len (tachar s r) = rg_len r"
    "ring_cap (tachar s r) = ring_cap r" "rg_escritos (tachar s r) = rg_escritos r"
    using tachar_loop_refina [OF assms refl, of 0 s] assms by (auto simp: tachar_def)
qed

lemma tachado_parecido: "list_all2 (\<lambda>a b. a = CHR ''*'' \<or> a = b) (tachado s xs) xs"
proof (induction s xs rule: tachado.induct)
  case (1 s xs)
  show ?case
  proof (cases "s \<noteq> [] \<and> length s \<le> length xs")
    case False
    then show ?thesis by (subst tachado.simps) (auto simp: list_all2_same)
  next
    case True
    then obtain y ys where xs: "xs = y # ys" by (cases xs) auto
    show ?thesis
    proof (cases "take (length s) xs = s")
      case t: True
      have "list_all2 (\<lambda>a b. a = CHR ''*'' \<or> a = b) (replicate (length s) CHR ''*'' @ tachado s (drop (length s) xs))
          (take (length s) xs @ drop (length s) xs)"
        using 1(1) [OF True t] True by (intro list_all2_appendI) (auto simp: list_all2_conv_all_nth)
      then have "list_all2 (\<lambda>a b. a = CHR ''*'' \<or> a = b) (replicate (length s) CHR ''*'' @ tachado s (drop (length s) xs)) xs"
        unfolding append_take_drop_id .
      then show ?thesis using True t by (subst tachado.simps) simp
    next
      case False
      then show ?thesis using 1(2) [OF True False] True xs by (subst tachado.simps) simp
    qed
  qed
qed

lemma tachado_prefijo:
  assumes "prefix p (tachado s xs)" "CHR ''*'' \<notin> set p"
  shows "prefix p xs"
proof -
  have l: "length (tachado s xs) = length xs" and e: "\<And>k. k < length xs \<Longrightarrow> tachado s xs ! k = CHR ''*'' \<or> tachado s xs ! k = xs ! k"
    using tachado_parecido [of s xs] by (auto simp: list_all2_conv_all_nth)
  obtain z where z: "tachado s xs = p @ z" using assms(1) by (auto simp: prefix_def)
  have lp: "length p \<le> length xs" using l z by simp
  have "p ! k = xs ! k" if "k < length p" for k
  proof -
    have "p ! k \<noteq> CHR ''*''" using nth_mem [OF that] assms(2) by metis
    then show ?thesis using e [of k] that lp z by (simp add: nth_append)
  qed
  then have "p = take (length p) xs" using lp by (intro nth_equalityI) auto
  then show ?thesis by (metis take_is_prefix)
qed

lemma tachado_borra:
  assumes "s \<noteq> []" "CHR ''*'' \<notin> set s"
  shows "\<not> sublist s (tachado s xs)"
  using assms
proof (induction s xs rule: tachado.induct)
  case (1 s xs)
  show ?case
  proof (cases "length s \<le> length xs")
    case False
    then show ?thesis by (subst tachado.simps) (auto dest: sublist_length_le)
  next
    case True
    then obtain y ys where xs: "xs = y # ys" using 1(3) by (cases xs) auto
    show ?thesis
    proof (cases "take (length s) xs = s")
      case t: True
      have IH: "\<not> sublist s (tachado s (drop (length s) xs))" using 1 True t by blast
      have "a = []" if "suffix a (replicate n CHR ''*'')" "s = a @ b" for a b n
      proof (rule ccontr)
        assume "a \<noteq> []"
        then have "hd a \<in> set a" by simp
        then have "hd a = CHR ''*''" using set_mono_suffix [OF that(1)] by auto
        then show False using \<open>hd a \<in> set a\<close> that(2) 1(4) by simp
      qed
      moreover have "\<not> sublist s (replicate (length s) CHR ''*'')"
        using 1(3,4) set_mono_sublist [of s "replicate (length s) CHR ''*''"] by (cases s) auto
      ultimately have "\<not> sublist s (replicate (length s) CHR ''*'' @ tachado s (drop (length s) xs))"
        unfolding sublist_append using IH prefix_imp_sublist by (metis append_Nil)
      then show ?thesis using t True 1(3) by (subst tachado.simps) simp
    next
      case False
      have IH: "\<not> sublist s (tachado s (tl xs))" using 1 True False by blast
      have "\<not> prefix s (y # tachado s ys)"
      proof
        assume p: "prefix s (y # tachado s ys)"
        then obtain t where t: "s = y # t" "prefix t (tachado s ys)" using 1(3) by (cases s) auto
        then have "prefix t ys" using tachado_prefijo 1(4) by simp
        then show False using False t xs by (auto simp: prefix_def)
      qed
      then show ?thesis using IH False True xs 1(3) by (subst tachado.simps) (simp add: sublist_Cons_right)
    qed
  qed
qed

section \<open>A reader\<close>

text \<open>The calls that reach a ring: messages are appended, and a reader that keeps its own cursor asks
  for up to \<open>n\<close> bytes.  Each answer is the number of bytes lost before it and the bytes.\<close>

datatype ring_op = Anexa bytes | Lee nat

fun ring_ops :: "ring_op list \<Rightarrow> ring \<Rightarrow> u64 \<Rightarrow> (u64 \<times> bytes) list \<times> ring \<times> u64" where
  "ring_ops [] r c = ([], r, c)"
| "ring_ops (Anexa bs # ops) r c = ring_ops ops (ring_append bs r) c"
| "ring_ops (Lee n # ops) r c =
     (case leer_desde c n r of (bs, l) \<Rightarrow>
      case ring_ops ops r (le_cursor l) of (out, r', c') \<Rightarrow> ((le_perdidos l, bs) # out, r', c'))"

fun anexado :: "ring_op list \<Rightarrow> bytes" where
  "anexado [] = []"
| "anexado (Anexa bs # ops) = bs @ anexado ops"
| "anexado (Lee n # ops) = anexado ops"

text \<open>The answers are a faithful account of a history: each one skips what it says was lost and goes on
  with what comes next.\<close>

fun relato :: "(u64 \<times> bytes) list \<Rightarrow> bytes \<Rightarrow> bool" where
  "relato [] h = True"
| "relato ((p, bs) # out) h \<longleftrightarrow> unat p + length bs \<le> length h \<and> take (length bs) (drop (unat p) h) = bs \<and>
     relato out (drop (unat p + length bs) h)"

lemma ring_ops_relato:
  assumes "ring_refina r h" "unat c \<le> length h" "ring_ops ops r c = (out, r', c')" "length h + length (anexado ops) < 2 ^ 64"
  shows "ring_refina r' (h @ anexado ops) \<and> relato out (drop (unat c) (h @ anexado ops)) \<and> ring_cap r' = ring_cap r \<and>
    unat c' = unat c + sum_list (map (\<lambda>(p, bs). unat p + length bs) out) \<and> unat c' \<le> length h + length (anexado ops)"
  using assms
proof (induction ops arbitrary: r h c out)
  case (Cons op ops)
  show ?case
  proof (cases op)
    case (Anexa bs)
    have f: "ring_refina (ring_append bs r) (h @ bs)" "ring_cap (ring_append bs r) = ring_cap r"
      using append_refina [OF Cons.prems(1)] Cons.prems(4) Anexa by auto
    show ?thesis using Cons.IH [OF f(1), of c out] Cons.prems(2-4) Anexa f(2) by (simp add: add.assoc)
  next
    case (Lee n)
    define m where "m = length h - rg_len r"
    define k where "k = max m (min (unat c) (length h))"
    define bs where "bs = take n (drop k h)"
    have k: "k = max m (unat c)" "k \<le> length h" using Cons.prems(2) by (auto simp: k_def m_def)
    have hb: "length h < 2 ^ 64" using Cons.prems(4) by simp
    have lb: "k + length bs \<le> length h" using k(2) by (simp add: bs_def)
    have u: "unat (of_nat x :: u64) = x" if "x < 2 ^ 64" for x using that by (simp add: unat_of_nat)
    have un: "unat (of_nat (k + length bs) :: u64) = k + length bs" "unat (of_nat (m - unat c) :: u64) = m - unat c"
      using u [of "k + length bs"] u [of "m - unat c"] lb hb by (simp_all only: m_def)
    have "leer_desde c n r = (bs, \<lparr>le_copiados = length bs, le_perdidos = of_nat (m - unat c), le_cursor = of_nat (k + length bs),
        le_pendientes = of_nat (length h - (k + length bs))\<rparr>)"
      using leer_refina [OF Cons.prems(1), of c n] unfolding Let_def m_def [symmetric] k_def [symmetric] bs_def [symmetric] .
    then obtain out' where o: "ring_ops ops r (of_nat (k + length bs)) = (out', r', c')" "out = (of_nat (m - unat c), bs) # out'"
      using Cons.prems(3) by (auto simp: Lee simp del: of_nat_add split: prod.splits)
    note IH = Cons.IH [OF Cons.prems(1) _ o(1)]
    have s: "m - unat c + unat c = k" "unat c + (m - unat c) = k" using k(1) by auto
    have "take (length bs) (drop k (h @ anexado ops)) = bs" using lb by (simp add: bs_def min_def)
    then show ?thesis
      using IH lb Cons.prems(4) un s Lee by (auto simp: o(2) add.commute add.left_commute)
  qed
qed simp

section \<open>Properties\<close>

text \<open>C20 (\<open>Ring::append\<close>, \<open>leer_desde\<close>): the ring refines the history of what was appended.  Whatever the
  order and sizes of messages and reads, the ring holds the last bytes of the history up to its
  capacity, and the answers to a reader that started at zero account for the history exactly: nothing
  is repeated, nothing is invented, and each gap has the announced length.\<close>

theorem ring_cuenta_todo:
  assumes "0 < cap" "ring_ops ops (ring_new cap) 0 = (out, r, c)" "length (anexado ops) < 2 ^ 64"
  shows "contenido_ring r = drop (length (anexado ops) - cap) (anexado ops) \<and>
    rg_escritos r = of_nat (length (anexado ops)) \<and> relato out (anexado ops) \<and>
    unat c = sum_list (map (\<lambda>(p, bs). unat p + length bs) out) \<and> unat c \<le> length (anexado ops)"
proof -
  have cap: "ring_cap (ring_new cap) = cap" by (simp add: ring_new_def)
  have "ring_refina r (anexado ops)" "ring_cap r = cap" "relato out (anexado ops)"
    "unat c = sum_list (map (\<lambda>(p, bs). unat p + length bs) out)" "unat c \<le> length (anexado ops)"
    using ring_ops_relato [OF nuevo_refina [OF assms(1)] _ assms(2)] assms(3) cap by auto
  then show ?thesis by (auto simp: ring_refina_def min_def)
qed

theorem ring_cuenta_todo_witness:
  "\<exists>out r c. ring_ops [Anexa ''abc'', Lee 2, Anexa ''defgh'', Lee 9] (ring_new 4) 0 = (out, r, c) \<and>
     contenido_ring r = ''efgh'' \<and> relato out ''abcdefgh''"
proof -
  obtain out r c where run: "ring_ops [Anexa ''abc'', Lee 2, Anexa ''defgh'', Lee 9] (ring_new 4) 0 = (out, r, c)"
    by (metis surj_pair)
  then show ?thesis using ring_cuenta_todo [OF _ run] by auto
qed

text \<open>C21 (\<open>Ring::tachar\<close>): striking out a secret rewrites the content of the ring, and nothing but it, as the
  reference does from the left; a secret without stars occurs nowhere afterwards, not even across the
  end of the array, and a later read can only see it again if it is written again.\<close>

theorem tachar_no_deja_rastro:
  assumes "ring_ok r" "secreto \<noteq> []" "CHR ''*'' \<notin> set secreto"
  shows "contenido_ring (tachar secreto r) = tachado secreto (contenido_ring r) \<and>
    \<not> sublist secreto (contenido_ring (tachar secreto r)) \<and>
    list_all2 (\<lambda>a b. a = CHR ''*'' \<or> a = b) (contenido_ring (tachar secreto r)) (contenido_ring r) \<and>
    ring_ok (tachar secreto r) \<and> rg_escritos (tachar secreto r) = rg_escritos r \<and>
    \<not> sublist secreto (fst (leer_desde c n (tachar secreto r)))"
proof -
  note t = tachar_refina [OF assms(1), of secreto]
  have no: "\<not> sublist secreto (contenido_ring (tachar secreto r))" using tachado_borra [OF assms(2,3)] t(1) by simp
  have "sublist (fst (leer_desde c n (tachar secreto r))) (contenido_ring (tachar secreto r))"
    by (auto simp: leer_desde_def Let_def copy_from_eq [OF t(2)] split: prod.split
        intro: sublist_order.order_trans [OF sublist_take sublist_drop])
  then have "\<not> sublist secreto (fst (leer_desde c n (tachar secreto r)))" using no sublist_order.order_trans by blast
  then show ?thesis using no t tachado_parecido by auto
qed

theorem tachar_no_deja_rastro_witness:
  "contenido_ring (tachar ''pw'' (ring_append ''xxpwp'' (ring_new 4))) = ''x**p'' \<and>
   \<not> sublist ''pw'' (contenido_ring (tachar ''pw'' (ring_append ''xxpwp'' (ring_new 4))))"
proof -
  let ?r = "ring_append ''xxpwp'' (ring_new 4)"
  have "ring_refina ?r ''xxpwp''" "ring_cap ?r = 4"
    using append_refina [OF nuevo_refina [of 4], of "''xxpwp''"] by (simp_all add: ring_new_def)
  then have ok: "ring_ok ?r" and "contenido_ring ?r = ''xpwp''" by (simp_all add: ring_refina_def)
  moreover have "tachado ''pw'' ''xpwp'' = ''x**p''" by code_simp
  ultimately show ?thesis using tachar_no_deja_rastro [of ?r "''pw''" 0 0] by auto
qed

end
