(* ===== verification/Bitacora.thy ===== *)
theory Bitacora
  imports Anillo Rust_Str
begin

text \<open>
  The native logs of soso: \<open>rotacion.rs\<close>, \<open>flujo.rs\<close>, \<open>texto.rs\<close> and \<open>sectores.rs\<close> of
  \<open>crates/soso-log-core/src\<close>, and the writer of the kernel, \<open>kernel/src/drivers/logfs.rs\<close>, which takes
  batches from a ring and appends them to a file that is rotated when it is full.  The file system of
  the log directory is the environment: names with their inodes, and calls that may fail.
\<close>

section \<open>Rotation\<close>

definition MAX_ACTIVO :: u64 where "MAX_ACTIVO = 1024 * 1024"
definition ROTACIONES :: nat where "ROTACIONES = 3"
definition TECHO_POR_FLUJO :: u64 where "TECHO_POR_FLUJO = MAX_ACTIVO * (of_nat ROTACIONES + 1)"

datatype accion_log = Anexar | RotarYAnexar

definition decidir_log :: "u64 \<Rightarrow> nat \<Rightarrow> accion_log" where
  "decidir_log activo_bytes lote =
     (if activo_bytes = 0 \<or> activo_bytes + of_nat lote \<le> MAX_ACTIVO then Anexar else RotarYAnexar)"

datatype paso_rotacion = BorrarLog nat | Renombrar nat nat

definition pasos :: "paso_rotacion list" where
  "pasos = BorrarLog ROTACIONES # map (\<lambda>n. Renombrar (n - 1) n) (rev [1..<ROTACIONES + 1])"

section \<open>Marks\<close>

text \<open>\<open>EscritorSlice\<close> over a buffer of \<open>n\<close> bytes keeps what fits.\<close>

definition escritor_slice :: "nat \<Rightarrow> string \<Rightarrow> bytes" where
  "escritor_slice n s = take n s"

definition marca_perdida :: "nat \<Rightarrow> u64 \<Rightarrow> bytes" where
  "marca_perdida n perdidos =
     escritor_slice n (''=== se perdieron '' @ show_word perdidos @ '' bytes por sobrescritura del ring ==='' @ [NL])"

section \<open>A flow\<close>

definition LOTE_MAX :: nat where "LOTE_MAX = 64 * 1024"
definition MAX_FALLOS :: u32 where "MAX_FALLOS = 3"
definition REINTENTO_MS :: u64 where "REINTENTO_MS = 30000"

datatype estado_flujo = Inactivo | Activo | Suspendido u64

record flujo =
  fl_estado :: estado_flujo
  fl_cursor :: u64
  fl_perdidos :: u64
  fl_activo_bytes :: u64
  fl_escritos :: u64
  fl_fallos_seguidos :: u32
  fl_fallos_totales :: u32
  fl_descartados :: u64

record trabajo =
  tr_accion :: accion_log
  tr_bytes :: nat
  tr_marcar_perdida :: u64
  tr_mas_pendiente :: bool

definition flujo_nuevo :: flujo where
  "flujo_nuevo = \<lparr>fl_estado = Inactivo, fl_cursor = 0, fl_perdidos = 0, fl_activo_bytes = 0, fl_escritos = 0,
     fl_fallos_seguidos = 0, fl_fallos_totales = 0, fl_descartados = 0\<rparr>"

definition disponible :: "u64 \<Rightarrow> flujo \<Rightarrow> bool" where
  "disponible ahora f =
     (case fl_estado f of Inactivo \<Rightarrow> False | Activo \<Rightarrow> True
      | Suspendido desde \<Rightarrow> sat_sub ahora desde \<ge> REINTENTO_MS)"

definition planificar :: "u64 \<Rightarrow> u64 \<Rightarrow> flujo \<Rightarrow> trabajo option" where
  "planificar ring_escritos ring_minimo f =
     (let cursor = max (fl_cursor f) ring_minimo;
          pendientes = sat_sub ring_escritos cursor;
          marcar = sat_sub ring_minimo (fl_cursor f) in
      if pendientes = 0 \<and> marcar = 0 then None
      else
        let n = unat (min pendientes (of_nat LOTE_MAX)) in
        Some \<lparr>tr_accion = decidir_log (fl_activo_bytes f) n, tr_bytes = n, tr_marcar_perdida = marcar,
              tr_mas_pendiente = pendientes > of_nat n\<rparr>)"

definition exito :: "lectura \<Rightarrow> u64 \<Rightarrow> bool \<Rightarrow> flujo \<Rightarrow> flujo" where
  "exito l escritos roto f =
     f\<lparr>fl_cursor := le_cursor l, fl_perdidos := fl_perdidos f + le_perdidos l,
       fl_activo_bytes := (if roto then escritos else fl_activo_bytes f + escritos),
       fl_escritos := fl_escritos f + escritos, fl_fallos_seguidos := 0, fl_estado := Activo\<rparr>"

definition fallo_flujo :: "u64 \<Rightarrow> nat \<Rightarrow> flujo \<Rightarrow> flujo" where
  "fallo_flujo ahora lote f =
     (let f' = f\<lparr>fl_fallos_seguidos := fl_fallos_seguidos f + 1, fl_fallos_totales := fl_fallos_totales f + 1,
                 fl_descartados := fl_descartados f + of_nat lote\<rparr>
      in if fl_fallos_seguidos f' \<ge> MAX_FALLOS then f'\<lparr>fl_estado := Suspendido ahora, fl_fallos_seguidos := 0\<rparr> else f')"

definition activar :: "u64 \<Rightarrow> flujo \<Rightarrow> flujo" where
  "activar n f = f\<lparr>fl_estado := Activo, fl_activo_bytes := n\<rparr>"

section \<open>The writer of the kernel\<close>

text \<open>The files of one flow in the log directory: the inode of the active file (0) and of the
  rotated ones, their contents, and which of the next calls fail.\<close>

record cuaderno =
  cu_nombres :: "nat \<Rightarrow> nat option"
  cu_datos :: "nat \<Rightarrow> bytes"
  cu_sig :: nat
  cu_fallos :: "bool list"

definition cu_pide :: "cuaderno \<Rightarrow> bool \<times> cuaderno" where
  "cu_pide d = (case cu_fallos d of [] \<Rightarrow> (True, d) | b # bs \<Rightarrow> (\<not> b, d\<lparr>cu_fallos := bs\<rparr>))"

definition cu_unlink :: "nat \<Rightarrow> cuaderno \<Rightarrow> bool \<times> cuaderno" where
  "cu_unlink n d = (case cu_pide d of (ok, d') \<Rightarrow> (ok, if ok then d'\<lparr>cu_nombres := (cu_nombres d')(n := None)\<rparr> else d'))"

definition cu_rename :: "nat \<Rightarrow> nat \<Rightarrow> cuaderno \<Rightarrow> bool \<times> cuaderno" where
  "cu_rename a b d =
     (case cu_pide d of (ok, d') \<Rightarrow>
        (ok, if ok then d'\<lparr>cu_nombres := (cu_nombres d')(b := cu_nombres d' a, a := None)\<rparr> else d'))"

definition cu_create :: "cuaderno \<Rightarrow> bool \<times> cuaderno" where
  "cu_create d =
     (case cu_pide d of (ok, d') \<Rightarrow>
        (ok, if ok then d'\<lparr>cu_nombres := (cu_nombres d')(0 := Some (cu_sig d')), cu_datos := (cu_datos d')(cu_sig d' := []),
                          cu_sig := cu_sig d' + 1\<rparr> else d'))"

definition cu_append :: "nat \<Rightarrow> bytes \<Rightarrow> cuaderno \<Rightarrow> bool \<times> cuaderno" where
  "cu_append ino bs d =
     (case cu_pide d of (ok, d') \<Rightarrow>
        (ok, if ok then d'\<lparr>cu_datos := (cu_datos d')(ino := cu_datos d' ino @ bs)\<rparr> else d'))"

fun rotar_pasos :: "paso_rotacion list \<Rightarrow> cuaderno \<Rightarrow> bool \<times> cuaderno" where
  "rotar_pasos [] d = (True, d)"
| "rotar_pasos (BorrarLog n # ps) d = rotar_pasos ps (snd (cu_unlink n d))"
| "rotar_pasos (Renombrar a b # ps) d =
     (if cu_nombres d a \<noteq> None
      then case cu_rename a b d of (ok, d') \<Rightarrow> if ok then rotar_pasos ps d' else (False, d')
      else rotar_pasos ps d)"

definition rotar_flujo :: "cuaderno \<Rightarrow> bool \<times> cuaderno" where
  "rotar_flujo d = (case rotar_pasos pasos d of (ok, d1) \<Rightarrow> if ok then cu_create d1 else (False, d1))"

definition abrir_log :: "cuaderno \<Rightarrow> (nat \<times> u64) option \<times> cuaderno" where
  "abrir_log d =
     (case (case cu_nombres d 0 of Some ino \<Rightarrow> (True, d) | None \<Rightarrow> cu_create d) of (ok, d1) \<Rightarrow>
      if \<not> ok then (None, d1)
      else case cu_pide d1 of (ok2, d2) \<Rightarrow>
        (if ok2 then map_option (\<lambda>ino. (ino, of_nat (length (cu_datos d2 ino)))) (cu_nombres d2 0) else None, d2))"

text \<open>\<open>Fuente\<close>: the three rings behind the same calls.\<close>

record 's fuente_ops =
  fu_escritos :: "'s \<Rightarrow> u64"
  fu_minimo :: "'s \<Rightarrow> u64"
  fu_leer :: "'s \<Rightarrow> u64 \<Rightarrow> nat \<Rightarrow> bytes \<times> lectura"

definition fuente_ring :: "ring fuente_ops" where
  "fuente_ring = \<lparr>fu_escritos = rg_escritos, fu_minimo = cursor_minimo, fu_leer = (\<lambda>r c n. leer_desde c n r)\<rparr>"

record canal_log =
  ca_flujo :: flujo
  ca_ino :: nat
  ca_cuaderno :: cuaderno

text \<open>The writes of a pass: rotate and reopen if it was planned, then the mark and the batch.\<close>

definition volcar_lote :: "bool \<Rightarrow> bytes \<Rightarrow> bytes \<Rightarrow> nat \<Rightarrow> cuaderno \<Rightarrow> bool \<times> nat \<times> cuaderno" where
  "volcar_lote rotar marca lote ino0 d0 =
     (case (if rotar
            then case rotar_flujo d0 of (ok, d1) \<Rightarrow>
              if \<not> ok then (False, ino0, d1)
              else (case abrir_log d1 of (None, d2) \<Rightarrow> (False, ino0, d2) | (Some (ino, _), d2) \<Rightarrow> (True, ino, d2))
            else (True, ino0, d0)) of (ok, ino, d) \<Rightarrow>
      if \<not> ok then (False, ino, d)
      else case (if marca \<noteq> [] then cu_append ino marca d else (True, d)) of (ok1, d1) \<Rightarrow>
        if \<not> ok1 then (False, ino, d1)
        else case (if lote \<noteq> [] then cu_append ino lote d1 else (True, d1)) of (ok2, d2) \<Rightarrow> (ok2, ino, d2))"

definition pasada_canal :: "'s fuente_ops \<Rightarrow> 's \<Rightarrow> u64 \<Rightarrow> canal_log \<Rightarrow> bool \<times> canal_log" where
  "pasada_canal ops s ahora c =
     (let f = ca_flujo c in
      if \<not> disponible ahora f then (False, c)
      else case planificar (fu_escritos ops s) (fu_minimo ops s) f of
          None \<Rightarrow> (False, c)
        | Some t \<Rightarrow>
            (case fu_leer ops s (fl_cursor f) (tr_bytes t) of (lote, l) \<Rightarrow>
             let marca = (if le_perdidos l > 0 then marca_perdida 96 (le_perdidos l) else []);
                 total = length marca + le_copiados l;
                 rotar = (tr_accion t = RotarYAnexar) in
             if total = 0 then (False, c)
             else case volcar_lote rotar marca lote (ca_ino c) (ca_cuaderno c) of (ok, ino, d) \<Rightarrow>
               if ok then (tr_mas_pendiente t,
                  c\<lparr>ca_flujo := exito l (of_nat total) rotar f, ca_ino := ino, ca_cuaderno := d\<rparr>)
               else (False, c\<lparr>ca_flujo := fallo_flujo ahora total f, ca_ino := ino, ca_cuaderno := d\<rparr>)))"

section \<open>Changed sectors\<close>

record tramo_sector =
  ts_offset :: nat
  ts_len :: nat

definition sector_igual :: "bytes \<Rightarrow> bytes \<Rightarrow> nat \<Rightarrow> nat \<Rightarrow> bool" where
  "sector_igual anterior nuevo sector i =
     (take sector (drop (i * sector) anterior) = take sector (drop (i * sector) nuevo))"

function fin_tramo :: "bytes \<Rightarrow> bytes \<Rightarrow> nat \<Rightarrow> nat \<Rightarrow> nat \<Rightarrow> nat" where
  "fin_tramo a b sector nsect i =
     (if i < nsect \<and> \<not> sector_igual a b sector i then fin_tramo a b sector nsect (i + 1) else i)"
  by pat_completeness auto
termination by (relation "measure (\<lambda>(_, _, _, nsect, i). nsect - i)") auto

declare fin_tramo.simps [simp del]

lemma fin_tramo_ge: "i \<le> fin_tramo a b sector nsect i"
proof (induction a b sector nsect i rule: fin_tramo.induct)
  case (1 a b sector nsect i)
  then show ?case by (subst fin_tramo.simps) auto
qed

lemma fin_tramo_avanza: "i < nsect \<Longrightarrow> \<not> sector_igual a b sector i \<Longrightarrow> i < fin_tramo a b sector nsect i"
  using fin_tramo_ge [of "i + 1" a b sector nsect] by (subst fin_tramo.simps) simp

function tramos_loop :: "bytes \<Rightarrow> bytes \<Rightarrow> nat \<Rightarrow> nat \<Rightarrow> nat \<Rightarrow> tramo_sector list" where
  "tramos_loop a b sector nsect i =
     (if i < nsect
      then if sector_igual a b sector i then tramos_loop a b sector nsect (i + 1)
           else let j = fin_tramo a b sector nsect i in
             \<lparr>ts_offset = i * sector, ts_len = j * sector - i * sector\<rparr> # tramos_loop a b sector nsect j
      else [])"
  by pat_completeness auto
termination
  by (relation "measure (\<lambda>(_, _, _, nsect, i). nsect - i)") (auto simp: fin_tramo_avanza diff_less_mono2)

declare tramos_loop.simps [simp del]

text \<open>\<open>por_cada_tramo_cambiado\<close>: the list of the spans passed to the callback.\<close>

definition tramos_cambiados :: "bytes \<Rightarrow> bytes \<Rightarrow> nat \<Rightarrow> tramo_sector list" where
  "tramos_cambiados anterior nuevo sector =
     (if sector = 0 \<or> length anterior \<noteq> length nuevo \<or> anterior = [] then []
      else tramos_loop anterior nuevo sector (length anterior div sector) 0)"

section \<open>Writing only what changed\<close>

text \<open>What a client does with a span: the bytes of the new image there.\<close>

definition parche :: "bytes \<Rightarrow> tramo_sector \<Rightarrow> bytes \<Rightarrow> bytes" where
  "parche nuevo t buf =
     take (ts_offset t) buf @ take (ts_len t) (drop (ts_offset t) nuevo) @ drop (ts_offset t + ts_len t) buf"

definition cubre :: "tramo_sector \<Rightarrow> nat \<Rightarrow> bool" where
  "cubre t p \<longleftrightarrow> ts_offset t \<le> p \<and> p < ts_offset t + ts_len t"

lemma parche_nth:
  assumes "length buf = length nuevo" "ts_offset t + ts_len t \<le> length nuevo"
  shows "length (parche nuevo t buf) = length nuevo"
    and "p < length nuevo \<Longrightarrow> parche nuevo t buf ! p = (if cubre t p then nuevo ! p else buf ! p)"
  using assms by (auto simp: parche_def cubre_def nth_append min_def)

lemma parches_nth:
  assumes "\<forall>t \<in> set ts. ts_offset t + ts_len t \<le> length nuevo" "length buf = length nuevo"
  shows "length (fold (parche nuevo) ts buf) = length nuevo \<and>
    (\<forall>p < length nuevo. fold (parche nuevo) ts buf ! p = (if \<exists>t \<in> set ts. cubre t p then nuevo ! p else buf ! p))"
  using assms
proof (induction ts arbitrary: buf)
  case (Cons t ts)
  have "length (parche nuevo t buf) = length nuevo" using parche_nth(1) Cons.prems by simp
  then show ?case using Cons.IH [of "parche nuevo t buf"] Cons.prems parche_nth(2) [of buf nuevo t] by auto
qed simp

text \<open>A span in sectors: it starts and ends on a boundary, every sector in it changed, and it cannot be
  extended to the right.\<close>

definition tramo_ok :: "bytes \<Rightarrow> bytes \<Rightarrow> nat \<Rightarrow> nat \<Rightarrow> nat \<Rightarrow> tramo_sector \<Rightarrow> bool" where
  "tramo_ok a b sector nsect i t \<longleftrightarrow> (\<exists>u v. i \<le> u \<and> u < v \<and> v \<le> nsect \<and> ts_offset t = u * sector \<and> ts_len t = (v - u) * sector \<and>
     (\<forall>k. u \<le> k \<and> k < v \<longrightarrow> \<not> sector_igual a b sector k) \<and> (v < nsect \<longrightarrow> sector_igual a b sector v))"

lemma fin_tramo_fin:
  "i \<le> nsect \<Longrightarrow> fin_tramo a b sector nsect i \<le> nsect \<and>
   (\<forall>k. i \<le> k \<and> k < fin_tramo a b sector nsect i \<longrightarrow> \<not> sector_igual a b sector k) \<and>
   (fin_tramo a b sector nsect i < nsect \<longrightarrow> sector_igual a b sector (fin_tramo a b sector nsect i))"
proof (induction a b sector nsect i rule: fin_tramo.induct)
  case (1 a b sector nsect i)
  show ?case
  proof (cases "i < nsect \<and> \<not> sector_igual a b sector i")
    case True
    have "fin_tramo a b sector nsect i = fin_tramo a b sector nsect (i + 1)" using True by (subst fin_tramo.simps) simp
    moreover have "k = i \<or> i + 1 \<le> k" if "i \<le> k" for k using that by auto
    ultimately show ?thesis using 1(1) [OF True] True by (metis Suc_eq_plus1 Suc_leI)
  next
    case False
    have "fin_tramo a b sector nsect i = i" using False by (subst fin_tramo.simps) auto
    then show ?thesis using False 1(2) by auto
  qed
qed

lemma tramos_loop_ok:
  "i \<le> nsect \<Longrightarrow> 0 < sector \<Longrightarrow> list_all (tramo_ok a b sector nsect i) (tramos_loop a b sector nsect i) \<and>
   (\<forall>k. i \<le> k \<and> k < nsect \<and> \<not> sector_igual a b sector k \<longrightarrow>
      (\<exists>t \<in> set (tramos_loop a b sector nsect i). ts_offset t \<le> k * sector \<and> k * sector + sector \<le> ts_offset t + ts_len t)) \<and>
   sorted_wrt (\<lambda>t u. ts_offset t + ts_len t < ts_offset u) (tramos_loop a b sector nsect i)"
proof (induction a b sector nsect i rule: tramos_loop.induct)
  case (1 a b sector nsect i)
  have baja: "tramo_ok a b sector nsect i t" if "tramo_ok a b sector nsect j t" "i \<le> j" for t j
    using that unfolding tramo_ok_def by (meson order_trans)
  show ?case
  proof (cases "i < nsect")
    case False
    then show ?thesis by (subst (1 2 3) tramos_loop.simps) simp
  next
    case lt: True
    show ?thesis
    proof (cases "sector_igual a b sector i")
      case True
      have e: "tramos_loop a b sector nsect i = tramos_loop a b sector nsect (i + 1)"
        using lt True by (subst tramos_loop.simps) simp
      have "k = i \<or> i + 1 \<le> k" if "i \<le> k" for k using that by auto
      then show ?thesis using 1(1) [OF lt True] 1(3,4) lt True baja unfolding e by (fastforce simp: list_all_iff)
    next
      case False
      define j where "j = fin_tramo a b sector nsect i"
      define t where "t = \<lparr>ts_offset = i * sector, ts_len = j * sector - i * sector\<rparr>"
      define ts where "ts = tramos_loop a b sector nsect j"
      have e: "tramos_loop a b sector nsect i = t # ts"
        using lt False by (subst tramos_loop.simps) (simp add: j_def t_def ts_def Let_def)
      have j: "i < j" "j \<le> nsect" "\<forall>k. i \<le> k \<and> k < j \<longrightarrow> \<not> sector_igual a b sector k" "j < nsect \<longrightarrow> sector_igual a b sector j"
        using fin_tramo_avanza [OF lt False] fin_tramo_fin [of i nsect a b sector] lt by (auto simp: j_def)
      have IH: "list_all (tramo_ok a b sector nsect j) ts"
        "\<forall>k. j \<le> k \<and> k < nsect \<and> \<not> sector_igual a b sector k \<longrightarrow>
          (\<exists>t \<in> set ts. ts_offset t \<le> k * sector \<and> k * sector + sector \<le> ts_offset t + ts_len t)"
        "sorted_wrt (\<lambda>t u. ts_offset t + ts_len t < ts_offset u) ts"
        using 1(2) [OF lt False refl] 1(4) j(2) by (simp_all add: j_def ts_def)
      have tl: "ts_len t = (j - i) * sector" "ts_offset t + ts_len t = j * sector" "ts_offset t = i * sector"
        using j(1) by (simp_all add: t_def diff_mult_distrib add_diff_inverse_nat)
      have tok: "tramo_ok a b sector nsect i t" using j tl unfolding tramo_ok_def by blast
      have "j * sector < ts_offset u" if u: "u \<in> set ts" for u
      proof -
        obtain x v where x: "j \<le> x" "x < v" "v \<le> nsect" "ts_offset u = x * sector" "\<not> sector_igual a b sector x"
          using IH(1) u unfolding list_all_iff tramo_ok_def by blast
        then have "j < x" using j(4) by (cases "j = x") auto
        then show ?thesis using 1(4) x(4) by simp
      qed
      moreover have "ts_offset t \<le> k * sector \<and> k * sector + sector \<le> ts_offset t + ts_len t" if "i \<le> k" "k < j" for k
        using that tl mult_le_mono1 [of "Suc k" j sector] by simp
      moreover have "list_all (tramo_ok a b sector nsect i) ts" using IH(1) baja j(1) by (auto simp: list_all_iff)
      ultimately show ?thesis
        unfolding e using tok tl IH(2,3) by (auto simp: not_less) (metis not_less)+
    qed
  qed
qed

text \<open>C22 (\<open>por_cada_tramo_cambiado\<close>): writing the spans over the previous image gives the new image; every
  sector of a span had changed, so no unchanged sector is written; and the spans are whole sectors,
  in order and apart from each other, so no two of them could have been one.\<close>

theorem tramos_exactos:
  assumes "0 < sector" "length anterior = length nuevo" "sector dvd length nuevo"
  defines "ts \<equiv> tramos_cambiados anterior nuevo sector"
  shows "fold (parche nuevo) ts anterior = nuevo \<and>
    (\<forall>t \<in> set ts. 0 < ts_len t \<and> ts_offset t + ts_len t \<le> length nuevo \<and> sector dvd ts_offset t \<and> sector dvd ts_len t \<and>
       (\<forall>k. ts_offset t \<le> k * sector \<and> k * sector < ts_offset t + ts_len t \<longrightarrow> \<not> sector_igual anterior nuevo sector k)) \<and>
    sorted_wrt (\<lambda>t u. ts_offset t + ts_len t < ts_offset u) ts"
proof (cases "nuevo = []")
  case True
  then show ?thesis using assms(2) by (simp add: ts_def tramos_cambiados_def)
next
  case False
  define n where "n = length nuevo div sector"
  have ln: "length nuevo = n * sector" using assms(3) by (simp add: n_def)
  have ts: "ts = tramos_loop anterior nuevo sector n 0" using assms(1,2) False by (auto simp: ts_def tramos_cambiados_def n_def)
  note ok = tramos_loop_ok [of 0 n sector anterior nuevo, OF le0 assms(1), folded ts]
  have cada: "0 < ts_len t \<and> ts_offset t + ts_len t \<le> length nuevo \<and> sector dvd ts_offset t \<and> sector dvd ts_len t \<and>
       (\<forall>k. ts_offset t \<le> k * sector \<and> k * sector < ts_offset t + ts_len t \<longrightarrow> \<not> sector_igual anterior nuevo sector k)"
    if t: "t \<in> set ts" for t
  proof -
    have "tramo_ok anterior nuevo sector n 0 t" using ok t by (auto simp: list_all_iff)
    then obtain u v where u: "u < v" "v \<le> n" "ts_offset t = u * sector" "ts_len t = (v - u) * sector"
        "\<forall>k. u \<le> k \<and> k < v \<longrightarrow> \<not> sector_igual anterior nuevo sector k"
      unfolding tramo_ok_def by blast
    have "ts_offset t + ts_len t = v * sector" using u by (simp add: diff_mult_distrib)
    then show ?thesis using u assms(1) mult_le_mono1 [OF u(2), of sector] by (auto simp: ln)
  qed
  have pn: "length (fold (parche nuevo) ts anterior) = length nuevo"
    "\<And>p. p < length nuevo \<Longrightarrow> fold (parche nuevo) ts anterior ! p = (if \<exists>t \<in> set ts. cubre t p then nuevo ! p else anterior ! p)"
    using parches_nth [of ts nuevo anterior] cada assms(2) by simp_all
  have "anterior ! p = nuevo ! p" if p: "p < length nuevo" "\<not> (\<exists>t \<in> set ts. cubre t p)" for p
  proof -
    define k where "k = p div sector"
    have pk: "p = k * sector + p mod sector" "p mod sector < sector" using assms(1) by (simp_all add: k_def)
    have kn: "k < n" using p(1) assms(1) by (simp add: k_def ln div_less_iff_less_mult mult.commute)
    have "sector_igual anterior nuevo sector k"
    proof (rule ccontr)
      assume "\<not> sector_igual anterior nuevo sector k"
      then obtain t where "t \<in> set ts" "ts_offset t \<le> k * sector" "k * sector + sector \<le> ts_offset t + ts_len t"
        using ok kn by blast
      then have "cubre t p" using pk unfolding cubre_def by linarith
      then show False using p(2) \<open>t \<in> set ts\<close> by blast
    qed
    then have "take sector (drop (k * sector) anterior) ! (p mod sector) = take sector (drop (k * sector) nuevo) ! (p mod sector)"
      by (simp add: sector_igual_def)
    moreover have "k * sector \<le> length nuevo" using kn by (simp add: ln)
    ultimately show ?thesis using pk assms(2) by simp
  qed
  then have "fold (parche nuevo) ts anterior = nuevo" using pn by (intro nth_equalityI) auto
  then show ?thesis using ok by (intro conjI ballI cada) simp_all
qed

theorem tramos_exactos_witness:
  "tramos_cambiados ''aabbccdd'' ''aaBBCCdd'' 2 = [\<lparr>ts_offset = 2, ts_len = 4\<rparr>] \<and>
   fold (parche ''aaBBCCdd'') (tramos_cambiados ''aabbccdd'' ''aaBBCCdd'' 2) ''aabbccdd'' = ''aaBBCCdd''"
proof -
  have "tramos_cambiados ''aabbccdd'' ''aaBBCCdd'' 2 = [\<lparr>ts_offset = 2, ts_len = 4\<rparr>]" by code_simp
  then show ?thesis using tramos_exactos [of 2 "''aabbccdd''" "''aaBBCCdd''"] by simp
qed

section \<open>A pass of the writer\<close>

text \<open>What the writer relies on: a source that refines a history.\<close>

locale fuente_fiel =
  fixes ops :: "'s fuente_ops" and refina :: "'s \<Rightarrow> bytes \<Rightarrow> bool"
  assumes escritos: "refina s h \<Longrightarrow> fu_escritos ops s = of_nat (length h) \<and> length h < 2 ^ 64"
    and minimo: "refina s h \<Longrightarrow> unat (fu_minimo ops s) \<le> length h"
    and leer: "refina s h \<Longrightarrow> unat c \<le> length h \<Longrightarrow> k = max (unat (fu_minimo ops s)) (unat c) \<Longrightarrow> bs = take n (drop k h) \<Longrightarrow>
      fu_leer ops s c n = (bs, \<lparr>le_copiados = length bs, le_perdidos = of_nat (k - unat c), le_cursor = of_nat (k + length bs),
        le_pendientes = of_nat (length h - (k + length bs))\<rparr>)"
begin

lemma planificar_fiel:
  assumes s: "refina s h" "unat (fl_cursor f) \<le> length h"
    and k: "k = max (unat (fu_minimo ops s)) (unat (fl_cursor f))" and lote: "lote = take LOTE_MAX (drop k h)"
  shows "planificar (fu_escritos ops s) (fu_minimo ops s) f =
    (if lote = [] \<and> k = unat (fl_cursor f) then None
     else Some \<lparr>tr_accion = decidir_log (fl_activo_bytes f) (length lote), tr_bytes = length lote,
       tr_marcar_perdida = of_nat (k - unat (fl_cursor f)), tr_mas_pendiente = k + length lote < length h\<rparr>)"
proof -
  have e: "fu_escritos ops s = of_nat (length h)" "length h < 2 ^ 64" "unat (fu_minimo ops s) \<le> length h"
    using escritos [OF s(1)] minimo [OF s(1)] by auto
  have u: "unat (of_nat x :: u64) = x" if "x \<le> length h" for x using that e(2) by (simp add: unat_of_nat)
  have kn: "k \<le> length h" using s(2) e(3) by (simp add: k)
  have mx: "max (fl_cursor f) (fu_minimo ops s) = of_nat k"
    by (auto simp: k max_def word_le_nat_alt word_unat_eq_iff)
  have pe: "sat_sub (fu_escritos ops s) (of_nat k) = (of_nat (length h - k) :: u64)"
    using u [of "length h"] u [OF kn] u [of "length h - k"] by (simp add: word_unat_eq_iff unat_sat_sub e(1))
  have ma: "sat_sub (fu_minimo ops s) (fl_cursor f) = of_nat (k - unat (fl_cursor f))"
  proof -
    have "unat (fu_minimo ops s) - unat (fl_cursor f) = k - unat (fl_cursor f)" by (auto simp: k)
    then show ?thesis using u [of "k - unat (fl_cursor f)"] kn by (simp add: word_unat_eq_iff unat_sat_sub)
  qed
  have ln: "length lote = min (length h - k) LOTE_MAX" by (simp add: lote min.commute)
  have mn: "unat (min (of_nat (length h - k)) (of_nat LOTE_MAX) :: u64) = length lote"
    using u [of "length h - k"] by (auto simp: ln min_def word_le_nat_alt LOTE_MAX_def)
  have z: "(of_nat (length h - k) = (0 :: u64)) = (lote = [])"
    using u [of "length h - k"] ln by (auto simp: word_unat_eq_iff LOTE_MAX_def min_def split: if_splits)
  have z2: "(of_nat (k - unat (fl_cursor f)) = (0 :: u64)) = (k = unat (fl_cursor f))"
    using u [of "k - unat (fl_cursor f)"] kn by (auto simp: word_unat_eq_iff k)
  have gt: "(of_nat (length h - k) > (of_nat (length lote) :: u64)) = (k + length lote < length h)"
    using u [of "length h - k"] u [of "length lote"] ln by (auto simp: word_less_nat_alt)
  show ?thesis
    unfolding planificar_def Let_def mx pe ma mn z z2 gt by simp
qed

lemma pasada_fiel:
  assumes s: "refina s h" "unat (fl_cursor (ca_flujo c)) \<le> length h"
    and k: "k = max (unat (fu_minimo ops s)) (unat (fl_cursor (ca_flujo c)))" and lote: "lote = take LOTE_MAX (drop k h)"
    and marca: "marca = (if unat (fl_cursor (ca_flujo c)) < k then marca_perdida 96 (of_nat (k - unat (fl_cursor (ca_flujo c)))) else [])"
    and rotar: "rotar = (decidir_log (fl_activo_bytes (ca_flujo c)) (length lote) = RotarYAnexar)"
    and l: "l = \<lparr>le_copiados = length lote, le_perdidos = of_nat (k - unat (fl_cursor (ca_flujo c))), le_cursor = of_nat (k + length lote),
        le_pendientes = of_nat (length h - (k + length lote))\<rparr>"
    and dis: "disponible ahora (ca_flujo c)"
  shows "pasada_canal ops s ahora c =
    (if marca = [] \<and> lote = [] then (False, c)
     else case volcar_lote rotar marca lote (ca_ino c) (ca_cuaderno c) of (ok, ino, d) \<Rightarrow>
       if ok then (k + length lote < length h,
         c\<lparr>ca_flujo := exito l (of_nat (length (marca @ lote))) rotar (ca_flujo c), ca_ino := ino, ca_cuaderno := d\<rparr>)
       else (False, c\<lparr>ca_flujo := fallo_flujo ahora (length (marca @ lote)) (ca_flujo c), ca_ino := ino, ca_cuaderno := d\<rparr>))"
proof -
  have n: "length h < 2 ^ 64" "k \<le> length h" using escritos [OF s(1)] minimo [OF s(1)] s(2) by (auto simp: k)
  have "take (length lote) (drop k h) = lote" by (simp add: lote min_def)
  then have lee: "fu_leer ops s (fl_cursor (ca_flujo c)) (length lote) = (lote, l)"
    using leer [OF s k, of lote "length lote"] by (simp add: l)
  have pos: "(0 < (of_nat (k - unat (fl_cursor (ca_flujo c))) :: u64)) = (unat (fl_cursor (ca_flujo c)) < k)"
    using n by (auto simp: word_less_nat_alt unat_of_nat)
  have mp: "marca_perdida 96 x \<noteq> []" for x by (simp add: marca_perdida_def escritor_slice_def)
  show ?thesis
  proof (cases "marca = [] \<and> lote = []")
    case True
    then have "k = unat (fl_cursor (ca_flujo c))" using mp by (auto simp: marca k split: if_splits)
    then show ?thesis using planificar_fiel [OF s k lote] True dis by (simp add: pasada_canal_def Let_def)
  next
    case False
    then have "\<not> (lote = [] \<and> k = unat (fl_cursor (ca_flujo c)))" by (auto simp: marca)
    then have "planificar (fu_escritos ops s) (fu_minimo ops s) (ca_flujo c) =
        Some \<lparr>tr_accion = decidir_log (fl_activo_bytes (ca_flujo c)) (length lote), tr_bytes = length lote,
          tr_marcar_perdida = of_nat (k - unat (fl_cursor (ca_flujo c))), tr_mas_pendiente = k + length lote < length h\<rparr>"
      using planificar_fiel [OF s k lote] by simp
    moreover have "(if le_perdidos l > 0 then marca_perdida 96 (le_perdidos l) else []) = marca" "le_copiados l = length lote"
      using pos by (simp_all add: l marca)
    ultimately show ?thesis
      using False dis lee unfolding rotar by (auto simp: pasada_canal_def Let_def split: prod.split)
  qed
qed

end

lemma pasos_eq: "pasos = [BorrarLog 3, Renombrar 2 3, Renombrar 1 2, Renombrar 0 1]"
  by (simp add: pasos_def ROTACIONES_def upt_rec numeral_3_eq_3)

definition rotado :: "cuaderno \<Rightarrow> cuaderno" where
  "rotado d = d\<lparr>cu_nombres := (\<lambda>n. if n = 0 then Some (cu_sig d) else if n \<le> 3 then cu_nombres d (n - 1) else cu_nombres d n),
     cu_datos := (cu_datos d)(cu_sig d := []), cu_sig := cu_sig d + 1\<rparr>"

lemma rotar_sin_fallos:
  assumes "cu_fallos d = []"
  shows "rotar_flujo d = (True, rotado d)"
proof -
  have "snd (rotar_flujo d) = rotado d" "fst (rotar_flujo d)"
    using assms
    by (cases "cu_nombres d 2"; cases "cu_nombres d 1"; cases "cu_nombres d 0";
        auto simp: rotar_flujo_def pasos_eq cu_unlink_def cu_rename_def cu_create_def cu_pide_def rotado_def fun_eq_iff
          numeral_eq_Suc le_Suc_eq intro!: arg_cong [where f = "\<lambda>x. d\<lparr>cu_nombres := x, cu_datos := _, cu_sig := _\<rparr>"])+
  then show ?thesis by (metis prod.collapse)
qed

interpretation flujo_de_anillo: fuente_fiel fuente_ring ring_refina
proof
  fix s h assume r: "ring_refina s h"
  then have len: "rg_len s \<le> length h" and h: "length h < 2 ^ 64" "rg_escritos s = of_nat (length h)" by (auto simp: ring_refina_def)
  then show "fu_escritos fuente_ring s = of_nat (length h) \<and> length h < 2 ^ 64" by (simp add: fuente_ring_def)
  have "cursor_minimo s = of_nat (length h - rg_len s)" using len h by (simp add: cursor_minimo_def of_nat_diff)
  then have m: "unat (cursor_minimo s) = length h - rg_len s" using h(1) by (simp add: unat_of_nat)
  then show "unat (fu_minimo fuente_ring s) \<le> length h" by (simp add: fuente_ring_def)
  fix c :: u64 and k bs n
  assume c: "unat c \<le> length h" and k: "k = max (unat (fu_minimo fuente_ring s)) (unat c)" and bs: "bs = take n (drop k h)"
  have k': "k = max (length h - rg_len s) (min (unat c) (length h))" using k m c by (simp add: fuente_ring_def)
  have "length h - rg_len s - unat c = k - unat c" using k' c by auto
  then show "fu_leer fuente_ring s c n = (bs, \<lparr>le_copiados = length bs, le_perdidos = of_nat (k - unat c), le_cursor = of_nat (k + length bs),
        le_pendientes = of_nat (length h - (k + length bs))\<rparr>)"
    using leer_refina [OF r, of c n] unfolding Let_def k' [symmetric] bs [symmetric] by (simp add: fuente_ring_def)
qed

lemma volcar_sin_fallos:
  assumes "cu_fallos d = []" "cu_nombres d 0 = Some ino"
  shows "volcar_lote rotar marca lote ino d =
    (if rotar then (True, cu_sig d, (rotado d)\<lparr>cu_datos := (cu_datos d)(cu_sig d := marca @ lote)\<rparr>)
     else (True, ino, d\<lparr>cu_datos := (cu_datos d)(ino := cu_datos d ino @ marca @ lote)\<rparr>))"
  using assms rotar_sin_fallos [OF assms(1)]
  by (auto simp: volcar_lote_def abrir_log_def cu_append_def cu_pide_def rotado_def Let_def)

definition marca_max :: nat where "marca_max = 75"

definition activo_de :: "canal_log \<Rightarrow> bytes" where
  "activo_de c = cu_datos (ca_cuaderno c) (ca_ino c)"

definition fichero_log :: "cuaderno \<Rightarrow> nat \<Rightarrow> bytes" where
  "fichero_log d n = (case cu_nombres d n of None \<Rightarrow> [] | Some i \<Rightarrow> cu_datos d i)"

definition historial :: "cuaderno \<Rightarrow> bytes" where
  "historial d = fichero_log d 3 @ fichero_log d 2 @ fichero_log d 1 @ fichero_log d 0"

text \<open>A channel in order: no call fails, the inode kept is the one of the active file and its size is
  known, the names have inodes of their own, and no file is larger than the limit and one mark.\<close>

definition canal_bien :: "canal_log \<Rightarrow> bool" where
  "canal_bien c \<longleftrightarrow> (let d = ca_cuaderno c in
     fl_estado (ca_flujo c) = Activo \<and> cu_fallos d = [] \<and> cu_nombres d 0 = Some (ca_ino c) \<and>
     fl_activo_bytes (ca_flujo c) = of_nat (length (activo_de c)) \<and>
     (\<forall>n i. cu_nombres d n = Some i \<longrightarrow> i < cu_sig d) \<and> (\<forall>n m. cu_nombres d n = cu_nombres d m \<longrightarrow> cu_nombres d n \<noteq> None \<longrightarrow> n = m) \<and>
     (\<forall>n. length (fichero_log d n) \<le> unat MAX_ACTIVO + marca_max))"

lemma show_nat_len: "n < 10 ^ k \<Longrightarrow> 0 < k \<Longrightarrow> length (show_nat n) \<le> k"
proof (induction n arbitrary: k rule: show_nat.induct)
  case (1 n)
  show ?case
  proof (cases "n < 10")
    case True
    then show ?thesis using 1(3) by (subst show_nat.simps) simp
  next
    case False
    then obtain j where k: "k = Suc j" "0 < j" using 1(2,3) by (cases k; cases "k - 1") auto
    then have "n div 10 < 10 ^ j" using 1(2) by (simp add: div_less_iff_less_mult)
    then show ?thesis using 1(1) [OF False _ k(2)] False k(1) by (subst show_nat.simps) simp
  qed
qed

lemma marca_len: "length (marca_perdida 96 x) \<le> marca_max"
proof -
  have "unat x < 2 ^ 64" using unsigned_less [of x] by simp
  then have "length (show_word x) \<le> 20" using show_nat_len [of "unat x" 20] by (simp add: show_word_def)
  then show ?thesis by (simp add: marca_perdida_def escritor_slice_def marca_max_def)
qed

lemma canal_bienD:
  assumes "canal_bien c" and d: "d = ca_cuaderno c"
  shows "fl_estado (ca_flujo c) = Activo" "cu_fallos d = []" "cu_nombres d 0 = Some (ca_ino c)"
    "unat (fl_activo_bytes (ca_flujo c)) = length (activo_de c)" "\<And>n i. cu_nombres d n = Some i \<Longrightarrow> i < cu_sig d"
    "\<And>n m i. cu_nombres d n = Some i \<Longrightarrow> cu_nombres d m = Some i \<Longrightarrow> n = m"
    "\<And>n. length (fichero_log d n) \<le> unat MAX_ACTIVO + marca_max" "fichero_log d 0 = activo_de c"
proof -
  note b = assms(1) [unfolded canal_bien_def Let_def, folded d]
  show "fl_estado (ca_flujo c) = Activo" "cu_fallos d = []" "cu_nombres d 0 = Some (ca_ino c)"
    "\<And>n i. cu_nombres d n = Some i \<Longrightarrow> i < cu_sig d"
    "\<And>n m i. cu_nombres d n = Some i \<Longrightarrow> cu_nombres d m = Some i \<Longrightarrow> n = m"
    and t: "\<And>n. length (fichero_log d n) \<le> unat MAX_ACTIVO + marca_max"
    using b by auto
  show e: "fichero_log d 0 = activo_de c" using b by (simp add: fichero_log_def activo_de_def d)
  have "length (activo_de c) < 2 ^ 64" using t [of 0] by (simp add: e MAX_ACTIVO_def marca_max_def)
  then show "unat (fl_activo_bytes (ca_flujo c)) = length (activo_de c)" using b by (simp add: unat_of_nat)
qed

lemma decidir_log_iff:
  assumes "unat a \<le> unat MAX_ACTIVO + marca_max" "n \<le> LOTE_MAX"
  shows "decidir_log a n = RotarYAnexar \<longleftrightarrow> 0 < unat a \<and> unat MAX_ACTIVO < unat a + n"
proof -
  have "unat (a + of_nat n) = unat a + n"
    using assms by (simp add: unat_word_ariths MAX_ACTIVO_def marca_max_def LOTE_MAX_def unat_of_nat)
  then show ?thesis by (auto simp: decidir_log_def word_le_nat_alt unat_gt_0)
qed

text \<open>What the files of a channel are after a pass: the active one grows, or every one moves and a new one
  is begun.\<close>

definition anota :: "bool \<Rightarrow> bytes \<Rightarrow> (nat \<Rightarrow> bytes) \<Rightarrow> nat \<Rightarrow> bytes" where
  "anota rotar bs F n = (if rotar then if n = 0 then bs else if n \<le> 3 then F (n - 1) else F n else if n = 0 then F 0 @ bs else F n)"

lemma volcar_ficheros:
  assumes b: "canal_bien c" and d: "d = ca_cuaderno c" and v: "volcar_lote rotar marca lote (ca_ino c) d = (ok, ino, d')"
  shows "ok" "cu_fallos d' = []" "cu_nombres d' 0 = Some ino" "fichero_log d' = anota rotar (marca @ lote) (fichero_log d)"
    "cu_nombres d' n = Some i \<Longrightarrow> i < cu_sig d'" "cu_nombres d' n = Some i \<Longrightarrow> cu_nombres d' m = Some i \<Longrightarrow> n = m"
proof -
  note D = canal_bienD [OF b d]
  note v' = v [unfolded volcar_sin_fallos [OF D(2,3)]]
  have ne: "j \<noteq> cu_sig d" if "cu_nombres d k = Some j" for k j using D(5) [OF that] by simp
  have ino: "j \<noteq> ca_ino c" if "cu_nombres d k = Some j" "0 < k" for k j using D(6) [OF that(1)] D(3) that(2) by auto
  show "ok" "cu_fallos d' = []" "cu_nombres d' 0 = Some ino" using v' D(2,3) by (auto simp: rotado_def split: if_splits)
  show "fichero_log d' = anota rotar (marca @ lote) (fichero_log d)"
    using v' D(3) ne ino by (fastforce simp: fichero_log_def anota_def rotado_def fun_eq_iff split: if_splits option.split)
  show "cu_nombres d' n = Some i \<Longrightarrow> i < cu_sig d'"
    using v' D(5) by (fastforce simp: rotado_def less_Suc_eq split: if_splits)
  have otro: "n = m" if "cu_nombres d (n - 1) = Some i" "cu_nombres d (m - 1) = Some i" "0 < n" "0 < m"
    using D(6) [OF that(1,2)] that(3,4) by simp
  have mezcla: False if "cu_nombres d (a - 1) = Some i" "cu_nombres d b = Some i" "a \<le> 3" "\<not> b \<le> 3" for a b
    using D(6) [OF that(1,2)] that(3,4) by simp
  show "cu_nombres d' n = Some i \<Longrightarrow> cu_nombres d' m = Some i \<Longrightarrow> n = m"
  proof (cases rotar)
    case True
    then show "cu_nombres d' n = Some i \<Longrightarrow> cu_nombres d' m = Some i \<Longrightarrow> n = m"
      using v' D(6) [of n i m] ne [of _ i] otro mezcla [of n m] mezcla [of m n] by (auto simp: rotado_def split: if_splits)
  next
    case False
    then show "cu_nombres d' n = Some i \<Longrightarrow> cu_nombres d' m = Some i \<Longrightarrow> n = m" using v' D(6) [of n i m] by auto
  qed
qed

section \<open>Draining a ring\<close>

definition MAX_PASADAS :: nat where "MAX_PASADAS = 64"

text \<open>The passes of \<open>pasada_global\<close> over one channel: until one has nothing left or the limit.\<close>

fun pasadas :: "nat \<Rightarrow> 's fuente_ops \<Rightarrow> 's \<Rightarrow> u64 \<Rightarrow> canal_log \<Rightarrow> canal_log" where
  "pasadas 0 ops s ahora c = c"
| "pasadas (Suc n) ops s ahora c =
     (case pasada_canal ops s ahora c of (mas, c') \<Rightarrow> if mas then pasadas n ops s ahora c' else c')"

definition marca_de :: "nat \<Rightarrow> nat \<Rightarrow> bytes" where
  "marca_de cur k = (if cur < k then marca_perdida 96 (of_nat (k - cur)) else [])"

lemma marca_de_len: "length (marca_de cur k) \<le> marca_max"
  using marca_len by (simp add: marca_de_def)

text \<open>What was written since the drain began is at the end of the last two files.\<close>

definition al_final :: "bytes \<Rightarrow> (nat \<Rightarrow> bytes) \<Rightarrow> bool" where
  "al_final w F \<longleftrightarrow> suffix w (F 0) \<or> suffix (F 0) w \<and> suffix w (F 1 @ F 0)"

lemma al_final_anota:
  assumes "al_final w F" "rotar \<Longrightarrow> m < length (F 0) + n" "length w + n \<le> m"
  shows "al_final (w @ bs) (anota rotar bs F)"
proof (cases rotar)
  case True
  have "suffix w (F 0)"
    using assms(1,3) assms(2) [OF True] suffix_length_le [of "F 0" w] by (auto simp: al_final_def)
  then show ?thesis using True by (simp add: al_final_def anota_def suffix_append)
next
  case False
  then show ?thesis using assms(1) by (auto simp: al_final_def anota_def suffix_append simp flip: append_assoc)
qed

context fuente_fiel
begin

lemma pasada_bien:
  assumes s: "refina s h" "unat (fl_cursor (ca_flujo c)) \<le> length h" and b: "canal_bien c"
    and k: "k = max (unat (fu_minimo ops s)) (unat (fl_cursor (ca_flujo c)))" and lote: "lote = take LOTE_MAX (drop k h)"
    and marca: "marca = marca_de (unat (fl_cursor (ca_flujo c))) k"
    and F: "F = fichero_log (ca_cuaderno c)" and p: "pasada_canal ops s ahora c = (mas, c')"
  shows "canal_bien c'" "unat (fl_cursor (ca_flujo c')) = k + length lote" "mas \<longleftrightarrow> k + length lote < length h"
    "\<exists>rotar. fichero_log (ca_cuaderno c') = anota rotar (marca @ lote) F \<and> (rotar \<longrightarrow> unat MAX_ACTIVO < length (F 0) + length lote)"
proof -
  define rotar where "rotar = (decidir_log (fl_activo_bytes (ca_flujo c)) (length lote) = RotarYAnexar)"
  define l where "l = \<lparr>le_copiados = length lote, le_perdidos = of_nat (k - unat (fl_cursor (ca_flujo c))), le_cursor = of_nat (k + length lote),
        le_pendientes = (of_nat (length h - (k + length lote)) :: u64)\<rparr>"
  note D = canal_bienD [OF b refl]
  have kn: "length h < 2 ^ 64" "k + length lote \<le> length h" using escritos [OF s(1)] minimo [OF s(1)] s(2) by (auto simp: k lote)
  have F0: "length (F 0) = unat (fl_activo_bytes (ca_flujo c))" using D(4,8) by (simp add: F)
  have mx: "length (F n) \<le> unat MAX_ACTIVO + marca_max" for n using D(7) by (simp add: F)
  have ln: "length lote \<le> LOTE_MAX" by (simp add: lote)
  have rot: "rotar \<longleftrightarrow> 0 < length (F 0) \<and> unat MAX_ACTIVO < length (F 0) + length lote"
    unfolding rotar_def F0 by (rule decidir_log_iff [OF _ ln]) (use mx [of 0] F0 in simp)
  have dis: "disponible ahora (ca_flujo c)" using D(1) by (simp add: disponible_def)
  note pf = pasada_fiel [OF s k lote marca [unfolded marca_de_def] rotar_def l_def dis]
  obtain ok ino d where v: "volcar_lote rotar marca lote (ca_ino c) (ca_cuaderno c) = (ok, ino, d)" by (metis prod_cases3)
  note V = volcar_ficheros [OF b refl v]
  have "canal_bien c' \<and> unat (fl_cursor (ca_flujo c')) = k + length lote \<and> (mas \<longleftrightarrow> k + length lote < length h) \<and>
    (\<exists>rotar. fichero_log (ca_cuaderno c') = anota rotar (marca @ lote) F \<and> (rotar \<longrightarrow> unat MAX_ACTIVO < length (F 0) + length lote))"
  proof (cases "marca = [] \<and> lote = []")
    case True
    then have c': "c' = c" "\<not> mas" using pf p by simp_all
    have "marca_perdida 96 x \<noteq> []" for x by (simp add: marca_perdida_def escritor_slice_def)
    then have "k = unat (fl_cursor (ca_flujo c))" using True by (auto simp: marca marca_de_def k split: if_splits)
    moreover have "length h \<le> k" using True by (simp add: lote LOTE_MAX_def)
    moreover have "F = anota False (marca @ lote) F" using True by (simp add: anota_def fun_eq_iff)
    ultimately show ?thesis using b True c' F by (intro conjI) (auto intro!: exI [of _ False])
  next
    case False
    have c': "c' = c\<lparr>ca_flujo := exito l (of_nat (length (marca @ lote))) rotar (ca_flujo c), ca_ino := ino, ca_cuaderno := d\<rparr>"
      "mas \<longleftrightarrow> k + length lote < length h"
      using pf p False V(1) by (auto simp: v)
    have f: "fichero_log d = anota rotar (marca @ lote) F" using V(4) by (simp add: F)
    have tam: "length (fichero_log d n) \<le> unat MAX_ACTIVO + marca_max" for n
      using mx [of n] mx [of "n - 1"] rot ln marca_de_len [of "unat (fl_cursor (ca_flujo c))" k, folded marca]
      by (auto simp: f anota_def MAX_ACTIVO_def LOTE_MAX_def)
    have act: "activo_de c' = fichero_log d 0" using V(3) by (simp add: activo_de_def fichero_log_def c')
    have "fl_activo_bytes (ca_flujo c') = of_nat (length (activo_de c'))"
      unfolding act f using F0 by (simp add: c' exito_def anota_def word_unat_eq_iff)
    then have "canal_bien c'"
      unfolding canal_bien_def Let_def using V tam by (auto simp: c' exito_def)
    moreover have "unat (fl_cursor (ca_flujo c')) = k + length lote"
      using kn by (simp add: c' exito_def l_def unat_of_nat del: of_nat_add)
    ultimately show ?thesis using c' f rot by (intro conjI exI [of _ rotar]) auto
  qed
  then show "canal_bien c'" "unat (fl_cursor (ca_flujo c')) = k + length lote" "mas \<longleftrightarrow> k + length lote < length h"
    "\<exists>rotar. fichero_log (ca_cuaderno c') = anota rotar (marca @ lote) F \<and> (rotar \<longrightarrow> unat MAX_ACTIVO < length (F 0) + length lote)"
    by blast+
qed

lemma pasadas_bien:
  assumes s: "refina s h"
  shows "unat (fl_cursor (ca_flujo c)) \<le> length h \<Longrightarrow> canal_bien c \<Longrightarrow>
     k = max (unat (fu_minimo ops s)) (unat (fl_cursor (ca_flujo c))) \<Longrightarrow> marca = marca_de (unat (fl_cursor (ca_flujo c))) k \<Longrightarrow>
     al_final w (fichero_log (ca_cuaderno c)) \<Longrightarrow> length w + length marca + (length h - k) \<le> unat MAX_ACTIVO \<Longrightarrow>
     0 < n \<Longrightarrow> length h - k \<le> n * LOTE_MAX \<Longrightarrow> c' = pasadas n ops s ahora c \<Longrightarrow>
     canal_bien c' \<and> unat (fl_cursor (ca_flujo c')) = length h \<and> al_final (w @ marca @ drop k h) (fichero_log (ca_cuaderno c'))"
proof (induction n arbitrary: c k marca w)
  case (Suc n)
  define lote where "lote = take LOTE_MAX (drop k h)"
  obtain mas c1 where p: "pasada_canal ops s ahora c = (mas, c1)" by fastforce
  note P = pasada_bien [OF s Suc.prems(1,2,3) lote_def Suc.prems(4) refl p]
  have kn: "k + length lote \<le> length h" using escritos [OF s] minimo [OF s] Suc.prems(1,3) by (auto simp: lote_def)
  have part: "drop k h = lote @ drop (k + length lote) h"
    by (metis add.commute append_take_drop_id drop_drop lote_def append_eq_conv_conj)
  obtain rotar where r: "fichero_log (ca_cuaderno c1) = anota rotar (marca @ lote) (fichero_log (ca_cuaderno c))"
    "rotar \<Longrightarrow> unat MAX_ACTIVO < length (fichero_log (ca_cuaderno c) 0) + length lote" using P(4) by blast
  have al: "al_final (w @ marca @ lote) (fichero_log (ca_cuaderno c1))"
    unfolding r(1) by (rule al_final_anota [OF Suc.prems(5) r(2)]) (use Suc.prems(6) kn in simp_all)
  show ?case
  proof (cases mas)
    case False
    then show ?thesis using P kn al part Suc.prems(9) p by simp
  next
    case True
    have full: "length lote = LOTE_MAX" using True P(3) by (simp add: lote_def min_def split: if_splits)
    have k1: "k + length lote = max (unat (fu_minimo ops s)) (unat (fl_cursor (ca_flujo c1)))"
      using P(2) Suc.prems(3) by simp
    have m1: "[] = marca_de (unat (fl_cursor (ca_flujo c1))) (k + length lote)" using P(2) by (simp add: marca_de_def)
    have rest: "length h - (k + length lote) \<le> n * LOTE_MAX" using Suc.prems(8) full by simp
    have n: "0 < n" using rest True P(3) by (cases n) simp_all
    have "canal_bien c' \<and> unat (fl_cursor (ca_flujo c')) = length h \<and>
        al_final ((w @ marca @ lote) @ [] @ drop (k + length lote) h) (fichero_log (ca_cuaderno c'))"
      by (rule Suc.IH [OF _ P(1) k1 m1 al _ n rest]) (use P(2) kn Suc.prems(6,9) True p in simp_all)
    then show ?thesis using part by simp
  qed
qed simp

end

text \<open>C19 (\<open>drenar_todo\<close>, \<open>pasada_canal\<close>): when no call of the file system fails, a drain of a channel in
  order writes everything the ring still holds beyond the cursor of the flow, after a mark with the count
  of bytes that were overwritten, in order and at the end of the last two files; the flow is left at the
  end of the ring, in order, and no file exceeds the limit by more than one mark.  A channel in order has
  its files within that bound; the header lines of a boot, which \<open>logfs.rs\<close> appends without rotating, can take a file
  beyond it.  The rings of the kernel have 256, 64 and 8 KiB.\<close>

theorem bitacora_drenada:
  assumes r: "ring_refina r h" and cap: "ring_cap r + marca_max \<le> unat MAX_ACTIVO"
    and c: "canal_bien c" "unat (fl_cursor (ca_flujo c)) \<le> length h"
    and k: "k = max (length h - rg_len r) (unat (fl_cursor (ca_flujo c)))"
    and c': "c' = pasadas MAX_PASADAS fuente_ring r ahora c"
  shows "unat (fl_cursor (ca_flujo c')) = length h \<and> canal_bien c' \<and>
    suffix (marca_de (unat (fl_cursor (ca_flujo c))) k @ drop k h)
      (fichero_log (ca_cuaderno c') 1 @ fichero_log (ca_cuaderno c') 0) \<and>
    (\<forall>n. length (fichero_log (ca_cuaderno c') n) \<le> unat MAX_ACTIVO + marca_max)"
proof -
  let ?m = "marca_de (unat (fl_cursor (ca_flujo c))) k"
  have rr: "rg_len r \<le> ring_cap r" "rg_len r \<le> length h" "length h < 2 ^ 64" "rg_escritos r = of_nat (length h)"
    using r by (auto simp: ring_refina_def)
  have "unat (fu_minimo fuente_ring r) = length h - rg_len r"
    using rr(2,3) by (simp add: fuente_ring_def cursor_minimo_def rr(4) unat_of_nat flip: of_nat_diff)
  then have k': "k = max (unat (fu_minimo fuente_ring r)) (unat (fl_cursor (ca_flujo c)))" using k by simp
  have lim: "length [] + length ?m + (length h - k) \<le> unat MAX_ACTIVO" "length h - k \<le> MAX_PASADAS * LOTE_MAX"
    using marca_de_len [of "unat (fl_cursor (ca_flujo c))" k] cap rr(1) k
    by (auto simp: MAX_ACTIVO_def MAX_PASADAS_def LOTE_MAX_def)
  have "canal_bien c' \<and> unat (fl_cursor (ca_flujo c')) = length h \<and> al_final ([] @ ?m @ drop k h) (fichero_log (ca_cuaderno c'))"
    by (rule flujo_de_anillo.pasadas_bien [OF r c(2,1) k' refl _ lim(1) _ lim(2) c']) (simp_all add: al_final_def MAX_PASADAS_def)
  then show ?thesis using canal_bienD(7) [of c'] by (auto simp: al_final_def suffix_append suffix_appendI)
qed

definition canal_vacio :: canal_log where
  "canal_vacio = \<lparr>ca_flujo = activar 0 flujo_nuevo, ca_ino = 0, ca_cuaderno = \<lparr>cu_nombres = [0 \<mapsto> 0], cu_datos = (\<lambda>_. []), cu_sig = 1, cu_fallos = []\<rparr>\<rparr>"

theorem bitacora_drenada_witness:
  "\<exists>c'. c' = pasadas MAX_PASADAS fuente_ring (ring_append ''abcdef'' (ring_new 4)) 0 canal_vacio \<and> unat (fl_cursor (ca_flujo c')) = 6 \<and>
     suffix (marca_perdida 96 2 @ ''cdef'') (fichero_log (ca_cuaderno c') 1 @ fichero_log (ca_cuaderno c') 0)"
proof -
  have r: "ring_refina (ring_append ''abcdef'' (ring_new 4)) ''abcdef''"
    using append_refina [OF nuevo_refina, of 4 "''abcdef''"] by simp
  have cap: "ring_cap (ring_append ''abcdef'' (ring_new 4)) = 4"
    using append_refina(2) [OF nuevo_refina, of 4 "''abcdef''"] by (simp add: ring_new_def)
  then have l: "rg_len (ring_append ''abcdef'' (ring_new 4)) = 4" using r by (simp add: ring_refina_def)
  have b: "canal_bien canal_vacio" "unat (fl_cursor (ca_flujo canal_vacio)) = 0"
    by (auto simp: canal_bien_def canal_vacio_def activar_def flujo_nuevo_def activo_de_def fichero_log_def split: if_splits option.split)
  show ?thesis
    using bitacora_drenada [OF r _ b(1) _ refl refl, of 0] by (simp add: l cap b(2) marca_max_def MAX_ACTIVO_def marca_de_def)
qed

section \<open>A rotation whose write fails\<close>

text \<open>The failures: unlink, three renames, create and stat succeed, the append does not.\<close>

definition falla_anexo :: "bool list" where
  "falla_anexo = [False, False, False, False, False, False, True]"

definition nombres_bien :: "cuaderno \<Rightarrow> bool" where
  "nombres_bien d \<longleftrightarrow> (\<forall>n \<le> 3. cu_nombres d n \<noteq> None) \<and> (\<forall>n i. cu_nombres d n = Some i \<longrightarrow> i < cu_sig d)"

lemma volcar_falla:
  assumes f: "cu_fallos d = falla_anexo @ resto" and n: "nombres_bien d" and l: "lote \<noteq> []"
  shows "volcar_lote True [] lote ino d = (False, cu_sig d, (rotado d)\<lparr>cu_fallos := resto\<rparr>)"
proof -
  have "\<exists>x. cu_nombres d k = Some x" if "k \<le> 3" for k using n that by (auto simp: nombres_bien_def)
  from this [of 0] this [of 1] this [of 2] this [of 3]
  obtain a0 a1 a2 a3 where a: "cu_nombres d 0 = Some a0" "cu_nombres d 1 = Some a1" "cu_nombres d 2 = Some a2" "cu_nombres d 3 = Some a3"
    by auto
  have "rotar_flujo d = (True, (rotado d)\<lparr>cu_fallos := [False, True] @ resto\<rparr>)"
    using f a by (auto simp: rotar_flujo_def pasos_eq cu_unlink_def cu_rename_def cu_create_def cu_pide_def rotado_def falla_anexo_def
        fun_eq_iff numeral_eq_Suc le_Suc_eq intro!: arg_cong [where f = "\<lambda>x. d\<lparr>cu_nombres := x, cu_datos := _, cu_sig := _, cu_fallos := _\<rparr>"])
  then show ?thesis using l by (simp add: volcar_lote_def abrir_log_def cu_append_def cu_pide_def rotado_def)
qed

lemma rotado_ficheros:
  assumes "nombres_bien d"
  shows "nombres_bien (rotado d)" "fichero_log (rotado d) = anota True [] (fichero_log d)"
  using assms by (fastforce simp: nombres_bien_def rotado_def fichero_log_def anota_def fun_eq_iff less_Suc_eq split: option.split if_splits)+

lemma intento_fallido:
  assumes r: "ring_refina r h" and cur: "unat (fl_cursor (ca_flujo c)) < length h" "length h - rg_len r \<le> unat (fl_cursor (ca_flujo c))"
    and lote: "lote = take LOTE_MAX (drop (unat (fl_cursor (ca_flujo c))) h)"
    and rot: "decidir_log (fl_activo_bytes (ca_flujo c)) (length lote) = RotarYAnexar"
    and dis: "disponible ahora (ca_flujo c)"
    and f: "cu_fallos (ca_cuaderno c) = falla_anexo @ resto" and n: "nombres_bien (ca_cuaderno c)"
  shows "snd (pasada_canal fuente_ring r ahora c) =
    \<lparr>ca_flujo = fallo_flujo ahora (length lote) (ca_flujo c), ca_ino = cu_sig (ca_cuaderno c),
     ca_cuaderno = (rotado (ca_cuaderno c))\<lparr>cu_fallos := resto\<rparr>\<rparr>"
proof -
  have rr: "rg_len r \<le> length h" "length h < 2 ^ 64" "rg_escritos r = of_nat (length h)"
    using r by (auto simp: ring_refina_def)
  have k: "unat (fl_cursor (ca_flujo c)) = max (unat (fu_minimo fuente_ring r)) (unat (fl_cursor (ca_flujo c)))"
    using rr(1,2) cur(2) by (simp add: fuente_ring_def cursor_minimo_def rr(3) unat_of_nat flip: of_nat_diff)
  have "lote \<noteq> []" using cur(1) by (simp add: lote LOTE_MAX_def)
  then show ?thesis
    using flujo_de_anillo.pasada_fiel [OF r less_imp_le [OF cur(1)] k lote refl refl refl dis] rot volcar_falla [OF f n, of lote] by simp
qed

lemma fallo_flujo_estado:
  assumes "fl_fallos_seguidos f \<in> {0, 1, 2}"
  shows "fl_estado (fallo_flujo a m f) = (if fl_fallos_seguidos f = 2 then Suspendido a else fl_estado f)"
    "fl_fallos_seguidos (fallo_flujo a m f) = (if fl_fallos_seguidos f = 2 then 0 else fl_fallos_seguidos f + 1)"
  using assms by (auto simp: fallo_flujo_def Let_def MAX_FALLOS_def word_le_nat_alt)

text \<open>C38 (\<open>pasada_canal\<close>, \<open>Flujo::fallo\<close>): a failed write after a rotation leaves \<open>activo_bytes\<close> at the
  size of the file that was rotated away, so the next attempt rotates again.  Four attempts whose only
  failure is the append, the fourth after the wait of a suspended flow, throw away the four files of the log
  without writing a byte.\<close>

theorem rotacion_repetida_borra:
  assumes r: "ring_refina r h" and cur: "unat (fl_cursor (ca_flujo c)) < length h" "length h - rg_len r \<le> unat (fl_cursor (ca_flujo c))"
    and rot: "decidir_log (fl_activo_bytes (ca_flujo c)) (length (take LOTE_MAX (drop (unat (fl_cursor (ca_flujo c))) h))) = RotarYAnexar"
    and fl: "fl_estado (ca_flujo c) = Activo" "fl_fallos_seguidos (ca_flujo c) = 0" and t: "REINTENTO_MS \<le> sat_sub t4 t3"
    and f: "cu_fallos (ca_cuaderno c) = falla_anexo @ falla_anexo @ falla_anexo @ falla_anexo" and n: "nombres_bien (ca_cuaderno c)"
    and c': "c' = fold (\<lambda>ahora c. snd (pasada_canal fuente_ring r ahora c)) [t1, t2, t3, t4] c"
  shows "historial (ca_cuaderno c') = [] \<and> fl_cursor (ca_flujo c') = fl_cursor (ca_flujo c) \<and>
    fl_activo_bytes (ca_flujo c') = fl_activo_bytes (ca_flujo c)"
proof -
  define lote where "lote = take LOTE_MAX (drop (unat (fl_cursor (ca_flujo c))) h)"
  define paso where "paso ahora c = snd (pasada_canal fuente_ring r ahora c)" for ahora c
  define igual where "igual x \<longleftrightarrow> fl_cursor (ca_flujo x) = fl_cursor (ca_flujo c) \<and> fl_activo_bytes (ca_flujo x) = fl_activo_bytes (ca_flujo c) \<and>
    nombres_bien (ca_cuaderno x)" for x :: canal_log
  have paso: "igual (paso ahora x) \<and> cu_fallos (ca_cuaderno (paso ahora x)) = resto \<and>
      fichero_log (ca_cuaderno (paso ahora x)) = anota True [] (fichero_log (ca_cuaderno x)) \<and>
      ca_flujo (paso ahora x) = fallo_flujo ahora (length lote) (ca_flujo x)"
    if x: "igual x" "disponible ahora (ca_flujo x)" "cu_fallos (ca_cuaderno x) = falla_anexo @ resto" for x ahora resto
  proof -
    have e: "fl_cursor (ca_flujo x) = fl_cursor (ca_flujo c)" "fl_activo_bytes (ca_flujo x) = fl_activo_bytes (ca_flujo c)"
      "nombres_bien (ca_cuaderno x)" using x(1) by (simp_all add: igual_def)
    note p = intento_fallido [OF r, of x lote ahora resto, unfolded e(1,2), OF cur lote_def rot [folded lote_def] x(2,3) e(3), folded paso_def]
    have "nombres_bien (rotado (ca_cuaderno x)\<lparr>cu_fallos := resto\<rparr>) = nombres_bien (rotado (ca_cuaderno x))"
      "fichero_log (rotado (ca_cuaderno x)\<lparr>cu_fallos := resto\<rparr>) = fichero_log (rotado (ca_cuaderno x))"
      by (simp_all add: nombres_bien_def fichero_log_def fun_eq_iff split: option.split)
    then show ?thesis using rotado_ficheros [OF e(3)] e(1,2) by (simp add: p igual_def fallo_flujo_def Let_def)
  qed
  define c1 c2 c3 where "c1 = paso t1 c" and "c2 = paso t2 c1" and "c3 = paso t3 c2"
  have dis: "disponible a f" if "fl_estado f = Activo" for a f using that by (simp add: disponible_def)
  have i: "igual c" using n by (simp add: igual_def)
  note P1 = paso [OF i dis [OF fl(1)] f, of t1, folded c1_def]
  have s1: "fl_estado (ca_flujo c1) = Activo" "fl_fallos_seguidos (ca_flujo c1) = 1" using P1 fallo_flujo_estado fl by simp_all
  note P2 = paso [OF conjunct1 [OF P1] dis [OF s1(1)] P1 [THEN conjunct2, THEN conjunct1], of t2, folded c2_def]
  have s2: "fl_estado (ca_flujo c2) = Activo" "fl_fallos_seguidos (ca_flujo c2) = 2" using P2 fallo_flujo_estado s1 by simp_all
  note P3 = paso [OF conjunct1 [OF P2] dis [OF s2(1)] P2 [THEN conjunct2, THEN conjunct1], of t3, folded c3_def]
  have "fl_estado (ca_flujo c3) = Suspendido t3" using P3 fallo_flujo_estado s2 by simp
  then have "disponible t4 (ca_flujo c3)" using t by (simp add: disponible_def)
  note P4 = paso [OF conjunct1 [OF P3] this, of "[]"]
  have c4: "c' = paso t4 c3" by (simp add: c' c1_def c2_def c3_def paso_def)
  have "fichero_log (ca_cuaderno c') n = []" if "n \<le> 3" for n
    using P1 P2 P3 P4 that by (auto simp: c4 anota_def numeral_eq_Suc le_Suc_eq)
  then have "historial (ca_cuaderno c') = []" by (simp add: historial_def)
  moreover have "igual c'" using P3 P4 by (simp add: c4)
  ultimately show ?thesis by (simp add: igual_def)
qed

definition canal_lleno :: canal_log where
  "canal_lleno = \<lparr>ca_flujo = activar MAX_ACTIVO flujo_nuevo, ca_ino = 0, ca_cuaderno = \<lparr>cu_nombres = (\<lambda>n. if n \<le> 3 then Some n else None),
     cu_datos = (\<lambda>_. replicate (unat MAX_ACTIVO) CHR ''x''), cu_sig = 4, cu_fallos = falla_anexo @ falla_anexo @ falla_anexo @ falla_anexo\<rparr>\<rparr>"

theorem rotacion_repetida_borra_witness:
  "length (historial (ca_cuaderno canal_lleno)) = unat TECHO_POR_FLUJO \<and>
   historial (ca_cuaderno (fold (\<lambda>ahora c. snd (pasada_canal fuente_ring (ring_append ''ab'' (ring_new 4)) ahora c)) [0, 2000, 4000, 34000] canal_lleno)) = []"
proof -
  have r: "ring_refina (ring_append ''ab'' (ring_new 4)) ''ab''" using append_refina [OF nuevo_refina, of 4 "''ab''"] by simp
  have cap: "ring_cap (ring_append ''ab'' (ring_new 4)) = 4"
    using append_refina(2) [OF nuevo_refina, of 4 "''ab''"] by (simp add: ring_new_def)
  then have l: "rg_len (ring_append ''ab'' (ring_new 4)) = 2" using r by (simp add: ring_refina_def)
  have "length (historial (ca_cuaderno canal_lleno)) = unat TECHO_POR_FLUJO"
    by (simp add: historial_def fichero_log_def canal_lleno_def TECHO_POR_FLUJO_def ROTACIONES_def MAX_ACTIVO_def)
  then show ?thesis
    using rotacion_repetida_borra [OF r _ _ _ _ _ _ _ _ refl, of canal_lleno 34000 4000 0 2000]
    by (simp add: l canal_lleno_def activar_def flujo_nuevo_def decidir_log_def MAX_ACTIVO_def LOTE_MAX_def REINTENTO_MS_def sat_sub_def
      nombres_bien_def)
qed

end
