(* ===== verification/Gpt.thy ===== *)
theory Gpt
  imports Rust_Str
begin

text \<open>
  \<open>crates/gptdisk/src/lib.rs\<close>: the partition tables of a disk.  A table is the sector of its header and
  the array of its entries, both as bytes; the functions of the crate are pure functions on them.  The
  index arithmetic on slices is on natural numbers, block addresses are 64-bit words.  The lemmas
  relate the bytes with the abstract table: the range of blocks of each partition in use.
\<close>

section \<open>Bytes of integers\<close>

primrec le_enc :: "nat \<Rightarrow> nat \<Rightarrow> bytes" where
  "le_enc 0 v = []"
| "le_enc (Suc k) v = char_of v # le_enc k (v div 256)"

primrec le_dec :: "bytes \<Rightarrow> nat" where
  "le_dec [] = 0"
| "le_dec (c # cs) = of_char c + 256 * le_dec cs"

text \<open>\<open>dst[off..off + src.len()].copy_from_slice(src)\<close>.\<close>

definition pon :: "nat \<Rightarrow> bytes \<Rightarrow> bytes \<Rightarrow> bytes" where
  "pon off src dst = take off dst @ src @ drop (off + length src) dst"

definition rd32 :: "bytes \<Rightarrow> nat \<Rightarrow> u32" where
  "rd32 b off = of_nat (le_dec (take 4 (drop off b)))"

definition rd64 :: "bytes \<Rightarrow> nat \<Rightarrow> u64" where
  "rd64 b off = of_nat (le_dec (take 8 (drop off b)))"

definition wr32 :: "nat \<Rightarrow> u32 \<Rightarrow> bytes \<Rightarrow> bytes" where
  "wr32 off v b = pon off (le_enc 4 (unat v)) b"

definition wr64 :: "nat \<Rightarrow> u64 \<Rightarrow> bytes \<Rightarrow> bytes" where
  "wr64 off v b = pon off (le_enc 8 (unat v)) b"

section \<open>Identifiers\<close>

type_synonym guid = bytes

definition guid_is_zero :: "guid \<Rightarrow> bool" where
  "guid_is_zero g = list_all (\<lambda>b. b = CHR 0x00) g"

definition gpt_hex_val :: "char \<Rightarrow> nat option" where
  "gpt_hex_val c =
     (let n = of_char c :: nat in
      if 48 \<le> n \<and> n \<le> 57 then Some (n - 48)
      else if 97 \<le> n \<and> n \<le> 102 then Some (n - 97 + 10)
      else if 65 \<le> n \<and> n \<le> 70 then Some (n - 65 + 10) else None)"

fun guid_nibs :: "string \<Rightarrow> nat list option" where
  "guid_nibs [] = Some []"
| "guid_nibs (c # cs) =
     (if c = CHR ''-'' then guid_nibs cs
      else case gpt_hex_val c of None \<Rightarrow> None | Some v \<Rightarrow> map_option (\<lambda>vs. v # vs) (guid_nibs cs))"

definition guid_byte :: "nat list \<Rightarrow> nat \<Rightarrow> char" where
  "guid_byte nib i = char_of (nib ! (i * 2) * 16 + nib ! (i * 2 + 1))"

text \<open>The array of 32 digits is written while the text is read; a text with other than 32 of them,
  which has a fifth hyphen, leaves the rest of the array at zero.\<close>

definition guid_parse :: "string \<Rightarrow> guid option" where
  "guid_parse b =
     (if length b \<noteq> 36 \<or> b ! 8 \<noteq> CHR ''-'' \<or> b ! 13 \<noteq> CHR ''-'' \<or> b ! 18 \<noteq> CHR ''-'' \<or> b ! 23 \<noteq> CHR ''-'' then None
      else case guid_nibs b of None \<Rightarrow> None
        | Some vs \<Rightarrow>
            let nib = vs @ replicate (32 - length vs) 0
            in Some (map (guid_byte nib) ([3, 2, 1, 0, 5, 4, 7, 6] @ [8..<16])))"

definition HEX_MAY :: string where
  "HEX_MAY = ''0123456789ABCDEF''"

definition hex02 :: "char \<Rightarrow> string" where
  "hex02 c = [HEX_MAY ! ((of_char c :: nat) div 16), HEX_MAY ! ((of_char c :: nat) mod 16)]"

definition guid_show :: "guid \<Rightarrow> string" where
  "guid_show g =
     concat (map (\<lambda>i. hex02 (g ! i)) [3, 2, 1, 0]) @ ''-'' @ concat (map (\<lambda>i. hex02 (g ! i)) [5, 4]) @ ''-'' @
     concat (map (\<lambda>i. hex02 (g ! i)) [7, 6]) @ ''-'' @ concat (map (\<lambda>i. hex02 (g ! i)) [8, 9]) @ ''-'' @
     concat (map (\<lambda>i. hex02 (g ! i)) [10..<16])"

section \<open>Checksum\<close>

definition crc_bit :: "u32 \<Rightarrow> u32" where
  "crc_bit c = (drop_bit 1 c) XOR (0xEDB88320 AND (- (c AND 1)))"

definition crc_byte :: "char \<Rightarrow> u32 \<Rightarrow> u32" where
  "crc_byte b c = (crc_bit ^^ 8) (c XOR of_nat (of_char b))"

definition crc32_ieee :: "bytes \<Rightarrow> u32" where
  "crc32_ieee data = NOT (fold crc_byte data 0xFFFFFFFF)"

section \<open>Header\<close>

definition GPT_SECTOR :: nat where "GPT_SECTOR = 512"
definition SIGNATURE :: string where "SIGNATURE = ''EFI PART''"
definition MIN_HEADER_SIZE :: u32 where "MIN_HEADER_SIZE = 92"

datatype gpt_error = BadSignature | BadHeader | ShortEntries | TooSmall

record gpt_header =
  gh_revision :: u32
  gh_header_size :: u32
  gh_my_lba :: u64
  gh_alternate_lba :: u64
  gh_first_usable :: u64
  gh_last_usable :: u64
  gh_disk_guid :: guid
  gh_entries_lba :: u64
  gh_num_entries :: u32
  gh_entry_size :: u32

definition header_parse :: "bytes \<Rightarrow> gpt_error + gpt_header" where
  "header_parse sec =
     (if length sec < GPT_SECTOR then Inl BadHeader
      else if take 8 sec \<noteq> SIGNATURE then Inl BadSignature
      else let header_size = rd32 sec 12 in
        if \<not> (MIN_HEADER_SIZE \<le> header_size \<and> header_size \<le> of_nat GPT_SECTOR) then Inl BadHeader
        else let num_entries = rd32 sec 80; entry_size = rd32 sec 84 in
          if num_entries = 0 \<or> num_entries > 512 \<or> entry_size < 128 \<or> entry_size mod 8 \<noteq> 0 then Inl BadHeader
          else Inr \<lparr>gh_revision = rd32 sec 8, gh_header_size = header_size, gh_my_lba = rd64 sec 24,
            gh_alternate_lba = rd64 sec 32, gh_first_usable = rd64 sec 40, gh_last_usable = rd64 sec 48,
            gh_disk_guid = take 16 (drop 56 sec), gh_entries_lba = rd64 sec 72,
            gh_num_entries = num_entries, gh_entry_size = entry_size\<rparr>)"

definition entries_bytes :: "gpt_header \<Rightarrow> nat" where
  "entries_bytes h = unat (gh_num_entries h) * unat (gh_entry_size h)"

definition entries_sectors :: "gpt_header \<Rightarrow> u64" where
  "entries_sectors h = of_nat ((entries_bytes h + (GPT_SECTOR - 1)) div GPT_SECTOR)"

definition render_campos :: "gpt_header \<Rightarrow> bytes" where
  "render_campos h =
     wr32 84 (gh_entry_size h) (wr32 80 (gh_num_entries h) (wr64 72 (gh_entries_lba h) (pon 56 (gh_disk_guid h)
      (wr64 48 (gh_last_usable h) (wr64 40 (gh_first_usable h) (wr64 32 (gh_alternate_lba h) (wr64 24 (gh_my_lba h)
       (wr32 12 (gh_header_size h) (wr32 8 (gh_revision h) (pon 0 SIGNATURE (replicate GPT_SECTOR (CHR 0x00))))))))))))"

definition header_render :: "gpt_header \<Rightarrow> bytes \<Rightarrow> bytes" where
  "header_render h entries =
     (let n = min (entries_bytes h) (length entries);
          sec = wr32 88 (crc32_ieee (take n entries)) (render_campos h);
          crc = crc32_ieee (take (unat (gh_header_size h)) sec)
      in wr32 16 crc sec)"

section \<open>Entries\<close>

text \<open>The checked product of the index only fails where the slice is out of range as well.\<close>

definition gpt_entry :: "bytes \<Rightarrow> gpt_header \<Rightarrow> nat \<Rightarrow> bytes option" where
  "gpt_entry entries h i =
     (let sz = unat (gh_entry_size h); off = i * sz
      in if off + sz \<le> length entries then Some (take sz (drop off entries)) else None)"

text \<open>What a caller does through \<open>entry_mut\<close>: the slice of the entry is replaced.\<close>

definition entry_mut :: "gpt_header \<Rightarrow> nat \<Rightarrow> (bytes \<Rightarrow> bytes) \<Rightarrow> bytes \<Rightarrow> bytes" where
  "entry_mut h i f entries =
     (case gpt_entry entries h i of None \<Rightarrow> entries | Some e \<Rightarrow> pon (i * unat (gh_entry_size h)) (f e) entries)"

definition set_entry_first_lba :: "u64 \<Rightarrow> bytes \<Rightarrow> bytes" where "set_entry_first_lba lba e = wr64 32 lba e"
definition set_entry_last_lba :: "u64 \<Rightarrow> bytes \<Rightarrow> bytes" where "set_entry_last_lba lba e = wr64 40 lba e"

definition entry_used :: "bytes \<Rightarrow> bool" where
  "entry_used e = list_ex (\<lambda>b. b \<noteq> CHR 0x00) (take 16 e)"

definition entry_type :: "bytes \<Rightarrow> guid" where "entry_type e = take 16 e"
definition entry_unique :: "bytes \<Rightarrow> guid" where "entry_unique e = take 16 (drop 16 e)"
definition entry_first_lba :: "bytes \<Rightarrow> u64" where "entry_first_lba e = rd64 e 32"
definition entry_last_lba :: "bytes \<Rightarrow> u64" where "entry_last_lba e = rd64 e 40"

fun last_used_loop :: "bytes \<Rightarrow> gpt_header \<Rightarrow> (u64 \<times> nat) option \<Rightarrow> nat list \<Rightarrow> (u64 \<times> nat) option" where
  "last_used_loop entries h best [] = best"
| "last_used_loop entries h best (i # is) =
     (case gpt_entry entries h i of None \<Rightarrow> best
      | Some e \<Rightarrow>
          if \<not> entry_used e then last_used_loop entries h best is
          else let last = entry_last_lba e in
            last_used_loop entries h
              (case best of None \<Rightarrow> Some (last, i) | Some (lba, j) \<Rightarrow> if last \<ge> lba then Some (last, i) else best) is)"

definition last_used :: "bytes \<Rightarrow> gpt_header \<Rightarrow> nat option" where
  "last_used entries h = map_option snd (last_used_loop entries h None [0..<unat (gh_num_entries h)])"

definition used_count :: "bytes \<Rightarrow> gpt_header \<Rightarrow> nat" where
  "used_count entries h =
     length (filter (\<lambda>i. case gpt_entry entries h i of None \<Rightarrow> False | Some e \<Rightarrow> entry_used e) [0..<unat (gh_num_entries h)])"

section \<open>Fitting a table to a disk\<close>

record gpt_plan =
  gp_primary_header_lba :: u64
  gp_primary_entries_lba :: u64
  gp_backup_entries_lba :: u64
  gp_backup_header_lba :: u64
  gp_entries_sectors :: u64

fun relayout_cabe :: "bytes \<Rightarrow> gpt_header \<Rightarrow> u64 \<Rightarrow> u64 \<Rightarrow> nat list \<Rightarrow> bool" where
  "relayout_cabe entries h first_usable last_usable [] = True"
| "relayout_cabe entries h first_usable last_usable (i # is) =
     (case gpt_entry entries h i of None \<Rightarrow> True
      | Some e \<Rightarrow>
          if entry_used e \<and> (entry_last_lba e > last_usable \<or> entry_first_lba e < first_usable) then False
          else relayout_cabe entries h first_usable last_usable is)"

definition relayout :: "gpt_header \<Rightarrow> bytes \<Rightarrow> u64 \<Rightarrow> gpt_error + gpt_plan \<times> gpt_header \<times> bytes" where
  "relayout h entries disk_sectors =
     (if length entries < entries_bytes h then Inl ShortEntries
      else let esec = entries_sectors h in
      if disk_sectors < 2 * esec + 4 then Inl TooSmall
      else let backup_header_lba = disk_sectors - 1;
               backup_entries_lba = backup_header_lba - esec;
               last_usable = backup_entries_lba - 1;
               first_usable = 2 + esec in
      if last_usable \<le> first_usable then Inl TooSmall
      else if \<not> relayout_cabe entries h first_usable last_usable [0..<unat (gh_num_entries h)] then Inl TooSmall
      else
        let entries' = (case last_used entries h of None \<Rightarrow> entries
              | Some i \<Rightarrow> entry_mut h i (\<lambda>e. if entry_last_lba e < last_usable then wr64 40 last_usable e else e) entries);
            h' = h\<lparr>gh_my_lba := 1, gh_alternate_lba := backup_header_lba, gh_entries_lba := 2,
                   gh_first_usable := first_usable, gh_last_usable := last_usable\<rparr>
        in Inr (\<lparr>gp_primary_header_lba = 1, gp_primary_entries_lba = 2, gp_backup_entries_lba = backup_entries_lba,
                 gp_backup_header_lba = backup_header_lba, gp_entries_sectors = esec\<rparr>, h', entries'))"

definition render_primary :: "gpt_header \<Rightarrow> bytes \<Rightarrow> gpt_plan \<Rightarrow> bytes" where
  "render_primary h entries plan =
     header_render (h\<lparr>gh_my_lba := gp_primary_header_lba plan, gh_alternate_lba := gp_backup_header_lba plan,
       gh_entries_lba := gp_primary_entries_lba plan\<rparr>) entries"

definition render_backup :: "gpt_header \<Rightarrow> bytes \<Rightarrow> gpt_plan \<Rightarrow> bytes" where
  "render_backup h entries plan =
     header_render (h\<lparr>gh_my_lba := gp_backup_header_lba plan, gh_alternate_lba := gp_primary_header_lba plan,
       gh_entries_lba := gp_backup_entries_lba plan\<rparr>) entries"

section \<open>New identifiers\<close>

record gpt_rng =
  rng_s0 :: u64
  rng_s1 :: u64

definition splitmix :: "u64 \<Rightarrow> u64" where
  "splitmix z =
     (let x1 = (z XOR drop_bit 30 z) * 0xBF58476D1CE4E5B9;
          x2 = (x1 XOR drop_bit 27 x1) * 0x94D049BB133111EB
      in x2 XOR drop_bit 31 x2)"

definition rng_new :: "u64 \<Rightarrow> gpt_rng" where
  "rng_new seed =
     (let z1 = seed + 0x9E3779B97F4A7C15 + 0x9E3779B97F4A7C15; z2 = z1 + 0x9E3779B97F4A7C15
      in \<lparr>rng_s0 = splitmix z1, rng_s1 = splitmix z2\<rparr>)"

definition next_u64 :: "gpt_rng \<Rightarrow> u64 \<times> gpt_rng" where
  "next_u64 r =
     (let x = rng_s0 r; y = rng_s1 r; x' = x XOR push_bit 23 x;
          s1 = x' XOR y XOR drop_bit 17 x' XOR drop_bit 26 y
      in (s1 + y, \<lparr>rng_s0 = y, rng_s1 = s1\<rparr>))"

text \<open>A byte with some bits cleared and others set: \<open>(b & m) | v\<close>.\<close>

definition byte_and_or :: "char \<Rightarrow> nat \<Rightarrow> nat \<Rightarrow> char" where
  "byte_and_or b m v = char_of (((of_char b :: nat) AND m) OR v)"

definition rng_guid :: "gpt_rng \<Rightarrow> guid \<times> gpt_rng" where
  "rng_guid r =
     (case next_u64 r of (a, r1) \<Rightarrow> case next_u64 r1 of (b, r2) \<Rightarrow>
      let g = le_enc 8 (unat a) @ le_enc 8 (unat b);
          g1 = g[7 := byte_and_or (g ! 7) 0x0F 0x40];
          g2 = g1[8 := byte_and_or (g1 ! 8) 0x3F 0x80]
      in (g2, r2))"

fun reseed_loop :: "gpt_header \<Rightarrow> nat list \<Rightarrow> bytes \<Rightarrow> gpt_rng \<Rightarrow> bytes \<times> gpt_rng" where
  "reseed_loop h [] entries r = (entries, r)"
| "reseed_loop h (i # is) entries r =
     (case gpt_entry entries h i of None \<Rightarrow> (entries, r)
      | Some e \<Rightarrow>
          if entry_used e then case rng_guid r of (g, r') \<Rightarrow> reseed_loop h is (entry_mut h i (pon 16 g) entries) r'
          else reseed_loop h is entries r)"

definition reseed_guids :: "gpt_header \<Rightarrow> bytes \<Rightarrow> gpt_rng \<Rightarrow> gpt_header \<times> bytes \<times> gpt_rng" where
  "reseed_guids h entries r =
     (case rng_guid r of (g, r1) \<Rightarrow>
      let h' = h\<lparr>gh_disk_guid := g\<rparr>
      in case reseed_loop h' [0..<unat (gh_num_entries h')] entries r1 of (entries', r2) \<Rightarrow> (h', entries', r2))"

definition protective_mbr_fix :: "bytes \<Rightarrow> u64 \<Rightarrow> bytes" where
  "protective_mbr_fix mbr disk_sectors =
     (let size = (ucast (min (disk_sectors - 1) 0xFFFFFFFF) :: u32);
          m1 = (mbr[446 := CHR 0x00])[450 := CHR 0xEE];
          m2 = wr32 458 size (wr32 454 1 m1)
      in (m2[510 := CHR 0x55])[511 := CHR 0xAA])"

section \<open>Kinds of partitions\<close>

definition T_ESP :: string where "T_ESP = ''C12A7328-F81F-11D2-BA4B-00A0C93EC93B''"
definition T_LINUX :: string where "T_LINUX = ''0FC63DAF-8483-4772-8E79-3D69D8477DE4''"
definition T_SWAP :: string where "T_SWAP = ''0657FD6D-A4AB-43C4-84E5-0933C84B4F4F''"
definition T_LVM :: string where "T_LVM = ''E6D6D379-F507-44C2-A23C-238F2A3DF928''"
definition T_RAID :: string where "T_RAID = ''A19D880F-05FC-4D3B-A006-743F0F84911E''"
definition T_MSDATA :: string where "T_MSDATA = ''EBD0A0A2-B9E5-4433-87C0-68B6B72699C7''"
definition T_MSRESERVED :: string where "T_MSRESERVED = ''E3C9E316-0B5C-4DB8-817D-F92DF00215AE''"
definition T_WINRE :: string where "T_WINRE = ''DE94BBA4-06D1-4D40-A16A-BFD50179D6AC''"
definition T_LINUX_HOME :: string where "T_LINUX_HOME = ''933AC7E1-2EB4-4F13-B844-0E14E2AEF915''"
definition T_LINUX_ROOT_X64 :: string where "T_LINUX_ROOT_X64 = ''4F68BCE3-E8CD-4DB1-96E7-FBCAF984B709''"
definition T_BIOSBOOT :: string where "T_BIOSBOOT = ''21686148-6449-6E6F-744E-656564454649''"

definition tipos_conocidos :: "(string \<times> string) list" where
  "tipos_conocidos = [(T_ESP, ''ESP''), (T_LINUX, ''linux''), (T_LINUX_ROOT_X64, ''linux-root''), (T_LINUX_HOME, ''linux-home''),
     (T_SWAP, ''swap''), (T_LVM, ''lvm''), (T_RAID, ''raid''), (T_MSDATA, ''windows''), (T_MSRESERVED, ''ms-reserved''),
     (T_WINRE, ''windows-recovery''), (T_BIOSBOOT, ''bios-boot'')]"

definition type_label :: "guid \<Rightarrow> string" where
  "type_label t = (case find (\<lambda>(g, l). guid_parse g = Some t) tipos_conocidos of Some (g, l) \<Rightarrow> l | None \<Rightarrow> ''desconocido'')"

definition is_foreign :: "guid \<Rightarrow> bool" where
  "is_foreign t = (type_label t \<in> {''swap'', ''lvm'', ''raid'', ''windows'', ''ms-reserved'', ''windows-recovery'',
     ''linux-root'', ''linux-home'', ''bios-boot''})"

fun entry_name_loop :: "bytes \<Rightarrow> nat \<Rightarrow> nat list \<Rightarrow> bytes" where
  "entry_name_loop e hueco [] = []"
| "entry_name_loop e hueco (i # is) =
     (let off = 56 + i * 2 in
      if off + 1 \<ge> length e \<or> hueco = 0 then []
      else let c = le_dec [e ! off, e ! (off + 1)] in
        if c = 0 then []
        else (if 0x20 \<le> c \<and> c < 0x7F then char_of c else CHR ''?'') # entry_name_loop e (hueco - 1) is)"

definition entry_name_ascii :: "bytes \<Rightarrow> nat \<Rightarrow> bytes" where
  "entry_name_ascii e out = entry_name_loop e out [0..<36]"

definition NAME_SOSOINSTALL :: bytes where "NAME_SOSOINSTALL = ''SOSOINSTALL''"

definition entry_is_foreign :: "bytes \<Rightarrow> bool" where
  "entry_is_foreign e =
     (let t = entry_type e in
      if \<not> is_foreign t then False
      else if type_label t = ''windows'' \<and> entry_name_ascii e 36 = NAME_SOSOINSTALL then False else True)"

section \<open>A larger root when installing\<close>

definition MAX_ROOT_SECTORS :: u64 where "MAX_ROOT_SECTORS = 64 * 1024 * 1024 * 1024 div 512"
definition GROW_ALIGN :: u64 where "GROW_ALIGN = 2048"

record grow_root =
  gr_head_sectors :: u64
  gr_delta :: u64

definition plan_grow_root :: "gpt_header \<Rightarrow> bytes \<Rightarrow> nat \<Rightarrow> u64 \<Rightarrow> u64 \<Rightarrow> grow_root" where
  "plan_grow_root h entries root dst_sectors copy_sectors =
     (let ninguno = \<lparr>gr_head_sectors = 0, gr_delta = 0\<rparr> in
      case gpt_entry entries h root of None \<Rightarrow> ninguno
      | Some e \<Rightarrow>
          if \<not> entry_used e then ninguno
          else let head = entry_last_lba e + 1 in
            if copy_sectors < head then ninguno
            else let actual = head - entry_first_lba e;
                     deseado = max (min (dst_sectors div 4) MAX_ROOT_SECTORS) actual;
                     cabe = sat_sub dst_sectors (copy_sectors + GROW_ALIGN);
                     delta = min (deseado - actual) cabe
                 in \<lparr>gr_head_sectors = head, gr_delta = delta - delta mod GROW_ALIGN\<rparr>)"

definition crece_entrada :: "nat \<Rightarrow> u64 \<Rightarrow> u64 \<Rightarrow> u64 \<Rightarrow> nat \<Rightarrow> bytes \<Rightarrow> bytes" where
  "crece_entrada root root_last delta tope i e =
     (if i = root then set_entry_last_lba (root_last + delta) e
      else if entry_first_lba e > root_last
      then let first = entry_first_lba e + delta; last = max (min (entry_last_lba e + delta) tope) first
           in set_entry_last_lba last (set_entry_first_lba first e)
      else e)"

fun crece_loop :: "gpt_header \<Rightarrow> nat \<Rightarrow> u64 \<Rightarrow> u64 \<Rightarrow> u64 \<Rightarrow> nat list \<Rightarrow> bytes \<Rightarrow> bytes" where
  "crece_loop h root root_last delta tope [] entries = entries"
| "crece_loop h root root_last delta tope (i # is) entries =
     (case gpt_entry entries h i of None \<Rightarrow> entries
      | Some e \<Rightarrow>
          if \<not> entry_used e then crece_loop h root root_last delta tope is entries
          else crece_loop h root root_last delta tope is (entry_mut h i (crece_entrada root root_last delta tope i) entries))"

definition apply_grow_root :: "gpt_header \<Rightarrow> bytes \<Rightarrow> nat \<Rightarrow> u64 \<Rightarrow> u64 \<Rightarrow> bytes" where
  "apply_grow_root h entries root delta disk_sectors =
     (if delta = 0 then entries
      else case gpt_entry entries h root of None \<Rightarrow> entries
        | Some e \<Rightarrow>
            let root_last = entry_last_lba e; tope = sat_sub disk_sectors (entries_sectors h + 2)
            in crece_loop h root root_last delta tope [0..<unat (gh_num_entries h)] entries)"

section \<open>Facts on bytes\<close>

lemma length_le_enc [simp]: "length (le_enc k v) = k"
  by (induction k arbitrary: v) auto

lemma le_dec_enc: "le_dec (le_enc k v) = v mod 256 ^ k"
proof (induction k arbitrary: v)
  case (Suc k)
  have "of_char (char_of v :: char) = v mod 256" by simp
  then show ?case using Suc by (simp add: mod_mult2_eq)
qed simp

lemma le_enc_0: "le_enc k 0 = replicate k (CHR 0x00)"
  by (induction k) (simp_all add: char_of_def)

lemma length_pon [simp]: "off + length s \<le> length b \<Longrightarrow> length (pon off s b) = length b"
  by (simp add: pon_def)

lemma pon_nth:
  assumes "off + length s \<le> length b" "i < length b"
  shows "pon off s b ! i = (if off \<le> i \<and> i < off + length s then s ! (i - off) else b ! i)"
  using assms by (auto simp: pon_def nth_append)

lemma lee_pon:
  assumes "off + length s \<le> length b"
  shows "take (length s) (drop off (pon off s b)) = s"
    and "p + k \<le> off \<or> off + length s \<le> p \<Longrightarrow> take k (drop p (pon off s b)) = take k (drop p b)"
proof -
  show "take (length s) (drop off (pon off s b)) = s" using assms by (simp add: pon_def)
  assume p: "p + k \<le> off \<or> off + length s \<le> p"
  show "take k (drop p (pon off s b)) = take k (drop p b)"
    by (rule nth_equalityI) (use assms p in \<open>auto simp: pon_nth\<close>)
qed

lemma le_dec_word: "le_dec (le_enc 4 (unat v)) = unat (v :: u32)" "le_dec (le_enc 8 (unat w)) = unat (w :: u64)"
  using unsigned_less [of v, where 'a = nat] unsigned_less [of w, where 'a = nat] by (simp_all add: le_dec_enc)

lemma rd_wr [simp]:
  "off + 4 \<le> length b \<Longrightarrow> rd32 (wr32 off v b) off = v" "off + 8 \<le> length b \<Longrightarrow> rd64 (wr64 off w b) off = w"
  using lee_pon(1) [of off "le_enc 4 (unat v)" b] lee_pon(1) [of off "le_enc 8 (unat w)" b]
  by (simp_all add: rd32_def wr32_def rd64_def wr64_def le_dec_word)

lemma length_wr [simp]:
  "off + 4 \<le> length b \<Longrightarrow> length (wr32 off v b) = length b" "off + 8 \<le> length b \<Longrightarrow> length (wr64 off w b) = length b"
  by (simp_all add: wr32_def wr64_def)

lemma rd_wr_otro:
  assumes "off + 4 \<le> length b"
  shows "p + 4 \<le> off \<or> off + 4 \<le> p \<Longrightarrow> rd32 (wr32 off v b) p = rd32 b p"
    "p + 8 \<le> off \<or> off + 4 \<le> p \<Longrightarrow> rd64 (wr32 off v b) p = rd64 b p"
    "p + k \<le> off \<or> off + 4 \<le> p \<Longrightarrow> take k (drop p (wr32 off v b)) = take k (drop p b)"
  using assms lee_pon(2) [of off "le_enc 4 (unat v)" b] by (simp_all add: rd32_def rd64_def wr32_def)

lemma rd_wr_otro64:
  assumes "off + 8 \<le> length b"
  shows "p + 4 \<le> off \<or> off + 8 \<le> p \<Longrightarrow> rd32 (wr64 off w b) p = rd32 b p"
    "p + 8 \<le> off \<or> off + 8 \<le> p \<Longrightarrow> rd64 (wr64 off w b) p = rd64 b p"
    "p + k \<le> off \<or> off + 8 \<le> p \<Longrightarrow> take k (drop p (wr64 off w b)) = take k (drop p b)"
  using assms lee_pon(2) [of off "le_enc 8 (unat w)" b] by (simp_all add: rd32_def rd64_def wr64_def)

lemma rd_pon_otro:
  assumes "off + length s \<le> length b"
  shows "p + 4 \<le> off \<or> off + length s \<le> p \<Longrightarrow> rd32 (pon off s b) p = rd32 b p"
    "p + 8 \<le> off \<or> off + length s \<le> p \<Longrightarrow> rd64 (pon off s b) p = rd64 b p"
  using assms lee_pon(2) [of off s b] by (simp_all add: rd32_def rd64_def)

lemma pon_repone:
  assumes "take (length s) (drop off b) = s" "length t = length s" "off + length s \<le> length b"
  shows "pon off s (pon off t b) = b"
proof -
  have "take off b @ take (length s) (drop off b) @ drop (length s) (drop off b) = b" by (metis append_take_drop_id)
  then show ?thesis using assms by (simp add: pon_def add.commute)
qed

lemma take_antes:
  "k \<le> off \<Longrightarrow> off + length s \<le> length b \<Longrightarrow> take k (pon off s b) = take k b"
  "k \<le> off \<Longrightarrow> off + 4 \<le> length b \<Longrightarrow> take k (wr32 off v b) = take k b"
  "k \<le> off \<Longrightarrow> off + 8 \<le> length b \<Longrightarrow> take k (wr64 off w b) = take k b"
  by (simp_all add: wr32_def wr64_def pon_def min_def)

lemmas rd_simps = rd_wr rd_wr_otro rd_wr_otro64 rd_pon_otro lee_pon

section \<open>Headers and identifiers read back\<close>

definition header_ok :: "gpt_header \<Rightarrow> bool" where
  "header_ok h \<longleftrightarrow> MIN_HEADER_SIZE \<le> gh_header_size h \<and> gh_header_size h \<le> 512 \<and> gh_num_entries h \<noteq> 0 \<and> gh_num_entries h \<le> 512 \<and>
     128 \<le> gh_entry_size h \<and> gh_entry_size h mod 8 = 0 \<and> length (gh_disk_guid h) = 16"

lemma header_ok_campos [simp]:
  "header_ok (h\<lparr>gh_my_lba := a\<rparr>) = header_ok h" "header_ok (h\<lparr>gh_alternate_lba := a\<rparr>) = header_ok h"
  "header_ok (h\<lparr>gh_entries_lba := a\<rparr>) = header_ok h" "header_ok (h\<lparr>gh_first_usable := a\<rparr>) = header_ok h"
  "header_ok (h\<lparr>gh_last_usable := a\<rparr>) = header_ok h"
  by (simp_all add: header_ok_def)

lemma header_parse_ok: "header_parse sec = Inr h \<Longrightarrow> header_ok h"
  by (simp add: header_parse_def header_ok_def Let_def GPT_SECTOR_def not_less split: if_splits)
    (elim conjE, hypsubst, simp)

lemma render_campos_lee:
  assumes "length (gh_disk_guid h) = 16"
  shows "length (render_campos h) = 512" "take 8 (render_campos h) = SIGNATURE"
    "rd32 (render_campos h) 8 = gh_revision h" "rd32 (render_campos h) 12 = gh_header_size h" "rd64 (render_campos h) 24 = gh_my_lba h"
    "rd64 (render_campos h) 32 = gh_alternate_lba h" "rd64 (render_campos h) 40 = gh_first_usable h"
    "rd64 (render_campos h) 48 = gh_last_usable h" "take 16 (drop 56 (render_campos h)) = gh_disk_guid h"
    "rd64 (render_campos h) 72 = gh_entries_lba h" "rd32 (render_campos h) 80 = gh_num_entries h"
    "rd32 (render_campos h) 84 = gh_entry_size h"
proof -
  have sg: "length SIGNATURE = 8" by (simp add: SIGNATURE_def)
  show "take 8 (render_campos h) = SIGNATURE"
    using assms sg lee_pon(1) [of 0 SIGNATURE "replicate 512 (CHR 0x00)"] by (simp add: render_campos_def GPT_SECTOR_def take_antes)
  have "take 16 (drop 56 (pon 56 (gh_disk_guid h) b)) = gh_disk_guid h" if "72 \<le> length b" for b
    using lee_pon(1) [of 56 "gh_disk_guid h" b] assms that by simp
  then show "take 16 (drop 56 (render_campos h)) = gh_disk_guid h"
    using assms sg by (simp add: render_campos_def GPT_SECTOR_def rd_wr_otro rd_wr_otro64)
qed (use assms in \<open>simp_all add: render_campos_def GPT_SECTOR_def SIGNATURE_def rd_wr_otro rd_wr_otro64 rd_pon_otro\<close>)

lemma header_render_todo:
  assumes h: "header_ok h"
  shows "length (header_render h entries) = GPT_SECTOR \<and> header_parse (header_render h entries) = Inr h \<and>
    rd32 (header_render h entries) 88 = crc32_ieee (take (entries_bytes h) entries) \<and>
    rd32 (header_render h entries) 16 = crc32_ieee (take (unat (gh_header_size h)) (wr32 16 0 (header_render h entries)))"
proof -
  define sec where "sec = wr32 88 (crc32_ieee (take (entries_bytes h) entries)) (render_campos h)"
  define c where "c = crc32_ieee (take (unat (gh_header_size h)) sec)"
  have g: "length (gh_disk_guid h) = 16" using h by (simp add: header_ok_def)
  note L = render_campos_lee [OF g]
  have r: "header_render h entries = wr32 16 c sec"
  proof -
    have "take (min (entries_bytes h) (length entries)) entries = take (entries_bytes h) entries" by (simp add: min_def)
    then show ?thesis by (simp add: header_render_def Let_def c_def sec_def)
  qed
  have ls: "length sec = 512" by (simp add: sec_def L(1))
  have lee: "take 8 (wr32 16 c sec) = SIGNATURE" "rd32 (wr32 16 c sec) 8 = gh_revision h" "rd32 (wr32 16 c sec) 12 = gh_header_size h"
    "rd64 (wr32 16 c sec) 24 = gh_my_lba h" "rd64 (wr32 16 c sec) 32 = gh_alternate_lba h" "rd64 (wr32 16 c sec) 40 = gh_first_usable h"
    "rd64 (wr32 16 c sec) 48 = gh_last_usable h" "take 16 (drop 56 (wr32 16 c sec)) = gh_disk_guid h"
    "rd64 (wr32 16 c sec) 72 = gh_entries_lba h" "rd32 (wr32 16 c sec) 80 = gh_num_entries h" "rd32 (wr32 16 c sec) 84 = gh_entry_size h"
    "rd32 (wr32 16 c sec) 88 = crc32_ieee (take (entries_bytes h) entries)"
    using L ls by (simp_all add: sec_def rd_simps take_antes)
  have "header_parse (wr32 16 c sec) = Inr h"
    using h ls by (auto simp: header_parse_def lee GPT_SECTOR_def header_ok_def Let_def)
  moreover have "wr32 16 0 (wr32 16 c sec) = sec"
  proof -
    have "take 4 (drop 16 (render_campos h)) = le_enc 4 0"
      using g by (simp add: render_campos_def GPT_SECTOR_def SIGNATURE_def rd_simps le_enc_0)
    then have "take 4 (drop 16 sec) = le_enc 4 0" by (simp add: sec_def L(1) rd_simps)
    then show ?thesis using ls pon_repone [of "le_enc 4 0" 16 sec "le_enc 4 (unat c)"] by (simp add: wr32_def)
  qed
  ultimately show ?thesis using ls lee by (simp add: r GPT_SECTOR_def c_def)
qed

lemma header_render_parse: "header_ok h \<Longrightarrow> header_parse (header_render h entries) = Inr h"
  using header_render_todo by blast

text \<open>\<open>Header::render\<close>, \<open>Header::parse\<close>: a rendered header is one sector, reads back as the header it was
  rendered from, carries the checksum of the entries, and its own checksum is the one of its bytes with the checksum
  field at zero.\<close>

theorem cabecera_ida_y_vuelta:
  assumes h: "header_ok h"
  shows "length (header_render h entries) = GPT_SECTOR \<and> header_parse (header_render h entries) = Inr h \<and>
    rd32 (header_render h entries) 88 = crc32_ieee (take (entries_bytes h) entries) \<and>
    rd32 (header_render h entries) 16 = crc32_ieee (take (unat (gh_header_size h)) (wr32 16 0 (header_render h entries)))"
  by (rule header_render_todo [OF h])

lemma hex_val_may:
  assumes "n < 16"
  shows "gpt_hex_val (HEX_MAY ! n) = Some n" "HEX_MAY ! n \<noteq> CHR ''-''"
proof -
  have "\<forall>n \<in> set [0..<16]. gpt_hex_val (HEX_MAY ! n) = Some n \<and> HEX_MAY ! n \<noteq> CHR ''-''"
    by code_simp
  then show "gpt_hex_val (HEX_MAY ! n) = Some n" "HEX_MAY ! n \<noteq> CHR ''-''" using assms by auto
qed

lemma guid_nibs_hex02:
  "guid_nibs (hex02 c @ s) = map_option (\<lambda>vs. (of_char c :: nat) div 16 # of_char c mod 16 # vs) (guid_nibs s)"
proof -
  have "(of_char c :: nat) div 16 < 16" using nat_of_char_less_256 [of c] by (simp add: div_less_iff_less_mult)
  then show ?thesis by (cases "guid_nibs s") (simp_all add: hex02_def hex_val_may)
qed

text \<open>(\<open>Guid::parse\<close>, \<open>Display for Guid\<close>): a written identifier reads back as the same sixteen bytes.\<close>

theorem guid_ida_y_vuelta:
  assumes "length g = 16"
  shows "guid_parse (guid_show g) = Some g"
proof -
  define v where "v i = (of_char (g ! i) :: nat)" for i
  have nib: "guid_nibs (guid_show g) =
      Some (concat (map (\<lambda>i. [v i div 16, v i mod 16]) [3, 2, 1, 0, 5, 4, 7, 6, 8, 9, 10, 11, 12, 13, 14, 15]))"
    using guid_nibs_hex02 [where s = "[]"] by (simp add: guid_show_def guid_nibs_hex02 upt_rec_numeral v_def)
  have ch: "char_of (v i) = g ! i" for i by (simp add: v_def)
  have idx: "[0..<16] = [0, 1, 2, 3, 4, 5, 6, 7, 8, 9, 10, 11, 12, 13, 14, 15]" by code_simp
  have ln: "length (guid_show g) = 36 \<and> guid_show g ! 8 = CHR ''-'' \<and> guid_show g ! 13 = CHR ''-'' \<and> guid_show g ! 18 = CHR ''-'' \<and>
      guid_show g ! 23 = CHR ''-''"
    by (simp add: guid_show_def hex02_def upt_rec_numeral)
  have "map (guid_byte (concat (map (\<lambda>i. [v i div 16, v i mod 16]) [3, 2, 1, 0, 5, 4, 7, 6, 8, 9, 10, 11, 12, 13, 14, 15])))
      ([3, 2, 1, 0, 5, 4, 7, 6] @ [8..<16]) = map ((!) g) [0..<16]"
    by (simp add: guid_byte_def upt_rec_numeral ch idx)
  also have "\<dots> = g" using map_nth [of g] assms by simp
  finally show ?thesis using ln by (simp add: guid_parse_def nib Let_def)
qed

theorem guid_ida_y_vuelta_witness:
  "guid_parse (guid_show ''0123456789abcdef'') = Some ''0123456789abcdef''"
  using guid_ida_y_vuelta [of "''0123456789abcdef''"] by simp

theorem cabecera_ida_y_vuelta_witness:
  "\<exists>h. h = \<lparr>gh_revision = 0x10000, gh_header_size = 92, gh_my_lba = 1, gh_alternate_lba = 99, gh_first_usable = 34, gh_last_usable = 66,
     gh_disk_guid = ''0123456789abcdef'', gh_entries_lba = 2, gh_num_entries = 128, gh_entry_size = 128\<rparr> \<and>
     header_parse (header_render h ''xyz'') = Inr h"
  using cabecera_ida_y_vuelta [of "\<lparr>gh_revision = 0x10000, gh_header_size = 92, gh_my_lba = 1, gh_alternate_lba = 99, gh_first_usable = 34,
     gh_last_usable = 66, gh_disk_guid = ''0123456789abcdef'', gh_entries_lba = 2, gh_num_entries = 128, gh_entry_size = 128\<rparr>" "''xyz''"]
  by (simp add: header_ok_def MIN_HEADER_SIZE_def)

section \<open>The checksum tells any changed byte\<close>

lemma xor_igual: "a XOR b = a XOR c \<longleftrightarrow> b = (c :: u32)" "b XOR a = c XOR a \<longleftrightarrow> b = (c :: u32)"
  by (metis xor.left_commute xor_self_eq xor.right_neutral xor.commute)+

lemma crc_bit_if: "crc_bit c = drop_bit 1 c XOR (if odd c then 0xEDB88320 else 0)"
  by (simp add: crc_bit_def and_one_eq odd_iff_mod_2_eq_one)

lemma crc_bit_inj: "crc_bit a = crc_bit b \<Longrightarrow> a = b"
proof -
  assume e: "crc_bit a = crc_bit b"
  have alto: "bit (crc_bit c) 31 = odd c" for c
  proof -
    have "bit (0xEDB88320 :: u32) 31" by simp
    moreover have "\<not> bit (drop_bit 1 c) 31" by (auto simp: bit_drop_bit_eq dest: bit_imp_le_length)
    ultimately show ?thesis by (simp add: crc_bit_if bit_xor_iff)
  qed
  have par: "odd a = odd b" using alto [of a] alto [of b] e by simp
  then have "drop_bit 1 a = drop_bit 1 b" using e by (simp add: crc_bit_if xor_igual)
  then have "a div 2 = b div 2" by (simp add: drop_bit_eq_div)
  then show "a = b" using par bit_eq_rec [of a b] by simp
qed

lemma crc_byte_inj:
  "crc_byte x c = crc_byte x d \<Longrightarrow> c = d" "crc_byte x c = crc_byte y c \<Longrightarrow> x = y"
proof -
  have pot: "(crc_bit ^^ n) a = (crc_bit ^^ n) b \<Longrightarrow> a = b" for n a b
    by (induction n) (auto dest: crc_bit_inj)
  show "crc_byte x c = crc_byte x d \<Longrightarrow> c = d"
    unfolding crc_byte_def by (drule pot) (simp add: xor_igual)
  assume "crc_byte x c = crc_byte y c"
  then have "(of_nat (of_char x) :: u32) = of_nat (of_char y)" unfolding crc_byte_def using pot xor_igual by blast
  then have "(of_char x :: nat) = of_char y"
    using nat_of_char_less_256 [of x] nat_of_char_less_256 [of y] by (simp add: word_unat_eq_iff unat_of_nat)
  then show "x = y" by simp
qed

text \<open>(\<open>crc32_ieee\<close>): two texts that differ in one byte have different checksums.\<close>

lemma crc_detecta_byte:
  assumes "x \<noteq> y"
  shows "crc32_ieee (a @ x # b) \<noteq> crc32_ieee (a @ y # b)"
proof -
  have "fold crc_byte b c = fold crc_byte b d \<Longrightarrow> c = d" for c d
    by (induction b arbitrary: c d) (auto dest: crc_byte_inj(1))
  moreover have "crc_byte x c \<noteq> crc_byte y c" for c using assms crc_byte_inj(2) by blast
  ultimately show ?thesis by (auto simp: crc32_ieee_def)
qed

lemma crc_ocho: "(crc_bit ^^ 8) c = crc_bit (crc_bit (crc_bit (crc_bit (crc_bit (crc_bit (crc_bit (crc_bit c)))))))"
  by (simp add: numeral_eq_Suc)

lemma crc_vector: "crc32_ieee ''123456789'' = 0xCBF43926"
  by (simp add: crc32_ieee_def crc_byte_def crc_ocho crc_bit_if)

section \<open>The abstract table\<close>

text \<open>The blocks of a partition in use, first and last.\<close>

definition part :: "bytes \<Rightarrow> gpt_header \<Rightarrow> nat \<Rightarrow> (nat \<times> nat) option" where
  "part es h i = (case gpt_entry es h i of None \<Rightarrow> None
     | Some e \<Rightarrow> if entry_used e then Some (unat (entry_first_lba e), unat (entry_last_lba e)) else None)"

definition tabla_ok :: "bytes \<Rightarrow> gpt_header \<Rightarrow> bool" where
  "tabla_ok es h \<longleftrightarrow> header_ok h \<and> entries_bytes h \<le> length es \<and>
     (\<forall>i < unat (gh_num_entries h). \<forall>a b. part es h i = Some (a, b) \<longrightarrow> a \<le> b \<and>
       (\<forall>j < unat (gh_num_entries h). \<forall>c d. j \<noteq> i \<longrightarrow> part es h j = Some (c, d) \<longrightarrow> b < c \<or> d < a))"

lemma entrada_existe:
  assumes "entries_bytes h \<le> length es" "i < unat (gh_num_entries h)"
  obtains e where "gpt_entry es h i = Some e" "length e = unat (gh_entry_size h)"
proof -
  have "i * unat (gh_entry_size h) + unat (gh_entry_size h) \<le> entries_bytes h"
    using mult_le_mono1 [of "Suc i" "unat (gh_num_entries h)" "unat (gh_entry_size h)"] assms(2) by (simp add: entries_bytes_def)
  then show thesis using assms(1) that by (simp add: gpt_entry_def Let_def)
qed

lemma entry_mut_entrada:
  assumes e: "gpt_entry es h i = Some e" and f: "length (f e) = unat (gh_entry_size h)"
  shows "length (entry_mut h i f es) = length es"
    "gpt_entry (entry_mut h i f es) h j = (if j = i then Some (f e) else gpt_entry es h j)"
proof -
  let ?z = "unat (gh_entry_size h)"
  have r: "i * ?z + ?z \<le> length es" using e by (simp add: gpt_entry_def Let_def split: if_splits)
  have m: "entry_mut h i f es = pon (i * ?z) (f e) es" by (simp add: entry_mut_def e)
  show l: "length (entry_mut h i f es) = length es" using r f by (simp add: m)
  have "j * ?z + ?z \<le> i * ?z \<or> i * ?z + ?z \<le> j * ?z" if "j \<noteq> i"
    using that mult_le_mono1 [of "Suc j" i ?z] mult_le_mono1 [of "Suc i" j ?z] by (cases "j < i") auto
  then show "gpt_entry (entry_mut h i f es) h j = (if j = i then Some (f e) else gpt_entry es h j)"
    using r f l lee_pon [of "i * ?z" "f e" es] by (auto simp: gpt_entry_def Let_def m)
qed

lemma entrada_campos:
  assumes "48 \<le> length e"
  shows "entry_first_lba (wr64 40 w e) = entry_first_lba e" "entry_last_lba (wr64 40 w e) = w"
    "entry_used (wr64 40 w e) = entry_used e" "entry_first_lba (wr64 32 w e) = w" "entry_last_lba (wr64 32 w e) = entry_last_lba e"
    "entry_used (wr64 32 w e) = entry_used e"
  using assms by (simp_all add: entry_first_lba_def entry_last_lba_def entry_used_def rd_simps take_antes)

lemma entrada_larga:
  assumes "header_ok h" "gpt_entry es h i = Some e"
  shows "128 \<le> length e" "length e = unat (gh_entry_size h)"
  using assms by (auto simp: header_ok_def gpt_entry_def Let_def word_le_nat_alt split: if_splits)

lemma part_entry_mut:
  assumes "gpt_entry es h i = Some e" "length (f e) = unat (gh_entry_size h)"
  shows "part (entry_mut h i f es) h j =
    (if j = i then if entry_used (f e) then Some (unat (entry_first_lba (f e)), unat (entry_last_lba (f e))) else None else part es h j)"
  using entry_mut_entrada(2) [of es h i e f, OF assms] by (simp add: part_def)

lemma relayout_cabe_iff:
  assumes "entries_bytes h \<le> length es"
  shows "list_all (\<lambda>i. i < unat (gh_num_entries h)) is \<Longrightarrow> relayout_cabe es h f l is \<longleftrightarrow>
    (\<forall>i \<in> set is. \<forall>a b. part es h i = Some (a, b) \<longrightarrow> b \<le> unat l \<and> unat f \<le> a)"
proof (induction "is")
  case (Cons i "is")
  then have "i < unat (gh_num_entries h)" by simp
  then obtain e where "gpt_entry es h i = Some e" by (rule entrada_existe [OF assms])
  then show ?case using Cons by (auto simp: part_def word_le_nat_alt word_less_nat_alt)
qed simp

lemma last_used_loop_max:
  assumes "entries_bytes h \<le> length es"
  shows "list_all (\<lambda>i. i < unat (gh_num_entries h)) is \<Longrightarrow>
    last_used_loop es h best is = best' \<Longrightarrow>
    (\<forall>v i. best' = Some (v, i) \<longrightarrow> best = best' \<or> i \<in> set is \<and> (\<exists>a. part es h i = Some (a, unat v))) \<and>
    (\<forall>v i. best = Some (v, i) \<longrightarrow> (\<exists>v' i'. best' = Some (v', i') \<and> v \<le> v')) \<and>
    (\<forall>i \<in> set is. \<forall>a b. part es h i = Some (a, b) \<longrightarrow> (\<exists>v' i'. best' = Some (v', i') \<and> b \<le> unat v'))"
proof (induction "is" arbitrary: best)
  case (Cons i "is")
  have "i < unat (gh_num_entries h)" using Cons.prems by simp
  then obtain e where e: "gpt_entry es h i = Some e" by (rule entrada_existe [OF assms])
  show ?case
  proof (cases "entry_used e")
    case False
    then have p: "part es h i = None" and r: "last_used_loop es h best is = best'" using Cons.prems(2) e by (simp_all add: part_def)
    show ?thesis using Cons.IH [OF _ r] Cons.prems(1) p by auto
  next
    case True
    define n where "n = (case best of None \<Rightarrow> Some (entry_last_lba e, i)
      | Some (lba, j) \<Rightarrow> if entry_last_lba e \<ge> lba then Some (entry_last_lba e, i) else best)"
    have p: "part es h i = Some (unat (entry_first_lba e), unat (entry_last_lba e))" using e True by (simp add: part_def)
    have n1: "n = best \<or> n = Some (entry_last_lba e, i)" by (auto simp: n_def split: option.splits prod.splits)
    have n2: "\<exists>v' i'. n = Some (v', i') \<and> entry_last_lba e \<le> v'" by (auto simp: n_def split: option.splits prod.splits)
    have n3: "best = Some (v, j) \<Longrightarrow> \<exists>v' i'. n = Some (v', i') \<and> v \<le> v'" for v j by (auto simp: n_def)
    have r: "last_used_loop es h n is = best'" using Cons.prems(2) e True by (simp add: n_def Let_def)
    note IH = Cons.IH [OF _ r]
    have IH: "\<forall>v i. best' = Some (v, i) \<longrightarrow> n = best' \<or> i \<in> set is \<and> (\<exists>a. part es h i = Some (a, unat v))"
      "\<And>v i. n = Some (v, i) \<Longrightarrow> \<exists>v' i'. best' = Some (v', i') \<and> v \<le> v'"
      "\<forall>i \<in> set is. \<forall>a b. part es h i = Some (a, b) \<longrightarrow> (\<exists>v' i'. best' = Some (v', i') \<and> b \<le> unat v')"
      using IH Cons.prems(1) by auto
    show ?thesis
    proof (intro conjI allI impI ballI)
      fix v j assume "best' = Some (v, j)"
      then show "best = best' \<or> j \<in> set (i # is) \<and> (\<exists>a. part es h j = Some (a, unat v))" using IH(1) n1 p by auto
    next
      fix v j assume "best = Some (v, j)"
      then obtain v1 i1 where "n = Some (v1, i1)" "v \<le> v1" using n3 by blast
      then show "\<exists>v' i'. best' = Some (v', i') \<and> v \<le> v'" using IH(2) [of v1 i1] by (auto intro: order_trans)
    next
      fix j a b assume j: "j \<in> set (i # is)" "part es h j = Some (a, b)"
      obtain v1 i1 where "n = Some (v1, i1)" "entry_last_lba e \<le> v1" using n2 by blast
      then obtain v' i' where "best' = Some (v', i')" "entry_last_lba e \<le> v'" using IH(2) [of v1 i1] by (auto intro: order_trans)
      then show "\<exists>v' i'. best' = Some (v', i') \<and> b \<le> unat v'" using j IH(3) p by (auto simp: word_le_nat_alt)
    qed
  qed
qed auto

lemma last_used_max:
  assumes "entries_bytes h \<le> length es"
  shows "last_used es h = Some i \<Longrightarrow> i < unat (gh_num_entries h) \<and> (\<exists>a b. part es h i = Some (a, b) \<and>
      (\<forall>j < unat (gh_num_entries h). \<forall>c d. part es h j = Some (c, d) \<longrightarrow> d \<le> b))"
    "last_used es h = None \<Longrightarrow> j < unat (gh_num_entries h) \<Longrightarrow> part es h j = None"
proof -
  note M = last_used_loop_max [OF assms _ refl, of "[0..<unat (gh_num_entries h)]" None]
  show "last_used es h = Some i \<Longrightarrow> i < unat (gh_num_entries h) \<and> (\<exists>a b. part es h i = Some (a, b) \<and>
      (\<forall>j < unat (gh_num_entries h). \<forall>c d. part es h j = Some (c, d) \<longrightarrow> d \<le> b))"
    using M by (fastforce simp: last_used_def list_all_iff)
  show "last_used es h = None \<Longrightarrow> j < unat (gh_num_entries h) \<Longrightarrow> part es h j = None"
    using M by (cases "part es h j") (auto simp: last_used_def list_all_iff)
qed

lemma entries_sectors_unat:
  assumes "header_ok h"
  shows "unat (entries_sectors h) = (entries_bytes h + 511) div 512" "unat (entries_sectors h) < 2 ^ 33" "0 < unat (entries_sectors h)"
proof -
  have n: "unat (gh_num_entries h) \<le> 512" "0 < unat (gh_num_entries h)" "128 \<le> unat (gh_entry_size h)"
    using assms by (auto simp: header_ok_def word_le_nat_alt unat_gt_0)
  have z: "unat (gh_entry_size h) < 2 ^ 32" using unsigned_less [of "gh_entry_size h", where 'a = nat] by simp
  have "entries_bytes h \<le> 512 * 2 ^ 32" unfolding entries_bytes_def by (rule mult_le_mono) (use n z in simp_all)
  then show e: "unat (entries_sectors h) = (entries_bytes h + 511) div 512" "unat (entries_sectors h) < 2 ^ 33"
    by (simp_all add: entries_sectors_def GPT_SECTOR_def unat_of_nat)
  have "1 * 128 \<le> entries_bytes h" unfolding entries_bytes_def by (rule mult_le_mono) (use n in simp_all)
  then show "0 < unat (entries_sectors h)" by (simp add: e)
qed

text \<open>What a table must leave free at the end of a disk of \<open>n\<close> sectors, and at the beginning.\<close>

definition ultimo_util :: "gpt_header \<Rightarrow> nat \<Rightarrow> nat" where "ultimo_util h n = n - unat (entries_sectors h) - 2"
definition primero_util :: "gpt_header \<Rightarrow> nat" where "primero_util h = unat (entries_sectors h) + 2"

definition cabe_tabla :: "bytes \<Rightarrow> gpt_header \<Rightarrow> nat \<Rightarrow> bool" where
  "cabe_tabla es h n \<longleftrightarrow> (\<forall>i < unat (gh_num_entries h). \<forall>a b. part es h i = Some (a, b) \<longrightarrow> primero_util h \<le> a \<and> b \<le> ultimo_util h n)"

definition relayout_tabla :: "gpt_header \<Rightarrow> bytes \<Rightarrow> u64 \<Rightarrow> bytes" where
  "relayout_tabla h es n = (case last_used es h of None \<Rightarrow> es
     | Some i \<Rightarrow> entry_mut h i (\<lambda>e. if entry_last_lba e < of_nat (ultimo_util h (unat n)) then wr64 40 (of_nat (ultimo_util h (unat n))) e else e) es)"

lemma relayout_eq:
  assumes h: "header_ok h" "entries_bytes h \<le> length es"
  shows "relayout h es n =
    (if primero_util h < ultimo_util h (unat n) \<and> cabe_tabla es h (unat n)
     then Inr (\<lparr>gp_primary_header_lba = 1, gp_primary_entries_lba = 2, gp_backup_entries_lba = n - 1 - entries_sectors h,
        gp_backup_header_lba = n - 1, gp_entries_sectors = entries_sectors h\<rparr>,
       h\<lparr>gh_my_lba := 1, gh_alternate_lba := n - 1, gh_entries_lba := 2, gh_first_usable := of_nat (primero_util h),
         gh_last_usable := of_nat (ultimo_util h (unat n))\<rparr>, relayout_tabla h es n)
     else Inl TooSmall)"
proof -
  note E = entries_sectors_unat [OF h(1)]
  let ?e = "entries_sectors h"
  have p: "2 + ?e = of_nat (primero_util h)" "unat (of_nat (primero_util h) :: u64) = primero_util h"
    using E(2) by (simp_all add: primero_util_def word_unat_eq_iff unat_word_ariths)
  have "unat (2 * ?e + 4) = 2 * unat ?e + 4" using E(2) by (simp add: unat_word_ariths)
  then have lt: "n < 2 * ?e + 4 \<longleftrightarrow> unat n < 2 * unat ?e + 4" by (simp add: word_less_nat_alt)
  show ?thesis
  proof (cases "n < 2 * ?e + 4")
    case True
    then have "\<not> primero_util h < ultimo_util h (unat n)" using lt by (simp add: primero_util_def ultimo_util_def)
    then show ?thesis using True h(2) by (simp add: relayout_def Let_def)
  next
    case False
    then have g: "2 * unat ?e + 4 \<le> unat n" using lt by simp
    have u1: "unat (n - 1 - ?e) = unat n - 1 - unat ?e" using g by (simp add: unat_sub_if')
    have u: "n - 1 - ?e - 1 = of_nat (ultimo_util h (unat n))" "unat (of_nat (ultimo_util h (unat n)) :: u64) = ultimo_util h (unat n)"
    proof -
      have "unat (n - 1 - ?e - 1) = ultimo_util h (unat n)" using u1 g by (simp add: unat_sub_if' ultimo_util_def)
      then show "n - 1 - ?e - 1 = of_nat (ultimo_util h (unat n))" "unat (of_nat (ultimo_util h (unat n)) :: u64) = ultimo_util h (unat n)"
        by (metis of_nat_unat ucast_id)+
    qed
    have c: "relayout_cabe es h (of_nat (primero_util h)) (of_nat (ultimo_util h (unat n))) [0..<unat (gh_num_entries h)] = cabe_tabla es h (unat n)"
      using relayout_cabe_iff [OF h(2), of "[0..<unat (gh_num_entries h)]"] by (auto simp: u p cabe_tabla_def list_all_iff)
    show ?thesis
      unfolding relayout_def Let_def u(1) p(1) c relayout_tabla_def using False h(2) by (auto simp: word_le_nat_alt u(2) p(2))
  qed
qed

lemma part_cong: "gh_entry_size h = gh_entry_size h' \<Longrightarrow> part es h = part es h'"
  by (simp add: part_def gpt_entry_def fun_eq_iff)

lemma relayout_tabla_part:
  assumes t: "tabla_ok es h" and c: "cabe_tabla es h (unat n)"
  shows "length (relayout_tabla h es n) = length es"
    "part (relayout_tabla h es n) h j = (if last_used es h = Some j then map_option (\<lambda>(a, b). (a, ultimo_util h (unat n))) (part es h j) else part es h j)"
proof -
  have h: "header_ok h" "entries_bytes h \<le> length es" using t by (simp_all add: tabla_ok_def)
  let ?u = "ultimo_util h (unat n)"
  have u: "unat (of_nat ?u :: u64) = ?u"
  proof -
    have "?u < 2 ^ 64" using unsigned_less [of n, where 'a = nat] by (simp add: ultimo_util_def)
    then show ?thesis by (simp add: unat_of_nat)
  qed
  have "length (relayout_tabla h es n) = length es \<and>
    part (relayout_tabla h es n) h j = (if last_used es h = Some j then map_option (\<lambda>(a, b). (a, ?u)) (part es h j) else part es h j)"
  proof (cases "last_used es h")
    case (Some i)
    then have i: "i < unat (gh_num_entries h)" and p: "part es h i \<noteq> None" using last_used_max(1) [OF h(2)] by auto
    obtain e where e: "gpt_entry es h i = Some e" using i by (rule entrada_existe [OF h(2)])
    note l = entrada_larga [OF h(1) e]
    have us: "entry_used e" "part es h i = Some (unat (entry_first_lba e), unat (entry_last_lba e))"
      using p e by (auto simp: part_def split: if_splits)
    define f where "f = (\<lambda>e. if entry_last_lba e < of_nat ?u then wr64 40 (of_nat ?u) e else e)"
    have le: "unat (entry_last_lba e) \<le> ?u" using c us(2) i by (auto simp: cabe_tabla_def)
    have f: "length (f e) = unat (gh_entry_size h)" "entry_used (f e)" "entry_first_lba (f e) = entry_first_lba e" "unat (entry_last_lba (f e)) = ?u"
      using l us(1) le u by (auto simp: f_def entrada_campos word_less_nat_alt)
    then show ?thesis
      using entry_mut_entrada(1) [of es h i e f] part_entry_mut [of es h i e f] e us(2) Some by (auto simp: relayout_tabla_def f_def [symmetric])
  qed (simp add: relayout_tabla_def)
  then show "length (relayout_tabla h es n) = length es"
    "part (relayout_tabla h es n) h j = (if last_used es h = Some j then map_option (\<lambda>(a, b). (a, ?u)) (part es h j) else part es h j)"
    by auto
qed

lemma tabla_okI:
  assumes "header_ok h" "entries_bytes h \<le> length es"
    and "\<And>i a b. i < unat (gh_num_entries h) \<Longrightarrow> part es h i = Some (a, b) \<Longrightarrow> a \<le> b"
    and "\<And>i j a b c d. i < unat (gh_num_entries h) \<Longrightarrow> j < unat (gh_num_entries h) \<Longrightarrow> j \<noteq> i \<Longrightarrow>
       part es h i = Some (a, b) \<Longrightarrow> part es h j = Some (c, d) \<Longrightarrow> b < c \<or> d < a"
  shows "tabla_ok es h"
  unfolding tabla_ok_def using assms by blast

lemma tabla_okD:
  assumes "tabla_ok es h" "i < unat (gh_num_entries h)" "part es h i = Some (a, b)"
  shows "a \<le> b" "j < unat (gh_num_entries h) \<Longrightarrow> j \<noteq> i \<Longrightarrow> part es h j = Some (c, d) \<Longrightarrow> b < c \<or> d < a"
  using assms unfolding tabla_ok_def by blast+

lemma relayout_tabla_ok:
  assumes t: "tabla_ok es h" and c: "cabe_tabla es h (unat n)"
  shows "tabla_ok (relayout_tabla h es n) h" "cabe_tabla (relayout_tabla h es n) h (unat n)"
proof -
  have h: "header_ok h" "entries_bytes h \<le> length es" using t by (simp_all add: tabla_ok_def)
  let ?u = "ultimo_util h (unat n)" and ?es = "relayout_tabla h es n"
  note P = relayout_tabla_part [OF t c]
  have cb: "primero_util h \<le> a \<and> b \<le> ?u" if "i < unat (gh_num_entries h)" "part es h i = Some (a, b)" for i a b
    using c that unfolding cabe_tabla_def by blast
  have caso: "\<exists>b'. part es h i = Some (a, b') \<and> b' \<le> b \<and> (b' = b \<or> last_used es h = Some i \<and> b = ?u)"
    if "i < unat (gh_num_entries h)" "part ?es h i = Some (a, b)" for i a b
    using that P(2) [of i] cb [OF that(1)] by (auto split: if_splits)
  show "cabe_tabla ?es h (unat n)"
    unfolding cabe_tabla_def using caso cb by fastforce
  show "tabla_ok ?es h"
  proof (rule tabla_okI [OF h(1)])
    show "entries_bytes h \<le> length ?es" using P(1) h(2) by simp
    fix i a b assume i: "i < unat (gh_num_entries h)" "part ?es h i = Some (a, b)"
    then show "a \<le> b" using caso [OF i] tabla_okD(1) [OF t i(1)] by force
    fix j c d assume j: "j < unat (gh_num_entries h)" "j \<noteq> i" "part ?es h j = Some (c, d)"
    obtain b' where b': "part es h i = Some (a, b')" "b' \<le> b" "b' = b \<or> last_used es h = Some i \<and> b = ?u" using caso [OF i] by blast
    obtain d' where d': "part es h j = Some (c, d')" "d' \<le> d" "d' = d \<or> last_used es h = Some j \<and> d = ?u" using caso [OF j(1,3)] by blast
    have dis: "b' < c \<or> d' < a" using tabla_okD(2) [OF t i(1) b'(1) j(1,2) d'(1)] .
    have cd: "c \<le> d'" "a \<le> b'" using tabla_okD(1) [OF t j(1) d'(1)] tabla_okD(1) [OF t i(1) b'(1)] by auto
    have mx: "last_used es h = Some i \<Longrightarrow> d' \<le> b'" "last_used es h = Some j \<Longrightarrow> b' \<le> d'"
      using last_used_max(1) [OF h(2)] i(1) j(1) b'(1) d'(1) by fastforce+
    show "b < c \<or> d < a" using b'(3) d'(3) dis cd mx j(2) by auto
  qed
qed

lemma tabla_ok_cong:
  assumes "gh_entry_size h' = gh_entry_size h" "gh_num_entries h' = gh_num_entries h" "header_ok h' = header_ok h"
  shows "tabla_ok es h' = tabla_ok es h" "cabe_tabla es h' n = cabe_tabla es h n"
  using assms part_cong [OF assms(1)]
  by (simp_all add: tabla_ok_def cabe_tabla_def entries_bytes_def ultimo_util_def primero_util_def entries_sectors_def)

text \<open>C26 (\<open>relayout\<close>, \<open>render_primary\<close>, \<open>render_backup\<close>): fitting a table whose partitions do not overlap to a
  disk of \<open>n\<close> sectors fails exactly when some partition does not fit between the two copies of the
  table, or nothing at all does.  Otherwise the partitions still do not overlap, all of them lie in the usable blocks, only the last one changes,
  by ending at the last usable block, and both headers read back, each naming the other.\<close>

theorem relayout_bien:
  assumes t: "tabla_ok es h"
  shows "case relayout h es n of
      Inl err \<Rightarrow> err = TooSmall \<and> \<not> (primero_util h < ultimo_util h (unat n) \<and> cabe_tabla es h (unat n))
    | Inr (plan, h', es') \<Rightarrow> tabla_ok es' h' \<and> cabe_tabla es' h' (unat n) \<and> length es' = length es \<and>
        (\<forall>j. part es' h' j = (if last_used es h = Some j then map_option (\<lambda>(a, b). (a, ultimo_util h (unat n))) (part es h j) else part es h j)) \<and>
        header_parse (render_primary h' es' plan) = Inr h' \<and>
        header_parse (render_backup h' es' plan) = Inr (h'\<lparr>gh_my_lba := gh_alternate_lba h', gh_alternate_lba := 1,
          gh_entries_lba := gp_backup_entries_lba plan\<rparr>)"
proof -
  have h: "header_ok h" "entries_bytes h \<le> length es" using t by (simp_all add: tabla_ok_def)
  show ?thesis
  proof (cases "primero_util h < ultimo_util h (unat n) \<and> cabe_tabla es h (unat n)")
    case False
    then show ?thesis using relayout_eq [OF h] by auto
  next
    case True
    define h' where "h' = h\<lparr>gh_my_lba := 1, gh_alternate_lba := n - 1, gh_entries_lba := 2, gh_first_usable := of_nat (primero_util h),
         gh_last_usable := of_nat (ultimo_util h (unat n))\<rparr>"
    define plan where "plan = \<lparr>gp_primary_header_lba = 1, gp_primary_entries_lba = 2, gp_backup_entries_lba = n - 1 - entries_sectors h,
        gp_backup_header_lba = n - 1, gp_entries_sectors = entries_sectors h\<rparr>"
    have r: "relayout h es n = Inr (plan, h', relayout_tabla h es n)" using relayout_eq [OF h] True by (simp add: h'_def plan_def)
    have same: "gh_entry_size h' = gh_entry_size h" "gh_num_entries h' = gh_num_entries h" "header_ok h' = header_ok h"
      by (simp_all add: h'_def header_ok_def)
    have ok: "header_ok (h'\<lparr>gh_my_lba := a, gh_alternate_lba := b, gh_entries_lba := c\<rparr>)" for a b c
      using h(1) by (simp add: h'_def header_ok_def)
    have p: "h'\<lparr>gh_my_lba := 1, gh_alternate_lba := n - 1, gh_entries_lba := 2\<rparr> = h'" "gh_alternate_lba h' = n - 1" by (simp_all add: h'_def)
    have "header_parse (render_primary h' (relayout_tabla h es n) plan) = Inr h'"
      using header_render_parse [OF ok [of 2 "n - 1" 1]] p(1) by (simp add: render_primary_def plan_def)
    moreover have "header_parse (render_backup h' (relayout_tabla h es n) plan) = Inr (h'\<lparr>gh_my_lba := gh_alternate_lba h', gh_alternate_lba := 1,
          gh_entries_lba := gp_backup_entries_lba plan\<rparr>)"
      using header_render_parse [OF ok] by (simp add: render_backup_def plan_def p(2))
    ultimately show ?thesis
      using relayout_tabla_ok [OF t] relayout_tabla_part [OF t] True tabla_ok_cong [OF same] part_cong [OF same(1)] by (simp add: r)
  qed
qed

section \<open>Growing the root\<close>

text \<open>What \<open>apply_grow_root\<close> does to the blocks of a partition.\<close>

definition crecida :: "nat \<Rightarrow> nat \<Rightarrow> nat \<Rightarrow> nat \<Rightarrow> nat \<Rightarrow> nat \<times> nat \<Rightarrow> nat \<times> nat" where
  "crecida root ultimo delta tope i = (\<lambda>(a, b).
     if i = root then (a, ultimo + delta)
     else if ultimo < a then (a + delta, max (min (b + delta) tope) (a + delta)) else (a, b))"

lemma crece_entrada_campos:
  assumes "48 \<le> length e" "unat ul + unat dl < 2 ^ 64" "unat (entry_first_lba e) \<le> unat (entry_last_lba e)"
    "unat (entry_last_lba e) + unat dl < 2 ^ 64"
  shows "length (crece_entrada root ul dl tope i e) = length e" "entry_used (crece_entrada root ul dl tope i e) = entry_used e"
    "i = root \<Longrightarrow> entry_last_lba e = ul \<Longrightarrow> crecida root (unat ul) (unat dl) (unat tope) i (unat (entry_first_lba e), unat (entry_last_lba e)) =
      (unat (entry_first_lba (crece_entrada root ul dl tope i e)), unat (entry_last_lba (crece_entrada root ul dl tope i e)))"
    "i \<noteq> root \<Longrightarrow> crecida root (unat ul) (unat dl) (unat tope) i (unat (entry_first_lba e), unat (entry_last_lba e)) =
      (unat (entry_first_lba (crece_entrada root ul dl tope i e)), unat (entry_last_lba (crece_entrada root ul dl tope i e)))"
proof -
  have s: "unat (ul + dl) = unat ul + unat dl" "unat (entry_first_lba e + dl) = unat (entry_first_lba e) + unat dl"
    "unat (entry_last_lba e + dl) = unat (entry_last_lba e) + unat dl"
    using assms by (simp_all add: unat_word_ariths)
  have mm: "unat (max x y) = max (unat x) (unat y)" "unat (min x y) = min (unat x) (unat y)" for x y :: u64
    by (simp_all add: max_def min_def word_le_nat_alt)
  show "length (crece_entrada root ul dl tope i e) = length e" "entry_used (crece_entrada root ul dl tope i e) = entry_used e"
    "i = root \<Longrightarrow> entry_last_lba e = ul \<Longrightarrow> crecida root (unat ul) (unat dl) (unat tope) i (unat (entry_first_lba e), unat (entry_last_lba e)) =
      (unat (entry_first_lba (crece_entrada root ul dl tope i e)), unat (entry_last_lba (crece_entrada root ul dl tope i e)))"
    "i \<noteq> root \<Longrightarrow> crecida root (unat ul) (unat dl) (unat tope) i (unat (entry_first_lba e), unat (entry_last_lba e)) =
      (unat (entry_first_lba (crece_entrada root ul dl tope i e)), unat (entry_last_lba (crece_entrada root ul dl tope i e)))"
    using assms(1) s
    by (simp_all add: crece_entrada_def crecida_def set_entry_first_lba_def set_entry_last_lba_def entrada_campos Let_def mm word_less_nat_alt)
qed

lemma crece_loop_part:
  assumes h: "header_ok h"
  shows "distinct is \<Longrightarrow> entries_bytes h \<le> length es \<Longrightarrow> list_all (\<lambda>i. i < unat (gh_num_entries h)) is \<Longrightarrow>
    (\<And>i a b. i \<in> set is \<Longrightarrow> part es h i = Some (a, b) \<Longrightarrow> a \<le> b \<and> b + unat dl < 2 ^ 64 \<and> (i = root \<longrightarrow> b = unat ul)) \<Longrightarrow>
    unat ul + unat dl < 2 ^ 64 \<Longrightarrow>
    length (crece_loop h root ul dl tope is es) = length es \<and>
    part (crece_loop h root ul dl tope is es) h j =
      (if j \<in> set is then map_option (crecida root (unat ul) (unat dl) (unat tope) j) (part es h j) else part es h j)"
proof (induction "is" arbitrary: es)
  case (Cons i "is")
  have i: "i < unat (gh_num_entries h)" using Cons.prems(3) by simp
  obtain e where e: "gpt_entry es h i = Some e" using i by (rule entrada_existe [OF Cons.prems(2)])
  note l = entrada_larga [OF h e]
  show ?case
  proof (cases "entry_used e")
    case False
    then have p: "part es h i = None" using e by (simp add: part_def)
    have "length (crece_loop h root ul dl tope is es) = length es \<and> part (crece_loop h root ul dl tope is es) h j =
      (if j \<in> set is then map_option (crecida root (unat ul) (unat dl) (unat tope) j) (part es h j) else part es h j)"
      by (rule Cons.IH) (use Cons.prems in auto)
    then show ?thesis using False e p by auto
  next
    case True
    then have p: "part es h i = Some (unat (entry_first_lba e), unat (entry_last_lba e))" using e by (simp add: part_def)
    have b: "unat (entry_first_lba e) \<le> unat (entry_last_lba e)" "unat (entry_last_lba e) + unat dl < 2 ^ 64" "i = root \<longrightarrow> entry_last_lba e = ul"
      using Cons.prems(4) [OF _ p] by (auto simp: word_unat_eq_iff)
    let ?f = "crece_entrada root ul dl tope i"
    have l48: "48 \<le> length e" using l by simp
    note C = crece_entrada_campos [OF l48 Cons.prems(5) b(1,2), where root = root and tope = tope and i = i]
    define es' where "es' = entry_mut h i ?f es"
    have le: "length es' = length es" using entry_mut_entrada(1) [OF e, of ?f] C(1) l by (simp add: es'_def)
    have pj: "part es' h k = (if k = i then Some (crecida root (unat ul) (unat dl) (unat tope) i (unat (entry_first_lba e), unat (entry_last_lba e))) else part es h k)" for k
      using part_entry_mut [OF e, of ?f k] C l True b(3) by (cases "i = root") (simp_all add: es'_def)
    have "length (crece_loop h root ul dl tope is es') = length es' \<and> part (crece_loop h root ul dl tope is es') h j =
      (if j \<in> set is then map_option (crecida root (unat ul) (unat dl) (unat tope) j) (part es' h j) else part es' h j)"
      by (rule Cons.IH) (use Cons.prems le pj in \<open>auto split: if_splits\<close>)
    then show ?thesis using True e p pj le Cons.prems(1) by (auto simp: es'_def [symmetric])
  qed
qed simp

lemma apply_grow_part:
  assumes t: "tabla_ok es h" and r: "root < unat (gh_num_entries h)" "part es h root = Some (ra, rb)"
    and b: "\<And>i a b. i < unat (gh_num_entries h) \<Longrightarrow> part es h i = Some (a, b) \<Longrightarrow> b + unat dl < 2 ^ 64" and dl: "dl \<noteq> 0"
  shows "length (apply_grow_root h es root dl n) = length es"
    "j < unat (gh_num_entries h) \<Longrightarrow> part (apply_grow_root h es root dl n) h j =
      map_option (crecida root rb (unat dl) (unat n - unat (entries_sectors h) - 2) j) (part es h j)"
proof -
  have h: "header_ok h" "entries_bytes h \<le> length es" using t by (simp_all add: tabla_ok_def)
  obtain e where e: "gpt_entry es h root = Some e" "unat (entry_last_lba e) = rb" using r(2) by (auto simp: part_def split: option.splits if_splits)
  have tope: "unat (sat_sub n (entries_sectors h + 2)) = unat n - unat (entries_sectors h) - 2"
    using entries_sectors_unat(2) [OF h(1)] by (simp add: unat_sat_sub unat_word_ariths)
  have "length (crece_loop h root (entry_last_lba e) dl (sat_sub n (entries_sectors h + 2)) [0..<unat (gh_num_entries h)] es) = length es \<and>
    part (crece_loop h root (entry_last_lba e) dl (sat_sub n (entries_sectors h + 2)) [0..<unat (gh_num_entries h)] es) h j =
      (if j \<in> set [0..<unat (gh_num_entries h)] then map_option (crecida root (unat (entry_last_lba e)) (unat dl) (unat (sat_sub n (entries_sectors h + 2))) j) (part es h j) else part es h j)" for j
    by (rule crece_loop_part [OF h(1)]) (use h(2) b r e tabla_okD(1) [OF t] in \<open>auto simp: list_all_iff\<close>)
  then show "length (apply_grow_root h es root dl n) = length es"
    "j < unat (gh_num_entries h) \<Longrightarrow> part (apply_grow_root h es root dl n) h j =
      map_option (crecida root rb (unat dl) (unat n - unat (entries_sectors h) - 2) j) (part es h j)"
    using dl e tope by (simp_all add: apply_grow_root_def Let_def)
qed

lemma apply_grow_ok:
  assumes t: "tabla_ok es h" and r: "root < unat (gh_num_entries h)" "part es h root = Some (ra, rb)"
    and b: "\<And>i a b. i < unat (gh_num_entries h) \<Longrightarrow> part es h i = Some (a, b) \<Longrightarrow> b + unat dl < 2 ^ 64"
  shows "tabla_ok (apply_grow_root h es root dl n) h"
proof (cases "dl = 0")
  case True
  then show ?thesis using t by (simp add: apply_grow_root_def)
next
  case False
  have h: "header_ok h" "entries_bytes h \<le> length es" using t by (simp_all add: tabla_ok_def)
  let ?es = "apply_grow_root h es root dl n" and ?c = "crecida root rb (unat dl) (unat n - unat (entries_sectors h) - 2)"
  have P: "length ?es = length es" "i < unat (gh_num_entries h) \<Longrightarrow> part ?es h i = map_option (?c i) (part es h i)" for i
    using apply_grow_part(1) [OF t r _ False] apply_grow_part(2) [OF t r _ False] b by blast+
  have caso: "\<exists>a' b'. part es h i = Some (a', b') \<and> (a, b) = ?c i (a', b')"
    if "i < unat (gh_num_entries h)" "part ?es h i = Some (a, b)" for i a b
    using P(2) [of i] that by (cases "part es h i") auto
  show ?thesis
  proof (rule tabla_okI [OF h(1)])
    show "entries_bytes h \<le> length ?es" using P(1) h(2) by simp
    fix i a b assume i: "i < unat (gh_num_entries h)" "part ?es h i = Some (a, b)"
    then obtain a' b' where ab: "part es h i = Some (a', b')" "(a, b) = ?c i (a', b')" using caso by blast
    have ri: "i = root \<Longrightarrow> a' = ra \<and> b' = rb" using ab(1) r(2) by auto
    have le: "a' \<le> b'" "ra \<le> rb" using tabla_okD(1) [OF t i(1) ab(1)] tabla_okD(1) [OF t r] by auto
    show "a \<le> b" using ab(2) le ri by (auto simp: crecida_def split: if_splits)
    fix j c d assume j: "j < unat (gh_num_entries h)" "j \<noteq> i" "part ?es h j = Some (c, d)"
    then obtain c' d' where cd: "part es h j = Some (c', d')" "(c, d) = ?c j (c', d')" using caso by blast
    have rj: "j = root \<Longrightarrow> c' = ra \<and> d' = rb" using cd(1) r(2) by auto
    have le': "c' \<le> d'" using tabla_okD(1) [OF t j(1) cd(1)] .
    have d1: "b' < c' \<or> d' < a'" using tabla_okD(2) [OF t i(1) ab(1) j(1,2) cd(1)] .
    have d2: "i \<noteq> root \<Longrightarrow> b' < ra \<or> rb < a'" "j \<noteq> root \<Longrightarrow> d' < ra \<or> rb < c'"
      using tabla_okD(2) [OF t r i(1) _ ab(1)] tabla_okD(2) [OF t r j(1) _ cd(1)] by auto
    show "b < c \<or> d < a"
      using ab(2) cd(2) le le' d1 d2 ri rj j(2) by (auto simp: crecida_def split: if_splits)
  qed
qed

lemma plan_grow_cotas:
  assumes r: "part es h root = Some (ra, rb)" "ra \<le> rb" "rb + unat dst < 2 ^ 64" and c: "unat copy + 2048 < 2 ^ 64"
    and d: "d = unat (gr_delta (plan_grow_root h es root dst copy))"
  shows "2048 dvd d" "0 < d \<Longrightarrow> unat copy + 2048 + d \<le> unat dst \<and> rb < unat copy \<and> rb + 1 - ra + d \<le> min (unat dst div 4) (unat MAX_ROOT_SECTORS)"
    "d \<le> unat dst"
proof -
  obtain e where e: "gpt_entry es h root = Some e" "entry_used e" "unat (entry_first_lba e) = ra" "unat (entry_last_lba e) = rb"
    using r(1) by (auto simp: part_def split: option.splits if_splits)
  define head where "head = entry_last_lba e + 1"
  define x where "x = min (max (min (dst div 4) MAX_ROOT_SECTORS) (head - entry_first_lba e) - (head - entry_first_lba e))
      (sat_sub dst (copy + GROW_ALIGN))"
  have ds: "d = (if copy < head then 0 else unat (x - x mod GROW_ALIGN))"
    using e by (simp add: d plan_grow_root_def Let_def head_def x_def)
  have sub: "unat (x - x mod GROW_ALIGN) = unat x - unat x mod 2048"
    by (simp add: GROW_ALIGN_def unat_sub_if' unat_mod_distrib)
  have dv: "2048 dvd unat x - unat x mod 2048" by (simp add: minus_mod_eq_mult_div)
  show "2048 dvd d" unfolding ds sub using dv by simp
  have cg: "unat (copy + GROW_ALIGN) = unat copy + 2048" using c by (simp add: GROW_ALIGN_def unat_word_ariths)
  have xs: "unat x \<le> unat dst - (unat copy + 2048)"
    using cg by (simp add: x_def min_def word_le_nat_alt unat_sat_sub)
  show "d \<le> unat dst" using ds sub xs by auto
  assume p: "0 < d"
  then have nc: "\<not> copy < head" and dx: "d \<le> unat x" "0 < unat x" using ds sub by (auto split: if_splits)
  have dst: "0 < unat dst" using xs dx(2) by simp
  have hd: "unat head = rb + 1" using e(4) r(3) dst by (simp add: head_def unat_word_ariths)
  have act: "unat (head - entry_first_lba e) = rb + 1 - ra" using hd e(3) r(2) by (simp add: unat_sub_if')
  have "unat x \<le> unat (max (min (dst div 4) MAX_ROOT_SECTORS) (head - entry_first_lba e) - (head - entry_first_lba e))"
    by (simp add: x_def min_def word_le_nat_alt)
  also have "\<dots> = max (min (unat dst div 4) (unat MAX_ROOT_SECTORS)) (rb + 1 - ra) - (rb + 1 - ra)"
    using act by (auto simp: max_def min_def word_le_nat_alt unat_sub_if' unat_div_distrib)
  finally have m: "d \<le> max (min (unat dst div 4) (unat MAX_ROOT_SECTORS)) (rb + 1 - ra) - (rb + 1 - ra)" using dx by simp
  have "B + d \<le> A" if "d \<le> max A B - B" for A B using that p by (auto simp: max_def split: if_splits)
  from this [OF m] show "unat copy + 2048 + d \<le> unat dst \<and> rb < unat copy \<and> rb + 1 - ra + d \<le> min (unat dst div 4) (unat MAX_ROOT_SECTORS)"
    using p xs dx nc hd by (auto simp: word_less_nat_alt)
qed

text \<open>C25 (\<open>plan_grow_root\<close>, \<open>apply_grow_root\<close>, \<open>relayout\<close>, as the installer calls them): the root grows by whole
  MiB, to at most a quarter of the disk and 64 GiB, and only if what was copied still fits behind it; the partitions
  behind it move by the same amount and those before it stay; and the resulting table has no overlaps, lies in
  the usable blocks when \<open>relayout\<close> accepts it, and otherwise is refused.\<close>

theorem instalar_agranda:
  assumes t: "tabla_ok es h" and r: "root < unat (gh_num_entries h)" "part es h root = Some (ra, rb)"
    and b: "\<forall>i < unat (gh_num_entries h). \<forall>a b. part es h i = Some (a, b) \<longrightarrow> b + unat dst < 2 ^ 64"
    and c: "unat copy + 2048 < 2 ^ 64"
    and g: "g = gr_delta (plan_grow_root h es root dst copy)" and es1: "es1 = apply_grow_root h es root g dst"
  shows "2048 dvd unat g \<and>
    (g \<noteq> 0 \<longrightarrow> unat copy + 2048 + unat g \<le> unat dst \<and> rb + 1 - ra + unat g \<le> min (unat dst div 4) (unat MAX_ROOT_SECTORS)) \<and>
    part es1 h root = Some (ra, rb + unat g) \<and>
    (\<forall>i < unat (gh_num_entries h). \<forall>x y. part es h i = Some (x, y) \<longrightarrow>
       (x < ra \<longrightarrow> part es1 h i = Some (x, y)) \<and>
       (rb < x \<longrightarrow> (\<exists>y'. part es1 h i = Some (x + unat g, y') \<and> y' \<le> y + unat g))) \<and>
    tabla_ok es1 h \<and> (\<forall>plan h' es'. relayout h es1 dst = Inr (plan, h', es') \<longrightarrow> tabla_ok es' h' \<and> cabe_tabla es' h' (unat dst))"
proof -
  have h: "header_ok h" "entries_bytes h \<le> length es" using t by (simp_all add: tabla_ok_def)
  have ab: "ra \<le> rb" "rb + unat dst < 2 ^ 64" using tabla_okD(1) [OF t r] b r by auto
  note D = plan_grow_cotas [OF r(2) ab c arg_cong [OF g, where f = unat]]
  have bd: "y + unat g < 2 ^ 64" if "i < unat (gh_num_entries h)" "part es h i = Some (x, y)" for i x y
    using b that D(3) by (meson add_left_mono le_less_trans)
  have t1: "tabla_ok es1 h" unfolding es1 by (rule apply_grow_ok [OF t r bd])
  then have h1: "entries_bytes h \<le> length es1" by (simp add: tabla_ok_def)
  have P: "part es1 h i = map_option (crecida root rb (unat g) (unat dst - unat (entries_sectors h) - 2) i) (part es h i)"
    if "g \<noteq> 0" "i < unat (gh_num_entries h)" for i
    unfolding es1 using apply_grow_part(2) [OF t r _ that(1) that(2)] bd by blast
  have pr: "part es1 h root = Some (ra, rb + unat g)"
    using P [OF _ r(1)] r(2) by (cases "g = 0") (simp_all add: es1 apply_grow_root_def crecida_def)
  have pi: "(x < ra \<longrightarrow> part es1 h i = Some (x, y)) \<and> (rb < x \<longrightarrow> (\<exists>y'. part es1 h i = Some (x + unat g, y') \<and> y' \<le> y + unat g))"
    if i: "i < unat (gh_num_entries h)" "part es h i = Some (x, y)" for i x y
  proof (cases "g = 0")
    case True
    then show ?thesis using i by (simp add: es1 apply_grow_root_def)
  next
    case False
    have "i = root \<Longrightarrow> x = ra" using i(2) r(2) by simp
    then show ?thesis using P [OF False i(1)] i(2) ab(1) tabla_okD(1) [OF t i] by (auto simp: crecida_def)
  qed
  have rl: "tabla_ok es' h' \<and> cabe_tabla es' h' (unat dst)" if "relayout h es1 dst = Inr (plan, h', es')" for plan h' es'
  proof -
    have c1: "cabe_tabla es1 h (unat dst)" and e: "es' = relayout_tabla h es1 dst" "gh_entry_size h' = gh_entry_size h"
      "gh_num_entries h' = gh_num_entries h" "header_ok h' = header_ok h"
      using that relayout_eq [OF h(1) h1, of dst] by (auto split: if_splits)
    show ?thesis using relayout_tabla_ok [OF t1 c1] tabla_ok_cong [OF e(2-4)] by (simp add: e(1))
  qed
  show ?thesis using D(1,2) pr pi t1 rl by (auto simp: unat_gt_0)
qed

section \<open>New identifiers keep the partitions\<close>

lemma rng_guid_len: "rng_guid r = (g, r') \<Longrightarrow> length g = 16"
  by (auto simp: rng_guid_def Let_def split: prod.splits)

lemma reseed_loop_part:
  assumes "header_ok h"
  shows "reseed_loop h is es r = (es', r') \<Longrightarrow> length es' = length es \<and> part es' h j = part es h j"
proof (induction "is" arbitrary: es r)
  case (Cons i "is")
  show ?case
  proof (cases "gpt_entry es h i")
    case None
    then show ?thesis using Cons.prems by simp
  next
    case (Some e)
    note l = entrada_larga [OF assms Some]
    show ?thesis
    proof (cases "entry_used e")
      case False
      then show ?thesis using Cons Some by simp
    next
      case True
      obtain g r1 where g: "rng_guid r = (g, r1)" by fastforce
      have f: "length (pon 16 g e) = unat (gh_entry_size h)" "entry_used (pon 16 g e) = entry_used e"
        "entry_first_lba (pon 16 g e) = entry_first_lba e" "entry_last_lba (pon 16 g e) = entry_last_lba e"
        using l rng_guid_len [OF g] by (simp_all add: entry_used_def entry_first_lba_def entry_last_lba_def take_antes rd_pon_otro)
      have "part (entry_mut h i (pon 16 g) es) h j = part es h j"
        using part_entry_mut [OF Some, of "pon 16 g" j] f True Some by (simp add: part_def)
      then show ?thesis using Cons.IH [of "entry_mut h i (pon 16 g) es" r1] Cons.prems entry_mut_entrada(1) [OF Some, of "pon 16 g"] f(1) Some True g by simp
    qed
  qed
qed simp

text \<open>(\<open>reseed_guids\<close>): new identifiers leave every partition where it was.\<close>

lemma reseed_conserva:
  assumes "tabla_ok es h" "reseed_guids h es r = (h', es', r')"
  shows "length es' = length es \<and> part es' h' j = part es h j"
proof -
  obtain g r1 where g: "rng_guid r = (g, r1)" by fastforce
  have h': "h' = h\<lparr>gh_disk_guid := g\<rparr>" using assms(2) g by (auto simp: reseed_guids_def Let_def split: prod.splits)
  then have "header_ok h'" using assms(1) rng_guid_len [OF g] by (simp add: tabla_ok_def header_ok_def)
  then have "length es' = length es \<and> part es' h' j = part es h' j"
    using reseed_loop_part assms(2) g h' by (fastforce simp: reseed_guids_def Let_def split: prod.splits)
  moreover have "part es h' = part es h" using h' by (intro part_cong) simp
  ultimately show ?thesis by simp
qed

text \<open>A small disk: one sector of table, three partitions, the second one the root.\<close>

definition tabla_header :: gpt_header where
  "tabla_header = \<lparr>gh_revision = 0x10000, gh_header_size = 92, gh_my_lba = 1, gh_alternate_lba = 49999, gh_first_usable = 3,
     gh_last_usable = 49997, gh_disk_guid = ''0123456789abcdef'', gh_entries_lba = 2, gh_num_entries = 4, gh_entry_size = 128\<rparr>"

definition tabla_entrada :: "nat \<Rightarrow> nat \<Rightarrow> bytes" where
  "tabla_entrada a b = ''tipo-de-prueba-1nombre-de-prueba'' @ le_enc 8 a @ le_enc 8 b @ replicate 80 (CHR 0x00)"

definition tabla_ejemplo :: bytes where
  "tabla_ejemplo = tabla_entrada 3 10 @ tabla_entrada 11 20 @ tabla_entrada 21 40 @ replicate 128 (CHR 0x00)"

lemma tabla_ejemplo_part:
  "part tabla_ejemplo tabla_header 0 = Some (3, 10)" "part tabla_ejemplo tabla_header 1 = Some (11, 20)"
  "part tabla_ejemplo tabla_header 2 = Some (21, 40)" "part tabla_ejemplo tabla_header 3 = None"
  by code_simp+

lemma tabla_ejemplo_num: "i < unat (gh_num_entries tabla_header) \<longleftrightarrow> i = 0 \<or> i = Suc 0 \<or> i = 2 \<or> i = 3"
  by (auto simp: tabla_header_def)

lemma tabla_ejemplo_ok: "tabla_ok tabla_ejemplo tabla_header"
proof (rule tabla_okI)
  show "header_ok tabla_header" by (simp add: header_ok_def tabla_header_def MIN_HEADER_SIZE_def)
  have "length tabla_ejemplo = 512" by code_simp
  then show "entries_bytes tabla_header \<le> length tabla_ejemplo" by (simp add: tabla_header_def entries_bytes_def)
qed (auto simp: tabla_ejemplo_num tabla_ejemplo_part tabla_ejemplo_part(2) [simplified])

theorem relayout_bien_witness:
  "\<exists>plan h' es'. relayout tabla_header tabla_ejemplo 60000 = Inr (plan, h', es') \<and> tabla_ok es' h' \<and> part es' h' 2 = Some (21, 59997)"
proof -
  have "last_used tabla_ejemplo tabla_header = Some 2" by code_simp
  moreover have "ultimo_util tabla_header (unat (60000 :: u64)) = 59997" "primero_util tabla_header = 3"
    by (simp_all add: ultimo_util_def primero_util_def entries_sectors_def entries_bytes_def tabla_header_def GPT_SECTOR_def)
  moreover have "cabe_tabla tabla_ejemplo tabla_header (unat (60000 :: u64))"
    using calculation by (auto simp: cabe_tabla_def tabla_ejemplo_num tabla_ejemplo_part tabla_ejemplo_part(2) [simplified])
  ultimately show ?thesis
    using relayout_bien [OF tabla_ejemplo_ok, of 60000] tabla_ejemplo_part(3)
    by (auto split: sum.splits prod.splits)
qed

theorem instalar_agranda_witness:
  "gr_delta (plan_grow_root tabla_header tabla_ejemplo 1 40000 41) = 8192 \<and>
   part (apply_grow_root tabla_header tabla_ejemplo 1 8192 40000) tabla_header 1 = Some (11, 8212) \<and>
   part (apply_grow_root tabla_header tabla_ejemplo 1 8192 40000) tabla_header 0 = Some (3, 10) \<and>
   tabla_ok (apply_grow_root tabla_header tabla_ejemplo 1 8192 40000) tabla_header"
proof -
  have g: "8192 = gr_delta (plan_grow_root tabla_header tabla_ejemplo 1 40000 41)" by code_simp
  show ?thesis
    using instalar_agranda [OF tabla_ejemplo_ok _ tabla_ejemplo_part(2) _ _ g refl] tabla_ejemplo_part g
    by (auto simp: tabla_ejemplo_num tabla_ejemplo_part(2) [simplified])
qed

end
