(* ===== verification/Redimension.thy ===== *)
theory Redimension
  imports Gpt
begin

text \<open>
  \<open>crates/soso-resize-core/src/lib.rs\<close> and its caller \<open>kernel/src/fs_resize.rs\<close>: the root grows by taking
  blocks from the partition of the models.  The partitions of the models and of the installer are slid
  forward sector by sector, then the table is rewritten, and a journal in the ESP says how far the operation went.
  The trait \<open>Disk512\<close> is a disk of 512-byte sectors on which only so many writes happen before power
  fails, some sectors may be unreadable and the flush may fail; a write is durable when it happens.  The
  file of the journal in the ESP may be absent or unreadable.
\<close>

section \<open>The disk\<close>

record disco =
  di_sec :: "nat \<Rightarrow> bytes"
  di_diario :: bytes
  di_hueco :: bool
  di_esp_legible :: bool
  di_energia :: nat
  di_malos :: "nat \<Rightarrow> bool"
  di_flush_falla :: bool

datatype resize_error = ReIo | ReInvalidJournal | ReInvalidGeometry | ReOutOfRange

definition read_sector :: "disco \<Rightarrow> u64 \<Rightarrow> resize_error + bytes" where
  "read_sector d lba = (if di_malos d (unat lba) then Inl ReIo else Inr (di_sec d (unat lba)))"

definition write_sector :: "disco \<Rightarrow> u64 \<Rightarrow> bytes \<Rightarrow> bool \<times> disco" where
  "write_sector d lba sec =
     (if di_energia d = 0 then (False, d)
      else (True, d\<lparr>di_sec := (di_sec d)(unat lba := sec), di_energia := di_energia d - 1\<rparr>))"

definition disk_flush :: "disco \<Rightarrow> bool" where
  "disk_flush d = (\<not> di_flush_falla d)"

section \<open>Journal\<close>

definition RE_MAGIC :: string where "RE_MAGIC = ''SOSORES''"

definition JOURNAL_IDLE :: nat where "JOURNAL_IDLE = 0"
definition JOURNAL_SHRINK_MODELS :: nat where "JOURNAL_SHRINK_MODELS = 1"
definition JOURNAL_SLIDE_P3 :: nat where "JOURNAL_SLIDE_P3 = 2"
definition JOURNAL_SLIDE_P4 :: nat where "JOURNAL_SLIDE_P4 = 3"
definition JOURNAL_GPT :: nat where "JOURNAL_GPT = 4"
definition JOURNAL_INTENT :: nat where "JOURNAL_INTENT = 5"

lemmas fases = JOURNAL_IDLE_def JOURNAL_SHRINK_MODELS_def JOURNAL_SLIDE_P3_def JOURNAL_SLIDE_P4_def JOURNAL_GPT_def JOURNAL_INTENT_def

definition GPT_ROOT :: nat where "GPT_ROOT = 1"
definition GPT_MODELS :: nat where "GPT_MODELS = 2"
definition GPT_INSTALL :: nat where "GPT_INSTALL = 3"

text \<open>The phase is a byte of the sector.\<close>

record re_journal =
  rj_phase :: nat
  rj_delta :: u64
  rj_slide_done :: u64

definition re_idle :: re_journal where
  "re_idle = \<lparr>rj_phase = JOURNAL_IDLE, rj_delta = 0, rj_slide_done = 0\<rparr>"

definition re_encode :: "re_journal \<Rightarrow> bytes" where
  "re_encode j =
     wr64 16 (rj_slide_done j) (wr64 8 (rj_delta j) (pon 1 RE_MAGIC ((replicate GPT_SECTOR (CHR 0x00))[0 := char_of (rj_phase j)])))"

definition is_uninitialized :: "bytes \<Rightarrow> bool" where
  "is_uninitialized sec = list_all (\<lambda>b. b \<in> {CHR 0x00, CHR 0x0A, CHR 0x0D, CHR '' '', CHR 0x09}) sec"

definition re_decode :: "bytes \<Rightarrow> resize_error + re_journal" where
  "re_decode sec =
     (if take 7 (drop 1 sec) \<noteq> RE_MAGIC
      then if is_uninitialized sec then Inr re_idle else Inl ReInvalidJournal
      else Inr \<lparr>rj_phase = of_char (sec ! 0), rj_delta = rd64 sec 8, rj_slide_done = rd64 sec 16\<rparr>)"

definition valid_phase :: "re_journal \<Rightarrow> bool" where
  "valid_phase j = (rj_phase j \<in> {JOURNAL_IDLE, JOURNAL_INTENT, JOURNAL_SHRINK_MODELS, JOURNAL_SLIDE_P3, JOURNAL_SLIDE_P4, JOURNAL_GPT})"

definition re_needs_recovery :: "re_journal \<Rightarrow> bool" where
  "re_needs_recovery j = (valid_phase j \<and> rj_phase j \<noteq> JOURNAL_IDLE)"

definition phase_rank :: "nat \<Rightarrow> nat option" where
  "phase_rank p =
     (if p = JOURNAL_IDLE then Some 0 else if p = JOURNAL_INTENT then Some 1 else if p = JOURNAL_SHRINK_MODELS then Some 2
      else if p = JOURNAL_SLIDE_P3 then Some 3 else if p = JOURNAL_SLIDE_P4 then Some 4 else if p = JOURNAL_GPT then Some 5 else None)"

definition phase_at_most :: "nat \<Rightarrow> nat \<Rightarrow> bool" where
  "phase_at_most p t = (case (phase_rank p, phase_rank t) of (Some a, Some b) \<Rightarrow> a \<le> b | _ \<Rightarrow> False)"

definition phase_before :: "nat \<Rightarrow> nat \<Rightarrow> bool" where
  "phase_before p t = (case (phase_rank p, phase_rank t) of (Some a, Some b) \<Rightarrow> a < b | _ \<Rightarrow> False)"

text \<open>\<open>journal_write\<close> of the kernel, which is what \<open>on_progress\<close> calls: the sector of \<open>SOSORES.TXT\<close>.
  Its failure is ignored by the callers of this library.\<close>

definition journal_write :: "re_journal \<Rightarrow> disco \<Rightarrow> bool \<times> disco" where
  "journal_write j d =
     (if \<not> di_hueco d \<or> di_energia d = 0 then (False, d) else (True, d\<lparr>di_diario := re_encode j, di_energia := di_energia d - 1\<rparr>))"

abbreviation on_progress :: "re_journal \<Rightarrow> disco \<Rightarrow> disco" where
  "on_progress j d \<equiv> snd (journal_write j d)"

section \<open>Sliding\<close>

record part_geom =
  pg_first :: u64
  pg_last :: u64
  pg_sectors :: u64

definition from_lba :: "u64 \<Rightarrow> u64 \<Rightarrow> part_geom" where
  "from_lba primero ultimo = \<lparr>pg_first = primero, pg_last = ultimo, pg_sectors = sat_sub ultimo primero + 1\<rparr>"

function slide_loop :: "disco \<Rightarrow> u64 \<Rightarrow> u64 \<Rightarrow> u64 \<Rightarrow> u64 \<Rightarrow> (resize_error + unit) \<times> u64 \<times> disco" where
  "slide_loop d src dst sectors done =
     (if done < sectors
      then let idx = sectors - 1 - done in
        case read_sector d (src + idx) of Inl e \<Rightarrow> (Inl e, done, d)
        | Inr sec \<Rightarrow> (case write_sector d (dst + idx) sec of (ok, d') \<Rightarrow>
            if ok then slide_loop d' src dst sectors (done + 1) else (Inl ReIo, done, d'))
      else (Inr (), done, d))"
  by pat_completeness auto
termination
proof (relation "measure (\<lambda>(_, _, _, sectors, hecho). unat sectors - unat hecho)", goal_cases)
  case (2 d src dst sectors hecho)
  then have "unat hecho < unat sectors" "unat (hecho + 1) = unat hecho + 1"
    using unsigned_less [of sectors, where 'a = nat] by (simp_all add: word_less_nat_alt unat_word_ariths)
  then show ?case by simp
qed simp

declare slide_loop.simps [simp del]

definition slide_sectors :: "disco \<Rightarrow> u64 \<Rightarrow> u64 \<Rightarrow> u64 \<Rightarrow> u64 \<Rightarrow> (resize_error + unit) \<times> u64 \<times> disco" where
  "slide_sectors d src dst sectors done =
     (if sectors = 0 then (Inr (), done, d)
      else if dst \<le> src then (Inl ReInvalidGeometry, done, d)
      else if done > sectors then (Inl ReOutOfRange, done, d)
      else case slide_loop d src dst sectors done of (r, hecho, d') \<Rightarrow>
        (case r of Inl e \<Rightarrow> (Inl e, hecho, d')
         | Inr _ \<Rightarrow> if disk_flush d' then (Inr (), hecho, d') else (Inl ReIo, done, d')))"

section \<open>Reading the table\<close>

fun read_secs :: "disco \<Rightarrow> u64 \<Rightarrow> nat list \<Rightarrow> resize_error + bytes" where
  "read_secs d lba [] = Inr []"
| "read_secs d lba (i # is) =
     res_bind (read_sector d (lba + of_nat i)) (\<lambda>sec. res_bind (read_secs d lba is) (\<lambda>r. Inr (sec @ r)))"

definition leer_header :: "disco \<Rightarrow> resize_error + gpt_header" where
  "leer_header d = res_bind (read_sector d 1) (\<lambda>sec. map_err (\<lambda>_. ReInvalidGeometry) (header_parse sec))"

definition leer_tabla :: "disco \<Rightarrow> resize_error + gpt_header \<times> bytes" where
  "leer_tabla d =
     res_bind (leer_header d) (\<lambda>h.
     res_bind (read_secs d (gh_entries_lba h) [0..<unat (entries_sectors h)]) (\<lambda>es. Inr (h, take (entries_bytes h) es)))"

definition read_part :: "disco \<Rightarrow> nat \<Rightarrow> resize_error + part_geom" where
  "read_part d i =
     res_bind (leer_tabla d) (\<lambda>(h, es).
     res_bind (ok_or (gpt_entry es h i) ReInvalidGeometry) (\<lambda>e. Inr (from_lba (entry_first_lba e) (entry_last_lba e))))"

definition disk_sectors :: "disco \<Rightarrow> resize_error + u64" where
  "disk_sectors d = res_bind (leer_header d) (\<lambda>h. Inr (gh_alternate_lba h + 1))"

definition pon_geom :: "u64 \<Rightarrow> u64 \<Rightarrow> bytes \<Rightarrow> bytes" where
  "pon_geom primero ultimo e = set_entry_last_lba ultimo (set_entry_first_lba primero e)"

definition validate_geometry :: "disco \<Rightarrow> u64 \<Rightarrow> resize_error + unit" where
  "validate_geometry d delta =
     res_bind (read_part d GPT_ROOT) (\<lambda>p2. res_bind (read_part d GPT_MODELS) (\<lambda>p3. res_bind (read_part d GPT_INSTALL) (\<lambda>p4.
     if pg_sectors p3 \<le> delta then Inl ReInvalidGeometry
     else res_bind (leer_tabla d) (\<lambda>(h, es).
       let es1 = entry_mut h GPT_ROOT (set_entry_last_lba (pg_last p2 + delta)) es;
           es2 = entry_mut h GPT_INSTALL (pon_geom (pg_first p4 + delta) (pg_last p4 + delta)) es1;
           es3 = entry_mut h GPT_MODELS (pon_geom (pg_first p3 + delta) (pg_last p3)) es2
       in res_bind (disk_sectors d) (\<lambda>n.
          case relayout h es3 n of Inl _ \<Rightarrow> Inl ReInvalidGeometry
          | Inr (plan, h', es') \<Rightarrow> if pg_last p4 + delta > gh_last_usable h' then Inl ReInvalidGeometry else Inr ())))))"

section \<open>Writing the table\<close>

function trozos_sector :: "bytes \<Rightarrow> bytes list" where
  "trozos_sector b = (if b = [] then [] else take GPT_SECTOR b # trozos_sector (drop GPT_SECTOR b))"
  by pat_completeness auto
termination by (relation "measure length") (auto simp: GPT_SECTOR_def)

declare trozos_sector.simps [simp del]

definition rellena :: "bytes \<Rightarrow> bytes" where
  "rellena b = b @ replicate (GPT_SECTOR - length b) (CHR 0x00)"

fun escribe_trozos :: "disco \<Rightarrow> u64 \<Rightarrow> nat \<Rightarrow> bytes list \<Rightarrow> bool \<times> disco" where
  "escribe_trozos d lba i [] = (True, d)"
| "escribe_trozos d lba i (t # ts) =
     (case write_sector d (lba + of_nat i) (rellena t) of (ok, d') \<Rightarrow> if ok then escribe_trozos d' lba (i + 1) ts else (False, d'))"

definition write_gpt_sectors :: "disco \<Rightarrow> u64 \<Rightarrow> bytes \<Rightarrow> bool \<times> disco" where
  "write_gpt_sectors d lba buf = escribe_trozos d lba 0 (trozos_sector buf)"

text \<open>The table that \<open>write_gpt_update\<close> writes: \<open>relayout\<close> stretches the last partition, so the planned sizes are
  set again after it.\<close>

definition tabla_nueva :: "gpt_header \<Rightarrow> bytes \<Rightarrow> u64 \<Rightarrow> u64 \<Rightarrow> part_geom \<Rightarrow> part_geom \<Rightarrow> part_geom \<Rightarrow> resize_error + gpt_plan \<times> gpt_header \<times> bytes" where
  "tabla_nueva h es n delta p2 p3 p4 =
     (let raiz = set_entry_last_lba (pg_last p2 + delta);
          modelos = pon_geom (pg_first p3 + delta) (pg_last p3);
          install = pon_geom (pg_first p4 + delta) (pg_last p4 + delta);
          es1 = entry_mut h GPT_MODELS modelos (entry_mut h GPT_INSTALL install (entry_mut h GPT_ROOT raiz es))
      in case relayout h es1 n of Inl _ \<Rightarrow> Inl ReInvalidGeometry
        | Inr (plan, h', es2) \<Rightarrow>
            Inr (plan, h', entry_mut h' GPT_INSTALL install (entry_mut h' GPT_MODELS modelos (entry_mut h' GPT_ROOT raiz es2))))"

definition escribe_gpt :: "disco \<Rightarrow> gpt_plan \<Rightarrow> gpt_header \<Rightarrow> bytes \<Rightarrow> bool \<times> disco" where
  "escribe_gpt d plan h es =
     (case write_gpt_sectors d (gp_backup_entries_lba plan) es of (ok1, d1) \<Rightarrow> if \<not> ok1 then (False, d1) else
      case write_sector d1 (gp_backup_header_lba plan) (render_backup h es plan) of (ok2, d2) \<Rightarrow> if \<not> ok2 then (False, d2) else
      case write_gpt_sectors d2 (gp_primary_entries_lba plan) es of (ok3, d3) \<Rightarrow> if \<not> ok3 then (False, d3) else
      case write_sector d3 (gp_primary_header_lba plan) (render_primary h es plan) of (ok4, d4) \<Rightarrow>
      (ok4 \<and> disk_flush d4, d4))"

definition write_gpt_update :: "disco \<Rightarrow> u64 \<Rightarrow> part_geom \<Rightarrow> part_geom \<Rightarrow> part_geom \<Rightarrow> (resize_error + unit) \<times> disco" where
  "write_gpt_update d delta p2 p3 p4 =
     (case res_bind (leer_tabla d) (\<lambda>(h, es). res_bind (disk_sectors d) (\<lambda>n. tabla_nueva h es n delta p2 p3 p4)) of
        Inl e \<Rightarrow> (Inl e, d)
      | Inr (plan, h, es) \<Rightarrow> (case escribe_gpt d plan h es of (ok, d') \<Rightarrow> (if ok then Inr () else Inl ReIo, d')))"

section \<open>The whole operation\<close>

text \<open>One slide with its progress: the phase is announced, the sectors are copied, and the
  progress is stored when the slide has ended.\<close>

definition fase_slide :: "nat \<Rightarrow> u64 \<Rightarrow> u64 \<Rightarrow> u64 \<Rightarrow> re_journal \<Rightarrow> disco \<Rightarrow> (resize_error + unit) \<times> re_journal \<times> disco" where
  "fase_slide fase src delta sectors j d =
     (let (j1, d1) = (if phase_before (rj_phase j) fase
                      then let j' = j\<lparr>rj_phase := fase, rj_slide_done := 0\<rparr> in (j', on_progress j' d) else (j, d))
      in case slide_sectors d1 src (src + delta) sectors (rj_slide_done j1) of (r, hecho, d2) \<Rightarrow>
        let j2 = j1\<lparr>rj_slide_done := hecho\<rparr> in
        case r of Inl e \<Rightarrow> (Inl e, j2, d2) | Inr _ \<Rightarrow> (Inr (), j2, on_progress j2 d2))"

definition fase_gpt :: "u64 \<Rightarrow> part_geom \<Rightarrow> part_geom \<Rightarrow> part_geom \<Rightarrow> re_journal \<Rightarrow> disco \<Rightarrow> (resize_error + unit) \<times> re_journal \<times> disco" where
  "fase_gpt delta p2 p3 p4 j d =
     (let j1 = j\<lparr>rj_phase := JOURNAL_GPT, rj_slide_done := 0\<rparr>
      in case write_gpt_update (on_progress j1 d) delta p2 p3 p4 of (r, d2) \<Rightarrow> (r, j1, d2))"

definition apply_gpt_and_slides :: "u64 \<Rightarrow> re_journal \<Rightarrow> disco \<Rightarrow> (resize_error + unit) \<times> re_journal \<times> disco" where
  "apply_gpt_and_slides delta j d =
     (case res_bind (read_part d GPT_ROOT) (\<lambda>p2. res_bind (read_part d GPT_MODELS) (\<lambda>p3.
           res_bind (read_part d GPT_INSTALL) (\<lambda>p4. Inr (p2, p3, p4)))) of
        Inl e \<Rightarrow> (Inl e, j, d)
      | Inr (p2, p3, p4) \<Rightarrow>
          case (if phase_at_most (rj_phase j) JOURNAL_SLIDE_P3
                then fase_slide JOURNAL_SLIDE_P3 (pg_first p3) delta (sat_sub (pg_sectors p3) delta) j d else (Inr (), j, d)) of
            (Inl e, j1, d1) \<Rightarrow> (Inl e, j1, d1)
          | (Inr _, j1, d1) \<Rightarrow>
              case (if pg_sectors p4 > 0 \<and> phase_at_most (rj_phase j1) JOURNAL_SLIDE_P4
                    then fase_slide JOURNAL_SLIDE_P4 (pg_first p4) delta (pg_sectors p4) j1 d1 else (Inr (), j1, d1)) of
                (Inl e, j2, d2) \<Rightarrow> (Inl e, j2, d2)
              | (Inr _, j2, d2) \<Rightarrow>
                  case (if phase_at_most (rj_phase j2) JOURNAL_GPT then fase_gpt delta p2 p3 p4 j2 d2 else (Inr (), j2, d2)) of
                    (Inl e, j3, d3) \<Rightarrow> (Inl e, j3, d3)
                  | (Inr _, j3, d3) \<Rightarrow>
                      let j4 = j3\<lparr>rj_phase := JOURNAL_IDLE, rj_slide_done := 0\<rparr> in (Inr (), j4, on_progress j4 d3))"

definition recover_slides_and_gpt :: "re_journal \<Rightarrow> disco \<Rightarrow> (resize_error + unit) \<times> re_journal \<times> disco" where
  "recover_slides_and_gpt j d =
     (if \<not> valid_phase j then (Inl ReInvalidJournal, j, d)
      else if \<not> re_needs_recovery j then (Inr (), j, d)
      else case phase_rank (rj_phase j) of None \<Rightarrow> (Inl ReInvalidJournal, j, d)
        | Some rank \<Rightarrow>
            if rank < the (phase_rank JOURNAL_SHRINK_MODELS) then (Inl ReInvalidJournal, j, d)
            else apply_gpt_and_slides (rj_delta j) j d)"

section \<open>The kernel\<close>

text \<open>\<open>recover_before_mount\<close>.  Mounting and shrinking the models file system is a parameter of the model, whether it
  succeeds and what it leaves on the disk, and so is reading the geometry again into the cache.  The result is whether the boot
  goes on and the blocks that the root has still to grow.\<close>

definition journal_read :: "disco \<Rightarrow> int + re_journal" where
  "journal_read d =
     (if \<not> di_hueco d then Inl (- 2) else if \<not> di_esp_legible d then Inl (- 5)
      else map_err (\<lambda>_. - 22) (re_decode (di_diario d)))"

definition recover_before_mount :: "(u64 \<Rightarrow> disco \<Rightarrow> bool \<times> disco) \<Rightarrow> (disco \<Rightarrow> bool) \<Rightarrow> bool \<Rightarrow> bool \<Rightarrow> disco \<Rightarrow> bool \<times> u64 \<times> disco" where
  "recover_before_mount shrink refresca activo durable d =
     (if \<not> activo then (True, 0, d)
      else case journal_read d of
        Inl code \<Rightarrow> (code = - 2, 0, d)
      | Inr j \<Rightarrow>
          if \<not> re_needs_recovery j then (True, 0, d)
          else if \<not> valid_phase j then (False, 0, d)
          else if \<not> durable then (False, 0, d)
          else
            let bloques = rj_delta j div 8 in
            case (if rj_phase j = JOURNAL_INTENT
                  then case shrink bloques d of (ok, d1) \<Rightarrow>
                    if \<not> ok then (False, j, d1)
                    else let j1 = j\<lparr>rj_phase := JOURNAL_SHRINK_MODELS, rj_slide_done := 0\<rparr>
                         in case journal_write j1 d1 of (ok1, d2) \<Rightarrow> (ok1, j1, d2)
                  else (True, j, d)) of (ok, j1, d1) \<Rightarrow>
            if \<not> ok then (False, 0, d1)
            else case recover_slides_and_gpt j1 d1 of (r, j2, d2) \<Rightarrow>
              if is_ok r \<and> refresca d2 then (True, bloques, d2) else (False, 0, d2))"

text \<open>The part of \<open>grow_root\<close> that works on the disk, between its checks and the growth of the mounted file systems.\<close>

definition grow_root_disco :: "(u64 \<Rightarrow> disco \<Rightarrow> bool \<times> disco) \<Rightarrow> (disco \<Rightarrow> bool) \<Rightarrow> u64 \<Rightarrow> disco \<Rightarrow> bool \<times> disco" where
  "grow_root_disco shrink refresca bloques d =
     (let j = \<lparr>rj_phase = JOURNAL_INTENT, rj_delta = bloques * 8, rj_slide_done = 0\<rparr> in
      case journal_write j d of (ok0, d0) \<Rightarrow> if \<not> ok0 then (False, d0) else
      case shrink bloques d0 of (ok1, d1) \<Rightarrow> if \<not> ok1 then (False, d1) else
      let j1 = j\<lparr>rj_phase := JOURNAL_SHRINK_MODELS, rj_slide_done := 0\<rparr> in
      case journal_write j1 d1 of (ok2, d2) \<Rightarrow> if \<not> ok2 then (False, d2) else
      case apply_gpt_and_slides (rj_delta j1) j1 d2 of (r, j2, d3) \<Rightarrow> (is_ok r \<and> refresca d3, d3))"

section \<open>Cached geometry\<close>

record geom_cache =
  gc_parts :: "part_geom option list"
  gc_reloads :: u64

definition geom_vacia :: geom_cache where
  "geom_vacia = \<lparr>gc_parts = replicate 4 None, gc_reloads = 0\<rparr>"

definition geom_reload :: "disco \<Rightarrow> geom_cache \<Rightarrow> (resize_error + unit) \<times> geom_cache" where
  "geom_reload d c =
     (case read_part d GPT_ROOT of Inl e \<Rightarrow> (Inl e, c)
      | Inr p2 \<Rightarrow>
          let c1 = c\<lparr>gc_parts := (gc_parts c)[GPT_ROOT := Some p2]\<rparr> in
          case read_part d GPT_MODELS of Inl e \<Rightarrow> (Inl e, c1)
          | Inr p3 \<Rightarrow>
              let c2 = c1\<lparr>gc_parts := (gc_parts c1)[GPT_MODELS := Some p3]\<rparr>;
                  ok = (\<lambda>r. case r of Inl _ \<Rightarrow> None | Inr p \<Rightarrow> Some p);
                  c3 = c2\<lparr>gc_parts := ((gc_parts c2)[0 := ok (read_part d 0)])[GPT_INSTALL := ok (read_part d GPT_INSTALL)]\<rparr>
              in (Inr (), c3\<lparr>gc_reloads := sat_add (gc_reloads c3) 1\<rparr>))"

definition geom_get :: "geom_cache \<Rightarrow> nat \<Rightarrow> part_geom option" where
  "geom_get c i = (if i < length (gc_parts c) then gc_parts c ! i else None)"

section \<open>A slide copies what it found\<close>

text \<open>The disk \<open>D\<close> when the last \<open>m\<close> of \<open>n\<close> sectors have been copied from \<open>src\<close> to \<open>dst\<close>.\<close>

definition copiado :: "(nat \<Rightarrow> bytes) \<Rightarrow> nat \<Rightarrow> nat \<Rightarrow> nat \<Rightarrow> nat \<Rightarrow> nat \<Rightarrow> bytes" where
  "copiado D src dst n m x = (if dst + (n - m) \<le> x \<and> x < dst + n then D (src + (x - dst)) else D x)"

lemma copiado_0 [simp]: "copiado D src dst n 0 = D"
  by (rule ext) (auto simp: copiado_def)

lemma copiado_paso:
  assumes "src < dst" "m < n"
  shows "(copiado D src dst n m)(dst + (n - 1 - m) := copiado D src dst n m (src + (n - 1 - m))) = copiado D src dst n (m + 1)"
proof
  fix x
  have "copiado D src dst n m (src + (n - 1 - m)) = D (src + (n - 1 - m))" using assms by (auto simp: copiado_def)
  then show "((copiado D src dst n m)(dst + (n - 1 - m) := copiado D src dst n m (src + (n - 1 - m)))) x = copiado D src dst n (m + 1) x"
    using assms by (auto simp: copiado_def)
qed

lemma slide_loop_copia:
  assumes s: "unat src < unat dst" "unat dst + unat n \<le> 2 ^ 64"
  shows "unat m \<le> unat n \<Longrightarrow> di_sec d = copiado D (unat src) (unat dst) (unat n) (unat m) \<Longrightarrow> (\<And>x. \<not> di_malos d x) \<Longrightarrow>
    k = min (di_energia d) (unat n - unat m) \<Longrightarrow>
    slide_loop d src dst n m =
      (if unat n - unat m \<le> di_energia d then Inr () else Inl ReIo, m + of_nat k,
       d\<lparr>di_sec := copiado D (unat src) (unat dst) (unat n) (unat m + k), di_energia := di_energia d - k\<rparr>)"
proof (induction "unat n - unat m" arbitrary: d m k)
  case 0
  then have "k = 0" "\<not> m < n" by (simp_all add: word_less_nat_alt)
  then show ?case using 0 by (subst slide_loop.simps) (simp flip: 0(3))
next
  case (Suc j)
  have lt: "unat m < unat n" using Suc(2) by simp
  let ?i = "n - 1 - m"
  have i: "unat ?i = unat n - 1 - unat m" using lt by (simp add: unat_sub_if')
  have a: "unat (src + ?i) = unat src + (unat n - 1 - unat m)" "unat (dst + ?i) = unat dst + (unat n - 1 - unat m)"
    using s lt i by (simp_all add: unat_word_ariths)
  have r: "read_sector d (src + ?i) = Inr (di_sec d (unat src + (unat n - 1 - unat m)))" using Suc(5) a by (simp add: read_sector_def)
  show ?case
  proof (cases "di_energia d = 0")
    case True
    then show ?thesis using Suc lt r
      by (subst slide_loop.simps) (simp add: word_less_nat_alt write_sector_def Let_def flip: Suc(4))
  next
    case False
    define d' where "d' = d\<lparr>di_sec := copiado D (unat src) (unat dst) (unat n) (unat m + 1), di_energia := di_energia d - 1\<rparr>"
    have m1: "unat (m + 1) = unat m + 1" using lt unsigned_less [of n, where 'a = nat] by (simp add: unat_word_ariths)
    have w: "write_sector d (dst + ?i) (di_sec d (unat src + (unat n - 1 - unat m))) = (True, d')"
      using False a copiado_paso [OF s(1) lt, of D] by (simp add: write_sector_def d'_def Suc(4))
    have k: "k = Suc (k - 1)" "k - 1 = min (di_energia d') (unat n - unat (m + 1))" using Suc(6) False lt m1 by (auto simp: d'_def)
    have "slide_loop d' src dst n (m + 1) =
      (if unat n - unat (m + 1) \<le> di_energia d' then Inr () else Inl ReIo, m + 1 + of_nat (k - 1),
       d'\<lparr>di_sec := copiado D (unat src) (unat dst) (unat n) (unat (m + 1) + (k - 1)), di_energia := di_energia d' - (k - 1)\<rparr>)"
      by (rule Suc(1)) (use Suc(2,5) lt m1 k(2) in \<open>simp_all add: d'_def\<close>)
    moreover have "m + 1 + of_nat (k - 1) = m + (of_nat k :: u64)" by (subst (2) k(1)) simp
    moreover have "unat (m + 1) + (k - 1) = unat m + k" "di_energia d' - (k - 1) = di_energia d - k"
      "(unat n - unat (m + 1) \<le> di_energia d') = (unat n - unat m \<le> di_energia d)"
      using k(1) m1 lt False by (auto simp: d'_def)
    moreover have "d'\<lparr>di_sec := X, di_energia := e\<rparr> = d\<lparr>di_sec := X, di_energia := e\<rparr>" for X e by (simp add: d'_def)
    ultimately show ?thesis using r w lt by (subst slide_loop.simps) (simp add: word_less_nat_alt Let_def)
  qed
qed

text \<open>Everything that a slide needs of the disk and of its arguments.\<close>

definition sano :: "disco \<Rightarrow> bool" where
  "sano d \<longleftrightarrow> (\<forall>x. \<not> di_malos d x) \<and> \<not> di_flush_falla d \<and> di_hueco d"

lemma slide_sectors_copia:
  assumes s: "unat src < unat dst" "unat dst + unat n \<le> 2 ^ 64" "n \<noteq> 0" "unat m \<le> unat n" and d: "sano d"
    and c: "di_sec d = copiado D (unat src) (unat dst) (unat n) (unat m)" and k: "k = min (di_energia d) (unat n - unat m)"
  shows "slide_sectors d src dst n m =
      (if unat n - unat m \<le> di_energia d then Inr () else Inl ReIo, m + of_nat k,
       d\<lparr>di_sec := copiado D (unat src) (unat dst) (unat n) (unat m + k), di_energia := di_energia d - k\<rparr>)"
proof -
  have "\<not> dst \<le> src" "\<not> n < m" using s by (simp_all add: word_le_nat_alt word_less_nat_alt)
  moreover have "slide_loop d src dst n m =
      (if unat n - unat m \<le> di_energia d then Inr () else Inl ReIo, m + of_nat k,
       d\<lparr>di_sec := copiado D (unat src) (unat dst) (unat n) (unat m + k), di_energia := di_energia d - k\<rparr>)"
    by (rule slide_loop_copia [OF s(1,2,4) c _ k]) (use d in \<open>simp add: sano_def\<close>)
  ultimately show ?thesis using s(3) d by (simp add: slide_sectors_def disk_flush_def sano_def)
qed

text \<open>C24 (\<open>slide_sectors\<close>): a slide stopped by a power cut after any number of sectors and taken up again at the count it had
  reached copies every sector of the partition as it was at the beginning, although source and destination overlap,
  and writes nothing else.\<close>

theorem slide_reanuda:
  assumes s: "unat src < unat dst" "unat dst + unat n \<le> 2 ^ 64" "n \<noteq> 0" and d: "sano d"
    and uno: "slide_sectors d src dst n 0 = (r1, hecho, d1)"
    and dos: "slide_sectors (d1\<lparr>di_energia := e\<rparr>) src dst n hecho = (r2, fin, d2)" and e: "unat n \<le> di_energia d + e"
  shows "r2 = Inr () \<and> fin = n \<and> (\<forall>k < unat n. di_sec d2 (unat dst + k) = di_sec d (unat src + k)) \<and>
    (\<forall>x. x < unat dst \<or> unat dst + unat n \<le> x \<longrightarrow> di_sec d2 x = di_sec d x)"
proof -
  define k where "k = min (di_energia d) (unat n)"
  have kn: "k \<le> unat n" "k < 2 ^ 64" using unsigned_less [of n, where 'a = nat] by (auto simp: k_def)
  have r1: "hecho = of_nat k" "d1 = d\<lparr>di_sec := copiado (di_sec d) (unat src) (unat dst) (unat n) k, di_energia := di_energia d - k\<rparr>"
    using slide_sectors_copia [OF s _ d, of 0 "di_sec d" k] uno by (simp_all add: k_def)
  have h: "unat hecho = k" using kn by (simp add: r1(1) unat_of_nat)
  have "slide_sectors (d1\<lparr>di_energia := e\<rparr>) src dst n hecho =
      (if unat n - k \<le> e then Inr () else Inl ReIo, hecho + of_nat (min e (unat n - k)),
       (d1\<lparr>di_energia := e\<rparr>)\<lparr>di_sec := copiado (di_sec d) (unat src) (unat dst) (unat n) (k + min e (unat n - k)), di_energia := e - min e (unat n - k)\<rparr>)"
    using slide_sectors_copia [OF s, of hecho "d1\<lparr>di_energia := e\<rparr>" "di_sec d"] d h kn by (simp add: r1(2) sano_def)
  moreover have "unat n - k \<le> e" using e by (auto simp: k_def)
  moreover have "of_nat k + of_nat (unat n - k) = n" using kn(1) by (simp flip: of_nat_add)
  ultimately have "r2 = Inr ()" "fin = n" "di_sec d2 = copiado (di_sec d) (unat src) (unat dst) (unat n) (unat n)"
    using dos kn(1) by (auto simp: r1(1) min_absorb2)
  then show ?thesis by (auto simp: copiado_def)
qed

section \<open>The journal of the ESP\<close>

lemma length_magic [simp]: "length RE_MAGIC = 7" by (simp add: RE_MAGIC_def)

text \<open>(\<open>Journal::encode\<close>, \<open>Journal::decode\<close>): a stored journal reads back.\<close>

lemma re_decode_encode:
  assumes "rj_phase j < 256"
  shows "re_decode (re_encode j) = Inr j"
proof -
  define z where "z = (replicate 512 (CHR 0x00))[0 := char_of (rj_phase j)]"
  have lz: "length z = 512" by (simp add: z_def)
  have e: "re_encode j = wr64 16 (rj_slide_done j) (wr64 8 (rj_delta j) (pon 1 RE_MAGIC z))" by (simp add: re_encode_def z_def GPT_SECTOR_def)
  have m: "take 7 (drop 1 (re_encode j)) = RE_MAGIC" using lz lee_pon(1) [of 1 RE_MAGIC z] by (simp add: e rd_simps)
  have "take 1 (re_encode j) = take 1 z" using lz by (simp add: e take_antes)
  then have "re_encode j ! 0 = z ! 0" by (metis less_one nth_take)
  then have "re_encode j ! 0 = char_of (rj_phase j)" by (simp add: z_def)
  moreover have "rd64 (re_encode j) 8 = rj_delta j" "rd64 (re_encode j) 16 = rj_slide_done j" using lz by (simp_all add: e rd_simps)
  ultimately show ?thesis using m assms by (simp add: re_decode_def)
qed

lemma before_p3: "rj_phase j = JOURNAL_SHRINK_MODELS \<Longrightarrow> phase_before (rj_phase j) JOURNAL_SLIDE_P3"
  by (simp add: phase_before_def phase_rank_def fases)

text \<open>C39 (\<open>apply_gpt_and_slides\<close>, the slide of the models): the progress of a slide is stored only when it has ended.
  After a power cut in the middle of the slide, once more sectors than the distance of the slide have been copied, the journal of the ESP
  says that none was; the recovery starts again from the end of the partition, where the first attempt has already written, and ends
  without an error with the last sector holding the contents of another one.\<close>

theorem corte_en_slide_corrompe:
  assumes s: "unat src + unat delta + unat n \<le> 2 ^ 64" "delta \<noteq> 0" and j: "rj_phase j = JOURNAL_SHRINK_MODELS"
    and d: "sano d" "di_energia d = 1 + m" and m: "unat delta < m" "m < unat n"
    and uno: "fase_slide JOURNAL_SLIDE_P3 src delta n j d = (r1, j1, d1)" and j': "j' = j\<lparr>rj_phase := JOURNAL_SLIDE_P3, rj_slide_done := 0\<rparr>"
  shows "r1 = Inl ReIo \<and> re_decode (di_diario d1) = Inr j' \<and>
    (\<forall>e r2 j2 d2. unat n \<le> e \<longrightarrow> fase_slide JOURNAL_SLIDE_P3 src delta n j' (d1\<lparr>di_energia := e\<rparr>) = (r2, j2, d2) \<longrightarrow>
       r2 = Inr () \<and> di_sec d2 (unat src + unat delta + (unat n - 1)) = di_sec d (unat src + (unat n - 1 - unat delta)))"
proof -
  let ?d = "d\<lparr>di_diario := re_encode j', di_energia := m\<rparr>" and ?c = "copiado (di_sec d) (unat src) (unat src + unat delta) (unat n)"
  have n0: "n \<noteq> 0" "0 < unat delta" using m s(2) by (auto simp: unat_gt_0)
  have ud: "unat (src + delta) = unat src + unat delta" using s(1) m by (simp add: unat_word_ariths)
  have sl: "unat src < unat (src + delta)" "unat (src + delta) + unat n \<le> 2 ^ 64" using s ud n0(2) by simp_all
  have p: "on_progress j' d = ?d" "sano ?d" using d by (simp_all add: journal_write_def sano_def)
  have s1: "slide_sectors ?d src (src + delta) n 0 = (Inl ReIo, of_nat m, ?d\<lparr>di_sec := ?c m, di_energia := 0\<rparr>)"
    using slide_sectors_copia [OF sl n0(1) _ p(2), of 0 "di_sec d" m] m by (simp add: ud)
  have u: "r1 = Inl ReIo" "d1 = ?d\<lparr>di_sec := ?c m, di_energia := 0\<rparr>"
    using uno before_p3 [OF j] p(1) s1 by (simp_all add: fase_slide_def Let_def j')
  have "r2 = Inr () \<and> di_sec d2 (unat src + unat delta + (unat n - 1)) = di_sec d (unat src + (unat n - 1 - unat delta))"
    if e: "unat n \<le> e" and dos: "fase_slide JOURNAL_SLIDE_P3 src delta n j' (d1\<lparr>di_energia := e\<rparr>) = (r2, j2, d2)" for e r2 j2 d2
  proof -
    define e1 where "e1 = d1\<lparr>di_energia := e\<rparr>"
    have "slide_sectors e1 src (src + delta) n 0 = (Inr (), n, e1\<lparr>di_sec := copiado (?c m) (unat src) (unat src + unat delta) (unat n) (unat n), di_energia := e - unat n\<rparr>)"
      using slide_sectors_copia [OF sl n0(1), of 0 e1 "?c m" "unat n"] e p(2) by (simp add: ud e1_def u(2) sano_def)
    moreover have "\<not> phase_before (rj_phase j') JOURNAL_SLIDE_P3" by (simp add: j' phase_before_def phase_rank_def fases)
    ultimately have r: "r2 = Inr ()" "di_sec d2 = copiado (?c m) (unat src) (unat src + unat delta) (unat n) (unat n)"
      using dos by (auto simp: fase_slide_def Let_def j' e1_def [symmetric] journal_write_def)
    have "di_sec d2 (unat src + unat delta + (unat n - 1)) = ?c m (unat src + (unat n - 1))" using m by (simp add: r(2) copiado_def)
    also have "\<dots> = di_sec d (unat src + (unat n - 1 - unat delta))" using m by (auto simp: copiado_def intro!: arg_cong [where f = "di_sec d"])
    finally show ?thesis using r(1) by simp
  qed
  then show ?thesis using u re_decode_encode [of j'] by (simp add: j' fases)
qed

section \<open>The table on the disk\<close>

text \<open>A healthy disk with a table: what the code reads, where it is, and that it fits.\<close>

definition gpt_en :: "disco \<Rightarrow> gpt_header \<Rightarrow> bytes \<Rightarrow> bool" where
  "gpt_en d h es \<longleftrightarrow> sano d \<and> leer_tabla d = Inr (h, es) \<and> tabla_ok es h \<and> length es = entries_bytes h \<and>
     gh_entries_lba h = 2 \<and> unat (gh_alternate_lba h) + 1 < 2 ^ 64 \<and> primero_util h < ultimo_util h (unat (gh_alternate_lba h) + 1) \<and>
     cabe_tabla es h (unat (gh_alternate_lba h) + 1)"

lemma read_secs_eq:
  assumes "sano d" "\<And>i. i \<in> set is \<Longrightarrow> unat lba + i < 2 ^ 64"
  shows "read_secs d lba is = Inr (concat (map (\<lambda>i. di_sec d (unat lba + i)) is))"
  using assms(2)
proof (induction "is")
  case (Cons i "is")
  have "unat (lba + of_nat i) = unat lba + i"
    using Cons.prems [of i] by (simp add: unat_word_ariths unat_of_nat)
  then show ?case using Cons assms(1) by (simp add: read_sector_def sano_def)
qed simp

lemma leer_header_sano: "sano d \<Longrightarrow> leer_header d = map_err (\<lambda>_. ReInvalidGeometry) (header_parse (di_sec d 1))"
  by (simp add: leer_header_def read_sector_def sano_def)

lemma leer_tabla_iff:
  assumes "sano d"
  shows "leer_tabla d = Inr (h, es) \<and> gh_entries_lba h = 2 \<longleftrightarrow> header_parse (di_sec d 1) = Inr h \<and> gh_entries_lba h = 2 \<and>
    es = take (entries_bytes h) (concat (map (\<lambda>i. di_sec d (2 + i)) [0..<unat (entries_sectors h)]))"
proof -
  have "read_secs d 2 [0..<unat (entries_sectors h)] = Inr (concat (map (\<lambda>i. di_sec d (2 + i)) [0..<unat (entries_sectors h)]))"
    if "header_parse (di_sec d 1) = Inr h"
    using read_secs_eq [OF assms, of "[0..<unat (entries_sectors h)]" 2] entries_sectors_unat(2) [OF header_parse_ok [OF that]] by simp
  then show ?thesis using assms by (auto simp: leer_tabla_def leer_header_sano)
qed

lemma leer_tabla_cong:
  assumes "sano d" "sano d'" "leer_tabla d = Inr (h, es)" "gh_entries_lba h = 2" "\<And>x. x < primero_util h \<Longrightarrow> di_sec d' x = di_sec d x"
  shows "leer_tabla d' = Inr (h, es)"
proof -
  have "map (\<lambda>i. di_sec d' (2 + i)) [0..<unat (entries_sectors h)] = map (\<lambda>i. di_sec d (2 + i)) [0..<unat (entries_sectors h)]"
    using assms(5) by (intro map_cong) (auto simp: primero_util_def)
  moreover have "di_sec d' 1 = di_sec d 1" using assms(5) by (simp add: primero_util_def)
  ultimately show ?thesis using leer_tabla_iff [OF assms(1)] leer_tabla_iff [OF assms(2)] assms(3,4) by metis
qed

lemma read_part_eq:
  assumes "leer_tabla d = Inr (h, es)" "part es h i = Some (a, b)" "a \<le> b"
  shows "read_part d i = Inr \<lparr>pg_first = of_nat a, pg_last = of_nat b, pg_sectors = of_nat (b - a + 1)\<rparr>"
proof -
  obtain e where e: "gpt_entry es h i = Some e" "a = unat (entry_first_lba e)" "b = unat (entry_last_lba e)"
    using assms(2) by (auto simp: part_def split: option.splits if_splits)
  have "sat_sub (entry_last_lba e) (entry_first_lba e) = of_nat (b - a)"
    using e assms(3) unsigned_less [of "entry_last_lba e", where 'a = nat] by (simp add: word_unat_eq_iff unat_sat_sub unat_of_nat unat_sub_if')
  then show ?thesis using assms(1) e by (simp add: read_part_def from_lba_def)
qed

section \<open>Writing a table\<close>

lemma escribe_trozos_eq:
  assumes "sano d"
  shows "length ts \<le> di_energia d \<Longrightarrow> unat lba + i + length ts \<le> 2 ^ 64 \<Longrightarrow>
    escribe_trozos d lba i ts = (True, d\<lparr>di_sec := (\<lambda>x. if unat lba + i \<le> x \<and> x < unat lba + i + length ts then rellena (ts ! (x - (unat lba + i))) else di_sec d x),
      di_energia := di_energia d - length ts\<rparr>)"
  using assms
proof (induction ts arbitrary: d i)
  case (Cons t ts)
  have u: "unat (lba + of_nat i) = unat lba + i" using Cons.prems(2) by (simp add: unat_word_ariths unat_of_nat)
  define d1 where "d1 = d\<lparr>di_sec := (di_sec d)(unat lba + i := rellena t), di_energia := di_energia d - 1\<rparr>"
  have w: "write_sector d (lba + of_nat i) (rellena t) = (True, d1)" using Cons.prems(1) u by (simp add: write_sector_def d1_def)
  have "escribe_trozos d1 lba (i + 1) ts = (True, d1\<lparr>di_sec := (\<lambda>x. if unat lba + (i + 1) \<le> x \<and> x < unat lba + (i + 1) + length ts
      then rellena (ts ! (x - (unat lba + (i + 1)))) else di_sec d1 x), di_energia := di_energia d1 - length ts\<rparr>)"
    by (rule Cons.IH) (use Cons.prems in \<open>simp_all add: d1_def sano_def\<close>)
  moreover have "(\<lambda>x. if unat lba + (i + 1) \<le> x \<and> x < unat lba + (i + 1) + length ts then rellena (ts ! (x - (unat lba + (i + 1)))) else di_sec d1 x) =
      (\<lambda>x. if unat lba + i \<le> x \<and> x < unat lba + i + length (t # ts) then rellena ((t # ts) ! (x - (unat lba + i))) else di_sec d x)"
    by (auto simp: fun_eq_iff d1_def nth_Cons' intro!: arg_cong [where f = rellena] arg_cong [where f = "(!) ts"])
  ultimately show ?case using w by (simp add: d1_def)
next
  case Nil
  have "(\<lambda>x. if unat lba + i \<le> x \<and> x < unat lba + i then rellena ([] ! (x - (unat lba + i))) else di_sec d x) = di_sec d"
    by (auto simp: fun_eq_iff)
  then show ?case by simp
qed

lemma sectores_mas_uno:
  assumes "0 < (l :: nat)"
  shows "Suc ((l - 512 + 511) div 512) = (l + 511) div 512"
proof (cases "l \<le> 512")
  case True
  have "(l + 511) div 512 = 1" by (rule div_nat_eqI) (use True assms in simp_all)
  then show ?thesis using True by simp
next
  case False
  then have "l + 511 = l - 512 + 511 + 512" by simp
  then show ?thesis by (metis Suc_eq_plus1 div_add_self2 zero_neq_numeral)
qed

lemma trozos_sector_len: "length (trozos_sector b) = (length b + 511) div 512"
proof (induction b rule: trozos_sector.induct)
  case (1 b)
  show ?case
  proof (cases "b = []")
    case False
    then have "length (trozos_sector (drop 512 b)) = (length b - 512 + 511) div 512" using 1 by (simp add: GPT_SECTOR_def)
    then show ?thesis using False sectores_mas_uno [of "length b"] by (subst trozos_sector.simps) (simp add: GPT_SECTOR_def)
  qed (simp add: trozos_sector.simps)
qed

lemma trozos_sector_nth: "i < length (trozos_sector b) \<Longrightarrow> trozos_sector b ! i = take 512 (drop (512 * i) b)"
proof (induction b arbitrary: i rule: trozos_sector.induct)
  case (1 b)
  then have b: "b \<noteq> []" using trozos_sector_len [of b] by auto
  then have t: "trozos_sector b = take 512 b # trozos_sector (drop 512 b)" by (subst trozos_sector.simps) (simp add: GPT_SECTOR_def)
  show ?case
  proof (cases i)
    case (Suc k)
    then show ?thesis using 1 b t by (simp add: GPT_SECTOR_def add.commute)
  qed (simp add: t)
qed

lemma concat_nth:
  assumes "\<And>i. i < n \<Longrightarrow> length (f i) = k" "q < n" "r < k"
  shows "concat (map f [0..<n]) ! (q * k + r) = f q ! r"
  using assms
proof (induction n)
  case (Suc n)
  have ln: "length (concat (map f [0..<m])) = m * k" if "m \<le> n" for m
    using that Suc.prems(1) by (induction m) auto
  show ?case
  proof (cases "q < n")
    case True
    have "q * k + r < n * k" using True Suc.prems(3) mult_le_mono1 [of "Suc q" n k] by simp
    then show ?thesis using Suc True ln [of n] by (simp add: nth_append)
  next
    case False
    then show ?thesis using Suc.prems ln [of n] by (simp add: nth_append less_Suc_eq)
  qed
qed simp

lemma length_concat_map: "(\<And>i. i < n \<Longrightarrow> length (f i) = k) \<Longrightarrow> length (concat (map f [0..<n])) = n * k"
  by (induction n) auto

lemma tabla_releida:
  assumes "n = (length es + 511) div 512"
  shows "take (length es) (concat (map (\<lambda>i. rellena (trozos_sector es ! i)) [0..<n])) = es"
proof -
  define f where "f = (\<lambda>i. rellena (trozos_sector es ! i))"
  have lt: "length (trozos_sector es) = n" using trozos_sector_len assms by simp
  have fi: "length (f i) = 512" if "i < n" for i
    using that trozos_sector_nth [of i es] lt by (simp add: f_def rellena_def GPT_SECTOR_def)
  have len: "length (concat (map f [0..<n])) = n * 512" using fi by (rule length_concat_map)
  have ge: "length es \<le> n * 512"
  proof -
    have "length es + 511 = (length es + 511) div 512 * 512 + (length es + 511) mod 512" by simp
    moreover have "(length es + 511) mod 512 \<le> 511" using mod_less_divisor [of 512 "length es + 511"] by linarith
    ultimately show ?thesis unfolding assms by linarith
  qed
  have "concat (map f [0..<n]) ! p = es ! p" if p: "p < length es" for p
  proof -
    have q: "p div 512 < n" using p ge by (simp add: div_less_iff_less_mult)
    have "concat (map f [0..<n]) ! (p div 512 * 512 + p mod 512) = f (p div 512) ! (p mod 512)"
      by (rule concat_nth [OF fi q]) simp_all
    moreover have "f (p div 512) ! (p mod 512) = es ! p"
    proof -
      have "p mod 512 < length es - 512 * (p div 512)" using p by (simp add: less_diff_conv)
      then show ?thesis using trozos_sector_nth [of "p div 512" es] q lt by (simp add: f_def rellena_def nth_append)
    qed
    ultimately show ?thesis by simp
  qed
  then have "take (length es) (concat (map f [0..<n])) = es" using len ge by (intro nth_equalityI) simp_all
  then show ?thesis by (simp add: f_def)
qed

text \<open>The sectors after the two copies of a table have been written.\<close>

definition con_tabla :: "bytes \<Rightarrow> nat \<Rightarrow> (nat \<Rightarrow> bytes) \<Rightarrow> nat \<Rightarrow> bytes" where
  "con_tabla es lba D = (\<lambda>x. if lba \<le> x \<and> x < lba + length (trozos_sector es) then rellena (trozos_sector es ! (x - lba)) else D x)"

lemma write_gpt_sectors_eq:
  assumes "sano d" "length (trozos_sector es) \<le> di_energia d" "unat lba + length (trozos_sector es) \<le> 2 ^ 64"
  shows "write_gpt_sectors d lba es = (True, d\<lparr>di_sec := con_tabla es (unat lba) (di_sec d), di_energia := di_energia d - length (trozos_sector es)\<rparr>)"
  using escribe_trozos_eq [OF assms(1), of "trozos_sector es" lba 0, unfolded add_0_right] assms(2,3) by (simp add: write_gpt_sectors_def con_tabla_def)

lemma escribe_gpt_eq:
  assumes d: "sano d" and e: "2 * length (trozos_sector es) + 2 \<le> di_energia d"
    and b: "unat (gp_backup_entries_lba plan) + length (trozos_sector es) \<le> unat (gp_backup_header_lba plan)"
    and p: "gp_primary_header_lba plan = 1" "gp_primary_entries_lba plan = 2" "length (trozos_sector es) < 2 ^ 33"
  shows "escribe_gpt d plan h es = (True, d\<lparr>di_sec := (con_tabla es 2 ((con_tabla es (unat (gp_backup_entries_lba plan)) (di_sec d))
      (unat (gp_backup_header_lba plan) := render_backup h es plan)))(1 := render_primary h es plan),
    di_energia := di_energia d - (2 * length (trozos_sector es) + 2)\<rparr>)"
proof -
  let ?n = "length (trozos_sector es)"
  define d1 where "d1 = d\<lparr>di_sec := con_tabla es (unat (gp_backup_entries_lba plan)) (di_sec d), di_energia := di_energia d - ?n\<rparr>"
  define d2 where "d2 = d1\<lparr>di_sec := (di_sec d1)(unat (gp_backup_header_lba plan) := render_backup h es plan), di_energia := di_energia d1 - 1\<rparr>"
  define d3 where "d3 = d2\<lparr>di_sec := con_tabla es 2 (di_sec d2), di_energia := di_energia d2 - ?n\<rparr>"
  have s: "sano d1" "sano d2" using d by (simp_all add: d1_def d2_def sano_def)
  have 1: "write_gpt_sectors d (gp_backup_entries_lba plan) es = (True, d1)"
    unfolding d1_def by (rule write_gpt_sectors_eq [OF d]) (use e b unsigned_less [of "gp_backup_header_lba plan", where 'a = nat] in simp_all)
  have 2: "write_sector d1 (gp_backup_header_lba plan) (render_backup h es plan) = (True, d2)"
    using e by (simp add: write_sector_def d2_def d1_def)
  have 3: "write_gpt_sectors d2 2 es = (True, d3)"
    using write_gpt_sectors_eq [OF s(2), of es 2] e p(3) by (simp add: d3_def) (simp add: d2_def d1_def)
  show ?thesis
    using 1 2 3 d e by (simp add: escribe_gpt_def p(1,2) write_sector_def) (simp add: d3_def d2_def d1_def disk_flush_def sano_def)
qed

lemma escribe_gpt_lee:
  assumes d: "sano d" and h: "header_ok h" "length es = entries_bytes h" "gh_entries_lba h = 2" "gh_my_lba h = 1" "gh_alternate_lba h = gp_backup_header_lba plan"
    and e: "2 * unat (entries_sectors h) + 2 \<le> di_energia d"
    and b: "primero_util h \<le> unat (gp_backup_entries_lba plan)" "unat (gp_backup_entries_lba plan) + unat (entries_sectors h) \<le> unat (gp_backup_header_lba plan)"
    and p: "gp_primary_header_lba plan = 1" "gp_primary_entries_lba plan = 2"
  obtains d' where "escribe_gpt d plan h es = (True, d')" "leer_tabla d' = Inr (h, es)" "sano d'" "di_diario d' = di_diario d"
    "di_energia d' = di_energia d - (2 * unat (entries_sectors h) + 2)"
    "\<And>x. primero_util h \<le> x \<Longrightarrow> x < unat (gp_backup_entries_lba plan) \<Longrightarrow> di_sec d' x = di_sec d x"
proof -
  have n: "length (trozos_sector es) = unat (entries_sectors h)" "unat (entries_sectors h) < 2 ^ 33" "0 < unat (entries_sectors h)"
    using entries_sectors_unat [OF h(1)] by (simp_all add: trozos_sector_len h(2))
  define d' where "d' = d\<lparr>di_sec := (con_tabla es 2 ((con_tabla es (unat (gp_backup_entries_lba plan)) (di_sec d))
      (unat (gp_backup_header_lba plan) := render_backup h es plan)))(1 := render_primary h es plan),
    di_energia := di_energia d - (2 * unat (entries_sectors h) + 2)\<rparr>"
  have w: "escribe_gpt d plan h es = (True, d')" unfolding d'_def using escribe_gpt_eq [OF d _ _ p, of es h] e b(2) n by simp
  have sd: "sano d'" using d by (simp add: d'_def sano_def)
  have r: "render_primary h es plan = header_render h es"
  proof -
    have "h\<lparr>gh_my_lba := 1, gh_alternate_lba := gp_backup_header_lba plan, gh_entries_lba := 2\<rparr> = h" using h(3-5) by (cases h) simp
    then show ?thesis by (simp add: render_primary_def p)
  qed
  have m: "map (\<lambda>i. di_sec d' (2 + i)) [0..<unat (entries_sectors h)] = map (\<lambda>i. rellena (trozos_sector es ! i)) [0..<unat (entries_sectors h)]"
    using n by (intro map_cong) (auto simp: d'_def con_tabla_def)
  have "es = take (entries_bytes h) (concat (map (\<lambda>i. di_sec d' (2 + i)) [0..<unat (entries_sectors h)]))"
    unfolding m using tabla_releida [of "unat (entries_sectors h)" es] n(1) h(2) by (simp add: trozos_sector_len)
  moreover have "header_parse (di_sec d' 1) = Inr h" using header_render_parse [OF h(1), of es] by (simp add: d'_def r)
  ultimately have "leer_tabla d' = Inr (h, es)" using leer_tabla_iff [OF sd, of h es] h(3) by blast
  then show thesis
    using that [OF w _ sd] b n by (simp add: d'_def con_tabla_def primero_util_def)
qed

section \<open>The new table\<close>

lemma entry_mut_geom:
  assumes h: "header_ok h" and p: "part es h i = Some (a, b)"
  shows "length (entry_mut h i (pon_geom x y) es) = length es" "length (entry_mut h i (set_entry_last_lba y) es) = length es"
    "part (entry_mut h i (pon_geom x y) es) h j = (if j = i then Some (unat x, unat y) else part es h j)"
    "part (entry_mut h i (set_entry_last_lba y) es) h j = (if j = i then Some (a, unat y) else part es h j)"
proof -
  obtain e where e: "gpt_entry es h i = Some e" "entry_used e" "a = unat (entry_first_lba e)"
    using p by (auto simp: part_def split: option.splits if_splits)
  note l = entrada_larga [OF h e(1)]
  have l1: "length (pon_geom x y e) = unat (gh_entry_size h)" "length (set_entry_last_lba y e) = unat (gh_entry_size h)"
    using l by (simp_all add: pon_geom_def set_entry_last_lba_def set_entry_first_lba_def)
  note m1 = entry_mut_entrada [of es h i e "pon_geom x y", OF e(1) l1(1)]
    and m2 = entry_mut_entrada [of es h i e "set_entry_last_lba y", OF e(1) l1(2)]
  show "length (entry_mut h i (pon_geom x y) es) = length es" "length (entry_mut h i (set_entry_last_lba y) es) = length es"
    using m1(1) m2(1) by simp_all
  show "part (entry_mut h i (pon_geom x y) es) h j = (if j = i then Some (unat x, unat y) else part es h j)"
    "part (entry_mut h i (set_entry_last_lba y) es) h j = (if j = i then Some (a, unat y) else part es h j)"
    using m1(2) [of j] m2(2) [of j] e l
    by (auto simp: part_def pon_geom_def set_entry_last_lba_def set_entry_first_lba_def entrada_campos)
qed

text \<open>The layout that the operation expects: root, models and installer, the last two behind the root in either
  order, anything else before the root, and the blocks asked for fit.\<close>

record layout =
  ly_root :: "nat \<times> nat"
  ly_models :: "nat \<times> nat"
  ly_install :: "nat \<times> nat"

definition disposicion :: "bytes \<Rightarrow> gpt_header \<Rightarrow> nat \<Rightarrow> layout \<Rightarrow> bool" where
  "disposicion es h delta l \<longleftrightarrow> (let (a2, b2) = ly_root l; (a3, b3) = ly_models l; (a4, b4) = ly_install l in
     3 < unat (gh_num_entries h) \<and> part es h 1 = Some (a2, b2) \<and> part es h 2 = Some (a3, b3) \<and> part es h 3 = Some (a4, b4) \<and>
     b2 < a3 \<and> b2 < a4 \<and> 0 < delta \<and> a3 + delta \<le> b3 \<and> b4 + delta \<le> ultimo_util h (unat (gh_alternate_lba h) + 1) \<and>
     (\<forall>i < unat (gh_num_entries h). i \<notin> {1, 2, 3} \<longrightarrow> (\<forall>a b. part es h i = Some (a, b) \<longrightarrow> b < a2)))"

definition desplazado :: "nat \<Rightarrow> layout \<Rightarrow> layout" where
  "desplazado delta l = \<lparr>ly_root = (fst (ly_root l), snd (ly_root l) + delta), ly_models = (fst (ly_models l) + delta, snd (ly_models l)),
     ly_install = (fst (ly_install l) + delta, snd (ly_install l) + delta)\<rparr>"

definition planeada :: "layout \<Rightarrow> (nat \<Rightarrow> (nat \<times> nat) option) \<Rightarrow> nat \<Rightarrow> (nat \<times> nat) option" where
  "planeada l P i = (if i = 1 then Some (ly_root l) else if i = 2 then Some (ly_models l) else if i = 3 then Some (ly_install l) else P i)"

lemma tabla_planeada:
  assumes t: "tabla_ok es h" and c: "cabe_tabla es h (unat (gh_alternate_lba h) + 1)" and dis: "disposicion es h delta l"
    and es': "entries_bytes h \<le> length es'" "\<And>j. j < unat (gh_num_entries h) \<Longrightarrow> part es' h j = planeada (desplazado delta l) (part es h) j"
  shows "tabla_ok es' h" "cabe_tabla es' h (unat (gh_alternate_lba h) + 1)"
proof -
  obtain a2 b2 a3 b3 a4 b4 where l: "ly_root l = (a2, b2)" "ly_models l = (a3, b3)" "ly_install l = (a4, b4)" by (metis surj_pair)
  let ?n = "unat (gh_num_entries h)" and ?u = "ultimo_util h (unat (gh_alternate_lba h) + 1)"
  have d: "3 < ?n" "part es h 1 = Some (a2, b2)" "part es h 2 = Some (a3, b3)" "part es h 3 = Some (a4, b4)" "b2 < a3" "b2 < a4" "0 < delta"
    "a3 + delta \<le> b3" "b4 + delta \<le> ?u" "\<And>i a b. i < ?n \<Longrightarrow> i \<notin> {1, 2, 3} \<Longrightarrow> part es h i = Some (a, b) \<Longrightarrow> b < a2"
    using dis unfolding disposicion_def l by auto
  have n: "1 < ?n" "2 < ?n" using d(1) by simp_all
  have o: "a2 \<le> b2" "a3 \<le> b3" "a4 \<le> b4" "b3 < a4 \<or> b4 < a3"
    using tabla_okD(1) [OF t n(1) d(2)] tabla_okD(1) [OF t n(2) d(3)] tabla_okD(1) [OF t d(1) d(4)] tabla_okD(2) [OF t n(2) d(3) d(1) _ d(4)] by auto
  have cb: "primero_util h \<le> a \<and> b \<le> ?u" if "i < ?n" "part es h i = Some (a, b)" for i a b using c that unfolding cabe_tabla_def by blast
  have P: "part es' h j = (if j = 1 then Some (a2, b2 + delta) else if j = 2 then Some (a3 + delta, b3) else if j = 3 then Some (a4 + delta, b4 + delta) else part es h j)"
    if "j < ?n" for j using es'(2) [OF that] by (simp add: planeada_def desplazado_def l)
  show "cabe_tabla es' h (unat (gh_alternate_lba h) + 1)"
    unfolding cabe_tabla_def using P cb [OF n(1) d(2)] cb [OF n(2) d(3)] cb [OF d(1) d(4)] cb d(5-9) o by (auto split: if_splits)
  have otros: "b < a2 \<and> a \<le> b" if "i < ?n" "i \<notin> {1, 2, 3}" "part es h i = Some (a, b)" for i a b
    using d(10) [OF that] tabla_okD(1) [OF t that(1,3)] by simp
  show "tabla_ok es' h"
  proof (rule tabla_okI [OF _ es'(1)])
    show "header_ok h" using t by (simp add: tabla_ok_def)
    fix i a b assume i: "i < ?n" "part es' h i = Some (a, b)"
    show "a \<le> b" using i P [OF i(1)] otros [OF i(1)] d(5-8) o by (auto split: if_splits)
    fix j x y assume j: "j < ?n" "j \<noteq> i" "part es' h j = Some (x, y)"
    show "b < x \<or> y < a"
      using i j P [OF i(1)] P [OF j(1)] otros [OF i(1)] otros [OF j(1)] tabla_okD(2) [OF t i(1) _ j(1,2)] d(5-8) o
      by (fastforce split: if_splits)
  qed
qed

abbreviation geom_de :: "nat \<times> nat \<Rightarrow> part_geom" where
  "geom_de p \<equiv> \<lparr>pg_first = of_nat (fst p), pg_last = of_nat (snd p), pg_sectors = of_nat (snd p - fst p + 1)\<rparr>"

lemma poner_tres:
  assumes h: "header_ok h" and p: "part es h 1 = Some (a, b)" "part es h p = Some x" "part es h q = Some y" "distinct [1, p, q]"
  shows "length (entry_mut h p (pon_geom u v) (entry_mut h q (pon_geom w z) (entry_mut h 1 (set_entry_last_lba r) es))) = length es"
    "part (entry_mut h p (pon_geom u v) (entry_mut h q (pon_geom w z) (entry_mut h 1 (set_entry_last_lba r) es))) h j =
       (if j = 1 then Some (a, unat r) else if j = p then Some (unat u, unat v) else if j = q then Some (unat w, unat z) else part es h j)"
proof -
  define e1 where "e1 = entry_mut h 1 (set_entry_last_lba r) es"
  have 1: "length e1 = length es" "part e1 h j = (if j = 1 then Some (a, unat r) else part es h j)" for j
    using entry_mut_geom(2,4) [OF h p(1), of r] by (simp_all add: e1_def)
  define e2 where "e2 = entry_mut h q (pon_geom w z) e1"
  have 2: "length e2 = length es" "part e2 h j = (if j = q then Some (unat w, unat z) else part e1 h j)" for j
    using entry_mut_geom(1,3) [OF h, of e1 q "fst y" "snd y" w z] p(3,4) 1 by (simp_all add: e2_def)
  show "length (entry_mut h p (pon_geom u v) (entry_mut h q (pon_geom w z) (entry_mut h 1 (set_entry_last_lba r) es))) = length es"
    "part (entry_mut h p (pon_geom u v) (entry_mut h q (pon_geom w z) (entry_mut h 1 (set_entry_last_lba r) es))) h j =
       (if j = 1 then Some (a, unat r) else if j = p then Some (unat u, unat v) else if j = q then Some (unat w, unat z) else part es h j)"
    unfolding e1_def [symmetric] e2_def [symmetric]
    using entry_mut_geom(1,3) [OF h, of e2 p "fst x" "snd x" u v] p(2,4) 1 2 by simp_all
qed

text \<open>The facts of a layout, and that its addresses do not wrap.\<close>

lemma disposicionD:
  assumes g: "gpt_en d h es" and dis: "disposicion es h (unat delta) l" and l: "l = \<lparr>ly_root = (a2, b2), ly_models = (a3, b3), ly_install = (a4, b4)\<rparr>"
    and u: "u = ultimo_util h (unat (gh_alternate_lba h) + 1)"
  shows "3 < unat (gh_num_entries h)" "part es h 1 = Some (a2, b2)" "part es h 2 = Some (a3, b3)" "part es h 3 = Some (a4, b4)"
    "a2 \<le> b2" "b2 < a3" "a3 + unat delta \<le> b3" "b3 \<le> u" "b2 < a4" "a4 \<le> b4" "b4 + unat delta \<le> u" "u < 2 ^ 64" "0 < unat delta" "primero_util h \<le> a2"
    "b3 < a4 \<or> b4 < a3" "i < unat (gh_num_entries h) \<Longrightarrow> i \<notin> {1, 2, 3} \<Longrightarrow> part es h i = Some (x, y) \<Longrightarrow> y < a2"
proof -
  have t: "tabla_ok es h" and cb: "cabe_tabla es h (unat (gh_alternate_lba h) + 1)" and alt: "unat (gh_alternate_lba h) + 1 < 2 ^ 64"
    using g by (auto simp: gpt_en_def)
  show d: "3 < unat (gh_num_entries h)" "part es h 1 = Some (a2, b2)" "part es h 2 = Some (a3, b3)" "part es h 3 = Some (a4, b4)"
    "b2 < a3" "a3 + unat delta \<le> b3" "b2 < a4" "b4 + unat delta \<le> u" "0 < unat delta"
    "i < unat (gh_num_entries h) \<Longrightarrow> i \<notin> {1, 2, 3} \<Longrightarrow> part es h i = Some (x, y) \<Longrightarrow> y < a2"
    using dis unfolding disposicion_def l u by auto
  have n: "1 < unat (gh_num_entries h)" "2 < unat (gh_num_entries h)" using d(1) by simp_all
  show "a2 \<le> b2" "a4 \<le> b4" "b3 < a4 \<or> b4 < a3"
    using tabla_okD(1) [OF t n(1) d(2)] tabla_okD(1) [OF t d(1) d(4)] tabla_okD(2) [OF t n(2) d(3) d(1) _ d(4)] by auto
  show "b3 \<le> u" "primero_util h \<le> a2" using cb n d(2,3) unfolding cabe_tabla_def u by blast+
  show "u < 2 ^ 64" using alt by (simp add: u ultimo_util_def)
qed

lemma disposicion_palabras:
  assumes g: "gpt_en d h es" and dis: "disposicion es h (unat delta) l" and l: "l = \<lparr>ly_root = (a2, b2), ly_models = (a3, b3), ly_install = (a4, b4)\<rparr>"
  shows "unat (of_nat b2 + delta :: u64) = b2 + unat delta" "unat (of_nat a3 + delta :: u64) = a3 + unat delta" "unat (of_nat b3 :: u64) = b3"
    "unat (of_nat a4 + delta :: u64) = a4 + unat delta" "unat (of_nat b4 + delta :: u64) = b4 + unat delta" "unat (of_nat a3 :: u64) = a3" "unat (of_nat a4 :: u64) = a4"
    "unat (gh_alternate_lba h + 1) = unat (gh_alternate_lba h) + 1"
proof -
  note D = disposicionD [OF g dis l refl]
  have alt: "unat (gh_alternate_lba h) + 1 < 2 ^ 64" using g by (simp add: gpt_en_def)
  show "unat (of_nat b2 + delta :: u64) = b2 + unat delta" "unat (of_nat a3 + delta :: u64) = a3 + unat delta" "unat (of_nat b3 :: u64) = b3"
    "unat (of_nat a4 + delta :: u64) = a4 + unat delta" "unat (of_nat b4 + delta :: u64) = b4 + unat delta" "unat (of_nat a3 :: u64) = a3" "unat (of_nat a4 :: u64) = a4"
    using D(5-12) by (simp_all add: unat_word_ariths unat_of_nat)
  show "unat (gh_alternate_lba h + 1) = unat (gh_alternate_lba h) + 1" using alt by (simp add: unat_word_ariths)
qed

lemma entry_mut_cong: "gh_entry_size h' = gh_entry_size h \<Longrightarrow> entry_mut h' = entry_mut h"
  by (simp add: fun_eq_iff entry_mut_def gpt_entry_def split: option.split)

lemma ultima_detras:
  assumes "entries_bytes h \<le> length es" "k < unat (gh_num_entries h)" "part es h k = Some (x, y)" "\<And>a b. part es h j = Some (a, b) \<Longrightarrow> b < y"
  shows "last_used es h \<noteq> Some j"
  using last_used_max(1) [OF assms(1), of j] assms(2-4) by fastforce

lemma tabla_nueva_bien:
  assumes g: "gpt_en d h es" and dis: "disposicion es h (unat delta) l"
  obtains plan h' es' where "tabla_nueva h es (gh_alternate_lba h + 1) delta (geom_de (ly_root l)) (geom_de (ly_models l)) (geom_de (ly_install l)) = Inr (plan, h', es')"
    "h' = h\<lparr>gh_my_lba := 1, gh_entries_lba := 2, gh_first_usable := of_nat (primero_util h), gh_last_usable := of_nat (ultimo_util h (unat (gh_alternate_lba h) + 1))\<rparr>"
    "plan = \<lparr>gp_primary_header_lba = 1, gp_primary_entries_lba = 2, gp_backup_entries_lba = gh_alternate_lba h - entries_sectors h,
        gp_backup_header_lba = gh_alternate_lba h, gp_entries_sectors = entries_sectors h\<rparr>"
    "length es' = length es" "\<And>j. j < unat (gh_num_entries h) \<Longrightarrow> part es' h j = planeada (desplazado (unat delta) l) (part es h) j"
proof -
  obtain a2 b2 a3 b3 a4 b4 where l: "l = \<lparr>ly_root = (a2, b2), ly_models = (a3, b3), ly_install = (a4, b4)\<rparr>" by (metis layout.cases surj_pair)
  have t: "tabla_ok es h" and ln: "length es = entries_bytes h" and cb: "cabe_tabla es h (unat (gh_alternate_lba h) + 1)"
    and pu: "primero_util h < ultimo_util h (unat (gh_alternate_lba h) + 1)" and h: "header_ok h" using g by (auto simp: gpt_en_def tabla_ok_def)
  note D = disposicionD [OF g dis l refl] and w = disposicion_palabras [OF g dis l]
  let ?N = "gh_alternate_lba h + 1" and ?P = "planeada (desplazado (unat delta) l) (part es h)"
  let ?raiz = "set_entry_last_lba (of_nat b2 + delta)" and ?mod = "pon_geom (of_nat a3 + delta) (of_nat b3)" and ?ins = "pon_geom (of_nat a4 + delta) (of_nat b4 + delta)"
  define es1 where "es1 = entry_mut h 2 ?mod (entry_mut h 3 ?ins (entry_mut h 1 ?raiz es))"
  have P1: "part es1 h j = ?P j" "length es1 = length es" for j
    using poner_tres [OF h D(2), of 2 "(a3, b3)" 3 "(a4, b4)"] D(3,4) w unfolding es1_def by (simp_all add: planeada_def desplazado_def l)
  have t1: "tabla_ok es1 h" "cabe_tabla es1 h (unat ?N)" using tabla_planeada [OF t cb dis, of es1] P1 ln w(8) by simp_all
  define h' where "h' = h\<lparr>gh_my_lba := 1, gh_entries_lba := 2, gh_first_usable := of_nat (primero_util h), gh_last_usable := of_nat (ultimo_util h (unat (gh_alternate_lba h) + 1))\<rparr>"
  define plan where "plan = \<lparr>gp_primary_header_lba = 1, gp_primary_entries_lba = 2, gp_backup_entries_lba = gh_alternate_lba h - entries_sectors h,
        gp_backup_header_lba = gh_alternate_lba h, gp_entries_sectors = entries_sectors h\<rparr>"
  define es2 where "es2 = relayout_tabla h es1 ?N"
  have hh: "h\<lparr>gh_my_lba := 1, gh_alternate_lba := gh_alternate_lba h, gh_entries_lba := 2, gh_first_usable := x, gh_last_usable := y\<rparr> =
    h\<lparr>gh_my_lba := 1, gh_entries_lba := 2, gh_first_usable := x, gh_last_usable := y\<rparr>" for x y by (cases h) simp
  have r: "relayout h es1 ?N = Inr (plan, h', es2)"
    using relayout_eq [OF h, of es1 ?N] t1 P1(2) ln pu by (simp add: w(8) h'_def plan_def es2_def hh)
  note R = relayout_tabla_part [OF t1, folded es2_def]
  have P2: "part es2 h j = ?P j" if j: "j < unat (gh_num_entries h)" "j \<notin> {1, 2, 3}" for j
  proof -
    have "last_used es1 h \<noteq> Some j"
    proof (rule ultima_detras)
      show "entries_bytes h \<le> length es1" "2 < unat (gh_num_entries h)" using P1(2) ln D(1) by simp_all
      show "part es1 h 2 = Some (a3 + unat delta, b3)" using P1(1) [of 2] by (simp add: planeada_def desplazado_def l)
      fix a b assume "part es1 h j = Some (a, b)"
      then have "part es h j = Some (a, b)" using P1(1) [of j] j(2) by (simp add: planeada_def)
      then show "b < b3" using D(16) [OF j] D(5-7) by fastforce
    qed
    then show ?thesis using R(2) P1(1) by simp
  qed
  have U: "\<exists>y. part es2 h 1 = Some (a2, y)" "\<exists>x. part es2 h 2 = Some x" "\<exists>x. part es2 h 3 = Some x"
    using R(2) [of 1] R(2) [of 2] R(2) [of 3] P1(1) [of 1] P1(1) [of 2] P1(1) [of 3] by (auto simp: planeada_def desplazado_def l split: if_splits)
  define es3 where "es3 = entry_mut h' 3 ?ins (entry_mut h' 2 ?mod (entry_mut h' 1 ?raiz es2))"
  have em: "entry_mut h' = entry_mut h" by (rule entry_mut_cong) (simp add: h'_def)
  obtain y x2 x3 where U': "part es2 h 1 = Some (a2, y)" "part es2 h 2 = Some x2" "part es2 h 3 = Some x3" using U by blast
  have P3: "length es3 = length es" "part es3 h j = ?P j" if "j < unat (gh_num_entries h)" for j
    using poner_tres [OF h U'(1), of 3 x3 2 x2] U'(2,3) w R(1) P1(2) P2 [OF that] unfolding es3_def em by (auto simp: planeada_def desplazado_def l)
  have "tabla_nueva h es ?N delta (geom_de (ly_root l)) (geom_de (ly_models l)) (geom_de (ly_install l)) = Inr (plan, h', es3)"
    using r by (simp add: tabla_nueva_def Let_def l GPT_ROOT_def GPT_MODELS_def GPT_INSTALL_def es1_def es3_def)
  then show thesis using that [OF _ h'_def plan_def] P3 D(1) by blast
qed

lemma write_gpt_update_bien:
  assumes g: "gpt_en d h es" and dis: "disposicion es h (unat delta) l" and e: "2 * unat (entries_sectors h) + 2 \<le> di_energia d"
  obtains d' h' es' where "write_gpt_update d delta (geom_de (ly_root l)) (geom_de (ly_models l)) (geom_de (ly_install l)) = (Inr (), d')"
    "gpt_en d' h' es'" "gh_num_entries h' = gh_num_entries h" "gh_alternate_lba h' = gh_alternate_lba h"
    "\<And>j. j < unat (gh_num_entries h) \<Longrightarrow> part es' h' j = planeada (desplazado (unat delta) l) (part es h) j"
    "\<And>x. primero_util h \<le> x \<Longrightarrow> x \<le> ultimo_util h (unat (gh_alternate_lba h) + 1) \<Longrightarrow> di_sec d' x = di_sec d x"
    "di_energia d' = di_energia d - (2 * unat (entries_sectors h) + 2)" "entries_sectors h' = entries_sectors h" "di_diario d' = di_diario d"
proof -
  have t: "tabla_ok es h" and ln: "length es = entries_bytes h" and cb: "cabe_tabla es h (unat (gh_alternate_lba h) + 1)" and sd: "sano d"
    and pu: "primero_util h < ultimo_util h (unat (gh_alternate_lba h) + 1)" and h: "header_ok h" and lt: "leer_tabla d = Inr (h, es)"
    using g by (auto simp: gpt_en_def tabla_ok_def)
  obtain plan h' es' where n: "tabla_nueva h es (gh_alternate_lba h + 1) delta (geom_de (ly_root l)) (geom_de (ly_models l)) (geom_de (ly_install l)) = Inr (plan, h', es')"
    and h': "h' = h\<lparr>gh_my_lba := 1, gh_entries_lba := 2, gh_first_usable := of_nat (primero_util h), gh_last_usable := of_nat (ultimo_util h (unat (gh_alternate_lba h) + 1))\<rparr>"
    and plan: "plan = \<lparr>gp_primary_header_lba = 1, gp_primary_entries_lba = 2, gp_backup_entries_lba = gh_alternate_lba h - entries_sectors h,
        gp_backup_header_lba = gh_alternate_lba h, gp_entries_sectors = entries_sectors h\<rparr>"
    and p: "length es' = length es" "\<And>j. j < unat (gh_num_entries h) \<Longrightarrow> part es' h j = planeada (desplazado (unat delta) l) (part es h) j"
    using tabla_nueva_bien [OF g dis] by metis
  have same: "gh_entry_size h' = gh_entry_size h" "gh_num_entries h' = gh_num_entries h" "header_ok h' = header_ok h"
    "gh_alternate_lba h' = gh_alternate_lba h" "gh_entries_lba h' = 2" "gh_my_lba h' = 1" by (simp_all add: h')
  have es: "entries_sectors h' = entries_sectors h" "entries_bytes h' = entries_bytes h" "primero_util h' = primero_util h" "ultimo_util h' = ultimo_util h"
    by (simp_all add: entries_sectors_def entries_bytes_def primero_util_def ultimo_util_def fun_eq_iff h')
  have ds: "disk_sectors d = Inr (gh_alternate_lba h + 1)" using lt by (auto simp: disk_sectors_def leer_tabla_def)
  have b: "unat (gh_alternate_lba h - entries_sectors h) = unat (gh_alternate_lba h) - unat (entries_sectors h)"
    "primero_util h \<le> unat (gh_alternate_lba h) - unat (entries_sectors h)" "ultimo_util h (unat (gh_alternate_lba h) + 1) < unat (gh_alternate_lba h) - unat (entries_sectors h)"
    using pu by (auto simp: ultimo_util_def unat_sub_if')
  obtain d' where w: "escribe_gpt d plan h' es' = (True, d')" "leer_tabla d' = Inr (h', es')" "sano d'" "di_diario d' = di_diario d" "di_energia d' = di_energia d - (2 * unat (entries_sectors h') + 2)"
    "\<And>x. primero_util h' \<le> x \<Longrightarrow> x < unat (gp_backup_entries_lba plan) \<Longrightarrow> di_sec d' x = di_sec d x"
    by (rule escribe_gpt_lee [OF sd, of h' es' plan]) (use h p(1) ln same es e b in \<open>simp_all add: plan\<close>)
  have ok: "tabla_ok es' h" "cabe_tabla es' h (unat (gh_alternate_lba h) + 1)" using tabla_planeada [OF t cb dis, of es'] p ln by simp_all
  have "gpt_en d' h' es'"
    using g w(2,3) ok tabla_ok_cong [OF same(1-3)] p(1) same es by (simp add: gpt_en_def)
  moreover have "write_gpt_update d delta (geom_de (ly_root l)) (geom_de (ly_models l)) (geom_de (ly_install l)) = (Inr (), d')"
    using lt ds n w(1) by (simp add: write_gpt_update_def)
  ultimately show thesis
    using that [of d' h' es'] p(2) part_cong [OF same(1)] same es w(4-6) b by (simp add: plan)
qed

section \<open>A whole run\<close>

lemma fase_slide_bien:
  assumes d: "sano d" "unat n + 2 \<le> di_energia d" and s: "unat src + unat delta + unat n \<le> 2 ^ 64" "delta \<noteq> 0" "n \<noteq> 0"
    and b: "phase_before (rj_phase j) fase"
  obtains d' where "fase_slide fase src delta n j d = (Inr (), j\<lparr>rj_phase := fase, rj_slide_done := n\<rparr>, d')" "sano d'"
    "di_sec d' = copiado (di_sec d) (unat src) (unat src + unat delta) (unat n) (unat n)" "di_energia d' = di_energia d - (unat n + 2)"
proof -
  let ?j = "j\<lparr>rj_phase := fase, rj_slide_done := 0\<rparr>"
  define d1 where "d1 = d\<lparr>di_diario := re_encode ?j, di_energia := di_energia d - 1\<rparr>"
  define d2 where "d2 = d1\<lparr>di_sec := copiado (di_sec d) (unat src) (unat src + unat delta) (unat n) (unat n), di_energia := di_energia d1 - unat n\<rparr>"
  define d3 where "d3 = d2\<lparr>di_diario := re_encode (j\<lparr>rj_phase := fase, rj_slide_done := n\<rparr>), di_energia := di_energia d2 - 1\<rparr>"
  have sd: "sano d1" "sano d2" "sano d3" using d(1) by (simp_all add: sano_def d1_def d2_def d3_def)
  have p: "0 < unat delta" "0 < unat n" using s(2,3) by (simp_all add: unat_gt_0)
  have u: "unat (src + delta) = unat src + unat delta" using s(1) p by (simp add: unat_word_ariths)
  have sl: "slide_sectors d1 src (src + delta) n 0 = (Inr (), n, d2)"
    using slide_sectors_copia [of src "src + delta" n 0 d1 "di_sec d" "unat n"] s p u sd(1) d(2) by (simp add: d2_def) (simp add: d1_def)
  have "journal_write ?j d = (True, d1)" "journal_write (j\<lparr>rj_phase := fase, rj_slide_done := n\<rparr>) d2 = (True, d3)"
    using d by (simp_all add: journal_write_def sano_def d1_def d2_def d3_def)
  then have "fase_slide fase src delta n j d = (Inr (), j\<lparr>rj_phase := fase, rj_slide_done := n\<rparr>, d3)"
    using b sl by (simp add: fase_slide_def Let_def)
  then show thesis using that [of d3] sd(3) by (simp add: d3_def d2_def d1_def)
qed

lemma gpt_en_cong:
  assumes "gpt_en d h es" "sano d'" "\<And>x. x < primero_util h \<Longrightarrow> di_sec d' x = di_sec d x"
  shows "gpt_en d' h es"
  using assms leer_tabla_cong [of d d' h es] by (simp add: gpt_en_def)

lemma u64_de: "x < 2 ^ 64 \<Longrightarrow> unat (of_nat x :: u64) = x"
  by (simp add: unat_of_nat)

lemma fase_gpt_bien:
  assumes g: "gpt_en d h es" and dis: "disposicion es h (unat delta) l" and e: "2 * unat (entries_sectors h) + 3 \<le> di_energia d"
    and j: "j' = j\<lparr>rj_phase := JOURNAL_GPT, rj_slide_done := 0\<rparr>"
  obtains d' h' es' where "fase_gpt delta (geom_de (ly_root l)) (geom_de (ly_models l)) (geom_de (ly_install l)) j d = (Inr (), j', d')"
    "gpt_en d' h' es'" "gh_num_entries h' = gh_num_entries h" "gh_alternate_lba h' = gh_alternate_lba h" "entries_sectors h' = entries_sectors h"
    "\<And>i. i < unat (gh_num_entries h) \<Longrightarrow> part es' h' i = planeada (desplazado (unat delta) l) (part es h) i"
    "\<And>x. primero_util h \<le> x \<Longrightarrow> x \<le> ultimo_util h (unat (gh_alternate_lba h) + 1) \<Longrightarrow> di_sec d' x = di_sec d x"
    "di_energia d' = di_energia d - (2 * unat (entries_sectors h) + 3)" "di_diario d' = re_encode j'"
proof -
  define d1 where "d1 = d\<lparr>di_diario := re_encode j', di_energia := di_energia d - 1\<rparr>"
  have s: "sano d1" "on_progress j' d = d1" using g e by (auto simp: d1_def gpt_en_def sano_def journal_write_def)
  have g1: "gpt_en d1 h es" by (rule gpt_en_cong [OF g s(1)]) (simp add: d1_def)
  have e1: "2 * unat (entries_sectors h) + 2 \<le> di_energia d1" using e by (simp add: d1_def)
  show thesis
  proof (rule write_gpt_update_bien [OF g1 dis e1])
    fix d2 h' es'
    assume w: "write_gpt_update d1 delta (geom_de (ly_root l)) (geom_de (ly_models l)) (geom_de (ly_install l)) = (Inr (), d2)"
      "gpt_en d2 h' es'" "gh_num_entries h' = gh_num_entries h" "gh_alternate_lba h' = gh_alternate_lba h"
      "\<And>i. i < unat (gh_num_entries h) \<Longrightarrow> part es' h' i = planeada (desplazado (unat delta) l) (part es h) i"
      "\<And>x. primero_util h \<le> x \<Longrightarrow> x \<le> ultimo_util h (unat (gh_alternate_lba h) + 1) \<Longrightarrow> di_sec d2 x = di_sec d1 x"
      "di_energia d2 = di_energia d1 - (2 * unat (entries_sectors h) + 2)" "entries_sectors h' = entries_sectors h" "di_diario d2 = di_diario d1"
    have f: "fase_gpt delta (geom_de (ly_root l)) (geom_de (ly_models l)) (geom_de (ly_install l)) j d = (Inr (), j', d2)"
      using w(1) s(2) by (simp add: fase_gpt_def Let_def j)
    show thesis by (rule that [OF f w(2-4,8,5)]) (use w(6,7,9) e in \<open>simp_all add: d1_def\<close>)
  qed
qed

text \<open>The two slides one after the other.\<close>

lemma dos_slides:
  assumes "b2 < a3" "b2 < a4" "a3 + k \<le> b3" "a4 \<le> b4" "b3 < a4 \<or> b4 < a3" "n3 = b3 - a3 + 1 - k" "n4 = b4 - a4 + 1"
    and S: "S = copiado (copiado D a3 (a3 + k) n3 n3) a4 (a4 + k) n4 n4"
  shows "a3 + k \<le> x \<Longrightarrow> x \<le> b3 \<Longrightarrow> S x = D (x - k)" "a4 + k \<le> x \<Longrightarrow> x \<le> b4 + k \<Longrightarrow> S x = D (x - k)" "x \<le> b2 \<Longrightarrow> S x = D x"
proof -
  show "x \<le> b2 \<Longrightarrow> S x = D x" using assms by (simp add: copiado_def)
  show "S x = D (x - k)" if "a3 + k \<le> x" "x \<le> b3"
  proof -
    have "a3 + (x - (a3 + k)) = x - k" using that by simp
    then show ?thesis using assms that by (auto simp: copiado_def)
  qed
  show "S x = D (x - k)" if "a4 + k \<le> x" "x \<le> b4 + k"
  proof -
    have "a4 + (x - (a4 + k)) = x - k" using that by simp
    then show ?thesis using assms that by (auto simp: copiado_def)
  qed
qed

lemma fases_orden:
  "phase_at_most JOURNAL_SHRINK_MODELS JOURNAL_SLIDE_P3" "phase_before JOURNAL_SHRINK_MODELS JOURNAL_SLIDE_P3"
  "phase_at_most JOURNAL_SLIDE_P3 JOURNAL_SLIDE_P4" "phase_before JOURNAL_SLIDE_P3 JOURNAL_SLIDE_P4" "phase_at_most JOURNAL_SLIDE_P4 JOURNAL_GPT"
  by (simp_all add: phase_at_most_def phase_before_def phase_rank_def fases)

lemma leer_tres:
  assumes g: "gpt_en d h es" and dis: "disposicion es h (unat delta) l" and l: "l = \<lparr>ly_root = (a2, b2), ly_models = (a3, b3), ly_install = (a4, b4)\<rparr>"
  shows "res_bind (read_part d GPT_ROOT) (\<lambda>p2. res_bind (read_part d GPT_MODELS) (\<lambda>p3.
           res_bind (read_part d GPT_INSTALL) (\<lambda>p4. Inr (p2, p3, p4)))) = Inr (geom_de (a2, b2), geom_de (a3, b3), geom_de (a4, b4))"
proof -
  note D = disposicionD [OF g dis l refl]
  have lt: "leer_tabla d = Inr (h, es)" using g by (simp add: gpt_en_def)
  show ?thesis
    using read_part_eq [OF lt D(2)] read_part_eq [OF lt D(3)] read_part_eq [OF lt D(4)] D(5,7,10)
    by (simp add: GPT_ROOT_def GPT_MODELS_def GPT_INSTALL_def)
qed

text \<open>C23 (\<open>apply_gpt_and_slides\<close>): with enough power for the whole operation, a disk with the expected layout ends with a valid table in
  which the root has grown by the blocks asked for, the models have lost them and the installer has moved; nothing overlaps;
  every sector of the models that remains and every sector of the installer is found at its new place; the root and
  everything before it is untouched; and the journal says that nothing is pending.\<close>

theorem redimension_completa:
  assumes g: "gpt_en d h es" and dis: "disposicion es h (unat delta) l" and j: "rj_phase j = JOURNAL_SHRINK_MODELS"
    and l: "l = \<lparr>ly_root = (a2, b2), ly_models = (a3, b3), ly_install = (a4, b4)\<rparr>"
    and e: "b3 - a3 + (b4 - a4) + 2 * unat (entries_sectors h) + 10 \<le> di_energia d"
    and run: "apply_gpt_and_slides delta j d = (r, j', d')"
  shows "r = Inr () \<and> re_decode (di_diario d') = Inr (j\<lparr>rj_phase := JOURNAL_IDLE, rj_slide_done := 0\<rparr>) \<and>
    (\<exists>h' es'. gpt_en d' h' es' \<and> part es' h' 1 = Some (a2, b2 + unat delta) \<and> part es' h' 2 = Some (a3 + unat delta, b3) \<and>
       part es' h' 3 = Some (a4 + unat delta, b4 + unat delta)) \<and>
    (\<forall>x. a3 + unat delta \<le> x \<and> x \<le> b3 \<longrightarrow> di_sec d' x = di_sec d (x - unat delta)) \<and>
    (\<forall>x. a4 + unat delta \<le> x \<and> x \<le> b4 + unat delta \<longrightarrow> di_sec d' x = di_sec d (x - unat delta)) \<and>
    (\<forall>x. primero_util h \<le> x \<and> x \<le> b2 \<longrightarrow> di_sec d' x = di_sec d x)"
proof -
  note D = disposicionD [OF g dis l refl] and W = disposicion_palabras [OF g dis l]
  have sd: "sano d" using g by (simp add: gpt_en_def)
  define n3 n4 where "n3 = (of_nat (b3 - a3 + 1 - unat delta) :: u64)" and "n4 = (of_nat (b4 - a4 + 1) :: u64)"
  have n: "unat n3 = b3 - a3 + 1 - unat delta" "unat n4 = b4 - a4 + 1" unfolding n3_def n4_def by (rule u64_de, use D(7,8,10-13) in linarith)+
  have nz: "n3 \<noteq> 0" "n4 \<noteq> 0" "delta \<noteq> 0" using n D(7,13) by auto
  have "unat (of_nat (b3 - a3 + 1) :: u64) = b3 - a3 + 1" by (rule u64_de) (use D(6-8,12,13) in linarith)
  then have sub: "sat_sub (of_nat (b3 - a3 + 1)) delta = n3" by (simp add: word_unat_eq_iff unat_sat_sub n(1) del: of_nat_add of_nat_diff)
  let ?j3 = "j\<lparr>rj_phase := JOURNAL_SLIDE_P3, rj_slide_done := n3\<rparr>" and ?j4 = "j\<lparr>rj_phase := JOURNAL_SLIDE_P4, rj_slide_done := n4\<rparr>"
    and ?j5 = "j\<lparr>rj_phase := JOURNAL_GPT, rj_slide_done := 0\<rparr>" and ?j6 = "j\<lparr>rj_phase := JOURNAL_IDLE, rj_slide_done := 0\<rparr>"
  obtain d1 where d1: "fase_slide JOURNAL_SLIDE_P3 (of_nat a3) delta n3 j d = (Inr (), ?j3, d1)" "sano d1"
    "di_sec d1 = copiado (di_sec d) a3 (a3 + unat delta) (unat n3) (unat n3)" "di_energia d1 = di_energia d - (unat n3 + 2)"
    by (rule fase_slide_bien [OF sd, of n3 "of_nat a3" delta j JOURNAL_SLIDE_P3]) (use e n nz W(6) D(7,8,12) j fases_orden in auto)
  obtain d2 where d2: "fase_slide JOURNAL_SLIDE_P4 (of_nat a4) delta n4 ?j3 d1 = (Inr (), ?j4, d2)" "sano d2"
    "di_sec d2 = copiado (di_sec d1) a4 (a4 + unat delta) (unat n4) (unat n4)" "di_energia d2 = di_energia d1 - (unat n4 + 2)"
    by (rule fase_slide_bien [OF d1(2), of n4 "of_nat a4" delta ?j3 JOURNAL_SLIDE_P4]) (use e n nz W(7) D(7-12) d1(4) fases_orden in auto)
  have S: "di_sec d2 = copiado (copiado (di_sec d) a3 (a3 + unat delta) (unat n3) (unat n3)) a4 (a4 + unat delta) (unat n4) (unat n4)"
    by (simp add: d2(3) d1(3))
  note M = dos_slides [OF D(6,9,7,10,15) n S]
  have e2: "2 * unat (entries_sectors h) + 4 \<le> di_energia d2" using e n D(7,10,13) d1(4) d2(4) by simp
  have g2: "gpt_en d2 h es" by (rule gpt_en_cong [OF g d2(2) M(3)]) (use D(5,14) in simp)
  have e2': "2 * unat (entries_sectors h) + 3 \<le> di_energia d2" using e2 by simp
  have jj: "?j5 = ?j4\<lparr>rj_phase := JOURNAL_GPT, rj_slide_done := 0\<rparr>" by simp
  obtain d4 h' es' where w: "fase_gpt delta (geom_de (ly_root l)) (geom_de (ly_models l)) (geom_de (ly_install l)) ?j4 d2 = (Inr (), ?j5, d4)" "gpt_en d4 h' es'"
    "gh_num_entries h' = gh_num_entries h" "gh_alternate_lba h' = gh_alternate_lba h" "entries_sectors h' = entries_sectors h"
    "\<And>i. i < unat (gh_num_entries h) \<Longrightarrow> part es' h' i = planeada (desplazado (unat delta) l) (part es h) i"
    "\<And>x. primero_util h \<le> x \<Longrightarrow> x \<le> ultimo_util h (unat (gh_alternate_lba h) + 1) \<Longrightarrow> di_sec d4 x = di_sec d2 x"
    "di_energia d4 = di_energia d2 - (2 * unat (entries_sectors h) + 3)" "di_diario d4 = re_encode ?j5"
    by (rule fase_gpt_bien [OF g2 dis e2' jj]) (rule that)
  define d5 where "d5 = d4\<lparr>di_diario := re_encode ?j6, di_energia := di_energia d4 - 1\<rparr>"
  have s5: "sano d5" "on_progress ?j6 d4 = d5" using w(2,8) e2 by (auto simp: d5_def sano_def journal_write_def gpt_en_def)
  have g5: "gpt_en d5 h' es'" by (rule gpt_en_cong [OF w(2) s5(1)]) (simp add: d5_def)
  have p4: "0 < pg_sectors (geom_de (a4, b4))" using nz(2) by (simp add: n4_def word_gt_0 del: of_nat_add of_nat_diff)
  have n4s: "1 + of_nat (b4 - a4) = n4" by (simp add: n4_def del: of_nat_diff)
  have "apply_gpt_and_slides delta j d = (Inr (), ?j6, d5)"
    unfolding apply_gpt_and_slides_def leer_tres [OF g dis l]
    using d1(1) d2(1) w(1) s5(2) p4 sub j fases_orden
    by (simp add: n4s Let_def l del: of_nat_add of_nat_diff)
  then have r: "r = Inr ()" "d' = d5" using run by auto
  have sec: "di_sec d' x = di_sec d2 x" if "primero_util h \<le> x" "x \<le> ultimo_util h (unat (gh_alternate_lba h) + 1)" for x
    using w(7) [OF that] by (simp add: r(2) d5_def)
  have "re_decode (di_diario d') = Inr ?j6" using re_decode_encode [of ?j6] by (simp add: r(2) d5_def fases)
  moreover have "part es' h' 1 = Some (a2, b2 + unat delta)" "part es' h' 2 = Some (a3 + unat delta, b3)" "part es' h' 3 = Some (a4 + unat delta, b4 + unat delta)"
    using w(6) [of 1] w(6) [of 2] w(6) [of 3] D(1) by (simp_all add: planeada_def desplazado_def l)
  moreover have "di_sec d' x = di_sec d (x - unat delta)" if "a3 + unat delta \<le> x" "x \<le> b3" for x
    using sec [of x] M(1) [OF that] that D(5,6,8,14) by simp
  moreover have "di_sec d' x = di_sec d (x - unat delta)" if "a4 + unat delta \<le> x" "x \<le> b4 + unat delta" for x
    using sec [of x] M(2) [OF that] that D(5,9,11,14) by simp
  moreover have "di_sec d' x = di_sec d x" if "primero_util h \<le> x" "x \<le> b2" for x
    using sec [of x] M(3) [OF that(2)] that D(6,7,8) by simp
  ultimately show ?thesis using r g5 by blast
qed

section \<open>The table is written twice\<close>

lemma apply_solo_gpt:
  assumes g: "gpt_en d h es" and dis: "disposicion es h (unat delta) l" and e: "2 * unat (entries_sectors h) + 3 \<le> di_energia d"
    and j: "rj_phase j = JOURNAL_GPT" "j' = j\<lparr>rj_slide_done := 0\<rparr>"
  obtains d' h' es' where "fst (apply_gpt_and_slides delta j d) = Inr ()"
    "snd (snd (apply_gpt_and_slides delta j d)) = on_progress (j\<lparr>rj_phase := JOURNAL_IDLE, rj_slide_done := 0\<rparr>) d'"
    "gpt_en d' h' es'" "gh_num_entries h' = gh_num_entries h" "gh_alternate_lba h' = gh_alternate_lba h" "entries_sectors h' = entries_sectors h"
    "\<And>i. i < unat (gh_num_entries h) \<Longrightarrow> part es' h' i = planeada (desplazado (unat delta) l) (part es h) i"
    "di_energia d' = di_energia d - (2 * unat (entries_sectors h) + 3)" "di_diario d' = re_encode j'"
proof -
  obtain a2 b2 a3 b3 a4 b4 where l: "l = \<lparr>ly_root = (a2, b2), ly_models = (a3, b3), ly_install = (a4, b4)\<rparr>" by (metis layout.cases surj_pair)
  have ph: "\<not> phase_at_most JOURNAL_GPT JOURNAL_SLIDE_P3" "\<not> phase_at_most JOURNAL_GPT JOURNAL_SLIDE_P4" "phase_at_most JOURNAL_GPT JOURNAL_GPT"
    by (simp_all add: phase_at_most_def phase_rank_def fases)
  have j': "j' = j\<lparr>rj_phase := JOURNAL_GPT, rj_slide_done := 0\<rparr>" using j by (cases j) simp
  show thesis
  proof (rule fase_gpt_bien [OF g dis e j'])
    fix d' h' es'
    assume w: "fase_gpt delta (geom_de (ly_root l)) (geom_de (ly_models l)) (geom_de (ly_install l)) j d = (Inr (), j', d')"
      "gpt_en d' h' es'" "gh_num_entries h' = gh_num_entries h" "gh_alternate_lba h' = gh_alternate_lba h" "entries_sectors h' = entries_sectors h"
      "\<And>i. i < unat (gh_num_entries h) \<Longrightarrow> part es' h' i = planeada (desplazado (unat delta) l) (part es h) i"
      "di_energia d' = di_energia d - (2 * unat (entries_sectors h) + 3)" "di_diario d' = re_encode j'"
    have a: "apply_gpt_and_slides delta j d = (Inr (), j\<lparr>rj_phase := JOURNAL_IDLE, rj_slide_done := 0\<rparr>, on_progress (j\<lparr>rj_phase := JOURNAL_IDLE, rj_slide_done := 0\<rparr>) d')"
      unfolding apply_gpt_and_slides_def leer_tres [OF g dis l] using w(1) ph j by (simp add: l Let_def)
    show thesis by (rule that [OF _ _ w(2-6) w(7,8)]) (simp_all add: a)
  qed
qed

lemma disposicion_mitad:
  assumes g: "gpt_en d h es" and dis: "disposicion es h (2 * k) l"
  shows "disposicion es h k l"
    "gh_num_entries h' = gh_num_entries h \<Longrightarrow> gh_alternate_lba h' = gh_alternate_lba h \<Longrightarrow> entries_sectors h' = entries_sectors h \<Longrightarrow>
     (\<And>i. i < unat (gh_num_entries h) \<Longrightarrow> part es' h' i = planeada (desplazado k l) (part es h) i) \<Longrightarrow> disposicion es' h' k (desplazado k l)"
proof -
  obtain a2 b2 a3 b3 a4 b4 where l: "l = \<lparr>ly_root = (a2, b2), ly_models = (a3, b3), ly_install = (a4, b4)\<rparr>" by (metis layout.cases surj_pair)
  note d = dis [unfolded disposicion_def l, simplified]
  show "disposicion es h k l" using d by (simp add: disposicion_def l)
  assume same: "gh_num_entries h' = gh_num_entries h" "gh_alternate_lba h' = gh_alternate_lba h" "entries_sectors h' = entries_sectors h"
    and P: "\<And>i. i < unat (gh_num_entries h) \<Longrightarrow> part es' h' i = planeada (desplazado k l) (part es h) i"
  have u: "ultimo_util h' = ultimo_util h" by (simp add: fun_eq_iff ultimo_util_def same(3))
  show "disposicion es' h' k (desplazado k l)"
    using d P [of 1] P [of 2] P [of 3] P by (auto simp: disposicion_def l desplazado_def planeada_def same u split: if_splits)
qed

text \<open>C40 (\<open>apply_gpt_and_slides\<close>, \<open>write_gpt_update\<close>): the update of the table is relative to what is on the disk, so it must not be repeated, but
  a power cut after the table is written and before the journal says so leaves the phase that repeats it.  The recovery then reads
  the new table as if it were the old one and adds the blocks again: without an error, the models begin at a block where their file system is not.\<close>

theorem gpt_dos_veces:
  assumes g: "gpt_en d h es" and dis: "disposicion es h (2 * unat delta) l" and j: "rj_phase j = JOURNAL_GPT" "rj_delta j = delta"
    and l: "l = \<lparr>ly_root = (a2, b2), ly_models = (a3, b3), ly_install = (a4, b4)\<rparr>"
    and e: "di_energia d = 2 * unat (entries_sectors h) + 3" and run: "apply_gpt_and_slides delta j d = (r1, j1, d1)" and j': "j' = j\<lparr>rj_slide_done := 0\<rparr>"
  shows "re_decode (di_diario d1) = Inr j' \<and> (\<exists>h1 es1. gpt_en d1 h1 es1 \<and> part es1 h1 2 = Some (a3 + unat delta, b3)) \<and>
    (\<forall>e r2 j2 d2. 2 * unat (entries_sectors h) + 4 \<le> e \<longrightarrow> recover_slides_and_gpt j' (d1\<lparr>di_energia := e\<rparr>) = (r2, j2, d2) \<longrightarrow>
       r2 = Inr () \<and> (\<exists>h2 es2. gpt_en d2 h2 es2 \<and> part es2 h2 1 = Some (a2, b2 + 2 * unat delta) \<and> part es2 h2 2 = Some (a3 + 2 * unat delta, b3)))"
proof -
  have n: "1 < unat (gh_num_entries h)" "2 < unat (gh_num_entries h)" using dis by (auto simp: disposicion_def split: prod.splits)
  note half = disposicion_mitad [OF g dis]
  show ?thesis
  proof (rule apply_solo_gpt [OF g half(1) _ j(1) j'])
    show "2 * unat (entries_sectors h) + 3 \<le> di_energia d" using e by simp
    fix d' h' es'
    assume w: "snd (snd (apply_gpt_and_slides delta j d)) = on_progress (j\<lparr>rj_phase := JOURNAL_IDLE, rj_slide_done := 0\<rparr>) d'"
      "gpt_en d' h' es'" "gh_num_entries h' = gh_num_entries h" "gh_alternate_lba h' = gh_alternate_lba h" "entries_sectors h' = entries_sectors h"
      "\<And>i. i < unat (gh_num_entries h) \<Longrightarrow> part es' h' i = planeada (desplazado (unat delta) l) (part es h) i"
      "di_energia d' = di_energia d - (2 * unat (entries_sectors h) + 3)" "di_diario d' = re_encode j'"
    have d1: "d1 = d'" using w(1,7) run e by (simp add: journal_write_def)
    have dis2: "disposicion es' h' (unat delta) (desplazado (unat delta) l)" by (rule half(2) [OF w(3-6)])
    have "r2 = Inr () \<and> (\<exists>h2 es2. gpt_en d2 h2 es2 \<and> part es2 h2 1 = Some (a2, b2 + 2 * unat delta) \<and> part es2 h2 2 = Some (a3 + 2 * unat delta, b3))"
      if x: "2 * unat (entries_sectors h) + 4 \<le> x" and rec: "recover_slides_and_gpt j' (d1\<lparr>di_energia := x\<rparr>) = (r2, j2, d2)" for x r2 j2 d2
    proof -
      have jj: "rj_phase j' = JOURNAL_GPT" "j' = j'\<lparr>rj_slide_done := 0\<rparr>" using j(1) by (simp_all add: j')
      have g1: "gpt_en (d'\<lparr>di_energia := x\<rparr>) h' es'" by (rule gpt_en_cong [OF w(2)]) (use w(2) in \<open>simp_all add: gpt_en_def sano_def\<close>)
      have rs: "recover_slides_and_gpt j' (d'\<lparr>di_energia := x\<rparr>) = apply_gpt_and_slides delta j' (d'\<lparr>di_energia := x\<rparr>)"
        using j by (simp add: recover_slides_and_gpt_def valid_phase_def re_needs_recovery_def phase_rank_def fases j')
      show ?thesis
      proof (rule apply_solo_gpt [OF g1 dis2 _ jj])
        show "2 * unat (entries_sectors h') + 3 \<le> di_energia (d'\<lparr>di_energia := x\<rparr>)" using x w(5) by simp
        fix d3 h3 es3
        assume v: "fst (apply_gpt_and_slides delta j' (d'\<lparr>di_energia := x\<rparr>)) = Inr ()"
          "snd (snd (apply_gpt_and_slides delta j' (d'\<lparr>di_energia := x\<rparr>))) = on_progress (j'\<lparr>rj_phase := JOURNAL_IDLE, rj_slide_done := 0\<rparr>) d3"
          "gpt_en d3 h3 es3" "\<And>i. i < unat (gh_num_entries h') \<Longrightarrow> part es3 h3 i = planeada (desplazado (unat delta) (desplazado (unat delta) l)) (part es' h') i"
        have "r2 = Inr ()" "d2 = on_progress (j'\<lparr>rj_phase := JOURNAL_IDLE, rj_slide_done := 0\<rparr>) d3" using v(1,2) rec rs d1 by simp_all
        moreover have "gpt_en (on_progress (j'\<lparr>rj_phase := JOURNAL_IDLE, rj_slide_done := 0\<rparr>) d3) h3 es3"
          by (rule gpt_en_cong [OF v(3)]) (use v(3) in \<open>auto simp: journal_write_def gpt_en_def sano_def\<close>)
        ultimately show ?thesis using v(4) [of 1] v(4) [of 2] n w(3)
          by (intro conjI exI [of _ h3] exI [of _ es3]) (simp_all add: planeada_def desplazado_def l mult_2)
      qed
    qed
    moreover have "re_decode (di_diario d1) = Inr j'" using re_decode_encode [of j'] w(8) j(1) by (simp add: d1 j' fases)
    ultimately show ?thesis using w(2) w(6) [of 2] n by (auto simp: d1 planeada_def desplazado_def l)
  qed
qed

text \<open>(\<open>recover_before_mount\<close>): the test for a journal that needs no recovery comes before the test for an invalid phase and includes it, so
  a journal with a phase that does not exist lets the boot go on.\<close>

lemma fase_invalida_monta:
  assumes "di_hueco d" "di_esp_legible d" "re_decode (di_diario d) = Inr j" "\<not> valid_phase j"
  shows "recover_before_mount shrink refresca True durable d = (True, 0, d)"
  using assms by (simp add: recover_before_mount_def journal_read_def re_needs_recovery_def)

section \<open>A disk\<close>

text \<open>A disk of a hundred sectors with the partitions of a live medium: ESP, root, installer and models, in this order.\<close>

definition ej_header :: gpt_header where
  "ej_header = \<lparr>gh_revision = 0x10000, gh_header_size = 92, gh_my_lba = 1, gh_alternate_lba = 99, gh_first_usable = 3,
     gh_last_usable = 97, gh_disk_guid = ''0123456789abcdef'', gh_entries_lba = 2, gh_num_entries = 4, gh_entry_size = 128\<rparr>"

definition ej_tabla :: bytes where
  "ej_tabla = tabla_entrada 3 10 @ tabla_entrada 11 20 @ tabla_entrada 31 60 @ tabla_entrada 21 30"

definition ej_disco :: "nat \<Rightarrow> disco" where
  "ej_disco e = \<lparr>di_sec = (\<lambda>x. if x = 1 then header_render ej_header ej_tabla else if x = 2 then ej_tabla else replicate 512 (char_of x)),
     di_diario = replicate 512 (CHR 0x00), di_hueco = True, di_esp_legible = True, di_energia = e, di_malos = (\<lambda>_. False), di_flush_falla = False\<rparr>"

definition ej_layout :: layout where
  "ej_layout = \<lparr>ly_root = (11, 20), ly_models = (31, 60), ly_install = (21, 30)\<rparr>"

lemma ej_part:
  "part ej_tabla ej_header 0 = Some (3, 10)" "part ej_tabla ej_header 1 = Some (11, 20)"
  "part ej_tabla ej_header 2 = Some (31, 60)" "part ej_tabla ej_header 3 = Some (21, 30)"
  by code_simp+

lemma ej_num: "i < unat (gh_num_entries ej_header) \<longleftrightarrow> i = 0 \<or> i = Suc 0 \<or> i = 2 \<or> i = 3"
  by (auto simp: ej_header_def)

lemmas ej_simps = ej_num ej_part ej_part(2) [simplified]

lemma ej_sectores: "entries_sectors ej_header = 1" "entries_bytes ej_header = 512" "primero_util ej_header = 3" "ultimo_util ej_header 100 = 97"
  "unat (gh_alternate_lba ej_header) = 99" "gh_entries_lba ej_header = 2" "header_ok ej_header" "length ej_tabla = 512"
proof -
  show "length ej_tabla = 512" by code_simp
qed (simp_all add: ultimo_util_def primero_util_def entries_sectors_def entries_bytes_def ej_header_def GPT_SECTOR_def header_ok_def MIN_HEADER_SIZE_def)

lemma ej_gpt: "gpt_en (ej_disco e) ej_header ej_tabla"
proof -
  have s: "sano (ej_disco e)" by (simp add: sano_def ej_disco_def)
  have "header_parse (di_sec (ej_disco e) 1) = Inr ej_header" using header_render_parse [OF ej_sectores(7)] by (simp add: ej_disco_def)
  moreover have "ej_tabla = take 512 (concat (map (\<lambda>i. di_sec (ej_disco e) (2 + i)) [0..<1]))" using ej_sectores(8) by (simp add: ej_disco_def)
  ultimately have "leer_tabla (ej_disco e) = Inr (ej_header, ej_tabla)" using leer_tabla_iff [OF s, of ej_header ej_tabla] ej_sectores(1,2,6) by simp
  moreover have "tabla_ok ej_tabla ej_header" by (rule tabla_okI) (auto simp: ej_simps ej_sectores)
  moreover have "cabe_tabla ej_tabla ej_header 100" by (auto simp: cabe_tabla_def ej_simps ej_sectores)
  ultimately show ?thesis using s by (simp add: gpt_en_def ej_sectores)
qed

lemma ej_disposicion: "disposicion ej_tabla ej_header 8 ej_layout" "disposicion ej_tabla ej_header 16 ej_layout"
  by (auto simp: disposicion_def ej_layout_def ej_simps ej_sectores)

theorem redimension_completa_witness:
  "\<exists>j' d'. apply_gpt_and_slides 8 \<lparr>rj_phase = JOURNAL_SHRINK_MODELS, rj_delta = 8, rj_slide_done = 0\<rparr> (ej_disco 60) = (Inr (), j', d') \<and>
     di_sec d' 39 = replicate 512 (char_of (31 :: nat)) \<and> di_sec d' 29 = replicate 512 (char_of (21 :: nat))"
proof -
  let ?j = "\<lparr>rj_phase = JOURNAL_SHRINK_MODELS, rj_delta = 8, rj_slide_done = 0\<rparr>"
  obtain r j' d' where run: "apply_gpt_and_slides 8 ?j (ej_disco 60) = (r, j', d')" by (metis prod_cases3)
  have e: "60 - 31 + (30 - 21) + 2 * unat (entries_sectors ej_header) + 10 \<le> di_energia (ej_disco 60)" by (simp add: ej_sectores ej_disco_def)
  note T = redimension_completa [OF ej_gpt _ _ ej_layout_def e run]
  have r: "r = Inr ()" "di_sec d' 39 = di_sec (ej_disco 60) 31" "di_sec d' 29 = di_sec (ej_disco 60) 21" using T ej_disposicion(1) by auto
  then show ?thesis using run by (simp add: ej_disco_def)
qed

theorem gpt_dos_veces_witness:
  "\<exists>r1 j1 d1 r2 j2 d2 h2 es2. apply_gpt_and_slides 8 \<lparr>rj_phase = JOURNAL_GPT, rj_delta = 8, rj_slide_done = 0\<rparr> (ej_disco 5) = (r1, j1, d1) \<and>
     recover_slides_and_gpt \<lparr>rj_phase = JOURNAL_GPT, rj_delta = 8, rj_slide_done = 0\<rparr> (d1\<lparr>di_energia := 50\<rparr>) = (r2, j2, d2) \<and>
     r2 = Inr () \<and> gpt_en d2 h2 es2 \<and> part es2 h2 2 = Some (47, 60)"
proof -
  let ?j = "\<lparr>rj_phase = JOURNAL_GPT, rj_delta = 8, rj_slide_done = 0\<rparr>"
  obtain r1 j1 d1 where run: "apply_gpt_and_slides 8 ?j (ej_disco 5) = (r1, j1, d1)" by (metis prod_cases3)
  obtain r2 j2 d2 where rec: "recover_slides_and_gpt ?j (d1\<lparr>di_energia := 50\<rparr>) = (r2, j2, d2)" by (metis prod_cases3)
  have e: "di_energia (ej_disco 5) = 2 * unat (entries_sectors ej_header) + 3" by (simp add: ej_sectores ej_disco_def)
  have "disposicion ej_tabla ej_header (2 * unat (8 :: u64)) ej_layout" using ej_disposicion(2) by simp
  note T = gpt_dos_veces [OF ej_gpt this _ _ ej_layout_def e run refl, THEN conjunct2, THEN conjunct2, rule_format, of 50 r2 j2 d2]
  have "r2 = Inr () \<and> (\<exists>h2 es2. gpt_en d2 h2 es2 \<and> part es2 h2 1 = Some (11, 20 + 2 * unat (8 :: u64)) \<and> part es2 h2 2 = Some (31 + 2 * unat (8 :: u64), 60))"
    by (rule T) (use rec in \<open>simp_all add: ej_sectores\<close>)
  then show ?thesis using run rec by auto
qed

theorem slide_reanuda_witness:
  "\<exists>r1 m d1 r2 d2. slide_sectors (ej_disco 7) 31 39 22 0 = (r1, m, d1) \<and> slide_sectors (d1\<lparr>di_energia := 20\<rparr>) 31 39 22 m = (r2, 22, d2) \<and>
     r2 = Inr () \<and> di_sec d2 60 = replicate 512 (char_of (52 :: nat))"
proof -
  obtain r1 m d1 where uno: "slide_sectors (ej_disco 7) 31 39 22 0 = (r1, m, d1)" by (metis prod_cases3)
  obtain r2 f d2 where dos: "slide_sectors (d1\<lparr>di_energia := 20\<rparr>) 31 39 22 m = (r2, f, d2)" by (metis prod_cases3)
  have s: "sano (ej_disco 7)" by (simp add: sano_def ej_disco_def)
  have T: "r2 = Inr () \<and> f = 22 \<and> (\<forall>k < 22. di_sec d2 (39 + k) = di_sec (ej_disco 7) (31 + k))"
    using slide_reanuda [OF _ _ _ s uno dos] by (simp add: ej_disco_def)
  have "di_sec d2 (39 + 21) = di_sec (ej_disco 7) (31 + 21)" using T [THEN conjunct2, THEN conjunct2, rule_format, of 21] by simp
  then show ?thesis using uno dos T by (simp add: ej_disco_def)
qed

theorem corte_en_slide_corrompe_witness:
  "\<exists>j1 d1 j' j2 d2. fase_slide JOURNAL_SLIDE_P3 31 8 22 \<lparr>rj_phase = JOURNAL_SHRINK_MODELS, rj_delta = 8, rj_slide_done = 0\<rparr> (ej_disco 10) = (Inl ReIo, j1, d1) \<and>
     re_decode (di_diario d1) = Inr j' \<and> fase_slide JOURNAL_SLIDE_P3 31 8 22 j' (d1\<lparr>di_energia := 50\<rparr>) = (Inr (), j2, d2) \<and>
     di_sec d2 60 = replicate 512 (char_of (44 :: nat)) \<and> di_sec (ej_disco 10) 52 = replicate 512 (char_of (52 :: nat))"
proof -
  let ?j = "\<lparr>rj_phase = JOURNAL_SHRINK_MODELS, rj_delta = 8, rj_slide_done = 0\<rparr>" and ?j' = "\<lparr>rj_phase = JOURNAL_SLIDE_P3, rj_delta = 8, rj_slide_done = 0\<rparr>"
  obtain r1 j1 d1 where uno: "fase_slide JOURNAL_SLIDE_P3 31 8 22 ?j (ej_disco 10) = (r1, j1, d1)" by (metis prod_cases3)
  obtain r2 j2 d2 where dos: "fase_slide JOURNAL_SLIDE_P3 31 8 22 ?j' (d1\<lparr>di_energia := 50\<rparr>) = (r2, j2, d2)" by (metis prod_cases3)
  have s: "sano (ej_disco 10)" "di_energia (ej_disco 10) = 1 + 9" by (simp_all add: sano_def ej_disco_def)
  have "r1 = Inl ReIo \<and> re_decode (di_diario d1) = Inr ?j' \<and> r2 = Inr () \<and> di_sec d2 60 = di_sec (ej_disco 10) 44"
  proof -
    have T: "r1 = Inl ReIo" "re_decode (di_diario d1) = Inr ?j'"
      "\<forall>e r2 j2 d2. 22 \<le> e \<longrightarrow> fase_slide JOURNAL_SLIDE_P3 31 8 22 ?j' (d1\<lparr>di_energia := e\<rparr>) = (r2, j2, d2) \<longrightarrow> r2 = Inr () \<and> di_sec d2 60 = di_sec (ej_disco 10) 44"
      using corte_en_slide_corrompe [OF _ _ _ s _ _ uno refl] by simp_all
    show ?thesis using T(1,2) T(3) [rule_format, OF _ dos] by simp
  qed
  then show ?thesis using uno dos by (auto simp: ej_disco_def)
qed

end
