(* ===== verification/Bloques.thy ===== *)
theory Bloques
  imports Gpt
begin

text \<open>
  \<open>crates/block-dev/src/lib.rs\<close> and \<open>crates/sosofs/src/cache.rs\<close>: a device of blocks of 4 KiB and the
  cache of recently read blocks in front of it.  The device (\<open>disp\<close>) is the one in memory of the crate, together
  with the history of what it was asked to write and a script that says which of its next operations fail.  The history is
  what a loss of power is judged by: \<open>tras_corte\<close> gives the images that a medium may hold when power fails after a
  given history, in which everything before the last flush is there and any part of the rest may be.
\<close>

section \<open>The device\<close>

definition BLOCK_SIZE :: nat where "BLOCK_SIZE = 4096"

datatype block_error = BlkIo | BlkOutOfRange

datatype evento = Escribe nat bytes | Fallida nat bytes | Vacia

record disp =
  di_count :: nat
  di_img :: "nat \<Rightarrow> bytes"
  di_max :: nat
  di_log :: "evento list"
  di_fallos :: "bool list"

definition siguiente :: "disp \<Rightarrow> bool \<times> disp" where
  "siguiente d = (case di_fallos d of [] \<Rightarrow> (False, d) | f # fs \<Rightarrow> (f, d\<lparr>di_fallos := fs\<rparr>))"

definition dev_read :: "nat \<Rightarrow> disp \<Rightarrow> (block_error + bytes) \<times> disp" where
  "dev_read b d =
    (if di_count d \<le> b then (Inl BlkOutOfRange, d)
     else case siguiente d of (f, d') \<Rightarrow> (if f then (Inl BlkIo, d') else (Inr (di_img d' b), d')))"

definition dev_write :: "nat \<Rightarrow> bytes \<Rightarrow> disp \<Rightarrow> (block_error + unit) \<times> disp" where
  "dev_write b buf d =
    (if di_count d \<le> b then (Inl BlkOutOfRange, d)
     else case siguiente d of (f, d') \<Rightarrow>
       (if f then (Inl BlkIo, d'\<lparr>di_log := di_log d' @ [Fallida b buf]\<rparr>)
        else (Inr (), d'\<lparr>di_img := (di_img d')(b := buf), di_log := di_log d' @ [Escribe b buf]\<rparr>)))"

definition dev_flush :: "disp \<Rightarrow> (block_error + unit) \<times> disp" where
  "dev_flush d =
    (case siguiente d of (f, d') \<Rightarrow>
      (if f then (Inl BlkIo, d') else (Inr (), d'\<lparr>di_log := di_log d' @ [Vacia]\<rparr>)))"

text \<open>The default \<open>read_blocks\<close>: one block after another.\<close>

fun dev_read_blocks :: "nat \<Rightarrow> nat \<Rightarrow> disp \<Rightarrow> (block_error + bytes) \<times> disp" where
  "dev_read_blocks start 0 d = (Inr [], d)"
| "dev_read_blocks start (Suc n) d =
    (case dev_read start d of
      (Inl e, d') \<Rightarrow> (Inl e, d')
    | (Inr b, d') \<Rightarrow>
        (case dev_read_blocks (Suc start) n d' of
          (Inl e, d'') \<Rightarrow> (Inl e, d'')
        | (Inr bs, d'') \<Rightarrow> (Inr (b @ bs), d'')))"

section \<open>The cache\<close>

record entrada_cache =
  ce_block :: nat
  ce_data :: bytes
  ce_age :: u32

record cache_dev =
  ca_inner :: disp
  ca_entries :: "entrada_cache list"
  ca_capacity :: nat
  ca_tick :: u32
  ca_acierto :: bool

definition cache_with_capacity :: "disp \<Rightarrow> nat \<Rightarrow> cache_dev" where
  "cache_with_capacity d n =
    \<lparr>ca_inner = d, ca_entries = [], ca_capacity = max n 4, ca_tick = 0, ca_acierto = False\<rparr>"

definition cache_new :: "disp \<Rightarrow> cache_dev" where
  "cache_new d = cache_with_capacity d 256"

fun posicion :: "('a \<Rightarrow> bool) \<Rightarrow> 'a list \<Rightarrow> nat option" where
  "posicion p [] = None"
| "posicion p (x # xs) = (if p x then Some 0 else map_option Suc (posicion p xs))"

definition cache_touch :: "nat \<Rightarrow> cache_dev \<Rightarrow> cache_dev" where
  "cache_touch i c = (let t = ca_tick c + 1 in
    c\<lparr>ca_tick := t, ca_entries := (ca_entries c)[i := (ca_entries c ! i)\<lparr>ce_age := t\<rparr>]\<rparr>)"

fun evict_loop :: "entrada_cache list \<Rightarrow> nat \<Rightarrow> nat \<Rightarrow> u32 \<Rightarrow> nat" where
  "evict_loop [] i min_idx min_age = min_idx"
| "evict_loop (e # es) i min_idx min_age =
    (if ce_age e < min_age then evict_loop es (Suc i) i (ce_age e) else evict_loop es (Suc i) min_idx min_age)"

definition evict_lru :: "entrada_cache list \<Rightarrow> nat" where
  "evict_lru es = evict_loop (drop 1 es) 1 0 (ce_age (es ! 0))"

definition cache_invalidate :: "nat \<Rightarrow> cache_dev \<Rightarrow> cache_dev" where
  "cache_invalidate b c = c\<lparr>ca_entries := filter (\<lambda>e. ce_block e \<noteq> b) (ca_entries c)\<rparr>"

definition cache_clear :: "cache_dev \<Rightarrow> cache_dev" where
  "cache_clear c = c\<lparr>ca_entries := []\<rparr>"

definition read_block :: "nat \<Rightarrow> cache_dev \<Rightarrow> (block_error + bytes) \<times> cache_dev" where
  "read_block b c =
    (case posicion (\<lambda>e. ce_block e = b) (ca_entries c) of
      Some i \<Rightarrow> (Inr (ce_data (ca_entries c ! i)), (cache_touch i c)\<lparr>ca_acierto := True\<rparr>)
    | None \<Rightarrow>
        (case dev_read b (ca_inner c) of
          (Inl e, d) \<Rightarrow> (Inl e, c\<lparr>ca_inner := d, ca_acierto := False\<rparr>)
        | (Inr buf, d) \<Rightarrow>
            let t = ca_tick c + 1; nueva = \<lparr>ce_block = b, ce_data = buf, ce_age = t\<rparr>; es = ca_entries c in
            (Inr buf, c\<lparr>ca_inner := d, ca_acierto := False, ca_tick := t,
              ca_entries := (if ca_capacity c \<le> length es then es[evict_lru es := nueva] else es @ [nueva])\<rparr>)))"

definition write_block :: "nat \<Rightarrow> bytes \<Rightarrow> cache_dev \<Rightarrow> (block_error + unit) \<times> cache_dev" where
  "write_block b buf c =
    (case dev_write b buf (ca_inner c) of (r, d) \<Rightarrow> (r, (cache_invalidate b c)\<lparr>ca_inner := d\<rparr>))"

definition cache_flush :: "cache_dev \<Rightarrow> (block_error + unit) \<times> cache_dev" where
  "cache_flush c = (case dev_flush (ca_inner c) of (r, d) \<Rightarrow> (r, c\<lparr>ca_inner := d\<rparr>))"

definition read_blocks :: "nat \<Rightarrow> nat \<Rightarrow> cache_dev \<Rightarrow> (block_error + bytes) \<times> cache_dev" where
  "read_blocks start n c =
    (case dev_read_blocks start n (ca_inner c) of (r, d) \<Rightarrow> (r, c\<lparr>ca_inner := d, ca_acierto := False\<rparr>))"

section \<open>Images after a loss of power\<close>

text \<open>\<open>aplicar_evs\<close> is the image when everything of a history reaches the medium, \<open>tras_corte\<close> relates the image
  before a history with the ones that may be there when power fails at its end: what a flush has closed
  is there, of the rest any part, and a write that reported an error may be there or not.\<close>

fun evento_img :: "evento \<Rightarrow> (nat \<Rightarrow> bytes) \<Rightarrow> nat \<Rightarrow> bytes" where
  "evento_img (Escribe b buf) m = m(b := buf)"
| "evento_img _ m = m"

inductive tras_corte :: "(nat \<Rightarrow> bytes) \<Rightarrow> evento list \<Rightarrow> (nat \<Rightarrow> bytes) \<Rightarrow> bool" where
  nada: "tras_corte m [] m"
| perdida: "tras_corte m evs m' \<Longrightarrow> tras_corte m (evs @ [Escribe b buf]) m'"
| escrita: "tras_corte m evs m' \<Longrightarrow> tras_corte m (evs @ [Escribe b buf]) (m'(b := buf))"
| fallida: "tras_corte m evs m' \<Longrightarrow> tras_corte m (evs @ [Fallida b buf]) m'"
| fallida_escrita: "tras_corte m evs m' \<Longrightarrow> tras_corte m (evs @ [Fallida b buf]) (m'(b := buf))"
| vaciada: "tras_corte m evs m' \<Longrightarrow> (\<forall>b. (\<forall>buf. Fallida b buf \<notin> set evs) \<longrightarrow> m' b = fold evento_img evs m b) \<Longrightarrow>
    tras_corte m (evs @ [Vacia]) m'"

section \<open>Lemmas on the device and the cache\<close>

named_theorems disp_simps \<open>what the operations of the device keep\<close>

lemma siguiente_cases:
  obtains "siguiente d = (False, d)" "di_fallos d = []"
  | f fs where "di_fallos d = f # fs" "siguiente d = (f, d\<lparr>di_fallos := fs\<rparr>)"
  by (cases "di_fallos d") (auto simp: siguiente_def)

lemma dev_read_keeps:
  assumes "dev_read b d = (r, d')"
  shows "di_count d' = di_count d \<and> di_img d' = di_img d \<and> di_max d' = di_max d \<and> di_log d' = di_log d"
    and "r = Inr buf \<Longrightarrow> buf = di_img d b \<and> b < di_count d"
    and "di_fallos d = [] \<Longrightarrow> b < di_count d \<Longrightarrow> r = Inr (di_img d b) \<and> d' = d"
  using assms by (cases d rule: siguiente_cases; auto simp: dev_read_def split: if_splits)+

lemma dev_read_fallos: "dev_read b d = (r, d') \<Longrightarrow> di_fallos d = [] \<Longrightarrow> di_fallos d' = []"
  by (cases d rule: siguiente_cases) (auto simp: dev_read_def split: if_splits)

lemma dev_read_blocks_keeps:
  "dev_read_blocks st n d = (r, d') \<Longrightarrow>
    di_count d' = di_count d \<and> di_img d' = di_img d \<and> di_max d' = di_max d \<and> di_log d' = di_log d"
  by (induction st n d arbitrary: r d' rule: dev_read_blocks.induct)
     (auto split: prod.splits sum.splits dest!: dev_read_keeps(1))

lemma dev_read_blocks_ok:
  "dev_read_blocks st n d = (Inr bs, d') \<Longrightarrow> bs = concat (map (di_img d) [st..<st + n])"
proof (induction st n d arbitrary: bs d' rule: dev_read_blocks.induct)
  case (2 start n d)
  from 2(2) obtain b d1 bs1 where r: "dev_read start d = (Inr b, d1)" "dev_read_blocks (Suc start) n d1 = (Inr bs1, d')" "bs = b @ bs1"
    by (auto split: prod.splits sum.splits)
  have "bs1 = concat (map (di_img d1) [Suc start..<Suc start + n])" using 2(1) [OF r(1) [symmetric] refl r(2)] .
  moreover have "di_img d1 = di_img d" "b = di_img d start" using dev_read_keeps [OF r(1)] by auto
  ultimately show ?case using r(3) by (simp add: upt_conv_Cons del: upt_Suc)
qed auto

lemma dev_read_blocks_sin_fallos:
  "di_fallos d = [] \<Longrightarrow> st + n \<le> di_count d \<Longrightarrow> dev_read_blocks st n d = (Inr (concat (map (di_img d) [st..<st + n])), d)"
  by (induction n arbitrary: st) (auto simp: dev_read_def siguiente_def upt_conv_Cons simp del: upt_Suc)

definition coherente :: "cache_dev \<Rightarrow> bool" where
  "coherente c = list_all (\<lambda>e. ce_data e = di_img (ca_inner c) (ce_block e)) (ca_entries c)"

text \<open>\<open>mismo_disp c c'\<close>: the devices below two caches hold the same, although one of them may have
  consumed more of the script of failures.\<close>

definition mismo_disp :: "cache_dev \<Rightarrow> cache_dev \<Rightarrow> bool" where
  "mismo_disp c c' = (di_count (ca_inner c') = di_count (ca_inner c) \<and> di_img (ca_inner c') = di_img (ca_inner c) \<and>
    di_max (ca_inner c') = di_max (ca_inner c) \<and> di_log (ca_inner c') = di_log (ca_inner c) \<and> ca_capacity c' = ca_capacity c \<and>
    (di_fallos (ca_inner c) = [] \<longrightarrow> di_fallos (ca_inner c') = []))"

lemma mismo_disp_refl [simp, intro]: "mismo_disp c c"
  by (simp add: mismo_disp_def)

lemma mismo_disp_trans: "mismo_disp c c1 \<Longrightarrow> mismo_disp c1 c2 \<Longrightarrow> mismo_disp c c2"
  by (simp add: mismo_disp_def)

lemma posicion_Some: "posicion p xs = Some i \<Longrightarrow> i < length xs \<and> p (xs ! i) \<and> (\<forall>j<i. \<not> p (xs ! j))"
proof (induction xs arbitrary: i)
  case (Cons x xs)
  then show ?case by (cases i) (auto split: if_splits simp: less_Suc_eq_0_disj)
qed simp

lemma posicion_None: "posicion p xs = None \<longleftrightarrow> (\<forall>x\<in>set xs. \<not> p x)"
  by (induction xs) auto

lemma evict_loop_min:
  "m < i \<Longrightarrow> evict_loop es i m a < i + length es \<and>
    (evict_loop es i m a = m \<and> (\<forall>e\<in>set es. a \<le> ce_age e) \<or>
     (i \<le> evict_loop es i m a \<and> ce_age (es ! (evict_loop es i m a - i)) < a \<and>
      (\<forall>e\<in>set es. ce_age (es ! (evict_loop es i m a - i)) \<le> ce_age e)))"
proof (induction es i m a rule: evict_loop.induct)
  case (2 e es i m a)
  show ?case
  proof (cases "ce_age e < a")
    case True
    have "evict_loop (e # es) i m a = evict_loop es (Suc i) i (ce_age e)" using True by simp
    then show ?thesis using 2(1) [OF True] True 2(3)
      by (auto simp: nth_Cons' Suc_diff_le)
  next
    case False
    have "evict_loop (e # es) i m a = evict_loop es (Suc i) m a" using False by simp
    then show ?thesis using 2(2) [OF False] False 2(3)
      by (auto simp: nth_Cons' Suc_diff_le)
  qed
qed simp

lemma evict_lru_minima:
  assumes "es \<noteq> []"
  shows "evict_lru es < length es \<and> (\<forall>e\<in>set es. ce_age (es ! evict_lru es) \<le> ce_age e)"
proof -
  obtain x xs where es: "es = x # xs" using assms by (cases es) auto
  then show ?thesis using evict_loop_min [of 0 1 xs "ce_age x"]
    by (auto simp: evict_lru_def nth_Cons')
qed

lemma coherenteD: "coherente c \<Longrightarrow> e \<in> set (ca_entries c) \<Longrightarrow> ce_data e = di_img (ca_inner c) (ce_block e)"
  by (simp add: coherente_def list_all_iff)

lemma coherente_touch: "coherente c \<Longrightarrow> i < length (ca_entries c) \<Longrightarrow> coherente (cache_touch i c)"
  by (auto simp: coherente_def list_all_iff cache_touch_def Let_def dest!: set_update_subset_insert [THEN subsetD])

lemma read_block_keeps:
  assumes "read_block b c = (r, c')"
  shows "mismo_disp c c'"
    and "coherente c \<Longrightarrow> coherente c'"
    and "coherente c \<Longrightarrow> r = Inr buf \<Longrightarrow> buf = di_img (ca_inner c) b"
    and "coherente c \<Longrightarrow> di_fallos (ca_inner c) = [] \<Longrightarrow> b < di_count (ca_inner c) \<Longrightarrow> r = Inr (di_img (ca_inner c) b)"
proof -
  have "mismo_disp c c' \<and> (coherente c \<longrightarrow> coherente c') \<and> (coherente c \<longrightarrow> r = Inr buf \<longrightarrow> buf = di_img (ca_inner c) b) \<and>
    (coherente c \<longrightarrow> di_fallos (ca_inner c) = [] \<longrightarrow> b < di_count (ca_inner c) \<longrightarrow> r = Inr (di_img (ca_inner c) b))"
  proof (cases "posicion (\<lambda>e. ce_block e = b) (ca_entries c)")
  case (Some i)
  note i = posicion_Some [OF Some]
  have d: "coherente c \<Longrightarrow> ce_data (ca_entries c ! i) = di_img (ca_inner c) b"
    using i coherenteD [of c "ca_entries c ! i"] by auto
  have c': "c' = (cache_touch i c)\<lparr>ca_acierto := True\<rparr>" "r = Inr (ce_data (ca_entries c ! i))" using assms Some by (auto simp: read_block_def)
  have "coherente c \<Longrightarrow> coherente c'" using coherente_touch [of c i] i by (simp add: c' coherente_def)
  moreover have "mismo_disp c c'" by (simp add: c' mismo_disp_def cache_touch_def Let_def)
  ultimately show ?thesis using d c' by auto
next
  case None
  obtain rr d where dr: "dev_read b (ca_inner c) = (rr, d)" by fastforce
  note k = dev_read_keeps [OF dr]
  have "coherente c \<Longrightarrow> coherente c'"
    using assms None dr k
    by (auto simp: read_block_def coherente_def list_all_iff Let_def split: sum.splits if_splits
        dest!: set_update_subset_insert [THEN subsetD])
  moreover have "mismo_disp c c'"
  proof -
    have "ca_inner c' = d \<and> ca_capacity c' = ca_capacity c"
      using assms unfolding read_block_def None dr by (cases rr) (auto simp: Let_def)
    then show ?thesis using k(1) dev_read_fallos [OF dr] unfolding mismo_disp_def by metis
  qed
  moreover have "r = rr" using assms None dr by (auto simp: read_block_def Let_def split: sum.splits)
  ultimately show ?thesis using k(2) [of buf] k(3) by blast
  qed
  then show "mismo_disp c c'"
    and "coherente c \<Longrightarrow> coherente c'"
    and "coherente c \<Longrightarrow> r = Inr buf \<Longrightarrow> buf = di_img (ca_inner c) b"
    and "coherente c \<Longrightarrow> di_fallos (ca_inner c) = [] \<Longrightarrow> b < di_count (ca_inner c) \<Longrightarrow> r = Inr (di_img (ca_inner c) b)"
    by auto
qed

lemma coherente_invalidate [simp]: "coherente c \<Longrightarrow> coherente (cache_invalidate b c)"
  by (auto simp: coherente_def cache_invalidate_def list_all_iff)

lemma coherente_clear [simp]: "coherente (cache_clear c)"
  by (simp add: coherente_def cache_clear_def)

lemma mismo_invalidate [simp]: "mismo_disp c (cache_invalidate b c')  = mismo_disp c c'" "mismo_disp c (cache_clear c') = mismo_disp c c'"
  by (simp_all add: mismo_disp_def cache_invalidate_def cache_clear_def)

lemma inner_invalidate [simp]: "ca_inner (cache_invalidate b c) = ca_inner c" "ca_inner (cache_clear c) = ca_inner c"
  by (simp_all add: cache_invalidate_def cache_clear_def)

lemma write_block_coherente:
  assumes "coherente c" "write_block b buf c = (r, c')"
  shows "coherente c'"
  using assms
  by (cases "ca_inner c" rule: siguiente_cases)
     (auto simp: write_block_def dev_write_def coherente_def list_all_iff cache_invalidate_def split: if_splits)

lemma cache_flush_coherente: "coherente c \<Longrightarrow> cache_flush c = (r, c') \<Longrightarrow> coherente c'"
  by (cases "ca_inner c" rule: siguiente_cases) (auto simp: cache_flush_def dev_flush_def coherente_def split: if_splits)

lemma dev_read_blocks_fallos: "dev_read_blocks st n d = (r, d') \<Longrightarrow> di_fallos d = [] \<Longrightarrow> di_fallos d' = []"
proof (induction st n d arbitrary: r d' rule: dev_read_blocks.induct)
  case (2 start n d)
  obtain r1 d1 where r1: "dev_read start d = (r1, d1)" by fastforce
  note f = dev_read_fallos [OF r1 2(3)]
  show ?case
  proof (cases r1)
    case (Inr b)
    obtain r2 d2 where r2: "dev_read_blocks (Suc start) n d1 = (r2, d2)" by fastforce
    show ?thesis using 2(1) [OF r1 [symmetric] Inr r2 f] 2(2) r1 r2 Inr by (cases r2) auto
  qed (use 2(2) r1 f in auto)
qed simp

lemma read_blocks_keeps:
  assumes "read_blocks st n c = (r, c')"
  shows "mismo_disp c c'" "coherente c \<Longrightarrow> coherente c'" "r = Inr bs \<Longrightarrow> bs = concat (map (di_img (ca_inner c)) [st..<st + n])"
proof -
  obtain rr d where dr: "dev_read_blocks st n (ca_inner c) = (rr, d)" by fastforce
  have c: "r = rr" "c' = c\<lparr>ca_inner := d, ca_acierto := False\<rparr>" using assms dr by (auto simp: read_blocks_def)
  note k = dev_read_blocks_keeps [OF dr] dev_read_blocks_fallos [OF dr]
  show "mismo_disp c c'" "coherente c \<Longrightarrow> coherente c'" using k c by (auto simp: mismo_disp_def coherente_def)
  show "r = Inr bs \<Longrightarrow> bs = concat (map (di_img (ca_inner c)) [st..<st + n])" using dr c dev_read_blocks_ok by auto
qed

end
