(* ===== verification/Sosofs.thy ===== *)
theory Sosofs
  imports Bloques
begin

text \<open>
  \<open>crates/sosofs/src\<close>: the copy-on-write file system of the root partition (\<open>layout.rs\<close>, \<open>fs.rs\<close>,
  \<open>write.rs\<close>), function by function.  Everything is stored in one B+ tree of items of fixed size; a
  modified node is written to a new block, and a commit publishes the new root by
  writing the superblock in the alternate slot.  Operations are functions from the state to a result
  and a state (\<open>bindE\<close> is the question mark operator).  The checksum CRC-32C comes from another
  package and is an argument \<open>crc\<close>.  Block numbers and sizes are natural numbers, the fields of
  the superblock and of the keys are words.  A panic of the source (an index out of a
  slice, an overflow with checks) is the error \<open>FsPanico\<close>, which nothing catches.  The
  recursion over nodes of the read path has no bound in the source: it is given 256 levels, which is what
  the level byte of a node can count, and running out of them is a panic too.
\<close>

section \<open>Layout\<close>

definition FS_MAGIC :: bytes where "FS_MAGIC = ''SOSOFS11''"
definition FS_MAGIC_V10 :: bytes where "FS_MAGIC_V10 = ''SOSOFS10''"

definition looks_like_sosofs :: "bytes \<Rightarrow> bool" where
  "looks_like_sosofs sector = (prefix FS_MAGIC sector \<or> prefix FS_MAGIC_V10 sector)"

definition ROOT_INODE :: u64 where "ROOT_INODE = 1"
definition NAME_MAX :: nat where "NAME_MAX = 255"
definition EXTENT_MAX_BLOCKS :: nat where "EXTENT_MAX_BLOCKS = 32"
definition KIND_INODE :: u8 where "KIND_INODE = 1"
definition KIND_DIRENT :: u8 where "KIND_DIRENT = 2"
definition KIND_EXTENT :: u8 where "KIND_EXTENT = 3"
definition FT_FILE :: u8 where "FT_FILE = 1"
definition FT_DIR :: u8 where "FT_DIR = 2"

datatype key = Key (k_inode: u64) (k_kind: u8) (k_offset: u64)

instantiation key :: linorder
begin

definition less_eq_key :: "key \<Rightarrow> key \<Rightarrow> bool" where
  "less_eq_key a b = (k_inode a < k_inode b \<or> k_inode a = k_inode b \<and>
    (k_kind a < k_kind b \<or> k_kind a = k_kind b \<and> k_offset a \<le> k_offset b))"

definition less_key :: "key \<Rightarrow> key \<Rightarrow> bool" where
  "less_key a b = (a \<le> b \<and> \<not> b \<le> (a :: key))"

instance
proof
  fix x y z :: key
  show "x < y \<longleftrightarrow> x \<le> y \<and> \<not> y \<le> x" by (simp add: less_key_def)
  show "x \<le> x" by (simp add: less_eq_key_def)
  show "x \<le> y \<Longrightarrow> y \<le> z \<Longrightarrow> x \<le> z" by (auto simp: less_eq_key_def)
  show "x \<le> y \<Longrightarrow> y \<le> x \<Longrightarrow> x = y" by (cases x; cases y) (auto simp: less_eq_key_def)
  show "x \<le> y \<or> y \<le> x" by (auto simp: less_eq_key_def)
qed

end

definition KEY_MIN :: key where "KEY_MIN = Key 0 0 0"

definition key_inode :: "u64 \<Rightarrow> key" where "key_inode ino = Key ino KIND_INODE 0"

definition key_range :: "u64 \<Rightarrow> u8 \<Rightarrow> key \<times> key" where
  "key_range ino kind = (Key ino kind 0, Key ino kind (- 1))"

definition KEY_SIZE :: nat where "KEY_SIZE = 24"

definition key_bytes :: "key \<Rightarrow> bytes" where
  "key_bytes k = le_enc 8 (unat (k_inode k)) @ le_enc 8 (unat (k_offset k)) @ [char_of (unat (k_kind k))] @ replicate 7 (CHR 0x00)"

definition key_at :: "bytes \<Rightarrow> nat \<Rightarrow> key" where
  "key_at b off = Key (rd64 b off) (of_nat (of_char (b ! (off + 16)))) (rd64 b (off + 8))"

record superblock =
  sb_generation :: u64
  sb_block_count :: u64
  sb_tree_root :: u64
  sb_bitmap_start :: u64
  sb_bitmap_blocks :: u32
  sb_next_inode :: u64

definition SB_SIZE :: nat where "SB_SIZE = 56"
definition SB_CRC_FROM :: nat where "SB_CRC_FROM = 12"

definition sb_campos :: "superblock \<Rightarrow> bytes" where
  "sb_campos sb = le_enc 8 (unat (sb_generation sb)) @ le_enc 8 (unat (sb_block_count sb)) @
    le_enc 8 (unat (sb_tree_root sb)) @ le_enc 8 (unat (sb_bitmap_start sb)) @
    le_enc 4 (unat (sb_bitmap_blocks sb)) @ le_enc 8 (unat (sb_next_inode sb))"

definition sb_parse :: "(bytes \<Rightarrow> u32) \<Rightarrow> bytes \<Rightarrow> superblock option" where
  "sb_parse crc b =
    (if take 8 b \<noteq> FS_MAGIC then None
     else if crc (take (SB_SIZE - SB_CRC_FROM) (drop SB_CRC_FROM b)) \<noteq> rd32 b 8 then None
     else Some \<lparr>sb_generation = rd64 b 12, sb_block_count = rd64 b 20, sb_tree_root = rd64 b 28,
       sb_bitmap_start = rd64 b 36, sb_bitmap_blocks = rd32 b 44, sb_next_inode = rd64 b 48\<rparr>)"

text \<open>\<open>write_to_block\<close>, on a block of zeros as its only callers give it.\<close>

definition sb_block :: "(bytes \<Rightarrow> u32) \<Rightarrow> superblock \<Rightarrow> bytes" where
  "sb_block crc sb = FS_MAGIC @ le_enc 4 (unat (crc (sb_campos sb))) @ sb_campos sb @ replicate (BLOCK_SIZE - SB_SIZE) (CHR 0x00)"

definition NODE_HEADER_SIZE :: nat where "NODE_HEADER_SIZE = 32"
definition ITEM_PAYLOAD :: nat where "ITEM_PAYLOAD = 272"
definition LEAF_ENTRY :: nat where "LEAF_ENTRY = KEY_SIZE + ITEM_PAYLOAD"
definition LEAF_CAP :: nat where "LEAF_CAP = (BLOCK_SIZE - NODE_HEADER_SIZE) div LEAF_ENTRY"
definition INT_ENTRY :: nat where "INT_ENTRY = KEY_SIZE + 8"
definition INT_CAP :: nat where "INT_CAP = (BLOCK_SIZE - NODE_HEADER_SIZE) div INT_ENTRY"

lemmas fs_consts = KEY_SIZE_def SB_SIZE_def SB_CRC_FROM_def NODE_HEADER_SIZE_def ITEM_PAYLOAD_def LEAF_ENTRY_def
  LEAF_CAP_def INT_ENTRY_def INT_CAP_def BLOCK_SIZE_def NAME_MAX_def EXTENT_MAX_BLOCKS_def

text \<open>The fields of a \<open>NodeHeader\<close>.\<close>

definition nh_crc :: "bytes \<Rightarrow> u32" where "nh_crc b = rd32 b 0"
definition nh_expected :: "bytes \<Rightarrow> nat" where "nh_expected b = unat (rd64 b 12)"
definition nh_level :: "bytes \<Rightarrow> nat" where "nh_level b = of_char (b ! 20)"
definition nh_nkeys :: "bytes \<Rightarrow> nat" where "nh_nkeys b = le_dec (take 2 (drop 22 b))"

text \<open>The payloads, each padded with zeros to the size of an item.\<close>

definition relleno_item :: "bytes \<Rightarrow> bytes" where
  "relleno_item b = b @ replicate (ITEM_PAYLOAD - length b) (CHR 0x00)"

record inode_item =
  ii_type :: u8
  ii_size :: u64
  ii_mtime :: u64

definition inode_bytes :: "inode_item \<Rightarrow> bytes" where
  "inode_bytes i = [char_of (unat (ii_type i))] @ replicate 7 (CHR 0x00) @ le_enc 8 (unat (ii_size i)) @ le_enc 8 (unat (ii_mtime i))"

definition inode_read :: "bytes \<Rightarrow> inode_item" where
  "inode_read p = \<lparr>ii_type = of_nat (of_char (p ! 0)), ii_size = rd64 p 8, ii_mtime = rd64 p 16\<rparr>"

record dirent_item =
  de_child :: u64
  de_name_len :: u8
  de_name :: bytes

definition dirent_bytes :: "dirent_item \<Rightarrow> bytes" where
  "dirent_bytes d = le_enc 8 (unat (de_child d)) @ [char_of (unat (de_name_len d))] @ replicate 7 (CHR 0x00) @ de_name d"

definition dirent_read :: "bytes \<Rightarrow> dirent_item" where
  "dirent_read p = \<lparr>de_child = rd64 p 0, de_name_len = of_nat (of_char (p ! 8)), de_name = take NAME_MAX (drop 16 p)\<rparr>"

definition name_bytes :: "dirent_item \<Rightarrow> bytes" where
  "name_bytes d = take (min (unat (de_name_len d)) NAME_MAX) (de_name d)"

record extent_item =
  ex_start :: u64
  ex_blocks :: u32
  ex_crc :: u32

definition extent_bytes :: "extent_item \<Rightarrow> bytes" where
  "extent_bytes e = le_enc 8 (unat (ex_start e)) @ le_enc 4 (unat (ex_blocks e)) @ le_enc 4 (unat (ex_crc e))"

definition extent_read :: "bytes \<Rightarrow> extent_item" where
  "extent_read p = \<lparr>ex_start = rd64 p 0, ex_blocks = rd32 p 8, ex_crc = rd32 p 12\<rparr>"

definition name_hash :: "bytes \<Rightarrow> u64" where
  "name_hash name = fold (\<lambda>b h. (h XOR of_nat (of_char b)) * 0x100000001b3) name 0xcbf29ce484222325"

section \<open>The state\<close>

datatype fs_error = FsIo | NoValidSuperblock | BadChecksum nat | MisplacedNode nat | FsNotFound | NotADir | NotAFile
  | NameTooLong | NoSpace | FsExists | DirNotEmpty | FsCorrupt | FsPanico

record sosofs =
  fs_dev :: cache_dev
  fs_sb :: superblock
  fs_root :: nat
  fs_leidos :: u64
  fs_next :: u64
  fs_bitmap :: bytes
  fs_frozen :: bytes
  fs_dirty :: bool
  fs_hint :: nat

type_synonym 'a fs_op = "sosofs \<Rightarrow> (fs_error + 'a) \<times> sosofs"

definition bindE :: "('s \<Rightarrow> ('e + 'a) \<times> 's) \<Rightarrow> ('a \<Rightarrow> 's \<Rightarrow> ('e + 'b) \<times> 's) \<Rightarrow> 's \<Rightarrow> ('e + 'b) \<times> 's" where
  "bindE m f s = (case m s of (Inl e, s') \<Rightarrow> (Inl e, s') | (Inr x, s') \<Rightarrow> f x s')"

definition ret :: "'a \<Rightarrow> 's \<Rightarrow> ('e + 'a) \<times> 's" where "ret x s = (Inr x, s)"

definition lanza :: "'e \<Rightarrow> 's \<Rightarrow> ('e + 'a) \<times> 's" where "lanza e s = (Inl e, s)"

lemma bindE_cong [fundef_cong]:
  assumes "s = s'" "m s' = m' s'" "\<And>x t. m' s' = (Inr x, t) \<Longrightarrow> f x t = f' x t"
  shows "bindE m f s = bindE m' f' s'"
  using assms by (auto simp: bindE_def split: prod.splits sum.splits)

fun cada :: "('a \<Rightarrow> 's \<Rightarrow> ('e + unit) \<times> 's) \<Rightarrow> 'a list \<Rightarrow> 's \<Rightarrow> ('e + unit) \<times> 's" where
  "cada f [] s = (Inr (), s)"
| "cada f (x # xs) s = bindE (f x) (\<lambda>_. cada f xs) s"

text \<open>An operation of the device, with every error of it mapped to \<open>Io\<close>.\<close>

definition con_dev :: "(cache_dev \<Rightarrow> (block_error + 'a) \<times> cache_dev) \<Rightarrow> 'a fs_op" where
  "con_dev m s = (case m (fs_dev s) of (r, d) \<Rightarrow> (map_err (\<lambda>_. FsIo) r, s\<lparr>fs_dev := d\<rparr>))"

section \<open>Mounting\<close>

definition mejor_sb :: "superblock option \<Rightarrow> superblock option \<Rightarrow> superblock option" where
  "mejor_sb best sb = (case sb of None \<Rightarrow> best
    | Some x \<Rightarrow> (case best of None \<Rightarrow> Some x | Some b \<Rightarrow> if sb_generation x > sb_generation b then Some x else best))"

definition leer_slot :: "(bytes \<Rightarrow> u32) \<Rightarrow> nat \<Rightarrow> superblock option \<Rightarrow> cache_dev \<Rightarrow> superblock option \<times> cache_dev" where
  "leer_slot crc slot best d =
    (case read_block slot d of (Inl _, d') \<Rightarrow> (best, d') | (Inr buf, d') \<Rightarrow> (mejor_sb best (sb_parse crc buf), d'))"

fun leer_bitmap :: "nat \<Rightarrow> nat \<Rightarrow> cache_dev \<Rightarrow> (fs_error + bytes) \<times> cache_dev" where
  "leer_bitmap start 0 d = (Inr [], d)"
| "leer_bitmap start (Suc n) d =
    (case read_block start d of
      (Inl _, d') \<Rightarrow> (Inl FsIo, d')
    | (Inr buf, d') \<Rightarrow>
        (case leer_bitmap (Suc start) n d' of (Inl e, d'') \<Rightarrow> (Inl e, d'') | (Inr bs, d'') \<Rightarrow> (Inr (buf @ bs), d'')))"

definition mount :: "(bytes \<Rightarrow> u32) \<Rightarrow> cache_dev \<Rightarrow> fs_error + sosofs" where
  "mount crc d0 =
    (case leer_slot crc 0 None d0 of (b1, d1) \<Rightarrow>
     case leer_slot crc 1 b1 d1 of (b2, d2) \<Rightarrow>
     case b2 of None \<Rightarrow> Inl NoValidSuperblock
     | Some sb \<Rightarrow>
        (case leer_bitmap (unat (sb_bitmap_start sb)) (unat (sb_bitmap_blocks sb)) d2 of
          (Inl e, _) \<Rightarrow> Inl e
        | (Inr bm, d3) \<Rightarrow>
            Inr \<lparr>fs_dev = d3, fs_sb = sb, fs_root = unat (sb_tree_root sb), fs_leidos = 0, fs_next = sb_next_inode sb,
              fs_bitmap = bm, fs_frozen = bm, fs_dirty = False, fs_hint = 2\<rparr>))"

section \<open>The allocator\<close>

definition bit_en :: "bytes \<Rightarrow> nat \<Rightarrow> bool" where
  "bit_en m b = bit (of_char (m ! (b div 8)) :: nat) (b mod 8)"

definition pon_bit :: "bool \<Rightarrow> nat \<Rightarrow> bytes \<Rightarrow> bytes" where
  "pon_bit v b m = (let c = (of_char (m ! (b div 8)) :: nat) in
    m[b div 8 := char_of (if v then set_bit (b mod 8) c else unset_bit (b mod 8) c)])"

definition bloque_en_uso :: "sosofs \<Rightarrow> nat \<Rightarrow> bool" where
  "bloque_en_uso s b = (2 \<le> b \<and> b < unat (sb_block_count (fs_sb s)) \<and> bit_en (fs_bitmap s) b)"

definition free_blocks :: "sosofs \<Rightarrow> nat" where
  "free_blocks s = length (filter (\<lambda>b. \<not> bit_en (fs_bitmap s) b) [0..<unat (sb_block_count (fs_sb s))])"

fun ocupado_en :: "bytes \<Rightarrow> bytes \<Rightarrow> nat \<Rightarrow> nat list \<Rightarrow> fs_error + nat option" where
  "ocupado_en bm fz b [] = Inr None"
| "ocupado_en bm fz b (i # is) =
    (if length bm \<le> (b + i) div 8 \<or> length fz \<le> (b + i) div 8 then Inl FsPanico
     else if bit_en bm (b + i) \<or> bit_en fz (b + i) then Inr (Some i)
     else ocupado_en bm fz b is)"

function busca_hueco :: "bytes \<Rightarrow> bytes \<Rightarrow> nat \<Rightarrow> nat \<Rightarrow> nat \<Rightarrow> fs_error + nat option" where
  "busca_hueco bm fz n tot b =
    (if b + n \<le> tot then
      (case ocupado_en bm fz b [0..<n] of
        Inl e \<Rightarrow> Inl e
      | Inr None \<Rightarrow> Inr (Some b)
      | Inr (Some i) \<Rightarrow> busca_hueco bm fz n tot (b + i + 1))
     else Inr None)"
  by pat_completeness auto
termination by (relation "measure (\<lambda>(bm, fz, n, tot, b). Suc tot - b)") auto

definition marca_tramo :: "nat \<Rightarrow> nat \<Rightarrow> sosofs \<Rightarrow> sosofs" where
  "marca_tramo b n s = s\<lparr>fs_bitmap := fold (\<lambda>i. pon_bit True (b + i)) [0..<n] (fs_bitmap s), fs_hint := b + n, fs_dirty := True\<rparr>"

definition alloc_run :: "nat \<Rightarrow> nat fs_op" where
  "alloc_run n s =
    (let tot = unat (sb_block_count (fs_sb s)) in
     case busca_hueco (fs_bitmap s) (fs_frozen s) n tot (max (fs_hint s) 2) of
       Inl e \<Rightarrow> (Inl e, s)
     | Inr (Some b) \<Rightarrow> (Inr b, marca_tramo b n s)
     | Inr None \<Rightarrow>
        (case busca_hueco (fs_bitmap s) (fs_frozen s) n tot 2 of
          Inl e \<Rightarrow> (Inl e, s)
        | Inr (Some b) \<Rightarrow> (Inr b, marca_tramo b n s)
        | Inr None \<Rightarrow> (Inl NoSpace, s)))"

function alloc_extent_loop :: "nat \<Rightarrow> (nat \<times> nat) fs_op" where
  "alloc_extent_loop n s =
    (case alloc_run n s of
      (Inr start, s') \<Rightarrow> (Inr (start, n), s')
    | (Inl e, s') \<Rightarrow> if e = NoSpace \<and> n > 1 then alloc_extent_loop (n div 2) s' else (Inl e, s'))"
  by pat_completeness auto
termination by (relation "measure fst") auto

definition alloc_extent :: "nat \<Rightarrow> (nat \<times> nat) fs_op" where
  "alloc_extent want = alloc_extent_loop (max want 1)"

definition free_block :: "nat \<Rightarrow> unit fs_op" where
  "free_block b s =
    (if length (fs_bitmap s) \<le> b div 8 then (Inl FsPanico, s)
     else (Inr (), s\<lparr>fs_bitmap := pon_bit False b (fs_bitmap s), fs_dirty := True\<rparr>))"

section \<open>Nodes\<close>

datatype node_data = Leaf "(key \<times> bytes) list" | Internal "(key \<times> nat) list"

definition read_node :: "(bytes \<Rightarrow> u32) \<Rightarrow> nat \<Rightarrow> bytes fs_op" where
  "read_node crc b s0 =
    (let s = s0\<lparr>fs_leidos := fs_leidos s0 + 1\<rparr> in
     case read_block b (fs_dev s) of
       (Inl _, d) \<Rightarrow> (Inl FsIo, s\<lparr>fs_dev := d\<rparr>)
     | (Inr buf, d) \<Rightarrow>
        if \<not> ca_acierto d \<and> crc (drop 4 buf) \<noteq> nh_crc buf
        then (Inl (BadChecksum b), s\<lparr>fs_dev := cache_invalidate b d\<rparr>)
        else if \<not> ca_acierto d \<and> nh_expected buf \<noteq> b
        then (Inl (MisplacedNode b), s\<lparr>fs_dev := cache_invalidate b d\<rparr>)
        else (Inr buf, s\<lparr>fs_dev := d\<rparr>))"

definition hoja_entradas :: "bytes \<Rightarrow> (key \<times> bytes) list" where
  "hoja_entradas node = map (\<lambda>i. let off = NODE_HEADER_SIZE + i * LEAF_ENTRY in
     (key_at node off, take ITEM_PAYLOAD (drop (off + KEY_SIZE) node))) [0..<nh_nkeys node]"

definition interno_entradas :: "bytes \<Rightarrow> (key \<times> nat) list" where
  "interno_entradas node = map (\<lambda>i. let off = NODE_HEADER_SIZE + i * INT_ENTRY in
     (key_at node off, unat (rd64 node (off + KEY_SIZE)))) [0..<nh_nkeys node]"

definition parse_node :: "(bytes \<Rightarrow> u32) \<Rightarrow> nat \<Rightarrow> node_data fs_op" where
  "parse_node crc b = bindE (read_node crc b) (\<lambda>node.
    if nh_level node = 0 then
      if nh_nkeys node > LEAF_CAP then lanza FsCorrupt else ret (Leaf (hoja_entradas node))
    else if nh_nkeys node > INT_CAP then lanza FsCorrupt else ret (Internal (interno_entradas node)))"

definition node_level :: "(bytes \<Rightarrow> u32) \<Rightarrow> nat \<Rightarrow> nat fs_op" where
  "node_level crc b = bindE (read_node crc b) (\<lambda>node. ret (nh_level node))"

fun nodo_claves :: "node_data \<Rightarrow> key list" where
  "nodo_claves (Leaf v) = map fst v"
| "nodo_claves (Internal v) = map fst v"

fun nodo_cuerpo :: "node_data \<Rightarrow> bytes" where
  "nodo_cuerpo (Leaf v) = concat (map (\<lambda>(k, p). key_bytes k @ p) v)"
| "nodo_cuerpo (Internal v) = concat (map (\<lambda>(k, c). key_bytes k @ le_enc 8 c) v)"

text \<open>The block of a node: its header with the checksum in front of everything else, then the entries one
  after another from \<open>NODE_HEADER_SIZE\<close>, then zeros.\<close>

definition nodo_resto :: "u64 \<Rightarrow> nat \<Rightarrow> nat \<Rightarrow> node_data \<Rightarrow> bytes" where
  "nodo_resto gen block level nd =
    le_enc 8 (unat gen) @ le_enc 8 block @ [char_of level, CHR 0x00] @ le_enc 2 (length (nodo_claves nd)) @ replicate 8 (CHR 0x00) @
    nodo_cuerpo nd @ replicate (BLOCK_SIZE - NODE_HEADER_SIZE - length (nodo_cuerpo nd)) (CHR 0x00)"

definition nodo_bloque :: "(bytes \<Rightarrow> u32) \<Rightarrow> u64 \<Rightarrow> nat \<Rightarrow> nat \<Rightarrow> node_data \<Rightarrow> bytes" where
  "nodo_bloque crc gen block level nd =
    (let r = nodo_resto gen block level nd in le_enc 4 (unat (crc r)) @ r)"

definition clave_min :: "node_data \<Rightarrow> key" where
  "clave_min nd = (case nodo_claves nd of [] \<Rightarrow> KEY_MIN | k # _ \<Rightarrow> k)"

definition write_node :: "(bytes \<Rightarrow> u32) \<Rightarrow> nat \<Rightarrow> node_data \<Rightarrow> (nat \<times> key) fs_op" where
  "write_node crc level nd = bindE (alloc_run 1) (\<lambda>block s.
    if BLOCK_SIZE < NODE_HEADER_SIZE + length (nodo_cuerpo nd) \<or> sb_generation (fs_sb s) = - 1 then (Inl FsPanico, s)
    else bindE (con_dev (write_block block (nodo_bloque crc (sb_generation (fs_sb s) + 1) block level nd)))
      (\<lambda>_. ret (block, clave_min nd)) s)"

section \<open>Reading the tree\<close>

definition PROFUNDIDAD :: nat where "PROFUNDIDAD = 256"

definition en_rango :: "key \<Rightarrow> key \<Rightarrow> key \<Rightarrow> bool" where
  "en_rango mn mx k = (mn \<le> k \<and> k \<le> mx)"

definition cubre :: "key \<Rightarrow> key \<Rightarrow> key \<Rightarrow> (key \<times> nat) list \<Rightarrow> bool" where
  "cubre mn mx low resto = (low \<le> mx \<and> (case resto of [] \<Rightarrow> True | (h, _) # _ \<Rightarrow> h > mn))"

function scan_node :: "(bytes \<Rightarrow> u32) \<Rightarrow> nat \<Rightarrow> nat \<Rightarrow> key \<Rightarrow> key \<Rightarrow> (key \<times> bytes) list fs_op"
  and scan_hijos :: "(bytes \<Rightarrow> u32) \<Rightarrow> nat \<Rightarrow> (key \<times> nat) list \<Rightarrow> key \<Rightarrow> key \<Rightarrow> (key \<times> bytes) list fs_op" where
  "scan_node crc 0 b mn mx s = (Inl FsPanico, s)"
| "scan_node crc (Suc n) b mn mx s = bindE (read_node crc b) (\<lambda>node s1.
    if nh_level node = 0 then
      if nh_nkeys node > LEAF_CAP then (Inl FsCorrupt, s1)
      else (Inr (filter (\<lambda>(k, _). en_rango mn mx k) (hoja_entradas node)), s1)
    else if nh_nkeys node > INT_CAP then (Inl FsCorrupt, s1)
    else scan_hijos crc n (interno_entradas node) mn mx s1) s"
| "scan_hijos crc n [] mn mx s = (Inr [], s)"
| "scan_hijos crc n ((low, child) # v) mn mx s =
    (if cubre mn mx low v
     then bindE (scan_node crc n child mn mx) (\<lambda>out s1. bindE (scan_hijos crc n v mn mx) (\<lambda>out' s2. (Inr (out @ out'), s2)) s1) s
     else scan_hijos crc n v mn mx s)"
  by pat_completeness auto
termination
  by (relation "measures [\<lambda>x. case x of Inl (_, n, _) \<Rightarrow> n | Inr (_, n, _) \<Rightarrow> n,
        \<lambda>x. case x of Inl _ \<Rightarrow> 0 | Inr (_, _, v, _) \<Rightarrow> Suc (length v)]") auto

definition scan_range :: "(bytes \<Rightarrow> u32) \<Rightarrow> key \<Rightarrow> key \<Rightarrow> (key \<times> bytes) list fs_op" where
  "scan_range crc mn mx s = scan_node crc PROFUNDIDAD (fs_root s) mn mx s"

function find_node :: "(bytes \<Rightarrow> u32) \<Rightarrow> nat \<Rightarrow> nat \<Rightarrow> key \<Rightarrow> key \<Rightarrow> (bytes \<Rightarrow> bool) \<Rightarrow> (key \<times> bytes) option fs_op"
  and find_hijos :: "(bytes \<Rightarrow> u32) \<Rightarrow> nat \<Rightarrow> (key \<times> nat) list \<Rightarrow> key \<Rightarrow> key \<Rightarrow> (bytes \<Rightarrow> bool) \<Rightarrow> (key \<times> bytes) option fs_op" where
  "find_node crc 0 b mn mx pr s = (Inl FsPanico, s)"
| "find_node crc (Suc n) b mn mx pr s = bindE (read_node crc b) (\<lambda>node s1.
    if nh_level node = 0 then
      if nh_nkeys node > LEAF_CAP then (Inl FsCorrupt, s1)
      else (Inr (List.find (\<lambda>(k, p). en_rango mn mx k \<and> pr p) (hoja_entradas node)), s1)
    else if nh_nkeys node > INT_CAP then (Inl FsCorrupt, s1)
    else find_hijos crc n (interno_entradas node) mn mx pr s1) s"
| "find_hijos crc n [] mn mx pr s = (Inr None, s)"
| "find_hijos crc n ((low, child) # v) mn mx pr s =
    (if cubre mn mx low v
     then bindE (find_node crc n child mn mx pr) (\<lambda>hit s1.
       case hit of Some h \<Rightarrow> (Inr (Some h), s1) | None \<Rightarrow> find_hijos crc n v mn mx pr s1) s
     else find_hijos crc n v mn mx pr s)"
  by pat_completeness auto
termination
  by (relation "measures [\<lambda>x. case x of Inl (_, n, _) \<Rightarrow> n | Inr (_, n, _) \<Rightarrow> n,
        \<lambda>x. case x of Inl _ \<Rightarrow> 0 | Inr (_, _, v, _) \<Rightarrow> Suc (length v)]") auto

definition find_first :: "(bytes \<Rightarrow> u32) \<Rightarrow> key \<Rightarrow> key \<Rightarrow> (bytes \<Rightarrow> bool) \<Rightarrow> (key \<times> bytes) option fs_op" where
  "find_first crc mn mx pr s = find_node crc PROFUNDIDAD (fs_root s) mn mx pr s"

end
