(* ===== verification/Sosofs_Escritura.thy ===== *)
theory Sosofs_Escritura
  imports Sosofs
begin

text \<open>
  The rest of \<open>crates/sosofs/src/fs.rs\<close> and \<open>write.rs\<close>: insertion and deletion in the tree, the commit of a
  transaction, and the operations on files, each of which is one transaction.
\<close>

section \<open>Insertion and deletion\<close>

text \<open>\<open>binary_search_by_key\<close> on a list in ascending order: \<open>Inr\<close> the position of the key, \<open>Inl\<close> the one
  where it would go.\<close>

definition bin_search :: "key list \<Rightarrow> key \<Rightarrow> nat + nat" where
  "bin_search ks k = (case posicion (\<lambda>x. k \<le> x) ks of
     None \<Rightarrow> Inl (length ks) | Some i \<Rightarrow> if ks ! i = k then Inr i else Inl i)"

definition hijo_idx :: "(key \<times> nat) list \<Rightarrow> key \<Rightarrow> nat" where
  "hijo_idx v k = (case bin_search (map fst v) k of Inr i \<Rightarrow> i | Inl i \<Rightarrow> i - 1)"

definition inserta_en :: "nat \<Rightarrow> 'a \<Rightarrow> 'a list \<Rightarrow> 'a list" where
  "inserta_en i x xs = take i xs @ x # drop i xs"

definition quita_en :: "nat \<Rightarrow> 'a list \<Rightarrow> 'a list" where
  "quita_en i xs = take i xs @ drop (Suc i) xs"

definition hoja_upsert :: "(key \<times> bytes) list \<Rightarrow> key \<Rightarrow> bytes \<Rightarrow> (key \<times> bytes) list" where
  "hoja_upsert v k p = (case bin_search (map fst v) k of Inr i \<Rightarrow> v[i := (fst (v ! i), p)] | Inl i \<Rightarrow> inserta_en i (k, p) v)"

record cow =
  cow_block :: nat
  cow_min :: key
  cow_split :: "(key \<times> nat) option"

fun parte_nodo :: "node_data \<Rightarrow> node_data \<times> node_data" where
  "parte_nodo (Leaf v) = (Leaf (take (length v div 2) v), Leaf (drop (length v div 2) v))"
| "parte_nodo (Internal v) = (Internal (take (length v div 2) v), Internal (drop (length v div 2) v))"

definition write_split :: "(bytes \<Rightarrow> u32) \<Rightarrow> nat \<Rightarrow> bool \<Rightarrow> node_data \<Rightarrow> cow fs_op" where
  "write_split crc level overflow nd =
    (if \<not> overflow then bindE (write_node crc level nd) (\<lambda>(b, mn). ret \<lparr>cow_block = b, cow_min = mn, cow_split = None\<rparr>)
     else case parte_nodo nd of (izq, der) \<Rightarrow>
       bindE (write_node crc level izq) (\<lambda>(lb, lmin).
       bindE (write_node crc level der) (\<lambda>(rb, rmin).
       ret \<lparr>cow_block = lb, cow_min = lmin, cow_split = Some (rmin, rb)\<rparr>)))"

definition con_hijo :: "(key \<times> nat) list \<Rightarrow> nat \<Rightarrow> cow \<Rightarrow> (key \<times> nat) list" where
  "con_hijo v idx c = (let v1 = v[idx := (cow_min c, cow_block c)] in
    case cow_split c of None \<Rightarrow> v1 | Some x \<Rightarrow> inserta_en (Suc idx) x v1)"

fun insert_rec :: "(bytes \<Rightarrow> u32) \<Rightarrow> nat \<Rightarrow> nat \<Rightarrow> key \<Rightarrow> bytes \<Rightarrow> cow fs_op" where
  "insert_rec crc block level k p s = bindE (parse_node crc block) (\<lambda>nd s1. case nd of
      Leaf v \<Rightarrow> (let v' = hoja_upsert v k p in
        bindE (free_block block) (\<lambda>_. write_split crc 0 (length v' > LEAF_CAP) (Leaf v')) s1)
    | Internal v \<Rightarrow>
        if v = [] \<or> level = 0 then (Inl FsPanico, s1)
        else bindE (insert_rec crc (snd (v ! hijo_idx v k)) (level - 1) k p) (\<lambda>c s2.
          let v' = con_hijo v (hijo_idx v k) c in
          bindE (free_block block) (\<lambda>_. write_split crc level (length v' > INT_CAP) (Internal v')) s2) s1) s"

definition pon_raiz :: "nat \<Rightarrow> unit fs_op" where
  "pon_raiz b s = (Inr (), s\<lparr>fs_root := b\<rparr>)"

definition tree_insert :: "(bytes \<Rightarrow> u32) \<Rightarrow> key \<Rightarrow> bytes \<Rightarrow> unit fs_op" where
  "tree_insert crc k p s =
    bindE (node_level crc (fs_root s)) (\<lambda>level.
    bindE (insert_rec crc (fs_root s) level k p) (\<lambda>c.
      case cow_split c of
        None \<Rightarrow> pon_raiz (cow_block c)
      | Some x \<Rightarrow>
          if level = 255 then lanza FsPanico
          else bindE (write_node crc (level + 1) (Internal [(cow_min c, cow_block c), x])) (\<lambda>(nb, _). pon_raiz nb))) s"

fun delete_rec :: "(bytes \<Rightarrow> u32) \<Rightarrow> nat \<Rightarrow> nat \<Rightarrow> key \<Rightarrow> (nat \<times> key) option fs_op" where
  "delete_rec crc block level k s = bindE (parse_node crc block) (\<lambda>nd s1. case nd of
      Leaf v \<Rightarrow>
        (case bin_search (map fst v) k of
          Inl _ \<Rightarrow> (Inl FsNotFound, s1)
        | Inr i \<Rightarrow> (let v' = quita_en i v in
            bindE (free_block block) (\<lambda>_. if v' = [] then ret None
              else bindE (write_node crc 0 (Leaf v')) (\<lambda>x. ret (Some x))) s1))
    | Internal v \<Rightarrow>
        if v = [] \<or> level = 0 then (Inl FsPanico, s1)
        else bindE (delete_rec crc (snd (v ! hijo_idx v k)) (level - 1) k) (\<lambda>r s2.
          let v' = (case r of Some (nb, nmin) \<Rightarrow> v[hijo_idx v k := (nmin, nb)] | None \<Rightarrow> quita_en (hijo_idx v k) v) in
          bindE (free_block block) (\<lambda>_. if v' = [] then ret None
            else bindE (write_node crc level (Internal v')) (\<lambda>x. ret (Some x))) s2) s1) s"

fun encoge :: "(bytes \<Rightarrow> u32) \<Rightarrow> nat \<Rightarrow> unit fs_op" where
  "encoge crc 0 s = (Inl FsPanico, s)"
| "encoge crc (Suc n) s = bindE (parse_node crc (fs_root s)) (\<lambda>nd. case nd of
      Internal [x] \<Rightarrow> bindE (\<lambda>s. free_block (fs_root s) s) (\<lambda>_. bindE (pon_raiz (snd x)) (\<lambda>_. encoge crc n))
    | _ \<Rightarrow> ret ()) s"

definition tree_delete :: "(bytes \<Rightarrow> u32) \<Rightarrow> key \<Rightarrow> unit fs_op" where
  "tree_delete crc k s =
    bindE (node_level crc (fs_root s)) (\<lambda>level.
    bindE (delete_rec crc (fs_root s) level k) (\<lambda>r.
    bindE (case r of Some (nb, _) \<Rightarrow> pon_raiz nb
           | None \<Rightarrow> bindE (write_node crc 0 (Leaf [])) (\<lambda>(nb, _). pon_raiz nb)) (\<lambda>_.
    encoge crc PROFUNDIDAD))) s"

section \<open>Looking things up\<close>

definition dirent_buscar :: "(bytes \<Rightarrow> u32) \<Rightarrow> u64 \<Rightarrow> bytes \<Rightarrow> (key \<times> dirent_item) option fs_op" where
  "dirent_buscar crc dir name =
    (let pr = (\<lambda>p. name_bytes (dirent_read p) = name); h = name_hash name;
         con = map_option (\<lambda>(k, p). (k, dirent_read p)) in
     bindE (find_first crc (Key dir KIND_DIRENT h) (Key dir KIND_DIRENT (- 1)) pr) (\<lambda>hit.
       if hit \<noteq> None then ret (con hit)
       else if h = 0 then ret None
       else bindE (find_first crc (Key dir KIND_DIRENT 0) (Key dir KIND_DIRENT (h - 1)) pr) (\<lambda>hit. ret (con hit))))"

definition stat_inode :: "(bytes \<Rightarrow> u32) \<Rightarrow> u64 \<Rightarrow> inode_item fs_op" where
  "stat_inode crc ino = bindE (find_first crc (key_inode ino) (key_inode ino) (\<lambda>_. True)) (\<lambda>hit.
    case hit of None \<Rightarrow> lanza FsNotFound | Some (_, p) \<Rightarrow> ret (inode_read p))"

definition lookup :: "(bytes \<Rightarrow> u32) \<Rightarrow> u64 \<Rightarrow> bytes \<Rightarrow> u64 fs_op" where
  "lookup crc dir name = (if length name > NAME_MAX then lanza NameTooLong
    else bindE (dirent_buscar crc dir name) (\<lambda>hit.
      case hit of None \<Rightarrow> lanza FsNotFound | Some (_, de) \<Rightarrow> ret (de_child de)))"

fun resolve_comps :: "(bytes \<Rightarrow> u32) \<Rightarrow> u64 \<Rightarrow> bytes list \<Rightarrow> u64 fs_op" where
  "resolve_comps crc ino [] s = (Inr ino, s)"
| "resolve_comps crc ino (c # cs) s = bindE (stat_inode crc ino) (\<lambda>st.
    if ii_type st \<noteq> FT_DIR then lanza NotADir
    else bindE (lookup crc ino c) (\<lambda>ino'. resolve_comps crc ino' cs)) s"

definition resolve :: "(bytes \<Rightarrow> u32) \<Rightarrow> bytes \<Rightarrow> u64 fs_op" where
  "resolve crc path = resolve_comps crc ROOT_INODE (filter (\<lambda>c. c \<noteq> [] \<and> c \<noteq> ''.'') (split_on (CHR ''/'') path))"

section \<open>Transactions\<close>

definition asignado :: "sosofs \<Rightarrow> nat \<Rightarrow> bool" where
  "asignado s b = (2 \<le> b \<and> b < unat (sb_block_count (fs_sb s)) \<and> bit_en (fs_bitmap s) b)"

definition clave_minima_y_nivel :: "(bytes \<Rightarrow> u32) \<Rightarrow> nat \<Rightarrow> (key \<times> nat) fs_op" where
  "clave_minima_y_nivel crc b = bindE (read_node crc b) (\<lambda>node.
    if nh_nkeys node = 0 then lanza FsCorrupt else ret (key_at node NODE_HEADER_SIZE, nh_level node))"

definition comprobar_hijo :: "(bytes \<Rightarrow> u32) \<Rightarrow> nat \<Rightarrow> key \<times> nat \<Rightarrow> unit fs_op" where
  "comprobar_hijo crc nivel = (\<lambda>(sep, hijo) s.
    if \<not> asignado s hijo then (Inl FsCorrupt, s)
    else bindE (clave_minima_y_nivel crc hijo) (\<lambda>(mn, nivel_hijo).
      if mn \<noteq> sep then lanza FsCorrupt
      else if nivel_hijo = 255 then lanza FsPanico
      else if nivel_hijo + 1 \<noteq> nivel then lanza FsCorrupt else ret ())
      (s\<lparr>fs_dev := cache_invalidate hijo (fs_dev s)\<rparr>))"

definition comprobar_raiz_publicable :: "(bytes \<Rightarrow> u32) \<Rightarrow> unit fs_op" where
  "comprobar_raiz_publicable crc s0 =
    (let s = s0\<lparr>fs_dev := cache_clear (fs_dev s0)\<rparr>; root = fs_root s in
     if \<not> asignado s root then (Inl FsCorrupt, s)
     else bindE (node_level crc root) (\<lambda>nivel.
       bindE (if nivel > 0
              then bindE (parse_node crc root) (\<lambda>nd. case nd of
                  Leaf _ \<Rightarrow> lanza FsCorrupt
                | Internal hijos \<Rightarrow> cada (comprobar_hijo crc nivel) hijos)
              else ret ()) (\<lambda>_.
       bindE (stat_inode crc ROOT_INODE) (\<lambda>st.
         if ii_type st \<noteq> FT_DIR then lanza FsCorrupt else ret ()))) s)"

definition rollback :: "sosofs \<Rightarrow> sosofs" where
  "rollback s = s\<lparr>fs_bitmap := fs_frozen s, fs_root := unat (sb_tree_root (fs_sb s)), fs_next := sb_next_inode (fs_sb s),
    fs_dirty := False, fs_hint := 2\<rparr>"

definition sb_nuevo :: "nat \<Rightarrow> nat \<Rightarrow> sosofs \<Rightarrow> superblock" where
  "sb_nuevo start nblocks s = \<lparr>sb_generation = sb_generation (fs_sb s) + 1, sb_block_count = sb_block_count (fs_sb s),
    sb_tree_root = of_nat (fs_root s), sb_bitmap_start = of_nat start, sb_bitmap_blocks = of_nat nblocks, sb_next_inode = fs_next s\<rparr>"

definition escribe_bitmap :: "nat \<Rightarrow> nat \<Rightarrow> unit fs_op" where
  "escribe_bitmap start i s = con_dev (write_block (start + i) (take BLOCK_SIZE (drop (i * BLOCK_SIZE) (fs_bitmap s)))) s"

definition publica :: "(bytes \<Rightarrow> u32) \<Rightarrow> nat \<Rightarrow> nat \<Rightarrow> unit fs_op" where
  "publica crc start nblocks s =
    (if sb_generation (fs_sb s) = - 1 then (Inl FsPanico, s)
     else let sb = sb_nuevo start nblocks s in
       bindE (con_dev (write_block (unat (sb_generation sb) mod 2) (sb_block crc sb))) (\<lambda>_.
       bindE (con_dev cache_flush) (\<lambda>_ s.
         (Inr (), s\<lparr>fs_sb := sb, fs_frozen := fs_bitmap s, fs_dirty := False\<rparr>))) s)"

definition commit :: "(bytes \<Rightarrow> u32) \<Rightarrow> unit fs_op" where
  "commit crc s =
    (if \<not> fs_dirty s then (Inr (), s)
     else case comprobar_raiz_publicable crc s of
       (Inl e, s1) \<Rightarrow> (Inl e, if e = FsPanico then s1 else rollback s1)
     | (Inr _, s1) \<Rightarrow>
        let old_start = unat (sb_bitmap_start (fs_sb s1)); old_blocks = unat (sb_bitmap_blocks (fs_sb s1));
            nblocks = length (fs_bitmap s1) div BLOCK_SIZE in
        bindE (cada (\<lambda>i. free_block (old_start + i)) [0..<old_blocks]) (\<lambda>_.
        bindE (alloc_run nblocks) (\<lambda>new_start.
        bindE (cada (escribe_bitmap new_start) [0..<nblocks]) (\<lambda>_.
        bindE (con_dev cache_flush) (\<lambda>_.
        publica crc new_start nblocks)))) s1)"

definition vec_resize :: "nat \<Rightarrow> bytes \<Rightarrow> bytes" where
  "vec_resize n xs = take n xs @ replicate (n - length xs) (CHR 0x00)"

definition div_ceil :: "nat \<Rightarrow> nat \<Rightarrow> nat" where
  "div_ceil a b = (a + b - 1) div b"

definition grow_to :: "(bytes \<Rightarrow> u32) \<Rightarrow> u64 \<Rightarrow> unit fs_op" where
  "grow_to crc new_count s0 =
    (if new_count \<le> sb_block_count (fs_sb s0) then (Inr (), s0)
     else if unat new_count > di_count (ca_inner (fs_dev s0)) then (Inl NoSpace, s0)
     else let s = (if fs_dirty s0 then rollback s0 else s0);
              nb = div_ceil (unat new_count) (BLOCK_SIZE * 8) * BLOCK_SIZE in
       commit crc (s\<lparr>fs_bitmap := vec_resize nb (fs_bitmap s), fs_frozen := vec_resize nb (fs_frozen s),
         fs_sb := (fs_sb s)\<lparr>sb_block_count := new_count\<rparr>, fs_dirty := True\<rparr>))"

definition finish :: "(bytes \<Rightarrow> u32) \<Rightarrow> (fs_error + 'a) \<times> sosofs \<Rightarrow> (fs_error + 'a) \<times> sosofs" where
  "finish crc rs =
    (case rs of
      (Inr v, s) \<Rightarrow>
        (case commit crc s of
          (Inr _, s') \<Rightarrow> (Inr v, s')
        | (Inl e, s') \<Rightarrow> (Inl e, if e = FsPanico then s' else rollback s'))
    | (Inl e, s) \<Rightarrow> (Inl e, if e = FsPanico then s else rollback s))"

section \<open>Reading files\<close>

text \<open>The blocks of an extent, in requests of at most what the device takes.\<close>

function lee_tramo :: "nat \<Rightarrow> nat \<Rightarrow> nat \<Rightarrow> nat \<Rightarrow> bytes fs_op" where
  "lee_tramo mx start nblocks i s =
    (if i < nblocks then
      (let n = min (nblocks - i) (max mx 1) in
       bindE (con_dev (read_blocks (start + i) n)) (\<lambda>b. bindE (lee_tramo mx start nblocks (i + n)) (\<lambda>bs. ret (b @ bs))) s)
     else (Inr [], s))"
  by pat_completeness auto
termination by (relation "measure (\<lambda>(mx, start, nblocks, i, s). nblocks - i)") auto

definition lee_extent :: "(bytes \<Rightarrow> u32) \<Rightarrow> nat \<Rightarrow> nat \<Rightarrow> nat \<Rightarrow> key \<times> bytes \<Rightarrow> nat \<times> bytes \<Rightarrow> (nat \<times> bytes) fs_op" where
  "lee_extent crc tam offset fin = (\<lambda>(k, p) (written, out) s.
    let ext = extent_read p; nblocks = unat (ex_blocks ext); ext_start = unat (k_offset k) in
    if nblocks = 0 \<or> nblocks > EXTENT_MAX_BLOCKS then (Inl FsCorrupt, s)
    else if ext_start + nblocks * BLOCK_SIZE \<le> offset \<or> fin \<le> ext_start then (Inr (written, out), s)
    else bindE (lee_tramo (di_max (ca_inner (fs_dev s))) (unat (ex_start ext)) nblocks 0) (\<lambda>chunk.
      if crc chunk \<noteq> ex_crc ext then lanza (BadChecksum (unat (ex_start ext)))
      else let chunk' = take (tam - ext_start) chunk;
               copy_start = offset - ext_start; copy_end = min (fin - ext_start) (length chunk') in
        if copy_start < copy_end then
          let n = copy_end - copy_start in
          if written + n > length out then lanza FsCorrupt
          else ret (written + n, pon written (take n (drop copy_start chunk')) out)
        else ret (written, out)) s)"

primrec lee_extents :: "(bytes \<Rightarrow> u32) \<Rightarrow> nat \<Rightarrow> nat \<Rightarrow> nat \<Rightarrow> (key \<times> bytes) list \<Rightarrow> nat \<times> bytes \<Rightarrow> (nat \<times> bytes) fs_op" where
  "lee_extents crc tam offset fin [] wo = ret wo"
| "lee_extents crc tam offset fin (e # es) wo = bindE (lee_extent crc tam offset fin e wo) (lee_extents crc tam offset fin es)"

definition read_file_range :: "(bytes \<Rightarrow> u32) \<Rightarrow> u64 \<Rightarrow> nat \<Rightarrow> nat \<Rightarrow> bytes \<Rightarrow> bytes fs_op" where
  "read_file_range crc ino offset len out =
    (if length out < len then lanza FsCorrupt
     else bindE (stat_inode crc ino) (\<lambda>st.
       if ii_type st \<noteq> FT_FILE then lanza NotAFile
       else let tam = unat (ii_size st) in
         if offset > tam \<or> offset + len > tam then lanza FsCorrupt
         else if len = 0 then ret out
         else bindE (scan_range crc (fst (key_range ino KIND_EXTENT)) (snd (key_range ino KIND_EXTENT))) (\<lambda>extents.
           bindE (lee_extents crc tam offset (offset + len) extents (0, out)) (\<lambda>(written, out').
             if written \<noteq> len then lanza FsCorrupt else ret out'))))"

definition read_file :: "(bytes \<Rightarrow> u32) \<Rightarrow> u64 \<Rightarrow> bytes fs_op" where
  "read_file crc ino = bindE (stat_inode crc ino) (\<lambda>st.
    let tam = unat (ii_size st) in read_file_range crc ino 0 tam (replicate tam (CHR 0x00)))"

section \<open>Operations on files\<close>

text \<open>\<open>is_ok()\<close> and \<open>if let Ok(..)\<close> on an operation.\<close>

definition intenta :: "'a fs_op \<Rightarrow> 'a option fs_op" where
  "intenta m s = (case m s of (Inr x, s') \<Rightarrow> (Inr (Some x), s')
    | (Inl e, s') \<Rightarrow> (if e = FsPanico then Inl FsPanico else Inr None, s'))"

definition check_dir :: "(bytes \<Rightarrow> u32) \<Rightarrow> u64 \<Rightarrow> unit fs_op" where
  "check_dir crc dir = bindE (stat_inode crc dir) (\<lambda>st. if ii_type st \<noteq> FT_DIR then lanza NotADir else ret ())"

definition nombre_dirent :: "bytes \<Rightarrow> u64 \<Rightarrow> dirent_item" where
  "nombre_dirent name child = \<lparr>de_child = child, de_name_len = of_nat (length name),
    de_name = name @ replicate (NAME_MAX - length name) (CHR 0x00)\<rparr>"

text \<open>The linear probe.  After \<open>2 ^ 64\<close> occupied offsets it is back where it began and never ends.\<close>

function sondeo :: "(bytes \<Rightarrow> u32) \<Rightarrow> u64 \<Rightarrow> bytes \<Rightarrow> nat \<Rightarrow> u64 \<Rightarrow> unit fs_op" where
  "sondeo crc dir p n off s =
    (if n < 2 ^ 64 then
      bindE (scan_range crc (Key dir KIND_DIRENT off) (Key dir KIND_DIRENT off)) (\<lambda>out.
        if out = [] then tree_insert crc (Key dir KIND_DIRENT off) p
        else sondeo crc dir p (n + 1) (off + 1)) s
     else (Inl FsPanico, s))"
  by pat_completeness auto
termination by (relation "measure (\<lambda>(crc, dir, p, n, off, s). 2 ^ 64 - n)") auto

definition insert_dirent :: "(bytes \<Rightarrow> u32) \<Rightarrow> u64 \<Rightarrow> bytes \<Rightarrow> u64 \<Rightarrow> unit fs_op" where
  "insert_dirent crc dir name child =
    (if length name > NAME_MAX \<or> name = [] then lanza NameTooLong
     else sondeo crc dir (relleno_item (dirent_bytes (nombre_dirent name child))) 0 (name_hash name))"

definition dirent_key :: "(bytes \<Rightarrow> u32) \<Rightarrow> u64 \<Rightarrow> bytes \<Rightarrow> key fs_op" where
  "dirent_key crc dir name =
    bindE (scan_range crc (fst (key_range dir KIND_DIRENT)) (snd (key_range dir KIND_DIRENT))) (\<lambda>out.
      case List.find (\<lambda>(k, p). name_bytes (dirent_read p) = name) out of
        None \<Rightarrow> lanza FsNotFound | Some (k, _) \<Rightarrow> ret k)"

definition pon_inode :: "(bytes \<Rightarrow> u32) \<Rightarrow> u64 \<Rightarrow> inode_item \<Rightarrow> unit fs_op" where
  "pon_inode crc ino i = tree_insert crc (key_inode ino) (relleno_item (inode_bytes i))"

definition toma_inode :: "u64 fs_op" where
  "toma_inode s = (if fs_next s = - 1 then (Inl FsPanico, s) else (Inr (fs_next s), s\<lparr>fs_next := fs_next s + 1\<rparr>))"

definition mkdir_inner :: "(bytes \<Rightarrow> u32) \<Rightarrow> u64 \<Rightarrow> bytes \<Rightarrow> u64 \<Rightarrow> u64 fs_op" where
  "mkdir_inner crc dir name mtime =
    bindE (check_dir crc dir) (\<lambda>_.
    bindE (intenta (lookup crc dir name)) (\<lambda>r.
    if r \<noteq> None then lanza FsExists
    else bindE toma_inode (\<lambda>ino.
      bindE (pon_inode crc ino \<lparr>ii_type = FT_DIR, ii_size = 0, ii_mtime = mtime\<rparr>) (\<lambda>_.
      bindE (insert_dirent crc dir name ino) (\<lambda>_. ret ino)))))"

definition escribe_bloques :: "nat \<Rightarrow> bytes \<Rightarrow> nat \<Rightarrow> unit fs_op" where
  "escribe_bloques start padded j = con_dev (write_block (start + j) (take BLOCK_SIZE (drop (j * BLOCK_SIZE) padded)))"

lemma alloc_extent_loop_pos: "alloc_extent_loop n s = (Inr (b, got), s') \<Longrightarrow> n > 0 \<Longrightarrow> got > 0"
  by (induction n s rule: alloc_extent_loop.induct)
     (subst (asm) alloc_extent_loop.simps, auto split: prod.splits sum.splits if_splits)

lemma alloc_extent_pos: "alloc_extent want s = (Inr (b, got), s') \<Longrightarrow> got > 0"
  by (auto simp: alloc_extent_def intro: alloc_extent_loop_pos)

text \<open>The loop that \<open>create_file_inner\<close> and \<open>append_file_inner\<close> share: \<open>data\<close> from \<open>off\<close> on, in extents whose
  keys count from \<open>base\<close>.\<close>

function escribe_datos :: "(bytes \<Rightarrow> u32) \<Rightarrow> u64 \<Rightarrow> nat \<Rightarrow> bytes \<Rightarrow> nat \<Rightarrow> unit fs_op" where
  "escribe_datos crc ino base data off s =
    (if off < length data then
      (let restante = length data - off; want = min (div_ceil restante BLOCK_SIZE) EXTENT_MAX_BLOCKS in
       bindE (alloc_extent want) (\<lambda>(start, got).
         let chunk_len = min restante (got * BLOCK_SIZE);
             padded = take chunk_len (drop off data) @ replicate (got * BLOCK_SIZE - chunk_len) (CHR 0x00) in
         bindE (cada (escribe_bloques start padded) [0..<got]) (\<lambda>_.
         bindE (tree_insert crc (Key ino KIND_EXTENT (of_nat (base + off)))
           (relleno_item (extent_bytes \<lparr>ex_start = of_nat start, ex_blocks = of_nat got, ex_crc = crc padded\<rparr>))) (\<lambda>_.
         escribe_datos crc ino base data (off + chunk_len)))) s)
     else (Inr (), s))"
  by pat_completeness auto
termination
  by (relation "measure (\<lambda>(crc, ino, base, data, off, s). length data - off)")
     (auto dest!: alloc_extent_pos simp: BLOCK_SIZE_def)

definition libera_extent :: "bytes \<Rightarrow> unit fs_op" where
  "libera_extent p = cada (\<lambda>i. free_block (unat (ex_start (extent_read p)) + i)) [0..<unat (ex_blocks (extent_read p))]"

definition unlink_inner :: "(bytes \<Rightarrow> u32) \<Rightarrow> u64 \<Rightarrow> bytes \<Rightarrow> unit fs_op" where
  "unlink_inner crc dir name =
    bindE (dirent_key crc dir name) (\<lambda>dk.
    bindE (lookup crc dir name) (\<lambda>ino.
    bindE (stat_inode crc ino) (\<lambda>st.
    bindE (if ii_type st = FT_DIR
           then bindE (scan_range crc (fst (key_range ino KIND_DIRENT)) (snd (key_range ino KIND_DIRENT))) (\<lambda>out.
             if out \<noteq> [] then lanza DirNotEmpty else ret ())
           else bindE (scan_range crc (fst (key_range ino KIND_EXTENT)) (snd (key_range ino KIND_EXTENT)))
             (cada (\<lambda>(k, p). bindE (libera_extent p) (\<lambda>_. tree_delete crc k)))) (\<lambda>_.
    bindE (tree_delete crc (key_inode ino)) (\<lambda>_. tree_delete crc dk)))))"

definition create_file_inner :: "(bytes \<Rightarrow> u32) \<Rightarrow> u64 \<Rightarrow> bytes \<Rightarrow> bytes \<Rightarrow> u64 \<Rightarrow> u64 fs_op" where
  "create_file_inner crc dir name data mtime =
    bindE (check_dir crc dir) (\<lambda>_.
    bindE (intenta (lookup crc dir name)) (\<lambda>r.
    bindE (case r of None \<Rightarrow> ret ()
           | Some existing \<Rightarrow> bindE (stat_inode crc existing) (\<lambda>st.
               if ii_type st = FT_DIR then lanza NotAFile else unlink_inner crc dir name)) (\<lambda>_.
    bindE toma_inode (\<lambda>ino.
    bindE (pon_inode crc ino \<lparr>ii_type = FT_FILE, ii_size = of_nat (length data), ii_mtime = mtime\<rparr>) (\<lambda>_.
    bindE (escribe_datos crc ino 0 data 0) (\<lambda>_.
    bindE (insert_dirent crc dir name ino) (\<lambda>_. ret ino)))))))"

definition append_file_inner :: "(bytes \<Rightarrow> u32) \<Rightarrow> u64 \<Rightarrow> bytes \<Rightarrow> u64 \<Rightarrow> u64 fs_op" where
  "append_file_inner crc ino data mtime =
    (if data = [] then ret ino
     else bindE (stat_inode crc ino) (\<lambda>st.
       if ii_type st \<noteq> FT_FILE then lanza NotAFile
       else let tam = unat (ii_size st) in
         bindE (scan_range crc (fst (key_range ino KIND_EXTENT)) (snd (key_range ino KIND_EXTENT))) (\<lambda>extents.
           let base = (if extents = [] then 0 else unat (k_offset (fst (last extents)))) in
           if base > tam then lanza FsCorrupt
           else let previo = tam - base in
             bindE (if previo > 0 then read_file_range crc ino base previo (replicate previo (CHR 0x00)) else ret []) (\<lambda>viejo.
             bindE (pon_inode crc ino \<lparr>ii_type = FT_FILE, ii_size = of_nat (tam + length data), ii_mtime = mtime\<rparr>) (\<lambda>_.
             bindE (escribe_datos crc ino base (viejo @ data) 0) (\<lambda>_. ret ino))))))"

definition rename_inner :: "(bytes \<Rightarrow> u32) \<Rightarrow> u64 \<Rightarrow> bytes \<Rightarrow> u64 \<Rightarrow> bytes \<Rightarrow> u64 \<Rightarrow> unit fs_op" where
  "rename_inner crc old_dir old_name new_dir new_name mtime =
    bindE (check_dir crc old_dir) (\<lambda>_.
    bindE (check_dir crc new_dir) (\<lambda>_.
    if new_name = [] \<or> old_name = [] then lanza NameTooLong
    else bindE (intenta (lookup crc new_dir new_name)) (\<lambda>r.
      if r \<noteq> None then lanza FsExists
      else bindE (lookup crc old_dir old_name) (\<lambda>ino.
        bindE (dirent_key crc old_dir old_name) (\<lambda>old_key.
        bindE (tree_delete crc old_key) (\<lambda>_.
        bindE (insert_dirent crc new_dir new_name ino) (\<lambda>_.
        bindE (stat_inode crc ino) (\<lambda>st. pon_inode crc ino (st\<lparr>ii_mtime := mtime\<rparr>)))))))))"

definition truncate_extent :: "(bytes \<Rightarrow> u32) \<Rightarrow> u64 \<Rightarrow> nat \<Rightarrow> key \<times> bytes \<Rightarrow> unit fs_op" where
  "truncate_extent crc ino new_size = (\<lambda>(k, p).
    let off = unat (k_offset k); ext_end = off + unat (ex_blocks (extent_read p)) * BLOCK_SIZE in
    if off \<ge> new_size then bindE (libera_extent p) (\<lambda>_. tree_delete crc k)
    else if ext_end > new_size then
      let keep = new_size - off; want = min (div_ceil keep BLOCK_SIZE) EXTENT_MAX_BLOCKS in
      bindE (alloc_extent want) (\<lambda>(start, got).
        let chunk_len = min keep (got * BLOCK_SIZE) in
        bindE (if chunk_len > 0 then read_file_range crc ino off chunk_len (replicate chunk_len (CHR 0x00)) else ret []) (\<lambda>d.
        let padded = d @ replicate (got * BLOCK_SIZE - chunk_len) (CHR 0x00) in
        bindE (cada (escribe_bloques start padded) [0..<got]) (\<lambda>_.
        bindE (libera_extent p) (\<lambda>_.
        bindE (tree_delete crc k) (\<lambda>_.
        tree_insert crc (Key ino KIND_EXTENT (of_nat off))
          (relleno_item (extent_bytes \<lparr>ex_start = of_nat start, ex_blocks = of_nat got, ex_crc = crc padded\<rparr>)))))))
    else ret ())"

definition truncate_inner :: "(bytes \<Rightarrow> u32) \<Rightarrow> u64 \<Rightarrow> u64 \<Rightarrow> u64 \<Rightarrow> unit fs_op" where
  "truncate_inner crc ino new_size mtime =
    bindE (stat_inode crc ino) (\<lambda>st.
      if ii_type st \<noteq> FT_FILE then lanza NotAFile
      else let i = \<lparr>ii_type = FT_FILE, ii_size = new_size, ii_mtime = mtime\<rparr> in
        if new_size \<ge> ii_size st then pon_inode crc ino i
        else bindE (scan_range crc (fst (key_range ino KIND_EXTENT)) (snd (key_range ino KIND_EXTENT))) (\<lambda>extents.
          bindE (cada (truncate_extent crc ino (unat new_size)) extents) (\<lambda>_. pon_inode crc ino i)))"

definition set_mtime_inner :: "(bytes \<Rightarrow> u32) \<Rightarrow> u64 \<Rightarrow> u64 \<Rightarrow> unit fs_op" where
  "set_mtime_inner crc ino mtime = bindE (stat_inode crc ino) (\<lambda>st. pon_inode crc ino (st\<lparr>ii_mtime := mtime\<rparr>))"

text \<open>The operations of the interface: each is one transaction.\<close>

definition mkdir :: "(bytes \<Rightarrow> u32) \<Rightarrow> u64 \<Rightarrow> bytes \<Rightarrow> u64 \<Rightarrow> u64 fs_op" where
  "mkdir crc dir name mtime s = finish crc (mkdir_inner crc dir name mtime s)"

definition create_file :: "(bytes \<Rightarrow> u32) \<Rightarrow> u64 \<Rightarrow> bytes \<Rightarrow> bytes \<Rightarrow> u64 \<Rightarrow> u64 fs_op" where
  "create_file crc dir name data mtime s = finish crc (create_file_inner crc dir name data mtime s)"

definition append_file :: "(bytes \<Rightarrow> u32) \<Rightarrow> u64 \<Rightarrow> bytes \<Rightarrow> u64 \<Rightarrow> u64 fs_op" where
  "append_file crc ino data mtime s = finish crc (append_file_inner crc ino data mtime s)"

definition unlink :: "(bytes \<Rightarrow> u32) \<Rightarrow> u64 \<Rightarrow> bytes \<Rightarrow> unit fs_op" where
  "unlink crc dir name s = finish crc (unlink_inner crc dir name s)"

definition rename_fs :: "(bytes \<Rightarrow> u32) \<Rightarrow> u64 \<Rightarrow> bytes \<Rightarrow> u64 \<Rightarrow> bytes \<Rightarrow> u64 \<Rightarrow> unit fs_op" where
  "rename_fs crc old_dir old_name new_dir new_name mtime s =
    finish crc (rename_inner crc old_dir old_name new_dir new_name mtime s)"

definition truncate_file :: "(bytes \<Rightarrow> u32) \<Rightarrow> u64 \<Rightarrow> u64 \<Rightarrow> u64 \<Rightarrow> unit fs_op" where
  "truncate_file crc ino new_size mtime s = finish crc (truncate_inner crc ino new_size mtime s)"

definition set_mtime :: "(bytes \<Rightarrow> u32) \<Rightarrow> u64 \<Rightarrow> u64 \<Rightarrow> unit fs_op" where
  "set_mtime crc ino mtime s = finish crc (set_mtime_inner crc ino mtime s)"

end
