(* ===== verification/Sosofs_Corte.thy ===== *)
theory Sosofs_Corte
  imports Sosofs_Escritura
begin

text \<open>
  What the file system promises when power fails: the golden rule of \<open>write.rs\<close>, that no block of the
  committed generation is ever overwritten, as a frame property (\<open>marco\<close>) of every operation, and from it that
  a mount after a cut finds the generation before or the one after the operation that was cut.
\<close>

section \<open>Bits\<close>

lemma bit_mod_256: "bit ((n :: nat) mod 256) k \<longleftrightarrow> k < 8 \<and> bit n k"
  using bit_take_bit_iff [of 8 n k] by (simp add: take_bit_eq_mod)

lemma bit_pon_bit:
  assumes "b div 8 < length m"
  shows "bit_en (pon_bit v b m) c \<longleftrightarrow> (if c = b then v else bit_en m c)"
proof (cases "c div 8 = b div 8")
  case True
  then have "c = b \<longleftrightarrow> c mod 8 = b mod 8" by (metis div_mult_mod_eq)
  then show ?thesis using True assms
    by (auto simp: bit_en_def pon_bit_def Let_def bit_mod_256 bit_set_bit_iff bit_unset_bit_iff split: if_splits)
next
  case False
  then have "c \<noteq> b" by auto
  then show ?thesis using False assms by (simp add: bit_en_def pon_bit_def Let_def)
qed

lemma length_pon_bit [simp]: "length (pon_bit v b m) = length m"
  by (simp add: pon_bit_def Let_def)

lemma fold_pon_bit:
  assumes "\<forall>i\<in>set is. (b + i) div 8 < length m"
  shows "length (fold (\<lambda>i. pon_bit v (b + i)) is m) = length m \<and>
    (\<forall>c. bit_en (fold (\<lambda>i. pon_bit v (b + i)) is m) c \<longleftrightarrow> (if c \<in> (+) b ` set is then v else bit_en m c))"
  using assms
proof (induction "is" arbitrary: m)
  case (Cons i "is")
  have "\<forall>i\<in>set is. (b + i) div 8 < length (pon_bit v (b + i') m)" for i' using Cons by auto
  from Cons.IH [OF this] show ?case using Cons.prems by (auto simp: bit_pon_bit)
qed simp

section \<open>The allocator\<close>

lemma ocupado_None:
  "ocupado_en bm fz b is = Inr None \<longleftrightarrow>
    (\<forall>i\<in>set is. (b + i) div 8 < length bm \<and> (b + i) div 8 < length fz \<and> \<not> bit_en bm (b + i) \<and> \<not> bit_en fz (b + i))"
  by (induction bm fz b "is" rule: ocupado_en.induct) auto

text \<open>A run of blocks that neither the generation under construction nor the committed one uses.\<close>

definition libres :: "sosofs \<Rightarrow> nat \<Rightarrow> nat \<Rightarrow> bool" where
  "libres s st n = (2 \<le> st \<and> st + n \<le> unat (sb_block_count (fs_sb s)) \<and>
    (\<forall>i<n. (st + i) div 8 < length (fs_frozen s) \<and> \<not> bit_en (fs_frozen s) (st + i)))"

lemma busca_hueco_sound:
  "busca_hueco bm fz n tot b = Inr (Some c) \<Longrightarrow>
    b \<le> c \<and> c + n \<le> tot \<and> (\<forall>i<n. (c + i) div 8 < length bm \<and> (c + i) div 8 < length fz \<and> \<not> bit_en bm (c + i) \<and> \<not> bit_en fz (c + i))"
proof (induction bm fz n tot b rule: busca_hueco.induct)
  case (1 bm fz n tot b)
  show ?case
  proof (cases "b + n \<le> tot")
    case True
    consider (e) e where "ocupado_en bm fz b [0..<n] = Inl e" | (n) "ocupado_en bm fz b [0..<n] = Inr None"
      | (o) i where "ocupado_en bm fz b [0..<n] = Inr (Some i)" by (cases "ocupado_en bm fz b [0..<n]") auto
    then show ?thesis
    proof cases
      case n
      then show ?thesis using 1(2) True ocupado_None [of bm fz b "[0..<n]"] by auto
    next
      case o
      then show ?thesis using 1(1) [OF True o refl] 1(2) True by auto
    qed (use 1(2) True in auto)
  qed (use 1(2) in auto)
qed

declare busca_hueco.simps [simp del]

text \<open>What an allocation gives: a free run, marked now, and nothing else changes.\<close>

lemma alloc_run_ok:
  assumes "alloc_run n s = (Inr b, s')"
  shows "s' = marca_tramo b n s" "libres s b n"
    "\<forall>i<n. (b + i) div 8 < length (fs_bitmap s) \<and> \<not> bit_en (fs_bitmap s) (b + i)"
  using assms busca_hueco_sound [of "fs_bitmap s" "fs_frozen s" n "unat (sb_block_count (fs_sb s))" "max (fs_hint s) 2" b]
    busca_hueco_sound [of "fs_bitmap s" "fs_frozen s" n "unat (sb_block_count (fs_sb s))" 2 b]
  by (auto simp: alloc_run_def Let_def libres_def split: sum.splits option.splits)

lemma alloc_run_err: "alloc_run n s = (Inl e, s') \<Longrightarrow> s' = s"
  by (auto simp: alloc_run_def Let_def split: sum.splits option.splits)

lemma marca_tramo_campos [simp]:
  "fs_dev (marca_tramo b n s) = fs_dev s" "fs_sb (marca_tramo b n s) = fs_sb s" "fs_root (marca_tramo b n s) = fs_root s"
  "fs_next (marca_tramo b n s) = fs_next s" "fs_frozen (marca_tramo b n s) = fs_frozen s"
  by (simp_all add: marca_tramo_def)

lemma marca_tramo_bits:
  assumes "\<forall>i<n. (b + i) div 8 < length (fs_bitmap s)"
  shows "length (fs_bitmap (marca_tramo b n s)) = length (fs_bitmap s)"
    "bit_en (fs_bitmap (marca_tramo b n s)) c \<longleftrightarrow> b \<le> c \<and> c < b + n \<or> bit_en (fs_bitmap s) c"
proof -
  have "\<forall>i\<in>set [0..<n]. (b + i) div 8 < length (fs_bitmap s)" using assms by simp
  note f = fold_pon_bit [OF this, of True]
  show "length (fs_bitmap (marca_tramo b n s)) = length (fs_bitmap s)" using f by (simp add: marca_tramo_def)
  have "c \<in> (+) b ` set [0..<n] \<longleftrightarrow> b \<le> c \<and> c < b + n" by (auto simp: image_iff le_iff_add)
  then show "bit_en (fs_bitmap (marca_tramo b n s)) c \<longleftrightarrow> b \<le> c \<and> c < b + n \<or> bit_en (fs_bitmap s) c"
    using f by (auto simp: marca_tramo_def)
qed

section \<open>The frame of an operation\<close>

text \<open>An event that may happen before the new superblock is written: a flush, or a write of a block that the committed generation does not use.\<close>

definition bloque_libre :: "sosofs \<Rightarrow> nat \<Rightarrow> bool" where
  "bloque_libre s b = (2 \<le> b \<and> b div 8 < length (fs_frozen s) \<and> \<not> bit_en (fs_frozen s) b)"

fun permitido :: "sosofs \<Rightarrow> evento \<Rightarrow> bool" where
  "permitido s (Escribe b buf) = bloque_libre s b"
| "permitido s (Fallida b buf) = bloque_libre s b"
| "permitido s Vacia = True"

fun es_fallo :: "evento \<Rightarrow> bool" where
  "es_fallo (Fallida _ _) = True"
| "es_fallo _ = False"

definition fs_log :: "sosofs \<Rightarrow> evento list" where "fs_log s = di_log (ca_inner (fs_dev s))"
definition fs_img :: "sosofs \<Rightarrow> nat \<Rightarrow> bytes" where "fs_img s = di_img (ca_inner (fs_dev s))"
definition sin_fallos :: "sosofs \<Rightarrow> bool" where "sin_fallos s = (di_fallos (ca_inner (fs_dev s)) = [])"
definition fs_count :: "sosofs \<Rightarrow> nat" where "fs_count s = di_count (ca_inner (fs_dev s))"

definition marco_evs :: "sosofs \<Rightarrow> evento list \<Rightarrow> sosofs \<Rightarrow> bool" where
  "marco_evs s evs s' = (fs_sb s' = fs_sb s \<and> fs_frozen s' = fs_frozen s \<and> length (fs_bitmap s') = length (fs_bitmap s) \<and>
    fs_count s' = fs_count s \<and> di_max (ca_inner (fs_dev s')) = di_max (ca_inner (fs_dev s)) \<and>
    (coherente (fs_dev s) \<longrightarrow> coherente (fs_dev s')) \<and>
    fs_log s' = fs_log s @ evs \<and> fs_img s' = fold evento_img evs (fs_img s) \<and> list_all (permitido s) evs \<and>
    (sin_fallos s \<longrightarrow> sin_fallos s' \<and> list_all (\<lambda>e. \<not> es_fallo e) evs))"

definition marco :: "sosofs \<Rightarrow> sosofs \<Rightarrow> bool" where
  "marco s s' = (\<exists>evs. marco_evs s evs s')"

lemma permitido_cong: "fs_frozen s' = fs_frozen s \<Longrightarrow> permitido s' = permitido s"
  by (rule ext, rename_tac e, case_tac e) (auto simp: bloque_libre_def)

lemma marco_refl [simp, intro]: "marco s s"
  unfolding marco_def by (rule exI [of _ "[]"]) (simp add: marco_evs_def)

lemma marco_trans [trans]: "marco s s1 \<Longrightarrow> marco s1 s2 \<Longrightarrow> marco s s2"
proof -
  assume "marco s s1" "marco s1 s2"
  then obtain e1 e2 where e: "marco_evs s e1 s1" "marco_evs s1 e2 s2" by (auto simp: marco_def)
  then have "permitido s1 = permitido s" by (auto simp: marco_evs_def intro: permitido_cong)
  then have "marco_evs s (e1 @ e2) s2" using e by (auto simp: marco_evs_def)
  then show ?thesis by (auto simp: marco_def)
qed

lemma marcoD: "marco s s' \<Longrightarrow> fs_sb s' = fs_sb s \<and> fs_frozen s' = fs_frozen s \<and> length (fs_bitmap s') = length (fs_bitmap s)"
  by (auto simp: marco_def marco_evs_def)

text \<open>Changes of the state that the device does not see.\<close>

lemma marco_memoria:
  "fs_dev s' = fs_dev s \<Longrightarrow> fs_sb s' = fs_sb s \<Longrightarrow> fs_frozen s' = fs_frozen s \<Longrightarrow> length (fs_bitmap s') = length (fs_bitmap s) \<Longrightarrow> marco s s'"
  unfolding marco_def by (rule exI [of _ "[]"]) (simp add: marco_evs_def fs_log_def fs_img_def sin_fallos_def fs_count_def)

lemma marco_disp:
  "mismo_disp (fs_dev s) (fs_dev s') \<Longrightarrow> (coherente (fs_dev s) \<Longrightarrow> coherente (fs_dev s')) \<Longrightarrow> fs_sb s' = fs_sb s \<Longrightarrow>
    fs_frozen s' = fs_frozen s \<Longrightarrow> length (fs_bitmap s') = length (fs_bitmap s) \<Longrightarrow> marco s s'"
  unfolding marco_def
  by (rule exI [of _ "[]"]) (simp add: marco_evs_def mismo_disp_def fs_log_def fs_img_def sin_fallos_def fs_count_def)

text \<open>What reading leaves of the state in memory and of the device.\<close>

definition lee :: "sosofs \<Rightarrow> sosofs \<Rightarrow> bool" where
  "lee s s' = (fs_bitmap s' = fs_bitmap s \<and> fs_root s' = fs_root s \<and> fs_next s' = fs_next s \<and> fs_sb s' = fs_sb s \<and>
    fs_frozen s' = fs_frozen s \<and> fs_dirty s' = fs_dirty s \<and> fs_hint s' = fs_hint s \<and> mismo_disp (fs_dev s) (fs_dev s') \<and>
    (coherente (fs_dev s) \<longrightarrow> coherente (fs_dev s')))"

lemma lee_refl [simp, intro]: "lee s s" by (simp add: lee_def)

lemma lee_trans: "lee s s1 \<Longrightarrow> lee s1 s2 \<Longrightarrow> lee s s2"
  using mismo_disp_trans by (auto simp: lee_def)

lemma lee_marco: "lee s s' \<Longrightarrow> marco s s'"
  by (rule marco_disp) (auto simp: lee_def)

lemma bindE_split:
  "bindE m f s = (r, s') \<longleftrightarrow> (\<exists>e. m s = (Inl e, s') \<and> r = Inl e) \<or> (\<exists>x s1. m s = (Inr x, s1) \<and> f x s1 = (r, s'))"
  by (auto simp: bindE_def split: prod.splits sum.splits)

lemma bindE_Inr: "bindE m f s = (Inr y, s') \<longleftrightarrow> (\<exists>x s1. m s = (Inr x, s1) \<and> f x s1 = (Inr y, s'))"
  by (auto simp: bindE_split)

lemma bindE_simps [simp]:
  "m s = (Inr x, s1) \<Longrightarrow> bindE m f s = f x s1" "m s = (Inl e, s1) \<Longrightarrow> bindE m f s = (Inl e, s1)"
  by (simp_all add: bindE_def)

section \<open>Operations that keep a relation\<close>

text \<open>\<open>cumple R m\<close>: the state after \<open>m\<close>, whatever its result, is related with the one before.  The rules that
  compose operations are the same for every reflexive and transitive relation, and the operations that only read keep
  every relation that \<open>read_node\<close> and \<open>read_blocks\<close> keep: both are proved once.\<close>

definition cumple :: "(sosofs \<Rightarrow> sosofs \<Rightarrow> bool) \<Rightarrow> 'a fs_op \<Rightarrow> bool" where
  "cumple R m = (\<forall>s. R s (snd (m s)))"

lemma cumpleD: "cumple R m \<Longrightarrow> m s = (r, s') \<Longrightarrow> R s s'"
  by (auto simp: cumple_def dest: spec [of _ s])

lemma cumpleI: "cumple R m \<Longrightarrow> R s (snd (m s))"
  by (simp add: cumple_def)

named_theorems seguras \<open>operations that keep a relation between states\<close>

locale conserva =
  fixes R :: "sosofs \<Rightarrow> sosofs \<Rightarrow> bool"
  assumes R_refl: "R s s" and R_trans: "R s s1 \<Longrightarrow> R s1 s2 \<Longrightarrow> R s s2"
begin

lemma R_bindE:
  assumes "\<And>r s1. m s = (r, s1) \<Longrightarrow> R s s1"
    and "\<And>x s1. m s = (Inr x, s1) \<Longrightarrow> R s s1 \<Longrightarrow> R s1 (snd (f x s1))"
  shows "R s (snd (bindE m f s))"
proof -
  obtain r s1 where r: "m s = (r, s1)" by fastforce
  show ?thesis using assms(1) [OF r] assms(2) [of _ s1] r R_trans by (cases r) fastforce+
qed

lemma c_bindE [seguras]: "cumple R m \<Longrightarrow> (\<And>x. cumple R (f x)) \<Longrightarrow> cumple R (bindE m f)"
  unfolding cumple_def by (intro allI R_bindE) (metis snd_conv, blast)

lemma c_bind_app [seguras]: "cumple R m \<Longrightarrow> (\<And>x. cumple R (f x)) \<Longrightarrow> cumple R (\<lambda>s. bindE m f s)"
  using c_bindE by blast

lemma c_ret [seguras]: "cumple R (ret x)" "cumple R (lanza e)" "cumple R (\<lambda>s. (r, s))"
  by (simp_all add: cumple_def ret_def lanza_def R_refl)

lemma c_if [seguras]: "(b \<Longrightarrow> cumple R m) \<Longrightarrow> (\<not> b \<Longrightarrow> cumple R m') \<Longrightarrow> cumple R (if b then m else m')"
  by simp

lemma c_ifs [seguras]: "cumple R m \<Longrightarrow> cumple R m' \<Longrightarrow> cumple R (\<lambda>s. if q s then m s else m' s)"
  by (simp add: cumple_def)

lemma c_case_option [seguras]:
  "cumple R m \<Longrightarrow> (\<And>x. cumple R (f x)) \<Longrightarrow> cumple R (case z of None \<Rightarrow> m | Some x \<Rightarrow> f x)"
  by (cases z) auto

lemma c_case_prod [seguras]: "(\<And>x y. cumple R (f x y)) \<Longrightarrow> cumple R (case p of (x, y) \<Rightarrow> f x y)"
  by (cases p) auto

lemma c_Let [seguras]: "(\<And>x. cumple R (f x)) \<Longrightarrow> cumple R (let x = t in f x)"
  by (simp add: Let_def)

lemma c_con_estado: "(\<And>r. cumple R (f r)) \<Longrightarrow> cumple R (\<lambda>s. f (g s) s)"
  by (simp add: cumple_def)

lemma R_cada:
  assumes "\<And>x s1. x \<in> set xs \<Longrightarrow> R s s1 \<Longrightarrow> R s1 (snd (f x s1))"
  shows "R s (snd (cada f xs s))"
  using assms
proof (induction xs arbitrary: s)
  case (Cons x xs)
  have "R s (snd (bindE (f x) (\<lambda>_. cada f xs) s))"
  proof (rule R_bindE)
    show "R s s1" if "f x s = (r, s1)" for r s1 using Cons(2) [of x s] that by (simp add: R_refl)
    show "R s1 (snd (cada f xs s1))" if "R s s1" for s1
      using Cons(1) [of s1] Cons(2) R_trans [OF that] by auto
  qed
  then show ?case by simp
qed (simp add: R_refl)

lemma c_cada [seguras]: "(\<And>x. cumple R (f x)) \<Longrightarrow> cumple R (cada f xs)"
  by (simp add: cumple_def R_cada)

lemma c_intenta [seguras]: "cumple R m \<Longrightarrow> cumple R (intenta m)"
  unfolding cumple_def intenta_def by (auto split: prod.splits sum.splits) (metis snd_conv)+

end

locale conserva_lectura = conserva +
  assumes R_read_node: "R s (snd (read_node crc b s))"
    and R_read_blocks: "R s (snd (con_dev (read_blocks st n) s))"
    and R_olvida: "R s (s\<lparr>fs_dev := cache_invalidate b (fs_dev s)\<rparr>)" "R s (s\<lparr>fs_dev := cache_clear (fs_dev s)\<rparr>)"
begin

lemma c_read_node [seguras]: "cumple R (read_node crc b)" "cumple R (con_dev (read_blocks st n))"
  by (simp_all add: cumple_def R_read_node R_read_blocks)

lemma c_parse_node [seguras]: "cumple R (parse_node crc b)" "cumple R (node_level crc b)" "cumple R (clave_minima_y_nivel crc b)"
  unfolding parse_node_def node_level_def clave_minima_y_nivel_def by (intro seguras)+

lemma c_scan [seguras]: "cumple R (scan_node crc n b mn mx)" "cumple R (scan_hijos crc n v mn mx)"
proof -
  have "R s (snd (scan_node crc n b mn mx s))" "R s (snd (scan_hijos crc n v mn mx s))" for s
  proof (induction crc n b mn mx s and crc n v mn mx s rule: scan_node_scan_hijos.induct)
    case (2 crc n b mn mx s)
    obtain r s1 where r: "read_node crc b s = (r, s1)" by fastforce
    have m: "R s s1" using cumpleD [OF c_read_node(1) r] .
    show ?case
    proof (cases r)
      case (Inr node)
      then show ?thesis using 2 [of node s1] r m R_trans [OF m] by auto
    qed (use r m in auto)
  next
    case (4 crc n low child v mn mx s)
    show ?case
    proof (cases "cubre mn mx low v")
      case True
      obtain r s1 where r: "scan_node crc n child mn mx s = (r, s1)" by fastforce
      have m: "R s s1" using 4(1) [OF True] r by simp
      show ?thesis
      proof (cases r)
        case (Inr out)
        obtain r2 s2 where r2: "scan_hijos crc n v mn mx s1 = (r2, s2)" by fastforce
        have "R s1 s2" using 4(2) [OF True, of out s1] r r2 Inr by simp
        then show ?thesis using R_trans [OF m] True r r2 Inr by (cases r2) auto
      qed (use r m True in auto)
    qed (use 4 in auto)
  qed (auto simp: R_refl)
  then show "cumple R (scan_node crc n b mn mx)" "cumple R (scan_hijos crc n v mn mx)" by (simp_all add: cumple_def)
qed

lemma c_find [seguras]: "cumple R (find_node crc n b mn mx pr)" "cumple R (find_hijos crc n v mn mx pr)"
proof -
  have "R s (snd (find_node crc n b mn mx pr s))" "R s (snd (find_hijos crc n v mn mx pr s))" for s
  proof (induction crc n b mn mx pr s and crc n v mn mx pr s rule: find_node_find_hijos.induct)
    case (2 crc n b mn mx pr s)
    obtain r s1 where r: "read_node crc b s = (r, s1)" by fastforce
    have m: "R s s1" using cumpleD [OF c_read_node(1) r] .
    show ?case
    proof (cases r)
      case (Inr node)
      then show ?thesis using 2 [of node s1] r m R_trans [OF m] by auto
    qed (use r m in auto)
  next
    case (4 crc n low child v mn mx pr s)
    show ?case
    proof (cases "cubre mn mx low v")
      case True
      obtain r s1 where r: "find_node crc n child mn mx pr s = (r, s1)" by fastforce
      have m: "R s s1" using 4(1) [OF True] r by simp
      show ?thesis
      proof (cases r)
        case (Inr hit)
        then show ?thesis using 4(2) [OF True, of hit s1] r True m R_trans [OF m] by (cases hit) auto
      qed (use r m True in auto)
    qed (use 4 in auto)
  qed (auto simp: R_refl)
  then show "cumple R (find_node crc n b mn mx pr)" "cumple R (find_hijos crc n v mn mx pr)" by (simp_all add: cumple_def)
qed

lemma c_rangos [seguras]: "cumple R (scan_range crc mn mx)" "cumple R (find_first crc mn mx pr)"
  using c_scan(1) c_find(1) unfolding scan_range_def find_first_def cumple_def by blast+

lemma c_buscar [seguras]: "cumple R (dirent_buscar crc dir name)" "cumple R (stat_inode crc ino)"
  unfolding dirent_buscar_def stat_inode_def by (intro seguras)+

lemma c_lookup [seguras]: "cumple R (lookup crc dir name)" "cumple R (check_dir crc ino)" "cumple R (dirent_key crc dir name)"
  unfolding lookup_def check_dir_def dirent_key_def by (intro seguras)+

lemma c_lee_tramo [seguras]: "cumple R (lee_tramo mx st n i)"
proof -
  have "R s (snd (lee_tramo mx st n i s))" for s
  proof (induction mx st n i s rule: lee_tramo.induct)
    case (1 mx st n i s)
    show ?case
    proof (cases "i < n")
      case True
      obtain r s1 where r: "con_dev (read_blocks (st + i) (min (n - i) (max mx 1))) s = (r, s1)" by fastforce
      have m: "R s s1" using cumpleD [OF c_read_node(2) r] .
      show ?thesis
      proof (cases r)
        case (Inr b)
        obtain r2 s2 where r2: "lee_tramo mx st n (i + min (n - i) (max mx 1)) s1 = (r2, s2)" by fastforce
        have "R s1 s2" using 1 [OF True refl, of b s1] r r2 Inr by simp
        then show ?thesis using R_trans [OF m] True r r2 Inr
          by (subst lee_tramo.simps, cases r2) (auto simp: Let_def ret_def)
      qed (use r m True in \<open>auto simp: Let_def\<close>)
    qed (auto simp: R_refl)
  qed
  then show ?thesis by (simp add: cumple_def)
qed

lemma c_lee_extents [seguras]: "cumple R (lee_extents crc tam off fin es wo)"
proof (induction es arbitrary: wo)
  case (Cons e es)
  have "cumple R (lee_extent crc tam off fin e wo)"
  proof -
    obtain k p w out where e: "e = (k, p)" "wo = (w, out)" by (cases e; cases wo) auto
    have L: "cumple R (\<lambda>s. bindE (lee_tramo (di_max (ca_inner (fs_dev s))) st n 0) f s)" if "\<And>x. cumple R (f x)" for st n and f :: "bytes \<Rightarrow> (nat \<times> bytes) fs_op"
      using c_bindE [OF c_lee_tramo that] by (simp add: cumple_def)
    show ?thesis unfolding lee_extent_def e prod.case Let_def by (intro seguras L)
  qed
  then show ?case using Cons by (simp add: seguras)
qed (simp add: seguras)

lemma c_read_file_range [seguras]: "cumple R (read_file_range crc ino off len out)"
  unfolding read_file_range_def by (intro seguras)

lemma c_comprobar_hijo: "cumple R (comprobar_hijo crc nivel kc)"
proof -
  obtain sep hijo where kc: "kc = (sep, hijo)" by (cases kc)
  have m: "cumple R (bindE (clave_minima_y_nivel crc hijo) (\<lambda>(mn, nivel_hijo).
    if mn \<noteq> sep then lanza FsCorrupt
    else if nivel_hijo = 255 then lanza FsPanico
    else if nivel_hijo + 1 \<noteq> nivel then lanza FsCorrupt else ret ()))" by (intro seguras)
  show ?thesis unfolding cumple_def comprobar_hijo_def kc prod.case
    using R_trans [OF R_olvida(1) cumpleI [OF m]] by (simp add: R_refl)
qed

lemma c_comprobar [seguras]: "cumple R (comprobar_raiz_publicable crc)"
proof -
  have "cumple R (case nd of Leaf _ \<Rightarrow> lanza FsCorrupt | Internal hijos \<Rightarrow> cada (comprobar_hijo crc nivel) hijos)" for nd nivel
    by (cases nd) (auto intro!: seguras c_comprobar_hijo)
  then have r: "cumple R (bindE (node_level crc root) (\<lambda>nivel.
       bindE (if nivel > 0
              then bindE (parse_node crc root) (\<lambda>nd. case nd of
                  Leaf _ \<Rightarrow> lanza FsCorrupt
                | Internal hijos \<Rightarrow> cada (comprobar_hijo crc nivel) hijos)
              else ret ()) (\<lambda>_.
       bindE (stat_inode crc ROOT_INODE) (\<lambda>st.
         if ii_type st \<noteq> FT_DIR then lanza FsCorrupt else ret ()))))" for root
    by (intro seguras)
  have "R s (snd (comprobar_raiz_publicable crc s))" for s
    unfolding comprobar_raiz_publicable_def Let_def
    by (split if_split, intro conjI impI, simp add: R_olvida(2), rule R_trans [OF R_olvida(2) cumpleI [OF r]])
  then show ?thesis by (simp add: cumple_def)
qed

end

lemma lee_read_node: "lee s (snd (read_node crc b s))"
proof -
  obtain r d where r: "read_block b (fs_dev s) = (r, d)" by fastforce
  note k = read_block_keeps(1,2) [OF r]
  show ?thesis using k r by (auto simp: read_node_def Let_def lee_def split: sum.splits)
qed

lemma lee_read_blocks: "lee s (snd (con_dev (read_blocks st n) s))"
  using read_blocks_keeps(1,2) [of st n "fs_dev s"] by (auto simp: con_dev_def lee_def split: prod.splits)

lemma lee_olvida: "lee s (s\<lparr>fs_dev := cache_invalidate b (fs_dev s)\<rparr>)" "lee s (s\<lparr>fs_dev := cache_clear (fs_dev s)\<rparr>)"
  by (simp_all add: lee_def)

text \<open>The two relations: \<open>lee\<close> for what only reads, \<open>marco\<close> for every operation inside a transaction.\<close>

interpretation lec: conserva_lectura lee
  by unfold_locales (auto intro: lee_trans lee_read_node lee_read_blocks lee_olvida)

interpretation seg: conserva_lectura marco
  by unfold_locales (auto intro: marco_trans lee_marco lee_read_node lee_read_blocks lee_olvida)

declare lee_tramo.simps [simp del]

lemma segura_free_block [seguras]: "cumple marco (free_block b)"
  by (auto simp: cumple_def free_block_def intro!: marco_memoria)

lemma segura_alloc_run [seguras]: "cumple marco (alloc_run n)"
  unfolding cumple_def
proof
  fix s :: sosofs
  obtain r s' where a: "alloc_run n s = (r, s')" by fastforce
  show "marco s (snd (alloc_run n s))"
  proof (cases r)
    case (Inr b)
    note k = alloc_run_ok [OF a [unfolded Inr]]
    show ?thesis using a k by (auto intro!: marco_memoria marca_tramo_bits(1))
  qed (use a alloc_run_err in fastforce)
qed

lemma segura_pon_raiz [seguras]: "cumple marco (pon_raiz b)"
  by (auto simp: cumple_def pon_raiz_def intro!: marco_memoria)

section \<open>Writing is safe\<close>

lemma marco_write:
  assumes "bloque_libre s b"
  shows "marco s (snd (con_dev (write_block b buf) s))"
proof -
  obtain r c' where w: "write_block b buf (fs_dev s) = (r, c')" by fastforce
  have co: "coherente (fs_dev s) \<Longrightarrow> coherente c'" using write_block_coherente [OF _ w] .
  have "marco_evs s (drop (length (fs_log s)) (di_log (ca_inner c'))) (s\<lparr>fs_dev := c'\<rparr>)"
    using w assms co
    by (cases "ca_inner (fs_dev s)" rule: siguiente_cases)
       (auto simp: marco_evs_def write_block_def dev_write_def fs_log_def fs_img_def sin_fallos_def fs_count_def split: if_splits)
  then show ?thesis using w by (auto simp: con_dev_def marco_def)
qed

lemma bloque_libre_marco: "marco s s' \<Longrightarrow> bloque_libre s' b = bloque_libre s b"
  by (auto simp: bloque_libre_def dest: marcoD)

lemma libres_bloque: "libres s st n \<Longrightarrow> i < n \<Longrightarrow> bloque_libre s (st + i)"
  by (auto simp: libres_def bloque_libre_def)

lemma segura_write_node [seguras]: "cumple marco (write_node crc level nd)"
  unfolding cumple_def
proof
  fix s :: sosofs
  show "marco s (snd (write_node crc level nd s))"
    unfolding write_node_def
  proof (rule seg.R_bindE)
    show "\<And>r s1. alloc_run 1 s = (r, s1) \<Longrightarrow> marco s s1" using cumpleD [OF segura_alloc_run] .
    fix b s1
    assume a: "alloc_run 1 s = (Inr b, s1)" and m: "marco s s1"
    have l: "bloque_libre s1 b" using libres_bloque [OF alloc_run_ok(2) [OF a], of 0] bloque_libre_marco [OF m] by simp
    have w: "marco s1 (snd (bindE (con_dev (write_block b buf)) (\<lambda>_. ret y) s1))" for buf and y :: "nat \<times> key"
      by (rule seg.R_bindE) (use marco_write [OF l, of buf] in \<open>auto simp: ret_def\<close>)
    show "marco s1 (snd ((if BLOCK_SIZE < NODE_HEADER_SIZE + length (nodo_cuerpo nd) \<or> sb_generation (fs_sb s1) = - 1 then (Inl FsPanico, s1)
      else bindE (con_dev (write_block b (nodo_bloque crc (sb_generation (fs_sb s1) + 1) b level nd))) (\<lambda>_. ret (b, clave_min nd)) s1)))"
      using w by simp
  qed
qed

lemma segura_write_split [seguras]: "cumple marco (write_split crc level ov nd)"
  unfolding write_split_def by (intro seguras)

lemma segura_insert_rec [seguras]: "cumple marco (insert_rec crc b level k p)"
proof -
  have "marco s (snd (insert_rec crc b level k p s))" for s
  proof (induction crc b level k p s rule: insert_rec.induct)
    case (1 crc b level k p s)
    show ?case unfolding insert_rec.simps [of crc b level k p s]
    proof (rule seg.R_bindE)
      show "\<And>r s1. parse_node crc b s = (r, s1) \<Longrightarrow> marco s s1" using cumpleD [OF seg.c_parse_node(1)] .
      fix nd s1
      assume a: "parse_node crc b s = (Inr nd, s1)"
      have h: "marco t (snd (bindE (free_block b) (\<lambda>_. write_split crc l ov n) t))" for l ov n t
        using seg.c_bindE [OF segura_free_block segura_write_split] unfolding cumple_def by fast
      show "marco s1 (snd (case nd of
          Leaf v \<Rightarrow> (let v' = hoja_upsert v k p in bindE (free_block b) (\<lambda>_. write_split crc 0 (length v' > LEAF_CAP) (Leaf v')) s1)
        | Internal v \<Rightarrow>
            if v = [] \<or> level = 0 then (Inl FsPanico, s1)
            else bindE (insert_rec crc (snd (v ! hijo_idx v k)) (level - 1) k p) (\<lambda>c s2.
              let v' = con_hijo v (hijo_idx v k) c in
              bindE (free_block b) (\<lambda>_. write_split crc level (length v' > INT_CAP) (Internal v')) s2) s1))"
      proof (cases nd)
        case (Leaf v)
        then show ?thesis using h by (simp add: Let_def)
      next
        case (Internal v)
        show ?thesis
        proof (cases "v = [] \<or> level = 0")
          case False
          show ?thesis unfolding Internal node_data.case if_not_P [OF False]
          proof (rule seg.R_bindE)
            show "\<And>r s2. insert_rec crc (snd (v ! hijo_idx v k)) (level - 1) k p s1 = (r, s2) \<Longrightarrow> marco s1 s2"
              using 1 [OF a Internal False] by (metis snd_conv)
          qed (use h in \<open>simp add: Let_def\<close>)
        qed (use Internal in auto)
      qed
    qed
  qed
  then show ?thesis by (simp add: cumple_def)
qed

lemma segura_tree_insert [seguras]: "cumple marco (tree_insert crc k p)"
proof -
  have "cumple marco (bindE (node_level crc r) (\<lambda>level. bindE (insert_rec crc r level k p) (\<lambda>c.
      case cow_split c of None \<Rightarrow> pon_raiz (cow_block c)
      | Some x \<Rightarrow> if level = 255 then lanza FsPanico
          else bindE (write_node crc (level + 1) (Internal [(cow_min c, cow_block c), x])) (\<lambda>(nb, _). pon_raiz nb))))" for r
    by (intro seguras)
  then show ?thesis unfolding tree_insert_def cumple_def by blast
qed

lemma segura_delete_rec [seguras]: "cumple marco (delete_rec crc b level k)"
proof -
  have "marco s (snd (delete_rec crc b level k s))" for s
  proof (induction crc b level k s rule: delete_rec.induct)
    case (1 crc b level k s)
    have h: "marco t (snd (bindE (free_block b) (\<lambda>_. if q then ret None
        else bindE (write_node crc l n) (\<lambda>x. ret (Some x))) t))" for l q n t
    proof -
      have "cumple marco (bindE (free_block b) (\<lambda>_. if q then ret None else bindE (write_node crc l n) (\<lambda>x. ret (Some x))))"
        by (intro seguras)
      then show ?thesis unfolding cumple_def by fast
    qed
    show ?case unfolding delete_rec.simps [of crc b level k s]
    proof (rule seg.R_bindE)
      show "\<And>r s1. parse_node crc b s = (r, s1) \<Longrightarrow> marco s s1" using cumpleD [OF seg.c_parse_node(1)] .
      fix nd s1
      assume a: "parse_node crc b s = (Inr nd, s1)"
      show "marco s1 (snd (case nd of
          Leaf v \<Rightarrow>
            (case bin_search (map fst v) k of
              Inl _ \<Rightarrow> (Inl FsNotFound, s1)
            | Inr i \<Rightarrow> (let v' = quita_en i v in
                bindE (free_block b) (\<lambda>_. if v' = [] then ret None
                  else bindE (write_node crc 0 (Leaf v')) (\<lambda>x. ret (Some x))) s1))
        | Internal v \<Rightarrow>
            if v = [] \<or> level = 0 then (Inl FsPanico, s1)
            else bindE (delete_rec crc (snd (v ! hijo_idx v k)) (level - 1) k) (\<lambda>r s2.
              let v' = (case r of Some (nb, nmin) \<Rightarrow> v[hijo_idx v k := (nmin, nb)] | None \<Rightarrow> quita_en (hijo_idx v k) v) in
              bindE (free_block b) (\<lambda>_. if v' = [] then ret None
                else bindE (write_node crc level (Internal v')) (\<lambda>x. ret (Some x))) s2) s1))"
      proof (cases nd)
        case (Leaf v)
        then show ?thesis using h by (simp add: Let_def split: sum.splits)
      next
        case (Internal v)
        show ?thesis
        proof (cases "v = [] \<or> level = 0")
          case False
          show ?thesis unfolding Internal node_data.case if_not_P [OF False]
          proof (rule seg.R_bindE)
            show "\<And>r s2. delete_rec crc (snd (v ! hijo_idx v k)) (level - 1) k s1 = (r, s2) \<Longrightarrow> marco s1 s2"
              using 1 [OF a Internal False] by (metis snd_conv)
          qed (use h in \<open>simp only: Let_def\<close>)
        qed (use Internal in auto)
      qed
    qed
  qed
  then show ?thesis by (simp add: cumple_def)
qed

lemma segura_libera_raiz [seguras]: "cumple marco (\<lambda>s. free_block (fs_root s) s)"
  using segura_free_block by (simp add: cumple_def)

lemma segura_encoge [seguras]: "cumple marco (encoge crc n)"
proof (induction n)
  case 0
  then show ?case by (simp add: cumple_def)
next
  case (Suc n)
  have c: "cumple marco (case nd of Internal [x] \<Rightarrow> bindE (\<lambda>s. free_block (fs_root s) s) (\<lambda>_. bindE (pon_raiz (snd x)) (\<lambda>_. encoge crc n)) | _ \<Rightarrow> ret ())" for nd
    using Suc by (auto split: node_data.splits list.splits intro!: seguras)
  have "cumple marco (\<lambda>s. bindE (parse_node crc (fs_root s)) (\<lambda>nd. case nd of
      Internal [x] \<Rightarrow> bindE (\<lambda>s. free_block (fs_root s) s) (\<lambda>_. bindE (pon_raiz (snd x)) (\<lambda>_. encoge crc n)) | _ \<Rightarrow> ret ()) s)"
    by (rule seg.c_con_estado [where g = fs_root], rule seg.c_bindE) (intro seguras c)+
  then show ?case by (simp add: cumple_def)
qed

lemma segura_tree_delete [seguras]: "cumple marco (tree_delete crc k)"
  unfolding tree_delete_def by (rule seg.c_con_estado [where g = fs_root]) (intro seguras)

lemma segura_sondeo [seguras]: "cumple marco (sondeo crc dir p n off)"
proof -
  have "marco s (snd (sondeo crc dir p n off s))" for s
  proof (induction crc dir p n off s rule: sondeo.induct)
    case (1 crc dir p n off s)
    show ?case
    proof (cases "n < 2 ^ 64")
      case True
      show ?thesis unfolding sondeo.simps [of crc dir p n off s] if_P [OF True]
      proof (rule seg.R_bindE)
        show "\<And>r s1. scan_range crc (Key dir KIND_DIRENT off) (Key dir KIND_DIRENT off) s = (r, s1) \<Longrightarrow> marco s s1"
          using cumpleD [OF seg.c_rangos(1)] .
        fix out s1
        assume a: "scan_range crc (Key dir KIND_DIRENT off) (Key dir KIND_DIRENT off) s = (Inr out, s1)"
        show "marco s1 (snd ((if out = [] then tree_insert crc (Key dir KIND_DIRENT off) p else sondeo crc dir p (n + 1) (off + 1)) s1))"
          using 1 [OF True a] segura_tree_insert by (simp add: cumple_def)
      qed
    qed (simp add: sondeo.simps)
  qed
  then show ?thesis by (simp add: cumple_def)
qed

declare sondeo.simps [simp del]

lemma segura_inodos [seguras]: "cumple marco (insert_dirent crc dir name child)" "cumple marco (pon_inode crc ino i)" "cumple marco toma_inode"
  unfolding insert_dirent_def pon_inode_def toma_inode_def
  by (intro seguras)+ (auto simp: cumple_def intro!: marco_memoria)

lemma alloc_extent_loop_ok:
  "alloc_extent_loop n s = (r, s') \<Longrightarrow> marco s s' \<and> (\<forall>st got. r = Inr (st, got) \<longrightarrow> alloc_run got s = (Inr st, s') \<and> got \<le> n)"
proof (induction n s arbitrary: r s' rule: alloc_extent_loop.induct)
  case (1 n s)
  obtain r1 s1 where r1: "alloc_run n s = (r1, s1)" by fastforce
  show ?case
  proof (cases r1)
    case (Inl e)
    have s1: "s1 = s" using alloc_run_err r1 Inl by auto
    show ?thesis
    proof (cases "e = NoSpace \<and> n > 1")
      case True
      have "alloc_extent_loop (n div 2) s = (r, s')" using 1(2) r1 Inl True s1 by (subst (asm) alloc_extent_loop.simps) simp
      then show ?thesis using 1(1) [OF r1 [symmetric] Inl True] s1 by fastforce
    next
      case False
      then show ?thesis using 1(2) r1 Inl s1 by (subst (asm) alloc_extent_loop.simps) auto
    qed
  next
    case (Inr b)
    then show ?thesis using 1(2) r1 cumpleD [OF segura_alloc_run r1] by (subst (asm) alloc_extent_loop.simps) auto
  qed
qed

declare alloc_extent_loop.simps [simp del]

lemma alloc_extent_ok:
  assumes "alloc_extent want s = (r, s')"
  shows "marco s s'" "r = Inr (st, got) \<Longrightarrow> alloc_run got s = (Inr st, s')" "r = Inr (st, got) \<Longrightarrow> libres s st got"
  using alloc_extent_loop_ok [OF assms [unfolded alloc_extent_def]] alloc_run_ok(2) by auto

lemma marco_escribe:
  assumes "libres s st n" "marco s s1"
  shows "marco s1 (snd (cada (escribe_bloques st padded) [0..<n] s1))"
proof (rule seg.R_cada)
  fix j s2
  assume "j \<in> set [0..<n]" and m: "marco s1 s2"
  then have "bloque_libre s2 (st + j)"
    using libres_bloque [OF assms(1)] bloque_libre_marco [OF marco_trans [OF assms(2) m]] by auto
  then show "marco s2 (snd (escribe_bloques st padded j s2))"
    unfolding escribe_bloques_def by (rule marco_write)
qed

lemma segura_escribe_datos [seguras]: "cumple marco (escribe_datos crc ino base data off)"
proof -
  have "marco s (snd (escribe_datos crc ino base data off s))" for s
  proof (induction crc ino base data off s rule: escribe_datos.induct)
    case (1 crc ino base data off s)
    show ?case
    proof (cases "off < length data")
      case True
      define want where "want = min (div_ceil (length data - off) BLOCK_SIZE) EXTENT_MAX_BLOCKS"
      show ?thesis unfolding escribe_datos.simps [of crc ino base data off s] if_P [OF True] Let_def want_def [symmetric]
      proof (rule seg.R_bindE)
        show "\<And>r s1. alloc_extent want s = (r, s1) \<Longrightarrow> marco s s1" using alloc_extent_ok(1) .
        fix x s1
        assume a: "alloc_extent want s = (Inr x, s1)" and m: "marco s s1"
        obtain st got where x: "x = (st, got)" by (cases x)
        have l: "libres s st got" using alloc_extent_ok(3) [OF a] x by blast
        show "marco s1 (snd ((case x of (st, got) \<Rightarrow>
          bindE (cada (escribe_bloques st (take (min (length data - off) (got * BLOCK_SIZE)) (drop off data) @
              replicate (got * BLOCK_SIZE - min (length data - off) (got * BLOCK_SIZE)) (CHR 0x00))) [0..<got]) (\<lambda>_.
          bindE (tree_insert crc (Key ino KIND_EXTENT (of_nat (base + off)))
           (relleno_item (extent_bytes \<lparr>ex_start = of_nat st, ex_blocks = of_nat got,
             ex_crc = crc (take (min (length data - off) (got * BLOCK_SIZE)) (drop off data) @
              replicate (got * BLOCK_SIZE - min (length data - off) (got * BLOCK_SIZE)) (CHR 0x00))\<rparr>))) (\<lambda>_.
          escribe_datos crc ino base data (off + min (length data - off) (got * BLOCK_SIZE))))) s1))"
          unfolding x prod.case
        proof (rule seg.R_bindE)
          fix u s2
          assume c: "cada (escribe_bloques st (take (min (length data - off) (got * BLOCK_SIZE)) (drop off data) @
              replicate (got * BLOCK_SIZE - min (length data - off) (got * BLOCK_SIZE)) (CHR 0x00))) [0..<got] s1 = (Inr u, s2)"
          show "marco s2 (snd (bindE (tree_insert crc (Key ino KIND_EXTENT (of_nat (base + off)))
            (relleno_item (extent_bytes \<lparr>ex_start = of_nat st, ex_blocks = of_nat got,
             ex_crc = crc (take (min (length data - off) (got * BLOCK_SIZE)) (drop off data) @
              replicate (got * BLOCK_SIZE - min (length data - off) (got * BLOCK_SIZE)) (CHR 0x00))\<rparr>))) (\<lambda>_.
            escribe_datos crc ino base data (off + min (length data - off) (got * BLOCK_SIZE))) s2))"
            by (rule seg.R_bindE, erule cumpleD [OF segura_tree_insert])
               (use 1 [OF True refl want_def a x [symmetric] refl refl] in blast)
        qed (use marco_escribe [OF l m] in \<open>metis snd_conv\<close>)
      qed
    qed (simp add: escribe_datos.simps)
  qed
  then show ?thesis by (simp add: cumple_def)
qed

declare escribe_datos.simps [simp del]

lemma segura_libera_extent [seguras]: "cumple marco (libera_extent p)"
  unfolding libera_extent_def by (intro seguras)

lemma segura_unlink_inner [seguras]: "cumple marco (unlink_inner crc dir name)"
  unfolding unlink_inner_def by (intro seguras)

lemma segura_truncate_extent [seguras]: "cumple marco (truncate_extent crc ino new_size kp)"
proof -
  obtain k p where kp: "kp = (k, p)" by (cases kp)
  have L: "cumple marco (bindE (alloc_extent want) (\<lambda>(st, got). bindE (g st got) (\<lambda>d.
    bindE (cada (escribe_bloques st (h got d)) [0..<got]) (\<lambda>_. f st got d))))"
    if f: "\<And>st got d. cumple marco (f st got d)" and g: "\<And>st got. cumple marco (g st got)" for want and f :: "nat \<Rightarrow> nat \<Rightarrow> bytes \<Rightarrow> unit fs_op" and g h
    unfolding cumple_def
  proof
    fix s :: sosofs
    show "marco s (snd (bindE (alloc_extent want) (\<lambda>(st, got). bindE (g st got) (\<lambda>d.
      bindE (cada (escribe_bloques st (h got d)) [0..<got]) (\<lambda>_. f st got d))) s))"
    proof (rule seg.R_bindE)
      show "\<And>r s1. alloc_extent want s = (r, s1) \<Longrightarrow> marco s s1" using alloc_extent_ok(1) .
      fix x s1
      assume a: "alloc_extent want s = (Inr x, s1)" and m: "marco s s1"
      obtain st got where x: "x = (st, got)" by (cases x)
      have l: "libres s st got" using alloc_extent_ok(3) [OF a] x by blast
      show "marco s1 (snd ((case x of (st, got) \<Rightarrow> bindE (g st got) (\<lambda>d.
        bindE (cada (escribe_bloques st (h got d)) [0..<got]) (\<lambda>_. f st got d))) s1))"
        unfolding x prod.case
      proof (rule seg.R_bindE)
        fix d s2
        assume "marco s1 s2"
        then have "marco s2 (snd (cada (escribe_bloques st (h got d)) [0..<got] s2))"
          using marco_escribe [OF l marco_trans [OF m]] by blast
        then show "marco s2 (snd (bindE (cada (escribe_bloques st (h got d)) [0..<got]) (\<lambda>_. f st got d) s2))"
          by (intro seg.R_bindE) (simp, rule cumpleI [OF f])
      qed (rule cumpleD [OF g])
    qed
  qed
  show ?thesis unfolding truncate_extent_def kp prod.case Let_def
    by (intro seguras L [where h = "\<lambda>got d. d @ replicate (got * BLOCK_SIZE - min (new_size - unat (k_offset k)) (got * BLOCK_SIZE)) CHR 0x00"])
qed

lemma segura_ops [seguras]:
  "cumple marco (mkdir_inner crc dir name mtime)" "cumple marco (create_file_inner crc dir name data mtime)"
  "cumple marco (append_file_inner crc ino data mtime)" "cumple marco (rename_inner crc old_dir old_name new_dir new_name mtime)"
  "cumple marco (truncate_inner crc ino new_size mtime)" "cumple marco (set_mtime_inner crc ino mtime)"
  unfolding mkdir_inner_def create_file_inner_def append_file_inner_def rename_inner_def truncate_inner_def set_mtime_inner_def Let_def
  by (intro seguras)+

section \<open>Commit\<close>

lemma segura_flush [seguras]: "cumple marco (con_dev cache_flush)"
  unfolding cumple_def
proof
  fix s :: sosofs
  obtain r c' where f: "cache_flush (fs_dev s) = (r, c')" by fastforce
  have co: "coherente (fs_dev s) \<Longrightarrow> coherente c'" using cache_flush_coherente [OF _ f] .
  have "marco_evs s (drop (length (fs_log s)) (di_log (ca_inner c'))) (s\<lparr>fs_dev := c'\<rparr>)"
    using f co
    by (cases "ca_inner (fs_dev s)" rule: siguiente_cases)
       (auto simp: marco_evs_def cache_flush_def dev_flush_def fs_log_def fs_img_def sin_fallos_def fs_count_def split: if_splits)
  then show "marco s (snd (con_dev cache_flush s))" using f by (auto simp: con_dev_def marco_def)
qed

lemma sb_parse_block: "sb_parse crc (sb_block crc sb) = Some sb"
proof -
  have c: "length (sb_campos sb) = 44" by (simp add: sb_campos_def)
  have l: "length FS_MAGIC = 8" by (simp add: FS_MAGIC_def)
  have t: "take 44 (drop 12 (sb_block crc sb)) = sb_campos sb" using c l by (simp add: sb_block_def)
  have r: "rd64 (sb_block crc sb) (12 + i) = of_nat (le_dec (take 8 (drop i (sb_campos sb))))" if "i + 8 \<le> 44" for i
    using that c l by (simp add: sb_block_def rd64_def)
  have r4: "rd32 (sb_block crc sb) 44 = of_nat (le_dec (take 4 (drop 32 (sb_campos sb))))"
    using c l by (simp add: sb_block_def rd32_def)
  show ?thesis
    using t l c r [of 0] r [of 8] r [of 16] r [of 24] r [of 36] r4
    by (simp add: sb_parse_def SB_SIZE_def SB_CRC_FROM_def)
       (simp add: sb_block_def sb_campos_def rd32_def le_dec_word)
qed

lemma cada_append: "cada f (xs @ ys) s = bindE (cada f xs) (\<lambda>_. cada f ys) s"
  by (induction xs arbitrary: s) (auto simp: bindE_def split: prod.splits sum.splits)

text \<open>After the loop that writes the bitmap, each of its blocks is in its place.\<close>

lemma con_write_ok:
  assumes "con_dev (write_block b buf) s = (Inr u, s')"
  shows "fs_bitmap s' = fs_bitmap s" "fs_root s' = fs_root s" "fs_next s' = fs_next s" "fs_img s' = (fs_img s)(b := buf)"
    "fs_log s' = fs_log s @ [Escribe b buf]" "fs_sb s' = fs_sb s" "fs_frozen s' = fs_frozen s"
  using assms
  by (cases "ca_inner (fs_dev s)" rule: siguiente_cases;
      auto simp: con_dev_def write_block_def dev_write_def fs_img_def fs_log_def split: if_splits)+

lemma con_write_sin_fallos:
  assumes "sin_fallos s" "b < fs_count s"
  shows "\<exists>s'. con_dev (write_block b buf) s = (Inr (), s') \<and> sin_fallos s' \<and> fs_count s' = fs_count s"
  using assms by (auto simp: con_dev_def write_block_def dev_write_def siguiente_def sin_fallos_def fs_count_def)

lemma con_flush_sin_fallos:
  assumes "sin_fallos s"
  shows "con_dev cache_flush s = (Inr (), s\<lparr>fs_dev := (fs_dev s)\<lparr>ca_inner := (ca_inner (fs_dev s))\<lparr>di_log := fs_log s @ [Vacia]\<rparr>\<rparr>\<rparr>)"
  using assms by (auto simp: con_dev_def cache_flush_def dev_flush_def siguiente_def sin_fallos_def fs_log_def)

lemma escribe_bitmap_ok:
  "cada (escribe_bitmap st) [0..<n] s = (Inr u, s') \<Longrightarrow>
    fs_bitmap s' = fs_bitmap s \<and> fs_root s' = fs_root s \<and> fs_next s' = fs_next s \<and>
    (\<forall>i<n. fs_img s' (st + i) = take BLOCK_SIZE (drop (i * BLOCK_SIZE) (fs_bitmap s)))"
proof (induction n arbitrary: u s')
  case (Suc n)
  obtain s1 where s1: "cada (escribe_bitmap st) [0..<n] s = (Inr (), s1)" "escribe_bitmap st n s1 = (Inr (), s')"
    using Suc(2) by (auto simp: cada_append bindE_Inr)
  note w = con_write_ok [OF s1(2) [unfolded escribe_bitmap_def]]
  show ?case using Suc(1) [OF s1(1)] w by (auto simp: less_Suc_eq)
qed simp

lemma asignado_comprobado: "comprobar_raiz_publicable crc s = (Inr u, s') \<Longrightarrow> asignado s (fs_root s)"
  by (auto simp: comprobar_raiz_publicable_def Let_def asignado_def split: if_splits)

section \<open>Images after a cut\<close>

lemma tras_corte_vacio: "tras_corte m0 [] m \<longleftrightarrow> m = m0"
  by (auto intro: tras_corte.nada elim: tras_corte.cases)

inductive_cases tras_corte_escribeE: "tras_corte m0 (l @ [Escribe b buf]) m"
inductive_cases tras_corte_fallidaE: "tras_corte m0 (l @ [Fallida b buf]) m"
inductive_cases tras_corte_vaciaE: "tras_corte m0 (l @ [Vacia]) m"

lemma tras_corte_permitido:
  "tras_corte m0 (l @ evs) m \<Longrightarrow> list_all (permitido s) evs \<Longrightarrow> \<exists>m1. tras_corte m0 l m1 \<and> (\<forall>b. \<not> bloque_libre s b \<longrightarrow> m b = m1 b)"
proof (induction evs arbitrary: m rule: rev_induct)
  case (snoc e evs)
  have p: "list_all (permitido s) evs" "permitido s e" using snoc(3) by auto
  have "\<exists>m2. tras_corte m0 (l @ evs) m2 \<and> (\<forall>b. \<not> bloque_libre s b \<longrightarrow> m b = m2 b)"
  proof (cases e)
    case (Escribe b buf)
    then show ?thesis using snoc(2) p(2)
      by (auto simp: append_assoc [symmetric] simp del: append_assoc elim!: tras_corte_escribeE)
  next
    case (Fallida b buf)
    then show ?thesis using snoc(2) p(2)
      by (auto simp: append_assoc [symmetric] simp del: append_assoc elim!: tras_corte_fallidaE)
  next
    case Vacia
    then show ?thesis using snoc(2)
      by (auto simp: append_assoc [symmetric] simp del: append_assoc elim!: tras_corte_vaciaE)
  qed
  then show ?case using snoc(1) [OF _ p(1)] by metis
qed auto

lemma tras_corte_vaciado:
  assumes "tras_corte m0 (l @ [Vacia]) m" "list_all (\<lambda>e. \<not> es_fallo e) l"
  shows "m = fold evento_img l m0"
proof -
  have "Fallida b buf \<notin> set l" for b buf using assms(2) by (auto simp: list_all_iff)
  then show ?thesis using assms(1) by (auto elim!: tras_corte_vaciaE)
qed

text \<open>The image \<open>m\<close> holds the generation that \<open>s\<close> has committed: its superblock is the newest valid one, and every block of it
  has the contents that \<open>s\<close> sees.\<close>

definition comprometido :: "sosofs \<Rightarrow> nat \<Rightarrow> bool" where
  "comprometido s b = (2 \<le> b \<and> b div 8 < length (fs_frozen s) \<and> bit_en (fs_frozen s) b)"

definition recupera :: "(bytes \<Rightarrow> u32) \<Rightarrow> sosofs \<Rightarrow> (nat \<Rightarrow> bytes) \<Rightarrow> bool" where
  "recupera crc s m = (let g = unat (sb_generation (fs_sb s)) in
    sb_parse crc (m (g mod 2)) = Some (fs_sb s) \<and>
    (\<forall>sb. sb_parse crc (m (Suc g mod 2)) = Some sb \<longrightarrow> sb = fs_sb s \<or> sb_generation sb < sb_generation (fs_sb s)) \<and>
    (\<forall>b. comprometido s b \<longrightarrow> m b = fs_img s b))"

lemma comprometido_no_libre: "comprometido s b \<Longrightarrow> \<not> bloque_libre s b"
  by (simp add: comprometido_def bloque_libre_def)

lemma recupera_igual:
  assumes "recupera crc s m1" "\<And>b. \<not> bloque_libre s b \<Longrightarrow> m b = m1 b"
  shows "recupera crc s m"
proof -
  have "m (g mod 2) = m1 (g mod 2)" for g by (rule assms(2)) (auto simp: bloque_libre_def)
  then show ?thesis using assms comprometido_no_libre by (auto simp: recupera_def Let_def)
qed

lemma fold_permitido: "list_all (permitido s) evs \<Longrightarrow> \<not> bloque_libre s b \<Longrightarrow> fold evento_img evs m b = m b"
proof (induction evs arbitrary: m)
  case (Cons e evs)
  then show ?case by (cases e) auto
qed simp

lemma recupera_marco: "marco s s' \<Longrightarrow> recupera crc s' m \<longleftrightarrow> recupera crc s m"
proof -
  assume "marco s s'"
  then obtain evs where e: "marco_evs s evs s'" by (auto simp: marco_def)
  then have "comprometido s' = comprometido s" by (auto simp: comprometido_def marco_evs_def)
  moreover have "comprometido s b \<Longrightarrow> fs_img s' b = fs_img s b" for b
    using e fold_permitido comprometido_no_libre by (auto simp: marco_evs_def)
  ultimately show ?thesis using e by (auto simp: recupera_def marco_evs_def Let_def)
qed

section \<open>Between operations\<close>

text \<open>What holds of a mounted file system between two operations: its bitmap is on the device, in blocks that it marks
  itself, and the device is at least as large as the superblock says.\<close>

definition limpio :: "sosofs \<Rightarrow> bool" where
  "limpio s = (coherente (fs_dev s) \<and> sin_fallos s \<and> 2 \<le> fs_count s \<and> unat (sb_block_count (fs_sb s)) \<le> fs_count s \<and>
    length (fs_bitmap s) = length (fs_frozen s) \<and> length (fs_frozen s) = unat (sb_bitmap_blocks (fs_sb s)) * BLOCK_SIZE \<and>
    (\<forall>i<unat (sb_bitmap_blocks (fs_sb s)). comprometido s (unat (sb_bitmap_start (fs_sb s)) + i) \<and>
      unat (sb_bitmap_start (fs_sb s)) + i < fs_count s \<and>
      fs_img s (unat (sb_bitmap_start (fs_sb s)) + i) = take BLOCK_SIZE (drop (i * BLOCK_SIZE) (fs_frozen s))))"

lemma limpio_marco:
  assumes "limpio s" "marco s s'"
  shows "limpio s'"
proof -
  obtain evs where e: "marco_evs s evs s'" using assms(2) by (auto simp: marco_def)
  have c: "comprometido s' = comprometido s" using e by (auto simp: comprometido_def marco_evs_def)
  have i: "comprometido s b \<Longrightarrow> fs_img s' b = fs_img s b" for b
    using e fold_permitido comprometido_no_libre by (auto simp: marco_evs_def)
  show ?thesis using assms(1) e i unfolding limpio_def c by (auto simp: marco_evs_def)
qed

lemma marco_rollback: "length (fs_bitmap s) = length (fs_frozen s) \<Longrightarrow> marco s (rollback s)"
  by (rule marco_memoria) (simp_all add: rollback_def)

text \<open>A commit either publishes nothing, and then it is one more operation inside the frame, or it publishes: the
  new bitmap is in free blocks, everything is flushed, the superblock goes to the alternate slot and is flushed too.\<close>

definition publicado :: "(bytes \<Rightarrow> u32) \<Rightarrow> sosofs \<Rightarrow> sosofs \<Rightarrow> sosofs \<Rightarrow> bool" where
  "publicado crc s s2 s' = (\<exists>l st. let n = length (fs_bitmap s) div BLOCK_SIZE; sb = sb_nuevo st n s2; b = unat (sb_generation sb) mod 2 in
    marco s s2 \<and> fs_log s2 = l @ [Vacia] \<and> libres s st n \<and> sb_generation (fs_sb s) \<noteq> - 1 \<and> asignado s (fs_root s) \<and> fs_root s2 = fs_root s \<and>
    (\<forall>i<n. bit_en (fs_bitmap s2) (st + i) \<and> fs_img s2 (st + i) = take BLOCK_SIZE (drop (i * BLOCK_SIZE) (fs_bitmap s2))) \<and>
    fs_sb s' = sb \<and> fs_frozen s' = fs_bitmap s2 \<and> fs_bitmap s' = fs_bitmap s2 \<and> fs_root s' = fs_root s2 \<and> fs_count s' = fs_count s2 \<and>
    fs_log s' = fs_log s2 @ [Escribe b (sb_block crc sb), Vacia] \<and> fs_img s' = (fs_img s2)(b := sb_block crc sb) \<and>
    coherente (fs_dev s') \<and> sin_fallos s')"

interpretation raiz: conserva "\<lambda>s s'. fs_root s' = fs_root s"
  by unfold_locales auto

lemma raiz_free [seguras]: "cumple (\<lambda>s s'. fs_root s' = fs_root s) (free_block b)"
  by (simp add: cumple_def free_block_def)

lemma marco_escribe_bitmap:
  assumes "libres s st n" "marco s s1"
  shows "marco s1 (snd (cada (escribe_bitmap st) [0..<n] s1))"
proof (rule seg.R_cada)
  fix j s2
  assume "j \<in> set [0..<n]" and m: "marco s1 s2"
  then have "bloque_libre s2 (st + j)"
    using libres_bloque [OF assms(1)] bloque_libre_marco [OF seg.R_trans [OF assms(2) m]] by auto
  then show "marco s2 (snd (escribe_bitmap st j s2))"
    unfolding escribe_bitmap_def by (rule marco_write)
qed

lemma libres_marco: "marco s s' \<Longrightarrow> libres s' = libres s"
  by (intro ext) (auto simp: libres_def dest!: marcoD)

lemma marco_campos:
  assumes "marco s s'"
  shows "coherente (fs_dev s) \<Longrightarrow> coherente (fs_dev s')" "sin_fallos s \<Longrightarrow> sin_fallos s'" "fs_count s' = fs_count s"
  using assms by (auto simp: marco_def marco_evs_def)

lemma publica_sin_fallos:
  assumes "sin_fallos s" "2 \<le> fs_count s" "coherente (fs_dev s)" "publica crc st n s = (r, s')"
  shows "sb_generation (fs_sb s) = - 1 \<and> s' = s \<and> r = Inl FsPanico \<or>
    sb_generation (fs_sb s) \<noteq> - 1 \<and> r = Inr () \<and> fs_sb s' = sb_nuevo st n s \<and> fs_frozen s' = fs_bitmap s \<and> fs_bitmap s' = fs_bitmap s \<and>
    fs_root s' = fs_root s \<and> fs_count s' = fs_count s \<and>
    fs_log s' = fs_log s @ [Escribe (unat (sb_generation (sb_nuevo st n s)) mod 2) (sb_block crc (sb_nuevo st n s)), Vacia] \<and>
    fs_img s' = (fs_img s)(unat (sb_generation (sb_nuevo st n s)) mod 2 := sb_block crc (sb_nuevo st n s)) \<and>
    coherente (fs_dev s') \<and> sin_fallos s'"
proof (cases "sb_generation (fs_sb s) = - 1")
  case False
  define sb where "sb = sb_nuevo st n s"
  define b where "b = unat (sb_generation sb) mod 2"
  have "b < fs_count s" using assms(2) by (simp add: b_def)
  from con_write_sin_fallos [OF assms(1) this, of "sb_block crc sb"] obtain s1
    where w: "con_dev (write_block b (sb_block crc sb)) s = (Inr (), s1)" "sin_fallos s1" "fs_count s1 = fs_count s" by blast
  have co: "coherente (fs_dev s1)"
    using w(1) write_block_coherente [OF assms(3)] by (auto simp: con_dev_def split: prod.splits)
  define s2 where "s2 = s1\<lparr>fs_dev := (fs_dev s1)\<lparr>ca_inner := (ca_inner (fs_dev s1))\<lparr>di_log := fs_log s1 @ [Vacia]\<rparr>\<rparr>\<rparr>"
  have f: "con_dev cache_flush s1 = (Inr (), s2)" unfolding s2_def by (rule con_flush_sin_fallos [OF w(2)])
  have "(r, s') = (Inr (), s2\<lparr>fs_sb := sb, fs_frozen := fs_bitmap s2, fs_dirty := False\<rparr>)"
    using assms(4) False w(1) f by (simp add: publica_def Let_def sb_def [symmetric] b_def [symmetric])
  moreover note con_write_ok [OF w(1)]
  ultimately show ?thesis unfolding sb_def [symmetric] b_def [symmetric]
    using False co w by (simp add: s2_def fs_log_def fs_img_def coherente_def sin_fallos_def fs_count_def)
qed (use assms(4) in \<open>auto simp: publica_def\<close>)

lemma commit_casos:
  assumes "limpio s" "commit crc s = (r, s')"
  shows "marco s s' \<or> (r = Inr () \<and> (\<exists>s2. publicado crc s s2 s'))"
proof (cases "fs_dirty s")
  case True
  obtain r1 s1 where c: "comprobar_raiz_publicable crc s = (r1, s1)" by fastforce
  have l1: "lee s s1" using cumpleD [OF lec.c_comprobar c] .
  then have m1: "marco s s1" by (rule lee_marco)
  have len: "length (fs_bitmap s1) = length (fs_frozen s1)" using assms(1) marcoD [OF m1] by (simp add: limpio_def)
  show ?thesis
  proof (cases r1)
    case (Inl e)
    then have "s' = s1 \<or> s' = rollback s1" using assms(2) True c by (auto simp: commit_def)
    then show ?thesis using m1 seg.R_trans [OF m1 marco_rollback [OF len]] by auto
  next
    case (Inr u)
    define n where "n = length (fs_bitmap s) div BLOCK_SIZE"
    have n: "length (fs_bitmap s1) div BLOCK_SIZE = n" using l1 by (simp add: n_def lee_def)
    let ?libera = "cada (\<lambda>i. free_block (unat (sb_bitmap_start (fs_sb s1)) + i)) [0..<unat (sb_bitmap_blocks (fs_sb s1))]"
    have co: "commit crc s = bindE ?libera (\<lambda>_. bindE (alloc_run n) (\<lambda>new_start.
        bindE (cada (escribe_bitmap new_start) [0..<n]) (\<lambda>_. bindE (con_dev cache_flush) (\<lambda>_. publica crc new_start n)))) s1"
      using True c Inr n by (simp add: commit_def Let_def)
    obtain r2 s2 where c2: "?libera s1 = (r2, s2)" by fastforce
    have "cumple marco ?libera" "cumple (\<lambda>s s'. fs_root s' = fs_root s) ?libera" by (intro seguras)+
    then have m2: "marco s s2" and z2: "fs_root s2 = fs_root s1"
      using seg.R_trans [OF m1] c2 unfolding cumple_def by (metis snd_conv)+
    obtain r3 s3 where c3: "alloc_run n s2 = (r3, s3)" by fastforce
    have m3: "marco s s3" using seg.R_trans [OF m2 cumpleD [OF segura_alloc_run c3]] .
    show ?thesis
    proof (cases "\<exists>u2 st. r2 = Inr u2 \<and> r3 = Inr st")
      case False
      then have "snd (commit crc s) = s2 \<or> snd (commit crc s) = s3"
        unfolding co using c2 c3 by (cases r2; cases r3) simp_all
      then have "s' = s2 \<or> s' = s3" using assms(2) by simp
      then show ?thesis using m2 m3 by auto
    next
      case True
      then obtain st where r23: "r2 = Inr ()" "r3 = Inr st" by auto
      note a = alloc_run_ok [OF c3 [unfolded r23]]
      have lib: "libres s st n" using a(2) libres_marco [OF m2] by simp
      obtain r4 s4 where c4: "cada (escribe_bitmap st) [0..<n] s3 = (r4, s4)" by fastforce
      have m4: "marco s s4" using seg.R_trans [OF m3] marco_escribe_bitmap [OF lib m3] c4 by (metis snd_conv)
      have sf: "sin_fallos s4" "coherente (fs_dev s4)" "2 \<le> fs_count s4"
        using assms(1) marco_campos [OF m4] by (auto simp: limpio_def)
      define s5 where "s5 = s4\<lparr>fs_dev := (fs_dev s4)\<lparr>ca_inner := (ca_inner (fs_dev s4))\<lparr>di_log := fs_log s4 @ [Vacia]\<rparr>\<rparr>\<rparr>"
      have c5: "con_dev cache_flush s4 = (Inr (), s5)" unfolding s5_def by (rule con_flush_sin_fallos [OF sf(1)])
      have m5: "marco s s5" using seg.R_trans [OF m4 cumpleD [OF segura_flush c5]] .
      show ?thesis
      proof (cases r4)
        case (Inl e)
        then have "s' = s4" using assms(2) co c2 c3 c4 r23 by auto
        then show ?thesis using m4 by simp
      next
        case (Inr u4)
        note e = escribe_bitmap_ok [OF c4 [unfolded Inr]]
        have p: "publica crc st n s5 = (r, s')" using assms(2) co c2 c3 c4 c5 r23 Inr by simp
        have s5: "sin_fallos s5" "2 \<le> fs_count s5" "coherente (fs_dev s5)"
          using sf by (simp_all add: s5_def sin_fallos_def fs_count_def coherente_def)
        from publica_sin_fallos [OF s5 p] show ?thesis
        proof (elim disjE conjE)
          assume "s' = s5"
          then show ?thesis using m5 by simp
        next
          assume g: "sb_generation (fs_sb s5) \<noteq> - 1"
          assume fin: "r = Inr ()" "fs_sb s' = sb_nuevo st n s5" "fs_frozen s' = fs_bitmap s5" "fs_bitmap s' = fs_bitmap s5"
            "fs_root s' = fs_root s5" "fs_count s' = fs_count s5" "coherente (fs_dev s')" "sin_fallos s'"
            "fs_log s' = fs_log s5 @ [Escribe (unat (sb_generation (sb_nuevo st n s5)) mod 2) (sb_block crc (sb_nuevo st n s5)), Vacia]"
            "fs_img s' = (fs_img s5)(unat (sb_generation (sb_nuevo st n s5)) mod 2 := sb_block crc (sb_nuevo st n s5))"
          have bits: "\<forall>i<n. bit_en (fs_bitmap s5) (st + i)"
            using e a(1) marca_tramo_bits(2) [of n st s2] a(3) by (auto simp: s5_def)
          have img: "\<forall>i<n. fs_img s5 (st + i) = take BLOCK_SIZE (drop (i * BLOCK_SIZE) (fs_bitmap s5))"
            using e by (simp add: s5_def fs_img_def)
          have z: "fs_root s5 = fs_root s" using e a(1) z2 l1 by (simp add: s5_def lee_def)
          have "publicado crc s s5 s'"
            unfolding publicado_def Let_def n_def [symmetric]
            using m5 lib g fin bits img z asignado_comprobado [OF c [unfolded \<open>r1 = Inr u\<close>]] marcoD [OF m5]
            by (intro exI [of _ "fs_log s4"] exI [of _ st]) (simp add: s5_def fs_log_def)
          then show ?thesis using fin(1) by blast
        qed
      qed
    qed
  qed
qed (use assms(2) in \<open>simp add: commit_def\<close>)

section \<open>Safety of a history\<close>

text \<open>Whatever a cut at this moment leaves on the medium, that had \<open>m0\<close> when the history began, holds the
  generation that \<open>s\<close> has committed.\<close>

definition a_salvo :: "(bytes \<Rightarrow> u32) \<Rightarrow> (nat \<Rightarrow> bytes) \<Rightarrow> sosofs \<Rightarrow> bool" where
  "a_salvo crc m0 s = (limpio s \<and> recupera crc s (fs_img s) \<and> fs_img s = fold evento_img (fs_log s) m0 \<and>
    list_all (\<lambda>e. \<not> es_fallo e) (fs_log s) \<and> (\<forall>m. tras_corte m0 (fs_log s) m \<longrightarrow> recupera crc s m))"

lemma marco_corte:
  assumes "a_salvo crc m0 s" "marco s s'" "prefix (fs_log s) l" "prefix l (fs_log s')" "tras_corte m0 l m"
  shows "recupera crc s m"
proof -
  obtain evs where e: "marco_evs s evs s'" using assms(2) by (auto simp: marco_def)
  obtain xs where l: "l = fs_log s @ xs" using assms(3) by (auto simp: prefix_def)
  then obtain ys where "evs = xs @ ys" using assms(4) e by (auto simp: marco_evs_def prefix_def)
  then have "list_all (permitido s) xs" using e by (auto simp: marco_evs_def)
  from tras_corte_permitido [OF assms(5) [unfolded l] this] show ?thesis
    using assms(1) recupera_igual unfolding a_salvo_def by metis
qed

lemma a_salvo_marco:
  assumes "a_salvo crc m0 s" "marco s s'"
  shows "a_salvo crc m0 s'"
proof -
  obtain evs where e: "marco_evs s evs s'" using assms(2) by (auto simp: marco_def)
  have "recupera crc s (fs_img s')"
    using assms(1) e fold_permitido by (auto simp: a_salvo_def marco_evs_def intro!: recupera_igual [of crc s "fs_img s"])
  moreover have "recupera crc s m" if "tras_corte m0 (fs_log s') m" for m
    using marco_corte [OF assms _ _ that] e by (auto simp: marco_evs_def)
  ultimately show ?thesis
    using assms(1) e limpio_marco [OF _ assms(2)] recupera_marco [OF assms(2)]
    by (auto simp: a_salvo_def marco_evs_def limpio_def)
qed

lemma slot_otro: "Suc (Suc g) mod 2 = g mod 2" "Suc g mod 2 \<noteq> g mod 2" for g :: nat
  by presburger+

lemma unat_mas_uno: "g \<noteq> - 1 \<Longrightarrow> unat (g + 1 :: 'a::len word) = Suc (unat g)"
  by (metis add.commute add_0 unatSuc unsigned_eq_0_iff add.inverse_inverse eq_neg_iff_add_eq_0)

lemma publicado_limpio:
  assumes "limpio s" "publicado crc s s2 s'"
  shows "limpio s'"
proof -
  define n where "n = length (fs_bitmap s) div BLOCK_SIZE"
  from assms(2) obtain l st where p: "marco s s2" "libres s st n" "fs_sb s' = sb_nuevo st n s2"
    "\<forall>i<n. bit_en (fs_bitmap s2) (st + i) \<and> fs_img s2 (st + i) = take BLOCK_SIZE (drop (i * BLOCK_SIZE) (fs_bitmap s2))"
    "fs_frozen s' = fs_bitmap s2" "fs_bitmap s' = fs_bitmap s2" "fs_count s' = fs_count s2" "coherente (fs_dev s')" "sin_fallos s'"
    "fs_img s' = (fs_img s2)(unat (sb_generation (sb_nuevo st n s2)) mod 2 := sb_block crc (sb_nuevo st n s2))"
    by (auto simp: publicado_def Let_def n_def)
  note q = assms(1) [unfolded limpio_def] marcoD [OF p(1)] marco_campos(3) [OF p(1)]
  have n: "n = unat (sb_bitmap_blocks (fs_sb s))" using q by (simp add: n_def BLOCK_SIZE_def)
  then have n32: "unat (of_nat n :: u32) = n" by (simp add: unsigned_of_nat take_bit_nat_eq_self)
  have b: "unat (sb_bitmap_blocks (fs_sb s')) = n" "sb_block_count (fs_sb s') = sb_block_count (fs_sb s)"
    using p(3) n32 q by (simp_all add: sb_nuevo_def)
  have st: "unat (of_nat st :: u64) = st"
  proof -
    have "st \<le> unat (sb_block_count (fs_sb s))" using p(2) by (simp add: libres_def)
    then have "st < 2 ^ 64" using unsigned_less [of "sb_block_count (fs_sb s)", where 'a = nat] by simp
    then show ?thesis by (simp add: unsigned_of_nat take_bit_nat_eq_self)
  qed
  then have st': "unat (sb_bitmap_start (fs_sb s')) = st" using p(3) by (simp add: sb_nuevo_def)
  have "comprometido s' (st + i) \<and> st + i < fs_count s' \<and> fs_img s' (st + i) = take BLOCK_SIZE (drop (i * BLOCK_SIZE) (fs_frozen s'))"
    if "i < n" for i
    using that p q by (auto simp: comprometido_def libres_def)
  then show ?thesis unfolding limpio_def b st' using q p n by auto
qed

lemma publicado_recupera:
  assumes "recupera crc s (fs_img s)" "publicado crc s s2 s'"
  shows "recupera crc s' (fs_img s')"
proof -
  define n where "n = length (fs_bitmap s) div BLOCK_SIZE"
  from assms(2) obtain st where p: "marco s s2" "sb_generation (fs_sb s) \<noteq> - 1" "fs_sb s' = sb_nuevo st n s2"
    "fs_img s' = (fs_img s2)(unat (sb_generation (sb_nuevo st n s2)) mod 2 := sb_block crc (sb_nuevo st n s2))"
    by (auto simp: publicado_def Let_def n_def)
  obtain evs where e: "marco_evs s evs s2" using p(1) by (auto simp: marco_def)
  have r: "recupera crc s (fs_img s2)"
    using assms(1) e fold_permitido by (auto simp: marco_evs_def intro!: recupera_igual [of crc s "fs_img s"])
  define g where "g = unat (sb_generation (fs_sb s))"
  have g: "sb_generation (sb_nuevo st n s2) = sb_generation (fs_sb s) + 1" using marcoD [OF p(1)] by (simp add: sb_nuevo_def)
  have g': "unat (sb_generation (fs_sb s')) = Suc g" using p(2,3) g by (simp add: unat_mas_uno g_def)
  have "fs_img s' (Suc g mod 2) = sb_block crc (fs_sb s')" using p(3,4) g' by simp
  moreover have "fs_img s' (Suc (Suc g) mod 2) = fs_img s2 (g mod 2)"
    using p(4) g' p(3) slot_otro [of g] by (simp add: fun_upd_def)
  moreover have "sb_generation (fs_sb s) < sb_generation (fs_sb s')"
    using p(2,3) g g' by (simp add: word_less_nat_alt g_def)
  ultimately show ?thesis using r g' by (auto simp: recupera_def Let_def sb_parse_block g_def)
qed

text \<open>The cut in the middle of a publication: the old generation until the superblock is on the medium, the new one
  from then on.\<close>

lemma publicado_tras_corte:
  assumes "a_salvo crc m0 s" "publicado crc s s2 s'" "prefix (fs_log s) l" "prefix l (fs_log s')" "tras_corte m0 l m"
  shows "recupera crc s m \<or> recupera crc s' m" "l = fs_log s' \<Longrightarrow> recupera crc s' m"
proof -
  from assms(2) obtain l0 b buf where p: "marco s s2" "fs_log s2 = l0 @ [Vacia]" "fs_log s' = fs_log s2 @ [Escribe b buf, Vacia]"
    "fs_img s' = (fs_img s2)(b := buf)"
    by (auto simp: publicado_def Let_def)
  have a2: "a_salvo crc m0 s2" using a_salvo_marco [OF assms(1) p(1)] .
  have img: "fs_img s2 = fold evento_img l0 m0" "list_all (\<lambda>e. \<not> es_fallo e) l0" using a2 p(2) by (auto simp: a_salvo_def)
  have r2: "recupera crc s (fs_img s2)" using a2 recupera_marco [OF p(1)] unfolding a_salvo_def by metis
  have r': "recupera crc s' (fs_img s')" using publicado_recupera assms(1,2) by (auto simp: a_salvo_def)
  have uno: "m' = fs_img s2 \<or> m' = fs_img s'" if "tras_corte m0 (fs_log s2 @ [Escribe b buf]) m'" for m'
  proof -
    from that have "\<exists>m1. tras_corte m0 (fs_log s2) m1 \<and> (m' = m1 \<or> m' = m1(b := buf))" by (auto elim!: tras_corte_escribeE)
    then show ?thesis using tras_corte_vaciado [of m0 l0] img p(2,4) by auto
  qed
  have dos: "m' = fs_img s'" if "tras_corte m0 (fs_log s') m'" for m'
    using that tras_corte_vaciado [of m0 "fs_log s2 @ [Escribe b buf]"] img p a2 by (auto simp: a_salvo_def)
  consider "prefix l (fs_log s2)" | "l = fs_log s2 @ [Escribe b buf]" | "l = fs_log s'"
    using assms(4) p(3) by (auto simp: prefix_append prefix_Cons)
  then show "recupera crc s m \<or> recupera crc s' m"
  proof cases
    case 1
    then show ?thesis using marco_corte [OF assms(1) p(1) assms(3) 1 assms(5)] by simp
  next
    case 2
    then show ?thesis using uno r2 r' assms(5) by blast
  next
    case 3
    then show ?thesis using dos r' assms(5) by blast
  qed
  show "l = fs_log s' \<Longrightarrow> recupera crc s' m" using dos r' assms(5) by blast
qed

lemma publicado_a_salvo:
  assumes "a_salvo crc m0 s" "publicado crc s s2 s'"
  shows "a_salvo crc m0 s'"
proof -
  from assms(2) obtain b buf where p: "marco s s2" "fs_log s' = fs_log s2 @ [Escribe b buf, Vacia]" "fs_img s' = (fs_img s2)(b := buf)"
    by (auto simp: publicado_def Let_def)
  have a2: "a_salvo crc m0 s2" using a_salvo_marco [OF assms(1) p(1)] .
  have pre: "prefix (fs_log s) (fs_log s')" using p(1,2) by (auto simp: marco_def marco_evs_def)
  show ?thesis
    using publicado_limpio [OF _ assms(2)] publicado_recupera [OF _ assms(2)] publicado_tras_corte(2) [OF assms pre] assms(1) a2 p
    by (auto simp: a_salvo_def)
qed

section \<open>Mounting what a cut left\<close>

definition disp_nuevo :: "nat \<Rightarrow> nat \<Rightarrow> (nat \<Rightarrow> bytes) \<Rightarrow> disp" where
  "disp_nuevo n mx m = \<lparr>di_count = n, di_img = m, di_max = mx, di_log = [], di_fallos = []\<rparr>"

definition recien_montado :: "(bytes \<Rightarrow> u32) \<Rightarrow> sosofs \<Rightarrow> bool" where
  "recien_montado crc s = (limpio s \<and> recupera crc s (fs_img s) \<and> fs_log s = [])"

text \<open>Two states with the same committed generation.\<close>

definition misma_generacion :: "sosofs \<Rightarrow> sosofs \<Rightarrow> bool" where
  "misma_generacion s f = (fs_sb f = fs_sb s \<and> fs_frozen f = fs_frozen s \<and> fs_bitmap f = fs_frozen s \<and>
    fs_root f = unat (sb_tree_root (fs_sb s)) \<and> fs_next f = sb_next_inode (fs_sb s) \<and>
    (\<forall>b. comprometido s b \<longrightarrow> fs_img f b = fs_img s b))"

lemma a_salvo_montado: "recien_montado crc s \<Longrightarrow> a_salvo crc (fs_img s) s"
  by (auto simp: recien_montado_def a_salvo_def tras_corte_vacio)

lemma leer_slot_ok:
  assumes "coherente c" "di_fallos (ca_inner c) = []" "b < di_count (ca_inner c)" "leer_slot crc b best c = (x, c')"
  shows "x = mejor_sb best (sb_parse crc (di_img (ca_inner c) b)) \<and> mismo_disp c c' \<and> coherente c'"
proof -
  obtain r d where r: "read_block b c = (r, d)" by fastforce
  show ?thesis using read_block_keeps [OF r] assms r by (auto simp: leer_slot_def)
qed

lemma leer_bitmap_ok:
  "coherente c \<Longrightarrow> di_fallos (ca_inner c) = [] \<Longrightarrow> st + n \<le> di_count (ca_inner c) \<Longrightarrow>
    \<exists>c'. leer_bitmap st n c = (Inr (concat (map (di_img (ca_inner c)) [st..<st + n])), c') \<and> mismo_disp c c' \<and> coherente c'"
proof (induction n arbitrary: st c)
  case (Suc n)
  obtain r d where r: "read_block st c = (r, d)" by fastforce
  note k = read_block_keeps [OF r]
  have d: "r = Inr (di_img (ca_inner c) st)" "mismo_disp c d" "coherente d" using k Suc.prems by auto
  then have "di_fallos (ca_inner d) = []" "Suc st + n \<le> di_count (ca_inner d)" "di_img (ca_inner d) = di_img (ca_inner c)"
    using Suc.prems by (auto simp: mismo_disp_def)
  with Suc.IH [OF d(3), of "Suc st"] obtain c' where
    c: "leer_bitmap (Suc st) n d = (Inr (concat (map (di_img (ca_inner c)) [Suc st..<Suc st + n])), c')" "mismo_disp d c'" "coherente c'"
    by auto
  have "[st..<st + Suc n] = st # [Suc st..<Suc st + n]" by (simp add: upt_conv_Cons del: upt_Suc)
  then show ?case using r d c mismo_disp_trans [OF d(2) c(2)] by (auto simp del: upt_Suc)
qed auto

lemma concat_trozos:
  "length bm = n * k \<Longrightarrow> concat (map (\<lambda>i. take k (drop (i * k) bm)) [0..<n]) = bm"
proof (induction n arbitrary: bm)
  case (Suc n)
  have "[0..<Suc n] = 0 # map Suc [0..<n]" by (simp add: map_Suc_upt upt_conv_Cons del: upt_Suc)
  moreover have "concat (map (\<lambda>i. take k (drop (i * k) (drop k bm))) [0..<n]) = drop k bm" using Suc.IH [of "drop k bm"] Suc.prems by simp
  ultimately show ?case by (simp add: o_def add.commute del: upt_Suc)
qed simp

lemma mount_recupera:
  assumes "limpio t" "recupera crc t m"
  shows "\<exists>f. mount crc (cache_new (disp_nuevo (fs_count t) mx m)) = Inr f \<and> recien_montado crc f \<and> misma_generacion t f"
proof -
  define d0 where "d0 = cache_new (disp_nuevo (fs_count t) mx m)"
  have d0: "coherente d0" "di_fallos (ca_inner d0) = []" "di_img (ca_inner d0) = m" "di_count (ca_inner d0) = fs_count t" "di_log (ca_inner d0) = []"
    by (simp_all add: d0_def cache_new_def cache_with_capacity_def disp_nuevo_def coherente_def)
  have c2: "2 \<le> fs_count t" using assms(1) by (simp add: limpio_def)
  define sb where "sb = fs_sb t"
  define g where "g = unat (sb_generation sb)"
  obtain b1 d1 where s1: "leer_slot crc 0 None d0 = (b1, d1)" by fastforce
  note k1 = leer_slot_ok [OF d0(1,2) _ s1, unfolded d0(3,4)]
  then have d1: "coherente d1" "di_fallos (ca_inner d1) = []" "di_img (ca_inner d1) = m" "1 < di_count (ca_inner d1)" "mismo_disp d0 d1"
    "b1 = mejor_sb None (sb_parse crc (m 0))"
    using c2 d0 by (auto simp: mismo_disp_def)
  obtain b2 d2 where s2: "leer_slot crc 1 b1 d1 = (b2, d2)" by fastforce
  note k2 = leer_slot_ok [OF d1(1,2,4) s2, unfolded d1(3)]
  have m02: "mismo_disp d0 d2" "coherente d2" using k2 mismo_disp_trans [OF d1(5)] by auto
  have r: "sb_parse crc (m (g mod 2)) = Some sb" "\<And>x. sb_parse crc (m (Suc g mod 2)) = Some x \<Longrightarrow> x = sb \<or> sb_generation x < sb_generation sb"
    using assms(2) by (auto simp: recupera_def Let_def g_def sb_def)
  have b2: "b2 = Some sb"
  proof (cases "even g")
    case True
    then have "g mod 2 = 0" "Suc g mod 2 = 1" by presburger+
    then show ?thesis using k2 d1(6) r by (auto simp: mejor_sb_def split: option.splits)
  next
    case False
    then have "g mod 2 = 1" "Suc g mod 2 = 0" by presburger+
    then show ?thesis using k2 d1(6) r by (fastforce simp: mejor_sb_def split: option.splits)
  qed
  define st where "st = unat (sb_bitmap_start sb)"
  define n where "n = unat (sb_bitmap_blocks sb)"
  have q: "\<forall>i<n. comprometido t (st + i) \<and> st + i < fs_count t \<and> fs_img t (st + i) = take BLOCK_SIZE (drop (i * BLOCK_SIZE) (fs_frozen t))"
    "length (fs_frozen t) = n * BLOCK_SIZE"
    using assms(1) by (auto simp: limpio_def st_def n_def sb_def)
  have "n \<noteq> 0 \<Longrightarrow> st + n \<le> fs_count t" using q(1) [rule_format, of "n - 1"] by auto
  moreover have m2: "di_fallos (ca_inner d2) = []" "di_count (ca_inner d2) = fs_count t" "di_img (ca_inner d2) = m" "di_log (ca_inner d2) = []"
    using m02 d0 by (auto simp: mismo_disp_def)
  ultimately have "n \<noteq> 0 \<Longrightarrow> \<exists>c'. leer_bitmap st n d2 = (Inr (concat (map m [st..<st + n])), c') \<and> mismo_disp d2 c' \<and> coherente c'"
    using leer_bitmap_ok [OF m02(2), of st n] by simp
  moreover have "n = 0 \<Longrightarrow> \<exists>c'. leer_bitmap st n d2 = (Inr (concat (map m [st..<st + n])), c') \<and> mismo_disp d2 c' \<and> coherente c'"
    using m02 by simp
  ultimately obtain d3 where d3: "leer_bitmap st n d2 = (Inr (concat (map m [st..<st + n])), d3)" "mismo_disp d2 d3" "coherente d3" by blast
  have mi: "m (st + i) = take BLOCK_SIZE (drop (i * BLOCK_SIZE) (fs_frozen t))" if "i < n" for i
    using q(1) that assms(2) by (auto simp: recupera_def Let_def)
  have "map m [st..<st + n] = map (\<lambda>i. take BLOCK_SIZE (drop (i * BLOCK_SIZE) (fs_frozen t))) [0..<n]"
    by (rule nth_equalityI) (auto simp: mi)
  then have bm: "concat (map m [st..<st + n]) = fs_frozen t" using concat_trozos [OF q(2)] by simp
  define f where "f = \<lparr>fs_dev = d3, fs_sb = sb, fs_root = unat (sb_tree_root sb), fs_leidos = 0, fs_next = sb_next_inode sb,
    fs_bitmap = fs_frozen t, fs_frozen = fs_frozen t, fs_dirty = False, fs_hint = 2\<rparr>"
  have mnt: "mount crc d0 = Inr f"
    unfolding mount_def s1 prod.case s2 b2 option.case st_def [symmetric] n_def [symmetric] d3(1) sum.case bm f_def ..
  have f: "fs_img f = m" "fs_log f = []" "fs_count f = fs_count t" "sin_fallos f"
    using m2 d3(2) by (auto simp: f_def fs_img_def fs_log_def fs_count_def sin_fallos_def mismo_disp_def)
  have c: "comprometido f = comprometido t" by (auto simp: comprometido_def f_def)
  have mg: "misma_generacion t f" using assms(2) f by (auto simp: misma_generacion_def f_def sb_def recupera_def Let_def)
  have "limpio f" using assms(1) d3(3) f mi q
    unfolding limpio_def c by (auto simp: f_def st_def [symmetric] n_def [symmetric] sb_def [symmetric])
  moreover have "recupera crc f (fs_img f)" using assms(2) f c by (simp add: recupera_def f_def sb_def Let_def)
  ultimately show ?thesis using mnt mg f(2) by (auto simp: d0_def recien_montado_def)
qed

section \<open>Histories\<close>

text \<open>A call of the interface, and the states that a sequence of calls goes through as long as none of them panics.\<close>

datatype orden = OMkdir u64 bytes u64 | OCreate u64 bytes bytes u64 | OAppend u64 bytes u64 | OUnlink u64 bytes
  | ORename u64 bytes u64 bytes u64 | OTruncate u64 u64 u64 | OMtime u64 u64

definition sin_valor :: "(fs_error + 'a) \<times> sosofs \<Rightarrow> (fs_error + unit) \<times> sosofs" where
  "sin_valor rs = (case rs of (Inl e, s) \<Rightarrow> (Inl e, s) | (Inr _, s) \<Rightarrow> (Inr (), s))"

fun ejecuta :: "(bytes \<Rightarrow> u32) \<Rightarrow> orden \<Rightarrow> unit fs_op" where
  "ejecuta crc (OMkdir dir name mtime) s = sin_valor (mkdir crc dir name mtime s)"
| "ejecuta crc (OCreate dir name data mtime) s = sin_valor (create_file crc dir name data mtime s)"
| "ejecuta crc (OAppend ino data mtime) s = sin_valor (append_file crc ino data mtime s)"
| "ejecuta crc (OUnlink dir name) s = unlink crc dir name s"
| "ejecuta crc (ORename d n d' n' mtime) s = rename_fs crc d n d' n' mtime s"
| "ejecuta crc (OTruncate ino new_size mtime) s = truncate_file crc ino new_size mtime s"
| "ejecuta crc (OMtime ino mtime) s = set_mtime crc ino mtime s"

inductive historia :: "(bytes \<Rightarrow> u32) \<Rightarrow> sosofs \<Rightarrow> sosofs list \<Rightarrow> bool" for crc s0 where
  comienzo: "historia crc s0 [s0]"
| llamada: "historia crc s0 ss \<Longrightarrow> ejecuta crc q (last ss) = (r, s') \<Longrightarrow> r \<noteq> Inl FsPanico \<Longrightarrow> historia crc s0 (ss @ [s'])"

lemma finish_casos:
  assumes "limpio s" "marco s s1" "finish crc (r1, s1) = (r, s')"
  shows "marco s s' \<or> (\<exists>s2. publicado crc s1 s2 s')"
proof -
  have l1: "limpio s1" using limpio_marco [OF assms(1,2)] .
  have roll: "marco s (rollback t)" if "marco s t" for t
    using seg.R_trans [OF that marco_rollback] limpio_marco [OF assms(1) that] by (simp add: limpio_def)
  show ?thesis
  proof (cases r1)
    case (Inl e)
    then have "s' = s1 \<or> s' = rollback s1" using assms(3) by (auto simp: finish_def)
    then show ?thesis using assms(2) roll by auto
  next
    case (Inr v)
    obtain r2 s2 where c: "commit crc s1 = (r2, s2)" by fastforce
    have "s' = s2 \<or> s' = rollback s2 \<and> r2 \<noteq> Inr ()" using assms(3) Inr c by (auto simp: finish_def split: sum.splits)
    moreover have "marco s1 s2 \<Longrightarrow> marco s s2" using seg.R_trans [OF assms(2)] .
    ultimately show ?thesis using commit_casos [OF l1 c] roll by auto
  qed
qed

lemma finish_paso:
  assumes "limpio s" "cumple marco m"
  shows "\<exists>s1. marco s s1 \<and> (marco s (snd (finish crc (m s))) \<or> (\<exists>s2. publicado crc s1 s2 (snd (finish crc (m s)))))"
proof -
  obtain r1 s1 where m: "m s = (r1, s1)" by fastforce
  obtain r s' where f: "finish crc (r1, s1) = (r, s')" by fastforce
  have "marco s s1" using cumpleD [OF assms(2) m] .
  then show ?thesis using finish_casos [OF assms(1) _ f] m f by auto
qed

lemma ejecuta_paso:
  assumes "limpio s" "ejecuta crc q s = (r, s')"
  shows "\<exists>s1. marco s s1 \<and> (marco s s' \<or> (\<exists>s2. publicado crc s1 s2 s'))"
proof -
  have sv: "snd (sin_valor x) = snd x" for x :: "(fs_error + u64) \<times> sosofs"
    by (cases x) (auto simp: sin_valor_def split: sum.splits)
  note f = finish_paso [OF assms(1), of _ crc]
  have "\<exists>s1. marco s s1 \<and> (marco s (snd (ejecuta crc q s)) \<or> (\<exists>s2. publicado crc s1 s2 (snd (ejecuta crc q s))))"
  proof (cases q)
    case (OMkdir dir name mtime)
    then show ?thesis using f [OF segura_ops(1)] by (simp add: sv mkdir_def)
  next
    case (OCreate dir name data mtime)
    then show ?thesis using f [OF segura_ops(2)] by (simp add: sv create_file_def)
  next
    case (OAppend ino data mtime)
    then show ?thesis using f [OF segura_ops(3)] by (simp add: sv append_file_def)
  next
    case (OUnlink dir name)
    then show ?thesis using f [OF segura_unlink_inner] by (simp add: unlink_def)
  next
    case (ORename d n d' n' mtime)
    then show ?thesis using f [OF segura_ops(4)] by (simp add: rename_fs_def)
  next
    case (OTruncate ino new_size mtime)
    then show ?thesis using f [OF segura_ops(5)] by (simp add: truncate_file_def)
  next
    case (OMtime ino mtime)
    then show ?thesis using f [OF segura_ops(6)] by (simp add: set_mtime_def)
  qed
  then show ?thesis using assms(2) by simp
qed

text \<open>One call: a cut anywhere in it leaves the generation before or the one after, and after it the state is as safe
  as before.\<close>

lemma marco_prefix: "marco s s' \<Longrightarrow> prefix (fs_log s) (fs_log s')"
  by (auto simp: marco_def marco_evs_def)

lemma ejecuta_corte:
  assumes "a_salvo crc m0 s" "ejecuta crc q s = (r, s')"
  shows "a_salvo crc m0 s'" "prefix (fs_log s) (fs_log s')"
    "prefix (fs_log s) l \<Longrightarrow> prefix l (fs_log s') \<Longrightarrow> tras_corte m0 l m \<Longrightarrow> recupera crc s m \<or> recupera crc s' m"
proof -
  have "limpio s" using assms(1) by (simp add: a_salvo_def)
  from ejecuta_paso [OF this assms(2)] obtain s1 where s1: "marco s s1" "marco s s' \<or> (\<exists>s2. publicado crc s1 s2 s')" by blast
  have a1: "a_salvo crc m0 s1" using a_salvo_marco [OF assms(1) s1(1)] .
  show "a_salvo crc m0 s'" using s1 a_salvo_marco [OF assms(1)] publicado_a_salvo [OF a1] by blast
  have pub: "prefix (fs_log s1) (fs_log s')" if "publicado crc s1 s2 s'" for s2
    using that marco_prefix [of s1 s2] by (auto simp: publicado_def Let_def)
  show "prefix (fs_log s) (fs_log s')"
    using s1(2) pub marco_prefix [OF s1(1)] marco_prefix [of s s'] by (meson prefix_order.trans)
  assume l: "prefix (fs_log s) l" "prefix l (fs_log s')" "tras_corte m0 l m"
  from s1(2) show "recupera crc s m \<or> recupera crc s' m"
  proof
    assume "marco s s'"
    then show ?thesis using marco_corte [OF assms(1) _ l] by simp
  next
    assume "\<exists>s2. publicado crc s1 s2 s'"
    then obtain s2 where p: "publicado crc s1 s2 s'" by blast
    have "prefix l (fs_log s1) \<or> prefix (fs_log s1) l" using prefix_same_cases [OF l(2) pub [OF p]] .
    then show ?thesis
    proof
      assume "prefix l (fs_log s1)"
      then show ?thesis using marco_corte [OF assms(1) s1(1) l(1) _ l(3)] by simp
    next
      assume "prefix (fs_log s1) l"
      then show ?thesis using publicado_tras_corte(1) [OF a1 p _ l(2,3)] recupera_marco [OF s1(1)] by simp
    qed
  qed
qed

text \<open>A cut of a history of calls that ended with \<open>ss\<close>, of which \<open>l\<close> had been asked to the device: the image holds the
  generation of one of the states, and not of one before the last that was complete.\<close>

definition salvada :: "(bytes \<Rightarrow> u32) \<Rightarrow> sosofs list \<Rightarrow> evento list \<Rightarrow> (nat \<Rightarrow> bytes) \<Rightarrow> bool" where
  "salvada crc ss l m = (\<exists>j<length ss. limpio (ss ! j) \<and> recupera crc (ss ! j) m \<and> (\<forall>i<length ss. prefix (fs_log (ss ! i)) l \<longrightarrow> i \<le> j))"

lemma historia_no_vacia: "historia crc s0 ss \<Longrightarrow> ss \<noteq> []"
  by (induction rule: historia.induct) auto

lemma salvada_paso:
  assumes "ss \<noteq> []" "a_salvo crc m0 (last ss)" "ejecuta crc q (last ss) = (r, s')"
    and ant: "prefix l (fs_log (last ss)) \<Longrightarrow> tras_corte m0 l m \<Longrightarrow> salvada crc ss l m"
    and l: "prefix l (fs_log s')" "tras_corte m0 l m"
  shows "salvada crc (ss @ [s']) l m"
proof -
  define s where "s = last ss"
  note e = ejecuta_corte [OF assms(2,3), folded s_def]
  have lim: "limpio s" "limpio s'" using assms(2) e(1) by (auto simp: a_salvo_def s_def)
  have n: "length ss = Suc (length ss - 1)" "ss ! (length ss - 1) = s" using assms(1) by (simp_all add: s_def last_conv_nth)
  have final: ?thesis if "recupera crc s' m"
    unfolding salvada_def by (rule exI [of _ "length ss"]) (use that lim in auto)
  show ?thesis
  proof (cases "prefix (fs_log s') l")
    case True
    then have "l = fs_log s'" using l(1) by (simp add: prefix_order.antisym)
    then show ?thesis using final e(1) l(2) by (simp add: a_salvo_def)
  next
    case False
    show ?thesis
    proof (cases "prefix l (fs_log s)")
      case True
      then obtain j where j: "j < length ss" "limpio (ss ! j)" "recupera crc (ss ! j) m" "\<forall>i<length ss. prefix (fs_log (ss ! i)) l \<longrightarrow> i \<le> j"
        using ant l(2) by (auto simp: salvada_def s_def)
      then show ?thesis unfolding salvada_def
        by (intro exI [of _ j]) (use False in \<open>auto simp: nth_append less_Suc_eq\<close>)
    next
      case no: False
      then have pre: "prefix (fs_log s) l" using prefix_same_cases [OF l(1) e(2)] by blast
      from e(3) [OF pre l] show ?thesis
      proof
        assume "recupera crc s m"
        then show ?thesis unfolding salvada_def
          by (intro exI [of _ "length ss - 1"]) (use False lim n in \<open>auto simp: nth_append less_Suc_eq\<close>)
      qed (rule final)
    qed
  qed
qed

lemma historia_salvada:
  assumes "historia crc s0 ss" "recien_montado crc s0"
  shows "a_salvo crc (fs_img s0) (last ss) \<and>
    (\<forall>l m. prefix l (fs_log (last ss)) \<longrightarrow> tras_corte (fs_img s0) l m \<longrightarrow> salvada crc ss l m)"
  using assms(1)
proof (induction rule: historia.induct)
  case comienzo
  have "recupera crc s0 (fs_img s0)" "limpio s0" "fs_log s0 = []" using assms(2) by (simp_all add: recien_montado_def)
  then show ?case using a_salvo_montado [OF assms(2)] by (auto simp: salvada_def tras_corte_vacio)
next
  case (llamada ss q r s')
  have "ss \<noteq> []" using historia_no_vacia llamada(1) .
  then show ?case using llamada ejecuta_corte(1) salvada_paso by auto
qed

lemma tras_corte_todo: "tras_corte m l (fold evento_img l m)"
proof (induction l rule: rev_induct)
  case (snoc e l)
  show ?case using tras_corte.escrita [OF snoc] tras_corte.fallida [OF snoc] tras_corte.vaciada [OF snoc]
    by (cases e) (auto simp del: fun_upd_apply)
qed (simp add: tras_corte_vacio)

text \<open>A small file system: 64 blocks, the root directory alone in a leaf in block 2, the bitmap in block 3, and a checksum that is always
  zero.\<close>

definition sb_ejemplo :: superblock where
  "sb_ejemplo = \<lparr>sb_generation = 1, sb_block_count = 64, sb_tree_root = 2, sb_bitmap_start = 3, sb_bitmap_blocks = 1, sb_next_inode = 3\<rparr>"

definition mapa_ejemplo :: bytes where
  "mapa_ejemplo = CHR 0x0F # replicate 4095 (CHR 0x00)"

definition hoja_ejemplo :: "(key \<times> bytes) list" where
  "hoja_ejemplo = [(key_inode ROOT_INODE, relleno_item (inode_bytes \<lparr>ii_type = FT_DIR, ii_size = 0, ii_mtime = 0\<rparr>)),
    (key_inode 2, relleno_item (inode_bytes \<lparr>ii_type = FT_FILE, ii_size = 0, ii_mtime = 0\<rparr>))]"

definition img_ejemplo :: "nat \<Rightarrow> bytes" where
  "img_ejemplo b = (if b < 2 then sb_block (\<lambda>_. 0) sb_ejemplo else if b = 2 then nodo_bloque (\<lambda>_. 0) 1 2 0 (Leaf hoja_ejemplo)
    else if b = 3 then mapa_ejemplo else replicate BLOCK_SIZE (CHR 0x00))"

definition fs_ejemplo :: sosofs where
  "fs_ejemplo = \<lparr>fs_dev = cache_new (disp_nuevo 64 8 img_ejemplo), fs_sb = sb_ejemplo, fs_root = 2, fs_leidos = 0, fs_next = 3,
    fs_bitmap = mapa_ejemplo, fs_frozen = mapa_ejemplo, fs_dirty = False, fs_hint = 2\<rparr>"

lemma fs_ejemplo_campos [simp]:
  "fs_sb fs_ejemplo = sb_ejemplo" "fs_frozen fs_ejemplo = mapa_ejemplo" "fs_bitmap fs_ejemplo = mapa_ejemplo" "fs_img fs_ejemplo = img_ejemplo"
  "fs_log fs_ejemplo = []" "fs_count fs_ejemplo = 64" "sin_fallos fs_ejemplo" "coherente (fs_dev fs_ejemplo)" "length mapa_ejemplo = BLOCK_SIZE"
  by (simp_all add: fs_ejemplo_def fs_img_def fs_log_def fs_count_def sin_fallos_def coherente_def cache_new_def cache_with_capacity_def
      disp_nuevo_def mapa_ejemplo_def BLOCK_SIZE_def)

lemma mapa_ejemplo_bits: "b < 4 \<Longrightarrow> bit_en mapa_ejemplo b"
proof -
  assume "b < 4"
  moreover have "bit (15 :: nat) b \<longleftrightarrow> b < 4" using bit_mask_iff [of 4 b, where 'a = nat] by (simp add: mask_eq_exp_minus_1)
  ultimately show ?thesis by (simp add: bit_en_def mapa_ejemplo_def)
qed

lemma fs_ejemplo_montado: "recien_montado (\<lambda>_. 0) fs_ejemplo"
proof -
  have "img_ejemplo (n mod 2) = sb_block (\<lambda>_. 0) sb_ejemplo" for n by (simp add: img_ejemplo_def)
  then have "recupera (\<lambda>_. 0) fs_ejemplo img_ejemplo" by (simp add: recupera_def sb_parse_block Let_def)
  moreover have "limpio fs_ejemplo"
    by (simp add: limpio_def comprometido_def sb_ejemplo_def img_ejemplo_def mapa_ejemplo_bits) (simp add: BLOCK_SIZE_def)
  ultimately show ?thesis by (simp add: recien_montado_def)
qed

text \<open>C5 (safety): power can fail at any moment of any sequence of operations on files (creating, appending, truncating,
  removing, renaming, making directories, changing times) on a device that reports no errors, with any part of the writes since
  the last flush lost.  The file system then mounts, and what is mounted is a committed generation, every block of it with the contents it had: that of a state between two
  operations of the sequence, not older than the last operation that had returned, or the one
  that the interrupted operation was publishing.\<close>

theorem corte_de_luz:
  assumes "recien_montado crc s0" "historia crc s0 ss" "ejecuta crc q (last ss) = (r, s')"
    and "prefix l (fs_log s')" "tras_corte (fs_img s0) l m"
  shows "\<exists>j\<le>length ss. (\<forall>i<length ss. prefix (fs_log (ss ! i)) l \<longrightarrow> i \<le> j) \<and>
    (\<exists>f. mount crc (cache_new (disp_nuevo (fs_count ((ss @ [s']) ! j)) mx m)) = Inr f \<and>
      recien_montado crc f \<and> misma_generacion ((ss @ [s']) ! j) f)"
proof -
  note h = historia_salvada [OF assms(2,1)]
  have "salvada crc (ss @ [s']) l m"
    using salvada_paso [OF historia_no_vacia [OF assms(2)] _ assms(3) _ assms(4,5)] h by blast
  then obtain j where j: "j \<le> length ss" "limpio ((ss @ [s']) ! j)" "recupera crc ((ss @ [s']) ! j) m"
      "\<forall>i<Suc (length ss). prefix (fs_log ((ss @ [s']) ! i)) l \<longrightarrow> i \<le> j"
    by (auto simp: salvada_def less_Suc_eq_le)
  have "\<forall>i<length ss. prefix (fs_log (ss ! i)) l \<longrightarrow> i \<le> j"
  proof (intro allI impI)
    fix i assume "i < length ss" "prefix (fs_log (ss ! i)) l"
    then show "i \<le> j" using j(4) [rule_format, of i] by (simp add: nth_append)
  qed
  then show ?thesis using j(1) mount_recupera [OF j(2,3)] by blast
qed

theorem corte_de_luz_witness:
  "\<exists>f j. j \<le> 1 \<and> mount (\<lambda>_. 0) (cache_new (disp_nuevo (fs_count ([fs_ejemplo, snd (ejecuta (\<lambda>_. 0) (OMkdir 1 ''etc'' 7) fs_ejemplo)] ! j)) 8
      (fold evento_img (fs_log (snd (ejecuta (\<lambda>_. 0) (OMkdir 1 ''etc'' 7) fs_ejemplo))) img_ejemplo))) = Inr f \<and>
    misma_generacion ([fs_ejemplo, snd (ejecuta (\<lambda>_. 0) (OMkdir 1 ''etc'' 7) fs_ejemplo)] ! j) f"
proof -
  define rs where "rs = ejecuta (\<lambda>_. 0) (OMkdir 1 ''etc'' 7) fs_ejemplo"
  have e: "ejecuta (\<lambda>_. 0) (OMkdir 1 ''etc'' 7) (last [fs_ejemplo]) = (fst rs, snd rs)" by (simp add: rs_def)
  have t: "tras_corte (fs_img fs_ejemplo) (fs_log (snd rs)) (fold evento_img (fs_log (snd rs)) img_ejemplo)" using tras_corte_todo by simp
  show ?thesis using corte_de_luz [OF fs_ejemplo_montado historia.comienzo e _ t, of 8] unfolding rs_def by auto
qed

end
