(* ===== verification/Sosofs_Arbol.thy ===== *)
theory Sosofs_Arbol
  imports Sosofs_Corte "HOL-Library.Multiset"
begin

text \<open>
  The B+ tree of the file system refines a sorted list of items: what \<open>scan_range\<close> and \<open>find_first\<close> read, what
  \<open>tree_insert\<close> and \<open>tree_delete\<close> leave.  A tree with the numbers of its blocks (\<open>arbol\<close>) is related to the image of
  the device by \<open>rep\<close>; the operations are followed down the tree with the exact set of blocks that they
  free and take, which is why a node that is reused at once never hurts the rest.
\<close>

section \<open>Nodes as bytes\<close>

lemma length_key_bytes [simp]: "length (key_bytes k) = 24"
  by (simp add: key_bytes_def)

lemma of_nat_of_char_word: "of_nat (of_char (char_of (unat (w :: u8)) :: char)) = w"
proof -
  have "unat w mod 256 = unat w" using unsigned_less [of w, where 'a = nat] by simp
  then show ?thesis by simp
qed

lemma key_at_bytes:
  assumes "take 24 (drop off b) = key_bytes k"
  shows "key_at b off = k"
proof -
  have l: "off + 24 \<le> length b" using arg_cong [OF assms, of length] by simp
  have a: "take 8 (drop off b) = le_enc 8 (unat (k_inode k))"
    using arg_cong [OF assms, of "take 8"] by (simp add: key_bytes_def)
  have o: "take 8 (drop (off + 8) b) = le_enc 8 (unat (k_offset k))"
    using arg_cong [OF assms, of "\<lambda>x. take 8 (drop 8 x)"] by (simp add: key_bytes_def take_drop add.commute)
  have c: "b ! (off + 16) = char_of (unat (k_kind k))"
    using arg_cong [OF assms, of "\<lambda>x. x ! 16"] l by (simp add: key_bytes_def nth_append)
  show ?thesis using a o c of_nat_of_char_word by (simp add: key_at_def rd64_def le_dec_word)
qed

lemma trozo_concat:
  assumes "\<forall>x\<in>set xs. length x = k" "i < length xs"
  shows "take k (drop (i * k) (concat xs @ ys)) = xs ! i"
  using assms
proof (induction xs arbitrary: i)
  case (Cons x xs)
  then show ?case by (cases i) auto
qed simp

lemma length_concat_k: "\<forall>x\<in>set xs. length x = k \<Longrightarrow> length (concat xs) = length xs * k"
  by (induction xs) auto

text \<open>What a valid node has at most, in items of the right size.\<close>

fun nodo_valido :: "node_data \<Rightarrow> bool" where
  "nodo_valido (Leaf v) = (length v \<le> LEAF_CAP \<and> (\<forall>(k, p)\<in>set v. length p = ITEM_PAYLOAD))"
| "nodo_valido (Internal v) = (length v \<le> INT_CAP \<and> (\<forall>(k, c)\<in>set v. c < 2 ^ 64))"

definition nodo_nivel :: "nat \<Rightarrow> node_data \<Rightarrow> bool" where
  "nodo_nivel lvl nd = (case nd of Leaf _ \<Rightarrow> lvl = 0 | Internal _ \<Rightarrow> 0 < lvl \<and> lvl < 256)"

text \<open>The block \<open>b\<close> of an image holds the node \<open>nd\<close>, and reading it finds nothing wrong.\<close>

definition nodo_en :: "(bytes \<Rightarrow> u32) \<Rightarrow> (nat \<Rightarrow> bytes) \<Rightarrow> nat \<Rightarrow> nat \<Rightarrow> node_data \<Rightarrow> bool" where
  "nodo_en crc m b lvl nd = (crc (drop 4 (m b)) = nh_crc (m b) \<and> nh_expected (m b) = b \<and> nh_level (m b) = lvl \<and>
    (case nd of Leaf v \<Rightarrow> lvl = 0 \<and> nh_nkeys (m b) \<le> LEAF_CAP \<and> hoja_entradas (m b) = v
     | Internal v \<Rightarrow> 0 < lvl \<and> nh_nkeys (m b) \<le> INT_CAP \<and> interno_entradas (m b) = v))"

lemma nodo_en_cong: "m' b = m b \<Longrightarrow> nodo_en crc m' b lvl nd = nodo_en crc m b lvl nd"
  unfolding nodo_en_def by (simp only:)

lemma nodo_cuerpo_len:
  "nodo_valido nd \<Longrightarrow> length (nodo_cuerpo nd) = length (nodo_claves nd) * (case nd of Leaf _ \<Rightarrow> LEAF_ENTRY | Internal _ \<Rightarrow> INT_ENTRY)"
proof (cases nd)
  case (Leaf v)
  assume "nodo_valido nd"
  then show ?thesis using Leaf length_concat_k [of "map (\<lambda>(k, p). key_bytes k @ p) v" LEAF_ENTRY] by (force simp: fs_consts)
next
  case (Internal v)
  then show ?thesis using length_concat_k [of "map (\<lambda>(k, c). key_bytes k @ le_enc 8 c) v" INT_ENTRY] by (force simp: fs_consts)
qed

lemma nodo_cabe: "nodo_valido nd \<Longrightarrow> NODE_HEADER_SIZE + length (nodo_cuerpo nd) \<le> BLOCK_SIZE"
  using nodo_cuerpo_len [of nd] by (cases nd) (auto simp: fs_consts)

lemma nodo_bloque_cabecera:
  assumes "b < 2 ^ 64" "lvl < 256" "length (nodo_claves nd) < 2 ^ 16" and B_def: "B = nodo_bloque crc gen b lvl nd"
  shows "crc (drop 4 B) = nh_crc B" "nh_expected B = b" "nh_level B = lvl" "nh_nkeys B = length (nodo_claves nd)"
    "drop 32 B = nodo_cuerpo nd @ replicate (BLOCK_SIZE - NODE_HEADER_SIZE - length (nodo_cuerpo nd)) (CHR 0x00)"
proof -
  show "crc (drop 4 B) = nh_crc B" by (simp add: B_def nodo_bloque_def Let_def nh_crc_def rd32_def le_dec_word)
  have d: "drop 12 B = le_enc 8 b @ drop 16 (nodo_resto gen b lvl nd)"
    by (simp add: B_def nodo_bloque_def Let_def nodo_resto_def)
  then have "take 8 (drop 12 B) = le_enc 8 b" by simp
  then show "nh_expected B = b" using assms(1) by (simp add: nh_expected_def rd64_def le_dec_enc unsigned_of_nat take_bit_nat_eq_self)
  have "B ! 20 = char_of lvl" by (simp add: B_def nodo_bloque_def Let_def nodo_resto_def nth_append)
  then show "nh_level B = lvl" using assms(2) by (simp add: nh_level_def)
  have "take 2 (drop 22 B) = le_enc 2 (length (nodo_claves nd))"
    by (simp add: B_def nodo_bloque_def Let_def nodo_resto_def)
  then show "nh_nkeys B = length (nodo_claves nd)" using assms(3) by (simp add: nh_nkeys_def le_dec_enc)
  show "drop 32 B = nodo_cuerpo nd @ replicate (BLOCK_SIZE - NODE_HEADER_SIZE - length (nodo_cuerpo nd)) (CHR 0x00)"
    by (simp add: B_def nodo_bloque_def Let_def nodo_resto_def)
qed

lemma entrada_trozo:
  assumes "drop 32 B = concat xs @ ys" "\<forall>x\<in>set xs. length x = k" "i < length xs"
  shows "take k (drop (32 + i * k) B) = xs ! i"
  using trozo_concat [OF assms(2,3), of ys] assms(1) by (metis add.commute drop_drop)

theorem nodo_ida_y_vuelta:
  assumes "nodo_valido nd" "nodo_nivel lvl nd" "b < 2 ^ 64" "m b = nodo_bloque crc gen b lvl nd"
  shows "nodo_en crc m b lvl nd"
proof (cases nd)
  case (Leaf v)
  have cap: "length v \<le> 13" using assms(1) Leaf by (simp add: fs_consts)
  have lvl: "lvl < 256" using assms(2) Leaf by (simp add: nodo_nivel_def)
  define B where "B = nodo_bloque crc gen b lvl nd"
  have B: "crc (drop 4 B) = nh_crc B" "nh_expected B = b" "nh_level B = lvl" "nh_nkeys B = length v"
    "drop 32 B = concat (map (\<lambda>(k, p). key_bytes k @ p) v) @ replicate (BLOCK_SIZE - NODE_HEADER_SIZE - length (nodo_cuerpo nd)) (CHR 0x00)"
    using nodo_bloque_cabecera [OF assms(3) lvl _ B_def] Leaf cap by auto
  have e: "take 296 (drop (32 + i * 296) B) = key_bytes (fst (v ! i)) @ snd (v ! i)" if "i < length v" for i
    using entrada_trozo [OF B(5), of 296 i] that assms(1) Leaf by (auto simp: fs_consts split_beta)
  have "hoja_entradas B = v"
  proof (rule nth_equalityI)
    fix i assume "i < length (hoja_entradas B)"
    then have i: "i < length v" by (simp add: hoja_entradas_def B(4))
    have p: "length (snd (v ! i)) = 272" using assms(1) Leaf nth_mem [OF i] by (auto simp: fs_consts)
    have "take 24 (drop (32 + i * 296) B) = key_bytes (fst (v ! i))"
      using arg_cong [OF e [OF i], of "take 24"] by simp
    moreover have "take 272 (drop (32 + i * 296 + 24) B) = snd (v ! i)"
      using arg_cong [OF e [OF i], of "\<lambda>x. take 272 (drop 24 x)"] p by (simp add: take_drop add.commute add.left_commute)
    ultimately show "hoja_entradas B ! i = v ! i"
      using i key_at_bytes by (simp add: hoja_entradas_def B(4) Let_def fs_consts)
  qed (simp add: hoja_entradas_def B(4))
  then show ?thesis using assms B Leaf unfolding B_def [symmetric] by (auto simp: nodo_en_def nodo_nivel_def)
next
  case (Internal v)
  have cap: "length v \<le> 127" using assms(1) Internal by (simp add: fs_consts)
  have lvl: "lvl < 256" using assms(2) Internal by (simp add: nodo_nivel_def)
  define B where "B = nodo_bloque crc gen b lvl nd"
  have B: "crc (drop 4 B) = nh_crc B" "nh_expected B = b" "nh_level B = lvl" "nh_nkeys B = length v"
    "drop 32 B = concat (map (\<lambda>(k, c). key_bytes k @ le_enc 8 c) v) @ replicate (BLOCK_SIZE - NODE_HEADER_SIZE - length (nodo_cuerpo nd)) (CHR 0x00)"
    using nodo_bloque_cabecera [OF assms(3) lvl _ B_def] Internal cap by auto
  have e: "take 32 (drop (32 + i * 32) B) = key_bytes (fst (v ! i)) @ le_enc 8 (snd (v ! i))" if "i < length v" for i
    using entrada_trozo [OF B(5), of 32 i] that by (auto simp: split_beta)
  have "interno_entradas B = v"
  proof (rule nth_equalityI)
    fix i assume "i < length (interno_entradas B)"
    then have i: "i < length v" by (simp add: interno_entradas_def B(4))
    have c: "snd (v ! i) < 2 ^ 64" using assms(1) Internal nth_mem [OF i] by auto
    have "take 24 (drop (32 + i * 32) B) = key_bytes (fst (v ! i))"
      using arg_cong [OF e [OF i], of "take 24"] by simp
    moreover have "take 8 (drop (32 + i * 32 + 24) B) = le_enc 8 (snd (v ! i))"
      using arg_cong [OF e [OF i], of "\<lambda>x. take 8 (drop 24 x)"] by (simp add: take_drop add.commute add.left_commute)
    ultimately show "interno_entradas B ! i = v ! i"
      using i key_at_bytes c
      by (simp add: interno_entradas_def B(4) Let_def fs_consts rd64_def le_dec_enc unsigned_of_nat take_bit_nat_eq_self prod_eq_iff)
  qed (simp add: interno_entradas_def B(4))
  then show ?thesis using assms B Internal cap unfolding B_def [symmetric] by (auto simp: nodo_en_def nodo_nivel_def fs_consts)
qed

section \<open>Trees\<close>

datatype arbol = Hoja nat "(key \<times> bytes) list" | Nodo nat "arbol list"

primrec a_bloque :: "arbol \<Rightarrow> nat" where
  "a_bloque (Hoja b v) = b"
| "a_bloque (Nodo b ts) = b"

fun a_items :: "arbol \<Rightarrow> (key \<times> bytes) list" where
  "a_items (Hoja b v) = v"
| "a_items (Nodo b ts) = concat (map a_items ts)"

fun a_bloques :: "arbol \<Rightarrow> nat list" where
  "a_bloques (Hoja b v) = [b]"
| "a_bloques (Nodo b ts) = b # concat (map a_bloques ts)"

definition a_min :: "arbol \<Rightarrow> key" where
  "a_min t = (case a_items t of [] \<Rightarrow> KEY_MIN | e # _ \<Rightarrow> fst e)"

abbreviation a_entradas :: "arbol list \<Rightarrow> (key \<times> nat) list" where
  "a_entradas ts \<equiv> map (\<lambda>t. (a_min t, a_bloque t)) ts"

text \<open>\<open>rep\<close>: the nodes of the tree are in their blocks; \<open>a_ok\<close>: its shape.\<close>

fun rep :: "(bytes \<Rightarrow> u32) \<Rightarrow> (nat \<Rightarrow> bytes) \<Rightarrow> nat \<Rightarrow> arbol \<Rightarrow> bool" where
  "rep crc m lvl (Hoja b v) = (lvl = 0 \<and> nodo_en crc m b 0 (Leaf v))"
| "rep crc m 0 (Nodo b ts) = False"
| "rep crc m (Suc n) (Nodo b ts) = (nodo_en crc m b (Suc n) (Internal (a_entradas ts)) \<and> (\<forall>t\<in>set ts. rep crc m n t))"

fun a_ok :: "nat \<Rightarrow> arbol \<Rightarrow> bool" where
  "a_ok lvl (Hoja b v) = (lvl = 0 \<and> length v \<le> LEAF_CAP \<and> (\<forall>(k, p)\<in>set v. length p = ITEM_PAYLOAD))"
| "a_ok 0 (Nodo b ts) = False"
| "a_ok (Suc n) (Nodo b ts) = (ts \<noteq> [] \<and> length ts \<le> INT_CAP \<and> (\<forall>t\<in>set ts. a_ok n t \<and> a_items t \<noteq> []))"

definition claves_orden :: "(key \<times> 'a) list \<Rightarrow> bool" where
  "claves_orden v = sorted_wrt (<) (map fst v)"

lemma claves_orden_append [simp]:
  "claves_orden (xs @ ys) \<longleftrightarrow> claves_orden xs \<and> claves_orden ys \<and> (\<forall>x\<in>set xs. \<forall>y\<in>set ys. fst x < fst y)"
  by (auto simp: claves_orden_def sorted_wrt_append)

lemma claves_orden_simps [simp]: "claves_orden []" "claves_orden (x # xs) \<longleftrightarrow> (\<forall>y\<in>set xs. fst x < fst y) \<and> claves_orden xs"
  by (simp_all add: claves_orden_def)

lemma a_min_le: "claves_orden (a_items t) \<Longrightarrow> e \<in> set (a_items t) \<Longrightarrow> a_min t \<le> fst e"
  by (cases "a_items t") (auto simp: a_min_def order_less_imp_le)

lemma a_min_in: "a_items t \<noteq> [] \<Longrightarrow> \<exists>e\<in>set (a_items t). fst e = a_min t"
  by (cases "a_items t") (auto simp: a_min_def)

lemma rep_cong: "rep crc m lvl t \<Longrightarrow> (\<And>b. b \<in> set (a_bloques t) \<Longrightarrow> m' b = m b) \<Longrightarrow> rep crc m' lvl t"
proof (induction crc m lvl t rule: rep.induct)
  case (1 crc m lvl b v)
  then show ?case by (simp add: nodo_en_def)
next
  case (3 crc m n b ts)
  have "nodo_en crc m' b (Suc n) (Internal (a_entradas ts))" using 3(2) 3(3) [of b] by (simp add: nodo_en_def)
  moreover have "rep crc m' n t" if "t \<in> set ts" for t
    using 3(1) [OF that] 3(2,3) that by (auto simp: image_iff)
  ultimately show ?case by simp
qed simp

section \<open>Reading\<close>

text \<open>A state inside a transaction on a device that does not fail.\<close>

definition listo :: "sosofs \<Rightarrow> bool" where
  "listo s = (coherente (fs_dev s) \<and> sin_fallos s \<and> unat (sb_block_count (fs_sb s)) \<le> fs_count s \<and>
    unat (sb_block_count (fs_sb s)) \<le> 8 * length (fs_bitmap s) \<and> length (fs_bitmap s) = length (fs_frozen s) \<and> sb_generation (fs_sb s) \<noteq> - 1)"

lemma listo_marco: "marco s s' \<Longrightarrow> listo s \<Longrightarrow> listo s'"
  using marco_campos [of s s'] by (auto simp: listo_def dest: marcoD)

lemma lee_img: "lee s s' \<Longrightarrow> fs_img s' = fs_img s" "lee s s' \<Longrightarrow> fs_count s' = fs_count s" "lee s s' \<Longrightarrow> listo s \<Longrightarrow> listo s'"
  using listo_marco [OF lee_marco] by (auto simp: lee_def mismo_disp_def fs_img_def fs_count_def)

lemma read_node_ok:
  assumes "listo s" "nodo_en crc (fs_img s) b lvl nd" "b < fs_count s"
  shows "\<exists>s'. read_node crc b s = (Inr (fs_img s b), s') \<and> lee s s'"
proof -
  obtain r d where r: "read_block b (fs_dev s) = (r, d)" by fastforce
  have "r = Inr (fs_img s b)"
    using read_block_keeps(4) [OF r] assms by (auto simp: listo_def sin_fallos_def fs_count_def fs_img_def)
  then have "fst (read_node crc b s) = Inr (fs_img s b)"
    using r assms(2) by (auto simp: read_node_def Let_def nodo_en_def)
  then show ?thesis using lee_read_node [of s crc b] by (metis prod.collapse)
qed

lemma parse_node_ok:
  assumes "listo s" "nodo_en crc (fs_img s) b lvl nd" "b < fs_count s"
  shows "\<exists>s'. parse_node crc b s = (Inr nd, s') \<and> lee s s'" "\<exists>s'. node_level crc b s = (Inr lvl, s') \<and> lee s s'"
proof -
  obtain s' where r: "read_node crc b s = (Inr (fs_img s b), s')" "lee s s'" using read_node_ok [OF assms] by blast
  show "\<exists>s'. parse_node crc b s = (Inr nd, s') \<and> lee s s'"
    using r assms(2) by (cases nd) (auto simp: parse_node_def nodo_en_def ret_def)
  show "\<exists>s'. node_level crc b s = (Inr lvl, s') \<and> lee s s'"
    using r assms(2) by (auto simp: node_level_def nodo_en_def ret_def)
qed

abbreviation rango_items :: "key \<Rightarrow> key \<Rightarrow> (key \<times> bytes) list \<Rightarrow> (key \<times> bytes) list" where
  "rango_items mn mx v \<equiv> filter (\<lambda>(k, _). en_rango mn mx k) v"

text \<open>A child that \<open>cubre\<close> rules out has nothing in the range.\<close>

lemma no_cubre:
  assumes "claves_orden (a_items t @ concat (map a_items ts))" "\<forall>t\<in>set ts. a_items t \<noteq> []" "\<not> cubre mn mx (a_min t) (a_entradas ts)"
    and "e \<in> set (a_items t)"
  shows "\<not> en_rango mn mx (fst e)"
proof (cases "a_min t \<le> mx")
  case False
  then show ?thesis using a_min_le [OF _ assms(4)] assms(1) by (auto simp: en_rango_def)
next
  case True
  then obtain t' ts' where ts: "ts = t' # ts'" "a_min t' \<le> mn" using assms(3) by (cases ts) (auto simp: cubre_def)
  obtain e' where "e' \<in> set (a_items t')" "fst e' = a_min t'" using a_min_in [of t'] assms(2) ts(1) by auto
  moreover have "\<forall>x\<in>set (a_items t). \<forall>y\<in>set (a_items t'). fst x < fst y" using assms(1) ts(1) by simp
  ultimately have "fst e < a_min t'" using assms(4) by metis
  then show ?thesis using ts(2) by (auto simp: en_rango_def)
qed

lemma entradas_forma:
  assumes "nodo_en crc m b lvl (Internal v)"
  shows "0 < nh_level (m b)" "\<not> INT_CAP < nh_nkeys (m b)" "interno_entradas (m b) = v"
  using assms by (auto simp: nodo_en_def)

lemma hoja_forma:
  assumes "nodo_en crc m b lvl (Leaf v)"
  shows "nh_level (m b) = 0" "\<not> LEAF_CAP < nh_nkeys (m b)" "hoja_entradas (m b) = v"
  using assms by (auto simp: nodo_en_def)

lemma scan_ok:
  assumes "listo s" "rep crc (fs_img s) n t" "a_ok n t" "claves_orden (a_items t)" "\<forall>b\<in>set (a_bloques t). b < fs_count s" "n < fuel"
  shows "\<exists>s'. scan_node crc fuel (a_bloque t) mn mx s = (Inr (rango_items mn mx (a_items t)), s') \<and> lee s s'"
  using assms
proof (induction n arbitrary: t s fuel)
  case 0
  then obtain b v f where t: "t = Hoja b v" "fuel = Suc f" by (cases t; cases fuel) auto
  then have n: "nodo_en crc (fs_img s) b 0 (Leaf v)" using 0 by simp
  obtain s' where r: "read_node crc b s = (Inr (fs_img s b), s')" "lee s s'" using read_node_ok [OF 0(1) n] 0(5) t by auto
  show ?case using r t hoja_forma [OF n] by simp
next
  case (Suc n)
  then obtain b ts f where t: "t = Nodo b ts" "fuel = Suc f" by (cases t; cases fuel) auto
  then have n: "nodo_en crc (fs_img s) b (Suc n) (Internal (a_entradas ts))" using Suc by simp
  obtain s1 where r: "read_node crc b s = (Inr (fs_img s b), s1)" "lee s s1" using read_node_ok [OF Suc(2) n] Suc(6) t by auto
  have hijos: "\<exists>s2. scan_hijos crc f (a_entradas us) mn mx s1 = (Inr (rango_items mn mx (concat (map a_items us))), s2) \<and> lee s s2"
    if "\<forall>u\<in>set us. u \<in> set ts" "claves_orden (concat (map a_items us))" "lee s s1" for us s1
    using that
  proof (induction us arbitrary: s1)
    case (Cons u us)
    have tail: "\<exists>s2. scan_hijos crc f (a_entradas us) mn mx s3 = (Inr (rango_items mn mx (concat (map a_items us))), s2) \<and> lee s s2"
      if "lee s s3" for s3 using Cons.IH [OF _ _ that] Cons.prems by auto
    have u: "u \<in> set ts" "a_ok n u" "rep crc (fs_img s) n u" "claves_orden (a_items u)" "\<forall>b\<in>set (a_bloques u). b < fs_count s"
      using Cons.prems Suc.prems t by auto
    have ne: "\<forall>t\<in>set us. a_items t \<noteq> []" using Cons.prems Suc.prems t by auto
    show ?case
    proof (cases "cubre mn mx (a_min u) (a_entradas us)")
      case True
      have "\<exists>s2. scan_node crc f (a_bloque u) mn mx s1 = (Inr (rango_items mn mx (a_items u)), s2) \<and> lee s1 s2"
        by (rule Suc.IH) (use u lee_img [OF Cons.prems(3)] Suc.prems t in auto)
      then obtain s2 where s2: "scan_node crc f (a_bloque u) mn mx s1 = (Inr (rango_items mn mx (a_items u)), s2)" "lee s1 s2" by blast
      obtain s3 where s3: "scan_hijos crc f (a_entradas us) mn mx s2 = (Inr (rango_items mn mx (concat (map a_items us))), s3)" "lee s s3"
        using tail [OF lee_trans [OF Cons.prems(3) s2(2)]] by blast
      show ?thesis using True s2 s3 by simp
    next
      case False
      have "rango_items mn mx (a_items u) = []"
        using no_cubre [OF _ ne False] Cons.prems(2) by (fastforce simp: filter_empty_conv)
      then show ?thesis using False tail [OF Cons.prems(3)] by simp
    qed
  qed simp
  obtain s2 where "scan_hijos crc f (a_entradas ts) mn mx s1 = (Inr (rango_items mn mx (concat (map a_items ts))), s2)" "lee s s2"
    using hijos [OF _ _ r(2), of ts] Suc.prems t by auto
  then show ?case using r t entradas_forma [OF n] by simp
qed

lemma find_append: "List.find P (xs @ ys) = (case List.find P xs of Some x \<Rightarrow> Some x | None \<Rightarrow> List.find P ys)"
  by (induction xs) auto

lemma find_ok:
  assumes "listo s" "rep crc (fs_img s) n t" "a_ok n t" "claves_orden (a_items t)" "\<forall>b\<in>set (a_bloques t). b < fs_count s" "n < fuel"
  shows "\<exists>s'. find_node crc fuel (a_bloque t) mn mx pr s = (Inr (List.find (\<lambda>(k, p). en_rango mn mx k \<and> pr p) (a_items t)), s') \<and> lee s s'"
  using assms
proof (induction n arbitrary: t s fuel)
  case 0
  then obtain b v f where t: "t = Hoja b v" "fuel = Suc f" by (cases t; cases fuel) auto
  then have n: "nodo_en crc (fs_img s) b 0 (Leaf v)" using 0 by simp
  obtain s' where r: "read_node crc b s = (Inr (fs_img s b), s')" "lee s s'" using read_node_ok [OF 0(1) n] 0(5) t by auto
  show ?case using r t hoja_forma [OF n] by simp
next
  case (Suc n)
  let ?P = "\<lambda>(k, p). en_rango mn mx k \<and> pr p"
  obtain b ts f where t: "t = Nodo b ts" "fuel = Suc f" using Suc.prems by (cases t; cases fuel) auto
  then have n: "nodo_en crc (fs_img s) b (Suc n) (Internal (a_entradas ts))" using Suc by simp
  obtain s1 where r: "read_node crc b s = (Inr (fs_img s b), s1)" "lee s s1" using read_node_ok [OF Suc(2) n] Suc(6) t by auto
  have hijos: "\<exists>s2. find_hijos crc f (a_entradas us) mn mx pr s1 = (Inr (List.find ?P (concat (map a_items us))), s2) \<and> lee s s2"
    if "\<forall>u\<in>set us. u \<in> set ts" "claves_orden (concat (map a_items us))" "lee s s1" for us s1
    using that
  proof (induction us arbitrary: s1)
    case (Cons u us)
    have tail: "\<exists>s2. find_hijos crc f (a_entradas us) mn mx pr s3 = (Inr (List.find ?P (concat (map a_items us))), s2) \<and> lee s s2"
      if "lee s s3" for s3 using Cons.IH [OF _ _ that] Cons.prems by auto
    have u: "u \<in> set ts" "a_ok n u" "rep crc (fs_img s) n u" "claves_orden (a_items u)" "\<forall>b\<in>set (a_bloques u). b < fs_count s"
      using Cons.prems Suc.prems t by auto
    have ne: "\<forall>t\<in>set us. a_items t \<noteq> []" using Cons.prems Suc.prems t by auto
    show ?case
    proof (cases "cubre mn mx (a_min u) (a_entradas us)")
      case True
      have "\<exists>s2. find_node crc f (a_bloque u) mn mx pr s1 = (Inr (List.find ?P (a_items u)), s2) \<and> lee s1 s2"
        by (rule Suc.IH) (use u lee_img [OF Cons.prems(3)] Suc.prems t in auto)
      then obtain s2 where s2: "find_node crc f (a_bloque u) mn mx pr s1 = (Inr (List.find ?P (a_items u)), s2)" "lee s1 s2" by blast
      note l = lee_trans [OF Cons.prems(3) s2(2)]
      show ?thesis using True s2 l tail [OF l] by (cases "List.find ?P (a_items u)") (auto simp: find_append)
    next
      case False
      have "List.find ?P (a_items u) = None"
        using no_cubre [OF _ ne False] Cons.prems(2) by (fastforce simp: find_None_iff)
      then show ?thesis using False tail [OF Cons.prems(3)] by (simp add: find_append)
    qed
  qed simp
  obtain s2 where "find_hijos crc f (a_entradas ts) mn mx pr s1 = (Inr (List.find ?P (concat (map a_items ts))), s2)" "lee s s2"
    using hijos [OF _ _ r(2), of ts] Suc.prems t by auto
  then show ?case using r t entradas_forma [OF n] by simp
qed

section \<open>Allocation and writing\<close>

lemma ocupado_sin_panico:
  "\<forall>i\<in>set is. (b + i) div 8 < length bm \<and> (b + i) div 8 < length fz \<Longrightarrow> ocupado_en bm fz b is \<noteq> Inl e"
  by (induction bm fz b "is" rule: ocupado_en.induct) auto

lemma busca_sin_panico:
  "tot \<le> 8 * length bm \<Longrightarrow> tot \<le> 8 * length fz \<Longrightarrow> busca_hueco bm fz n tot b \<noteq> Inl e"
proof (induction bm fz n tot b rule: busca_hueco.induct)
  case (1 bm fz n tot b)
  show ?case
  proof (cases "b + n \<le> tot")
    case True
    have "\<forall>i\<in>set [0..<n]. (b + i) div 8 < length bm \<and> (b + i) div 8 < length fz" using True 1(2,3) by auto
    note o = ocupado_sin_panico [OF this]
    show ?thesis using 1(1) [OF True] 1(2,3) o True
      by (subst busca_hueco.simps) (auto split: sum.splits option.splits)
  qed (simp add: busca_hueco.simps)
qed

lemma alloc_run_listo: "listo s \<Longrightarrow> alloc_run n s = (Inl e, s') \<Longrightarrow> e = NoSpace"
  using busca_sin_panico [of "unat (sb_block_count (fs_sb s))" "fs_bitmap s" "fs_frozen s" n]
  by (auto simp: alloc_run_def Let_def listo_def split: sum.splits option.splits)

text \<open>\<open>cambia s L T s'\<close>: from \<open>s\<close> to \<open>s'\<close> the blocks of \<open>L\<close> have been freed and those of \<open>T\<close> taken, in the generation under
  construction, and no block in use outside \<open>L\<close> has changed.\<close>

definition cambia :: "sosofs \<Rightarrow> nat set \<Rightarrow> nat set \<Rightarrow> sosofs \<Rightarrow> bool" where
  "cambia s L T s' = (marco s s' \<and> fs_root s' = fs_root s \<and> fs_next s' = fs_next s \<and>
    (\<forall>c. bit_en (fs_bitmap s') c \<longleftrightarrow> c \<in> T \<or> bit_en (fs_bitmap s) c \<and> c \<notin> L) \<and>
    (\<forall>c. bit_en (fs_bitmap s) c \<longrightarrow> c \<notin> L \<longrightarrow> fs_img s' c = fs_img s c) \<and>
    (\<forall>c\<in>T. 2 \<le> c \<and> c < unat (sb_block_count (fs_sb s)) \<and> (bit_en (fs_bitmap s) c \<longrightarrow> c \<in> L)))"

lemma cambia_trans:
  assumes "cambia s L1 T1 s1" "cambia s1 L2 T2 s2" "L2 \<inter> T1 = {}"
  shows "cambia s (L1 \<union> L2) (T1 \<union> T2) s2" "T1 \<inter> T2 = {}" "\<And>c. c \<in> T1 \<Longrightarrow> fs_img s2 c = fs_img s1 c"
proof -
  have m: "marco s s2" using seg.R_trans assms by (auto simp: cambia_def)
  have sb: "fs_sb s1 = fs_sb s" using marcoD assms(1) by (auto simp: cambia_def)
  show "T1 \<inter> T2 = {}" using assms by (auto simp: cambia_def)
  show "\<And>c. c \<in> T1 \<Longrightarrow> fs_img s2 c = fs_img s1 c" using assms by (auto simp: cambia_def)
  show "cambia s (L1 \<union> L2) (T1 \<union> T2) s2" using assms m sb unfolding cambia_def by (auto; metis)
qed

lemma cambia_lee: "lee s s' \<Longrightarrow> cambia s {} {} s'"
  using lee_marco [of s s'] lee_img(1) [of s s'] by (simp add: cambia_def) (simp add: lee_def)

lemma cambia_listo: "cambia s L T s' \<Longrightarrow> listo s \<Longrightarrow> listo s'"
  using listo_marco by (auto simp: cambia_def)

lemma cambia_sb: "cambia s L T s' \<Longrightarrow> fs_sb s' = fs_sb s"
  by (auto simp: cambia_def dest: marcoD)

lemma free_block_ok:
  assumes "listo s" "b < unat (sb_block_count (fs_sb s))"
  shows "\<exists>s'. free_block b s = (Inr (), s') \<and> cambia s {b} {} s'"
proof -
  have l: "b div 8 < length (fs_bitmap s)" using assms by (auto simp: listo_def)
  define s' where "s' = s\<lparr>fs_bitmap := pon_bit False b (fs_bitmap s), fs_dirty := True\<rparr>"
  have "marco s s'" by (rule marco_memoria) (simp_all add: s'_def)
  then have "cambia s {b} {} s'" using bit_pon_bit [OF l, of False] by (auto simp: cambia_def s'_def fs_img_def)
  then show ?thesis using l by (auto simp: free_block_def s'_def)
qed

lemma write_node_ok:
  assumes "listo s" "nodo_valido nd" "nodo_nivel lvl nd" "write_node crc lvl nd s = (r, s')"
  shows "r = Inl NoSpace \<or> (\<exists>b. r = Inr (b, clave_min nd) \<and> nodo_en crc (fs_img s') b lvl nd \<and> cambia s {} {b} s')"
proof -
  obtain r1 s1 where a: "alloc_run 1 s = (r1, s1)" by fastforce
  show ?thesis
  proof (cases r1)
    case (Inl e)
    then show ?thesis using a alloc_run_listo [OF assms(1)] assms(4) by (auto simp: write_node_def)
  next
    case (Inr b)
    note k = alloc_run_ok [OF a [unfolded Inr]]
    have m1: "marco s s1" using cumpleD [OF segura_alloc_run a] .
    have l1: "listo s1" using listo_marco [OF m1 assms(1)] .
    have b: "2 \<le> b" "b < unat (sb_block_count (fs_sb s))" "\<not> bit_en (fs_bitmap s) b" "b div 8 < length (fs_bitmap s)"
      using k(2,3) by (auto simp: libres_def)
    have bits: "bit_en (fs_bitmap s1) c \<longleftrightarrow> c = b \<or> bit_en (fs_bitmap s) c" for c
      using k(1) marca_tramo_bits(2) [of 1 b s c] b(4) by auto
    have fc: "b < fs_count s1" using b(2) l1 marcoD [OF m1] by (auto simp: listo_def)
    define buf where "buf = nodo_bloque crc (sb_generation (fs_sb s1) + 1) b lvl nd"
    obtain s2 where w: "con_dev (write_block b buf) s1 = (Inr (), s2)"
      using con_write_sin_fallos [OF _ fc, of buf] l1 by (auto simp: listo_def)
    have rs: "r = Inr (b, clave_min nd)" "s' = s2"
      using assms(4) a Inr w l1 nodo_cabe [OF assms(2)] by (auto simp: write_node_def buf_def ret_def listo_def)
    note wk = con_write_ok [OF w]
    have "bloque_libre s1 b" using libres_bloque [OF k(2), of 0] bloque_libre_marco [OF m1] by simp
    then have m2: "marco s s2" using marco_write [of s1 b buf] w seg.R_trans [OF m1] by simp
    have b64: "b < 2 ^ 64" using b(2) unsigned_less [of "sb_block_count (fs_sb s)", where 'a = nat] by simp
    have img: "fs_img s2 = (fs_img s)(b := buf)" using wk(4) k(1) by (simp add: fs_img_def)
    have "nodo_en crc (fs_img s2) b lvl nd"
      by (rule nodo_ida_y_vuelta [OF assms(2,3) b64]) (simp add: img buf_def)
    moreover have "cambia s {} {b} s2"
      using m2 wk(1,2,3) k(1) b bits by (auto simp: cambia_def img)
    ultimately show ?thesis using rs by auto
  qed
qed

text \<open>The one or two nodes that \<open>write_split\<close> writes.\<close>

definition partes :: "bool \<Rightarrow> node_data \<Rightarrow> node_data list" where
  "partes ov nd = (if ov then [fst (parte_nodo nd), snd (parte_nodo nd)] else [nd])"

definition cow_entradas :: "cow \<Rightarrow> (key \<times> nat) list" where
  "cow_entradas c = (cow_min c, cow_block c) # (case cow_split c of None \<Rightarrow> [] | Some x \<Rightarrow> [x])"

lemma write_split_ok:
  assumes "listo s" "\<forall>x\<in>set (partes ov nd). nodo_valido x \<and> nodo_nivel lvl x" "write_split crc lvl ov nd s = (r, s')"
  shows "r = Inl NoSpace \<or> (\<exists>c bs. r = Inr c \<and> length bs = length (partes ov nd) \<and> distinct bs \<and> cambia s {} (set bs) s' \<and>
    (\<forall>i<length bs. nodo_en crc (fs_img s') (bs ! i) lvl (partes ov nd ! i)) \<and> cow_entradas c = zip (map clave_min (partes ov nd)) bs)"
proof (cases ov)
  case False
  obtain r1 s1 where w: "write_node crc lvl nd s = (r1, s1)" by fastforce
  have v: "nodo_valido nd" "nodo_nivel lvl nd" using assms(2) False by (auto simp: partes_def)
  from write_node_ok [OF assms(1) v w] show ?thesis
  proof
    assume "r1 = Inl NoSpace"
    then show ?thesis using assms(3) w False by (simp add: write_split_def)
  next
    assume "\<exists>b. r1 = Inr (b, clave_min nd) \<and> nodo_en crc (fs_img s1) b lvl nd \<and> cambia s {} {b} s1"
    then obtain b where b: "r1 = Inr (b, clave_min nd)" "nodo_en crc (fs_img s1) b lvl nd" "cambia s {} {b} s1" by blast
    then have "r = Inr \<lparr>cow_block = b, cow_min = clave_min nd, cow_split = None\<rparr>" "s' = s1"
      using assms(3) w False by (auto simp: write_split_def ret_def)
    then show ?thesis using b False by (intro disjI2 exI [of _ _] exI [of _ "[b]"]) (auto simp: partes_def cow_entradas_def)
  qed
next
  case True
  define izq der where "izq = fst (parte_nodo nd)" and "der = snd (parte_nodo nd)"
  have pn: "parte_nodo nd = (izq, der)" by (simp add: izq_def der_def)
  have v: "nodo_valido izq" "nodo_nivel lvl izq" "nodo_valido der" "nodo_nivel lvl der"
    using assms(2) True pn by (auto simp: partes_def)
  obtain r1 s1 where w1: "write_node crc lvl izq s = (r1, s1)" by fastforce
  from write_node_ok [OF assms(1) v(1,2) w1] show ?thesis
  proof
    assume "r1 = Inl NoSpace"
    then show ?thesis using assms(3) w1 True pn by (simp add: write_split_def)
  next
    assume "\<exists>b. r1 = Inr (b, clave_min izq) \<and> nodo_en crc (fs_img s1) b lvl izq \<and> cambia s {} {b} s1"
    then obtain b where b: "r1 = Inr (b, clave_min izq)" "nodo_en crc (fs_img s1) b lvl izq" "cambia s {} {b} s1" by blast
    obtain r2 s2 where w2: "write_node crc lvl der s1 = (r2, s2)" by fastforce
    from write_node_ok [OF cambia_listo [OF b(3) assms(1)] v(3,4) w2] show ?thesis
    proof
      assume "r2 = Inl NoSpace"
      then show ?thesis using assms(3) w1 w2 b(1) True pn by (simp add: write_split_def)
    next
      assume "\<exists>b. r2 = Inr (b, clave_min der) \<and> nodo_en crc (fs_img s2) b lvl der \<and> cambia s1 {} {b} s2"
      then obtain b' where b': "r2 = Inr (b', clave_min der)" "nodo_en crc (fs_img s2) b' lvl der" "cambia s1 {} {b'} s2" by blast
      note t = cambia_trans [OF b(3) b'(3)]
      have n: "nodo_en crc (fs_img s2) b lvl izq" using b(2) nodo_en_cong [of "fs_img s2" b "fs_img s1"] t(3) by simp
      have "r = Inr \<lparr>cow_block = b, cow_min = clave_min izq, cow_split = Some (clave_min der, b')\<rparr>" "s' = s2"
        using assms(3) w1 w2 b b' True pn by (auto simp: write_split_def ret_def)
      then show ?thesis using n b b' t True pn
        by (intro disjI2, intro exI [of _ "\<lparr>cow_block = b, cow_min = clave_min izq, cow_split = Some (clave_min der, b')\<rparr>"] exI [of _ "[b, b']"])
           (auto simp: partes_def cow_entradas_def less_Suc_eq nth_Cons' insert_commute)
    qed
  qed
qed

section \<open>Insertion\<close>

text \<open>What insertion and deletion do to the sorted list of items.\<close>

definition upsert :: "key \<Rightarrow> bytes \<Rightarrow> (key \<times> bytes) list \<Rightarrow> (key \<times> bytes) list" where
  "upsert k p v = filter (\<lambda>e. fst e < k) v @ (k, p) # filter (\<lambda>e. k < fst e) v"

definition borra :: "key \<Rightarrow> (key \<times> bytes) list \<Rightarrow> (key \<times> bytes) list" where
  "borra k v = filter (\<lambda>e. fst e \<noteq> k) v"

lemma claves_orden_upsert: "claves_orden v \<Longrightarrow> claves_orden (upsert k p v)"
  by (auto simp: upsert_def claves_orden_def sorted_wrt_filter sorted_wrt_map sorted_wrt_append intro: order_less_trans)

lemma claves_orden_borra: "claves_orden v \<Longrightarrow> claves_orden (borra k v)"
  by (simp add: borra_def claves_orden_def sorted_wrt_filter sorted_wrt_map)

lemma upsert_append:
  assumes "\<forall>e\<in>set xs. fst e < k" "\<forall>e\<in>set zs. k < fst e"
  shows "upsert k p (xs @ ys @ zs) = xs @ upsert k p ys @ zs"
proof -
  have "filter (\<lambda>e. fst e < k) xs = xs" "filter (\<lambda>e. k < fst e) xs = []" "filter (\<lambda>e. k < fst e) zs = zs" "filter (\<lambda>e. fst e < k) zs = []"
    using assms by (auto simp: filter_id_conv filter_empty_conv order_less_asym')
  then show ?thesis by (simp add: upsert_def)
qed

lemma borra_append:
  assumes "\<forall>e\<in>set xs. fst e < k" "\<forall>e\<in>set zs. k < fst e"
  shows "borra k (xs @ ys @ zs) = xs @ borra k ys @ zs"
proof -
  have "filter (\<lambda>e. fst e \<noteq> k) xs = xs" "filter (\<lambda>e. fst e \<noteq> k) zs = zs" using assms by (auto simp: filter_id_conv)
  then show ?thesis by (simp add: borra_def)
qed

text \<open>The binary search splits a sorted list at the key.\<close>

lemma bin_search_orden:
  assumes "sorted_wrt (<) ks"
  shows "bin_search ks k = Inr i \<Longrightarrow> i < length ks \<and> ks ! i = k"
    and "bin_search ks k = Inl i \<Longrightarrow> i \<le> length ks \<and> k \<notin> set ks"
    and "bin_search ks k \<in> {Inl i, Inr i} \<Longrightarrow> (\<forall>j<i. ks ! j < k) \<and> (\<forall>j<length ks. i < j \<longrightarrow> k < ks ! j) \<and> (i < length ks \<longrightarrow> k \<le> ks ! i)"
proof -
  have o: "j < j' \<Longrightarrow> j' < length ks \<Longrightarrow> ks ! j < ks ! j'" for j j' using assms by (simp add: sorted_wrt_iff_nth_less)
  show A: "i < length ks \<and> ks ! i = k" if "bin_search ks k = Inr i"
    using that posicion_Some by (fastforce simp: bin_search_def split: option.splits if_splits)
  show "i \<le> length ks \<and> k \<notin> set ks" if "bin_search ks k = Inl i"
  proof (cases "posicion (\<lambda>x. k \<le> x) ks")
    case None
    then have "i = length ks" using that by (simp add: bin_search_def)
    then show ?thesis using None by (auto simp: posicion_None)
  next
    case (Some j)
    note p = posicion_Some [OF Some]
    have i: "i = j" "ks ! j \<noteq> k" using that Some by (auto simp: bin_search_def split: if_splits)
    have "ks ! l \<noteq> k" if "l < length ks" for l
      using that p i o [of j l] by (cases "l < j"; cases "l = j") (auto simp: not_le)
    then show ?thesis using i p by (auto simp: in_set_conv_nth)
  qed
  show "(\<forall>j<i. ks ! j < k) \<and> (\<forall>j<length ks. i < j \<longrightarrow> k < ks ! j) \<and> (i < length ks \<longrightarrow> k \<le> ks ! i)" if b: "bin_search ks k \<in> {Inl i, Inr i}"
  proof (cases "posicion (\<lambda>x. k \<le> x) ks")
    case None
    then have "i = length ks" using b by (auto simp: bin_search_def)
    then show ?thesis using None by (auto simp: posicion_None not_le)
  next
    case (Some j)
    note p = posicion_Some [OF Some]
    have "i = j" using b Some by (auto simp: bin_search_def split: if_splits)
    then show ?thesis using p o by (auto simp: not_le order_le_less_trans)
  qed
qed

lemma hoja_upsert_ok:
  assumes "claves_orden v"
  shows "hoja_upsert v k p = upsert k p v"
proof -
  have o: "sorted_wrt (<) (map fst v)" using assms by (simp add: claves_orden_def)
  note bs = bin_search_orden [OF o, of k]
  have parte: "filter (\<lambda>e. fst e < k) v = take i v \<and> filter (\<lambda>e. k < fst e) v = drop j v"
    if "i \<le> j" "\<forall>l<i. fst (v ! l) < k" "\<forall>l. i \<le> l \<longrightarrow> l < j \<longrightarrow> fst (v ! l) = k" "\<forall>l<length v. j \<le> l \<longrightarrow> k < fst (v ! l)" "j \<le> length v" for i j
  proof -
    note T = that
    have v: "v = take i v @ drop i (take j v) @ drop j v" using that(1) by (metis append_assoc append_take_drop_id min_absorb1 take_take)
    have "\<forall>e\<in>set (take i v). fst e < k" "\<forall>e\<in>set (drop j v). k < fst e" "\<forall>e\<in>set (drop i (take j v)). fst e = k"
    proof -
      show "\<forall>e\<in>set (take i v). fst e < k" using that(2) by (auto simp: in_set_conv_nth) (metis fst_conv)
      show "\<forall>e\<in>set (drop j v). k < fst e"
      proof
        fix e assume "e \<in> set (drop j v)"
        then obtain l where "l < length v - j" "e = v ! (j + l)" by (auto simp: in_set_conv_nth)
        then show "k < fst e" using T(4) [rule_format, of "j + l"] by simp
      qed
      show "\<forall>e\<in>set (drop i (take j v)). fst e = k"
      proof
        fix e assume "e \<in> set (drop i (take j v))"
        then obtain l where "l < j - i" "e = v ! (i + l)" using T(5) by (auto simp: in_set_conv_nth)
        then show "fst e = k" using T(3) [rule_format, of "i + l"] by simp
      qed
    qed
    then have "filter P (take i v) = take i v \<and> filter P (drop i (take j v)) = [] \<and> filter P (drop j v) = []" if "P = (\<lambda>e. fst e < k)" for P
      using that by (auto simp: filter_id_conv filter_empty_conv)
    moreover have "filter P (take i v) = [] \<and> filter P (drop i (take j v)) = [] \<and> filter P (drop j v) = drop j v" if "P = (\<lambda>e. k < fst e)" for P
      using that \<open>\<forall>e\<in>set (take i v). fst e < k\<close> \<open>\<forall>e\<in>set (drop j v). k < fst e\<close> \<open>\<forall>e\<in>set (drop i (take j v)). fst e = k\<close>
      by (fastforce simp: filter_id_conv filter_empty_conv)
    ultimately show ?thesis using v by (metis append.left_neutral append_Nil2 filter_append)
  qed
  show ?thesis
  proof (cases "bin_search (map fst v) k")
    case (Inr i)
    have i: "i < length v" "fst (v ! i) = k" using bs(1) [OF Inr] by auto
    have "filter (\<lambda>e. fst e < k) v = take i v \<and> filter (\<lambda>e. k < fst e) v = drop (Suc i) v"
      by (rule parte) (use bs(3) [of i] Inr i in \<open>auto simp: le_less_Suc_eq\<close>)
    then show ?thesis using Inr i by (simp add: hoja_upsert_def upsert_def upd_conv_take_nth_drop)
  next
    case (Inl i)
    have i: "i \<le> length v" "k \<notin> fst ` set v" using bs(2) [OF Inl] by auto
    have "k < fst (v ! l)" if "l < length v" "i \<le> l" for l
      using bs(3) [of i] Inl that i(2) by (cases "l = i") (auto simp: order_le_less)
    then have "filter (\<lambda>e. fst e < k) v = take i v \<and> filter (\<lambda>e. k < fst e) v = drop i v"
      by (intro parte) (use bs(3) [of i] Inl i in auto)
    then show ?thesis using Inl by (simp add: hoja_upsert_def upsert_def inserta_en_def)
  qed
qed

text \<open>The child that a key belongs to: everything before it is smaller and everything after it is greater.\<close>

lemma items_orden:
  assumes "claves_orden (concat (map a_items ts))" "j < i" "i < length ts" "e \<in> set (a_items (ts ! j))" "e' \<in> set (a_items (ts ! i))"
  shows "fst e < fst e'"
proof -
  have ts: "ts = take i ts @ ts ! i # drop (Suc i) ts" using id_take_nth_drop [OF assms(3)] .
  have "ts ! j \<in> set (take i ts)" using assms(2,3) by (auto simp: in_set_conv_nth)
  then show ?thesis using assms(1,4,5) by (subst (asm) ts) auto
qed

lemma en_take: "e \<in> set (concat (map f (take i ts))) \<Longrightarrow> \<exists>j<i. e \<in> set (f (ts ! j))"
proof -
  assume "e \<in> set (concat (map f (take i ts)))"
  then obtain t where t: "t \<in> set (take i ts)" "e \<in> set (f t)" by auto
  then obtain j where "j < length (take i ts)" "take i ts ! j = t" by (meson in_set_conv_nth)
  then show ?thesis using t(2) by auto
qed

lemma en_drop: "e \<in> set (concat (map f (drop (Suc i) ts))) \<Longrightarrow> \<exists>j. i < j \<and> j < length ts \<and> e \<in> set (f (ts ! j))"
proof -
  assume "e \<in> set (concat (map f (drop (Suc i) ts)))"
  then obtain t where t: "t \<in> set (drop (Suc i) ts)" "e \<in> set (f t)" by auto
  then obtain j where "j < length (drop (Suc i) ts)" "drop (Suc i) ts ! j = t" by (meson in_set_conv_nth)
  then show ?thesis using t(2) by (intro exI [of _ "Suc i + j"]) auto
qed

lemma concat_map_concat: "concat (map (\<lambda>l. concat (map f l)) ls) = concat (map f (concat ls))"
  by (induction ls) auto

lemma hijo_idx_ok:
  assumes "ts \<noteq> []" "\<forall>t\<in>set ts. a_items t \<noteq> []" "claves_orden (concat (map a_items ts))"
    and i_def: "i = hijo_idx (a_entradas ts) k"
  shows "i < length ts" "\<forall>e\<in>set (concat (map a_items (take i ts))). fst e < k" "\<forall>e\<in>set (concat (map a_items (drop (Suc i) ts))). k < fst e"
proof -
  define ks where "ks = map a_min ts"
  have ks: "map fst (a_entradas ts) = ks" by (simp add: ks_def o_def)
  have mn: "\<exists>e\<in>set (a_items (ts ! j)). fst e = ks ! j" if "j < length ts" for j
    using that a_min_in [of "ts ! j"] assms(2) by (simp add: ks_def)
  have le: "ks ! j \<le> fst e" if "j < length ts" "e \<in> set (a_items (ts ! j))" for j e
  proof -
    have "claves_orden (a_items (ts ! j))" using assms(3) id_take_nth_drop [OF that(1)] by (metis claves_orden_append concat_append concat.simps(2) list.map(2) map_append)
    then show ?thesis using a_min_le that by (simp add: ks_def)
  qed
  have o: "sorted_wrt (<) ks"
    unfolding sorted_wrt_iff_nth_less
  proof (intro allI impI)
    fix j j' assume j: "j < j'" "j' < length ks"
    then obtain e e' where "e \<in> set (a_items (ts ! j))" "fst e = ks ! j" "e' \<in> set (a_items (ts ! j'))" "fst e' = ks ! j'"
      using mn [of j] mn [of j'] by (auto simp: ks_def)
    then show "ks ! j < ks ! j'" using items_orden [OF assms(3) j(1), of e e'] j(2) by (simp add: ks_def)
  qed
  note bs = bin_search_orden [OF o, of k]
  have len: "length ks = length ts" by (simp add: ks_def)
  have iv: "i = (case bin_search ks k of Inr i \<Rightarrow> i | Inl i \<Rightarrow> i - 1)" unfolding i_def hijo_idx_def ks ..
  have main: "i < length ts \<and> (0 < i \<longrightarrow> ks ! i \<le> k) \<and> (\<forall>j<length ts. i < j \<longrightarrow> k < ks ! j)"
  proof (cases "bin_search ks k")
    case (Inr l)
    then show ?thesis using bs(1) [OF Inr] bs(3) [of l] len by (simp add: iv)
  next
    case (Inl l)
    have i: "i = l - 1" using Inl by (simp add: iv)
    have l: "l \<le> length ts" "k \<notin> set ks" "\<forall>j<l. ks ! j < k" "\<forall>j<length ts. l < j \<longrightarrow> k < ks ! j" "l < length ts \<Longrightarrow> k \<le> ks ! l"
      using bs(2) [OF Inl] bs(3) [of l] Inl len by auto
    have "k < ks ! j" if "j < length ts" "i < j" for j
    proof (cases "l < j")
      case False
      then have "j = l" using that i by auto
      then show ?thesis using l(2,5) that len by (metis nth_mem order_le_less)
    qed (use l(4) that in auto)
    then show ?thesis using i l(1,3) assms(1) by (cases l) auto
  qed
  show "i < length ts" using main by simp
  show "\<forall>e\<in>set (concat (map a_items (take i ts))). fst e < k"
  proof
    fix e assume "e \<in> set (concat (map a_items (take i ts)))"
    then obtain j where j: "j < i" "e \<in> set (a_items (ts ! j))" by (blast dest: en_take)
    obtain e' where e': "e' \<in> set (a_items (ts ! i))" "fst e' = ks ! i" using mn [of i] main by auto
    have "fst e < ks ! i" using items_orden [OF assms(3) j(1) _ j(2) e'(1)] e'(2) main by simp
    then show "fst e < k" using main j(1) by auto
  qed
  show "\<forall>e\<in>set (concat (map a_items (drop (Suc i) ts))). k < fst e"
  proof
    fix e assume "e \<in> set (concat (map a_items (drop (Suc i) ts)))"
    then obtain j where j: "i < j" "j < length ts" "e \<in> set (a_items (ts ! j))" by (blast dest: en_drop)
    then show "k < fst e" using main le [OF j(2,3)] by (meson order_less_le_trans)
  qed
qed

text \<open>Splitting in halves.\<close>

definition mitades :: "bool \<Rightarrow> 'a list \<Rightarrow> 'a list list" where
  "mitades ov xs = (if ov then [take (length xs div 2) xs, drop (length xs div 2) xs] else [xs])"

lemma mitades_ok:
  assumes "length xs \<le> Suc cap" "1 < cap" "xs \<noteq> []"
  shows "concat (mitades (cap < length xs) xs) = xs" "\<forall>l\<in>set (mitades (cap < length xs) xs). l \<noteq> [] \<and> length l \<le> cap \<and> set l \<subseteq> set xs"
  using assms by (auto simp: mitades_def dest: in_set_takeD in_set_dropD)

lemma partes_mitades:
  "partes ov (Leaf v) = map Leaf (mitades ov v)" "partes ov (Internal (map f ts)) = map (\<lambda>l. Internal (map f l)) (mitades ov ts)"
  by (simp_all add: partes_def mitades_def take_map drop_map)

text \<open>The trees that stand for \<open>t\<close> after an operation in it.\<close>

definition ocupado :: "sosofs \<Rightarrow> arbol \<Rightarrow> bool" where
  "ocupado s t = (distinct (a_bloques t) \<and> (\<forall>b\<in>set (a_bloques t). 2 \<le> b \<and> b < unat (sb_block_count (fs_sb s)) \<and> bit_en (fs_bitmap s) b))"

definition nuevos :: "(bytes \<Rightarrow> u32) \<Rightarrow> sosofs \<Rightarrow> nat set \<Rightarrow> nat \<Rightarrow> (key \<times> bytes) list \<Rightarrow> arbol list \<Rightarrow> sosofs \<Rightarrow> bool" where
  "nuevos crc s L n its us s' = ((\<forall>u\<in>set us. a_ok n u \<and> a_items u \<noteq> [] \<and> rep crc (fs_img s') n u) \<and> concat (map a_items us) = its \<and>
    distinct (concat (map a_bloques us)) \<and> cambia s L (set (concat (map a_bloques us))) s')"

lemma con_hijo_lista: "i < length v \<Longrightarrow> con_hijo v i c = take i v @ cow_entradas c @ drop (Suc i) v"
  by (cases "cow_split c")
     (auto simp: con_hijo_def cow_entradas_def inserta_en_def Let_def upd_conv_take_nth_drop min_def)

lemma a_min_clave: "a_min (Hoja b v) = clave_min (Leaf v)"
  by (cases v) (auto simp: a_min_def clave_min_def)

lemma a_min_nodo: "ts \<noteq> [] \<Longrightarrow> \<forall>t\<in>set ts. a_items t \<noteq> [] \<Longrightarrow> a_min (Nodo b ts) = clave_min (Internal (a_entradas ts))"
proof (cases ts)
  case (Cons t us)
  assume "\<forall>t\<in>set ts. a_items t \<noteq> []"
  then show ?thesis using Cons by (cases "a_items t") (auto simp: a_min_def clave_min_def)
qed simp

text \<open>The leaves that \<open>write_split\<close> writes for a list of items.\<close>

lemma write_split_hoja:
  assumes "listo s" "v \<noteq> []" "length v \<le> Suc LEAF_CAP" "\<forall>(k, p)\<in>set v. length p = ITEM_PAYLOAD"
    and "write_split crc 0 (LEAF_CAP < length v) (Leaf v) s = (r, s')"
  shows "r = Inl NoSpace \<or> (\<exists>c us. r = Inr c \<and> cow_entradas c = a_entradas us \<and> nuevos crc s {} 0 v us s')"
proof -
  define ls where "ls = mitades (LEAF_CAP < length v) v"
  have ls: "concat ls = v" "\<forall>l\<in>set ls. l \<noteq> [] \<and> length l \<le> LEAF_CAP \<and> set l \<subseteq> set v"
    using mitades_ok [OF assms(3) _ assms(2)] by (auto simp: ls_def fs_consts)
  have p: "partes (LEAF_CAP < length v) (Leaf v) = map Leaf ls" by (simp add: partes_mitades ls_def)
  have "\<forall>x\<in>set (partes (LEAF_CAP < length v) (Leaf v)). nodo_valido x \<and> nodo_nivel 0 x"
    using ls(2) assms(4) by (fastforce simp: p nodo_nivel_def)
  from write_split_ok [OF assms(1) this assms(5)] show ?thesis
  proof
    assume "\<exists>c bs. r = Inr c \<and> length bs = length (partes (LEAF_CAP < length v) (Leaf v)) \<and> distinct bs \<and> cambia s {} (set bs) s' \<and>
      (\<forall>i<length bs. nodo_en crc (fs_img s') (bs ! i) 0 (partes (LEAF_CAP < length v) (Leaf v) ! i)) \<and>
      cow_entradas c = zip (map clave_min (partes (LEAF_CAP < length v) (Leaf v))) bs"
    then obtain c bs where c: "r = Inr c" "length bs = length ls" "distinct bs" "cambia s {} (set bs) s'"
      "\<forall>i<length bs. nodo_en crc (fs_img s') (bs ! i) 0 (Leaf (ls ! i))" "cow_entradas c = zip (map (\<lambda>l. clave_min (Leaf l)) ls) bs"
      by (auto simp: p o_def)
    define us where "us = map2 Hoja bs ls"
    have us: "map a_items us = ls" using c(2) by (auto simp: us_def intro!: nth_equalityI)
    have "map a_bloques us = map (\<lambda>b. [b]) bs" using c(2) by (auto simp: us_def intro!: nth_equalityI)
    then have usb: "concat (map a_bloques us) = bs" by (simp only: concat_map_singleton map_ident)
    have "cow_entradas c = a_entradas us"
      using c(2,6) by (auto simp: us_def a_min_clave intro!: nth_equalityI)
    moreover have "\<forall>u\<in>set us. a_ok 0 u \<and> a_items u \<noteq> [] \<and> rep crc (fs_img s') 0 u"
    proof
      fix u assume "u \<in> set us"
      then obtain i where "i < length bs" "u = Hoja (bs ! i) (ls ! i)" using c(2) by (auto simp: us_def in_set_conv_nth)
      then show "a_ok 0 u \<and> a_items u \<noteq> [] \<and> rep crc (fs_img s') 0 u"
        using c(2,5) ls(2) assms(4) by (auto dest!: nth_mem) blast+
    qed
    ultimately show ?thesis using c us usb ls(1) unfolding nuevos_def by auto
  qed simp
qed

text \<open>The same for an internal node over trees that are already there.\<close>

lemma write_split_nodo:
  assumes "listo s" "ts \<noteq> []" "length ts \<le> Suc INT_CAP" "\<forall>t\<in>set ts. a_ok n t \<and> a_items t \<noteq> [] \<and> rep crc (fs_img s) n t"
    and "distinct (concat (map a_bloques ts))" "\<forall>b\<in>set (concat (map a_bloques ts)). bit_en (fs_bitmap s) b \<and> b < 2 ^ 64" "Suc n < 256"
    and "write_split crc (Suc n) (INT_CAP < length ts) (Internal (a_entradas ts)) s = (r, s')"
  shows "r = Inl NoSpace \<or> (\<exists>c us T. r = Inr c \<and> cow_entradas c = a_entradas us \<and>
    (\<forall>u\<in>set us. a_ok (Suc n) u \<and> a_items u \<noteq> [] \<and> rep crc (fs_img s') (Suc n) u) \<and> concat (map a_items us) = concat (map a_items ts) \<and>
    distinct (concat (map a_bloques us)) \<and> set (concat (map a_bloques us)) = set (concat (map a_bloques ts)) \<union> T \<and> cambia s {} T s')"
proof -
  define ls where "ls = mitades (INT_CAP < length ts) ts"
  have ls: "concat ls = ts" "\<forall>l\<in>set ls. l \<noteq> [] \<and> length l \<le> INT_CAP \<and> set l \<subseteq> set ts"
    using mitades_ok [OF assms(3) _ assms(2)] by (auto simp: ls_def fs_consts)
  have p: "partes (INT_CAP < length ts) (Internal (a_entradas ts)) = map (\<lambda>l. Internal (a_entradas l)) ls"
    by (simp add: partes_mitades ls_def)
  have raices: "a_bloque t \<in> set (a_bloques t)" for t by (cases t) auto
  have "\<forall>x\<in>set (partes (INT_CAP < length ts) (Internal (a_entradas ts))). nodo_valido x \<and> nodo_nivel (Suc n) x"
    using ls(2) assms(6,7) raices by (fastforce simp: p nodo_nivel_def)
  from write_split_ok [OF assms(1) this assms(8)] show ?thesis
  proof
    assume "\<exists>c bs. r = Inr c \<and> length bs = length (partes (INT_CAP < length ts) (Internal (a_entradas ts))) \<and> distinct bs \<and> cambia s {} (set bs) s' \<and>
      (\<forall>i<length bs. nodo_en crc (fs_img s') (bs ! i) (Suc n) (partes (INT_CAP < length ts) (Internal (a_entradas ts)) ! i)) \<and>
      cow_entradas c = zip (map clave_min (partes (INT_CAP < length ts) (Internal (a_entradas ts)))) bs"
    then obtain c bs where c: "r = Inr c" "length bs = length ls" "distinct bs" "cambia s {} (set bs) s'"
      "\<forall>i<length bs. nodo_en crc (fs_img s') (bs ! i) (Suc n) (Internal (a_entradas (ls ! i)))"
      "cow_entradas c = zip (map (\<lambda>l. clave_min (Internal (a_entradas l))) ls) bs"
      by (auto simp: p o_def)
    define us where "us = map2 Nodo bs ls"
    have nth: "us ! i = Nodo (bs ! i) (ls ! i)" if "i < length bs" for i using that c(2) by (simp add: us_def)
    have len: "length us = length bs" using c(2) by (simp add: us_def)
    have it: "concat (map a_items us) = concat (map a_items ts)"
    proof -
      have "map a_items us = map (\<lambda>l. concat (map a_items l)) ls" using c(2) len nth by (auto intro!: nth_equalityI)
      then show ?thesis using ls(1) by (simp add: concat_map_concat)
    qed
    have bl: "concat (map a_bloques us) = concat (map2 (\<lambda>b l. b # concat (map a_bloques l)) bs ls)"
      using c(2) len nth by (intro arg_cong [of _ _ concat]) (auto intro!: nth_equalityI)
    have bl2: "mset (concat (map2 (\<lambda>b l. b # f l) xs ys)) = mset xs + mset (concat (map f ys))" if "length xs = length ys" for xs ys and f :: "arbol list \<Rightarrow> nat list"
      using that by (induction xs ys rule: list_induct2) auto
    have "mset (concat (map a_bloques us)) = mset bs + mset (concat (map a_bloques ts))"
      unfolding bl bl2 [OF c(2), of "\<lambda>l. concat (map a_bloques l)"] using ls(1)
      by (simp add: concat_map_concat)
    then have bb: "mset (concat (map a_bloques us)) = mset (bs @ concat (map a_bloques ts))" by simp
    have "set bs \<inter> set (concat (map a_bloques ts)) = {}" using c(4) assms(6) by (auto simp: cambia_def)
    then have d: "distinct (concat (map a_bloques us))" using mset_eq_imp_distinct_iff [OF bb] c(3) assms(5) by auto
    have st: "set (concat (map a_bloques us)) = set (concat (map a_bloques ts)) \<union> set bs" using mset_eq_setD [OF bb] by auto
    have e: "cow_entradas c = a_entradas us"
    proof (rule nth_equalityI)
      show "length (cow_entradas c) = length (a_entradas us)" using c(2,6) len by simp
      fix i assume "i < length (cow_entradas c)"
      then have i: "i < length bs" using c(2,6) by simp
      have l: "ls ! i \<in> set ls" using i c(2) by simp
      have "a_min (Nodo (bs ! i) (ls ! i)) = clave_min (Internal (a_entradas (ls ! i)))"
        using a_min_nodo ls(2) l assms(4) by (meson subsetD)
      then show "cow_entradas c ! i = a_entradas us ! i" using i c(2,6) len nth by simp
    qed
    have r: "rep crc (fs_img s') n t" if "t \<in> set ts" for t
      by (rule rep_cong [where m = "fs_img s"]) (use assms(4,6) c(4) that in \<open>auto simp: cambia_def\<close>)
    have "\<forall>u\<in>set us. a_ok (Suc n) u \<and> a_items u \<noteq> [] \<and> rep crc (fs_img s') (Suc n) u"
    proof
      fix u assume "u \<in> set us"
      then obtain i where i: "i < length bs" "u = Nodo (bs ! i) (ls ! i)" using nth len by (auto simp: in_set_conv_nth)
      then have l: "ls ! i \<in> set ls" using c(2) by simp
      then have "ls ! i \<noteq> []" "length (ls ! i) \<le> INT_CAP" "set (ls ! i) \<subseteq> set ts" using ls(2) by auto
      then show "a_ok (Suc n) u \<and> a_items u \<noteq> [] \<and> rep crc (fs_img s') (Suc n) u"
        using i c(5) assms(4) r by (cases "ls ! i") auto
    qed
    then show ?thesis using c(1,4) e it d st by blast
  qed simp
qed

lemma cambia_amplia:
  assumes "cambia s L T s'" "\<forall>c\<in>S. bit_en (fs_bitmap s) c \<and> 2 \<le> c \<and> c < unat (sb_block_count (fs_sb s))" "S \<inter> L = {}"
  shows "cambia s (L \<union> S) (T \<union> S) s'"
  using assms by (auto simp: cambia_def)

lemma rep_cambia:
  assumes "cambia s L T s'" "rep crc (fs_img s) n t" "\<forall>b\<in>set (a_bloques t). bit_en (fs_bitmap s) b \<and> b \<notin> L"
  shows "rep crc (fs_img s') n t" "\<forall>b\<in>set (a_bloques t). bit_en (fs_bitmap s') b"
proof -
  show "rep crc (fs_img s') n t" by (rule rep_cong [OF assms(2)]) (use assms in \<open>auto simp: cambia_def\<close>)
  show "\<forall>b\<in>set (a_bloques t). bit_en (fs_bitmap s') b" using assms by (auto simp: cambia_def)
qed

lemma upsert_props:
  "upsert k p v \<noteq> []" "length (filter (\<lambda>e. fst e < k) v @ (k, p) # filter (\<lambda>e. k < fst e) v) \<le> Suc (length v)"
  "\<forall>(k, p)\<in>set v. length p = m \<Longrightarrow> length p = m \<Longrightarrow> \<forall>(k, p)\<in>set (upsert k p v). length p = m"
proof -
  show "length (filter (\<lambda>e. fst e < k) v @ (k, p) # filter (\<lambda>e. k < fst e) v) \<le> Suc (length v)"
  proof (induction v)
    case (Cons e v)
    have "\<not> (fst e < k \<and> k < fst e)" by auto
    then show ?case using Cons by auto
  qed simp
qed (auto simp: upsert_def)

lemma u64_cota: "x < unat (w :: u64) \<Longrightarrow> x < 2 ^ 64"
  using unsigned_less [of w, where 'a = nat] by simp

lemma bloque_raiz: "a_bloque t \<in> set (a_bloques t)"
  by (cases t) auto

text \<open>Replacing one of the children: which blocks belong to the rest.\<close>

lemma hermanos:
  assumes "i < length ts"
  shows "concat (map f ts) = concat (map f (take i ts)) @ f (ts ! i) @ concat (map f (drop (Suc i) ts))"
  by (subst id_take_nth_drop [OF assms]) simp

text \<open>An operation has replaced the child \<open>i\<close> of a node by the trees \<open>us\<close>: the node is freed, and what it is going to be
  rewritten with is in place.\<close>

lemma cambia_hijo:
  assumes "listo s" "ocupado s (Nodo b ts)" "\<forall>t\<in>set ts. a_ok n t \<and> a_items t \<noteq> [] \<and> rep crc (fs_img s) n t" "i < length ts"
    and "nuevos crc s (set (a_bloques (ts ! i))) n its us s2" and ts'_def: "ts' = take i ts @ us @ drop (Suc i) ts"
  obtains s3 where "free_block b s2 = (Inr (), s3)" "listo s3" "\<forall>x\<in>set ts'. a_ok n x \<and> a_items x \<noteq> [] \<and> rep crc (fs_img s3) n x"
    "distinct (concat (map a_bloques ts'))" "\<forall>x\<in>set (concat (map a_bloques ts')). bit_en (fs_bitmap s3) x \<and> x < 2 ^ 64"
    "concat (map a_items ts') = concat (map a_items (take i ts)) @ its @ concat (map a_items (drop (Suc i) ts))"
    "\<And>T s4. cambia s3 {} T s4 \<Longrightarrow> cambia s (set (a_bloques (Nodo b ts))) (set (concat (map a_bloques ts')) \<union> T) s4"
proof -
  define u where "u = ts ! i"
  define A B Z where "A = concat (map a_bloques (take i ts))" and "B = concat (map a_bloques (drop (Suc i) ts))" and "Z = concat (map a_bloques us)"
  have bl: "concat (map a_bloques ts) = A @ a_bloques u @ B" using hermanos [OF assms(4), of a_bloques] by (simp add: A_def B_def u_def)
  have bt': "concat (map a_bloques ts') = A @ Z @ B" by (simp add: ts'_def A_def B_def Z_def)
  have oc: "distinct (b # A @ a_bloques u @ B)"
    "\<forall>c\<in>set (b # A @ a_bloques u @ B). 2 \<le> c \<and> c < unat (sb_block_count (fs_sb s)) \<and> bit_en (fs_bitmap s) c"
    using assms(2) bl by (auto simp: ocupado_def)
  have z: "\<forall>x\<in>set us. a_ok n x \<and> a_items x \<noteq> [] \<and> rep crc (fs_img s2) n x" "concat (map a_items us) = its"
    "distinct Z" "cambia s (set (a_bloques u)) (set Z) s2" using assms(5) by (auto simp: nuevos_def Z_def u_def)
  have l2: "listo s2" "fs_sb s2 = fs_sb s" using cambia_listo [OF z(4) assms(1)] cambia_sb [OF z(4)] by auto
  have zb: "set Z \<inter> set (b # A @ B) = {}" using z(4) oc by (auto simp: cambia_def)
  obtain s3 where s3: "free_block b s2 = (Inr (), s3)" "cambia s2 {b} {} s3"
    using free_block_ok [OF l2(1), of b] oc(2) l2(2) by auto
  have c3: "cambia s (set (a_bloques u) \<union> {b}) (set Z) s3" using cambia_trans(1) [OF z(4) s3(2)] zb by auto
  have old: "rep crc (fs_img s3) n x" if "x \<in> set (take i ts) \<union> set (drop (Suc i) ts)" for x
  proof (rule rep_cambia(1) [OF c3])
    show "rep crc (fs_img s) n x" using that assms(3) by (auto dest: in_set_takeD in_set_dropD)
    have "set (a_bloques x) \<subseteq> set (A @ B)" using that by (auto simp: A_def B_def)
    then show "\<forall>c\<in>set (a_bloques x). bit_en (fs_bitmap s) c \<and> c \<notin> set (a_bloques u) \<union> {b}" using oc by auto
  qed
  have new: "rep crc (fs_img s3) n x" if "x \<in> set us" for x
  proof (rule rep_cambia(1) [OF s3(2)])
    show "rep crc (fs_img s2) n x" using z(1) that by simp
    have "set (a_bloques x) \<subseteq> set Z" using that by (auto simp: Z_def)
    then show "\<forall>c\<in>set (a_bloques x). bit_en (fs_bitmap s2) c \<and> c \<notin> {b}" using zb z(4) by (auto simp: cambia_def)
  qed
  have cotas: "\<forall>x\<in>set (A @ Z @ B). 2 \<le> x \<and> x < unat (sb_block_count (fs_sb s))" using oc(2) z(4) by (auto simp: cambia_def)
  show thesis
  proof (rule that [OF s3(1) cambia_listo [OF s3(2) l2(1)]])
    show "\<forall>x\<in>set ts'. a_ok n x \<and> a_items x \<noteq> [] \<and> rep crc (fs_img s3) n x"
      using assms(3) z(1) old new by (auto simp: ts'_def dest: in_set_takeD in_set_dropD)
    show "distinct (concat (map a_bloques ts'))" using bt' oc(1) z(3) zb by auto
    show "\<forall>x\<in>set (concat (map a_bloques ts')). bit_en (fs_bitmap s3) x \<and> x < 2 ^ 64"
    proof
      fix x assume x: "x \<in> set (concat (map a_bloques ts'))"
      have "bit_en (fs_bitmap s3) x" using x c3 oc unfolding bt' by (auto simp: cambia_def)
      moreover have "x < 2 ^ 64" using cotas x unfolding bt' by (blast intro: u64_cota)
      ultimately show "bit_en (fs_bitmap s3) x \<and> x < 2 ^ 64" ..
    qed
    show "concat (map a_items ts') = concat (map a_items (take i ts)) @ its @ concat (map a_items (drop (Suc i) ts))"
      using z(2) by (simp add: ts'_def)
    fix T s4
    assume "cambia s3 {} T s4"
    then have "cambia s (set (a_bloques u) \<union> {b}) (set Z \<union> T) s4" using cambia_trans(1) [OF c3, of "{}" T s4] by simp
    then have "cambia s ((set (a_bloques u) \<union> {b}) \<union> set (A @ B)) ((set Z \<union> T) \<union> set (A @ B)) s4"
      by (rule cambia_amplia) (use oc in auto)
    moreover have "(set (a_bloques u) \<union> {b}) \<union> set (A @ B) = set (a_bloques (Nodo b ts))" using bl by auto
    moreover have "(set Z \<union> T) \<union> set (A @ B) = set (concat (map a_bloques ts')) \<union> T" using bt' by auto
    ultimately show "cambia s (set (a_bloques (Nodo b ts))) (set (concat (map a_bloques ts')) \<union> T) s4" by simp
  qed
qed

lemma insert_rec_ok:
  assumes "listo s" "rep crc (fs_img s) n t" "a_ok n t" "claves_orden (a_items t)" "ocupado s t" "length p = ITEM_PAYLOAD" "n < 256"
    and "insert_rec crc (a_bloque t) n k p s = (r, s')"
  shows "r = Inl NoSpace \<or>
    (\<exists>c us. r = Inr c \<and> cow_entradas c = a_entradas us \<and> nuevos crc s (set (a_bloques t)) n (upsert k p (a_items t)) us s')"
  using assms
proof (induction n arbitrary: t s r s')
  case 0
  then obtain b v where t: "t = Hoja b v" by (cases t) auto
  have n: "nodo_en crc (fs_img s) b 0 (Leaf v)" using 0 t by simp
  have b: "b < unat (sb_block_count (fs_sb s))" using 0(5) t by (simp add: ocupado_def)
  then have bc: "b < fs_count s" using 0(1) by (simp add: listo_def)
  obtain s1 where s1: "parse_node crc b s = (Inr (Leaf v), s1)" "lee s s1" using parse_node_ok(1) [OF 0(1) n bc] by blast
  have l1: "listo s1" "fs_sb s1 = fs_sb s" using lee_img(3) [OF s1(2) 0(1)] s1(2) by (auto simp: lee_def)
  obtain s2 where s2: "free_block b s1 = (Inr (), s2)" "cambia s1 {b} {} s2" using free_block_ok [OF l1(1)] b l1(2) by auto
  have c2: "cambia s {b} {} s2" using cambia_trans(1) [OF cambia_lee [OF s1(2)] s2(2)] by simp
  define v' where "v' = upsert k p v"
  have hv: "hoja_upsert v k p = v'" using hoja_upsert_ok 0(4) t by (simp add: v'_def)
  have pl: "\<forall>(k, p)\<in>set v. length p = ITEM_PAYLOAD" using 0(3) t by simp
  have v': "v' \<noteq> []" "length v' \<le> Suc LEAF_CAP" "\<forall>(k, p)\<in>set v'. length p = ITEM_PAYLOAD"
    using upsert_props(1,2) [where k = k and p = p and v = v] upsert_props(3) [OF pl 0(6)] 0(3) t by (auto simp: v'_def upsert_def)
  have w: "write_split crc 0 (LEAF_CAP < length v') (Leaf v') s2 = (r, s')"
    using 0(8) t s1(1) s2(1) hv by (simp add: Let_def)
  from write_split_hoja [OF cambia_listo [OF s2(2) l1(1)] v' w] show ?case
  proof
    assume "\<exists>c us. r = Inr c \<and> cow_entradas c = a_entradas us \<and> nuevos crc s2 {} 0 v' us s'"
    then obtain c us where c: "r = Inr c" "cow_entradas c = a_entradas us" "nuevos crc s2 {} 0 v' us s'" by blast
    have "cambia s {b} (set (concat (map a_bloques us))) s'"
      using cambia_trans(1) [OF c2, of "{}"] c(3) by (auto simp: nuevos_def)
    then show ?thesis using c t by (auto simp: nuevos_def v'_def)
  qed simp
next
  case (Suc n)
  obtain b ts where t: "t = Nodo b ts" using Suc.prems by (cases t) auto
  have nd: "nodo_en crc (fs_img s) b (Suc n) (Internal (a_entradas ts))" using Suc.prems t by simp
  have ts: "ts \<noteq> []" "length ts \<le> INT_CAP" "\<forall>t\<in>set ts. a_ok n t \<and> a_items t \<noteq> [] \<and> rep crc (fs_img s) n t"
    "claves_orden (concat (map a_items ts))" using Suc.prems t by auto
  have bc: "b < fs_count s" using Suc.prems(1,5) t by (auto simp: listo_def ocupado_def)
  obtain s1 where s1: "parse_node crc b s = (Inr (Internal (a_entradas ts)), s1)" "lee s s1"
    using parse_node_ok(1) [OF Suc.prems(1) nd bc] by blast
  have l1: "listo s1" "fs_img s1 = fs_img s" "ocupado s1 t" using lee_img [OF s1(2)] Suc.prems s1(2) by (auto simp: lee_def ocupado_def)
  define i where "i = hijo_idx (a_entradas ts) k"
  note ix = hijo_idx_ok [OF ts(1) _ ts(4) i_def]
  have i: "i < length ts" "\<forall>e\<in>set (concat (map a_items (take i ts))). fst e < k" "\<forall>e\<in>set (concat (map a_items (drop (Suc i) ts))). k < fst e"
    using ix ts(3) by auto
  define u where "u = ts ! i"
  have u: "u \<in> set ts" "claves_orden (a_items u)" "ocupado s1 u"
    using i(1) hermanos [OF i(1), of a_items] hermanos [OF i(1), of a_bloques] ts(4) l1(3) t by (auto simp: u_def ocupado_def)
  obtain r2 s2 where ins: "insert_rec crc (a_bloque u) n k p s1 = (r2, s2)" by fastforce
  have ent: "a_entradas ts \<noteq> []" "snd (a_entradas ts ! i) = a_bloque u" using ts(1) i(1) by (auto simp: u_def)
  have "r2 = Inl NoSpace \<or> (\<exists>c us. r2 = Inr c \<and> cow_entradas c = a_entradas us \<and> nuevos crc s1 (set (a_bloques u)) n (upsert k p (a_items u)) us s2)"
    by (rule Suc.IH [OF l1(1) _ _ u(2,3) Suc.prems(6) _ ins]) (use ts(3) u(1) l1(2) Suc.prems(7) in auto)
  then show ?case
  proof
    assume "r2 = Inl NoSpace"
    then show ?thesis using Suc.prems(8) t s1(1) ent ins by (auto simp: i_def)
  next
    assume "\<exists>c us. r2 = Inr c \<and> cow_entradas c = a_entradas us \<and> nuevos crc s1 (set (a_bloques u)) n (upsert k p (a_items u)) us s2"
    then obtain c us where c: "r2 = Inr c" "cow_entradas c = a_entradas us" "nuevos crc s1 (set (a_bloques u)) n (upsert k p (a_items u)) us s2" by blast
    define ts' where "ts' = take i ts @ us @ drop (Suc i) ts"
    have lu: "us \<noteq> []" "length us \<le> 2" using arg_cong [OF c(2), of length] by (auto simp: cow_entradas_def split: option.splits)
    have ch: "con_hijo (a_entradas ts) i c = a_entradas ts'"
      using con_hijo_lista [of i "a_entradas ts" c] i(1) c(2) by (simp add: ts'_def take_map drop_map)
    have ts': "ts' \<noteq> []" "length ts' \<le> Suc INT_CAP" using lu ts(2) i(1) by (auto simp: ts'_def)
    have ts1: "\<forall>t\<in>set ts. a_ok n t \<and> a_items t \<noteq> [] \<and> rep crc (fs_img s1) n t" using ts(3) l1(2) by simp
    obtain s3 where s3: "free_block b s2 = (Inr (), s3)" "listo s3" "\<forall>x\<in>set ts'. a_ok n x \<and> a_items x \<noteq> [] \<and> rep crc (fs_img s3) n x"
      "distinct (concat (map a_bloques ts'))" "\<forall>x\<in>set (concat (map a_bloques ts')). bit_en (fs_bitmap s3) x \<and> x < 2 ^ 64"
      "concat (map a_items ts') = concat (map a_items (take i ts)) @ upsert k p (a_items u) @ concat (map a_items (drop (Suc i) ts))"
      "\<And>T s4. cambia s3 {} T s4 \<Longrightarrow> cambia s1 (set (a_bloques t)) (set (concat (map a_bloques ts')) \<union> T) s4"
      using cambia_hijo [OF l1(1) l1(3) [unfolded t] ts1 i(1) c(3) [unfolded u_def] ts'_def] unfolding t u_def by metis
    have items: "concat (map a_items ts') = upsert k p (a_items t)"
      using upsert_append [OF i(2,3)] s3(6) hermanos [OF i(1), of a_items] t by (simp add: u_def)
    have w: "write_split crc (Suc n) (INT_CAP < length ts') (Internal (a_entradas ts')) s3 = (r, s')"
      using Suc.prems(8) t s1(1) ent ins c(1) s3(1) ch by (simp add: i_def [symmetric] Let_def)
    from write_split_nodo [OF s3(2) ts' s3(3-5) Suc.prems(7) w] show ?thesis
    proof
      assume "\<exists>c us T. r = Inr c \<and> cow_entradas c = a_entradas us \<and>
        (\<forall>u\<in>set us. a_ok (Suc n) u \<and> a_items u \<noteq> [] \<and> rep crc (fs_img s') (Suc n) u) \<and> concat (map a_items us) = concat (map a_items ts') \<and>
        distinct (concat (map a_bloques us)) \<and> set (concat (map a_bloques us)) = set (concat (map a_bloques ts')) \<union> T \<and> cambia s3 {} T s'"
      then obtain c' us' T where f: "r = Inr c'" "cow_entradas c' = a_entradas us'"
        "\<forall>u\<in>set us'. a_ok (Suc n) u \<and> a_items u \<noteq> [] \<and> rep crc (fs_img s') (Suc n) u" "concat (map a_items us') = concat (map a_items ts')"
        "distinct (concat (map a_bloques us'))" "set (concat (map a_bloques us')) = set (concat (map a_bloques ts')) \<union> T" "cambia s3 {} T s'" by blast
      have "cambia s (set (a_bloques t)) (set (concat (map a_bloques us'))) s'"
        using cambia_trans(1) [OF cambia_lee [OF s1(2)] s3(7) [OF f(7)]] f(6) by simp
      then show ?thesis using f items by (auto simp: nuevos_def)
    qed simp
  qed
qed

section \<open>The tree of a state\<close>

definition arbol_en :: "(bytes \<Rightarrow> u32) \<Rightarrow> sosofs \<Rightarrow> nat \<Rightarrow> arbol \<Rightarrow> bool" where
  "arbol_en crc s n t = (listo s \<and> rep crc (fs_img s) n t \<and> a_ok n t \<and> claves_orden (a_items t) \<and> ocupado s t \<and> n < 256 \<and> a_bloque t = fs_root s)"

lemma arbol_lee: "arbol_en crc s n t \<Longrightarrow> lee s s' \<Longrightarrow> arbol_en crc s' n t"
  using lee_img [of s s'] by (auto simp: arbol_en_def ocupado_def lee_def)

lemma arbol_cuenta: "arbol_en crc s n t \<Longrightarrow> \<forall>b\<in>set (a_bloques t). b < fs_count s"
  by (auto simp: arbol_en_def ocupado_def listo_def)

lemma scan_range_ok:
  assumes "arbol_en crc s n t"
  shows "\<exists>s'. scan_range crc mn mx s = (Inr (rango_items mn mx (a_items t)), s') \<and> lee s s'"
  using scan_ok [of s crc n t PROFUNDIDAD mn mx] arbol_cuenta [OF assms] assms
  by (simp add: arbol_en_def scan_range_def PROFUNDIDAD_def)

lemma find_first_ok:
  assumes "arbol_en crc s n t"
  shows "\<exists>s'. find_first crc mn mx pr s = (Inr (List.find (\<lambda>(k, p). en_rango mn mx k \<and> pr p) (a_items t)), s') \<and> lee s s'"
  using find_ok [of s crc n t PROFUNDIDAD mn mx pr] arbol_cuenta [OF assms] assms
  by (simp add: arbol_en_def find_first_def PROFUNDIDAD_def)

text \<open>One step of the tree: from \<open>t\<close> to \<open>t'\<close>, taking and freeing exactly the blocks in which they differ.\<close>

definition paso_arbol :: "(bytes \<Rightarrow> u32) \<Rightarrow> sosofs \<Rightarrow> arbol \<Rightarrow> (key \<times> bytes) list \<Rightarrow> nat \<Rightarrow> arbol \<Rightarrow> sosofs \<Rightarrow> bool" where
  "paso_arbol crc s t its n' t' s' = (arbol_en crc s' n' t' \<and> a_items t' = its \<and>
    (\<exists>s1. cambia s (set (a_bloques t)) (set (a_bloques t')) s1 \<and> s' = s1\<lparr>fs_root := a_bloque t'\<rparr>))"

lemma arbol_de_nuevos:
  assumes "listo s" "cambia s L (set (a_bloques u)) s1" "a_ok n u" "rep crc (fs_img s1) n u" "claves_orden (a_items u)" "distinct (a_bloques u)" "n < 256"
  shows "arbol_en crc (s1\<lparr>fs_root := a_bloque u\<rparr>) n u"
proof -
  have "listo s1" using cambia_listo [OF assms(2,1)] .
  then have "listo (s1\<lparr>fs_root := a_bloque u\<rparr>)" by (simp add: listo_def sin_fallos_def fs_count_def)
  moreover have "ocupado (s1\<lparr>fs_root := a_bloque u\<rparr>) u"
    using assms(2,6) cambia_sb [OF assms(2)] by (auto simp: ocupado_def cambia_def)
  ultimately show ?thesis using assms by (simp add: arbol_en_def fs_img_def)
qed

lemma tree_insert_paso:
  assumes "arbol_en crc s n t" "length p = ITEM_PAYLOAD" "tree_insert crc k p s = (r, s')"
  shows "r = Inl NoSpace \<or> (r = Inl FsPanico \<and> n = 255) \<or> (r = Inr () \<and> (\<exists>n'\<le>Suc n. \<exists>t'. paso_arbol crc s t (upsert k p (a_items t)) n' t' s'))"
proof -
  note a = assms(1) [unfolded arbol_en_def]
  have co: "claves_orden (upsert k p (a_items t))" using claves_orden_upsert a by blast
  obtain nd where nd: "nodo_en crc (fs_img s) (fs_root s) n nd" using a by (cases t; cases n) auto
  have rc: "fs_root s < fs_count s" using arbol_cuenta [OF assms(1)] bloque_raiz [of t] a by auto
  obtain s1 where s1: "node_level crc (fs_root s) s = (Inr n, s1)" "lee s s1" using parse_node_ok(2) [OF _ nd rc] a by blast
  have a1: "arbol_en crc s1 n t" using arbol_lee [OF assms(1) s1(2)] .
  obtain r2 s2 where ins: "insert_rec crc (a_bloque t) n k p s1 = (r2, s2)" by fastforce
  have "r2 = Inl NoSpace \<or>
    (\<exists>c us. r2 = Inr c \<and> cow_entradas c = a_entradas us \<and> nuevos crc s1 (set (a_bloques t)) n (upsert k p (a_items t)) us s2)"
    by (rule insert_rec_ok [OF _ _ _ _ _ assms(2) _ ins]) (use a1 in \<open>auto simp: arbol_en_def\<close>)
  then show ?thesis
  proof
    assume "r2 = Inl NoSpace"
    then show ?thesis using assms(3) s1(1) ins a by (simp add: tree_insert_def)
  next
    assume "\<exists>c us. r2 = Inr c \<and> cow_entradas c = a_entradas us \<and> nuevos crc s1 (set (a_bloques t)) n (upsert k p (a_items t)) us s2"
    then obtain c us where c: "r2 = Inr c" "cow_entradas c = a_entradas us" "nuevos crc s1 (set (a_bloques t)) n (upsert k p (a_items t)) us s2" by blast
    note nu = c(3) [unfolded nuevos_def]
    have c02: "cambia s (set (a_bloques t)) (set (concat (map a_bloques us))) s2"
      using cambia_trans(1) [OF cambia_lee [OF s1(2)], of "set (a_bloques t)"] nu by simp
    show ?thesis
    proof (cases "cow_split c")
      case None
      then obtain u where u: "us = [u]" "cow_block c = a_bloque u" using c(2) by (cases us) (auto simp: cow_entradas_def)
      have "r = Inr ()" "s' = s2\<lparr>fs_root := a_bloque u\<rparr>"
        using assms(3) s1(1) ins a c(1) None u(2) by (auto simp: tree_insert_def pon_raiz_def)
      moreover have "arbol_en crc (s2\<lparr>fs_root := a_bloque u\<rparr>) n u"
        by (rule arbol_de_nuevos [where s = s and L = "set (a_bloques t)"]) (use a nu u(1) c02 co in auto)
      ultimately show ?thesis using nu u(1) c02 by (auto simp: paso_arbol_def intro!: exI [of _ n])
    next
      case (Some x)
      show ?thesis
      proof (cases "n = 255")
        case True
        then show ?thesis using assms(3) s1(1) ins a c(1) Some by (simp add: tree_insert_def lanza_def)
      next
      case no255: False
      then have n255: "n < 255" using a by simp
      obtain u w where u: "us = [u, w]" "(cow_min c, cow_block c) = (a_min u, a_bloque u)" "x = (a_min w, a_bloque w)"
        using c(2) Some by (cases us; cases "tl us") (auto simp: cow_entradas_def)
      have bs: "set (concat (map a_bloques us)) \<subseteq> {b. bit_en (fs_bitmap s2) b \<and> b < unat (sb_block_count (fs_sb s))}" using c02 by (auto simp: cambia_def)
      have "\<forall>b\<in>set (concat (map a_bloques us)). b < 2 ^ 64"
        using bs by (blast intro: u64_cota)
      then have val: "nodo_valido (Internal (a_entradas us))" using u(1) bloque_raiz by (auto simp: fs_consts)
      have niv: "nodo_nivel (n + 1) (Internal (a_entradas us))" using n255 by (simp add: nodo_nivel_def)
      have l2: "listo s2" using cambia_listo [OF c02] a by simp
      obtain r3 s3 where w: "write_node crc (n + 1) (Internal (a_entradas us)) s2 = (r3, s3)" by fastforce
      have e: "[(cow_min c, cow_block c), x] = a_entradas us" using u by auto
      have ti: "tree_insert crc k p s = bindE (write_node crc (n + 1) (Internal (a_entradas us))) (\<lambda>(nb, _). pon_raiz nb) s2"
        using s1(1) ins a c(1) Some e n255 by (simp add: tree_insert_def)
      from write_node_ok [OF l2 val niv w] show ?thesis
      proof
        assume "r3 = Inl NoSpace"
        then show ?thesis using ti assms(3) w by simp
      next
        assume "\<exists>b. r3 = Inr (b, clave_min (Internal (a_entradas us))) \<and> nodo_en crc (fs_img s3) b (n + 1) (Internal (a_entradas us)) \<and> cambia s2 {} {b} s3"
        then obtain b where b: "r3 = Inr (b, clave_min (Internal (a_entradas us)))" "nodo_en crc (fs_img s3) b (n + 1) (Internal (a_entradas us))" "cambia s2 {} {b} s3" by blast
        define t' where "t' = Nodo b us"
        have "r = Inr ()" "s' = s3\<lparr>fs_root := a_bloque t'\<rparr>" using ti assms(3) w b(1) by (auto simp: pon_raiz_def t'_def)
        moreover note tr = cambia_trans [OF c02 b(3)]
        have c03: "cambia s (set (a_bloques t)) (set (a_bloques t')) s3" using tr(1) by (simp add: t'_def)
        have rp: "\<forall>x\<in>set us. rep crc (fs_img s3) n x"
        proof
          fix x assume x: "x \<in> set us"
          show "rep crc (fs_img s3) n x"
            by (rule rep_cambia(1) [OF b(3)]) (use nu x bs in auto)
        qed
        have "arbol_en crc (s3\<lparr>fs_root := a_bloque t'\<rparr>) (Suc n) t'"
          by (rule arbol_de_nuevos [OF _ c03]) (use a nu u(1) rp b(2) tr(2) co n255 in \<open>auto simp: t'_def fs_consts\<close>)
        ultimately have "r = Inr () \<and> paso_arbol crc s t (upsert k p (a_items t)) (Suc n) t' s'"
          using nu c03 unfolding paso_arbol_def by (auto simp: t'_def)
        then show ?thesis by blast
      qed
      qed
    qed
  qed
qed

section \<open>Steps of the tree compose\<close>

lemma cambia_relevo:
  assumes "cambia s L T s1" "cambia s1 T T' s2"
  shows "cambia s L T' s2"
proof -
  have "marco s s2" using seg.R_trans assms by (auto simp: cambia_def)
  moreover have "fs_sb s1 = fs_sb s" using cambia_sb [OF assms(1)] .
  ultimately show ?thesis using assms unfolding cambia_def by (auto; metis)
qed

lemma raiz_campos [simp]:
  "fs_img (s\<lparr>fs_root := x\<rparr>) = fs_img s" "fs_count (s\<lparr>fs_root := x\<rparr>) = fs_count s" "listo (s\<lparr>fs_root := x\<rparr>) = listo s"
  by (simp_all add: fs_img_def fs_count_def listo_def sin_fallos_def)

lemma cambia_raiz: "cambia (s\<lparr>fs_root := x\<rparr>) L T s' \<Longrightarrow> cambia s L T (s'\<lparr>fs_root := fs_root s\<rparr>)"
proof -
  assume c: "cambia (s\<lparr>fs_root := x\<rparr>) L T s'"
  have "marco s (s\<lparr>fs_root := x\<rparr>)" by (rule marco_memoria) simp_all
  moreover have "marco s' (s'\<lparr>fs_root := fs_root s\<rparr>)" by (rule marco_memoria) simp_all
  ultimately have "marco s (s'\<lparr>fs_root := fs_root s\<rparr>)" using c seg.R_trans unfolding cambia_def by metis
  then show ?thesis using c by (simp add: cambia_def)
qed

lemma paso_trans:
  assumes "paso_arbol crc s t its n' t' s'" "paso_arbol crc s' t' its2 n2 t2 s2"
  shows "paso_arbol crc s t its2 n2 t2 s2"
proof -
  obtain s1 where s1: "cambia s (set (a_bloques t)) (set (a_bloques t')) s1" "s' = s1\<lparr>fs_root := a_bloque t'\<rparr>"
    using assms(1) by (auto simp: paso_arbol_def)
  obtain s3 where s3: "cambia s' (set (a_bloques t')) (set (a_bloques t2)) s3" "s2 = s3\<lparr>fs_root := a_bloque t2\<rparr>"
    using assms(2) by (auto simp: paso_arbol_def)
  have "cambia s1 (set (a_bloques t')) (set (a_bloques t2)) (s3\<lparr>fs_root := fs_root s1\<rparr>)" using cambia_raiz s3(1) s1(2) by simp
  then have "cambia s (set (a_bloques t)) (set (a_bloques t2)) (s3\<lparr>fs_root := fs_root s1\<rparr>)" using cambia_relevo [OF s1(1)] by blast
  moreover have "s2 = (s3\<lparr>fs_root := fs_root s1\<rparr>)\<lparr>fs_root := a_bloque t2\<rparr>" using s3(2) by simp
  ultimately show ?thesis using assms(2) unfolding paso_arbol_def by blast
qed

lemma paso_lee:
  assumes "arbol_en crc s n t" "lee s s'"
  shows "paso_arbol crc s t (a_items t) n t s'"
proof -
  have "cambia s ({} \<union> set (a_bloques t)) ({} \<union> set (a_bloques t)) s'"
    by (rule cambia_amplia [OF cambia_lee [OF assms(2)]]) (use assms(1) in \<open>auto simp: arbol_en_def ocupado_def\<close>)
  moreover have "s' = s'\<lparr>fs_root := a_bloque t\<rparr>" using assms by (simp add: arbol_en_def lee_def)
  ultimately show ?thesis using arbol_lee [OF assms] by (auto simp: paso_arbol_def)
qed

section \<open>Deletion\<close>

lemma write_nodo_ok:
  assumes "listo s" "ts \<noteq> []" "length ts \<le> INT_CAP" "\<forall>t\<in>set ts. a_ok n t \<and> a_items t \<noteq> [] \<and> rep crc (fs_img s) n t"
    and "distinct (concat (map a_bloques ts))" "\<forall>b\<in>set (concat (map a_bloques ts)). bit_en (fs_bitmap s) b \<and> b < 2 ^ 64" "Suc n < 256"
    and "write_node crc (Suc n) (Internal (a_entradas ts)) s = (r, s')"
  shows "r = Inl NoSpace \<or> (\<exists>u T. r = Inr (a_bloque u, a_min u) \<and> a_ok (Suc n) u \<and> a_items u \<noteq> [] \<and> rep crc (fs_img s') (Suc n) u \<and>
    a_items u = concat (map a_items ts) \<and> distinct (a_bloques u) \<and> set (a_bloques u) = set (concat (map a_bloques ts)) \<union> T \<and> cambia s {} T s')"
proof -
  define f where "f = (\<lambda>(b, mn). \<lparr>cow_block = b, cow_min = mn, cow_split = None\<rparr>)"
  have ws: "write_split crc (Suc n) (INT_CAP < length ts) (Internal (a_entradas ts)) s = (map_sum id f r, s')"
    using assms(3,8) by (cases r) (auto simp: write_split_def ret_def f_def)
  have "length ts \<le> Suc INT_CAP" using assms(3) by simp
  from write_split_nodo [OF assms(1,2) this assms(4,5,6,7) ws] show ?thesis
  proof
    assume "map_sum id f r = Inl NoSpace"
    then show ?thesis by (cases r) auto
  next
    assume "\<exists>c us T. map_sum id f r = Inr c \<and> cow_entradas c = a_entradas us \<and>
      (\<forall>u\<in>set us. a_ok (Suc n) u \<and> a_items u \<noteq> [] \<and> rep crc (fs_img s') (Suc n) u) \<and> concat (map a_items us) = concat (map a_items ts) \<and>
      distinct (concat (map a_bloques us)) \<and> set (concat (map a_bloques us)) = set (concat (map a_bloques ts)) \<union> T \<and> cambia s {} T s'"
    then obtain c us T where c: "map_sum id f r = Inr c" "cow_entradas c = a_entradas us"
      "\<forall>u\<in>set us. a_ok (Suc n) u \<and> a_items u \<noteq> [] \<and> rep crc (fs_img s') (Suc n) u" "concat (map a_items us) = concat (map a_items ts)"
      "distinct (concat (map a_bloques us))" "set (concat (map a_bloques us)) = set (concat (map a_bloques ts)) \<union> T" "cambia s {} T s'" by blast
    obtain b mn where r: "r = Inr (b, mn)" "c = \<lparr>cow_block = b, cow_min = mn, cow_split = None\<rparr>" using c(1) by (cases r) (auto simp: f_def)
    then obtain u where u: "us = [u]" "b = a_bloque u" "mn = a_min u" using c(2) by (cases us) (auto simp: cow_entradas_def)
    show ?thesis using c r(1) u by (intro disjI2 exI [of _ u] exI [of _ T]) auto
  qed
qed

lemma write_hoja_ok:
  assumes "listo s" "length v \<le> LEAF_CAP" "\<forall>(k, p)\<in>set v. length p = ITEM_PAYLOAD" "write_node crc 0 (Leaf v) s = (r, s')"
  shows "r = Inl NoSpace \<or> (\<exists>b. r = Inr (b, a_min (Hoja b v)) \<and> rep crc (fs_img s') 0 (Hoja b v) \<and> cambia s {} {b} s')"
  using write_node_ok [OF assms(1) _ _ assms(4)] assms(2,3) by (auto simp: nodo_nivel_def a_min_clave)

lemma quita_hoja:
  assumes "claves_orden v" "bin_search (map fst v) k = Inr i"
  shows "quita_en i v = borra k v" "i < length v"
proof -
  have o: "sorted_wrt (<) (map fst v)" using assms(1) by (simp add: claves_orden_def)
  have i: "i < length v" "fst (v ! i) = k" using bin_search_orden(1) [OF o assms(2)] by auto
  then have v: "v = take i v @ [v ! i] @ drop (Suc i) v" by (simp add: id_take_nth_drop)
  have "claves_orden (take i v @ [v ! i] @ drop (Suc i) v)" using assms(1) v by simp
  then have "\<forall>e\<in>set (take i v). fst e < k" "\<forall>e\<in>set (drop (Suc i) v). k < fst e" using i by auto
  from borra_append [OF this, of "[v ! i]"] have "borra k v = take i v @ borra k [v ! i] @ drop (Suc i) v" using v by metis
  then show "quita_en i v = borra k v" using i(2) by (simp add: quita_en_def borra_def)
  show "i < length v" using i by simp
qed

text \<open>The result of \<open>delete_rec\<close> as the trees that are left: none or one.\<close>

definition resto_arbol :: "arbol list \<Rightarrow> (nat \<times> key) option" where
  "resto_arbol us = (case us of [] \<Rightarrow> None | u # _ \<Rightarrow> Some (a_bloque u, a_min u))"

lemma borra_claves: "fst ` set (borra k v) = fst ` set v - {k}"
  by (auto simp: borra_def)

declare delete_rec.simps [simp del]

lemma delete_rec_ok:
  assumes "listo s" "rep crc (fs_img s) n t" "a_ok n t" "claves_orden (a_items t)" "ocupado s t" "n < 256"
    and "delete_rec crc (a_bloque t) n k s = (r, s')"
  shows "if k \<in> fst ` set (a_items t)
    then r = Inl NoSpace \<or> (\<exists>us. r = Inr (resto_arbol us) \<and> length us \<le> 1 \<and> nuevos crc s (set (a_bloques t)) n (borra k (a_items t)) us s')
    else r = Inl FsNotFound \<and> lee s s'"
  using assms
proof (induction n arbitrary: t s r s')
  case 0
  then obtain b v where t: "t = Hoja b v" by (cases t) auto
  have n: "nodo_en crc (fs_img s) b 0 (Leaf v)" using 0 t by simp
  have b: "b < unat (sb_block_count (fs_sb s))" using 0(5) t by (simp add: ocupado_def)
  then have bc: "b < fs_count s" using 0(1) by (simp add: listo_def)
  obtain s1 where s1: "parse_node crc b s = (Inr (Leaf v), s1)" "lee s s1" using parse_node_ok(1) [OF 0(1) n bc] by blast
  have l1: "listo s1" "fs_sb s1 = fs_sb s" using lee_img(3) [OF s1(2) 0(1)] s1(2) by (auto simp: lee_def)
  have o: "sorted_wrt (<) (map fst v)" "claves_orden v" using 0(4) t by (auto simp: claves_orden_def)
  show ?case
  proof (cases "bin_search (map fst v) k")
    case (Inl i)
    then have "(r, s') = (Inl FsNotFound, s1)" using 0(7) t s1(1) by (subst (asm) delete_rec.simps) simp
    then show ?thesis using bin_search_orden(2) [OF o(1) Inl] t s1(2) by auto
  next
    case (Inr i)
    have k: "k \<in> fst ` set v" using bin_search_orden(1) [OF o(1) Inr] by (metis length_map list.set_map nth_mem)
    obtain s2 where s2: "free_block b s1 = (Inr (), s2)" "cambia s1 {b} {} s2" using free_block_ok [OF l1(1)] b l1(2) by auto
    have c2: "cambia s {b} {} s2" using cambia_trans(1) [OF cambia_lee [OF s1(2)] s2(2)] by simp
    have l2: "listo s2" using cambia_listo [OF s2(2) l1(1)] .
    define v' where "v' = borra k v"
    have q: "quita_en i v = v'" using quita_hoja(1) [OF o(2) Inr] by (simp add: v'_def)
    have v': "length v' \<le> LEAF_CAP" "\<forall>(k, p)\<in>set v'. length p = ITEM_PAYLOAD"
      using 0(3) t order_trans [OF length_filter_le [of "\<lambda>e. fst e \<noteq> k" v]] by (auto simp: v'_def borra_def)
    have d: "delete_rec crc (a_bloque t) 0 k s = (if v' = [] then ret None else bindE (write_node crc 0 (Leaf v')) (\<lambda>x. ret (Some x))) s2"
      using t s1(1) s2(1) Inr q by (subst delete_rec.simps) (simp add: Let_def)
    show ?thesis
    proof (cases "v' = []")
      case True
      then have "r = Inr (resto_arbol [])" "s' = s2" using d 0(7) by (auto simp: ret_def resto_arbol_def)
      then show ?thesis using k t c2 True by (auto simp: nuevos_def v'_def intro!: exI [of _ "[]"])
    next
      case False
      obtain r3 s3 where w: "write_node crc 0 (Leaf v') s2 = (r3, s3)" by fastforce
      from write_hoja_ok [OF l2 v' w] show ?thesis
      proof
        assume "r3 = Inl NoSpace"
        then show ?thesis using d 0(7) False w k t by simp
      next
        assume "\<exists>b. r3 = Inr (b, a_min (Hoja b v')) \<and> rep crc (fs_img s3) 0 (Hoja b v') \<and> cambia s2 {} {b} s3"
        then obtain nb where nb: "r3 = Inr (nb, a_min (Hoja nb v'))" "rep crc (fs_img s3) 0 (Hoja nb v')" "cambia s2 {} {nb} s3" by blast
        have "r = Inr (resto_arbol [Hoja nb v'])" "s' = s3" using d 0(7) False w nb(1) by (auto simp: ret_def resto_arbol_def)
        moreover have "nuevos crc s (set (a_bloques t)) 0 (borra k (a_items t)) [Hoja nb v'] s3"
          using cambia_trans(1) [OF c2 nb(3)] nb(2) v' False t by (auto simp: nuevos_def v'_def)
        ultimately show ?thesis using k t by (auto intro!: exI [of _ "[Hoja nb v']"])
      qed
    qed
  qed
next
  case (Suc n)
  obtain b ts where t: "t = Nodo b ts" using Suc.prems by (cases t) auto
  have nd: "nodo_en crc (fs_img s) b (Suc n) (Internal (a_entradas ts))" using Suc.prems t by simp
  have ts: "ts \<noteq> []" "length ts \<le> INT_CAP" "\<forall>t\<in>set ts. a_ok n t \<and> a_items t \<noteq> [] \<and> rep crc (fs_img s) n t"
    "claves_orden (concat (map a_items ts))" using Suc.prems t by auto
  have bc: "b < fs_count s" using Suc.prems(1,5) t by (auto simp: listo_def ocupado_def)
  obtain s1 where s1: "parse_node crc b s = (Inr (Internal (a_entradas ts)), s1)" "lee s s1"
    using parse_node_ok(1) [OF Suc.prems(1) nd bc] by blast
  have l1: "listo s1" "fs_img s1 = fs_img s" "ocupado s1 t" using lee_img [OF s1(2)] Suc.prems s1(2) by (auto simp: lee_def ocupado_def)
  define i where "i = hijo_idx (a_entradas ts) k"
  note ix = hijo_idx_ok [OF ts(1) _ ts(4) i_def]
  have i: "i < length ts" "\<forall>e\<in>set (concat (map a_items (take i ts))). fst e < k" "\<forall>e\<in>set (concat (map a_items (drop (Suc i) ts))). k < fst e"
    using ix ts(3) by auto
  define u where "u = ts ! i"
  have u: "u \<in> set ts" "claves_orden (a_items u)" "ocupado s1 u"
    using i(1) hermanos [OF i(1), of a_items] hermanos [OF i(1), of a_bloques] ts(4) l1(3) t by (auto simp: u_def ocupado_def)
  have kt: "k \<in> fst ` set (a_items t) \<longleftrightarrow> k \<in> fst ` set (a_items u)"
    using i(2,3) hermanos [OF i(1), of a_items] t unfolding u_def [symmetric] by (auto simp: image_iff)
  obtain r2 s2 where del: "delete_rec crc (a_bloque u) n k s1 = (r2, s2)" by fastforce
  have ent: "a_entradas ts \<noteq> []" "snd (a_entradas ts ! i) = a_bloque u" using ts(1) i(1) by (auto simp: u_def)
  have dr0: "delete_rec crc b (Suc n) k s = bindE (delete_rec crc (a_bloque u) n k) (\<lambda>r s2.
      let v' = (case r of Some (nb, nmin) \<Rightarrow> (a_entradas ts)[i := (nmin, nb)] | None \<Rightarrow> quita_en i (a_entradas ts)) in
      bindE (free_block b) (\<lambda>_. if v' = [] then ret None
        else bindE (write_node crc (Suc n) (Internal v')) (\<lambda>x. ret (Some x))) s2) s1"
    using s1(1) ent unfolding i_def by (subst delete_rec.simps) simp
  have ih: "if k \<in> fst ` set (a_items u)
    then r2 = Inl NoSpace \<or> (\<exists>us. r2 = Inr (resto_arbol us) \<and> length us \<le> 1 \<and> nuevos crc s1 (set (a_bloques u)) n (borra k (a_items u)) us s2)
    else r2 = Inl FsNotFound \<and> lee s1 s2"
    by (rule Suc.IH [OF l1(1) _ _ u(2,3) _ del]) (use ts(3) u(1) l1(2) Suc.prems(6) in auto)
  show ?case
  proof (cases "\<exists>us. k \<in> fst ` set (a_items u) \<and> r2 = Inr (resto_arbol us) \<and> length us \<le> 1 \<and> nuevos crc s1 (set (a_bloques u)) n (borra k (a_items u)) us s2")
    case False
    then have "r2 = Inl NoSpace \<and> k \<in> fst ` set (a_items u) \<or> r2 = Inl FsNotFound \<and> lee s1 s2 \<and> k \<notin> fst ` set (a_items u)" using ih by (auto split: if_splits)
    moreover have "r2 = Inl e \<Longrightarrow> (r, s') = (Inl e, s2)" for e using dr0 del Suc.prems(7) t by simp
    ultimately show ?thesis using kt lee_trans [OF s1(2)] by auto
  next
    case True
    then obtain us where us: "k \<in> fst ` set (a_items u)" "r2 = Inr (resto_arbol us)" "length us \<le> 1"
      "nuevos crc s1 (set (a_bloques u)) n (borra k (a_items u)) us s2" by blast
    define ts' where "ts' = take i ts @ us @ drop (Suc i) ts"
    have lu: "us = [] \<or> (\<exists>w. us = [w])" using us(3) by (cases us) auto
    have ch: "(case resto_arbol us of Some (nb, nmin) \<Rightarrow> (a_entradas ts)[i := (nmin, nb)] | None \<Rightarrow> quita_en i (a_entradas ts)) = a_entradas ts'"
      using lu i(1) by (auto simp: resto_arbol_def ts'_def quita_en_def take_map drop_map upd_conv_take_nth_drop)
    have lt': "length ts' \<le> INT_CAP" using lu ts(2) i(1) by (auto simp: ts'_def)
    have ts1: "\<forall>t\<in>set ts. a_ok n t \<and> a_items t \<noteq> [] \<and> rep crc (fs_img s1) n t" using ts(3) l1(2) by simp
    obtain s3 where s3: "free_block b s2 = (Inr (), s3)" "listo s3" "\<forall>x\<in>set ts'. a_ok n x \<and> a_items x \<noteq> [] \<and> rep crc (fs_img s3) n x"
      "distinct (concat (map a_bloques ts'))" "\<forall>x\<in>set (concat (map a_bloques ts')). bit_en (fs_bitmap s3) x \<and> x < 2 ^ 64"
      "concat (map a_items ts') = concat (map a_items (take i ts)) @ borra k (a_items u) @ concat (map a_items (drop (Suc i) ts))"
      "\<And>T s4. cambia s3 {} T s4 \<Longrightarrow> cambia s1 (set (a_bloques t)) (set (concat (map a_bloques ts')) \<union> T) s4"
      using cambia_hijo [OF l1(1) l1(3) [unfolded t] ts1 i(1) us(4) [unfolded u_def] ts'_def] unfolding t u_def by metis
    have items: "concat (map a_items ts') = borra k (a_items t)"
      using borra_append [OF i(2,3)] s3(6) hermanos [OF i(1), of a_items] t by (simp add: u_def)
    have dr: "delete_rec crc (a_bloque t) (Suc n) k s = (if a_entradas ts' = [] then ret None
        else bindE (write_node crc (Suc n) (Internal (a_entradas ts'))) (\<lambda>x. ret (Some x))) s3"
      using dr0 t del us(2) s3(1) ch by (simp add: Let_def)
    have fin: "nuevos crc s (set (a_bloques t)) (Suc n) (borra k (a_items t)) ws s4"
      if "cambia s3 {} T s4" "set (concat (map a_bloques ws)) = set (concat (map a_bloques ts')) \<union> T" "concat (map a_items ws) = concat (map a_items ts')"
        "\<forall>w\<in>set ws. a_ok (Suc n) w \<and> a_items w \<noteq> [] \<and> rep crc (fs_img s4) (Suc n) w" "distinct (concat (map a_bloques ws))" for T s4 ws
      using cambia_trans(1) [OF cambia_lee [OF s1(2)] s3(7) [OF that(1)]] that items by (simp add: nuevos_def)
    show ?thesis
    proof (cases "ts' = []")
      case vac: True
      have "r = Inr (resto_arbol [])" "s' = s3" using dr vac Suc.prems(7) by (auto simp: ret_def resto_arbol_def)
      then show ?thesis using us(1) kt fin [of "{}" s3 "[]"] vac cambia_lee [of s3 s3] by (auto intro!: exI [of _ "[]"])
    next
      case no: False
      obtain r4 s4 where w: "write_node crc (Suc n) (Internal (a_entradas ts')) s3 = (r4, s4)" by fastforce
      from write_nodo_ok [OF s3(2) no lt' s3(3-5) Suc.prems(6) w] show ?thesis
      proof
        assume "r4 = Inl NoSpace"
        then show ?thesis using dr Suc.prems(7) no w us(1) kt by simp
      next
        assume "\<exists>u T. r4 = Inr (a_bloque u, a_min u) \<and> a_ok (Suc n) u \<and> a_items u \<noteq> [] \<and> rep crc (fs_img s4) (Suc n) u \<and>
          a_items u = concat (map a_items ts') \<and> distinct (a_bloques u) \<and> set (a_bloques u) = set (concat (map a_bloques ts')) \<union> T \<and> cambia s3 {} T s4"
        then obtain u' T where f: "r4 = Inr (a_bloque u', a_min u')" "a_ok (Suc n) u'" "a_items u' \<noteq> []" "rep crc (fs_img s4) (Suc n) u'"
          "a_items u' = concat (map a_items ts')" "distinct (a_bloques u')" "set (a_bloques u') = set (concat (map a_bloques ts')) \<union> T" "cambia s3 {} T s4" by blast
        have "r = Inr (resto_arbol [u'])" "s' = s4" using dr no Suc.prems(7) w f(1) by (auto simp: ret_def resto_arbol_def)
        then show ?thesis using us(1) kt fin [OF f(8), of "[u']"] f by (auto intro!: exI [of _ "[u']"])
      qed
    qed
  qed
qed

lemma encoge_ok:
  "arbol_en crc s n t \<Longrightarrow> n < fuel \<Longrightarrow>
    \<exists>n'\<le>n. \<exists>t' s'. encoge crc fuel s = (Inr (), s') \<and> paso_arbol crc s t (a_items t) n' t' s'"
proof (induction fuel arbitrary: s n t)
  case (Suc fuel)
  note a = Suc.prems(1) [unfolded arbol_en_def]
  obtain nd where nd: "nodo_en crc (fs_img s) (fs_root s) n nd"
    "nd = (case t of Hoja b v \<Rightarrow> Leaf v | Nodo b ts \<Rightarrow> Internal (a_entradas ts))"
    using a by (cases t; cases n) auto
  have rc: "fs_root s < fs_count s" using arbol_cuenta [OF Suc.prems(1)] bloque_raiz [of t] a by auto
  obtain s1 where s1: "parse_node crc (fs_root s) s = (Inr nd, s1)" "lee s s1" using parse_node_ok(1) [OF _ nd(1) rc] a by blast
  show ?case
  proof (cases "\<exists>b u. t = Nodo b [u]")
    case False
    have "\<nexists>x. nd = Internal [x]" using False nd(2) by (cases t) auto
    then have "encoge crc (Suc fuel) s = (Inr (), s1)" using s1(1) by (auto simp: ret_def split: node_data.splits list.splits)
    then show ?thesis using paso_lee [OF Suc.prems(1) s1(2)] by blast
  next
    case True
    then obtain b u where t: "t = Nodo b [u]" by blast
    then obtain m where n: "n = Suc m" using a by (cases n) auto
    have b: "b = fs_root s1" "b < unat (sb_block_count (fs_sb s1))" using a t s1(2) by (auto simp: lee_def ocupado_def)
    obtain s2 where s2: "free_block b s1 = (Inr (), s2)" "cambia s1 {b} {} s2"
      using free_block_ok [OF lee_img(3) [OF s1(2)] b(2)] a by blast
    have c2: "cambia s {b} {} s2" using cambia_trans(1) [OF cambia_lee [OF s1(2)] s2(2)] by simp
    have "cambia s ({b} \<union> set (a_bloques u)) ({} \<union> set (a_bloques u)) s2"
      by (rule cambia_amplia [OF c2]) (use a t in \<open>auto simp: ocupado_def\<close>)
    then have c3: "cambia s (set (a_bloques t)) (set (a_bloques u)) s2" using t by simp
    have "rep crc (fs_img s2) m u"
      by (rule rep_cambia(1) [OF c2]) (use a t n in \<open>auto simp: ocupado_def\<close>)
    then have "arbol_en crc (s2\<lparr>fs_root := a_bloque u\<rparr>) m u"
      by (intro arbol_de_nuevos [OF _ c3]) (use a t n in \<open>auto simp: ocupado_def\<close>)
    then have p: "paso_arbol crc s t (a_items t) m u (s2\<lparr>fs_root := a_bloque u\<rparr>)"
      using c3 t by (auto simp: paso_arbol_def)
    obtain n' t' s' where f: "n' \<le> m" "encoge crc fuel (s2\<lparr>fs_root := a_bloque u\<rparr>) = (Inr (), s')"
      "paso_arbol crc (s2\<lparr>fs_root := a_bloque u\<rparr>) u (a_items u) n' t' s'"
      using Suc.IH [of "s2\<lparr>fs_root := a_bloque u\<rparr>" m u] p Suc.prems(2) n by (auto simp: paso_arbol_def)
    have "encoge crc (Suc fuel) s = (Inr (), s')"
      using s1(1) nd(2) t s2(1) b(1) f(2) by (simp add: pon_raiz_def bindE_def)
    moreover have "paso_arbol crc s t (a_items t) n' t' s'" using paso_trans [OF p f(3)] t by simp
    ultimately show ?thesis using f(1) n by (intro exI [of _ n']) auto
  qed
qed simp

declare encoge.simps [simp del]

lemma tree_delete_paso:
  assumes "arbol_en crc s n t" "tree_delete crc k s = (r, s')"
  shows "if k \<in> fst ` set (a_items t)
    then r = Inl NoSpace \<or> (r = Inr () \<and> (\<exists>n'\<le>n. \<exists>t'. paso_arbol crc s t (borra k (a_items t)) n' t' s'))
    else r = Inl FsNotFound \<and> lee s s'"
proof -
  note a = assms(1) [unfolded arbol_en_def]
  have co: "claves_orden (borra k (a_items t))" using claves_orden_borra a by blast
  obtain nd where nd: "nodo_en crc (fs_img s) (fs_root s) n nd" using a by (cases t; cases n) auto
  have rc: "fs_root s < fs_count s" using arbol_cuenta [OF assms(1)] bloque_raiz [of t] a by auto
  obtain s1 where s1: "node_level crc (fs_root s) s = (Inr n, s1)" "lee s s1" using parse_node_ok(2) [OF _ nd rc] a by blast
  have a1: "arbol_en crc s1 n t" using arbol_lee [OF assms(1) s1(2)] .
  obtain r2 s2 where del: "delete_rec crc (a_bloque t) n k s1 = (r2, s2)" by fastforce
  define sigue where "sigue = (\<lambda>r :: (nat \<times> key) option. bindE (case r of Some (nb, _) \<Rightarrow> pon_raiz nb
      | None \<Rightarrow> bindE (write_node crc 0 (Leaf [])) (\<lambda>(nb, _). pon_raiz nb)) (\<lambda>_. encoge crc PROFUNDIDAD))"
  have td: "tree_delete crc k s = bindE (delete_rec crc (a_bloque t) n k) sigue s1"
    using s1(1) a by (simp add: tree_delete_def sigue_def)
  have fin: "bindE (pon_raiz (a_bloque u)) (\<lambda>_. encoge crc PROFUNDIDAD) s3 = (r, s') \<Longrightarrow>
      r = Inr () \<and> (\<exists>n'\<le>n. \<exists>t'. paso_arbol crc s t (borra k (a_items t)) n' t' s')"
    if "cambia s (set (a_bloques t)) (set (a_bloques u)) s3" "arbol_en crc (s3\<lparr>fs_root := a_bloque u\<rparr>) m u" "m \<le> n" "a_items u = borra k (a_items t)" for u s3 m
  proof -
    assume e: "bindE (pon_raiz (a_bloque u)) (\<lambda>_. encoge crc PROFUNDIDAD) s3 = (r, s')"
    have p: "paso_arbol crc s t (borra k (a_items t)) m u (s3\<lparr>fs_root := a_bloque u\<rparr>)" using that by (auto simp: paso_arbol_def)
    have "m < PROFUNDIDAD" using that(3) a by (simp add: PROFUNDIDAD_def)
    from encoge_ok [OF that(2) this] obtain n' t' s4 where f: "n' \<le> m" "encoge crc PROFUNDIDAD (s3\<lparr>fs_root := a_bloque u\<rparr>) = (Inr (), s4)"
      "paso_arbol crc (s3\<lparr>fs_root := a_bloque u\<rparr>) u (a_items u) n' t' s4" by blast
    have "r = Inr ()" "s' = s4" using e f(2) by (auto simp: pon_raiz_def bindE_def)
    moreover have "paso_arbol crc s t (borra k (a_items t)) n' t' s4" using paso_trans [OF p f(3)] that(4) by simp
    ultimately show ?thesis using f(1) that(3) by (intro conjI exI [of _ n']) auto
  qed
  have "if k \<in> fst ` set (a_items t)
    then r2 = Inl NoSpace \<or> (\<exists>us. r2 = Inr (resto_arbol us) \<and> length us \<le> 1 \<and> nuevos crc s1 (set (a_bloques t)) n (borra k (a_items t)) us s2)
    else r2 = Inl FsNotFound \<and> lee s1 s2"
    by (rule delete_rec_ok [OF _ _ _ _ _ _ del]) (use a1 in \<open>auto simp: arbol_en_def\<close>)
  then consider (no) "k \<notin> fst ` set (a_items t)" "r2 = Inl FsNotFound" "lee s1 s2" | (sp) "k \<in> fst ` set (a_items t)" "r2 = Inl NoSpace"
    | (si) us where "k \<in> fst ` set (a_items t)" "r2 = Inr (resto_arbol us)" "length us \<le> 1" "nuevos crc s1 (set (a_bloques t)) n (borra k (a_items t)) us s2"
    by (auto split: if_splits)
  then show ?thesis
  proof cases
    case no
    then show ?thesis using td del assms(2) lee_trans [OF s1(2)] by auto
  next
    case sp
    then show ?thesis using td del assms(2) by auto
  next
    case si
    note nu = si(4) [unfolded nuevos_def]
    have c2: "cambia s (set (a_bloques t)) (set (concat (map a_bloques us))) s2"
      using cambia_trans(1) [OF cambia_lee [OF s1(2)], of "set (a_bloques t)"] nu by simp
    have rs: "sigue (resto_arbol us) s2 = (r, s')" using td del si(2) assms(2) by simp
    show ?thesis
    proof (cases us)
      case (Cons u ws)
      then have u: "us = [u]" using si(3) by simp
      have "arbol_en crc (s2\<lparr>fs_root := a_bloque u\<rparr>) n u"
        by (rule arbol_de_nuevos [where s = s and L = "set (a_bloques t)"]) (use a nu u c2 co in auto)
      then show ?thesis using fin [of u s2 n] c2 u nu rs si(1) by (simp add: sigue_def resto_arbol_def)
    next
      case Nil
      obtain r3 s3 where w: "write_node crc 0 (Leaf []) s2 = (r3, s3)" by fastforce
      have l2: "listo s2" using cambia_listo [OF c2] a by simp
      from write_hoja_ok [OF l2 _ _ w] consider "r3 = Inl NoSpace"
        | b where "r3 = Inr (b, a_min (Hoja b []))" "rep crc (fs_img s3) 0 (Hoja b [])" "cambia s2 {} {b} s3" by auto
      then show ?thesis
      proof cases
        case 1
        then show ?thesis using rs Nil w si(1) by (simp add: sigue_def resto_arbol_def)
      next
        case 2
        have c3: "cambia s (set (a_bloques t)) (set (a_bloques (Hoja b []))) s3" using cambia_trans(1) [OF c2 2(3)] Nil by simp
        have "arbol_en crc (s3\<lparr>fs_root := a_bloque (Hoja b [])\<rparr>) 0 (Hoja b [])"
          by (rule arbol_de_nuevos [OF _ c3]) (use a 2(2) in auto)
        moreover have "bindE (pon_raiz b) (\<lambda>_. encoge crc PROFUNDIDAD) s3 = (r, s')"
          using rs Nil w 2(1) by (simp add: sigue_def resto_arbol_def bindE_def pon_raiz_def)
        ultimately show ?thesis using fin [of "Hoja b []" s3 0] c3 nu Nil si(1) by simp
      qed
    qed
  qed
qed

section \<open>The tree as a map\<close>

text \<open>\<open>respeta s t s' t'\<close>: a block in use outside the tree, that is, of data, is still in use, outside the tree and
  with the same contents.\<close>

definition respeta :: "sosofs \<Rightarrow> arbol \<Rightarrow> sosofs \<Rightarrow> arbol \<Rightarrow> bool" where
  "respeta s t s' t' = (\<forall>c. bit_en (fs_bitmap s) c \<longrightarrow> c \<notin> set (a_bloques t) \<longrightarrow>
    bit_en (fs_bitmap s') c \<and> c \<notin> set (a_bloques t') \<and> fs_img s' c = fs_img s c)"

lemma paso_respeta: "paso_arbol crc s t its n' t' s' \<Longrightarrow> respeta s t s' t'"
  unfolding paso_arbol_def respeta_def cambia_def by (elim conjE exE) (auto simp: fs_img_def)

lemma claves_distintas: "claves_orden v \<Longrightarrow> distinct (map fst v)"
  unfolding claves_orden_def by (simp add: strict_sorted_iff)

lemma map_of_upsert: "claves_orden v \<Longrightarrow> map_of (upsert k p v) = (map_of v)(k \<mapsto> p)"
proof (rule ext)
  fix x
  assume c: "claves_orden v"
  have e: "map_of (upsert k p v) x = Some y \<longleftrightarrow> ((map_of v)(k \<mapsto> p)) x = Some y" for y
    using map_of_eq_Some_iff [OF claves_distintas [OF claves_orden_upsert [OF c]], of k p x y] map_of_eq_Some_iff [OF claves_distintas [OF c], of x y]
    by (auto simp: upsert_def simp del: map_of_append)
  show "map_of (upsert k p v) x = ((map_of v)(k \<mapsto> p)) x" using e by (metis not_Some_eq)
qed

lemma map_of_borra: "map_of (borra k v) = (map_of v)(k := None)"
  unfolding borra_def by (induction v) (auto simp: fun_eq_iff)

text \<open>C9 (refinement): the tree that is written block by block, copied on write and split, is a map from keys to items.  A range is read
  as the items of the map in it, in ascending order; an insertion that returns is an update of the map, a deletion the removal of the
  key, and it reports a missing key exactly when the map does not have it; the only other errors are lack of space and, in a tree of 255
  levels, one level too many.  No block in use outside the tree changes.\<close>

theorem arbol_es_mapa:
  assumes "arbol_en crc s n t" "length p = ITEM_PAYLOAD"
  shows "fst (scan_range crc mn mx s) = Inr (rango_items mn mx (a_items t)) \<and> sorted_wrt (<) (map fst (a_items t)) \<and>
    (case tree_insert crc k p s of
      (Inl e, _) \<Rightarrow> e = NoSpace \<or> e = FsPanico \<and> n = 255
    | (Inr _, s') \<Rightarrow> \<exists>n' t'. arbol_en crc s' n' t' \<and> map_of (a_items t') = (map_of (a_items t))(k \<mapsto> p) \<and> respeta s t s' t') \<and>
    (case tree_delete crc k s of
      (Inl e, _) \<Rightarrow> e = (if map_of (a_items t) k = None then FsNotFound else NoSpace)
    | (Inr _, s') \<Rightarrow> map_of (a_items t) k \<noteq> None \<and>
        (\<exists>n' t'. arbol_en crc s' n' t' \<and> map_of (a_items t') = (map_of (a_items t))(k := None) \<and> respeta s t s' t'))"
proof -
  have o: "claves_orden (a_items t)" using assms(1) by (simp add: arbol_en_def)
  have d: "map_of (a_items t) k = None \<longleftrightarrow> k \<notin> fst ` set (a_items t)" by (simp add: map_of_eq_None_iff)
  have p: "\<exists>n' t'. arbol_en crc s' n' t' \<and> map_of (a_items t') = map_of its \<and> respeta s t s' t'" if "paso_arbol crc s t its n' t' s'" for its n' t' s'
    using paso_respeta [OF that] that by (auto simp: paso_arbol_def)
  obtain r1 s1 where i: "tree_insert crc k p s = (r1, s1)" by fastforce
  obtain r2 s2 where e: "tree_delete crc k s = (r2, s2)" by fastforce
  have "case r1 of Inl e \<Rightarrow> e = NoSpace \<or> e = FsPanico \<and> n = 255
    | Inr _ \<Rightarrow> \<exists>n' t'. arbol_en crc s1 n' t' \<and> map_of (a_items t') = (map_of (a_items t))(k \<mapsto> p) \<and> respeta s t s1 t'"
    using tree_insert_paso [OF assms i] map_of_upsert [OF o, of k p] by (auto split: sum.splits dest!: p) blast
  moreover have "case r2 of Inl e \<Rightarrow> e = (if map_of (a_items t) k = None then FsNotFound else NoSpace)
    | Inr _ \<Rightarrow> map_of (a_items t) k \<noteq> None \<and>
        (\<exists>n' t'. arbol_en crc s2 n' t' \<and> map_of (a_items t') = (map_of (a_items t))(k := None) \<and> respeta s t s2 t')"
    using tree_delete_paso [OF assms(1) e] map_of_borra [of k "a_items t"] d by (auto split: sum.splits if_splits dest!: p) blast
  moreover have "fst (scan_range crc mn mx s) = Inr (rango_items mn mx (a_items t))" using scan_range_ok [OF assms(1), of mn mx] by auto
  ultimately show ?thesis using o i e by (simp add: claves_orden_def)
qed

lemma fs_ejemplo_arbol: "arbol_en (\<lambda>_. 0) fs_ejemplo 0 (Hoja 2 hoja_ejemplo)"
proof -
  have v: "nodo_valido (Leaf hoja_ejemplo)"
    by (simp add: hoja_ejemplo_def relleno_item_def inode_bytes_def fs_consts)
  have "nodo_en (\<lambda>_. 0) img_ejemplo 2 0 (Leaf hoja_ejemplo)"
    by (rule nodo_ida_y_vuelta [OF v, where gen = 1]) (simp_all add: nodo_nivel_def img_ejemplo_def)
  moreover have "listo fs_ejemplo" by (simp add: listo_def sb_ejemplo_def BLOCK_SIZE_def)
  moreover have "ocupado fs_ejemplo (Hoja 2 hoja_ejemplo)" by (simp add: ocupado_def mapa_ejemplo_bits sb_ejemplo_def)
  moreover have "claves_orden hoja_ejemplo" "fs_root fs_ejemplo = 2"
    by (simp_all add: hoja_ejemplo_def fs_ejemplo_def key_inode_def ROOT_INODE_def less_key_def less_eq_key_def)
  ultimately show ?thesis using v by (simp add: arbol_en_def)
qed

theorem arbol_es_mapa_witness:
  "fst (scan_range (\<lambda>_. 0) (key_inode 1) (key_inode 2) fs_ejemplo) = Inr hoja_ejemplo \<and>
   (case tree_delete (\<lambda>_. 0) (key_inode 7) fs_ejemplo of (Inl e, _) \<Rightarrow> e = FsNotFound | (Inr _, _) \<Rightarrow> False)"
  using arbol_es_mapa [OF fs_ejemplo_arbol, of "replicate ITEM_PAYLOAD (CHR 0x00)" "key_inode 1" "key_inode 2" "key_inode 7"]
  by (auto simp: hoja_ejemplo_def ROOT_INODE_def key_inode_def en_rango_def split: sum.splits prod.splits)

end
