(* ===== verification/Sosofs_Ficheros.thy ===== *)
theory Sosofs_Ficheros
  imports Sosofs_Arbol
begin

text \<open>
  Files and names on top of the tree.  A file holds the bytes \<open>d\<close> (\<open>fichero_en\<close>) when its item says their number and its extents
  are the pieces of \<open>d\<close> in order, in blocks in use outside the tree; a name leads to an inode (\<open>entrada_en\<close>) when the entries of its
  directory say so.  From the steps of the tree of \<open>Sosofs_Arbol\<close>: what \<open>read_file_range\<close> reads, what
  \<open>escribe_datos\<close> writes, what a commit keeps and a rollback restores, and then that \<open>create_file\<close> and
  \<open>append_file\<close> are all or nothing, and that what \<open>create_file\<close> has returned survives a loss of power.
\<close>

section \<open>Files as extents\<close>

abbreviation ext_inicio :: "bytes \<Rightarrow> nat" where "ext_inicio p \<equiv> unat (ex_start (extent_read p))"
abbreviation ext_n :: "bytes \<Rightarrow> nat" where "ext_n p \<equiv> unat (ex_blocks (extent_read p))"

definition ext_datos :: "(nat \<Rightarrow> bytes) \<Rightarrow> bytes \<Rightarrow> bytes" where
  "ext_datos m p = concat (map m [ext_inicio p..<ext_inicio p + ext_n p])"

fun ext_en :: "(bytes \<Rightarrow> u32) \<Rightarrow> (nat \<Rightarrow> bytes) \<Rightarrow> u64 \<Rightarrow> nat \<Rightarrow> (key \<times> bytes) list \<Rightarrow> bytes \<Rightarrow> bool" where
  "ext_en crc m ino off [] d = (d = [])"
| "ext_en crc m ino off ((k, p) # es) d = (k = Key ino KIND_EXTENT (of_nat off) \<and> 0 < ext_n p \<and> ext_n p \<le> EXTENT_MAX_BLOCKS \<and>
    crc (ext_datos m p) = ex_crc (extent_read p) \<and> length (ext_datos m p) = ext_n p * BLOCK_SIZE \<and>
    d \<noteq> [] \<and> take (length d) (ext_datos m p) = take (ext_n p * BLOCK_SIZE) d \<and>
    ext_en crc m ino (off + ext_n p * BLOCK_SIZE) es (drop (ext_n p * BLOCK_SIZE) d))"

definition ext_bloques :: "bytes \<Rightarrow> nat set" where
  "ext_bloques p = {ext_inicio p..<ext_inicio p + ext_n p}"

lemma con_read_blocks_ok:
  assumes "listo s" "st + n \<le> fs_count s"
  shows "\<exists>s'. con_dev (read_blocks st n) s = (Inr (concat (map (fs_img s) [st..<st + n])), s') \<and> lee s s'"
proof -
  have "fst (con_dev (read_blocks st n) s) = Inr (concat (map (fs_img s) [st..<st + n]))"
    using dev_read_blocks_sin_fallos [of "ca_inner (fs_dev s)" st n] assms
    by (simp add: con_dev_def read_blocks_def listo_def sin_fallos_def fs_count_def fs_img_def)
  then show ?thesis using lee_read_blocks [of s st n] by (metis prod.collapse)
qed

lemma lee_tramo_ok:
  "listo s \<Longrightarrow> st + n \<le> fs_count s \<Longrightarrow> \<exists>s'. lee_tramo mx st n i s = (Inr (concat (map (fs_img s) [st + i..<st + n])), s') \<and> lee s s'"
proof (induction mx st n i s rule: lee_tramo.induct)
  case (1 mx st n i s)
  show ?case
  proof (cases "i < n")
    case True
    define k where "k = min (n - i) (max mx 1)"
    have k: "0 < k" "i + k \<le> n" using True by (auto simp: k_def)
    obtain s1 where s1: "con_dev (read_blocks (st + i) k) s = (Inr (concat (map (fs_img s) [st + i..<st + i + k])), s1)" "lee s s1"
      using con_read_blocks_ok [of s "st + i" k] 1(2,3) k by auto
    have l1: "listo s1" "st + n \<le> fs_count s1" "fs_img s1 = fs_img s" using lee_img [OF s1(2)] 1(2,3) by auto
    obtain s2 where s2: "lee_tramo mx st n (i + k) s1 = (Inr (concat (map (fs_img s) [st + (i + k)..<st + n])), s2)" "lee s1 s2"
      using 1(1) [OF True k_def s1(1) l1(1,2)] l1(3) by auto
    have "[st + i..<st + n] = [st + i..<st + i + k] @ [st + (i + k)..<st + n]"
      using upt_add_eq_append [of "st + i" "st + i + k" "n - i - k"] k by (simp add: add.assoc)
    then have "lee_tramo mx st n i s = (Inr (concat (map (fs_img s) [st + i..<st + n])), s2)"
      using s1(1) s2(1) True by (subst lee_tramo.simps) (simp add: k_def [symmetric] Let_def ret_def del: One_nat_def)
    then show ?thesis using lee_trans [OF s1(2) s2(2)] by blast
  qed (auto simp: lee_tramo.simps)
qed

text \<open>What is left of the range \<open>[offset, fin)\<close> of a file \<open>D\<close> in a buffer of which \<open>w\<close> bytes have been filled.\<close>

definition copiado :: "bytes \<Rightarrow> nat \<Rightarrow> bytes \<Rightarrow> nat \<Rightarrow> bytes \<Rightarrow> bool" where
  "copiado D offset out0 w out = (out = take w (drop offset D) @ drop w out0)"

lemma copiado_pon:
  assumes "copiado D offset out0 w out" "offset + w + length x \<le> length D" "w + length x \<le> length out0"
    and "x = take (length x) (drop (offset + w) D)"
  shows "copiado D offset out0 (w + length x) (pon w x out)"
proof -
  have "take (w + length x) (drop offset D) = take w (drop offset D) @ x"
    using assms(4) by (simp add: take_add add.commute)
  moreover have "length (take w (drop offset D)) = w" using assms(2) by simp
  ultimately show ?thesis using assms(1) by (simp add: copiado_def pon_def add.commute)
qed

lemma ext_en_pos: "ext_en crc m ino off es d \<Longrightarrow> (k, p) \<in> set es \<Longrightarrow> 0 < ext_n p"
  by (induction crc m ino off es d rule: ext_en.induct) auto

lemma lee_extent_ok:
  assumes "listo s" "ext_en crc (fs_img s) ino off ((k, p) # es) d" "ext_inicio p + ext_n p \<le> fs_count s"
    and "drop off D = d" "length D < 2 ^ 64" "fin \<le> length D" "offset \<le> fin" "fin - offset \<le> length out0"
    and "copiado D offset out0 (min off fin - offset) out"
  shows "\<exists>s' out'. lee_extent crc (length D) offset fin (k, p) (min off fin - offset, out) s =
      (Inr (min (off + ext_n p * BLOCK_SIZE) fin - offset, out'), s') \<and> lee s s' \<and>
      copiado D offset out0 (min (off + ext_n p * BLOCK_SIZE) fin - offset) out'"
proof -
  define nb where "nb = ext_n p * BLOCK_SIZE"
  note e = assms(2) [unfolded ext_en.simps nb_def [symmetric]]
  have off: "off < length D" using e assms(4) by (cases "off < length D") auto
  then have ko: "unat (k_offset k) = off" using e assms(5) by (simp add: unsigned_of_nat take_bit_nat_eq_self)
  have n0: "\<not> (ext_n p = 0 \<or> ext_n p > EXTENT_MAX_BLOCKS)" using e by simp
  show ?thesis
  proof (cases "off + nb \<le> offset \<or> fin \<le> off")
    case True
    then have "min (off + nb) fin - offset = min off fin - offset" by auto
    then show ?thesis using True ko n0 assms(9) unfolding nb_def [symmetric]
      by (auto simp: lee_extent_def Let_def nb_def)
  next
    case False
    obtain s1 where s1: "lee_tramo (di_max (ca_inner (fs_dev s))) (ext_inicio p) (ext_n p) 0 s = (Inr (ext_datos (fs_img s) p), s1)" "lee s s1"
      using lee_tramo_ok [OF assms(1,3), of _ 0] by (auto simp: ext_datos_def)
    define l where "l = min (length D - off) nb"
    have ch: "take (length D - off) (ext_datos (fs_img s) p) = take l d"
      using e assms(4) by (auto simp: l_def min_def)
    have ld: "length (take l d) = l" using assms(4) by (auto simp: l_def)
    define x where "x = take (min (fin - off) l - (offset - off)) (drop (offset - off) (take l d))"
    have "min (l - c) (min a l - c) = min a l - c" for a c :: nat by auto
    then have lx: "length x = min (fin - off) l - (offset - off)" using ld by (simp add: x_def del: length_take) simp
    have fo: "off < fin" "offset < off + nb" using False by auto
    have w: "min (off + nb) fin - offset = (min off fin - offset) + length x"
    proof -
      have "min (fin - off) l + off = min (off + nb) fin" using fo(1) assms(6) by (auto simp: l_def min_def)
      then show ?thesis using fo lx by (cases "offset \<le> off") (simp_all add: add.commute)
    qed
    have wl: "(min off fin - offset) + length x \<le> fin - offset" using w by linarith
    have cp: "copiado D offset out0 ((min off fin - offset) + length x) (pon (min off fin - offset) x out)"
    proof (rule copiado_pon [OF assms(9)])
      show "offset + (min off fin - offset) + length x \<le> length D" "min off fin - offset + length x \<le> length out0"
        using wl assms(6-8) by linarith+
      have "drop (offset + (min off fin - offset)) D = drop (offset - off) d"
        using False assms(4) by (cases "offset \<le> off") (auto simp: min_def)
      then show "x = take (length x) (drop (offset + (min off fin - offset)) D)"
      proof -
        have "length x \<le> l - (offset - off)" using lx by linarith
        moreover have "x = take (length x) (take (l - (offset - off)) (drop (offset - off) d))" unfolding lx by (simp add: x_def drop_take)
        ultimately show ?thesis using \<open>drop (offset + (min off fin - offset)) D = drop (offset - off) d\<close> by (simp add: min_def split: if_splits)
      qed
    qed
    have le: "lee_extent crc (length D) offset fin (k, p) (min off fin - offset, out) s =
      (if offset - off < min (fin - off) l then
         (if min off fin - offset + length x > length out then (Inl FsCorrupt, s1)
          else (Inr (min off fin - offset + length x, pon (min off fin - offset) x out), s1))
       else (Inr (min off fin - offset, out), s1))"
      using False n0 ko s1(1) e ld unfolding lx
      by (simp add: lee_extent_def Let_def nb_def [symmetric] ch x_def lanza_def ret_def)
    have lo: "min off fin - offset + length x \<le> length out"
    proof -
      have "length out = length (take (min off fin - offset) (drop offset D)) + (length out0 - (min off fin - offset))" using assms(9) by (simp add: copiado_def)
      moreover have "length (take (min off fin - offset) (drop offset D)) = min off fin - offset" using fo off by simp
      ultimately show ?thesis using wl assms(8) by linarith
    qed
    show ?thesis
    proof (cases "offset - off < min (fin - off) l")
      case True
      then show ?thesis using le cp lo s1(2) w unfolding nb_def [symmetric] by auto
    next
      case no: False
      then have "length x = 0" using lx by linarith
      then have "x = []" by simp
      then show ?thesis using le no s1(2) w assms(9) unfolding nb_def [symmetric] by auto
    qed
  qed
qed


lemma lee_extents_ok:
  assumes "listo s" "ext_en crc (fs_img s) ino off es d" "\<forall>(k, p)\<in>set es. ext_inicio p + ext_n p \<le> fs_count s"
    and "drop off D = d" "length D < 2 ^ 64" "fin \<le> length D" "offset \<le> fin" "fin - offset \<le> length out0"
    and "copiado D offset out0 (min off fin - offset) out"
  shows "\<exists>s' out'. lee_extents crc (length D) offset fin es (min off fin - offset, out) s = (Inr (fin - offset, out'), s') \<and> lee s s' \<and>
      copiado D offset out0 (fin - offset) out'"
  using assms(1-4,9)
proof (induction es arbitrary: s off d out)
  case Nil
  then have "min off fin = fin" using assms(6) by simp
  then show ?case using Nil by (auto simp: ret_def)
next
  case (Cons e es)
  obtain k p where e: "e = (k, p)" by (cases e)
  define off' where "off' = off + ext_n p * BLOCK_SIZE"
  note x = Cons(3) [unfolded e ext_en.simps off'_def [symmetric]]
  have dc: "ext_inicio p + ext_n p \<le> fs_count s" using Cons(4) e by simp
  obtain s1 out1 where s1: "lee_extent crc (length D) offset fin (k, p) (min off fin - offset, out) s = (Inr (min off' fin - offset, out1), s1)"
      "lee s s1" "copiado D offset out0 (min off' fin - offset) out1"
    using lee_extent_ok [OF Cons(2) Cons(3) [unfolded e] dc Cons(5) assms(5-8) Cons(6)] by (auto simp: off'_def)
  have l1: "listo s1" "fs_img s1 = fs_img s" "fs_count s1 = fs_count s" using lee_img [OF s1(2)] Cons(2) by auto
  have dr: "drop off' D = drop (ext_n p * BLOCK_SIZE) d" unfolding Cons(5) [symmetric] drop_drop off'_def by (simp add: add.commute)
  obtain s2 out2 where s2: "lee_extents crc (length D) offset fin es (min off' fin - offset, out1) s1 = (Inr (fin - offset, out2), s2)"
      "lee s1 s2" "copiado D offset out0 (fin - offset) out2"
    using Cons(1) [of s1 off', OF l1(1) _ _ dr s1(3)] x Cons(4) l1 by auto
  show ?case using s1(1) s2 lee_trans [OF s1(2) s2(2)] e by auto
qed

text \<open>The file \<open>ino\<close> in the tree \<open>t\<close> of a state holds the bytes \<open>d\<close>: its item says so, its extents are the pieces of \<open>d\<close> in order, and their blocks are in use and
  outside the tree.\<close>

definition de_tipo :: "u64 \<Rightarrow> u8 \<Rightarrow> (key \<times> bytes) list \<Rightarrow> (key \<times> bytes) list" where
  "de_tipo ino kind v = filter (\<lambda>e. k_inode (fst e) = ino \<and> k_kind (fst e) = kind) v"

abbreviation extents_de :: "u64 \<Rightarrow> (key \<times> bytes) list \<Rightarrow> (key \<times> bytes) list" where
  "extents_de ino \<equiv> de_tipo ino KIND_EXTENT"

lemma rango_kind [simp]: "en_rango (fst (key_range ino kind)) (snd (key_range ino kind)) k \<longleftrightarrow> k_inode k = ino \<and> k_kind k = kind"
  by (auto simp: en_rango_def key_range_def less_eq_key_def)

lemma scan_tipo:
  assumes "arbol_en crc s n t"
  shows "\<exists>s'. scan_range crc (fst (key_range ino kind)) (snd (key_range ino kind)) s = (Inr (de_tipo ino kind (a_items t)), s') \<and> lee s s'"
  using scan_range_ok [OF assms, of "fst (key_range ino kind)" "snd (key_range ino kind)"] by (simp add: de_tipo_def case_prod_unfold)

definition bloques_mapa :: "sosofs \<Rightarrow> nat set" where
  "bloques_mapa s = {unat (sb_bitmap_start (fs_sb s))..<unat (sb_bitmap_start (fs_sb s)) + unat (sb_bitmap_blocks (fs_sb s))}"

definition datos_en :: "sosofs \<Rightarrow> arbol \<Rightarrow> (key \<times> bytes) list \<Rightarrow> bool" where
  "datos_en s t es = (\<forall>(k, p)\<in>set es. \<forall>b\<in>ext_bloques p.
    bit_en (fs_bitmap s) b \<and> b \<notin> set (a_bloques t) \<and> b \<notin> bloques_mapa s \<and> 2 \<le> b \<and> b < unat (sb_block_count (fs_sb s)))"

definition mapa_ok :: "sosofs \<Rightarrow> arbol \<Rightarrow> bool" where
  "mapa_ok s t = (\<forall>b\<in>bloques_mapa s. bit_en (fs_bitmap s) b \<and> b \<notin> set (a_bloques t))"

definition fichero_en :: "(bytes \<Rightarrow> u32) \<Rightarrow> sosofs \<Rightarrow> arbol \<Rightarrow> u64 \<Rightarrow> bytes \<Rightarrow> bool" where
  "fichero_en crc s t ino d = (length d < 2 ^ 64 \<and>
    (\<exists>p. map_of (a_items t) (key_inode ino) = Some p \<and> ii_type (inode_read p) = FT_FILE \<and> unat (ii_size (inode_read p)) = length d) \<and>
    ext_en crc (fs_img s) ino 0 (extents_de ino (a_items t)) d \<and> datos_en s t (extents_de ino (a_items t)))"

lemma find_clave:
  "claves_orden v \<Longrightarrow> List.find (\<lambda>(x, p). en_rango k k x \<and> True) v = map_option (\<lambda>p. (k, p)) (map_of v k)"
  by (induction v) (auto simp: en_rango_def)

lemma stat_inode_ok:
  assumes "arbol_en crc s n t"
  shows "\<exists>s'. stat_inode crc ino s = (case map_of (a_items t) (key_inode ino) of None \<Rightarrow> Inl FsNotFound | Some p \<Rightarrow> Inr (inode_read p), s') \<and> lee s s'"
proof -
  have o: "claves_orden (a_items t)" using assms by (simp add: arbol_en_def)
  obtain s1 where "find_first crc (key_inode ino) (key_inode ino) (\<lambda>_. True) s = (Inr (map_option (\<lambda>p. (key_inode ino, p)) (map_of (a_items t) (key_inode ino))), s1)" "lee s s1"
    using find_first_ok [OF assms, of "key_inode ino" "key_inode ino" "\<lambda>_. True"] find_clave [OF o] by auto
  then show ?thesis by (cases "map_of (a_items t) (key_inode ino)") (auto simp: stat_inode_def lanza_def ret_def)
qed

lemma read_file_range_ok:
  assumes "arbol_en crc s n t" "fichero_en crc s t ino d" "offset + len \<le> length d" "len \<le> length out"
  shows "\<exists>s'. read_file_range crc ino offset len out s = (Inr (take len (drop offset d) @ drop len out), s') \<and> lee s s'"
proof -
  note f = assms(2) [unfolded fichero_en_def]
  obtain p where p: "map_of (a_items t) (key_inode ino) = Some p" "ii_type (inode_read p) = FT_FILE" "unat (ii_size (inode_read p)) = length d"
    using f by blast
  obtain s1 where s1: "stat_inode crc ino s = (Inr (inode_read p), s1)" "lee s s1" using stat_inode_ok [OF assms(1), of ino] p(1) by auto
  have a1: "arbol_en crc s1 n t" using arbol_lee [OF assms(1) s1(2)] .
  obtain s2 where s2: "scan_range crc (fst (key_range ino KIND_EXTENT)) (snd (key_range ino KIND_EXTENT)) s1 = (Inr (extents_de ino (a_items t)), s2)" "lee s1 s2"
    using scan_tipo [OF a1] by blast
  have l2: "lee s s2" using lee_trans [OF s1(2) s2(2)] .
  have "\<forall>(k, p)\<in>set (extents_de ino (a_items t)). ext_inicio p + ext_n p \<le> fs_count s2"
  proof (intro ballI, clarify)
    fix k p assume kp: "(k, p) \<in> set (extents_de ino (a_items t))"
    have "0 < ext_n p" using ext_en_pos kp f by blast
    moreover from this have "ext_inicio p + ext_n p - 1 \<in> ext_bloques p" by (auto simp: ext_bloques_def)
    moreover have "b < fs_count s2" if "b \<in> ext_bloques p" for b
      using that kp f assms(1) lee_img(2) [OF l2] by (fastforce simp: datos_en_def arbol_en_def listo_def)
    ultimately show "ext_inicio p + ext_n p \<le> fs_count s2" by force
  qed
  then obtain s3 out' where s3: "lee_extents crc (length d) offset (offset + len) (extents_de ino (a_items t)) (0, out) s2 = (Inr (len, out'), s3)" "lee s2 s3"
      "copiado d offset out len out'"
    using lee_extents_ok [of s2 crc ino 0 "extents_de ino (a_items t)" d d "offset + len" offset out out] lee_img [OF l2] assms f
    by (auto simp: arbol_en_def copiado_def)
  show ?thesis
  proof (cases "len = 0")
    case True
    then show ?thesis using s1 p assms(3,4) by (auto simp: read_file_range_def Let_def ret_def)
  next
    case False
    then show ?thesis using s1(1) s2(1) s3 p assms(3,4) lee_trans [OF l2 s3(2)]
      by (auto simp: read_file_range_def Let_def ret_def copiado_def)
  qed
qed

section \<open>Writing the data of a file\<close>

text \<open>\<open>avanza\<close>: what the steps of a transaction that touch no other data keep.\<close>

definition avanza :: "sosofs \<Rightarrow> arbol \<Rightarrow> sosofs \<Rightarrow> arbol \<Rightarrow> bool" where
  "avanza s t s' t' = (respeta s t s' t' \<and> fs_sb s' = fs_sb s)"

lemma avanza_refl [simp, intro]: "avanza s t s t"
  by (simp add: avanza_def respeta_def)

lemma avanza_trans: "avanza s t s1 t1 \<Longrightarrow> avanza s1 t1 s2 t2 \<Longrightarrow> avanza s t s2 t2"
  by (simp add: avanza_def respeta_def)

lemma paso_avanza: "paso_arbol crc s t its n' t' s' \<Longrightarrow> avanza s t s' t'"
  using paso_respeta [of crc s t its n' t' s'] cambia_sb by (auto simp: avanza_def paso_arbol_def)

lemma paso_next: "paso_arbol crc s t its n' t' s' \<Longrightarrow> fs_next s' = fs_next s"
  by (auto simp: paso_arbol_def cambia_def)

lemma lee_avanza: "lee s s' \<Longrightarrow> avanza s t s' t"
  using lee_img [of s s'] by (simp add: avanza_def respeta_def lee_def)

lemma cambia_avanza: "cambia s {} T s' \<Longrightarrow> ocupado s t \<Longrightarrow> avanza s t s' t"
  using cambia_sb [of s "{}" T s'] by (auto simp: avanza_def respeta_def cambia_def)

lemma arbol_cambia:
  assumes "arbol_en crc s n t" "cambia s {} T s'"
  shows "arbol_en crc s' n t"
proof -
  have "rep crc (fs_img s') n t" by (rule rep_cambia(1) [OF assms(2)]) (use assms(1) in \<open>auto simp: arbol_en_def ocupado_def\<close>)
  moreover have "listo s'" using cambia_listo [OF assms(2)] assms(1) by (simp add: arbol_en_def)
  ultimately show ?thesis using assms cambia_sb [OF assms(2)] by (auto simp: arbol_en_def ocupado_def cambia_def)
qed

lemma ext_en_cong:
  "\<forall>(k, p)\<in>set es. \<forall>b\<in>ext_bloques p. m' b = m b \<Longrightarrow> ext_en crc m' ino off es d = ext_en crc m ino off es d"
proof (induction es arbitrary: off d)
  case (Cons e es)
  obtain k p where e: "e = (k, p)" by (cases e)
  have "map m' [ext_inicio p..<ext_inicio p + ext_n p] = map m [ext_inicio p..<ext_inicio p + ext_n p]"
    by (rule map_cong) (use Cons(2) e in \<open>auto simp: ext_bloques_def\<close>)
  then have "ext_datos m' p = ext_datos m p" unfolding ext_datos_def by (rule arg_cong)
  then show ?case using Cons e by simp
qed simp

lemma datos_avanza:
  assumes "avanza s t s' t'" "datos_en s t es"
  shows "datos_en s' t' es" "ext_en crc (fs_img s') ino off es d = ext_en crc (fs_img s) ino off es d"
proof -
  show "datos_en s' t' es" using assms by (fastforce simp: avanza_def respeta_def datos_en_def bloques_mapa_def)
  have "\<forall>(k, p)\<in>set es. \<forall>b\<in>ext_bloques p. fs_img s' b = fs_img s b"
    using assms by (fastforce simp: avanza_def respeta_def datos_en_def)
  then show "ext_en crc (fs_img s') ino off es d = ext_en crc (fs_img s) ino off es d" by (rule ext_en_cong)
qed

lemma mapa_avanza: "avanza s t s' t' \<Longrightarrow> mapa_ok s t \<Longrightarrow> mapa_ok s' t'"
  by (auto simp: avanza_def respeta_def mapa_ok_def bloques_mapa_def)

lemma ext_en_append:
  "ext_en crc m ino off es d \<Longrightarrow> length d = sum_list (map (\<lambda>(k, p). ext_n p) es) * BLOCK_SIZE \<Longrightarrow> ext_en crc m ino (off + length d) es' d' \<Longrightarrow>
    ext_en crc m ino off (es @ es') (d @ d')"
proof (induction es arbitrary: off d)
  case (Cons e es)
  obtain k p where e: "e = (k, p)" by (cases e)
  define nb where "nb = ext_n p * BLOCK_SIZE"
  have l: "length d = nb + sum_list (map (\<lambda>(k, p). ext_n p) es) * BLOCK_SIZE" using Cons(3) e by (simp add: nb_def add_mult_distrib)
  note x = Cons(2) [unfolded e ext_en.simps nb_def [symmetric]]
  have "ext_en crc m ino (off + nb) (es @ es') (drop nb d @ d')"
    using Cons(1) [of "off + nb" "drop nb d"] x l Cons(4) by (simp add: add.assoc)
  moreover have "take (length d + length d') (ext_datos m p) = take nb d"
    using x l by (metis le_add1 take_all_iff trans_le_add1)
  ultimately show ?case using x l e by (simp add: nb_def [symmetric])
qed simp

lemma ext_en_claves:
  "ext_en crc m ino off es d \<Longrightarrow> (k, p) \<in> set es \<Longrightarrow> \<exists>x. k = Key ino KIND_EXTENT (of_nat x) \<and> off \<le> x \<and> x < off + length d"
proof (induction es arbitrary: off d)
  case (Cons e es)
  obtain k' p' where e: "e = (k', p')" by (cases e)
  show ?case
  proof (cases "(k, p) = e")
    case True
    then show ?thesis using Cons(2) e by (intro exI [of _ off]) auto
  next
    case False
    then have m: "(k, p) \<in> set es" using Cons(3) by auto
    then have "drop (ext_n p' * BLOCK_SIZE) d \<noteq> []" using Cons(2) e by (cases es) auto
    then show ?thesis using Cons(1) [OF _ m] Cons(2) e by fastforce
  qed
qed simp

lemma extent_read_bytes [simp]: "extent_read (relleno_item (extent_bytes e)) = e" "length (relleno_item (extent_bytes e)) = ITEM_PAYLOAD"
proof -
  have "rd64 (relleno_item (extent_bytes e)) 0 = ex_start e" "rd32 (relleno_item (extent_bytes e)) 8 = ex_blocks e" "rd32 (relleno_item (extent_bytes e)) 12 = ex_crc e"
    by (simp_all add: relleno_item_def extent_bytes_def rd64_def rd32_def le_dec_word)
  then show "extent_read (relleno_item (extent_bytes e)) = e" by (simp add: extent_read_def)
qed (simp add: relleno_item_def extent_bytes_def fs_consts)

lemma escribe_bloques_ok:
  assumes "listo s" "st + n \<le> fs_count s" "libres s0 st n" "marco s0 s"
  shows "\<exists>s'. cada (escribe_bloques st pad) [0..<n] s = (Inr (), s') \<and> marco s s' \<and> fs_bitmap s' = fs_bitmap s \<and> fs_root s' = fs_root s \<and> fs_next s' = fs_next s \<and>
    (\<forall>b. fs_img s' b = (if st \<le> b \<and> b < st + n then take BLOCK_SIZE (drop ((b - st) * BLOCK_SIZE) pad) else fs_img s b))"
  using assms(2,3)
proof (induction n)
  case (Suc n)
  have "libres s0 st n" using Suc(3) by (simp add: libres_def)
  then obtain s1 where s1: "cada (escribe_bloques st pad) [0..<n] s = (Inr (), s1)" "marco s s1" "fs_bitmap s1 = fs_bitmap s" "fs_root s1 = fs_root s" "fs_next s1 = fs_next s"
      "\<forall>b. fs_img s1 b = (if st \<le> b \<and> b < st + n then take BLOCK_SIZE (drop ((b - st) * BLOCK_SIZE) pad) else fs_img s b)"
    using Suc by auto
  have m1: "marco s0 s1" using seg.R_trans [OF assms(4) s1(2)] .
  have l1: "listo s1" "fs_count s1 = fs_count s" using listo_marco [OF s1(2) assms(1)] marco_campos(3) [OF s1(2)] by auto
  define buf where "buf = take BLOCK_SIZE (drop (n * BLOCK_SIZE) pad)"
  obtain s2 where w: "con_dev (write_block (st + n) buf) s1 = (Inr (), s2)"
    using con_write_sin_fallos [of s1 "st + n" buf] l1 Suc(2) by (auto simp: listo_def)
  have "bloque_libre s1 (st + n)" using libres_bloque [OF Suc(3), of n] bloque_libre_marco [OF m1] by simp
  then have "marco s s2" using marco_write [of s1 "st + n" buf] w seg.R_trans [OF s1(2)] by simp
  moreover have "cada (escribe_bloques st pad) [0..<Suc n] s = (Inr (), s2)"
    using s1(1) w by (simp add: cada_append escribe_bloques_def buf_def)
  ultimately show ?case using con_write_ok [OF w] s1 by (auto simp: buf_def less_Suc_eq)
qed auto

lemma tramo_escrito:
  assumes "listo s" "alloc_extent want s = (Inr (st, got), s1)" "length pad = got * BLOCK_SIZE"
  shows "\<exists>s2. cada (escribe_bloques st pad) [0..<got] s1 = (Inr (), s2) \<and> cambia s {} {st..<st + got} s2 \<and>
    concat (map (fs_img s2) [st..<st + got]) = pad" "0 < got" "got \<le> max want 1" "st + got \<le> unat (sb_block_count (fs_sb s))"
    "\<forall>b\<in>{st..<st + got}. \<not> bit_en (fs_bitmap s) b"
proof -
  have a: "alloc_run got s = (Inr st, s1)" "got \<le> max want 1"
    using alloc_extent_loop_ok [OF assms(2) [unfolded alloc_extent_def]] by auto
  note k = alloc_run_ok [OF a(1)]
  show "0 < got" using alloc_extent_pos [OF assms(2)] .
  show "got \<le> max want 1" "st + got \<le> unat (sb_block_count (fs_sb s))" using a(2) k(2) by (auto simp: libres_def)
  show nb: "\<forall>b\<in>{st..<st + got}. \<not> bit_en (fs_bitmap s) b"
  proof
    fix b assume "b \<in> {st..<st + got}"
    then have "b - st < got" "st + (b - st) = b" by auto
    then show "\<not> bit_en (fs_bitmap s) b" using k(3) [rule_format, of "b - st"] by simp
  qed
  have m: "marco s s1" using alloc_extent_ok(1) [OF assms(2)] .
  have l1: "listo s1" "fs_count s1 = fs_count s" using listo_marco [OF m assms(1)] marco_campos(3) [OF m] by auto
  have "st + got \<le> fs_count s1" using l1 assms(1) k(2) by (auto simp: listo_def libres_def)
  from escribe_bloques_ok [OF l1(1) this k(2) m, of pad] obtain s2 where s2: "cada (escribe_bloques st pad) [0..<got] s1 = (Inr (), s2)"
      "marco s1 s2" "fs_bitmap s2 = fs_bitmap s1" "fs_root s2 = fs_root s1" "fs_next s2 = fs_next s1"
      "\<forall>b. fs_img s2 b = (if st \<le> b \<and> b < st + got then take BLOCK_SIZE (drop ((b - st) * BLOCK_SIZE) pad) else fs_img s1 b)" by blast
  have bits: "bit_en (fs_bitmap s1) c \<longleftrightarrow> st \<le> c \<and> c < st + got \<or> bit_en (fs_bitmap s) c" for c
    using k(1) marca_tramo_bits(2) [of got st s c] k(3) by auto
  have "cambia s {} {st..<st + got} s2"
    using seg.R_trans [OF m s2(2)] s2(3-6) k nb bits unfolding cambia_def by (auto simp: libres_def fs_img_def)
  moreover have "concat (map (fs_img s2) [st..<st + got]) = pad"
  proof -
    have "map (fs_img s2) [st..<st + got] = map (\<lambda>i. take BLOCK_SIZE (drop (i * BLOCK_SIZE) pad)) [0..<got]"
      by (rule nth_equalityI) (use s2(6) in auto)
    then show ?thesis using concat_trozos [OF assms(3)] by simp
  qed
  ultimately show "\<exists>s2. cada (escribe_bloques st pad) [0..<got] s1 = (Inr (), s2) \<and> cambia s {} {st..<st + got} s2 \<and>
    concat (map (fs_img s2) [st..<st + got]) = pad" using s2(1) by blast
qed

lemma key_less_offset [simp]: "Key i k a < Key i k b \<longleftrightarrow> a < b"
  by (auto simp: less_key_def less_eq_key_def)

lemma of_nat_menor: "x < y \<Longrightarrow> y < 2 ^ 64 \<Longrightarrow> (of_nat x :: u64) < of_nat y"
  by (simp add: word_less_nat_alt unsigned_of_nat take_bit_nat_eq_self)

lemma orden_partes: "claves_orden v \<Longrightarrow> filter (\<lambda>e. fst e < k) v @ filter (\<lambda>e. fst e = k) v @ filter (\<lambda>e. k < fst e) v = v"
proof (induction v)
  case (Cons e v)
  have m: "\<forall>y\<in>set v. fst e < fst y" using Cons(2) by simp
  consider "fst e < k" | "fst e = k" | "k < fst e" by (rule linorder_cases)
  then show ?case
  proof cases
    case 2
    then have "filter (\<lambda>e. fst e < k) v = []" "filter (\<lambda>e. fst e = k) v = []" "filter (\<lambda>e. k < fst e) v = v" using m by (auto simp: filter_empty_conv filter_id_conv)
    then show ?thesis using 2 by simp
  next
    case 3
    then have "filter (\<lambda>e. fst e < k) v = []" "filter (\<lambda>e. fst e = k) v = []" "filter (\<lambda>e. k < fst e) v = v" using m by (fastforce simp: filter_empty_conv filter_id_conv)+
    then show ?thesis using 3 by auto
  qed (use Cons in auto)
qed simp

lemma tipo_upsert:
  assumes "de_tipo ino kind v = es @ resto" "resto = [] \<or> (\<exists>p. resto = [(k, p)])" "\<forall>e\<in>set es. fst e < k" "k_inode k = ino" "k_kind k = kind"
  shows "de_tipo ino kind (upsert k p v) = es @ [(k, p)]"
proof -
  have "de_tipo ino kind (filter P v) = filter P (es @ resto)" for P
    unfolding assms(1) [symmetric] by (simp add: de_tipo_def conj_commute)
  moreover have "filter (\<lambda>e. fst e < k) es = es" "filter (\<lambda>e. k < fst e) es = []" "filter (\<lambda>e. fst e < k) resto = []" "filter (\<lambda>e. k < fst e) resto = []"
    using assms(2,3) by (auto simp: filter_id_conv filter_empty_conv)
  moreover have "de_tipo ino kind (xs @ (k, p) # ys) = de_tipo ino kind xs @ (k, p) # de_tipo ino kind ys" for xs ys
    using assms(4,5) by (simp add: de_tipo_def)
  ultimately show ?thesis by (simp add: upsert_def)
qed

lemma tipo_otro:
  assumes "claves_orden v" "\<not> (k_inode k = ino \<and> k_kind k = kind)"
  shows "de_tipo ino kind (upsert k p v) = de_tipo ino kind v"
proof -
  have "de_tipo ino kind v = de_tipo ino kind (filter (\<lambda>e. fst e < k) v @ filter (\<lambda>e. fst e = k) v @ filter (\<lambda>e. k < fst e) v)"
    by (simp only: orden_partes [OF assms(1)])
  moreover have "de_tipo ino kind (filter (\<lambda>e. fst e = k) v) = []" using assms(2) by (auto simp: de_tipo_def filter_empty_conv)
  ultimately show ?thesis using assms(2) by (simp add: upsert_def de_tipo_def)
qed

text \<open>What \<open>escribe_datos\<close> has left when \<open>D\<close> is written: the extents \<open>es\<close> of \<open>D\<close>, all of them full while there is more to write, and then at most the
  old extent whose key comes next.\<close>

definition a_medias :: "(bytes \<Rightarrow> u32) \<Rightarrow> sosofs \<Rightarrow> arbol \<Rightarrow> u64 \<Rightarrow> bytes \<Rightarrow> bytes \<Rightarrow> bool" where
  "a_medias crc s t ino D falta = (\<exists>es resto. extents_de ino (a_items t) = es @ resto \<and> ext_en crc (fs_img s) ino 0 es D \<and> datos_en s t es \<and>
    (if falta = [] then resto = [] else length D = sum_list (map (\<lambda>(k, p). ext_n p) es) * BLOCK_SIZE \<and>
      (resto = [] \<or> (\<exists>p. resto = [(Key ino KIND_EXTENT (of_nat (length D)), p)]))))"

lemma a_medias_paso:
  assumes ar: "arbol_en crc s n t" and mo: "mapa_ok s t" and med: "a_medias crc s t ino D falta" and f: "falta \<noteq> []" and l64: "length D + length falta < 2 ^ 64"
    and al: "alloc_extent (min (div_ceil (length falta) BLOCK_SIZE) EXTENT_MAX_BLOCKS) s = (Inr (st, got), s1)"
    and cl: "cl = min (length falta) (got * BLOCK_SIZE)" and pad: "pad = take cl falta @ replicate (got * BLOCK_SIZE - cl) (CHR 0x00)"
    and p: "p = relleno_item (extent_bytes \<lparr>ex_start = of_nat st, ex_blocks = of_nat got, ex_crc = crc pad\<rparr>)"
    and k: "k = Key ino KIND_EXTENT (of_nat (length D))"
  shows "\<exists>s2. cada (escribe_bloques st pad) [0..<got] s1 = (Inr (), s2) \<and> arbol_en crc s2 n t \<and> avanza s t s2 t \<and> fs_next s2 = fs_next s \<and>
    (\<forall>s3 n3 t3. paso_arbol crc s2 t (upsert k p (a_items t)) n3 t3 s3 \<longrightarrow> a_medias crc s3 t3 ino (D @ take cl falta) (drop cl falta))"
proof -
  have li: "listo s" and oc: "ocupado s t" and or: "claves_orden (a_items t)" using ar by (auto simp: arbol_en_def)
  have lp: "length pad = got * BLOCK_SIZE" by (simp add: pad cl)
  note tr = tramo_escrito [OF li al lp]
  obtain s2 where s2: "cada (escribe_bloques st pad) [0..<got] s1 = (Inr (), s2)" "cambia s {} {st..<st + got} s2"
      "concat (map (fs_img s2) [st..<st + got]) = pad" using tr(1) by blast
  have got: "0 < got" "got \<le> EXTENT_MAX_BLOCKS" using tr(2,3) by (auto simp: EXTENT_MAX_BLOCKS_def)
  have a2: "arbol_en crc s2 n t" using arbol_cambia [OF ar s2(2)] .
  have v2: "avanza s t s2 t" using cambia_avanza [OF s2(2) oc] .
  have sb2: "fs_sb s2 = fs_sb s" using cambia_sb [OF s2(2)] .
  have w: "ext_inicio p = st" "ext_n p = got" "ex_crc (extent_read p) = crc pad" "length p = ITEM_PAYLOAD"
  proof -
    have "st < 2 ^ 64" "got < 2 ^ 32" using tr(4) got unsigned_less [of "sb_block_count (fs_sb s)", where 'a = nat] by (auto simp: EXTENT_MAX_BLOCKS_def)
    then show "ext_inicio p = st" "ext_n p = got" "ex_crc (extent_read p) = crc pad" "length p = ITEM_PAYLOAD"
      by (simp_all add: p unsigned_of_nat take_bit_nat_eq_self)
  qed
  obtain es resto where e: "extents_de ino (a_items t) = es @ resto" "ext_en crc (fs_img s) ino 0 es D" "datos_en s t es"
      "length D = sum_list (map (\<lambda>(k, p). ext_n p) es) * BLOCK_SIZE" "resto = [] \<or> (\<exists>p. resto = [(k, p)])"
    using med f k by (auto simp: a_medias_def)
  have nuevo: "datos_en s2 t [(k, p)]"
    using s2(2) tr(4,5) oc sb2 w mo by (auto simp: datos_en_def ext_bloques_def cambia_def ocupado_def mapa_ok_def bloques_mapa_def)
  have menor: "\<forall>e\<in>set es. fst e < k"
  proof
    fix x assume "x \<in> set es"
    then obtain i where "fst x = Key ino KIND_EXTENT (of_nat i)" "i < length D"
      using ext_en_claves [OF e(2), of "fst x" "snd x"] by auto
    then show "fst x < k" using l64 of_nat_menor [of i "length D"] k by simp
  qed
  have cl0: "0 < cl" "length (take cl falta) = cl" "cl \<le> got * BLOCK_SIZE" using f got by (auto simp: cl BLOCK_SIZE_def)
  have uno: "ext_en crc (fs_img s2) ino (length D) [(k, p)] (take cl falta)"
    using w s2(3) lp got cl0 k f by (auto simp: ext_datos_def pad)
  have "a_medias crc s3 t3 ino (D @ take cl falta) (drop cl falta)" if ps: "paso_arbol crc s2 t (upsert k p (a_items t)) n3 t3 s3" for s3 n3 t3
  proof -
    have v3: "avanza s2 t s3 t3" using paso_avanza [OF ps] .
    have it: "a_items t3 = upsert k p (a_items t)" using ps by (simp add: paso_arbol_def)
    have x3: "extents_de ino (a_items t3) = es @ [(k, p)]" unfolding it by (rule tipo_upsert [OF e(1,5) menor]) (simp_all add: k)
    have d2: "datos_en s2 t (es @ [(k, p)])" using datos_avanza(1) [OF v2 e(3)] nuevo by (auto simp: datos_en_def)
    have e2: "ext_en crc (fs_img s2) ino 0 (es @ [(k, p)]) (D @ take cl falta)"
      using ext_en_append [OF _ e(4), of crc "fs_img s2" ino 0 "[(k, p)]" "take cl falta"] datos_avanza(2) [OF v2 e(3)] e(2) uno by simp
    have "ext_en crc (fs_img s3) ino 0 (es @ [(k, p)]) (D @ take cl falta)" "datos_en s3 t3 (es @ [(k, p)])"
      using datos_avanza [OF v3 d2] e2 by auto
    moreover have "drop cl falta \<noteq> [] \<Longrightarrow> length (D @ take cl falta) = sum_list (map (\<lambda>(k, p). ext_n p) (es @ [(k, p)])) * BLOCK_SIZE"
      using e(4) w(2) by (auto simp: cl add_mult_distrib)
    ultimately show ?thesis unfolding a_medias_def using x3
      by (intro exI [of _ "es @ [(k, p)]"] exI [of _ "[]"]) auto
  qed
  then show ?thesis using s2(1,2) a2 v2 by (auto simp: cambia_def)
qed

lemma escribe_datos_ok:
  assumes "arbol_en crc s n t" "mapa_ok s t" "a_medias crc s t ino D (drop off data)" "length D = base + off" "base + length data < 2 ^ 64"
    and "escribe_datos crc ino base data off s = (Inr u, s')"
  shows "\<exists>n' t'. arbol_en crc s' n' t' \<and> a_medias crc s' t' ino (D @ drop off data) [] \<and> avanza s t s' t' \<and> fs_next s' = fs_next s \<and>
    (\<forall>k. \<not> (k_inode k = ino \<and> k_kind k = KIND_EXTENT) \<longrightarrow> map_of (a_items t') k = map_of (a_items t) k)"
  using assms
proof (induction "length data - off" arbitrary: s n t D off rule: less_induct)
  case less
  show ?case
  proof (cases "off < length data")
    case True
    define falta where "falta = drop off data"
    have f: "falta \<noteq> []" "length falta = length data - off" using True by (simp_all add: falta_def)
    define want where "want = min (div_ceil (length data - off) BLOCK_SIZE) EXTENT_MAX_BLOCKS"
    define k where "k = Key ino KIND_EXTENT (of_nat (length D))"
    obtain r s1 where al: "alloc_extent want s = (r, s1)" by fastforce
    have ed: "escribe_datos crc ino base data off s = bindE (alloc_extent want) (\<lambda>(st, got).
        let cl = min (length falta) (got * BLOCK_SIZE); pad = take cl falta @ replicate (got * BLOCK_SIZE - cl) (CHR 0x00) in
        bindE (cada (escribe_bloques st pad) [0..<got]) (\<lambda>_.
        bindE (tree_insert crc k (relleno_item (extent_bytes \<lparr>ex_start = of_nat st, ex_blocks = of_nat got, ex_crc = crc pad\<rparr>))) (\<lambda>_.
        escribe_datos crc ino base data (off + cl)))) s"
      using True less(5) by (subst escribe_datos.simps) (simp add: Let_def want_def falta_def k_def)
    obtain st got where r: "r = Inr (st, got)" using less(7) ed al by (cases r) auto
    define cl where "cl = min (length falta) (got * BLOCK_SIZE)"
    define pad where "pad = take cl falta @ replicate (got * BLOCK_SIZE - cl) (CHR 0x00)"
    define p where "p = relleno_item (extent_bytes \<lparr>ex_start = of_nat st, ex_blocks = of_nat got, ex_crc = crc pad\<rparr>)"
    have l64: "length D + length falta < 2 ^ 64" using less(5,6) f True by simp
    have al': "alloc_extent (min (div_ceil (length falta) BLOCK_SIZE) EXTENT_MAX_BLOCKS) s = (Inr (st, got), s1)" using al r f by (simp add: want_def)
    obtain s2 where s2: "cada (escribe_bloques st pad) [0..<got] s1 = (Inr (), s2)" "arbol_en crc s2 n t" "avanza s t s2 t" "fs_next s2 = fs_next s"
        "\<And>s3 n3 t3. paso_arbol crc s2 t (upsert k p (a_items t)) n3 t3 s3 \<Longrightarrow> a_medias crc s3 t3 ino (D @ take cl falta) (drop cl falta)"
      using a_medias_paso [OF less(2,3) less(4) [folded falta_def] f(1) l64 al' cl_def pad_def p_def k_def] by blast
    obtain r3 s3 where ins: "tree_insert crc k p s2 = (r3, s3)" by fastforce
    have fin: "bindE (tree_insert crc k p) (\<lambda>_. escribe_datos crc ino base data (off + cl)) s2 = (Inr u, s')"
      using less(7) ed al r s2(1) by (simp add: Let_def cl_def [symmetric] pad_def [symmetric] p_def [symmetric])
    then have r3: "r3 = Inr ()" "escribe_datos crc ino base data (off + cl) s3 = (Inr u, s')" using ins by (cases r3; simp)+
    have lp: "length p = ITEM_PAYLOAD" by (simp add: p_def)
    obtain n3 t3 where ps: "paso_arbol crc s2 t (upsert k p (a_items t)) n3 t3 s3"
      using tree_insert_paso [OF s2(2) lp ins] r3(1) by auto
    have a3: "arbol_en crc s3 n3 t3" "a_items t3 = upsert k p (a_items t)" using ps by (auto simp: paso_arbol_def)
    have mo3: "mapa_ok s3 t3" using mapa_avanza [OF avanza_trans [OF s2(3) paso_avanza [OF ps]] less(3)] .
    have or: "claves_orden (a_items t)" using less(2) by (simp add: arbol_en_def)
    have cl0: "0 < cl" using f alloc_extent_pos [OF al'] True by (auto simp: cl_def BLOCK_SIZE_def)
    have clf: "cl \<le> length falta" by (simp add: cl_def)
    have dr: "drop cl falta = drop (off + cl) data" by (simp add: falta_def add.commute)
    have "\<exists>n' t'. arbol_en crc s' n' t' \<and> a_medias crc s' t' ino ((D @ take cl falta) @ drop (off + cl) data) [] \<and> avanza s3 t3 s' t' \<and> fs_next s' = fs_next s3 \<and>
      (\<forall>k. \<not> (k_inode k = ino \<and> k_kind k = KIND_EXTENT) \<longrightarrow> map_of (a_items t') k = map_of (a_items t3) k)"
      by (rule less(1) [OF _ a3(1) mo3]) (use s2(5) [OF ps] dr cl0 f True less(5,6) r3(2) clf in \<open>auto simp del: drop_drop\<close>)
    then obtain n' t' where t': "arbol_en crc s' n' t'" "a_medias crc s' t' ino ((D @ take cl falta) @ drop (off + cl) data) []" "avanza s3 t3 s' t'" "fs_next s' = fs_next s3"
        "\<forall>k. \<not> (k_inode k = ino \<and> k_kind k = KIND_EXTENT) \<longrightarrow> map_of (a_items t') k = map_of (a_items t3) k" by blast
    have "(D @ take cl falta) @ drop (off + cl) data = D @ drop off data" unfolding dr [symmetric] by (simp add: falta_def del: drop_drop)
    moreover have "avanza s t s' t'" using avanza_trans [OF avanza_trans [OF s2(3) paso_avanza [OF ps]] t'(3)] .
    moreover have "\<forall>x. \<not> (k_inode x = ino \<and> k_kind x = KIND_EXTENT) \<longrightarrow> map_of (a_items t') x = map_of (a_items t) x"
      using t'(5) a3(2) map_of_upsert [OF or, of k p] by (auto simp: k_def)
    ultimately show ?thesis using t' s2(4) paso_next [OF ps] by auto
  next
    case False
    then show ?thesis using less by (auto simp: escribe_datos.simps intro!: exI [of _ n] exI [of _ t])
  qed
qed

section \<open>Directories\<close>

abbreviation nombre :: "bytes \<Rightarrow> bytes" where "nombre p \<equiv> name_bytes (dirent_read p)"
abbreviation dirents_de :: "u64 \<Rightarrow> (key \<times> bytes) list \<Rightarrow> (key \<times> bytes) list" where "dirents_de dir \<equiv> de_tipo dir KIND_DIRENT"

lemma dirent_read_bytes:
  assumes "length name \<le> NAME_MAX"
  shows "nombre (relleno_item (dirent_bytes (nombre_dirent name child))) = name"
    "de_child (dirent_read (relleno_item (dirent_bytes (nombre_dirent name child)))) = child"
    "length (relleno_item (dirent_bytes (nombre_dirent name child))) = ITEM_PAYLOAD"
proof -
  define p where "p = relleno_item (dirent_bytes (nombre_dirent name child))"
  have l: "length name < 256" "length name \<le> 255" using assms by (simp_all add: NAME_MAX_def)
  have "rd64 p 0 = child" "of_char (p ! 8) = length name" "take NAME_MAX (drop 16 p) = name @ replicate (NAME_MAX - length name) (CHR 0x00)"
    using l by (simp_all add: p_def relleno_item_def dirent_bytes_def nombre_dirent_def rd64_def le_dec_word nth_append unsigned_of_nat
        take_bit_nat_eq_self fs_consts)
  then have d: "dirent_read p = \<lparr>de_child = child, de_name_len = of_nat (length name), de_name = name @ replicate (NAME_MAX - length name) (CHR 0x00)\<rparr>"
    by (simp add: dirent_read_def)
  show "nombre (relleno_item (dirent_bytes (nombre_dirent name child))) = name" unfolding p_def [symmetric]
    using l by (simp add: d name_bytes_def unsigned_of_nat take_bit_nat_eq_self NAME_MAX_def min_def)
  show "de_child (dirent_read (relleno_item (dirent_bytes (nombre_dirent name child)))) = child" unfolding p_def [symmetric] by (simp add: d)
  show "length (relleno_item (dirent_bytes (nombre_dirent name child))) = ITEM_PAYLOAD"
    using l by (simp add: relleno_item_def dirent_bytes_def nombre_dirent_def fs_consts)
qed

lemma inode_read_bytes [simp]: "inode_read (relleno_item (inode_bytes i)) = i" "length (relleno_item (inode_bytes i)) = ITEM_PAYLOAD"
proof -
  define p where "p = relleno_item (inode_bytes i)"
  have "of_nat (of_char (p ! 0)) = ii_type i" "rd64 p 8 = ii_size i" "rd64 p 16 = ii_mtime i"
    using of_nat_of_char_word [of "ii_type i"] by (simp_all add: p_def relleno_item_def inode_bytes_def rd64_def le_dec_word)
  then show "inode_read (relleno_item (inode_bytes i)) = i" unfolding p_def [symmetric] by (simp add: inode_read_def)
qed (simp add: relleno_item_def inode_bytes_def fs_consts)

lemma lookup_ok:
  assumes "arbol_en crc s n t" "length name \<le> NAME_MAX"
  shows "\<exists>r s'. lookup crc dir name s = (r, s') \<and> lee s s' \<and>
    (r = Inl FsNotFound \<and> (\<forall>(k, p)\<in>set (dirents_de dir (a_items t)). nombre p \<noteq> name) \<or>
     (\<exists>(k, p)\<in>set (dirents_de dir (a_items t)). nombre p = name \<and> r = Inr (de_child (dirent_read p))))"
proof -
  define h where "h = name_hash name"
  define pr where "pr = (\<lambda>p. nombre p = name)"
  have ra: "en_rango (Key dir KIND_DIRENT h) (Key dir KIND_DIRENT (- 1)) k \<longleftrightarrow> k_inode k = dir \<and> k_kind k = KIND_DIRENT \<and> h \<le> k_offset k" for k
    by (auto simp: en_rango_def less_eq_key_def)
  have rb: "en_rango (Key dir KIND_DIRENT 0) (Key dir KIND_DIRENT (h - 1)) k \<longleftrightarrow> k_inode k = dir \<and> k_kind k = KIND_DIRENT \<and> k_offset k < h" if "h \<noteq> 0" for k
  proof -
    have "unat h \<noteq> 0" using that by (simp add: unat_eq_0)
    then have "k_offset k \<le> h - 1 \<longleftrightarrow> k_offset k < h" using unat_minus_one [OF that] unfolding word_le_nat_alt word_less_nat_alt by linarith
    then show ?thesis by (auto simp: en_rango_def less_eq_key_def)
  qed
  define a where "a = List.find (\<lambda>(k, p). en_rango (Key dir KIND_DIRENT h) (Key dir KIND_DIRENT (- 1)) k \<and> pr p) (a_items t)"
  define b where "b = List.find (\<lambda>(k, p). en_rango (Key dir KIND_DIRENT 0) (Key dir KIND_DIRENT (h - 1)) k \<and> pr p) (a_items t)"
  obtain s1 where s1: "find_first crc (Key dir KIND_DIRENT h) (Key dir KIND_DIRENT (- 1)) pr s = (Inr a, s1)" "lee s s1"
    using find_first_ok [OF assms(1), of "Key dir KIND_DIRENT h" "Key dir KIND_DIRENT (- 1)" pr] unfolding a_def [symmetric] by blast
  obtain s2 where s2: "find_first crc (Key dir KIND_DIRENT 0) (Key dir KIND_DIRENT (h - 1)) pr s1 = (Inr b, s2)" "lee s1 s2"
    using find_first_ok [OF arbol_lee [OF assms(1) s1(2)], of "Key dir KIND_DIRENT 0" "Key dir KIND_DIRENT (h - 1)" pr] unfolding b_def [symmetric] by blast
  note l2 = lee_trans [OF s1(2) s2(2)]
  have hit: "(k, p) \<in> set (dirents_de dir (a_items t)) \<and> nombre p = name" if "a = Some (k, p) \<or> h \<noteq> 0 \<and> b = Some (k, p)" for k p
    using that rb by (auto simp: a_def b_def find_Some_iff de_tipo_def pr_def ra dest: nth_mem)
  have no: "\<forall>(k, p)\<in>set (dirents_de dir (a_items t)). nombre p \<noteq> name" if "a = None" "h = 0 \<or> b = None"
  proof clarify
    fix k p assume kp: "(k, p) \<in> set (dirents_de dir (a_items t))" "name = nombre p"
    then have k: "(k, p) \<in> set (a_items t)" "k_inode k = dir" "k_kind k = KIND_DIRENT" "pr p" by (auto simp: de_tipo_def pr_def)
    then have "k_offset k < h" using that(1) unfolding a_def find_None_iff ra by (auto simp: not_le)
    then have "h \<noteq> 0" "b = None" using that(2) by (auto simp: word_less_nat_alt)
    then show False using k \<open>k_offset k < h\<close> rb [of k] unfolding b_def find_None_iff by auto
  qed
  have lk: "lookup crc dir name s = (case a of Some (k, p) \<Rightarrow> (Inr (de_child (dirent_read p)), s1)
     | None \<Rightarrow> if h = 0 then (Inl FsNotFound, s1) else case b of Some (k, p) \<Rightarrow> (Inr (de_child (dirent_read p)), s2) | None \<Rightarrow> (Inl FsNotFound, s2))"
    using assms(2) s1(1) s2(1)
    by (cases a; cases b) (auto simp: lookup_def dirent_buscar_def Let_def h_def [symmetric] pr_def [symmetric] bindE_def ret_def lanza_def)
  show ?thesis
  proof (cases a)
    case (Some x)
    then show ?thesis using lk s1(2) hit [of "fst x" "snd x"] by (intro exI conjI) (auto simp: split_beta)
  next
    case None
    show ?thesis
    proof (cases "h = 0")
      case True
      then show ?thesis using lk None s1(2) no by auto
    next
      case False
      show ?thesis
      proof (cases b)
        case (Some x)
        then show ?thesis using lk None False l2 hit [of "fst x" "snd x"] by (intro exI conjI) (auto simp: split_beta)
      qed (use lk None False l2 no in auto)
    qed
  qed
qed

lemma scan_clave:
  assumes "arbol_en crc s n t"
  shows "\<exists>out s'. scan_range crc k k s = (Inr out, s') \<and> lee s s' \<and> (out = [] \<longleftrightarrow> map_of (a_items t) k = None)"
proof -
  obtain s' where "scan_range crc k k s = (Inr (rango_items k k (a_items t)), s')" "lee s s'" using scan_range_ok [OF assms] by blast
  moreover have "rango_items k k (a_items t) = [] \<longleftrightarrow> map_of (a_items t) k = None"
    by (force simp: filter_empty_conv en_rango_def map_of_eq_None_iff)
  ultimately show ?thesis by (intro exI [of _ "rango_items k k (a_items t)"] exI [of _ s']) simp
qed

lemma sondeo_ok:
  assumes "arbol_en crc s m t" "length p = ITEM_PAYLOAD" "sondeo crc dir p n off s = (Inr u, s')"
  shows "\<exists>x n' t'. map_of (a_items t) (Key dir KIND_DIRENT x) = None \<and> paso_arbol crc s t (upsert (Key dir KIND_DIRENT x) p (a_items t)) n' t' s'"
  using assms
proof (induction "2 ^ 64 - n" arbitrary: n off s rule: less_induct)
  case less
  have n: "n < 2 ^ 64" using less(4) by (cases "n < 2 ^ 64") (simp_all add: sondeo.simps)
  obtain out s1 where s1: "scan_range crc (Key dir KIND_DIRENT off) (Key dir KIND_DIRENT off) s = (Inr out, s1)" "lee s s1"
      "out = [] \<longleftrightarrow> map_of (a_items t) (Key dir KIND_DIRENT off) = None" using scan_clave [OF less(2)] by blast
  have a1: "arbol_en crc s1 m t" using arbol_lee [OF less(2) s1(2)] .
  note p1 = paso_lee [OF less(2) s1(2)]
  have so: "sondeo crc dir p n off s = (if out = [] then tree_insert crc (Key dir KIND_DIRENT off) p s1 else sondeo crc dir p (n + 1) (off + 1) s1)"
    using s1(1) n by (subst sondeo.simps) simp
  show ?case
  proof (cases "out = []")
    case True
    then have "tree_insert crc (Key dir KIND_DIRENT off) p s1 = (Inr u, s')" using less(4) so by simp
    from tree_insert_paso [OF a1 less(3) this] obtain n' t' where "paso_arbol crc s1 t (upsert (Key dir KIND_DIRENT off) p (a_items t)) n' t' s'" by auto
    then show ?thesis using paso_trans [OF p1] True s1(3) by blast
  next
    case False
    have "\<exists>x n' t'. map_of (a_items t) (Key dir KIND_DIRENT x) = None \<and> paso_arbol crc s1 t (upsert (Key dir KIND_DIRENT x) p (a_items t)) n' t' s'"
      by (rule less(1) [OF _ a1 less(3)]) (use n False so less(4) in auto)
    then show ?thesis using paso_trans [OF p1] by blast
  qed
qed

lemma pon_inode_ok:
  assumes "arbol_en crc s n t" "pon_inode crc ino i s = (Inr u, s')"
  shows "\<exists>n' t'. paso_arbol crc s t (upsert (key_inode ino) (relleno_item (inode_bytes i)) (a_items t)) n' t' s'"
  using tree_insert_paso [OF assms(1) _ assms(2) [unfolded pon_inode_def]] by auto

lemma insert_dirent_ok:
  assumes "arbol_en crc s n t" "insert_dirent crc dir name child s = (Inr u, s')"
  shows "length name \<le> NAME_MAX \<and> (\<exists>x n' t'. map_of (a_items t) (Key dir KIND_DIRENT x) = None \<and>
    paso_arbol crc s t (upsert (Key dir KIND_DIRENT x) (relleno_item (dirent_bytes (nombre_dirent name child))) (a_items t)) n' t' s')"
proof -
  have l: "length name \<le> NAME_MAX" "sondeo crc dir (relleno_item (dirent_bytes (nombre_dirent name child))) 0 (name_hash name) s = (Inr u, s')"
    using assms(2) by (auto simp: insert_dirent_def lanza_def split: if_splits)
  then show ?thesis using sondeo_ok [OF assms(1) dirent_read_bytes(3) [OF l(1)] l(2)] by blast
qed

lemma check_dir_ok:
  assumes "arbol_en crc s n t" "check_dir crc dir s = (Inr u, s')"
  shows "lee s s'" "map_of (a_items t) (key_inode dir) \<noteq> None"
  using stat_inode_ok [OF assms(1), of dir] assms(2) by (auto simp: check_dir_def bindE_def lanza_def ret_def split: option.splits if_splits)

lemma en_tipo: "claves_orden v \<Longrightarrow> (k, p) \<in> set (de_tipo ino kind v) \<longleftrightarrow> map_of v k = Some p \<and> k_inode k = ino \<and> k_kind k = kind"
  using map_of_eq_Some_iff [OF claves_distintas, of v k p] by (auto simp: de_tipo_def)

lemma tipo_igual:
  assumes "claves_orden v" "claves_orden v'" "\<And>k. k_inode k = ino \<Longrightarrow> k_kind k = kind \<Longrightarrow> map_of v' k = map_of v k"
  shows "de_tipo ino kind v' = de_tipo ino kind v"
proof -
  have o: "sorted_wrt (<) (map fst (de_tipo ino kind w))" if "claves_orden w" for w
    using that unfolding de_tipo_def claves_orden_def by (induction w) auto
  have s: "set (de_tipo ino kind v') = set (de_tipo ino kind v)"
    using en_tipo [OF assms(1)] en_tipo [OF assms(2)] assms(3) by auto
  have d: "distinct (map fst (de_tipo ino kind v))" using o [OF assms(1)] by (simp add: strict_sorted_iff)
  show ?thesis
    by (rule map_sorted_distinct_set_unique [of fst])
      (use o [OF assms(1)] o [OF assms(2)] s d in \<open>auto simp: strict_sorted_iff distinct_map\<close>)
qed

text \<open>The name \<open>name\<close> of the directory \<open>dir\<close> leads to \<open>ino\<close>.\<close>

definition entrada_en :: "arbol \<Rightarrow> u64 \<Rightarrow> bytes \<Rightarrow> u64 \<Rightarrow> bool" where
  "entrada_en t dir name ino = (length name \<le> NAME_MAX \<and> (\<exists>(k, p)\<in>set (dirents_de dir (a_items t)). nombre p = name) \<and>
    (\<forall>(k, p)\<in>set (dirents_de dir (a_items t)). nombre p = name \<longrightarrow> de_child (dirent_read p) = ino))"

lemma lookup_entrada:
  assumes "arbol_en crc s n t" "entrada_en t dir name ino"
  shows "fst (lookup crc dir name s) = Inr ino"
  using lookup_ok [OF assms(1), of name dir] assms(2) by (fastforce simp: entrada_en_def)

definition fresco :: "sosofs \<Rightarrow> arbol \<Rightarrow> bool" where
  "fresco s t = (\<forall>k\<in>dom (map_of (a_items t)). k_inode k < fs_next s)"

lemma kinds [simp]: "KIND_INODE \<noteq> KIND_DIRENT" "KIND_INODE \<noteq> KIND_EXTENT" "KIND_DIRENT \<noteq> KIND_EXTENT"
  "KIND_DIRENT \<noteq> KIND_INODE" "KIND_EXTENT \<noteq> KIND_INODE" "KIND_EXTENT \<noteq> KIND_DIRENT" "FT_FILE \<noteq> FT_DIR" "FT_DIR \<noteq> FT_FILE"
  by (simp_all add: KIND_INODE_def KIND_DIRENT_def KIND_EXTENT_def FT_FILE_def FT_DIR_def)

lemma fichero_avanza:
  assumes "avanza s t s' t'" "claves_orden (a_items t)" "claves_orden (a_items t')"
    and "\<And>k. k_inode k = ino \<Longrightarrow> k_kind k \<noteq> KIND_DIRENT \<Longrightarrow> map_of (a_items t') k = map_of (a_items t) k" "fichero_en crc s t ino d"
  shows "fichero_en crc s' t' ino d"
proof -
  have "extents_de ino (a_items t') = extents_de ino (a_items t)" by (rule tipo_igual [OF assms(2,3)]) (use assms(4) in simp)
  moreover have "map_of (a_items t') (key_inode ino) = map_of (a_items t) (key_inode ino)" by (rule assms(4)) (simp_all add: key_inode_def)
  ultimately show ?thesis using assms(5) datos_avanza [OF assms(1)] by (auto simp: fichero_en_def)
qed

lemma read_file_ok:
  assumes "arbol_en crc s n t" "fichero_en crc s t ino d"
  shows "fst (read_file crc ino s) = Inr d"
proof -
  obtain p where p: "map_of (a_items t) (key_inode ino) = Some p" "unat (ii_size (inode_read p)) = length d" using assms(2) by (auto simp: fichero_en_def)
  obtain s1 where s1: "stat_inode crc ino s = (Inr (inode_read p), s1)" "lee s s1" using stat_inode_ok [OF assms(1), of ino] p(1) by auto
  have o: "claves_orden (a_items t)" using assms(1) by (simp add: arbol_en_def)
  have f1: "fichero_en crc s1 t ino d" by (rule fichero_avanza [OF lee_avanza [OF s1(2)] o o _ assms(2)]) simp
  show ?thesis using read_file_range_ok [OF arbol_lee [OF assms(1) s1(2)] f1, of 0 "length d" "replicate (length d) (CHR 0x00)"] s1(1) p(2)
    by (auto simp: read_file_def Let_def)
qed

section \<open>Creating a file\<close>

lemma arbol_next:
  assumes "arbol_en crc s n t"
  shows "arbol_en crc (s\<lparr>fs_next := x\<rparr>) n t" "avanza s t (s\<lparr>fs_next := x\<rparr>) t"
  using assms by (auto simp: arbol_en_def listo_def ocupado_def avanza_def respeta_def fs_img_def sin_fallos_def fs_count_def)

text \<open>The part of \<open>create_file_inner\<close> that writes: the item of the new file, its data and its name.\<close>

lemma fichero_nuevo_ok:
  assumes ar: "arbol_en crc s n t" and mo: "mapa_ok s t" and l64: "length data < 2 ^ 64" and nuevo: "\<And>k. k_inode k = ino \<Longrightarrow> map_of (a_items t) k = None"
    and ej: "bindE (pon_inode crc ino \<lparr>ii_type = FT_FILE, ii_size = of_nat (length data), ii_mtime = mtime\<rparr>) (\<lambda>_.
      bindE (escribe_datos crc ino 0 data 0) (\<lambda>_. bindE (insert_dirent crc dir name ino) (\<lambda>_. ret ino))) s = (Inr ino', s')"
  shows "\<exists>n' t' x. arbol_en crc s' n' t' \<and> avanza s t s' t' \<and> fichero_en crc s' t' ino data \<and> ino' = ino \<and> fs_next s' = fs_next s \<and>
    length name \<le> NAME_MAX \<and> (dir \<noteq> ino \<longrightarrow> map_of (a_items t) (Key dir KIND_DIRENT x) = None) \<and>
    map_of (a_items t') (Key dir KIND_DIRENT x) = Some (relleno_item (dirent_bytes (nombre_dirent name ino))) \<and>
    (\<forall>k. k_inode k \<noteq> ino \<longrightarrow> k \<noteq> Key dir KIND_DIRENT x \<longrightarrow> map_of (a_items t') k = map_of (a_items t) k)"
proof -
  let ?i = "\<lparr>ii_type = FT_FILE, ii_size = of_nat (length data), ii_mtime = mtime\<rparr>" and ?d = "relleno_item (dirent_bytes (nombre_dirent name ino))"
  obtain s1 s2 where st: "pon_inode crc ino ?i s = (Inr (), s1)" "escribe_datos crc ino 0 data 0 s1 = (Inr (), s2)"
      "insert_dirent crc dir name ino s2 = (Inr (), s')" "ino' = ino"
    using ej by (auto simp: bindE_Inr ret_def)
  have o: "claves_orden (a_items t)" using ar by (simp add: arbol_en_def)
  obtain n1 t1 where p1: "paso_arbol crc s t (upsert (key_inode ino) (relleno_item (inode_bytes ?i)) (a_items t)) n1 t1 s1"
    using pon_inode_ok [OF ar st(1)] by blast
  have a1: "arbol_en crc s1 n1 t1" and i1: "a_items t1 = upsert (key_inode ino) (relleno_item (inode_bytes ?i)) (a_items t)" using p1 by (auto simp: paso_arbol_def)
  note v1 = paso_avanza [OF p1]
  have o1: "claves_orden (a_items t1)" using a1 by (simp add: arbol_en_def)
  have "extents_de ino (a_items t1) = extents_de ino (a_items t)" unfolding i1 by (rule tipo_otro [OF o]) (simp add: key_inode_def)
  moreover have "extents_de ino (a_items t) = []" using en_tipo [OF o, of _ _ ino KIND_EXTENT] nuevo by (auto intro!: equals0I simp: set_empty [symmetric] simp del: set_empty)
  ultimately have "a_medias crc s1 t1 ino [] (drop 0 data)" by (auto simp: a_medias_def datos_en_def)
  then obtain n2 t2 where t2: "arbol_en crc s2 n2 t2" "a_medias crc s2 t2 ino data []" "avanza s1 t1 s2 t2" "fs_next s2 = fs_next s1"
      "\<And>k. \<not> (k_inode k = ino \<and> k_kind k = KIND_EXTENT) \<Longrightarrow> map_of (a_items t2) k = map_of (a_items t1) k"
    using escribe_datos_ok [OF a1 mapa_avanza [OF v1 mo], of ino "[]" 0 data 0 "()" s2] l64 st(2) by auto
  obtain x n3 t3 where x: "length name \<le> NAME_MAX" "map_of (a_items t2) (Key dir KIND_DIRENT x) = None"
      "paso_arbol crc s2 t2 (upsert (Key dir KIND_DIRENT x) ?d (a_items t2)) n3 t3 s'"
    using insert_dirent_ok [OF t2(1) st(3)] by blast
  have o2: "claves_orden (a_items t2)" using t2(1) by (simp add: arbol_en_def)
  have a3: "arbol_en crc s' n3 t3" and i3: "a_items t3 = upsert (Key dir KIND_DIRENT x) ?d (a_items t2)" using x(3) by (auto simp: paso_arbol_def)
  note v3 = paso_avanza [OF x(3)]
  have m1: "map_of (a_items t1) = (map_of (a_items t))(key_inode ino \<mapsto> relleno_item (inode_bytes ?i))" unfolding i1 by (rule map_of_upsert [OF o])
  have m3: "map_of (a_items t3) = (map_of (a_items t2))(Key dir KIND_DIRENT x \<mapsto> ?d)" unfolding i3 by (rule map_of_upsert [OF o2])
  have "fichero_en crc s' t3 ino data"
  proof -
    have "extents_de ino (a_items t3) = extents_de ino (a_items t2)" unfolding i3 by (rule tipo_otro [OF o2]) simp
    moreover have "map_of (a_items t3) (key_inode ino) = Some (relleno_item (inode_bytes ?i))"
      using m3 t2(5) [of "key_inode ino"] m1 by (simp add: key_inode_def)
    ultimately show ?thesis using t2(2) datos_avanza [OF v3] l64
      by (auto simp: fichero_en_def a_medias_def unsigned_of_nat take_bit_nat_eq_self)
  qed
  moreover have "avanza s t s' t3" using avanza_trans [OF avanza_trans [OF v1 t2(3)] v3] .
  moreover have "\<forall>k. k_inode k \<noteq> ino \<longrightarrow> k \<noteq> Key dir KIND_DIRENT x \<longrightarrow> map_of (a_items t3) k = map_of (a_items t) k"
    using m3 t2(5) m1 by (auto simp: key_inode_def)
  moreover have "dir \<noteq> ino \<longrightarrow> map_of (a_items t) (Key dir KIND_DIRENT x) = None"
    using x(2) t2(5) [of "Key dir KIND_DIRENT x"] m1 by (auto simp: key_inode_def)
  moreover have "map_of (a_items t3) (Key dir KIND_DIRENT x) = Some ?d" using m3 by simp
  moreover have "fs_next s' = fs_next s" using paso_next [OF p1] t2(4) paso_next [OF x(3)] by simp
  ultimately show ?thesis using a3 st(4) x(1) by blast
qed

text \<open>What a call that creates \<open>ino\<close> does to everything else.\<close>

definition creado :: "(bytes \<Rightarrow> u32) \<Rightarrow> u64 \<Rightarrow> bytes \<Rightarrow> bytes \<Rightarrow> u64 \<Rightarrow> sosofs \<Rightarrow> arbol \<Rightarrow> sosofs \<Rightarrow> arbol \<Rightarrow> bool" where
  "creado crc dir name data ino s t s' t' = (entrada_en t' dir name ino \<and> fichero_en crc s' t' ino data \<and> fresco s' t' \<and>
    (\<forall>dir' name' i. entrada_en t dir' name' i \<longrightarrow> entrada_en t' dir' name' i) \<and>
    (\<forall>i d. fichero_en crc s t i d \<longrightarrow> fichero_en crc s' t' i d))"

lemma create_inner_ok:
  assumes ar: "arbol_en crc s n t" and mo: "mapa_ok s t" and fr: "fresco s t" and l64: "length data < 2 ^ 64"
    and sin: "\<forall>(k, p)\<in>set (dirents_de dir (a_items t)). nombre p \<noteq> name"
    and ej: "create_file_inner crc dir name data mtime s = (Inr ino, s')"
  shows "\<exists>n' t'. arbol_en crc s' n' t' \<and> avanza s t s' t' \<and> creado crc dir name data ino s t s' t'"
proof -
  obtain s1 where s1: "check_dir crc dir s = (Inr (), s1)" using ej by (auto simp: create_file_inner_def bindE_Inr)
  note c1 = check_dir_ok [OF ar s1]
  have a1: "arbol_en crc s1 n t" using arbol_lee [OF ar c1(1)] .
  obtain rl s2 where s2: "lookup crc dir name s1 = (Inl rl, s2)" "lee s1 s2" "rl \<noteq> FsPanico"
  proof (cases "length name \<le> NAME_MAX")
    case True
    then show ?thesis using that lookup_ok [OF a1 True, of dir] sin by (auto simp: split_beta)
  qed (use that in \<open>auto simp: lookup_def lanza_def\<close>)
  have l2: "lee s s2" using lee_trans [OF c1(1) s2(2)] .
  have a2: "arbol_en crc s2 n t" using arbol_lee [OF ar l2] .
  have nx: "fs_next s2 = fs_next s" using l2 by (simp add: lee_def)
  define s3 where "s3 = s2\<lparr>fs_next := fs_next s + 1\<rparr>"
  note a3 = arbol_next [OF a2, of "fs_next s + 1", folded s3_def]
  have v3: "avanza s t s3 t" using avanza_trans [OF lee_avanza [OF l2] a3(2)] .
  have rest: "fs_next s \<noteq> - 1" "bindE (pon_inode crc (fs_next s) \<lparr>ii_type = FT_FILE, ii_size = of_nat (length data), ii_mtime = mtime\<rparr>) (\<lambda>_.
      bindE (escribe_datos crc (fs_next s) 0 data 0) (\<lambda>_. bindE (insert_dirent crc dir name (fs_next s)) (\<lambda>_. ret (fs_next s)))) s3 = (Inr ino, s')"
    using ej s1 s2(1,3) nx by (auto simp: create_file_inner_def intenta_def toma_inode_def ret_def s3_def bindE_def split: if_splits)
  have nuevo: "map_of (a_items t) k = None" if "k_inode k = fs_next s" for k
    using fr that by (cases "map_of (a_items t) k") (auto simp: fresco_def dest!: bspec [of _ _ k])
  obtain n' t' x where r: "arbol_en crc s' n' t'" "avanza s3 t s' t'" "fichero_en crc s' t' (fs_next s) data" "ino = fs_next s" "fs_next s' = fs_next s3" "length name \<le> NAME_MAX"
      "dir \<noteq> fs_next s \<longrightarrow> map_of (a_items t) (Key dir KIND_DIRENT x) = None"
      "map_of (a_items t') (Key dir KIND_DIRENT x) = Some (relleno_item (dirent_bytes (nombre_dirent name (fs_next s))))"
      "\<And>k. k_inode k \<noteq> fs_next s \<Longrightarrow> k \<noteq> Key dir KIND_DIRENT x \<Longrightarrow> map_of (a_items t') k = map_of (a_items t) k"
    using fichero_nuevo_ok [OF a3(1) mapa_avanza [OF v3 mo] l64 nuevo rest(2)] by auto
  have o: "claves_orden (a_items t)" "claves_orden (a_items t')" using ar r(1) by (auto simp: arbol_en_def)
  have dn: "dir < fs_next s" using c1(2) fr by (auto simp: fresco_def key_inode_def dest!: bspec)
  then have ddn: "dir \<noteq> fs_next s" by simp
  note dr = dirent_read_bytes [OF r(6), of "fs_next s"]
  have v: "avanza s t s' t'" using avanza_trans [OF v3 r(2)] .
  have casos: "k = Key dir KIND_DIRENT x \<and> p = relleno_item (dirent_bytes (nombre_dirent name (fs_next s))) \<or> k_inode k = fs_next s \<or> map_of (a_items t) k = Some p"
    if "map_of (a_items t') k = Some p" for k p using that r(8) r(9) [of k] by (cases "k = Key dir KIND_DIRENT x"; cases "k_inode k = fs_next s") auto
  have suc: "fs_next s < fs_next s'" using r(5) rest(1) unat_mas_uno [of "fs_next s"] by (simp add: s3_def word_less_nat_alt)
  have mayor: "k_inode k < fs_next s'" if "map_of (a_items t') k = Some p" for k p
    using casos [OF that] fr dn suc by (auto simp: fresco_def dest!: bspec [of _ _ k])
  have ent: "entrada_en t' dir name ino"
  proof -
    have "(Key dir KIND_DIRENT x, relleno_item (dirent_bytes (nombre_dirent name (fs_next s)))) \<in> set (dirents_de dir (a_items t'))"
      using r(8) by (simp add: en_tipo [OF o(2)])
    moreover have "de_child (dirent_read p) = ino" if "(k, p) \<in> set (dirents_de dir (a_items t'))" "nombre p = name" for k p
      using that casos [of k p] ddn dr(2) r(4) sin by (auto simp: en_tipo [OF o(2)] en_tipo [OF o(1)])
    ultimately show ?thesis using r(6) dr(1) unfolding entrada_en_def by blast
  qed
  have "\<forall>dir' name' i. entrada_en t dir' name' i \<longrightarrow> entrada_en t' dir' name' i"
  proof (intro allI impI)
    fix dir' name' i assume e: "entrada_en t dir' name' i"
    then obtain k p where kp: "map_of (a_items t) k = Some p" "k_inode k = dir'" "k_kind k = KIND_DIRENT" "nombre p = name'"
      by (auto simp: entrada_en_def en_tipo [OF o(1)])
    have nk: "k_inode k \<noteq> fs_next s" "k \<noteq> Key dir KIND_DIRENT x" using kp nuevo [of k] r(7) ddn by auto
    then have "(k, p) \<in> set (dirents_de dir' (a_items t'))" using kp r(9) by (simp add: en_tipo [OF o(2)])
    moreover have "de_child (dirent_read q) = i" if q: "(k', q) \<in> set (dirents_de dir' (a_items t'))" "nombre q = name'" for k' q
    proof -
      have "\<not> (dir' = dir \<and> name' = name)" using kp sin by (auto simp: en_tipo [OF o(1)])
      then have "map_of (a_items t) k' = Some q" using casos [of k' q] q dr(1) nk kp(2) by (auto simp: en_tipo [OF o(2)])
      then show ?thesis using e q by (auto simp: entrada_en_def en_tipo [OF o(1)] en_tipo [OF o(2)])
    qed
    ultimately show "entrada_en t' dir' name' i" using e kp(4) unfolding entrada_en_def by blast
  qed
  moreover have "\<forall>i d. fichero_en crc s t i d \<longrightarrow> fichero_en crc s' t' i d"
  proof (intro allI impI)
    fix i d assume f: "fichero_en crc s t i d"
    then have "i \<noteq> fs_next s" using nuevo [of "key_inode i"] by (auto simp: fichero_en_def key_inode_def)
    then have "map_of (a_items t') k = map_of (a_items t) k" if "k_inode k = i" "k_kind k \<noteq> KIND_DIRENT" for k
      using that r(9) [of k] by (cases "k = Key dir KIND_DIRENT x") auto
    then show "fichero_en crc s' t' i d" using fichero_avanza [OF v o _ f] by blast
  qed
  moreover have "fresco s' t'" using mayor by (auto simp: fresco_def)
  ultimately show ?thesis using r(1,3,4) v ent unfolding creado_def by blast
qed

section \<open>What a commit keeps\<close>

lemma free_block_cambia:
  assumes "free_block b s = (Inr u, s')"
  shows "cambia s {b} {} s'"
proof -
  have l: "b div 8 < length (fs_bitmap s)" and s': "s' = s\<lparr>fs_bitmap := pon_bit False b (fs_bitmap s), fs_dirty := True\<rparr>"
    using assms by (auto simp: free_block_def split: if_splits)
  have "marco s s'" by (rule marco_memoria) (simp_all add: s')
  then show ?thesis using bit_pon_bit [OF l, of False] by (auto simp: cambia_def s' fs_img_def)
qed

lemma libera_cambia:
  "cada (\<lambda>i. free_block (st + i)) [0..<n] s = (Inr u, s') \<Longrightarrow> cambia s {st..<st + n} {} s'"
proof (induction n arbitrary: u s')
  case 0
  then show ?case using cambia_lee [of s s] by simp
next
  case (Suc n)
  then obtain s1 where s1: "cada (\<lambda>i. free_block (st + i)) [0..<n] s = (Inr (), s1)" "free_block (st + n) s1 = (Inr (), s')"
    by (auto simp: cada_append bindE_Inr)
  have "{st..<st + Suc n} = {st..<st + n} \<union> {st + n}" by auto
  then show ?case using cambia_trans(1) [OF Suc(1) [OF s1(1)] free_block_cambia [OF s1(2)]] by simp
qed

lemma alloc_run_cambia:
  assumes "alloc_run n s = (Inr st, s')"
  shows "cambia s {} {st..<st + n} s'"
proof -
  note k = alloc_run_ok [OF assms]
  have "\<forall>b\<in>{st..<st + n}. \<not> bit_en (fs_bitmap s) b"
  proof
    fix b assume "b \<in> {st..<st + n}"
    then have "b - st < n" "st + (b - st) = b" by auto
    then show "\<not> bit_en (fs_bitmap s) b" using k(3) [rule_format, of "b - st"] by simp
  qed
  then show ?thesis using cumpleD [OF segura_alloc_run assms] k marca_tramo_bits(2) [of n st s]
    by (auto simp: cambia_def libres_def fs_img_def)
qed

lemma escribe_bitmap_fuera:
  "cada (escribe_bitmap st) [0..<n] s = (Inr u, s') \<Longrightarrow> b \<notin> {st..<st + n} \<Longrightarrow> fs_img s' b = fs_img s b"
proof (induction n arbitrary: u s')
  case (Suc n)
  obtain s1 where s1: "cada (escribe_bitmap st) [0..<n] s = (Inr (), s1)" "escribe_bitmap st n s1 = (Inr (), s')"
    using Suc(2) by (auto simp: cada_append bindE_Inr)
  show ?case using Suc(1) [OF s1(1)] con_write_ok(4) [OF s1(2) [unfolded escribe_bitmap_def]] Suc(3) by auto
qed simp

lemma publica_next: "publica crc st n s = (r, s') \<Longrightarrow> fs_next s' = fs_next s"
  by (auto simp: publica_def Let_def bindE_def con_dev_def split: if_splits prod.splits sum.splits)

lemma commit_pasos:
  assumes "limpio s" "arbol_en crc s n t" "mapa_ok s t" "fs_dirty s" "commit crc s = (Inr u, s')"
  shows "\<exists>st m s5. m = length (fs_bitmap s) div BLOCK_SIZE \<and> cambia s (bloques_mapa s) {st..<st + m} s5 \<and> {st..<st + m} \<inter> bloques_mapa s = {} \<and> libres s st m \<and>
    fs_sb s' = sb_nuevo st m s5 \<and> fs_frozen s' = fs_bitmap s5 \<and> fs_bitmap s' = fs_bitmap s5 \<and> fs_root s' = fs_root s5 \<and> fs_count s' = fs_count s5 \<and>
    fs_next s' = fs_next s5 \<and> (\<forall>b\<ge>2. fs_img s' b = fs_img s5 b) \<and> coherente (fs_dev s') \<and> sin_fallos s'"
proof -
  define m where "m = length (fs_bitmap s) div BLOCK_SIZE"
  obtain s1 where s1: "comprobar_raiz_publicable crc s = (Inr (), s1)"
    using assms(4,5) by (auto simp: commit_def split: prod.splits sum.splits)
  have l1: "lee s s1" using cumpleD [OF lec.c_comprobar s1] .
  then have e1: "fs_sb s1 = fs_sb s" "fs_bitmap s1 = fs_bitmap s" by (simp_all add: lee_def)
  obtain s2 st s3 s4 s5 where c: "cada (\<lambda>i. free_block (unat (sb_bitmap_start (fs_sb s)) + i)) [0..<unat (sb_bitmap_blocks (fs_sb s))] s1 = (Inr (), s2)"
      "alloc_run m s2 = (Inr st, s3)" "cada (escribe_bitmap st) [0..<m] s3 = (Inr (), s4)" "con_dev cache_flush s4 = (Inr (), s5)"
      "publica crc st m s5 = (Inr (), s')"
    using assms(4,5) s1 e1 by (auto simp: commit_def Let_def bindE_Inr m_def)
  have c2: "cambia s (bloques_mapa s) {} s2"
    using cambia_trans(1) [OF cambia_lee [OF l1] libera_cambia [OF c(1)]] by (simp add: bloques_mapa_def)
  have c3: "cambia s2 {} {st..<st + m} s3" using alloc_run_cambia [OF c(2)] .
  note e = escribe_bitmap_ok [OF c(3)] escribe_bitmap_fuera [OF c(3)]
  have lib: "libres s2 st m" using alloc_run_ok(2) [OF c(2)] .
  have m2: "marco s s2" "marco s2 s3" using c2 c3 by (auto simp: cambia_def)
  have m4: "marco s2 s4" using seg.R_trans [OF m2(2)] marco_escribe_bitmap [OF lib m2(2)] c(3) by (metis snd_conv)
  have sf: "sin_fallos s4" "coherente (fs_dev s4)" "2 \<le> fs_count s4"
    using assms(1) marco_campos [OF seg.R_trans [OF m2(1) m4]] by (auto simp: limpio_def)
  have s5: "s5 = s4\<lparr>fs_dev := (fs_dev s4)\<lparr>ca_inner := (ca_inner (fs_dev s4))\<lparr>di_log := fs_log s4 @ [Vacia]\<rparr>\<rparr>\<rparr>"
    using c(4) con_flush_sin_fallos [OF sf(1)] by simp
  have m5: "marco s2 s5" using seg.R_trans [OF m4 cumpleD [OF segura_flush c(4)]] .
  have c5: "cambia s2 {} {st..<st + m} s5"
    using c3 m5 e by (auto simp: cambia_def s5 fs_img_def)
  note c05 = cambia_trans [OF c2 c5]
  have li: "libres s st m" using lib libres_marco [OF m2(1)] by simp
  have dis: "{st..<st + m} \<inter> bloques_mapa s = {}"
  proof -
    have "\<not> bit_en (fs_frozen s) b" if "b \<in> {st..<st + m}" for b
    proof -
      have "b - st < m" "st + (b - st) = b" using that by auto
      then show ?thesis using li by (metis libres_def)
    qed
    moreover have "bit_en (fs_frozen s) b" if "b \<in> bloques_mapa s" for b
    proof -
      have "b - unat (sb_bitmap_start (fs_sb s)) < unat (sb_bitmap_blocks (fs_sb s))" "unat (sb_bitmap_start (fs_sb s)) + (b - unat (sb_bitmap_start (fs_sb s))) = b"
        using that by (auto simp: bloques_mapa_def)
      then show ?thesis using assms(1) unfolding limpio_def comprometido_def by metis
    qed
    ultimately show ?thesis by blast
  qed
  have "sin_fallos s5" "2 \<le> fs_count s5" "coherente (fs_dev s5)" using sf by (simp_all add: s5 sin_fallos_def fs_count_def coherente_def)
  from publica_sin_fallos [OF this c(5)] have p: "fs_sb s' = sb_nuevo st m s5" "fs_frozen s' = fs_bitmap s5" "fs_bitmap s' = fs_bitmap s5"
      "fs_root s' = fs_root s5" "fs_count s' = fs_count s5" "coherente (fs_dev s')" "sin_fallos s'"
      "fs_img s' = (fs_img s5)(unat (sb_generation (sb_nuevo st m s5)) mod 2 := sb_block crc (sb_nuevo st m s5))" by auto
  have "\<forall>b\<ge>2. fs_img s' b = fs_img s5 b" using p(8) by auto
  then show ?thesis using p publica_next [OF c(5)] c05(1) li dis m_def by auto
qed

lemma commit_ok:
  assumes "limpio s" "arbol_en crc s n t" "mapa_ok s t" "fs_dirty s" "sb_generation (fs_sb s) + 1 \<noteq> - 1" "commit crc s = (Inr u, s')"
  shows "arbol_en crc s' n t" "mapa_ok s' t" "fs_next s' = fs_next s"
    "fs_bitmap s' = fs_frozen s'" "fs_root s' = unat (sb_tree_root (fs_sb s'))" "sb_next_inode (fs_sb s') = fs_next s'"
    "datos_en s t es \<Longrightarrow> datos_en s' t es \<and> ext_en crc (fs_img s') ino off es d = ext_en crc (fs_img s) ino off es d"
proof -
  obtain st m s5 where p: "m = length (fs_bitmap s) div BLOCK_SIZE" "cambia s (bloques_mapa s) {st..<st + m} s5" "{st..<st + m} \<inter> bloques_mapa s = {}" "libres s st m"
      "fs_sb s' = sb_nuevo st m s5" "fs_frozen s' = fs_bitmap s5" "fs_bitmap s' = fs_bitmap s5" "fs_root s' = fs_root s5" "fs_count s' = fs_count s5"
      "fs_next s' = fs_next s5" "\<forall>b\<ge>2. fs_img s' b = fs_img s5 b" "coherente (fs_dev s')" "sin_fallos s'"
    using commit_pasos [OF assms(1-4,6)] by blast
  note c = p(2) [unfolded cambia_def]
  have sb5: "fs_sb s5 = fs_sb s" "length (fs_bitmap s5) = length (fs_bitmap s)" "fs_count s5 = fs_count s"
    using c marcoD marco_campos(3) by auto
  have m: "unat (of_nat m :: u32) = m" using assms(1) by (simp add: p(1) limpio_def BLOCK_SIZE_def unsigned_of_nat take_bit_nat_eq_self)
  have bc: "unat (sb_block_count (fs_sb s)) < 2 ^ 64" using unsigned_less [of "sb_block_count (fs_sb s)", where 'a = nat] by simp
  have st: "unat (of_nat st :: u64) = st" using p(4) bc by (auto simp: libres_def unsigned_of_nat take_bit_nat_eq_self)
  have mapa: "bloques_mapa s' = {st..<st + m}" using p(5) m st by (simp add: bloques_mapa_def sb_nuevo_def)
  have count: "sb_block_count (fs_sb s') = sb_block_count (fs_sb s)" using p(5) sb5 by (simp add: sb_nuevo_def)
  have en_uso: "bit_en (fs_bitmap s') b \<and> b \<notin> bloques_mapa s' \<and> (2 \<le> b \<longrightarrow> fs_img s' b = fs_img s b)"
    if "bit_en (fs_bitmap s) b" "b \<notin> bloques_mapa s" for b
    using that c p(7,11) unfolding mapa by auto
  note a = assms(2) [unfolded arbol_en_def ocupado_def]
  have tr: "\<forall>b\<in>set (a_bloques t). bit_en (fs_bitmap s) b \<and> b \<notin> bloques_mapa s \<and> 2 \<le> b \<and> b < unat (sb_block_count (fs_sb s))"
    using a assms(3) by (auto simp: mapa_ok_def)
  have "rep crc (fs_img s') n t" by (rule rep_cong [of crc "fs_img s"]) (use a tr en_uso in auto)
  moreover have "listo s'" using a p sb5 count assms(5) by (auto simp: listo_def sb_nuevo_def)
  ultimately show "arbol_en crc s' n t" using a tr en_uso c p(8) count unfolding arbol_en_def ocupado_def by auto
  show "mapa_ok s' t" using c p(7) tr unfolding mapa_ok_def mapa by fastforce
  show "fs_next s' = fs_next s" using c p(10) by simp
  show "fs_bitmap s' = fs_frozen s'" using p(6,7) by simp
  show "sb_next_inode (fs_sb s') = fs_next s'" using p(5,10) by (simp add: sb_nuevo_def)
  have "fs_root s < 2 ^ 64" using a bloque_raiz [of t] bc by (metis order_less_trans)
  then show "fs_root s' = unat (sb_tree_root (fs_sb s'))" using p(5,8) c by (simp add: sb_nuevo_def unsigned_of_nat take_bit_nat_eq_self)
  assume d: "datos_en s t es"
  have "\<forall>(k, p)\<in>set es. \<forall>b\<in>ext_bloques p. fs_img s' b = fs_img s b" using d en_uso by (fastforce simp: datos_en_def)
  moreover have "datos_en s' t es" using d en_uso count unfolding datos_en_def by fastforce
  ultimately show "datos_en s' t es \<and> ext_en crc (fs_img s') ino off es d = ext_en crc (fs_img s) ino off es d"
    using ext_en_cong by blast
qed

lemma con_dev_campos: "con_dev m s = (r, s') \<Longrightarrow> fs_dirty s' = fs_dirty s"
  by (auto simp: con_dev_def split: prod.splits)

lemma sucio_write_node: "write_node crc lvl nd s = (Inr x, s') \<Longrightarrow> fs_dirty s'"
proof -
  assume "write_node crc lvl nd s = (Inr x, s')"
  then obtain b s1 buf where w: "alloc_run 1 s = (Inr b, s1)" "con_dev (write_block b buf) s1 = (Inr (), s')"
    by (auto simp: write_node_def bindE_Inr ret_def split: if_splits)
  show ?thesis using con_dev_campos [OF w(2)] alloc_run_ok(1) [OF w(1)] by (simp add: marca_tramo_def)
qed

lemma sucio_write_split: "write_split crc lvl ov nd s = (Inr x, s') \<Longrightarrow> fs_dirty s'"
  by (auto simp: write_split_def bindE_Inr ret_def split: if_splits prod.splits dest: sucio_write_node)

lemma sucio_insert_rec:
  assumes "insert_rec crc b lvl k p s = (Inr x, s')"
  shows "fs_dirty s'"
proof -
  from assms have "\<exists>l ov nd s1. write_split crc l ov nd s1 = (Inr x, s')"
    unfolding insert_rec.simps [of crc b lvl k p s] bindE_Inr
  proof (elim exE conjE)
    fix nd s1
    assume "(case nd of
        Leaf v \<Rightarrow> (let v' = hoja_upsert v k p in bindE (free_block b) (\<lambda>_. write_split crc 0 (length v' > LEAF_CAP) (Leaf v')) s1)
      | Internal v \<Rightarrow>
          if v = [] \<or> lvl = 0 then (Inl FsPanico, s1)
          else bindE (insert_rec crc (snd (v ! hijo_idx v k)) (lvl - 1) k p) (\<lambda>c s2.
            let v' = con_hijo v (hijo_idx v k) c in
            bindE (free_block b) (\<lambda>_. write_split crc lvl (length v' > INT_CAP) (Internal v')) s2) s1) = (Inr x, s')"
    then show ?thesis by (cases nd) (auto simp: bindE_Inr Let_def simp del: insert_rec.simps split: if_splits)
  qed
  then show ?thesis using sucio_write_split by blast
qed

lemma sucio_tree_insert:
  assumes "tree_insert crc k p s = (Inr x, s')"
  shows "fs_dirty s'"
proof -
  obtain level s1 c s2 where i: "insert_rec crc (fs_root s) level k p s1 = (Inr c, s2)" "(case cow_split c of None \<Rightarrow> pon_raiz (cow_block c)
      | Some x \<Rightarrow> if level = 255 then lanza FsPanico
          else bindE (write_node crc (level + 1) (Internal [(cow_min c, cow_block c), x])) (\<lambda>(nb, _). pon_raiz nb)) s2 = (Inr x, s')"
    using assms by (auto simp: tree_insert_def bindE_Inr simp del: insert_rec.simps)
  show ?thesis
  proof (cases "cow_split c")
    case None
    then show ?thesis using i sucio_insert_rec [OF i(1)] by (auto simp: pon_raiz_def)
  next
    case (Some y)
    then obtain z s3 where "write_node crc (level + 1) (Internal [(cow_min c, cow_block c), y]) s2 = (Inr z, s3)" "s' = s3\<lparr>fs_root := fst z\<rparr>"
      using i(2) by (auto simp: bindE_Inr lanza_def pon_raiz_def split: if_splits)
    then show ?thesis using sucio_write_node by auto
  qed
qed

lemma sucio_sondeo: "sondeo crc dir p n off s = (Inr u, s') \<Longrightarrow> fs_dirty s'"
proof (induction crc dir p n off s rule: sondeo.induct)
  case (1 crc dir p n off s)
  have n: "n < 2 ^ 64" using 1(2) by (cases "n < 2 ^ 64") (simp_all add: sondeo.simps)
  then obtain out s1 where s1: "scan_range crc (Key dir KIND_DIRENT off) (Key dir KIND_DIRENT off) s = (Inr out, s1)"
      "(if out = [] then tree_insert crc (Key dir KIND_DIRENT off) p else sondeo crc dir p (n + 1) (off + 1)) s1 = (Inr u, s')"
    using 1(2) by (subst (asm) sondeo.simps) (auto simp: bindE_Inr)
  show ?case using 1(1) [OF n s1(1)] s1(2) sucio_tree_insert by (cases "out = []") auto
qed

lemma sucio_escribe_datos: "escribe_datos crc ino base data off s = (Inr u, s') \<Longrightarrow> fs_dirty s \<or> off < length data \<Longrightarrow> fs_dirty s'"
proof (induction "length data - off" arbitrary: off s rule: less_induct)
  case less
  show ?case
  proof (cases "off < length data")
    case True
    then obtain st got s1 where a: "alloc_extent (min (div_ceil (length data - off) BLOCK_SIZE) EXTENT_MAX_BLOCKS) s = (Inr (st, got), s1)"
      using less(2) by (subst (asm) escribe_datos.simps) (auto simp: bindE_Inr Let_def)
    then obtain s2 k p s3 where s3: "tree_insert crc k p s2 = (Inr (), s3)"
        "escribe_datos crc ino base data (off + min (length data - off) (got * BLOCK_SIZE)) s3 = (Inr u, s')"
      using less(2) True by (subst (asm) escribe_datos.simps) (auto simp: bindE_Inr Let_def)
    have "0 < got" using alloc_extent_pos [OF a] .
    then show ?thesis using less(1) [OF _ s3(2)] sucio_tree_insert [OF s3(1)] True by (auto simp: BLOCK_SIZE_def)
  qed (use less in \<open>auto simp: escribe_datos.simps\<close>)
qed

section \<open>Operations as a whole\<close>

text \<open>What holds between two operations.\<close>

definition bien :: "(bytes \<Rightarrow> u32) \<Rightarrow> sosofs \<Rightarrow> nat \<Rightarrow> arbol \<Rightarrow> bool" where
  "bien crc s n t = (limpio s \<and> arbol_en crc s n t \<and> mapa_ok s t \<and> fresco s t \<and>
    fs_bitmap s = fs_frozen s \<and> fs_root s = unat (sb_tree_root (fs_sb s)) \<and> sb_next_inode (fs_sb s) = fs_next s)"

text \<open>A transaction that ends well keeps what it did, and one that fails leaves what there was.\<close>

lemma finish_ok:
  assumes "limpio s" "marco s s1" "arbol_en crc s1 n t" "mapa_ok s1 t" "fresco s1 t" "fs_dirty s1" "sb_generation (fs_sb s) + 1 \<noteq> - 1"
    and "finish crc (Inr v, s1) = (Inr x, s')"
  shows "bien crc s' n t" "x = v" "fs_next s' = fs_next s1" "fichero_en crc s1 t i d \<Longrightarrow> fichero_en crc s' t i d"
proof -
  have l1: "limpio s1" using limpio_marco [OF assms(1,2)] .
  obtain u where c: "commit crc s1 = (Inr u, s')" "x = v" using assms(8) by (auto simp: finish_def split: prod.splits sum.splits)
  have g: "sb_generation (fs_sb s1) + 1 \<noteq> - 1" using assms(7) marcoD [OF assms(2)] by simp
  note k = commit_ok [OF l1 assms(3,4,6) g c(1)]
  have "limpio s'" using commit_casos [OF l1 c(1)] limpio_marco [OF l1] publicado_limpio [OF l1] by blast
  then show "bien crc s' n t" using k assms(5) by (simp add: bien_def fresco_def)
  show "x = v" "fs_next s' = fs_next s1" using c k by auto
  show "fichero_en crc s1 t i d \<Longrightarrow> fichero_en crc s' t i d" using k(7) [of "extents_de i (a_items t)" i 0 d] by (auto simp: fichero_en_def)
qed

lemma marco_img: "marco s s' \<Longrightarrow> \<not> bloque_libre s b \<Longrightarrow> fs_img s' b = fs_img s b"
  using fold_permitido by (auto simp: marco_def marco_evs_def)

lemma rollback_ok:
  assumes "bien crc s n t" "marco s s1"
  shows "bien crc (rollback s1) n t" "fichero_en crc s t i d \<Longrightarrow> fichero_en crc (rollback s1) t i d"
proof -
  note b = assms(1) [unfolded bien_def]
  have l: "length (fs_bitmap s1) = length (fs_frozen s1)" using b marcoD [OF assms(2)] by (simp add: limpio_def)
  define f where "f = rollback s1"
  have m: "marco s f" unfolding f_def using seg.R_trans [OF assms(2) marco_rollback [OF l]] .
  have c: "fs_bitmap f = fs_bitmap s" "fs_frozen f = fs_frozen s" "fs_root f = fs_root s" "fs_next f = fs_next s" "fs_sb f = fs_sb s"
    using b marcoD [OF m] marcoD [OF assms(2)] by (simp_all add: f_def rollback_def)
  have im: "fs_img f x = fs_img s x" if "bit_en (fs_bitmap s) x" for x
    using marco_img [OF m, of x] that b by (simp add: bloque_libre_def)
  note a = conjunct1 [OF conjunct2 [OF b]]
  have "rep crc (fs_img f) n t" by (rule rep_cong [of crc "fs_img s"]) (use a im in \<open>auto simp: arbol_en_def ocupado_def\<close>)
  then have af: "arbol_en crc f n t" using a c listo_marco [OF m] unfolding arbol_en_def ocupado_def by simp
  then show "bien crc (rollback s1) n t" unfolding f_def [symmetric]
    using b c limpio_marco [OF _ m] by (auto simp: bien_def mapa_ok_def bloques_mapa_def fresco_def)
  have "avanza s t f t" using c im by (auto simp: avanza_def respeta_def)
  moreover have "claves_orden (a_items t)" using a by (simp add: arbol_en_def)
  ultimately show "fichero_en crc s t i d \<Longrightarrow> fichero_en crc (rollback s1) t i d" unfolding f_def [symmetric] using fichero_avanza by blast
qed

lemma finish_falla:
  assumes "bien crc s n t" "marco s s1" "finish crc (r1, s1) = (Inl e, s')" "e \<noteq> FsPanico"
  shows "bien crc s' n t" "fichero_en crc s t i d \<Longrightarrow> fichero_en crc s' t i d"
proof -
  have l1: "limpio s1" using limpio_marco [OF _ assms(2)] assms(1) by (simp add: bien_def)
  obtain s2 where "marco s1 s2" "s' = rollback s2"
  proof (cases r1)
    case (Inl e1)
    then show ?thesis using that [of s1] assms(3,4) by (auto simp: finish_def)
  next
    case (Inr v)
    obtain r2 s2 where c: "commit crc s1 = (r2, s2)" by fastforce
    then have "r2 = Inl e" "s' = rollback s2" using assms(3,4) Inr by (auto simp: finish_def split: sum.splits)
    then show ?thesis using that [of s2] commit_casos [OF l1 c] by auto
  qed
  then have "marco s s2" "s' = rollback s2" using seg.R_trans [OF assms(2)] by auto
  then show "bien crc s' n t" "fichero_en crc s t i d \<Longrightarrow> fichero_en crc s' t i d" using rollback_ok [OF assms(1)] by auto
qed

lemma create_sucio: "create_file_inner crc dir name data mtime s = (Inr ino, s') \<Longrightarrow> fs_dirty s'"
  by (auto simp: create_file_inner_def bindE_Inr ret_def insert_dirent_def lanza_def split: if_splits dest: sucio_sondeo)

lemma create_file_ok:
  assumes "bien crc s n t" "\<forall>(k, p)\<in>set (dirents_de dir (a_items t)). nombre p \<noteq> name" "length data < 2 ^ 64"
    and "sb_generation (fs_sb s) + 1 \<noteq> - 1" "create_file crc dir name data mtime s = (Inr ino, s')"
  shows "\<exists>n' t'. bien crc s' n' t' \<and> creado crc dir name data ino s t s' t'"
proof -
  note b = assms(1) [unfolded bien_def]
  obtain r1 s1 where i: "create_file_inner crc dir name data mtime s = (r1, s1)" by fastforce
  have m: "marco s s1" using cumpleD [OF segura_ops(2) i] .
  have f: "finish crc (r1, s1) = (Inr ino, s')" using assms(5) i by (simp add: create_file_def)
  then obtain v where v: "r1 = Inr v" by (cases r1) (auto simp: finish_def)
  obtain n1 t1 where t1: "arbol_en crc s1 n1 t1" "avanza s t s1 t1" "creado crc dir name data v s t s1 t1"
    using create_inner_ok [OF _ _ _ assms(3,2) i [unfolded v]] b by blast
  have mo: "mapa_ok s1 t1" using mapa_avanza [OF t1(2)] b by blast
  note fo = finish_ok [OF _ m t1(1) mo _ create_sucio [OF i [unfolded v]] assms(4) f [unfolded v]]
  have "bien crc s' n1 t1" "ino = v" and fi: "\<And>i d. fichero_en crc s1 t1 i d \<Longrightarrow> fichero_en crc s' t1 i d" using fo b t1(3) by (auto simp: creado_def)
  then show ?thesis using t1(3) unfolding creado_def bien_def by blast
qed

text \<open>C6 (functional): creating a file under a name that the directory does not have is all or nothing.  When the call
  returns, the name leads to the new file, reading the file gives exactly the bytes that were written, however they were cut in
  extents, every other name leads where it did and every other file has the contents it had.  When it fails, the tree of the
  file system and the contents of all the files are the ones before the call.\<close>

theorem crear_todo_o_nada:
  assumes "bien crc s n t" "\<forall>(k, p)\<in>set (dirents_de dir (a_items t)). nombre p \<noteq> name" "length data < 2 ^ 64"
    and "sb_generation (fs_sb s) + 1 \<noteq> - 1"
  shows "case create_file crc dir name data mtime s of
      (Inr ino, s') \<Rightarrow> \<exists>n' t'. bien crc s' n' t' \<and> fst (lookup crc dir name s') = Inr ino \<and> fst (read_file crc ino s') = Inr data \<and>
        (\<forall>dir' name' i. entrada_en t dir' name' i \<longrightarrow> fst (lookup crc dir' name' s') = Inr i) \<and>
        (\<forall>i d. fichero_en crc s t i d \<longrightarrow> fichero_en crc s' t' i d \<and> fst (read_file crc i s') = Inr d)
    | (Inl e, s') \<Rightarrow> e = FsPanico \<or> bien crc s' n t \<and> (\<forall>i d. fichero_en crc s t i d \<longrightarrow> fichero_en crc s' t i d \<and> fst (read_file crc i s') = Inr d)"
proof -
  obtain r s' where c: "create_file crc dir name data mtime s = (r, s')" by fastforce
  show ?thesis
  proof (cases r)
    case (Inl e)
    obtain r1 s1 where i: "create_file_inner crc dir name data mtime s = (r1, s1)" by fastforce
    then have f: "finish crc (r1, s1) = (Inl e, s')" using c Inl by (simp add: create_file_def)
    show ?thesis using c Inl finish_falla [OF assms(1) cumpleD [OF segura_ops(2) i] f] read_file_ok by (auto simp: bien_def)
  next
    case (Inr ino)
    from create_file_ok [OF assms c [unfolded Inr]] obtain n1 t1 where "bien crc s' n1 t1" "creado crc dir name data ino s t s' t1" by blast
    moreover from this have "arbol_en crc s' n1 t1" by (simp add: bien_def)
    ultimately show ?thesis using c Inr lookup_entrada read_file_ok unfolding creado_def by (auto intro!: exI [of _ n1] exI [of _ t1])
  qed
qed

section \<open>Appending\<close>

lemma ext_en_ultimo:
  assumes "ext_en crc m ino off (es @ [(k, p)]) d" "b = sum_list (map (\<lambda>(k, p). ext_n p) es) * BLOCK_SIZE"
  shows "b < length d \<and> k = Key ino KIND_EXTENT (of_nat (off + b)) \<and> ext_en crc m ino off es (take b d)"
  using assms
proof (induction es arbitrary: off d b)
  case (Cons e es)
  obtain k' p' where e: "e = (k', p')" by (cases e)
  define nb where "nb = ext_n p' * BLOCK_SIZE"
  note x = Cons(2) [unfolded e append_Cons ext_en.simps nb_def [symmetric]]
  define b' where "b' = sum_list (map (\<lambda>(k, p). ext_n p) es) * BLOCK_SIZE"
  have b: "b = nb + b'" using Cons(3) by (simp add: e nb_def b'_def add_mult_distrib)
  have i: "b' < length (drop nb d)" "k = Key ino KIND_EXTENT (of_nat (off + nb + b'))" "ext_en crc m ino (off + nb) es (take b' (drop nb d))"
    using Cons(1) [OF _ b'_def, of "off + nb" "drop nb d"] x by auto
  have "0 < nb" using x by (simp add: nb_def BLOCK_SIZE_def)
  moreover have "ext_datos m p' = take nb d" using x i(1) by auto
  moreover have "drop nb (take b d) = take b' (drop nb d)" by (simp add: b drop_take)
  ultimately show ?case using x i b by (auto simp: e nb_def [symmetric] min_def add.assoc)
qed simp

lemma append_inner_ok:
  assumes ar: "arbol_en crc s n t" and mo: "mapa_ok s t" and fi: "fichero_en crc s t ino d" and l64: "length d + length data < 2 ^ 64" and dt: "data \<noteq> []"
    and ej: "append_file_inner crc ino data mtime s = (Inr v, s')"
  shows "\<exists>n' t'. arbol_en crc s' n' t' \<and> avanza s t s' t' \<and> fichero_en crc s' t' ino (d @ data) \<and> fs_next s' = fs_next s \<and> fs_dirty s' \<and>
    (\<forall>k. k_inode k \<noteq> ino \<or> k_kind k = KIND_DIRENT \<longrightarrow> map_of (a_items t') k = map_of (a_items t) k)"
proof -
  note f = fi [unfolded fichero_en_def]
  have o: "claves_orden (a_items t)" using ar by (simp add: arbol_en_def)
  define es where "es = extents_de ino (a_items t)"
  define b where "b = sum_list (map (\<lambda>(k, p). ext_n p) (butlast es)) * BLOCK_SIZE"
  have ee: "ext_en crc (fs_img s) ino 0 es d" "datos_en s t es" using f by (simp_all add: es_def)
  have bd: "b \<le> length d" "ext_en crc (fs_img s) ino 0 (butlast es) (take b d)" "es = [] \<longrightarrow> d = [] \<and> b = 0"
      "es \<noteq> [] \<longrightarrow> fst (last es) = Key ino KIND_EXTENT (of_nat b) \<and> b < length d"
  proof -
    have "b \<le> length d \<and> ext_en crc (fs_img s) ino 0 (butlast es) (take b d) \<and> (es = [] \<longrightarrow> d = [] \<and> b = 0) \<and>
      (es \<noteq> [] \<longrightarrow> fst (last es) = Key ino KIND_EXTENT (of_nat b) \<and> b < length d)"
    proof (cases "es = []")
      case True
      then show ?thesis using ee(1) by (simp add: b_def)
    next
      case False
      then have "es = butlast es @ [(fst (last es), snd (last es))]" by simp
      then show ?thesis using ext_en_ultimo [of crc "fs_img s" ino 0 "butlast es" "fst (last es)" "snd (last es)" d, OF _ b_def] ee(1) False by auto
    qed
    then show "b \<le> length d" "ext_en crc (fs_img s) ino 0 (butlast es) (take b d)" "es = [] \<longrightarrow> d = [] \<and> b = 0"
      "es \<noteq> [] \<longrightarrow> fst (last es) = Key ino KIND_EXTENT (of_nat b) \<and> b < length d" by auto
  qed
  have b64: "unat (of_nat b :: u64) = b" using bd(1) l64 by (simp add: unsigned_of_nat take_bit_nat_eq_self)
  obtain p where p: "map_of (a_items t) (key_inode ino) = Some p" "ii_type (inode_read p) = FT_FILE" "unat (ii_size (inode_read p)) = length d" using f by blast
  obtain s1 where s1: "stat_inode crc ino s = (Inr (inode_read p), s1)" "lee s s1" using stat_inode_ok [OF ar, of ino] p(1) by auto
  obtain s2 where s2: "scan_range crc (fst (key_range ino KIND_EXTENT)) (snd (key_range ino KIND_EXTENT)) s1 = (Inr es, s2)" "lee s1 s2"
    using scan_tipo [OF arbol_lee [OF ar s1(2)]] unfolding es_def by blast
  have l2: "lee s s2" using lee_trans [OF s1(2) s2(2)] .
  have a2: "arbol_en crc s2 n t" using arbol_lee [OF ar l2] .
  have f2: "fichero_en crc s2 t ino d" by (rule fichero_avanza [OF lee_avanza [OF l2] o o _ fi]) simp
  define L where "L = (if length d - b > 0 then read_file_range crc ino b (length d - b) (replicate (length d - b) (CHR 0x00)) else ret [])"
  obtain s3 where s3: "L s2 = (Inr (drop b d), s3)" "lee s2 s3"
  proof (cases "length d - b > 0")
    case True
    then show ?thesis using that read_file_range_ok [OF a2 f2, of b "length d - b" "replicate (length d - b) (CHR 0x00)"] bd(1) by (auto simp: L_def)
  qed (use that in \<open>auto simp: ret_def L_def\<close>)
  have l3: "lee s s3" using lee_trans [OF l2 s3(2)] .
  have a3: "arbol_en crc s3 n t" using arbol_lee [OF ar l3] .
  have base: "(if es = [] then 0 else unat (k_offset (fst (last es)))) = b" using bd(3,4) b64 by auto
  let ?i = "\<lparr>ii_type = FT_FILE, ii_size = of_nat (length d + length data), ii_mtime = mtime\<rparr>"
  have "append_file_inner crc ino data mtime s =
      bindE L (\<lambda>viejo. bindE (pon_inode crc ino ?i) (\<lambda>_. bindE (escribe_datos crc ino b (viejo @ data) 0) (\<lambda>_. ret ino))) s2"
    unfolding append_file_inner_def Let_def if_not_P [OF dt] bindE_simps(1) [of "stat_inode crc ino" s, OF s1(1)] p(3)
    using p(2) bd(1) by (simp only: if_False not_True_eq_False simp_thms bindE_simps(1) [of "scan_range crc (fst (key_range ino KIND_EXTENT)) (snd (key_range ino KIND_EXTENT))" s1, OF s2(1)] base L_def [symmetric] not_less [symmetric])
  then have "bindE L (\<lambda>viejo. bindE (pon_inode crc ino ?i) (\<lambda>_. bindE (escribe_datos crc ino b (viejo @ data) 0) (\<lambda>_. ret ino))) s2 = (Inr v, s')"
    using ej by simp
  then obtain s4 where s4: "pon_inode crc ino ?i s3 = (Inr (), s4)" "escribe_datos crc ino b (drop b d @ data) 0 s4 = (Inr (), s')"
    using s3(1) by (auto simp: bindE_Inr ret_def)
  obtain n4 t4 where p4: "paso_arbol crc s3 t (upsert (key_inode ino) (relleno_item (inode_bytes ?i)) (a_items t)) n4 t4 s4"
    using pon_inode_ok [OF a3 s4(1)] by blast
  have a4: "arbol_en crc s4 n4 t4" and i4: "a_items t4 = upsert (key_inode ino) (relleno_item (inode_bytes ?i)) (a_items t)" using p4 by (auto simp: paso_arbol_def)
  have v4: "avanza s t s4 t4" using avanza_trans [OF lee_avanza [OF l3] paso_avanza [OF p4]] .
  have x4: "extents_de ino (a_items t4) = es" unfolding i4 es_def by (rule tipo_otro [OF o]) (simp add: key_inode_def)
  have db: "datos_en s t (butlast es)" using ee(2) by (auto simp: datos_en_def dest: in_set_butlastD)
  have "a_medias crc s4 t4 ino (take b d) (drop 0 (drop b d @ data))"
    unfolding a_medias_def x4
  proof (rule exI [of _ "butlast es"], rule exI [of _ "drop (length es - 1) es"], intro conjI)
    show "es = butlast es @ drop (length es - 1) es" by (simp add: butlast_conv_take)
    show "ext_en crc (fs_img s4) ino 0 (butlast es) (take b d)" "datos_en s4 t4 (butlast es)" using datos_avanza [OF v4 db] bd(2) by auto
    have "drop (length es - 1) es = [] \<or> drop (length es - 1) es = [last es]"
      by (cases es rule: rev_cases) auto
    moreover have "last es = (Key ino KIND_EXTENT (of_nat b), snd (last es))" if "es \<noteq> []" using bd(4) that by (metis prod.collapse)
    ultimately show "if drop 0 (drop b d @ data) = [] then drop (length es - 1) es = []
      else length (take b d) = sum_list (map (\<lambda>(k, p). ext_n p) (butlast es)) * BLOCK_SIZE \<and>
        (drop (length es - 1) es = [] \<or> (\<exists>p. drop (length es - 1) es = [(Key ino KIND_EXTENT (of_nat (length (take b d))), p)]))"
      using dt bd(1,3) by (cases "es = []") (auto simp: b_def [symmetric] min_def)
  qed
  then obtain n5 t5 where t5: "arbol_en crc s' n5 t5" "a_medias crc s' t5 ino (take b d @ drop b d @ data) []" "avanza s4 t4 s' t5" "fs_next s' = fs_next s4"
      "\<And>k. \<not> (k_inode k = ino \<and> k_kind k = KIND_EXTENT) \<Longrightarrow> map_of (a_items t5) k = map_of (a_items t4) k"
    using escribe_datos_ok [OF a4 mapa_avanza [OF v4 mo], of ino "take b d" 0 "drop b d @ data" b "()" s'] l64 bd(1) s4(2) by auto
  have m4: "map_of (a_items t4) = (map_of (a_items t))(key_inode ino \<mapsto> relleno_item (inode_bytes ?i))" unfolding i4 by (rule map_of_upsert [OF o])
  have "fichero_en crc s' t5 ino (d @ data)"
  proof -
    have tam: "unat (of_nat (length d + length data) :: u64) = length d + length data"
      using l64 by (simp only: unsigned_of_nat) (simp add: take_bit_nat_eq_self del: of_nat_add)
    have "map_of (a_items t5) (key_inode ino) = Some (relleno_item (inode_bytes ?i))" using t5(5) [of "key_inode ino"] m4 by (simp add: key_inode_def)
    then show ?thesis using t5(2) l64 tam by (auto simp: fichero_en_def a_medias_def append_assoc [symmetric] simp del: of_nat_add append_assoc)
  qed
  moreover have "fs_next s' = fs_next s" using t5(4) paso_next [OF p4] l3 by (simp add: lee_def)
  moreover have "\<forall>k. k_inode k \<noteq> ino \<or> k_kind k = KIND_DIRENT \<longrightarrow> map_of (a_items t5) k = map_of (a_items t) k"
    using t5(5) m4 by (auto simp: key_inode_def)
  moreover have "fs_dirty s'" using sucio_escribe_datos [OF s4(2)] dt by simp
  ultimately show ?thesis using t5(1) avanza_trans [OF v4 t5(3)] by blast
qed


text \<open>C8 (functional): appending to a file is all or nothing.  When the call returns, reading the file gives what it had followed by the new bytes, although
  the last extent has been written again in another place; names and every other file are as before.  When it fails nothing has changed.\<close>

theorem anadir_todo_o_nada:
  assumes "bien crc s n t" "fichero_en crc s t ino d" "data \<noteq> []" "length d + length data < 2 ^ 64" "sb_generation (fs_sb s) + 1 \<noteq> - 1"
  shows "case append_file crc ino data mtime s of
      (Inr _, s') \<Rightarrow> \<exists>n' t'. bien crc s' n' t' \<and> fichero_en crc s' t' ino (d @ data) \<and> fst (read_file crc ino s') = Inr (d @ data) \<and>
        (\<forall>dir name i. entrada_en t dir name i \<longrightarrow> fst (lookup crc dir name s') = Inr i) \<and>
        (\<forall>i d. i \<noteq> ino \<longrightarrow> fichero_en crc s t i d \<longrightarrow> fichero_en crc s' t' i d \<and> fst (read_file crc i s') = Inr d)
    | (Inl e, s') \<Rightarrow> e = FsPanico \<or> bien crc s' n t \<and> (\<forall>i d. fichero_en crc s t i d \<longrightarrow> fichero_en crc s' t i d \<and> fst (read_file crc i s') = Inr d)"
proof -
  note b = assms(1) [unfolded bien_def]
  obtain r1 s1 where i: "append_file_inner crc ino data mtime s = (r1, s1)" by fastforce
  have m: "marco s s1" using cumpleD [OF segura_ops(3) i] .
  obtain r s' where f: "finish crc (r1, s1) = (r, s')" by fastforce
  then have cf: "append_file crc ino data mtime s = (r, s')" using i by (simp add: append_file_def)
  show ?thesis
  proof (cases r)
    case (Inl e)
    then show ?thesis using cf finish_falla [OF assms(1) m f [unfolded Inl]] read_file_ok by (auto simp: bien_def)
  next
    case (Inr u)
    then obtain v where v: "r1 = Inr v" using f by (cases r1) (auto simp: finish_def)
    obtain n1 t1 where t1: "arbol_en crc s1 n1 t1" "avanza s t s1 t1" "fichero_en crc s1 t1 ino (d @ data)" "fs_next s1 = fs_next s" "fs_dirty s1"
        "\<And>k. k_inode k \<noteq> ino \<or> k_kind k = KIND_DIRENT \<Longrightarrow> map_of (a_items t1) k = map_of (a_items t) k"
      using append_inner_ok [OF _ _ assms(2,4,3) i [unfolded v]] b by blast
    have o: "claves_orden (a_items t)" "claves_orden (a_items t1)" using t1(1) b by (auto simp: arbol_en_def)
    have mo: "mapa_ok s1 t1" using mapa_avanza [OF t1(2)] b by blast
    have "\<exists>p. map_of (a_items t) (key_inode ino) = Some p" using assms(2) by (auto simp: fichero_en_def)
    then have li: "ino < fs_next s" using b by (auto simp: fresco_def key_inode_def dest!: bspec)
    have fr: "fresco s1 t1" unfolding fresco_def
    proof
      fix k assume "k \<in> dom (map_of (a_items t1))"
      then have "k_inode k = ino \<or> k \<in> dom (map_of (a_items t))" using t1(6) [of k] by (metis domIff)
      then show "k_inode k < fs_next s1" using t1(4) li b unfolding fresco_def by auto
    qed
    note fo = finish_ok [OF _ m t1(1) mo fr t1(5) assms(5) f [unfolded v Inr]]
    have bi: "bien crc s' n1 t1" and fi: "\<And>i d. fichero_en crc s1 t1 i d \<Longrightarrow> fichero_en crc s' t1 i d" using fo b by auto
    have a': "arbol_en crc s' n1 t1" using bi by (simp add: bien_def)
    have en: "entrada_en t1 dir name i" if "entrada_en t dir name i" for dir name i
    proof -
      have "dirents_de dir (a_items t1) = dirents_de dir (a_items t)" by (rule tipo_igual [OF o]) (use t1(6) in simp)
      then show ?thesis using that by (simp add: entrada_en_def)
    qed
    have ot: "fichero_en crc s1 t1 i d'" if "i \<noteq> ino" "fichero_en crc s t i d'" for i d'
      by (rule fichero_avanza [OF t1(2) o _ that(2)]) (use t1(6) that(1) in simp)
    show ?thesis using cf Inr bi fi [OF t1(3)] fi [OF ot] lookup_entrada [OF a' en] read_file_ok [OF a'] by (auto intro!: exI [of _ n1] exI [of _ t1])
  qed
qed

section \<open>After a loss of power\<close>

lemma montado_ok:
  assumes "bien crc s n t" "misma_generacion s f" "recien_montado crc f"
  shows "arbol_en crc f n t" "fichero_en crc s t i d \<Longrightarrow> fichero_en crc f t i d"
proof -
  note b = assms(1) [unfolded bien_def]
  note g = assms(2) [unfolded misma_generacion_def]
  note a = conjunct1 [OF conjunct2 [OF b], unfolded arbol_en_def ocupado_def]
  have im: "fs_img f x = fs_img s x" if "bit_en (fs_bitmap s) x" "2 \<le> x" "x < unat (sb_block_count (fs_sb s))" for x
    using g that b a by (auto simp: comprometido_def listo_def)
  have "rep crc (fs_img f) n t" by (rule rep_cong [of crc "fs_img s"]) (use a im in auto)
  moreover have "listo f" using assms(3) a g b by (auto simp: recien_montado_def limpio_def listo_def)
  ultimately show "arbol_en crc f n t" using a g b unfolding arbol_en_def ocupado_def by auto
  assume fi: "fichero_en crc s t i d"
  then have de: "datos_en s t (extents_de i (a_items t))" by (simp add: fichero_en_def)
  have "\<forall>(k, p)\<in>set (extents_de i (a_items t)). \<forall>b\<in>ext_bloques p. fs_img f b = fs_img s b" using de im by (fastforce simp: datos_en_def)
  moreover have "datos_en f t (extents_de i (a_items t))" using de g b unfolding datos_en_def bloques_mapa_def by auto
  ultimately show "fichero_en crc f t i d" using fi ext_en_cong unfolding fichero_en_def by blast
qed

text \<open>C7 (safety): what a call has returned is durable.  Take any history of operations that leaves the tree, the bitmap and the inode counter in agreement,
  and a call of \<open>create_file\<close> with a name that the directory does not have.  When power fails after the call has returned, with any writes since the last flush lost, the volume mounts,
  the name leads to the new file, and the file has all of its bytes; so do all the files that were there before.  (A call with a name that
  exists replaces that file; of that this theorem says nothing.)\<close>

theorem creado_perdura:
  assumes "recien_montado crc s0" "historia crc s0 ss" "bien crc (last ss) n t"
    and "\<forall>(k, p)\<in>set (dirents_de dir (a_items t)). nombre p \<noteq> name" "length data < 2 ^ 64" "sb_generation (fs_sb (last ss)) + 1 \<noteq> - 1"
  shows "case create_file crc dir name data mtime (last ss) of
      (Inl _, _) \<Rightarrow> True
    | (Inr ino, s') \<Rightarrow> \<forall>m mx. tras_corte (fs_img s0) (fs_log s') m \<longrightarrow>
        (\<exists>f. mount crc (cache_new (disp_nuevo (fs_count s') mx m)) = Inr f \<and> fst (lookup crc dir name f) = Inr ino \<and>
          fst (read_file crc ino f) = Inr data \<and> (\<forall>i d. fichero_en crc (last ss) t i d \<longrightarrow> fst (read_file crc i f) = Inr d))"
proof -
  obtain r s' where c: "create_file crc dir name data mtime (last ss) = (r, s')" by fastforce
  show ?thesis
  proof (cases r)
    case (Inr ino)
    from create_file_ok [OF assms(3-6) c [unfolded Inr]] obtain n' t' where b: "bien crc s' n' t'" and cr: "creado crc dir name data ino (last ss) t s' t'" by blast
    have "a_salvo crc (fs_img s0) (last ss)" using historia_salvada [OF assms(2,1)] by blast
    moreover have "ejecuta crc (OCreate dir name data mtime) (last ss) = (Inr (), s')" using c Inr by (simp add: sin_valor_def)
    ultimately have sa: "a_salvo crc (fs_img s0) s'" by (rule ejecuta_corte(1))
    have "\<exists>f. mount crc (cache_new (disp_nuevo (fs_count s') mx m)) = Inr f \<and> fst (lookup crc dir name f) = Inr ino \<and>
        fst (read_file crc ino f) = Inr data \<and> (\<forall>i d. fichero_en crc (last ss) t i d \<longrightarrow> fst (read_file crc i f) = Inr d)"
      if "tras_corte (fs_img s0) (fs_log s') m" for m mx
    proof -
      have "recupera crc s' m" "limpio s'" using sa that by (auto simp: a_salvo_def)
      then obtain f where f: "mount crc (cache_new (disp_nuevo (fs_count s') mx m)) = Inr f" "recien_montado crc f" "misma_generacion s' f"
        using mount_recupera by blast
      note mk = montado_ok [OF b f(3,2)]
      show ?thesis using f(1) cr lookup_entrada [OF mk(1)] read_file_ok [OF mk(1) mk(2)] by (auto simp: creado_def)
    qed
    then show ?thesis using c Inr by simp
  qed (use c in simp)
qed


section \<open>The example\<close>

lemma fs_ejemplo_bien: "bien (\<lambda>_. 0) fs_ejemplo 0 (Hoja 2 hoja_ejemplo)"
proof -
  have "limpio fs_ejemplo" using fs_ejemplo_montado by (simp add: recien_montado_def)
  moreover have "mapa_ok fs_ejemplo (Hoja 2 hoja_ejemplo)" by (auto simp: mapa_ok_def bloques_mapa_def sb_ejemplo_def mapa_ejemplo_bits)
  moreover have "fresco fs_ejemplo (Hoja 2 hoja_ejemplo)"
    by (auto simp: fresco_def hoja_ejemplo_def fs_ejemplo_def key_inode_def ROOT_INODE_def split: if_splits)
  ultimately show ?thesis using fs_ejemplo_arbol by (simp add: bien_def) (simp add: fs_ejemplo_def sb_ejemplo_def)
qed

lemma fs_ejemplo_vacio: "fichero_en (\<lambda>_. 0) fs_ejemplo (Hoja 2 hoja_ejemplo) 2 []"
  by (simp add: fichero_en_def hoja_ejemplo_def de_tipo_def datos_en_def key_inode_def ROOT_INODE_def)

lemma fs_ejemplo_hechos: "dirents_de 1 hoja_ejemplo = []" "sb_generation (fs_sb fs_ejemplo) + 1 \<noteq> - 1"
  by (simp_all add: hoja_ejemplo_def de_tipo_def key_inode_def sb_ejemplo_def)

theorem crear_todo_o_nada_witness:
  "case create_file (\<lambda>_. 0) 1 ''hola'' ''mundo'' 7 fs_ejemplo of
      (Inr ino, s') \<Rightarrow> fst (lookup (\<lambda>_. 0) 1 ''hola'' s') = Inr ino \<and> fst (read_file (\<lambda>_. 0) ino s') = Inr ''mundo'' \<and> fst (read_file (\<lambda>_. 0) 2 s') = Inr []
    | (Inl e, s') \<Rightarrow> e = FsPanico \<or> fst (read_file (\<lambda>_. 0) 2 s') = Inr []"
  using crear_todo_o_nada [OF fs_ejemplo_bien, of 1 "''hola''" "''mundo''" 7] fs_ejemplo_hechos fs_ejemplo_vacio
  by (auto split: prod.splits sum.splits)

theorem anadir_todo_o_nada_witness:
  "case append_file (\<lambda>_. 0) 2 ''mundo'' 7 fs_ejemplo of
      (Inr _, s') \<Rightarrow> fst (read_file (\<lambda>_. 0) 2 s') = Inr ''mundo''
    | (Inl e, s') \<Rightarrow> e = FsPanico \<or> fst (read_file (\<lambda>_. 0) 2 s') = Inr []"
  using anadir_todo_o_nada [OF fs_ejemplo_bien fs_ejemplo_vacio, of "''mundo''" 7] fs_ejemplo_hechos fs_ejemplo_vacio
  by (auto split: prod.splits sum.splits)

theorem creado_perdura_witness:
  "case create_file (\<lambda>_. 0) 1 ''hola'' ''mundo'' 7 fs_ejemplo of
      (Inl _, _) \<Rightarrow> True
    | (Inr ino, s') \<Rightarrow> \<exists>f. mount (\<lambda>_. 0) (cache_new (disp_nuevo (fs_count s') 8 (fold evento_img (fs_log s') img_ejemplo))) = Inr f \<and>
        fst (read_file (\<lambda>_. 0) ino f) = Inr ''mundo''"
proof -
  have "bien (\<lambda>_. 0) (last [fs_ejemplo]) 0 (Hoja 2 hoja_ejemplo)" using fs_ejemplo_bien by simp
  from creado_perdura [OF fs_ejemplo_montado historia.comienzo this, of 1 "''hola''" "''mundo''" 7] show ?thesis
    using fs_ejemplo_hechos tras_corte_todo [of img_ejemplo] by (fastforce split: prod.splits sum.splits)
qed

end
