(* ===== verification/Spec2Isabelle.thy ===== *)
theory Spec2Isabelle
  imports Compromiso Descarga Identidad Canal Bitacora Redimension Sosofs_Ficheros
begin

text \<open>
  A verification library for the update system and the root file system of soso, a bare-metal
  x86_64 operating system written in Rust.

  \<^bold>\<open>The program.\<close>  A release of soso is a manifest and a pack of files.  The client
  (\<open>src/user/soso-update/src/main.rs\<close>) chooses an origin, reads the manifest, downloads the changed files
  into a preparation area, saves the installed ones in a restore point and \<^emph>\<open>arms\<close> the operation: a
  journal in the root file system and a boot record in the ESP.  Nothing of the system is touched until the
  next boot, where the early recoverer of the kernel (\<open>src/kernel/src/drivers/txnaplica.rs\<close>) reads both
  records, decides what to do and applies, reverts, rescues or confirms.  Between arming and reboot
  the kernel keeps other programs from writing the managed paths
  (\<open>src/kernel/src/drivers/txnlock.rs\<close>).  The decisions and formats shared by client, kernel and boot
  shim are the crate \<open>src/crates/soso-update-core\<close>.  Power may fail at any moment, and the property that
  matters is that the machine ends with the old version or with the new one.  The root file system itself
  (\<open>src/crates/sosofs\<close>, over the devices of \<open>src/crates/block-dev\<close>) is a copy-on-write B+ tree with two superblocks that take
  turns: a commit writes new blocks, flushes, writes the older superblock and flushes again.

  \<^bold>\<open>Theories and sources.\<close>  Paths are below \<open>src/crates/soso-update-core/src\<close> unless they say otherwise.

  \<^item> \<open>Soso_Prelude\<close>, \<open>Rust_Str\<close>, \<open>Hash\<close>: machine integers as words, results as sums, saturating arithmetic,
    the string operations of the Rust library on UTF-8 bytes, hexadecimal digests (\<open>hash.rs\<close>).
  \<^item> \<open>Registro\<close>: \<open>record.rs\<close>, the framed record with its checksum and the choice among slots.  The
    locale \<open>registro_durable\<close> states what a set of slots promises when a write is torn; it is interpreted for
    the journal (\<open>Diario\<close>), the boot record (\<open>Bootrec\<close>) and the identity of the medium (\<open>Identidad\<close>).
  \<^item> \<open>Txn\<close>: \<open>txn/mod.rs\<close>, the states of a transaction, its events and the space it needs.
  \<^item> \<open>Diario\<close>, \<open>Bootrec\<close>, \<open>Reconcilia\<close>, \<open>Punto\<close>: \<open>txn/journal.rs\<close>, \<open>txn/bootrec.rs\<close>, \<open>txn/reconcile.rs\<close> with
    \<open>txn/rescate.rs\<close>, and \<open>txn/punto.rs\<close>.
  \<^item> \<open>Aplicador\<close>: \<open>txn/aplicador.rs\<close>.  The trait \<open>Sistema\<close> is a record of operations; the locale
    \<open>sistema_durable\<close> states what the applier relies on, and the applier is proved once inside it.
  \<^item> \<open>Recuperador\<close>, \<open>Transaccion\<close>, \<open>Rescate\<close>: \<open>kernel/src/drivers/txnaplica.rs\<close>, function by function,
    the interpretation of \<open>sistema_durable\<close> on its file operations, and the theorems on whole boots.
  \<^item> \<open>Manifiesto\<close>, \<open>Paquete\<close>, \<open>Descarga\<close>: \<open>semver.rs\<close>, \<open>compat.rs\<close>, \<open>oferta.rs\<close>, \<open>manifest.rs\<close>, \<open>pack.rs\<close>,
    \<open>plan.rs\<close>, the exclusion lists of \<open>lib.rs\<close>, and \<open>descarga.rs\<close>.
  \<^item> \<open>Identidad\<close>, \<open>Kernel_Esp\<close>, \<open>Canal\<close>: \<open>identity.rs\<close>; \<open>mailbox.rs\<close>, \<open>kernel_meta.rs\<close>, \<open>kernel_apply.rs\<close> and
    \<open>migracion.rs\<close>; \<open>canal.rs\<close>.
  \<^item> \<open>Cerrojo\<close>: \<open>kernel/src/drivers/txnlock.rs\<close> and its system call, as a step relation in which processes are
    born, die, call and write in any order.
  \<^item> \<open>Cliente\<close>, \<open>Armado\<close>, \<open>Compromiso\<close>: \<open>user/soso-update/src/main.rs\<close> (what is installed, what has to be
    fetched, the reception of spans, the restore point, the kernel slot, arming and reverting), the sector writes of
    \<open>kernel/src/drivers/updslot.rs\<close>, and the theorems that join the client with the recoverer.
  \<^item> \<open>Anillo\<close>, \<open>Bitacora\<close>: \<open>crates/soso-log-core/src\<close> (the ring of messages, rotation, flows, changed sectors)
    and the writer \<open>kernel/src/drivers/logfs.rs\<close>, which leaves the messages of the kernel, of the programs and of
    the updates in files.  The locale \<open>fuente_fiel\<close> is what the writer relies on of a source of
    messages; it is interpreted on the ring.
  \<^item> \<open>Gpt\<close>: \<open>crates/gptdisk/src/lib.rs\<close>, partition tables as bytes, with the abstract table (\<open>part\<close>) that the
    lemmas are about: \<open>tabla_ok\<close>, that partitions do not overlap, and \<open>cabe_tabla\<close>, that they lie between the two copies of the table.
  \<^item> \<open>Redimension\<close>: \<open>crates/soso-resize-core/src/lib.rs\<close> and \<open>kernel/src/fs_resize.rs\<close>, the growth of the root at the expense of the
    partition of the models: slides of sectors, the rewriting of the table, the journal of the ESP and the recovery.

  \<^item> \<open>Bloques\<close>: \<open>crates/block-dev/src/lib.rs\<close> and the cache \<open>crates/sosofs/src/cache.rs\<close>, devices of blocks that
    keep the history of their writes and barriers, and what may be on them after a power cut (\<open>tras_corte\<close>).
  \<^item> \<open>Sosofs\<close>, \<open>Sosofs_Escritura\<close>: \<open>layout.rs\<close>, \<open>fs.rs\<close> and \<open>write.rs\<close> of \<open>crates/sosofs/src\<close>: the format of superblocks and
    nodes, mounting, reading, the allocator, insertion and deletion in the tree, the commit, and every
    operation of the writer (create, append, unlink, rename, truncate, directories, times).
  \<^item> \<open>Sosofs_Corte\<close>: what the writer leaves alone and the histories it produces.  The locales \<open>conserva\<close> and
    \<open>conserva_lectura\<close> state what composes about the steps of an operation; they are interpreted on three relations between
    states of the file system.
  \<^item> \<open>Sosofs_Arbol\<close>: the tree of blocks as a map from keys to values, and its operations as the operations of the map.
  \<^item> \<open>Sosofs_Ficheros\<close>: files and names over that map; creating and appending, all or nothing and durable.

  \<^bold>\<open>State and power.\<close>  The machine (\<open>maquina\<close> of \<open>Recuperador\<close>) has the files of the root file system, the bytes of
    the boot record file of the ESP and two numbers: \<open>m_energia\<close>, how many more durable operations happen, and
    \<open>m_corte\<close>, how many bytes of the last one reach the medium.  Unlinking a file, creating one and writing a sector
    cost one unit each.  A call fails only when power ends: neither a full disk nor an error of the medium is represented here.  A theorem for every value of both is a theorem for every moment at which power
    can fail; a theorem that asks for a given amount says how much is enough.  The disk of a resize (\<open>disco\<close>) counts
    sector writes in the same way.  The client's machine
    (\<open>puesto\<close>) adds the other slots of the ESP.  Below the files, a device of blocks keeps what was written since the
    last barrier: after a cut each of those writes may have reached the medium or not, in any combination, but a block is written
    whole or not at all.

  \<^bold>\<open>Parameters.\<close>  SHA-256, CRC-32 and the CRC-32C of the file system are arguments \<open>sha\<close> and \<open>crc\<close> of the definitions.  What is trusted of
    the checksum is named: \<open>mezcla_detectada\<close>, that a slot holding a mixture of two records reads as
    one of them or as broken.  The network is an argument that gives the chunks of a span.

  \<^bold>\<open>What is shown.\<close>  Whole boots, from the ten pairs of records that arming, applying, confirming and reverting write: all
    or nothing under any cut, completion with enough power from nine of them (the tenth, ARMADO over PREPARADO, never closes), order of confirmation,
    repeatable rescues.  The client: arming, for the first time or over the journals of an earlier attempt, leaves the installed system as it is and commits with one sector pair;
    an armed operation is installed by the next boot; a download stores exactly the files of the pack or stops.
    Durable records: torn writes never yield half a record, the newest valid slot wins, written records
    read back.  The decision table: never a normal boot over a mixture, never two operations
    confused.  The lock: what is armed stays protected.  Validation of manifests against a reference,
    coverage and bounds of the download plan, no version oscillation, retention and identity.  The logs:
    the ring refines the history of its messages, a struck out secret leaves no trace, a drain writes
    everything pending within the limits of the files.  The disk: a table fitted to a disk, or with a grown root, has no
    overlaps; a slide taken up where it was stopped copies every sector; a whole resize leaves every sector at its new place.  The file
    system: whenever power fails during an operation, mounting finds the tree of before or the tree of after, and all of its blocks intact;
    insertion and deletion in the tree are those of a map; creating a file or appending to one does it completely or reports an error and leaves
    every file as it was; a created file is read back by a later mount.  Seven
    error theorems show behaviours that the sources do not intend; they are listed as findings.

  \<^bold>\<open>Termination.\<close>  The loops of the sources are structural except the chunks of a range (\<open>trozos\<close>), the
    reception of a chunk (\<open>recibir\<close>), the kernel copy (\<open>kernel_loop\<close>), the search of secrets (\<open>tachar_loop\<close>) and the
    spans of changed sectors (\<open>fin_tramo\<close>, \<open>tramos_loop\<close>), a slide (\<open>slide_loop\<close>) and the sectors of a table (\<open>trozos_sector\<close>), which have measures.  The passes of a drain are limited
    by the source itself (\<open>MAX_PASADAS\<close>), and the limit is proved to be enough.  The file system adds the measured loops
    \<open>busca_hueco\<close>, \<open>alloc_extent_loop\<close>, \<open>lee_tramo\<close>, \<open>sondeo\<close> and \<open>escribe_datos\<close>.  Its recursions over the nodes of a device, which
    could hold a cycle, take a number of levels (\<open>PROFUNDIDAD\<close>, 256, since the level of a node is a byte); \<open>scan_range_ok\<close>, \<open>find_first_ok\<close> and
    \<open>encoge_ok\<close> prove that it is enough for every tree of at most that many levels.

  \<^bold>\<open>Not modelled.\<close>  Directories (creating one never fails and an absent parent is never observed), the messages for
    the user, the command line, HTTP, the provisioning of a live medium and the recovery of another disk
    (\<open>cmd_recuperar\<close>, \<open>cmd_transicion\<close>), the FAT search of the ESP slots, and the rest of the kernel and of the
    user programs: hardware drivers, memory, processes, the other file systems (sosomfs and the FAT of the ESP), language models, windows and
    shells, on which the update depends only through the operations above.  Of sosofs, the listing of
    directories, the image builder and the space report are left out.  Removing, renaming, truncating, making directories and setting times are
    modelled and covered by the theorem on power cuts; only creating and appending have theorems on their results as well.
\<close>

end
